(* ===== verification/Prelude.thy ===== *)
theory Prelude
  imports Main "HOL-Library.Multiset" "HOL-Library.AList"
begin

text \<open>
  Shared vocabulary of the development: the theorem collections that the component
  theories fill, and the generic facts on lists, options and maps that more than one
  component needs.
\<close>

named_theorems row_simps "projections and updates of table rows"
named_theorems triple_intros "introduction rules of the program logic"
named_theorems step_intros "atomic database steps of the handlers"

subsection \<open>Options and lists\<close>

lemma sum_list_nonneg_le_member:
  fixes xs :: "'a::linordered_idom list"
  assumes "\<forall>x \<in> set xs. 0 \<le> x" and "x \<in> set xs"
  shows "x \<le> sum_list xs"
  using assms
proof (induction xs)
  case Nil
  then show ?case by simp
next
  case (Cons y ys)
  have "0 \<le> sum_list ys"
    using Cons.prems(1) by (intro sum_list_nonneg) auto
  with Cons show ?case
    by (cases "x = y") (auto intro: add_increasing)
qed

lemma sum_list_mset_eq:
  fixes f :: "'a \<Rightarrow> 'b::comm_monoid_add"
  assumes "mset xs = mset ys"
  shows "sum_list (map f xs) = sum_list (map f ys)"
proof -
  have "mset (map f xs) = mset (map f ys)" using assms by simp
  then show ?thesis by (simp only: sum_mset_sum_list [symmetric])
qed

lemma distinct_map_filter_sub:
  "distinct (map f xs) \<Longrightarrow> distinct (map f (filter P xs))"
  by (induction xs) auto

lemma distinct_map_sort_key: "distinct (map f (sort_key g xs)) = distinct (map f xs)"
proof -
  have "mset (map f (sort_key g xs)) = mset (map f xs)" by simp
  then show ?thesis by (rule mset_eq_imp_distinct_iff)
qed

lemma map_of_distinct_unique:
  "distinct (map fst xs) \<Longrightarrow> (k, v) \<in> set xs \<Longrightarrow> map_of xs k = Some v"
  by simp

subsection \<open>Slicing a list into pieces of bounded size\<close>

text \<open>
  The loop \<open>for (i = 0; i < xs.length; i += n) xs.slice(i, i + n)\<close>. The source
  checks that \<open>n\<close> is positive before it enters the loop; for \<open>n = 0\<close> the loop
  would not advance, and \<open>chunks\<close> is only used where the check has passed.
\<close>

fun chunks :: "nat \<Rightarrow> 'a list \<Rightarrow> 'a list list" where
  "chunks n xs = (if xs = [] \<or> n = 0 then [] else take n xs # chunks n (drop n xs))"

declare chunks.simps [simp del]

lemma chunks_Nil [simp]: "chunks n [] = []"
  by (simp add: chunks.simps)

lemma concat_chunks: "0 < n \<Longrightarrow> concat (chunks n xs) = xs"
proof (induction n xs rule: chunks.induct)
  case (1 n xs)
  then show ?case
    by (cases "xs = []") (simp_all add: chunks.simps [of n xs])
qed

lemma chunks_bounds: "c \<in> set (chunks n xs) \<Longrightarrow> c \<noteq> [] \<and> length c \<le> n \<and> set c \<subseteq> set xs"
proof (induction n xs rule: chunks.induct)
  case (1 n xs)
  show ?case
  proof (cases "xs = [] \<or> n = 0")
    case True
    with "1.prems" show ?thesis by (simp add: chunks.simps)
  next
    case False
    with "1.prems" consider "c = take n xs" | "c \<in> set (chunks n (drop n xs))"
      by (auto simp: chunks.simps [of n xs])
    then show ?thesis
    proof cases
      case 1
      with False show ?thesis by (auto dest: in_set_takeD)
    next
      case 2
      with "1.IH" False have "c \<noteq> [] \<and> length c \<le> n \<and> set c \<subseteq> set (drop n xs)"
        by blast
      then show ?thesis by (auto dest: in_set_dropD)
    qed
  qed
qed

subsection \<open>Tables: lists of rows with an identifier\<close>

text \<open>
  A database table is the list of its rows, each paired with its primary key, in the
  order of insertion. \<open>update_where\<close> and \<open>count_where\<close> are the effect and the
  affected-row count of an SQL UPDATE (the driver reports the rows the WHERE clause
  found).
\<close>

type_synonym 'r table = "(nat \<times> 'r) list"

definition update_where :: "(nat \<Rightarrow> 'r \<Rightarrow> bool) \<Rightarrow> (nat \<Rightarrow> 'r \<Rightarrow> 'r) \<Rightarrow> 'r table \<Rightarrow> 'r table" where
  "update_where P f t = map (\<lambda>(i, r). (i, if P i r then f i r else r)) t"

definition count_where :: "(nat \<Rightarrow> 'r \<Rightarrow> bool) \<Rightarrow> 'r table \<Rightarrow> nat" where
  "count_where P t = length (filter (\<lambda>(i, r). P i r) t)"

lemma map_fst_update_where [simp]: "map fst (update_where P f t) = map fst t"
  by (induction t) (auto simp: update_where_def)

lemma dom_update_where [simp]: "fst ` set (update_where P f t) = fst ` set t"
  by (metis list.set_map map_fst_update_where)

lemma set_update_where:
  "(i, r') \<in> set (update_where P f t) \<longleftrightarrow>
     (\<exists>r. (i, r) \<in> set t \<and> r' = (if P i r then f i r else r))"
  by (force simp: update_where_def)

lemma map_of_update_where:
  "map_of (update_where P f t) i =
     (case map_of t i of None \<Rightarrow> None | Some r \<Rightarrow> Some (if P i r then f i r else r))"
  by (induction t) (auto simp: update_where_def)

lemma update_where_id: "(\<And>i r. (i, r) \<in> set t \<Longrightarrow> P i r \<Longrightarrow> f i r = r) \<Longrightarrow> update_where P f t = t"
  by (induction t) (auto simp: update_where_def)

lemma update_where_cong:
  "(\<And>i r. (i, r) \<in> set t \<Longrightarrow> P i r = Q i r) \<Longrightarrow> update_where P f t = update_where Q f t"
  by (induction t) (auto simp: update_where_def)

lemma count_where_cong:
  "(\<And>i r. (i, r) \<in> set t \<Longrightarrow> P i r = Q i r) \<Longrightarrow> count_where P t = count_where Q t"
  unfolding count_where_def by (metis (mono_tags, lifting) case_prod_unfold filter_cong prod.collapse)

lemma count_where_0: "count_where P t = 0 \<longleftrightarrow> (\<forall>(i, r) \<in> set t. \<not> P i r)"
  by (auto simp: count_where_def filter_empty_conv)

lemma update_where_none: "count_where P t = 0 \<Longrightarrow> update_where P f t = t"
  by (rule update_where_id) (auto simp: count_where_0)

lemma count_where_id:
  "distinct (map fst t) \<Longrightarrow>
     count_where (\<lambda>i r. i = k \<and> P r) t = (case map_of t k of Some r \<Rightarrow> if P r then 1 else 0 | None \<Rightarrow> 0)"
proof (induction t)
  case Nil
  then show ?case by (simp add: count_where_def)
next
  case (Cons x t)
  obtain i r where x: "x = (i, r)" by force
  show ?case
  proof (cases "i = k")
    case True
    with Cons.prems have "map_of t k = None" by (auto simp: x map_of_eq_None_iff)
    with True Cons show ?thesis by (simp add: x count_where_def)
  next
    case False
    with Cons show ?thesis by (auto simp: x count_where_def)
  qed
qed

text \<open>
  \<open>UPDATE ... WHERE id IN (ids)\<close> found as many rows as there are ids: then every id
  is the key of a row that satisfies the rest of the clause.
\<close>

lemma hit_keys:
  assumes "distinct (map fst t)" and "distinct ids"
    and "count_where (\<lambda>i r. i \<in> set ids \<and> P r) t = length ids"
  shows "mset (map fst (filter (\<lambda>(i, r). i \<in> set ids \<and> P r) t)) = mset ids"
proof -
  let ?hit = "map fst (filter (\<lambda>(i, r). i \<in> set ids \<and> P r) t)"
  have d: "distinct ?hit" using assms(1) by (rule distinct_map_filter_sub)
  have sub: "set ?hit \<subseteq> set ids" by auto
  have "card (set ?hit) = length ids"
    using distinct_card [OF d] assms(3) by (simp add: count_where_def)
  then have "set ?hit = set ids"
    using sub distinct_card [OF assms(2)] by (intro card_subset_eq) auto
  with d assms(2) show ?thesis by (simp only: set_eq_iff_mset_eq_distinct)
qed

lemma count_where_ids_all:
  assumes "distinct (map fst t)" and "distinct ids"
    and "count_where (\<lambda>i r. i \<in> set ids \<and> P r) t = length ids" and "k \<in> set ids"
  shows "\<exists>r. map_of t k = Some r \<and> P r"
proof -
  have "set (map fst (filter (\<lambda>(i, r). i \<in> set ids \<and> P r) t)) = set ids"
    using hit_keys [OF assms(1-3)] by (rule mset_eq_setD)
  with assms(4) have "k \<in> set (map fst (filter (\<lambda>(i, r). i \<in> set ids \<and> P r) t))" by simp
  then obtain r where "(k, r) \<in> set t" "P r" by auto
  with assms(1) show ?thesis by (auto intro: map_of_is_SomeI)
qed

text \<open>Sum of a column before and after an UPDATE that subtracts \<open>g id\<close> from the rows it finds.\<close>

lemma sum_update_where_diff:
  fixes v :: "'r \<Rightarrow> 'n::ab_group_add"
  assumes "\<And>i r. P i r \<Longrightarrow> v (f i r) = v r - g i"
  shows "sum_list (map (v \<circ> snd) (update_where P f t)) =
         sum_list (map (v \<circ> snd) t) - sum_list (map g (map fst (filter (\<lambda>(i, r). P i r) t)))"
  using assms by (induction t) (auto simp: update_where_def algebra_simps)

lemma sum_update_where_same:
  assumes "\<And>i r. P i r \<Longrightarrow> v (f i r) = v r"
  shows "map (v \<circ> snd) (update_where P f t) = map (v \<circ> snd) t"
  using assms by (induction t) (auto simp: update_where_def)

lemma filter_key_once: "distinct (map f xs) \<Longrightarrow> k \<in> f ` set xs \<Longrightarrow> length (filter (\<lambda>x. f x = k) xs) = 1"
proof (induction xs)
  case (Cons x xs)
  then show ?case by (cases "f x = k") (auto simp: filter_empty_conv image_iff)
qed simp

subsection \<open>Tables in the order of their keys\<close>

lemma map_of_insort: "k \<notin> fst ` set t \<Longrightarrow> map_of (insort_key fst (k, r) t) i = (if i = k then Some r else map_of t i)"
  by (induction t) auto

lemma fst_insort: "map fst (insort_key fst x t) = insort (fst x) (map fst t)"
  by (induction t) auto

definition ordered :: "('k::linorder \<times> 'r) list \<Rightarrow> bool" where
  "ordered t \<longleftrightarrow> sorted (map fst t) \<and> distinct (map fst t)"

lemma ordered_insort: "ordered t \<Longrightarrow> map_of t (fst x) = None \<Longrightarrow> ordered (insort_key fst x t)"
  by (auto simp: ordered_def fst_insort sorted_insort distinct_insort map_of_eq_None_iff)

lemma map_fst_update_in: "k \<in> fst ` set t \<Longrightarrow> map fst (AList.update k v t) = map fst t"
  by (induction t) auto

lemma ordered_filter: "ordered t \<Longrightarrow> ordered (filter P t)"
  unfolding ordered_def by (auto simp: distinct_map_filter_sub intro: sorted_filter)

end
