(* ===== verification/Js_Number.thy ===== *)
theory Js_Number
  imports Prelude Complex_Main
begin

text \<open>
  JavaScript numbers. A finite number is the rational it denotes; every arithmetic
  operation of the source rounds its exact result with \<open>fl\<close>, the IEEE 754 binary64
  rounding to the nearest 53-bit significand, ties to even. The exponent range is not
  bounded: overflow to Infinity (magnitudes from 2^1024) and subnormal results
  (magnitudes below 2^-1022) are outside the model. NaN and the infinities appear as
  the value \<open>JNonFinite\<close> of the dynamic values below.
\<close>

type_synonym num = rat

subsection \<open>Binary exponent of a positive rational\<close>

function ilog2 :: "int \<Rightarrow> nat" where
  "ilog2 n = (if n < 2 then 0 else Suc (ilog2 (n div 2)))"
  by pat_completeness auto
termination
  by (relation "measure nat") auto

declare ilog2.simps [simp del]

lemma ilog2_bounds: "0 < n \<Longrightarrow> 2 ^ ilog2 n \<le> n \<and> n < 2 * 2 ^ ilog2 n"
proof (induction n rule: ilog2.induct)
  case (1 n)
  show ?case
  proof (cases "n < 2")
    case True
    with "1.prems" show ?thesis by (simp add: ilog2.simps [of n])
  next
    case False
    with "1.IH" have "2 ^ ilog2 (n div 2) \<le> n div 2 \<and> n div 2 < 2 * 2 ^ ilog2 (n div 2)"
      by auto
    with False show ?thesis by (auto simp: ilog2.simps [of n])
  qed
qed

definition expo :: "num \<Rightarrow> int" where
  "expo x =
     (let nd = quotient_of x;
          e = int (ilog2 (fst nd)) - int (ilog2 (snd nd))
      in if 2 powi e \<le> x then e else e - 1)"

lemma powi_diff_nat: "(2::rat) powi (int a - int b) = 2 ^ a / 2 ^ b"
  by (simp add: power_int_diff)

lemma expo_bounds:
  assumes "0 < x"
  shows "2 powi expo x \<le> x" and "x < 2 powi (expo x + 1)"
proof -
  obtain n d where nd: "quotient_of x = (n, d)" by force
  have d: "0 < d" using nd by (rule quotient_of_denom_pos)
  have x: "x = of_int n / of_int d" using nd by (rule quotient_of_div)
  have n: "0 < n" using assms d x by (simp add: zero_less_divide_iff)
  define a b where "a = ilog2 n" and "b = ilog2 d"
  have na: "2 ^ a \<le> n" "n < 2 * 2 ^ a"
    using ilog2_bounds [OF n] by (simp_all add: a_def)
  have db: "2 ^ b \<le> d" "d < 2 * 2 ^ b"
    using ilog2_bounds [OF d] by (simp_all add: b_def)
  have na': "(2::rat) ^ a \<le> of_int n" "of_int n < (2::rat) * 2 ^ a"
    using of_int_le_iff [where 'a = rat, THEN iffD2, OF na(1)]
      of_int_less_iff [where 'a = rat, THEN iffD2, OF na(2)] by simp_all
  have db': "(2::rat) ^ b \<le> of_int d" "of_int d < (2::rat) * 2 ^ b"
    using of_int_le_iff [where 'a = rat, THEN iffD2, OF db(1)]
      of_int_less_iff [where 'a = rat, THEN iffD2, OF db(2)] by simp_all
  have dpos: "(0::rat) < of_int d" using d by simp
  have e: "expo x = (if 2 ^ a / 2 ^ b \<le> x then int a - int b else int a - int b - 1)"
    by (simp add: expo_def nd a_def b_def powi_diff_nat Let_def)
  have up: "x < 2 * 2 ^ a / 2 ^ b"
  proof -
    have "x < 2 * 2 ^ a / of_int d"
      using na'(2) dpos by (simp add: x divide_strict_right_mono)
    also have "\<dots> \<le> 2 * 2 ^ a / 2 ^ b"
      using db'(1) by (intro divide_left_mono) (auto intro!: mult_pos_pos dpos)
    finally show ?thesis .
  qed
  have lo: "2 ^ a / (2 * 2 ^ b) \<le> x"
  proof -
    have "2 ^ a / (2 * 2 ^ b) \<le> (2::rat) ^ a / of_int d"
      using db'(2) dpos by (intro divide_left_mono) (auto intro!: mult_pos_pos)
    also have "\<dots> \<le> x"
      using na'(1) dpos by (simp add: x divide_right_mono)
    finally show ?thesis .
  qed
  have p1: "(2::rat) powi (int a - int b - 1) = 2 ^ a / (2 * 2 ^ b)"
    by (simp add: power_int_diff)
  have p2: "(2::rat) powi (int a - int b + 1) = 2 * 2 ^ a / 2 ^ b"
    by (simp add: power_int_diff power_int_add)
  show "2 powi expo x \<le> x"
    using lo by (simp add: e powi_diff_nat p1)
  show "x < 2 powi (expo x + 1)"
    using up by (simp add: e powi_diff_nat p2)
qed

subsection \<open>Rounding to the nearest integer, ties to even\<close>

definition rhe :: "rat \<Rightarrow> int" where
  "rhe x =
     (let f = \<lfloor>x\<rfloor>; r = x - of_int f
      in if r < 1/2 then f else if 1/2 < r then f + 1 else if even f then f else f + 1)"

lemma rhe_cases: "rhe x = \<lfloor>x\<rfloor> \<or> rhe x = \<lfloor>x\<rfloor> + 1"
  by (simp add: rhe_def Let_def)

lemma rhe_of_int [simp]: "rhe (of_int n) = n"
  by (simp add: rhe_def)

lemma rhe_mono: assumes "x \<le> y" shows "rhe x \<le> rhe y"
proof (cases "\<lfloor>x\<rfloor> = \<lfloor>y\<rfloor>")
  case True
  with assms show ?thesis by (auto simp: rhe_def Let_def)
next
  case False
  with assms have "\<lfloor>x\<rfloor> + 1 \<le> \<lfloor>y\<rfloor>" using floor_mono by fastforce
  with rhe_cases [of x] rhe_cases [of y] show ?thesis by linarith
qed

lemma rhe_ge: "of_int n \<le> x \<Longrightarrow> n \<le> rhe x"
  using rhe_mono [of "of_int n" x] by simp

lemma rhe_le: "x \<le> of_int n \<Longrightarrow> rhe x \<le> n"
  using rhe_mono [of x "of_int n"] by simp

lemma rhe_error: "\<bar>of_int (rhe x) - x\<bar> \<le> 1/2"
proof -
  have "of_int \<lfloor>x\<rfloor> \<le> x" "x < of_int \<lfloor>x\<rfloor> + 1" by linarith+
  then show ?thesis
    by (simp add: rhe_def Let_def abs_if) linarith
qed

subsection \<open>Rounding to binary64\<close>

definition ulp :: "num \<Rightarrow> num" where
  "ulp x = 2 powi (expo x - 52)"

definition fl_pos :: "num \<Rightarrow> num" where
  "fl_pos x = of_int (rhe (x / ulp x)) * ulp x"

definition fl :: "num \<Rightarrow> num" where
  "fl x = (if x = 0 then 0 else if 0 < x then fl_pos x else - fl_pos (- x))"

lemma ulp_pos [simp]: "0 < ulp x"
  by (simp add: ulp_def)

lemma ulp_nonzero [simp]: "ulp x \<noteq> 0"
  using ulp_pos [of x] by linarith

lemma scaled_bounds:
  assumes "0 < x"
  shows "2 ^ 52 \<le> x / ulp x" and "x / ulp x < 2 ^ 53"
proof -
  have a: "(2::rat) powi expo x = 2 ^ 52 * ulp x"
    unfolding ulp_def by (simp add: power_int_diff)
  have b: "(2::rat) powi (expo x + 1) = 2 ^ 53 * ulp x"
    unfolding ulp_def by (simp add: power_int_diff power_int_add)
  show "2 ^ 52 \<le> x / ulp x"
    using expo_bounds(1) [OF assms] by (simp add: a pos_le_divide_eq)
  show "x / ulp x < 2 ^ 53"
    using expo_bounds(2) [OF assms] unfolding b by (simp add: pos_divide_less_eq)
qed

lemma fl_pos_bounds:
  assumes "0 < x"
  shows "2 powi expo x \<le> fl_pos x" and "fl_pos x \<le> 2 powi (expo x + 1)"
proof -
  have a: "(2::rat) powi expo x = of_int (2 ^ 52) * ulp x"
    unfolding ulp_def by (simp add: power_int_diff)
  have b: "(2::rat) powi (expo x + 1) = of_int (2 ^ 53) * ulp x"
    unfolding ulp_def by (simp add: power_int_diff power_int_add)
  have "2 ^ 52 \<le> rhe (x / ulp x)"
    using scaled_bounds(1) [OF assms] by (intro rhe_ge) simp
  then show "2 powi expo x \<le> fl_pos x"
    unfolding a fl_pos_def by (intro mult_right_mono) (simp_all only: of_int_le_iff less_imp_le ulp_pos)
  have "rhe (x / ulp x) \<le> 2 ^ 53"
    using scaled_bounds(2) [OF assms] by (intro rhe_le) simp
  then show "fl_pos x \<le> 2 powi (expo x + 1)"
    unfolding b fl_pos_def by (intro mult_right_mono) (simp_all only: of_int_le_iff less_imp_le ulp_pos)
qed

lemma fl_pos_pos: "0 < x \<Longrightarrow> 0 < fl_pos x"
  using fl_pos_bounds(1) [of x] zero_less_power_int [of "2::rat" "expo x"] by linarith

lemma powi_mono: "a \<le> b \<Longrightarrow> (2::rat) powi a \<le> 2 powi b"
  by (rule power_int_increasing) auto

lemma expo_mono: assumes "0 < x" "x \<le> y" shows "expo x \<le> expo y"
proof (rule ccontr)
  assume "\<not> expo x \<le> expo y"
  then have "(2::rat) powi (expo y + 1) \<le> 2 powi expo x" by (intro powi_mono) simp
  with expo_bounds(2) [of y] expo_bounds(1) [of x] assms show False by linarith
qed

lemma expo_unique:
  assumes "0 < x" "2 powi e \<le> x" "x < 2 powi (e + 1)"
  shows "expo x = e"
proof (rule ccontr)
  assume "expo x \<noteq> e"
  then consider "e + 1 \<le> expo x" | "expo x + 1 \<le> e" by linarith
  then show False
  proof cases
    case 1
    then have "(2::rat) powi (e + 1) \<le> 2 powi expo x" by (rule powi_mono)
    with assms expo_bounds(1) [of x] show False by linarith
  next
    case 2
    then have "(2::rat) powi (expo x + 1) \<le> 2 powi e" by (rule powi_mono)
    with assms expo_bounds(2) [of x] show False by linarith
  qed
qed

lemma fl_pos_mono: assumes "0 < x" "x \<le> y" shows "fl_pos x \<le> fl_pos y"
proof (cases "expo x = expo y")
  case True
  then have u: "ulp x = ulp y" by (simp add: ulp_def)
  have "rhe (x / ulp x) \<le> rhe (y / ulp y)"
    using assms by (intro rhe_mono) (simp add: u divide_right_mono less_imp_le)
  then show ?thesis
    unfolding fl_pos_def u by (intro mult_right_mono) (simp_all add: less_imp_le)
next
  case False
  with expo_mono [OF assms] have "expo x + 1 \<le> expo y" by simp
  then have "(2::rat) powi (expo x + 1) \<le> 2 powi expo y" by (rule powi_mono)
  with fl_pos_bounds(2) [of x] fl_pos_bounds(1) [of y] assms show ?thesis by linarith
qed

lemma fl_0 [simp]: "fl 0 = 0"
  by (simp add: fl_def)

lemma fl_minus [simp]: "fl (- x) = - fl x"
  by (auto simp: fl_def)

lemma fl_pos_iff [simp]: "0 < fl x \<longleftrightarrow> 0 < x"
  using fl_pos_pos [of x] fl_pos_pos [of "- x"] by (auto simp: fl_def)

lemma fl_neg_iff [simp]: "fl x < 0 \<longleftrightarrow> x < 0"
  using fl_pos_iff [of "- x"] by simp

lemma fl_eq_0_iff [simp]: "fl x = 0 \<longleftrightarrow> x = 0"
  using fl_pos_iff [of x] fl_neg_iff [of x] by linarith

lemma fl_nonneg_iff [simp]: "0 \<le> fl x \<longleftrightarrow> 0 \<le> x"
  using fl_neg_iff [of x] by (simp only: not_less [symmetric])

text \<open>Rounding is monotone: the fact behind every ordering property of the pool's arithmetic.\<close>

lemma fl_mono: assumes "x \<le> y" shows "fl x \<le> fl y"
proof -
  consider "0 < x" | "x \<le> 0" "0 \<le> y" | "y < 0" by linarith
  then show ?thesis
  proof cases
    case 1
    with assms fl_pos_mono [of x y] show ?thesis by (simp add: fl_def)
  next
    case 2
    then have "fl x \<le> 0" "0 \<le> fl y"
      using fl_pos_iff [of x] fl_neg_iff [of y] by linarith+
    then show ?thesis by linarith
  next
    case 3
    with assms fl_pos_mono [of "- y" "- x"] show ?thesis by (simp add: fl_def)
  qed
qed

subsection \<open>Exactness and the relative error\<close>

lemma fl_posI:
  assumes "0 < x" and "x = of_int n * ulp x"
  shows "fl x = x"
proof -
  have "x / ulp x = of_int n" by (subst assms(2)) simp
  then show ?thesis using assms by (simp add: fl_def fl_pos_def)
qed

lemma fl_of_int_pos:
  assumes "0 < n" and "n \<le> 2 ^ 53"
  shows "fl (of_int n) = of_int n"
proof (cases "expo (of_int n) \<le> 52")
  case True
  let ?k = "nat (52 - expo (of_int n :: rat))"
  have "ulp (of_int n) = 1 / 2 ^ ?k"
    using True by (simp add: ulp_def power_int_def inverse_eq_divide power_one_over)
  then have "(of_int n :: rat) = of_int (n * 2 ^ ?k) * ulp (of_int n)" by simp
  with assms(1) show ?thesis by (intro fl_posI [of _ "n * 2 ^ ?k"]) simp_all
next
  case False
  have n53: "(of_int n :: rat) \<le> 2 ^ 53"
    using of_int_le_iff [where 'a = rat, THEN iffD2, OF assms(2)] by simp
  have pos: "(0::rat) < of_int n" using assms(1) by simp
  from False have "(2::rat) powi 53 \<le> 2 powi expo (of_int n :: rat)" by (intro powi_mono) simp
  also have "\<dots> \<le> of_int n" using pos by (rule expo_bounds(1))
  finally have "(2::rat) ^ 53 \<le> of_int n" by (simp only: power_int_numeral)
  then have "expo (of_int n :: rat) = 53"
    using n53 by (intro expo_unique [OF pos]) simp_all
  then have "ulp (of_int n) = 2" by (simp add: ulp_def)
  moreover have "(of_int n :: rat) = 2 ^ 53" using \<open>2 ^ 53 \<le> of_int n\<close> n53 by (rule antisym [rotated])
  ultimately show ?thesis using pos by (intro fl_posI [of _ "2 ^ 52"]) simp_all
qed

text \<open>Integers up to 2^53 in magnitude are represented exactly.\<close>

lemma fl_of_int [simp]: "\<bar>n\<bar> \<le> 2 ^ 53 \<Longrightarrow> fl (of_int n) = of_int n"
  using fl_of_int_pos [of n] fl_of_int_pos [of "- n"] fl_minus [of "of_int n"]
  by (cases "0 < n"; cases "n = 0") (auto simp: abs_if split: if_splits)

lemma fl_Ints: "x \<in> \<int> \<Longrightarrow> \<bar>x\<bar> \<le> 2 ^ 53 \<Longrightarrow> fl x = x"
proof -
  assume "x \<in> \<int>" and b: "\<bar>x\<bar> \<le> 2 ^ 53"
  then obtain n where x: "x = of_int n" by (auto elim: Ints_cases)
  from b have "\<bar>n\<bar> \<le> 2 ^ 53"
    unfolding x by (metis of_int_abs of_int_le_iff of_int_numeral of_int_power)
  then show ?thesis by (simp add: x)
qed

lemma fl_pos_fixed: assumes "0 < x" shows "fl (fl_pos x) = fl_pos x"
proof -
  let ?m = "rhe (x / ulp x)"
  have pos: "0 < fl_pos x" using assms by (rule fl_pos_pos)
  show ?thesis
  proof (cases "fl_pos x < 2 powi (expo x + 1)")
    case True
    then have "expo (fl_pos x) = expo x" using fl_pos_bounds(1) [OF assms] by (intro expo_unique pos)
    then have "ulp (fl_pos x) = ulp x" by (simp add: ulp_def)
    then show ?thesis by (intro fl_posI [OF pos, of ?m]) (simp add: fl_pos_def)
  next
    case False
    then have eq: "fl_pos x = 2 powi (expo x + 1)" using fl_pos_bounds(2) [OF assms] by linarith
    then have "expo (fl_pos x) = expo x + 1"
      by (intro expo_unique pos) (simp_all add: power_int_add)
    then have "fl_pos x = of_int (2 ^ 52) * ulp (fl_pos x)" by (simp add: ulp_def eq power_int_diff power_int_add)
    then show ?thesis by (intro fl_posI [OF pos])
  qed
qed

lemma fl_fl [simp]: "fl (fl x) = fl x"
  using fl_pos_fixed [of x] fl_pos_fixed [of "- x"] by (auto simp: fl_def [of x])

lemma fl_in_Ints: assumes "x \<in> \<int>" shows "fl x \<in> \<int>"
proof -
  have big: "fl_pos y \<in> \<int>" if "2 ^ 53 < y" for y :: num
  proof -
    have y: "0 < y" using that by (rule less_trans [rotated]) simp
    have "52 \<le> expo y"
    proof (rule ccontr)
      assume "\<not> 52 \<le> expo y"
      then have "(2::rat) powi (expo y + 1) \<le> 2 powi 53" by (intro powi_mono) simp
      with expo_bounds(2) [OF y] that show False by simp
    qed
    then have "ulp y = of_int (2 ^ nat (expo y - 52))" by (simp add: ulp_def power_int_def)
    then show ?thesis unfolding fl_pos_def by (simp only: Ints_mult Ints_of_int)
  qed
  show ?thesis
  proof (cases "\<bar>x\<bar> \<le> 2 ^ 53")
    case True
    with assms show ?thesis by (simp add: fl_Ints)
  next
    case False
    then consider "2 ^ 53 < x" | "2 ^ 53 < - x" by linarith
    then show ?thesis using big [of x] big [of "- x"] by cases (auto simp: fl_def)
  qed
qed

lemma fl_pos_error: assumes "0 < x" shows "\<bar>fl_pos x - x\<bar> \<le> x / 2 ^ 53"
proof -
  have "fl_pos x - x = (of_int (rhe (x / ulp x)) - x / ulp x) * ulp x"
    by (simp add: fl_pos_def left_diff_distrib)
  then have "\<bar>fl_pos x - x\<bar> = \<bar>of_int (rhe (x / ulp x)) - x / ulp x\<bar> * ulp x"
    by (simp only: abs_mult abs_of_pos [OF ulp_pos])
  also have "\<dots> \<le> 1/2 * ulp x"
    by (intro mult_right_mono rhe_error) (simp add: less_imp_le)
  also have "\<dots> \<le> x / 2 ^ 53"
    using scaled_bounds(1) [OF assms] by (simp add: pos_le_divide_eq field_simps)
  finally show ?thesis .
qed

lemma fl_error: "\<bar>fl x - x\<bar> \<le> \<bar>x\<bar> / 2 ^ 53"
proof -
  consider "x = 0" | "0 < x" | "0 < - x" by linarith
  then show ?thesis
  proof cases
    case 3
    have "\<bar>fl x - x\<bar> = \<bar>fl_pos (- x) - (- x)\<bar>" using 3 by (simp add: fl_def abs_minus_commute)
    with fl_pos_error [OF 3] 3 show ?thesis by simp
  qed (use fl_pos_error [of x] in \<open>simp_all add: fl_def\<close>)
qed

subsection \<open>Math.floor, Math.round and the remainder operator\<close>

text \<open>\<open>Math.round\<close> rounds halves towards plus infinity; \<open>%\<close> truncates.\<close>

definition js_floor :: "num \<Rightarrow> num" where
  "js_floor x = of_int \<lfloor>x\<rfloor>"

definition js_round :: "num \<Rightarrow> num" where
  "js_round x = of_int \<lfloor>x + 1/2\<rfloor>"

definition js_mod :: "num \<Rightarrow> num \<Rightarrow> num" where
  "js_mod x y = (let q = x / y in x - y * (if 0 \<le> q then of_int \<lfloor>q\<rfloor> else of_int \<lceil>q\<rceil>))"

lemma js_floor_le: "js_floor x \<le> x"
  by (simp add: js_floor_def)

lemma js_floor_mono: "x \<le> y \<Longrightarrow> js_floor x \<le> js_floor y"
  by (simp add: js_floor_def floor_mono)

lemma js_floor_Ints [simp]: "js_floor x \<in> \<int>" "js_round x \<in> \<int>"
  by (simp_all add: js_floor_def js_round_def)

lemma js_round_nonneg: "0 \<le> x \<Longrightarrow> 0 \<le> js_round x"
  by (simp add: js_round_def)

lemma js_mod_bounds:
  assumes "0 \<le> x" and "0 < y"
  shows "0 \<le> js_mod x y" and "js_mod x y < y" and "js_mod x y \<le> x"
proof -
  have q: "0 \<le> x / y" using assms by simp
  have e: "js_mod x y = x - y * of_int \<lfloor>x / y\<rfloor>" using q by (simp add: js_mod_def Let_def)
  have f: "of_int \<lfloor>x / y\<rfloor> \<le> x / y" "x / y < of_int \<lfloor>x / y\<rfloor> + 1" by linarith+
  have "y * of_int \<lfloor>x / y\<rfloor> \<le> x" using mult_left_mono [OF f(1), of y] assms(2) by simp
  then show "0 \<le> js_mod x y" by (simp add: e)
  have "x < y * (of_int \<lfloor>x / y\<rfloor> + 1)" using f(2) assms(2) by (simp add: pos_divide_less_eq mult.commute)
  then show "js_mod x y < y" by (simp add: e distrib_left)
  have "0 \<le> y * of_int \<lfloor>x / y\<rfloor>" using assms q by simp
  then show "js_mod x y \<le> x" by (simp add: e)
qed

lemma js_mod_multiple: "0 \<le> x \<Longrightarrow> 0 < y \<Longrightarrow> x - js_mod x y = y * of_int \<lfloor>x / y\<rfloor>"
  by (simp add: js_mod_def Let_def)

lemma js_mod_Ints: "x \<in> \<int> \<Longrightarrow> y \<in> \<int> \<Longrightarrow> js_mod x y \<in> \<int>"
  by (auto simp: js_mod_def Let_def)

subsection \<open>What clients rely on\<close>

text \<open>
  The laws of a rounding operation that the money computations use: it is monotone and
  does not move the integers up to 2^53. A linear taper computed with four rounded
  operations still starts at its base, never exceeds it and never rises.
\<close>

locale rounding =
  fixes rnd :: "num \<Rightarrow> num"
  assumes rnd_mono: "x \<le> y \<Longrightarrow> rnd x \<le> rnd y"
    and rnd_int: "x \<in> \<int> \<Longrightarrow> \<bar>x\<bar> \<le> 2 ^ 53 \<Longrightarrow> rnd x = x"
begin

lemma rnd_nonneg: "0 \<le> x \<Longrightarrow> 0 \<le> rnd x"
  using rnd_mono [of 0 x] rnd_int [of 0] by simp

lemma taper_le_base:
  assumes "base \<in> \<int>" "0 \<le> base" "base \<le> 2 ^ 53" "lo \<le> g" "lo \<le> hi"
  shows "rnd (base - rnd (rnd (g - lo) * rnd (base / rnd (hi - lo)))) \<le> base"
proof -
  have "0 \<le> rnd (base / rnd (hi - lo))"
    using assms by (intro rnd_nonneg divide_nonneg_nonneg) (auto intro: rnd_nonneg)
  moreover have "0 \<le> rnd (g - lo)" using assms(4) by (intro rnd_nonneg) simp
  ultimately have "0 \<le> rnd (g - lo) * rnd (base / rnd (hi - lo))" by simp
  then have "0 \<le> rnd (rnd (g - lo) * rnd (base / rnd (hi - lo)))" by (rule rnd_nonneg)
  then have "rnd (base - rnd (rnd (g - lo) * rnd (base / rnd (hi - lo)))) \<le> rnd base"
    by (intro rnd_mono) simp
  with assms show ?thesis by (simp add: rnd_int)
qed

lemma taper_antimono:
  assumes "0 \<le> base" "lo \<le> hi" "g \<le> g'"
  shows "rnd (base - rnd (rnd (g' - lo) * rnd (base / rnd (hi - lo)))) \<le>
         rnd (base - rnd (rnd (g - lo) * rnd (base / rnd (hi - lo))))"
proof -
  have "0 \<le> rnd (base / rnd (hi - lo))"
    using assms by (intro rnd_nonneg divide_nonneg_nonneg) (auto intro: rnd_nonneg)
  moreover have "rnd (g - lo) \<le> rnd (g' - lo)" using assms(3) by (intro rnd_mono) simp
  ultimately have "rnd (g - lo) * rnd (base / rnd (hi - lo)) \<le> rnd (g' - lo) * rnd (base / rnd (hi - lo))"
    by (simp add: mult_right_mono)
  then have "rnd (rnd (g - lo) * rnd (base / rnd (hi - lo))) \<le> rnd (rnd (g' - lo) * rnd (base / rnd (hi - lo)))"
    by (rule rnd_mono)
  then show ?thesis by (intro rnd_mono) simp
qed

end

interpretation dbl: rounding fl
  by unfold_locales (auto intro: fl_mono fl_Ints)

end
