(* ===== verification/Js_Value.thy ===== *)
theory Js_Value
  imports Js_Number
begin

text \<open>
  Dynamic JavaScript values: what JSON-RPC replies and database drivers hand to the
  code, with the conversions of the language the source applies to them. A string is a
  list of code units below 256. \<open>JErr m\<close> is an \<open>Error\<close> object with message
  \<open>m\<close>; \<open>JNonFinite\<close> stands for NaN and the infinities, which the source only
  ever separates from finite numbers.
\<close>

datatype jsval =
  JUndef | JNull | JBool bool | JNum num | JNonFinite | JStr string
| JArr "jsval list" | JObj "(string \<times> jsval) list" | JErr string

fun getf :: "jsval \<Rightarrow> string \<Rightarrow> jsval" where
  "getf (JObj fs) k = (case map_of fs k of None \<Rightarrow> JUndef | Some v \<Rightarrow> v)"
| "getf (JErr m) k = (if k = ''message'' then JStr m else JUndef)"
| "getf _ k = JUndef"

fun isRecord :: "jsval \<Rightarrow> bool" where
  "isRecord (JObj _) = True"
| "isRecord (JErr _) = True"
| "isRecord _ = False"

fun truthy :: "jsval \<Rightarrow> bool" where
  "truthy JUndef = False"
| "truthy JNull = False"
| "truthy (JBool b) = b"
| "truthy (JNum x) = (x \<noteq> 0)"
| "truthy (JStr s) = (s \<noteq> [])"
| "truthy _ = True"

fun as_string :: "jsval \<Rightarrow> string option" where
  "as_string (JStr s) = Some s"
| "as_string _ = None"

subsection \<open>Strings\<close>

definition is_space :: "char \<Rightarrow> bool" where
  "is_space c = (let n = of_char c :: nat in (9 \<le> n \<and> n \<le> 13) \<or> n = 32 \<or> n = 160)"

definition js_trim :: "string \<Rightarrow> string" where
  "js_trim s = rev (dropWhile is_space (rev (dropWhile is_space s)))"

definition lower_char :: "char \<Rightarrow> char" where
  "lower_char c =
     (let n = of_char c :: nat
      in if (65 \<le> n \<and> n \<le> 90) \<or> (192 \<le> n \<and> n \<le> 222 \<and> n \<noteq> 215) then char_of (n + 32) else c)"

definition js_toLowerCase :: "string \<Rightarrow> string" where
  "js_toLowerCase = map lower_char"

definition is_digit :: "char \<Rightarrow> bool" where
  "is_digit c = (let n = of_char c :: nat in 48 \<le> n \<and> n \<le> 57)"

definition hex_value :: "char \<Rightarrow> nat option" where
  "hex_value c =
     (let n = of_char c :: nat
      in if 48 \<le> n \<and> n \<le> 57 then Some (n - 48)
         else if 97 \<le> n \<and> n \<le> 102 then Some (n - 87)
         else if 65 \<le> n \<and> n \<le> 70 then Some (n - 55) else None)"

definition is_hex :: "char \<Rightarrow> bool" where
  "is_hex c = (hex_value c \<noteq> None)"

text \<open>Case-insensitive substring test, the regular expression \<open>/not found/i\<close>.\<close>

fun is_prefix_of :: "string \<Rightarrow> string \<Rightarrow> bool" where
  "is_prefix_of [] s = True"
| "is_prefix_of (c # cs) [] = False"
| "is_prefix_of (c # cs) (d # ds) = (c = d \<and> is_prefix_of cs ds)"

fun contains :: "string \<Rightarrow> string \<Rightarrow> bool" where
  "contains p [] = (p = [])"
| "contains p (c # cs) = (is_prefix_of p (c # cs) \<or> contains p cs)"

subsection \<open>Number(string)\<close>

fun digits_value :: "string \<Rightarrow> int \<Rightarrow> int" where
  "digits_value [] acc = acc"
| "digits_value (c # cs) acc = digits_value cs (10 * acc + int (of_char c - 48))"

fun radix_value :: "int \<Rightarrow> string \<Rightarrow> int \<Rightarrow> int option" where
  "radix_value b [] acc = Some acc"
| "radix_value b (c # cs) acc =
     (case hex_value c of None \<Rightarrow> None
      | Some d \<Rightarrow> if int d < b then radix_value b cs (b * acc + int d) else None)"

definition exponent_part :: "string \<Rightarrow> int option" where
  "exponent_part s =
     (case s of [] \<Rightarrow> Some 0
      | c # r \<Rightarrow>
          if c \<noteq> CHR ''e'' \<and> c \<noteq> CHR ''E'' then None
          else (let neg = (case r of d # _ \<Rightarrow> d = CHR ''-'' | [] \<Rightarrow> False);
                    ds = (case r of d # r' \<Rightarrow> if d = CHR ''-'' \<or> d = CHR ''+'' then r' else r | [] \<Rightarrow> [])
                in if ds = [] \<or> \<not> list_all is_digit ds then None
                   else Some (if neg then - digits_value ds 0 else digits_value ds 0)))"

definition unsigned_decimal :: "string \<Rightarrow> num option" where
  "unsigned_decimal s =
     (let ip = takeWhile is_digit s; r1 = dropWhile is_digit s;
          dot = (case r1 of c # _ \<Rightarrow> c = CHR ''.'' | [] \<Rightarrow> False);
          fp = (if dot then takeWhile is_digit (tl r1) else []);
          r2 = (if dot then dropWhile is_digit (tl r1) else r1)
      in if ip = [] \<and> fp = [] then None
         else (case exponent_part r2 of None \<Rightarrow> None
               | Some e \<Rightarrow> Some (fl (of_int (digits_value (ip @ fp) 0) * 10 powi (e - int (length fp))))))"

definition radix_prefix :: "string \<Rightarrow> int option" where
  "radix_prefix s =
     (case s of
        z # c # _ \<Rightarrow>
          if z \<noteq> CHR ''0'' then None
          else if c = CHR ''x'' \<or> c = CHR ''X'' then Some 16
          else if c = CHR ''o'' \<or> c = CHR ''O'' then Some 8
          else if c = CHR ''b'' \<or> c = CHR ''B'' then Some 2 else None
      | _ \<Rightarrow> None)"

definition signed_decimal :: "string \<Rightarrow> num option" where
  "signed_decimal s =
     (case s of [] \<Rightarrow> None
      | c # r \<Rightarrow>
          if c = CHR ''-'' then map_option uminus (unsigned_decimal r)
          else if c = CHR ''+'' then unsigned_decimal r else unsigned_decimal s)"

text \<open>\<open>Number(s)\<close> restricted to its finite results: \<open>None\<close> for NaN and the infinities.\<close>

definition js_Number_string :: "string \<Rightarrow> num option" where
  "js_Number_string s0 =
     (let s = js_trim s0
      in if s = [] then Some 0
         else (case radix_prefix s of
                 Some b \<Rightarrow> if drop 2 s = [] then None
                           else map_option (fl \<circ> of_int) (radix_value b (drop 2 s) 0)
               | None \<Rightarrow> signed_decimal s))"

subsection \<open>String(number)\<close>

definition digit_char :: "int \<Rightarrow> char" where
  "digit_char d = char_of (nat (d + 48))"

function int_digits :: "int \<Rightarrow> string" where
  "int_digits n =
     (if n < 10 then [digit_char n] else int_digits (n div 10) @ [digit_char (n mod 10)])"
  by pat_completeness auto
termination
  by (relation "measure nat") auto

declare int_digits.simps [simp del]

text \<open>
  \<open>Number::toString\<close> of ECMA-262: the shortest digit string \<open>s\<close> with \<open>k\<close> digits
  and a position \<open>n\<close> such that \<open>s * 10^(n-k)\<close> rounds to the number, then the
  positional or exponential layout by the size of \<open>n\<close>.
\<close>

definition decimal_position :: "num \<Rightarrow> int" where
  "decimal_position x =
     (let nd = quotient_of x; a = length (int_digits (fst nd)); b = length (int_digits (snd nd));
          p = int a - int b
      in if 10 powi p \<le> x then p + 1 else if 10 powi (p - 1) \<le> x then p else p - 1)"

definition shortest_digits :: "num \<Rightarrow> nat \<times> int" where
  "shortest_digits x =
     (let n = decimal_position x;
          try = (\<lambda>k. rhe (x / 10 powi (n - int k)));
          ks = filter (\<lambda>k. fl (of_int (try k) * 10 powi (n - int k)) = x) [1..<18]
      in case ks of [] \<Rightarrow> (17, try 17) | k # _ \<Rightarrow> (k, try k))"

definition js_num_pos_to_string :: "num \<Rightarrow> string" where
  "js_num_pos_to_string x =
     (let kd = shortest_digits x; ds = int_digits (snd kd);
          n = decimal_position x + int (length ds) - int (fst kd);
          k = int (length ds)
      in if k \<le> n \<and> n \<le> 21 then ds @ replicate (nat (n - k)) CHR ''0''
         else if 0 < n \<and> n \<le> 21 then take (nat n) ds @ ''.'' @ drop (nat n) ds
         else if -6 < n \<and> n \<le> 0 then ''0.'' @ replicate (nat (- n)) CHR ''0'' @ ds
         else take 1 ds @ (if k = 1 then [] else ''.'' @ drop 1 ds) @ ''e'' @
              (if 1 \<le> n then ''+'' else ''-'') @ int_digits \<bar>n - 1\<bar>)"

definition js_num_to_string :: "num \<Rightarrow> string" where
  "js_num_to_string x =
     (if x = 0 then ''0'' else if x < 0 then ''-'' @ js_num_pos_to_string (- x)
      else js_num_pos_to_string x)"

subsection \<open>String(value) and JSON.stringify\<close>

fun js_String :: "jsval \<Rightarrow> string" where
  "js_String JUndef = ''undefined''"
| "js_String JNull = ''null''"
| "js_String (JBool b) = (if b then ''true'' else ''false'')"
| "js_String (JNum x) = js_num_to_string x"
| "js_String JNonFinite = ''NaN''"
| "js_String (JStr s) = s"
| "js_String (JArr vs) =
     (case map (\<lambda>v. case v of JUndef \<Rightarrow> [] | JNull \<Rightarrow> [] | _ \<Rightarrow> js_String v) vs of
        [] \<Rightarrow> [] | p # ps \<Rightarrow> p @ concat (map (\<lambda>q. '','' @ q) ps))"
| "js_String (JObj _) = ''[object Object]''"
| "js_String (JErr m) = (if m = [] then ''Error'' else ''Error: '' @ m)"

definition hex_digit :: "nat \<Rightarrow> char" where
  "hex_digit d = char_of (if d < 10 then d + 48 else d + 87)"

definition json_char :: "char \<Rightarrow> string" where
  "json_char c =
     (let n = of_char c :: nat; bs = CHR 0x5C
      in if n = 34 then [bs, CHR 0x22] else if n = 92 then [bs, bs]
         else if n = 8 then [bs, CHR ''b''] else if n = 9 then [bs, CHR ''t'']
         else if n = 10 then [bs, CHR ''n''] else if n = 12 then [bs, CHR ''f'']
         else if n = 13 then [bs, CHR ''r'']
         else if n < 32 then bs # ''u00'' @ [hex_digit (n div 16), hex_digit (n mod 16)]
         else [c])"

definition json_quote :: "string \<Rightarrow> string" where
  "json_quote s = CHR 0x22 # concat (map json_char s) @ [CHR 0x22]"

definition join :: "string \<Rightarrow> string list \<Rightarrow> string" where
  "join sep ps = (case ps of [] \<Rightarrow> [] | p # qs \<Rightarrow> p @ concat (map (\<lambda>q. sep @ q) qs))"

text \<open>
  \<open>JSON.stringify\<close>: undefined members of an object are left out, undefined elements of
  an array become null, an \<open>Error\<close> has no enumerable members.
\<close>

fun json_text :: "jsval \<Rightarrow> string" where
  "json_text JUndef = ''undefined''"
| "json_text JNull = ''null''"
| "json_text (JBool b) = (if b then ''true'' else ''false'')"
| "json_text (JNum x) = js_num_to_string x"
| "json_text JNonFinite = ''null''"
| "json_text (JStr s) = json_quote s"
| "json_text (JArr vs) = ''['' @ join '','' (map (\<lambda>v. if v = JUndef then ''null'' else json_text v) vs) @ '']''"
| "json_text (JObj fs) =
     ''{'' @ join '','' (map (\<lambda>kv. json_quote (fst kv) @ '':'' @ json_text (snd kv))
                         (filter (\<lambda>kv. snd kv \<noteq> JUndef) fs)) @ ''}''"
| "json_text (JErr _) = ''{}''"

subsection \<open>Decimal text of an integer reads back\<close>

lemma of_char_digit: "0 \<le> d \<Longrightarrow> d < 10 \<Longrightarrow> of_char (digit_char d) = (nat (d + 48) :: nat)"
  by (simp add: digit_char_def of_char_of)

lemma is_digit_digit_char: "0 \<le> d \<Longrightarrow> d < 10 \<Longrightarrow> is_digit (digit_char d)"
  by (simp add: is_digit_def of_char_digit Let_def nat_le_iff le_nat_iff)

lemma digits_value_append: "digits_value (xs @ ys) acc = digits_value ys (digits_value xs acc)"
  by (induction xs arbitrary: acc) auto

lemma digits_value_digit: "0 \<le> d \<Longrightarrow> d < 10 \<Longrightarrow> digits_value [digit_char d] acc = 10 * acc + d"
  by (simp add: of_char_digit)

lemma int_digits_props:
  "0 \<le> n \<Longrightarrow> int_digits n \<noteq> [] \<and> list_all is_digit (int_digits n) \<and> digits_value (int_digits n) 0 = n"
proof (induction n rule: int_digits.induct)
  case (1 n)
  show ?case
  proof (cases "n < 10")
    case True
    with "1.prems" show ?thesis
      by (simp add: int_digits.simps [of n] is_digit_digit_char digits_value_digit del: digits_value.simps)
  next
    case False
    with "1.IH" have "int_digits (n div 10) \<noteq> [] \<and> list_all is_digit (int_digits (n div 10))
        \<and> digits_value (int_digits (n div 10)) 0 = n div 10" by simp
    with False show ?thesis
      by (simp add: int_digits.simps [of n] is_digit_digit_char digits_value_append
          digits_value_digit del: digits_value.simps)
  qed
qed

lemma is_digit_range: "is_digit c \<Longrightarrow> 48 \<le> (of_char c :: nat) \<and> (of_char c :: nat) \<le> 57"
  by (simp add: is_digit_def Let_def)

lemma digits_not_space: "list_all is_digit s \<Longrightarrow> s \<noteq> [] \<Longrightarrow> js_trim s = s"
proof -
  assume d: "list_all is_digit s" "s \<noteq> []"
  have ns: "\<not> is_space c" if "c \<in> set s" for c
    using d(1) that is_digit_range [of c] by (auto simp: list_all_iff is_space_def Let_def)
  have "dropWhile is_space s = s" using d(2) ns by (cases s) auto
  moreover have "dropWhile is_space (rev s) = rev s"
    using ns [of "last s"] d(2) by (cases s rule: rev_cases) auto
  ultimately show ?thesis by (simp add: js_trim_def)
qed

lemma unsigned_decimal_digits:
  assumes "list_all is_digit s" "s \<noteq> []"
  shows "unsigned_decimal s = Some (fl (of_int (digits_value s 0)))"
proof -
  have tw: "takeWhile is_digit s = s" and dw: "dropWhile is_digit s = []"
    using assms(1) by (auto simp: list_all_iff)
  show ?thesis
    unfolding unsigned_decimal_def tw dw using assms(2) by (simp add: exponent_part_def)
qed

lemma digit_chars_not: "is_digit c \<Longrightarrow> c \<notin> {CHR ''x'', CHR ''X'', CHR ''o'', CHR ''O'', CHR ''b'', CHR ''B'', CHR ''-'', CHR ''+''}"
  using is_digit_range [of c] by auto

lemma js_Number_string_digits:
  assumes "list_all is_digit s" "s \<noteq> []"
  shows "js_Number_string s = Some (fl (of_int (digits_value s 0)))"
proof -
  have d: "is_digit c" if "c \<in> set s" for c
    using assms(1) that by (simp add: list_all_iff)
  have "radix_prefix s = None"
  proof (cases s)
    case (Cons z r)
    then show ?thesis
    proof (cases r)
      case r: (Cons c _)
      have "is_digit c" using d by (simp add: Cons r)
      from digit_chars_not [OF this] show ?thesis by (simp add: radix_prefix_def Cons r)
    qed (simp add: radix_prefix_def)
  qed (simp add: radix_prefix_def)
  moreover have "signed_decimal s = unsigned_decimal s"
  proof (cases s)
    case (Cons c r)
    have "is_digit c" using d by (simp add: Cons)
    from digit_chars_not [OF this] show ?thesis by (simp add: signed_decimal_def Cons)
  qed (use assms(2) in simp)
  ultimately show ?thesis
    using assms(2) by (simp add: js_Number_string_def digits_not_space [OF assms] unsigned_decimal_digits [OF assms])
qed

text \<open>\<open>Number\<close> of the decimal text of an integer up to 2^53 is that integer.\<close>

lemma js_Number_int_digits:
  "0 \<le> n \<Longrightarrow> n \<le> 2 ^ 53 \<Longrightarrow> js_Number_string (int_digits n) = Some (of_int n)"
  using int_digits_props [of n] js_Number_string_digits [of "int_digits n"] by simp

end
