(* ===== verification/Payments_Common.thy ===== *)
theory Payments_Common
  imports Js_Value "HOL-Library.AList" "HOL-Library.Multiset"
begin

text \<open>
  \<open>src/lib/payments/common.js\<close>: the data of the payout subsystem and its pure helpers
  (normalisation of untrusted values, amounts and their text, wallet destinations and
  the matching of a wallet transfer against a batch). The two amount conversions of
  \<open>src/lib/common/support.js\<close> that the helpers call are here too.
\<close>

subsection \<open>Configuration\<close>

record pay_config =
  feeSlewAmount :: num
  feeSlewEnd :: num
  walletMin :: num
  defaultPay :: num
  exchangeMin :: num
  feesForTXN :: num
  denom :: num
  feeAddress :: string
  maxPaymentTxns :: num
  mixIn :: num
  priority :: num
  safeWalletFee :: jsval
  sigDigits :: num
  sigDivisor :: num
  general_coinCode :: string
  tz_offset :: int

text \<open>
  \<open>tz_offset\<close> is the offset of the process' local time from UTC in seconds: the
  support module prints SQL timestamps in local time.
\<close>

subsection \<open>Batches and their items\<close>

datatype batch_status =
  Reserved | Retrying | Submitting | Submitted | Finalized | Retryable | Manual_review

fun status_text :: "batch_status \<Rightarrow> string" where
  "status_text Reserved = ''reserved''"
| "status_text Retrying = ''retrying''"
| "status_text Submitting = ''submitting''"
| "status_text Submitted = ''submitted''"
| "status_text Finalized = ''finalized''"
| "status_text Retryable = ''retryable''"
| "status_text Manual_review = ''manual_review''"

datatype batch_type = Bulk | Integrated

record payout_item =
  balanceId :: nat
  poolType :: string
  paymentAddress :: string
  grossAmount :: num
  netAmount :: num
  feeAmount :: num

record item_row = payout_item +
  item_batch_id :: nat
  destination_order :: nat
  item_created_at :: int

text \<open>
  The columns of \<open>payment_batches\<close>. The in-memory batch object carries the same
  fields; where it has a camel-case copy of a column (\<open>totalGross\<close>, \<open>totalNet\<close>,
  \<open>totalFee\<close>, \<open>batchType\<close>), the copy is only read through \<open>pickValue\<close> for
  columns no operation changes after the reservation, and for the log text. Times are
  seconds: in a database row the Unix time, in the object the value that
  \<open>sqlTimestampToUnix\<close> computes from it.
\<close>

record batch_row =
  status :: batch_status
  batchType :: batch_type
  total_gross :: num
  total_net :: num
  total_fee :: num
  destination_count :: nat
  created_at :: int
  updated_at :: int
  submit_started_at :: "int option"
  submitted_at :: "int option"
  finalized_at :: "int option"
  released_at :: "int option"
  last_reconciled_at :: "int option"
  reconcile_attempts :: nat
  reconcile_clean_passes :: nat
  tx_hash :: "string option"
  tx_key :: "string option"
  transaction_id :: "nat option"
  last_error_text :: "string option"

definition text_truthy :: "string option \<Rightarrow> bool" where
  "text_truthy t = (case t of None \<Rightarrow> False | Some s \<Rightarrow> s \<noteq> [])"

subsection \<open>Normalisation of untrusted values\<close>

definition ZERO_PAYMENT_ID :: string where
  "ZERO_PAYMENT_ID = replicate 16 CHR ''0''"

definition normalizePaymentId :: "jsval \<Rightarrow> string option" where
  "normalizePaymentId v =
     (if v = JNull \<or> v = JUndef then None
      else let normalized = js_trim (js_String v)
           in if normalized = [] \<or> normalized = ZERO_PAYMENT_ID then None else Some normalized)"

definition normalizeHash :: "jsval \<Rightarrow> string option" where
  "normalizeHash v =
     (case v of
        JStr s \<Rightarrow> let trimmed = js_trim s
                  in if length trimmed = 64 \<and> list_all is_hex trimmed
                     then Some (js_toLowerCase trimmed) else None
      | _ \<Rightarrow> None)"

definition normalizeInteger :: "jsval \<Rightarrow> num option" where
  "normalizeInteger v =
     (case v of
        JNum x \<Rightarrow> Some x
      | JStr s \<Rightarrow> if 0 < length s then js_Number_string s else None
      | _ \<Rightarrow> None)"

fun js_Number :: "jsval \<Rightarrow> num option" where
  "js_Number (JNum x) = Some x"
| "js_Number (JStr s) = js_Number_string s"
| "js_Number JNull = Some 0"
| "js_Number (JBool b) = Some (if b then 1 else 0)"
| "js_Number (JArr vs) = js_Number_string (js_String (JArr vs))"
| "js_Number _ = None"

subsection \<open>Time stamps\<close>

text \<open>
  \<open>support.formatDate\<close> prints the civil time of the process' time zone;
  \<open>sqlTimestampToUnix\<close> reads that text as UTC. A text is represented by the number of
  seconds it reads as.
\<close>

definition nowSqlTimestamp :: "pay_config \<Rightarrow> int \<Rightarrow> int" where
  "nowSqlTimestamp cfg timestampMs = timestampMs div 1000 + tz_offset cfg"

definition sqlTimestampToUnix :: "int option \<Rightarrow> int" where
  "sqlTimestampToUnix v = (case v of None \<Rightarrow> 0 | Some t \<Rightarrow> t)"

subsection \<open>Amounts\<close>

definition decimalToCoin :: "pay_config \<Rightarrow> num \<Rightarrow> num" where
  "decimalToCoin cfg amount = js_round (fl (amount * sigDigits cfg))"

definition coinToDecimal :: "pay_config \<Rightarrow> num \<Rightarrow> num" where
  "coinToDecimal cfg amount = fl (amount / sigDigits cfg)"

definition coinCode :: "pay_config \<Rightarrow> string" where
  "coinCode cfg = (if general_coinCode cfg \<noteq> [] then general_coinCode cfg else ''XMR'')"

definition payoutAtomic :: "pay_config \<Rightarrow> (pay_config \<Rightarrow> num) \<Rightarrow> num" where
  "payoutAtomic cfg key = decimalToCoin cfg (key cfg)"

definition denomAtomic :: "pay_config \<Rightarrow> num" where
  "denomAtomic cfg = js_round (fl (denom cfg * sigDivisor cfg))"

definition amountText :: "pay_config \<Rightarrow> num \<Rightarrow> string" where
  "amountText cfg amount = js_num_to_string (coinToDecimal cfg amount) @ '' '' @ coinCode cfg"

definition DEFAULT_SAFE_WALLET_FEE_XMR :: num where
  "DEFAULT_SAFE_WALLET_FEE_XMR = fl (1 / 1000)"

definition safeWalletFeeAtomic :: "pay_config \<Rightarrow> num" where
  "safeWalletFeeAtomic cfg =
     (let configured = (if safeWalletFee cfg \<noteq> JUndef then js_Number (safeWalletFee cfg)
                        else Some DEFAULT_SAFE_WALLET_FEE_XMR);
          feeXmr = (case configured of
                      Some x \<Rightarrow> if 0 < x then x else DEFAULT_SAFE_WALLET_FEE_XMR
                    | None \<Rightarrow> DEFAULT_SAFE_WALLET_FEE_XMR)
      in decimalToCoin cfg feeXmr)"

definition balanceSnapshotText ::
  "pay_config \<Rightarrow> num option \<Rightarrow> num option \<Rightarrow> num option \<Rightarrow> num option \<Rightarrow> string" where
  "balanceSnapshotText cfg balance unlocked requiredNet requiredTotal =
     (let fields =
        (case balance of Some b \<Rightarrow> [''wallet_balance='' @ amountText cfg b] | None \<Rightarrow> []) @
        (case unlocked of Some u \<Rightarrow> [''wallet_unlocked='' @ amountText cfg u] | None \<Rightarrow> []) @
        (case requiredNet of Some n \<Rightarrow> [''required_net='' @ amountText cfg n] | None \<Rightarrow> []) @
        (case requiredTotal of
           Some t \<Rightarrow> if requiredTotal \<noteq> requiredNet then [''required_total='' @ amountText cfg t] else []
         | None \<Rightarrow> [])
      in if fields \<noteq> [] then '' '' @ join '' '' fields else [])"

definition sumBy :: "('a \<Rightarrow> num) \<Rightarrow> 'a list \<Rightarrow> num" where
  "sumBy key items = foldl (\<lambda>acc item. fl (acc + key item)) 0 items"

subsection \<open>Texts\<close>

definition formatError :: "jsval \<Rightarrow> string" where
  "formatError error =
     (case error of JErr m \<Rightarrow> js_String error | JStr s \<Rightarrow> s | _ \<Rightarrow> json_text error)"

definition describeWalletReply :: "jsval \<Rightarrow> string" where
  "describeWalletReply reply =
     (if isRecord reply \<and> isRecord (getf reply ''error'')
         \<and> truthy (getf (getf reply ''error'') ''message'')
      then js_String (getf (getf reply ''error'') ''message'')
      else formatError reply)"

definition makeProofUrl :: "string option \<Rightarrow> string option \<Rightarrow> string option \<Rightarrow> string" where
  "makeProofUrl txHash address txKey =
     (if \<not> text_truthy txHash \<or> \<not> text_truthy address \<or> \<not> text_truthy txKey then []
      else ''https://monero.com/payment/'' @ the txHash @ ''/'' @ the address @ ''/'' @ the txKey @ ''/'')"

definition isIntegratedAddress :: "string \<Rightarrow> bool" where
  "isIntegratedAddress address = (length address = 106)"

subsection \<open>Wallet destinations and transfer matching\<close>

definition buildWalletTransferParams :: "pay_config \<Rightarrow> 'a payout_item_scheme list \<Rightarrow> jsval" where
  "buildWalletTransferParams cfg items =
     JObj [(''destinations'',
            JArr (map (\<lambda>item. JObj [(''amount'', JNum (netAmount item)),
                                    (''address'', JStr (paymentAddress item))]) items)),
           (''priority'', JNum (priority cfg)),
           (''mixin'', JNum (mixIn cfg)),
           (''get_tx_key'', JBool True)]"

definition normalizeDestination :: "jsval \<Rightarrow> string \<times> num option" where
  "normalizeDestination destination =
     ((case getf destination ''address'' of JStr s \<Rightarrow> s | _ \<Rightarrow> []),
      normalizeInteger (getf destination ''amount''))"

definition normalizeTransferDestinations :: "jsval \<Rightarrow> (string \<times> num) list" where
  "normalizeTransferDestinations transfer =
     (case getf transfer ''destinations'' of
        JArr (d # ds) \<Rightarrow>
          map (\<lambda>(a, n). (a, the n))
            (filter (\<lambda>(a, n). a \<noteq> [] \<and> n \<noteq> None) (map normalizeDestination (d # ds)))
      | _ \<Rightarrow>
          (case (getf transfer ''address'', normalizeInteger (getf transfer ''amount'')) of
             (JStr a, Some n) \<Rightarrow> if a \<noteq> [] then [(a, n)] else []
           | _ \<Rightarrow> []))"

text \<open>
  The source keys the multiset by the text \<open>address|amount\<close>. The text of a number has
  no bar and determines the number, so the pair is the same key.
\<close>

fun destinationMultiset :: "'a payout_item_scheme list \<Rightarrow> ((string \<times> num) \<times> nat) list \<Rightarrow> ((string \<times> num) \<times> nat) list" where
  "destinationMultiset [] expected = expected"
| "destinationMultiset (item # items) expected =
     (let key = (paymentAddress item, netAmount item);
          seen = (case map_of expected key of Some n \<Rightarrow> n | None \<Rightarrow> 0)
      in destinationMultiset items (AList.update key (seen + 1) expected))"

fun consumeDestinations :: "((string \<times> num) \<times> nat) list \<Rightarrow> (string \<times> num) list \<Rightarrow> bool" where
  "consumeDestinations expected [] = (expected = [])"
| "consumeDestinations expected (key # keys) =
     (case map_of expected key of
        None \<Rightarrow> False
      | Some left \<Rightarrow>
          if left = 0 then False
          else if left = 1 then consumeDestinations (AList.delete key expected) keys
          else consumeDestinations (AList.update key (left - 1) expected) keys)"

definition transferMatchesBatch :: "batch_row \<Rightarrow> 'a payout_item_scheme list \<Rightarrow> jsval \<Rightarrow> bool" where
  "transferMatchesBatch batch items transfer =
     (if \<not> isRecord transfer then False
      else case normalizeInteger (getf transfer ''timestamp'') of
        None \<Rightarrow> False
      | Some timestamp \<Rightarrow>
          if timestamp < of_int (sqlTimestampToUnix (submit_started_at batch)) then False
          else
            let isSingleIntegratedBatch =
                  (batchType batch \<noteq> Bulk \<and> length items = 1
                   \<and> isIntegratedAddress (paymentAddress (hd items)));
                destinations = normalizeTransferDestinations transfer
            in if normalizePaymentId (getf transfer ''payment_id'') \<noteq> None \<and> \<not> isSingleIntegratedBatch then False
               else if length destinations \<noteq> length items then False
               else if batchType batch \<noteq> Bulk \<and> length destinations \<noteq> 1 then False
               else consumeDestinations (destinationMultiset items []) destinations)"

text \<open>
  A reply whose \<open>destinations\<close> hold a null element makes \<open>normalizeDestination\<close> throw where
  the comparison reaches it; the searches below throw then, so the value the comparison has
  for such a transfer is never used.
\<close>

definition matchingThrows :: "batch_row \<Rightarrow> 'a payout_item_scheme list \<Rightarrow> jsval \<Rightarrow> bool" where
  "matchingThrows batch items transfer =
     (isRecord transfer \<and>
      (case normalizeInteger (getf transfer ''timestamp'') of
         None \<Rightarrow> False
       | Some timestamp \<Rightarrow> of_int (sqlTimestampToUnix (submit_started_at batch)) \<le> timestamp) \<and>
      (normalizePaymentId (getf transfer ''payment_id'') = None \<or>
        batchType batch \<noteq> Bulk \<and> length items = 1 \<and> isIntegratedAddress (paymentAddress (hd items))) \<and>
      (case getf transfer ''destinations'' of JArr ds \<Rightarrow> JNull \<in> set ds | _ \<Rightarrow> False))"

subsection \<open>Facts\<close>

lemma hex_lower:
  assumes "is_hex c"
  shows "is_hex (lower_char c) \<and> lower_char (lower_char c) = lower_char c \<and> \<not> is_space (lower_char c)"
proof -
  define n where "n = (of_char c :: nat)"
  have c: "c = char_of n" by (simp add: n_def)
  have r: "48 \<le> n \<and> n \<le> 57 \<or> 97 \<le> n \<and> n \<le> 102 \<or> 65 \<le> n \<and> n \<le> 70"
    using assms by (auto simp: is_hex_def hex_value_def n_def Let_def split: if_splits)
  then have "n < 256" by auto
  then have [simp]: "of_char (char_of n :: char) = n" by (simp add: of_char_of)
  have [simp]: "of_char (char_of (n + 32) :: char) = (n + 32 :: nat)" if "n \<le> 70"
    using that by (simp add: of_char_of)
  from r show ?thesis
    by (auto simp: c lower_char_def is_hex_def hex_value_def is_space_def Let_def)
qed

lemma trim_no_space: "(\<And>c. c \<in> set s \<Longrightarrow> \<not> is_space c) \<Longrightarrow> js_trim s = s"
proof -
  assume ns: "\<And>c. c \<in> set s \<Longrightarrow> \<not> is_space c"
  have "dropWhile is_space s = s" using ns by (cases s) auto
  moreover have "dropWhile is_space (rev s) = rev s" using ns by (cases s rule: rev_cases) auto
  ultimately show ?thesis by (simp add: js_trim_def)
qed

lemma normalizeHash_canonical:
  assumes "normalizeHash v = Some h"
  shows "length h = 64 \<and> list_all is_hex h \<and> normalizeHash (JStr h) = Some h"
proof -
  from assms obtain s where len: "length (js_trim s) = 64" and hx: "list_all is_hex (js_trim s)"
      and h: "h = map lower_char (js_trim s)"
    by (auto simp: normalizeHash_def js_toLowerCase_def Let_def split: jsval.splits if_splits)
  have low: "is_hex c \<and> lower_char c = c \<and> \<not> is_space c" if "c \<in> set h" for c
    using that hx hex_lower by (auto simp: h list_all_iff)
  have "js_trim h = h" using low by (intro trim_no_space) blast
  moreover have "map lower_char h = h" using low by (simp add: map_idI)
  moreover have "list_all is_hex h" using low by (simp add: list_all_iff)
  ultimately show ?thesis using len by (simp add: normalizeHash_def js_toLowerCase_def h Let_def)
qed

lemma normalizeInteger_digits:
  "0 \<le> n \<Longrightarrow> n \<le> 2 ^ 53 \<Longrightarrow> normalizeInteger (JStr (int_digits n)) = Some (of_int n)"
  using int_digits_props [of n] js_Number_int_digits [of n] by (simp add: normalizeInteger_def)

subsubsection \<open>Sums in double precision\<close>

lemma sumBy_exact_gen:
  assumes "\<And>x. x \<in> set xs \<Longrightarrow> key x \<in> \<int> \<and> 0 \<le> key x" and "a \<in> \<int>" "0 \<le> a"
    and "a + sum_list (map key xs) \<le> 2 ^ 53"
  shows "foldl (\<lambda>acc x. fl (acc + key x)) a xs = a + sum_list (map key xs)"
  using assms
proof (induction xs arbitrary: a)
  case Nil
  then show ?case by simp
next
  case (Cons x xs)
  have nn: "0 \<le> sum_list (map key xs)" using Cons.prems(1) by (intro sum_list_nonneg) auto
  have k: "key x \<in> \<int>" "0 \<le> key x" using Cons.prems(1) [of x] by auto
  have "fl (a + key x) = a + key x"
    using Cons.prems(2-4) k nn by (intro fl_Ints) auto
  with Cons k show ?case by (simp add: add.assoc)
qed

lemma sumBy_exact:
  assumes "\<And>x. x \<in> set xs \<Longrightarrow> key x \<in> \<int> \<and> 0 \<le> key x"
    and "sum_list (map key xs) \<le> 2 ^ 53"
  shows "sumBy key xs = sum_list (map key xs)"
  using sumBy_exact_gen [of xs key 0] assms by (simp add: sumBy_def)

subsubsection \<open>The counting loop decides multiset equality\<close>

definition counts_mset :: "('k \<times> nat) list \<Rightarrow> 'k multiset" where
  "counts_mset m = sum_list (map (\<lambda>(k, n). replicate_mset n k) m)"

definition counts_ok :: "('k \<times> nat) list \<Rightarrow> bool" where
  "counts_ok m \<longleftrightarrow> distinct (map fst m) \<and> (\<forall>(k, n) \<in> set m. 0 < n)"

lemma counts_ok_update: "counts_ok m \<Longrightarrow> 0 < n \<Longrightarrow> counts_ok (AList.update k n m)"
  by (induction m) (auto simp: counts_ok_def dom_update)

lemma counts_ok_delete: "counts_ok m \<Longrightarrow> counts_ok (AList.delete k m)"
  by (auto simp: counts_ok_def distinct_delete AList.delete_eq intro: distinct_map_filter_sub)

lemma count_counts_mset:
  "distinct (map fst m) \<Longrightarrow> count (counts_mset m) k = (case map_of m k of Some n \<Rightarrow> n | None \<Rightarrow> 0)"
proof (induction m)
  case Nil
  then show ?case by (simp add: counts_mset_def)
next
  case (Cons x m)
  obtain k' n' where x: "x = (k', n')" by force
  from Cons show ?case
    by (cases "k' = k") (auto simp: x counts_mset_def map_of_eq_None_iff [symmetric] split: option.splits)
qed

lemma counts_mset_inc:
  assumes "counts_ok m" and "c = (case map_of m k of Some n \<Rightarrow> n | None \<Rightarrow> 0)"
  shows "counts_mset (AList.update k (c + 1) m) = add_mset k (counts_mset m)"
  using assms counts_ok_update [OF assms(1), of "c + 1" k]
  by (intro multiset_eqI) (auto simp: counts_ok_def count_counts_mset update_conv)

lemma counts_mset_dec:
  assumes "counts_ok m" and "map_of m k = Some n" and "n \<noteq> 1"
  shows "counts_mset (AList.update k (n - 1) m) = counts_mset m - {#k#}"
  using assms by (intro multiset_eqI) (auto simp: counts_ok_def count_counts_mset update_conv distinct_update)

lemma counts_mset_del:
  assumes "counts_ok m" and "map_of m k = Some 1"
  shows "counts_mset (AList.delete k m) = counts_mset m - {#k#}"
  using assms by (intro multiset_eqI) (auto simp: counts_ok_def count_counts_mset delete_conv distinct_delete)

lemma counts_mset_empty: "counts_ok m \<Longrightarrow> counts_mset m = {#} \<longleftrightarrow> m = []"
  by (cases m) (auto simp: counts_ok_def counts_mset_def)

lemma destinationMultiset_spec:
  "counts_ok m \<Longrightarrow>
     counts_ok (destinationMultiset items m) \<and>
     counts_mset (destinationMultiset items m) =
       counts_mset m + mset (map (\<lambda>item. (paymentAddress item, netAmount item)) items)"
proof (induction items m rule: destinationMultiset.induct)
  case (1 m)
  then show ?case by simp
next
  case (2 item items m)
  let ?k = "(paymentAddress item, netAmount item)"
  let ?c = "case map_of m ?k of Some n \<Rightarrow> n | None \<Rightarrow> 0"
  have "counts_ok (AList.update ?k (?c + 1) m)"
    using "2.prems" by (rule counts_ok_update) (rule add_nonneg_pos [OF le0 zero_less_one])
  moreover have "counts_mset (AList.update ?k (?c + 1) m) = add_mset ?k (counts_mset m)"
    using "2.prems" by (rule counts_mset_inc) simp
  ultimately show ?case using "2.IH" [OF refl refl] by (simp add: Let_def)
qed

lemma consumeDestinations_iff:
  "counts_ok m \<Longrightarrow> consumeDestinations m ks \<longleftrightarrow> counts_mset m = mset ks"
proof (induction m ks rule: consumeDestinations.induct)
  case (1 m)
  then show ?case by (simp add: counts_mset_empty)
next
  case (2 m k ks)
  have cnt: "count (counts_mset m) k = (case map_of m k of Some n \<Rightarrow> n | None \<Rightarrow> 0)"
    using "2.prems" by (simp add: counts_ok_def count_counts_mset)
  show ?case
  proof (cases "map_of m k")
    case None
    with cnt have "k \<notin># counts_mset m" by (simp add: not_in_iff)
    then have "counts_mset m \<noteq> mset (k # ks)" by (metis list.set_intros(1) set_mset_mset)
    with None show ?thesis by simp
  next
    case (Some n)
    then have "(k, n) \<in> set m" by (rule map_of_SomeD)
    with "2.prems" have n: "0 < n" by (auto simp: counts_ok_def)
    with cnt Some have mem: "k \<in># counts_mset m" by (simp add: count_greater_zero_iff [symmetric])
    then have eq: "counts_mset m = mset (k # ks) \<longleftrightarrow> counts_mset m - {#k#} = mset ks"
      by (metis add_mset_remove_trivial insert_DiffM mset.simps(2))
    show ?thesis
    proof (cases "n = 1")
      case True
      with Some n "2.prems" "2.IH"(1) [OF Some] eq show ?thesis
        by (simp add: counts_ok_delete counts_mset_del del: mset.simps)
    next
      case False
      with n have "counts_ok (AList.update k (n - 1) m)" using "2.prems" by (intro counts_ok_update) auto
      with False Some n "2.IH"(2) [OF Some] counts_mset_dec [OF "2.prems" Some False] eq show ?thesis
        by (simp del: mset.simps)
    qed
  qed
qed

lemma matching_loop_iff:
  "consumeDestinations (destinationMultiset items []) ds \<longleftrightarrow>
     mset (map (\<lambda>item. (paymentAddress item, netAmount item)) items) = mset ds"
proof -
  have "counts_ok ([] :: ((string \<times> num) \<times> nat) list)" by (simp add: counts_ok_def)
  from destinationMultiset_spec [OF this, of items] show ?thesis
    by (simp add: consumeDestinations_iff counts_mset_def)
qed

end
