(* ===== verification/Prog.thy ===== *)
theory Prog
  imports Prelude
begin

text \<open>
  Programs with state and exceptions. An \<open>async\<close> function of the source is a value of
  type \<open>('s, 'a) prog\<close>: it takes the state of the world and returns either a thrown
  error (\<open>Inl\<close>) or a result (\<open>Inr\<close>) with the new state. \<open>triple P m Q\<close> says
  that a run of \<open>m\<close> from a state with \<open>P\<close> ends in a result and a state with
  \<open>Q\<close>; programs are total functions, so this is total correctness. The rules are
  collected in \<open>triple_intros\<close>.
\<close>

type_synonym ('s, 'a) prog = "'s \<Rightarrow> (string + 'a) \<times> 's"

definition ret :: "'a \<Rightarrow> ('s, 'a) prog" where
  "ret x = (\<lambda>s. (Inr x, s))"

definition throw :: "string \<Rightarrow> ('s, 'a) prog" where
  "throw e = (\<lambda>s. (Inl e, s))"

definition andThen :: "('s, 'a) prog \<Rightarrow> ('a \<Rightarrow> ('s, 'b) prog) \<Rightarrow> ('s, 'b) prog" where
  "andThen m f = (\<lambda>s. case m s of (Inl e, s') \<Rightarrow> (Inl e, s') | (Inr x, s') \<Rightarrow> f x s')"

definition try_catch :: "('s, 'a) prog \<Rightarrow> (string \<Rightarrow> ('s, 'a) prog) \<Rightarrow> ('s, 'a) prog" where
  "try_catch m h = (\<lambda>s. case m s of (Inl e, s') \<Rightarrow> h e s' | (Inr x, s') \<Rightarrow> (Inr x, s'))"

definition gets :: "('s \<Rightarrow> 'a) \<Rightarrow> ('s, 'a) prog" where
  "gets f = (\<lambda>s. (Inr (f s), s))"

definition modify :: "('s \<Rightarrow> 's) \<Rightarrow> ('s, unit) prog" where
  "modify f = (\<lambda>s. (Inr (), f s))"

lemmas prog_defs = ret_def throw_def andThen_def try_catch_def gets_def modify_def

definition triple :: "('s \<Rightarrow> bool) \<Rightarrow> ('s, 'a) prog \<Rightarrow> (string + 'a \<Rightarrow> 's \<Rightarrow> bool) \<Rightarrow> bool" where
  "triple P m Q \<longleftrightarrow> (\<forall>s. P s \<longrightarrow> Q (fst (m s)) (snd (m s)))"

abbreviation keeps :: "('s \<Rightarrow> bool) \<Rightarrow> ('s, 'a) prog \<Rightarrow> bool" where
  "keeps I m \<equiv> triple I m (\<lambda>_. I)"

lemma tripleI: "(\<And>s. P s \<Longrightarrow> Q (fst (m s)) (snd (m s))) \<Longrightarrow> triple P m Q"
  by (simp add: triple_def)

lemma tripleD: "triple P m Q \<Longrightarrow> P s \<Longrightarrow> Q (fst (m s)) (snd (m s))"
  by (simp add: triple_def)

lemma tripleD2: "triple P m Q \<Longrightarrow> P s \<Longrightarrow> m s = (r, s') \<Longrightarrow> Q r s'"
  by (auto dest: tripleD)

lemma triple_weaken:
  "triple P m Q \<Longrightarrow> (\<And>s. P' s \<Longrightarrow> P s) \<Longrightarrow> (\<And>r s. Q r s \<Longrightarrow> Q' r s) \<Longrightarrow> triple P' m Q'"
  by (simp add: triple_def)

lemma triple_ret: "(\<And>s. P s \<Longrightarrow> Q (Inr x) s) \<Longrightarrow> triple P (ret x) Q"
  by (simp add: triple_def ret_def)

lemma triple_throw: "(\<And>s. P s \<Longrightarrow> Q (Inl e) s) \<Longrightarrow> triple P (throw e) Q"
  by (simp add: triple_def throw_def)

lemma triple_andThen:
  assumes "triple P m R" and "\<And>x. triple (R (Inr x)) (f x) Q" and "\<And>e s. R (Inl e) s \<Longrightarrow> Q (Inl e) s"
  shows "triple P (andThen m f) Q"
proof (rule tripleI)
  fix s assume "P s"
  obtain r s' where ms: "m s = (r, s')" by force
  have R: "R r s'" using assms(1) \<open>P s\<close> ms by (rule tripleD2)
  show "Q (fst (andThen m f s)) (snd (andThen m f s))"
  proof (cases r)
    case (Inl e)
    with R assms(3) ms show ?thesis by (simp add: andThen_def)
  next
    case (Inr x)
    with R have "R (Inr x) s'" by simp
    with assms(2) [of x] have "Q (fst (f x s')) (snd (f x s'))" by (rule tripleD)
    with Inr ms show ?thesis by (simp add: andThen_def)
  qed
qed

lemma triple_try_catch:
  assumes "triple P m R" and "\<And>e. triple (R (Inl e)) (h e) Q" and "\<And>x s. R (Inr x) s \<Longrightarrow> Q (Inr x) s"
  shows "triple P (try_catch m h) Q"
proof (rule tripleI)
  fix s assume "P s"
  obtain r s' where ms: "m s = (r, s')" by force
  have R: "R r s'" using assms(1) \<open>P s\<close> ms by (rule tripleD2)
  show "Q (fst (try_catch m h s)) (snd (try_catch m h s))"
  proof (cases r)
    case (Inr x)
    with R assms(3) ms show ?thesis by (simp add: try_catch_def)
  next
    case (Inl e)
    with R have "R (Inl e) s'" by simp
    with assms(2) [of e] have "Q (fst (h e s')) (snd (h e s'))" by (rule tripleD)
    with Inl ms show ?thesis by (simp add: try_catch_def)
  qed
qed

text \<open>Rules for an invariant \<open>I\<close>: they compose without choosing intermediate assertions.\<close>

lemma keeps_ret [triple_intros]: "keeps I (ret x)"
  by (rule triple_ret)

lemma keeps_throw [triple_intros]: "keeps I (throw e)"
  by (rule triple_throw)

lemma keeps_gets [triple_intros]: "keeps I (gets f)"
  by (simp add: triple_def gets_def)

lemma keeps_andThen [triple_intros]: "keeps I m \<Longrightarrow> (\<And>x. keeps I (f x)) \<Longrightarrow> keeps I (andThen m f)"
  by (rule triple_andThen)

lemma keeps_try_catch [triple_intros]:
  "keeps I m \<Longrightarrow> (\<And>e. keeps I (h e)) \<Longrightarrow> keeps I (try_catch m h)"
  by (rule triple_try_catch)

lemma keeps_if [triple_intros]:
  "(b \<Longrightarrow> keeps I m) \<Longrightarrow> (\<not> b \<Longrightarrow> keeps I m') \<Longrightarrow> keeps I (if b then m else m')"
  by simp

lemma keeps_case_option [triple_intros]:
  "keeps I m \<Longrightarrow> (\<And>x. v = Some x \<Longrightarrow> keeps I (f x)) \<Longrightarrow> keeps I (case v of None \<Rightarrow> m | Some x \<Rightarrow> f x)"
  by (cases v) auto

text \<open>
  A program that reads the state and then branches on it: the assertion of the rest may
  depend on the value read.
\<close>

lemma triple_gets_andThen:
  "(\<And>x. triple (\<lambda>s. P s \<and> g s = x) (f x) Q) \<Longrightarrow> triple P (andThen (gets g) f) Q"
  by (auto simp: triple_def prog_defs)

lemma triple_modify: "(\<And>s. P s \<Longrightarrow> Q (Inr ()) (f s)) \<Longrightarrow> triple P (modify f) Q"
  by (simp add: triple_def modify_def)

lemma keeps_modify: "(\<And>w. I w \<Longrightarrow> I (f w)) \<Longrightarrow> keeps I (modify f)"
  by (rule triple_modify)

lemma triple_seq:
  assumes "keeps I m" "\<And>x. triple I (f x) Q" "\<And>e w. I w \<Longrightarrow> Q (Inl e) w"
  shows "triple I (andThen m f) Q"
  using assms by (rule triple_andThen)

lemma triple_if: "(c \<Longrightarrow> triple P m Q) \<Longrightarrow> (\<not> c \<Longrightarrow> triple P m' Q) \<Longrightarrow> triple P (if c then m else m') Q"
  by simp

end
