(* ===== verification/Payments_Store.thy ===== *)
theory Payments_Store
  imports Payments_Common Prog
begin

text \<open>
  The SQL tables of the payout subsystem and the world its programs run in.

  Tables are lists of rows; each SQL statement or transaction of
  \<open>src/lib/payments/\<close> is a function on the tables, with the key constraints of
  \<open>src/deployment/base.sql\<close> that can reject it. A transaction is atomic: it commits
  all its statements or none (\<open>src/lib/common/mysql_transaction.js\<close>).

  The world adds the runtime's state, the in-memory batch object and an environment:
  the wallet's replies, the outcome of every query, what other processes do to the
  tables, the clock and the advisory lock. All of them are indexed by the count of
  awaited calls, and nothing is assumed about them.
\<close>

subsection \<open>Tables\<close>

record balance_row =
  bal_address :: string
  bal_payment_id :: "string option"
  bal_pool_type :: string
  bal_amount :: num
  bal_pending :: "nat option"

record transaction_row =
  tr_address :: "string option"
  tr_xmr_amt :: num
  tr_hash :: "string option"
  tr_mixin :: num
  tr_fees :: num
  tr_payees :: nat

record payment_row =
  pay_unlocked_time :: int
  pay_paid_time :: int
  pay_pool_type :: string
  pay_address :: string
  pay_transaction_id :: nat
  pay_amount :: num
  pay_transfer_fee :: num

record pay_db =
  balances :: "balance_row table"
  batches :: "batch_row table"
  batch_items :: "item_row list"
  transactions :: "transaction_row table"
  payments :: "payment_row list"
  users :: "(string \<times> num option) list"
  next_batch_id :: nat
  next_transaction_id :: nat

definition select_items :: "nat \<Rightarrow> pay_db \<Rightarrow> item_row list" where
  "select_items b d = sort_key destination_order (filter (\<lambda>it. item_batch_id it = b) (batch_items d))"

subsection \<open>Reserving a batch\<close>

record batch_plan =
  plan_type :: batch_type
  plan_items :: "payout_item list"
  plan_totalGross :: num
  plan_totalNet :: num
  plan_totalFee :: num

definition reserved_row :: "int \<Rightarrow> batch_plan \<Rightarrow> batch_row" where
  "reserved_row t plan =
     \<lparr>status = Reserved, batchType = plan_type plan, total_gross = plan_totalGross plan,
      total_net = plan_totalNet plan, total_fee = plan_totalFee plan,
      destination_count = length (plan_items plan), created_at = t, updated_at = t,
      submit_started_at = None, submitted_at = None, finalized_at = None, released_at = None,
      last_reconciled_at = None, reconcile_attempts = 0, reconcile_clean_passes = 0,
      tx_hash = None, tx_key = None, transaction_id = None, last_error_text = None\<rparr>"

definition item_record :: "nat \<Rightarrow> int \<Rightarrow> nat \<Rightarrow> payout_item \<Rightarrow> item_row" where
  "item_record b t order it =
     \<lparr>balanceId = balanceId it, poolType = poolType it, paymentAddress = paymentAddress it,
      grossAmount = grossAmount it, netAmount = netAmount it, feeAmount = feeAmount it,
      item_batch_id = b, destination_order = order, item_created_at = t\<rparr>"

definition item_records :: "nat \<Rightarrow> int \<Rightarrow> payout_item list \<Rightarrow> item_row list" where
  "item_records b t items = map (\<lambda>(order, it). item_record b t order it) (enumerate 0 items)"

definition reserveTransaction :: "int \<Rightarrow> batch_plan \<Rightarrow> pay_db \<Rightarrow> string + nat \<times> pay_db" where
  "reserveTransaction t plan d =
     (let b = next_batch_id d;
          rows = item_records b t (plan_items plan);
          ids = map balanceId (plan_items plan);
          free = (\<lambda>i r. i \<in> set ids \<and> bal_pending r = None)
      in if b = 0 then Inl ''Batch reservation returned an invalid id''
         else if rows = [] \<or> \<not> distinct ids \<or> \<not> set ids \<subseteq> fst ` set (balances d)
         then Inl ''batch item reservation failed''
         else if count_where free (balances d) \<noteq> length ids
         then Inl ''balance reservation mismatch''
         else Inr (b, d\<lparr>batches := batches d @ [(b, reserved_row t plan)],
                        batch_items := batch_items d @ rows,
                        balances := update_where free (\<lambda>_ r. r\<lparr>bal_pending := Some b\<rparr>) (balances d),
                        next_batch_id := b + 1\<rparr>))"

subsection \<open>Compare-and-swap on a batch row\<close>

datatype null_field =
  N_submit_started_at | N_submitted_at | N_finalized_at | N_transaction_id | N_tx_hash | N_tx_key

fun is_null :: "null_field \<Rightarrow> batch_row \<Rightarrow> bool" where
  "is_null N_submit_started_at r = (submit_started_at r = None)"
| "is_null N_submitted_at r = (submitted_at r = None)"
| "is_null N_finalized_at r = (finalized_at r = None)"
| "is_null N_transaction_id r = (transaction_id r = None)"
| "is_null N_tx_hash r = (tx_hash r = None)"
| "is_null N_tx_key r = (tx_key r = None)"

definition tx_hashes :: "batch_row table \<Rightarrow> string list" where
  "tx_hashes t = List.map_filter (\<lambda>(i, r). tx_hash r) t"

text \<open>
  \<open>UPDATE payment_batches SET fields WHERE id = ? AND status IN expected AND nulls IS NULL\<close>;
  the unique index on \<open>tx_hash\<close> can reject it.
\<close>

definition cas_match :: "nat \<Rightarrow> batch_status list \<Rightarrow> null_field list \<Rightarrow> nat \<Rightarrow> batch_row \<Rightarrow> bool" where
  "cas_match b expected nulls i r =
     (i = b \<and> (expected = [] \<or> status r \<in> set expected) \<and> list_all (\<lambda>f. is_null f r) nulls)"

definition cas_batch ::
  "nat \<Rightarrow> (batch_row \<Rightarrow> batch_row) \<Rightarrow> batch_status list \<Rightarrow> null_field list \<Rightarrow> pay_db \<Rightarrow> string + nat \<times> pay_db" where
  "cas_batch b setf expected nulls d =
     (let t = update_where (cas_match b expected nulls) (\<lambda>_. setf) (batches d)
      in if distinct (tx_hashes t)
         then Inr (count_where (cas_match b expected nulls) (batches d), d\<lparr>batches := t\<rparr>)
         else Inl ''Duplicate entry for key payment_batches_tx_hash_uindex'')"

definition guard_nulls :: "null_field list" where
  "guard_nulls = [N_finalized_at, N_transaction_id]"

definition release_nulls :: "null_field list" where
  "release_nulls = [N_submit_started_at, N_submitted_at, N_finalized_at, N_transaction_id, N_tx_hash, N_tx_key]"

subsection \<open>The column assignments of the guarded writes\<close>

record match_details =
  md_txHash :: "string option"
  md_txKey :: "string option"
  md_totalFee :: "num option"

definition no_details :: match_details where
  "no_details = \<lparr>md_txHash = None, md_txKey = None, md_totalFee = None\<rparr>"

definition retry_fields :: "int \<Rightarrow> string \<Rightarrow> batch_row \<Rightarrow> batch_row" where
  "retry_fields t message r =
     r\<lparr>status := Retrying, submit_started_at := None, submitted_at := None, updated_at := t,
       last_reconciled_at := Some t, last_error_text := Some message, tx_hash := None, tx_key := None\<rparr>"

definition or_null :: "string option \<Rightarrow> string option" where
  "or_null v = (if text_truthy v then v else None)"

definition submitted_fields ::
  "int \<Rightarrow> string \<Rightarrow> string option \<Rightarrow> num \<Rightarrow> string option \<Rightarrow> batch_row \<Rightarrow> batch_row" where
  "submitted_fields t txHash txKey totalFee lastErrorText r =
     r\<lparr>status := Submitted, submitted_at := Some t, updated_at := t, tx_hash := Some txHash,
       tx_key := or_null txKey, total_fee := totalFee, last_error_text := or_null lastErrorText\<rparr>"

definition review_fields :: "int \<Rightarrow> string \<Rightarrow> match_details \<Rightarrow> batch_row \<Rightarrow> batch_row" where
  "review_fields t message details r =
     r\<lparr>status := Manual_review, updated_at := t, last_error_text := Some message,
       tx_hash := (if text_truthy (md_txHash details) then md_txHash details else tx_hash r),
       tx_key := (case md_txKey details of Some k \<Rightarrow> Some k | None \<Rightarrow> tx_key r),
       total_fee := (case md_totalFee details of Some f \<Rightarrow> f | None \<Rightarrow> total_fee r)\<rparr>"

subsection \<open>Claiming, finalizing and releasing\<close>

definition claim_fields :: "int \<Rightarrow> batch_row \<Rightarrow> batch_row" where
  "claim_fields t r = r\<lparr>status := Submitting, submit_started_at := Some t, updated_at := t, last_error_text := None\<rparr>"

definition claimQuery :: "nat \<Rightarrow> batch_status \<Rightarrow> int \<Rightarrow> pay_db \<Rightarrow> nat \<times> pay_db" where
  "claimQuery b expected t d =
     (let P = (\<lambda>i r. i = b \<and> status r = expected)
      in (count_where P (batches d), d\<lparr>batches := update_where P (\<lambda>_. claim_fields t) (batches d)\<rparr>))"

definition payment_record :: "int \<Rightarrow> nat \<Rightarrow> 'a payout_item_scheme \<Rightarrow> payment_row" where
  "payment_record t tid it =
     \<lparr>pay_unlocked_time = t, pay_paid_time = t, pay_pool_type = poolType it,
      pay_address = paymentAddress it, pay_transaction_id = tid, pay_amount = netAmount it,
      pay_transfer_fee = feeAmount it\<rparr>"

definition transaction_record :: "pay_config \<Rightarrow> batch_row \<Rightarrow> 'a payout_item_scheme list \<Rightarrow> transaction_row" where
  "transaction_record cfg batch items =
     \<lparr>tr_address = (if batchType batch = Bulk then None
                    else (case items of [] \<Rightarrow> None | it # _ \<Rightarrow> Some (paymentAddress it))),
      tr_xmr_amt = total_gross batch, tr_hash = tx_hash batch, tr_mixin = mixIn cfg,
      tr_fees = total_fee batch, tr_payees = length items\<rparr>"

definition case_gross :: "'a payout_item_scheme list \<Rightarrow> nat \<Rightarrow> num" where
  "case_gross items i =
     (case map_of (map (\<lambda>it. (balanceId it, grossAmount it)) items) i of Some g \<Rightarrow> g | None \<Rightarrow> 0)"

definition finalize_fields :: "int \<Rightarrow> nat \<Rightarrow> batch_row \<Rightarrow> string \<Rightarrow> batch_row \<Rightarrow> batch_row" where
  "finalize_fields t tid batch txKey r =
     r\<lparr>status := Finalized, finalized_at := Some t, updated_at := t, transaction_id := Some tid,
       tx_hash := tx_hash batch, tx_key := Some txKey, total_fee := total_fee batch,
       last_error_text := None\<rparr>"

definition finalizeTransaction ::
  "pay_config \<Rightarrow> int \<Rightarrow> nat \<Rightarrow> batch_row \<Rightarrow> item_row list \<Rightarrow> string \<Rightarrow> pay_db \<Rightarrow> string + nat \<times> pay_db" where
  "finalizeTransaction cfg t b batch items txKey d =
     (let tid = next_transaction_id d;
          ids = map balanceId items;
          pinned = (\<lambda>i r. bal_pending r = Some b \<and> i \<in> set ids)
      in if items = [] then Inl ''payments insert failed''
         else if count_where pinned (balances d) \<noteq> length ids then Inl ''balance finalize mismatch''
         else
           let d1 = d\<lparr>transactions := transactions d @ [(tid, transaction_record cfg batch items)],
                     next_transaction_id := tid + 1,
                     payments := payments d @ map (payment_record t tid) items,
                     balances := update_where pinned
                       (\<lambda>i r. r\<lparr>bal_amount := bal_amount r - case_gross items i, bal_pending := None\<rparr>)
                       (balances d)\<rparr>
           in case cas_batch b (finalize_fields t tid batch txKey) [status batch] guard_nulls d1 of
                Inl e \<Rightarrow> Inl e
              | Inr (n, d2) \<Rightarrow> if n = 1 then Inr (tid, d2) else Inl ''batch finalize update failed'')"

definition release_fields :: "int \<Rightarrow> string \<Rightarrow> batch_row \<Rightarrow> batch_row" where
  "release_fields t reason r =
     r\<lparr>status := Retryable, released_at := Some t, updated_at := t, last_error_text := Some reason\<rparr>"

definition releaseTransaction ::
  "int \<Rightarrow> nat \<Rightarrow> batch_status \<Rightarrow> string \<Rightarrow> pay_db \<Rightarrow> string + bool \<times> pay_db" where
  "releaseTransaction t b expected reason d =
     (case cas_batch b (release_fields t reason) [expected] release_nulls d of
        Inl e \<Rightarrow> Inl e
      | Inr (n, d1) \<Rightarrow>
          if n \<noteq> 1 then Inr (False, d1)
          else Inr (True, d1\<lparr>balances :=
                 update_where (\<lambda>_ r. bal_pending r = Some b) (\<lambda>_ r. r\<lparr>bal_pending := None\<rparr>) (balances d1)\<rparr>))"

subsection \<open>The world\<close>

text \<open>
  Outcome of a query: it ran; it failed before it had an effect; or it had its effect
  and the acknowledgement was lost. The same for a transaction, where a failure can
  come before or after its work is done but before the commit.
\<close>

datatype sql_outcome = Sql_ok | Sql_lost string | Sql_unacked string

datatype tx_outcome = Tx_ok | Tx_failed string | Tx_commit_failed string | Tx_unacked string

record pay_env =
  config :: pay_config
  wallet_reply :: "nat \<Rightarrow> jsval"
  sql_result :: "nat \<Rightarrow> sql_outcome"
  tx_result :: "nat \<Rightarrow> tx_outcome"
  rival :: "nat \<Rightarrow> pay_db \<Rightarrow> pay_db"
  clock_at :: "nat \<Rightarrow> int"
  lock_closed :: "nat \<Rightarrow> bool"
  get_connection :: "nat \<Rightarrow> string + nat"
  lock_reply :: "nat \<Rightarrow> string + jsval"

record pay_world =
  env :: pay_env
  db :: pay_db
  mem_id :: nat
  mem :: batch_row
  isFailStop :: bool
  failStopReason :: "string option"
  activeBatchId :: "nat option"
  lockConnection :: "nat option"
  lastPaymentCycle :: "int option"
  clock :: int
  awaits :: nat
  wallet_log :: "(string \<times> jsval \<times> nat) list"

type_synonym 'a pay = "(pay_world, 'a) prog"

text \<open>Fail-stop is a latch: the first reason stays.\<close>

definition failStopState :: "string \<Rightarrow> nat option \<Rightarrow> pay_world \<Rightarrow> pay_world" where
  "failStopState message batchId w =
     (let w1 = (case batchId of Some b \<Rightarrow> w\<lparr>activeBatchId := Some b\<rparr> | None \<Rightarrow> w)
      in if isFailStop w1 then w1
         else w1\<lparr>isFailStop := True, failStopReason := Some message\<rparr>)"

definition enterFailStop :: "string \<Rightarrow> nat option \<Rightarrow> bool pay" where
  "enterFailStop message batchId = andThen (modify (failStopState message batchId)) (\<lambda>_. ret False)"

definition clearAdvisoryLockConnection :: "pay_world \<Rightarrow> pay_world" where
  "clearAdvisoryLockConnection w = w\<lparr>lockConnection := None\<rparr>"

definition handleAdvisoryLockConnectionClose :: "pay_world \<Rightarrow> pay_world" where
  "handleAdvisoryLockConnectionClose w =
     failStopState ''advisory lock connection closed'' None (clearAdvisoryLockConnection w)"

text \<open>
  Everything that can happen while a call is awaited: other processes change the
  tables, time passes, and the connection that holds the advisory lock may close, which
  runs its event handler.
\<close>

definition await_step :: "pay_world \<Rightarrow> pay_world" where
  "await_step w =
     (let n = awaits w;
          w1 = w\<lparr>awaits := n + 1, clock := clock_at (env w) n, db := rival (env w) n (db w)\<rparr>
      in if lock_closed (env w) n \<and> lockConnection w \<noteq> None
         then handleAdvisoryLockConnectionClose w1 else w1)"

definition callWallet :: "string \<Rightarrow> jsval \<Rightarrow> jsval pay" where
  "callWallet meth params =
     andThen (modify (\<lambda>w. await_step (w\<lparr>wallet_log := wallet_log w @ [(meth, params, mem_id w)]\<rparr>)))
       (\<lambda>_. gets (\<lambda>w. wallet_reply (env w) (awaits w)))"

definition query :: "(pay_db \<Rightarrow> string + 'a \<times> pay_db) \<Rightarrow> 'a pay" where
  "query f = (\<lambda>w0.
     let w = await_step w0
     in case sql_result (env w) (awaits w) of
          Sql_lost e \<Rightarrow> (Inl e, w)
        | Sql_ok \<Rightarrow> (case f (db w) of Inl e \<Rightarrow> (Inl e, w) | Inr (x, d) \<Rightarrow> (Inr x, w\<lparr>db := d\<rparr>))
        | Sql_unacked e \<Rightarrow> (case f (db w) of Inl e' \<Rightarrow> (Inl e', w) | Inr (x, d) \<Rightarrow> (Inl e, w\<lparr>db := d\<rparr>)))"

definition select :: "(pay_db \<Rightarrow> 'a) \<Rightarrow> 'a pay" where
  "select f = query (\<lambda>d. Inr (f d, d))"

definition withTransaction :: "(pay_world \<Rightarrow> string + 'a \<times> pay_db) \<Rightarrow> ('a \<Rightarrow> pay_world \<Rightarrow> pay_world) \<Rightarrow> 'a pay" where
  "withTransaction work after = (\<lambda>w0.
     let w = await_step w0
     in case tx_result (env w) (awaits w) of
          Tx_failed e \<Rightarrow> (Inl e, w)
        | Tx_ok \<Rightarrow> (case work w of Inl e \<Rightarrow> (Inl e, w) | Inr (x, d) \<Rightarrow> (Inr x, after x (w\<lparr>db := d\<rparr>)))
        | Tx_commit_failed e \<Rightarrow> (case work w of Inl e' \<Rightarrow> (Inl e', w) | Inr (x, d) \<Rightarrow> (Inl e, after x w))
        | Tx_unacked e \<Rightarrow> (case work w of Inl e' \<Rightarrow> (Inl e', w) | Inr (x, d) \<Rightarrow> (Inl e, after x (w\<lparr>db := d\<rparr>))))"

definition currentTime :: "pay_world \<Rightarrow> int" where
  "currentTime w = nowSqlTimestamp (config (env w)) (clock w)"

text \<open>A time text written to a TIMESTAMP column is stored as the instant it names.\<close>

definition dbTime :: "pay_world \<Rightarrow> int \<Rightarrow> int" where
  "dbTime w t = t - tz_offset (config (env w))"

end
