(* ===== verification/Ledger.thy ===== *)
theory Ledger
  imports Js_Number
begin

text \<open>
  A ledger is a system whose steps are labelled with the amount they add to a total and
  that keeps an invariant. The interface \<open>ledger\<close> is what a table store promises to
  its clients; runs, their totals and the facts that persist along them follow from it
  once and for all.
\<close>

inductive accum :: "(num \<Rightarrow> 's \<Rightarrow> 's \<Rightarrow> bool) \<Rightarrow> num \<Rightarrow> 's \<Rightarrow> 's \<Rightarrow> bool" for step where
  none: "accum step 0 s s"
| more: "accum step c s s' \<Longrightarrow> step c' s' s'' \<Longrightarrow> accum step (c + c') s s''"

inductive_cases accum_lastE: "accum step c s s'"

lemma accum_trans: "accum step c' s' s'' \<Longrightarrow> accum step c s s' \<Longrightarrow> accum step (c + c') s s''"
proof (induction rule: accum.induct)
  case (none s')
  then show ?case by simp
next
  case (more c1 s1 s2 c2 s3)
  then have "accum step (c + c1 + c2) s s3" by (blast intro: accum.more)
  then show ?case by (simp only: add.assoc)
qed

lemma accum_single: "step c s s' \<Longrightarrow> accum step c s s'"
  using accum.more [OF accum.none] by fastforce

definition reaches :: "(num \<Rightarrow> 's \<Rightarrow> 's \<Rightarrow> bool) \<Rightarrow> 's \<Rightarrow> 's \<Rightarrow> bool" where
  "reaches step s s' \<longleftrightarrow> (\<exists>c. accum step c s s')"

lemma reaches_refl: "reaches step s s"
  unfolding reaches_def by (rule exI) (rule accum.none)

lemma reaches_trans: "reaches step s s' \<Longrightarrow> reaches step s' s'' \<Longrightarrow> reaches step s s''"
  unfolding reaches_def using accum_trans by fast

lemma reaches_step: "reaches step s s' \<Longrightarrow> step c s' s'' \<Longrightarrow> reaches step s s''"
  unfolding reaches_def using accum.more by fast

locale ledger =
  fixes step :: "num \<Rightarrow> 's \<Rightarrow> 's \<Rightarrow> bool"
    and ok :: "'s \<Rightarrow> bool"
    and total :: "'s \<Rightarrow> num"
  assumes step_ok: "ok s \<Longrightarrow> step c s s' \<Longrightarrow> ok s'"
    and step_total: "ok s \<Longrightarrow> step c s s' \<Longrightarrow> total s' = total s + c"
begin

lemma run_ok: "accum step c s s' \<Longrightarrow> ok s \<Longrightarrow> ok s'"
  by (induction rule: accum.induct) (blast intro: step_ok)+

lemma run_total: "accum step c s s' \<Longrightarrow> ok s \<Longrightarrow> total s' = total s + c"
proof (induction rule: accum.induct)
  case (none s)
  then show ?case by simp
next
  case (more c s s' c' s'')
  then have "ok s'" using run_ok by blast
  with more show ?case using step_total by fastforce
qed

lemma run_stable:
  assumes "accum step c s s'" and "ok s" and "P s"
    and keep: "\<And>c s s'. ok s \<Longrightarrow> step c s s' \<Longrightarrow> P s \<Longrightarrow> P s'"
  shows "P s'"
proof -
  from assms(1-3) have "ok s' \<and> P s'"
    by (induction rule: accum.induct) (blast intro: step_ok keep)+
  then show ?thesis ..
qed

lemma reaches_ok: "reaches step s s' \<Longrightarrow> ok s \<Longrightarrow> ok s'"
  unfolding reaches_def using run_ok by blast

lemma reaches_stable:
  "reaches step s s' \<Longrightarrow> ok s \<Longrightarrow> P s \<Longrightarrow> (\<And>c s s'. ok s \<Longrightarrow> step c s s' \<Longrightarrow> P s \<Longrightarrow> P s') \<Longrightarrow> P s'"
  unfolding reaches_def using run_stable by blast

end

end
