(* ===== verification/Payments_Steps.thy ===== *)
theory Payments_Steps
  imports Payments_Store Ledger
begin

text \<open>
  The durable payment-batch state machine of \<open>src/lib/payments/processor.js\<close> as a step
  relation on the tables: one rule per SQL statement or transaction that any payout
  process, with any stale in-memory view, or the block manager's crediting may execute,
  and one for the writes of the API and the user scripts to the \<open>users\<close> table, such as a new
  payout threshold (\<open>src/lib/api/account.js\<close>). The operator scripts that edit balances and
  batches by hand, \<open>src/manage_scripts/payment_batch_unlock.js\<close>,
  \<open>user_delete_common.js\<close> and \<open>src/user_scripts/user_balance_move_common.js\<close>, are no steps
  of this machine.
  The table invariant \<open>db_ok\<close>, what a step can do to a batch, and the conservation of
  funds are proved here, for every interleaving.
\<close>

subsection \<open>Table invariant\<close>

definition in_flight :: "batch_status \<Rightarrow> bool" where
  "in_flight s \<longleftrightarrow> s \<in> {Reserved, Retrying, Submitting, Submitted, Manual_review}"

definition unsubmitted :: "batch_status \<Rightarrow> bool" where
  "unsubmitted s \<longleftrightarrow> s \<in> {Reserved, Retrying, Retryable}"

text \<open>What the columns of a batch say about its status, in a table row or in memory.\<close>

definition mem_ok :: "batch_row \<Rightarrow> bool" where
  "mem_ok r \<longleftrightarrow>
     (unsubmitted (status r) \<longrightarrow> submit_started_at r = None \<and> submitted_at r = None \<and> tx_hash r = None \<and> tx_key r = None) \<and>
     (\<not> unsubmitted (status r) \<longrightarrow> submit_started_at r \<noteq> None) \<and>
     (status r \<in> {Submitted, Finalized} \<longrightarrow> text_truthy (tx_hash r))"

definition row_ok :: "batch_row \<Rightarrow> bool" where
  "row_ok r \<longleftrightarrow> mem_ok r \<and>
     (finalized_at r \<noteq> None \<longleftrightarrow> status r = Finalized) \<and>
     (transaction_id r \<noteq> None \<longleftrightarrow> status r = Finalized)"

definition items_of :: "pay_db \<Rightarrow> nat \<Rightarrow> item_row list" where
  "items_of d b = filter (\<lambda>it. item_batch_id it = b) (batch_items d)"

definition keys_ok :: "pay_db \<Rightarrow> bool" where
  "keys_ok d \<longleftrightarrow> distinct (map fst (balances d)) \<and> distinct (map fst (batches d)) \<and>
     (\<forall>b \<in> fst ` set (batches d). b < next_batch_id d) \<and>
     (\<forall>it \<in> set (batch_items d). item_batch_id it < next_batch_id d)"

definition rows_ok :: "pay_db \<Rightarrow> bool" where
  "rows_ok d \<longleftrightarrow> (\<forall>(b, r) \<in> set (batches d). row_ok r) \<and> distinct (tx_hashes (batches d))"

definition items_ok :: "pay_db \<Rightarrow> bool" where
  "items_ok d \<longleftrightarrow> (\<forall>it \<in> set (batch_items d). grossAmount it = netAmount it + feeAmount it) \<and>
     (\<forall>b. distinct (map balanceId (items_of d b)))"

text \<open>A pin points at a batch in flight that lists the balance, and such a batch holds all its pins.\<close>

definition pins_ok :: "pay_db \<Rightarrow> bool" where
  "pins_ok d \<longleftrightarrow>
     (\<forall>i r b. map_of (balances d) i = Some r \<longrightarrow> bal_pending r = Some b \<longrightarrow>
        (\<exists>row. map_of (batches d) b = Some row \<and> in_flight (status row)) \<and> i \<in> balanceId ` set (items_of d b)) \<and>
     (\<forall>b row it. map_of (batches d) b = Some row \<longrightarrow> in_flight (status row) \<longrightarrow> it \<in> set (items_of d b) \<longrightarrow>
        (\<exists>r. map_of (balances d) (balanceId it) = Some r \<and> bal_pending r = Some b))"

definition db_ok :: "pay_db \<Rightarrow> bool" where
  "db_ok d \<longleftrightarrow> keys_ok d \<and> rows_ok d \<and> items_ok d \<and> pins_ok d"

definition funds :: "pay_db \<Rightarrow> num" where
  "funds d = sum_list (map (bal_amount \<circ> snd) (balances d)) +
             sum_list (map (\<lambda>p. pay_amount p + pay_transfer_fee p) (payments d))"

lemma pin_holds:
  "db_ok d \<Longrightarrow> map_of (batches d) b = Some row \<Longrightarrow> in_flight (status row) \<Longrightarrow> it \<in> set (items_of d b) \<Longrightarrow>
     \<exists>r. map_of (balances d) (balanceId it) = Some r \<and> bal_pending r = Some b"
  by (simp add: db_ok_def pins_ok_def)

lemma pin_points:
  "db_ok d \<Longrightarrow> map_of (balances d) i = Some r \<Longrightarrow> bal_pending r = Some b \<Longrightarrow>
     (\<exists>row. map_of (batches d) b = Some row \<and> in_flight (status row)) \<and> i \<in> balanceId ` set (items_of d b)"
  by (simp add: db_ok_def pins_ok_def)

subsection \<open>Steps\<close>

definition plan_ok :: "batch_plan \<Rightarrow> bool" where
  "plan_ok plan \<longleftrightarrow> (\<forall>it \<in> set (plan_items plan). grossAmount it = netAmount it + feeAmount it)"

text \<open>
  The payouts of a list of items, without their row data and their order. The object a
  reservation returns has the items with the time text instead of the stored instant.
\<close>

definition same_payouts :: "item_row list \<Rightarrow> item_row list \<Rightarrow> bool" where
  "same_payouts xs ys \<longleftrightarrow> mset (map payout_item.truncate xs) = mset (map payout_item.truncate ys)"

text \<open>The columns a hold or a reconcile record leaves alone.\<close>

definition core :: "batch_row \<Rightarrow> batch_row" where
  "core r = r\<lparr>updated_at := 0, last_reconciled_at := None, reconcile_attempts := 0,
              reconcile_clean_passes := 0, last_error_text := None\<rparr>"

inductive db_step :: "num \<Rightarrow> pay_db \<Rightarrow> pay_db \<Rightarrow> bool" where
  reserve: "reserveTransaction t plan d = Inr (b, d') \<Longrightarrow> plan_ok plan \<Longrightarrow> db_step 0 d d'"
| claim: "claimQuery b e t d = (n, d') \<Longrightarrow> e \<in> {Reserved, Retrying} \<Longrightarrow> db_step 0 d d'"
| touch: "cas_batch b f expected nulls d = Inr (n, d') \<Longrightarrow> (\<And>r. core (f r) = core r) \<Longrightarrow> db_step 0 d d'"
| retry: "cas_batch b (retry_fields t m) [e] guard_nulls d = Inr (n, d') \<Longrightarrow> e \<in> {Reserved, Retrying} \<Longrightarrow> db_step 0 d d'"
| submitted: "cas_batch b (submitted_fields t h k fee m) [e] guard_nulls d = Inr (n, d') \<Longrightarrow>
     e = Submitting \<Longrightarrow> h \<noteq> [] \<Longrightarrow> db_step 0 d d'"
| review: "cas_batch b (review_fields t m details) [e] guard_nulls d = Inr (n, d') \<Longrightarrow>
     e \<in> {Submitting, Submitted} \<Longrightarrow> db_step 0 d d'"
| finalize: "finalizeTransaction cfg t b batch items k d = Inr (tid, d') \<Longrightarrow> status batch = Submitted \<Longrightarrow>
     text_truthy (tx_hash batch) \<Longrightarrow> same_payouts items (items_of d b) \<Longrightarrow> db_step 0 d d'"
| release: "releaseTransaction t b e m d = Inr (x, d') \<Longrightarrow> e = Reserved \<Longrightarrow> db_step 0 d d'"
| credit: "d' = d\<lparr>balances := update_where (\<lambda>i r. i = k) (\<lambda>_ r. r\<lparr>bal_amount := bal_amount r + c\<rparr>) (balances d)\<rparr> \<Longrightarrow>
     map_of (balances d) k \<noteq> None \<Longrightarrow> db_step c d d'"
| new_balance: "d' = d\<lparr>balances := balances d @ [(k, r)]\<rparr> \<Longrightarrow> k \<notin> fst ` set (balances d) \<Longrightarrow>
     bal_amount r = 0 \<Longrightarrow> bal_pending r = None \<Longrightarrow> db_step 0 d d'"
| threshold: "d' = d\<lparr>users := us\<rparr> \<Longrightarrow> db_step 0 d d'"

subsection \<open>Compare-and-swap\<close>

lemma cas_batch_Inr:
  assumes "cas_batch b f expected nulls d = Inr (n, d')"
  shows "d' = d\<lparr>batches := update_where (cas_match b expected nulls) (\<lambda>_. f) (batches d)\<rparr>"
    and "distinct (tx_hashes (batches d'))"
    and "n = count_where (cas_match b expected nulls) (batches d)"
  using assms by (auto simp: cas_batch_def Let_def split: if_splits)

lemma map_of_cas:
  assumes "cas_batch b f expected nulls d = Inr (n, d')"
  shows "map_of (batches d') i =
     (case map_of (batches d) i of None \<Rightarrow> None
      | Some r \<Rightarrow> Some (if cas_match b expected nulls i r then f r else r))"
  by (simp add: cas_batch_Inr(1) [OF assms] map_of_update_where)

text \<open>
  A guarded write that keeps each row well-formed and does not take a batch out of
  flight keeps the whole table invariant.
\<close>

lemma db_ok_batches_update:
  assumes ok: "db_ok d" and d': "d' = d\<lparr>batches := update_where P (\<lambda>_. f) (batches d)\<rparr>"
    and hs: "distinct (tx_hashes (batches d'))"
    and row: "\<And>i r. P i r \<Longrightarrow> row_ok r \<Longrightarrow> row_ok (f r)"
    and flight: "\<And>i r. P i r \<Longrightarrow> row_ok r \<Longrightarrow> in_flight (status (f r)) = in_flight (status r)"
  shows "db_ok d'"
proof -
  have rows: "row_ok r" if "map_of (batches d) i = Some r" for i r
    using ok that by (auto simp: db_ok_def rows_ok_def dest: map_of_SomeD)
  have items: "items_of d' = items_of d" by (simp add: d' items_of_def fun_eq_iff)
  have mo: "map_of (batches d') i = map_option (\<lambda>r. if P i r then f r else r) (map_of (batches d) i)" for i
    by (simp add: d' map_of_update_where split: option.split)
  have fl: "in_flight (status (if P i r then f r else r)) = in_flight (status r)"
    if "map_of (batches d) i = Some r" for i r
    using flight rows [OF that] by simp
  have "keys_ok d'" using ok by (simp add: d' db_ok_def keys_ok_def)
  moreover have "rows_ok d'"
    using ok hs row by (fastforce simp: d' db_ok_def rows_ok_def set_update_where)
  moreover have "items_ok d'" using ok items by (simp add: d' db_ok_def items_ok_def)
  moreover have "pins_ok d'"
    unfolding pins_ok_def items mo
  proof (intro conjI allI impI)
    fix i r b assume a: "map_of (balances d') i = Some r" "bal_pending r = Some b"
    then obtain row where "map_of (batches d) b = Some row" "in_flight (status row)" "i \<in> balanceId ` set (items_of d b)"
      using ok by (force simp: d' db_ok_def pins_ok_def)
    then show "\<exists>row. map_option (\<lambda>r. if P b r then f r else r) (map_of (batches d) b) = Some row \<and> in_flight (status row)"
      and "i \<in> balanceId ` set (items_of d b)" using fl by auto
  next
    fix b row it
    assume a: "map_option (\<lambda>r. if P b r then f r else r) (map_of (batches d) b) = Some row"
      "in_flight (status row)" "it \<in> set (items_of d b)"
    then obtain r where "map_of (batches d) b = Some r" "in_flight (status r)" using fl by auto
    with a(3) ok show "\<exists>r. map_of (balances d') (balanceId it) = Some r \<and> bal_pending r = Some b"
      by (simp add: d' db_ok_def pins_ok_def)
  qed
  ultimately show ?thesis by (simp add: db_ok_def)
qed

lemma db_ok_cas:
  assumes "db_ok d" and "cas_batch b f expected nulls d = Inr (n, d')"
    and "\<And>i r. cas_match b expected nulls i r \<Longrightarrow> row_ok r \<Longrightarrow> row_ok (f r)"
    and "\<And>i r. cas_match b expected nulls i r \<Longrightarrow> row_ok r \<Longrightarrow> in_flight (status (f r)) = in_flight (status r)"
  shows "db_ok d'"
  using db_ok_batches_update [OF assms(1) cas_batch_Inr(1,2) [OF assms(2)]] assms(3,4) by blast

subsection \<open>Every step keeps the invariant\<close>

lemma core_sel:
  "status (core r) = status r" "submit_started_at (core r) = submit_started_at r"
  "submitted_at (core r) = submitted_at r" "finalized_at (core r) = finalized_at r"
  "tx_hash (core r) = tx_hash r" "tx_key (core r) = tx_key r" "transaction_id (core r) = transaction_id r"
  by (simp_all add: core_def)

lemma row_ok_of_core: "row_ok (core r) = row_ok r" "mem_ok (core r) = mem_ok r"
  by (simp_all add: row_ok_def mem_ok_def core_sel)

lemma row_ok_core: "core r = core r' \<Longrightarrow> row_ok r = row_ok r'"
  using row_ok_of_core(1) [of r] row_ok_of_core(1) [of r'] by simp

lemma mem_ok_core: "core r = core r' \<Longrightarrow> mem_ok r = mem_ok r'"
  using row_ok_of_core(2) [of r] row_ok_of_core(2) [of r'] by simp

lemma status_core: "core r = core r' \<Longrightarrow> status r = status r'"
  using core_sel(1) [of r] core_sel(1) [of r'] by simp

lemma guard_nulls_match:
  "cas_match b [e] guard_nulls i r \<longleftrightarrow> i = b \<and> status r = e \<and> finalized_at r = None \<and> transaction_id r = None"
  by (auto simp: cas_match_def guard_nulls_def)

lemmas status_defs = in_flight_def unsubmitted_def row_ok_def mem_ok_def text_truthy_def

lemma db_ok_touch:
  assumes "db_ok d" "cas_batch b f expected nulls d = Inr (n, d')" and c: "\<And>r. core (f r) = core r"
  shows "db_ok d'"
  using assms(1,2)
proof (rule db_ok_cas)
  fix i r assume "row_ok r"
  then show "row_ok (f r)" "in_flight (status (f r)) = in_flight (status r)"
    using row_ok_core [OF c] status_core [OF c] by simp_all
qed

lemma db_ok_retry:
  assumes "db_ok d" "cas_batch b (retry_fields t m) [e] guard_nulls d = Inr (n, d')" "e \<in> {Reserved, Retrying}"
  shows "db_ok d'"
  using assms(1,2)
proof (rule db_ok_cas)
  fix i r assume "cas_match b [e] guard_nulls i r" "row_ok r"
  then show "row_ok (retry_fields t m r)" "in_flight (status (retry_fields t m r)) = in_flight (status r)"
    using assms(3) by (auto simp: guard_nulls_match retry_fields_def status_defs)
qed

lemma db_ok_submitted:
  assumes "db_ok d" "cas_batch b (submitted_fields t h k fee m) [e] guard_nulls d = Inr (n, d')"
    "e = Submitting" "h \<noteq> []"
  shows "db_ok d'"
  using assms(1,2)
proof (rule db_ok_cas)
  fix i r assume "cas_match b [e] guard_nulls i r" "row_ok r"
  then show "row_ok (submitted_fields t h k fee m r)"
    "in_flight (status (submitted_fields t h k fee m r)) = in_flight (status r)"
    using assms(3,4) by (auto simp: guard_nulls_match submitted_fields_def status_defs)
qed

lemma db_ok_review:
  assumes "db_ok d" "cas_batch b (review_fields t m details) [e] guard_nulls d = Inr (n, d')"
    "e \<in> {Submitting, Submitted}"
  shows "db_ok d'"
  using assms(1,2)
proof (rule db_ok_cas)
  fix i r assume "cas_match b [e] guard_nulls i r" "row_ok r"
  then show "row_ok (review_fields t m details r)"
    "in_flight (status (review_fields t m details r)) = in_flight (status r)"
    using assms(3) by (auto simp: guard_nulls_match review_fields_def status_defs)
qed

lemma tx_hashes_update_same:
  assumes "\<And>i r. P i r \<Longrightarrow> tx_hash (f i r) = tx_hash r"
  shows "tx_hashes (update_where P f t) = tx_hashes t"
proof -
  have "tx_hash (if P i r then f i r else r) = tx_hash r" for i r using assms by simp
  then show ?thesis
    by (simp add: tx_hashes_def update_where_def List.map_filter_def filter_map comp_def case_prod_unfold)
qed

lemma claimQuery_eq:
  "claimQuery b e t d = (n, d') \<Longrightarrow>
     d' = d\<lparr>batches := update_where (\<lambda>i r. i = b \<and> status r = e) (\<lambda>_. claim_fields t) (batches d)\<rparr> \<and>
     n = count_where (\<lambda>i r. i = b \<and> status r = e) (batches d)"
  by (auto simp: claimQuery_def Let_def)

lemma db_ok_claim:
  assumes "db_ok d" "claimQuery b e t d = (n, d')" "e \<in> {Reserved, Retrying}"
  shows "db_ok d'"
  using assms(1)
proof (rule db_ok_batches_update)
  show d': "d' = d\<lparr>batches := update_where (\<lambda>i r. i = b \<and> status r = e) (\<lambda>_. claim_fields t) (batches d)\<rparr>"
    using claimQuery_eq [OF assms(2)] by simp
  show "distinct (tx_hashes (batches d'))"
    using assms(1) by (simp add: d' tx_hashes_update_same claim_fields_def db_ok_def rows_ok_def)
  fix i r assume "i = b \<and> status r = e" "row_ok r"
  then show "row_ok (claim_fields t r)" "in_flight (status (claim_fields t r)) = in_flight (status r)"
    using assms(3) by (auto simp: claim_fields_def status_defs)
qed

subsubsection \<open>Reserving\<close>

lemma map_balanceId_item_records: "map balanceId (item_records b t items) = map balanceId items"
proof -
  have "map balanceId (item_records b t items) = map (balanceId \<circ> snd) (enumerate 0 items)"
    by (simp add: item_records_def item_record_def case_prod_unfold)
  also have "\<dots> = map balanceId items"
    by (simp only: map_map [symmetric] map_snd_enumerate)
  finally show ?thesis .
qed

lemma item_records_batch: "it \<in> set (item_records b t items) \<Longrightarrow> item_batch_id it = b"
  by (auto simp: item_records_def item_record_def)

lemma item_records_amounts:
  "it \<in> set (item_records b t items) \<Longrightarrow> \<exists>p \<in> set items. grossAmount it = grossAmount p
     \<and> netAmount it = netAmount p \<and> feeAmount it = feeAmount p \<and> balanceId it = balanceId p"
  by (fastforce simp: item_records_def item_record_def in_set_enumerate_eq)

lemma reserveTransaction_Inr:
  assumes "reserveTransaction t plan d = Inr (b, d')"
  defines "ids \<equiv> map balanceId (plan_items plan)"
  defines "free \<equiv> \<lambda>i r. i \<in> set ids \<and> bal_pending r = None"
  shows "b = next_batch_id d" "distinct ids" "plan_items plan \<noteq> []"
    "count_where free (balances d) = length ids"
    "d' = d\<lparr>batches := batches d @ [(b, reserved_row t plan)],
            batch_items := batch_items d @ item_records b t (plan_items plan),
            balances := update_where free (\<lambda>_ r. r\<lparr>bal_pending := Some b\<rparr>) (balances d),
            next_batch_id := b + 1\<rparr>"
  using assms by (auto simp: reserveTransaction_def Let_def item_records_def split: if_splits)

lemma items_of_reserve:
  assumes "db_ok d" "reserveTransaction t plan d = Inr (b, d')"
  shows "items_of d' i = (if i = b then item_records b t (plan_items plan) else items_of d i)"
proof -
  note r = reserveTransaction_Inr [OF assms(2)]
  have old: "filter (\<lambda>it. item_batch_id it = b) (batch_items d) = []"
    using assms(1) r(1) by (auto simp: db_ok_def keys_ok_def filter_empty_conv)
  have new: "filter (\<lambda>it. item_batch_id it = i) (item_records b t (plan_items plan)) =
      (if i = b then item_records b t (plan_items plan) else [])"
    using item_records_batch [of _ b t "plan_items plan"] by (auto simp: filter_id_conv filter_empty_conv)
  show ?thesis using old new by (simp add: r(5) items_of_def)
qed

lemma map_of_batches_reserve:
  assumes "db_ok d" "reserveTransaction t plan d = Inr (b, d')"
  shows "map_of (batches d') i = (if i = b then Some (reserved_row t plan) else map_of (batches d) i)"
proof -
  note r = reserveTransaction_Inr [OF assms(2)]
  have "b \<notin> fst ` set (batches d)"
    using assms(1) r(1) by (auto simp: db_ok_def keys_ok_def)
  then have "map_of (batches d) b = None" by (simp add: map_of_eq_None_iff)
  then show ?thesis by (simp add: r(5) map_add_def split: option.split)
qed

lemma item_records_ids:
  "balanceId ` set (item_records b t items) = set (map balanceId items)"
  using arg_cong [OF map_balanceId_item_records, of set b t items] by simp

lemma map_of_balances_reserve:
  assumes "reserveTransaction t plan d = Inr (b, d')"
  shows "map_of (balances d') i = map_option
      (\<lambda>x. if i \<in> set (map balanceId (plan_items plan)) \<and> bal_pending x = None then x\<lparr>bal_pending := Some b\<rparr> else x)
      (map_of (balances d) i)"
  by (simp add: reserveTransaction_Inr(5) [OF assms] map_of_update_where split: option.split)

lemma reserve_pins_point:
  assumes ok: "db_ok d" and res: "reserveTransaction t plan d = Inr (b, d')"
    and x: "map_of (balances d') i = Some x" "bal_pending x = Some c"
  shows "(\<exists>row. map_of (batches d') c = Some row \<and> in_flight (status row)) \<and> i \<in> balanceId ` set (items_of d' c)"
proof -
  note mb = map_of_batches_reserve [OF ok res] and it = items_of_reserve [OF ok res]
  have nb: "map_of (batches d) b = None"
    using ok reserveTransaction_Inr(1) [OF res] by (force simp: db_ok_def keys_ok_def map_of_eq_None_iff)
  from x obtain y where y: "map_of (balances d) i = Some y"
      "x = (if i \<in> set (map balanceId (plan_items plan)) \<and> bal_pending y = None then y\<lparr>bal_pending := Some b\<rparr> else y)"
    by (auto simp: map_of_balances_reserve [OF res])
  show ?thesis
  proof (cases "i \<in> set (map balanceId (plan_items plan)) \<and> bal_pending y = None")
    case True
    with y x(2) have "c = b" by simp
    with True show ?thesis by (simp add: mb it item_records_ids reserved_row_def in_flight_def)
  next
    case False
    then have "x = y" using y(2) by (simp only: if_False)
    with x(2) have p: "bal_pending y = Some c" by simp
    with ok y(1) have "(\<exists>row. map_of (batches d) c = Some row \<and> in_flight (status row)) \<and> i \<in> balanceId ` set (items_of d c)"
      by (simp add: db_ok_def pins_ok_def)
    moreover from this nb have "c \<noteq> b" by auto
    ultimately show ?thesis by (simp add: mb it)
  qed
qed

lemma reserve_pins_hold:
  assumes ok: "db_ok d" and res: "reserveTransaction t plan d = Inr (b, d')"
    and a: "map_of (batches d') c = Some row" "in_flight (status row)" "x \<in> set (items_of d' c)"
  shows "\<exists>r. map_of (balances d') (balanceId x) = Some r \<and> bal_pending r = Some c"
proof -
  note r = reserveTransaction_Inr [OF res]
  note mb = map_of_batches_reserve [OF ok res] and it = items_of_reserve [OF ok res]
    and mbal = map_of_balances_reserve [OF res]
  show ?thesis
  proof (cases "c = b")
    case True
    with a(3) have k: "balanceId x \<in> set (map balanceId (plan_items plan))"
      using item_records_ids [of b t "plan_items plan"] by (auto simp: it)
    from count_where_ids_all [OF _ r(2) r(4) k] ok
    obtain y where "map_of (balances d) (balanceId x) = Some y" "bal_pending y = None"
      by (auto simp: db_ok_def keys_ok_def)
    with k True show ?thesis by (simp add: mbal)
  next
    case False
    with a have "map_of (batches d) c = Some row" "x \<in> set (items_of d c)" by (simp_all add: mb it)
    with pin_holds [OF ok] a(2) obtain y where "map_of (balances d) (balanceId x) = Some y" "bal_pending y = Some c"
      by blast
    then show ?thesis by (simp add: mbal)
  qed
qed

lemma db_ok_reserve:
  assumes ok: "db_ok d" and res: "reserveTransaction t plan d = Inr (b, d')" and plan: "plan_ok plan"
  shows "db_ok d'"
proof -
  note r = reserveTransaction_Inr [OF res]
  have "keys_ok d'"
    using ok r(1) item_records_batch [of _ b t "plan_items plan"]
    by (auto simp: r(5) db_ok_def keys_ok_def less_Suc_eq)
  moreover have "row_ok (reserved_row t plan)" by (simp add: reserved_row_def status_defs)
  then have "rows_ok d'"
    using ok by (auto simp: r(5) db_ok_def rows_ok_def tx_hashes_def reserved_row_def List.map_filter_def)
  moreover have "items_ok d'"
    unfolding items_ok_def items_of_reserve [OF ok res]
  proof (intro conjI ballI allI)
    fix x assume "x \<in> set (batch_items d')"
    then show "grossAmount x = netAmount x + feeAmount x"
      using ok plan item_records_amounts [of x b t "plan_items plan"]
      by (auto simp: r(5) db_ok_def items_ok_def plan_ok_def)
  next
    fix i show "distinct (map balanceId (if i = b then item_records b t (plan_items plan) else items_of d i))"
      using ok r(2) by (simp add: map_balanceId_item_records db_ok_def items_ok_def)
  qed
  moreover have "pins_ok d'"
    unfolding pins_ok_def using reserve_pins_point [OF ok res] reserve_pins_hold [OF ok res] by blast
  ultimately show ?thesis by (simp add: db_ok_def)
qed

subsubsection \<open>Taking a batch out of flight\<close>

text \<open>
  Finalizing and releasing both end the flight of one batch and clear exactly its pins.
  The invariant survives if no other balance changes its pin and the row stays
  well-formed.
\<close>

lemma db_ok_end_flight:
  assumes ok: "db_ok d"
    and bt: "batches d' = update_where P (\<lambda>_. f) (batches d)"
    and hs: "distinct (tx_hashes (batches d'))"
    and Pb: "\<And>i r. P i r \<Longrightarrow> i = b" and row: "\<And>i r. P i r \<Longrightarrow> row_ok r \<Longrightarrow> row_ok (f r)"
    and hit: "map_of (batches d) b = Some r0" "P b r0" and out: "\<not> in_flight (status (f r0))"
    and bl: "balances d' = update_where (\<lambda>i r. bal_pending r = Some b) g (balances d)"
    and clr: "\<And>i r. bal_pending (g i r) = None"
    and same: "batch_items d' = batch_items d" "next_batch_id d' = next_batch_id d"
  shows "db_ok d'"
proof -
  have items: "items_of d' = items_of d" by (simp add: same items_of_def fun_eq_iff)
  have mo: "map_of (batches d') i = map_option (\<lambda>r. if P i r then f r else r) (map_of (batches d) i)" for i
    by (simp add: bt map_of_update_where split: option.split)
  have mb: "map_of (balances d') i = map_option (\<lambda>r. if bal_pending r = Some b then g i r else r) (map_of (balances d) i)" for i
    by (simp add: bl map_of_update_where split: option.split)
  have "keys_ok d'" using ok by (simp add: bl bt same db_ok_def keys_ok_def)
  moreover have "rows_ok d'"
    using ok hs row by (fastforce simp: bt db_ok_def rows_ok_def set_update_where)
  moreover have "items_ok d'" using ok items by (simp add: same db_ok_def items_ok_def)
  moreover have "pins_ok d'"
    unfolding pins_ok_def items
  proof (intro conjI allI impI)
    fix i r c assume a: "map_of (balances d') i = Some r" "bal_pending r = Some c"
    then have y: "map_of (balances d) i = Some r" "c \<noteq> b" using clr [of i] by (auto simp: mb split: if_splits) (metis option.distinct(1))+
    then obtain row where "map_of (batches d) c = Some row" "in_flight (status row)" "i \<in> balanceId ` set (items_of d c)"
      using ok a(2) by (force simp: db_ok_def pins_ok_def)
    with y(2) Pb show "\<exists>row. map_of (batches d') c = Some row \<and> in_flight (status row)"
      and "i \<in> balanceId ` set (items_of d c)" by (auto simp: mo)
  next
    fix c rw it assume a: "map_of (batches d') c = Some rw" "in_flight (status rw)" "it \<in> set (items_of d c)"
    have "c \<noteq> b" using a hit out by (auto simp: mo)
    with a Pb have "map_of (batches d) c = Some rw" by (auto simp: mo split: if_splits)
    with a pin_holds [OF ok] obtain y where "map_of (balances d) (balanceId it) = Some y" "bal_pending y = Some c"
      by blast
    with \<open>c \<noteq> b\<close> show "\<exists>r. map_of (balances d') (balanceId it) = Some r \<and> bal_pending r = Some c"
      by (simp add: mb)
  qed
  ultimately show ?thesis by (simp add: db_ok_def)
qed

lemma db_ok_balance: "db_ok d \<Longrightarrow> (i, r) \<in> set (balances d) \<Longrightarrow> map_of (balances d) i = Some r"
  by (simp add: db_ok_def keys_ok_def)

lemma db_ok_batch_row: "db_ok d \<Longrightarrow> map_of (batches d) b = Some r \<Longrightarrow> row_ok r"
  by (auto simp: db_ok_def rows_ok_def dest: map_of_SomeD)

lemma same_payouts_ids:
  assumes "same_payouts xs ys"
  shows "mset (map balanceId xs) = mset (map balanceId ys)"
proof -
  have "mset (map balanceId xs) = image_mset balanceId (mset (map payout_item.truncate xs))" for xs :: "item_row list"
    by (simp add: payout_item.truncate_def image_mset.compositionality comp_def)
  with assms show ?thesis by (simp only: same_payouts_def)
qed

lemma same_payouts_gross:
  assumes "same_payouts xs ys" "\<forall>y \<in> set ys. grossAmount y = netAmount y + feeAmount y" "x \<in> set xs"
  shows "grossAmount x = netAmount x + feeAmount x"
proof -
  have "payout_item.truncate x \<in> payout_item.truncate ` set ys"
    using mset_eq_setD [OF assms(1) [unfolded same_payouts_def]] assms(3) by auto
  then obtain y where "y \<in> set ys" "payout_item.truncate x = payout_item.truncate y" by auto
  with assms(2) show ?thesis by (simp add: payout_item.truncate_def)
qed

lemma items_distinct: "db_ok d \<Longrightarrow> same_payouts items (items_of d b) \<Longrightarrow> distinct (map balanceId items)"
  using same_payouts_ids by (metis db_ok_def items_ok_def mset_eq_imp_distinct_iff)

lemma pinned_rows:
  assumes "db_ok d" "same_payouts items (items_of d b)" "(i, r) \<in> set (balances d)"
  shows "(bal_pending r = Some b \<and> i \<in> set (map balanceId items)) = (bal_pending r = Some b)"
  using assms(1) db_ok_balance [OF assms(1,3)] mset_eq_setD [OF same_payouts_ids [OF assms(2)]]
  by (auto simp: db_ok_def pins_ok_def)

lemma cas_hit:
  assumes "db_ok d" "cas_batch b f expected nulls d = Inr (1, d')"
  shows "\<exists>r. map_of (batches d) b = Some r \<and> cas_match b expected nulls b r"
proof -
  have "count_where (cas_match b expected nulls) (batches d) \<noteq> 0"
    using cas_batch_Inr(3) [OF assms(2)] by simp
  then obtain r where "(b, r) \<in> set (batches d)" "cas_match b expected nulls b r"
    by (auto simp: count_where_0 cas_match_def)
  with assms(1) show ?thesis by (auto simp: db_ok_def keys_ok_def)
qed

lemma cas_batch_frame:
  "cas_batch b f expected nulls (d\<lparr>transactions := y, next_transaction_id := n, payments := z, balances := x\<rparr>) =
     map_sum id (\<lambda>(k, d'). (k, d'\<lparr>transactions := y, next_transaction_id := n, payments := z, balances := x\<rparr>))
       (cas_batch b f expected nulls d)"
  by (simp add: cas_batch_def Let_def)

lemma finalizeTransaction_Inr:
  assumes "finalizeTransaction cfg t b batch items k d = Inr (tid, d')"
  defines "pinned \<equiv> \<lambda>i r. bal_pending r = Some b \<and> i \<in> set (map balanceId items)"
  obtains d2 where "items \<noteq> []" "tid = next_transaction_id d"
    "count_where pinned (balances d) = length (map balanceId items)"
    "cas_batch b (finalize_fields t tid batch k) [status batch] guard_nulls d = Inr (1, d2)"
    "d' = d2\<lparr>transactions := transactions d @ [(tid, transaction_record cfg batch items)],
             next_transaction_id := tid + 1,
             payments := payments d @ map (payment_record t tid) items,
             balances := update_where pinned
                (\<lambda>i r. r\<lparr>bal_amount := bal_amount r - case_gross items i, bal_pending := None\<rparr>) (balances d)\<rparr>"
proof -
  let ?b = "update_where pinned (\<lambda>i r. r\<lparr>bal_amount := bal_amount r - case_gross items i, bal_pending := None\<rparr>) (balances d)"
  let ?t = "transactions d @ [(tid, transaction_record cfg batch items)]"
  let ?p = "payments d @ map (payment_record t tid) items"
  have tid: "tid = next_transaction_id d" and ne: "items \<noteq> []"
    and cnt: "count_where pinned (balances d) = length (map balanceId items)"
    using assms by (auto simp: finalizeTransaction_def Let_def split: if_splits sum.splits prod.splits)
  have "cas_batch b (finalize_fields t tid batch k) [status batch] guard_nulls
      (d\<lparr>transactions := ?t, next_transaction_id := tid + 1, payments := ?p, balances := ?b\<rparr>) = Inr (1, d')"
    using assms ne cnt by (auto simp: finalizeTransaction_def Let_def split: if_splits sum.splits prod.splits)
  then obtain d2 where "cas_batch b (finalize_fields t tid batch k) [status batch] guard_nulls d = Inr (1, d2)"
      "d' = d2\<lparr>transactions := ?t, next_transaction_id := tid + 1, payments := ?p, balances := ?b\<rparr>"
    unfolding cas_batch_frame
    by (cases "cas_batch b (finalize_fields t tid batch k) [status batch] guard_nulls d") auto
  with that ne tid cnt show thesis by blast
qed

lemma db_ok_finalize:
  assumes ok: "db_ok d" and fin: "finalizeTransaction cfg t b batch items k d = Inr (tid, d')"
    and st: "status batch = Submitted" "text_truthy (tx_hash batch)" and it: "same_payouts items (items_of d b)"
  shows "db_ok d'"
proof -
  from fin obtain d2 where cas: "cas_batch b (finalize_fields t tid batch k) [status batch] guard_nulls d = Inr (1, d2)"
    and d': "d' = d2\<lparr>transactions := transactions d @ [(tid, transaction_record cfg batch items)],
             next_transaction_id := tid + 1,
             payments := payments d @ map (payment_record t tid) items,
             balances := update_where (\<lambda>i r. bal_pending r = Some b \<and> i \<in> set (map balanceId items))
                (\<lambda>i r. r\<lparr>bal_amount := bal_amount r - case_gross items i, bal_pending := None\<rparr>) (balances d)\<rparr>"
    by (rule finalizeTransaction_Inr)
  note c = cas_batch_Inr [OF cas]
  obtain r0 where r0: "map_of (batches d) b = Some r0" "cas_match b [status batch] guard_nulls b r0"
    using cas_hit [OF ok cas] by blast
  show ?thesis
  proof (rule db_ok_end_flight [where P = "cas_match b [status batch] guard_nulls" and b = b
        and f = "finalize_fields t tid batch k" and d = d, OF ok _ _ _ _ r0, where g = "\<lambda>i r. r\<lparr>bal_amount := bal_amount r - case_gross items i, bal_pending := None\<rparr>"])
    show "balances d' = update_where (\<lambda>i r. bal_pending r = Some b)
        (\<lambda>i r. r\<lparr>bal_amount := bal_amount r - case_gross items i, bal_pending := None\<rparr>) (balances d)"
      using pinned_rows [OF ok it] unfolding d' by (simp cong: update_where_cong)
    fix i r assume "cas_match b [status batch] guard_nulls i r" "row_ok r"
    then show "row_ok (finalize_fields t tid batch k r)"
      using st by (auto simp: guard_nulls_match finalize_fields_def status_defs)
  qed (use c in \<open>auto simp: d' guard_nulls_match finalize_fields_def in_flight_def\<close>)
qed

lemma releaseTransaction_cases:
  assumes "releaseTransaction t b e m d = Inr (x, d')"
  obtains n d1 where "cas_batch b (release_fields t m) [e] release_nulls d = Inr (n, d1)" "x = (n = 1)"
    "d' = (if n = 1 then d1\<lparr>balances := update_where (\<lambda>_ r. bal_pending r = Some b) (\<lambda>_ r. r\<lparr>bal_pending := None\<rparr>) (balances d1)\<rparr> else d1)"
  using assms by (auto simp: releaseTransaction_def split: sum.splits if_splits)

lemma release_nulls_match:
  "cas_match b [e] release_nulls i r \<longleftrightarrow> i = b \<and> status r = e \<and> submit_started_at r = None \<and> submitted_at r = None
     \<and> finalized_at r = None \<and> transaction_id r = None \<and> tx_hash r = None \<and> tx_key r = None"
  by (auto simp: cas_match_def release_nulls_def)

lemma cas_count_le_1: "db_ok d \<Longrightarrow> cas_batch b f expected nulls d = Inr (n, d') \<Longrightarrow> n \<le> 1"
proof -
  assume ok: "db_ok d" and c: "cas_batch b f expected nulls d = Inr (n, d')"
  have "n = count_where (\<lambda>i r. i = b \<and> cas_match b expected nulls b r) (batches d)"
    unfolding cas_batch_Inr(3) [OF c] by (rule count_where_cong) (auto simp: cas_match_def)
  with ok show "n \<le> 1" by (auto simp: count_where_id db_ok_def keys_ok_def split: option.split)
qed

lemma db_ok_release:
  assumes ok: "db_ok d" and rel: "releaseTransaction t b Reserved m d = Inr (x, d')"
  shows "db_ok d'"
proof -
  from rel obtain n d1 where cas: "cas_batch b (release_fields t m) [Reserved] release_nulls d = Inr (n, d1)"
    and d': "d' = (if n = 1 then d1\<lparr>balances := update_where (\<lambda>_ r. bal_pending r = Some b) (\<lambda>_ r. r\<lparr>bal_pending := None\<rparr>) (balances d1)\<rparr> else d1)"
    by (rule releaseTransaction_cases)
  note c = cas_batch_Inr [OF cas]
  show ?thesis
  proof (cases "n = 1")
    case True
    with cas obtain r0 where r0: "map_of (batches d) b = Some r0" "cas_match b [Reserved] release_nulls b r0"
      using cas_hit [OF ok] by blast
    show ?thesis
    proof (rule db_ok_end_flight [where P = "cas_match b [Reserved] release_nulls" and b = b
          and f = "release_fields t m" and d = d, OF ok _ _ _ _ r0, where g = "\<lambda>_ r. r\<lparr>bal_pending := None\<rparr>"])
      fix i r assume "cas_match b [Reserved] release_nulls i r" "row_ok r"
      then show "row_ok (release_fields t m r)"
        by (auto simp: release_nulls_match release_fields_def status_defs)
    qed (use c True in \<open>auto simp: d' release_nulls_match release_fields_def in_flight_def\<close>)
  next
    case False
    with cas_count_le_1 [OF ok cas] have "n = 0" by simp
    then have "d1 = d" using c update_where_none [of "cas_match b [Reserved] release_nulls" "batches d"] by simp
    with False ok show ?thesis by (simp add: d')
  qed
qed

subsubsection \<open>Crediting\<close>

lemma db_ok_balances:
  assumes ok: "db_ok d" and d': "d' = d\<lparr>balances := bs\<rparr>" and "distinct (map fst bs)"
    and pend: "\<And>i. map_option bal_pending (map_of bs i) = map_option bal_pending (map_of (balances d) i)
                 \<or> (map_of (balances d) i = None \<and> map_option bal_pending (map_of bs i) = Some None)"
  shows "db_ok d'"
proof -
  have items: "items_of d' = items_of d" by (simp add: d' items_of_def fun_eq_iff)
  have old: "\<exists>y. map_of (balances d) i = Some y \<and> bal_pending y = Some b"
    if "map_of bs i = Some r" "bal_pending r = Some b" for i r b
    using pend [of i] that by (auto simp: map_option_case split: option.splits)
  have new: "\<exists>y. map_of bs i = Some y \<and> bal_pending y = Some b"
    if "map_of (balances d) i = Some r" "bal_pending r = Some b" for i r b
    using pend [of i] that by (auto simp: map_option_case split: option.splits)
  have "pins_ok d'"
    unfolding pins_ok_def items
    using old new pin_points [OF ok] pin_holds [OF ok] by (simp add: d') blast
  with ok assms(3) show ?thesis
    by (simp add: d' db_ok_def keys_ok_def rows_ok_def items_ok_def items_of_def)
qed

lemma db_ok_credit:
  assumes "db_ok d" "d' = d\<lparr>balances := update_where (\<lambda>i r. i = k) (\<lambda>_ r. r\<lparr>bal_amount := bal_amount r + c\<rparr>) (balances d)\<rparr>"
  shows "db_ok d'"
  using assms by (rule db_ok_balances)
    (use assms(1) in \<open>auto simp: map_of_update_where db_ok_def keys_ok_def split: option.split\<close>)

lemma db_ok_new_balance:
  assumes "db_ok d" "d' = d\<lparr>balances := balances d @ [(k, r)]\<rparr>" "k \<notin> fst ` set (balances d)" "bal_pending r = None"
  shows "db_ok d'"
  using assms(1,2) by (rule db_ok_balances)
    (use assms in \<open>auto simp: map_add_def db_ok_def keys_ok_def map_of_eq_None_iff split: option.split\<close>)

lemma db_ok_users: "db_ok d \<Longrightarrow> d' = d\<lparr>users := us\<rparr> \<Longrightarrow> db_ok d'"
proof -
  assume ok: "db_ok d" and d': "d' = d\<lparr>users := us\<rparr>"
  have f: "balances d' = balances d" "batches d' = batches d" "batch_items d' = batch_items d" "next_batch_id d' = next_batch_id d"
    by (simp_all add: d')
  show ?thesis using ok unfolding db_ok_def keys_ok_def rows_ok_def items_ok_def pins_ok_def items_of_def f .
qed

lemma db_step_ok: "db_step c d d' \<Longrightarrow> db_ok d \<Longrightarrow> db_ok d'"
  by (induction rule: db_step.induct)
     (blast intro: db_ok_reserve db_ok_claim db_ok_touch db_ok_retry db_ok_submitted db_ok_review
        db_ok_finalize db_ok_release db_ok_credit db_ok_new_balance db_ok_users)+

subsection \<open>Conservation of funds\<close>

lemma funds_cas: "cas_batch b f expected nulls d = Inr (n, d') \<Longrightarrow> funds d' = funds d"
  using cas_batch_Inr(1) [of b f expected nulls d n d'] by (simp add: funds_def)

lemma case_gross_sum:
  "distinct (map balanceId items) \<Longrightarrow> sum_list (map (case_gross items) (map balanceId items)) = sum_list (map grossAmount items)"
proof -
  assume d: "distinct (map balanceId items)"
  have "case_gross items (balanceId it) = grossAmount it" if "it \<in> set items" for it
  proof -
    have "map_of (map (\<lambda>it. (balanceId it, grossAmount it)) items) (balanceId it) = Some (grossAmount it)"
      using d that by (intro map_of_is_SomeI) (auto simp: comp_def)
    then show ?thesis by (simp add: case_gross_def)
  qed
  then show ?thesis by (simp add: comp_def cong: map_cong)
qed

lemma finalize_funds:
  assumes ok: "db_ok d" and fin: "finalizeTransaction cfg t b batch items k d = Inr (tid, d')"
    and it: "same_payouts items (items_of d b)"
  shows "funds d' = funds d"
proof -
  let ?g = "\<lambda>i r. r\<lparr>bal_amount := bal_amount r - case_gross items i, bal_pending := None\<rparr>"
  let ?P = "\<lambda>i r. bal_pending r = Some b \<and> i \<in> set (map balanceId items)"
  have d: "distinct (map balanceId items)" using items_distinct [OF ok it] .
  from fin obtain d2 where cnt: "count_where ?P (balances d) = length (map balanceId items)"
    and e': "d' = d2\<lparr>transactions := transactions d @ [(tid, transaction_record cfg batch items)],
             next_transaction_id := tid + 1, payments := payments d @ map (payment_record t tid) items,
             balances := update_where ?P ?g (balances d)\<rparr>"
    by (rule finalizeTransaction_Inr)
  have d': "balances d' = update_where ?P ?g (balances d)" "payments d' = payments d @ map (payment_record t tid) items"
    by (simp_all add: e')
  have keys: "mset (map fst (filter (\<lambda>(i, r). ?P i r) (balances d))) = mset (map balanceId items)"
    using hit_keys [of "balances d" "map balanceId items" "\<lambda>r. bal_pending r = Some b"] cnt ok d
    by (simp add: conj_commute db_ok_def keys_ok_def)
  have "sum_list (map (case_gross items) (map fst (filter (\<lambda>(i, r). ?P i r) (balances d)))) =
      sum_list (map (case_gross items) (map balanceId items))"
    using keys by (rule sum_list_mset_eq)
  then have bal: "sum_list (map (bal_amount \<circ> snd) (balances d')) =
      sum_list (map (bal_amount \<circ> snd) (balances d)) - sum_list (map grossAmount items)"
    unfolding d'(1) case_gross_sum [OF d, symmetric]
    by (subst sum_update_where_diff [where g = "case_gross items"]) auto
  have "grossAmount x = netAmount x + feeAmount x" if "x \<in> set items" for x
    using same_payouts_gross [OF it _ that] ok by (auto simp: db_ok_def items_ok_def items_of_def)
  then have "sum_list (map (\<lambda>p. pay_amount p + pay_transfer_fee p) (map (payment_record t tid) items)) =
      sum_list (map grossAmount items)"
    by (simp add: payment_record_def comp_def cong: map_cong)
  with bal show ?thesis by (simp add: funds_def d'(2))
qed

lemma sum_credit:
  assumes "distinct (map fst t)" "map_of t k \<noteq> None"
  shows "sum_list (map (bal_amount \<circ> snd) (update_where (\<lambda>i r. i = k) (\<lambda>_ r. r\<lparr>bal_amount := bal_amount r + c\<rparr>) t)) =
         sum_list (map (bal_amount \<circ> snd) t) + c"
  using assms
proof (induction t)
  case Nil
  then show ?case by simp
next
  case (Cons x t)
  obtain i r where x: "x = (i, r)" by force
  show ?case
  proof (cases "i = k")
    case True
    with Cons.prems(1) have "k \<notin> fst ` set t" by (simp add: x)
    then have "update_where (\<lambda>i r. i = k) (\<lambda>_ r. r\<lparr>bal_amount := bal_amount r + c\<rparr>) t = t"
      by (intro update_where_id) (auto simp: image_iff)
    with True show ?thesis by (simp add: x update_where_def)
  next
    case False
    with Cons show ?thesis by (simp add: x update_where_def)
  qed
qed

lemma db_step_funds: "db_step c d d' \<Longrightarrow> db_ok d \<Longrightarrow> funds d' = funds d + c"
proof (induction rule: db_step.induct)
  case (reserve t plan d b d')
  then show ?case
    using reserveTransaction_Inr(5) [of t plan d b d']
    by (simp add: funds_def sum_update_where_same [where v = bal_amount])
next
  case (claim b e t d n d')
  then show ?case using claimQuery_eq by (fastforce simp: funds_def)
next
  case (finalize cfg t b batch items k d tid d')
  then show ?case using finalize_funds by simp
next
  case (release t b e m d x d')
  then obtain n d1 where "cas_batch b (release_fields t m) [e] release_nulls d = Inr (n, d1)"
    "d' = (if n = 1 then d1\<lparr>balances := update_where (\<lambda>_ r. bal_pending r = Some b) (\<lambda>_ r. r\<lparr>bal_pending := None\<rparr>) (balances d1)\<rparr> else d1)"
    using releaseTransaction_cases by blast
  then show ?case using funds_cas by (force simp: funds_def sum_update_where_same [where v = bal_amount])
next
  case (credit d' d k c)
  then show ?case by (simp add: funds_def sum_credit db_ok_def keys_ok_def)
next
  case (new_balance d' d k r)
  then show ?case by (simp add: funds_def)
next
  case (threshold d' d us)
  then show ?case by (simp add: funds_def)
qed (auto dest: funds_cas)

interpretation pay: ledger db_step db_ok funds
  by unfold_locales (auto intro: db_step_ok db_step_funds)

subsection \<open>What a step does to one batch\<close>

text \<open>The transitions documented at the head of \<open>processor.js\<close>.\<close>

fun batch_edge :: "batch_status \<Rightarrow> batch_status \<Rightarrow> bool" where
  "batch_edge Reserved s = (s \<in> {Retrying, Retryable, Submitting})"
| "batch_edge Retrying s = (s = Submitting)"
| "batch_edge Submitting s = (s \<in> {Submitted, Manual_review})"
| "batch_edge Submitted s = (s \<in> {Finalized, Manual_review})"
| "batch_edge _ s = False"

definition settled :: "batch_status \<Rightarrow> bool" where
  "settled s \<longleftrightarrow> s \<in> {Finalized, Retryable, Manual_review}"

definition row_move :: "batch_row \<Rightarrow> batch_row \<Rightarrow> bool" where
  "row_move r r' \<longleftrightarrow>
     (status r' = status r \<or> batch_edge (status r) (status r')) \<and>
     (submit_started_at r \<noteq> None \<longrightarrow> submit_started_at r' = submit_started_at r) \<and>
     (settled (status r) \<longrightarrow> core r' = core r) \<and>
     batchType r' = batchType r \<and> total_gross r' = total_gross r \<and> total_net r' = total_net r"

lemma row_move_refl: "row_move r r"
  by (simp add: row_move_def)

lemma row_move_core: assumes "core r' = core r" shows "row_move r r'"
proof -
  have "batchType (core x) = batchType x" "total_gross (core x) = total_gross x" "total_net (core x) = total_net x" for x
    by (simp_all add: core_def)
  note sel = this core_sel
  have "status r' = status r" "submit_started_at r' = submit_started_at r" "batchType r' = batchType r"
    "total_gross r' = total_gross r" "total_net r' = total_net r"
    using arg_cong [OF assms, of status] arg_cong [OF assms, of submit_started_at] arg_cong [OF assms, of batchType]
      arg_cong [OF assms, of total_gross] arg_cong [OF assms, of total_net] by (simp_all only: sel)
  with assms show ?thesis by (simp add: row_move_def)
qed

lemmas move_defs = row_move_def settled_def

lemma row_move_fields:
  "row_ok r \<Longrightarrow> status r \<in> {Reserved, Retrying} \<Longrightarrow> row_move r (claim_fields t r)"
  "row_ok r \<Longrightarrow> status r \<in> {Reserved, Retrying} \<Longrightarrow> row_move r (retry_fields t m r)"
  "status r = Submitting \<Longrightarrow> row_move r (submitted_fields t h k fee m' r)"
  "status r \<in> {Submitting, Submitted} \<Longrightarrow> row_move r (review_fields t m details r)"
  "status r = Submitted \<Longrightarrow> row_move r (finalize_fields t tid batch key r)"
  "status r = Reserved \<Longrightarrow> row_move r (release_fields t m r)"
proof -
  show "row_move r (claim_fields t r)" "row_move r (retry_fields t m r)"
    if ok: "row_ok r" and st: "status r \<in> {Reserved, Retrying}"
  proof -
    have "unsubmitted (status r)" using st by (auto simp: unsubmitted_def)
    then have n: "submit_started_at r = None" using ok by (simp add: row_ok_def mem_ok_def)
    have s: "\<not> settled (status r)" using st by (auto simp: settled_def)
    have e: "batch_edge (status r) Submitting" "batch_edge (status r) Retrying \<or> status r = Retrying"
      using st by auto
    show "row_move r (claim_fields t r)" using n s e by (simp add: row_move_def claim_fields_def)
    show "row_move r (retry_fields t m r)" using n s e by (auto simp: row_move_def retry_fields_def)
  qed
  show "row_move r (submitted_fields t h k fee m' r)" if "status r = Submitting"
    using that by (simp add: move_defs submitted_fields_def)
  show "row_move r (review_fields t m details r)" if "status r \<in> {Submitting, Submitted}"
    using that by (auto simp: move_defs review_fields_def)
  show "row_move r (finalize_fields t tid batch key r)" if "status r = Submitted"
    using that by (simp add: move_defs finalize_fields_def)
  show "row_move r (release_fields t m r)" if "status r = Reserved"
    using that by (simp add: move_defs release_fields_def)
qed

lemma cas_row_move:
  assumes "cas_batch k f expected nulls d = Inr (n, d')" and "map_of (batches d) b = Some r"
    and "cas_match k expected nulls b r \<Longrightarrow> row_move r (f r)"
  shows "\<exists>r'. map_of (batches d') b = Some r' \<and> row_move r r'"
  using assms(2,3) row_move_refl by (simp add: map_of_cas [OF assms(1)])

lemma db_step_row_move:
  assumes "db_step c d d'" "db_ok d" "map_of (batches d) b = Some r"
  shows "\<exists>r'. map_of (batches d') b = Some r' \<and> row_move r r'"
  using assms
proof (induction rule: db_step.induct)
  case (reserve t plan d k d')
  then have "k \<noteq> b"
    using reserveTransaction_Inr(1) [OF reserve(1)] by (force simp: db_ok_def keys_ok_def dest: map_of_SomeD)
  with reserve show ?case by (simp add: map_of_batches_reserve row_move_refl)
next
  case (claim k e t d n d')
  have "row_ok r" using claim by (blast intro: db_ok_batch_row)
  with claim show ?case
    using claimQuery_eq [OF claim(1)] row_move_fields(1) [of r t]
    by (auto simp: map_of_update_where row_move_refl)
next
  case (touch k f expected nulls d n d')
  then show ?case using cas_row_move row_move_core by metis
next
  case (retry k t m e d n d')
  have "row_ok r" using retry by (blast intro: db_ok_batch_row)
  with retry show ?case
    using cas_row_move [OF retry(1,4)] row_move_fields(2) [of r t m] by (auto simp: guard_nulls_match)
next
  case (submitted k t h k' fee m e d n d')
  then show ?case
    using cas_row_move [OF submitted(1) submitted(5)] row_move_fields(3) [of r] by (auto simp: guard_nulls_match)
next
  case (review k t m details e d n d')
  then show ?case
    using cas_row_move [OF review(1,4)] row_move_fields(4) [of r] by (auto simp: guard_nulls_match)
next
  case (finalize cfg t k batch items key d tid d')
  from finalize(1) obtain d2 where c: "cas_batch k (finalize_fields t tid batch key) [status batch] guard_nulls d = Inr (1, d2)"
      and "batches d' = batches d2"
    by (rule finalizeTransaction_Inr) auto
  then show ?case
    using cas_row_move [OF c] row_move_fields(5) [of r] finalize by (auto simp: guard_nulls_match)
next
  case (release t k e m d x d')
  from release(1) obtain n d1 where c: "cas_batch k (release_fields t m) [e] release_nulls d = Inr (n, d1)"
      and "batches d' = batches d1"
    by (rule releaseTransaction_cases) auto
  then show ?case
    using cas_row_move [OF c] row_move_fields(6) [of r] release by (auto simp: release_nulls_match)
qed (auto simp: row_move_refl)

lemma reaches_row:
  assumes "reaches db_step d d'" "db_ok d" "map_of (batches d) b = Some r"
  shows "\<exists>r'. map_of (batches d') b = Some r'"
  using pay.reaches_stable [OF assms(1,2), of "\<lambda>d. map_of (batches d) b \<noteq> None"] assms(3) db_step_row_move
  by (metis (no_types, lifting) not_None_eq)

text \<open>The submit time is written once, and a settled batch keeps every column that matters.\<close>

lemma reaches_submit_started:
  assumes "reaches db_step d d'" "db_ok d" "map_of (batches d) b = Some r" "submit_started_at r = Some t"
  shows "\<exists>r'. map_of (batches d') b = Some r' \<and> submit_started_at r' = Some t"
  using assms(1,2)
proof (rule pay.reaches_stable)
  show "\<exists>r'. map_of (batches d) b = Some r' \<and> submit_started_at r' = Some t" using assms(3,4) by blast
  fix c s s' assume "db_ok s" "db_step c s s'" "\<exists>r'. map_of (batches s) b = Some r' \<and> submit_started_at r' = Some t"
  then show "\<exists>r'. map_of (batches s') b = Some r' \<and> submit_started_at r' = Some t"
    using db_step_row_move [of c s s' b] by (force simp: row_move_def)
qed

lemma reaches_settled:
  assumes "reaches db_step d d'" "db_ok d" "map_of (batches d) b = Some r" "settled (status r)"
  shows "\<exists>r'. map_of (batches d') b = Some r' \<and> core r' = core r"
  using assms(1,2)
proof (rule pay.reaches_stable)
  show "\<exists>r'. map_of (batches d) b = Some r' \<and> core r' = core r" using assms(3) by blast
  fix c s s' assume s: "db_ok s" "db_step c s s'" "\<exists>r'. map_of (batches s) b = Some r' \<and> core r' = core r"
  then obtain x where x: "map_of (batches s) b = Some x" "core x = core r" by blast
  with assms(4) have "settled (status x)" using status_core by metis
  with x s db_step_row_move [OF s(2,1) x(1)] show "\<exists>r'. map_of (batches s') b = Some r' \<and> core r' = core r"
    by (auto simp: row_move_def)
qed

text \<open>The items of an existing batch never change.\<close>

lemma db_step_items:
  assumes "db_step c d d'" "db_ok d" "b < next_batch_id d"
  shows "items_of d' b = items_of d b \<and> select_items b d' = select_items b d \<and> b < next_batch_id d'"
  using assms
proof (induction rule: db_step.induct)
  case (reserve t plan d k d')
  have "items_of d' b = items_of d b"
    using items_of_reserve [OF reserve(3,1), of b] reserveTransaction_Inr(1) [OF reserve(1)] reserve(4) by simp
  moreover have "next_batch_id d' = Suc (next_batch_id d)"
    using reserveTransaction_Inr(1,5) [OF reserve(1)] by simp
  ultimately show ?case using reserve(4) by (simp add: items_of_def select_items_def)
next
  case (claim k e t d n d')
  then show ?case using claimQuery_eq [OF claim(1)] by (simp add: items_of_def select_items_def)
next
  case (finalize cfg t k batch items key d tid d')
  from finalize(1) obtain d2 where c: "cas_batch k (finalize_fields t tid batch key) [status batch] guard_nulls d = Inr (1, d2)"
      and "batch_items d' = batch_items d2" "next_batch_id d' = next_batch_id d2"
    by (rule finalizeTransaction_Inr) auto
  then show ?case using cas_batch_Inr(1) [OF c] finalize by (simp add: items_of_def select_items_def)
next
  case (release t k e m d x d')
  from release(1) obtain n d1 where c: "cas_batch k (release_fields t m) [e] release_nulls d = Inr (n, d1)"
      and "batch_items d' = batch_items d1" "next_batch_id d' = next_batch_id d1"
    by (rule releaseTransaction_cases) auto
  then show ?case using cas_batch_Inr(1) [OF c] release by (simp add: items_of_def select_items_def)
qed (auto dest!: cas_batch_Inr(1) simp: items_of_def select_items_def)

lemma reaches_items:
  assumes "reaches db_step d d'" "db_ok d" "b < next_batch_id d"
  shows "select_items b d' = select_items b d \<and> items_of d' b = items_of d b \<and> b < next_batch_id d'"
  using assms(1,2)
proof (rule pay.reaches_stable)
  fix c s s' assume "db_ok s" "db_step c s s'"
    "select_items b s = select_items b d \<and> items_of s b = items_of d b \<and> b < next_batch_id s"
  then show "select_items b s' = select_items b d \<and> items_of s' b = items_of d b \<and> b < next_batch_id s'"
    using db_step_items [of c s s' b] by simp
qed (use assms(3) in simp)

lemma same_payouts_select: "same_payouts (select_items b d) (items_of d b)"
  by (simp add: same_payouts_def select_items_def items_of_def)

end
