(* ===== verification/Payments_Planner.thy ===== *)
theory Payments_Planner
  imports Payments_Steps
begin

text \<open>
  \<open>src/lib/payments/planner.js\<close>: the fee a payout is charged, which balances are due,
  how they are grouped into batches, the reservation of a batch and the wallet balance
  check before a submit.
\<close>

subsection \<open>The charged fee\<close>

definition calculateChargeFee :: "pay_config \<Rightarrow> num \<Rightarrow> num" where
  "calculateChargeFee cfg gross =
     (let baseFee = payoutAtomic cfg feeSlewAmount;
          minPay = payoutAtomic cfg walletMin;
          slewEnd = payoutAtomic cfg feeSlewEnd;
          fee = (if gross \<le> minPay then baseFee
                 else if gross \<le> slewEnd \<and> minPay < slewEnd
                 then (let feeValue = fl (baseFee / fl (slewEnd - minPay))
                       in fl (baseFee - fl (fl (gross - minPay) * feeValue)))
                 else 0);
          fee = js_floor fee
      in if fee < 0 then 0 else fee)"

subsection \<open>Planning\<close>

record payout_row =
  row_id :: nat
  row_payment_address :: string
  row_payment_id :: "string option"
  row_pool_type :: string
  row_amount :: num
  row_payout_threshold :: "num option"

text \<open>The driver hands a BIGINT column to the program as a Number.\<close>

definition selectPayoutRows :: "num \<Rightarrow> pay_db \<Rightarrow> payout_row list" where
  "selectPayoutRows minimum d =
     map (\<lambda>(i, r). \<lparr>row_id = i, row_payment_address = bal_address r, row_payment_id = bal_payment_id r,
                    row_pool_type = bal_pool_type r, row_amount = fl (bal_amount r),
                    row_payout_threshold = Option.bind (map_of (users d) (bal_address r)) id\<rparr>)
       (sort_key fst (filter (\<lambda>(i, r). minimum \<le> bal_amount r \<and> bal_pending r = None) (balances d)))"

record payout_candidate =
  cand_item :: payout_item
  cand_threshold :: num
  cand_custom :: bool
  cand_integrated :: num

definition payoutGross :: "pay_config \<Rightarrow> payout_row \<Rightarrow> num" where
  "payoutGross cfg row =
     (let gross0 = row_amount row;
          gross1 = (if row_pool_type row = ''fees'' \<and> row_payment_address row = feeAddress cfg
                    then (let feesForTxn = payoutAtomic cfg feesForTXN
                          in if fl (feesForTxn + payoutAtomic cfg exchangeMin) \<le> gross0 then fl (gross0 - feesForTxn) else 0)
                    else gross0);
          denomination = denomAtomic cfg;
          remainder = (if denomination \<noteq> 0 then js_mod gross1 denomination else 0)
      in if remainder \<noteq> 0 then fl (gross1 - remainder) else gross1)"

definition buildPayoutItem :: "pay_config \<Rightarrow> payout_row \<Rightarrow> payout_candidate option" where
  "buildPayoutItem cfg row =
     (let configuredThreshold = (case row_payout_threshold row of Some t \<Rightarrow> t | None \<Rightarrow> 0);
          threshold = (if configuredThreshold \<noteq> 0 then configuredThreshold else payoutAtomic cfg defaultPay);
          customThreshold = (0 < configuredThreshold);
          integratedAddressThreshold = payoutAtomic cfg exchangeMin;
          gross = payoutGross cfg row
      in if gross \<le> 0 then None
         else let fee = calculateChargeFee cfg gross; net = fl (gross - fee)
              in if net \<le> 0 then None
                 else Some \<lparr>cand_item = \<lparr>balanceId = row_id row, poolType = row_pool_type row,
                              paymentAddress = row_payment_address row, grossAmount = gross,
                              netAmount = net, feeAmount = fee\<rparr>,
                            cand_threshold = threshold, cand_custom = customThreshold,
                            cand_integrated = integratedAddressThreshold\<rparr>)"

definition shouldSkipPayoutRow :: "payout_row \<Rightarrow> string list \<Rightarrow> bool" where
  "shouldSkipPayoutRow row seenRecipients =
     (row_payment_id row \<noteq> None \<or> row_payment_address row \<in> set seenRecipients)"

definition integratedBatchFor :: "payout_candidate \<Rightarrow> batch_plan option" where
  "integratedBatchFor c =
     (let gross = grossAmount (cand_item c)
      in if gross < cand_threshold c then None
         else if gross < cand_integrated c \<and> (\<not> cand_custom c \<or> gross \<le> cand_threshold c) then None
         else Some \<lparr>plan_type = Integrated, plan_items = [cand_item c], plan_totalGross = gross,
                    plan_totalNet = netAmount (cand_item c), plan_totalFee = feeAmount (cand_item c)\<rparr>)"

fun planRows :: "pay_config \<Rightarrow> payout_row list \<Rightarrow> string list \<Rightarrow> payout_item list \<times> batch_plan list" where
  "planRows cfg [] seen = ([], [])"
| "planRows cfg (row # rows) seen =
     (if shouldSkipPayoutRow row seen then planRows cfg rows seen
      else case buildPayoutItem cfg row of
        None \<Rightarrow> planRows cfg rows seen
      | Some c \<Rightarrow>
          if isIntegratedAddress (row_payment_address row)
          then (case integratedBatchFor c of
                  Some b \<Rightarrow> (let r = planRows cfg rows (row_payment_address row # seen) in (fst r, b # snd r))
                | None \<Rightarrow> planRows cfg rows seen)
          else if cand_threshold c \<le> grossAmount (cand_item c)
          then (let r = planRows cfg rows (row_payment_address row # seen) in (cand_item c # fst r, snd r))
          else planRows cfg rows seen)"

definition bulkBatch :: "payout_item list \<Rightarrow> batch_plan" where
  "bulkBatch items = \<lparr>plan_type = Bulk, plan_items = items, plan_totalGross = sumBy grossAmount items,
     plan_totalNet = sumBy netAmount items, plan_totalFee = sumBy feeAmount items\<rparr>"

definition isSafeInteger :: "num \<Rightarrow> bool" where
  "isSafeInteger x = (of_int \<lfloor>x\<rfloor> = x \<and> \<bar>x\<bar> \<le> 2 ^ 53 - 1)"

definition batchesOfRows :: "pay_config \<Rightarrow> payout_row list \<Rightarrow> batch_plan list" where
  "batchesOfRows cfg rows =
     (let r = planRows cfg rows []
      in map bulkBatch (chunks (nat \<lfloor>maxPaymentTxns cfg\<rfloor>) (fst r)) @ snd r)"

definition planBatches :: "batch_plan list pay" where
  "planBatches =
     andThen (gets (config \<circ> env)) (\<lambda>cfg.
       if \<not> isSafeInteger (maxPaymentTxns cfg) \<or> maxPaymentTxns cfg \<le> 0
       then throw ''payout.maxPaymentTxns must be a positive safe integer''
       else andThen (select (selectPayoutRows (payoutAtomic cfg walletMin)))
              (\<lambda>rows. ret (batchesOfRows cfg rows)))"

subsection \<open>Reservation and preflight\<close>

text \<open>The result is the batch object: its id, its columns and its item records.\<close>

definition reserveBatch :: "batch_plan \<Rightarrow> (nat \<times> batch_row \<times> item_row list) pay" where
  "reserveBatch plan =
     withTransaction
       (\<lambda>w. let createdAt = currentTime w
            in case reserveTransaction (dbTime w createdAt) plan (db w) of
                 Inl e \<Rightarrow> Inl e
               | Inr (b, d) \<Rightarrow> Inr ((b, reserved_row createdAt plan, item_records b createdAt (plan_items plan)), d))
       (\<lambda>_ w. w)"

datatype preflight =
  Preflight_ok num num "num option" num
| Preflight_fail string bool bool

text \<open>
  \<open>Preflight_fail reason insufficient pendingBalanceEnough\<close>: \<open>insufficient\<close> is the
  code \<open>wallet_preflight_insufficient_balance\<close>.
\<close>

definition preflightWalletBalance :: "num option \<Rightarrow> preflight pay" where
  "preflightWalletBalance total_net_opt =
     andThen (callWallet ''getbalance'' (JObj [])) (\<lambda>reply.
     andThen (gets (config \<circ> env)) (\<lambda>cfg.
       if \<not> isRecord reply \<or> \<not> isRecord (getf reply ''result'')
       then ret (Preflight_fail (''wallet getbalance failed: '' @ describeWalletReply reply) False False)
       else
         let balance = normalizeInteger (getf (getf reply ''result'') ''balance'');
             unlocked = normalizeInteger (getf (getf reply ''result'') ''unlocked_balance'')
         in case total_net_opt of
              None \<Rightarrow> ret (Preflight_fail ''invalid batch payout total'' False False)
            | Some totalNet \<Rightarrow>
                if totalNet < 0 then ret (Preflight_fail ''invalid batch payout total'' False False)
                else let requiredTotal = fl (totalNet + safeWalletFeeAtomic cfg)
                     in case unlocked of
                          Some u \<Rightarrow>
                            if u < requiredTotal
                            then ret (Preflight_fail
                                   (''wallet preflight insufficient balance'' @
                                    balanceSnapshotText cfg balance unlocked (Some totalNet) (Some requiredTotal))
                                   True (\<exists>b \<in> set_option balance. requiredTotal \<le> b))
                            else ret (Preflight_ok totalNet requiredTotal balance u)
                        | None \<Rightarrow>
                            ret (Preflight_fail
                                   (''wallet preflight insufficient balance'' @
                                    balanceSnapshotText cfg balance unlocked (Some totalNet) (Some requiredTotal))
                                   True (\<exists>b \<in> set_option balance. requiredTotal \<le> b))))"

subsection \<open>Facts about the fee\<close>

definition fee_config_ok :: "pay_config \<Rightarrow> bool" where
  "fee_config_ok cfg \<longleftrightarrow> 0 \<le> feeSlewAmount cfg \<and> 0 \<le> sigDigits cfg \<and> payoutAtomic cfg feeSlewAmount \<le> 2 ^ 53"

lemma payoutAtomic_Ints [simp]: "payoutAtomic cfg key \<in> \<int>"
  by (simp add: payoutAtomic_def decimalToCoin_def)

lemma baseFee_nonneg: "fee_config_ok cfg \<Longrightarrow> 0 \<le> payoutAtomic cfg feeSlewAmount"
  by (simp add: fee_config_ok_def payoutAtomic_def decimalToCoin_def js_round_nonneg)

lemma js_floor_Ints_id: "x \<in> \<int> \<Longrightarrow> js_floor x = x"
  by (auto simp: js_floor_def elim: Ints_cases)

lemma charge_fee_bounds:
  assumes "fee_config_ok cfg"
  shows "0 \<le> calculateChargeFee cfg g \<and> calculateChargeFee cfg g \<le> payoutAtomic cfg feeSlewAmount
    \<and> calculateChargeFee cfg g \<in> \<int>"
proof -
  let ?b = "payoutAtomic cfg feeSlewAmount" and ?lo = "payoutAtomic cfg walletMin" and ?hi = "payoutAtomic cfg feeSlewEnd"
  have b: "0 \<le> ?b" "?b \<le> 2 ^ 53" using assms baseFee_nonneg by (auto simp: fee_config_ok_def)
  have "js_floor (fl (?b - fl (fl (g - ?lo) * fl (?b / fl (?hi - ?lo))))) \<le> ?b" if "?lo \<le> g" "?lo \<le> ?hi"
    using dbl.taper_le_base [OF _ b that] js_floor_le [of "fl (?b - fl (fl (g - ?lo) * fl (?b / fl (?hi - ?lo))))"]
    by (simp add: order_trans)
  with b show ?thesis
    by (auto simp: calculateChargeFee_def Let_def js_floor_Ints_id)
qed

lemma charge_fee_antimono:
  assumes "fee_config_ok cfg" "g \<le> g'"
  shows "calculateChargeFee cfg g' \<le> calculateChargeFee cfg g"
proof -
  let ?b = "payoutAtomic cfg feeSlewAmount" and ?lo = "payoutAtomic cfg walletMin" and ?hi = "payoutAtomic cfg feeSlewEnd"
  let ?t = "\<lambda>g. fl (?b - fl (fl (g - ?lo) * fl (?b / fl (?hi - ?lo))))"
  have b: "0 \<le> ?b" "?b \<le> 2 ^ 53" using assms baseFee_nonneg by (auto simp: fee_config_ok_def)
  consider "g \<le> ?lo" | "?lo < g" "g' \<le> ?hi" "?lo < ?hi" | "?lo < g" "\<not> (g' \<le> ?hi \<and> ?lo < ?hi)" by linarith
  then show ?thesis
  proof cases
    case 1
    then have "calculateChargeFee cfg g = ?b" using b by (simp add: calculateChargeFee_def Let_def js_floor_Ints_id)
    with charge_fee_bounds [OF assms(1), of g'] show ?thesis by simp
  next
    case 2
    then have "js_floor (?t g') \<le> js_floor (?t g)"
      using assms(2) b by (intro js_floor_mono dbl.taper_antimono) auto
    with 2 assms(2) show ?thesis by (auto simp: calculateChargeFee_def Let_def)
  next
    case 3
    with assms(2) have "calculateChargeFee cfg g' = 0" by (auto simp: calculateChargeFee_def Let_def js_floor_def)
    with charge_fee_bounds [OF assms(1), of g] show ?thesis by simp
  qed
qed

subsection \<open>Facts about the plan\<close>

definition plan_config_ok :: "pay_config \<Rightarrow> bool" where
  "plan_config_ok cfg \<longleftrightarrow> fee_config_ok cfg \<and> 0 < denomAtomic cfg \<and> 0 \<le> payoutAtomic cfg feesForTXN \<and>
     payoutAtomic cfg walletMin \<le> 2 ^ 53 \<and> payoutAtomic cfg feeSlewEnd \<le> 2 ^ 53"

lemma denomAtomic_Ints: "denomAtomic cfg \<in> \<int>"
  by (simp add: denomAtomic_def)

lemma js_mod_whole: "y \<noteq> 0 \<Longrightarrow> y \<in> \<int> \<Longrightarrow> x - js_mod x y \<in> \<int>"
  by (auto simp: js_mod_def Let_def)

text \<open>The gross payout is a whole number of atomic units, a double, and within the balance.\<close>

lemma payoutGross_props:
  assumes cfg: "plan_config_ok cfg" and a: "fl (row_amount row) = row_amount row" and g: "payoutGross cfg row = g"
  shows "g \<in> \<int>" "fl g = g" "0 < g \<Longrightarrow> g \<le> row_amount row"
proof -
  let ?a = "row_amount row" and ?d = "denomAtomic cfg" and ?f = "payoutAtomic cfg feesForTXN"
  define g1 where "g1 = (if row_pool_type row = ''fees'' \<and> row_payment_address row = feeAddress cfg
                    then (if fl (?f + payoutAtomic cfg exchangeMin) \<le> ?a then fl (?a - ?f) else 0) else ?a)"
  have d: "0 < ?d" "?d \<in> \<int>" and f: "0 \<le> ?f" using cfg by (auto simp: plan_config_ok_def denomAtomic_Ints)
  have g': "g = (if js_mod g1 ?d \<noteq> 0 then fl (g1 - js_mod g1 ?d) else g1)"
    using g d unfolding payoutGross_def Let_def g1_def [symmetric] by (auto split: if_splits)
  have whole: "g1 - js_mod g1 ?d \<in> \<int>" using d by (intro js_mod_whole) auto
  show "g \<in> \<int>" using whole fl_in_Ints [OF whole] by (auto simp: g')
  have fg1: "fl g1 = g1" using a by (simp add: g1_def)
  then show "fl g = g" by (simp add: g')
  show "g \<le> ?a" if "0 < g"
  proof -
    have "0 < g1"
    proof (rule ccontr)
      assume "\<not> 0 < g1"
      then have "g1 - js_mod g1 ?d \<le> 0"
        using d by (auto simp: js_mod_def Let_def divide_nonpos_pos mult_nonneg_nonpos ceiling_le_iff)
      then have "fl (g1 - js_mod g1 ?d) \<le> 0" using fl_mono [of _ 0] by simp
      with \<open>\<not> 0 < g1\<close> that show False by (auto simp: g' split: if_splits)
    qed
    then have "fl (g1 - js_mod g1 ?d) \<le> fl g1" using js_mod_bounds(1) [of g1 ?d] d by (intro fl_mono) auto
    then have "g \<le> g1" by (auto simp: g' fg1)
    moreover have "g1 \<le> ?a"
      using \<open>0 < g1\<close> f fl_mono [of "?a - ?f" ?a] by (auto simp: g1_def a split: if_splits)
    ultimately show ?thesis by simp
  qed
qed

definition item_ok :: "pay_config \<Rightarrow> payout_row \<Rightarrow> payout_item \<Rightarrow> bool" where
  "item_ok cfg row it \<longleftrightarrow>
     balanceId it = row_id row \<and> paymentAddress it = row_payment_address row \<and> poolType it = row_pool_type row \<and>
     row_payment_id row = None \<and>
     grossAmount it = netAmount it + feeAmount it \<and> 0 < netAmount it \<and>
     0 \<le> feeAmount it \<and> feeAmount it \<le> payoutAtomic cfg feeSlewAmount \<and>
     grossAmount it \<in> \<int> \<and> feeAmount it \<in> \<int> \<and> grossAmount it \<le> row_amount row \<and>
     fl (grossAmount it) = grossAmount it \<and> fl (netAmount it) = netAmount it \<and> fl (feeAmount it) = feeAmount it"

lemma buildPayoutItem_ok:
  assumes cfg: "plan_config_ok cfg" and a: "fl (row_amount row) = row_amount row"
    and c: "buildPayoutItem cfg row = Some c" and "row_payment_id row = None"
  shows "item_ok cfg row (cand_item c)"
proof -
  define g where "g = payoutGross cfg row"
  define fee where "fee = calculateChargeFee cfg g"
  have it: "cand_item c = \<lparr>balanceId = row_id row, poolType = row_pool_type row, paymentAddress = row_payment_address row,
      grossAmount = g, netAmount = fl (g - fee), feeAmount = fee\<rparr>" and neg: "\<not> g \<le> 0" "\<not> fl (g - fee) \<le> 0"
    using c by (auto simp: buildPayoutItem_def Let_def g_def fee_def split: if_splits)
  then have pos: "0 < g" "0 < fl (g - fee)" by (simp_all only: not_le)
  note g = payoutGross_props [OF cfg a g_def [symmetric]]
  have fc: "fee_config_ok cfg" using cfg by (simp add: plan_config_ok_def)
  note fee = charge_fee_bounds [OF fc, of g, folded fee_def]
  have "fl (g - fee) = g - fee"
  proof (cases "g \<le> 2 ^ 53")
    case True
    have "\<bar>g - fee\<bar> \<le> 2 ^ 53" using True pos(1) fee fc by (auto simp: fee_config_ok_def)
    then show ?thesis using g(1) fee by (intro fl_Ints) auto
  next
    case False
    then have "fee = 0" using cfg by (auto simp: fee_def calculateChargeFee_def Let_def plan_config_ok_def js_floor_def)
    then show ?thesis using g(2) by simp
  qed
  moreover have "fl fee = fee" using fee fc by (intro fl_Ints) (auto simp: fee_config_ok_def)
  ultimately show ?thesis using it pos g fee assms(4) fl_fl [of "g - fee"] by (simp add: item_ok_def)
qed

text \<open>Everything the planning loop selects, in bulk and integrated batches together.\<close>

definition planned_items :: "payout_item list \<times> batch_plan list \<Rightarrow> payout_item list" where
  "planned_items r = fst r @ concat (map plan_items (snd r))"

text \<open>What the loop does with its first row: skip it, or put one item into a bulk or its own batch.\<close>

lemma planRows_Cons:
  assumes "plan_config_ok cfg" "fl (row_amount row) = row_amount row"
  obtains "planRows cfg (row # rows) seen = planRows cfg rows seen"
  | it where "item_ok cfg row it" "paymentAddress it \<notin> set seen"
      "planRows cfg (row # rows) seen =
         (let r = planRows cfg rows (paymentAddress it # seen) in (it # fst r, snd r))"
  | it plan where "item_ok cfg row it" "paymentAddress it \<notin> set seen"
      "plan = \<lparr>plan_type = Integrated, plan_items = [it], plan_totalGross = grossAmount it,
               plan_totalNet = netAmount it, plan_totalFee = feeAmount it\<rparr>"
      "planRows cfg (row # rows) seen =
         (let r = planRows cfg rows (paymentAddress it # seen) in (fst r, plan # snd r))"
proof (cases "shouldSkipPayoutRow row seen \<or> buildPayoutItem cfg row = None")
  case True
  then show ?thesis by (intro that(1)) auto
next
  case False
  then obtain c where c: "\<not> shouldSkipPayoutRow row seen" "buildPayoutItem cfg row = Some c" by auto
  then have ok: "item_ok cfg row (cand_item c)"
    by (intro buildPayoutItem_ok assms) (auto simp: shouldSkipPayoutRow_def)
  then have ad: "paymentAddress (cand_item c) = row_payment_address row" by (simp add: item_ok_def)
  have seen: "paymentAddress (cand_item c) \<notin> set seen" using c(1) ad by (simp add: shouldSkipPayoutRow_def)
  show ?thesis
  proof (cases "isIntegratedAddress (row_payment_address row)")
    case False
    with c ad show ?thesis
      by (cases "cand_threshold c \<le> grossAmount (cand_item c)") (auto intro: that(1) that(2) [OF ok seen] simp: Let_def)
  next
    case True
    show ?thesis
    proof (cases "integratedBatchFor c")
      case None
      with True c show ?thesis by (intro that(1)) simp
    next
      case (Some plan)
      have eq: "planRows cfg (row # rows) seen =
          (let r = planRows cfg rows (paymentAddress (cand_item c) # seen) in (fst r, plan # snd r))"
        using True Some c ad by (simp add: Let_def)
      have "plan = \<lparr>plan_type = Integrated, plan_items = [cand_item c], plan_totalGross = grossAmount (cand_item c),
               plan_totalNet = netAmount (cand_item c), plan_totalFee = feeAmount (cand_item c)\<rparr>"
        using Some by (auto simp: integratedBatchFor_def Let_def split: if_splits)
      from that(3) [OF ok seen this eq] show ?thesis .
    qed
  qed
qed

text \<open>The items of a plan made from the rows \<open>R\<close>: one per recipient and per balance, none for a recipient seen before.\<close>

definition fresh_items :: "pay_config \<Rightarrow> payout_row set \<Rightarrow> string list \<Rightarrow> payout_item list \<Rightarrow> bool" where
  "fresh_items cfg R seen its \<longleftrightarrow>
     (\<forall>it \<in> set its. \<exists>row \<in> R. item_ok cfg row it) \<and> distinct (map paymentAddress its) \<and>
     distinct (map balanceId its) \<and> paymentAddress ` set its \<inter> set seen = {}"

lemma fresh_items_mset: assumes "mset xs = mset ys" shows "fresh_items cfg R seen xs = fresh_items cfg R seen ys"
proof -
  have "mset (map paymentAddress xs) = mset (map paymentAddress ys)" "mset (map balanceId xs) = mset (map balanceId ys)"
    using assms by simp_all
  with mset_eq_setD [OF assms] show ?thesis
    unfolding fresh_items_def by (metis mset_eq_imp_distinct_iff)
qed

lemma fresh_items_more: "fresh_items cfg R seen its \<Longrightarrow> R \<subseteq> R' \<Longrightarrow> fresh_items cfg R' seen its"
  unfolding fresh_items_def by blast

lemma fresh_items_Cons:
  assumes "fresh_items cfg R (paymentAddress it # seen) its" "row_id row \<notin> row_id ` R" "item_ok cfg row it"
    "paymentAddress it \<notin> set seen"
  shows "fresh_items cfg (insert row R) seen (it # its)"
proof -
  have "balanceId it \<noteq> balanceId x" if "x \<in> set its" for x
  proof -
    from that assms(1) obtain row' where "row' \<in> R" "item_ok cfg row' x" by (auto simp: fresh_items_def)
    then have "row_id row' \<in> row_id ` R" "balanceId x = row_id row'" by (simp_all add: item_ok_def)
    moreover have "balanceId it = row_id row" using assms(3) by (simp add: item_ok_def)
    ultimately show ?thesis using assms(2) by metis
  qed
  with assms show ?thesis by (simp add: fresh_items_def) blast
qed

definition single_plan :: "batch_plan \<Rightarrow> bool" where
  "single_plan plan \<longleftrightarrow> (\<exists>it. plan_items plan = [it] \<and> plan_totalGross plan = grossAmount it \<and>
     plan_totalNet plan = netAmount it \<and> plan_totalFee plan = feeAmount it)"

lemma planRows_items:
  assumes "plan_config_ok cfg" "\<forall>row \<in> set rows. fl (row_amount row) = row_amount row" "distinct (map row_id rows)"
  shows "fresh_items cfg (set rows) seen (planned_items (planRows cfg rows seen)) \<and>
     list_all single_plan (snd (planRows cfg rows seen))"
  using assms(2,3)
proof (induction rows arbitrary: seen)
  case Nil
  then show ?case by (simp add: planned_items_def fresh_items_def)
next
  case (Cons row rows)
  have hd: "fl (row_amount row) = row_amount row" and tl: "\<forall>row \<in> set rows. fl (row_amount row) = row_amount row"
    "distinct (map row_id rows)" and new: "row_id row \<notin> row_id ` set rows" using Cons.prems by auto
  note IH = Cons.IH [OF tl]
  from assms(1) hd show ?case
  proof (rule planRows_Cons [where rows = rows and seen = seen])
    assume "planRows cfg (row # rows) seen = planRows cfg rows seen"
    then show ?thesis using IH [of seen] fresh_items_more [of cfg "set rows" seen _ "set (row # rows)"] by auto
  next
    fix it assume it: "item_ok cfg row it" "paymentAddress it \<notin> set seen"
      "planRows cfg (row # rows) seen = (let r = planRows cfg rows (paymentAddress it # seen) in (it # fst r, snd r))"
    have p: "planned_items (planRows cfg (row # rows) seen) = it # planned_items (planRows cfg rows (paymentAddress it # seen))"
      by (simp only: it(3) Let_def planned_items_def fst_conv snd_conv append_Cons)
    have s: "snd (planRows cfg (row # rows) seen) = snd (planRows cfg rows (paymentAddress it # seen))"
      by (simp only: it(3) Let_def snd_conv)
    show ?thesis unfolding p s using IH fresh_items_Cons [OF _ new it(1,2)] by simp
  next
    fix it plan assume it: "item_ok cfg row it" "paymentAddress it \<notin> set seen"
      "plan = \<lparr>plan_type = Integrated, plan_items = [it], plan_totalGross = grossAmount it,
               plan_totalNet = netAmount it, plan_totalFee = feeAmount it\<rparr>"
      "planRows cfg (row # rows) seen = (let r = planRows cfg rows (paymentAddress it # seen) in (fst r, plan # snd r))"
    let ?r = "planRows cfg rows (paymentAddress it # seen)"
    have "planned_items (planRows cfg (row # rows) seen) = fst ?r @ it # concat (map plan_items (snd ?r))"
      unfolding it(4) Let_def planned_items_def by (simp add: it(3))
    then have "mset (planned_items (planRows cfg (row # rows) seen)) = mset (it # planned_items ?r)"
      by (simp only: planned_items_def) simp
    from fresh_items_mset [OF this] have "fresh_items cfg (set (row # rows)) seen (planned_items (planRows cfg (row # rows) seen))"
      using IH [of "paymentAddress it # seen"] fresh_items_Cons [OF _ new it(1,2), of "planned_items ?r"] by simp
    moreover have s: "snd (planRows cfg (row # rows) seen) = plan # snd ?r" by (simp only: it(4) Let_def snd_conv)
    have "single_plan plan" by (simp add: it(3) single_plan_def)
    then have "list_all single_plan (snd (planRows cfg (row # rows) seen))"
      unfolding s using IH [of "paymentAddress it # seen"] by simp
    ultimately show ?thesis by blast
  qed
qed

lemma batchesOfRows_items:
  assumes "0 < maxPaymentTxns cfg" "of_int \<lfloor>maxPaymentTxns cfg\<rfloor> = maxPaymentTxns cfg"
  shows "concat (map plan_items (batchesOfRows cfg rows)) = planned_items (planRows cfg rows [])"
proof -
  have "0 < \<lfloor>maxPaymentTxns cfg\<rfloor>" using assms by (metis of_int_0_less_iff)
  then have "0 < nat \<lfloor>maxPaymentTxns cfg\<rfloor>" by simp
  then show ?thesis
    by (simp add: batchesOfRows_def Let_def planned_items_def bulkBatch_def comp_def concat_chunks)
qed

text \<open>The rows a query returns are the free balances, one row each.\<close>

lemma selectPayoutRows_row:
  assumes "row \<in> set (selectPayoutRows minimum d)"
  shows "\<exists>r. (row_id row, r) \<in> set (balances d) \<and> bal_pending r = None \<and> minimum \<le> bal_amount r \<and>
    row_payment_address row = bal_address r \<and> row_payment_id row = bal_payment_id r \<and> row_amount row = fl (bal_amount r)"
  using assms by (auto simp: selectPayoutRows_def)

lemma selectPayoutRows_distinct:
  assumes "distinct (map fst (balances d))"
  shows "distinct (map row_id (selectPayoutRows minimum d))"
proof -
  have "map row_id (selectPayoutRows minimum d) =
      map fst (sort_key fst (filter (\<lambda>(i, r). minimum \<le> bal_amount r \<and> bal_pending r = None) (balances d)))"
    by (simp add: selectPayoutRows_def comp_def case_prod_unfold)
  moreover have "distinct (map fst (sort_key fst (filter (\<lambda>(i, r). minimum \<le> bal_amount r \<and> bal_pending r = None) (balances d))))"
    using assms by (simp add: distinct_map_filter_sub distinct_map_sort_key)
  ultimately show ?thesis by simp
qed

text \<open>All the items of all the batches planned from a table.\<close>

lemma plan_items_fresh:
  assumes cfg: "plan_config_ok cfg" and m: "isSafeInteger (maxPaymentTxns cfg)" "0 < maxPaymentTxns cfg"
    and d: "distinct (map fst (balances d))"
  shows "fresh_items cfg (set (selectPayoutRows minimum d)) []
      (concat (map plan_items (batchesOfRows cfg (selectPayoutRows minimum d))))"
proof -
  have "\<forall>row \<in> set (selectPayoutRows minimum d). fl (row_amount row) = row_amount row"
    using selectPayoutRows_row by fastforce
  moreover note selectPayoutRows_distinct [OF d, of minimum]
  moreover have "of_int \<lfloor>maxPaymentTxns cfg\<rfloor> = maxPaymentTxns cfg" using m(1) by (simp add: isSafeInteger_def)
  ultimately show ?thesis
    using planRows_items [OF cfg] batchesOfRows_items [OF m(2)] by simp
qed

lemma batch_plan_ok:
  assumes "plan_config_ok cfg" "isSafeInteger (maxPaymentTxns cfg)" "0 < maxPaymentTxns cfg"
    "distinct (map fst (balances d))" "plan \<in> set (batchesOfRows cfg (selectPayoutRows minimum d))"
  shows "plan_ok plan"
proof -
  have "\<exists>row. item_ok cfg row it" if "it \<in> set (plan_items plan)" for it
  proof -
    have "it \<in> set (concat (map plan_items (batchesOfRows cfg (selectPayoutRows minimum d))))"
      using assms(5) that by auto
    with plan_items_fresh [OF assms(1-4), of minimum] show ?thesis by (auto simp: fresh_items_def)
  qed
  then show ?thesis by (force simp: plan_ok_def item_ok_def)
qed

text \<open>Each batch is within the transaction limit, and its totals are the sums over its items.\<close>

definition totals_ok :: "batch_plan \<Rightarrow> bool" where
  "totals_ok plan \<longleftrightarrow> plan_totalGross plan = sumBy grossAmount (plan_items plan) \<and>
     plan_totalNet plan = sumBy netAmount (plan_items plan) \<and> plan_totalFee plan = sumBy feeAmount (plan_items plan)"

lemma batch_shape:
  assumes cfg: "plan_config_ok cfg" and m: "isSafeInteger (maxPaymentTxns cfg)" "0 < maxPaymentTxns cfg"
    and d: "distinct (map fst (balances d))"
    and plan: "plan \<in> set (batchesOfRows cfg (selectPayoutRows minimum d))"
  shows "plan_items plan \<noteq> [] \<and> of_nat (length (plan_items plan)) \<le> maxPaymentTxns cfg \<and> totals_ok plan"
proof -
  let ?rows = "selectPayoutRows minimum d"
  have i: "of_int \<lfloor>maxPaymentTxns cfg\<rfloor> = maxPaymentTxns cfg" using m(1) by (simp add: isSafeInteger_def)
  then have one: "0 < \<lfloor>maxPaymentTxns cfg\<rfloor>" using m(2) by (metis of_int_0_less_iff)
  have "\<forall>row \<in> set ?rows. fl (row_amount row) = row_amount row"
    using selectPayoutRows_row by fastforce
  note pr = planRows_items [OF cfg this selectPayoutRows_distinct [OF d], of "[]"]
  have lim: "of_nat n \<le> maxPaymentTxns cfg" if "n \<le> nat \<lfloor>maxPaymentTxns cfg\<rfloor>" for n
    using that one i by (metis int_nat_eq of_int_le_iff of_int_of_nat_eq of_nat_le_iff less_imp_le)
  from plan consider c where "c \<in> set (chunks (nat \<lfloor>maxPaymentTxns cfg\<rfloor>) (fst (planRows cfg ?rows [])))"
      "plan = bulkBatch c" | "plan \<in> set (snd (planRows cfg ?rows []))"
    by (auto simp: batchesOfRows_def Let_def)
  then show ?thesis
  proof cases
    case 1
    with chunks_bounds [OF 1(1)] lim [of "length c"] show ?thesis by (simp add: bulkBatch_def totals_ok_def)
  next
    case 2
    then obtain it where it: "plan_items plan = [it]" "plan_totalGross plan = grossAmount it"
        "plan_totalNet plan = netAmount it" "plan_totalFee plan = feeAmount it"
      using pr by (auto simp: list_all_iff single_plan_def)
    with 2 have "it \<in> set (planned_items (planRows cfg ?rows []))" by (force simp: planned_items_def)
    with pr obtain row where "item_ok cfg row it" by (auto simp: fresh_items_def)
    then have "fl (grossAmount it) = grossAmount it" "fl (netAmount it) = netAmount it" "fl (feeAmount it) = feeAmount it"
      unfolding item_ok_def by blast+
    with it show ?thesis using lim [of 1] one by (simp add: totals_ok_def sumBy_def)
  qed
qed

end
