(* ===== verification/Payments_Lock.thy ===== *)
theory Payments_Lock
  imports Payments_Planner
begin

text \<open>
  The advisory lock of \<open>src/lib/payments.js\<close>: one database connection is kept for the
  life of the runtime and owns a named lock. Its ownership is checked before every
  critical phase; losing it, or the connection, latches fail-stop. The helper that reads
  the single value of a reply is \<open>querySingleValue\<close> of \<open>payments/common.js\<close>.

  A connection is represented by its thread id, which the driver sets when it connects.
  The text of a fail-stop reason that names ids is shortened to its fixed part.
\<close>

subsection \<open>Replies with one value\<close>

fun firstField :: "jsval \<Rightarrow> string \<Rightarrow> num option" where
  "firstField (JObj kvs) key =
     (case map_of kvs key of
        Some v \<Rightarrow> normalizeInteger v
      | None \<Rightarrow> (case kvs of [] \<Rightarrow> None | (k, v) # _ \<Rightarrow> if k = [] then None else normalizeInteger (getf (JObj kvs) k)))"
| "firstField (JArr (v # _)) key = normalizeInteger v"
| "firstField _ key = None"

definition querySingleValue :: "jsval \<Rightarrow> string \<Rightarrow> num option" where
  "querySingleValue rows key =
     (case rows of
        JArr [] \<Rightarrow> None
      | JArr (row # _) \<Rightarrow> firstField row key
      | row \<Rightarrow> firstField row key)"

text \<open>A query on the connection that holds the lock.\<close>

definition lockQuery :: "jsval pay" where
  "lockQuery = andThen (modify await_step) (\<lambda>_. andThen (gets (\<lambda>w. lock_reply (env w) (awaits w)))
     (\<lambda>reply. case reply of Inl e \<Rightarrow> throw e | Inr v \<Rightarrow> ret v))"

subsection \<open>The lock\<close>

definition verifyAdvisoryLock :: "bool pay" where
  "verifyAdvisoryLock =
     andThen (gets lockConnection) (\<lambda>c.
       if c = None then ret False
       else try_catch
         (andThen lockQuery (\<lambda>reply.
          andThen (gets lockConnection) (\<lambda>mine.
            let ownerId = querySingleValue reply ''owner_id''
            in if ownerId = None \<or> ownerId \<noteq> map_option of_nat mine
               then enterFailStop ''lost advisory lock'' None
               else ret True)))
         (\<lambda>e. andThen (modify clearAdvisoryLockConnection)
                (\<lambda>_. enterFailStop (''advisory lock check failed: '' @ e) None)))"

definition releaseAdvisoryLock :: "unit pay" where
  "releaseAdvisoryLock =
     andThen (gets lockConnection) (\<lambda>c.
       if c = None then ret ()
       else andThen (try_catch (andThen lockQuery (\<lambda>_. ret ())) (\<lambda>_. ret ()))
              (\<lambda>_. modify clearAdvisoryLockConnection))"

definition getConnection :: "nat pay" where
  "getConnection = andThen (modify await_step) (\<lambda>_. andThen (gets (\<lambda>w. get_connection (env w) (awaits w)))
     (\<lambda>reply. case reply of Inl e \<Rightarrow> throw e | Inr c \<Rightarrow> ret c))"

definition ensureAdvisoryLock :: "bool pay" where
  "ensureAdvisoryLock =
     andThen (gets lockConnection) (\<lambda>c.
       if c \<noteq> None then verifyAdvisoryLock
       else try_catch
         (andThen getConnection (\<lambda>connection.
          andThen (modify (\<lambda>w. w\<lparr>lockConnection := Some connection\<rparr>)) (\<lambda>_.
          andThen lockQuery (\<lambda>reply.
            if querySingleValue reply ''locked'' \<noteq> Some 1
            then andThen releaseAdvisoryLock (\<lambda>_. enterFailStop ''advisory lock busy'' None)
            else ret True))))
         (\<lambda>e. andThen (modify clearAdvisoryLockConnection)
                (\<lambda>_. enterFailStop (''failed to acquire advisory lock: '' @ e) None)))"

text \<open>\<open>checkExclusiveAccess\<close> of \<open>payments/processor.js\<close>, with the runtime's lock check.\<close>

definition checkExclusiveAccess :: "bool pay" where
  "checkExclusiveAccess =
     andThen (gets isFailStop) (\<lambda>stopped.
       if stopped then ret False
       else andThen (gets lockConnection) (\<lambda>c. if c = None then ret False else verifyAdvisoryLock))"

subsection \<open>What a client of the lock needs of its invariant\<close>

text \<open>
  An assertion that survives an awaited call, a fail-stop and a change of the lock
  connection survives every lock operation.
\<close>

locale lock_client =
  fixes I :: "pay_world \<Rightarrow> bool"
  assumes inv_await: "I w \<Longrightarrow> I (await_step w)"
    and inv_stop: "I w \<Longrightarrow> I (failStopState m k w)"
    and inv_connection: "I w \<Longrightarrow> I (w\<lparr>lockConnection := c\<rparr>)"
begin

lemma keeps_await: "keeps I (modify await_step)"
  by (rule triple_modify) (rule inv_await)

lemma keeps_enterFailStop: "keeps I (enterFailStop m k)"
  unfolding enterFailStop_def by (intro triple_intros triple_modify inv_stop)

lemma keeps_clear: "keeps I (modify clearAdvisoryLockConnection)"
  by (rule triple_modify) (simp add: clearAdvisoryLockConnection_def inv_connection)

lemma keeps_lockQuery: "keeps I lockQuery"
  unfolding lockQuery_def
  by (intro keeps_andThen keeps_await keeps_gets) (auto intro: keeps_throw keeps_ret split: sum.split)

lemma keeps_verifyAdvisoryLock: "keeps I verifyAdvisoryLock"
  unfolding verifyAdvisoryLock_def Let_def
  by (intro triple_intros keeps_lockQuery keeps_enterFailStop keeps_clear)

lemma keeps_releaseAdvisoryLock: "keeps I releaseAdvisoryLock"
  unfolding releaseAdvisoryLock_def by (intro triple_intros keeps_lockQuery keeps_clear)

lemma keeps_ensureAdvisoryLock: "keeps I ensureAdvisoryLock"
proof -
  have "keeps I getConnection"
    unfolding getConnection_def
    by (intro keeps_andThen keeps_await keeps_gets) (auto intro: keeps_throw keeps_ret split: sum.split)
  then show ?thesis
    unfolding ensureAdvisoryLock_def
    by (intro triple_intros keeps_lockQuery keeps_enterFailStop keeps_clear keeps_verifyAdvisoryLock
        keeps_releaseAdvisoryLock triple_modify inv_connection)
qed

lemma keeps_checkExclusiveAccess: "keeps I checkExclusiveAccess"
  unfolding checkExclusiveAccess_def by (intro triple_intros keeps_verifyAdvisoryLock)

end

end
