(* ===== verification/Payments_Processor.thy ===== *)
theory Payments_Processor
  imports Payments_Lock
begin

text \<open>
  \<open>src/lib/payments/processor.js\<close>: the programs that submit, reconcile, hold, escalate,
  release and finalize a batch. Each \<open>async\<close> function of the source is one program over
  the payout world, with its guards and early returns in the order of the source. The
  batch object that the functions pass around and mutate is the field \<open>mem\<close> of the
  world, with its id \<open>mem_id\<close>; log lines and mails are left out, since nothing reads
  them back.
\<close>

subsection \<open>Helpers\<close>

definition MIN_SUCCESS_FEE_ATOMIC :: num where
  "MIN_SUCCESS_FEE_ATOMIC = 10"

definition HISTORY_CHECKED_SUBMIT_ERRORS :: "string list" where
  "HISTORY_CHECKED_SUBMIT_ERRORS =
     [''not enough money'', ''not enough unlocked money'', ''transaction was rejected by daemon'']"

definition RECONCILE_POLL_INTERVAL_MS :: int where
  "RECONCILE_POLL_INTERVAL_MS = 10 * 60 * 1000"

definition SUBMIT_SEARCH_DELAYS_MS :: "nat list" where
  "SUBMIT_SEARCH_DELAYS_MS = map (\<lambda>seconds. seconds * 1000) [1, 5, 10, 30, 60]"

definition RECENT_TRANSFER_LOOKBACK_BLOCKS :: num where
  "RECENT_TRANSFER_LOOKBACK_BLOCKS = 31 * 24 * 30"

definition resultObject :: "jsval \<Rightarrow> jsval option" where
  "resultObject v = (if isRecord v \<and> isRecord (getf v ''result'') then Some (getf v ''result'') else None)"

definition hasRpcError :: "jsval \<Rightarrow> bool" where
  "hasRpcError v = (isRecord v \<and> isRecord (getf v ''error''))"

text \<open>\<open>reply instanceof Error || typeof reply === "string"\<close>\<close>

fun transportFailure :: "jsval \<Rightarrow> bool" where
  "transportFailure (JErr m) = True"
| "transportFailure (JStr s) = True"
| "transportFailure _ = False"

definition hasPlausibleWalletFee :: "num \<Rightarrow> bool" where
  "hasPlausibleWalletFee totalFee = (MIN_SUCCESS_FEE_ATOMIC < totalFee)"

definition idText :: "nat \<Rightarrow> string" where
  "idText b = js_num_to_string (of_nat b)"

datatype outcome = Cleared | Unresolved | Review

definition guardedTransitionOutcome :: "batch_row \<Rightarrow> outcome" where
  "guardedTransitionOutcome batch =
     (if status batch = Finalized then Cleared
      else if status batch = Manual_review then Review else Unresolved)"

definition nextReconcileDelayMs :: "int \<Rightarrow> batch_row \<Rightarrow> int" where
  "nextReconcileDelayMs nowMs batch =
     (let lastReconciledAt = sqlTimestampToUnix (last_reconciled_at batch)
      in if lastReconciledAt = 0 then 0
         else let elapsedMs = max 0 (nowMs - lastReconciledAt * 1000)
              in if RECONCILE_POLL_INTERVAL_MS \<le> elapsedMs then 0 else RECONCILE_POLL_INTERVAL_MS - elapsedMs)"

definition sleepMs :: "nat \<Rightarrow> unit pay" where
  "sleepMs delayMs = modify await_step"

fun retrySearch :: "nat list \<Rightarrow> 'a pay \<Rightarrow> ('a \<Rightarrow> bool) \<Rightarrow> 'a \<Rightarrow> 'a pay" where
  "retrySearch [] search shouldRetry result = ret result"
| "retrySearch (delayMs # ds) search shouldRetry result =
     andThen (sleepMs delayMs) (\<lambda>_. andThen search (\<lambda>r.
       if \<not> shouldRetry r then ret r else retrySearch ds search shouldRetry r))"

definition retryPostSubmitSearch :: "'a pay \<Rightarrow> ('a \<Rightarrow> bool) \<Rightarrow> 'a pay" where
  "retryPostSubmitSearch search shouldRetry =
     (case SUBMIT_SEARCH_DELAYS_MS of
        [] \<Rightarrow> throw ''submit search retry schedule is empty''
      | firstDelay # remainingDelays \<Rightarrow>
          andThen (sleepMs firstDelay) (\<lambda>_. andThen search (\<lambda>r.
            if \<not> shouldRetry r then ret r else retrySearch remainingDelays search shouldRetry r)))"

subsection \<open>Guarded writes\<close>

text \<open>
  The fields of a guarded write are a function of the time text. The row gets the instant
  the text names, the object gets the text.
\<close>

definition refreshBatchObject :: "(batch_row \<Rightarrow> batch_row) \<Rightarrow> bool \<Rightarrow> unit pay" where
  "refreshBatchObject setf updated =
     (if updated then modify (\<lambda>w. w\<lparr>mem := setf (mem w)\<rparr>)
      else andThen (gets mem_id) (\<lambda>b. andThen (select (\<lambda>d. map_of (batches d) b)) (\<lambda>row.
             case row of None \<Rightarrow> ret () | Some r \<Rightarrow> modify (\<lambda>w. w\<lparr>mem := r\<rparr>))))"

definition updateBatchStatusIfCurrent ::
  "(batch_row \<Rightarrow> batch_row) \<Rightarrow> (batch_row \<Rightarrow> batch_row) \<Rightarrow> batch_status list \<Rightarrow> null_field list \<Rightarrow> bool pay" where
  "updateBatchStatusIfCurrent rowf memf expectedStatuses requireNullFields =
     andThen (gets mem_id) (\<lambda>b.
     andThen (query (cas_batch b rowf expectedStatuses requireNullFields)) (\<lambda>affectedRows.
     andThen (refreshBatchObject memf (affectedRows = 1)) (\<lambda>_.
     ret (affectedRows = 1))))"

definition updateGuardedBatch :: "(int \<Rightarrow> batch_row \<Rightarrow> batch_row) \<Rightarrow> bool pay" where
  "updateGuardedBatch fieldsAt =
     andThen (gets (\<lambda>w. (fieldsAt (dbTime w (currentTime w)), fieldsAt (currentTime w), status (mem w))))
       (\<lambda>(rowf, memf, s). updateBatchStatusIfCurrent rowf memf [s] guard_nulls)"

text \<open>The field sets of the writes that record an attempt and leave the batch where it is.\<close>

definition hold_fields :: "string \<Rightarrow> int \<Rightarrow> batch_row \<Rightarrow> batch_row" where
  "hold_fields message t r = r\<lparr>last_reconciled_at := Some t, updated_at := t, last_error_text := Some message\<rparr>"

definition reconcile_fields :: "nat \<Rightarrow> nat \<Rightarrow> string \<Rightarrow> int \<Rightarrow> batch_row \<Rightarrow> batch_row" where
  "reconcile_fields attempts healthyPasses message t r =
     r\<lparr>reconcile_attempts := attempts, reconcile_clean_passes := healthyPasses,
       last_reconciled_at := Some t, updated_at := t, last_error_text := Some message\<rparr>"

definition note_fields :: "string \<Rightarrow> int \<Rightarrow> batch_row \<Rightarrow> batch_row" where
  "note_fields message t r = r\<lparr>updated_at := t, last_error_text := Some message\<rparr>"

definition holdBatch :: "string \<Rightarrow> outcome pay" where
  "holdBatch message =
     andThen (updateGuardedBatch (hold_fields message)) (\<lambda>updated.
       if \<not> updated then gets (guardedTransitionOutcome \<circ> mem) else ret Unresolved)"

definition holdBatchForRetry :: "string \<Rightarrow> outcome pay" where
  "holdBatchForRetry message =
     andThen (gets mem) (\<lambda>batch.
       if submit_started_at batch \<noteq> None \<or> submitted_at batch \<noteq> None
          \<or> text_truthy (tx_hash batch) \<or> text_truthy (tx_key batch)
       then holdBatch message
       else andThen (updateGuardedBatch (\<lambda>t. retry_fields t message)) (\<lambda>updated.
              if \<not> updated then gets (guardedTransitionOutcome \<circ> mem) else ret Unresolved))"

definition recordBatchReconcileState :: "string \<Rightarrow> bool \<Rightarrow> bool pay" where
  "recordBatchReconcileState message incrementHealthyPass =
     andThen (gets mem) (\<lambda>batch.
       let attempts = reconcile_attempts batch + 1;
           cleanPasses = reconcile_clean_passes batch;
           healthyPasses = (if incrementHealthyPass then cleanPasses + 1 else cleanPasses)
       in updateGuardedBatch (reconcile_fields attempts healthyPasses message))"

definition holdAfterReconcile :: "string \<Rightarrow> bool \<Rightarrow> outcome pay" where
  "holdAfterReconcile message incrementHealthyPass =
     andThen (recordBatchReconcileState message incrementHealthyPass) (\<lambda>updated.
       if \<not> updated then gets (guardedTransitionOutcome \<circ> mem) else ret Unresolved)"

definition markBatchManualReview :: "string \<Rightarrow> match_details \<Rightarrow> outcome pay" where
  "markBatchManualReview message details =
     andThen (updateGuardedBatch (\<lambda>t. review_fields t message details)) (\<lambda>updated.
     andThen (gets (\<lambda>w. (mem_id w, mem w))) (\<lambda>(b, batch).
       if \<not> updated
       then (if status batch = Manual_review
             then andThen (enterFailStop message (Some b)) (\<lambda>_. ret Review)
             else ret (guardedTransitionOutcome batch))
       else andThen (enterFailStop message (Some b)) (\<lambda>_. ret Review)))"

definition persistSubmittedBatch :: "string \<Rightarrow> string option \<Rightarrow> num \<Rightarrow> string option \<Rightarrow> bool pay" where
  "persistSubmittedBatch txHash txKey totalFee lastErrorText =
     updateGuardedBatch (\<lambda>t. submitted_fields t txHash txKey totalFee lastErrorText)"

subsection \<open>Wallet lookups\<close>

datatype tx_key_result = Key_retry string | Key_missing string | Key_ok string

definition resolveTxKey :: "string \<Rightarrow> tx_key_result pay" where
  "resolveTxKey txHash =
     andThen (callWallet ''get_tx_key'' (JObj [(''txid'', JStr txHash)])) (\<lambda>reply.
       if transportFailure reply then ret (Key_retry (describeWalletReply reply))
       else if hasRpcError reply then ret (Key_missing (describeWalletReply reply))
       else
         let txKey = (case resultObject reply of
                        Some result \<Rightarrow> (case getf result ''tx_key'' of JStr k \<Rightarrow> k | _ \<Rightarrow> [])
                      | None \<Rightarrow> [])
         in ret (if txKey \<noteq> [] then Key_ok txKey
                 else Key_missing (''wallet returned no tx_key for '' @ txHash)))"

datatype wallet_load =
  Load_unavailable string | Load_not_found | Load_lookup_unavailable string | Load_ok "jsval list"

fun recordsOf :: "jsval \<Rightarrow> jsval list" where
  "recordsOf (JArr vs) = filter isRecord vs"
| "recordsOf _ = []"

definition getTransfers :: "(string \<times> jsval) list \<Rightarrow> wallet_load pay" where
  "getTransfers params =
     andThen (callWallet ''get_transfers'' (JObj params)) (\<lambda>reply.
       case resultObject reply of
         None \<Rightarrow> ret (Load_unavailable (describeWalletReply reply))
       | Some result \<Rightarrow>
           if transportFailure reply then ret (Load_unavailable (describeWalletReply reply))
           else ret (Load_ok (concat (map (\<lambda>key. recordsOf (getf result key)) [''out'', ''pending'', ''pool'']))))"

definition loadWalletTransfers :: "bool \<Rightarrow> wallet_load pay" where
  "loadWalletTransfers filterByHeight =
     (let params = [(''out'', JBool True), (''pending'', JBool True), (''pool'', JBool True)]
      in if \<not> filterByHeight then getTransfers params
         else andThen (callWallet ''get_height'' (JObj [])) (\<lambda>heightReply.
           let walletHeight = Option.bind (resultObject heightReply) (\<lambda>r. normalizeInteger (getf r ''height''))
           in case (transportFailure heightReply, walletHeight) of
                (False, Some h) \<Rightarrow>
                  getTransfers (params @
                    [(''filter_by_height'', JBool True),
                     (''min_height'', JNum (max 0 (fl (h - RECENT_TRANSFER_LOOKBACK_BLOCKS)))),
                     (''max_height'', JNum h)])
              | _ \<Rightarrow> ret (Load_unavailable (''wallet height lookup failed: '' @ describeWalletReply heightReply))))"

definition loadWalletTransferByTxHash :: "string \<Rightarrow> wallet_load pay" where
  "loadWalletTransferByTxHash txHash =
     andThen (callWallet ''get_transfer_by_txid'' (JObj [(''txid'', JStr txHash)])) (\<lambda>reply.
       if transportFailure reply then ret (Load_unavailable (describeWalletReply reply))
       else if hasRpcError reply
       then (let message = describeWalletReply reply; error = getf reply ''error''
             in if contains ''not found'' (js_toLowerCase message) then ret Load_not_found
                else if normalizeInteger (getf error ''code'') = Some 0 \<and> getf error ''message'' = JStr []
                then ret (Load_lookup_unavailable message)
                else ret (Load_unavailable message))
       else case resultObject reply of
         None \<Rightarrow> ret (Load_unavailable (describeWalletReply reply))
       | Some result \<Rightarrow>
           let transfers = (case getf result ''transfers'' of
                              JArr vs \<Rightarrow> filter isRecord vs
                            | _ \<Rightarrow> if isRecord (getf result ''transfer'') then [getf result ''transfer''] else [])
           in ret (if transfers \<noteq> [] then Load_ok transfers else Load_not_found))"

definition loadSubmittedTransfersByTxHash :: "string \<Rightarrow> wallet_load pay" where
  "loadSubmittedTransfersByTxHash txHash =
     andThen (loadWalletTransferByTxHash txHash) (\<lambda>byTxHash.
       case byTxHash of
         Load_lookup_unavailable _ \<Rightarrow>
           andThen (loadWalletTransfers False) (\<lambda>fallback.
             case fallback of
               Load_ok ts \<Rightarrow>
                 let transfers = filter (\<lambda>t. normalizeHash (getf t ''txid'') = Some txHash) ts
                 in ret (if transfers \<noteq> [] then Load_ok transfers else Load_not_found)
             | _ \<Rightarrow> ret fallback)
       | _ \<Rightarrow> ret byTxHash)"

datatype wallet_match =
  Multiple_matches | No_match | Incomplete_match | Match_unavailable string
| Matched_waiting_tx_key string num string
| Matched_missing_tx_key num string
| Matched num string string

text \<open>The arguments of the last three: the wallet fee and the hash (after the message), and the key.\<close>

definition findWalletTransferMatch :: "item_row list \<Rightarrow> wallet_match pay" where
  "findWalletTransferMatch items =
     andThen (loadWalletTransfers True) (\<lambda>loadedTransfers.
     andThen (gets mem) (\<lambda>batch.
       case loadedTransfers of
         Load_unavailable message \<Rightarrow> ret (Match_unavailable message)
       | Load_lookup_unavailable message \<Rightarrow> ret (Match_unavailable message)
       | Load_not_found \<Rightarrow> ret (Match_unavailable ''wallet transfer lookup returned no data'')
       | Load_ok transfers \<Rightarrow>
           if list_ex (matchingThrows batch items) transfers then throw ''TypeError''
           else (case filter (transferMatchesBatch batch items) transfers of
              [] \<Rightarrow> ret No_match
            | [match] \<Rightarrow>
                (case (normalizeHash (getf match ''txid''), normalizeInteger (getf match ''fee'')) of
                   (Some txHash, Some totalFee) \<Rightarrow>
                     if \<not> hasPlausibleWalletFee totalFee then ret Incomplete_match
                     else andThen (resolveTxKey txHash) (\<lambda>k.
                       case k of
                         Key_retry message \<Rightarrow> ret (Matched_waiting_tx_key message totalFee txHash)
                       | Key_missing _ \<Rightarrow> ret (Matched_missing_tx_key totalFee txHash)
                       | Key_ok txKey \<Rightarrow> ret (Matched totalFee txHash txKey))
                 | _ \<Rightarrow> ret Incomplete_match)
            | _ \<Rightarrow> ret Multiple_matches)))"

definition matchResultDetails :: "wallet_match \<Rightarrow> match_details" where
  "matchResultDetails m =
     (case m of
        Matched_waiting_tx_key _ fee h \<Rightarrow>
          \<lparr>md_txHash = (if h \<noteq> [] then Some h else None), md_txKey = None, md_totalFee = Some fee\<rparr>
      | Matched_missing_tx_key fee h \<Rightarrow>
          \<lparr>md_txHash = (if h \<noteq> [] then Some h else None), md_txKey = None, md_totalFee = Some fee\<rparr>
      | Matched fee h k \<Rightarrow>
          \<lparr>md_txHash = (if h \<noteq> [] then Some h else None), md_txKey = Some k, md_totalFee = Some fee\<rparr>
      | _ \<Rightarrow> no_details)"

definition isReconcilableSubmittedTransfer :: "jsval \<Rightarrow> bool" where
  "isReconcilableSubmittedTransfer transfer =
     (isRecord transfer \<and>
      (case getf transfer ''type'' of
         JStr s \<Rightarrow> js_toLowerCase s \<in> set [''out'', ''pending'', ''pool'']
       | _ \<Rightarrow> False) \<and>
      getf transfer ''double_spend_seen'' \<noteq> JBool True)"

datatype visibility = Visible | Vis_unavailable string | Vis_not_found

definition findSubmittedTransferVisibility :: "item_row list \<Rightarrow> visibility pay" where
  "findSubmittedTransferVisibility items =
     andThen (gets mem) (\<lambda>batch.
       case Option.bind (tx_hash batch) (\<lambda>h. normalizeHash (JStr h)) of
         None \<Rightarrow> ret Vis_not_found
       | Some txHash \<Rightarrow>
           andThen (loadSubmittedTransfersByTxHash txHash) (\<lambda>loadedTransfers.
           andThen (gets mem) (\<lambda>batch.
             case loadedTransfers of
               Load_not_found \<Rightarrow> ret Vis_not_found
             | Load_unavailable message \<Rightarrow>
                 ret (Vis_unavailable (if message \<noteq> [] then message else ''wallet transfer lookup returned no data''))
             | Load_lookup_unavailable message \<Rightarrow>
                 ret (Vis_unavailable (if message \<noteq> [] then message else ''wallet transfer lookup returned no data''))
             | Load_ok transfers \<Rightarrow>
                 (case find (\<lambda>t. isReconcilableSubmittedTransfer t
                                 \<and> normalizeHash (getf t ''txid'') = Some txHash
                                 \<and> (matchingThrows batch items t \<or> transferMatchesBatch batch items t)) transfers of
                    None \<Rightarrow> ret Vis_not_found
                  | Some t \<Rightarrow> if matchingThrows batch items t then throw ''TypeError'' else ret Visible))))"

definition findWalletTransferMatchAfterSubmit :: "item_row list \<Rightarrow> wallet_match pay" where
  "findWalletTransferMatchAfterSubmit items =
     retryPostSubmitSearch (findWalletTransferMatch items)
       (\<lambda>r. case r of Match_unavailable _ \<Rightarrow> True | No_match \<Rightarrow> True | _ \<Rightarrow> False)"

definition findSubmittedTransferVisibilityAfterSubmit :: "item_row list \<Rightarrow> visibility pay" where
  "findSubmittedTransferVisibilityAfterSubmit items =
     retryPostSubmitSearch (findSubmittedTransferVisibility items)
       (\<lambda>r. case r of Vis_unavailable _ \<Rightarrow> True | Vis_not_found \<Rightarrow> True | Visible \<Rightarrow> False)"

subsection \<open>Finalizing and releasing\<close>

definition commitFinalize :: "int \<Rightarrow> item_row list \<Rightarrow> string \<Rightarrow> nat pay" where
  "commitFinalize finalizedAt items txKey =
     withTransaction
       (\<lambda>w. finalizeTransaction (config (env w)) (dbTime w finalizedAt) (mem_id w) (mem w) items txKey (db w))
       (\<lambda>transactionId w. w\<lparr>mem := (mem w)\<lparr>transaction_id := Some transactionId\<rparr>\<rparr>)"

definition writeLedger :: "item_row list \<Rightarrow> string \<Rightarrow> bool pay" where
  "writeLedger items txKey =
     try_catch
       (andThen (gets currentTime) (\<lambda>finalizedAt.
        andThen (commitFinalize finalizedAt items txKey) (\<lambda>_.
        andThen (modify (\<lambda>w. w\<lparr>mem := (mem w)\<lparr>status := Finalized, finalized_at := Some finalizedAt,
                                             tx_key := Some txKey\<rparr>\<rparr>)) (\<lambda>_.
        ret True))))
       (\<lambda>error. andThen (updateGuardedBatch (hold_fields (''finalize failed: '' @ error))) (\<lambda>_. ret False))"

definition finalizeBatch :: "item_row list \<Rightarrow> string \<Rightarrow> bool pay" where
  "finalizeBatch items reason =
     andThen (gets (\<lambda>w. (mem_id w, mem w))) (\<lambda>(b, batch).
       if \<not> text_truthy (tx_hash batch)
       then andThen (markBatchManualReview
                       (''wallet send for batch '' @ idText b @ '' has no transaction hash'') no_details)
              (\<lambda>_. ret False)
       else case or_null (tx_key batch) of
         Some txKey \<Rightarrow> writeLedger items txKey
       | None \<Rightarrow>
           andThen (resolveTxKey (the (tx_hash batch))) (\<lambda>k.
             case k of
               Key_retry message \<Rightarrow> andThen (holdBatch (''waiting for tx_key: '' @ message)) (\<lambda>_. ret False)
             | Key_missing _ \<Rightarrow>
                 andThen (gets mem) (\<lambda>batch'.
                 andThen (markBatchManualReview
                            (''wallet send proven for batch '' @ idText b @ '' but tx_key is unavailable'')
                            \<lparr>md_txHash = tx_hash batch, md_txKey = None, md_totalFee = Some (total_fee batch')\<rparr>)
                   (\<lambda>_. ret False))
             | Key_ok txKey \<Rightarrow>
                 andThen (modify (\<lambda>w. w\<lparr>mem := (mem w)\<lparr>tx_key := Some txKey\<rparr>\<rparr>)) (\<lambda>_. writeLedger items txKey)))"

definition releaseBatchReservation :: "string \<Rightarrow> bool pay" where
  "releaseBatchReservation reason =
     andThen (gets currentTime) (\<lambda>releasedAt.
       withTransaction
         (\<lambda>w. releaseTransaction (dbTime w releasedAt) (mem_id w) (status (mem w)) reason (db w))
         (\<lambda>_ w. w))"

subsection \<open>Claiming the submit\<close>

definition claimBatchForSubmit :: "batch_status \<Rightarrow> bool pay" where
  "claimBatchForSubmit expectedStatus =
     andThen (gets (\<lambda>w. (mem_id w, currentTime w, dbTime w (currentTime w)))) (\<lambda>(b, submitStartedAt, rowTime).
     andThen (query (\<lambda>d. Inr (claimQuery b expectedStatus rowTime d))) (\<lambda>affectedRows.
       if affectedRows = 1
       then andThen (modify (\<lambda>w. w\<lparr>mem := claim_fields submitStartedAt (mem w)\<rparr>)) (\<lambda>_. ret True)
       else andThen (select (\<lambda>d. map_of (batches d) b)) (\<lambda>refreshedBatch.
            andThen (case refreshedBatch of None \<Rightarrow> ret () | Some r \<Rightarrow> modify (\<lambda>w. w\<lparr>mem := r\<rparr>)) (\<lambda>_.
            ret False))))"

definition handleLostSubmitClaim :: "outcome pay" where
  "handleLostSubmitClaim =
     andThen (gets (\<lambda>w. (mem_id w, mem w))) (\<lambda>(b, batch).
       if status batch = Finalized then ret Cleared
       else if status batch = Manual_review
       then andThen (enterFailStop (''manual-review batch '' @ idText b @ '' blocks payout after submit-claim loss'') (Some b))
              (\<lambda>_. ret Review)
       else ret Unresolved)"

subsection \<open>Reconciling\<close>

definition finalizeMatchedTransfer :: "item_row list \<Rightarrow> string \<Rightarrow> num \<Rightarrow> string \<Rightarrow> string \<Rightarrow> string \<Rightarrow> outcome pay" where
  "finalizeMatchedTransfer items reason totalFee txHash txKey lastErrorText =
     andThen (persistSubmittedBatch txHash (Some txKey) totalFee (Some lastErrorText)) (\<lambda>updated.
       if \<not> updated then gets (guardedTransitionOutcome \<circ> mem)
       else andThen (finalizeBatch items reason) (\<lambda>done. ret (if done then Cleared else Unresolved)))"

fun historyReviewMessage :: "nat \<Rightarrow> wallet_match \<Rightarrow> string" where
  "historyReviewMessage b Incomplete_match =
     ''wallet history shows a plausible transfer for batch '' @ idText b @ '' after submit failure but transfer data is incomplete''"
| "historyReviewMessage b (Matched _ _ _) =
     ''wallet history shows a matching transfer for batch '' @ idText b @ '' after submit failure''"
| "historyReviewMessage b (Matched_missing_tx_key _ _) =
     ''wallet history shows a matching transfer for batch '' @ idText b @ '' after submit failure but tx_key is unavailable''"
| "historyReviewMessage b (Matched_waiting_tx_key _ _ _) =
     ''wallet history shows a matching transfer for batch '' @ idText b @ '' after submit failure but tx_key is not available yet''"
| "historyReviewMessage b _ =
     ''batch '' @ idText b @ '' has multiple plausible wallet matches after submit failure''"

definition reconcileHistoryCheckedSubmitError :: "item_row list \<Rightarrow> string \<Rightarrow> outcome pay" where
  "reconcileHistoryCheckedSubmitError items errorMessage =
     andThen (findWalletTransferMatchAfterSubmit items) (\<lambda>m.
     andThen (gets mem_id) (\<lambda>b.
       case m of
         Match_unavailable message \<Rightarrow>
           holdBatch (''wallet submit failed but history check is unavailable: '' @ message)
       | No_match \<Rightarrow>
           holdBatch (''wallet submit failed after claim with no wallet match yet: '' @ errorMessage)
       | _ \<Rightarrow> markBatchManualReview (historyReviewMessage b m) (matchResultDetails m)))"

definition hashText :: "string option \<Rightarrow> string" where
  "hashText h = (case h of Some s \<Rightarrow> s | None \<Rightarrow> ''null'')"

definition reconcileSubmittedBatch :: "item_row list \<Rightarrow> string \<Rightarrow> bool \<Rightarrow> outcome pay" where
  "reconcileSubmittedBatch items reason isPostSubmit =
     andThen (gets (\<lambda>w. (mem_id w, mem w))) (\<lambda>(b, batch).
       if \<not> hasPlausibleWalletFee (total_fee batch)
       then markBatchManualReview (''submitted batch '' @ idText b @ '' has an implausible wallet fee'')
              \<lparr>md_txHash = tx_hash batch, md_txKey = None, md_totalFee = Some (total_fee batch)\<rparr>
       else
         andThen (if isPostSubmit then findSubmittedTransferVisibilityAfterSubmit items
                  else findSubmittedTransferVisibility items) (\<lambda>v.
         andThen (gets mem) (\<lambda>batch'.
           case v of
             Vis_unavailable message \<Rightarrow>
               holdAfterReconcile (''wallet reconcile unavailable while waiting for submitted tx '' @
                 hashText (tx_hash batch') @ '': '' @ message) False
           | Vis_not_found \<Rightarrow>
               holdAfterReconcile (''submitted tx '' @ hashText (tx_hash batch') @
                 '' is not visible in wallet history yet; holding batch'') True
           | Visible \<Rightarrow>
               andThen (finalizeBatch items reason) (\<lambda>finalized. ret (if finalized then Cleared else Unresolved)))))"

definition reconcileMatch :: "item_row list \<Rightarrow> nat \<Rightarrow> wallet_match \<Rightarrow> outcome pay" where
  "reconcileMatch items b m =
     (case m of
        Match_unavailable message \<Rightarrow> holdAfterReconcile (''wallet reconcile unavailable: '' @ message) False
      | Multiple_matches \<Rightarrow>
          markBatchManualReview (''batch '' @ idText b @ '' has multiple plausible wallet matches after reconcile'') no_details
      | No_match \<Rightarrow> holdAfterReconcile ''no wallet match found after reconcile; holding reservation'' True
      | Incomplete_match \<Rightarrow> holdAfterReconcile ''wallet reconcile returned incomplete transfer data'' False
      | Matched_waiting_tx_key _ totalFee txHash \<Rightarrow>
          andThen (persistSubmittedBatch txHash None totalFee (Some ''wallet match found but waiting for tx_key'')) (\<lambda>updated.
            if \<not> updated then gets (guardedTransitionOutcome \<circ> mem)
            else holdBatch ''wallet match found but waiting for tx_key'')
      | Matched_missing_tx_key totalFee txHash \<Rightarrow>
          markBatchManualReview (''wallet match found for batch '' @ idText b @ '' but tx_key is unavailable'')
            (matchResultDetails m)
      | Matched totalFee txHash txKey \<Rightarrow>
          finalizeMatchedTransfer items ''reconcile'' totalFee txHash txKey ''reconciled from wallet history'')"

definition reconcileBatch :: "item_row list \<Rightarrow> string \<Rightarrow> bool \<Rightarrow> outcome pay" where
  "reconcileBatch items reason isPostSubmit =
     andThen (gets (\<lambda>w. (clock w, mem_id w, mem w))) (\<lambda>(nowMs, b, batch).
       if 0 < nextReconcileDelayMs nowMs batch then ret Unresolved
       else if status batch = Submitted \<and> text_truthy (tx_hash batch)
       then reconcileSubmittedBatch items reason isPostSubmit
       else andThen (if isPostSubmit then findWalletTransferMatchAfterSubmit items else findWalletTransferMatch items)
              (reconcileMatch items b))"

definition reconcileAmbiguousSubmit :: "item_row list \<Rightarrow> string \<Rightarrow> outcome pay" where
  "reconcileAmbiguousSubmit items message =
     andThen (updateGuardedBatch (note_fields message)) (\<lambda>updated.
       if \<not> updated then gets (guardedTransitionOutcome \<circ> mem)
       else andThen (reconcileBatch items ''same-process submit'' True)
              (\<lambda>r. ret (if r = Cleared then Cleared else Unresolved)))"

subsection \<open>Submitting\<close>

definition resolveSubmittedTxKey :: "string \<Rightarrow> num \<Rightarrow> jsval \<Rightarrow> (outcome + string option) pay" where
  "resolveSubmittedTxKey txHash totalFee transferReply =
     (case getf transferReply ''tx_key'' of
        JStr (c # cs) \<Rightarrow> ret (Inr (Some (c # cs)))
      | _ \<Rightarrow>
          andThen (resolveTxKey txHash) (\<lambda>k.
            case k of
              Key_ok txKey \<Rightarrow> ret (Inr (Some txKey))
            | Key_retry _ \<Rightarrow> ret (Inr None)
            | Key_missing _ \<Rightarrow>
                andThen (persistSubmittedBatch txHash None totalFee (Some ''wallet transfer succeeded but tx_key missing'')) (\<lambda>updated.
                  if \<not> updated then andThen (gets mem) (\<lambda>batch. ret (Inl (guardedTransitionOutcome batch)))
                  else andThen (gets mem_id) (\<lambda>b.
                       andThen (markBatchManualReview
                                 (''wallet transfer for batch '' @ idText b @ '' succeeded but tx_key is unavailable'')
                                 \<lparr>md_txHash = Some txHash, md_txKey = None, md_totalFee = Some totalFee\<rparr>)
                         (\<lambda>outcome. ret (Inl outcome))))))"

definition waitForSubmittedVisibility :: "item_row list \<Rightarrow> string \<Rightarrow> outcome option pay" where
  "waitForSubmittedVisibility items txHash =
     andThen (findSubmittedTransferVisibilityAfterSubmit items) (\<lambda>v.
       case v of
         Vis_unavailable message \<Rightarrow>
           andThen (holdBatch (''wallet transfer succeeded but tx search is unavailable: '' @ message)) (\<lambda>r. ret (Some r))
       | Vis_not_found \<Rightarrow>
           andThen (holdBatch (''wallet transfer succeeded but tx '' @ txHash @ '' is not visible in wallet history yet''))
             (\<lambda>r. ret (Some r))
       | Visible \<Rightarrow> ret None)"

definition handleTransferReplyError :: "item_row list \<Rightarrow> jsval \<Rightarrow> outcome option pay" where
  "handleTransferReplyError items transferReply =
     (if hasRpcError transferReply
      then (let errorMessage = describeWalletReply transferReply
            in andThen (if errorMessage \<in> set HISTORY_CHECKED_SUBMIT_ERRORS
                        then reconcileHistoryCheckedSubmitError items errorMessage
                        else reconcileAmbiguousSubmit items (''wallet submit returned an ambiguous error: '' @ errorMessage))
                 (\<lambda>r. ret (Some r)))
      else if transportFailure transferReply \<or> resultObject transferReply = None
      then andThen (reconcileAmbiguousSubmit items (''ambiguous wallet submit: '' @ describeWalletReply transferReply))
             (\<lambda>r. ret (Some r))
      else ret None)"

definition recordTransfer :: "item_row list \<Rightarrow> jsval \<Rightarrow> outcome pay" where
  "recordTransfer items transferResult =
     (case (normalizeHash (getf transferResult ''tx_hash''), normalizeInteger (getf transferResult ''fee'')) of
        (Some txHash, Some totalFee) \<Rightarrow>
          if \<not> hasPlausibleWalletFee totalFee
          then reconcileAmbiguousSubmit items ''wallet returned implausible transfer success payload''
          else
            andThen (resolveSubmittedTxKey txHash totalFee transferResult) (\<lambda>k.
              case k of
                Inl outcome \<Rightarrow> ret outcome
              | Inr txKey \<Rightarrow>
                  andThen (persistSubmittedBatch txHash txKey totalFee None) (\<lambda>updated.
                    if \<not> updated then gets (guardedTransitionOutcome \<circ> mem)
                    else andThen (waitForSubmittedVisibility items txHash) (\<lambda>v.
                      case v of
                        Some outcome \<Rightarrow> ret outcome
                      | None \<Rightarrow> andThen (finalizeBatch items ''submit'')
                                  (\<lambda>finalized. ret (if finalized then Cleared else Unresolved)))))
      | _ \<Rightarrow> reconcileAmbiguousSubmit items ''wallet returned implausible transfer success payload'')"

text \<open>After a claim: exactly one \<open>transfer\<close> call, then its reply is dealt with.\<close>

definition sendTransfer :: "item_row list \<Rightarrow> outcome pay" where
  "sendTransfer items =
     andThen (gets (config \<circ> env)) (\<lambda>cfg.
     andThen (callWallet ''transfer'' (buildWalletTransferParams cfg items)) (\<lambda>transferReply.
     andThen (handleTransferReplyError items transferReply) (\<lambda>transferErrorOutcome.
       case transferErrorOutcome of
         Some outcome \<Rightarrow> ret outcome
       | None \<Rightarrow>
           (case resultObject transferReply of
              None \<Rightarrow> reconcileAmbiguousSubmit items ''ambiguous wallet submit: missing result''
            | Some transferResult \<Rightarrow> recordTransfer items transferResult))))"

definition submitReservedBatch :: "item_row list \<Rightarrow> outcome pay" where
  "submitReservedBatch items =
     andThen (modify (\<lambda>w. w\<lparr>activeBatchId := Some (mem_id w)\<rparr>)) (\<lambda>_.
     andThen checkExclusiveAccess (\<lambda>owned.
       if \<not> owned then ret Unresolved
       else
         andThen (gets (total_net \<circ> mem)) (\<lambda>totalNet.
         andThen (preflightWalletBalance (Some totalNet)) (\<lambda>preflight.
           case preflight of
             Preflight_fail reason _ _ \<Rightarrow> holdBatchForRetry reason
           | Preflight_ok _ _ _ _ \<Rightarrow>
               andThen checkExclusiveAccess (\<lambda>stillOwned.
                 if \<not> stillOwned then ret Unresolved
                 else
                   andThen (gets (status \<circ> mem)) (\<lambda>expectedStatus.
                   andThen (claimBatchForSubmit expectedStatus) (\<lambda>claimed.
                     if \<not> claimed then handleLostSubmitClaim else sendTransfer items)))))))"

subsection \<open>Recovery\<close>

definition pendingBatches :: "pay_db \<Rightarrow> (nat \<times> batch_row) list" where
  "pendingBatches d =
     sort_key fst (filter (\<lambda>(b, r). status r \<in> set [Manual_review, Reserved, Retrying, Submitting, Submitted]) (batches d))"

text \<open>One turn of the loop: \<open>True\<close> to go on with the next batch, \<open>False\<close> to return.\<close>

definition recoverOne :: "string \<Rightarrow> nat \<Rightarrow> batch_row \<Rightarrow> bool pay" where
  "recoverOne source b row =
     andThen (modify (\<lambda>w. w\<lparr>mem_id := b, mem := row\<rparr>)) (\<lambda>_.
     andThen checkExclusiveAccess (\<lambda>owned.
       if \<not> owned then ret False
       else
         andThen (select (select_items b)) (\<lambda>items.
           if status row = Manual_review
           then enterFailStop (''manual-review batch '' @ idText b @ '' blocks new payouts'') (Some b)
           else if status row = Retrying
           then andThen (submitReservedBatch items) (\<lambda>retryOutcome. ret (retryOutcome = Cleared))
           else if status row = Reserved \<and> submit_started_at row = None
           then releaseBatchReservation (''released by '' @ source @ '' before submit'')
           else if status row \<notin> set [Reserved, Submitting, Submitted] then ret True
           else andThen (reconcileBatch items source False) (\<lambda>outcome. ret (outcome = Cleared)))))"

fun recoverEach :: "string \<Rightarrow> (nat \<times> batch_row) list \<Rightarrow> bool pay" where
  "recoverEach source [] = ret True"
| "recoverEach source ((b, row) # rest) =
     andThen (recoverOne source b row) (\<lambda>cleared. if \<not> cleared then ret False else recoverEach source rest)"

definition recoverPendingBatches :: "string \<Rightarrow> bool pay" where
  "recoverPendingBatches source = andThen (select pendingBatches) (recoverEach source)"

end
