(* ===== verification/Payments_Runtime.thy ===== *)
theory Payments_Runtime
  imports Payments_Processor
begin

text \<open>
  The payout cycle of \<open>src/lib/payments.js\<close>: take or verify the lock, recover every
  batch in flight, plan, then reserve and submit batch after batch until one is not
  cleared.
\<close>

subsection \<open>The cycle\<close>

definition recoverPending :: "string \<Rightarrow> bool pay" where
  "recoverPending source =
     andThen (gets isFailStop) (\<lambda>stopped.
       if stopped then ret False
       else andThen ensureAdvisoryLock (\<lambda>locked.
         if \<not> locked then ret False else recoverPendingBatches source))"

datatype plan_result = Lock_lost | Submitted_all | Batch_unresolved

definition submitPlan :: "batch_plan \<Rightarrow> plan_result pay" where
  "submitPlan plan =
     andThen verifyAdvisoryLock (\<lambda>owned.
       if \<not> owned then ret Lock_lost
       else
         andThen (reserveBatch plan) (\<lambda>(b, row, items).
         andThen (modify (\<lambda>w. w\<lparr>mem_id := b, mem := row\<rparr>)) (\<lambda>_.
         andThen (submitReservedBatch items) (\<lambda>outcome.
           ret (if outcome \<noteq> Cleared then Batch_unresolved else Submitted_all)))))"

fun submitPlans :: "batch_plan list \<Rightarrow> plan_result pay" where
  "submitPlans [] = ret Submitted_all"
| "submitPlans (plan # plans) =
     andThen (submitPlan plan) (\<lambda>r. if r \<noteq> Submitted_all then ret r else submitPlans plans)"

definition canAdvancePaymentCycle :: "bool \<Rightarrow> pay_world \<Rightarrow> bool" where
  "canAdvancePaymentCycle createdUnresolvedBatch w = (\<not> createdUnresolvedBatch \<and> \<not> isFailStop w)"

definition finishCycle :: "plan_result \<Rightarrow> bool pay" where
  "finishCycle r =
     (if r = Lock_lost then ret False
      else andThen (gets (canAdvancePaymentCycle (r = Batch_unresolved))) (\<lambda>advance.
        if advance
        then andThen (modify (\<lambda>w. w\<lparr>lastPaymentCycle := Some (clock w div 1000)\<rparr>)) (\<lambda>_. ret True)
        else ret False))"

text \<open>The result is the field \<open>clean\<close>.\<close>

definition runCycle :: "bool pay" where
  "runCycle =
     try_catch
       (andThen (gets isFailStop) (\<lambda>stopped.
          if stopped then ret False
          else andThen ensureAdvisoryLock (\<lambda>locked.
            if \<not> locked then ret False
            else andThen (recoverPending ''startup-recovery'') (\<lambda>recovered.
              if \<not> recovered then ret False
              else andThen planBatches (\<lambda>batches. andThen (submitPlans batches) finishCycle)))))
       (\<lambda>error. ret False)"

definition runSerializedCycle :: "bool pay" where
  "runSerializedCycle = andThen runCycle (\<lambda>clean. andThen (modify (\<lambda>w. w\<lparr>activeBatchId := None\<rparr>)) (\<lambda>_. ret clean))"

end
