(* ===== verification/Payments_Safety.thy ===== *)
theory Payments_Safety
  imports Payments_Runtime
begin

text \<open>
  What the payout programs guarantee over the tables, for every behaviour of the wallet,
  of the database connection and of the lock, and with other processes that make any
  allowed table step between two awaited calls: each write is a step of the batch state
  machine, a batch is sent to the wallet at most once and only after its submit boundary
  is durable, fail-stop is a latch, and a cleared batch is finalized in the tables.
\<close>

subsection \<open>The assertion\<close>

text \<open>
  The other processes move the tables by steps of \<open>db_step\<close> only: the operator scripts that
  edit balances and batches by hand do not run beside a cycle (the unlock script takes the
  same advisory lock).
\<close>

definition rivals_ok :: "pay_env \<Rightarrow> bool" where
  "rivals_ok e \<longleftrightarrow> (\<forall>n d. db_ok d \<longrightarrow> reaches db_step d (rival e n d))"

definition started :: "nat \<Rightarrow> pay_db \<Rightarrow> bool" where
  "started b d \<longleftrightarrow> (\<exists>r. map_of (batches d) b = Some r \<and> submit_started_at r \<noteq> None)"

definition has_status :: "batch_status set \<Rightarrow> nat \<Rightarrow> pay_db \<Rightarrow> bool" where
  "has_status S b d \<longleftrightarrow> (\<exists>r. map_of (batches d) b = Some r \<and> status r \<in> S)"

definition sent :: "nat \<Rightarrow> pay_world \<Rightarrow> nat" where
  "sent b w = length (filter (\<lambda>(meth, params, k). meth = ''transfer'' \<and> k = b) (wallet_log w))"

text \<open>What holds at every moment of a run that began in the world \<open>w0\<close>.\<close>

definition safe :: "pay_world \<Rightarrow> pay_world \<Rightarrow> bool" where
  "safe w0 w \<longleftrightarrow>
     env w = env w0 \<and> rivals_ok (env w0) \<and> db_ok (db w0) \<and> reaches db_step (db w0) (db w) \<and>
     (\<forall>b. sent b w = sent b w0 \<or> sent b w = sent b w0 + 1 \<and> started b (db w) \<and> \<not> started b (db w0)) \<and>
     (isFailStop w0 \<longrightarrow> isFailStop w \<and> failStopReason w = failStopReason w0) \<and>
     lastPaymentCycle w = lastPaymentCycle w0"

text \<open>Every batch that was sent, apart from \<open>b\<close>, is finalized.\<close>

definition sent_done :: "nat option \<Rightarrow> pay_world \<Rightarrow> pay_world \<Rightarrow> bool" where
  "sent_done b w0 w \<longleftrightarrow> (\<forall>k. Some k \<noteq> b \<longrightarrow> sent k w \<noteq> sent k w0 \<longrightarrow> has_status {Finalized} k (db w))"

text \<open>The program works on batch \<open>b\<close>; its object has a status in \<open>S\<close>.\<close>

definition working :: "pay_world \<Rightarrow> nat \<Rightarrow> item_row list \<Rightarrow> batch_status set \<Rightarrow> pay_world \<Rightarrow> bool" where
  "working w0 b items S w \<longleftrightarrow>
     safe w0 w \<and> sent_done (Some b) w0 w \<and> mem_id w = b \<and> b < next_batch_id (db w) \<and>
     same_payouts items (items_of (db w) b) \<and> mem_ok (mem w) \<and> status (mem w) \<in> S \<and>
     (status (mem w) = Finalized \<longrightarrow> has_status {Finalized} b (db w))"

definition ending :: "pay_world \<Rightarrow> nat \<Rightarrow> item_row list \<Rightarrow> ('a \<Rightarrow> bool) \<Rightarrow> string + 'a \<Rightarrow> pay_world \<Rightarrow> bool" where
  "ending w0 b items good r w \<longleftrightarrow>
     working w0 b items UNIV w \<and> (\<forall>x. r = Inr x \<longrightarrow> good x \<longrightarrow> has_status {Finalized} b (db w))"

subsection \<open>Moves of the tables\<close>

lemma reaches_started:
  assumes "reaches db_step d d'" "db_ok d" "started b d"
  shows "started b d'"
proof -
  from assms(3) obtain r t where "map_of (batches d) b = Some r" "submit_started_at r = Some t"
    by (auto simp: started_def)
  from reaches_submit_started [OF assms(1,2) this] show ?thesis by (auto simp: started_def)
qed

lemma reaches_has_status:
  assumes "reaches db_step d d'" "db_ok d" "has_status S b d" "\<forall>s \<in> S. settled s"
  shows "has_status S b d'"
proof -
  from assms(3) obtain r where r: "map_of (batches d) b = Some r" "status r \<in> S" by (auto simp: has_status_def)
  with reaches_settled [OF assms(1,2) r(1)] assms(4) obtain r' where
    "map_of (batches d') b = Some r'" "core r' = core r" by blast
  with r status_core [of r' r] show ?thesis by (simp add: has_status_def)
qed

lemma reaches_finalized:
  "reaches db_step d d' \<Longrightarrow> db_ok d \<Longrightarrow> has_status {Finalized} b d \<Longrightarrow> has_status {Finalized} b d'"
  by (rule reaches_has_status) (simp_all add: settled_def)

lemma reaches_one: "db_step c d d' \<Longrightarrow> reaches db_step d d'"
  by (blast intro: reaches_step reaches_refl)

lemma safe_db_ok: "safe w0 w \<Longrightarrow> db_ok (db w)"
  by (auto simp: safe_def intro: pay.reaches_ok)

lemma sent_cong: "wallet_log w' = wallet_log w \<Longrightarrow> sent b w' = sent b w"
  by (simp add: sent_def)

text \<open>
  A change of the world that moves the tables by allowed steps and keeps the log, the
  environment, the fail-stop latch and the time of the last clean cycle.
\<close>

definition moves :: "pay_world \<Rightarrow> pay_world \<Rightarrow> bool" where
  "moves w w' \<longleftrightarrow> env w' = env w \<and> reaches db_step (db w) (db w') \<and> wallet_log w' = wallet_log w \<and>
     (isFailStop w \<longrightarrow> isFailStop w' \<and> failStopReason w' = failStopReason w) \<and>
     lastPaymentCycle w' = lastPaymentCycle w"

lemma moves_safe:
  assumes "safe w0 w" "moves w w'"
  shows "safe w0 w'"
proof -
  have ok: "db_ok (db w)" using assms(1) by (rule safe_db_ok)
  have r: "reaches db_step (db w) (db w')" using assms(2) by (simp add: moves_def)
  have "sent b w' = sent b w" for b using assms(2) by (intro sent_cong) (simp add: moves_def)
  then have "\<forall>b. sent b w' = sent b w0 \<or> sent b w' = sent b w0 + 1 \<and> started b (db w') \<and> \<not> started b (db w0)"
    using assms(1) reaches_started [OF r ok] by (auto simp: safe_def)
  then show ?thesis using assms r by (auto simp: safe_def moves_def intro: reaches_trans)
qed

lemma moves_sent_done:
  assumes "safe w0 w" "sent_done b w0 w" "moves w w'"
  shows "sent_done b w0 w'"
proof -
  have "sent k w' = sent k w" for k using assms(3) by (intro sent_cong) (simp add: moves_def)
  then show ?thesis
    using assms safe_db_ok [OF assms(1)] reaches_finalized by (auto simp: sent_done_def moves_def)
qed

lemma moves_working:
  assumes w: "working w0 b items S w" and m: "moves w w'" and "mem w' = mem w" "mem_id w' = mem_id w"
  shows "working w0 b items S w'"
proof -
  have s: "safe w0 w" using w by (simp add: working_def)
  have ok: "db_ok (db w)" using s by (rule safe_db_ok)
  have r: "reaches db_step (db w) (db w')" using m by (simp add: moves_def)
  have "items_of (db w') b = items_of (db w) b \<and> b < next_batch_id (db w')"
    using reaches_items [OF r ok] w by (auto simp: working_def)
  then show ?thesis
    using assms moves_safe [OF s m] moves_sent_done [OF s _ m] reaches_finalized [OF r ok]
    by (auto simp: working_def)
qed

lemma working_mem:
  assumes "working w0 b items S w" "mem_ok r" "status r \<in> S'" "status r = Finalized \<longrightarrow> has_status {Finalized} b (db w)"
  shows "working w0 b items S' (w\<lparr>mem := r\<rparr>)"
  using assms by (auto simp: working_def safe_def sent_done_def sent_def)

lemma working_mono: "working w0 b items S w \<Longrightarrow> S \<subseteq> S' \<Longrightarrow> working w0 b items S' w"
  by (auto simp: working_def)

lemma working_UNIV: "working w0 b items S w \<Longrightarrow> working w0 b items UNIV w"
  by (rule working_mono) simp_all

lemma moves_db: "reaches db_step (db w) d \<Longrightarrow> moves w (w\<lparr>db := d\<rparr>)"
  by (simp add: moves_def)

lemma moves_trans: "moves w w' \<Longrightarrow> moves w' w'' \<Longrightarrow> moves w w''"
  by (auto simp: moves_def intro: reaches_trans)

lemma moves_await:
  assumes "safe w0 w"
  shows "moves w (await_step w)" "mem (await_step w) = mem w" "mem_id (await_step w) = mem_id w"
  using assms safe_db_ok [OF assms]
  by (auto simp: moves_def await_step_def Let_def handleAdvisoryLockConnectionClose_def
      clearAdvisoryLockConnection_def failStopState_def safe_def rivals_ok_def)

lemma moves_failStop: "moves w (failStopState m k w)" "mem (failStopState m k w) = mem w"
  "mem_id (failStopState m k w) = mem_id w" "db (failStopState m k w) = db w"
  by (auto simp: moves_def failStopState_def Let_def reaches_refl split: option.splits)

subsection \<open>Rules for the primitives\<close>

interpretation wk: lock_client "working w0 b items S" for w0 b items S
proof unfold_locales
  fix w m k c assume w: "working w0 b items S w"
  then have "safe w0 w" by (simp add: working_def)
  from moves_await [OF this] show "working w0 b items S (await_step w)" by (intro moves_working [OF w])
  show "working w0 b items S (failStopState m k w)"
    by (rule moves_working [OF w]) (rule moves_failStop)+
  show "working w0 b items S (w\<lparr>lockConnection := c\<rparr>)"
    by (rule moves_working [OF w]) (simp_all add: moves_def reaches_refl)
qed

lemma keeps_sleep: "keeps (working w0 b items S) (sleepMs t)"
  unfolding sleepMs_def by (rule wk.keeps_await)

lemma sent_log_other: "meth \<noteq> ''transfer'' \<Longrightarrow> sent k (w\<lparr>wallet_log := wallet_log w @ [(meth, p, i)]\<rparr>) = sent k w"
  by (simp add: sent_def)

lemma keeps_callWallet:
  assumes "meth \<noteq> ''transfer''"
  shows "keeps (working w0 b items S) (callWallet meth params)"
  unfolding callWallet_def
proof (rule keeps_andThen)
  show "keeps (working w0 b items S) (modify (\<lambda>w. await_step (w\<lparr>wallet_log := wallet_log w @ [(meth, params, mem_id w)]\<rparr>)))"
  proof (rule triple_modify)
    fix w assume w: "working w0 b items S w"
    let ?w = "w\<lparr>wallet_log := wallet_log w @ [(meth, params, mem_id w)]\<rparr>"
    have "working w0 b items S ?w"
      using w sent_log_other [OF assms] by (simp add: working_def safe_def sent_done_def)
    with wk.keeps_await show "working w0 b items S (await_step ?w)"
      by (auto simp: triple_def modify_def)
  qed
qed (rule keeps_gets)

lemma triple_query:
  assumes step: "\<And>d x d'. db_ok d \<Longrightarrow> f d = Inr (x, d') \<Longrightarrow> reaches db_step d d'"
  shows "triple (working w0 b items S) (query f)
     (\<lambda>r w. working w0 b items S w \<and> (\<forall>x. r = Inr x \<longrightarrow>
        (\<exists>v. working w0 b items S v \<and> wallet_log v = wallet_log w \<and> f (db v) = Inr (x, db w))))"
proof (rule tripleI)
  fix w0' assume w: "working w0 b items S w0'"
  define w where "w = await_step w0'"
  have w': "working w0 b items S w"
    using wk.keeps_await [THEN tripleD, OF w] by (simp add: w_def modify_def)
  then have ok: "db_ok (db w)" by (auto simp: working_def intro: safe_db_ok)
  have "working w0 b items S (w\<lparr>db := d'\<rparr>)" if "f (db w) = Inr (x, d')" for x d'
    using moves_working [OF w' moves_db [OF step [OF ok that]]] by simp
  then show "working w0 b items S (snd (query f w0')) \<and>
      (\<forall>x. fst (query f w0') = Inr x \<longrightarrow> (\<exists>v. working w0 b items S v \<and>
         wallet_log v = wallet_log (snd (query f w0')) \<and> f (db v) = Inr (x, db (snd (query f w0')))))"
    using w' unfolding query_def w_def [symmetric]
    by (auto simp: Let_def split: sql_outcome.splits sum.splits)
qed

lemma triple_select:
  "triple (working w0 b items S) (select f)
     (\<lambda>r w. working w0 b items S w \<and> (\<forall>x. r = Inr x \<longrightarrow> x = f (db w)))"
  unfolding select_def
  by (rule triple_weaken [OF triple_query]) (auto intro: reaches_refl)

lemma triple_withTransaction:
  assumes work: "\<And>w x d'. working w0 b items S w \<Longrightarrow> work w = Inr (x, d') \<Longrightarrow> reaches db_step (db w) d'"
    and after: "\<And>x w. working w0 b items S w \<Longrightarrow> working w0 b items S (after x w)" "\<And>x w. db (after x w) = db w"
  shows "triple (working w0 b items S) (withTransaction work after)
     (\<lambda>r w. working w0 b items S w \<and>
        (\<forall>x. r = Inr x \<longrightarrow> (\<exists>v. working w0 b items S v \<and> work v = Inr (x, db w))))"
proof (rule tripleI)
  fix w0' assume w: "working w0 b items S w0'"
  define w where "w = await_step w0'"
  have w': "working w0 b items S w"
    using wk.keeps_await [THEN tripleD, OF w] by (simp add: w_def modify_def)
  have d: "working w0 b items S (w\<lparr>db := d'\<rparr>)" if "work w = Inr (x, d')" for x d'
    using moves_working [OF w' moves_db [OF work [OF w' that]]] by simp
  show "working w0 b items S (snd (withTransaction work after w0')) \<and>
      (\<forall>x. fst (withTransaction work after w0') = Inr x \<longrightarrow>
         (\<exists>v. working w0 b items S v \<and> work v = Inr (x, db (snd (withTransaction work after w0')))))"
    using w' d after unfolding withTransaction_def w_def [symmetric]
    by (auto simp: Let_def split: tx_outcome.splits sum.splits)
qed

subsection \<open>Guarded writes\<close>

lemma triple_case_option:
  "(v = None \<Longrightarrow> triple P m Q) \<Longrightarrow> (\<And>x. v = Some x \<Longrightarrow> triple P (f x) Q) \<Longrightarrow>
     triple P (case v of None \<Rightarrow> m | Some x \<Rightarrow> f x) Q"
  by (cases v) auto

text \<open>Taking the object over from the row just read.\<close>

lemma triple_adopt:
  "triple (\<lambda>w. working w0 b items S w \<and> row = map_of (batches (db w)) b)
     (case row of None \<Rightarrow> ret () | Some r \<Rightarrow> modify (\<lambda>w. w\<lparr>mem := r\<rparr>)) (\<lambda>_. working w0 b items UNIV)"
proof (rule triple_case_option)
  show "triple (\<lambda>w. working w0 b items S w \<and> row = map_of (batches (db w)) b) (ret ()) (\<lambda>_. working w0 b items UNIV)"
    by (rule triple_ret) (auto intro: working_UNIV)
  fix r assume r: "row = Some r"
  show "triple (\<lambda>w. working w0 b items S w \<and> row = map_of (batches (db w)) b) (modify (\<lambda>w. w\<lparr>mem := r\<rparr>))
      (\<lambda>_. working w0 b items UNIV)"
  proof (rule triple_modify, elim conjE)
    fix w assume w: "working w0 b items S w" and row: "row = map_of (batches (db w)) b"
    have "db_ok (db w)" using w by (auto simp: working_def intro: safe_db_ok)
    with row r have "mem_ok r" using db_ok_batch_row [of "db w" b r] by (simp add: row_ok_def)
    moreover have "status r = Finalized \<longrightarrow> has_status {Finalized} b (db w)"
      using row [symmetric] r by (simp add: has_status_def)
    ultimately show "working w0 b items UNIV (w\<lparr>mem := r\<rparr>)" by (intro working_mem [OF w]) simp_all
  qed
qed

lemma triple_refresh:
  "triple (working w0 b items S) (andThen (select (\<lambda>d. map_of (batches d) b)) (\<lambda>row.
      case row of None \<Rightarrow> ret () | Some r \<Rightarrow> modify (\<lambda>w. w\<lparr>mem := r\<rparr>))) (\<lambda>_. working w0 b items UNIV)"
proof (rule triple_andThen [OF triple_select])
  fix row
  show "triple (\<lambda>w. working w0 b items S w \<and> (\<forall>x. Inr row = Inr x \<longrightarrow> x = map_of (batches (db w)) b))
      (case row of None \<Rightarrow> ret () | Some r \<Rightarrow> modify (\<lambda>w. w\<lparr>mem := r\<rparr>)) (\<lambda>_. working w0 b items UNIV)"
    by (rule triple_weaken [OF triple_adopt]) auto
qed (auto intro: working_UNIV)

definition written :: "pay_world \<Rightarrow> nat \<Rightarrow> item_row list \<Rightarrow> batch_status set \<Rightarrow> string + bool \<Rightarrow> pay_world \<Rightarrow> bool" where
  "written w0 b items S r = working w0 b items (if r = Inr True then S else UNIV)"

lemma triple_updateIfCurrent:
  assumes rowf: "\<And>d n d'. db_ok d \<Longrightarrow> cas_batch b rowf expected nulls d = Inr (n, d') \<Longrightarrow> db_step 0 d d'"
    and memf: "\<And>r. mem_ok r \<Longrightarrow> status r \<in> S \<Longrightarrow> mem_ok (memf r) \<and> status (memf r) \<in> S' - {Finalized}"
  shows "triple (working w0 b items S) (updateBatchStatusIfCurrent rowf memf expected nulls) (written w0 b items S')"
  unfolding updateBatchStatusIfCurrent_def
proof (rule triple_gets_andThen)
  fix k
  have q: "triple (working w0 b items S) (query (cas_batch b rowf expected nulls)) (\<lambda>_. working w0 b items S)"
    by (rule triple_weaken [OF triple_query]) (blast intro: rowf reaches_one)+
  have hit: "triple (working w0 b items S) (refreshBatchObject memf True) (\<lambda>_. working w0 b items S')"
    unfolding refreshBatchObject_def if_True
  proof (rule triple_modify)
    fix w assume w: "working w0 b items S w"
    then have "mem_ok (mem w)" "status (mem w) \<in> S" by (simp_all add: working_def)
    with memf show "working w0 b items S' (w\<lparr>mem := memf (mem w)\<rparr>)" by (intro working_mem [OF w]) auto
  qed
  have miss: "triple (working w0 b items S) (refreshBatchObject memf False) (\<lambda>_. working w0 b items UNIV)"
    unfolding refreshBatchObject_def if_False
  proof (rule triple_gets_andThen)
    fix k
    show "triple (\<lambda>w. working w0 b items S w \<and> mem_id w = k) (andThen (select (\<lambda>d. map_of (batches d) k)) (\<lambda>row.
        case row of None \<Rightarrow> ret () | Some r \<Rightarrow> modify (\<lambda>w. w\<lparr>mem := r\<rparr>))) (\<lambda>_. working w0 b items UNIV)"
      by (cases "k = b", simp, rule triple_weaken [OF triple_refresh], auto simp: triple_def working_def)
  qed
  have "triple (working w0 b items S) (andThen (query (cas_batch b rowf expected nulls)) (\<lambda>affectedRows.
      andThen (refreshBatchObject memf (affectedRows = 1)) (\<lambda>_. ret (affectedRows = 1)))) (written w0 b items S')"
  proof (rule triple_andThen [OF q])
    fix n :: nat
    show "triple (working w0 b items S) (andThen (refreshBatchObject memf (n = 1)) (\<lambda>_. ret (n = 1))) (written w0 b items S')"
    proof (cases "n = 1")
      case True
      then show ?thesis
        by (auto simp: written_def intro!: triple_andThen [OF hit] triple_ret intro: working_UNIV)
    next
      case False
      then show ?thesis by (auto simp: written_def intro!: triple_andThen [OF miss] triple_ret)
    qed
  qed (auto simp: written_def intro: working_UNIV)
  then show "triple (\<lambda>w. working w0 b items S w \<and> mem_id w = k) (andThen (query (cas_batch k rowf expected nulls)) (\<lambda>affectedRows.
      andThen (refreshBatchObject memf (affectedRows = 1)) (\<lambda>_. ret (affectedRows = 1)))) (written w0 b items S')"
    by (cases "k = b") (auto simp: triple_def working_def)
qed

lemma triple_updateGuarded:
  assumes rowf: "\<And>t s d n d'. s \<in> S \<Longrightarrow> db_ok d \<Longrightarrow> cas_batch b (F t) [s] guard_nulls d = Inr (n, d') \<Longrightarrow> db_step 0 d d'"
    and memf: "\<And>t r. mem_ok r \<Longrightarrow> status r \<in> S \<Longrightarrow> mem_ok (F t r) \<and> status (F t r) \<in> S' - {Finalized}"
  shows "triple (working w0 b items S) (updateGuardedBatch F) (written w0 b items S')"
  unfolding updateGuardedBatch_def
proof (rule triple_gets_andThen)
  fix x :: "(batch_row \<Rightarrow> batch_row) \<times> (batch_row \<Rightarrow> batch_row) \<times> batch_status"
  obtain rowf memf s where x: "x = (rowf, memf, s)" by (cases x) auto
  show "triple (\<lambda>w. working w0 b items S w \<and> (F (dbTime w (currentTime w)), F (currentTime w), status (mem w)) = x)
      (case x of (rowf, memf, s) \<Rightarrow> updateBatchStatusIfCurrent rowf memf [s] guard_nulls) (written w0 b items S')"
  proof (rule tripleI)
    fix w assume w: "working w0 b items S w \<and> (F (dbTime w (currentTime w)), F (currentTime w), status (mem w)) = x"
    then have s: "s \<in> S" and f: "rowf = F (dbTime w (currentTime w))" "memf = F (currentTime w)"
      by (auto simp: x working_def)
    have "triple (working w0 b items S) (updateBatchStatusIfCurrent rowf memf [s] guard_nulls) (written w0 b items S')"
      unfolding f by (rule triple_updateIfCurrent) (use assms s in auto)
    with w show "written w0 b items S' (fst ((case x of (rowf, memf, s) \<Rightarrow> updateBatchStatusIfCurrent rowf memf [s] guard_nulls) w))
        (snd ((case x of (rowf, memf, s) \<Rightarrow> updateBatchStatusIfCurrent rowf memf [s] guard_nulls) w))"
      by (auto simp: x dest: tripleD)
  qed
qed

subsubsection \<open>The writes of the processor\<close>

text \<open>The statuses in which the processor works on a batch.\<close>

abbreviation presubmit :: "batch_status set" where
  "presubmit \<equiv> {Reserved, Retrying}"

abbreviation postsubmit :: "batch_status set" where
  "postsubmit \<equiv> {Submitting, Submitted}"

lemma triple_touch:
  assumes "\<And>t r. core (F t r) = core r" "Finalized \<notin> S"
  shows "triple (working w0 b items S) (updateGuardedBatch F) (written w0 b items S)"
proof (rule triple_updateGuarded)
  fix t s d n d' assume "cas_batch b (F t) [s] guard_nulls d = Inr (n, d')"
  then show "db_step 0 d d'" using assms(1) by (rule db_step.touch)
next
  fix t r assume "mem_ok r" "status r \<in> S"
  then show "mem_ok (F t r) \<and> status (F t r) \<in> S - {Finalized}"
    using mem_ok_core [OF assms(1)] status_core [OF assms(1)] assms(2) by auto
qed

lemma core_fields: "core (hold_fields m t r) = core r" "core (reconcile_fields n k m t r) = core r"
  "core (note_fields m t r) = core r"
  by (simp_all add: core_def hold_fields_def reconcile_fields_def note_fields_def)

lemma triple_retry:
  "triple (working w0 b items presubmit) (updateGuardedBatch (\<lambda>t. retry_fields t m)) (written w0 b items {Retrying})"
proof (rule triple_updateGuarded)
  fix t s d n d' assume "s \<in> presubmit" "cas_batch b (retry_fields t m) [s] guard_nulls d = Inr (n, d')"
  then show "db_step 0 d d'" by (blast intro: db_step.retry)
next
  fix t r assume "mem_ok r" "status r \<in> presubmit"
  then show "mem_ok (retry_fields t m r) \<and> status (retry_fields t m r) \<in> {Retrying} - {Finalized}"
    by (simp add: mem_ok_def retry_fields_def unsubmitted_def)
qed

lemma triple_review:
  assumes "S \<subseteq> postsubmit"
  shows "triple (working w0 b items S) (updateGuardedBatch (\<lambda>t. review_fields t m details)) (written w0 b items {Manual_review})"
proof (rule triple_updateGuarded)
  fix t s d n d' assume "s \<in> S" "cas_batch b (review_fields t m details) [s] guard_nulls d = Inr (n, d')"
  then show "db_step 0 d d'" using assms by (blast intro: db_step.review)
next
  fix t r assume r: "mem_ok r" "status r \<in> S"
  have "\<not> unsubmitted (status r)" using r(2) assms by (auto simp: unsubmitted_def)
  with r(1) show "mem_ok (review_fields t m details r) \<and> status (review_fields t m details r) \<in> {Manual_review} - {Finalized}"
    by (simp add: mem_ok_def review_fields_def unsubmitted_def)
qed

lemma triple_persist:
  assumes "h \<noteq> []"
  shows "triple (working w0 b items {Submitting}) (persistSubmittedBatch h k fee m) (written w0 b items {Submitted})"
  unfolding persistSubmittedBatch_def
proof (rule triple_updateGuarded)
  fix t s d n d' assume "s \<in> {Submitting}" "cas_batch b (submitted_fields t h k fee m) [s] guard_nulls d = Inr (n, d')"
  then show "db_step 0 d d'" using assms by (blast intro: db_step.submitted)
next
  fix t r assume r: "mem_ok r" "status r \<in> {Submitting}"
  have "\<not> unsubmitted (status r)" using r(2) by (auto simp: unsubmitted_def)
  with r(1) assms show "mem_ok (submitted_fields t h k fee m r) \<and> status (submitted_fields t h k fee m r) \<in> {Submitted} - {Finalized}"
    by (simp add: mem_ok_def submitted_fields_def unsubmitted_def text_truthy_def)
qed

subsubsection \<open>Programs that write once and stop\<close>

abbreviation cleared_ending :: "pay_world \<Rightarrow> nat \<Rightarrow> item_row list \<Rightarrow> string + outcome \<Rightarrow> pay_world \<Rightarrow> bool" where
  "cleared_ending w0 b items \<equiv> ending w0 b items (\<lambda>r. r = Cleared)"

lemma ending_Inl: "working w0 b items S w \<Longrightarrow> ending w0 b items good (Inl e) w"
  by (auto simp: ending_def intro: working_UNIV)

lemma ending_bad: "working w0 b items S w \<Longrightarrow> \<not> good x \<Longrightarrow> ending w0 b items good (Inr x) w"
  by (auto simp: ending_def intro: working_UNIV)

lemma triple_ret_bad: "\<not> good x \<Longrightarrow> triple (working w0 b items S) (ret x) (ending w0 b items good)"
  by (rule triple_ret) (rule ending_bad)

lemma triple_throw_bad: "triple (working w0 b items S) (throw e) (ending w0 b items good)"
  by (rule triple_throw) (rule ending_Inl)

lemma triple_outcome:
  "triple (working w0 b items S) (gets (guardedTransitionOutcome \<circ> mem)) (cleared_ending w0 b items)"
  by (auto simp: triple_def gets_def ending_def guardedTransitionOutcome_def working_def)

lemma triple_written:
  assumes "triple (working w0 b items S) m (written w0 b items S')"
    and "triple (working w0 b items S') (f True) (ending w0 b items good)"
    and "triple (working w0 b items UNIV) (f False) (ending w0 b items good)"
  shows "triple (working w0 b items S) (andThen m f) (ending w0 b items good)"
proof (rule triple_andThen [OF assms(1)])
  fix x show "triple (written w0 b items S' (Inr x)) (f x) (ending w0 b items good)"
    using assms(2,3) by (cases x) (simp_all add: written_def)
qed (auto simp: written_def intro: ending_Inl)

lemma triple_hold:
  assumes "Finalized \<notin> S"
  shows "triple (working w0 b items S) (holdBatch m) (cleared_ending w0 b items)"
  unfolding holdBatch_def
  by (rule triple_written [OF triple_touch]) (use assms in \<open>simp_all add: core_fields triple_outcome triple_ret_bad\<close>)

lemma triple_holdAfterReconcile:
  assumes "Finalized \<notin> S"
  shows "triple (working w0 b items S) (holdAfterReconcile m healthy) (cleared_ending w0 b items)"
proof -
  have "triple (working w0 b items S) (recordBatchReconcileState m healthy) (written w0 b items S)"
    unfolding recordBatchReconcileState_def Let_def
    by (rule triple_gets_andThen) (rule triple_weaken [OF triple_touch], use assms in \<open>auto simp: core_fields\<close>)
  then show ?thesis
    unfolding holdAfterReconcile_def by (rule triple_written) (simp_all add: triple_outcome triple_ret_bad)
qed

lemma triple_holdForRetry:
  "triple (working w0 b items presubmit) (holdBatchForRetry m) (cleared_ending w0 b items)"
  unfolding holdBatchForRetry_def
proof (rule triple_gets_andThen, rule triple_weaken [where P = "working w0 b items presubmit"], rule triple_if)
  show "triple (working w0 b items presubmit) (holdBatch m) (cleared_ending w0 b items)" by (rule triple_hold) simp
  show "triple (working w0 b items presubmit) (andThen (updateGuardedBatch (\<lambda>t. retry_fields t m)) (\<lambda>updated.
          if \<not> updated then gets (guardedTransitionOutcome \<circ> mem) else ret Unresolved)) (cleared_ending w0 b items)"
    by (rule triple_written [OF triple_retry]) (simp_all add: triple_outcome triple_ret_bad)
qed auto

lemma triple_stop_review:
  "triple (working w0 b items S) (andThen (enterFailStop m k) (\<lambda>_. ret Review)) (cleared_ending w0 b items)"
  by (rule triple_seq [OF wk.keeps_enterFailStop]) (auto intro: triple_ret_bad ending_Inl)

lemma triple_manualReview:
  assumes "S \<subseteq> postsubmit"
  shows "triple (working w0 b items S) (markBatchManualReview m details) (cleared_ending w0 b items)"
  unfolding markBatchManualReview_def
proof (rule triple_written [OF triple_review [OF assms]])
  let ?m = "\<lambda>updated. andThen (gets (\<lambda>w. (mem_id w, mem w))) (\<lambda>(b, batch).
       if \<not> updated
       then (if status batch = Manual_review
             then andThen (enterFailStop m (Some b)) (\<lambda>_. ret Review)
             else ret (guardedTransitionOutcome batch))
       else andThen (enterFailStop m (Some b)) (\<lambda>_. ret Review))"
  have out: "triple (\<lambda>w. working w0 b items UNIV w \<and> (mem_id w, mem w) = (k, batch)) (ret (guardedTransitionOutcome batch))
      (cleared_ending w0 b items)" for k batch
    by (auto simp: triple_def ret_def ending_def guardedTransitionOutcome_def working_def)
  show "triple (working w0 b items {Manual_review}) (?m True) (cleared_ending w0 b items)"
    by (rule triple_gets_andThen) (auto intro: triple_weaken [OF triple_stop_review])
  show "triple (working w0 b items UNIV) (?m False) (cleared_ending w0 b items)"
    by (rule triple_gets_andThen) (auto intro!: triple_weaken [OF triple_stop_review] triple_weaken [OF out])
qed

subsection \<open>Wallet lookups\<close>

lemma keeps_case_load:
  "(\<And>m. keeps I (f m)) \<Longrightarrow> keeps I g \<Longrightarrow> (\<And>m. keeps I (h m)) \<Longrightarrow> (\<And>ts. keeps I (k ts)) \<Longrightarrow>
     keeps I (case v of Load_unavailable m \<Rightarrow> f m | Load_not_found \<Rightarrow> g | Load_lookup_unavailable m \<Rightarrow> h m | Load_ok ts \<Rightarrow> k ts)"
  by (cases v) auto

lemma keeps_resolveTxKey: "keeps (working w0 b items S) (resolveTxKey h)"
  unfolding resolveTxKey_def Let_def by (intro triple_intros keeps_callWallet) simp

lemma keeps_getTransfers: "keeps (working w0 b items S) (getTransfers params)"
  unfolding getTransfers_def by (intro triple_intros keeps_callWallet) simp

lemma keeps_loadWalletTransfers: "keeps (working w0 b items S) (loadWalletTransfers f)"
  unfolding loadWalletTransfers_def Let_def
  by (auto intro!: triple_intros keeps_callWallet keeps_getTransfers split: bool.split option.split)

lemma keeps_loadByTxHash: "keeps (working w0 b items S) (loadWalletTransferByTxHash h)"
  unfolding loadWalletTransferByTxHash_def Let_def by (intro triple_intros keeps_callWallet) simp

lemma keeps_loadSubmitted: "keeps (working w0 b items S) (loadSubmittedTransfersByTxHash h)"
  unfolding loadSubmittedTransfersByTxHash_def Let_def
  by (intro triple_intros keeps_loadByTxHash keeps_case_load keeps_loadWalletTransfers)

lemma keeps_visibility: "keeps (working w0 b items S) (findSubmittedTransferVisibility its)"
  unfolding findSubmittedTransferVisibility_def
  by (intro triple_intros keeps_loadSubmitted keeps_case_load; simp)

lemma keeps_retrySearch:
  assumes "keeps (working w0 b items S) search"
  shows "keeps (working w0 b items S) (retrySearch ds search again r)"
proof (induction ds arbitrary: r)
  case Nil
  then show ?case by (simp add: keeps_ret)
next
  case (Cons d ds)
  then show ?case by (auto intro!: triple_intros keeps_sleep assms)
qed

lemma keeps_retryPostSubmitSearch:
  assumes "keeps (working w0 b items S) search"
  shows "keeps (working w0 b items S) (retryPostSubmitSearch search again)"
  unfolding retryPostSubmitSearch_def SUBMIT_SEARCH_DELAYS_MS_def
  by (auto intro!: triple_intros keeps_sleep assms keeps_retrySearch)

text \<open>A match always names a transaction hash that is not empty.\<close>

fun match_hash :: "wallet_match \<Rightarrow> string option" where
  "match_hash (Matched_waiting_tx_key m fee h) = Some h"
| "match_hash (Matched_missing_tx_key fee h) = Some h"
| "match_hash (Matched fee h k) = Some h"
| "match_hash _ = None"

abbreviation hash_found :: "pay_world \<Rightarrow> nat \<Rightarrow> item_row list \<Rightarrow> batch_status set \<Rightarrow> string + wallet_match \<Rightarrow> pay_world \<Rightarrow> bool" where
  "hash_found w0 b items S r w \<equiv> working w0 b items S w \<and> (\<forall>x. r = Inr x \<longrightarrow> match_hash x \<noteq> Some [])"

lemma normalizeHash_nonempty: "normalizeHash v \<noteq> Some []"
  using normalizeHash_canonical [of v "[]"] by auto

lemma triple_ret_hash: "match_hash x \<noteq> Some [] \<Longrightarrow> triple (working w0 b items S) (ret x) (hash_found w0 b items S)"
  by (simp add: triple_def ret_def)

lemma triple_throw_hash: "triple (working w0 b items S) (throw e) (hash_found w0 b items S)"
  by (simp add: triple_def throw_def)

lemma triple_resolve_hash:
  assumes "h \<noteq> []"
  shows "triple (working w0 b items S) (andThen (resolveTxKey h) (\<lambda>k.
       case k of
         Key_retry message \<Rightarrow> ret (Matched_waiting_tx_key message fee h)
       | Key_missing _ \<Rightarrow> ret (Matched_missing_tx_key fee h)
       | Key_ok txKey \<Rightarrow> ret (Matched fee h txKey))) (hash_found w0 b items S)"
proof (rule triple_seq [OF keeps_resolveTxKey])
  fix k
  show "triple (working w0 b items S) (case k of
         Key_retry message \<Rightarrow> ret (Matched_waiting_tx_key message fee h)
       | Key_missing _ \<Rightarrow> ret (Matched_missing_tx_key fee h)
       | Key_ok txKey \<Rightarrow> ret (Matched fee h txKey)) (hash_found w0 b items S)"
    using assms by (cases k) (simp_all add: triple_ret_hash)
qed simp

lemma triple_findMatch: "triple (working w0 b items S) (findWalletTransferMatch its) (hash_found w0 b items S)"
  unfolding findWalletTransferMatch_def
proof (rule triple_seq [OF keeps_loadWalletTransfers], rule triple_seq [OF keeps_gets])
  fix l batch
  let ?one = "\<lambda>m. case (normalizeHash (getf m ''txid''), normalizeInteger (getf m ''fee'')) of
       (Some txHash, Some totalFee) \<Rightarrow>
         if \<not> hasPlausibleWalletFee totalFee then ret Incomplete_match
         else andThen (resolveTxKey txHash) (\<lambda>k.
           case k of
             Key_retry message \<Rightarrow> ret (Matched_waiting_tx_key message totalFee txHash)
           | Key_missing _ \<Rightarrow> ret (Matched_missing_tx_key totalFee txHash)
           | Key_ok txKey \<Rightarrow> ret (Matched totalFee txHash txKey))
     | _ \<Rightarrow> ret Incomplete_match"
  have one: "triple (working w0 b items S) (?one m) (hash_found w0 b items S)" for m
    using normalizeHash_nonempty [of "getf m ''txid''"]
    by (auto simp: triple_ret_hash intro!: triple_resolve_hash split: option.split)
  show "triple (working w0 b items S)
      (case l of
         Load_unavailable message \<Rightarrow> ret (Match_unavailable message)
       | Load_not_found \<Rightarrow> ret (Match_unavailable ''wallet transfer lookup returned no data'')
       | Load_lookup_unavailable message \<Rightarrow> ret (Match_unavailable message)
       | Load_ok transfers \<Rightarrow>
           if list_ex (matchingThrows batch its) transfers then throw ''TypeError''
           else (case filter (transferMatchesBatch batch its) transfers of
              [] \<Rightarrow> ret No_match | [m] \<Rightarrow> ?one m | m # m' # list \<Rightarrow> ret Multiple_matches)) (hash_found w0 b items S)"
    using one by (auto simp: triple_ret_hash triple_throw_hash split: wallet_load.split list.split)
qed auto

lemma triple_retrySearch_hash:
  assumes "triple (working w0 b items S) search (hash_found w0 b items S)" "match_hash r \<noteq> Some []"
  shows "triple (working w0 b items S) (retrySearch ds search again r) (hash_found w0 b items S)"
  using assms(2)
proof (induction ds arbitrary: r)
  case Nil
  then show ?case by (simp add: triple_ret_hash)
next
  case (Cons d ds)
  have "triple (hash_found w0 b items S (Inr x))
      (if \<not> again x then ret x else retrySearch ds search again x) (hash_found w0 b items S)" for x
  proof (cases "match_hash x = Some []")
    case True
    then show ?thesis by (simp add: triple_def)
  next
    case False
    then show ?thesis using Cons.IH [OF False] by (simp add: triple_ret_hash)
  qed
  then show ?case
    by (auto intro!: triple_seq [OF keeps_sleep] triple_andThen [OF assms(1)])
qed

lemma triple_findMatchAfter:
  "triple (working w0 b items S) (findWalletTransferMatchAfterSubmit its) (hash_found w0 b items S)"
proof -
  have "triple (hash_found w0 b items S (Inr x))
      (if \<not> again x then ret x else retrySearch ds (findWalletTransferMatch its) again x) (hash_found w0 b items S)" for x again ds
  proof (cases "match_hash x = Some []")
    case True
    then show ?thesis by (simp add: triple_def)
  next
    case False
    then show ?thesis using triple_retrySearch_hash [OF triple_findMatch False] by (simp add: triple_ret_hash)
  qed
  then show ?thesis
    unfolding findWalletTransferMatchAfterSubmit_def retryPostSubmitSearch_def SUBMIT_SEARCH_DELAYS_MS_def
    by (simp, intro triple_seq [OF keeps_sleep] triple_andThen [OF triple_findMatch]) simp_all
qed

subsection \<open>Finalizing\<close>

lemma finalize_has_status:
  assumes "db_ok d" "finalizeTransaction cfg t b batch items k d = Inr (tid, d')"
  shows "has_status {Finalized} b d'"
proof -
  from assms(2) obtain d2 where c: "cas_batch b (finalize_fields t tid batch k) [status batch] guard_nulls d = Inr (1, d2)"
      and "batches d' = batches d2"
    by (rule finalizeTransaction_Inr) auto
  then show ?thesis using cas_hit [OF assms(1) c] map_of_cas [OF c, of b]
    by (auto simp: has_status_def finalize_fields_def)
qed

lemma mem_ok_transaction: "mem_ok (r\<lparr>transaction_id := x\<rparr>) = mem_ok r"
  by (simp add: mem_ok_def)

lemma triple_commitFinalize:
  "triple (working w0 b items {Submitted}) (commitFinalize t items k)
     (\<lambda>r w. working w0 b items {Submitted} w \<and> (\<forall>x. r = Inr x \<longrightarrow> has_status {Finalized} b (db w)))"
  unfolding commitFinalize_def
proof (rule triple_weaken [OF triple_withTransaction])
  fix w x d'
  assume w: "working w0 b items {Submitted} w"
    and fin: "finalizeTransaction (config (env w)) (dbTime w t) (mem_id w) (mem w) items k (db w) = Inr (x, d')"
  have "status (mem w) = Submitted" "text_truthy (tx_hash (mem w))" "same_payouts items (items_of (db w) (mem_id w))"
    using w by (auto simp: working_def mem_ok_def)
  with fin show "reaches db_step (db w) d'" by (blast intro: reaches_one db_step.finalize)
next
  fix x :: nat and w assume w: "working w0 b items {Submitted} w"
  then have "mem_ok (mem w)" "status (mem w) = Submitted" by (simp_all add: working_def)
  then show "working w0 b items {Submitted} (w\<lparr>mem := (mem w)\<lparr>transaction_id := Some x\<rparr>\<rparr>)"
    by (intro working_mem [OF w]) (simp_all add: mem_ok_transaction)
next
  fix r :: "string + nat" and w
  assume a: "working w0 b items {Submitted} w \<and> (\<forall>x. r = Inr x \<longrightarrow> (\<exists>v. working w0 b items {Submitted} v \<and>
      finalizeTransaction (config (env v)) (dbTime v t) (mem_id v) (mem v) items k (db v) = Inr (x, db w)))"
  have "has_status {Finalized} b (db w)" if "r = Inr x" for x
  proof -
    from a that obtain v where v: "working w0 b items {Submitted} v"
      "finalizeTransaction (config (env v)) (dbTime v t) (mem_id v) (mem v) items k (db v) = Inr (x, db w)" by blast
    then have "db_ok (db v)" "mem_id v = b" by (auto simp: working_def intro: safe_db_ok)
    with v(2) show ?thesis using finalize_has_status by blast
  qed
  with a show "working w0 b items {Submitted} w \<and> (\<forall>x. r = Inr x \<longrightarrow> has_status {Finalized} b (db w))" by blast
qed auto

abbreviation done_ending :: "pay_world \<Rightarrow> nat \<Rightarrow> item_row list \<Rightarrow> string + bool \<Rightarrow> pay_world \<Rightarrow> bool" where
  "done_ending w0 b items \<equiv> ending w0 b items (\<lambda>r. r)"

lemma triple_seq_bad:
  assumes "triple (working w0 b items S) m (ending w0 b items g)" "\<not> good x"
  shows "triple (working w0 b items S) (andThen m (\<lambda>_. ret x)) (ending w0 b items good)"
  by (rule triple_andThen [OF assms(1)]) (use assms(2) in \<open>auto simp: ending_def triple_def ret_def\<close>)

lemma triple_writeLedger: "triple (working w0 b items {Submitted}) (writeLedger items k) (done_ending w0 b items)"
  unfolding writeLedger_def
proof (rule triple_try_catch)
  let ?R = "\<lambda>r w. working w0 b items (case r of Inl _ \<Rightarrow> {Submitted} | Inr _ \<Rightarrow> UNIV) w \<and>
      (\<forall>x. r = Inr x \<longrightarrow> x \<longrightarrow> has_status {Finalized} b (db w))"
  show "triple (working w0 b items {Submitted}) (andThen (gets currentTime) (\<lambda>finalizedAt.
        andThen (commitFinalize finalizedAt items k) (\<lambda>_.
        andThen (modify (\<lambda>w. w\<lparr>mem := (mem w)\<lparr>status := Finalized, finalized_at := Some finalizedAt,
                                             tx_key := Some k\<rparr>\<rparr>)) (\<lambda>_.
        ret True)))) ?R"
  proof (rule triple_seq [OF keeps_gets], rule triple_andThen [OF triple_commitFinalize])
    fix t x
    have fin: "mem_ok (r\<lparr>status := Finalized, finalized_at := Some t, tx_key := Some k\<rparr>)"
      if "mem_ok r" "status r = Submitted" for r
      using that by (simp add: mem_ok_def unsubmitted_def)
    show "triple (\<lambda>w. working w0 b items {Submitted} w \<and> (\<forall>y. Inr x = Inr y \<longrightarrow> has_status {Finalized} b (db w)))
        (andThen (modify (\<lambda>w. w\<lparr>mem := (mem w)\<lparr>status := Finalized, finalized_at := Some t, tx_key := Some k\<rparr>\<rparr>)) (\<lambda>_. ret True)) ?R"
    proof (rule tripleI, simp add: prog_defs, elim conjE)
      fix w assume w: "working w0 b items {Submitted} w" "has_status {Finalized} b (db w)"
      then have "mem_ok (mem w)" "status (mem w) = Submitted" by (simp_all add: working_def)
      then show "working w0 b items UNIV (w\<lparr>mem := (mem w)\<lparr>status := Finalized, finalized_at := Some t, tx_key := Some k\<rparr>\<rparr>)"
        using w(2) by (intro working_mem [OF w(1)] fin) simp_all
    qed
  qed auto
  fix e
  have "triple (working w0 b items {Submitted}) (andThen (updateGuardedBatch (hold_fields (''finalize failed: '' @ e))) (\<lambda>_. ret False))
      (done_ending w0 b items)"
    by (rule triple_written [OF triple_touch]) (simp_all add: core_fields triple_ret_bad)
  then show "triple (?R (Inl e)) (andThen (updateGuardedBatch (hold_fields (''finalize failed: '' @ e))) (\<lambda>_. ret False))
      (done_ending w0 b items)"
    by (rule triple_weaken) auto
qed (simp add: ending_def)

lemma triple_finalizeBatch: "triple (working w0 b items {Submitted}) (finalizeBatch items reason) (done_ending w0 b items)"
  unfolding finalizeBatch_def
proof (rule triple_gets_andThen, rule triple_weaken [where P = "working w0 b items {Submitted}"])
  fix x :: "nat \<times> batch_row"
  obtain k batch where x: "x = (k, batch)" by force
  have set_key: "keeps (working w0 b items {Submitted}) (modify (\<lambda>w. w\<lparr>mem := (mem w)\<lparr>tx_key := Some key\<rparr>\<rparr>))" for key
  proof (rule triple_modify)
    fix w assume w: "working w0 b items {Submitted} w"
    then have "mem_ok (mem w)" "status (mem w) = Submitted" by (simp_all add: working_def)
    then show "working w0 b items {Submitted} (w\<lparr>mem := (mem w)\<lparr>tx_key := Some key\<rparr>\<rparr>)"
      by (intro working_mem [OF w]) (simp_all add: mem_ok_def unsubmitted_def)
  qed
  have review: "triple (working w0 b items {Submitted}) (andThen (markBatchManualReview m details) (\<lambda>_. ret False)) (done_ending w0 b items)" for m details
    by (rule triple_seq_bad [OF triple_manualReview]) simp_all
  have hold: "triple (working w0 b items {Submitted}) (andThen (holdBatch m) (\<lambda>_. ret False)) (done_ending w0 b items)" for m
    by (rule triple_seq_bad [OF triple_hold]) simp_all
  show "triple (working w0 b items {Submitted})
      (case x of (k, batch) \<Rightarrow>
         if \<not> text_truthy (tx_hash batch)
         then andThen (markBatchManualReview (''wallet send for batch '' @ idText k @ '' has no transaction hash'') no_details) (\<lambda>_. ret False)
         else case or_null (tx_key batch) of
           None \<Rightarrow>
             andThen (resolveTxKey (the (tx_hash batch))) (\<lambda>key.
               case key of
                 Key_retry message \<Rightarrow> andThen (holdBatch (''waiting for tx_key: '' @ message)) (\<lambda>_. ret False)
               | Key_missing _ \<Rightarrow>
                   andThen (gets mem) (\<lambda>batch'.
                   andThen (markBatchManualReview
                              (''wallet send proven for batch '' @ idText k @ '' but tx_key is unavailable'')
                              \<lparr>md_txHash = tx_hash batch, md_txKey = None, md_totalFee = Some (total_fee batch')\<rparr>)
                     (\<lambda>_. ret False))
               | Key_ok txKey \<Rightarrow>
                   andThen (modify (\<lambda>w. w\<lparr>mem := (mem w)\<lparr>tx_key := Some txKey\<rparr>\<rparr>)) (\<lambda>_. writeLedger items txKey))
         | Some txKey \<Rightarrow> writeLedger items txKey) (done_ending w0 b items)"
    unfolding x prod.case
    by (intro triple_if triple_case_option review triple_writeLedger triple_seq [OF keeps_resolveTxKey] ending_Inl)
      (auto intro!: triple_seq [OF set_key] triple_seq [OF keeps_gets] review hold triple_writeLedger
         intro: ending_Inl split: tx_key_result.split)
qed auto

subsection \<open>Reconciling\<close>

lemma triple_hash_cases:
  assumes "triple (working w0 b items S) m (hash_found w0 b items S)"
    and "\<And>x. match_hash x \<noteq> Some [] \<Longrightarrow> triple (working w0 b items S) (f x) (ending w0 b items good)"
  shows "triple (working w0 b items S) (andThen m f) (ending w0 b items good)"
proof (rule triple_andThen [OF assms(1)])
  fix x show "triple (hash_found w0 b items S (Inr x)) (f x) (ending w0 b items good)"
  proof (cases "match_hash x = Some []")
    case True
    then show ?thesis by (simp add: triple_def)
  next
    case False
    from assms(2) [OF this] show ?thesis by (rule triple_weaken) auto
  qed
qed (auto intro: ending_Inl)

lemma triple_done_outcome:
  assumes "triple (working w0 b items S) m (done_ending w0 b items)"
  shows "triple (working w0 b items S) (andThen m (\<lambda>d. ret (if d then Cleared else Unresolved))) (cleared_ending w0 b items)"
  by (rule triple_andThen [OF assms]) (auto simp: ending_def triple_def ret_def)

lemma triple_finalizeMatched:
  assumes "h \<noteq> []"
  shows "triple (working w0 b items {Submitting}) (finalizeMatchedTransfer items reason fee h k m) (cleared_ending w0 b items)"
  unfolding finalizeMatchedTransfer_def
  by (rule triple_written [OF triple_persist [OF assms]])
    (simp_all add: triple_outcome triple_done_outcome [OF triple_finalizeBatch])

lemma triple_reconcileMatch:
  assumes "match_hash m \<noteq> Some []"
  shows "triple (working w0 b items {Submitting}) (reconcileMatch items k m) (cleared_ending w0 b items)"
proof -
  have "triple (working w0 b items {Submitting}) (andThen (persistSubmittedBatch h None fee e) (\<lambda>updated.
      if \<not> updated then gets (guardedTransitionOutcome \<circ> mem) else holdBatch m')) (cleared_ending w0 b items)"
    if "h \<noteq> []" for h fee e m'
    by (rule triple_written [OF triple_persist [OF that]]) (simp_all add: triple_outcome triple_hold)
  with assms show ?thesis
    unfolding reconcileMatch_def
    by (cases m) (simp_all add: triple_holdAfterReconcile triple_manualReview triple_finalizeMatched)
qed

lemma triple_historyChecked:
  "triple (working w0 b items {Submitting}) (reconcileHistoryCheckedSubmitError its e) (cleared_ending w0 b items)"
  unfolding reconcileHistoryCheckedSubmitError_def
  by (rule triple_hash_cases [OF triple_findMatchAfter])
    (auto intro!: triple_seq [OF keeps_gets] triple_hold triple_manualReview intro: ending_Inl split: wallet_match.split)

lemma triple_reconcileSubmitted:
  "triple (working w0 b items {Submitted}) (reconcileSubmittedBatch items reason post) (cleared_ending w0 b items)"
  unfolding reconcileSubmittedBatch_def
proof (rule triple_gets_andThen, rule triple_weaken [where P = "working w0 b items {Submitted}"])
  fix x :: "nat \<times> batch_row"
  obtain k batch where x: "x = (k, batch)" by force
  have search: "keeps (working w0 b items {Submitted}) (if post then findSubmittedTransferVisibilityAfterSubmit items
                  else findSubmittedTransferVisibility items)"
    unfolding findSubmittedTransferVisibilityAfterSubmit_def
    by (intro keeps_if keeps_retryPostSubmitSearch keeps_visibility)
  show "triple (working w0 b items {Submitted}) (case x of (k, batch) \<Rightarrow>
       if \<not> hasPlausibleWalletFee (total_fee batch)
       then markBatchManualReview (''submitted batch '' @ idText k @ '' has an implausible wallet fee'')
              \<lparr>md_txHash = tx_hash batch, md_txKey = None, md_totalFee = Some (total_fee batch)\<rparr>
       else
         andThen (if post then findSubmittedTransferVisibilityAfterSubmit items
                  else findSubmittedTransferVisibility items) (\<lambda>v.
         andThen (gets mem) (\<lambda>batch'.
           case v of
             Visible \<Rightarrow>
               andThen (finalizeBatch items reason) (\<lambda>finalized. ret (if finalized then Cleared else Unresolved))
           | Vis_unavailable message \<Rightarrow>
               holdAfterReconcile (''wallet reconcile unavailable while waiting for submitted tx '' @
                 hashText (tx_hash batch') @ '': '' @ message) False
           | Vis_not_found \<Rightarrow>
               holdAfterReconcile (''submitted tx '' @ hashText (tx_hash batch') @
                 '' is not visible in wallet history yet; holding batch'') True))) (cleared_ending w0 b items)"
    unfolding x prod.case
    by (rule triple_if, rule triple_manualReview, simp, rule triple_seq [OF search])
      (auto intro!: triple_seq [OF keeps_gets] triple_holdAfterReconcile triple_done_outcome [OF triple_finalizeBatch]
        intro: ending_Inl split: visibility.split)
qed auto

lemma triple_reconcileBatch:
  "triple (working w0 b items postsubmit) (reconcileBatch items reason post) (cleared_ending w0 b items)"
  unfolding reconcileBatch_def
proof (rule triple_gets_andThen)
  fix x :: "int \<times> nat \<times> batch_row"
  obtain t k batch where x: "x = (t, k, batch)" by (cases x) auto
  have search: "triple (working w0 b items {Submitting}) (andThen (if post then findWalletTransferMatchAfterSubmit items
      else findWalletTransferMatch items) (reconcileMatch items k)) (cleared_ending w0 b items)"
    by (rule triple_hash_cases)
      (auto intro: triple_findMatch triple_findMatchAfter triple_reconcileMatch)
  let ?P = "\<lambda>w. working w0 b items postsubmit w \<and> (clock w, mem_id w, mem w) = x"
  have P: "?P w \<Longrightarrow> working w0 b items {status batch} w \<and> mem_ok batch \<and> status batch \<in> postsubmit" for w
    by (auto simp: x working_def)
  show "triple ?P (case x of (nowMs, b, batch) \<Rightarrow>
       if 0 < nextReconcileDelayMs nowMs batch then ret Unresolved
       else if status batch = Submitted \<and> text_truthy (tx_hash batch)
       then reconcileSubmittedBatch items reason post
       else andThen (if post then findWalletTransferMatchAfterSubmit items else findWalletTransferMatch items)
              (reconcileMatch items b)) (cleared_ending w0 b items)"
    unfolding x prod.case
  proof (intro triple_if)
    show "triple (\<lambda>w. working w0 b items postsubmit w \<and> (clock w, mem_id w, mem w) = (t, k, batch)) (ret Unresolved) (cleared_ending w0 b items)"
      by (rule triple_weaken [OF triple_ret_bad]) auto
  next
    assume "status batch = Submitted \<and> text_truthy (tx_hash batch)"
    then show "triple (\<lambda>w. working w0 b items postsubmit w \<and> (clock w, mem_id w, mem w) = (t, k, batch))
        (reconcileSubmittedBatch items reason post) (cleared_ending w0 b items)"
      using P by (intro triple_weaken [OF triple_reconcileSubmitted]) (auto simp: x)
  next
    assume a: "\<not> (status batch = Submitted \<and> text_truthy (tx_hash batch))"
    then have "mem_ok batch \<and> status batch \<in> postsubmit \<longrightarrow> status batch = Submitting" by (auto simp: mem_ok_def)
    then show "triple (\<lambda>w. working w0 b items postsubmit w \<and> (clock w, mem_id w, mem w) = (t, k, batch))
        (andThen (if post then findWalletTransferMatchAfterSubmit items else findWalletTransferMatch items)
              (reconcileMatch items k)) (cleared_ending w0 b items)"
      using P by (intro triple_weaken [OF search]) (auto simp: x)
  qed
qed

lemma triple_reconcileAmbiguous:
  "triple (working w0 b items {Submitting}) (reconcileAmbiguousSubmit items m) (cleared_ending w0 b items)"
  unfolding reconcileAmbiguousSubmit_def
proof (rule triple_written [OF triple_touch])
  have "triple (working w0 b items {Submitting}) (reconcileBatch items r True) (cleared_ending w0 b items)" for r
    by (rule triple_weaken [OF triple_reconcileBatch]) (auto elim: working_mono)
  then show "triple (working w0 b items {Submitting}) (if \<not> True then gets (guardedTransitionOutcome \<circ> mem)
       else andThen (reconcileBatch items ''same-process submit'' True)
              (\<lambda>r. ret (if r = Cleared then Cleared else Unresolved))) (cleared_ending w0 b items)"
    unfolding not_True_eq_False if_False
    by (rule triple_andThen) (auto simp: ending_def triple_def ret_def)
qed (simp_all add: core_fields triple_outcome)

subsection \<open>Submitting\<close>

text \<open>After a successful claim: the boundary is durable and the batch was not sent in this run.\<close>

definition claimed :: "pay_world \<Rightarrow> nat \<Rightarrow> item_row list \<Rightarrow> pay_world \<Rightarrow> bool" where
  "claimed w0 b items w \<longleftrightarrow> working w0 b items {Submitting} w \<and> sent b w = sent b w0 \<and>
     started b (db w) \<and> \<not> started b (db w0)"

lemma claim_hit:
  assumes "db_ok d" "claimQuery b e t d = (1, d')" "e \<in> presubmit"
  shows "\<not> started b d" "started b d'"
proof -
  note c = claimQuery_eq [OF assms(2)]
  from c have "count_where (\<lambda>i r. i = b \<and> status r = e) (batches d) \<noteq> 0" by simp
  then obtain r where "(b, r) \<in> set (batches d)" "status r = e" by (auto simp: count_where_0)
  with assms(1) have r: "map_of (batches d) b = Some r" "status r = e" by (auto simp: db_ok_def keys_ok_def)
  have "unsubmitted (status r)" using r(2) assms(3) by (auto simp: unsubmitted_def)
  with db_ok_batch_row [OF assms(1) r(1)] have "submit_started_at r = None" by (simp add: row_ok_def mem_ok_def)
  with r show "\<not> started b d" by (simp add: started_def)
  show "started b d'" using c r by (simp add: started_def map_of_update_where claim_fields_def)
qed

lemma claimed_of_hit:
  assumes v: "working w0 b items presubmit v" and w: "working w0 b items presubmit w"
    and log: "wallet_log v = wallet_log w" and q: "claimQuery b e t (db v) = (1, db w)" and e: "e \<in> presubmit"
  shows "claimed w0 b items (w\<lparr>mem := claim_fields t' (mem w)\<rparr>)"
proof -
  have sv: "safe w0 v" using v by (simp add: working_def)
  note hit = claim_hit [OF safe_db_ok [OF sv] q e]
  have nb: "\<not> started b (db w0)" using hit(1) sv reaches_started [of "db w0" "db v" b] by (auto simp: safe_def)
  have "sent b v = sent b w0" using hit(1) sv by (auto simp: safe_def)
  then have "sent b w = sent b w0" using log by (simp add: sent_def)
  moreover have "working w0 b items {Submitting} (w\<lparr>mem := claim_fields t' (mem w)\<rparr>)"
  proof (rule working_mem [OF w])
    have "mem_ok (mem w)" "unsubmitted (status (mem w))" using w by (auto simp: working_def unsubmitted_def)
    then show "mem_ok (claim_fields t' (mem w))" by (simp add: mem_ok_def claim_fields_def unsubmitted_def)
  qed (simp_all add: claim_fields_def)
  ultimately show ?thesis using hit(2) nb by (simp add: claimed_def sent_def)
qed

lemma triple_claim:
  assumes e: "e \<in> presubmit"
  shows "triple (working w0 b items presubmit) (claimBatchForSubmit e)
     (\<lambda>r w. if r = Inr True then claimed w0 b items w else working w0 b items UNIV w)" (is "triple _ _ ?Q")
  unfolding claimBatchForSubmit_def
proof (rule triple_gets_andThen)
  fix x :: "nat \<times> int \<times> int"
  obtain k t' t where x: "x = (k, t', t)" by (cases x) auto
  let ?q = "\<lambda>d. Inr (claimQuery b e t d) :: string + nat \<times> pay_db"
  have q: "triple (working w0 b items presubmit) (query ?q) (\<lambda>r w. working w0 b items presubmit w \<and>
      (\<forall>x. r = Inr x \<longrightarrow> (\<exists>v. working w0 b items presubmit v \<and> wallet_log v = wallet_log w \<and> ?q (db v) = Inr (x, db w))))"
    by (rule triple_query) (use e in \<open>auto intro: reaches_one db_step.claim\<close>)
  let ?rest = "\<lambda>n :: nat. if n = 1
       then andThen (modify (\<lambda>w. w\<lparr>mem := claim_fields t' (mem w)\<rparr>)) (\<lambda>_. ret True)
       else andThen (select (\<lambda>d. map_of (batches d) b)) (\<lambda>refreshedBatch.
            andThen (case refreshedBatch of None \<Rightarrow> ret () | Some r \<Rightarrow> modify (\<lambda>w. w\<lparr>mem := r\<rparr>)) (\<lambda>_. ret False))"
  have "triple (working w0 b items presubmit) (andThen (query ?q) ?rest) ?Q"
  proof (rule triple_andThen [OF q])
    fix n :: nat
    show "triple (\<lambda>w. working w0 b items presubmit w \<and> (\<forall>x. Inr n = Inr x \<longrightarrow> (\<exists>v. working w0 b items presubmit v \<and>
        wallet_log v = wallet_log w \<and> ?q (db v) = Inr (x, db w)))) (?rest n) ?Q"
    proof (cases "n = 1")
      case True
      then show ?thesis using claimed_of_hit [OF _ _ _ _ e] by (auto simp: triple_def prog_defs)
    next
      case False
      have ret: "triple (working w0 b items UNIV) (ret False) ?Q" by (simp add: triple_def ret_def)
      have "triple (working w0 b items presubmit) (andThen (select (\<lambda>d. map_of (batches d) b)) (\<lambda>refreshedBatch.
            andThen (case refreshedBatch of None \<Rightarrow> ret () | Some r \<Rightarrow> modify (\<lambda>w. w\<lparr>mem := r\<rparr>)) (\<lambda>_. ret False))) ?Q"
      proof (rule triple_andThen [OF triple_select])
        fix row
        have "triple (\<lambda>w. working w0 b items presubmit w \<and> row = map_of (batches (db w)) b)
            (andThen (case row of None \<Rightarrow> ret () | Some r \<Rightarrow> modify (\<lambda>w. w\<lparr>mem := r\<rparr>)) (\<lambda>_. ret False)) ?Q"
          by (rule triple_andThen [OF triple_adopt ret]) simp
        then show "triple (\<lambda>w. working w0 b items presubmit w \<and> (\<forall>x. Inr row = Inr x \<longrightarrow> x = map_of (batches (db w)) b))
            (andThen (case row of None \<Rightarrow> ret () | Some r \<Rightarrow> modify (\<lambda>w. w\<lparr>mem := r\<rparr>)) (\<lambda>_. ret False)) ?Q"
          by (rule triple_weaken) auto
      qed (auto intro: working_UNIV)
      with False show ?thesis by (auto elim: triple_weaken)
    qed
  qed (auto intro: working_UNIV)
  then show "triple (\<lambda>w. working w0 b items presubmit w \<and> (mem_id w, currentTime w, dbTime w (currentTime w)) = x)
      (case x of (b, submitStartedAt, rowTime) \<Rightarrow>
         andThen (query (\<lambda>d. Inr (claimQuery b e rowTime d))) (\<lambda>affectedRows.
           if affectedRows = 1
           then andThen (modify (\<lambda>w. w\<lparr>mem := claim_fields submitStartedAt (mem w)\<rparr>)) (\<lambda>_. ret True)
           else andThen (select (\<lambda>d. map_of (batches d) b)) (\<lambda>refreshedBatch.
                andThen (case refreshedBatch of None \<Rightarrow> ret () | Some r \<Rightarrow> modify (\<lambda>w. w\<lparr>mem := r\<rparr>)) (\<lambda>_. ret False)))) ?Q"
    unfolding x prod.case by (cases "k = b") (auto simp: triple_def working_def)
qed

lemma triple_lostClaim: "triple (working w0 b items UNIV) handleLostSubmitClaim (cleared_ending w0 b items)"
proof -
  have "triple (\<lambda>w. working w0 b items UNIV w \<and> (mem_id w, mem w) = (k, batch)) (ret Cleared) (cleared_ending w0 b items)"
    if "status batch = Finalized" for k batch
    using that by (auto simp: triple_def ret_def ending_def working_def)
  then show ?thesis
    unfolding handleLostSubmitClaim_def
    by (intro triple_gets_andThen) (auto intro: triple_weaken [OF triple_stop_review] triple_weaken [OF triple_ret_bad])
qed

lemma triple_transfer:
  "triple (claimed w0 b items) (callWallet ''transfer'' params) (\<lambda>_. working w0 b items {Submitting})"
proof -
  have "working w0 b items {Submitting} (w\<lparr>wallet_log := wallet_log w @ [(''transfer'', params, mem_id w)]\<rparr>)"
    if c: "claimed w0 b items w" for w
  proof -
    let ?w = "w\<lparr>wallet_log := wallet_log w @ [(''transfer'', params, mem_id w)]\<rparr>"
    have "sent k ?w = (if k = b then sent k w + 1 else sent k w)" for k
      using c by (simp add: sent_def claimed_def working_def)
    with c show ?thesis by (auto simp: claimed_def working_def safe_def sent_done_def)
  qed
  with wk.keeps_await show ?thesis
    unfolding callWallet_def
    by (intro triple_andThen [where R = "\<lambda>_. working w0 b items {Submitting}"] triple_modify keeps_gets)
      (auto simp: triple_def modify_def)
qed

lemma triple_submittedKey:
  assumes h: "h \<noteq> []"
  shows "triple (working w0 b items {Submitting}) (resolveSubmittedTxKey h fee reply)
     (\<lambda>r w. case r of Inr (Inr k) \<Rightarrow> working w0 b items {Submitting} w | _ \<Rightarrow> ending w0 b items (\<lambda>x. x = Inl Cleared) r w)"
    (is "triple _ _ ?Q")
proof -
  have bad: "working w0 b items S w \<Longrightarrow> ?Q (Inl e) w" for S e w by (auto intro: ending_Inl)
  have key: "triple (working w0 b items {Submitting}) (ret (Inr k)) ?Q" for k by (simp add: triple_def ret_def)
  have outcome: "triple (working w0 b items S) (andThen m (\<lambda>x. ret (Inl x))) ?Q"
    if "triple (working w0 b items S) m (cleared_ending w0 b items)" for S and m :: "outcome pay"
    by (rule triple_andThen [OF that]) (auto simp: ending_def triple_def ret_def)
  have lost: "triple (working w0 b items UNIV) (andThen (gets mem) (\<lambda>batch. ret (Inl (guardedTransitionOutcome batch)))) ?Q"
    using outcome [OF triple_outcome, of UNIV] by (simp add: triple_def prog_defs)
  have persist: "triple (working w0 b items {Submitting}) (andThen (persistSubmittedBatch h None fee e) (\<lambda>updated.
        if \<not> updated then andThen (gets mem) (\<lambda>batch. ret (Inl (guardedTransitionOutcome batch)))
        else andThen (gets mem_id) (\<lambda>k. andThen (markBatchManualReview (f k) details) (\<lambda>x. ret (Inl x))))) ?Q" for e f details
  proof (rule triple_andThen [OF triple_persist [OF h]])
    fix u
    show "triple (written w0 b items {Submitted} (Inr u)) (if \<not> u then andThen (gets mem) (\<lambda>batch. ret (Inl (guardedTransitionOutcome batch)))
        else andThen (gets mem_id) (\<lambda>k. andThen (markBatchManualReview (f k) details) (\<lambda>x. ret (Inl x)))) ?Q"
      using lost by (cases u)
        (auto simp: written_def intro!: triple_seq [OF keeps_gets] outcome triple_manualReview bad)
  qed (auto simp: written_def intro: ending_Inl)
  have "triple (working w0 b items {Submitting}) (andThen (resolveTxKey h) (\<lambda>k.
            case k of
              Key_retry _ \<Rightarrow> ret (Inr None)
            | Key_missing _ \<Rightarrow>
                andThen (persistSubmittedBatch h None fee (Some ''wallet transfer succeeded but tx_key missing'')) (\<lambda>updated.
                  if \<not> updated then andThen (gets mem) (\<lambda>batch. ret (Inl (guardedTransitionOutcome batch)))
                  else andThen (gets mem_id) (\<lambda>b.
                       andThen (markBatchManualReview
                                 (''wallet transfer for batch '' @ idText b @ '' succeeded but tx_key is unavailable'')
                                 \<lparr>md_txHash = Some h, md_txKey = None, md_totalFee = Some fee\<rparr>)
                         (\<lambda>outcome. ret (Inl outcome))))
            | Key_ok txKey \<Rightarrow> ret (Inr (Some txKey)))) ?Q"
    by (rule triple_seq [OF keeps_resolveTxKey]) (use key persist bad in \<open>auto split: tx_key_result.split\<close>)
  with key show ?thesis
    unfolding resolveSubmittedTxKey_def by (auto split: jsval.split list.split)
qed

lemma triple_waitVisibility:
  "triple (working w0 b items {Submitted}) (waitForSubmittedVisibility items h)
     (\<lambda>r w. case r of Inr None \<Rightarrow> working w0 b items {Submitted} w | _ \<Rightarrow> ending w0 b items (\<lambda>x. x = Some Cleared) r w)"
    (is "triple _ _ ?Q")
proof -
  have hold: "triple (working w0 b items {Submitted}) (andThen (holdBatch m) (\<lambda>x. ret (Some x))) ?Q" for m
    by (rule triple_andThen [OF triple_hold]) (auto simp: ending_def triple_def ret_def)
  have search: "keeps (working w0 b items {Submitted}) (findSubmittedTransferVisibilityAfterSubmit items)"
    unfolding findSubmittedTransferVisibilityAfterSubmit_def by (intro keeps_retryPostSubmitSearch keeps_visibility)
  show ?thesis
    unfolding waitForSubmittedVisibility_def
    by (rule triple_seq [OF search]) (use hold in \<open>auto intro: triple_ret ending_Inl split: visibility.split\<close>)
qed

lemma triple_replyError:
  "triple (working w0 b items {Submitting}) (handleTransferReplyError items reply)
     (\<lambda>r w. case r of Inr None \<Rightarrow> working w0 b items {Submitting} w | _ \<Rightarrow> ending w0 b items (\<lambda>x. x = Some Cleared) r w)"
    (is "triple _ _ ?Q")
proof -
  have some: "triple (working w0 b items {Submitting}) (andThen m (\<lambda>x. ret (Some x))) ?Q"
    if "triple (working w0 b items {Submitting}) m (cleared_ending w0 b items)" for m :: "outcome pay"
    by (rule triple_andThen [OF that]) (auto simp: ending_def triple_def ret_def)
  have none: "triple (working w0 b items {Submitting}) (ret None) ?Q" by (simp add: triple_def ret_def)
  show ?thesis
    unfolding handleTransferReplyError_def Let_def
    by (intro triple_if some none triple_reconcileAmbiguous triple_historyChecked)
qed

lemma triple_or_else:
  assumes "triple P m (\<lambda>r w. case r of Inr None \<Rightarrow> R w | _ \<Rightarrow> ending w0 b items (\<lambda>x. x = Some Cleared) r w)"
    and "triple R n (cleared_ending w0 b items)"
  shows "triple P (andThen m (\<lambda>v. case v of Some x \<Rightarrow> ret x | None \<Rightarrow> n)) (cleared_ending w0 b items)"
proof (rule triple_andThen [OF assms(1)], goal_cases)
  case (1 v)
  then show ?case using assms(2) by (cases v) (auto simp: ending_def triple_def ret_def)
next
  case (2 e w)
  then show ?case by (simp add: ending_def)
qed

lemma triple_recordTransfer:
  "triple (working w0 b items {Submitting}) (recordTransfer items res) (cleared_ending w0 b items)"
proof -
  have finish: "triple (working w0 b items {Submitted}) (andThen (waitForSubmittedVisibility items h) (\<lambda>v.
        case v of Some outcome \<Rightarrow> ret outcome
        | None \<Rightarrow> andThen (finalizeBatch items ''submit'') (\<lambda>finalized. ret (if finalized then Cleared else Unresolved))))
      (cleared_ending w0 b items)" for h
    by (rule triple_or_else [OF triple_waitVisibility triple_done_outcome [OF triple_finalizeBatch]])
  have store: "triple (working w0 b items {Submitting}) (andThen (persistSubmittedBatch h k fee None) (\<lambda>updated.
        if \<not> updated then gets (guardedTransitionOutcome \<circ> mem)
        else andThen (waitForSubmittedVisibility items h) (\<lambda>v.
          case v of Some outcome \<Rightarrow> ret outcome
          | None \<Rightarrow> andThen (finalizeBatch items ''submit'') (\<lambda>finalized. ret (if finalized then Cleared else Unresolved)))))
      (cleared_ending w0 b items)" if "h \<noteq> []" for h k fee
    by (rule triple_written [OF triple_persist [OF that]]) (use finish in \<open>simp_all add: triple_outcome\<close>)
  have keyed: "triple (working w0 b items {Submitting}) (andThen (resolveSubmittedTxKey h fee res) (\<lambda>k.
              case k of
                Inl outcome \<Rightarrow> ret outcome
              | Inr txKey \<Rightarrow>
                  andThen (persistSubmittedBatch h txKey fee None) (\<lambda>updated.
                    if \<not> updated then gets (guardedTransitionOutcome \<circ> mem)
                    else andThen (waitForSubmittedVisibility items h) (\<lambda>v.
                      case v of
                        None \<Rightarrow> andThen (finalizeBatch items ''submit'')
                                  (\<lambda>finalized. ret (if finalized then Cleared else Unresolved))
                      | Some outcome \<Rightarrow> ret outcome)))) (cleared_ending w0 b items)" if h: "h \<noteq> []" for h fee
  proof (rule triple_andThen [OF triple_submittedKey [OF h]], goal_cases)
    case (1 k)
    show ?case
    proof (cases k)
      case (Inl x)
      then show ?thesis by (auto simp: ending_def triple_def ret_def)
    next
      case (Inr y)
      then show ?thesis using store [OF h] by simp
    qed
  next
    case (2 e s)
    then show ?case by (simp add: ending_def)
  qed
  show ?thesis
    unfolding recordTransfer_def
    using keyed normalizeHash_nonempty [of "getf res ''tx_hash''"]
    by (auto intro!: triple_reconcileAmbiguous split: option.split)
qed

lemma triple_sendTransfer: "triple (claimed w0 b items) (sendTransfer items) (cleared_ending w0 b items)"
  unfolding sendTransfer_def
proof (rule triple_seq [OF keeps_gets], rule triple_andThen [OF triple_transfer], rule triple_or_else [OF triple_replyError])
  fix cfg :: pay_config and reply
  show "triple (working w0 b items {Submitting}) (case resultObject reply of
      None \<Rightarrow> reconcileAmbiguousSubmit items ''ambiguous wallet submit: missing result''
    | Some transferResult \<Rightarrow> recordTransfer items transferResult) (cleared_ending w0 b items)"
    by (intro triple_case_option triple_reconcileAmbiguous triple_recordTransfer)
qed (auto simp: claimed_def intro: ending_Inl)

lemma keeps_preflight: "keeps (working w0 b items S) (preflightWalletBalance n)"
  unfolding preflightWalletBalance_def Let_def by (intro triple_intros keeps_callWallet) simp

lemma triple_submitReserved:
  "triple (working w0 b items presubmit) (submitReservedBatch items) (cleared_ending w0 b items)"
proof -
  have submit: "triple (working w0 b items presubmit) (andThen (gets (status \<circ> mem)) (\<lambda>expectedStatus.
      andThen (claimBatchForSubmit expectedStatus) (\<lambda>claimed.
        if \<not> claimed then handleLostSubmitClaim else sendTransfer items))) (cleared_ending w0 b items)"
  proof (rule triple_gets_andThen)
    fix e
    show "triple (\<lambda>w. working w0 b items presubmit w \<and> (status \<circ> mem) w = e) (andThen (claimBatchForSubmit e) (\<lambda>claimed.
        if \<not> claimed then handleLostSubmitClaim else sendTransfer items)) (cleared_ending w0 b items)"
    proof (cases "e \<in> presubmit")
      case False
      then show ?thesis by (auto simp: triple_def working_def)
    next
      case True
      have "triple (working w0 b items presubmit) (andThen (claimBatchForSubmit e) (\<lambda>claimed.
          if \<not> claimed then handleLostSubmitClaim else sendTransfer items)) (cleared_ending w0 b items)"
      proof (rule triple_andThen [OF triple_claim [OF True]], goal_cases)
        case (1 c)
        then show ?case using triple_lostClaim triple_sendTransfer by (cases c) auto
      next
        case (2 x w)
        then show ?case by (auto intro: ending_Inl)
      qed
      then show ?thesis by (rule triple_weaken) auto
    qed
  qed
  have active: "keeps (working w0 b items presubmit) (modify (\<lambda>w. w\<lparr>activeBatchId := Some (mem_id w)\<rparr>))"
    by (rule triple_modify) (rule moves_working, auto simp: moves_def reaches_refl)
  have checked: "triple (working w0 b items presubmit) (andThen checkExclusiveAccess (\<lambda>owned. if \<not> owned then ret Unresolved else m))
      (cleared_ending w0 b items)" if "triple (working w0 b items presubmit) m (cleared_ending w0 b items)" for m
    by (rule triple_seq [OF wk.keeps_checkExclusiveAccess]) (use that in \<open>auto intro: triple_ret_bad ending_Inl\<close>)
  have pre: "triple (working w0 b items presubmit) (andThen (gets (total_net \<circ> mem)) (\<lambda>totalNet.
         andThen (preflightWalletBalance (Some totalNet)) (\<lambda>preflight.
           case preflight of
             Preflight_ok _ _ _ _ \<Rightarrow>
               andThen checkExclusiveAccess (\<lambda>stillOwned.
                 if \<not> stillOwned then ret Unresolved
                 else
                   andThen (gets (status \<circ> mem)) (\<lambda>expectedStatus.
                   andThen (claimBatchForSubmit expectedStatus) (\<lambda>claimed.
                     if \<not> claimed then handleLostSubmitClaim else sendTransfer items)))
           | Preflight_fail reason _ _ \<Rightarrow> holdBatchForRetry reason))) (cleared_ending w0 b items)"
    by (rule triple_seq [OF keeps_gets], rule triple_seq [OF keeps_preflight])
      (use checked [OF submit] in \<open>auto intro: ending_Inl triple_holdForRetry split: preflight.split\<close>)
  show ?thesis
    unfolding submitReservedBatch_def
    by (rule triple_seq [OF active]) (use checked [OF pre] in \<open>auto intro: ending_Inl\<close>)
qed

end
