(* ===== verification/Payments_Cycle.thy ===== *)
theory Payments_Cycle
  imports Payments_Safety
begin

text \<open>
  Recovery and the payout cycle as a whole: the guarantees of one batch compose over the
  batches of a recovery pass and over the batches a cycle plans and submits.
\<close>

subsection \<open>Runs compose\<close>

definition ready :: "pay_world \<Rightarrow> bool" where
  "ready w \<longleftrightarrow> rivals_ok (env w) \<and> db_ok (db w)"

definition idle :: "pay_world \<Rightarrow> pay_world \<Rightarrow> bool" where
  "idle w0 w \<longleftrightarrow> safe w0 w \<and> sent_done None w0 w"

abbreviation over :: "batch_status set" where
  "over \<equiv> {Finalized, Retryable}"

lemma idle_refl: "ready w \<Longrightarrow> idle w w"
  by (simp add: ready_def idle_def safe_def sent_done_def reaches_refl)

lemma safe_ready: "safe w0 w \<Longrightarrow> ready w"
  using safe_db_ok by (auto simp: ready_def safe_def)

lemma safe_trans:
  assumes "safe w0 w1" "safe w1 w2"
  shows "safe w0 w2"
proof -
  have r: "reaches db_step (db w1) (db w2)" and ok: "db_ok (db w1)" using assms by (auto simp: safe_def)
  have r0: "reaches db_step (db w0) (db w1)" and ok0: "db_ok (db w0)" using assms by (auto simp: safe_def)
  have "sent b w2 = sent b w0 \<or> sent b w2 = sent b w0 + 1 \<and> started b (db w2) \<and> \<not> started b (db w0)" for b
  proof -
    have a: "sent b w1 = sent b w0 \<or> sent b w1 = sent b w0 + 1 \<and> started b (db w1) \<and> \<not> started b (db w0)"
      and c: "sent b w2 = sent b w1 \<or> sent b w2 = sent b w1 + 1 \<and> started b (db w2) \<and> \<not> started b (db w1)"
      using assms by (simp_all add: safe_def)
    from a c reaches_started [OF r ok, of b] reaches_started [OF r0 ok0, of b] show ?thesis by auto
  qed
  with assms r show ?thesis by (auto simp: safe_def intro: reaches_trans)
qed

lemma idle_trans:
  assumes "idle w0 w1" "idle w1 w2"
  shows "idle w0 w2"
proof -
  have s: "safe w0 w1" "safe w1 w2" using assms by (simp_all add: idle_def)
  have r: "reaches db_step (db w1) (db w2)" and ok: "db_ok (db w1)" using s by (auto simp: safe_def)
  have "has_status {Finalized} k (db w2)" if "sent k w2 \<noteq> sent k w0" for k
  proof (cases "sent k w1 = sent k w0")
    case True
    with that assms(2) show ?thesis by (simp add: idle_def sent_done_def)
  next
    case False
    with assms(1) have "has_status {Finalized} k (db w1)" by (simp add: idle_def sent_done_def)
    then show ?thesis by (rule reaches_finalized [OF r ok])
  qed
  with safe_trans [OF s] show ?thesis by (simp add: idle_def sent_done_def)
qed

lemma safe_over: "safe w w' \<Longrightarrow> has_status over b (db w) \<Longrightarrow> has_status over b (db w')"
  by (rule reaches_has_status) (auto simp: safe_def settled_def)

lemma working_safe: "working w0 b items S w \<Longrightarrow> safe w0 w"
  by (simp add: working_def)

lemma idle_of_working:
  assumes "working w0 b items S w" "sent b w \<noteq> sent b w0 \<Longrightarrow> has_status {Finalized} b (db w)"
  shows "idle w0 w"
proof -
  have "has_status {Finalized} k (db w)" if "sent k w \<noteq> sent k w0" for k
    using assms that by (cases "k = b") (auto simp: working_def sent_done_def)
  with assms(1) show ?thesis by (simp add: working_def idle_def sent_done_def)
qed

interpretation id: lock_client "idle w0" for w0
proof unfold_locales
  fix w m k c assume w: "idle w0 w"
  then have s: "safe w0 w" by (simp add: idle_def)
  have "idle w0 w'" if "moves w w'" for w'
    using moves_safe [OF s that] moves_sent_done [OF s _ that] w by (simp add: idle_def)
  then show "idle w0 (await_step w)" "idle w0 (failStopState m k w)" "idle w0 (w\<lparr>lockConnection := c\<rparr>)"
    using moves_await(1) [OF s] moves_failStop(1) by (simp_all add: moves_def reaches_refl)
qed

lemma idle_working:
  assumes "idle w0 w" "b < next_batch_id (db w)" "mem_ok row" "status row \<noteq> Finalized"
    "same_payouts items (items_of (db w) b)"
  shows "working w0 b items {status row} (w\<lparr>mem_id := b, mem := row\<rparr>)"
  using assms by (auto simp: idle_def working_def safe_def sent_done_def sent_def)

subsection \<open>Releasing\<close>

lemma release_has_status:
  assumes "db_ok d" "releaseTransaction t b e m d = Inr (True, d')"
  shows "has_status {Retryable} b d'"
proof -
  from assms(2) obtain n d1 where c: "cas_batch b (release_fields t m) [e] release_nulls d = Inr (n, d1)"
      "n = 1" "batches d' = batches d1"
    by (rule releaseTransaction_cases) auto
  then have c1: "cas_batch b (release_fields t m) [e] release_nulls d = Inr (1, d1)" by simp
  show ?thesis using cas_hit [OF assms(1) c1] map_of_cas [OF c1, of b] c(3)
    by (auto simp: has_status_def release_fields_def)
qed

lemma retryable_not_started: "db_ok d \<Longrightarrow> has_status {Retryable} b d \<Longrightarrow> \<not> started b d"
  using db_ok_batch_row [of d b] by (force simp: has_status_def started_def row_ok_def mem_ok_def unsubmitted_def)

lemma triple_release:
  "triple (working w0 b items {Reserved}) (releaseBatchReservation reason)
     (\<lambda>r w. safe w0 w \<and> (r = Inr True \<longrightarrow> idle w0 w \<and> has_status over b (db w)))"
  unfolding releaseBatchReservation_def
proof (rule triple_seq [OF keeps_gets], rule triple_weaken [OF triple_withTransaction])
  fix t w x d'
  assume "working w0 b items {Reserved} w" "releaseTransaction (dbTime w t) (mem_id w) (status (mem w)) reason (db w) = Inr (x, d')"
  then show "reaches db_step (db w) d'" by (auto simp: working_def intro: reaches_one db_step.release)
next
  fix t and r :: "string + bool" and w
  assume a: "working w0 b items {Reserved} w \<and> (\<forall>x. r = Inr x \<longrightarrow> (\<exists>v. working w0 b items {Reserved} v \<and>
      releaseTransaction (dbTime v t) (mem_id v) (status (mem v)) reason (db v) = Inr (x, db w)))"
  have "idle w0 w \<and> has_status over b (db w)" if "r = Inr True"
  proof -
    from a that obtain v where v: "working w0 b items {Reserved} v"
      "releaseTransaction (dbTime v t) (mem_id v) (status (mem v)) reason (db v) = Inr (True, db w)" by blast
    then have "db_ok (db v)" "mem_id v = b" by (auto simp: working_def intro: safe_db_ok)
    with v(2) have st: "has_status {Retryable} b (db w)" using release_has_status by blast
    moreover have "db_ok (db w)" using a safe_db_ok working_safe by blast
    from retryable_not_started [OF this st] have "\<not> started b (db w)" .
    then have "sent b w = sent b w0" using a by (auto simp: working_def safe_def)
    then have "idle w0 w" using a by (intro idle_of_working [where b = b]) auto
    ultimately show ?thesis by (auto simp: has_status_def)
  qed
  with a show "safe w0 w \<and> (r = Inr True \<longrightarrow> idle w0 w \<and> has_status over b (db w))" by (auto intro: working_safe)
qed (auto intro: working_safe)

subsection \<open>Recovery\<close>

abbreviation pending_statuses :: "batch_status set" where
  "pending_statuses \<equiv> {Manual_review, Reserved, Retrying, Submitting, Submitted}"

definition recovered :: "nat set \<Rightarrow> pay_world \<Rightarrow> string + bool \<Rightarrow> pay_world \<Rightarrow> bool" where
  "recovered B w0 r w \<longleftrightarrow> safe w0 w \<and> (r = Inr True \<longrightarrow> idle w0 w \<and> (\<forall>b \<in> B. has_status over b (db w)))"

lemma triple_is_cleared:
  assumes "triple (working w0 b items S) m (cleared_ending w0 b items)"
  shows "triple (working w0 b items S) (andThen m (\<lambda>x. ret (x = Cleared))) (recovered {b} w0)"
  by (rule triple_andThen [OF assms])
    (auto simp: ending_def recovered_def triple_def ret_def has_status_def intro: working_safe idle_of_working)

lemma recovered_bad: "working w0 b items S w \<Longrightarrow> r \<noteq> Inr True \<Longrightarrow> recovered B w0 r w"
  by (simp add: recovered_def working_safe)

lemma triple_enterFailStop_bad: "triple (working w0 b items S) (enterFailStop m k) (recovered B w0)"
proof (rule tripleI)
  fix w assume "working w0 b items S w"
  then have "working w0 b items S (snd (enterFailStop m k w))" by (rule wk.keeps_enterFailStop [THEN tripleD])
  moreover have "fst (enterFailStop m k w) = Inr False" by (simp add: enterFailStop_def prog_defs)
  ultimately show "recovered B w0 (fst (enterFailStop m k w)) (snd (enterFailStop m k w))"
    by (auto intro: recovered_bad)
qed

lemma recoverOne_recovered:
  assumes "ready w" "b < next_batch_id (db w)" "mem_ok row" "status row \<in> pending_statuses"
  shows "recovered {b} w (fst (recoverOne source b row w)) (snd (recoverOne source b row w))"
proof -
  let ?s = "status row"
  have start: "working w b (select_items b (db w)) {?s} (w\<lparr>mem_id := b, mem := row\<rparr>)"
    using assms by (intro idle_working idle_refl same_payouts_select) auto
  have branch: "triple (working w b items {?s})
      (if ?s = Manual_review
       then enterFailStop (''manual-review batch '' @ idText b @ '' blocks new payouts'') (Some b)
       else if ?s = Retrying
       then andThen (submitReservedBatch items) (\<lambda>retryOutcome. ret (retryOutcome = Cleared))
       else if ?s = Reserved \<and> submit_started_at row = None
       then releaseBatchReservation (''released by '' @ source @ '' before submit'')
       else if ?s \<notin> set [Reserved, Submitting, Submitted] then ret True
       else andThen (reconcileBatch items source False) (\<lambda>outcome. ret (outcome = Cleared))) (recovered {b} w)" for items
  proof (intro triple_if)
    assume "?s = Retrying"
    then show "triple (working w b items {?s}) (andThen (submitReservedBatch items) (\<lambda>r. ret (r = Cleared))) (recovered {b} w)"
      by (intro triple_weaken [OF triple_is_cleared [OF triple_submitReserved]]) (auto elim: working_mono)
  next
    assume "?s = Reserved \<and> submit_started_at row = None"
    then show "triple (working w b items {?s}) (releaseBatchReservation (''released by '' @ source @ '' before submit'')) (recovered {b} w)"
      by (intro triple_weaken [OF triple_release]) (auto simp: recovered_def)
  next
    assume "?s \<noteq> Manual_review" "?s \<noteq> Retrying" "\<not> (?s = Reserved \<and> submit_started_at row = None)"
      "?s \<notin> set [Reserved, Submitting, Submitted]"
    then show "triple (working w b items {?s}) (ret True) (recovered {b} w)" using assms(4) by auto
  next
    assume "\<not> (?s = Reserved \<and> submit_started_at row = None)" "\<not> ?s \<notin> set [Reserved, Submitting, Submitted]"
    then have "?s \<in> postsubmit" using assms(3) by (auto simp: mem_ok_def unsubmitted_def)
    then show "triple (working w b items {?s}) (andThen (reconcileBatch items source False) (\<lambda>x. ret (x = Cleared))) (recovered {b} w)"
      by (intro triple_weaken [OF triple_is_cleared [OF triple_reconcileBatch]]) (auto elim: working_mono)
  qed (rule triple_enterFailStop_bad)
  let ?rest = "\<lambda>items. if ?s = Manual_review
       then enterFailStop (''manual-review batch '' @ idText b @ '' blocks new payouts'') (Some b)
       else if ?s = Retrying
       then andThen (submitReservedBatch items) (\<lambda>retryOutcome. ret (retryOutcome = Cleared))
       else if ?s = Reserved \<and> submit_started_at row = None
       then releaseBatchReservation (''released by '' @ source @ '' before submit'')
       else if ?s \<notin> set [Reserved, Submitting, Submitted] then ret True
       else andThen (reconcileBatch items source False) (\<lambda>outcome. ret (outcome = Cleared))"
  have load: "triple (working w b items {?s}) (andThen (select (select_items b)) ?rest) (recovered {b} w)" for items
  proof (rule triple_andThen [OF triple_select], goal_cases)
    case (1 x)
    show ?case
    proof (rule triple_weaken [OF branch [of x]])
      fix v assume "working w b items {?s} v \<and> (\<forall>y. Inr x = Inr y \<longrightarrow> y = select_items b (db v))"
      then show "working w b x {?s} v" using same_payouts_select [of b "db v"] by (auto simp: working_def)
    qed
  next
    case (2 e v)
    then show ?case by (auto intro: recovered_bad)
  qed
  have "triple (working w b (select_items b (db w)) {?s}) (andThen checkExclusiveAccess (\<lambda>owned.
      if \<not> owned then ret False else andThen (select (select_items b)) ?rest)) (recovered {b} w)"
    by (rule triple_seq [OF wk.keeps_checkExclusiveAccess], rule triple_if, rule triple_ret, erule recovered_bad, simp,
        rule load, erule recovered_bad, simp)
  from tripleD [OF this start] show ?thesis by (simp add: recoverOne_def andThen_def modify_def)
qed

lemma recovered_step:
  assumes "recovered B w (Inr True) w1" "recovered B' w1 r w2"
  shows "recovered (B \<union> B') w r w2"
proof -
  have i: "idle w w1" "\<forall>b \<in> B. has_status over b (db w1)" and s: "safe w1 w2"
    and r: "r = Inr True \<Longrightarrow> idle w1 w2 \<and> (\<forall>b \<in> B'. has_status over b (db w2))"
    using assms by (simp_all add: recovered_def)
  have "safe w w2" using i(1) s by (auto simp: idle_def intro: safe_trans)
  moreover have "\<forall>b \<in> B. has_status over b (db w2)" using i(2) safe_over [OF s] by blast
  moreover have "idle w w2" if "r = Inr True" using idle_trans [OF i(1)] r [OF that] by blast
  ultimately show ?thesis using r by (auto simp: recovered_def)
qed

text \<open>What recovery knows of the rows it has read, and keeps knowing.\<close>

definition rows_read :: "(nat \<times> batch_row) list \<Rightarrow> pay_db \<Rightarrow> bool" where
  "rows_read rows d \<longleftrightarrow> (\<forall>(b, row) \<in> set rows. b < next_batch_id d \<and> mem_ok row \<and> status row \<in> pending_statuses)"

lemma rows_read_stable: "safe w w' \<Longrightarrow> rows_read rows (db w) \<Longrightarrow> rows_read rows (db w')"
  using reaches_items by (fastforce simp: rows_read_def safe_def)

lemma rows_read_pending: assumes "db_ok d" shows "rows_read (pendingBatches d) d"
proof -
  have "b < next_batch_id d \<and> row_ok r" if "(b, r) \<in> set (batches d)" for b r
    using assms that by (auto simp: db_ok_def keys_ok_def rows_ok_def)
  then show ?thesis by (fastforce simp: rows_read_def pendingBatches_def row_ok_def)
qed

lemma recoverEach_recovered:
  assumes "ready w" "rows_read rows (db w)"
  shows "recovered (fst ` set rows) w (fst (recoverEach source rows w)) (snd (recoverEach source rows w))"
  using assms
proof (induction rows arbitrary: w)
  case Nil
  then show ?case using idle_refl by (simp add: recovered_def ret_def idle_def)
next
  case (Cons x rows)
  obtain b row where x: "x = (b, row)" by force
  have one: "recovered {b} w (fst (recoverOne source b row w)) (snd (recoverOne source b row w))"
    using Cons.prems by (intro recoverOne_recovered) (auto simp: rows_read_def x)
  obtain r w1 where m: "recoverOne source b row w = (r, w1)" by force
  show ?case
  proof (cases "r = Inr True")
    case False
    with one m show ?thesis
      by (cases r) (auto simp: x andThen_def ret_def recovered_def)
  next
    case True
    have s: "safe w w1" using one m by (simp add: recovered_def)
    from Cons.IH [OF safe_ready [OF s]] rows_read_stable [OF s] Cons.prems(2)
    have "recovered (fst ` set rows) w1 (fst (recoverEach source rows w1)) (snd (recoverEach source rows w1))"
      by (auto simp: rows_read_def)
    with recovered_step one m True have "recovered ({b} \<union> fst ` set rows) w (fst (recoverEach source rows w1)) (snd (recoverEach source rows w1))"
      by (metis fst_conv snd_conv)
    with m True show ?thesis by (simp add: x andThen_def)
  qed
qed

subsubsection \<open>The whole pass\<close>

lemma triple_select_idle:
  "triple (idle w0) (select f) (\<lambda>r w. idle w0 w \<and> (\<forall>x. r = Inr x \<longrightarrow> x = f (db w)))"
proof (rule tripleI)
  fix w assume "idle w0 w"
  then have "idle w0 (await_step w)" by (rule id.inv_await)
  then show "idle w0 (snd (select f w)) \<and> (\<forall>x. fst (select f w) = Inr x \<longrightarrow> x = f (db (snd (select f w))))"
    by (auto simp: select_def query_def Let_def split: sql_outcome.splits)
qed

definition known :: "pay_world \<Rightarrow> nat set" where
  "known w = {b. map_of (batches (db w)) b \<noteq> None}"

lemma known_status:
  assumes "safe w0 w" "b \<in> known w0"
  shows "b \<in> fst ` set (pendingBatches (db w)) \<or> has_status over b (db w)"
proof -
  have "\<exists>r. map_of (batches (db w)) b = Some r"
    using assms reaches_row [of "db w0" "db w" b] by (auto simp: safe_def known_def)
  then obtain r where r: "map_of (batches (db w)) b = Some r" by blast
  then have m: "(b, r) \<in> set (batches (db w))" by (rule map_of_SomeD)
  show ?thesis
  proof (cases "status r \<in> over")
    case True
    with r show ?thesis by (auto simp: has_status_def)
  next
    case False
    then have "(b, r) \<in> set (pendingBatches (db w))"
      using m by (cases "status r") (auto simp: pendingBatches_def)
    then show ?thesis by force
  qed
qed

lemma triple_recoverPendingBatches:
  "triple (idle w0) (recoverPendingBatches source) (recovered (known w0) w0)"
  unfolding recoverPendingBatches_def
proof (rule triple_andThen [OF triple_select_idle], goal_cases)
  case (1 rows)
  show ?case
  proof (rule tripleI)
    fix w assume "idle w0 w \<and> (\<forall>x. Inr rows = Inr x \<longrightarrow> x = pendingBatches (db w))"
    then have w: "idle w0 w" "safe w0 w" and rows: "rows = pendingBatches (db w)" by (auto simp: idle_def)
    let ?r = "fst (recoverEach source rows w)" and ?w = "snd (recoverEach source rows w)"
    have rec: "recovered (fst ` set rows) w ?r ?w"
      unfolding rows by (intro recoverEach_recovered safe_ready [OF w(2)] rows_read_pending safe_db_ok [OF w(2)])
    have "recovered {} w0 (Inr True) w" using w by (simp add: recovered_def)
    from recovered_step [OF this rec] have "recovered (fst ` set rows) w0 ?r ?w" by simp
    moreover have "has_status over b (db ?w)" if "?r = Inr True" "b \<in> known w0" for b
      using known_status [OF w(2) that(2)] rec that(1) safe_over [of w ?w b] by (auto simp: recovered_def rows)
    ultimately show "recovered (known w0) w0 ?r ?w" by (auto simp: recovered_def)
  qed
next
  case (2 e w)
  then show ?case by (auto simp: recovered_def idle_def)
qed

lemma triple_recoverPending: "triple (idle w0) (recoverPending source) (recovered (known w0) w0)"
  unfolding recoverPending_def
  by (rule triple_seq [OF keeps_gets], rule triple_if, rule triple_ret, simp add: recovered_def idle_def,
      rule triple_seq [OF id.keeps_ensureAdvisoryLock], rule triple_if, rule triple_ret, simp add: recovered_def idle_def,
      rule triple_recoverPendingBatches) (simp_all add: recovered_def idle_def)

subsection \<open>Planning and reserving\<close>

lemma triple_planBatches:
  assumes "plan_config_ok (config (env w0))"
  shows "triple (idle w0) planBatches (\<lambda>r w. idle w0 w \<and> (\<forall>plans. r = Inr plans \<longrightarrow> (\<forall>p \<in> set plans. plan_ok p)))"
  unfolding planBatches_def
proof (rule triple_gets_andThen)
  fix cfg
  let ?P = "\<lambda>w. idle w0 w \<and> (config \<circ> env) w = cfg"
  let ?Q = "\<lambda>r w. idle w0 w \<and> (\<forall>plans. r = Inr plans \<longrightarrow> (\<forall>p \<in> set plans. plan_ok p))"
  show "triple ?P (if \<not> isSafeInteger (maxPaymentTxns cfg) \<or> maxPaymentTxns cfg \<le> 0
       then throw ''payout.maxPaymentTxns must be a positive safe integer''
       else andThen (select (selectPayoutRows (payoutAtomic cfg walletMin))) (\<lambda>rows. ret (batchesOfRows cfg rows))) ?Q"
  proof (rule triple_if)
    show "triple ?P (throw e) ?Q" for e by (rule triple_throw) simp
  next
    assume guard: "\<not> (\<not> isSafeInteger (maxPaymentTxns cfg) \<or> maxPaymentTxns cfg \<le> 0)"
    let ?m = "andThen (select (selectPayoutRows (payoutAtomic cfg walletMin))) (\<lambda>rows. ret (batchesOfRows cfg rows))"
    show "triple ?P ?m ?Q"
    proof (cases "cfg = config (env w0)")
    case False
    then have "\<not> ?P w" for w by (auto simp: idle_def safe_def)
    then show ?thesis unfolding triple_def by blast
  next
    case True
    have cfg: "plan_config_ok cfg" "isSafeInteger (maxPaymentTxns cfg)" "0 < maxPaymentTxns cfg"
      using True guard assms by auto
    have "triple (idle w0) (andThen (select (selectPayoutRows (payoutAtomic cfg walletMin))) (\<lambda>rows. ret (batchesOfRows cfg rows))) ?Q"
    proof (rule triple_andThen [OF triple_select_idle], goal_cases)
      case (1 rows)
      have "plan_ok p" if "idle w0 w" "p \<in> set (batchesOfRows cfg (selectPayoutRows (payoutAtomic cfg walletMin) (db w)))" for w p
      proof (rule batch_plan_ok [OF cfg _ that(2)])
        show "distinct (map fst (balances (db w)))"
          using that(1) safe_db_ok [of w0 w] by (simp add: idle_def db_ok_def keys_ok_def)
      qed
      then show ?case by (auto simp: triple_def ret_def)
    qed auto
    then show ?thesis by (rule triple_weaken) auto
    qed
  qed
qed

lemma same_payouts_records: "same_payouts (item_records b t its) (item_records b t' its)"
proof -
  have "payout_item.truncate (item_record b t n it) = it" for t n it
    by (simp add: item_record_def payout_item.truncate_def)
  then show ?thesis by (simp add: same_payouts_def item_records_def comp_def case_prod_unfold)
qed

lemma triple_reserveBatch:
  assumes "plan_ok plan"
  shows "triple (idle w0) (reserveBatch plan) (\<lambda>r w. idle w0 w \<and> (\<forall>b row items. r = Inr (b, row, items) \<longrightarrow>
     b < next_batch_id (db w) \<and> mem_ok row \<and> status row = Reserved \<and> same_payouts items (items_of (db w) b)))"
proof (rule tripleI)
  fix w0' assume "idle w0 w0'"
  define w where "w = await_step w0'"
  have w: "idle w0 w" using \<open>idle w0 w0'\<close> unfolding w_def by (rule id.inv_await)
  then have ok: "db_ok (db w)" by (auto simp: idle_def intro: safe_db_ok)
  have step: "idle w0 (w\<lparr>db := d\<rparr>) \<and> b < next_batch_id d \<and> items_of d b = item_records b t (plan_items plan)"
    if r: "reserveTransaction t plan (db w) = Inr (b, d)" for t b d
  proof -
    have "moves w (w\<lparr>db := d\<rparr>)" using r assms by (intro moves_db) (auto intro: reaches_one db_step.reserve)
    then have "idle w0 (w\<lparr>db := d\<rparr>)" using w moves_safe moves_sent_done by (auto simp: idle_def)
    then show ?thesis using reserveTransaction_Inr(5) [OF r] items_of_reserve [OF ok r, of b] by simp
  qed
  have row: "mem_ok (reserved_row t plan)" "status (reserved_row t plan) = Reserved" for t
    by (simp_all add: reserved_row_def mem_ok_def unsubmitted_def)
  let ?r = "fst (reserveBatch plan w0')" and ?w = "snd (reserveBatch plan w0')"
  show "idle w0 ?w \<and> (\<forall>b row items. ?r = Inr (b, row, items) \<longrightarrow>
     b < next_batch_id (db ?w) \<and> mem_ok row \<and> status row = Reserved \<and> same_payouts items (items_of (db ?w) b))"
    unfolding reserveBatch_def withTransaction_def w_def [symmetric] Let_def
    using w step row same_payouts_records
    by (auto split: tx_outcome.splits sum.splits)
qed

subsection \<open>The cycle\<close>

definition planned :: "pay_world \<Rightarrow> string + plan_result \<Rightarrow> pay_world \<Rightarrow> bool" where
  "planned w0 r w \<longleftrightarrow> safe w0 w \<and> (r = Inr Submitted_all \<longrightarrow> idle w0 w)"

lemma idle_planned: "idle w0 w \<Longrightarrow> planned w0 r w"
  by (simp add: planned_def idle_def)

lemma triple_submitPlan:
  assumes "plan_ok plan"
  shows "triple (idle w0) (submitPlan plan) (planned w0)"
proof -
  have submit: "triple (\<lambda>w. idle w0 w \<and> b < next_batch_id (db w) \<and> mem_ok row \<and> status row = Reserved \<and>
        same_payouts items (items_of (db w) b))
      (andThen (modify (\<lambda>w. w\<lparr>mem_id := b, mem := row\<rparr>)) (\<lambda>_.
       andThen (submitReservedBatch items) (\<lambda>outcome.
         ret (if outcome \<noteq> Cleared then Batch_unresolved else Submitted_all)))) (planned w0)" for b row items
  proof (rule triple_andThen [where R = "\<lambda>_. working w0 b items presubmit"])
    show "triple (\<lambda>w. idle w0 w \<and> b < next_batch_id (db w) \<and> mem_ok row \<and> status row = Reserved \<and>
        same_payouts items (items_of (db w) b)) (modify (\<lambda>w. w\<lparr>mem_id := b, mem := row\<rparr>)) (\<lambda>_. working w0 b items presubmit)"
    proof (rule triple_modify, elim conjE)
      fix w assume w: "idle w0 w" "b < next_batch_id (db w)" "mem_ok row" "status row = Reserved"
        "same_payouts items (items_of (db w) b)"
      have "working w0 b items {status row} (w\<lparr>mem_id := b, mem := row\<rparr>)"
        using w by (intro idle_working) auto
      then show "working w0 b items presubmit (w\<lparr>mem_id := b, mem := row\<rparr>)" using w(4) by (elim working_mono) simp
    qed
    show "triple (working w0 b items presubmit) (andThen (submitReservedBatch items) (\<lambda>outcome.
         ret (if outcome \<noteq> Cleared then Batch_unresolved else Submitted_all))) (planned w0)"
      by (rule triple_andThen [OF triple_submitReserved])
        (auto simp: ending_def planned_def triple_def ret_def intro: working_safe idle_of_working)
  qed (auto simp: planned_def intro: working_safe)
  have "triple (idle w0) (andThen (reserveBatch plan) (\<lambda>(b, row, items).
         andThen (modify (\<lambda>w. w\<lparr>mem_id := b, mem := row\<rparr>)) (\<lambda>_.
         andThen (submitReservedBatch items) (\<lambda>outcome.
           ret (if outcome \<noteq> Cleared then Batch_unresolved else Submitted_all))))) (planned w0)"
  proof (rule triple_andThen [OF triple_reserveBatch [OF assms]], goal_cases)
    case (1 x)
    obtain b row items where x: "x = (b, row, items)" by (cases x) auto
    show ?case unfolding x prod.case by (rule triple_weaken [OF submit]) auto
  qed (auto intro: idle_planned)
  then show ?thesis
    unfolding submitPlan_def
    by (intro triple_seq [OF id.keeps_verifyAdvisoryLock] triple_if triple_ret idle_planned)
qed

lemma triple_submitPlans:
  assumes "\<forall>p \<in> set plans. plan_ok p"
  shows "triple (idle w0) (submitPlans plans) (planned w0)"
  using assms
proof (induction plans)
  case Nil
  then show ?case by (auto intro: triple_ret idle_planned)
next
  case (Cons plan plans)
  have one: "triple (idle w0) (submitPlan plan) (planned w0)" using Cons.prems by (intro triple_submitPlan) simp
  have rest: "triple (idle w0) (submitPlans plans) (planned w0)" using Cons by simp
  show ?case
    unfolding submitPlans.simps
  proof (rule triple_andThen [OF one], goal_cases)
    case (1 r)
    show ?case
    proof (rule triple_if)
      assume "r \<noteq> Submitted_all"
      then show "triple (planned w0 (Inr r)) (ret r) (planned w0)" by (auto intro: triple_ret)
    next
      assume "\<not> r \<noteq> Submitted_all"
      then show "triple (planned w0 (Inr r)) (submitPlans plans) (planned w0)"
        by (intro triple_weaken [OF rest]) (auto simp: planned_def)
    qed
  qed (simp add: planned_def)
qed

text \<open>
  The result of a cycle: either it is not clean and the time of the last clean cycle is
  as before, or it is clean, that time is the clock, every batch that existed when the
  cycle began is finalized or released, and every batch it sent is finalized.
\<close>

definition cycle_result :: "pay_world \<Rightarrow> string + bool \<Rightarrow> pay_world \<Rightarrow> bool" where
  "cycle_result w0 r w \<longleftrightarrow>
     r = Inr False \<and> safe w0 w \<or>
     r = Inr True \<and> \<not> isFailStop w \<and>
     (\<exists>w1. idle w0 w1 \<and> (\<forall>b \<in> known w0. has_status over b (db w1)) \<and>
           w = w1\<lparr>lastPaymentCycle := Some (clock w1 div 1000)\<rparr>)"

lemma triple_caught:
  assumes "triple P m (\<lambda>r w. case r of Inl e \<Rightarrow> safe w0 w | Inr x \<Rightarrow> cycle_result w0 r w)"
  shows "triple P (try_catch m (\<lambda>_. ret False)) (cycle_result w0)"
  by (rule triple_try_catch [OF assms]) (auto intro!: triple_ret simp: cycle_result_def)

lemma triple_finishCycle:
  "triple (\<lambda>w. planned w0 (Inr r) w \<and> (\<forall>b \<in> known w0. has_status over b (db w))) (finishCycle r)
     (\<lambda>r w. case r of Inl e \<Rightarrow> safe w0 w | Inr x \<Rightarrow> cycle_result w0 r w)"
  by (cases r) (auto simp: triple_def finishCycle_def prog_defs canAdvancePaymentCycle_def planned_def cycle_result_def)

text \<open>Batches that are over stay over while the cycle plans and submits.\<close>

lemma triple_over:
  assumes "triple (idle w0) m (\<lambda>r w. safe w0 w \<and> Q r w)" "\<And>w1. idle w0 w1 \<Longrightarrow> triple (idle w1) m (\<lambda>r w. safe w1 w)"
  shows "triple (\<lambda>w. idle w0 w \<and> (\<forall>b \<in> B. has_status over b (db w))) m
     (\<lambda>r w. (safe w0 w \<and> Q r w) \<and> (\<forall>b \<in> B. has_status over b (db w)))"
proof (rule tripleI, elim conjE)
  fix w assume w: "idle w0 w" "\<forall>b \<in> B. has_status over b (db w)"
  have "idle w w" using w(1) by (intro idle_refl safe_ready [of w0]) (simp add: idle_def)
  with assms(2) [OF w(1)] have "safe w (snd (m w))" by (rule tripleD)
  with w safe_over tripleD [OF assms(1) w(1)]
  show "(safe w0 (snd (m w)) \<and> Q (fst (m w)) (snd (m w))) \<and> (\<forall>b \<in> B. has_status over b (db (snd (m w))))" by blast
qed

lemma idle_config: "idle w0 w \<Longrightarrow> config (env w) = config (env w0)"
  by (simp add: idle_def safe_def)

lemma triple_planAndSubmit:
  assumes cfg: "plan_config_ok (config (env w0))"
  shows "triple (\<lambda>w. idle w0 w \<and> (\<forall>b \<in> known w0. has_status over b (db w)))
     (andThen planBatches (\<lambda>plans. andThen (submitPlans plans) finishCycle))
     (\<lambda>r w. case r of Inl e \<Rightarrow> safe w0 w | Inr x \<Rightarrow> cycle_result w0 r w)" (is "triple ?P _ ?Q")
proof -
  let ?B = "\<lambda>w. \<forall>b \<in> known w0. has_status over b (db w)"
  have plan: "triple ?P planBatches (\<lambda>r w. (safe w0 w \<and> idle w0 w \<and> (\<forall>plans. r = Inr plans \<longrightarrow> (\<forall>p \<in> set plans. plan_ok p))) \<and> ?B w)"
  proof (rule triple_over)
    show "triple (idle w0) planBatches (\<lambda>r w. safe w0 w \<and> idle w0 w \<and> (\<forall>plans. r = Inr plans \<longrightarrow> (\<forall>p \<in> set plans. plan_ok p)))"
      by (rule triple_weaken [OF triple_planBatches [OF cfg]]) (auto simp: idle_def)
    fix w1 assume "idle w0 w1"
    then have "plan_config_ok (config (env w1))" using cfg idle_config by metis
    then show "triple (idle w1) planBatches (\<lambda>r w. safe w1 w)"
      by (intro triple_weaken [OF triple_planBatches]) (auto simp: idle_def)
  qed
  have submit: "triple ?P (submitPlans plans) (\<lambda>r w. (safe w0 w \<and> planned w0 r w) \<and> ?B w)" if "\<forall>p \<in> set plans. plan_ok p" for plans
  proof (rule triple_over)
    show "triple (idle w0) (submitPlans plans) (\<lambda>r w. safe w0 w \<and> planned w0 r w)"
      "\<And>w1. idle w0 w1 \<Longrightarrow> triple (idle w1) (submitPlans plans) (\<lambda>r w. safe w1 w)"
      by (rule triple_weaken [OF triple_submitPlans [OF that]], auto simp: planned_def)+
  qed
  show ?thesis
  proof (rule triple_andThen [OF plan], goal_cases)
    case (1 plans)
    show ?case
    proof (cases "\<forall>p \<in> set plans. plan_ok p")
      case False
      then show ?thesis unfolding triple_def by blast
    next
      case True
      have "triple ?P (andThen (submitPlans plans) finishCycle) ?Q"
      proof (rule triple_andThen [OF submit [OF True]], goal_cases)
        case (1 r)
        show ?case by (rule triple_weaken [OF triple_finishCycle]) auto
      qed simp
      then show ?thesis by (rule triple_weaken) auto
    qed
  qed simp
qed

lemma triple_runCycle:
  assumes cfg: "plan_config_ok (config (env w0))"
  shows "triple (idle w0) runCycle (cycle_result w0)"
  unfolding runCycle_def
proof (rule triple_caught)
  let ?Q = "\<lambda>r w. case r of Inl e \<Rightarrow> safe w0 w | Inr x \<Rightarrow> cycle_result w0 r w"
  have no: "triple (idle w0) (ret False) ?Q" by (rule triple_ret) (simp add: cycle_result_def idle_def)
  have err: "idle w0 w \<Longrightarrow> ?Q (Inl e) w" for e w by (simp add: idle_def)
  have body: "triple (idle w0) (andThen (recoverPending ''startup-recovery'') (\<lambda>recovered.
      if \<not> recovered then ret False
      else andThen planBatches (\<lambda>batches. andThen (submitPlans batches) finishCycle))) ?Q"
  proof (rule triple_andThen [OF triple_recoverPending], goal_cases)
    case (1 x)
    show ?case
    proof (rule triple_if)
      show "triple (recovered (known w0) w0 (Inr x)) (ret False) ?Q"
        by (rule triple_ret) (simp add: recovered_def cycle_result_def)
      assume "\<not> \<not> x"
      then show "triple (recovered (known w0) w0 (Inr x))
          (andThen planBatches (\<lambda>batches. andThen (submitPlans batches) finishCycle)) ?Q"
        by (intro triple_weaken [OF triple_planAndSubmit [OF cfg]]) (auto simp: recovered_def)
    qed
  qed (simp add: recovered_def)
  show "triple (idle w0) (andThen (gets isFailStop) (\<lambda>stopped.
          if stopped then ret False
          else andThen ensureAdvisoryLock (\<lambda>locked.
            if \<not> locked then ret False
            else andThen (recoverPending ''startup-recovery'') (\<lambda>recovered.
              if \<not> recovered then ret False
              else andThen planBatches (\<lambda>batches. andThen (submitPlans batches) finishCycle))))) ?Q"
    by (intro triple_seq [OF keeps_gets] triple_if no triple_seq [OF id.keeps_ensureAdvisoryLock] body err)
qed

lemma runCycle_result:
  "ready w \<Longrightarrow> plan_config_ok (config (env w)) \<Longrightarrow> runCycle w = (r, w') \<Longrightarrow> cycle_result w r w'"
  using tripleD2 [OF triple_runCycle] idle_refl by blast

end
