(* ===== verification/Payments_Examples.thy ===== *)
theory Payments_Examples
  imports Payments_Cycle
begin

text \<open>
  A concrete payout installation: a configuration in units of 1/64 coin, a wallet that
  answers every call with one reply, tables with one balance that is due, and the worlds
  built from them. The properties are instantiated at these values.
\<close>

definition ex_cfg :: pay_config where
  "ex_cfg = \<lparr>feeSlewAmount = 1/8, feeSlewEnd = 4, walletMin = 1/2, defaultPay = 1, exchangeMin = 2, feesForTXN = 1,
     denom = 1/64, feeAddress = ''fees'', maxPaymentTxns = 10, mixIn = 16, priority = 0, safeWalletFee = JNum (1/4),
     sigDigits = 64, sigDivisor = 64, general_coinCode = ''XMR'', tz_offset = 0\<rparr>"

definition ex_hash :: string where
  "ex_hash = replicate 64 CHR ''a''"

definition ex_transfer :: jsval where
  "ex_transfer = JObj [(''txid'', JStr ex_hash), (''type'', JStr ''out''), (''timestamp'', JNum 2000),
     (''destinations'', JArr [JObj [(''address'', JStr ''alice''), (''amount'', JNum 124)]])]"

definition ex_reply :: jsval where
  "ex_reply = JObj [(''result'', JObj [
     (''balance'', JNum 10000), (''unlocked_balance'', JNum 10000),
     (''tx_hash'', JStr ex_hash), (''fee'', JNum 100), (''tx_key'', JStr ''key''), (''transfer'', ex_transfer)])]"

definition ex_env :: pay_env where
  "ex_env = \<lparr>config = ex_cfg, wallet_reply = (\<lambda>n. ex_reply), sql_result = (\<lambda>n. Sql_ok), tx_result = (\<lambda>n. Tx_ok),
     rival = (\<lambda>n d. d), clock_at = (\<lambda>n. 1000000), lock_closed = (\<lambda>n. False), get_connection = (\<lambda>n. Inr 7),
     lock_reply = (\<lambda>n. Inr (JArr [JObj [(''locked'', JNum 1), (''owner_id'', JNum 7)]]))\<rparr>"

definition ex_balance :: balance_row where
  "ex_balance = \<lparr>bal_address = ''alice'', bal_payment_id = None, bal_pool_type = ''pplns'', bal_amount = 128, bal_pending = None\<rparr>"

definition ex_db :: pay_db where
  "ex_db = \<lparr>balances = [(5, ex_balance)], batches = [], batch_items = [], transactions = [], payments = [],
     users = [], next_batch_id = 1, next_transaction_id = 1\<rparr>"

definition ex_item :: payout_item where
  "ex_item = \<lparr>balanceId = 5, poolType = ''pplns'', paymentAddress = ''alice'', grossAmount = 128, netAmount = 124, feeAmount = 4\<rparr>"

definition ex_plan :: batch_plan where
  "ex_plan = \<lparr>plan_type = Bulk, plan_items = [ex_item], plan_totalGross = 128, plan_totalNet = 124, plan_totalFee = 4\<rparr>"

definition ex_world :: pay_world where
  "ex_world = \<lparr>env = ex_env, db = ex_db, mem_id = 0, mem = reserved_row 0 ex_plan,
     isFailStop = False, failStopReason = None, activeBatchId = None, lockConnection = None, lastPaymentCycle = None,
     clock = 1000000, awaits = 0, wallet_log = []\<rparr>"

text \<open>A world with nothing due and one finalized batch: its cycle is clean.\<close>

definition ex_done :: batch_row where
  "ex_done = (reserved_row 0 ex_plan)\<lparr>status := Finalized, submit_started_at := Some 1, finalized_at := Some 1,
     transaction_id := Some 1, tx_hash := Some ex_hash\<rparr>"

definition ex_quiet :: pay_world where
  "ex_quiet = ex_world\<lparr>db := ex_db\<lparr>balances := [], batches := [(0, ex_done)]\<rparr>\<rparr>"

text \<open>The tables after the reservation, the claim and the wallet's success have been written.\<close>

definition ex_submitted_row :: batch_row where
  "ex_submitted_row = (reserved_row 0 ex_plan)\<lparr>status := Submitted, submit_started_at := Some 1, submitted_at := Some 2,
     tx_hash := Some ex_hash, total_fee := 100\<rparr>"

definition ex_submitted_db :: pay_db where
  "ex_submitted_db = ex_db\<lparr>balances := [(5, ex_balance\<lparr>bal_pending := Some 1\<rparr>)], batches := [(1, ex_submitted_row)],
     batch_items := item_records 1 0 [ex_item], next_batch_id := 2\<rparr>"

definition ex_reserved_db :: pay_db where
  "ex_reserved_db = ex_db\<lparr>balances := [(5, ex_balance\<lparr>bal_pending := Some 1\<rparr>)], batches := [(1, reserved_row 0 ex_plan)],
     batch_items := item_records 1 0 [ex_item], next_batch_id := 2\<rparr>"

lemmas ex_defs = ex_db_def ex_balance_def ex_submitted_db_def ex_reserved_db_def ex_submitted_row_def ex_done_def
  ex_plan_def ex_item_def ex_quiet_def

lemmas ok_defs = db_ok_def keys_ok_def rows_ok_def items_ok_def pins_ok_def items_of_def tx_hashes_def List.map_filter_def
  row_ok_def mem_ok_def unsubmitted_def in_flight_def text_truthy_def reserved_row_def

lemma ex_cfg_ok: "plan_config_ok ex_cfg"
  by code_simp

lemma ex_db_ok: "db_ok ex_db"
  by (simp add: ex_defs ok_defs)

lemma ex_submitted_ok: "db_ok ex_submitted_db"
  by (simp add: ex_defs ok_defs item_records_def item_record_def ex_hash_def)

lemma ex_reserved_ok: "db_ok ex_reserved_db"
  by (simp add: ex_defs ok_defs item_records_def item_record_def)

lemma ex_rivals: "rivals_ok ex_env"
  by (simp add: rivals_ok_def ex_env_def reaches_refl)

lemma ex_ready: "ready ex_world"
  using ex_db_ok ex_rivals by (simp add: ready_def ex_world_def)

lemma ex_quiet_ready: "ready ex_quiet"
  using ex_rivals by (simp add: ready_def ex_world_def ex_defs ok_defs ex_hash_def)

lemma ex_quiet_clean: "fst (runCycle ex_quiet) = Inr True"
  by code_simp

lemma ex_config: "config (env ex_world) = ex_cfg" "config (env ex_quiet) = ex_cfg" "db ex_world = ex_db"
  "lastPaymentCycle ex_world = None" "sent b ex_world = 0"
  by (simp_all add: ex_quiet_def ex_world_def ex_env_def sent_def)

end
