(* ===== verification/Payments_Properties.thy ===== *)
theory Payments_Properties
  imports Payments_Examples
begin

text \<open>
  The properties of the payout subsystem, each with an instance at a concrete input where
  it has hypotheses.
\<close>

section \<open>The payout cycle\<close>

text \<open>
  C1. Whatever the wallet, the database connections and the lock do, and while between any
  two awaited calls the other processes of the pool take any steps of the durable batch
  state machine (a second payout process with a stale view, the block manager's
  credits and new balances, the API's writes to the users table), a payout cycle changes the
  tables only by steps of that machine, and the table invariant (keys, row well-formedness,
  and the balance pins of exactly the batches in flight) holds when it returns. Operator
  scripts that edit balances or batches by hand while the cycle runs are excluded.
\<close>

theorem cycle_only_steps:
  assumes "ready w" "plan_config_ok (config (env w))"
  shows "reaches db_step (db w) (db (snd (runCycle w))) \<and> db_ok (db (snd (runCycle w)))"
proof -
  obtain r w' where m: "runCycle w = (r, w')" by force
  have "\<exists>w1. safe w w1 \<and> db w' = db w1"
    using runCycle_result [OF assms m] by (auto simp: cycle_result_def idle_def)
  then obtain w1 where w1: "safe w w1" "db w' = db w1" by blast
  then have "reaches db_step (db w) (db w1)" by (simp add: safe_def)
  with w1 safe_db_ok [OF w1(1)] m show ?thesis by simp
qed

theorem cycle_only_steps_witness:
  "ready ex_world \<and> reaches db_step ex_db (db (snd (runCycle ex_world)))"
  using cycle_only_steps [of ex_world] ex_ready ex_cfg_ok by (simp add: ex_config)

text \<open>
  C2. A cycle calls the wallet's \<open>transfer\<close> at most once for a batch, never for a batch
  whose submit boundary had been crossed before, and only with the boundary durable.
\<close>

theorem at_most_one_transfer:
  assumes "ready w" "plan_config_ok (config (env w))"
  shows "sent b (snd (runCycle w)) = sent b w \<or>
     sent b (snd (runCycle w)) = sent b w + 1 \<and> started b (db (snd (runCycle w))) \<and> \<not> started b (db w)"
proof -
  obtain r w' where m: "runCycle w = (r, w')" by force
  have "\<exists>w1. safe w w1 \<and> db w' = db w1 \<and> wallet_log w' = wallet_log w1"
    using runCycle_result [OF assms m] by (auto simp: cycle_result_def idle_def)
  then obtain w1 where "safe w w1" "db w' = db w1" "sent b w' = sent b w1" using sent_cong by blast
  then show ?thesis using m by (auto simp: safe_def)
qed

theorem at_most_one_transfer_witness:
  "ready ex_world \<and> sent 1 (snd (runCycle ex_world)) \<le> 1"
  using at_most_one_transfer [of ex_world 1] ex_ready ex_cfg_ok
  by (auto simp: ex_config)

text \<open>
  C3. A clean cycle leaves no batch behind: every batch that existed when it began is
  finalized or released, every batch it sent to the wallet is finalized, fail-stop is not
  set, and the time of the last clean cycle is the clock.
\<close>

theorem clean_cycle_settles:
  assumes "ready w" "plan_config_ok (config (env w))" "fst (runCycle w) = Inr True"
  shows "(\<forall>b \<in> known w. has_status {Finalized, Retryable} b (db (snd (runCycle w)))) \<and>
     (\<forall>b. sent b (snd (runCycle w)) \<noteq> sent b w \<longrightarrow> has_status {Finalized} b (db (snd (runCycle w)))) \<and>
     \<not> isFailStop (snd (runCycle w)) \<and>
     lastPaymentCycle (snd (runCycle w)) = Some (clock (snd (runCycle w)) div 1000)"
proof -
  obtain w' where m: "runCycle w = (Inr True, w')" using assms(3) by (metis prod.collapse)
  obtain w1 where w1: "idle w w1" "\<forall>b \<in> known w. has_status {Finalized, Retryable} b (db w1)"
      "\<not> isFailStop w'" "w' = w1\<lparr>lastPaymentCycle := Some (clock w1 div 1000)\<rparr>"
    using runCycle_result [OF assms(1,2) m] by (auto simp: cycle_result_def)
  have "sent b w' = sent b w1" for b by (rule sent_cong) (simp add: w1(4))
  with w1 m show ?thesis by (simp add: idle_def sent_done_def)
qed

theorem clean_cycle_settles_witness:
  "fst (runCycle ex_quiet) = Inr True \<and> known ex_quiet = {0} \<and>
   has_status {Finalized, Retryable} 0 (db (snd (runCycle ex_quiet))) \<and>
   \<not> isFailStop (snd (runCycle ex_quiet))"
proof -
  have "known ex_quiet = {0}" by (auto simp: known_def ex_quiet_def ex_world_def split: if_splits)
  then show ?thesis
    using clean_cycle_settles [of ex_quiet] ex_quiet_ready ex_quiet_clean ex_cfg_ok by (simp add: ex_config)
qed

text \<open>
  A cycle always returns a verdict (no error escapes), and one that is not clean
  leaves the time of the last clean cycle as it was.
\<close>

theorem unclean_cycle_keeps_time:
  assumes "ready w" "plan_config_ok (config (env w))"
  shows "fst (runCycle w) = Inr True \<or>
     fst (runCycle w) = Inr False \<and> lastPaymentCycle (snd (runCycle w)) = lastPaymentCycle w"
proof -
  obtain r w' where m: "runCycle w = (r, w')" by force
  from runCycle_result [OF assms m] m show ?thesis by (auto simp: cycle_result_def safe_def)
qed

theorem unclean_cycle_keeps_time_witness:
  "ready ex_world \<and> (fst (runCycle ex_world) = Inr True \<or>
     fst (runCycle ex_world) = Inr False \<and> lastPaymentCycle (snd (runCycle ex_world)) = None)"
  using unclean_cycle_keeps_time [of ex_world] ex_ready ex_cfg_ok by (simp add: ex_config)

text \<open>
  C4. Fail-stop is a latch: in fail-stop a cycle returns at once and changes nothing, so
  nothing is planned, reserved, submitted or written, and the first reason stays.
\<close>

theorem fail_stop_latch:
  assumes "isFailStop w"
  shows "runCycle w = (Inr False, w) \<and> recoverPending source w = (Inr False, w) \<and>
     failStopReason (failStopState m b w) = failStopReason w \<and> isFailStop (failStopState m b w)"
  using assms
  by (auto simp: runCycle_def recoverPending_def prog_defs failStopState_def Let_def split: option.splits)

theorem fail_stop_latch_witness:
  "runCycle (failStopState ''lost'' None ex_world) = (Inr False, failStopState ''lost'' None ex_world)"
  using fail_stop_latch [of "failStopState ''lost'' None ex_world"] by (simp add: failStopState_def ex_world_def)

text \<open>
  Without the lock, or in fail-stop, a submit attempt ends before any wallet call and
  before any query: only the active batch id is noted.
\<close>

theorem submit_needs_lock:
  assumes "isFailStop w \<or> lockConnection w = None"
  shows "submitReservedBatch items w = (Inr Unresolved, w\<lparr>activeBatchId := Some (mem_id w)\<rparr>)"
  using assms by (auto simp: submitReservedBatch_def checkExclusiveAccess_def prog_defs)

theorem submit_needs_lock_witness:
  "submitReservedBatch [] ex_world = (Inr Unresolved, ex_world\<lparr>activeBatchId := Some 0\<rparr>)"
  using submit_needs_lock [of ex_world "[]"] by (simp add: ex_world_def)

text \<open>
  The lock check is fail-stop: it succeeds only when the server reports this
  process's own connection as the owner, and every other outcome (another owner, no owner,
  a failed query, a connection that closed) leaves the runtime in fail-stop.
\<close>

theorem lock_lost_stops:
  assumes "lockConnection w = Some c"
  shows "fst (verifyAdvisoryLock w) = Inr True \<and>
       (\<exists>c'. lockConnection (snd (verifyAdvisoryLock w)) = Some c' \<and>
          (\<exists>v. lock_reply (env (await_step w)) (awaits (await_step w)) = Inr v \<and>
               querySingleValue v ''owner_id'' = Some (of_nat c'))) \<or>
     fst (verifyAdvisoryLock w) = Inr False \<and> isFailStop (snd (verifyAdvisoryLock w))"
proof -
  have stop: "fst (enterFailStop m k v) = Inr False \<and> isFailStop (snd (enterFailStop m k v))" for m k v
    by (auto simp: enterFailStop_def prog_defs failStopState_def Let_def split: option.splits)
  let ?w = "await_step w"
  show ?thesis
  proof (cases "lock_reply (env ?w) (awaits ?w)")
    case (Inl e)
    then have "verifyAdvisoryLock w = enterFailStop (''advisory lock check failed: '' @ e) None (clearAdvisoryLockConnection ?w)"
      using assms by (simp add: verifyAdvisoryLock_def lockQuery_def prog_defs)
    then show ?thesis using stop by simp
  next
    case (Inr v)
    then have "verifyAdvisoryLock w =
        (if querySingleValue v ''owner_id'' = None \<or> querySingleValue v ''owner_id'' \<noteq> map_option of_nat (lockConnection ?w)
         then enterFailStop ''lost advisory lock'' None ?w else (Inr True, ?w))"
      using assms stop [of "''lost advisory lock''" None ?w]
      by (auto simp: verifyAdvisoryLock_def lockQuery_def prog_defs enterFailStop_def)
    then show ?thesis using stop Inr by (cases "lockConnection ?w") auto
  qed
qed

theorem lock_lost_stops_witness:
  "fst (verifyAdvisoryLock (ex_world\<lparr>lockConnection := Some 8\<rparr>)) = Inr False \<and>
   isFailStop (snd (verifyAdvisoryLock (ex_world\<lparr>lockConnection := Some 8\<rparr>)))"
proof -
  have "fst (verifyAdvisoryLock (ex_world\<lparr>lockConnection := Some 8\<rparr>)) = Inr False" by code_simp
  with lock_lost_stops [of "ex_world\<lparr>lockConnection := Some 8\<rparr>" 8] show ?thesis by simp
qed

section \<open>The batch state machine, for every interleaving\<close>

text \<open>
  C5. Conservation of funds: along any sequence of steps by any number of processes, the
  sum of all balances and of everything paid out (amounts and charged fees) grows by
  exactly the credits of the block manager; no payout step creates or loses money.
\<close>

theorem funds_conserved:
  assumes "accum db_step c d d'" "db_ok d"
  shows "funds d' = funds d + c"
  using assms by (rule pay.run_total)

theorem funds_conserved_witness:
  "\<exists>d'. accum db_step 0 ex_db d' \<and> funds d' = 128 \<and> bal_pending (the (map_of (balances d') 5)) = Some 1"
proof -
  have r: "reserveTransaction 0 ex_plan ex_db = Inr (1, ex_reserved_db)" by code_simp
  have p: "plan_ok ex_plan" by (simp add: plan_ok_def ex_defs)
  have a: "accum db_step 0 ex_db ex_reserved_db" by (rule accum_single, rule db_step.reserve [OF r p])
  have "funds ex_db = 128" by (simp add: funds_def ex_defs)
  with funds_conserved [OF a ex_db_ok] have "funds ex_reserved_db = 128" by simp
  with a show ?thesis by (intro exI [of _ ex_reserved_db]) (simp add: ex_defs)
qed

text \<open>
  The tables refine the documented state machine: a step leaves the status of an
  existing batch or moves it along one of the documented transitions, and never changes
  its type, its gross or its net total.
\<close>

theorem documented_transitions:
  assumes "db_step c d d'" "db_ok d" "map_of (batches d) b = Some r"
  shows "\<exists>r'. map_of (batches d') b = Some r' \<and> (status r' = status r \<or> batch_edge (status r) (status r')) \<and>
     batchType r' = batchType r \<and> total_gross r' = total_gross r \<and> total_net r' = total_net r"
  using db_step_row_move [OF assms] by (auto simp: row_move_def)

theorem documented_transitions_witness:
  "\<exists>d'. db_step 0 ex_reserved_db d' \<and> status (the (map_of (batches d') 1)) = Submitting \<and>
     batch_edge Reserved Submitting"
proof -
  obtain d' where q: "claimQuery 1 Reserved 3 ex_reserved_db = (1, d')"
      and d': "d' = ex_reserved_db\<lparr>batches := [(1, claim_fields 3 (reserved_row 0 ex_plan))]\<rparr>"
    by (simp add: claimQuery_def ex_reserved_db_def update_where_def count_where_def reserved_row_def)
  have s: "db_step 0 ex_reserved_db d'" using q by (rule db_step.claim) simp
  have "map_of (batches ex_reserved_db) 1 = Some (reserved_row 0 ex_plan)" by (simp add: ex_reserved_db_def)
  from documented_transitions [OF s ex_reserved_ok this] s show ?thesis
    by (intro exI [of _ d']) (simp add: d' claim_fields_def)
qed

text \<open>
  A batch that is finalized, released or in manual review is never touched again
  (reconcile bookkeeping columns apart), and the submit time of a batch is written once:
  no stale process can reopen, regress or overwrite it.
\<close>

theorem settled_forever:
  assumes "reaches db_step d d'" "db_ok d" "map_of (batches d) b = Some r"
  shows "\<exists>r'. map_of (batches d') b = Some r' \<and> (settled (status r) \<longrightarrow> core r' = core r) \<and>
     (submit_started_at r \<noteq> None \<longrightarrow> submit_started_at r' = submit_started_at r)"
proof -
  obtain r' where r': "map_of (batches d') b = Some r'" using reaches_row [OF assms] by blast
  moreover have "core r' = core r" if "settled (status r)" using reaches_settled [OF assms that] r' by simp
  moreover have "submit_started_at r' = submit_started_at r" if "submit_started_at r \<noteq> None"
    using reaches_submit_started [OF assms] that r' by force
  ultimately show ?thesis by blast
qed

theorem settled_forever_witness:
  "\<exists>d'. reaches db_step (db ex_quiet) d' \<and> d' \<noteq> db ex_quiet \<and>
     (\<exists>r'. map_of (batches d') 0 = Some r' \<and> core r' = core ex_done)"
proof -
  let ?d = "db ex_quiet"
  let ?d' = "?d\<lparr>balances := balances ?d @ [(9, ex_balance\<lparr>bal_amount := 0\<rparr>)]\<rparr>"
  have ok: "db_ok ?d" "map_of (batches ?d) 0 = Some ex_done"
    using ex_quiet_ready by (simp_all add: ready_def ex_quiet_def)
  have "db_step 0 ?d ?d'"
    by (rule db_step.new_balance [OF refl]) (simp_all add: ex_quiet_def ex_balance_def)
  then have r: "reaches db_step ?d ?d'" by (rule reaches_one)
  have "settled (status ex_done)" by (simp add: ex_done_def settled_def)
  with settled_forever [OF r ok] have "\<exists>r'. map_of (batches ?d') 0 = Some r' \<and> core r' = core ex_done" by blast
  moreover have "?d' \<noteq> ?d" by (simp add: ex_quiet_def ex_db_def)
  ultimately show ?thesis using r by blast
qed

section \<open>The transactions\<close>

text \<open>
  Finalizing is exact and atomic: each balance of the batch was pinned to it, is
  reduced by exactly the gross amount of its item and unpinned; every other balance is
  untouched; one ledger transaction and one payment row per item are written; and the
  batch row is finalized under the same transaction id.
\<close>

theorem finalize_effects:
  assumes ok: "db_ok d" and it: "same_payouts items (items_of d b)"
    and fin: "finalizeTransaction cfg t b batch items k d = Inr (tid, d')"
  shows "(\<forall>i \<in> set items. \<exists>r. map_of (balances d) (balanceId i) = Some r \<and> bal_pending r = Some b \<and>
       map_of (balances d') (balanceId i) = Some (r\<lparr>bal_amount := bal_amount r - grossAmount i, bal_pending := None\<rparr>)) \<and>
     (\<forall>j. j \<notin> balanceId ` set items \<longrightarrow> map_of (balances d') j = map_of (balances d) j) \<and>
     payments d' = payments d @ map (payment_record t tid) items \<and>
     transactions d' = transactions d @ [(tid, transaction_record cfg batch items)] \<and>
     (\<exists>r. map_of (batches d') b = Some r \<and> status r = Finalized \<and> transaction_id r = Some tid)"
proof -
  let ?P = "\<lambda>i r. bal_pending r = Some b \<and> i \<in> set (map balanceId items)"
  from fin obtain d2 where cas: "cas_batch b (finalize_fields t tid batch k) [status batch] guard_nulls d = Inr (1, d2)"
    and d': "d' = d2\<lparr>transactions := transactions d @ [(tid, transaction_record cfg batch items)],
             next_transaction_id := tid + 1, payments := payments d @ map (payment_record t tid) items,
             balances := update_where ?P
                (\<lambda>i r. r\<lparr>bal_amount := bal_amount r - case_gross items i, bal_pending := None\<rparr>) (balances d)\<rparr>"
    and cnt: "count_where ?P (balances d) = length (map balanceId items)"
    by (rule finalizeTransaction_Inr)
  have dist: "distinct (map balanceId items)" using items_distinct [OF ok it] .
  have gross: "case_gross items (balanceId i) = grossAmount i" if "i \<in> set items" for i
  proof -
    have "map_of (map (\<lambda>i. (balanceId i, grossAmount i)) items) (balanceId i) = Some (grossAmount i)"
      using that dist by (intro map_of_is_SomeI) (auto simp: comp_def)
    then show ?thesis by (simp add: case_gross_def)
  qed
  have bal: "map_of (balances d') j = (case map_of (balances d) j of None \<Rightarrow> None | Some r \<Rightarrow>
      Some (if ?P j r then r\<lparr>bal_amount := bal_amount r - case_gross items j, bal_pending := None\<rparr> else r))" for j
    by (simp add: d' map_of_update_where split: option.split)
  have keys: "mset (map fst (filter (\<lambda>(i, r). ?P i r) (balances d))) = mset (map balanceId items)"
    using hit_keys [of "balances d" "map balanceId items" "\<lambda>r. bal_pending r = Some b"] cnt ok dist
    by (simp add: conj_commute db_ok_def keys_ok_def)
  have pinned: "\<exists>r. map_of (balances d) (balanceId i) = Some r \<and> bal_pending r = Some b" if "i \<in> set items" for i
  proof -
    have "balanceId i \<in> set (map fst (filter (\<lambda>(i, r). ?P i r) (balances d)))"
      using mset_eq_setD [OF keys] that by auto
    then show ?thesis using ok by (auto simp: db_ok_def keys_ok_def)
  qed
  obtain r0 where "map_of (batches d) b = Some r0" "cas_match b [status batch] guard_nulls b r0"
    using cas_hit [OF ok cas] by blast
  then have "\<exists>r. map_of (batches d') b = Some r \<and> status r = Finalized \<and> transaction_id r = Some tid"
    using map_of_cas [OF cas, of b] by (simp add: d' finalize_fields_def)
  moreover have "\<forall>i \<in> set items. \<exists>r. map_of (balances d) (balanceId i) = Some r \<and> bal_pending r = Some b \<and>
       map_of (balances d') (balanceId i) = Some (r\<lparr>bal_amount := bal_amount r - grossAmount i, bal_pending := None\<rparr>)"
    using pinned gross by (fastforce simp: bal)
  moreover have "\<forall>j. j \<notin> balanceId ` set items \<longrightarrow> map_of (balances d') j = map_of (balances d) j"
    by (simp add: bal split: option.split)
  moreover have "payments d' = payments d @ map (payment_record t tid) items"
    "transactions d' = transactions d @ [(tid, transaction_record cfg batch items)]" by (simp_all add: d')
  ultimately show ?thesis by blast
qed

theorem finalize_effects_witness:
  "\<exists>d'. finalizeTransaction ex_cfg 9 1 ex_submitted_row (item_records 1 0 [ex_item]) ''key'' ex_submitted_db = Inr (1, d') \<and>
     map_of (balances d') 5 = Some (ex_balance\<lparr>bal_amount := 0\<rparr>) \<and> length (payments d') = 1"
proof -
  let ?f = "finalizeTransaction ex_cfg 9 1 ex_submitted_row (item_records 1 0 [ex_item]) ''key'' ex_submitted_db"
  have "isl ?f = False \<and> fst (projr ?f) = 1" by code_simp
  then obtain d' where f: "?f = Inr (1, d')" by (cases ?f) auto
  have it: "same_payouts (item_records 1 0 [ex_item]) (items_of ex_submitted_db 1)"
    by (simp add: same_payouts_def items_of_def ex_submitted_db_def item_records_def item_record_def)
  from finalize_effects [OF ex_submitted_ok it f] f show ?thesis
    by (simp add: item_records_def item_record_def ex_defs)
qed

text \<open>
  Releasing a reservation happens only before the submit boundary and does nothing
  to money: the row had no submit time, hash or key; the batch becomes retryable; exactly
  its own balances are unpinned, with their amounts kept. A release that finds the batch
  moved on changes nothing.
\<close>

theorem release_effects:
  assumes ok: "db_ok d" and rel: "releaseTransaction t b e m d = Inr (x, d')"
  shows "x \<and> (\<exists>r. map_of (batches d) b = Some r \<and> status r = e \<and> submit_started_at r = None \<and> tx_hash r = None \<and>
         map_of (batches d') b = Some (release_fields t m r)) \<and>
       (\<forall>j. map_of (balances d') j = map_option (\<lambda>r. if bal_pending r = Some b then r\<lparr>bal_pending := None\<rparr> else r)
              (map_of (balances d) j)) \<or>
     \<not> x \<and> d' = d"
proof -
  from rel obtain n d1 where c: "cas_batch b (release_fields t m) [e] release_nulls d = Inr (n, d1)" and x: "x = (n = 1)"
    and d': "d' = (if n = 1 then d1\<lparr>balances := update_where (\<lambda>_ r. bal_pending r = Some b) (\<lambda>_ r. r\<lparr>bal_pending := None\<rparr>) (balances d1)\<rparr> else d1)"
    by (rule releaseTransaction_cases)
  note c1 = cas_batch_Inr [OF c]
  show ?thesis
  proof (cases "n = 1")
    case True
    with c have "cas_batch b (release_fields t m) [e] release_nulls d = Inr (1, d1)" by simp
    from cas_hit [OF ok this] obtain r where r: "map_of (batches d) b = Some r" "cas_match b [e] release_nulls b r" by blast
    then have "map_of (batches d') b = Some (release_fields t m r)"
      using map_of_cas [OF c, of b] True by (simp add: d')
    moreover have "map_of (balances d') j = map_option (\<lambda>r. if bal_pending r = Some b then r\<lparr>bal_pending := None\<rparr> else r)
        (map_of (balances d) j)" for j
      using True by (simp add: d' c1(1) map_of_update_where split: option.split)
    ultimately show ?thesis using r True x by (auto simp: release_nulls_match)
  next
    case False
    then have "count_where (cas_match b [e] release_nulls) (batches d) = 0"
      using cas_count_le_1 [OF ok c] c1(3) by linarith
    then have "update_where (cas_match b [e] release_nulls) (\<lambda>_. release_fields t m) (batches d) = batches d"
      by (intro update_where_none) (auto simp: count_where_0)
    then show ?thesis using False x by (simp add: d' c1(1))
  qed
qed

theorem release_effects_witness:
  "\<exists>d'. releaseTransaction 9 1 Reserved ''restart'' ex_reserved_db = Inr (True, d') \<and>
     map_of (balances d') 5 = Some ex_balance"
proof -
  let ?f = "releaseTransaction 9 1 Reserved ''restart'' ex_reserved_db"
  have "isl ?f = False \<and> fst (projr ?f)" by code_simp
  then obtain d' where f: "?f = Inr (True, d')" by (cases ?f) auto
  from release_effects [OF ex_reserved_ok f] f show ?thesis by (simp add: ex_defs)
qed

text \<open>
  Reserving is all or nothing: it succeeds only if every planned balance exists once
  and is unpinned, and then pins exactly those balances to a fresh batch whose items are
  the planned ones, changing no amount.
\<close>

theorem reserve_effects:
  assumes ok: "db_ok d" and res: "reserveTransaction t plan d = Inr (b, d')"
  shows "map_of (batches d) b = None \<and> map_of (batches d') b = Some (reserved_row t plan) \<and>
     items_of d' b = item_records b t (plan_items plan) \<and>
     (\<forall>it \<in> set (plan_items plan). \<exists>r. map_of (balances d) (balanceId it) = Some r \<and> bal_pending r = None \<and>
        map_of (balances d') (balanceId it) = Some (r\<lparr>bal_pending := Some b\<rparr>)) \<and>
     (\<forall>j. j \<notin> balanceId ` set (plan_items plan) \<longrightarrow> map_of (balances d') j = map_of (balances d) j)"
proof -
  let ?ids = "map balanceId (plan_items plan)"
  let ?P = "\<lambda>i r. i \<in> set ?ids \<and> bal_pending r = None"
  note r = reserveTransaction_Inr [OF res]
  have new: "map_of (batches d) b = None"
    using ok r(1) by (auto simp: db_ok_def keys_ok_def map_of_eq_None_iff)
  have keys: "mset (map fst (filter (\<lambda>(i, r). ?P i r) (balances d))) = mset ?ids"
    using hit_keys [of "balances d" ?ids "\<lambda>r. bal_pending r = None"] r(2,4) ok by (simp add: db_ok_def keys_ok_def)
  have free: "\<exists>r. map_of (balances d) (balanceId it) = Some r \<and> bal_pending r = None" if "it \<in> set (plan_items plan)" for it
  proof -
    have "balanceId it \<in> set (map fst (filter (\<lambda>(i, r). ?P i r) (balances d)))"
      using mset_eq_setD [OF keys] that by auto
    then show ?thesis using ok by (auto simp: db_ok_def keys_ok_def)
  qed
  have bal: "map_of (balances d') j = (case map_of (balances d) j of None \<Rightarrow> None
      | Some r \<Rightarrow> Some (if ?P j r then r\<lparr>bal_pending := Some b\<rparr> else r))" for j
    by (simp add: r(5) map_of_update_where split: option.split)
  have "\<forall>it \<in> set (plan_items plan). \<exists>r. map_of (balances d) (balanceId it) = Some r \<and> bal_pending r = None \<and>
        map_of (balances d') (balanceId it) = Some (r\<lparr>bal_pending := Some b\<rparr>)"
    using free by (fastforce simp: bal)
  moreover have "\<forall>j. j \<notin> balanceId ` set (plan_items plan) \<longrightarrow> map_of (balances d') j = map_of (balances d) j"
    by (simp add: bal split: option.split)
  ultimately show ?thesis
    using new map_of_batches_reserve [OF ok res, of b] items_of_reserve [OF ok res, of b] by simp
qed

theorem reserve_effects_witness:
  "\<exists>b d'. reserveTransaction 0 ex_plan ex_db = Inr (b, d') \<and> map_of (balances d') 5 = Some (ex_balance\<lparr>bal_pending := Some b\<rparr>)"
proof -
  have f: "reserveTransaction 0 ex_plan ex_db = Inr (1, ex_reserved_db)" by code_simp
  from reserve_effects [OF ex_db_ok f] f show ?thesis by (simp add: ex_defs)
qed

section \<open>Planning\<close>

text \<open>
  C6. The plan: every item of every batch belongs to a free balance without a payment id
  that reached the wallet minimum, pays a whole positive number of atomic units, charges
  a fee between zero and the configured one, and takes no more than the balance holds;
  gross is net plus fee with no rounding; no recipient and no balance occurs twice.
\<close>

theorem plan_items_sound:
  assumes "plan_config_ok cfg" "isSafeInteger (maxPaymentTxns cfg)" "0 < maxPaymentTxns cfg"
    "distinct (map fst (balances d))"
  shows "(let its = concat (map plan_items (batchesOfRows cfg (selectPayoutRows (payoutAtomic cfg walletMin) d)))
     in distinct (map paymentAddress its) \<and> distinct (map balanceId its) \<and>
        (\<forall>it \<in> set its. grossAmount it = netAmount it + feeAmount it \<and> 0 < netAmount it \<and> netAmount it \<in> \<int> \<and>
           0 \<le> feeAmount it \<and> feeAmount it \<le> payoutAtomic cfg feeSlewAmount \<and>
           (\<exists>r. (balanceId it, r) \<in> set (balances d) \<and> bal_pending r = None \<and> bal_payment_id r = None \<and>
                payoutAtomic cfg walletMin \<le> bal_amount r \<and>
                paymentAddress it = bal_address r \<and> grossAmount it \<le> fl (bal_amount r))))"
proof -
  let ?rows = "selectPayoutRows (payoutAtomic cfg walletMin) d"
  let ?its = "concat (map plan_items (batchesOfRows cfg ?rows))"
  note f = plan_items_fresh [OF assms, of "payoutAtomic cfg walletMin"]
  have "grossAmount it = netAmount it + feeAmount it \<and> 0 < netAmount it \<and> netAmount it \<in> \<int> \<and>
           0 \<le> feeAmount it \<and> feeAmount it \<le> payoutAtomic cfg feeSlewAmount \<and>
           (\<exists>r. (balanceId it, r) \<in> set (balances d) \<and> bal_pending r = None \<and> bal_payment_id r = None \<and>
                payoutAtomic cfg walletMin \<le> bal_amount r \<and>
                paymentAddress it = bal_address r \<and> grossAmount it \<le> fl (bal_amount r))" if "it \<in> set ?its" for it
  proof -
    from that f obtain row where row: "row \<in> set ?rows" "item_ok cfg row it" by (auto simp: fresh_items_def)
    have "grossAmount it \<in> \<int>" "feeAmount it \<in> \<int>" "grossAmount it = netAmount it + feeAmount it"
      using row(2) unfolding item_ok_def by blast+
    then have "netAmount it \<in> \<int>" by (metis Ints_diff add_diff_cancel_right')
    with row(2) selectPayoutRows_row [OF row(1)] show ?thesis unfolding item_ok_def by metis
  qed
  with f show ?thesis unfolding fresh_items_def Let_def by blast
qed

theorem plan_items_sound_witness:
  "batchesOfRows ex_cfg (selectPayoutRows (payoutAtomic ex_cfg walletMin) ex_db) = [ex_plan] \<and>
   grossAmount ex_item = netAmount ex_item + feeAmount ex_item \<and> feeAmount ex_item \<le> payoutAtomic ex_cfg feeSlewAmount"
proof -
  have p: "batchesOfRows ex_cfg (selectPayoutRows (payoutAtomic ex_cfg walletMin) ex_db) = [ex_plan]" by code_simp
  have "isSafeInteger (maxPaymentTxns ex_cfg)" "0 < maxPaymentTxns ex_cfg" "distinct (map fst (balances ex_db))"
    by code_simp+
  moreover have "plan_items ex_plan = [ex_item]" by (simp add: ex_plan_def)
  ultimately show ?thesis using plan_items_sound [OF ex_cfg_ok, of ex_db] p by (simp add: Let_def)
qed

text \<open>
  The shape of the plan: a batch is never empty, holds at most the configured number
  of destinations, and carries as totals the sums over its items, which are exact
  whenever they fit the safe integer range.
\<close>

theorem plan_shape:
  assumes "plan_config_ok cfg" "isSafeInteger (maxPaymentTxns cfg)" "0 < maxPaymentTxns cfg"
    "distinct (map fst (balances d))" "plan \<in> set (batchesOfRows cfg (selectPayoutRows minimum d))"
  shows "plan_items plan \<noteq> [] \<and> of_nat (length (plan_items plan)) \<le> maxPaymentTxns cfg \<and>
     (sum_list (map grossAmount (plan_items plan)) \<le> 2 ^ 53 \<longrightarrow>
        plan_totalGross plan = sum_list (map grossAmount (plan_items plan)) \<and>
        plan_totalNet plan = sum_list (map netAmount (plan_items plan)) \<and>
        plan_totalFee plan = sum_list (map feeAmount (plan_items plan)))"
proof -
  let ?its = "plan_items plan"
  note shape = batch_shape [OF assms]
  have ok: "netAmount it \<in> \<int> \<and> 0 \<le> netAmount it \<and> feeAmount it \<in> \<int> \<and> 0 \<le> feeAmount it \<and>
      grossAmount it \<in> \<int> \<and> grossAmount it = netAmount it + feeAmount it" if "it \<in> set ?its" for it
  proof -
    have "it \<in> set (concat (map plan_items (batchesOfRows cfg (selectPayoutRows minimum d))))"
      using assms(5) that by auto
    then obtain row where "item_ok cfg row it"
      using plan_items_fresh [OF assms(1-4), of minimum] by (auto simp: fresh_items_def)
    then have i: "grossAmount it \<in> \<int>" "feeAmount it \<in> \<int>" "grossAmount it = netAmount it + feeAmount it"
        "0 < netAmount it" "0 \<le> feeAmount it"
      unfolding item_ok_def by blast+
    then have "netAmount it \<in> \<int>" by (metis Ints_diff add_diff_cancel_right')
    with i show ?thesis by auto
  qed
  have le: "sum_list (map netAmount ?its) \<le> sum_list (map grossAmount ?its)"
    "sum_list (map feeAmount ?its) \<le> sum_list (map grossAmount ?its)"
    using ok by (auto intro!: sum_list_mono)
  have "plan_totalGross plan = sum_list (map grossAmount ?its) \<and> plan_totalNet plan = sum_list (map netAmount ?its) \<and>
      plan_totalFee plan = sum_list (map feeAmount ?its)" if "sum_list (map grossAmount ?its) \<le> 2 ^ 53"
    using shape ok le that unfolding totals_ok_def
    by (auto intro!: sumBy_exact)
  with shape show ?thesis by blast
qed

theorem plan_shape_witness:
  "ex_plan \<in> set (batchesOfRows ex_cfg (selectPayoutRows 32 ex_db)) \<and> length (plan_items ex_plan) \<le> 10 \<and>
   plan_totalNet ex_plan = sum_list (map netAmount (plan_items ex_plan))"
proof -
  have p: "ex_plan \<in> set (batchesOfRows ex_cfg (selectPayoutRows 32 ex_db))" by code_simp
  have "isSafeInteger (maxPaymentTxns ex_cfg)" "0 < maxPaymentTxns ex_cfg" "distinct (map fst (balances ex_db))"
    by code_simp+
  from plan_shape [OF ex_cfg_ok this p] p show ?thesis by (simp add: ex_defs ex_cfg_def)
qed

text \<open>
  The charged fee is a whole amount between zero and the configured base fee, and
  never grows with the payout, in double arithmetic with all its roundings.
\<close>

theorem charged_fee:
  assumes "fee_config_ok cfg" "g \<le> g'"
  shows "0 \<le> calculateChargeFee cfg g \<and> calculateChargeFee cfg g \<le> payoutAtomic cfg feeSlewAmount \<and>
     calculateChargeFee cfg g \<in> \<int> \<and> calculateChargeFee cfg g' \<le> calculateChargeFee cfg g"
  using charge_fee_bounds [OF assms(1)] charge_fee_antimono [OF assms] by blast

theorem charged_fee_witness:
  "fee_config_ok ex_cfg \<and> calculateChargeFee ex_cfg 128 = 4 \<and> calculateChargeFee ex_cfg 200 \<le> calculateChargeFee ex_cfg 128"
proof -
  have "fee_config_ok ex_cfg" "calculateChargeFee ex_cfg 128 = 4" by code_simp+
  with charged_fee [of ex_cfg 128 200] show ?thesis by simp
qed

text \<open>
  The wallet preflight passes only when the reported unlocked balance covers the
  batch and the fee buffer; a reply that is malformed or reports no unlocked balance
  never passes.
\<close>

theorem preflight_sound:
  assumes "fst (preflightWalletBalance (Some n) w) = Inr (Preflight_ok net total_req balance unlocked)"
  shows "net = n \<and> 0 \<le> n \<and> total_req = fl (n + safeWalletFeeAtomic (config (env w))) \<and> total_req \<le> unlocked \<and>
     (\<exists>reply. normalizeInteger (getf (getf reply ''result'') ''unlocked_balance'') = Some unlocked \<and>
        reply = wallet_reply (env w) (awaits w + 1))"
  using assms
  by (auto simp: preflightWalletBalance_def callWallet_def prog_defs Let_def await_step_def
      handleAdvisoryLockConnectionClose_def clearAdvisoryLockConnection_def failStopState_def
      split: if_splits option.splits)

theorem preflight_sound_witness:
  "fst (preflightWalletBalance (Some 124) ex_world) = Inr (Preflight_ok 124 140 (Some 10000) 10000) \<and> (140::num) \<le> 10000"
proof -
  have f: "fst (preflightWalletBalance (Some 124) ex_world) = Inr (Preflight_ok 124 140 (Some 10000) 10000)" by code_simp
  with preflight_sound [OF f] show ?thesis by simp
qed

section \<open>Matching wallet transfers and the post-submit search\<close>

text \<open>
  C7. A wallet transfer matches a batch exactly when it is a record with a time stamp
  not before the submit, carries no payment id unless the batch is one integrated
  payout, and its destinations are the payouts of the batch as a multiset. The counting
  loop of the source decides precisely this.
\<close>

theorem transfer_match_iff:
  "transferMatchesBatch batch items transfer \<longleftrightarrow>
     isRecord transfer \<and>
     (\<exists>ts. normalizeInteger (getf transfer ''timestamp'') = Some ts \<and> of_int (sqlTimestampToUnix (submit_started_at batch)) \<le> ts) \<and>
     (normalizePaymentId (getf transfer ''payment_id'') = None \<or>
        batchType batch \<noteq> Bulk \<and> length items = 1 \<and> isIntegratedAddress (paymentAddress (hd items))) \<and>
     (batchType batch = Bulk \<or> length items = 1) \<and>
     mset (map (\<lambda>item. (paymentAddress item, netAmount item)) items) = mset (normalizeTransferDestinations transfer)"
proof -
  have len: "length (normalizeTransferDestinations transfer) = length items"
    if "mset (map (\<lambda>item. (paymentAddress item, netAmount item)) items) = mset (normalizeTransferDestinations transfer)"
    using mset_eq_length [OF that] by simp
  show ?thesis
    unfolding transferMatchesBatch_def Let_def matching_loop_iff
    using len by (cases "normalizeInteger (getf transfer ''timestamp'')") auto
qed

text \<open>
  The searches that follow a submit, spelled out: \<open>nth_try search n w\<close> sleeps and searches
  in the world the \<open>n\<close> attempts before it left behind. \<open>asks k m\<close> says that \<open>m\<close> makes at
  most \<open>k\<close> wallet calls and that none of them is a transfer.
\<close>

definition one_try :: "'a pay \<Rightarrow> 'a pay" where
  "one_try search = andThen (sleepMs 0) (\<lambda>_. search)"

fun nth_try :: "'a pay \<Rightarrow> nat \<Rightarrow> 'a pay" where
  "nth_try search 0 w = one_try search w"
| "nth_try search (Suc n) w = nth_try search n (snd (one_try search w))"

fun undecided_match :: "string + wallet_match \<Rightarrow> bool" where
  "undecided_match (Inr No_match) = True"
| "undecided_match (Inr (Match_unavailable _)) = True"
| "undecided_match _ = False"

fun undecided_visibility :: "string + visibility \<Rightarrow> bool" where
  "undecided_visibility (Inr Vis_not_found) = True"
| "undecided_visibility (Inr (Vis_unavailable _)) = True"
| "undecided_visibility _ = False"

text \<open>The attempt that ends the search: every one before it was undecided, and it is decided, throws or is the last.\<close>

definition ends_at :: "nat \<Rightarrow> 'a pay \<Rightarrow> (string + 'a \<Rightarrow> bool) \<Rightarrow> pay_world \<Rightarrow> nat \<Rightarrow> bool" where
  "ends_at k search undecided w n \<longleftrightarrow> n < k \<and> (\<forall>i<n. undecided (fst (nth_try search i w))) \<and>
     (\<not> undecided (fst (nth_try search n w)) \<or> n = k - 1)"

definition asks :: "nat \<Rightarrow> 'a pay \<Rightarrow> bool" where
  "asks k m \<longleftrightarrow> (\<forall>w. \<exists>calls. wallet_log (snd (m w)) = wallet_log w @ calls \<and> length calls \<le> k \<and>
     ''transfer'' \<notin> fst ` set calls)"

lemma asks_none: "(\<And>w. wallet_log (snd (m w)) = wallet_log w) \<Longrightarrow> asks k m"
  by (simp add: asks_def)

lemma asks_ret: "asks k (ret x)" "asks k (throw e)" "asks k (gets f)"
  by (simp_all add: asks_none ret_def throw_def gets_def)

lemma asks_andThen: "asks j m \<Longrightarrow> (\<And>x. asks k (f x)) \<Longrightarrow> asks (j + k) (andThen m f)"
proof -
  assume m: "asks j m" and f: "\<And>x. asks k (f x)"
  show "asks (j + k) (andThen m f)"
    unfolding asks_def
  proof
    fix w
    obtain r v where mw: "m w = (r, v)" by force
    obtain cs where cs: "wallet_log v = wallet_log w @ cs" "length cs \<le> j" "''transfer'' \<notin> fst ` set cs"
      using m [unfolded asks_def, rule_format, of w] by (auto simp: mw)
    show "\<exists>calls. wallet_log (snd (andThen m f w)) = wallet_log w @ calls \<and> length calls \<le> j + k \<and>
        ''transfer'' \<notin> fst ` set calls"
    proof (cases r)
      case (Inl e)
      with cs show ?thesis by (auto simp: andThen_def mw)
    next
      case (Inr x)
      obtain ds where "wallet_log (snd (f x v)) = wallet_log v @ ds" "length ds \<le> k" "''transfer'' \<notin> fst ` set ds"
        using f [of x, unfolded asks_def, rule_format, of v] by auto
      with cs Inr show ?thesis by (intro exI [of _ "cs @ ds"]) (auto simp: andThen_def mw)
    qed
  qed
qed

lemma log_await_step [simp]: "wallet_log (await_step w) = wallet_log w"
  by (simp add: await_step_def Let_def handleAdvisoryLockConnectionClose_def clearAdvisoryLockConnection_def failStopState_def)

lemma asks_callWallet: "meth \<noteq> ''transfer'' \<Longrightarrow> asks 1 (callWallet meth params)"
  by (auto simp: asks_def callWallet_def andThen_def modify_def gets_def)

lemma asks_then_call: "meth \<noteq> ''transfer'' \<Longrightarrow> (\<And>x. asks k (f x)) \<Longrightarrow> asks (Suc k) (andThen (callWallet meth params) f)"
  using asks_andThen [OF asks_callWallet, of meth k f params] by simp

lemma asks_then_gets: "(\<And>x. asks k (f x)) \<Longrightarrow> asks k (andThen (gets g) f)"
  using asks_andThen [OF asks_ret(3) [of 0], of k f g] by simp

lemma asks_weaken: "asks j m \<Longrightarrow> j \<le> k \<Longrightarrow> asks k m"
  unfolding asks_def by (meson order_trans)

lemma asks_getTransfers: "1 \<le> k \<Longrightarrow> asks k (getTransfers params)"
proof (rule asks_weaken [of "Suc 0"])
  show "asks (Suc 0) (getTransfers params)"
    unfolding getTransfers_def by (rule asks_then_call) (auto simp: asks_ret split: option.split)
qed simp

lemma asks_loadWalletTransfers: "asks 2 (loadWalletTransfers b)"
  unfolding loadWalletTransfers_def Let_def numeral_2_eq_2
  by (auto intro!: asks_then_call asks_getTransfers simp: asks_ret split: option.split bool.split)

lemma asks_resolveTxKey: "(\<And>x. asks 0 (f x)) \<Longrightarrow> asks (Suc 0) (andThen (resolveTxKey h) f)"
proof -
  assume f: "\<And>x. asks 0 (f x)"
  have "asks (Suc 0) (resolveTxKey h)"
    unfolding resolveTxKey_def Let_def by (rule asks_then_call) (auto simp: asks_ret)
  from asks_andThen [OF this f] show ?thesis by simp
qed

lemma asks_findMatch: "asks 3 (findWalletTransferMatch items)"
proof -
  have "asks (2 + 1) (findWalletTransferMatch items)"
    unfolding findWalletTransferMatch_def
    by (rule asks_andThen [OF asks_loadWalletTransfers], rule asks_then_gets)
      (auto intro!: asks_resolveTxKey simp: asks_ret split: wallet_load.split list.split option.split tx_key_result.split)
  then show ?thesis by simp
qed

lemma asks_visibility: "asks 2 (findSubmittedTransferVisibility items)"
proof -
  have one: "asks 1 (loadWalletTransferByTxHash h)" for h
    unfolding loadWalletTransferByTxHash_def Let_def One_nat_def
    by (rule asks_then_call) (auto simp: asks_ret split: option.split)
  have load: "asks 1 (loadWalletTransfers False)"
    by (simp add: loadWalletTransfers_def asks_getTransfers)
  have then_loaded: "asks (Suc 0) (andThen (loadWalletTransfers False) f)"
    if "\<And>x. asks 0 (f x)" for f :: "wallet_load \<Rightarrow> wallet_load pay"
    using asks_andThen [OF load that] by simp
  have two: "asks (1 + 1) (loadSubmittedTransfersByTxHash h)" for h
    unfolding loadSubmittedTransfersByTxHash_def
    by (intro asks_andThen [OF one]) (auto intro!: then_loaded simp: asks_ret Let_def split: wallet_load.split)
  have "asks (1 + 1 + 0) (findSubmittedTransferVisibility items)"
    unfolding findSubmittedTransferVisibility_def
    by (rule asks_then_gets)
      (auto intro!: asks_andThen [OF two, of 0, simplified] asks_then_gets simp: asks_ret split: wallet_load.split option.split)
  then show ?thesis by (simp add: numeral_2_eq_2)
qed

lemma asks_one_try: "asks k search \<Longrightarrow> asks k (one_try search)"
  using asks_andThen [OF asks_none [of "sleepMs 0" 0], of k "\<lambda>_. search"]
  by (simp add: one_try_def sleepMs_def modify_def)

lemma asks_nth_try: "asks k search \<Longrightarrow> asks ((n + 1) * k) (nth_try search n)"
proof (induction n)
  case 0
  have "nth_try search 0 = one_try search" by (rule ext) simp
  then show ?case using asks_one_try [OF 0] by simp
next
  case (Suc n)
  note one = asks_one_try [OF Suc.prems]
  show ?case
    unfolding asks_def
  proof
    fix w
    obtain cs where "wallet_log (snd (one_try search w)) = wallet_log w @ cs" "length cs \<le> k" "''transfer'' \<notin> fst ` set cs"
      using one [unfolded asks_def, rule_format, of w] by auto
    moreover obtain ds where "wallet_log (snd (nth_try search n (snd (one_try search w)))) =
        wallet_log (snd (one_try search w)) @ ds" "length ds \<le> (n + 1) * k" "''transfer'' \<notin> fst ` set ds"
      using Suc.IH [OF Suc.prems, unfolded asks_def, rule_format, of "snd (one_try search w)"] by auto
    ultimately show "\<exists>calls. wallet_log (snd (nth_try search (Suc n) w)) = wallet_log w @ calls \<and>
        length calls \<le> (Suc n + 1) * k \<and> ''transfer'' \<notin> fst ` set calls"
      by (intro exI [of _ "cs @ ds"]) auto
  qed
qed

lemma retrySearch_ends:
  assumes "\<And>r. undecided r \<longleftrightarrow> (\<exists>x. r = Inr x \<and> again x)" "ds \<noteq> []"
  shows "\<exists>n. ends_at (length ds) search undecided w n \<and> retrySearch ds search again x w = nth_try search n w"
  using assms(2)
proof (induction ds arbitrary: w x)
  case (Cons d ds)
  obtain r v where t: "one_try search w = (r, v)" by force
  then have run: "retrySearch (d # ds) search again x w =
      (case r of Inl e \<Rightarrow> (Inl e, v) | Inr y \<Rightarrow> if \<not> again y then (Inr y, v) else retrySearch ds search again y v)"
    by (cases r) (auto simp: one_try_def andThen_def sleepMs_def modify_def ret_def split: prod.splits sum.splits)
  show ?case
  proof (cases "undecided r \<and> ds \<noteq> []")
    case True
    then obtain y where y: "r = Inr y" "again y" using assms(1) by blast
    from Cons.IH [of v y] True obtain n where n: "ends_at (length ds) search undecided v n"
        "retrySearch ds search again y v = nth_try search n v" by blast
    have "ends_at (length (d # ds)) search undecided w (Suc n)"
      using n(1) True t by (auto simp: ends_at_def less_Suc_eq_0_disj)
    with n(2) run y t show ?thesis by (intro exI [of _ "Suc n"]) simp
  next
    case False
    have "retrySearch (d # ds) search again x w = (r, v)"
    proof (cases "undecided r")
      case True
      then obtain y where "r = Inr y" "again y" using assms(1) by blast
      with False True show ?thesis unfolding run by (simp add: ret_def)
    next
      case False
      with assms(1) show ?thesis unfolding run by (auto split: sum.split)
    qed
    with False t show ?thesis by (intro exI [of _ 0]) (auto simp: ends_at_def)
  qed
qed simp

lemma retryPostSubmitSearch_ends:
  assumes "\<And>r. undecided r \<longleftrightarrow> (\<exists>x. r = Inr x \<and> again x)"
  shows "\<exists>n. ends_at 5 search undecided w n \<and> retryPostSubmitSearch search again w = nth_try search n w"
proof -
  have five: "length SUBMIT_SEARCH_DELAYS_MS = 5" and some: "SUBMIT_SEARCH_DELAYS_MS \<noteq> []"
    by (simp_all add: SUBMIT_SEARCH_DELAYS_MS_def)
  have "retryPostSubmitSearch search again w = retrySearch SUBMIT_SEARCH_DELAYS_MS search again x w" for x
    by (simp add: retryPostSubmitSearch_def SUBMIT_SEARCH_DELAYS_MS_def)
  with retrySearch_ends [OF assms some, where search = search and w = w] show ?thesis by (simp only: five)
qed

lemma asks_ends:
  assumes "asks k search" "\<And>w. \<exists>n. ends_at 5 search undecided w n \<and> p w = nth_try search n w"
  shows "asks (5 * k) p"
  unfolding asks_def
proof
  fix w
  obtain n where n: "n < 5" "p w = nth_try search n w" using assms(2) [of w] by (auto simp: ends_at_def)
  have "asks (5 * k) (nth_try search n)"
    using asks_nth_try [OF assms(1), of n] by (rule asks_weaken) (use n(1) in simp)
  with n(2) show "\<exists>calls. wallet_log (snd (p w)) = wallet_log w @ calls \<and> length calls \<le> 5 * k \<and>
      ''transfer'' \<notin> fst ` set calls"
    unfolding asks_def by simp
qed

text \<open>
  C8. After a submit both searches make between one and five attempts: they go on exactly
  while an attempt found no transfer or could not ask the wallet, stop at the first
  attempt that is decided or throws, and return what the last attempt returned, in the
  state it left. On the way they make at most fifteen (ten) wallet calls, whatever the wallet
  answers, and never the call that sends money.
\<close>

theorem post_submit_searches_end:
  "(\<exists>n. ends_at 5 (findWalletTransferMatch items) undecided_match w n \<and>
      findWalletTransferMatchAfterSubmit items w = nth_try (findWalletTransferMatch items) n w) \<and>
   (\<exists>n. ends_at 5 (findSubmittedTransferVisibility items) undecided_visibility w n \<and>
      findSubmittedTransferVisibilityAfterSubmit items w = nth_try (findSubmittedTransferVisibility items) n w) \<and>
   asks 15 (findWalletTransferMatchAfterSubmit items) \<and> asks 10 (findSubmittedTransferVisibilityAfterSubmit items)"
proof -
  have m: "undecided_match r \<longleftrightarrow> (\<exists>x. r = Inr x \<and> (case x of Match_unavailable _ \<Rightarrow> True | No_match \<Rightarrow> True | _ \<Rightarrow> False))" for r
    by (cases r rule: undecided_match.cases) auto
  have v: "undecided_visibility r \<longleftrightarrow> (\<exists>x. r = Inr x \<and> (case x of Vis_unavailable _ \<Rightarrow> True | Vis_not_found \<Rightarrow> True | Visible \<Rightarrow> False))" for r
    by (cases r rule: undecided_visibility.cases) auto
  note em = retryPostSubmitSearch_ends [OF m, of "findWalletTransferMatch items", folded findWalletTransferMatchAfterSubmit_def]
  note ev = retryPostSubmitSearch_ends [OF v, of "findSubmittedTransferVisibility items",
    folded findSubmittedTransferVisibilityAfterSubmit_def]
  have "asks 15 (findWalletTransferMatchAfterSubmit items)" using asks_ends [OF asks_findMatch em] by simp
  moreover have "asks 10 (findSubmittedTransferVisibilityAfterSubmit items)" using asks_ends [OF asks_visibility ev] by simp
  ultimately show ?thesis using em ev by blast
qed

text \<open>
  A transaction hash taken from the wallet is canonical: 64 lower-case hexadecimal
  digits, and normalizing it again gives the same text.
\<close>

theorem hash_canonical:
  assumes "normalizeHash v = Some h"
  shows "length h = 64 \<and> list_all is_hex h \<and> normalizeHash (JStr h) = Some h"
  using assms by (rule normalizeHash_canonical)

theorem hash_canonical_witness:
  "normalizeHash (JStr ('' '' @ replicate 64 CHR ''A'')) = Some ex_hash \<and> normalizeHash (JStr ex_hash) = Some ex_hash"
proof -
  have f: "normalizeHash (JStr ('' '' @ replicate 64 CHR ''A'')) = Some ex_hash" by code_simp
  with hash_canonical [OF f] show ?thesis by simp
qed

text \<open>
  Amounts survive the text round trip: the decimal text of a whole amount up to
  2^53, as SQL and wallet replies carry it, is read back as that amount.
\<close>

theorem amount_text_roundtrip:
  assumes "0 \<le> n" "n \<le> 2 ^ 53"
  shows "normalizeInteger (JStr (int_digits n)) = Some (of_int n)"
  using assms by (rule normalizeInteger_digits)

theorem amount_text_roundtrip_witness: "normalizeInteger (JStr (int_digits 1500)) = Some 1500"
  using amount_text_roundtrip [of 1500] by simp

text \<open>
  The submit time in the process's batch object is the stored one shifted by the
  offset of the local time zone: the text is printed in local time and read back as UTC.
  On a host that does not run in UTC the lower bound of the transfer match is off by the
  offset until the row is read again.
\<close>

theorem submit_time_skew:
  assumes "claimBatchForSubmit e w = (Inr True, w')" "distinct (map fst (batches (db (await_step w))))"
  shows "\<exists>t r. map_of (batches (db w')) (mem_id w) = Some r \<and> submit_started_at r = Some t \<and>
     submit_started_at (mem w') = Some (t + tz_offset (config (env w)))"
proof -
  let ?b = "mem_id w" and ?t = "dbTime w (currentTime w)"
  let ?q = "\<lambda>d. Inr (claimQuery ?b e ?t d) :: string + nat \<times> pay_db"
  let ?d = "db (await_step w)"
  have c: "(case query ?q w of (Inl x, v) \<Rightarrow> False
      | (Inr n, v) \<Rightarrow> n = 1 \<and> w' = v\<lparr>mem := claim_fields (currentTime w) (mem v)\<rparr>)"
    using assms(1)
    by (auto simp: claimBatchForSubmit_def prog_defs split: prod.splits sum.splits if_splits option.splits)
  then obtain v where q: "query ?q w = (Inr 1, v)" "w' = v\<lparr>mem := claim_fields (currentTime w) (mem v)\<rparr>"
    by (auto split: prod.splits sum.splits)
  then have d: "claimQuery ?b e ?t ?d = (1, db w')"
    by (auto simp: query_def Let_def split: sql_outcome.splits prod.splits)
  note d' = claimQuery_eq [OF d]
  then have "count_where (\<lambda>i r. i = ?b \<and> status r = e) (batches ?d) \<noteq> 0" by simp
  then obtain r where "(?b, r) \<in> set (batches ?d)" "status r = e" by (auto simp: count_where_0)
  with assms(2) have "map_of (batches ?d) ?b = Some r" "status r = e" by (auto simp: map_of_is_SomeI)
  then have "map_of (batches (db w')) ?b = Some (claim_fields ?t r)" using d' by (simp add: map_of_update_where)
  then show ?thesis using q(2) by (intro exI [of _ ?t]) (simp add: claim_fields_def dbTime_def)
qed

theorem submit_time_skew_witness:
  "\<exists>w' r t. claimBatchForSubmit Reserved
       (ex_world\<lparr>mem_id := 1, db := ex_reserved_db, env := ex_env\<lparr>config := ex_cfg\<lparr>tz_offset := 3600\<rparr>\<rparr>\<rparr>) = (Inr True, w') \<and>
     map_of (batches (db w')) 1 = Some r \<and> submit_started_at r = Some t \<and> submit_started_at (mem w') = Some (t + 3600)"
proof -
  let ?w = "ex_world\<lparr>mem_id := 1, db := ex_reserved_db, env := ex_env\<lparr>config := ex_cfg\<lparr>tz_offset := 3600\<rparr>\<rparr>\<rparr>"
  have f: "fst (claimBatchForSubmit Reserved ?w) = Inr True" by code_simp
  have d: "distinct (map fst (batches (db (await_step ?w))))" by code_simp
  obtain w' where w': "claimBatchForSubmit Reserved ?w = (Inr True, w')" using f by (metis prod.collapse)
  from submit_time_skew [OF w' d] w' show ?thesis by auto
qed

end
