(* ===== verification/Local_Db.thy ===== *)
theory Local_Db
  imports Js_Value "HOL-Library.AList"
begin

text \<open>
  The local store of \<open>src/lib/common/local_comms.js\<close>: found blocks keyed by height,
  blocks of the other chains keyed by a serial number, shares keyed by the height of the
  main chain, and a cache of JSON values. Keys are unsigned 32-bit integers, and a cursor
  walks a table in the order of the keys; tables are lists of rows in that order.

  Rows hold decoded messages: the protobuf codec is an external package. A write
  transaction commits all its puts or none, so each operation is a function on the store
  or an error. \<open>Number.isFinite\<close> numbers are rationals (\<open>Js_Number\<close>).
\<close>

subsection \<open>Messages and tables\<close>

definition PPLNS :: nat where
  "PPLNS = 0"

record block_msg =
  b_hash :: string
  b_difficulty :: num
  b_shares :: num
  b_timestamp :: int
  b_poolType :: nat
  b_unlocked :: bool
  b_valid :: bool
  b_value :: "num option"
  b_pay_ready :: "bool option"

record alt_msg = block_msg +
  a_port :: int
  a_height :: int
  a_anchor_height :: int
  a_pay_value :: "num option"
  a_pay_stage :: "string option"
  a_pay_status :: "string option"

text \<open>
  A share; \<open>sh_shares2\<close> is absent when the field is missing or not a finite number. A
  stored share that fails to decode is \<open>None\<close> in the table.
\<close>

record share_msg =
  sh_address :: string
  sh_paymentID :: "string option"
  sh_poolType :: nat
  sh_shares2 :: "num option"
  sh_timestamp :: num
  sh_port :: "int option"

record local_db =
  blockDB :: "block_msg table"
  altblockDB :: "alt_msg table"
  shareDB :: "nat \<Rightarrow> share_msg option list"
  cacheDB :: "string \<Rightarrow> jsval option"

type_synonym 'a block = "'a block_msg_scheme"

subsection \<open>Block operations\<close>

text \<open>\<open>decode(getBinary(id))\<close> of a missing row throws.\<close>

definition put_row :: "nat \<Rightarrow> ('r \<Rightarrow> 'r) \<Rightarrow> 'r table \<Rightarrow> string + 'r table" where
  "put_row k f t =
     (case map_of t k of None \<Rightarrow> Inl ''decode of a missing row''
      | Some r \<Rightarrow> Inr (update_where (\<lambda>i _. i = k) (\<lambda>_ _. f r) t))"

definition invalid_fields :: "'a block \<Rightarrow> 'a block" where
  "invalid_fields r = r\<lparr>b_valid := False, b_unlocked := True\<rparr>"

definition invalidateBlock :: "nat \<Rightarrow> local_db \<Rightarrow> string + local_db" where
  "invalidateBlock blockId d =
     map_sum id (\<lambda>t. d\<lparr>blockDB := t\<rparr>) (put_row blockId invalid_fields (blockDB d))"

definition invalidateAltBlock :: "nat \<Rightarrow> local_db \<Rightarrow> string + local_db" where
  "invalidateAltBlock blockId d =
     map_sum id (\<lambda>t. d\<lparr>altblockDB := t\<rparr>) (put_row blockId invalid_fields (altblockDB d))"

definition changeAltBlockPayStageStatus :: "nat \<Rightarrow> string \<Rightarrow> string \<Rightarrow> local_db \<Rightarrow> string + local_db" where
  "changeAltBlockPayStageStatus blockId pay_stage pay_status d =
     map_sum id (\<lambda>t. d\<lparr>altblockDB := t\<rparr>)
       (put_row blockId (\<lambda>r. r\<lparr>a_pay_stage := Some pay_stage, a_pay_status := Some pay_status\<rparr>) (altblockDB d))"

definition changeAltBlockPayValue :: "nat \<Rightarrow> num \<Rightarrow> local_db \<Rightarrow> string + local_db" where
  "changeAltBlockPayValue blockId pay_value d =
     map_sum id (\<lambda>t. d\<lparr>altblockDB := t\<rparr>)
       (put_row blockId (\<lambda>r. r\<lparr>a_pay_value := Some pay_value\<rparr>) (altblockDB d))"

text \<open>Both rows are read before either is written; the destination is written last.\<close>

definition moveAltBlockReward :: "nat \<Rightarrow> nat \<Rightarrow> num \<Rightarrow> local_db \<Rightarrow> string + local_db" where
  "moveAltBlockReward srcId dstId srcAmount d =
     (case (map_of (altblockDB d) srcId, map_of (altblockDB d) dstId) of
        (Some src, Some dst) \<Rightarrow>
          let dst' = dst\<lparr>b_value := Some (fl ((case b_value dst of Some v \<Rightarrow> v | None \<Rightarrow> 0) + srcAmount))\<rparr>;
              src' = src\<lparr>b_value := Some 0, a_pay_stage := Some ''Paid by other block'',
                         a_pay_status := Some (''Will be paid by block '' @ b_hash dst @ '' on '' @
                           js_num_to_string (of_int (a_height dst)) @ '' height''),
                         b_unlocked := True\<rparr>
          in Inr (d\<lparr>altblockDB := update_where (\<lambda>i _. i = dstId) (\<lambda>_ _. dst')
                    (update_where (\<lambda>i _. i = srcId) (\<lambda>_ _. src') (altblockDB d))\<rparr>)
      | _ \<Rightarrow> Inl ''decode of a missing row'')"

definition valid_locked :: "'a block \<Rightarrow> bool" where
  "valid_locked r \<longleftrightarrow> b_valid r \<and> \<not> b_unlocked r"

definition getValidLockedBlocks :: "local_db \<Rightarrow> (nat \<times> block_msg) list" where
  "getValidLockedBlocks d = filter (\<lambda>(k, r). valid_locked r) (blockDB d)"

definition getValidLockedAltBlocks :: "local_db \<Rightarrow> (nat \<times> alt_msg) list" where
  "getValidLockedAltBlocks d = filter (\<lambda>(k, r). valid_locked r) (altblockDB d)"

definition on_hash :: "string \<Rightarrow> ('a block \<Rightarrow> 'a block) \<Rightarrow> 'a block table \<Rightarrow> 'a block table" where
  "on_hash blockHex f t = update_where (\<lambda>_ r. b_hash r = blockHex) (\<lambda>_. f) t"

definition unlockBlock :: "string \<Rightarrow> local_db \<Rightarrow> local_db" where
  "unlockBlock blockHex d = d\<lparr>blockDB := on_hash blockHex (\<lambda>r. r\<lparr>b_unlocked := True\<rparr>) (blockDB d)\<rparr>"

definition unlockAltBlock :: "string \<Rightarrow> local_db \<Rightarrow> local_db" where
  "unlockAltBlock blockHex d = d\<lparr>altblockDB := on_hash blockHex (\<lambda>r. r\<lparr>b_unlocked := True\<rparr>) (altblockDB d)\<rparr>"

definition payReadyBlock :: "string \<Rightarrow> local_db \<Rightarrow> local_db" where
  "payReadyBlock blockHex d = d\<lparr>blockDB := on_hash blockHex (\<lambda>r. r\<lparr>b_pay_ready := Some True\<rparr>) (blockDB d)\<rparr>"

definition payReadyAltBlock :: "string \<Rightarrow> local_db \<Rightarrow> local_db" where
  "payReadyAltBlock blockHex d =
     d\<lparr>altblockDB := on_hash blockHex (\<lambda>r. r\<lparr>b_pay_ready := Some True\<rparr>) (altblockDB d)\<rparr>"

definition setCache :: "string \<Rightarrow> jsval \<Rightarrow> local_db \<Rightarrow> local_db" where
  "setCache cacheKey cacheData d = d\<lparr>cacheDB := (cacheDB d)(cacheKey \<mapsto> cacheData)\<rparr>"

definition bulkSetCache :: "(string \<times> jsval) list \<Rightarrow> local_db \<Rightarrow> local_db" where
  "bulkSetCache updates d = fold (\<lambda>(k, v). setCache k v) updates d"

definition getCache :: "string \<Rightarrow> local_db \<Rightarrow> jsval" where
  "getCache cacheKey d = (case cacheDB d cacheKey of Some v \<Rightarrow> v | None \<Rightarrow> JBool False)"

subsection \<open>Block lists\<close>

definition poolTypeStr :: "nat \<Rightarrow> string" where
  "poolTypeStr poolType = (if poolType = PPLNS then ''pplns'' else ''legacy'')"

text \<open>
  The cursor walks from the last key to the first; \<open>i\<close> counts the rows that pass the
  filter, but only when \<open>first\<close> is given. An entry of the reply is a row with its key;
  \<open>poolTypeStr\<close> names its pool type.
\<close>

fun list_page :: "('r \<Rightarrow> bool) \<Rightarrow> int option \<Rightarrow> int option \<Rightarrow> int \<Rightarrow> (nat \<times> 'r) list \<Rightarrow> (nat \<times> 'r) list" where
  "list_page keep first lst i [] = []"
| "list_page keep first lst i ((k, r) # rows) =
     (if (case lst of Some l \<Rightarrow> l \<le> i | None \<Rightarrow> False) then []
      else if \<not> keep r then list_page keep first lst i rows
      else (case first of
              None \<Rightarrow> (k, r) # list_page keep first lst i rows
            | Some f \<Rightarrow> if i < f then list_page keep first lst (i + 1) rows
                        else (k, r) # list_page keep first lst (i + 1) rows))"

definition pool_filter :: "string option \<Rightarrow> 'a block \<Rightarrow> bool" where
  "pool_filter pool_type r \<longleftrightarrow> pool_type \<noteq> Some ''pplns'' \<or> b_poolType r = PPLNS"

definition getBlockList :: "string option \<Rightarrow> int option \<Rightarrow> int option \<Rightarrow> local_db \<Rightarrow> (nat \<times> block_msg) list" where
  "getBlockList pool_type first lst d = list_page (pool_filter pool_type) first lst 0 (rev (blockDB d))"

definition getAltBlockList ::
  "string option \<Rightarrow> int option \<Rightarrow> int option \<Rightarrow> int option \<Rightarrow> local_db \<Rightarrow> (nat \<times> alt_msg) list" where
  "getAltBlockList pool_type coin_port first lst d =
     list_page (\<lambda>r. pool_filter pool_type r \<and> (coin_port = None \<or> coin_port = Some 0 \<or> coin_port = Some (a_port r)))
       first lst 0 (rev (altblockDB d))"

subsection \<open>Cache counters\<close>

text \<open>\<open>value: false\<close> is \<open>None\<close>. A location that is not a number counts as zero.\<close>

definition increment_field :: "(string \<times> num option) \<Rightarrow> (string \<times> jsval) list \<Rightarrow> (string \<times> jsval) list" where
  "increment_field lv fs =
     (case (map_of fs (fst lv), snd lv) of
        (Some current, Some v) \<Rightarrow>
          AList.update (fst lv) (JNum (fl ((case current of JNum x \<Rightarrow> x | _ \<Rightarrow> 0) + v))) fs
      | _ \<Rightarrow> AList.update (fst lv) (JNum 0) fs)"

definition incrementCacheData :: "string \<Rightarrow> (string \<times> num option) list \<Rightarrow> local_db \<Rightarrow> local_db" where
  "incrementCacheData key data d =
     (case cacheDB d key of
        Some (JObj fs) \<Rightarrow> setCache key (JObj (fold increment_field data fs)) d
      | _ \<Rightarrow> d)"

record invalid_msg =
  inv_address :: string
  inv_paymentID :: "string option"
  inv_identifier :: string
  inv_count :: "num option"

text \<open>A message that fails to decode is \<open>None\<close>; the callback is then told that nothing was stored.\<close>

definition storeInvalidShare :: "invalid_msg option \<Rightarrow> local_db \<Rightarrow> bool \<times> local_db" where
  "storeInvalidShare decoded d =
     (case decoded of
        None \<Rightarrow> (False, d)
      | Some share \<Rightarrow>
          let minerID = (case inv_paymentID share of
                           Some p \<Rightarrow> if 10 < length p then inv_address share @ ''.'' @ p else inv_address share
                         | None \<Rightarrow> inv_address share);
              n = (case inv_count share of Some c \<Rightarrow> if c = 0 then 1 else c | None \<Rightarrow> 1)
          in (True, incrementCacheData minerID [(''badShares'', Some n)]
               (incrementCacheData (minerID @ ''_'' @ inv_identifier share) [(''badShares'', Some n)] d)))"

subsection \<open>The oldest block that still needs its shares\<close>

definition needs_shares :: "'a block \<Rightarrow> bool" where
  "needs_shares r \<longleftrightarrow> \<not> b_unlocked r \<and> b_pay_ready r \<noteq> Some True"

fun oldest_alt :: "(nat \<times> alt_msg) list \<Rightarrow> int option \<Rightarrow> int option" where
  "oldest_alt [] h = h"
| "oldest_alt ((k, r) # rows) h =
     oldest_alt rows
       (if needs_shares r \<and> (case h of None \<Rightarrow> True | Some o' \<Rightarrow> a_anchor_height r < o')
        then Some (a_anchor_height r) else h)"

fun oldest_main :: "(nat \<times> block_msg) list \<Rightarrow> int option \<Rightarrow> int option" where
  "oldest_main [] h = h"
| "oldest_main ((k, r) # rows) h =
     oldest_main rows
       (if (case h of Some o' \<Rightarrow> o' \<le> int k | None \<Rightarrow> False) then h
        else if needs_shares r then Some (int k) else h)"

definition getOldestLockedBlockHeight :: "local_db \<Rightarrow> int option" where
  "getOldestLockedBlockHeight d = oldest_main (blockDB d) (oldest_alt (altblockDB d) None)"

text \<open>The heights the search looks through: the height or the anchor height of every block that waits for its shares.\<close>

definition waiting_heights :: "local_db \<Rightarrow> int set" where
  "waiting_heights d =
     {a_anchor_height r |k r. (k, r) \<in> set (altblockDB d) \<and> needs_shares r} \<union>
     {int k |k r. (k, r) \<in> set (blockDB d) \<and> needs_shares r}"

definition least_of :: "int option \<Rightarrow> int set \<Rightarrow> bool" where
  "least_of h S \<longleftrightarrow> (case h of None \<Rightarrow> S = {} | Some m \<Rightarrow> m \<in> S \<and> (\<forall>x \<in> S. m \<le> x))"

lemma oldest_alt_least:
  "least_of h S \<Longrightarrow> least_of (oldest_alt rows h) (S \<union> {a_anchor_height r |k r. (k, r) \<in> set rows \<and> needs_shares r})"
proof (induction rows h arbitrary: S rule: oldest_alt.induct)
  case (1 h)
  then show ?case by simp
next
  case (2 k r rows h)
  let ?h = "if needs_shares r \<and> (case h of None \<Rightarrow> True | Some o' \<Rightarrow> a_anchor_height r < o')
        then Some (a_anchor_height r) else h"
  let ?S = "if needs_shares r then insert (a_anchor_height r) S else S"
  have "least_of ?h ?S" using "2.prems" by (fastforce simp: least_of_def split: option.splits)
  from "2.IH" [OF this] have "least_of (oldest_alt rows ?h)
      (?S \<union> {a_anchor_height r |k r. (k, r) \<in> set rows \<and> needs_shares r})" .
  moreover have "?S \<union> {a_anchor_height r |k r. (k, r) \<in> set rows \<and> needs_shares r} =
      S \<union> {a_anchor_height r' |k' r'. (k', r') \<in> set ((k, r) # rows) \<and> needs_shares r'}" by auto
  ultimately show ?case by simp
qed

lemma oldest_main_least:
  "least_of h S \<Longrightarrow> least_of (oldest_main rows h) (S \<union> {int k |k r. (k, r) \<in> set rows \<and> needs_shares r})"
proof (induction rows h arbitrary: S rule: oldest_main.induct)
  case (1 h)
  then show ?case by simp
next
  case (2 k r rows h)
  let ?h = "if (case h of Some o' \<Rightarrow> o' \<le> int k | None \<Rightarrow> False) then h
        else if needs_shares r then Some (int k) else h"
  let ?S = "if needs_shares r then insert (int k) S else S"
  have "least_of ?h ?S" using "2.prems" by (fastforce simp: least_of_def split: option.splits)
  from "2.IH" [OF this] have "least_of (oldest_main rows ?h)
      (?S \<union> {int k |k r. (k, r) \<in> set rows \<and> needs_shares r})" .
  moreover have "?S \<union> {int k |k r. (k, r) \<in> set rows \<and> needs_shares r} =
      S \<union> {int k' |k' r'. (k', r') \<in> set ((k, r) # rows) \<and> needs_shares r'}" by auto
  ultimately show ?case by simp
qed

lemma oldest_locked_least: "least_of (getOldestLockedBlockHeight d) (waiting_heights d)"
proof -
  have "least_of None {}" by (simp add: least_of_def)
  from oldest_main_least [OF oldest_alt_least [OF this]]
  show ?thesis by (simp add: getOldestLockedBlockHeight_def waiting_heights_def)
qed

subsection \<open>Pages\<close>

lemma list_page_slice:
  "0 \<le> i \<Longrightarrow> list_page keep (Some f) (Some l) i rows =
     drop (nat (f - i)) (take (nat (l - i)) (filter (\<lambda>(k, r). keep r) rows))"
proof (induction keep "Some f" "Some l" i rows rule: list_page.induct)
  case (2 keep i k r rows)
  show ?case
  proof (cases "l \<le> i \<or> \<not> keep r")
    case True
    with 2 show ?thesis by auto
  next
    case False
    then have l: "nat (l - i) = Suc (nat (l - (i + 1)))" by linarith
    show ?thesis
    proof (cases "i < f")
      case True
      then have "nat (f - i) = Suc (nat (f - (i + 1)))" by linarith
      with 2 False True l show ?thesis by simp
    next
      case ge: False
      with 2 False l show ?thesis by simp
    qed
  qed
qed simp

subsection \<open>What the block writes keep\<close>

lemma locked_row:
  "(k, r) \<in> set (getValidLockedBlocks d) \<longleftrightarrow> (k, r) \<in> set (blockDB d) \<and> b_valid r \<and> \<not> b_unlocked r"
  by (auto simp: getValidLockedBlocks_def valid_locked_def)

lemma put_row_keys: "put_row k f t = Inr t' \<Longrightarrow> map fst t' = map fst t"
  by (auto simp: put_row_def split: option.splits)

lemma put_row_lookup:
  "put_row k f t = Inr t' \<Longrightarrow> map_of t' i = (if i = k then map_option f (map_of t k) else map_of t i)"
  by (auto simp: put_row_def map_of_update_where split: option.splits)

lemma on_hash_lookup:
  "map_of (on_hash h f t) k = map_option (\<lambda>r. if b_hash r = h then f r else r) (map_of t k)"
  by (auto simp: on_hash_def map_of_update_where split: option.split)

lemma on_hash_keys [simp]: "map fst (on_hash h f t) = map fst t"
  by (simp add: on_hash_def)

end
