(* ===== verification/Pplns.thy ===== *)
theory Pplns
  imports Local_Db
begin

text \<open>
  The PPLNS weights of a block, from \<open>preCalculatePPLNSPayments\<close> and its helpers in
  \<open>src/lib/block_manager.js\<close>: shares are read from the height of the block downwards
  and credited to miners and fee addresses until they fill the window; the share that
  crosses the edge is trimmed. All arithmetic is that of doubles.

  The window (difficulty times \<open>pplns.shareMulti\<close>) is a divisor. For a window of zero the
  program would compute infinities, which this model does not have; every theorem is for
  a positive window. The text rows of the share dump are diagnostics and left out.
\<close>

subsection \<open>Errors in pure code\<close>

definition bindE :: "string + 'a \<Rightarrow> ('a \<Rightarrow> string + 'b) \<Rightarrow> string + 'b" where
  "bindE m f = (case m of Inl e \<Rightarrow> Inl e | Inr x \<Rightarrow> f x)"

lemma bindE_simps [simp]: "bindE (Inl e) f = Inl e" "bindE (Inr x) f = f x"
  by (simp_all add: bindE_def)

lemma bindE_Inr: "bindE m f = Inr y \<longleftrightarrow> (\<exists>x. m = Inr x \<and> f x = Inr y)"
  by (cases m) auto

subsection \<open>Key order of objects\<close>

text \<open>
  \<open>Object.keys\<close> lists the keys that are array indices in ascending order, then the
  others in the order of insertion.
\<close>

definition array_index :: "string \<Rightarrow> int option" where
  "array_index s =
     (if s \<noteq> [] \<and> list_all is_digit s \<and> int_digits (digits_value s 0) = s \<and> digits_value s 0 < 2 ^ 32 - 1
      then Some (digits_value s 0) else None)"

definition own_keys :: "string list \<Rightarrow> string list" where
  "own_keys ks =
     sort_key (\<lambda>k. the (array_index k)) (filter (\<lambda>k. array_index k \<noteq> None) ks) @
     filter (\<lambda>k. array_index k = None) ks"

definition own_int_keys :: "int list \<Rightarrow> int list" where
  "own_int_keys ks = sort (filter (\<lambda>k. 0 \<le> k) ks) @ filter (\<lambda>k. k < 0) ks"

lemma mset_own_keys: "mset (own_keys ks) = mset ks"
  by (simp add: own_keys_def multiset_partition [symmetric])

subsection \<open>Payment rows\<close>

record bm_config =
  payoutFeeAddress :: string
  coinDevAddress :: string
  poolDevAddress :: string
  pplnsFee :: num
  devDonation :: num
  poolDevDonation :: num
  shareMulti :: num
  blocksRequired :: num
  anchorRound :: int
  daemonPort :: int

record credit_row =
  cr_pool_type :: string
  cr_address :: string
  cr_payment_id :: "string option"
  cr_amount :: num

type_synonym payment_data = "(string \<times> credit_row) list"

definition fee_row :: "string \<Rightarrow> credit_row" where
  "fee_row address = \<lparr>cr_pool_type = ''fees'', cr_address = address, cr_payment_id = None, cr_amount = 0\<rparr>"

definition createPplnsPaymentData :: "bm_config \<Rightarrow> payment_data" where
  "createPplnsPaymentData cfg =
     AList.update (poolDevAddress cfg) (fee_row (poolDevAddress cfg))
       (AList.update (coinDevAddress cfg) (fee_row (coinDevAddress cfg))
         (AList.update (payoutFeeAddress cfg) (fee_row (payoutFeeAddress cfg)) []))"

definition userIdentifier :: "share_msg \<Rightarrow> string" where
  "userIdentifier sh =
     (case sh_paymentID sh of
        Some p \<Rightarrow> if p \<noteq> [] then sh_address sh @ ''.'' @ p else sh_address sh
      | None \<Rightarrow> sh_address sh)"

definition ensurePplnsPaymentRow :: "payment_data \<Rightarrow> share_msg \<Rightarrow> string \<times> payment_data" where
  "ensurePplnsPaymentRow data sh =
     (let key = userIdentifier sh
      in (key, if map_of data key \<noteq> None then data
               else data @ [(key, \<lparr>cr_pool_type = ''pplns'', cr_address = sh_address sh,
                                   cr_payment_id = sh_paymentID sh, cr_amount = 0\<rparr>)]))"

subsection \<open>Filling the window\<close>

definition rewardTotal :: num where
  "rewardTotal = 1"

record pplns_acc =
  p_data :: payment_data
  p_totalPaid :: num
  p_totalShares :: num
  p_portShares :: "(int \<times> num) list"
  p_firstShareTime :: "num option"
  p_lastShareTime :: "num option"

definition addPayment :: "num \<Rightarrow> string \<Rightarrow> num \<Rightarrow> pplns_acc \<Rightarrow> string + pplns_acc" where
  "addPayment window key amount a =
     (if amount = 0 \<or> rewardTotal \<le> p_totalPaid a then Inr a
      else
        let totalShares = fl (p_totalShares a + amount)
        in case map_of (p_data a) key of
             None \<Rightarrow> Inl (''Missing payment row for '' @ key)
           | Some row \<Rightarrow>
               let paid = fl (cr_amount row + amount);
                   after = fl (fl (totalShares / window) * rewardTotal)
               in if rewardTotal < after
                  then let extra = fl (fl (fl (after - rewardTotal) / rewardTotal) * window)
                       in Inr (a\<lparr>p_totalShares := totalShares, p_totalPaid := rewardTotal,
                                 p_data := AList.update key (row\<lparr>cr_amount := fl (paid - extra)\<rparr>) (p_data a)\<rparr>)
                  else Inr (a\<lparr>p_totalShares := totalShares, p_totalPaid := after,
                              p_data := AList.update key (row\<lparr>cr_amount := paid\<rparr>) (p_data a)\<rparr>))"

definition addPplnsSharePayments ::
  "bm_config \<Rightarrow> num \<Rightarrow> string \<Rightarrow> num \<Rightarrow> pplns_acc \<Rightarrow> string + pplns_acc" where
  "addPplnsSharePayments cfg window user amountToPay a =
     (let feesToPay = fl (amountToPay * fl (pplnsFee cfg / 100));
          donation = fl (feesToPay * fl (devDonation cfg / 100));
          poolDonation = fl (feesToPay * fl (poolDevDonation cfg / 100));
          afterFees = fl (amountToPay - feesToPay)
      in bindE (addPayment window user afterFees a) (\<lambda>a1.
         bindE (addPayment window (payoutFeeAddress cfg) (fl (fl (feesToPay - donation) - poolDonation)) a1) (\<lambda>a2.
         bindE (addPayment window (poolDevAddress cfg) poolDonation a2) (\<lambda>a3.
           addPayment window (coinDevAddress cfg) donation a3))))"

definition addPortShare :: "share_msg \<Rightarrow> num \<Rightarrow> pplns_acc \<Rightarrow> pplns_acc" where
  "addPortShare sh amountToPay a =
     (case sh_port sh of
        None \<Rightarrow> a
      | Some port \<Rightarrow>
          a\<lparr>p_portShares := AList.update port
              (fl ((case map_of (p_portShares a) port of Some x \<Rightarrow> x | None \<Rightarrow> 0) + amountToPay))
              (p_portShares a)\<rparr>)"

definition collectShare :: "bm_config \<Rightarrow> num \<Rightarrow> share_msg option \<Rightarrow> pplns_acc \<Rightarrow> string + pplns_acc" where
  "collectShare cfg window s a =
     (case s of
        None \<Rightarrow> Inr a
      | Some sh \<Rightarrow>
          if sh_poolType sh \<noteq> PPLNS then Inr a
          else
            let user = fst (ensurePplnsPaymentRow (p_data a) sh);
                a1 = a\<lparr>p_data := snd (ensurePplnsPaymentRow (p_data a) sh)\<rparr>
            in case sh_shares2 sh of
                 None \<Rightarrow> Inr a1
               | Some amountToPay \<Rightarrow>
                   if amountToPay \<le> 0 then Inr a1
                   else
                     let t = Some (sh_timestamp sh);
                         a2 = a1\<lparr>p_firstShareTime := (if p_firstShareTime a1 = None then t else p_firstShareTime a1),
                                 p_lastShareTime := (if p_totalPaid a1 < rewardTotal then t else p_lastShareTime a1)\<rparr>
                     in bindE (addPplnsSharePayments cfg window user amountToPay a2)
                          (\<lambda>a3. Inr (addPortShare sh amountToPay a3)))"

fun collectShares :: "bm_config \<Rightarrow> num \<Rightarrow> share_msg option list \<Rightarrow> pplns_acc \<Rightarrow> string + pplns_acc" where
  "collectShares cfg window [] a = Inr a"
| "collectShares cfg window (s # ss) a = bindE (collectShare cfg window s a) (collectShares cfg window ss)"

text \<open>The loop over heights: from \<open>blockHeight\<close> down to 1, while the window is not full.\<close>

fun collectHeights :: "bm_config \<Rightarrow> num \<Rightarrow> (nat \<Rightarrow> share_msg option list) \<Rightarrow> nat \<Rightarrow> pplns_acc \<Rightarrow> string + pplns_acc" where
  "collectHeights cfg window shares 0 a = Inr a"
| "collectHeights cfg window shares (Suc h) a =
     (if p_totalPaid a < rewardTotal
      then bindE (collectShares cfg window (shares (Suc h)) a) (collectHeights cfg window shares h)
      else Inr a)"

definition initialAcc :: "bm_config \<Rightarrow> pplns_acc" where
  "initialAcc cfg = \<lparr>p_data = createPplnsPaymentData cfg, p_totalPaid = 0, p_totalShares = 0,
     p_portShares = [], p_firstShareTime = None, p_lastShareTime = None\<rparr>"

definition collectPplnsSharePayments ::
  "bm_config \<Rightarrow> num \<Rightarrow> (nat \<Rightarrow> share_msg option list) \<Rightarrow> int \<Rightarrow> string + pplns_acc" where
  "collectPplnsSharePayments cfg window shares blockHeight =
     collectHeights cfg window shares (nat blockHeight) (initialAcc cfg)"

subsection \<open>From weights to rows\<close>

definition totalPayments :: "payment_data \<Rightarrow> num" where
  "totalPayments data =
     foldl (\<lambda>s k. case map_of data k of Some row \<Rightarrow> fl (s + cr_amount row) | None \<Rightarrow> s) 0 (own_keys (map fst data))"

definition isNeedCorrection :: "num \<Rightarrow> num \<Rightarrow> bool" where
  "isNeedCorrection total_paid defaultWindow \<longleftrightarrow>
     fl (1 / 10000) < \<bar>fl (fl (total_paid / defaultWindow) - 1)\<bar>"

definition payWindow :: "num \<Rightarrow> num \<Rightarrow> num" where
  "payWindow total_paid defaultWindow =
     (if isNeedCorrection total_paid defaultWindow then total_paid else defaultWindow)"

record block_balance_row =
  bb_hex :: string
  bb_address :: string
  bb_payment_id :: "string option"
  bb_amount :: num

definition block_balance_rows :: "string list \<Rightarrow> num \<Rightarrow> payment_data \<Rightarrow> block_balance_row list" where
  "block_balance_rows blockHexes window data =
     concat (map (\<lambda>k. case map_of data k of
        None \<Rightarrow> []
      | Some row \<Rightarrow>
          if cr_amount row = 0 then []
          else map (\<lambda>hex. \<lparr>bb_hex = hex, bb_address = cr_address row, bb_payment_id = cr_payment_id row,
                           bb_amount = fl (cr_amount row / window)\<rparr>) blockHexes)
      (own_keys (map fst data)))"

definition portShareTable :: "(int \<times> num) list \<Rightarrow> (string \<times> jsval) list" where
  "portShareTable ps =
     (let ks = own_int_keys (map fst ps);
          sumAllPorts = foldl (\<lambda>s k. case map_of ps k of Some x \<Rightarrow> fl (s + x) | None \<Rightarrow> s) 0 ks
      in if 0 < sumAllPorts
         then List.map_filter (\<lambda>k. map_option (\<lambda>x. (js_num_to_string (of_int k), JNum (fl (x / sumAllPorts)))) (map_of ps k)) ks
         else [])"

end
