(* ===== verification/Block_Store.thy ===== *)
theory Block_Store
  imports Payments_Steps Pplns
begin

text \<open>
  The database of the block manager (\<open>src/lib/block_manager.js\<close>): the tables it shares
  with the payout subsystem, \<open>paid_blocks\<close> and \<open>block_balance\<close>, and the local store.
  The SQL statements it issues are functions on them, with the unique keys of
  \<open>src/deployment/base.sql\<close>; a unique key does not relate rows whose payment id is NULL.
  Text columns are compared exactly: the program writes addresses and hashes in one form.
\<close>

record paid_block =
  pb_hex :: string
  pb_amount :: num
  pb_port :: int
  pb_found_time :: int

record bm_db =
  bm_pay :: pay_db
  paid_blocks :: "paid_block list"
  block_balance :: "block_balance_row list"
  bm_local :: local_db
  next_balance_id :: nat

definition paid_hexes :: "bm_db \<Rightarrow> string set" where
  "paid_hexes d = pb_hex ` set (paid_blocks d)"

subsection \<open>Balance rows\<close>

definition loadRows :: "string \<Rightarrow> string option \<Rightarrow> string \<Rightarrow> bm_db \<Rightarrow> nat list" where
  "loadRows address paymentId ptype d =
     map fst (filter (\<lambda>(i, r). bal_address r = address \<and> bal_payment_id r = paymentId \<and> bal_pool_type r = ptype)
       (balances (bm_pay d)))"

definition insertBalance :: "string \<Rightarrow> string option \<Rightarrow> string \<Rightarrow> bm_db \<Rightarrow> string + nat \<times> bm_db" where
  "insertBalance address paymentId ptype d =
     (if paymentId \<noteq> None \<and> loadRows address paymentId ptype d \<noteq> []
      then Inl ''Duplicate entry for key balance_payment_address_pool_type_payment_id_uindex''
      else
        let k = next_balance_id d;
            row = \<lparr>bal_address = address, bal_payment_id = paymentId, bal_pool_type = ptype,
                   bal_amount = 0, bal_pending = None\<rparr>
        in Inr (k, d\<lparr>bm_pay := (bm_pay d)\<lparr>balances := balances (bm_pay d) @ [(k, row)]\<rparr>,
                     next_balance_id := k + 1\<rparr>))"

definition balanceSum :: "bm_db \<Rightarrow> num option" where
  "balanceSum d = (if balances (bm_pay d) = [] then None
                   else Some (sum_list (map (bal_amount \<circ> snd) (balances (bm_pay d)))))"

subsection \<open>Crediting a block\<close>

definition BALANCE_UPDATE_BATCH_SIZE :: nat where
  "BALANCE_UPDATE_BATCH_SIZE = 100"

type_synonym credit = "nat \<times> num"

definition credit_of :: "credit list \<Rightarrow> nat \<Rightarrow> num" where
  "credit_of batch i = (case map_of batch i of Some c \<Rightarrow> c | None \<Rightarrow> 0)"

definition creditBatch :: "credit list \<Rightarrow> pay_db \<Rightarrow> string + pay_db" where
  "creditBatch batch d =
     (let hit = (\<lambda>i r. i \<in> set (map fst batch))
      in if count_where hit (balances d) \<noteq> length batch
         then Inl ''balance update affected rows mismatch''
         else Inr (d\<lparr>balances := update_where hit
                       (\<lambda>i r. r\<lparr>bal_amount := bal_amount r + credit_of batch i\<rparr>) (balances d)\<rparr>))"

fun creditBatches :: "credit list list \<Rightarrow> num \<Rightarrow> pay_db \<Rightarrow> string + num \<times> pay_db" where
  "creditBatches [] acc d = Inr (acc, d)"
| "creditBatches (b # bs) acc d =
     (case creditBatch b d of
        Inl e \<Rightarrow> Inl e
      | Inr d' \<Rightarrow> creditBatches bs (foldl (\<lambda>s c. fl (s + snd c)) acc b) d')"

definition applyBalanceCredits :: "credit list \<Rightarrow> pay_db \<Rightarrow> string + num \<times> pay_db" where
  "applyBalanceCredits credits d = creditBatches (chunks BALANCE_UPDATE_BATCH_SIZE credits) 0 d"

text \<open>The transaction of \<open>doPPLNSPayments\<close>: the paid block and all its credits, or nothing.\<close>

definition creditTransaction ::
  "string \<Rightarrow> num \<Rightarrow> int \<Rightarrow> int \<Rightarrow> credit list \<Rightarrow> bm_db \<Rightarrow> string + bm_db" where
  "creditTransaction blockHex blockReward blockPort blockTimestamp credits d =
     (if blockHex \<in> paid_hexes d then Inl ''Duplicate entry for key paid_blocks_hex''
      else
        case applyBalanceCredits credits (bm_pay d) of
          Inl e \<Rightarrow> Inl e
        | Inr (n, p) \<Rightarrow>
            Inr (d\<lparr>bm_pay := p,
                   paid_blocks := paid_blocks d @ [\<lparr>pb_hex = blockHex, pb_amount = blockReward,
                     pb_port = blockPort, pb_found_time = blockTimestamp div 1000\<rparr>]\<rparr>))"

subsection \<open>Weights\<close>

definition deleteBlockBalance :: "string list \<Rightarrow> bm_db \<Rightarrow> bm_db" where
  "deleteBlockBalance blockHexes d =
     d\<lparr>block_balance := filter (\<lambda>r. bb_hex r \<notin> set blockHexes) (block_balance d)\<rparr>"

definition bb_key :: "block_balance_row \<Rightarrow> (string \<times> string \<times> string) option" where
  "bb_key r = map_option (\<lambda>p. (bb_hex r, bb_address r, p)) (bb_payment_id r)"

definition insertBlockBalance :: "block_balance_row list \<Rightarrow> bm_db \<Rightarrow> string + nat \<times> bm_db" where
  "insertBlockBalance rows d =
     (if distinct (List.map_filter bb_key (block_balance d @ rows))
      then Inr (length rows, d\<lparr>block_balance := block_balance d @ rows\<rparr>)
      else Inl ''Duplicate entry for key block_balance_hex_payment_address_payment_id_uindex'')"

definition selectBlockBalance :: "string \<Rightarrow> bm_db \<Rightarrow> block_balance_row list" where
  "selectBlockBalance blockHex d = filter (\<lambda>r. bb_hex r = blockHex) (block_balance d)"

end
