(* ===== verification/Block_Steps.thy ===== *)
theory Block_Steps
  imports Block_Store
begin

text \<open>
  The steps the database of the block manager can take. The credit transaction of a block
  is shown to be a sequence of the credit steps that the payout subsystem expects of
  other processes, so the two developments compose; the paid-block table, the block tables
  and the balances are tied together by an invariant that every step keeps.
\<close>

subsection \<open>Credits are steps of the shared tables\<close>

definition addCredit :: "credit \<Rightarrow> balance_row table \<Rightarrow> balance_row table" where
  "addCredit c t = update_where (\<lambda>i r. i = fst c) (\<lambda>_ r. r\<lparr>bal_amount := bal_amount r + snd c\<rparr>) t"

lemma addCredit_keys [simp]: "map fst (addCredit c t) = map fst t"
  by (simp add: addCredit_def)

lemma batch_update_fold:
  assumes "distinct (map fst batch)"
  shows "update_where (\<lambda>i r. i \<in> set (map fst batch)) (\<lambda>i r. r\<lparr>bal_amount := bal_amount r + credit_of batch i\<rparr>) t =
         fold addCredit batch t"
  using assms
proof (induction batch arbitrary: t)
  case Nil
  then show ?case by (simp add: update_where_id)
next
  case (Cons c batch)
  have "update_where (\<lambda>i r. i \<in> set (map fst (c # batch)))
          (\<lambda>i r. r\<lparr>bal_amount := bal_amount r + credit_of (c # batch) i\<rparr>) t =
        update_where (\<lambda>i r. i \<in> set (map fst batch))
          (\<lambda>i r. r\<lparr>bal_amount := bal_amount r + credit_of batch i\<rparr>) (addCredit c t)"
    using Cons.prems
    by (cases c) (auto simp: update_where_def addCredit_def credit_of_def image_iff split: option.split)
  with Cons show ?case by simp
qed

lemma fold_credit_accum:
  assumes "\<forall>c \<in> set batch. map_of (balances d) (fst c) \<noteq> None"
  shows "accum db_step (sum_list (map snd batch)) d (d\<lparr>balances := fold addCredit batch (balances d)\<rparr>)"
  using assms
proof (induction batch rule: rev_induct)
  case Nil
  show ?case using accum.none [of db_step d] by simp
next
  case (snoc c batch)
  let ?d = "d\<lparr>balances := fold addCredit batch (balances d)\<rparr>"
  have keys: "map fst (fold addCredit batch t) = map fst t" for t
    by (induction batch arbitrary: t) auto
  then have "fst ` set (fold addCredit batch (balances d)) = fst ` set (balances d)"
    by (metis list.set_map)
  then have "map_of (balances ?d) (fst c) \<noteq> None" using snoc.prems by (simp add: map_of_eq_None_iff)
  then have "db_step (snd c) ?d (d\<lparr>balances := fold addCredit (batch @ [c]) (balances d)\<rparr>)"
    by (intro db_step.credit) (auto simp: addCredit_def)
  moreover have "accum db_step (sum_list (map snd batch)) d ?d" using snoc by simp
  ultimately show ?case using accum.more by fastforce
qed

lemma creditBatch_accum:
  assumes "creditBatch batch d = Inr d'" "distinct (map fst batch)" "distinct (map fst (balances d))"
  shows "accum db_step (sum_list (map snd batch)) d d'"
    and "d' = d\<lparr>balances := fold addCredit batch (balances d)\<rparr>"
proof -
  have cnt: "count_where (\<lambda>i r. i \<in> set (map fst batch) \<and> True) (balances d) = length (map fst batch)"
    and d': "d' = d\<lparr>balances := fold addCredit batch (balances d)\<rparr>"
    using assms(1) batch_update_fold [OF assms(2)] by (auto simp: creditBatch_def Let_def split: if_splits)
  have "\<forall>c \<in> set batch. map_of (balances d) (fst c) \<noteq> None"
    using count_where_ids_all [OF assms(3,2) cnt] by fastforce
  from fold_credit_accum [OF this] d' show "accum db_step (sum_list (map snd batch)) d d'" by simp
  show "d' = d\<lparr>balances := fold addCredit batch (balances d)\<rparr>" by (rule d')
qed

lemma creditBatches_accum:
  assumes "creditBatches bs acc d = Inr (n, d')" "distinct (map fst (concat bs))" "distinct (map fst (balances d))"
  shows "accum db_step (sum_list (map snd (concat bs))) d d' \<and>
         d' = d\<lparr>balances := fold addCredit (concat bs) (balances d)\<rparr>"
  using assms
proof (induction bs acc d rule: creditBatches.induct)
  case (1 acc d)
  then show ?case using accum.none [of db_step d] by simp
next
  case (2 b bs acc d)
  then obtain d1 where b: "creditBatch b d = Inr d1"
    and rest: "creditBatches bs (foldl (\<lambda>s c. fl (s + snd c)) acc b) d1 = Inr (n, d')"
    by (auto split: sum.splits)
  have db: "distinct (map fst b)" using 2(3) by simp
  note step = creditBatch_accum [OF b db 2(4)]
  have "map fst (fold addCredit b t) = map fst t" for t by (induction b arbitrary: t) auto
  then have "distinct (map fst (balances d1))" using step(2) 2(4) by simp
  with 2(1) [OF b rest] 2(3) have IH: "accum db_step (sum_list (map snd (concat bs))) d1 d'"
    "d' = d1\<lparr>balances := fold addCredit (concat bs) (balances d1)\<rparr>" by auto
  then show ?case using accum_trans [OF IH(1) step(1)] step(2) by simp
qed

lemma applyBalanceCredits_accum:
  assumes "applyBalanceCredits credits d = Inr (n, d')" "distinct (map fst credits)" "db_ok d"
  shows "accum db_step (sum_list (map snd credits)) d d'"
    and "d' = d\<lparr>balances := fold addCredit credits (balances d)\<rparr>"
proof -
  have c: "concat (chunks BALANCE_UPDATE_BATCH_SIZE credits) = credits"
    by (rule concat_chunks) (simp add: BALANCE_UPDATE_BATCH_SIZE_def)
  have "distinct (map fst (balances d))" using assms(3) by (simp add: db_ok_def keys_ok_def)
  then have "accum db_step (sum_list (map snd credits)) d d' \<and> d' = d\<lparr>balances := fold addCredit credits (balances d)\<rparr>"
    using creditBatches_accum [of "chunks BALANCE_UPDATE_BATCH_SIZE credits" 0 d n d'] assms(1,2)
    unfolding c applyBalanceCredits_def by blast
  then show "accum db_step (sum_list (map snd credits)) d d'"
    and "d' = d\<lparr>balances := fold addCredit credits (balances d)\<rparr>" by blast+
qed

lemma fold_addCredit_keys: "map fst (fold addCredit cs t) = map fst t"
  by (induction cs arbitrary: t) auto

lemma fold_addCredit_dom: "fst ` set (fold addCredit cs t) = fst ` set t"
  using fold_addCredit_keys [of cs t] by (metis list.set_map)

lemma map_of_addCredit:
  "map_of (addCredit c t) i = map_option (\<lambda>r. if i = fst c then r\<lparr>bal_amount := bal_amount r + snd c\<rparr> else r) (map_of t i)"
  by (auto simp: addCredit_def map_of_update_where split: option.split)

lemma map_of_fold_addCredit:
  assumes "distinct (map fst credits)"
  shows "map_of (fold addCredit credits t) i =
     map_option (\<lambda>r. r\<lparr>bal_amount := bal_amount r + credit_of credits i\<rparr>) (map_of t i)"
  using assms
proof (induction credits arbitrary: t)
  case Nil
  show ?case by (cases "map_of t i") (auto simp: credit_of_def)
next
  case (Cons c credits)
  have "credit_of (c # credits) i = (if i = fst c then snd c else credit_of credits i)"
    "i = fst c \<Longrightarrow> credit_of credits i = 0"
    using Cons.prems by (cases c, auto simp: credit_of_def image_iff split: option.split dest: map_of_SomeD)+
  with Cons show ?case by (cases "map_of t i") (auto simp: map_of_addCredit)
qed

lemma creditBatches_ids:
  assumes "creditBatches bs acc d = Inr (n, d')" "distinct (map fst (concat bs))" "distinct (map fst (balances d))"
  shows "fst ` set (concat bs) \<subseteq> fst ` set (balances d)"
  using assms
proof (induction bs acc d rule: creditBatches.induct)
  case (2 b bs acc d)
  then obtain d1 where b: "creditBatch b d = Inr d1"
    and rest: "creditBatches bs (foldl (\<lambda>s c. fl (s + snd c)) acc b) d1 = Inr (n, d')"
    by (auto split: sum.splits)
  have db: "distinct (map fst b)" using 2(3) by simp
  have d1: "map fst (balances d1) = map fst (balances d)"
    using creditBatch_accum(2) [OF b db 2(4)] by (simp add: fold_addCredit_keys)
  then have dom: "fst ` set (balances d1) = fst ` set (balances d)" by (metis list.set_map)
  have "count_where (\<lambda>i r. i \<in> set (map fst b) \<and> True) (balances d) = length (map fst b)"
    using b by (auto simp: creditBatch_def Let_def split: if_splits)
  then have "\<forall>k \<in> fst ` set b. map_of (balances d) k \<noteq> None"
    using count_where_ids_all [OF 2(4) db, where P = "\<lambda>_. True"] by fastforce
  then have "fst ` set b \<subseteq> fst ` set (balances d)" by (auto simp: map_of_eq_None_iff)
  moreover have "fst ` set (concat bs) \<subseteq> fst ` set (balances d)"
    using 2(1) [OF b rest] 2(3,4) d1 dom by simp
  ultimately show ?case by (simp add: image_Un)
qed simp

lemma applyBalanceCredits_ids:
  assumes "applyBalanceCredits credits d = Inr (n, d')" "distinct (map fst credits)" "db_ok d"
  shows "fst ` set credits \<subseteq> fst ` set (balances d)"
proof -
  have c: "concat (chunks BALANCE_UPDATE_BATCH_SIZE credits) = credits"
    by (rule concat_chunks) (simp add: BALANCE_UPDATE_BATCH_SIZE_def)
  have "distinct (map fst (balances d))" using assms(3) by (simp add: db_ok_def keys_ok_def)
  with creditBatches_ids [of "chunks BALANCE_UPDATE_BATCH_SIZE credits" 0 d n d'] assms(1,2) show ?thesis
    unfolding c applyBalanceCredits_def by blast
qed

subsection \<open>Invariant\<close>

text \<open>
  A block that is unlocked and still valid has been paid. A block of another chain may
  also be unlocked because its reward was moved to another block; its value is then zero.
\<close>

definition main_settled :: "string set \<Rightarrow> block_msg \<Rightarrow> bool" where
  "main_settled paid r \<longleftrightarrow> (b_unlocked r \<longrightarrow> b_valid r \<longrightarrow> b_hash r \<in> paid)"

definition alt_settled :: "string set \<Rightarrow> alt_msg \<Rightarrow> bool" where
  "alt_settled paid r \<longleftrightarrow> (b_unlocked r \<longrightarrow> b_valid r \<longrightarrow> b_value r \<noteq> Some 0 \<longrightarrow> b_hash r \<in> paid)"

definition local_ok :: "string set \<Rightarrow> local_db \<Rightarrow> bool" where
  "local_ok paid l \<longleftrightarrow> (\<forall>(k, r) \<in> set (blockDB l). main_settled paid r) \<and>
     (\<forall>(k, r) \<in> set (altblockDB l). alt_settled paid r)"

definition bm_ok :: "bm_db \<Rightarrow> bool" where
  "bm_ok d \<longleftrightarrow> db_ok (bm_pay d) \<and> distinct (map pb_hex (paid_blocks d)) \<and>
     (\<forall>k \<in> fst ` set (balances (bm_pay d)). k < next_balance_id d) \<and> local_ok (paid_hexes d) (bm_local d)"

lemma local_ok_mono: "local_ok paid l \<Longrightarrow> paid \<subseteq> paid' \<Longrightarrow> local_ok paid' l"
  by (fastforce simp: local_ok_def main_settled_def alt_settled_def)

inductive bm_step :: "num \<Rightarrow> bm_db \<Rightarrow> bm_db \<Rightarrow> bool" where
  payments: "db_step 0 (bm_pay d) p \<Longrightarrow> next_balance_id d \<le> n \<Longrightarrow>
     (\<forall>k \<in> fst ` set (balances p). k < n) \<Longrightarrow> bm_step 0 d (d\<lparr>bm_pay := p, next_balance_id := n\<rparr>)"
| payout: "creditTransaction blockHex blockReward blockPort t credits d = Inr d' \<Longrightarrow>
     distinct (map fst credits) \<Longrightarrow> bm_step (sum_list (map snd credits)) d d'"
| weights: "bm_step 0 d (d\<lparr>block_balance := rows\<rparr>)"
| store: "local_ok (paid_hexes d) l \<Longrightarrow> bm_step 0 d (d\<lparr>bm_local := l\<rparr>)"

lemma creditTransaction_Inr:
  assumes "creditTransaction blockHex blockReward blockPort t credits d = Inr d'"
  obtains n p where "applyBalanceCredits credits (bm_pay d) = Inr (n, p)" "blockHex \<notin> paid_hexes d"
    "d' = d\<lparr>bm_pay := p, paid_blocks := paid_blocks d @ [\<lparr>pb_hex = blockHex, pb_amount = blockReward,
              pb_port = blockPort, pb_found_time = t div 1000\<rparr>]\<rparr>"
  using assms by (auto simp: creditTransaction_def split: if_splits sum.splits)

lemma bm_step_ok:
  assumes "bm_ok d" "bm_step c d d'"
  shows "bm_ok d' \<and> funds (bm_pay d') = funds (bm_pay d) + c"
  using assms(2,1)
proof cases
  case (payments p n)
  then show ?thesis using assms(1) db_step_ok [OF payments(3)] db_step_funds [OF payments(3)]
    by (auto simp: bm_ok_def paid_hexes_def)
next
  case (payout hex reward port t credits)
  from payout(2) obtain n p where p: "applyBalanceCredits credits (bm_pay d) = Inr (n, p)" "hex \<notin> paid_hexes d"
    and d': "d' = d\<lparr>bm_pay := p, paid_blocks := paid_blocks d @ [\<lparr>pb_hex = hex, pb_amount = reward,
              pb_port = port, pb_found_time = t div 1000\<rparr>]\<rparr>" by (rule creditTransaction_Inr)
  have ok: "db_ok (bm_pay d)" using assms(1) by (simp add: bm_ok_def)
  note acc = applyBalanceCredits_accum [OF p(1) payout(3) ok]
  have "db_ok p" "funds p = funds (bm_pay d) + c"
    using pay.run_ok [OF acc(1) ok] pay.run_total [OF acc(1) ok] payout(1) by auto
  moreover have "fst ` set (balances p) = fst ` set (balances (bm_pay d))"
    using acc(2) by (simp add: fold_addCredit_dom)
  moreover have "local_ok (paid_hexes d') (bm_local d)"
    using assms(1) by (auto simp: bm_ok_def d' paid_hexes_def elim!: local_ok_mono)
  ultimately show ?thesis using assms(1) p(2) by (auto simp: bm_ok_def d' paid_hexes_def)
qed (use assms(1) in \<open>auto simp: bm_ok_def paid_hexes_def\<close>)

interpretation bm: ledger bm_step bm_ok "\<lambda>d. funds (bm_pay d)"
  by unfold_locales (use bm_step_ok in blast)+

lemma bm_step_paid: "bm_step c d d' \<Longrightarrow> set (paid_blocks d) \<subseteq> set (paid_blocks d')"
  by (auto elim!: bm_step.cases creditTransaction_Inr)

lemma reaches_paid:
  assumes "reaches bm_step d d'" "bm_ok d"
  shows "set (paid_blocks d) \<subseteq> set (paid_blocks d')"
  by (rule bm.reaches_stable [OF assms]) (use bm_step_paid in blast)+

lemma reaches_paid_hexes: "reaches bm_step d d' \<Longrightarrow> bm_ok d \<Longrightarrow> paid_hexes d \<subseteq> paid_hexes d'"
  unfolding paid_hexes_def by (intro image_mono) (rule reaches_paid)

lemma bm_step_payments:
  assumes "bm_step c d d'" "bm_ok d"
  shows "accum db_step c (bm_pay d) (bm_pay d')"
  using assms(1)
proof cases
  case (payments p n)
  then show ?thesis by (simp add: accum_single)
next
  case (payout hex reward port t credits)
  from payout(2) obtain n p where p: "applyBalanceCredits credits (bm_pay d) = Inr (n, p)" "bm_pay d' = p"
    by (rule creditTransaction_Inr) simp
  have "db_ok (bm_pay d)" using assms(2) by (simp add: bm_ok_def)
  from applyBalanceCredits_accum(1) [OF p(1) payout(3) this] show ?thesis using p(2) payout(1) by simp
qed (simp_all add: accum.none)

end
