(* ===== verification/Block_Manager.thy ===== *)
theory Block_Manager
  imports Block_Steps Prog
begin

text \<open>
  The programs of \<open>src/lib/block_manager.js\<close>. The world has the database, the runtime's
  state and an environment: the coin daemons' replies, the outcome of every query and
  transaction, and what other processes do to the database while a call is awaited, all
  indexed by the count of awaited calls.

  Logging, admin mail and the share dump are left out. Balance ids are looked up one after
  the other, the behaviour with \<open>balanceLookupConcurrency\<close> 1; \<open>pendingBalanceLookups\<close> is
  then empty whenever a lookup starts, and other lookups are among the steps of other
  processes. The retry of \<open>preCalculatePPLNSPayments\<close> at the top height has no bound in the
  source; it is given fuel by the environment.
\<close>

subsection \<open>The world\<close>

datatype coin_call =
  getLastBlockHeader
| getBlockHeaderByID int
| getBlockHeaderByHash string
| getPortBlockHeaderByID int int
| getPortBlockHeaderByHash int string

record coin_reply =
  reply_error :: jsval
  reply_body :: jsval

record bm_env =
  bm_cfg :: bm_config
  coin_answer :: "nat \<Rightarrow> coin_call \<Rightarrow> coin_reply"
  bm_sql :: "nat \<Rightarrow> sql_outcome"
  bm_tx :: "nat \<Rightarrow> tx_outcome"
  bm_rival :: "nat \<Rightarrow> bm_db \<Rightarrow> bm_db"
  skipHashFallback :: "int \<Rightarrow> bool"
  retryFuel :: nat

record bm_world =
  benv :: bm_env
  bdb :: bm_db
  isFullStop' :: bool
  paymentInProgress :: bool
  balanceIdCache :: "string \<Rightarrow> nat option"
  inFlightPrecalc :: "string list"
  bawaits :: nat

type_synonym 'a bm = "(bm_world, 'a) prog"

definition bm_await :: "bm_world \<Rightarrow> bm_world" where
  "bm_await w = w\<lparr>bawaits := bawaits w + 1, bdb := bm_rival (benv w) (bawaits w) (bdb w)\<rparr>"

definition callCoin :: "coin_call \<Rightarrow> coin_reply bm" where
  "callCoin c = andThen (modify bm_await) (\<lambda>_. gets (\<lambda>w. coin_answer (benv w) (bawaits w) c))"

definition bm_query :: "(bm_db \<Rightarrow> string + 'a \<times> bm_db) \<Rightarrow> 'a bm" where
  "bm_query f = (\<lambda>w0.
     let w = bm_await w0
     in case bm_sql (benv w) (bawaits w) of
          Sql_lost e \<Rightarrow> (Inl e, w)
        | Sql_ok \<Rightarrow> (case f (bdb w) of Inl e \<Rightarrow> (Inl e, w) | Inr (x, d) \<Rightarrow> (Inr x, w\<lparr>bdb := d\<rparr>))
        | Sql_unacked e \<Rightarrow> (case f (bdb w) of Inl e' \<Rightarrow> (Inl e', w) | Inr (x, d) \<Rightarrow> (Inl e, w\<lparr>bdb := d\<rparr>)))"

definition bm_withTransaction :: "(bm_db \<Rightarrow> string + bm_db) \<Rightarrow> unit bm" where
  "bm_withTransaction work = (\<lambda>w0.
     let w = bm_await w0
     in case bm_tx (benv w) (bawaits w) of
          Tx_failed e \<Rightarrow> (Inl e, w)
        | Tx_ok \<Rightarrow> (case work (bdb w) of Inl e \<Rightarrow> (Inl e, w) | Inr d \<Rightarrow> (Inr (), w\<lparr>bdb := d\<rparr>))
        | Tx_commit_failed e \<Rightarrow> (case work (bdb w) of Inl e' \<Rightarrow> (Inl e', w) | Inr d \<Rightarrow> (Inl e, w))
        | Tx_unacked e \<Rightarrow> (case work (bdb w) of Inl e' \<Rightarrow> (Inl e', w) | Inr d \<Rightarrow> (Inl e, w\<lparr>bdb := d\<rparr>)))"

text \<open>A call of the local store, which is synchronous and may throw.\<close>

definition onLocal :: "(local_db \<Rightarrow> string + local_db) \<Rightarrow> unit bm" where
  "onLocal f = (\<lambda>w. case f (bm_local (bdb w)) of
     Inl e \<Rightarrow> (Inl e, w)
   | Inr l \<Rightarrow> (Inr (), w\<lparr>bdb := (bdb w)\<lparr>bm_local := l\<rparr>\<rparr>))"

definition tryFinally :: "(bm_world \<Rightarrow> bm_world) \<Rightarrow> 'a bm \<Rightarrow> 'a bm" where
  "tryFinally f m = (\<lambda>w. case m w of (r, w') \<Rightarrow> (r, f w'))"

definition fullStop :: "unit bm" where
  "fullStop = modify (\<lambda>w. w\<lparr>isFullStop' := True\<rparr>)"

definition canRun :: "bm_world \<Rightarrow> bool" where
  "canRun w \<longleftrightarrow> \<not> isFullStop' w \<and> \<not> paymentInProgress w"

subsection \<open>Heights\<close>

definition topHeight :: "coin_reply \<Rightarrow> int option" where
  "topHeight latest =
     (let body = reply_body latest;
          rawHeight = (if truthy body then getf body ''height'' else body);
          height = (case rawHeight of
                      JNum x \<Rightarrow> Some x
                    | JStr s \<Rightarrow> if js_trim s = [] then None else js_Number_string s
                    | _ \<Rightarrow> None)
      in case height of
           None \<Rightarrow> None
         | Some h \<Rightarrow> if reply_error latest = JNull \<and> js_floor h = h \<and> \<bar>h\<bar> < 2 ^ 53 \<and> 0 \<le> h then Some \<lfloor>h\<rfloor> else None)"

definition getTopBlockHeight :: "int option bm" where
  "getTopBlockHeight = andThen (callCoin getLastBlockHeader) (\<lambda>latest. ret (topHeight latest))"

subsection \<open>Balance ids\<close>

definition bm_normalizePaymentId :: "string option \<Rightarrow> string option" where
  "bm_normalizePaymentId p = (case p of Some s \<Rightarrow> if 10 < length s then Some s else None | None \<Rightarrow> None)"

definition cacheKey :: "string \<Rightarrow> string \<Rightarrow> string option \<Rightarrow> string" where
  "cacheKey address ptype paymentId =
     address @ ''|'' @ ptype @ ''|'' @ (case paymentId of None \<Rightarrow> [] | Some p \<Rightarrow> p)"

definition isDuplicateEntry :: "string \<Rightarrow> bool" where
  "isDuplicateEntry e \<longleftrightarrow> e = ''ER_DUP_ENTRY'' \<or> contains ''Duplicate entry'' e"

definition rememberId :: "string \<Rightarrow> nat \<Rightarrow> nat bm" where
  "rememberId key i = andThen (modify (\<lambda>w. w\<lparr>balanceIdCache := (balanceIdCache w)(key \<mapsto> i)\<rparr>)) (\<lambda>_. ret i)"

definition theOnlyRow :: "string \<Rightarrow> nat list \<Rightarrow> nat bm" where
  "theOnlyRow key rows =
     (case rows of
        [i] \<Rightarrow> rememberId key i
      | _ \<Rightarrow> andThen fullStop (\<lambda>_. throw ''Unable to resolve balance row''))"

definition getOrCreateBalanceId :: "credit_row \<Rightarrow> nat bm" where
  "getOrCreateBalanceId payment =
     (let paymentId = bm_normalizePaymentId (cr_payment_id payment);
          ptype = cr_pool_type payment;
          key = cacheKey (cr_address payment) ptype paymentId;
          load = bm_query (\<lambda>d. Inr (loadRows (cr_address payment) paymentId ptype d, d))
      in andThen (gets (\<lambda>w. balanceIdCache w key)) (\<lambda>cachedId.
           case cachedId of
             Some i \<Rightarrow> ret i
           | None \<Rightarrow>
               andThen load (\<lambda>rows.
                 if 1 < length rows then andThen fullStop (\<lambda>_. throw ''Multiple balance rows found'')
                 else if rows = [] then
                   andThen
                     (try_catch
                       (andThen (bm_query (insertBalance (cr_address payment) paymentId ptype)) (\<lambda>i. ret (Some i)))
                       (\<lambda>e. if isDuplicateEntry e then ret None else throw e))
                     (\<lambda>inserted. case inserted of
                        Some i \<Rightarrow> rememberId key i
                      | None \<Rightarrow> andThen load (theOnlyRow key))
                 else theOnlyRow key rows)))"

fun resolveEach :: "credit_row list \<Rightarrow> credit list bm" where
  "resolveEach [] = ret []"
| "resolveEach (p # ps) =
     andThen (getOrCreateBalanceId p) (\<lambda>i. andThen (resolveEach ps) (\<lambda>cs. ret ((i, cr_amount p) # cs)))"

definition addAggregate :: "credit \<Rightarrow> credit list \<Rightarrow> credit list" where
  "addAggregate c agg =
     (if snd c = 0 then agg
      else AList.update (fst c) (fl ((case map_of agg (fst c) of Some x \<Rightarrow> x | None \<Rightarrow> 0) + snd c)) agg)"

definition aggregate :: "credit list \<Rightarrow> credit list" where
  "aggregate resolved = fold addAggregate resolved []"

definition resolveBalanceCredits :: "credit_row list \<Rightarrow> credit list bm" where
  "resolveBalanceCredits credits = andThen (resolveEach credits) (\<lambda>resolved. ret (aggregate resolved))"

subsection \<open>Weights of a block\<close>

definition getBalanceSum :: "num bm" where
  "getBalanceSum = andThen (bm_query (\<lambda>d. Inr (balanceSum d, d)))
     (\<lambda>s. case s of Some x \<Rightarrow> ret x | None \<Rightarrow> throw ''SELECT SUM(amount) query returned an invalid result'')"

definition replaceBlockBalanceRows :: "string list \<Rightarrow> block_balance_row list \<Rightarrow> bool bm" where
  "replaceBlockBalanceRows blockHexes rows =
     try_catch
       (andThen (bm_query (\<lambda>d. Inr ((), deleteBlockBalance blockHexes d))) (\<lambda>_.
          if rows = [] then ret True
          else andThen (bm_query (insertBlockBalance rows)) (\<lambda>affectedRows. ret (length rows \<le> affectedRows))))
       (\<lambda>_. ret False)"

definition cacheWeights :: "pplns_acc \<Rightarrow> num \<Rightarrow> num \<Rightarrow> local_db \<Rightarrow> local_db" where
  "cacheWeights a firstShareTime lastShareTime l =
     setCache ''pplns_window_time'' (JNum (fl (fl (firstShareTime - lastShareTime) / 1000)))
       (setCache ''pplns_port_shares'' (JObj (portShareTable (p_portShares a))) l)"

primrec preCalculatePPLNSPayments :: "nat \<Rightarrow> string list \<Rightarrow> int \<Rightarrow> num \<Rightarrow> bool bm" where
  "preCalculatePPLNSPayments 0 blockHexes blockHeight blockDifficulty = throw ''still retrying at the top height''"
| "preCalculatePPLNSPayments (Suc fuel) blockHexes blockHeight blockDifficulty =
     andThen (gets (\<lambda>w. (bm_cfg (benv w), shareDB (bm_local (bdb w))))) (\<lambda>(cfg, shares).
       let window = fl (blockDifficulty * shareMulti cfg)
       in case collectPplnsSharePayments cfg window shares blockHeight of
            Inl e \<Rightarrow> throw e
          | Inr a \<Rightarrow>
              let tp = totalPayments (p_data a)
              in if tp = 0 then
                   andThen getTopBlockHeight (\<lambda>topH. case topH of
                     None \<Rightarrow> ret False
                   | Some h \<Rightarrow> if h = blockHeight then ret False
                               else preCalculatePPLNSPayments fuel blockHexes h blockDifficulty)
                 else (case (p_firstShareTime a, p_lastShareTime a) of
                     (Some t1, Some t2) \<Rightarrow>
                       andThen (onLocal (\<lambda>l. Inr (cacheWeights a t1 t2 l))) (\<lambda>_.
                         replaceBlockBalanceRows blockHexes
                           (block_balance_rows blockHexes (payWindow tp window) (p_data a)))
                   | _ \<Rightarrow> ret False))"

definition preCalculateAndMark :: "string list \<Rightarrow> int \<Rightarrow> num \<Rightarrow> (local_db \<Rightarrow> local_db) \<Rightarrow> unit bm" where
  "preCalculateAndMark blockHexes blockHeight blockDifficulty markReady =
     andThen (gets (\<lambda>w. (list_ex (\<lambda>hex. hex \<in> set (inFlightPrecalc w)) blockHexes, retryFuel (benv w))))
       (\<lambda>(busy, fuel). if busy then ret ()
         else andThen (modify (\<lambda>w. w\<lparr>inFlightPrecalc := blockHexes @ inFlightPrecalc w\<rparr>)) (\<lambda>_.
           tryFinally (\<lambda>w. w\<lparr>inFlightPrecalc := filter (\<lambda>h. h \<notin> set blockHexes) (inFlightPrecalc w)\<rparr>)
             (andThen (preCalculatePPLNSPayments fuel blockHexes blockHeight blockDifficulty) (\<lambda>status'.
                if status' then onLocal (\<lambda>l. Inr (markReady l)) else ret ()))))"

subsection \<open>Paying a block\<close>

definition credits_of :: "num \<Rightarrow> block_balance_row list \<Rightarrow> credit_row list" where
  "credits_of blockReward rows =
     filter (\<lambda>c. cr_amount c \<noteq> 0)
       (map (\<lambda>r. \<lparr>cr_pool_type = ''pplns'', cr_address = bb_address r,
                   cr_payment_id = bm_normalizePaymentId (bb_payment_id r),
                   cr_amount = js_floor (fl (bb_amount r * blockReward))\<rparr>) rows)"

definition stopped :: "bool bm" where
  "stopped = andThen fullStop (\<lambda>_. ret False)"

definition trySum :: "num option bm" where
  "trySum = try_catch (andThen getBalanceSum (\<lambda>x. ret (Some x))) (\<lambda>_. andThen fullStop (\<lambda>_. ret None))"

definition doPPLNSPayments :: "string \<Rightarrow> num \<Rightarrow> int \<Rightarrow> int \<Rightarrow> bool bm" where
  "doPPLNSPayments blockHex blockReward blockPort blockTimestamp =
     andThen trySum (\<lambda>previousBalanceSum. case previousBalanceSum of
       None \<Rightarrow> ret False
     | Some before \<Rightarrow>
         andThen (bm_query (\<lambda>d. Inr (selectBlockBalance blockHex d, d))) (\<lambda>rows.
         if rows = [] then ret False
         else
           andThen (resolveBalanceCredits (credits_of blockReward rows)) (\<lambda>balanceCredits.
           if foldl (\<lambda>s c. fl (s + snd c)) 0 balanceCredits = 0 then stopped
           else
             andThen
               (try_catch
                 (andThen (bm_withTransaction
                    (creditTransaction blockHex blockReward blockPort blockTimestamp balanceCredits)) (\<lambda>_. ret True))
                 (\<lambda>_. ret False))
               (\<lambda>committed.
                 if \<not> committed then ret False
                 else andThen trySum (\<lambda>balanceSum'. case balanceSum' of
                        None \<Rightarrow> ret False
                      | Some now \<Rightarrow> if now \<noteq> before then ret True else stopped)))))"

definition executePayout :: "string \<Rightarrow> num \<Rightarrow> int \<Rightarrow> int \<Rightarrow> (string \<Rightarrow> local_db \<Rightarrow> local_db) \<Rightarrow> unit bm" where
  "executePayout blockHex reward port timestamp unlockFn =
     andThen (gets paymentInProgress) (\<lambda>busy.
       if busy then ret ()
       else andThen (modify (\<lambda>w. w\<lparr>paymentInProgress := True\<rparr>)) (\<lambda>_.
         tryFinally (\<lambda>w. w\<lparr>paymentInProgress := False\<rparr>)
           (andThen (doPPLNSPayments blockHex reward port timestamp) (\<lambda>isPaid.
              if isPaid then onLocal (\<lambda>l. Inr (unlockFn blockHex l)) else ret ()))))"

definition payCheckedBlock ::
  "string \<Rightarrow> int \<Rightarrow> coin_reply \<Rightarrow> num \<Rightarrow> int \<Rightarrow> (string \<Rightarrow> local_db \<Rightarrow> local_db) \<Rightarrow> (jsval \<Rightarrow> bool) \<Rightarrow> bool bm" where
  "payCheckedBlock blockHex timestamp header reward port unlockFn isValidHeader =
     (if reply_error header = JNull \<and> truthy (reply_body header) \<and> isValidHeader (reply_body header)
      then andThen (executePayout blockHex reward port timestamp unlockFn) (\<lambda>_. ret True)
      else ret False)"

definition mainHeaderMatches :: "int \<Rightarrow> block_msg \<Rightarrow> num \<Rightarrow> jsval \<Rightarrow> bool" where
  "mainHeaderMatches height block v body \<longleftrightarrow>
     getf body ''height'' = JNum (of_int height) \<and> getf body ''reward'' = JNum v \<and>
     getf body ''difficulty'' = JNum (b_difficulty block)"

definition payMainBlock :: "int \<Rightarrow> block_msg \<Rightarrow> bool bm" where
  "payMainBlock height block =
     (case b_value block of
        None \<Rightarrow> ret False
      | Some v \<Rightarrow>
          andThen (callCoin (getBlockHeaderByHash (b_hash block))) (\<lambda>header.
          andThen (gets (\<lambda>w. daemonPort (bm_cfg (benv w)))) (\<lambda>port.
            payCheckedBlock (b_hash block) (b_timestamp block) header v port unlockBlock
              (mainHeaderMatches height block v))))"

definition altHeaderMatches :: "alt_msg \<Rightarrow> jsval \<Rightarrow> bool" where
  "altHeaderMatches block body \<longleftrightarrow>
     (case (getf body ''reward'', b_value block) of
        (JNum reward, Some v) \<Rightarrow> getf body ''height'' = JNum (of_int (a_height block)) \<and> reward \<le> v
      | _ \<Rightarrow> False)"

definition payAltBlock :: "alt_msg \<Rightarrow> bool bm" where
  "payAltBlock block =
     (case a_pay_value block of
        None \<Rightarrow> ret False
      | Some v \<Rightarrow>
          andThen (callCoin (getPortBlockHeaderByHash (a_port block) (b_hash block))) (\<lambda>header.
            payCheckedBlock (b_hash block) (b_timestamp block) header v (a_port block) unlockAltBlock
              (altHeaderMatches block)))"

definition isAltblockOrphanResponse :: "jsval \<Rightarrow> bool" where
  "isAltblockOrphanResponse body \<longleftrightarrow> isRecord body \<and>
     (getf body ''orphan_status'' = JBool True \<or> getf body ''topoheight'' = JNum (-1) \<or>
      getf body ''confirmations'' = JNum (-1) \<or>
      (isRecord (getf body ''error'') \<and>
       getf (getf body ''error'') ''message'' = JStr ''The requested hash could not be found.''))"

subsection \<open>The unlockers\<close>

definition BLOCK_HASH_CONFIRM_DELAY :: int where
  "BLOCK_HASH_CONFIRM_DELAY = 5"

definition ALTBLOCK_PRECALC_DELAY :: int where
  "ALTBLOCK_PRECALC_DELAY = 720"

definition MAX_ANCHOR_PRECALC_PER_CYCLE :: nat where
  "MAX_ANCHOR_PRECALC_PER_CYCLE = 10"

definition unlockMain :: "int \<Rightarrow> nat \<times> block_msg \<Rightarrow> unit bm" where
  "unlockMain topH kb =
     (let height = int (fst kb); block = snd kb
      in if topH - height \<le> BLOCK_HASH_CONFIRM_DELAY \<or> b_poolType block \<noteq> PPLNS then ret ()
         else
           andThen (callCoin (getBlockHeaderByID height)) (\<lambda>header.
             if reply_error header \<noteq> JNull then ret ()
             else if \<not> truthy (reply_body header) \<or> getf (reply_body header) ''hash'' \<noteq> JStr (b_hash block)
             then onLocal (invalidateBlock (fst kb))
             else if b_pay_ready block \<noteq> Some True
             then preCalculateAndMark [b_hash block] height (b_difficulty block) (payReadyBlock (b_hash block))
             else
               andThen (gets (\<lambda>w. blocksRequired (bm_cfg (benv w)))) (\<lambda>required.
                 if required < of_int (topH - height) then andThen (payMainBlock height block) (\<lambda>_. ret ()) else ret ())))"

fun forEach :: "('x \<Rightarrow> unit bm) \<Rightarrow> 'x list \<Rightarrow> unit bm" where
  "forEach f [] = ret ()"
| "forEach f (x # xs) = andThen (f x) (\<lambda>_. forEach f xs)"

definition runBlockUnlocker :: "unit bm" where
  "runBlockUnlocker =
     andThen (gets (\<lambda>w. (canRun w, getValidLockedBlocks (bm_local (bdb w))))) (\<lambda>(can, blockList).
       if \<not> can then ret ()
       else andThen getTopBlockHeight (\<lambda>topBlockHeight. case topBlockHeight of
              None \<Rightarrow> ret ()
            | Some topH \<Rightarrow> forEach (unlockMain topH) blockList))"

type_synonym anchors = "(int \<times> string list) list"

definition addAnchor :: "int \<Rightarrow> string \<Rightarrow> anchors \<Rightarrow> anchors" where
  "addAnchor h hash m = AList.update h ((case map_of m h of Some hs \<Rightarrow> hs | None \<Rightarrow> []) @ [hash]) m"

definition anchorOf :: "int \<Rightarrow> int \<Rightarrow> int" where
  "anchorOf rnd anchor = anchor - sgn anchor * (\<bar>anchor\<bar> mod \<bar>rnd\<bar>)"

definition handleAltBlock :: "alt_msg \<times> nat \<Rightarrow> anchors \<Rightarrow> anchors bm" where
  "handleAltBlock bk anchors =
     (let block = fst bk; blockId = snd bk
      in if b_poolType block \<noteq> PPLNS then ret anchors
         else if b_pay_ready block \<noteq> Some True then
           (case b_value block of
              Some v \<Rightarrow>
                if v \<noteq> 0 then
                  andThen (gets (\<lambda>w. anchorRound (bm_cfg (benv w)))) (\<lambda>rnd.
                    ret (addAnchor (anchorOf rnd (a_anchor_height block)) (b_hash block) anchors))
                else ret anchors
            | None \<Rightarrow> ret anchors)
         else if a_pay_value block = Some 0 then ret anchors
         else
           andThen (callCoin (getPortBlockHeaderByHash (a_port block) (b_hash block))) (\<lambda>header.
             if isAltblockOrphanResponse (reply_body header)
             then andThen (onLocal (invalidateAltBlock blockId)) (\<lambda>_. ret anchors)
             else if reply_error header \<noteq> JNull then
               andThen (gets (\<lambda>w. skipHashFallback (benv w) (a_port block))) (\<lambda>skip.
                 if skip then ret anchors
                 else
                   andThen (callCoin (getPortBlockHeaderByID (a_port block) (a_height block))) (\<lambda>byHeight.
                     if reply_error byHeight = JNull \<and> truthy (reply_body byHeight) \<and>
                        getf (reply_body byHeight) ''hash'' \<noteq> JStr (b_hash block)
                     then andThen (onLocal (invalidateAltBlock blockId)) (\<lambda>_. ret anchors)
                     else ret anchors))
             else andThen (payAltBlock block) (\<lambda>_. ret anchors)))"

fun handleAltBlocks :: "int \<Rightarrow> (nat \<times> alt_msg) list \<Rightarrow> anchors \<Rightarrow> anchors bm" where
  "handleAltBlocks topH [] anchors = ret anchors"
| "handleAltBlocks topH ((k, block) # rest) anchors =
     andThen (if topH - a_anchor_height block \<le> ALTBLOCK_PRECALC_DELAY then ret anchors
              else handleAltBlock (block, k) anchors)
       (handleAltBlocks topH rest)"

definition precalcAnchor :: "anchors \<Rightarrow> int \<Rightarrow> unit bm" where
  "precalcAnchor anchors anchorHeight =
     andThen (callCoin (getBlockHeaderByID anchorHeight)) (\<lambda>anchorHeader.
       if reply_error anchorHeader \<noteq> JNull \<or> \<not> truthy (reply_body anchorHeader) then ret ()
       else (case (map_of anchors anchorHeight, getf (reply_body anchorHeader) ''difficulty'') of
               (Some blockHexes, JNum difficulty) \<Rightarrow>
                 preCalculateAndMark blockHexes anchorHeight difficulty (fold payReadyAltBlock blockHexes)
             | _ \<Rightarrow> ret ()))"

definition runAltblockUnlocker :: "unit bm" where
  "runAltblockUnlocker =
     andThen (gets (\<lambda>w. (canRun w, getValidLockedAltBlocks (bm_local (bdb w))))) (\<lambda>(can, blockList).
       if \<not> can then ret ()
       else andThen getTopBlockHeight (\<lambda>topBlockHeight. case topBlockHeight of
              None \<Rightarrow> ret ()
            | Some topH \<Rightarrow>
                andThen (handleAltBlocks topH blockList []) (\<lambda>anchors.
                  forEach (precalcAnchor anchors)
                    (take MAX_ANCHOR_PRECALC_PER_CYCLE (own_int_keys (map fst anchors))))))"

definition bm_runCycle :: "unit bm" where
  "bm_runCycle = andThen runBlockUnlocker (\<lambda>_. runAltblockUnlocker)"

end
