(* ===== verification/Block_Safety.thy ===== *)
theory Block_Safety
  imports Block_Manager
begin

text \<open>
  What a cycle of the block manager guarantees, whatever the daemons, the database and
  other processes do. The interface \<open>store_client\<close> states what an assertion on the world
  must be closed under; every program of the block manager then keeps it.
\<close>

subsection \<open>Rules for the combinators\<close>

lemma triple_tryFinally:
  assumes "triple P m R" "\<And>r w. R r w \<Longrightarrow> Q r (f w)"
  shows "triple P (tryFinally f m) Q"
  using assms by (auto simp: triple_def tryFinally_def split: prod.split)

lemma keeps_tryFinally:
  "keeps I m \<Longrightarrow> (\<And>w. I w \<Longrightarrow> I (f w)) \<Longrightarrow> keeps I (tryFinally f m)"
  by (rule triple_tryFinally)

lemma keeps_forEach: "(\<And>x. keeps I (f x)) \<Longrightarrow> keeps I (forEach f xs)"
  by (induction xs) (auto intro: triple_intros)

subsection \<open>The statements as steps\<close>

lemma insertBalance_step:
  assumes "insertBalance a p t d = Inr (k, d')" "bm_ok d"
  shows "bm_step 0 d d'"
proof -
  let ?row = "\<lparr>bal_address = a, bal_payment_id = p, bal_pool_type = t, bal_amount = 0, bal_pending = None\<rparr>"
  let ?p = "(bm_pay d)\<lparr>balances := balances (bm_pay d) @ [(next_balance_id d, ?row)]\<rparr>"
  have d': "d' = d\<lparr>bm_pay := ?p, next_balance_id := next_balance_id d + 1\<rparr>"
    using assms(1) by (auto simp: insertBalance_def Let_def split: if_splits)
  have fresh: "\<forall>k \<in> fst ` set (balances (bm_pay d)). k < next_balance_id d" using assms(2) by (simp add: bm_ok_def)
  then have "next_balance_id d \<notin> fst ` set (balances (bm_pay d))" by blast
  then have "db_step 0 (bm_pay d) ?p" by (intro db_step.new_balance) auto
  then show ?thesis unfolding d' by (rule bm_step.payments) (use fresh in \<open>auto simp: less_Suc_eq\<close>)
qed

lemma delete_step: "bm_step 0 d (deleteBlockBalance hs d)"
  unfolding deleteBlockBalance_def by (rule bm_step.weights)

lemma insert_weights_step: "insertBlockBalance rows d = Inr (n, d') \<Longrightarrow> bm_step 0 d d'"
  by (auto simp: insertBlockBalance_def split: if_splits intro: bm_step.weights)

lemma put_row_all:
  assumes "put_row k f t = Inr t'" "\<forall>(i, r) \<in> set t. P r" "\<And>r. P r \<Longrightarrow> P (f r)"
  shows "\<forall>(i, r) \<in> set t'. P r"
  using assms by (fastforce simp: put_row_def set_update_where split: option.splits if_splits dest: map_of_SomeD)

lemma on_hash_all:
  assumes "\<forall>(i, r) \<in> set t. P r" "\<And>r. P r \<Longrightarrow> b_hash r = h \<Longrightarrow> P (f r)"
  shows "\<forall>(i, r) \<in> set (on_hash h f t). P r"
  using assms by (fastforce simp: on_hash_def set_update_where)

lemma local_ok_invalidate:
  "local_ok paid l \<Longrightarrow> invalidateBlock k l = Inr l' \<Longrightarrow> local_ok paid l'"
  "local_ok paid l \<Longrightarrow> invalidateAltBlock k l = Inr l' \<Longrightarrow> local_ok paid l'"
  unfolding invalidateBlock_def invalidateAltBlock_def
  by (cases "put_row k invalid_fields (blockDB l)"; force simp: local_ok_def main_settled_def invalid_fields_def
        dest: put_row_all [where P = "main_settled paid"])
     (cases "put_row k invalid_fields (altblockDB l)"; force simp: local_ok_def alt_settled_def invalid_fields_def
        dest: put_row_all [where P = "alt_settled paid"])

lemma local_ok_on_hash:
  assumes "local_ok paid l"
  shows "(\<And>r. main_settled paid r \<Longrightarrow> b_hash r = h \<Longrightarrow> main_settled paid (f r)) \<Longrightarrow>
           local_ok paid (l\<lparr>blockDB := on_hash h f (blockDB l)\<rparr>)"
    and "(\<And>r. alt_settled paid r \<Longrightarrow> b_hash r = h \<Longrightarrow> alt_settled paid (g r)) \<Longrightarrow>
           local_ok paid (l\<lparr>altblockDB := on_hash h g (altblockDB l)\<rparr>)"
  using assms on_hash_all [of "blockDB l" "main_settled paid" h f] on_hash_all [of "altblockDB l" "alt_settled paid" h g]
  unfolding local_ok_def by simp_all

lemma local_ok_ready:
  "local_ok paid l \<Longrightarrow> local_ok paid (payReadyBlock h l)"
  "local_ok paid l \<Longrightarrow> local_ok paid (payReadyAltBlock h l)"
  unfolding payReadyBlock_def payReadyAltBlock_def
  by (rule local_ok_on_hash; simp add: main_settled_def alt_settled_def)+

lemma local_ok_unlock:
  "local_ok paid l \<Longrightarrow> h \<in> paid \<Longrightarrow> local_ok paid (unlockBlock h l)"
  "local_ok paid l \<Longrightarrow> h \<in> paid \<Longrightarrow> local_ok paid (unlockAltBlock h l)"
  unfolding unlockBlock_def unlockAltBlock_def
  by (rule local_ok_on_hash; simp add: main_settled_def alt_settled_def)+

lemma local_ok_cache: "local_ok paid l \<Longrightarrow> local_ok paid (cacheWeights a t1 t2 l)"
  by (simp add: local_ok_def cacheWeights_def setCache_def)

lemma distinct_aggregate: "distinct (map fst (aggregate cs))"
proof -
  have "distinct (map fst agg) \<Longrightarrow> distinct (map fst (fold addAggregate cs agg))" for agg
    by (induction cs arbitrary: agg) (auto simp: addAggregate_def distinct_update)
  from this [of "[]"] show ?thesis by (simp add: aggregate_def)
qed

subsection \<open>What a client of the store needs of its assertion\<close>

locale precalc_client =
  fixes I :: "bm_world \<Rightarrow> bool"
  assumes inv_ok: "I w \<Longrightarrow> bm_ok (bdb w)"
    and inv_await: "I w \<Longrightarrow> I (bm_await w)"
    and inv_weights: "I w \<Longrightarrow> I (w\<lparr>bdb := (bdb w)\<lparr>block_balance := rows\<rparr>\<rparr>)"
    and inv_local: "I w \<Longrightarrow> local_ok (paid_hexes (bdb w)) l \<Longrightarrow> I (w\<lparr>bdb := (bdb w)\<lparr>bm_local := l\<rparr>\<rparr>)"
    and inv_precalc: "I w \<Longrightarrow> I (w\<lparr>inFlightPrecalc := f\<rparr>)"
begin

lemma keeps_callCoin: "keeps I (callCoin c)"
  unfolding callCoin_def by (intro triple_intros keeps_modify inv_await)

lemma keeps_getTopBlockHeight: "keeps I getTopBlockHeight"
  unfolding getTopBlockHeight_def by (intro triple_intros keeps_callCoin)

lemma keeps_pure_query:
  assumes "\<And>w x d'. I w \<Longrightarrow> f (bdb w) = Inr (x, d') \<Longrightarrow> I (w\<lparr>bdb := d'\<rparr>)"
  shows "keeps I (bm_query f)"
proof (rule tripleI)
  fix w assume "I w"
  then have a: "I (bm_await w)" by (rule inv_await)
  with assms [OF a] show "I (snd (bm_query f w))"
    by (auto simp: bm_query_def Let_def split: sql_outcome.split sum.split prod.split)
qed

lemma keeps_select: "keeps I (bm_query (\<lambda>d. Inr (g d, d)))"
  by (rule keeps_pure_query) auto

lemma keeps_onLocal:
  assumes "\<And>w l'. I w \<Longrightarrow> f (bm_local (bdb w)) = Inr l' \<Longrightarrow> local_ok (paid_hexes (bdb w)) l'"
  shows "keeps I (onLocal f)"
proof (rule tripleI)
  fix w assume w: "I w"
  have "I (w\<lparr>bdb := (bdb w)\<lparr>bm_local := l\<rparr>\<rparr>)" if "f (bm_local (bdb w)) = Inr l" for l
    by (rule inv_local [OF w assms [OF w that]])
  with w show "I (snd (onLocal f w))" by (auto simp: onLocal_def split: sum.split)
qed

lemma keeps_local:
  assumes "\<And>paid l l'. local_ok paid l \<Longrightarrow> f l = Inr l' \<Longrightarrow> local_ok paid l'"
  shows "keeps I (onLocal f)"
  by (rule keeps_onLocal) (use assms inv_ok in \<open>auto simp: bm_ok_def\<close>)

lemma keeps_replaceBlockBalanceRows: "keeps I (replaceBlockBalanceRows hs rows)"
  unfolding replaceBlockBalanceRows_def
  by (intro triple_intros keeps_pure_query)
     (auto simp: deleteBlockBalance_def insertBlockBalance_def inv_weights split: if_splits)

lemma keeps_preCalculatePPLNSPayments: "keeps I (preCalculatePPLNSPayments fuel hs h diff)"
proof (induction fuel arbitrary: h)
  case 0
  show ?case by (simp add: triple_intros)
next
  case (Suc fuel)
  have "keeps I (onLocal (\<lambda>l. Inr (cacheWeights a t1 t2 l)))" for a t1 t2
    by (rule keeps_local) (auto intro: local_ok_cache)
  with Suc show ?case
    by (auto intro!: triple_intros keeps_getTopBlockHeight keeps_replaceBlockBalanceRows
        simp: Let_def split: prod.split sum.split option.split)
qed

lemma keeps_preCalculateAndMark:
  assumes "\<And>paid l. local_ok paid l \<Longrightarrow> local_ok paid (mark l)"
  shows "keeps I (preCalculateAndMark hs h diff mark)"
proof -
  have "keeps I (onLocal (\<lambda>l. Inr (mark l)))" by (rule keeps_local) (use assms in auto)
  then show ?thesis
    unfolding preCalculateAndMark_def
    by (auto intro!: triple_intros keeps_modify inv_precalc keeps_tryFinally keeps_preCalculatePPLNSPayments
        split: prod.split)
qed

lemma keeps_invalidate: "keeps I (onLocal (invalidateBlock k))" "keeps I (onLocal (invalidateAltBlock k))"
  by (auto intro!: keeps_local intro: local_ok_invalidate)

end

locale store_client = precalc_client +
  assumes inv_rival: "I w \<Longrightarrow> reaches bm_step (bdb w) (bdb (bm_await w))"
    and inv_step: "I w \<Longrightarrow> bm_step c (bdb w) d \<Longrightarrow> I (w\<lparr>bdb := d\<rparr>)"
    and inv_stop: "I w \<Longrightarrow> I (w\<lparr>isFullStop' := True\<rparr>)"
    and inv_memory: "I w \<Longrightarrow> I (w\<lparr>paymentInProgress := p\<rparr>)" "I w \<Longrightarrow> I (w\<lparr>balanceIdCache := m\<rparr>)"
begin

lemma keeps_query:
  assumes "\<And>d x d'. bm_ok d \<Longrightarrow> f d = Inr (x, d') \<Longrightarrow> d' = d \<or> bm_step 0 d d'"
  shows "keeps I (bm_query f)"
proof (rule keeps_pure_query)
  fix w x d' assume w: "I w" and f: "f (bdb w) = Inr (x, d')"
  show "I (w\<lparr>bdb := d'\<rparr>)" using assms [OF inv_ok [OF w] f] inv_step [OF w] w by auto
qed

lemma keeps_fullStop: "keeps I fullStop"
  unfolding fullStop_def by (rule keeps_modify) (rule inv_stop)

lemma keeps_rememberId: "keeps I (rememberId key i)"
  unfolding rememberId_def by (intro triple_intros keeps_modify inv_memory)

lemma keeps_theOnlyRow: "keeps I (theOnlyRow key rows)"
  unfolding theOnlyRow_def
  by (auto split: list.split intro!: keeps_rememberId keeps_andThen keeps_fullStop keeps_throw)

lemma keeps_getOrCreateBalanceId: "keeps I (getOrCreateBalanceId p)"
  unfolding getOrCreateBalanceId_def Let_def
  by (intro triple_intros keeps_select keeps_fullStop keeps_rememberId keeps_theOnlyRow keeps_query)
     (auto dest: insertBalance_step)

lemma keeps_resolveEach: "keeps I (resolveEach ps)"
  by (induction ps) (auto intro!: triple_intros keeps_getOrCreateBalanceId)

lemma keeps_resolveBalanceCredits: "keeps I (resolveBalanceCredits cs)"
  unfolding resolveBalanceCredits_def by (intro triple_intros keeps_resolveEach)

lemma keeps_trySum: "keeps I trySum"
  unfolding trySum_def getBalanceSum_def
  by (intro triple_intros keeps_select keeps_fullStop)

lemma keeps_stopped: "keeps I stopped"
  unfolding stopped_def by (intro triple_intros keeps_fullStop)

text \<open>Knowing that a block is paid is stable.\<close>

lemma paid_client: "store_client (\<lambda>w. I w \<and> hex \<in> paid_hexes (bdb w))"
proof unfold_locales
  fix w assume w: "I w \<and> hex \<in> paid_hexes (bdb w)"
  show "bm_ok (bdb w)" "reaches bm_step (bdb w) (bdb (bm_await w))" using w inv_ok inv_rival by auto
  then show "I (bm_await w) \<and> hex \<in> paid_hexes (bdb (bm_await w))"
    using w inv_await reaches_paid_hexes by blast
  show "I (w\<lparr>bdb := d\<rparr>) \<and> hex \<in> paid_hexes (bdb (w\<lparr>bdb := d\<rparr>))" if "bm_step c (bdb w) d" for c d
    using w that inv_step bm_step_paid [OF that] by (auto simp: paid_hexes_def)
  show "I (w\<lparr>bdb := (bdb w)\<lparr>block_balance := rows\<rparr>\<rparr>) \<and>
      hex \<in> paid_hexes (bdb (w\<lparr>bdb := (bdb w)\<lparr>block_balance := rows\<rparr>\<rparr>))" for rows
    using w inv_weights by (simp add: paid_hexes_def)
  show "I (w\<lparr>bdb := (bdb w)\<lparr>bm_local := l\<rparr>\<rparr>) \<and> hex \<in> paid_hexes (bdb (w\<lparr>bdb := (bdb w)\<lparr>bm_local := l\<rparr>\<rparr>))"
    if "local_ok (paid_hexes (bdb w)) l" for l
    using w inv_local [OF _ that] by (simp add: paid_hexes_def)
qed (auto intro: inv_stop inv_memory inv_precalc)

lemma triple_resolveBalanceCredits:
  "triple I (resolveBalanceCredits cs) (\<lambda>r w. I w \<and> (\<forall>x. r = Inr x \<longrightarrow> distinct (map fst x)))"
  unfolding resolveBalanceCredits_def
  by (rule triple_andThen [OF keeps_resolveEach]) (auto intro!: triple_ret distinct_aggregate)

lemma triple_creditTransaction:
  assumes "distinct (map fst credits)"
  shows "triple I (bm_withTransaction (creditTransaction hex reward port t credits))
     (\<lambda>r w. I w \<and> (r = Inr () \<longrightarrow> hex \<in> paid_hexes (bdb w)))"
proof (rule tripleI)
  fix w assume "I w"
  then have a: "I (bm_await w)" by (rule inv_await)
  let ?f = "creditTransaction hex reward port t credits"
  have "I ((bm_await w)\<lparr>bdb := d\<rparr>) \<and> hex \<in> paid_hexes d" if "?f (bdb (bm_await w)) = Inr d" for d
    using inv_step [OF a bm_step.payout [OF that assms]] that
    by (auto elim!: creditTransaction_Inr simp: paid_hexes_def)
  with a show "I (snd (bm_withTransaction ?f w)) \<and>
      (fst (bm_withTransaction ?f w) = Inr () \<longrightarrow> hex \<in> paid_hexes (bdb (snd (bm_withTransaction ?f w))))"
    by (auto simp: bm_withTransaction_def Let_def split: tx_outcome.split sum.split)
qed

text \<open>A payout that reports success has its block in the table of paid blocks.\<close>

lemma triple_doPPLNSPayments:
  "triple I (doPPLNSPayments hex reward port t)
     (\<lambda>r w. I w \<and> (r = Inr True \<longrightarrow> hex \<in> paid_hexes (bdb w)))"
proof -
  let ?J = "\<lambda>w. I w \<and> hex \<in> paid_hexes (bdb w)"
  let ?Q = "\<lambda>r w. I w \<and> (r = Inr True \<longrightarrow> hex \<in> paid_hexes (bdb w))"
  have stop: "triple I stopped ?Q"
    unfolding stopped_def by (rule triple_seq [OF keeps_fullStop]) (auto intro: triple_ret)
  have no: "triple I (ret False) ?Q" by (rule triple_ret) simp
  have "keeps ?J trySum" "keeps ?J stopped"
    by (rule store_client.keeps_trySum store_client.keeps_stopped, rule paid_client)+
  then have "keeps ?J (andThen trySum (\<lambda>s. case s of None \<Rightarrow> ret False
      | Some now \<Rightarrow> if now \<noteq> before then ret True else stopped))" for before
    by (intro triple_intros)
  then have after: "triple ?J (andThen trySum (\<lambda>s. case s of None \<Rightarrow> ret False
      | Some now \<Rightarrow> if now \<noteq> before then ret True else stopped)) ?Q" for before
    by (rule triple_weaken) auto
  have commit: "triple I (try_catch (andThen (bm_withTransaction (creditTransaction hex reward port t credits))
        (\<lambda>_. ret True)) (\<lambda>_. ret False)) (\<lambda>r w. I w \<and> (r = Inr True \<longrightarrow> hex \<in> paid_hexes (bdb w)) \<and> (\<exists>b. r = Inr b))"
    if "distinct (map fst credits)" for credits
  proof (rule triple_try_catch)
    show "triple I (andThen (bm_withTransaction (creditTransaction hex reward port t credits)) (\<lambda>_. ret True))
        (\<lambda>r w. I w \<and> (r = Inr True \<longrightarrow> hex \<in> paid_hexes (bdb w)))"
      by (rule triple_andThen [OF triple_creditTransaction [OF that]]) (auto intro: triple_ret)
  qed (auto intro: triple_ret)
  have pay: "triple I
     (if foldl (\<lambda>s c. fl (s + snd c)) 0 credits = 0 then stopped
      else andThen (try_catch (andThen (bm_withTransaction (creditTransaction hex reward port t credits))
              (\<lambda>_. ret True)) (\<lambda>_. ret False))
            (\<lambda>committed. if \<not> committed then ret False
               else andThen trySum (\<lambda>s. case s of None \<Rightarrow> ret False
                      | Some now \<Rightarrow> if now \<noteq> before then ret True else stopped))) ?Q"
    if "distinct (map fst credits)" for credits before
    by (intro triple_if stop triple_andThen [OF commit [OF that]])
       (auto intro: triple_weaken [OF after] triple_weaken [OF no])
  have vacuous: "triple (\<lambda>w. I w \<and> (\<forall>x. Inr cs = Inr x \<longrightarrow> distinct (map fst x))) m ?Q"
    if "distinct (map fst cs) \<Longrightarrow> triple I m ?Q" for m and cs :: "credit list"
    using that by (simp add: triple_def)
  show ?thesis
    unfolding doPPLNSPayments_def
    apply (rule triple_seq [OF keeps_trySum])
     apply (split option.split, intro conjI impI allI, rule no)
     apply (rule triple_seq [OF keeps_select], rule triple_if [OF no])
      apply (rule triple_andThen [OF triple_resolveBalanceCredits])
      apply (rule vacuous, rule pay, assumption)
     apply simp_all
    done
qed

lemma keeps_executePayout:
  assumes "\<And>paid l. local_ok paid l \<Longrightarrow> hex \<in> paid \<Longrightarrow> local_ok paid (unlock hex l)"
  shows "keeps I (executePayout hex reward port t unlock)"
proof -
  have u: "triple (\<lambda>w. I w \<and> hex \<in> paid_hexes (bdb w)) (onLocal (\<lambda>l. Inr (unlock hex l)))
      (\<lambda>_ w. I w \<and> hex \<in> paid_hexes (bdb w))"
    by (rule precalc_client.keeps_onLocal [OF store_client.axioms(1) [OF paid_client]]) (use assms inv_ok in \<open>auto simp: bm_ok_def\<close>)
  have "keeps I (andThen (doPPLNSPayments hex reward port t)
      (\<lambda>isPaid. if isPaid then onLocal (\<lambda>l. Inr (unlock hex l)) else ret ()))"
    by (rule triple_andThen [OF triple_doPPLNSPayments])
       (auto intro!: triple_if triple_ret intro: triple_weaken [OF u])
  from keeps_tryFinally [OF this inv_memory(1)] show ?thesis
    unfolding executePayout_def by (intro triple_intros keeps_modify inv_memory)
qed

lemma keeps_payMainBlock: "keeps I (payMainBlock h block)"
  unfolding payMainBlock_def payCheckedBlock_def
  by (intro triple_intros keeps_callCoin keeps_executePayout local_ok_unlock)

lemma keeps_payAltBlock: "keeps I (payAltBlock block)"
  unfolding payAltBlock_def payCheckedBlock_def
  by (intro triple_intros keeps_callCoin keeps_executePayout local_ok_unlock)

lemma keeps_unlockMain: "keeps I (unlockMain h kb)"
  unfolding unlockMain_def Let_def
  by (intro triple_intros keeps_callCoin keeps_invalidate keeps_preCalculateAndMark keeps_payMainBlock local_ok_ready)

lemma keeps_runBlockUnlocker: "keeps I runBlockUnlocker"
  unfolding runBlockUnlocker_def
  by (auto intro!: triple_intros keeps_getTopBlockHeight keeps_forEach keeps_unlockMain split: prod.split)

lemma keeps_handleAltBlock: "keeps I (handleAltBlock bk anchors)"
  unfolding handleAltBlock_def Let_def
  by (intro triple_intros keeps_callCoin keeps_invalidate keeps_payAltBlock)

lemma keeps_handleAltBlocks: "keeps I (handleAltBlocks h blocks anchors)"
  by (induction blocks arbitrary: anchors) (auto intro!: triple_intros keeps_handleAltBlock)

lemma local_ok_ready_all: "local_ok paid l \<Longrightarrow> local_ok paid (fold payReadyAltBlock hs l)"
  by (induction hs arbitrary: l) (auto intro: local_ok_ready)

lemma keeps_precalcAnchor: "keeps I (precalcAnchor anchors h)"
proof -
  have "keeps I (preCalculateAndMark hs h diff (fold payReadyAltBlock hs))" for hs diff
    by (intro keeps_preCalculateAndMark local_ok_ready_all)
  then show ?thesis
    unfolding precalcAnchor_def
    by (auto intro!: triple_intros keeps_callCoin split: option.split jsval.split)
qed

lemma keeps_runAltblockUnlocker: "keeps I runAltblockUnlocker"
  unfolding runAltblockUnlocker_def
  by (auto intro!: triple_intros keeps_getTopBlockHeight keeps_handleAltBlocks keeps_forEach keeps_precalcAnchor
      split: prod.split)

lemma keeps_bm_runCycle: "keeps I bm_runCycle"
  unfolding bm_runCycle_def by (intro triple_intros keeps_runBlockUnlocker keeps_runAltblockUnlocker)

end

subsection \<open>Every moment of a run\<close>

definition bm_rivals_ok :: "bm_env \<Rightarrow> bool" where
  "bm_rivals_ok e \<longleftrightarrow> (\<forall>n d. bm_ok d \<longrightarrow> reaches bm_step d (bm_rival e n d))"

definition bm_safe :: "bm_world \<Rightarrow> bm_world \<Rightarrow> bool" where
  "bm_safe w0 w \<longleftrightarrow> benv w = benv w0 \<and> bm_rivals_ok (benv w0) \<and> bm_ok (bdb w0) \<and>
     reaches bm_step (bdb w0) (bdb w) \<and> (isFullStop' w0 \<longrightarrow> isFullStop' w)"

lemma bm_safe_refl: "bm_rivals_ok (benv w) \<Longrightarrow> bm_ok (bdb w) \<Longrightarrow> bm_safe w w"
  by (simp add: bm_safe_def reaches_refl)

lemma bm_safe_ok: "bm_safe w0 w \<Longrightarrow> bm_ok (bdb w)"
  unfolding bm_safe_def using bm.reaches_ok by blast

lemma bm_safe_step:
  assumes "bm_safe w0 w" "bm_step c (bdb w) d"
  shows "bm_safe w0 (w\<lparr>bdb := d\<rparr>)"
proof -
  have "reaches bm_step (bdb w0) (bdb w)" using assms(1) by (simp add: bm_safe_def)
  then have "reaches bm_step (bdb w0) d" using assms(2) by (rule reaches_step)
  with assms(1) show ?thesis by (simp add: bm_safe_def)
qed

interpretation bs: store_client "bm_safe w0" for w0
proof unfold_locales
  fix w assume w: "bm_safe w0 w"
  show ok: "bm_ok (bdb w)" using w by (rule bm_safe_ok)
  show r: "reaches bm_step (bdb w) (bdb (bm_await w))"
    using w ok by (simp add: bm_safe_def bm_rivals_ok_def bm_await_def)
  show "bm_safe w0 (bm_await w)"
    using w reaches_trans [OF _ r] by (auto simp: bm_safe_def bm_await_def)
  show "bm_safe w0 (w\<lparr>bdb := (bdb w)\<lparr>block_balance := rows\<rparr>\<rparr>)" for rows
    by (rule bm_safe_step [OF w bm_step.weights])
  show "bm_safe w0 (w\<lparr>bdb := (bdb w)\<lparr>bm_local := l\<rparr>\<rparr>)" if "local_ok (paid_hexes (bdb w)) l" for l
    by (rule bm_safe_step [OF w bm_step.store [OF that]])
  show "bm_safe w0 (w\<lparr>bdb := d\<rparr>)" if "bm_step c (bdb w) d" for c d
    by (rule bm_safe_step [OF w that])
qed (simp_all add: bm_safe_def)

text \<open>
  A precalculation pays nothing: as long as other processes leave the table of paid blocks
  alone, it stays as it is.
\<close>

definition payless :: "bm_env \<Rightarrow> paid_block list \<Rightarrow> bm_world \<Rightarrow> bool" where
  "payless e paid w \<longleftrightarrow> benv w = e \<and> bm_rivals_ok e \<and>
     (\<forall>n d. paid_blocks (bm_rival e n d) = paid_blocks d) \<and> bm_ok (bdb w) \<and> paid_blocks (bdb w) = paid"

interpretation pl: precalc_client "payless e paid" for e paid
proof unfold_locales
  fix w assume w: "payless e paid w"
  then show "bm_ok (bdb w)" by (simp add: payless_def)
  show "payless e paid (bm_await w)"
    using w bm.reaches_ok by (auto simp: payless_def bm_await_def bm_rivals_ok_def)
  show "payless e paid (w\<lparr>bdb := (bdb w)\<lparr>block_balance := rows\<rparr>\<rparr>)" for rows
    using w bm_step_ok [OF _ bm_step.weights] by (simp add: payless_def)
  show "payless e paid (w\<lparr>bdb := (bdb w)\<lparr>bm_local := l\<rparr>\<rparr>)" if "local_ok (paid_hexes (bdb w)) l" for l
    using w bm_step_ok [OF _ bm_step.store [OF that]] by (simp add: payless_def)
qed (simp add: payless_def)

end
