(* ===== verification/Block_Accounts.thy ===== *)
theory Block_Accounts
  imports Block_Safety
begin

text \<open>
  The account a balance row belongs to never changes, and the id cache of the block
  manager only ever holds ids of the account its key names: a credit cannot reach the
  balance of another account.
\<close>

type_synonym account = "string \<times> string option \<times> string"

definition row_account :: "balance_row \<Rightarrow> account" where
  "row_account r = (bal_address r, bal_payment_id r, bal_pool_type r)"

definition account_of :: "pay_db \<Rightarrow> nat \<Rightarrow> account option" where
  "account_of d i = map_option row_account (map_of (balances d) i)"

lemma account_update:
  "(\<And>i r. row_account (f i r) = row_account r) \<Longrightarrow>
     map_option row_account (map_of (update_where P f t) i) = map_option row_account (map_of t i)"
  by (auto simp: map_of_update_where split: option.split)

lemma db_step_account:
  assumes "db_step c d d'" "account_of d i = Some a"
  shows "account_of d' i = Some a"
  using assms
proof cases
  case (reserve t plan b)
  then show ?thesis using assms(2)
    by (auto simp: reserveTransaction_def Let_def account_of_def map_of_update_where row_account_def split: if_splits option.splits)
next
  case (finalize cfg t b batch items k tid)
  then show ?thesis using assms(2)
    by (auto simp: finalizeTransaction_def Let_def account_of_def map_of_update_where row_account_def cas_batch_def
        split: if_splits sum.splits option.splits)
next
  case (release t b e m x)
  then show ?thesis using assms(2)
    by (auto simp: releaseTransaction_def account_of_def map_of_update_where row_account_def cas_batch_def Let_def
        split: if_splits sum.splits option.splits)
next
  case (new_balance k r)
  then have "k \<noteq> i" using assms(2) by (auto simp: account_of_def dest: map_of_SomeD intro: rev_image_eqI)
  then show ?thesis using assms(2) new_balance by (auto simp: account_of_def map_add_def)
qed (use assms(2) in \<open>auto simp: account_of_def cas_batch_def claimQuery_def Let_def map_of_update_where row_account_def
       split: if_splits option.splits\<close>)

lemma accum_account: "accum db_step c d d' \<Longrightarrow> account_of d i = Some a \<Longrightarrow> account_of d' i = Some a"
  by (induction rule: accum.induct) (auto intro: db_step_account)

lemma bm_step_account:
  assumes "bm_step c d d'" "bm_ok d" "account_of (bm_pay d) i = Some a"
  shows "account_of (bm_pay d') i = Some a"
  using assms(1)
proof cases
  case (payout hex reward port t credits)
  from payout(2) obtain n p where p: "applyBalanceCredits credits (bm_pay d) = Inr (n, p)" "bm_pay d' = p"
    by (rule creditTransaction_Inr) simp
  have "db_ok (bm_pay d)" using assms(2) by (simp add: bm_ok_def)
  with applyBalanceCredits_accum(1) [OF p(1) payout(3)] accum_account assms(3) p(2) show ?thesis by blast
qed (use assms(3) db_step_account in auto)

lemma reaches_account:
  "reaches bm_step d d' \<Longrightarrow> bm_ok d \<Longrightarrow> account_of (bm_pay d) i = Some a \<Longrightarrow> account_of (bm_pay d') i = Some a"
  by (erule bm.reaches_stable) (auto intro: bm_step_account)

subsection \<open>Keys of the cache\<close>

definition plain :: "string \<Rightarrow> bool" where
  "plain s \<longleftrightarrow> CHR ''|'' \<notin> set s"

lemma split_at_bar:
  assumes "plain a" "plain a'" "a @ CHR ''|'' # s = a' @ CHR ''|'' # s'"
  shows "a = a' \<and> s = s'"
proof -
  have tw: "takeWhile (\<lambda>c. c \<noteq> CHR ''|'') (b @ CHR ''|'' # r) = b" if "plain b" for b r
    using that by (induction b) (auto simp: plain_def)
  have "a = a'" using tw [OF assms(1), of s] tw [OF assms(2), of s'] assms(3) by simp
  with assms(3) show ?thesis by simp
qed

lemma cacheKey_inject:
  assumes "cacheKey a t p = cacheKey a' t' p'" "plain a" "plain t" "plain a'" "plain t'" "p \<noteq> Some []" "p' \<noteq> Some []"
  shows "(a, p, t) = (a', p', t')"
proof -
  let ?s = "\<lambda>p. case p of None \<Rightarrow> [] | Some x \<Rightarrow> x"
  have "a @ CHR ''|'' # (t @ CHR ''|'' # ?s p) = a' @ CHR ''|'' # (t' @ CHR ''|'' # ?s p')"
    using assms(1) by (simp add: cacheKey_def)
  then have a: "a = a'" and r: "t @ CHR ''|'' # ?s p = t' @ CHR ''|'' # ?s p'" using split_at_bar assms(2,4) by blast+
  from r have t: "t = t'" and s: "?s p = ?s p'" using split_at_bar assms(3,5) by blast+
  have "p = p'" using s assms(6,7) by (auto split: option.splits)
  with a t show ?thesis by simp
qed

lemma normalized_not_empty: "bm_normalizePaymentId p \<noteq> Some []"
  by (auto simp: bm_normalizePaymentId_def split: option.split)

subsection \<open>The cache invariant\<close>

definition cache_ok :: "bm_world \<Rightarrow> bool" where
  "cache_ok w \<longleftrightarrow> (\<forall>key i. balanceIdCache w key = Some i \<longrightarrow>
     (\<exists>a t p. key = cacheKey a t p \<and> plain a \<and> plain t \<and> p \<noteq> Some [] \<and> account_of (bm_pay (bdb w)) i = Some (a, p, t)))"

definition cached :: "bm_world \<Rightarrow> bm_world \<Rightarrow> bool" where
  "cached w0 w \<longleftrightarrow> bm_safe w0 w \<and> cache_ok w"

lemma cache_ok_reaches:
  assumes "cache_ok w" "bm_ok (bdb w)" "reaches bm_step (bdb w) d" "balanceIdCache w' = balanceIdCache w" "bdb w' = d"
  shows "cache_ok w'"
  unfolding cache_ok_def
proof (intro allI impI)
  fix key i assume "balanceIdCache w' key = Some i"
  then obtain a t p where k: "key = cacheKey a t p" "plain a" "plain t" "p \<noteq> Some []"
    "account_of (bm_pay (bdb w)) i = Some (a, p, t)" using assms(1,4) unfolding cache_ok_def by metis
  then show "\<exists>a t p. key = cacheKey a t p \<and> plain a \<and> plain t \<and> p \<noteq> Some [] \<and>
      account_of (bm_pay (bdb w')) i = Some (a, p, t)" using reaches_account [OF assms(3,2)] assms(5) by blast
qed

lemma triple_account_query:
  assumes "\<And>d x d'. bm_ok d \<Longrightarrow> f d = Inr (x, d') \<Longrightarrow> (d' = d \<or> bm_step 0 d d') \<and> R x d'"
  shows "triple (cached w0) (bm_query f) (\<lambda>r w. cached w0 w \<and> (\<forall>x. r = Inr x \<longrightarrow> R x (bdb w)))"
proof (rule tripleI)
  fix w assume w: "cached w0 w"
  let ?a = "bm_await w"
  have s: "bm_safe w0 w" "cache_ok w" using w by (auto simp: cached_def)
  have a: "bm_safe w0 ?a" by (rule bs.inv_await [OF s(1)])
  have ca: "cache_ok ?a"
    by (rule cache_ok_reaches [OF s(2) bm_safe_ok [OF s(1)] bs.inv_rival [OF s(1)]]) (simp_all add: bm_await_def)
  have upd: "cached w0 (?a\<lparr>bdb := d\<rparr>) \<and> R x d" if "f (bdb ?a) = Inr (x, d)" for x d
  proof -
    have "d = bdb ?a \<or> bm_step 0 (bdb ?a) d" "R x d" using assms [OF bm_safe_ok [OF a] that] by auto
    moreover have "cache_ok (?a\<lparr>bdb := d\<rparr>)" if "reaches bm_step (bdb ?a) d"
      by (rule cache_ok_reaches [OF ca bm_safe_ok [OF a] that]) simp_all
    ultimately show ?thesis
      using bs.inv_step [OF a, of 0 d] reaches_refl [of bm_step d] reaches_step [OF reaches_refl, of bm_step 0 "bdb ?a" d] a
      by (auto simp: cached_def)
  qed
  show "cached w0 (snd (bm_query f w)) \<and> (\<forall>x. fst (bm_query f w) = Inr x \<longrightarrow> R x (bdb (snd (bm_query f w))))"
    using upd a ca by (auto simp: bm_query_def Let_def cached_def split: sql_outcome.split sum.split)
qed

lemma loadRows_account: "bm_ok d \<Longrightarrow> i \<in> set (loadRows a p t d) \<Longrightarrow> account_of (bm_pay d) i = Some (a, p, t)"
  by (auto simp: loadRows_def account_of_def bm_ok_def db_ok_def keys_ok_def row_account_def)

lemma insertBalance_account:
  assumes "bm_ok d" "insertBalance a p t d = Inr (k, d')"
  shows "account_of (bm_pay d') k = Some (a, p, t)"
proof -
  have "next_balance_id d \<notin> fst ` set (balances (bm_pay d))" using assms(1) by (auto simp: bm_ok_def)
  then have "map_of (balances (bm_pay d)) (next_balance_id d) = None" by (simp add: map_of_eq_None_iff)
  with assms(2) show ?thesis
    by (auto simp: insertBalance_def Let_def account_of_def row_account_def map_add_def split: if_splits)
qed

lemma triple_rememberId:
  assumes "plain a" "plain t" "p \<noteq> Some []"
  shows "triple (\<lambda>w. cached w0 w \<and> account_of (bm_pay (bdb w)) i = Some (a, p, t)) (rememberId (cacheKey a t p) i)
     (\<lambda>r w. cached w0 w \<and> (\<forall>j. r = Inr j \<longrightarrow> account_of (bm_pay (bdb w)) j = Some (a, p, t)))"
proof (rule tripleI)
  fix w assume w: "cached w0 w \<and> account_of (bm_pay (bdb w)) i = Some (a, p, t)"
  let ?w = "w\<lparr>balanceIdCache := (balanceIdCache w)(cacheKey a t p \<mapsto> i)\<rparr>"
  have "cache_ok ?w" using w assms unfolding cached_def cache_ok_def by auto
  then have "cached w0 ?w" using w bs.inv_memory(2) by (simp add: cached_def)
  then show "cached w0 (snd (rememberId (cacheKey a t p) i w)) \<and>
      (\<forall>j. fst (rememberId (cacheKey a t p) i w) = Inr j \<longrightarrow>
        account_of (bm_pay (bdb (snd (rememberId (cacheKey a t p) i w)))) j = Some (a, p, t))"
    using w by (simp add: rememberId_def prog_defs)
qed

lemma triple_fail: "triple (cached w0) (andThen fullStop (\<lambda>_. throw e)) (\<lambda>r w. cached w0 w \<and> (\<forall>j. r = Inr j \<longrightarrow> R j w))"
  using bs.inv_stop by (auto simp: triple_def fullStop_def prog_defs cached_def cache_ok_def)

lemma triple_getOrCreateBalanceId:
  assumes pl: "plain (cr_address payment)" "plain (cr_pool_type payment)"
  defines "p \<equiv> bm_normalizePaymentId (cr_payment_id payment)"
  shows "triple (cached w0) (getOrCreateBalanceId payment)
     (\<lambda>r w. cached w0 w \<and> (\<forall>i. r = Inr i \<longrightarrow>
        account_of (bm_pay (bdb w)) i = Some (cr_address payment, p, cr_pool_type payment)))"
proof -
  let ?a = "cr_address payment" let ?t = "cr_pool_type payment" let ?key = "cacheKey ?a ?t p"
  let ?acc = "Some (?a, p, ?t)"
  let ?load = "bm_query (\<lambda>d. Inr (loadRows ?a p ?t d, d))"
  let ?Q = "\<lambda>r w. cached w0 w \<and> (\<forall>i. r = Inr i \<longrightarrow> account_of (bm_pay (bdb w)) i = ?acc)"
  have pn: "p \<noteq> Some []" unfolding p_def by (rule normalized_not_empty)
  note remember = triple_rememberId [OF pl pn]
  have load: "triple (cached w0) ?load
      (\<lambda>r w. cached w0 w \<and> (\<forall>x. r = Inr x \<longrightarrow> (\<forall>i \<in> set x. account_of (bm_pay (bdb w)) i = ?acc)))"
    by (rule triple_account_query [where R = "\<lambda>x d. \<forall>i \<in> set x. account_of (bm_pay d) i = ?acc"])
       (auto dest: loadRows_account)
  have only: "triple (\<lambda>w. cached w0 w \<and> (\<forall>i \<in> set rows. account_of (bm_pay (bdb w)) i = ?acc)) (theOnlyRow ?key rows) ?Q" for rows
    unfolding theOnlyRow_def
    by (auto split: list.split intro: triple_weaken [OF remember] triple_weaken [OF triple_fail])
  have again: "triple (cached w0) (andThen ?load (theOnlyRow ?key)) ?Q"
    by (rule triple_andThen [OF load]) (auto intro: triple_weaken [OF only])
  have ins: "triple (cached w0) (andThen (bm_query (insertBalance ?a p ?t)) (\<lambda>i. ret (Some i)))
      (\<lambda>r w. cached w0 w \<and> (\<forall>i. r = Inr (Some i) \<longrightarrow> account_of (bm_pay (bdb w)) i = ?acc))"
  proof (rule triple_andThen [OF triple_account_query [where R = "\<lambda>i d. account_of (bm_pay d) i = ?acc"]])
    show "(d' = d \<or> bm_step 0 d d') \<and> account_of (bm_pay d') x = ?acc"
      if "bm_ok d" "insertBalance ?a p ?t d = Inr (x, d')" for d x d'
      using that insertBalance_step insertBalance_account by blast
  qed (auto intro: triple_ret)
  have create: "triple (cached w0) (andThen (try_catch
        (andThen (bm_query (insertBalance ?a p ?t)) (\<lambda>i. ret (Some i)))
        (\<lambda>e. if isDuplicateEntry e then ret None else throw e))
      (\<lambda>inserted. case inserted of Some i \<Rightarrow> rememberId ?key i | None \<Rightarrow> andThen ?load (theOnlyRow ?key))) ?Q"
  proof (rule triple_andThen [OF triple_try_catch [OF ins]])
    show "triple (\<lambda>w. cached w0 w \<and> (\<forall>i. Inl e = Inr (Some i) \<longrightarrow> account_of (bm_pay (bdb w)) i = ?acc))
        (if isDuplicateEntry e then ret None else throw e)
        (\<lambda>r w. cached w0 w \<and> (\<forall>i. r = Inr (Some i) \<longrightarrow> account_of (bm_pay (bdb w)) i = ?acc))" for e
      by (auto intro!: triple_if triple_ret triple_throw)
    show "triple (\<lambda>w. cached w0 w \<and> (\<forall>i. Inr x = Inr (Some i) \<longrightarrow> account_of (bm_pay (bdb w)) i = ?acc))
        (case x of Some i \<Rightarrow> rememberId ?key i | None \<Rightarrow> andThen ?load (theOnlyRow ?key)) ?Q" for x
      by (cases x) (auto intro: triple_weaken [OF again] triple_weaken [OF remember])
  qed auto
  have fresh: "triple (cached w0) (andThen ?load (\<lambda>rows.
      if 1 < length rows then andThen fullStop (\<lambda>_. throw ''Multiple balance rows found'')
      else if rows = [] then andThen (try_catch
        (andThen (bm_query (insertBalance ?a p ?t)) (\<lambda>i. ret (Some i)))
        (\<lambda>e. if isDuplicateEntry e then ret None else throw e))
        (\<lambda>inserted. case inserted of Some i \<Rightarrow> rememberId ?key i | None \<Rightarrow> andThen ?load (theOnlyRow ?key))
      else theOnlyRow ?key rows)) ?Q"
    by (rule triple_andThen [OF load])
       (auto intro!: triple_if intro: triple_weaken [OF triple_fail] triple_weaken [OF create] triple_weaken [OF only])
  have hit: "account_of (bm_pay (bdb w)) i = ?acc" if "cached w0 w" "balanceIdCache w ?key = Some i" for w i
    using that cacheKey_inject [OF _ pl _ _ pn] unfolding cached_def cache_ok_def by metis
  show ?thesis
    unfolding getOrCreateBalanceId_def Let_def p_def [symmetric]
  proof (rule triple_gets_andThen, split option.split, intro conjI allI impI)
    fix x :: "nat option" and i
    show "triple (\<lambda>w. cached w0 w \<and> balanceIdCache w ?key = x) (ret i) ?Q" if "x = Some i"
      using that hit by (auto intro!: triple_ret)
  qed (rule triple_weaken [OF fresh], simp_all)
qed

end
