(* ===== verification/Pplns_Bounds.thy ===== *)
theory Pplns_Bounds
  imports Pplns
begin

text \<open>
  Bounds of the PPLNS weights in double arithmetic. \<open>weight_sum\<close> is the exact sum of the
  weights; the lemmas show that it follows the counter of shares within a few units of
  rounding per credited amount, and that the trimmed share brings it to the window.
\<close>

definition weight_sum :: "payment_data \<Rightarrow> num" where
  "weight_sum data = sum_list (map (cr_amount \<circ> snd) data)"

lemma weight_sum_update:
  assumes "distinct (map fst data)" "map_of data key = Some row"
  shows "weight_sum (AList.update key row' data) = weight_sum data - cr_amount row + cr_amount row'"
  using assms
proof (induction data)
  case (Cons x data)
  obtain k r where x: "x = (k, r)" by force
  show ?case
  proof (cases "k = key")
    case True
    with Cons.prems show ?thesis by (simp add: x weight_sum_def)
  next
    case False
    with Cons show ?thesis by (simp add: x weight_sum_def)
  qed
qed simp

lemma map_of_update_iff: "map_of (AList.update k v data) i \<noteq> None \<longleftrightarrow> i = k \<or> map_of data i \<noteq> None"
  by (simp add: update_conv')

lemma rows_nonneg_update:
  assumes "\<forall>x \<in> set data. 0 \<le> cr_amount (snd x)" "0 \<le> cr_amount row'"
  shows "\<forall>x \<in> set (AList.update key row' data). 0 \<le> cr_amount (snd x)"
  using assms by (induction data) auto

lemma row_le_weight_sum:
  assumes "\<forall>x \<in> set data. 0 \<le> cr_amount (snd x)" "map_of data key = Some row"
  shows "0 \<le> cr_amount row \<and> cr_amount row \<le> weight_sum data"
proof -
  have m: "(key, row) \<in> set data" using assms(2) by (rule map_of_SomeD)
  then have "cr_amount row \<in> set (map (cr_amount \<circ> snd) data)" by force
  with assms(1) have "cr_amount row \<le> weight_sum data"
    unfolding weight_sum_def by (intro sum_list_nonneg_le_member) auto
  with m assms(1) show ?thesis by force
qed

subsection \<open>Rounding errors of one credit\<close>

lemma fl_err: "\<bar>x\<bar> \<le> M \<Longrightarrow> \<bar>fl x - x\<bar> \<le> M / 2 ^ 53"
  using fl_error [of x] divide_right_mono [of "\<bar>x\<bar>" M "2 ^ 53"] by simp

lemma fl_nonneg: "0 \<le> x \<Longrightarrow> 0 \<le> fl x"
  by simp

lemma fl_1 [simp]: "fl 1 = 1"
  using fl_of_int [of 1] by simp

lemma fl_less_1: "fl (x / w) < 1 \<Longrightarrow> 0 < w \<Longrightarrow> x < w"
  using fl_mono [of 1 "x / w"] by (fastforce simp: not_le [symmetric])

lemma fl_gt_1: "1 < fl (x / w) \<Longrightarrow> 0 < w \<Longrightarrow> w < x"
  using fl_mono [of "x / w" 1] by (fastforce simp: not_le [symmetric])

lemma scale_err:
  fixes a b c w :: num
  assumes "\<bar>a - b\<bar> \<le> c" "0 < w"
  shows "\<bar>a * w - b * w\<bar> \<le> c * w"
proof -
  have "\<bar>a * w - b * w\<bar> = \<bar>a - b\<bar> * w" using assms(2) by (simp add: abs_mult left_diff_distrib [symmetric])
  with assms show ?thesis by (simp add: mult_right_mono)
qed

text \<open>The trimmed overshoot is the difference of the counter and the window, up to rounding.\<close>

lemma overshoot_error:
  assumes w: "0 < w" "w \<le> M" and t: "0 \<le> t" "t \<le> 2 * M" and over: "1 < fl (t / w)"
  shows "\<bar>fl (fl (fl (t / w) - 1) * w) - (t - w)\<bar> \<le> 8 * (M / 2 ^ 53)"
    and "0 \<le> fl (fl (fl (t / w) - 1) * w)" "fl (fl (fl (t / w) - 1) * w) \<le> 3 * M"
proof -
  let ?a = "fl (t / w)" let ?x = "?a - 1" let ?y = "fl ?x"
  have tw: "t / w * w = t" using w by simp
  have "\<bar>?a - t / w\<bar> \<le> (t / w) / 2 ^ 53" using fl_err [of "t / w" "t / w"] t w by simp
  from scale_err [OF this w(1)] have e1: "\<bar>?a * w - t\<bar> \<le> t / 2 ^ 53" using w(1) by simp
  have x: "0 \<le> ?x" using over by simp
  have "\<bar>?y - ?x\<bar> \<le> ?x / 2 ^ 53" using fl_err [of ?x ?x] x by simp
  from scale_err [OF this w(1)] have e2: "\<bar>?y * w - ?x * w\<bar> \<le> (?x * w) / 2 ^ 53" by simp
  have xw: "?x * w = ?a * w - w" by (simp add: left_diff_distrib)
  have y: "0 \<le> ?y" using x by simp
  then have yw: "0 \<le> ?y * w" using w by simp
  have e3: "\<bar>fl (?y * w) - ?y * w\<bar> \<le> (?y * w) / 2 ^ 53" using fl_err [of "?y * w" "?y * w"] yw by simp
  show "0 \<le> fl (fl (fl (t / w) - 1) * w)" using yw by simp
  define aw xw' yw' ew where "aw = ?a * w" and "xw' = ?x * w" and "yw' = ?y * w" and "ew = fl (?y * w)"
  note d = aw_def [symmetric] xw'_def [symmetric] yw'_def [symmetric] ew_def [symmetric]
  have p: "(2::num) ^ 53 = 9007199254740992" by simp
  have M: "0 < M" using w by linarith
  have b1: "xw' \<le> 5/2 * M" using e1 xw t w M unfolding d p by linarith
  have b2: "yw' \<le> 11/4 * M" using e2 b1 w M unfolding d p by linarith
  show "fl (fl (fl (t / w) - 1) * w) \<le> 3 * M" using e3 b2 yw M unfolding d p by linarith
  show "\<bar>fl (fl (fl (t / w) - 1) * w) - (t - w)\<bar> \<le> 8 * (M / 2 ^ 53)"
    using e1 e2 e3 b1 b2 xw t yw unfolding d p by linarith
qed


subsection \<open>The window invariant\<close>

text \<open>
  \<open>M\<close> bounds the window plus one share; \<open>k\<close> counts the credited amounts. Before the
  window is full the counter is below it, all weights are non-negative and their sum is
  the counter up to \<open>k\<close> rounding units; afterwards the sum is the window up to the same
  error.
\<close>

definition unit_err :: "num \<Rightarrow> num" where
  "unit_err M = 32 * (M / 2 ^ 53)"

definition keys_present :: "bm_config \<Rightarrow> payment_data \<Rightarrow> bool" where
  "keys_present cfg data \<longleftrightarrow> distinct (map fst data) \<and>
     {payoutFeeAddress cfg, poolDevAddress cfg, coinDevAddress cfg} \<subseteq> dom (map_of data)"

definition filling :: "num \<Rightarrow> nat \<Rightarrow> pplns_acc \<Rightarrow> bool" where
  "filling M k a \<longleftrightarrow> 0 \<le> p_totalPaid a \<and> p_totalPaid a < 1 \<and>
     (\<forall>x \<in> set (p_data a). 0 \<le> cr_amount (snd x)) \<and>
     \<bar>weight_sum (p_data a) - p_totalShares a\<bar> \<le> of_nat k * unit_err M"

definition window_inv :: "bm_config \<Rightarrow> num \<Rightarrow> num \<Rightarrow> nat \<Rightarrow> pplns_acc \<Rightarrow> bool" where
  "window_inv cfg w M k a \<longleftrightarrow> keys_present cfg (p_data a) \<and>
     (filling M k a \<and> 0 \<le> p_totalShares a \<and> p_totalShares a < w \<or>
      p_totalPaid a = 1 \<and> \<bar>weight_sum (p_data a) - w\<bar> \<le> of_nat k * unit_err M)"

lemma window_inv_weaken:
  assumes "window_inv cfg w M k a" "k \<le> k'" "0 \<le> M"
  shows "window_inv cfg w M k' a"
proof -
  have "of_nat k * unit_err M \<le> of_nat k' * unit_err M"
    using assms(2,3) by (intro mult_right_mono) (auto simp: unit_err_def)
  with assms(1) show ?thesis unfolding window_inv_def filling_def by linarith
qed

lemma keys_present_update: "keys_present cfg data \<Longrightarrow> keys_present cfg (AList.update k v data)"
  by (auto simp: keys_present_def distinct_update update_conv')

lemma addPayment_full: "p_totalPaid a = 1 \<Longrightarrow> addPayment w key x a = Inr a"
  by (simp add: addPayment_def rewardTotal_def)

text \<open>A credit below the edge of the window.\<close>

lemma credit_error:
  assumes nonneg: "\<forall>x \<in> set data. 0 \<le> cr_amount (snd x)" and row: "map_of data key = Some row"
    and T: "0 \<le> T" "T \<le> w" and x: "0 \<le> x" "w + x \<le> M" and k: "k \<le> 2 ^ 48"
    and err: "\<bar>weight_sum data - T\<bar> \<le> of_nat k * unit_err M"
  shows "\<bar>fl (cr_amount row + x) - (cr_amount row + x)\<bar> \<le> 2 * (M / 2 ^ 53)"
    and "\<bar>fl (T + x) - (T + x)\<bar> \<le> M / 2 ^ 53"
    and "0 \<le> fl (cr_amount row + x)" "fl (cr_amount row + x) \<le> 3 * M" "0 \<le> fl (T + x)" "fl (T + x) \<le> 2 * M"
proof -
  have M: "0 \<le> M" using T x by linarith
  have r: "0 \<le> cr_amount row" "cr_amount row \<le> weight_sum data"
    using row_le_weight_sum [OF nonneg row] by auto
  have "(of_nat k :: num) \<le> 2 ^ 48" using of_nat_mono [OF k, where 'a = num] by simp
  then have "of_nat k * unit_err M \<le> 2 ^ 48 * unit_err M"
    using M by (intro mult_right_mono) (simp_all add: unit_err_def)
  also have "\<dots> = M" by (simp add: unit_err_def)
  finally have rx: "\<bar>cr_amount row + x\<bar> \<le> 2 * M" using r err T x by linarith
  have Tx: "\<bar>T + x\<bar> \<le> M" using T x by linarith
  show 1: "\<bar>fl (cr_amount row + x) - (cr_amount row + x)\<bar> \<le> 2 * (M / 2 ^ 53)" using fl_err [OF rx] by simp
  show 2: "\<bar>fl (T + x) - (T + x)\<bar> \<le> M / 2 ^ 53" using fl_err [OF Tx] .
  show "0 \<le> fl (cr_amount row + x)" "0 \<le> fl (T + x)" using r x T by simp_all
  have p: "(2::num) ^ 53 = 9007199254740992" by simp
  show "fl (cr_amount row + x) \<le> 3 * M" using 1 rx M unfolding p by linarith
  show "fl (T + x) \<le> 2 * M" using 2 Tx M unfolding p by linarith
qed

lemma addPayment_inv:
  assumes inv: "window_inv cfg w M k a" and key: "map_of (p_data a) key \<noteq> None"
    and w: "0 < w" and x: "0 \<le> x" "w + x \<le> M" and k: "k \<le> 2 ^ 48"
  shows "\<exists>a'. addPayment w key x a = Inr a' \<and> window_inv cfg w M (Suc k) a' \<and>
           fst ` set (p_data a') = fst ` set (p_data a)"
proof (cases "x = 0 \<or> p_totalPaid a = 1")
  case True
  then have "addPayment w key x a = Inr a" by (auto simp: addPayment_def rewardTotal_def)
  moreover have "0 \<le> M" using w x by linarith
  ultimately show ?thesis using window_inv_weaken [OF inv, of "Suc k"] by simp
next
  case False
  let ?T = "p_totalShares a" let ?D = "p_data a" let ?d = "M / 2 ^ 53"
  have F: "filling M k a" "0 \<le> ?T" "?T < w" using inv False by (auto simp: window_inv_def)
  have paid: "p_totalPaid a < 1" using F(1) by (simp add: filling_def)
  have nonneg: "\<forall>x \<in> set ?D. 0 \<le> cr_amount (snd x)" using F(1) by (simp add: filling_def)
  have err: "\<bar>weight_sum ?D - ?T\<bar> \<le> of_nat k * unit_err M" using F(1) by (simp add: filling_def)
  have kp: "keys_present cfg ?D" using inv by (simp add: window_inv_def)
  then have dist: "distinct (map fst ?D)" by (simp add: keys_present_def)
  obtain row where row: "map_of ?D key = Some row" using key by blast
  note ce = credit_error [OF nonneg row F(2) less_imp_le [OF F(3)] x k err]
  let ?paid = "fl (cr_amount row + x)" let ?T' = "fl (?T + x)" let ?after = "fl (?T' / w)"
  have e: "unit_err M = 32 * ?d" by (simp add: unit_err_def)
  have Suc: "of_nat (Suc k) * unit_err M = of_nat k * unit_err M + unit_err M" by (simp add: algebra_simps)
  have M: "0 \<le> ?d" "w \<le> M" using w x by (auto intro: order_trans)
  have keys: "fst ` set (AList.update key r ?D) = fst ` set ?D" for r
    using row by (simp add: dom_update [symmetric] dom_map_of_conv_image_fst [symmetric] update_conv' insert_absorb domI)
  show ?thesis
  proof (cases "1 < ?after")
    case True
    let ?extra = "fl (fl (?after - 1) * w)"
    note ov = overshoot_error [OF w M(2) ce(5,6) True]
    let ?row' = "row\<lparr>cr_amount := fl (?paid - ?extra)\<rparr>"
    have res: "addPayment w key x a = Inr (a\<lparr>p_totalShares := ?T', p_totalPaid := 1,
        p_data := AList.update key ?row' ?D\<rparr>)"
      using False paid row True by (simp add: addPayment_def rewardTotal_def Let_def not_le)
    have "\<bar>?paid - ?extra\<bar> \<le> 3 * M" using ce(3,4) ov(2,3) by linarith
    from fl_err [OF this] have e3: "\<bar>fl (?paid - ?extra) - (?paid - ?extra)\<bar> \<le> 3 * ?d" by simp
    have ws: "weight_sum (AList.update key ?row' ?D) = weight_sum ?D - cr_amount row + fl (?paid - ?extra)"
      using weight_sum_update [OF dist row, of ?row'] by simp
    have "\<bar>weight_sum (AList.update key ?row' ?D) - w\<bar> \<le> of_nat (Suc k) * unit_err M"
      using err ce(1,2) ov(1) e3 M(1) e unfolding ws Suc by linarith
    then show ?thesis using keys_present_update [OF kp] res keys by (simp add: window_inv_def)
  next
    case le: False
    let ?row' = "row\<lparr>cr_amount := ?paid\<rparr>"
    let ?a' = "a\<lparr>p_totalShares := ?T', p_totalPaid := ?after, p_data := AList.update key ?row' ?D\<rparr>"
    have res: "addPayment w key x a = Inr ?a'"
      using False paid row le by (simp add: addPayment_def rewardTotal_def Let_def not_le)
    have ws: "weight_sum (AList.update key ?row' ?D) = weight_sum ?D - cr_amount row + ?paid"
      using weight_sum_update [OF dist row, of ?row'] by simp
    have S: "\<bar>weight_sum (AList.update key ?row' ?D) - ?T'\<bar> \<le> of_nat k * unit_err M + 3 * ?d"
      using err ce(1,2) unfolding ws by linarith
    have a0: "0 \<le> ?after" using ce(5) w by simp
    show ?thesis
    proof (cases "?after < 1")
      case True
      have "filling M (Suc k) ?a'"
        using True a0 S M(1) rows_nonneg_update [OF nonneg, of ?row' key] ce(3) Suc
        by (simp add: filling_def e)
      moreover have "?T' < w" using fl_less_1 [OF True w] .
      ultimately show ?thesis using res keys keys_present_update [OF kp] ce(5)
        by (auto simp: window_inv_def)
    next
      case one: False
      then have after: "?after = 1" using le by linarith
      have "\<bar>1 - ?T' / w\<bar> \<le> (?T' / w) / 2 ^ 53"
        using fl_err [of "?T' / w" "?T' / w"] ce(5) w after by simp
      from scale_err [OF this w] have "\<bar>w - ?T'\<bar> \<le> ?T' / 2 ^ 53" using w by simp
      also have "\<dots> \<le> 2 * ?d" using ce(6) divide_right_mono [of ?T' "2 * M" "2 ^ 53"] by simp
      finally have "\<bar>weight_sum (AList.update key ?row' ?D) - w\<bar> \<le> of_nat (Suc k) * unit_err M"
        using S M(1) e unfolding Suc by linarith
      then show ?thesis using res keys keys_present_update [OF kp] after by (simp add: window_inv_def)
    qed
  qed
qed


subsection \<open>Fees of one share\<close>

definition fees_ok :: "bm_config \<Rightarrow> bool" where
  "fees_ok cfg \<longleftrightarrow> 0 \<le> pplnsFee cfg \<and> pplnsFee cfg \<le> 100 \<and> 0 \<le> devDonation cfg \<and>
     0 \<le> poolDevDonation cfg \<and> devDonation cfg + poolDevDonation cfg \<le> 99"

lemma fl_percent:
  assumes "0 \<le> p" "p \<le> 100"
  shows "0 \<le> fl (p / 100) \<and> fl (p / 100) \<le> 1 \<and> fl (p / 100) \<le> p / 100 + 1 / 2 ^ 53"
proof -
  have "\<bar>fl (p / 100) - p / 100\<bar> \<le> 1 / 2 ^ 53" using fl_err [of "p / 100" 1] assms by simp
  then have "fl (p / 100) \<le> p / 100 + 1 / 2 ^ 53" by linarith
  with fl_mono [of "p / 100" 1] assms show ?thesis by simp
qed

lemma fl_part:
  assumes "0 \<le> f" "0 \<le> c" "c \<le> 1"
  shows "0 \<le> fl (f * c)" "fl (f * c) \<le> fl f" "fl (f * c) \<le> f * (c * (1 + 1 / 2 ^ 53))"
proof -
  have "f * c \<le> f" using mult_left_mono [OF assms(3,1)] by simp
  then show "fl (f * c) \<le> fl f" by (rule fl_mono)
  have fc: "0 \<le> f * c" using assms by simp
  then show "0 \<le> fl (f * c)" by simp
  have "\<bar>fl (f * c) - f * c\<bar> \<le> f * c / 2 ^ 53" using fc by (intro fl_err) simp
  then have "fl (f * c) \<le> f * c + f * c / 2 ^ 53" by linarith
  then show "fl (f * c) \<le> f * (c * (1 + 1 / 2 ^ 53))" by (simp add: algebra_simps)
qed

lemma donations_fit:
  assumes "fees_ok cfg" "0 \<le> f" "fl f = f"
  shows "fl (f * fl (devDonation cfg / 100)) + fl (f * fl (poolDevDonation cfg / 100)) \<le> f"
proof -
  let ?a = "fl (devDonation cfg / 100)" let ?b = "fl (poolDevDonation cfg / 100)"
  have ab: "0 \<le> ?a" "?a \<le> 1" "0 \<le> ?b" "?b \<le> 1" and
    s: "?a + ?b \<le> 99/100 + 2 * (1 / 2 ^ 53)"
    using fl_percent [of "devDonation cfg"] fl_percent [of "poolDevDonation cfg"] assms(1)
    by (auto simp: fees_ok_def)
  have "?a * (1 + 1 / 2 ^ 53) + ?b * (1 + 1 / 2 ^ 53) = (?a + ?b) * (1 + 1 / 2 ^ 53)"
    by (simp add: distrib_right)
  also have "\<dots> \<le> (99/100 + 2 * (1 / 2 ^ 53)) * (1 + 1 / 2 ^ 53)"
    by (rule mult_right_mono [OF s]) simp
  also have "\<dots> \<le> 1" by simp
  finally have "f * (?a * (1 + 1 / 2 ^ 53) + ?b * (1 + 1 / 2 ^ 53)) \<le> f"
    using mult_left_mono [of _ 1 f] assms(2) by simp
  then have "f * (?a * (1 + 1 / 2 ^ 53)) + f * (?b * (1 + 1 / 2 ^ 53)) \<le> f" by (simp only: distrib_left)
  then show ?thesis
    using fl_part(3) [OF assms(2) ab(1,2)] fl_part(3) [OF assms(2) ab(3,4)] by linarith
qed

lemma share_parts:
  assumes ok: "fees_ok cfg" and x: "0 \<le> x" "fl x = x"
  defines "f \<equiv> fl (x * fl (pplnsFee cfg / 100))"
  defines "d \<equiv> fl (f * fl (devDonation cfg / 100))" and "p \<equiv> fl (f * fl (poolDevDonation cfg / 100))"
  shows "0 \<le> fl (x - f)" "fl (x - f) \<le> x" "0 \<le> d" "d \<le> x" "0 \<le> p" "p \<le> x"
    "0 \<le> fl (fl (f - d) - p)" "fl (fl (f - d) - p) \<le> x"
proof -
  have c: "0 \<le> fl (pplnsFee cfg / 100)" "fl (pplnsFee cfg / 100) \<le> 1"
    using fl_percent [of "pplnsFee cfg"] ok by (auto simp: fees_ok_def)
  have f: "0 \<le> f" "f \<le> x" "fl f = f"
    using fl_part [OF x(1) c] x(2) by (simp_all add: f_def)
  have fit: "d + p \<le> f" unfolding d_def p_def by (rule donations_fit [OF ok f(1,3)])
  have "0 \<le> fl (devDonation cfg / 100)" "fl (devDonation cfg / 100) \<le> 1"
    "0 \<le> fl (poolDevDonation cfg / 100)" "fl (poolDevDonation cfg / 100) \<le> 1"
    using fl_percent [of "devDonation cfg"] fl_percent [of "poolDevDonation cfg"] ok by (auto simp: fees_ok_def)
  then show d: "0 \<le> d" and p: "0 \<le> p" using fl_part(1) [OF f(1)] by (simp_all add: d_def p_def)
  show "d \<le> x" "p \<le> x" using fit d p f by linarith+
  show "0 \<le> fl (x - f)" using f by simp
  show "fl (x - f) \<le> x" using fl_mono [of "x - f" x] f x by simp
  have fp: "fl p = p" by (simp add: p_def)
  have "p \<le> fl (f - d)" using fl_mono [of p "f - d"] fit fp by simp
  then show "0 \<le> fl (fl (f - d) - p)" by simp
  have "fl (f - d) \<le> f" using fl_mono [of "f - d" f] d f by simp
  then show "fl (fl (f - d) - p) \<le> x" using fl_mono [of "fl (f - d) - p" f] p f by simp
qed

subsection \<open>Collecting the shares\<close>

text \<open>What the table promises of a share: its work is a double not above \<open>B\<close>.\<close>

definition share_ok :: "num \<Rightarrow> share_msg option \<Rightarrow> bool" where
  "share_ok B s \<longleftrightarrow> (\<forall>sh x. s = Some sh \<longrightarrow> sh_shares2 sh = Some x \<longrightarrow> fl x = x \<and> x \<le> B)"

lemma bindE_step:
  assumes "\<exists>a'. m = Inr a' \<and> P a'" and "\<And>a'. P a' \<Longrightarrow> \<exists>a''. f a' = Inr a'' \<and> Q a''"
  shows "\<exists>a''. bindE m f = Inr a'' \<and> Q a''"
  using assms by auto

lemma addPplnsSharePayments_inv:
  assumes inv: "window_inv cfg w M k a" and user: "map_of (p_data a) user \<noteq> None" and ok: "fees_ok cfg"
    and w: "0 < w" and x: "0 \<le> x" "fl x = x" "w + x \<le> M" and k: "k + 4 \<le> 2 ^ 48"
  shows "\<exists>a'. addPplnsSharePayments cfg w user x a = Inr a' \<and> window_inv cfg w M (k + 4) a'"
proof -
  note parts = share_parts [OF ok x(1,2)]
  let ?f = "fl (x * fl (pplnsFee cfg / 100))"
  let ?d = "fl (?f * fl (devDonation cfg / 100))" let ?p = "fl (?f * fl (poolDevDonation cfg / 100))"
  have fee: "map_of (p_data b) z \<noteq> None" if "window_inv cfg w M j b"
    "z \<in> {payoutFeeAddress cfg, poolDevAddress cfg, coinDevAddress cfg}" for j b z
    using that by (auto simp: window_inv_def keys_present_def)
  have step: "\<exists>a'. addPayment w key y b = Inr a' \<and> window_inv cfg w M (Suc j) a'"
    if "window_inv cfg w M j b" "map_of (p_data b) key \<noteq> None" "0 \<le> y" "y \<le> x" "j \<le> 2 ^ 48" for j b key y
    using addPayment_inv [OF that(1,2) w that(3) _ that(5)] that(4) x(3) by fastforce
  have k4: "k \<le> 2 ^ 48" "Suc k \<le> 2 ^ 48" "Suc (Suc k) \<le> 2 ^ 48" "Suc (Suc (Suc k)) \<le> 2 ^ 48" using k by linarith+
  have eq: "Suc (Suc (Suc (Suc k))) = k + 4" by simp
  show ?thesis
    unfolding addPplnsSharePayments_def Let_def
    by (rule bindE_step [OF step [OF inv user parts(1,2) k4(1)]],
        rule bindE_step [OF step [OF _ _ parts(7,8) k4(2)]], assumption, erule fee, simp,
        rule bindE_step [OF step [OF _ _ parts(5,6) k4(3)]], assumption, erule fee, simp,
        unfold eq [symmetric], rule step [OF _ _ parts(3,4) k4(4)], assumption, erule fee, simp)
qed

lemma window_inv_ensure:
  assumes "window_inv cfg w M k a"
  shows "window_inv cfg w M k (a\<lparr>p_data := snd (ensurePplnsPaymentRow (p_data a) sh)\<rparr>)"
    and "map_of (snd (ensurePplnsPaymentRow (p_data a) sh)) (fst (ensurePplnsPaymentRow (p_data a) sh)) \<noteq> None"
proof -
  let ?D = "snd (ensurePplnsPaymentRow (p_data a) sh)"
  have "weight_sum ?D = weight_sum (p_data a)"
    by (simp add: ensurePplnsPaymentRow_def Let_def weight_sum_def)
  moreover have "keys_present cfg ?D" if "keys_present cfg (p_data a)"
    using that by (auto simp: keys_present_def ensurePplnsPaymentRow_def Let_def map_of_eq_None_iff
        map_add_dom_app_simps split: option.splits)
  moreover have "\<forall>x \<in> set ?D. 0 \<le> cr_amount (snd x)" if "\<forall>x \<in> set (p_data a). 0 \<le> cr_amount (snd x)"
    using that by (auto simp: ensurePplnsPaymentRow_def Let_def)
  ultimately show "window_inv cfg w M k (a\<lparr>p_data := ?D\<rparr>)"
    using assms by (auto simp: window_inv_def filling_def)
  show "map_of ?D (fst (ensurePplnsPaymentRow (p_data a) sh)) \<noteq> None"
    by (auto simp: ensurePplnsPaymentRow_def Let_def map_add_Some_iff split: option.splits)
qed

lemma window_inv_cong:
  "p_data a' = p_data a \<Longrightarrow> p_totalPaid a' = p_totalPaid a \<Longrightarrow> p_totalShares a' = p_totalShares a \<Longrightarrow>
     window_inv cfg w M k a' = window_inv cfg w M k a"
  by (simp add: window_inv_def filling_def)

lemma addPortShare_sel [simp]:
  "p_data (addPortShare sh x a) = p_data a" "p_totalPaid (addPortShare sh x a) = p_totalPaid a"
  "p_totalShares (addPortShare sh x a) = p_totalShares a"
  by (simp_all add: addPortShare_def split: option.split)

lemma collectShare_inv:
  assumes inv: "window_inv cfg w M k a" and ok: "fees_ok cfg" "share_ok B s"
    and w: "0 < w" "w + B \<le> M" "0 \<le> B" and k: "k + 4 \<le> 2 ^ 48"
  shows "\<exists>a'. collectShare cfg w s a = Inr a' \<and> window_inv cfg w M (k + 4) a'"
proof -
  have M: "0 \<le> M" using w by linarith
  note weak = window_inv_weaken [OF _ _ M, of cfg w k _ "k + 4"]
  show ?thesis
  proof (cases s)
    case None
    then show ?thesis using weak [OF inv] by (simp add: collectShare_def)
  next
    case (Some sh)
    let ?D = "snd (ensurePplnsPaymentRow (p_data a) sh)" let ?user = "fst (ensurePplnsPaymentRow (p_data a) sh)"
    note ens = window_inv_ensure [OF inv, of sh]
    show ?thesis
    proof (cases "sh_poolType sh \<noteq> PPLNS \<or> (\<forall>x. sh_shares2 sh = Some x \<longrightarrow> x \<le> 0)")
      case True
      then show ?thesis using weak [OF inv] weak [OF ens(1)]
        by (auto simp: collectShare_def Some Let_def split: option.split)
    next
      case False
      then obtain x where x: "sh_shares2 sh = Some x" "0 < x" and t: "sh_poolType sh = PPLNS" by (auto simp: not_le)
      have xb: "fl x = x" "x \<le> B" using ok(2) x by (auto simp: share_ok_def Some)
      define b where "b = a\<lparr>p_data := ?D,
        p_firstShareTime := (if p_firstShareTime a = None then Some (sh_timestamp sh) else p_firstShareTime a),
        p_lastShareTime := (if p_totalPaid a < rewardTotal then Some (sh_timestamp sh) else p_lastShareTime a)\<rparr>"
      have "window_inv cfg w M k b" using ens(1) by (subst window_inv_cong [where a = "a\<lparr>p_data := ?D\<rparr>"]) (simp_all add: b_def)
      moreover have "map_of (p_data b) ?user \<noteq> None" using ens(2) by (simp add: b_def)
      ultimately obtain a' where "addPplnsSharePayments cfg w ?user x b = Inr a'" "window_inv cfg w M (k + 4) a'"
        using addPplnsSharePayments_inv [OF _ _ ok(1) w(1) _ xb(1) _ k] x(2) xb(2) w(2)
        by (metis add_left_mono less_imp_le order_trans)
      moreover have "collectShare cfg w s a =
          bindE (addPplnsSharePayments cfg w ?user x b) (\<lambda>a3. Inr (addPortShare sh x a3))"
        using x t by (simp add: collectShare_def Some Let_def b_def)
      ultimately show ?thesis by (simp add: window_inv_cong [where a' = "addPortShare sh x a'" and a = a'])
    qed
  qed
qed

lemma collectShares_inv:
  assumes "fees_ok cfg" "list_all (share_ok B) ss" "0 < w" "w + B \<le> M" "0 \<le> B"
  shows "window_inv cfg w M k a \<Longrightarrow> k + 4 * length ss \<le> 2 ^ 48 \<Longrightarrow>
     \<exists>a'. collectShares cfg w ss a = Inr a' \<and> window_inv cfg w M (k + 4 * length ss) a'"
  using assms(2)
proof (induction ss arbitrary: k a)
  case Nil
  then show ?case by simp
next
  case (Cons s ss)
  have "\<exists>a'. collectShare cfg w s a = Inr a' \<and> window_inv cfg w M (k + 4) a'"
    using Cons.prems by (intro collectShare_inv [OF _ assms(1) _ assms(3-5)]) auto
  then obtain a' where a': "collectShare cfg w s a = Inr a'" "window_inv cfg w M (k + 4) a'" by blast
  from Cons.IH [OF a'(2)] Cons.prems show ?case by (simp add: a'(1) add.assoc)
qed

text \<open>The number of stored shares at the heights \<open>1..h\<close>.\<close>

fun share_rows :: "(nat \<Rightarrow> share_msg option list) \<Rightarrow> nat \<Rightarrow> nat" where
  "share_rows shares 0 = 0"
| "share_rows shares (Suc h) = length (shares (Suc h)) + share_rows shares h"

lemma collectHeights_inv:
  assumes "fees_ok cfg" "\<And>h. list_all (share_ok B) (shares h)" "0 < w" "w + B \<le> M" "0 \<le> B"
  shows "window_inv cfg w M k a \<Longrightarrow> k + 4 * share_rows shares h \<le> 2 ^ 48 \<Longrightarrow>
     \<exists>a'. collectHeights cfg w shares h a = Inr a' \<and> window_inv cfg w M (k + 4 * share_rows shares h) a'"
proof (induction h arbitrary: k a)
  case 0
  then show ?case by simp
next
  case (Suc h)
  show ?case
  proof (cases "p_totalPaid a < rewardTotal")
    case True
    have "\<exists>a'. collectShares cfg w (shares (Suc h)) a = Inr a' \<and> window_inv cfg w M (k + 4 * length (shares (Suc h))) a'"
      using Suc.prems by (intro collectShares_inv [OF assms(1,2,3-5)]) auto
    then obtain a' where a': "collectShares cfg w (shares (Suc h)) a = Inr a'"
      "window_inv cfg w M (k + 4 * length (shares (Suc h))) a'" by blast
    from Suc.IH [OF a'(2)] Suc.prems True show ?thesis by (simp add: a'(1) algebra_simps)
  next
    case False
    have "window_inv cfg w M (k + 4 * share_rows shares (Suc h)) a"
      using Suc.prems(1) assms(3-5) by (intro window_inv_weaken [OF Suc.prems(1)]) auto
    with False show ?thesis by simp
  qed
qed

lemma initial_inv: "0 < w \<Longrightarrow> window_inv cfg w M 0 (initialAcc cfg)"
proof -
  assume "0 < w"
  have z: "cr_amount (snd x) = 0" if "x \<in> set (createPplnsPaymentData cfg)" for x
    using that set_update_where by (auto simp: createPplnsPaymentData_def fee_row_def split: if_splits)
  then have "map (cr_amount \<circ> snd) (createPplnsPaymentData cfg) = map (\<lambda>_. 0) (createPplnsPaymentData cfg)"
    by (intro map_cong) auto
  then have "weight_sum (createPplnsPaymentData cfg) = sum_list (map (\<lambda>_. 0) (createPplnsPaymentData cfg))"
    unfolding weight_sum_def by (rule arg_cong)
  then have "weight_sum (createPplnsPaymentData cfg) = 0" by simp
  then show ?thesis using \<open>0 < w\<close> z
    by (auto simp: window_inv_def filling_def initialAcc_def keys_present_def createPplnsPaymentData_def
        distinct_update update_conv')
qed

end
