(* ===== verification/Share_Cleanup.thy ===== *)
theory Share_Cleanup
  imports Pplns_Bounds Block_Manager
begin

text \<open>
  \<open>cleanShareDB\<close> of \<open>src/lib/common/local_comms.js\<close>: old shares are deleted once twice the
  PPLNS window of the oldest block that still needs its shares has been counted below it.
  The daemon's replies, what other processes do to the store while the replies are
  awaited and which LMDB calls throw are parameters. The scan is one read transaction. The
  deletion is a chain of write transactions, committed after every 101 heights: a call that
  throws loses the deletions that are not committed yet and keeps the others. Mail and
  log texts are left out; a header height or difficulty that is not an integer or a
  number, which no daemon reports, counts as absent.
\<close>

subsection \<open>The scan\<close>

text \<open>\<open>shareData.shares2 || 0\<close> of a share of the pool's scheme; an undecodable share counts nothing.\<close>

definition counted_work :: "share_msg option \<Rightarrow> num" where
  "counted_work s =
     (case s of
        Some sh \<Rightarrow> if sh_poolType sh = PPLNS then (case sh_shares2 sh of Some x \<Rightarrow> x | None \<Rightarrow> 0) else 0
      | None \<Rightarrow> 0)"

fun scanBlock :: "num option \<Rightarrow> share_msg option list \<Rightarrow> num \<Rightarrow> num \<times> bool" where
  "scanBlock difficulty [] shareCount = (shareCount, False)"
| "scanBlock difficulty (s # ss) shareCount =
     (let c = fl (shareCount + counted_work s)
      in if (case difficulty of Some d \<Rightarrow> d \<le> c | None \<Rightarrow> False) then (c, True)
         else scanBlock difficulty ss c)"

fun scanShares :: "(nat \<Rightarrow> share_msg option list) \<Rightarrow> num option \<Rightarrow> nat \<Rightarrow> num \<Rightarrow> bool \<Rightarrow> nat list" where
  "scanShares shares difficulty 0 shareCount pplnsFound = []"
| "scanShares shares difficulty (Suc h) shareCount pplnsFound =
     (if pplnsFound
      then (if shares (Suc h) = [] then [] else [Suc h]) @ scanShares shares difficulty h shareCount pplnsFound
      else (case scanBlock difficulty (shares (Suc h)) shareCount of
              (c, found) \<Rightarrow> scanShares shares difficulty h c found))"

text \<open>
  \<open>fault n\<close> says whether the \<open>n\<close>-th call to the write transactions (\<open>beginTxn\<close>, \<open>del\<close> or
  \<open>commit\<close>) throws. \<open>pending\<close> are the heights deleted in the open transaction; a commit that
  throws writes nothing. The keys of \<open>blockSet\<close> are array indices, which \<open>Object.keys\<close> lists in
  ascending order.
\<close>

definition deleteShares :: "nat list \<Rightarrow> (nat \<Rightarrow> share_msg option list) \<Rightarrow> (nat \<Rightarrow> share_msg option list)" where
  "deleteShares hs shares = (\<lambda>h. if h \<in> set hs then [] else shares h)"

fun deleteInBatches :: "(nat \<Rightarrow> string option) \<Rightarrow> nat \<Rightarrow> nat list \<Rightarrow> nat list \<Rightarrow>
    (nat \<Rightarrow> share_msg option list) \<Rightarrow> string option \<times> (nat \<Rightarrow> share_msg option list)" where
  "deleteInBatches fault n pending [] shares =
     (case fault n of Some err \<Rightarrow> (Some err, shares) | None \<Rightarrow> (None, deleteShares pending shares))"
| "deleteInBatches fault n pending (block # data) shares =
     (case fault n of
        Some err \<Rightarrow> (Some err, shares)
      | None \<Rightarrow>
          if 100 < length pending + 1
          then (case fault (n + 1) of
                  Some err \<Rightarrow> (Some err, shares)
                | None \<Rightarrow>
                    (case fault (n + 2) of
                       Some err \<Rightarrow> (Some err, deleteShares (pending @ [block]) shares)
                     | None \<Rightarrow> deleteInBatches fault (n + 3) [] data (deleteShares (pending @ [block]) shares)))
          else deleteInBatches fault (n + 1) (pending @ [block]) data shares)"

definition deleteStale :: "(nat \<Rightarrow> string option) \<Rightarrow> nat list \<Rightarrow>
    (nat \<Rightarrow> share_msg option list) \<Rightarrow> string option \<times> (nat \<Rightarrow> share_msg option list)" where
  "deleteStale fault data shares =
     (if data = [] then (None, shares)
      else case fault 0 of Some err \<Rightarrow> (Some err, shares) | None \<Rightarrow> deleteInBatches fault 1 [] data shares)"

subsection \<open>The cleanup\<close>

record clean_env =
  cl_shareMulti :: num
  cl_blockCleaner :: bool
  cl_header :: "nat \<Rightarrow> coin_reply"
  cl_lastHeader :: coin_reply
  cl_rival :: "local_db \<Rightarrow> local_db"
  cl_oldest_throws :: "string option"
  cl_scan_throws :: "string option"
  cl_write_throws :: "nat \<Rightarrow> string option"
  cl_sync_throws :: "string option"

record clean_state =
  cleanShareInProgress :: bool
  cleanShareStuckCount :: nat
  cl_local :: local_db

definition CLEAN_SHARE_BLOCK_HEADER_RETRIES :: nat where
  "CLEAN_SHARE_BLOCK_HEADER_RETRIES = 3"

fun requestBlockHeader :: "(nat \<Rightarrow> coin_reply) \<Rightarrow> nat \<Rightarrow> nat \<Rightarrow> jsval option" where
  "requestBlockHeader reply attempt 0 = None"
| "requestBlockHeader reply attempt (Suc n) =
     (let r = reply (Suc attempt); difficulty = getf (reply_body r) ''difficulty''
      in if reply_error r = JNull \<and> truthy (reply_body r) \<and> difficulty \<noteq> JUndef then Some difficulty
         else requestBlockHeader reply (Suc attempt) n)"

definition to_number :: "jsval \<Rightarrow> num option" where
  "to_number v = (case v of JNum x \<Rightarrow> Some x | JStr s \<Rightarrow> js_Number_string s | JBool b \<Rightarrow> Some (if b then 1 else 0) | _ \<Rightarrow> None)"

definition to_height :: "jsval \<Rightarrow> int option" where
  "to_height v = (case v of JNum x \<Rightarrow> if js_floor x = x then Some \<lfloor>x\<rfloor> else None | _ \<Rightarrow> None)"

definition cleanupThreshold :: "num \<Rightarrow> num option \<Rightarrow> num option" where
  "cleanupThreshold multi difficulty = map_option (\<lambda>d. js_floor (fl (fl (d * multi) * 2))) difficulty"

definition staleHeights :: "(nat \<Rightarrow> share_msg option list) \<Rightarrow> int \<Rightarrow> num option \<Rightarrow> nat list" where
  "staleHeights shares lastBlock difficulty = scanShares shares difficulty (nat (lastBlock - 1)) 0 False"

text \<open>The window to scan: the height to start below and the count to keep, or an error.\<close>

definition loadCleanupWindow :: "clean_env \<Rightarrow> int option \<Rightarrow> jsval \<Rightarrow> string + int option \<times> num option" where
  "loadCleanupWindow e oldest lockedDifficulty =
     (let body = reply_body (cl_lastHeader e); multi = cl_shareMulti e
      in if reply_error (cl_lastHeader e) \<noteq> JNull \<or> \<not> truthy body
         then Inl ''Share DB cleanup aborted because the main daemon block-header lookup failed''
         else (case oldest of
                 None \<Rightarrow>
                   (case getf body ''difficulty'' of
                      JNum d \<Rightarrow> if 0 < d then Inr (to_height (getf body ''height''), cleanupThreshold multi (Some d))
                                else Inl ''Invalid current block difficulty''
                    | _ \<Rightarrow> Inl ''Invalid current block difficulty'')
               | Some lockedHeight \<Rightarrow>
                   if lockedDifficulty = JNull then Inl ''Missing locked block difficulty''
                   else Inr (Some lockedHeight, cleanupThreshold multi (to_number lockedDifficulty))))"

text \<open>\<open>failCleanup\<close> is also \<open>abortCleanup\<close>, with its own message.\<close>

definition failCleanup :: "string \<Rightarrow> clean_state \<Rightarrow> (string + unit) \<times> clean_state" where
  "failCleanup err st = (Inl err, st\<lparr>cleanShareInProgress := False\<rparr>)"

definition finalizeCleanup :: "clean_env \<Rightarrow> nat list \<Rightarrow> clean_state \<Rightarrow> (string + unit) \<times> clean_state" where
  "finalizeCleanup e data st =
     (let finished = (\<lambda>st. (Inr (), st\<lparr>cleanShareInProgress := False, cleanShareStuckCount := 0\<rparr>))
      in if cl_blockCleaner e
         then (case deleteStale (cl_write_throws e) data (shareDB (cl_local st)) of
                 (thrown, shares) \<Rightarrow>
                   let st' = st\<lparr>cl_local := (cl_local st)\<lparr>shareDB := shares\<rparr>\<rparr>
                   in case thrown of
                        Some err \<Rightarrow> (Inl err, st')
                      | None \<Rightarrow> (case cl_sync_throws e of Some err \<Rightarrow> (Inl err, st') | None \<Rightarrow> finished st'))
         else finished st)"

definition scanAndFinalize :: "clean_env \<Rightarrow> int option \<times> num option \<Rightarrow> clean_state \<Rightarrow> (string + unit) \<times> clean_state" where
  "scanAndFinalize e window st =
     (case cl_scan_throws e of
        Some err \<Rightarrow> (Inl err, st)
      | None \<Rightarrow> finalizeCleanup e
          (case fst window of
             None \<Rightarrow> []
           | Some lastBlock \<Rightarrow> rev (staleHeights (shareDB (cl_local st)) lastBlock (snd window))) st)"

definition cleanShareDB :: "clean_env \<Rightarrow> clean_state \<Rightarrow> (string + unit) \<times> clean_state" where
  "cleanShareDB e st0 =
     (if cleanShareInProgress st0
      then (Inl ''Share DB cleanup is already running'', st0\<lparr>cleanShareStuckCount := cleanShareStuckCount st0 + 1\<rparr>)
      else
        let st = st0\<lparr>cleanShareInProgress := True\<rparr>
        in case cl_oldest_throws e of
             Some err \<Rightarrow> failCleanup err st
           | None \<Rightarrow>
               let oldest = getOldestLockedBlockHeight (cl_local st);
                   st1 = st\<lparr>cl_local := cl_rival e (cl_local st)\<rparr>;
                   lockedDifficulty = (if oldest = None then Some JNull
                     else requestBlockHeader (cl_header e) 0 CLEAN_SHARE_BLOCK_HEADER_RETRIES)
               in case lockedDifficulty of
                    None \<Rightarrow> failCleanup ''Share DB cleanup aborted because the main daemon block-header lookup failed'' st1
                  | Some d \<Rightarrow>
                      (case loadCleanupWindow e oldest d of
                         Inl err \<Rightarrow> failCleanup err st1
                       | Inr window \<Rightarrow>
                           (case scanAndFinalize e window st1 of
                              (Inl err, st2) \<Rightarrow> failCleanup err st2
                            | (Inr x, st2) \<Rightarrow> (Inr x, st2))))"

subsection \<open>What a cleanup leaves\<close>

text \<open>
  The store a cleanup meets when it starts to scan, and the heights it finds to delete
  there when the daemon's replies let it scan.
\<close>

definition store_met :: "clean_env \<Rightarrow> clean_state \<Rightarrow> local_db" where
  "store_met e st = (if cl_oldest_throws e = None then cl_rival e (cl_local st) else cl_local st)"

definition window_met :: "clean_env \<Rightarrow> clean_state \<Rightarrow> (int option \<times> num option) option" where
  "window_met e st =
     (let oldest = getOldestLockedBlockHeight (cl_local st)
      in case (if oldest = None then Some JNull else requestBlockHeader (cl_header e) 0 CLEAN_SHARE_BLOCK_HEADER_RETRIES) of
           None \<Rightarrow> None
         | Some d \<Rightarrow> (case loadCleanupWindow e oldest d of Inl err \<Rightarrow> None | Inr window \<Rightarrow> Some window))"

definition stale_met :: "clean_env \<Rightarrow> clean_state \<Rightarrow> nat list" where
  "stale_met e st =
     (case window_met e st of
        Some (Some lastBlock, kept) \<Rightarrow> rev (staleHeights (shareDB (store_met e st)) lastBlock kept)
      | _ \<Rightarrow> [])"

text \<open>
  The heights from which the block manager reads the shares of the blocks that wait: the
  height of a block of the main chain, and the anchor height of any other rounded down
  by \<open>payout.anchorRound\<close> (\<open>handleAltBlock\<close>).
\<close>

definition read_heights :: "int \<Rightarrow> local_db \<Rightarrow> int set" where
  "read_heights rnd d =
     {anchorOf rnd (a_anchor_height r) |k r. (k, r) \<in> set (altblockDB d) \<and> needs_shares r} \<union>
     {int k |k r. (k, r) \<in> set (blockDB d) \<and> needs_shares r}"

lemma read_heights_unrounded: "read_heights 1 d = waiting_heights d"
  by (simp add: read_heights_def waiting_heights_def anchorOf_def)

lemma deleteShares_nil [simp]: "deleteShares [] shares = shares"
  by (simp add: deleteShares_def)

lemma deleteShares_append: "deleteShares ys (deleteShares xs shares) = deleteShares (xs @ ys) shares"
  by (auto simp: deleteShares_def)

text \<open>Whole batches of 101 heights are deleted, and all heights if no call throws.\<close>

lemma deleteInBatches_prefix:
  "deleteInBatches fault n pending data shares = (thrown, shares') \<Longrightarrow> length pending \<le> 100 \<Longrightarrow>
     (thrown = None \<longrightarrow> shares' = deleteShares (pending @ data) shares) \<and>
     (thrown \<noteq> None \<longrightarrow> (\<exists>k. shares' = deleteShares (take (101 * k) (pending @ data)) shares))"
proof (induction fault n pending data shares rule: deleteInBatches.induct)
  case (1 fault n pending shares)
  then show ?case by (auto split: option.splits intro: exI [of _ 0])
next
  case (2 fault n pending block data shares)
  have none: "\<exists>k. shares = deleteShares (take (101 * k) xs) shares" for xs :: "nat list"
    by (intro exI [of _ 0]) simp
  show ?case
  proof (cases "fault n = None \<and> length pending = 100")
    case full: True
    let ?kept = "deleteShares (pending @ [block]) shares"
    have batch: "take (101 * Suc k) (pending @ block # data) = (pending @ [block]) @ take (101 * k) data" for k
      using full by simp
    have first: "\<exists>k. ?kept = deleteShares (take (101 * k) (pending @ block # data)) shares"
      using batch [of 0] by (metis append_Nil2 mult_0_right take0 take_0)
    show ?thesis
    proof (cases "fault (n + 1) = None \<and> fault (n + 2) = None")
      case True
      then have "deleteInBatches fault (n + 3) [] data ?kept = (thrown, shares')" using "2.prems"(1) full by simp
      from "2.IH"(1) [OF _ _ _ _ this] True full
      have "(thrown = None \<longrightarrow> shares' = deleteShares data ?kept) \<and>
          (thrown \<noteq> None \<longrightarrow> (\<exists>k. shares' = deleteShares (take (101 * k) data) ?kept))" by simp
      then show ?thesis
        using batch by (metis (no_types, lifting) append_Cons append_Nil append_assoc deleteShares_append)
    next
      case False
      then show ?thesis using "2.prems"(1) full none [of "pending @ block # data"] first
        by (auto split: option.splits simp del: take_append) metis
    qed
  next
    case False
    show ?thesis
    proof (cases "fault n")
      case None
      with False "2.prems" have "deleteInBatches fault (n + 1) (pending @ [block]) data shares = (thrown, shares')"
          "length (pending @ [block]) \<le> 100" by simp_all
      with "2.IH"(2) [OF None _ this] False "2.prems"(2) None show ?thesis by simp
    next
      case (Some err)
      then show ?thesis using "2.prems"(1) none [of "pending @ block # data"] by (auto simp del: take_append)
    qed
  qed
qed

lemma deleteStale_prefix:
  assumes "deleteStale fault data shares = (thrown, shares')"
  shows "(thrown = None \<longrightarrow> shares' = deleteShares data shares) \<and>
     (thrown \<noteq> None \<longrightarrow> (\<exists>k. shares' = deleteShares (take (101 * k) data) shares))"
proof (cases "data = [] \<or> fault 0 \<noteq> None")
  case True
  then show ?thesis using assms by (cases "data = []") (auto simp: deleteStale_def intro!: exI [of _ 0])
next
  case False
  then have "deleteInBatches fault 1 [] data shares = (thrown, shares')"
    using assms by (simp add: deleteStale_def)
  from deleteInBatches_prefix [OF this] show ?thesis by simp
qed

lemma deleteInBatches_no_fault: "(\<And>n. fault n = None) \<Longrightarrow> fst (deleteInBatches fault n pending data shares) = None"
  by (induction fault n pending data shares rule: deleteInBatches.induct) simp_all

text \<open>
  Every way through the cleanup: the store it leaves is the store it met without the
  heights it deleted, and those are all the stale heights or whole batches of them.
\<close>

definition batches_of :: "nat list \<Rightarrow> nat list \<Rightarrow> bool" where
  "batches_of data deleted \<longleftrightarrow> deleted = data \<or> (\<exists>k. deleted = take (101 * k) data)"

lemma batches_of_none [simp]: "batches_of data []"
  by (auto simp: batches_of_def intro: exI [of _ 0])

lemma batches_of_set: "batches_of data deleted \<Longrightarrow> set deleted \<subseteq> set data"
  by (auto simp: batches_of_def dest: in_set_takeD)

lemma finalizeCleanup_leaves:
  assumes "finalizeCleanup e data st = (r, st')"
  shows "\<exists>deleted. cl_local st' = (cl_local st)\<lparr>shareDB := deleteShares deleted (shareDB (cl_local st))\<rparr> \<and> batches_of data deleted \<and>
     (\<not> cl_blockCleaner e \<longrightarrow> deleted = []) \<and>
     (r = Inr () \<longrightarrow> \<not> cleanShareInProgress st' \<and> (cl_blockCleaner e \<longrightarrow> deleted = data))"
proof (cases "cl_blockCleaner e")
  case False
  then show ?thesis using assms by (intro exI [of _ "[]"]) (auto simp: finalizeCleanup_def)
next
  case True
  obtain thrown shares where d: "deleteStale (cl_write_throws e) data (shareDB (cl_local st)) = (thrown, shares)" by force
  show ?thesis
  proof (cases thrown)
    case None
    with deleteStale_prefix [OF d] True d assms show ?thesis
      by (intro exI [of _ data]) (auto simp: finalizeCleanup_def Let_def batches_of_def split: option.splits)
  next
    case (Some err)
    with deleteStale_prefix [OF d] obtain k where "shares = deleteShares (take (101 * k) data) (shareDB (cl_local st))" by auto
    with Some True d assms show ?thesis
      by (intro exI [of _ "take (101 * k) data"]) (auto simp: finalizeCleanup_def Let_def batches_of_def)
  qed
qed

lemma cleanShareDB_leaves:
  assumes run: "cleanShareDB e st = (r, st')" "\<not> cleanShareInProgress st"
  shows "\<not> cleanShareInProgress st' \<and>
     (\<exists>deleted. cl_local st' = (store_met e st)\<lparr>shareDB := deleteShares deleted (shareDB (store_met e st))\<rparr> \<and>
        batches_of (stale_met e st) deleted \<and> (\<not> cl_blockCleaner e \<longrightarrow> deleted = []) \<and>
        (r = Inr () \<longrightarrow> window_met e st \<noteq> None \<and> (cl_blockCleaner e \<longrightarrow> deleted = stale_met e st)))"
proof -
  have none: "\<not> cleanShareInProgress st' \<and>
     (\<exists>deleted. cl_local st' = (store_met e st)\<lparr>shareDB := deleteShares deleted (shareDB (store_met e st))\<rparr> \<and>
        batches_of (stale_met e st) deleted \<and> (\<not> cl_blockCleaner e \<longrightarrow> deleted = []) \<and>
        (r = Inr () \<longrightarrow> window_met e st \<noteq> None \<and> (cl_blockCleaner e \<longrightarrow> deleted = stale_met e st)))"
    if "failCleanup err st2 = (r, st')" "cl_local st2 = store_met e st" for err st2
    using that by (intro conjI exI [of _ "[]"]) (auto simp: failCleanup_def)
  show ?thesis
  proof (cases "cl_oldest_throws e")
    case (Some err)
    with run have "failCleanup err (st\<lparr>cleanShareInProgress := True\<rparr>) = (r, st')" by (simp add: cleanShareDB_def)
    then show ?thesis by (rule none) (simp add: store_met_def Some)
  next
    case seen: None
    let ?st1 = "st\<lparr>cleanShareInProgress := True, cl_local := store_met e st\<rparr>"
    have rival: "cl_rival e (cl_local st) = store_met e st" using seen by (simp add: store_met_def)
    show ?thesis
    proof (cases "window_met e st")
      case None
      with run seen rival obtain err where "failCleanup err ?st1 = (r, st')"
        by (auto simp: cleanShareDB_def window_met_def Let_def split: option.splits sum.splits if_splits)
      then show ?thesis by (rule none) simp
    next
      case (Some window)
      then have cl: "(case scanAndFinalize e window ?st1 of (Inl err, st2) \<Rightarrow> failCleanup err st2 | (Inr x, st2) \<Rightarrow> (Inr x, st2)) = (r, st')"
        using run seen rival
        by (auto simp: cleanShareDB_def window_met_def Let_def split: option.splits sum.splits if_splits)
      show ?thesis
      proof (cases "cl_scan_throws e")
        case (Some err)
        with cl have "failCleanup err ?st1 = (r, st')" by (simp add: scanAndFinalize_def)
        then show ?thesis by (rule none) simp
      next
        case None
        have data: "(case fst window of None \<Rightarrow> [] | Some lastBlock \<Rightarrow>
            rev (staleHeights (shareDB (cl_local ?st1)) lastBlock (snd window))) = stale_met e st"
          using Some by (auto simp: stale_met_def split: option.split prod.split)
        obtain r2 st2 where f: "finalizeCleanup e (stale_met e st) ?st1 = (r2, st2)" by force
        from cl None data f have out: "(case (r2, st2) of (Inl err, st2) \<Rightarrow> failCleanup err st2 | (Inr x, st2) \<Rightarrow> (Inr x, st2)) = (r, st')"
          by (simp add: scanAndFinalize_def)
        then have ends: "r = r2 \<and> cl_local st' = cl_local st2 \<and> (r2 \<noteq> Inr () \<longrightarrow> \<not> cleanShareInProgress st') \<and> (r2 = Inr () \<longrightarrow> st' = st2)"
          by (cases r2) (auto simp: failCleanup_def)
        from finalizeCleanup_leaves [OF f] obtain deleted where
          "cl_local st2 = (store_met e st)\<lparr>shareDB := deleteShares deleted (shareDB (store_met e st))\<rparr>"
          "batches_of (stale_met e st) deleted" "\<not> cl_blockCleaner e \<longrightarrow> deleted = []"
          "r2 = Inr () \<longrightarrow> \<not> cleanShareInProgress st2 \<and> (cl_blockCleaner e \<longrightarrow> deleted = stale_met e st)" by auto
        with ends Some show ?thesis by (intro conjI exI [of _ deleted]) auto
      qed
    qed
  qed
qed

text \<open>With no call that throws, a cleanup succeeds when the daemon's replies give it a window.\<close>

definition no_fault :: "clean_env \<Rightarrow> bool" where
  "no_fault e \<longleftrightarrow> cl_oldest_throws e = None \<and> cl_scan_throws e = None \<and> cl_sync_throws e = None \<and>
     (\<forall>n. cl_write_throws e n = None)"

lemma cleanShareDB_succeeds:
  assumes "\<not> cleanShareInProgress st" "no_fault e" "window_met e st \<noteq> None"
  shows "fst (cleanShareDB e st) = Inr ()"
proof -
  have fin: "fst (finalizeCleanup e data st2) = Inr ()" for data st2
  proof -
    have "fst (deleteStale (cl_write_throws e) data (shareDB (cl_local st2))) = None"
      using assms(2) deleteInBatches_no_fault by (auto simp: deleteStale_def no_fault_def)
    then show ?thesis using assms(2) by (auto simp: finalizeCleanup_def Let_def no_fault_def split: prod.split option.split)
  qed
  then have "fst (scanAndFinalize e window st2) = Inr ()" for window st2
    using assms(2) by (simp add: scanAndFinalize_def no_fault_def)
  then have "fst (case scanAndFinalize e window st2 of (Inl err, st3) \<Rightarrow> failCleanup err st3 | (Inr x, st3) \<Rightarrow> (Inr x, st3)) = Inr ()"
    for window st2
    by (metis (no_types, lifting) case_prod_conv fst_conv prod.exhaust_sel sum.simps(6))
  then show ?thesis
    using assms by (auto simp: cleanShareDB_def window_met_def Let_def no_fault_def split: option.splits sum.splits if_splits)
qed

subsection \<open>Work in a range of heights\<close>

definition share_work :: "share_msg option \<Rightarrow> num" where
  "share_work s = max 0 (counted_work s)"

definition work_ok :: "num \<Rightarrow> share_msg option \<Rightarrow> bool" where
  "work_ok B s \<longleftrightarrow> share_ok B s \<and> 0 \<le> counted_work s"

fun range_work :: "(nat \<Rightarrow> share_msg option list) \<Rightarrow> nat \<Rightarrow> nat \<Rightarrow> num" where
  "range_work shares c 0 = 0"
| "range_work shares c (Suc h) =
     (if c \<le> Suc h then sum_list (map counted_work (shares (Suc h))) + range_work shares c h else 0)"

lemma counted_work_bounds: "work_ok B s \<Longrightarrow> 0 \<le> B \<Longrightarrow> 0 \<le> counted_work s \<and> counted_work s \<le> B"
  by (auto simp: work_ok_def share_ok_def counted_work_def split: option.splits)

lemma height_work_nonneg: "list_all (work_ok B) ss \<Longrightarrow> 0 \<le> sum_list (map counted_work ss)"
  by (induction ss) (auto simp: work_ok_def)

lemma range_work_nonneg: "(\<And>h. list_all (work_ok B) (shares h)) \<Longrightarrow> 0 \<le> range_work shares c h"
  by (induction h) (auto intro!: add_nonneg_nonneg height_work_nonneg)

lemma range_work_mono:
  assumes "\<And>h. list_all (work_ok B) (shares h)" "h \<le> h'"
  shows "range_work shares c h \<le> range_work shares c h'"
  using assms(2)
proof (induction rule: dec_induct)
  case (step n)
  have "range_work shares c n \<le> range_work shares c (Suc n)"
  proof (cases "c \<le> Suc n")
    case True
    then show ?thesis using height_work_nonneg [OF assms(1)] by simp
  next
    case False
    then have "range_work shares c n = 0" by (cases n) auto
    with False show ?thesis by simp
  qed
  with step show ?case by simp
qed simp

subsection \<open>What the scan deletes\<close>

lemma scanBlock_count:
  assumes "list_all (work_ok B) ss" "0 \<le> c" "c \<le> D" "0 \<le> B"
  shows "scanBlock (Some D) ss c = (c', found) \<Longrightarrow>
    0 \<le> c' \<and> c' \<le> c + sum_list (map counted_work ss) + of_nat (length ss) * ((D + B) / 2 ^ 53) \<and>
    (if found then D \<le> c' else c' \<le> D)"
  using assms
proof (induction ss arbitrary: c)
  case (Cons s ss)
  let ?x = "counted_work s" let ?c = "fl (c + ?x)" let ?e = "(D + B) / 2 ^ 53"
  have x: "0 \<le> ?x" "?x \<le> B" using counted_work_bounds [of B s] Cons.prems by auto
  have "\<bar>?c - (c + ?x)\<bar> \<le> ?e" using fl_err [of "c + ?x" "D + B"] x Cons.prems by simp
  then have le: "?c \<le> c + ?x + ?e" by linarith
  have c0: "0 \<le> ?c" using x Cons.prems by simp
  have e0: "0 \<le> ?e" using Cons.prems x by simp
  have rest: "0 \<le> sum_list (map counted_work ss)" using height_work_nonneg [of B ss] Cons.prems(2) by simp
  have re: "0 \<le> of_nat (length ss) * ?e" using e0 by simp
  have len: "of_nat (length (s # ss)) * ?e = ?e + of_nat (length ss) * ?e"
    by (simp only: list.size of_nat_Suc of_nat_add of_nat_1 distrib_right mult_1 add.commute add_0_right)
  show ?case
  proof (cases "D \<le> ?c")
    case True
    then have "c' = ?c" "found" using Cons.prems(1) by (simp_all add: Let_def)
    with True le c0 rest re show ?thesis unfolding len by simp
  next
    case False
    then have "scanBlock (Some D) ss ?c = (c', found)" using Cons.prems(1) by (simp add: Let_def)
    from Cons.IH [OF this _ c0] Cons.prems False have
      "0 \<le> c' \<and> c' \<le> ?c + sum_list (map counted_work ss) + of_nat (length ss) * ?e \<and> (if found then D \<le> c' else c' \<le> D)"
      by simp
    with le show ?thesis unfolding len by (auto split: if_splits)
  qed
qed simp

lemma scanShares_found: "scanShares shares D h c True = rev (filter (\<lambda>i. shares i \<noteq> []) [1..<Suc h])"
  by (induction h) auto

lemma range_work_single_cut:
  "c \<le> Suc h \<Longrightarrow> range_work shares c (Suc h) = sum_list (map counted_work (shares (Suc h))) + range_work shares c h"
  by simp

text \<open>Either nothing is deleted, or all that is deleted lies below a height \<open>c\<close> above which the count was reached.\<close>

lemma scanShares_cut:
  assumes ok: "\<And>h. list_all (work_ok B) (shares h)" and B: "0 \<le> B"
  shows "0 \<le> n \<Longrightarrow> n \<le> D \<Longrightarrow> scanShares shares (Some D) h n False = [] \<or>
    (\<exists>c \<ge> 1. c \<le> h \<and> set (scanShares shares (Some D) h n False) \<subseteq> {1..<c} \<and>
       D \<le> n + range_work shares c h + of_nat (share_rows shares h) * ((D + B) / 2 ^ 53))"
proof (induction h arbitrary: n)
  case 0
  then show ?case by simp
next
  case (Suc h)
  let ?e = "(D + B) / 2 ^ 53"
  obtain n' found where sb: "scanBlock (Some D) (shares (Suc h)) n = (n', found)" by force
  note count = scanBlock_count [OF ok [of "Suc h"] Suc.prems B sb]
  have e: "0 \<le> ?e" using Suc.prems B by simp
  have rows: "of_nat (share_rows shares (Suc h)) * ?e = of_nat (length (shares (Suc h))) * ?e + of_nat (share_rows shares h) * ?e"
    by (simp only: share_rows.simps of_nat_add distrib_right)
  have rh: "0 \<le> of_nat (share_rows shares h) * ?e" using e by simp
  show ?case
  proof (cases found)
    case True
    have "range_work shares (Suc h) (Suc h) = sum_list (map counted_work (shares (Suc h))) + range_work shares (Suc h) h" by simp
    moreover have "range_work shares (Suc h) h = 0" by (cases h) auto
    ultimately have "D \<le> n + range_work shares (Suc h) (Suc h) + of_nat (share_rows shares (Suc h)) * ?e"
      using count True rh unfolding rows by simp
    moreover have "set (scanShares shares (Some D) (Suc h) n False) \<subseteq> {1..<Suc h}"
      using True sb by (auto simp: scanShares_found)
    ultimately show ?thesis by (intro disjI2 exI [of _ "Suc h"]) simp
  next
    case False
    then have n': "0 \<le> n'" "n' \<le> D" using count by auto
    have eq: "scanShares shares (Some D) (Suc h) n False = scanShares shares (Some D) h n' False" using sb False by simp
    from Suc.IH [OF n'] show ?thesis
    proof
      assume "scanShares shares (Some D) h n' False = []"
      then show ?thesis unfolding eq by simp
    next
      assume "\<exists>c \<ge> 1. c \<le> h \<and> set (scanShares shares (Some D) h n' False) \<subseteq> {1..<c} \<and>
         D \<le> n' + range_work shares c h + of_nat (share_rows shares h) * ?e"
      then obtain c where c: "1 \<le> c" "c \<le> h" "set (scanShares shares (Some D) h n' False) \<subseteq> {1..<c}"
        "D \<le> n' + range_work shares c h + of_nat (share_rows shares h) * ?e" by blast
      have "range_work shares c (Suc h) = sum_list (map counted_work (shares (Suc h))) + range_work shares c h"
        using c(2) by simp
      with c(4) count have "D \<le> n + range_work shares c (Suc h) + of_nat (share_rows shares (Suc h)) * ?e"
        unfolding rows by linarith
      with c show ?thesis unfolding eq by (intro disjI2 exI [of _ c]) simp
    qed
  qed
qed

subsection \<open>The window fills with the work it reads\<close>

text \<open>Unless the window is full, the counter of shares is the exact work read so far, up to \<open>k\<close> rounding units.\<close>

definition tracks :: "num \<Rightarrow> nat \<Rightarrow> num \<Rightarrow> pplns_acc \<Rightarrow> bool" where
  "tracks M k X a \<longleftrightarrow> p_totalPaid a = 1 \<or> \<bar>p_totalShares a - X\<bar> \<le> of_nat k * unit_err M"

lemma unit_err_nonneg: "0 \<le> M \<Longrightarrow> 0 \<le> unit_err M"
  by (simp add: unit_err_def)

lemma addPayment_track:
  assumes inv: "window_inv cfg w M k a" and tr: "tracks M k' X a" and w: "0 < w" and x: "0 \<le> x" "w + x \<le> M"
    and res: "addPayment w key x a = Inr a'"
  shows "p_totalPaid a' = 1 \<or> \<bar>p_totalShares a' - (X + x)\<bar> \<le> of_nat k' * unit_err M + M / 2 ^ 53"
proof (cases "p_totalPaid a = 1")
  case True
  then show ?thesis using addPayment_full [OF True] res by simp
next
  case False
  then have T: "0 \<le> p_totalShares a" "p_totalShares a < w" "p_totalPaid a < 1"
    using inv by (auto simp: window_inv_def filling_def)
  have t: "\<bar>p_totalShares a - X\<bar> \<le> of_nat k' * unit_err M" using tr False by (simp add: tracks_def)
  have M: "0 \<le> M / 2 ^ 53" using w x by simp
  have e: "\<bar>fl (p_totalShares a + x) - (p_totalShares a + x)\<bar> \<le> M / 2 ^ 53" by (rule fl_err) (use T x in linarith)
  have "p_totalShares a' = fl (p_totalShares a + x) \<or> (x = 0 \<and> p_totalShares a' = p_totalShares a)"
    using res T(3) by (auto simp: addPayment_def rewardTotal_def Let_def split: if_splits option.splits)
  then have "\<bar>p_totalShares a' - (X + x)\<bar> \<le> of_nat k' * unit_err M + M / 2 ^ 53"
    using e t M by (elim disjE conjE) linarith+
  then show ?thesis ..
qed

lemma parts_sum_error:
  assumes ok: "fees_ok cfg" and x: "0 \<le> x" "fl x = x" "x \<le> M"
  defines "f \<equiv> fl (x * fl (pplnsFee cfg / 100))"
  defines "d \<equiv> fl (f * fl (devDonation cfg / 100))" and "p \<equiv> fl (f * fl (poolDevDonation cfg / 100))"
  shows "\<bar>fl (x - f) + fl (fl (f - d) - p) + p + d - x\<bar> \<le> 3 * (M / 2 ^ 53)"
proof -
  note P = share_parts [OF ok x(1,2), folded f_def, folded d_def p_def]
  have f: "0 \<le> f" "f \<le> x"
    using fl_percent [of "pplnsFee cfg"] ok fl_part [OF x(1), of "fl (pplnsFee cfg / 100)"] x(2)
    by (auto simp: fees_ok_def f_def)
  have dp: "d + p \<le> f" unfolding d_def p_def by (rule donations_fit [OF ok f(1)]) (simp add: f_def)
  have 1: "\<bar>fl (x - f) - (x - f)\<bar> \<le> M / 2 ^ 53" by (rule fl_err) (use f x in linarith)
  have 2: "\<bar>fl (f - d) - (f - d)\<bar> \<le> M / 2 ^ 53" by (rule fl_err) (use f x dp P(3,5) in linarith)
  have "fl (f - d) \<le> fl f" using P(3) by (intro fl_mono) simp
  then have fd: "fl (f - d) \<le> f" by (simp add: f_def)
  have "p \<le> fl (f - d)" using fl_mono [of p "f - d"] dp by (simp add: p_def)
  then have 3: "\<bar>fl (fl (f - d) - p) - (fl (f - d) - p)\<bar> \<le> M / 2 ^ 53"
    by (intro fl_err) (use fd f x P(5) in linarith)
  show ?thesis using 1 2 3 by linarith
qed

lemma addPplnsSharePayments_track:
  assumes inv: "window_inv cfg w M k a" and user: "map_of (p_data a) user \<noteq> None" and ok: "fees_ok cfg"
    and w: "0 < w" and x: "0 \<le> x" "fl x = x" "w + x \<le> M" and k: "k + 4 \<le> 2 ^ 48"
    and tr: "tracks M k' X a" and res: "addPplnsSharePayments cfg w user x a = Inr a'"
  shows "tracks M (Suc k') (X + x) a'"
proof -
  note parts = share_parts [OF ok x(1,2)]
  let ?f = "fl (x * fl (pplnsFee cfg / 100))"
  let ?d = "fl (?f * fl (devDonation cfg / 100))" let ?p = "fl (?f * fl (poolDevDonation cfg / 100))"
  let ?m = "M / 2 ^ 53" let ?g = "fl (fl (?f - ?d) - ?p)" let ?u = "fl (x - ?f)"
  have fee: "map_of (p_data b) z \<noteq> None" if "window_inv cfg w M j b"
    "z \<in> {payoutFeeAddress cfg, poolDevAddress cfg, coinDevAddress cfg}" for j b z
    using that by (auto simp: window_inv_def keys_present_def)
  have le: "w + y \<le> M" if "y \<le> x" for y using that x(3) by linarith
  obtain a1 a2 a3 where s: "addPayment w user ?u a = Inr a1" "addPayment w (payoutFeeAddress cfg) ?g a1 = Inr a2"
    "addPayment w (poolDevAddress cfg) ?p a2 = Inr a3" "addPayment w (coinDevAddress cfg) ?d a3 = Inr a'"
    using res by (auto simp: addPplnsSharePayments_def Let_def bindE_Inr)
  have next_inv: "window_inv cfg w M (Suc j) b'" if "window_inv cfg w M j b" "map_of (p_data b) key \<noteq> None"
    "0 \<le> y" "y \<le> x" "j \<le> 2 ^ 48" "addPayment w key y b = Inr b'" for j b b' key y
    using addPayment_inv [OF that(1,2) w that(3) le [OF that(4)] that(5)] that(6) by auto
  have k4: "k \<le> 2 ^ 48" "Suc k \<le> 2 ^ 48" "Suc (Suc k) \<le> 2 ^ 48" using k by linarith+
  have i1: "window_inv cfg w M (Suc k) a1" by (rule next_inv [OF inv user parts(1,2) k4(1) s(1)])
  have i2: "window_inv cfg w M (Suc (Suc k)) a2"
    by (rule next_inv [OF i1 fee [OF i1] parts(7,8) k4(2) s(2)]) simp
  have i3: "window_inv cfg w M (Suc (Suc (Suc k))) a3"
    by (rule next_inv [OF i2 fee [OF i2] parts(5,6) k4(3) s(3)]) simp
  let ?P = "\<lambda>n Y b. p_totalPaid b = 1 \<or> \<bar>p_totalShares b - Y\<bar> \<le> of_nat k' * unit_err M + of_nat n * ?m"
  have step: "?P (Suc n) (Y + y) b'" if "window_inv cfg w M j b" "?P n Y b" "0 \<le> y" "y \<le> x" "addPayment w key y b = Inr b'"
    for n Y y b b' j key
  proof (cases "p_totalPaid b = 1")
    case True
    then show ?thesis using addPayment_full [OF True] that(5) by simp
  next
    case False
    let ?Z = "p_totalShares b"
    have "tracks M 0 ?Z b" by (simp add: tracks_def)
    from addPayment_track [OF that(1) this w that(3) le [OF that(4)] that(5)]
    have "p_totalPaid b' = 1 \<or> \<bar>p_totalShares b' - (?Z + y)\<bar> \<le> ?m" by simp
    moreover have "of_nat (Suc n) * ?m = ?m + of_nat n * ?m" by (simp only: of_nat_Suc distrib_right mult_1 add.commute)
    ultimately show ?thesis using that(2) False by linarith
  qed
  have t0: "?P 0 X a" using tr by (simp add: tracks_def)
  have "?P (Suc (Suc (Suc (Suc 0)))) (X + ?u + ?g + ?p + ?d) a'"
    using step [OF i3 step [OF i2 step [OF i1 step [OF inv t0 parts(1,2) s(1)] parts(7,8) s(2)] parts(5,6) s(3)] parts(3,4) s(4)] .
  moreover have "\<bar>?u + ?g + ?p + ?d - x\<bar> \<le> 3 * ?m" by (rule parts_sum_error [OF ok x(1,2)]) (use x w in linarith)
  moreover have "of_nat (Suc k') * unit_err M = of_nat k' * unit_err M + 32 * ?m" by (simp add: unit_err_def algebra_simps)
  moreover have "of_nat (Suc (Suc (Suc (Suc 0)))) * ?m = 4 * ?m" by simp
  moreover have "0 \<le> ?m" using w x by simp
  ultimately show ?thesis unfolding tracks_def by linarith
qed

lemma tracks_cong:
  "p_totalPaid a' = p_totalPaid a \<Longrightarrow> p_totalShares a' = p_totalShares a \<Longrightarrow> tracks M k X a' = tracks M k X a"
  by (simp add: tracks_def)

lemma tracks_Suc: "tracks M k X a \<Longrightarrow> 0 \<le> M \<Longrightarrow> tracks M (Suc k) X a"
  using unit_err_nonneg [of M] by (auto simp: tracks_def algebra_simps)

lemma collectShare_track:
  assumes inv: "window_inv cfg w M k a" and ok: "fees_ok cfg" "work_ok B s"
    and w: "0 < w" "w + B \<le> M" "0 \<le> B" and k: "k + 4 \<le> 2 ^ 48"
    and tr: "tracks M k' X a" and res: "collectShare cfg w s a = Inr a'"
  shows "tracks M (Suc k') (X + counted_work s) a'"
proof -
  have M: "0 \<le> M" using w by linarith
  note keep = tracks_Suc [OF tr M]
  show ?thesis
  proof (cases "counted_work s = 0")
    case True
    have "p_totalPaid a' = p_totalPaid a \<and> p_totalShares a' = p_totalShares a"
      using res True by (auto simp: collectShare_def counted_work_def Let_def split: option.splits if_splits)
    then show ?thesis using keep True by (simp add: tracks_def)
  next
    case False
    then obtain sh x where s: "s = Some sh" "sh_poolType sh = PPLNS" "sh_shares2 sh = Some x" "counted_work s = x"
      by (auto simp: counted_work_def split: option.splits if_splits)
    have x: "0 < x" "fl x = x" "x \<le> B" using ok(2) False s by (auto simp: work_ok_def share_ok_def)
    let ?D = "snd (ensurePplnsPaymentRow (p_data a) sh)" let ?user = "fst (ensurePplnsPaymentRow (p_data a) sh)"
    define b where "b = a\<lparr>p_data := ?D,
        p_firstShareTime := (if p_firstShareTime a = None then Some (sh_timestamp sh) else p_firstShareTime a),
        p_lastShareTime := (if p_totalPaid a < rewardTotal then Some (sh_timestamp sh) else p_lastShareTime a)\<rparr>"
    have ib: "window_inv cfg w M k b"
      using window_inv_ensure(1) [OF inv, of sh]
      by (subst window_inv_cong [where a = "a\<lparr>p_data := ?D\<rparr>"]) (simp_all add: b_def)
    have ub: "map_of (p_data b) ?user \<noteq> None" using window_inv_ensure(2) [OF inv, of sh] by (simp add: b_def)
    have tb: "tracks M k' X b" using tr by (simp add: b_def tracks_def)
    have "collectShare cfg w s a = bindE (addPplnsSharePayments cfg w ?user x b) (\<lambda>a3. Inr (addPortShare sh x a3))"
      using s x by (simp add: collectShare_def Let_def b_def)
    with res have "bindE (addPplnsSharePayments cfg w ?user x b) (\<lambda>a3. Inr (addPortShare sh x a3)) = Inr a'"
      by (simp only:)
    then obtain a3 where a3: "addPplnsSharePayments cfg w ?user x b = Inr a3" "a' = addPortShare sh x a3"
      by (auto simp: bindE_Inr)
    have "w + x \<le> M" using x w by linarith
    from addPplnsSharePayments_track [OF ib ub ok(1) w(1) less_imp_le [OF x(1)] x(2) this k tb a3(1)]
    have "tracks M (Suc k') (X + x) a3" .
    then show ?thesis using a3(2) s(4) by (simp add: tracks_def)
  qed
qed

lemma work_share_ok: "list_all (work_ok B) ss \<Longrightarrow> list_all (share_ok B) ss"
  by (auto simp: list_all_iff work_ok_def)

lemma collectShares_track:
  assumes "fees_ok cfg" "list_all (work_ok B) ss" "0 < w" "w + B \<le> M" "0 \<le> B"
  shows "window_inv cfg w M k a \<Longrightarrow> k + 4 * length ss \<le> 2 ^ 48 \<Longrightarrow> tracks M k' X a \<Longrightarrow>
     collectShares cfg w ss a = Inr a' \<Longrightarrow> tracks M (k' + length ss) (X + sum_list (map counted_work ss)) a'"
  using assms(2)
proof (induction ss arbitrary: k k' X a)
  case Nil
  then show ?case by simp
next
  case (Cons s ss)
  have ok: "work_ok B s" "list_all (work_ok B) ss" using Cons.prems(5) by simp_all
  then have sok: "share_ok B s" by (simp add: work_ok_def)
  have k: "k + 4 \<le> 2 ^ 48" "k + 4 + 4 * length ss \<le> 2 ^ 48" using Cons.prems(2) by auto
  obtain b where b: "collectShare cfg w s a = Inr b" "window_inv cfg w M (k + 4) b"
    using collectShare_inv [OF Cons.prems(1) assms(1) sok assms(3-5) k(1)] by blast
  have rest: "collectShares cfg w ss b = Inr a'" using Cons.prems(4) by (simp add: b(1))
  have "tracks M (Suc k') (X + counted_work s) b"
    by (rule collectShare_track [OF Cons.prems(1) assms(1) ok(1) assms(3-5) k(1) Cons.prems(3) b(1)])
  from Cons.IH [OF b(2) k(2) this rest ok(2)] show ?case by (simp add: add.assoc)
qed

subsection \<open>Deleted shares are never read\<close>

lemma full_at_cut:
  assumes "window_inv cfg w M k a" "tracks M k' X a" "w + of_nat k' * unit_err M \<le> X"
  shows "p_totalPaid a = 1"
proof (rule ccontr)
  assume "p_totalPaid a \<noteq> 1"
  then have "p_totalShares a < w" "\<bar>p_totalShares a - X\<bar> \<le> of_nat k' * unit_err M"
    using assms(1,2) by (auto simp: window_inv_def tracks_def)
  with assms(3) show False by linarith
qed

lemma collectHeights_full: "p_totalPaid a = 1 \<Longrightarrow> collectHeights cfg w shares h a = Inr a"
  by (cases h) (simp_all add: rewardTotal_def)

lemma collectHeights_same:
  assumes ok: "fees_ok cfg" "\<And>h. list_all (work_ok B) (shares h)" "0 < w" "w + B \<le> M" "0 \<le> B"
    and agree: "\<And>i. c \<le> i \<Longrightarrow> kept i = shares i"
  shows "window_inv cfg w M k a \<Longrightarrow> tracks M k' X a \<Longrightarrow> k + 4 * share_rows shares h \<le> 2 ^ 48 \<Longrightarrow>
     w + of_nat (k' + share_rows shares h) * unit_err M \<le> X + range_work shares c h \<Longrightarrow> 1 \<le> c \<Longrightarrow>
     collectHeights cfg w kept h a = collectHeights cfg w shares h a"
proof (induction h arbitrary: k k' X a)
  case 0
  then show ?case by simp
next
  case (Suc h)
  have M: "0 \<le> M" using ok by linarith
  let ?ss = "shares (Suc h)" let ?u = "unit_err M"
  have split: "of_nat (k' + share_rows shares (Suc h)) * ?u = of_nat (k' + length ?ss + share_rows shares h) * ?u"
    by (simp add: add.assoc)
  show ?case
  proof (cases "c \<le> Suc h \<and> p_totalPaid a < 1")
    case True
    have len: "k + 4 * length ?ss \<le> 2 ^ 48" "k + 4 * length ?ss + 4 * share_rows shares h \<le> 2 ^ 48"
      using Suc.prems(3) by auto
    obtain b where b: "collectShares cfg w ?ss a = Inr b" "window_inv cfg w M (k + 4 * length ?ss) b"
      using collectShares_inv [OF ok(1) work_share_ok [OF ok(2)] ok(3-5) Suc.prems(1) len(1)] by blast
    have tb: "tracks M (k' + length ?ss) (X + sum_list (map counted_work ?ss)) b"
      by (rule collectShares_track [OF ok(1,2) ok(3-5) Suc.prems(1) len(1) Suc.prems(2) b(1)])
    have "w + of_nat (k' + length ?ss + share_rows shares h) * ?u \<le> X + sum_list (map counted_work ?ss) + range_work shares c h"
      using Suc.prems(4) True unfolding split by (simp add: add.assoc)
    from Suc.IH [OF b(2) tb len(2) this Suc.prems(5)] show ?thesis using agree True b(1) by simp
  next
    case False
    have "p_totalPaid a = 1"
    proof (cases "c \<le> Suc h")
      case True
      with False Suc.prems(1) show ?thesis by (auto simp: window_inv_def filling_def)
    next
      case outside: False
      have "of_nat k' * ?u \<le> of_nat (k' + share_rows shares (Suc h)) * ?u"
        using unit_err_nonneg [OF M] by (intro mult_right_mono) simp_all
      then have "w + of_nat k' * ?u \<le> X" using Suc.prems(4) outside by simp
      with Suc.prems(1,2) show ?thesis by (rule full_at_cut)
    qed
    then show ?thesis by (simp only: collectHeights_full)
  qed
qed

lemma share_rows_mono: "h \<le> h' \<Longrightarrow> share_rows shares h \<le> share_rows shares h'"
  by (induction rule: dec_induct) auto

lemma rows_scaled:
  fixes x :: num
  assumes n: "n \<le> 2 ^ 40" and x: "0 \<le> x"
  shows "of_nat n * (x / 2 ^ 53) \<le> x / 8192"
proof -
  have "(of_nat n :: num) \<le> 2 ^ 40" using of_nat_mono [OF n, where 'a = num] by simp
  then have "of_nat n * (x / 2 ^ 53) \<le> 2 ^ 40 * (x / 2 ^ 53)" using x by (intro mult_right_mono) simp_all
  also have "\<dots> = x / 8192" by simp
  finally show ?thesis .
qed

text \<open>
  The main fact: reading the window of a block from any height at or above the scan gives
  the same weights before and after the cleanup, whichever of the stale heights it deleted.
\<close>

lemma stale_unread:
  assumes ok: "fees_ok cfg" "\<And>h. list_all (work_ok w) (shares h)" "0 < w" "3 / 2 * w \<le> D"
    and rows: "share_rows shares h \<le> 2 ^ 40" and lst: "lastBlock - 1 \<le> int h"
    and del: "set del \<subseteq> set (staleHeights shares lastBlock (Some D))"
  shows "collectHeights cfg w (deleteShares del shares) h (initialAcc cfg) = collectHeights cfg w shares h (initialAcc cfg)"
proof -
  let ?h = "nat (lastBlock - 1)" let ?del = "staleHeights shares lastBlock (Some D)"
  have hh: "?h \<le> h" using lst by simp
  have w0: "0 \<le> w" "0 \<le> D" "0 \<le> D + w" using ok by linarith+
  consider "?del = []" | c where "1 \<le> c" "c \<le> ?h" "set ?del \<subseteq> {1..<c}"
      "D \<le> range_work shares c ?h + of_nat (share_rows shares ?h) * ((D + w) / 2 ^ 53)"
    using scanShares_cut [where shares = shares and B = w and n = 0 and h = ?h, OF ok(2) w0(1) order_refl w0(2)]
    unfolding staleHeights_def by auto
  then show ?thesis
  proof cases
    case 1
    with del show ?thesis by simp
  next
    case (2 c)
    have r0: "share_rows shares ?h \<le> 2 ^ 40" using share_rows_mono [OF hh, of shares] rows by linarith
    have e1: "of_nat (share_rows shares ?h) * ((D + w) / 2 ^ 53) \<le> (D + w) / 8192" by (rule rows_scaled [OF r0 w0(3)])
    have "of_nat (share_rows shares h) * unit_err (2 * w) = of_nat (share_rows shares h) * ((64 * w) / 2 ^ 53)"
      by (simp add: unit_err_def)
    also have "\<dots> \<le> (64 * w) / 8192" by (rule rows_scaled [OF rows]) (use w0 in simp)
    finally have e2: "of_nat (share_rows shares h) * unit_err (2 * w) \<le> (64 * w) / 8192" .
    have "D \<le> range_work shares c ?h + (D + w) / 8192" using order_trans [OF 2(4) add_left_mono [OF e1]] .
    moreover have "range_work shares c ?h \<le> range_work shares c h" by (rule range_work_mono [OF ok(2) hh])
    moreover define E where "E = of_nat (share_rows shares h) * unit_err (2 * w)"
    ultimately have need: "w + of_nat (0 + share_rows shares h) * unit_err (2 * w) \<le> 0 + range_work shares c h"
      using e2 ok(4) w0 unfolding add_0 E_def [symmetric] by (simp add: add_divide_distrib)
    have inv: "window_inv cfg w (2 * w) 0 (initialAcc cfg)" by (rule initial_inv [OF ok(3)])
    have tr: "tracks (2 * w) 0 0 (initialAcc cfg)" by (simp add: tracks_def initialAcc_def)
    have k: "0 + 4 * share_rows shares h \<le> 2 ^ 48" using rows by simp
    have agree: "deleteShares del shares i = shares i" if "c \<le> i" for i
      using 2(3) del that by (auto simp: deleteShares_def)
    show ?thesis
      by (rule collectHeights_same [OF ok(1,2,3) _ w0(1) agree inv tr k need 2(1)]) simp_all
  qed
qed

lemma scanShares_None: "scanShares shares None h n False = []"
proof -
  have "snd (scanBlock None ss n) = False" for ss n by (induction ss arbitrary: n) (auto simp: Let_def)
  then show ?thesis by (induction h arbitrary: n) (auto split: prod.split, metis snd_conv)
qed

end
