(* ===== verification/Block_Examples.thy ===== *)
theory Block_Examples
  imports Payments_Examples Block_Accounts Share_Cleanup
begin

text \<open>
  A concrete installation of the block manager: a main block at height 100 that is ready
  to be paid, its weights, a daemon at height 200 that knows the block, and a store of
  shares. The properties are instantiated at these values.
\<close>

definition ex_bm_cfg :: bm_config where
  "ex_bm_cfg = \<lparr>payoutFeeAddress = ''fees'', coinDevAddress = ''coindev'', poolDevAddress = ''pooldev'', pplnsFee = 1,
     devDonation = 0, poolDevDonation = 0, shareMulti = 2, blocksRequired = 60, anchorRound = 1, daemonPort = 18081\<rparr>"

definition ex_block :: block_msg where
  "ex_block = \<lparr>b_hash = ''aa'', b_difficulty = 64, b_shares = 1, b_timestamp = 1000, b_poolType = PPLNS,
     b_unlocked = False, b_valid = True, b_value = Some 512, b_pay_ready = Some True\<rparr>"

definition ex_header :: jsval where
  "ex_header = JObj [(''hash'', JStr ''aa''), (''height'', JNum 100), (''reward'', JNum 512), (''difficulty'', JNum 64)]"

definition ex_top :: jsval where
  "ex_top = JObj [(''height'', JNum 200), (''difficulty'', JNum 64)]"

definition ex_coin :: "coin_call \<Rightarrow> coin_reply" where
  "ex_coin c = \<lparr>reply_error = JNull, reply_body = (case c of getLastBlockHeader \<Rightarrow> ex_top | _ \<Rightarrow> ex_header)\<rparr>"

definition ex_bm_env :: bm_env where
  "ex_bm_env = \<lparr>bm_cfg = ex_bm_cfg, coin_answer = (\<lambda>n. ex_coin), bm_sql = (\<lambda>n. Sql_ok), bm_tx = (\<lambda>n. Tx_ok),
     bm_rival = (\<lambda>n d. d), skipHashFallback = (\<lambda>p. False), retryFuel = 1\<rparr>"

definition ex_share :: share_msg where
  "ex_share = \<lparr>sh_address = ''alice'', sh_paymentID = None, sh_poolType = PPLNS, sh_shares2 = Some 64, sh_timestamp = 5000,
     sh_port = None\<rparr>"

definition ex_local :: local_db where
  "ex_local = \<lparr>blockDB = [(100, ex_block)], altblockDB = [], shareDB = (\<lambda>h. if h \<in> {95, 99} then [Some ex_share] else []),
     cacheDB = (\<lambda>k. None)\<rparr>"

definition ex_bm_db :: bm_db where
  "ex_bm_db = \<lparr>bm_pay = ex_db, paid_blocks = [],
     block_balance = [\<lparr>bb_hex = ''aa'', bb_address = ''alice'', bb_payment_id = None, bb_amount = 1\<rparr>],
     bm_local = ex_local, next_balance_id = 6\<rparr>"

definition ex_bm_world :: bm_world where
  "ex_bm_world = \<lparr>benv = ex_bm_env, bdb = ex_bm_db, isFullStop' = False, paymentInProgress = False,
     balanceIdCache = (\<lambda>k. None), inFlightPrecalc = [], bawaits = 0\<rparr>"

lemma ex_bm_ok: "bm_ok ex_bm_db"
  using ex_db_ok by (simp add: bm_ok_def ex_bm_db_def ex_local_def local_ok_def main_settled_def ex_block_def ex_db_def)

lemma ex_bm_rivals: "bm_rivals_ok ex_bm_env"
  by (simp add: bm_rivals_ok_def ex_bm_env_def reaches_refl)

lemma ex_bm_world_sel [simp]: "benv ex_bm_world = ex_bm_env" "bdb ex_bm_world = ex_bm_db"
  "balanceIdCache ex_bm_world key = None"
  by (simp_all add: ex_bm_world_def)

lemma ex_bm_quiet: "payless ex_bm_env [] ex_bm_world"
  using ex_bm_rivals ex_bm_ok by (simp add: payless_def ex_bm_env_def ex_bm_db_def)

text \<open>The payout of the block runs to its end, and the cycle that makes it.\<close>

lemma ex_payout: "fst (doPPLNSPayments ''aa'' 512 18081 1000 ex_bm_world) = Inr True"
  by code_simp

lemma ex_unlock: "map pb_hex (paid_blocks (bdb (snd (unlockMain 200 (100, ex_block) ex_bm_world)))) = [''aa'']"
  by code_simp

text \<open>The database after the credit transaction of the block.\<close>

definition ex_paid_db :: bm_db where
  "ex_paid_db = projr (creditTransaction ''aa'' 512 18081 1000 [(5, 512)] ex_bm_db)"

lemma ex_credit: "creditTransaction ''aa'' 512 18081 1000 [(5, 512)] ex_bm_db = Inr ex_paid_db"
proof -
  have "\<not> isl (creditTransaction ''aa'' 512 18081 1000 [(5, 512)] ex_bm_db)" by code_simp
  then show ?thesis by (simp add: ex_paid_db_def sum.expand)
qed

lemma ex_paid_balances: "map (\<lambda>(i, r). (i, bal_amount r)) (balances (bm_pay ex_paid_db)) = [(5, 640)]"
  by code_simp

end
