(* ===== verification/Block_Properties.thy ===== *)
theory Block_Properties
  imports Block_Examples
begin

text \<open>
  The properties of the block manager, the PPLNS calculation and the share cleanup, each
  with an instance at a concrete input where it has hypotheses.
\<close>

section \<open>Paying found blocks\<close>

text \<open>
  C9. Whatever the daemons answer, whichever queries and transactions fail, and whatever
  steps other processes take meanwhile, a cycle of the block manager changes the database
  only by its steps, the invariant holds when it ends, and a main block that is unlocked
  and still valid is in the table of paid blocks.
\<close>

theorem bm_cycle_safe:
  assumes "bm_rivals_ok (benv w)" "bm_ok (bdb w)" "bm_runCycle w = (r, w')"
  shows "reaches bm_step (bdb w) (bdb w') \<and> bm_ok (bdb w') \<and>
     (\<forall>(k, b) \<in> set (blockDB (bm_local (bdb w'))). b_unlocked b \<longrightarrow> b_valid b \<longrightarrow> b_hash b \<in> paid_hexes (bdb w'))"
proof -
  have "bm_safe w w'" using tripleD2 [OF bs.keeps_bm_runCycle bm_safe_refl [OF assms(1,2)] assms(3)] .
  moreover from this have "bm_ok (bdb w')" by (rule bm_safe_ok)
  ultimately show ?thesis by (auto simp: bm_safe_def bm_ok_def local_ok_def main_settled_def)
qed

theorem bm_cycle_safe_witness:
  "bm_ok (bdb (snd (bm_runCycle ex_bm_world))) \<and> reaches bm_step ex_bm_db (bdb (snd (bm_runCycle ex_bm_world)))"
  using bm_cycle_safe [of ex_bm_world "fst (bm_runCycle ex_bm_world)" "snd (bm_runCycle ex_bm_world)"] ex_bm_rivals ex_bm_ok
  by simp

text \<open>
  C10. Once the credit transaction of a block has been committed, whatever steps follow,
  the block is in the table of paid blocks exactly once, every further attempt to credit
  it is refused, and the funds of the pool have grown by exactly its credits and what the
  other steps have added.
\<close>

theorem paid_once:
  assumes "bm_ok d" "creditTransaction hex reward port t credits d = Inr d1" "distinct (map fst credits)"
    "accum bm_step c d1 d2"
  shows "length (filter (\<lambda>b. pb_hex b = hex) (paid_blocks d2)) = 1 \<and>
     creditTransaction hex reward' port' t' credits' d2 = Inl ''Duplicate entry for key paid_blocks_hex'' \<and>
     funds (bm_pay d2) = funds (bm_pay d) + sum_list (map snd credits) + c"
proof -
  have step: "bm_step (sum_list (map snd credits)) d d1" using assms(2,3) by (rule bm_step.payout)
  then have d1: "bm_ok d1" "funds (bm_pay d1) = funds (bm_pay d) + sum_list (map snd credits)"
    using bm_step_ok [OF assms(1)] by blast+
  have "hex \<in> paid_hexes d1" using assms(2) by (auto elim!: creditTransaction_Inr simp: paid_hexes_def)
  moreover have "reaches bm_step d1 d2" using assms(4) by (auto simp: reaches_def)
  ultimately have hex: "hex \<in> paid_hexes d2" using reaches_paid_hexes d1(1) by blast
  have ok2: "bm_ok d2" by (rule bm.run_ok [OF assms(4) d1(1)])
  have "length (filter (\<lambda>b. pb_hex b = hex) (paid_blocks d2)) = 1"
    using hex ok2 filter_key_once [of pb_hex "paid_blocks d2" hex] by (simp add: bm_ok_def paid_hexes_def)
  then show ?thesis using hex d1(2) bm.run_total [OF assms(4) d1(1)] by (simp add: creditTransaction_def)
qed

theorem paid_once_witness:
  "length (filter (\<lambda>b. pb_hex b = ''aa'') (paid_blocks ex_paid_db)) = 1 \<and>
   funds (bm_pay ex_paid_db) = funds ex_db + 512"
  using paid_once [OF ex_bm_ok ex_credit _ accum.none] by (simp add: ex_bm_db_def)

text \<open>
  The credit transaction is exact: it succeeds only when every credited balance
  exists, adds each credit to the balance it names, leaves every other balance and every
  other table of the payout subsystem alone, and records the block with its reward.
\<close>

theorem credit_effects:
  assumes "bm_ok d" "creditTransaction hex reward port t credits d = Inr d'" "distinct (map fst credits)"
  shows "map_of (balances (bm_pay d')) i =
       map_option (\<lambda>r. r\<lparr>bal_amount := bal_amount r + credit_of credits i\<rparr>) (map_of (balances (bm_pay d)) i) \<and>
     fst ` set credits \<subseteq> fst ` set (balances (bm_pay d)) \<and>
     bm_pay d' = (bm_pay d)\<lparr>balances := balances (bm_pay d')\<rparr> \<and>
     d' = d\<lparr>bm_pay := bm_pay d', paid_blocks := paid_blocks d @
              [\<lparr>pb_hex = hex, pb_amount = reward, pb_port = port, pb_found_time = t div 1000\<rparr>]\<rparr>"
proof -
  from assms(2) obtain n p where p: "applyBalanceCredits credits (bm_pay d) = Inr (n, p)"
    and d': "d' = d\<lparr>bm_pay := p, paid_blocks := paid_blocks d @ [\<lparr>pb_hex = hex, pb_amount = reward,
              pb_port = port, pb_found_time = t div 1000\<rparr>]\<rparr>" by (rule creditTransaction_Inr)
  have ok: "db_ok (bm_pay d)" using assms(1) by (simp add: bm_ok_def)
  have b: "p = (bm_pay d)\<lparr>balances := fold addCredit credits (balances (bm_pay d))\<rparr>"
    by (rule applyBalanceCredits_accum(2) [OF p assms(3) ok])
  show ?thesis
    using map_of_fold_addCredit [OF assms(3)] applyBalanceCredits_ids [OF p assms(3) ok] by (simp add: d' b)
qed

theorem credit_effects_witness:
  "map_option bal_amount (map_of (balances (bm_pay ex_paid_db)) 5) = Some 640 \<and>
   map pb_hex (paid_blocks ex_paid_db) = [''aa'']"
proof -
  have d: "distinct (map fst [(5 :: nat, 512 :: num)])" by simp
  note e = credit_effects [OF ex_bm_ok ex_credit d, of 5]
  from e have "paid_blocks ex_paid_db = paid_blocks (ex_bm_db\<lparr>bm_pay := bm_pay ex_paid_db, paid_blocks := paid_blocks ex_bm_db @
      [\<lparr>pb_hex = ''aa'', pb_amount = 512, pb_port = 18081, pb_found_time = 1000 div 1000\<rparr>]\<rparr>)" by metis
  moreover have "map_of (balances (bm_pay ex_bm_db)) 5 = Some ex_balance" by (simp add: ex_bm_db_def ex_db_def)
  ultimately show ?thesis using e by (simp add: ex_bm_db_def credit_of_def ex_balance_def)
qed

text \<open>
  C11. The block manager is a legitimate neighbour of the payout subsystem: every run of
  its steps is, on the tables the two share, a run of steps of the durable batch state
  machine that adds the same amount. So its cycles are covered by what the payout cycle
  assumes of other processes.
\<close>

theorem bm_refines_payments:
  assumes "accum bm_step c d d'" "bm_ok d"
  shows "accum db_step c (bm_pay d) (bm_pay d')"
  using assms
proof (induction rule: accum.induct)
  case (none s)
  show ?case by (rule accum.none)
next
  case (more c s s' c' s'')
  then have "bm_ok s'" using bm.run_ok by blast
  from accum_trans [OF bm_step_payments [OF more(2) this] more(3) [OF more(4)]] show ?case .
qed

theorem bm_refines_payments_witness:
  "accum db_step 512 ex_db (bm_pay ex_paid_db)"
proof -
  have "bm_step 512 ex_bm_db ex_paid_db" using bm_step.payout [OF ex_credit] by simp
  then have "accum bm_step 512 ex_bm_db ex_paid_db" by (rule accum_single)
  from bm_refines_payments [OF this ex_bm_ok] show ?thesis by (simp add: ex_bm_db_def)
qed

text \<open>
  A payout that reports success has committed: the block is in the table of paid
  blocks when \<open>doPPLNSPayments\<close> returns true, also when transactions fail or are not
  acknowledged and other processes credit balances meanwhile.
\<close>

theorem payout_reported_is_paid:
  assumes "bm_rivals_ok (benv w)" "bm_ok (bdb w)" "doPPLNSPayments hex reward port t w = (Inr True, w')"
  shows "hex \<in> paid_hexes (bdb w') \<and> reaches bm_step (bdb w) (bdb w')"
  using tripleD2 [OF bs.triple_doPPLNSPayments bm_safe_refl [OF assms(1,2)] assms(3)] by (simp add: bm_safe_def)

theorem payout_reported_is_paid_witness:
  "''aa'' \<in> paid_hexes (bdb (snd (doPPLNSPayments ''aa'' 512 18081 1000 ex_bm_world)))"
proof -
  have "doPPLNSPayments ''aa'' 512 18081 1000 ex_bm_world =
      (Inr True, snd (doPPLNSPayments ''aa'' 512 18081 1000 ex_bm_world))"
    using ex_payout by (metis prod.collapse)
  then show ?thesis using payout_reported_is_paid ex_bm_rivals ex_bm_ok ex_bm_world_sel by metis
qed

text \<open>
  C12. An orphan is never paid: when handling a locked main block adds to the table of
  paid blocks, and other processes leave that table alone, the block is deeper than both
  the confirmation delay and the configured depth, its weights are ready, the daemon's
  header at its height has its hash, and the daemon's header for its hash has its height,
  reward and difficulty.
\<close>

theorem orphan_never_paid:
  assumes "payless (benv w) (paid_blocks (bdb w)) w" "unlockMain topH (k, block) w = (r, w')"
    "paid_blocks (bdb w') \<noteq> paid_blocks (bdb w)"
  defines "byHeight \<equiv> coin_answer (benv w) (bawaits w + 1) (getBlockHeaderByID (int k))"
    and "byHash \<equiv> coin_answer (benv w) (bawaits w + 2) (getBlockHeaderByHash (b_hash block))"
  shows "BLOCK_HASH_CONFIRM_DELAY < topH - int k \<and> blocksRequired (bm_cfg (benv w)) < of_int (topH - int k) \<and>
     b_pay_ready block = Some True \<and> reply_error byHeight = JNull \<and>
     getf (reply_body byHeight) ''hash'' = JStr (b_hash block) \<and> reply_error byHash = JNull \<and>
     (\<exists>v. b_value block = Some v \<and> mainHeaderMatches (int k) block v (reply_body byHash))"
proof (rule ccontr)
  let ?I = "payless (benv w) (paid_blocks (bdb w))"
  let ?call = "bm_await w" let ?call2 = "bm_await (bm_await w)"
  assume no: "\<not> ?thesis"
  have I1: "?I ?call" by (rule pl.inv_await [OF assms(1)])
  have I2: "?I ?call2" by (rule pl.inv_await [OF I1])
  have sel: "benv ?call = benv w" "bawaits ?call = bawaits w + 1" "benv ?call2 = benv w" "bawaits ?call2 = bawaits w + 2"
    by (simp_all add: bm_await_def)
  have inval: "?I (snd (onLocal (invalidateBlock k) ?call))" by (rule tripleD [OF pl.keeps_invalidate(1) I1])
  have ready: "?I (snd (preCalculateAndMark [b_hash block] (int k) (b_difficulty block) (payReadyBlock (b_hash block)) ?call))"
    by (rule tripleD [OF pl.keeps_preCalculateAndMark I1]) (rule local_ok_ready)
  have "?I w'"
  proof (cases "topH - int k \<le> BLOCK_HASH_CONFIRM_DELAY \<or> b_poolType block \<noteq> PPLNS")
    case True
    then show ?thesis using assms(1,2) by (simp add: unlockMain_def prog_defs)
  next
    case deep: False
    have u: "unlockMain topH (k, block) w =
       (if reply_error byHeight \<noteq> JNull then (Inr (), ?call)
        else if \<not> truthy (reply_body byHeight) \<or> getf (reply_body byHeight) ''hash'' \<noteq> JStr (b_hash block)
        then onLocal (invalidateBlock k) ?call
        else if b_pay_ready block \<noteq> Some True
        then preCalculateAndMark [b_hash block] (int k) (b_difficulty block) (payReadyBlock (b_hash block)) ?call
        else if blocksRequired (bm_cfg (benv w)) < of_int (topH - int k)
        then andThen (payMainBlock (int k) block) (\<lambda>_. ret ()) ?call else (Inr (), ?call))"
      using deep by (simp add: unlockMain_def Let_def callCoin_def prog_defs byHeight_def sel)
    show ?thesis
    proof (cases "reply_error byHeight = JNull \<and> truthy (reply_body byHeight) \<and>
        getf (reply_body byHeight) ''hash'' = JStr (b_hash block) \<and> b_pay_ready block = Some True \<and>
        blocksRequired (bm_cfg (benv w)) < of_int (topH - int k)")
      case False
      then have "w' = ?call \<or> w' = snd (onLocal (invalidateBlock k) ?call) \<or>
          w' = snd (preCalculateAndMark [b_hash block] (int k) (b_difficulty block) (payReadyBlock (b_hash block)) ?call)"
        using assms(2) unfolding u by (auto split: if_splits)
      then show ?thesis using I1 inval ready by metis
    next
      case True
      have "b_value block = None \<or> (\<exists>v. b_value block = Some v \<and> \<not> (reply_error byHash = JNull \<and>
          mainHeaderMatches (int k) block v (reply_body byHash)))"
        using no deep True by (cases "b_value block") auto
      then have "w' = ?call \<or> w' = ?call2"
        using assms(2) True unfolding u
        by (auto simp: payMainBlock_def payCheckedBlock_def callCoin_def prog_defs byHash_def sel split: if_splits)
      then show ?thesis using I1 I2 by metis
    qed
  qed
  then show False using assms(3) by (simp add: payless_def)
qed

theorem orphan_never_paid_witness:
  "payless ex_bm_env [] ex_bm_world \<and> b_pay_ready ex_block = Some True \<and>
   (\<exists>v. b_value ex_block = Some v \<and> mainHeaderMatches 100 ex_block v ex_header)"
proof -
  have u: "unlockMain 200 (100, ex_block) ex_bm_world =
      (fst (unlockMain 200 (100, ex_block) ex_bm_world), snd (unlockMain 200 (100, ex_block) ex_bm_world))" by simp
  have b: "ex_bm_db\<lparr>paid_blocks := []\<rparr> = ex_bm_db" "paid_blocks ex_bm_db = []" by (simp_all add: ex_bm_db_def)
  have "payless (benv ex_bm_world) (paid_blocks (bdb ex_bm_world)) ex_bm_world" using ex_bm_quiet b by simp
  moreover have "paid_blocks (bdb (snd (unlockMain 200 (100, ex_block) ex_bm_world))) \<noteq> paid_blocks (bdb ex_bm_world)"
    using ex_unlock b by (auto simp del: ex_bm_world_sel) (metis ex_bm_world_sel(2) list.simps(8) not_Cons_self2)
  ultimately show ?thesis using orphan_never_paid [OF _ u] ex_bm_quiet by (simp add: ex_bm_env_def ex_coin_def)
qed

text \<open>
  Full stop is a latch: while it is set, or while a payout is under way, a cycle asks
  the daemons nothing, writes nothing and returns without an error.
\<close>

theorem full_stop_latch:
  assumes "isFullStop' w \<or> paymentInProgress w"
  shows "bm_runCycle w = (Inr (), w)"
  using assms by (auto simp: bm_runCycle_def runBlockUnlocker_def runAltblockUnlocker_def canRun_def prog_defs)

theorem full_stop_latch_witness:
  "bm_runCycle (ex_bm_world\<lparr>isFullStop' := True\<rparr>) = (Inr (), ex_bm_world\<lparr>isFullStop' := True\<rparr>)"
  using full_stop_latch [of "ex_bm_world\<lparr>isFullStop' := True\<rparr>"] by simp

text \<open>
  A credit reaches its own account: the id that \<open>getOrCreateBalanceId\<close> returns, from
  the cache, the table or a new row, is the id of a row with the credit's address, its
  normalized payment id and its pool type, also when another process inserts the row in
  between. Addresses and pool types do not contain the separator of the cache keys.
\<close>

theorem balance_id_of_account:
  assumes "bm_rivals_ok (benv w)" "bm_ok (bdb w)" "cache_ok w" "plain (cr_address p)" "plain (cr_pool_type p)"
    "getOrCreateBalanceId p w = (Inr i, w')"
  shows "account_of (bm_pay (bdb w')) i =
     Some (cr_address p, bm_normalizePaymentId (cr_payment_id p), cr_pool_type p) \<and> cache_ok w'"
proof -
  have "cached w w" using bm_safe_refl [OF assms(1,2)] assms(3) by (simp add: cached_def)
  from tripleD2 [OF triple_getOrCreateBalanceId [OF assms(4,5)] this assms(6)] show ?thesis by (simp add: cached_def)
qed

theorem balance_id_of_account_witness:
  "\<exists>i w'. getOrCreateBalanceId \<lparr>cr_pool_type = ''pplns'', cr_address = ''bob'', cr_payment_id = None, cr_amount = 1\<rparr> ex_bm_world =
     (Inr i, w') \<and> account_of (bm_pay (bdb w')) i = Some (''bob'', None, ''pplns'')"
proof -
  let ?p = "\<lparr>cr_pool_type = ''pplns'', cr_address = ''bob'', cr_payment_id = None, cr_amount = 1\<rparr>"
  have "fst (getOrCreateBalanceId ?p ex_bm_world) = Inr 6" by code_simp
  then obtain w' where w': "getOrCreateBalanceId ?p ex_bm_world = (Inr 6, w')" by (metis prod.collapse)
  have "cache_ok ex_bm_world" by (simp add: cache_ok_def)
  with balance_id_of_account [OF _ _ _ _ _ w'] ex_bm_rivals ex_bm_ok w' show ?thesis
    by (auto simp: plain_def bm_normalizePaymentId_def)
qed

end
