(* ===== verification/Rate_Limit.thy ===== *)
theory Rate_Limit
  imports Pplns_Bounds
begin

text \<open>
  \<open>src/lib/pool/security.js\<close>: address forms, the security settings and the token buckets
  that limit logins, submits and keepalives. A JavaScript \<open>Map\<close> iterates in the order of
  insertion and is a list of entries here; setting an existing key keeps its place.
\<close>

subsection \<open>Addresses\<close>

definition starts_with :: "string \<Rightarrow> string \<Rightarrow> bool" where
  "starts_with p s \<longleftrightarrow> take (length p) s = p"

definition normalizeRemoteAddress :: "jsval \<Rightarrow> string" where
  "normalizeRemoteAddress ip =
     (case ip of
        JStr s \<Rightarrow>
          (let n = js_toLowerCase s
           in if starts_with ''::ffff:'' n then drop 7 n else if n = ''::1'' then ''127.0.0.1'' else n)
      | _ \<Rightarrow> [])"

definition isLoopbackAddress :: "jsval \<Rightarrow> bool" where
  "isLoopbackAddress ip \<longleftrightarrow> normalizeRemoteAddress ip = ''127.0.0.1''"

fun split_on :: "char \<Rightarrow> string \<Rightarrow> string list" where
  "split_on c [] = [[]]"
| "split_on c (x # xs) =
     (if x = c then [] # split_on c xs
      else (case split_on c xs of [] \<Rightarrow> [[x]] | p # ps \<Rightarrow> (x # p) # ps))"

text \<open>The expression \<open>/^\d{1,3}(?:\.\d{1,3}){3}$/\<close>.\<close>

definition is_ipv4 :: "string \<Rightarrow> bool" where
  "is_ipv4 s \<longleftrightarrow> length (split_on CHR ''.'' s) = 4 \<and>
     list_all (\<lambda>p. list_all is_digit p \<and> 1 \<le> length p \<and> length p \<le> 3) (split_on CHR ''.'' s)"

definition getSubnet24 :: "jsval \<Rightarrow> string" where
  "getSubnet24 ip =
     (let n = normalizeRemoteAddress ip; parts = split_on CHR ''.'' n
      in if is_ipv4 n then parts ! 0 @ ''.'' @ parts ! 1 @ ''.'' @ parts ! 2 @ ''.0/24'' else n)"

subsection \<open>Settings\<close>

definition getPoolNumber :: "(string \<Rightarrow> jsval) \<Rightarrow> string \<Rightarrow> num \<Rightarrow> num" where
  "getPoolNumber pool key fallback = (case pool key of JNum x \<Rightarrow> x | _ \<Rightarrow> fallback)"

record security_config =
  socketAuthTimeoutMs :: num
  tlsHandshakeTimeoutMs :: num
  minerFirstShareTimeoutMs :: num
  maxConnectionsPerIP :: num
  maxConnectionsPerSubnet :: num
  loginRateLimitPerSecond :: num
  loginRateLimitBurst :: num
  loginRateLimitLoopbackPerSecond :: num
  loginRateLimitLoopbackBurst :: num
  submitRateLimitPerSecond :: num
  submitRateLimitBurst :: num
  keepaliveRateLimitPerSecond :: num
  keepaliveRateLimitBurst :: num
  jobRequestRateLimitPerSecond :: num
  jobRequestRateLimitBurst :: num
  rpcRateLimitBucketIdleMs :: num
  rpcRateLimitBucketMaxEntries :: num
  protocolErrorLimit :: num
  invalidJobIdLimitBeforeShare :: num

definition getPoolSecurityConfig :: "(string \<Rightarrow> jsval) \<Rightarrow> security_config" where
  "getPoolSecurityConfig pool =
     (let socketAuth = fl (getPoolNumber pool ''socketAuthTimeout'' 15 * 1000)
      in \<lparr>socketAuthTimeoutMs = socketAuth,
          tlsHandshakeTimeoutMs = max 1000 (min socketAuth (30 * 1000)),
          minerFirstShareTimeoutMs = fl (getPoolNumber pool ''minerFirstShareTimeout'' 600 * 1000),
          maxConnectionsPerIP = getPoolNumber pool ''maxConnectionsPerIP'' 256,
          maxConnectionsPerSubnet = getPoolNumber pool ''maxConnectionsPerSubnet'' 1024,
          loginRateLimitPerSecond = getPoolNumber pool ''loginRateLimitPerSecond'' 5,
          loginRateLimitBurst = getPoolNumber pool ''loginRateLimitBurst'' 100,
          loginRateLimitLoopbackPerSecond = getPoolNumber pool ''loginRateLimitLoopbackPerSecond'' 100,
          loginRateLimitLoopbackBurst = getPoolNumber pool ''loginRateLimitLoopbackBurst'' 2000,
          submitRateLimitPerSecond = getPoolNumber pool ''submitRateLimitPerSecond'' 250,
          submitRateLimitBurst = getPoolNumber pool ''submitRateLimitBurst'' 5000,
          keepaliveRateLimitPerSecond = getPoolNumber pool ''keepaliveRateLimitPerSecond'' 2,
          keepaliveRateLimitBurst = getPoolNumber pool ''keepaliveRateLimitBurst'' 20,
          jobRequestRateLimitPerSecond = getPoolNumber pool ''jobRequestRateLimitPerSecond'' 5,
          jobRequestRateLimitBurst = getPoolNumber pool ''jobRequestRateLimitBurst'' 20,
          rpcRateLimitBucketIdleMs = fl (getPoolNumber pool ''rpcRateLimitBucketIdle'' (10 * 60) * 1000),
          rpcRateLimitBucketMaxEntries = getPoolNumber pool ''rpcRateLimitBucketMaxEntries'' 20000,
          protocolErrorLimit = getPoolNumber pool ''protocolErrorLimit'' 4,
          invalidJobIdLimitBeforeShare = getPoolNumber pool ''invalidJobIdLimitBeforeShare'' 4\<rparr>)"

subsection \<open>Buckets\<close>

record rate_bucket =
  tokens :: num
  lastRefillAt :: num

type_synonym rate_buckets = "(string \<times> rate_bucket) list"

definition expired :: "security_config \<Rightarrow> num \<Rightarrow> rate_bucket \<Rightarrow> bool" where
  "expired cfg now b \<longleftrightarrow> rpcRateLimitBucketIdleMs cfg < fl (now - lastRefillAt b)"

fun pruneRateBuckets :: "security_config \<Rightarrow> num \<Rightarrow> rate_buckets \<Rightarrow> rate_buckets" where
  "pruneRateBuckets cfg now [] = []"
| "pruneRateBuckets cfg now ((k, b) # rest) =
     (if \<not> expired cfg now b \<and> of_nat (length ((k, b) # rest)) \<le> rpcRateLimitBucketMaxEntries cfg
      then (k, b) # rest else pruneRateBuckets cfg now rest)"

definition refill :: "num \<Rightarrow> num \<Rightarrow> num \<Rightarrow> rate_bucket \<Rightarrow> rate_bucket" where
  "refill perSecond burst now b =
     (let elapsedSeconds = max 0 (fl (fl (now - lastRefillAt b) / 1000))
      in \<lparr>tokens = min burst (fl (tokens b + fl (elapsedSeconds * perSecond))), lastRefillAt = now\<rparr>)"

text \<open>A bucket that was just created may itself be evicted; the token is then taken from the object only.\<close>

definition takeToken :: "string \<Rightarrow> rate_bucket \<Rightarrow> rate_buckets \<Rightarrow> bool \<times> rate_buckets" where
  "takeToken key b buckets =
     (if tokens b < 1 then (False, buckets)
      else (True, map (\<lambda>(k, x). (k, if k = key then b\<lparr>tokens := fl (tokens b - 1)\<rparr> else x)) buckets))"

definition consumeRateLimitToken ::
  "rate_buckets \<Rightarrow> string \<Rightarrow> num \<Rightarrow> num \<Rightarrow> num \<Rightarrow> security_config \<Rightarrow> bool \<times> rate_buckets" where
  "consumeRateLimitToken buckets key perSecond burst now cfg =
     (if perSecond \<le> 0 \<or> burst \<le> 0 then (True, buckets)
      else (case map_of buckets key of
              None \<Rightarrow>
                let b = \<lparr>tokens = burst, lastRefillAt = now\<rparr>;
                    added = buckets @ [(key, b)]
                in takeToken key b
                     (if rpcRateLimitBucketMaxEntries cfg < of_nat (length added)
                      then pruneRateBuckets cfg now added else added)
            | Some b0 \<Rightarrow>
                let b = refill perSecond burst now b0
                in takeToken key b (AList.delete key buckets @ [(key, b)])))"

subsection \<open>The limits of the pool\<close>

text \<open>
  \<open>consumeRpcRateLimit\<close> and \<open>consumePreShareRateLimit\<close> of \<open>src/lib/pool/protocol.js\<close>: all
  limits share the one map \<open>state.rpcRateBuckets\<close>, each key with the rate and the burst of its
  method. A miner is the value of its \<open>hasSubmittedValidShare\<close>, if there is one.
\<close>

definition getRateLimitConfig :: "security_config \<Rightarrow> string \<Rightarrow> (num \<times> num) option" where
  "getRateLimitConfig cfg rateMethod =
     (if rateMethod = ''login'' then Some (loginRateLimitPerSecond cfg, loginRateLimitBurst cfg)
      else if rateMethod = ''submit'' then Some (submitRateLimitPerSecond cfg, submitRateLimitBurst cfg)
      else if rateMethod = ''keepalive'' then Some (keepaliveRateLimitPerSecond cfg, keepaliveRateLimitBurst cfg)
      else None)"

definition consumeRpcRateLimit ::
  "security_config \<Rightarrow> string \<Rightarrow> jsval \<Rightarrow> num \<Rightarrow> rate_buckets \<Rightarrow> bool \<times> rate_buckets" where
  "consumeRpcRateLimit cfg rateMethod ip now buckets =
     (case getRateLimitConfig cfg rateMethod of
        None \<Rightarrow> (True, buckets)
      | Some (ratePerSecond, burst) \<Rightarrow>
          let normalizedIp = normalizeRemoteAddress ip;
              loopbackLogin = (rateMethod = ''login'' \<and> isLoopbackAddress (JStr normalizedIp))
          in consumeRateLimitToken buckets (rateMethod @ '':'' @ normalizedIp)
               (if loopbackLogin then loginRateLimitLoopbackPerSecond cfg else ratePerSecond)
               (if loopbackLogin then loginRateLimitLoopbackBurst cfg else burst) now cfg)"

definition consumePreShareRateLimit ::
  "security_config \<Rightarrow> string \<Rightarrow> bool option \<Rightarrow> jsval \<Rightarrow> num \<Rightarrow> rate_buckets \<Rightarrow> bool \<times> rate_buckets" where
  "consumePreShareRateLimit cfg rateMethod miner ip now buckets =
     (if miner \<noteq> Some False then (True, buckets)
      else if rateMethod = ''job-request''
      then consumeRateLimitToken buckets (rateMethod @ '':'' @ normalizeRemoteAddress ip)
             (jobRequestRateLimitPerSecond cfg) (jobRequestRateLimitBurst cfg) now cfg
      else (True, buckets))"

definition getMinerSessionActivity :: "(num option \<times> num option \<times> num option) option \<Rightarrow> num" where
  "getMinerSessionActivity miner =
     (case miner of
        None \<Rightarrow> 0
      | Some (lastProtocolActivity, lastValidShareTimeMs, lastContact) \<Rightarrow>
          let v = (\<lambda>x. case x of Some y \<Rightarrow> y | None \<Rightarrow> 0)
          in max (max (v lastProtocolActivity) (v lastValidShareTimeMs)) (v lastContact))"

subsection \<open>One bucket\<close>

definition bucket_ok :: "num \<Rightarrow> rate_bucket \<Rightarrow> bool" where
  "bucket_ok burst b \<longleftrightarrow> 0 \<le> tokens b \<and> tokens b \<le> burst \<and> fl (tokens b) = tokens b"

lemma refill_ok: "bucket_ok burst b \<Longrightarrow> 0 < perSecond \<Longrightarrow> 0 < burst \<Longrightarrow> fl burst = burst \<Longrightarrow> bucket_ok burst (refill perSecond burst now b)"
  by (auto simp: bucket_ok_def refill_def Let_def min_def intro!: add_nonneg_nonneg mult_nonneg_nonneg)

lemma bucket_ok_take: "bucket_ok burst b \<Longrightarrow> 1 \<le> tokens b \<Longrightarrow> bucket_ok burst (b\<lparr>tokens := fl (tokens b - 1)\<rparr>)"
  using fl_mono [of "tokens b - 1" "tokens b"] by (auto simp: bucket_ok_def)

text \<open>The tokens a key can count on at a time, in exact arithmetic.\<close>

definition credit_at :: "num \<Rightarrow> num \<Rightarrow> string \<Rightarrow> num \<Rightarrow> rate_buckets \<Rightarrow> num" where
  "credit_at perSecond burst key t bs =
     (case map_of bs key of Some b \<Rightarrow> tokens b + perSecond * (t - lastRefillAt b) / 1000 | None \<Rightarrow> burst)"

lemma fl_le_rel:
  assumes "0 \<le> x"
  shows "fl x \<le> x + x / 2 ^ 53"
proof -
  have "\<bar>fl x - x\<bar> \<le> x / 2 ^ 53" using assms by (intro fl_err) simp
  then show ?thesis by linarith
qed

lemma refill_bound:
  assumes b: "bucket_ok burst b" and r: "0 < r" "0 < burst" and t: "lastRefillAt b \<le> now"
  shows "tokens (refill r burst now b) \<le> tokens b + r * (now - lastRefillAt b) / 1000 + burst / 2 ^ 50"
proof -
  define D where "D = now - lastRefillAt b"
  define y where "y = r * D / 1000"
  have D0: "0 \<le> D" using t by (simp add: D_def)
  have y0: "0 \<le> y" using D0 r by (simp add: y_def)
  have bt: "0 \<le> tokens b" "tokens b \<le> burst" using b by (auto simp: bucket_ok_def)
  let ?T = "tokens (refill r burst now b)"
  show ?thesis
  proof (cases "y \<le> burst")
    case False
    have "?T \<le> burst" by (simp add: refill_def Let_def)
    moreover have "0 \<le> burst / 2 ^ 50" using r by simp
    ultimately show ?thesis using False bt unfolding D_def [symmetric] y_def [symmetric] by linarith
  next
    case True
    define e where "e = fl (fl D / 1000)"
    have e0: "0 \<le> e" using D0 by (simp add: e_def)
    define q A where "q = fl D / 1000" and "A = (D + D / 2 ^ 53) / 1000"
    have "q \<le> A" using fl_le_rel [OF D0] unfolding q_def A_def by (intro divide_right_mono) auto
    then have "q + q / 2 ^ 53 \<le> A + A / 2 ^ 53" by (intro add_mono divide_right_mono) auto
    moreover have "e \<le> q + q / 2 ^ 53" unfolding e_def q_def by (rule fl_le_rel) (use D0 in simp)
    ultimately have e1: "e \<le> (D + D / 2 ^ 53) / 1000 + (D + D / 2 ^ 53) / 1000 / 2 ^ 53"
      unfolding A_def by linarith
    have "(D + D / 2 ^ 53) / 1000 + (D + D / 2 ^ 53) / 1000 / 2 ^ 53 \<le> D / 1000 + 3 * (D / 1000) / 2 ^ 53"
      using D0 by (simp add: field_simps)
    with e1 have "e * r \<le> (D / 1000 + 3 * (D / 1000) / 2 ^ 53) * r" using r by (intro mult_right_mono) linarith+
    also have "\<dots> = y + 3 * y / 2 ^ 53" by (simp add: y_def field_simps)
    finally have er: "e * r \<le> y + 3 * y / 2 ^ 53" .
    have "fl (e * r) \<le> e * r + e * r / 2 ^ 53" by (rule fl_le_rel) (use e0 r in simp)
    then have x: "fl (e * r) \<le> y + 5 * y / 2 ^ 53" using er y0 by (simp add: field_simps)
    have x0: "0 \<le> fl (e * r)" using e0 r by simp
    have "fl (tokens b + fl (e * r)) \<le> tokens b + fl (e * r) + (tokens b + fl (e * r)) / 2 ^ 53"
      by (rule fl_le_rel) (use bt x0 in simp)
    moreover have "?T \<le> fl (tokens b + fl (e * r))" using e0 by (simp add: refill_def Let_def e_def D_def)
    ultimately have "?T \<le> tokens b + y + burst / 2 ^ 50" using x True bt y0 by (simp add: field_simps)
    then show ?thesis by (simp add: y_def D_def)
  qed
qed

definition spent :: "bool \<Rightarrow> num" where
  "spent ok = (if ok then 1 else 0)"

definition slack :: "num \<Rightarrow> num" where
  "slack burst = burst / 2 ^ 49"

lemma map_of_take:
  "map_of (snd (takeToken key b bs)) k =
     (if k = key \<and> 1 \<le> tokens b then map_option (\<lambda>_. b\<lparr>tokens := fl (tokens b - 1)\<rparr>) (map_of bs k) else map_of bs k)"
proof (cases "tokens b < 1")
  case True
  then show ?thesis by (simp add: takeToken_def)
next
  case False
  have "map_of (map (\<lambda>(i, x). (i, if i = key then b' else x)) bs) k =
      (if k = key then map_option (\<lambda>_. b') (map_of bs k) else map_of bs k)" for b'
    by (induction bs) auto
  with False show ?thesis by (simp add: takeToken_def)
qed

lemma takeToken_bound:
  assumes "bucket_ok burst b" "0 < burst"
  shows "tokens (if 1 \<le> tokens b then b\<lparr>tokens := fl (tokens b - 1)\<rparr> else b) + spent (1 \<le> tokens b) \<le> tokens b + burst / 2 ^ 53"
proof (cases "1 \<le> tokens b")
  case True
  have "\<bar>fl (tokens b - 1) - (tokens b - 1)\<bar> \<le> burst / 2 ^ 53"
    by (rule fl_err) (use True assms in \<open>auto simp: bucket_ok_def\<close>)
  then have "fl (tokens b - 1) + 1 \<le> tokens b + burst / 2 ^ 53" by linarith
  then show ?thesis using True by (simp add: spent_def)
qed (use assms in \<open>simp add: spent_def\<close>)

subsection \<open>The map, as one key sees it\<close>

text \<open>
  The keys are distinct and come from a set that fits the map, so that nothing is evicted;
  the bucket of \<open>k\<close> was last filled by the time \<open>t\<close> and holds at most its burst. The other
  buckets may have any rate.
\<close>

definition map_ok :: "security_config \<Rightarrow> num \<Rightarrow> string \<Rightarrow> string set \<Rightarrow> num \<Rightarrow> rate_buckets \<Rightarrow> bool" where
  "map_ok cfg burst k K t bs \<longleftrightarrow> finite K \<and> of_nat (card K) \<le> rpcRateLimitBucketMaxEntries cfg \<and>
     distinct (map fst bs) \<and> fst ` set bs \<subseteq> K \<and>
     (\<forall>b. map_of bs k = Some b \<longrightarrow> bucket_ok burst b \<and> lastRefillAt b \<le> t)"

lemma map_ok_room:
  assumes "map_ok cfg burst k K t bs" "key \<in> K" "map_of bs key = None"
  shows "of_nat (Suc (length bs)) \<le> rpcRateLimitBucketMaxEntries cfg"
proof -
  have "insert key (fst ` set bs) \<subseteq> K" "finite K" "key \<notin> fst ` set bs"
    using assms by (auto simp: map_ok_def map_of_eq_None_iff)
  then have "Suc (card (fst ` set bs)) \<le> card K" by (metis card_insert_disjoint card_mono finite_imageI finite_set)
  moreover have "card (fst ` set bs) = length bs"
    using assms(1) by (metis distinct_card length_map list.set_map map_ok_def)
  ultimately have "(of_nat (Suc (length bs)) :: num) \<le> of_nat (card K)" by (intro of_nat_mono) simp
  with assms(1) show ?thesis by (simp add: map_ok_def)
qed

text \<open>What a request with a positive rate does to the map when nothing is evicted.\<close>

lemma consume_map:
  assumes ok: "map_ok cfg burst k K t bs" and key: "key \<in> K" and pos: "0 < r" "0 < burst'"
    and res: "consumeRateLimitToken bs key r burst' now cfg = (acc, bs')"
  defines "b \<equiv> case map_of bs key of None \<Rightarrow> \<lparr>tokens = burst', lastRefillAt = now\<rparr> | Some b0 \<Rightarrow> refill r burst' now b0"
  shows "acc = (1 \<le> tokens b)"
    and "map_of bs' j = (if j = key then Some (if acc then b\<lparr>tokens := fl (tokens b - 1)\<rparr> else b) else map_of bs j)"
    and "distinct (map fst bs')" "fst ` set bs' \<subseteq> K"
proof -
  define bs1 where "bs1 = (case map_of bs key of None \<Rightarrow> bs @ [(key, b)] | Some b0 \<Rightarrow> AList.delete key bs @ [(key, b)])"
  have dist: "distinct (map fst bs)" and sub: "fst ` set bs \<subseteq> K" using ok by (simp_all add: map_ok_def)
  have run: "takeToken key b bs1 = (acc, bs')"
  proof (cases "map_of bs key")
    case None
    have "\<not> rpcRateLimitBucketMaxEntries cfg < of_nat (length (bs @ [(key, b)]))"
      using map_ok_room [OF ok key None] by simp
    with None res pos show ?thesis by (simp add: consumeRateLimitToken_def b_def bs1_def Let_def)
  next
    case (Some b0)
    with res pos show ?thesis by (simp add: consumeRateLimitToken_def b_def bs1_def Let_def)
  qed
  show acc: "acc = (1 \<le> tokens b)" using run by (auto simp: takeToken_def split: if_splits)
  have m1: "map_of bs1 i = (if i = key then Some b else map_of bs i)" for i
    by (auto simp: bs1_def map_add_def AList.delete_conv' split: option.split)
  show "map_of bs' j = (if j = key then Some (if acc then b\<lparr>tokens := fl (tokens b - 1)\<rparr> else b) else map_of bs j)"
    using map_of_take [of key b bs1 j] run m1 acc by simp
  have keys: "map fst bs' = map fst bs1"
    using run by (auto simp: takeToken_def comp_def case_prod_unfold split: if_splits)
  have "distinct (map fst bs1)"
    using dist by (auto simp: bs1_def AList.delete_eq map_of_eq_None_iff intro: distinct_map_filter_sub split: option.split)
  with keys show "distinct (map fst bs')" by simp
  have "fst ` set bs1 \<subseteq> K" using sub key by (auto simp: bs1_def AList.delete_eq split: option.split)
  with keys show "fst ` set bs' \<subseteq> K" by (metis list.set_map)
qed

lemma consume_other:
  assumes ok: "map_ok cfg burst k K t bs" "t \<le> t'" and key: "key \<in> K" "key \<noteq> k"
    and res: "consumeRateLimitToken bs key r burst' now cfg = (acc, bs')"
  shows "map_ok cfg burst k K t' bs' \<and> map_of bs' k = map_of bs k"
proof (cases "0 < r \<and> 0 < burst'")
  case True
  then have pos: "0 < r" "0 < burst'" by auto
  note m = consume_map [OF ok(1) key(1) pos res]
  have "map_of bs' k = map_of bs k" using m(2) [of k] key(2) by simp
  with m(3,4) ok show ?thesis by (auto simp: map_ok_def)
next
  case False
  with res ok show ?thesis by (auto simp: consumeRateLimitToken_def map_ok_def split: if_splits)
qed

text \<open>A request with the key spends what it takes out of the key's credit.\<close>

lemma consume_credit:
  assumes ok: "map_ok cfg burst k K t bs" and fb: "fl burst = burst" and pos: "0 < r" "0 < burst"
    and k: "k \<in> K" and now: "t \<le> now" and res: "consumeRateLimitToken bs k r burst now cfg = (acc, bs')"
  shows "spent acc + credit_at r burst k now bs' \<le> credit_at r burst k now bs + slack burst"
    and "map_ok cfg burst k K now bs'"
proof -
  define b where "b = (case map_of bs k of None \<Rightarrow> \<lparr>tokens = burst, lastRefillAt = now\<rparr> | Some b0 \<Rightarrow> refill r burst now b0)"
  note m = consume_map [OF ok k pos res, folded b_def]
  let ?b' = "if acc then b\<lparr>tokens := fl (tokens b - 1)\<rparr> else b"
  have m': "map_of bs' k = Some ?b'" using m(2) [of k] by simp
  have old: "bucket_ok burst b0 \<and> lastRefillAt b0 \<le> now" if "map_of bs k = Some b0" for b0
    using ok now that by (auto simp: map_ok_def)
  have bok: "bucket_ok burst b"
    using pos fb old refill_ok [OF _ pos fb] by (auto simp: b_def bucket_ok_def split: option.split)
  have last_b: "lastRefillAt b = now" by (auto simp: b_def refill_def Let_def split: option.split)
  have "bucket_ok burst ?b'" using bok m(1) bucket_ok_take by auto
  then show "map_ok cfg burst k K now bs'" using ok m(3,4) m' last_b by (auto simp: map_ok_def)
  have "credit_at r burst k now bs' = tokens ?b'" using m' last_b by (simp add: credit_at_def)
  then have "spent acc + credit_at r burst k now bs' \<le> tokens b + burst / 2 ^ 53"
    using takeToken_bound [OF bok pos(2)] m(1) by simp
  also have "tokens b \<le> credit_at r burst k now bs + burst / 2 ^ 50"
  proof (cases "map_of bs k")
    case None
    then show ?thesis using pos by (simp add: b_def credit_at_def)
  next
    case (Some b0)
    with old refill_bound [OF _ pos, of b0 now] show ?thesis by (simp add: b_def credit_at_def)
  qed
  finally have "spent acc + credit_at r burst k now bs' \<le>
      credit_at r burst k now bs + burst / 2 ^ 50 + burst / 2 ^ 53" by simp
  moreover have "burst / 2 ^ 50 + burst / 2 ^ 53 \<le> slack burst" using pos by (simp add: slack_def)
  ultimately show "spent acc + credit_at r burst k now bs' \<le> credit_at r burst k now bs + slack burst" by linarith
qed

subsection \<open>A run of requests\<close>

datatype limited =
  Rpc_request string jsval num
| Pre_share_request string "bool option" jsval num

fun serve :: "security_config \<Rightarrow> limited \<Rightarrow> rate_buckets \<Rightarrow> bool \<times> rate_buckets" where
  "serve cfg (Rpc_request m ip now) = consumeRpcRateLimit cfg m ip now"
| "serve cfg (Pre_share_request m miner ip now) = consumePreShareRateLimit cfg m miner ip now"

fun request_time :: "limited \<Rightarrow> num" where
  "request_time (Rpc_request m ip now) = now"
| "request_time (Pre_share_request m miner ip now) = now"

text \<open>The key a request is charged to, with its rate and burst.\<close>

fun charged :: "security_config \<Rightarrow> limited \<Rightarrow> (string \<times> num \<times> num) option" where
  "charged cfg (Rpc_request m ip now) =
     map_option (\<lambda>(r, b).
       let a = normalizeRemoteAddress ip; l = (m = ''login'' \<and> isLoopbackAddress (JStr a))
       in (m @ '':'' @ a, if l then loginRateLimitLoopbackPerSecond cfg else r, if l then loginRateLimitLoopbackBurst cfg else b))
     (getRateLimitConfig cfg m)"
| "charged cfg (Pre_share_request m miner ip now) =
     (if miner = Some False \<and> m = ''job-request''
      then Some (m @ '':'' @ normalizeRemoteAddress ip, jobRequestRateLimitPerSecond cfg, jobRequestRateLimitBurst cfg)
      else None)"

definition charged_key :: "security_config \<Rightarrow> limited \<Rightarrow> string option" where
  "charged_key cfg q = map_option fst (charged cfg q)"

text \<open>How many of the requests charged to \<open>k\<close> are let through.\<close>

fun accepted :: "security_config \<Rightarrow> string \<Rightarrow> rate_buckets \<Rightarrow> limited list \<Rightarrow> nat" where
  "accepted cfg k bs [] = 0"
| "accepted cfg k bs (q # rest) =
     (case serve cfg q bs of
        (acc, bs') \<Rightarrow> (if acc \<and> charged_key cfg q = Some k then 1 else 0) + accepted cfg k bs' rest)"

lemma serve_charged:
  "serve cfg q bs =
     (case charged cfg q of
        None \<Rightarrow> (True, bs) | Some (k, r, b) \<Rightarrow> consumeRateLimitToken bs k r b (request_time q) cfg)"
  by (cases q) (auto simp: consumeRpcRateLimit_def consumePreShareRateLimit_def Let_def split: option.split)

lemma key_fixes_rate:
  assumes "charged cfg q = Some (k, r, b)" "charged cfg q' = Some (k, r', b')"
  shows "r' = r \<and> b' = b"
  using assms by (cases q; cases q') (auto simp: getRateLimitConfig_def Let_def split: if_splits)

lemma credit_at_later:
  assumes "t \<le> t'" "0 < r"
  shows "credit_at r burst k t' bs \<le> credit_at r burst k t bs + r * (t' - t) / 1000"
proof (cases "map_of bs k")
  case None
  then show ?thesis using assms by (simp add: credit_at_def)
next
  case (Some b)
  have "r * (t' - lastRefillAt b) / 1000 = r * (t - lastRefillAt b) / 1000 + r * (t' - t) / 1000"
    by (simp add: add_divide_distrib [symmetric] distrib_left [symmetric])
  with Some show ?thesis by (simp add: credit_at_def)
qed

lemma credit_at_nonneg:
  assumes "map_ok cfg burst k K t bs" "0 < r" "0 < burst"
  shows "0 \<le> credit_at r burst k t bs"
  using assms by (auto simp: credit_at_def map_ok_def bucket_ok_def split: option.split)

lemma accepted_bound:
  assumes rate: "\<And>q r' b'. charged cfg q = Some (k, r', b') \<Longrightarrow> r' = r \<and> b' = burst"
    and fb: "fl burst = burst" and pos: "0 < r" "0 < burst"
  shows "map_ok cfg burst k K t0 bs \<Longrightarrow> \<forall>q \<in> set reqs. charged_key cfg q \<in> insert None (Some ` K) \<Longrightarrow>
     sorted (t0 # map request_time reqs @ [t1]) \<Longrightarrow>
     of_nat (accepted cfg k bs reqs) \<le> credit_at r burst k t0 bs + r * (t1 - t0) / 1000 +
       of_nat (length (filter (\<lambda>q. charged_key cfg q = Some k) reqs)) * slack burst"
proof (induction reqs arbitrary: bs t0)
  case Nil
  have "0 \<le> credit_at r burst k t0 bs" using credit_at_nonneg Nil pos by blast
  moreover have "0 \<le> r * (t1 - t0) / 1000" using Nil.prems(3) pos by simp
  ultimately show ?case by simp
next
  case (Cons q reqs)
  obtain acc bs' where run: "serve cfg q bs = (acc, bs')" by force
  let ?now = "request_time q" let ?n = "of_nat (length (filter (\<lambda>q. charged_key cfg q = Some k) reqs)) :: num"
  have now: "t0 \<le> ?now" "sorted (?now # map request_time reqs @ [t1])" using Cons.prems(3) by auto
  have s0: "0 \<le> slack burst" using pos by (simp add: slack_def)
  have step: "map_ok cfg burst k K ?now bs' \<and>
      spent (acc \<and> charged_key cfg q = Some k) + credit_at r burst k ?now bs' \<le>
        credit_at r burst k ?now bs + (if charged_key cfg q = Some k then slack burst else 0)"
  proof (cases "charged cfg q")
    case None
    with run Cons.prems(1) now(1) show ?thesis
      by (auto simp: serve_charged charged_key_def spent_def map_ok_def)
  next
    case (Some c)
    obtain key r' b' where c: "c = (key, r', b')" by (cases c)
    have key: "key \<in> K" using Cons.prems(2) Some c by (auto simp: charged_key_def)
    have res: "consumeRateLimitToken bs key r' b' ?now cfg = (acc, bs')" using run Some c by (simp add: serve_charged)
    show ?thesis
    proof (cases "key = k")
      case True
      with rate Some c have "r' = r" "b' = burst" by blast+
      with True Some c key res consume_credit [OF Cons.prems(1) fb pos, of ?now acc bs'] now(1)
      show ?thesis by (simp add: charged_key_def)
    next
      case False
      with consume_other [OF Cons.prems(1) now(1) key _ res] Some c
      show ?thesis by (simp add: charged_key_def spent_def credit_at_def)
    qed
  qed
  have IH: "of_nat (accepted cfg k bs' reqs) \<le> credit_at r burst k ?now bs' + r * (t1 - ?now) / 1000 + ?n * slack burst"
    by (rule Cons.IH) (use step Cons.prems(2) now(2) in auto)
  have a: "of_nat (accepted cfg k bs (q # reqs)) = spent (acc \<and> charged_key cfg q = Some k) + of_nat (accepted cfg k bs' reqs)"
    by (simp add: run spent_def)
  have later: "credit_at r burst k ?now bs \<le> credit_at r burst k t0 bs + r * (?now - t0) / 1000"
    by (rule credit_at_later [OF now(1) pos(1)])
  have sp: "r * (t1 - t0) / 1000 = r * (?now - t0) / 1000 + r * (t1 - ?now) / 1000"
    by (simp add: add_divide_distrib [symmetric] distrib_left [symmetric])
  have len: "of_nat (length (filter (\<lambda>q. charged_key cfg q = Some k) (q # reqs))) * slack burst =
      (if charged_key cfg q = Some k then slack burst else 0) + ?n * slack burst"
    by (simp add: algebra_simps)
  show ?case using IH step later unfolding a sp len by linarith
qed

end
