(* ===== verification/Share_Store.thy ===== *)
theory Share_Store
  imports Local_Db
begin

text \<open>
  \<open>src/lib/remote_share/share_store.js\<close>: a batch of shares is checked, its statistics are
  merged into the cache, and the shares are put under their height, all in one write
  transaction. The protobuf codec and the order in which the store keeps the duplicates of
  a key are external: \<open>codec\<close> maps a share to what a reader will decode, and \<open>dup_put\<close>
  adds a value to the duplicates of a key.
\<close>

subsection \<open>Validation\<close>

definition isInteger :: "jsval \<Rightarrow> bool" where
  "isInteger v = (case v of JNum x \<Rightarrow> js_floor x = x | _ \<Rightarrow> False)"

definition int_between :: "int \<Rightarrow> int \<Rightarrow> jsval \<Rightarrow> bool" where
  "int_between lo hi v = (case v of JNum x \<Rightarrow> js_floor x = x \<and> of_int lo \<le> x \<and> x \<le> of_int hi | _ \<Rightarrow> False)"

definition isOptionalInteger :: "jsval \<Rightarrow> bool" where
  "isOptionalInteger v \<longleftrightarrow> v = JUndef \<or> isInteger v"

definition isBoolean :: "jsval \<Rightarrow> bool" where
  "isBoolean v = (case v of JBool _ \<Rightarrow> True | _ \<Rightarrow> False)"

definition isObject :: "jsval \<Rightarrow> bool" where
  "isObject v = (case v of JObj _ \<Rightarrow> True | JArr _ \<Rightarrow> True | JErr _ \<Rightarrow> True | _ \<Rightarrow> False)"

definition isStorableShare :: "jsval \<Rightarrow> bool" where
  "isStorableShare share \<longleftrightarrow> isObject share \<and>
     as_string (getf share ''paymentAddress'') \<noteq> None \<and>
     as_string (getf share ''identifier'') \<noteq> None \<and>
     int_between 0 3 (getf share ''poolType'') \<and>
     (case getf share ''raw_shares'' of JNum x \<Rightarrow> 0 \<le> x | _ \<Rightarrow> False) \<and>
     int_between 0 0xffffffff (getf share ''blockHeight'') \<and>
     isBoolean (getf share ''foundBlock'') \<and> isBoolean (getf share ''trustedShare'') \<and>
     int_between (- 0x80000000) 0x7fffffff (getf share ''poolID'') \<and>
     isInteger (getf share ''blockDiff'') \<and> isInteger (getf share ''timestamp'') \<and>
     (getf share ''paymentID'' = JUndef \<or> getf share ''paymentID'' = JNull \<or> as_string (getf share ''paymentID'') \<noteq> None) \<and>
     (getf share ''port'' = JUndef \<or> int_between (- 0x80000000) 0x7fffffff (getf share ''port'')) \<and>
     isOptionalInteger (getf share ''shares'') \<and> isOptionalInteger (getf share ''shares2'') \<and>
     isOptionalInteger (getf share ''share_num'')"

definition str_of :: "jsval \<Rightarrow> string" where
  "str_of v = (case v of JStr s \<Rightarrow> s | _ \<Rightarrow> [])"

definition num_of :: "jsval \<Rightarrow> num" where
  "num_of v = (case v of JNum x \<Rightarrow> x | _ \<Rightarrow> 0)"

definition getMinerId :: "jsval \<Rightarrow> string" where
  "getMinerId share =
     (case getf share ''paymentID'' of
        JStr p \<Rightarrow> if 10 < length p then str_of (getf share ''paymentAddress'') @ ''.'' @ p
                  else str_of (getf share ''paymentAddress'')
      | _ \<Rightarrow> str_of (getf share ''paymentAddress''))"

subsection \<open>Cache entries\<close>

text \<open>\<open>roundHashes\<close> is a number or \<open>false\<close>, which resets the counter.\<close>

datatype round_hashes = Round num | Round_false

record cache_entry =
  totalHashes :: "num option"
  goodShares :: "num option"
  roundHashes :: "round_hashes option"

type_synonym cache_updates = "(string \<times> cache_entry) list"

definition or_zero :: "num option \<Rightarrow> num" where
  "or_zero v = (case v of Some x \<Rightarrow> x | None \<Rightarrow> 0)"

definition stats_entry :: cache_entry where
  "stats_entry = \<lparr>totalHashes = Some 0, goodShares = None, roundHashes = Some (Round 0)\<rparr>"

definition miner_entry :: cache_entry where
  "miner_entry = \<lparr>totalHashes = Some 0, goodShares = Some 0, roundHashes = None\<rparr>"

definition ensureCacheEntry :: "string \<Rightarrow> cache_entry \<Rightarrow> cache_updates \<Rightarrow> cache_updates" where
  "ensureCacheEntry key created updates = (if map_of updates key \<noteq> None then updates else updates @ [(key, created)])"

definition on_entry :: "string \<Rightarrow> (cache_entry \<Rightarrow> cache_entry) \<Rightarrow> cache_updates \<Rightarrow> cache_updates" where
  "on_entry key f updates = map (\<lambda>(k, e). (k, if k = key then f e else e)) updates"

definition addTotalHashes :: "num \<Rightarrow> cache_entry \<Rightarrow> cache_entry" where
  "addTotalHashes v e = e\<lparr>totalHashes := Some (fl (or_zero (totalHashes e) + v))\<rparr>"

definition addRoundHashes :: "num \<Rightarrow> cache_entry \<Rightarrow> cache_entry" where
  "addRoundHashes v e =
     e\<lparr>roundHashes := Some (Round (fl ((case roundHashes e of Some (Round x) \<Rightarrow> x | _ \<Rightarrow> 0) + v)))\<rparr>"

definition addGoodShares :: "num \<Rightarrow> cache_entry \<Rightarrow> cache_entry" where
  "addGoodShares v e = e\<lparr>goodShares := Some (fl (or_zero (goodShares e) + v))\<rparr>"

definition statsTypeKey :: "jsval \<Rightarrow> string" where
  "statsTypeKey share = poolTypeStr (nat \<lfloor>num_of (getf share ''poolType'')\<rfloor>) @ ''_stats2''"

text \<open>The suffix of a share that was not found on the port of the main daemon.\<close>

definition portSuffix :: "int \<Rightarrow> jsval \<Rightarrow> string" where
  "portSuffix daemon share =
     (case getf share ''port'' of
        JNum p \<Rightarrow> if p \<noteq> of_int daemon then ''_'' @ js_num_to_string p else []
      | _ \<Rightarrow> [])"

definition applyShareCacheUpdates :: "int \<Rightarrow> int \<Rightarrow> jsval \<Rightarrow> cache_updates \<Rightarrow> cache_updates" where
  "applyShareCacheUpdates daemon defaultStatsPort share u0 =
     (let minerID = getMinerId share;
          minerWorkerID = minerID @ ''_'' @ str_of (getf share ''identifier'');
          shareNum = (if num_of (getf share ''share_num'') \<noteq> 0 then num_of (getf share ''share_num'') else 1);
          raw = num_of (getf share ''raw_shares'');
          typeKey = statsTypeKey share;
          u1 = ensureCacheEntry ''global_stats2'' stats_entry u0;
          u2 = ensureCacheEntry typeKey stats_entry
                 (ensureCacheEntry minerWorkerID miner_entry (ensureCacheEntry minerID miner_entry u1));
          main = (portSuffix daemon share = []);
          u3 = (if main
                then on_entry typeKey (addRoundHashes raw) (on_entry typeKey (addTotalHashes raw)
                       (on_entry ''global_stats2'' (addRoundHashes raw) (on_entry ''global_stats2'' (addTotalHashes raw) u2)))
                else u2);
          suffix = (if main then ''_'' @ js_num_to_string (of_int defaultStatsPort) else portSuffix daemon share);
          gp = ''global_stats2'' @ suffix; tp = typeKey @ suffix;
          u4 = ensureCacheEntry tp stats_entry (ensureCacheEntry gp stats_entry u3);
          u5 = on_entry gp (addRoundHashes raw) (on_entry gp (addTotalHashes raw) (on_entry ''global_stats2'' (addTotalHashes raw) u4));
          u6 = on_entry tp (addRoundHashes raw) (on_entry tp (addTotalHashes raw) (on_entry typeKey (addTotalHashes raw) u5))
      in on_entry minerWorkerID (addGoodShares shareNum) (on_entry minerWorkerID (addTotalHashes raw)
           (on_entry minerID (addGoodShares shareNum) (on_entry minerID (addTotalHashes raw) u6))))"

subsection \<open>Merging into the store\<close>

definition isCacheEntry :: "jsval \<Rightarrow> bool" where
  "isCacheEntry v \<longleftrightarrow> isObject v \<and>
     (let num_or_undef = (\<lambda>x. x = JUndef \<or> (case x of JNum _ \<Rightarrow> True | _ \<Rightarrow> False))
      in num_or_undef (getf v ''totalHashes'') \<and> num_or_undef (getf v ''goodShares'') \<and>
         (num_or_undef (getf v ''roundHashes'') \<or> getf v ''roundHashes'' = JBool False))"

definition put_field :: "string \<Rightarrow> num \<Rightarrow> jsval \<Rightarrow> jsval" where
  "put_field k x v = (case v of JObj fs \<Rightarrow> JObj (AList.update k (JNum x) fs) | _ \<Rightarrow> v)"

definition entry_json :: "cache_entry \<Rightarrow> jsval" where
  "entry_json e = JObj
     ((case totalHashes e of Some x \<Rightarrow> [(''totalHashes'', JNum x)] | None \<Rightarrow> []) @
      (case goodShares e of Some x \<Rightarrow> [(''goodShares'', JNum x)] | None \<Rightarrow> []) @
      (case roundHashes e of Some (Round x) \<Rightarrow> [(''roundHashes'', JNum x)]
                           | Some Round_false \<Rightarrow> [(''roundHashes'', JBool False)] | None \<Rightarrow> []))"

definition merged_entry :: "cache_entry \<Rightarrow> jsval \<Rightarrow> jsval" where
  "merged_entry next' cached =
     (let c1 = (case totalHashes next' of
                  Some x \<Rightarrow> put_field ''totalHashes'' (fl (num_of (getf cached ''totalHashes'') + x)) cached
                | None \<Rightarrow> cached);
          c2 = (case goodShares next' of
                  Some x \<Rightarrow> put_field ''goodShares'' (fl (num_of (getf c1 ''goodShares'') + x)) c1
                | None \<Rightarrow> c1)
      in case roundHashes next' of
           Some Round_false \<Rightarrow> put_field ''roundHashes'' 0 c2
         | Some (Round x) \<Rightarrow> put_field ''roundHashes'' (fl (num_of (getf c2 ''roundHashes'') + x)) c2
         | None \<Rightarrow> c2)"

definition mergeCacheEntry :: "string \<Rightarrow> cache_entry \<Rightarrow> local_db \<Rightarrow> string + local_db" where
  "mergeCacheEntry key next' d =
     (case cacheDB d key of
        None \<Rightarrow> Inr (setCache key (entry_json next') d)
      | Some cached \<Rightarrow>
          if isCacheEntry cached then Inr (setCache key (merged_entry next' cached) d)
          else Inl (''Invalid cache entry for '' @ key))"

fun mergeAll :: "cache_updates \<Rightarrow> local_db \<Rightarrow> string + local_db" where
  "mergeAll [] d = Inr d"
| "mergeAll ((k, e) # us) d = (case mergeCacheEntry k e d of Inl err \<Rightarrow> Inl err | Inr d' \<Rightarrow> mergeAll us d')"

definition without_null_id :: "jsval \<Rightarrow> jsval" where
  "without_null_id share =
     (case share of
        JObj fs \<Rightarrow> if getf share ''paymentID'' = JNull then JObj (filter (\<lambda>kv. fst kv \<noteq> ''paymentID'') fs) else share
      | _ \<Rightarrow> share)"

definition putShare ::
  "(jsval \<Rightarrow> share_msg option) \<Rightarrow> (share_msg option \<Rightarrow> share_msg option list \<Rightarrow> share_msg option list) \<Rightarrow>
   jsval \<Rightarrow> local_db \<Rightarrow> local_db" where
  "putShare codec dup_put share d =
     (let h = nat \<lfloor>num_of (getf share ''blockHeight'')\<rfloor>
      in d\<lparr>shareDB := (shareDB d)(h := dup_put (codec (without_null_id share)) (shareDB d h))\<rparr>)"

definition storeShares ::
  "(jsval \<Rightarrow> share_msg option) \<Rightarrow> (share_msg option \<Rightarrow> share_msg option list \<Rightarrow> share_msg option list) \<Rightarrow>
   int \<Rightarrow> int \<Rightarrow> jsval list \<Rightarrow> local_db \<Rightarrow> (string + bool) \<times> local_db" where
  "storeShares codec dup_put daemon defaultStatsPort shares d =
     (if shares = [] then (Inr False, d)
      else
        let good = filter isStorableShare shares;
            updates = fold (applyShareCacheUpdates daemon defaultStatsPort) good [(''global_stats2'', stats_entry)]
        in case mergeAll updates d of
             Inl e \<Rightarrow> (Inl e, d)
           | Inr d' \<Rightarrow> (Inr True, fold (putShare codec dup_put) good d'))"

subsection \<open>What a share adds to the statistics\<close>

definition total_of :: "string \<Rightarrow> cache_updates \<Rightarrow> num" where
  "total_of key u = (case map_of u key of Some e \<Rightarrow> or_zero (totalHashes e) | None \<Rightarrow> 0)"

lemma map_of_on_entry: "map_of (on_entry key f u) k = (if k = key then map_option f (map_of u k) else map_of u k)"
  by (induction u) (auto simp: on_entry_def)

lemma map_of_ensure:
  "map_of (ensureCacheEntry key e u) k = (if k = key \<and> map_of u k = None then Some e else map_of u k)"
  by (auto simp: ensureCacheEntry_def map_add_def split: option.split)

lemma total_add_other:
  "totalHashes (addRoundHashes v e) = totalHashes e" "totalHashes (addGoodShares v e) = totalHashes e"
  by (simp_all add: addRoundHashes_def addGoodShares_def)

lemma total_of_simps [simp]:
  "total_of k (on_entry key (addRoundHashes v) u) = total_of k u"
  "total_of k (on_entry key (addGoodShares v) u) = total_of k u"
  "or_zero (totalHashes e) = 0 \<Longrightarrow> total_of k (ensureCacheEntry key e u) = total_of k u"
  by (auto simp: total_of_def map_of_on_entry map_of_ensure total_add_other split: option.split)

lemma total_of_add:
  "total_of k (on_entry key (addTotalHashes v) u) =
     (if k = key \<and> map_of u key \<noteq> None then fl (total_of k u + v) else total_of k u)"
  by (auto simp: total_of_def map_of_on_entry addTotalHashes_def or_zero_def split: option.split)

lemma present_simps [simp]:
  "map_of (on_entry key f u) k = None \<longleftrightarrow> map_of u k = None"
  "map_of (ensureCacheEntry key e u) key \<noteq> None"
  "map_of u k \<noteq> None \<Longrightarrow> map_of (ensureCacheEntry key e u) k \<noteq> None"
  by (auto simp: map_of_on_entry map_of_ensure)

lemma entry_zero [simp]: "or_zero (totalHashes stats_entry) = 0" "or_zero (totalHashes miner_entry) = 0"
  by (simp_all add: stats_entry_def miner_entry_def or_zero_def)

text \<open>
  The total of the whole pool: a share of the main chain is added in both blocks of the
  source, a share of another port only in the second.
\<close>

lemma global_total:
  assumes "getMinerId share \<noteq> ''global_stats2''" "getMinerId share @ ''_'' @ str_of (getf share ''identifier'') \<noteq> ''global_stats2''"
  defines "raw \<equiv> num_of (getf share ''raw_shares'')"
  shows "total_of ''global_stats2'' (applyShareCacheUpdates daemon port share u) =
     (if portSuffix daemon share = [] then fl (fl (total_of ''global_stats2'' u + raw) + raw)
      else fl (total_of ''global_stats2'' u + raw))"
proof -
  have type: "statsTypeKey share \<noteq> ''global_stats2''" "statsTypeKey share @ s \<noteq> ''global_stats2''" for s
    by (simp_all add: statsTypeKey_def poolTypeStr_def)
  have suffix: "''global_stats2'' @ ''_'' @ s \<noteq> ''global_stats2''" for s by simp
  have ps: "portSuffix daemon share = [] \<or> (\<exists>s. portSuffix daemon share = CHR ''_'' # s)"
    by (auto simp: portSuffix_def split: jsval.split)
  have ne: "''global_stats2'' \<noteq> getMinerId share" "''global_stats2'' \<noteq> getMinerId share @ ''_'' @ str_of (getf share ''identifier'')"
    "''global_stats2'' \<noteq> statsTypeKey share" "''global_stats2'' \<noteq> statsTypeKey share @ s" for s
    using assms(1,2) type by metis+
  show ?thesis
  proof (cases "portSuffix daemon share")
    case Nil
    then show ?thesis
      unfolding applyShareCacheUpdates_def Let_def by (simp add: total_of_add ne raw_def del: append.simps)
  next
    case (Cons c s)
    then show ?thesis
      unfolding applyShareCacheUpdates_def Let_def by (simp add: total_of_add ne raw_def del: append.simps)
  qed
qed

subsection \<open>Stored shares can be read\<close>

definition share_height :: "jsval \<Rightarrow> nat" where
  "share_height share = nat \<lfloor>num_of (getf share ''blockHeight'')\<rfloor>"

lemma storable_height: "isStorableShare share \<Longrightarrow> share_height share < 2 ^ 32"
proof -
  assume "isStorableShare share"
  then obtain x where x: "getf share ''blockHeight'' = JNum x" "0 \<le> x" "x \<le> 0xffffffff"
    by (auto simp: isStorableShare_def int_between_def split: jsval.splits)
  have "\<lfloor>x\<rfloor> \<le> 0xffffffff" using floor_mono [OF x(3)] by simp
  then show ?thesis using x(2) by (simp add: share_height_def x(1) num_of_def nat_less_iff)
qed

lemma fold_putShare:
  assumes "\<And>x xs. set (dup_put x xs) = insert x (set xs)"
  shows "set (shareDB (fold (putShare codec dup_put) good d) h) =
     set (shareDB d h) \<union> {codec (without_null_id s) |s. s \<in> set good \<and> share_height s = h}"
proof (induction good arbitrary: d)
  case (Cons s good)
  have "set (shareDB (putShare codec dup_put s d) h) =
      set (shareDB d h) \<union> (if share_height s = h then {codec (without_null_id s)} else {})"
    using assms by (auto simp: putShare_def Let_def share_height_def)
  with Cons show ?case by auto
qed simp

lemma merge_keeps_shares: "mergeCacheEntry k e d = Inr d' \<Longrightarrow> shareDB d' = shareDB d"
  by (auto simp: mergeCacheEntry_def setCache_def split: option.splits if_splits)

lemma mergeAll_keeps_shares: "mergeAll us d = Inr d' \<Longrightarrow> shareDB d' = shareDB d"
  by (induction us d rule: mergeAll.induct) (auto split: sum.splits dest: merge_keeps_shares)

lemma storeShares_reads:
  assumes "\<And>x xs. set (dup_put x xs) = insert x (set xs)"
    and "storeShares codec dup_put daemon port shares d = (Inr True, d')"
  shows "set (shareDB d' h) = set (shareDB d h) \<union>
     {codec (without_null_id s) |s. s \<in> set shares \<and> isStorableShare s \<and> share_height s = h}"
proof -
  obtain d1 where d1: "shareDB d1 = shareDB d" "d' = fold (putShare codec dup_put) (filter isStorableShare shares) d1"
    using assms(2) by (auto simp: storeShares_def Let_def split: if_splits sum.splits dest: mergeAll_keeps_shares)
  have "set (shareDB d' h) = set (shareDB d h) \<union>
      {codec (without_null_id s) |s. s \<in> set (filter isStorableShare shares) \<and> share_height s = h}"
    unfolding d1(2) fold_putShare [OF assms(1)] d1(1) ..
  then show ?thesis by auto
qed

end
