(* ===== verification/Task_Queue.thy ===== *)
theory Task_Queue
  imports Prelude
begin

text \<open>
  \<open>src/lib/common/callbacks.js\<close>: a queue that runs at most \<open>concurrency\<close> workers at a time,
  and \<open>findSeries\<close>. The worker is asynchronous: it is started by \<open>pump\<close> and later calls
  \<open>done\<close> once. A worker that finishes before \<open>worker(...)\<close> returns runs \<open>onDone\<close> inside the
  loop of \<open>pump\<close>, where the \<open>pumping\<close> guard makes its own \<open>pump\<close> a no-op and the loop goes
  on; this is the completion step taken right after the start.
\<close>

record 't task =
  task_data :: 't
  enqueueOrder :: nat

record 't queue_state =
  pending :: "'t task list"
  running :: nat
  nextOrder :: nat
  begun :: "'t task list"

text \<open>The loop of \<open>pump\<close>: each round shifts one task and starts its worker.\<close>

fun pump_loop :: "nat \<Rightarrow> 't task list \<Rightarrow> nat \<Rightarrow> 't task list \<times> 't task list \<times> nat" where
  "pump_loop c [] r = ([], [], r)"
| "pump_loop c (t # ts) r =
     (if r < c then (case pump_loop c ts (r + 1) of (st, ps, r') \<Rightarrow> (t # st, ps, r')) else ([], t # ts, r))"

definition pump :: "nat \<Rightarrow> 't queue_state \<Rightarrow> 't queue_state" where
  "pump c q = (case pump_loop c (pending q) (running q) of
     (st, ps, r) \<Rightarrow> q\<lparr>pending := ps, running := r, begun := begun q @ st\<rparr>)"

definition push :: "nat \<Rightarrow> 't \<Rightarrow> 't queue_state \<Rightarrow> 't queue_state" where
  "push c x q = pump c (q\<lparr>pending := pending q @ [\<lparr>task_data = x, enqueueOrder = nextOrder q\<rparr>],
     nextOrder := nextOrder q + 1\<rparr>)"

definition unshift :: "nat \<Rightarrow> 't \<Rightarrow> 't queue_state \<Rightarrow> 't queue_state" where
  "unshift c x q = pump c (q\<lparr>pending := \<lparr>task_data = x, enqueueOrder = nextOrder q\<rparr> # pending q,
     nextOrder := nextOrder q + 1\<rparr>)"

definition onDone :: "nat \<Rightarrow> 't queue_state \<Rightarrow> 't queue_state" where
  "onDone c q = pump c (q\<lparr>running := running q - 1\<rparr>)"

definition remove :: "('t task \<Rightarrow> bool) \<Rightarrow> 't queue_state \<Rightarrow> 't queue_state" where
  "remove predicate q = q\<lparr>pending := filter (\<lambda>t. \<not> predicate t) (pending q)\<rparr>"

fun oldest_of :: "'t task option \<Rightarrow> 't task list \<Rightarrow> 't task option" where
  "oldest_of found [] = found"
| "oldest_of found (t # ts) =
     oldest_of (case found of None \<Rightarrow> Some t | Some f \<Rightarrow> if enqueueOrder t < enqueueOrder f then Some t else Some f) ts"

definition oldest :: "'t queue_state \<Rightarrow> 't task option" where
  "oldest q = oldest_of None (pending q)"

definition createTaskQueue :: "'t queue_state" where
  "createTaskQueue = \<lparr>pending = [], running = 0, nextOrder = 0, begun = []\<rparr>"

text \<open>\<open>findSeries\<close>: the first result that is not null, or null; \<open>None\<close> is a falsy result.\<close>

fun findSeries :: "('x \<Rightarrow> 'r option) \<Rightarrow> 'x list \<Rightarrow> 'r option" where
  "findSeries iteratee [] = None"
| "findSeries iteratee (x # xs) = (case iteratee x of Some r \<Rightarrow> Some r | None \<Rightarrow> findSeries iteratee xs)"

subsection \<open>Events\<close>

inductive queue_step :: "nat \<Rightarrow> 't queue_state \<Rightarrow> 't queue_state \<Rightarrow> bool" for c where
  push: "queue_step c q (push c x q)"
| unshift: "queue_step c q (unshift c x q)"
| finish: "0 < running q \<Longrightarrow> queue_step c q (onDone c q)"
| drop_tasks: "queue_step c q (remove P q)"

inductive queue_reach :: "nat \<Rightarrow> 't queue_state \<Rightarrow> bool" for c where
  start: "queue_reach c createTaskQueue"
| step: "queue_reach c q \<Longrightarrow> queue_step c q q' \<Longrightarrow> queue_reach c q'"

inductive_cases queue_stepE: "queue_step c q q'"

lemma pump_loop_spec:
  "pump_loop c ts r = (st, ps, r') \<Longrightarrow>
     st @ ps = ts \<and> r' = r + length st \<and> (ps = [] \<or> c \<le> r') \<and> (r \<le> c \<longrightarrow> r' \<le> c)"
proof (induction c ts r arbitrary: st ps r' rule: pump_loop.induct)
  case (2 c t ts r)
  show ?case
  proof (cases "r < c")
    case True
    then obtain st' where "pump_loop c ts (r + 1) = (st', ps, r')" "st = t # st'"
      using "2.prems" by (auto split: prod.splits)
    with "2.IH" [OF True this(1)] True show ?thesis by auto
  qed (use "2.prems" in auto)
qed simp

text \<open>No more workers than allowed, none idle while tasks wait, and orders are fresh and distinct.\<close>

definition queue_ok :: "nat \<Rightarrow> 't queue_state \<Rightarrow> bool" where
  "queue_ok c q \<longleftrightarrow> running q \<le> c \<and> (pending q = [] \<or> running q = c) \<and>
     distinct (map enqueueOrder (begun q @ pending q)) \<and> (\<forall>t \<in> set (begun q @ pending q). enqueueOrder t < nextOrder q)"

lemma pump_ok:
  assumes "running q \<le> c" "distinct (map enqueueOrder (begun q @ pending q))"
    "\<forall>t \<in> set (begun q @ pending q). enqueueOrder t < nextOrder q"
  shows "queue_ok c (pump c q)"
proof -
  obtain st ps r where p: "pump_loop c (pending q) (running q) = (st, ps, r)" by (metis prod_cases3)
  from pump_loop_spec [OF p] have e: "st @ ps = pending q" and r: "ps = [] \<or> c \<le> r" "r \<le> c" using assms(1) by auto
  have eq: "pump c q = q\<lparr>pending := ps, running := r, begun := begun q @ st\<rparr>" by (simp add: pump_def p)
  have "begun (pump c q) @ pending (pump c q) = begun q @ pending q" using e by (simp add: eq)
  then show ?thesis unfolding queue_ok_def using assms(2,3) r by (auto simp: eq simp flip: e)
qed

lemma queue_step_ok: "queue_step c q q' \<Longrightarrow> queue_ok c q \<Longrightarrow> queue_ok c q'"
proof (erule queue_stepE)
  fix x assume ok: "queue_ok c q"
  have fresh: "enqueueOrder t \<noteq> nextOrder q" if "t \<in> set (begun q) \<or> t \<in> set (pending q)" for t
  proof -
    have "\<forall>t \<in> set (begun q @ pending q). enqueueOrder t < nextOrder q" using ok by (simp add: queue_ok_def)
    with that have "enqueueOrder t < nextOrder q" by simp
    then show ?thesis by simp
  qed
  show "queue_ok c q'" if "q' = push c x q"
    unfolding that push_def by (rule pump_ok) (use ok fresh in \<open>auto simp: queue_ok_def intro: less_SucI\<close>)
  show "queue_ok c q'" if "q' = unshift c x q"
    unfolding that unshift_def by (rule pump_ok) (use ok fresh in \<open>auto simp: queue_ok_def intro: less_SucI\<close>)
next
  assume ok: "queue_ok c q"
  show "queue_ok c q'" if "q' = onDone c q"
    unfolding that onDone_def by (rule pump_ok) (use ok in \<open>auto simp: queue_ok_def\<close>)
  show "queue_ok c q'" if "q' = remove P q" for P
    unfolding that remove_def using ok
    by (auto simp: queue_ok_def intro: distinct_map_filter_sub)
qed

lemma queue_reach_ok: "queue_reach c q \<Longrightarrow> queue_ok c q"
proof (induction rule: queue_reach.induct)
  case start
  show ?case by (simp add: queue_ok_def createTaskQueue_def)
qed (rule queue_step_ok)

lemma oldest_of_min:
  "oldest_of found ts = Some t \<Longrightarrow> t \<in> set ts \<union> set_option found \<and>
     (\<forall>u \<in> set ts \<union> set_option found. enqueueOrder t \<le> enqueueOrder u)"
proof (induction found ts rule: oldest_of.induct)
  case (2 found u ts)
  from "2.IH" [OF "2.prems" [simplified]] show ?case by (auto split: option.splits if_splits)
qed simp

lemma oldest_of_None: "oldest_of found ts = None \<longleftrightarrow> found = None \<and> ts = []"
  by (induction found ts rule: oldest_of.induct) (auto split: option.splits)

lemma findSeries_first:
  "findSeries f xs = Some r \<longleftrightarrow> (\<exists>ys x zs. xs = ys @ x # zs \<and> (\<forall>y \<in> set ys. f y = None) \<and> f x = Some r)"
proof (induction xs)
  case (Cons a xs)
  show ?case
  proof (cases "f a")
    case None
    have "(\<exists>ys x zs. a # xs = ys @ x # zs \<and> (\<forall>y \<in> set ys. f y = None) \<and> f x = Some r) \<longleftrightarrow>
        (\<exists>ys x zs. xs = ys @ x # zs \<and> (\<forall>y \<in> set ys. f y = None) \<and> f x = Some r)" (is "?l = ?r")
    proof
      assume ?l
      then obtain ys x zs where l: "a # xs = ys @ x # zs" "\<forall>y \<in> set ys. f y = None" "f x = Some r" by blast
      with None obtain ys' where "ys = a # ys'" by (cases ys) auto
      with l show ?r by auto
    next
      assume ?r
      then obtain ys x zs where "xs = ys @ x # zs" "\<forall>y \<in> set ys. f y = None" "f x = Some r" by blast
      with None show ?l by (intro exI [of _ "a # ys"]) auto
    qed
    with Cons None show ?thesis by simp
  next
    case (Some s)
    then show ?thesis by (fastforce simp: Cons_eq_append_conv)
  qed
qed simp

end
