(* ===== verification/Timers.thy ===== *)
theory Timers
  imports Prelude
begin

text \<open>
  The cycle timers of \<open>src/lib/payments.js\<close> and \<open>src/lib/block_manager.js\<close>: \<open>start\<close> arms a
  timer, its callback runs one cycle and arms the next timer when the cycle has ended, and
  \<open>stop\<close> clears the armed timer. \<open>armed\<close> are the timers the event loop still holds,
  \<open>cycles\<close> the number of callbacks between their start and their end; \<open>timer\<close> is the
  handle the runtime remembers. \<open>halted\<close> is \<open>state.isFailStop\<close> of the payout runtime; the
  block manager has no such test in its scheduler, so it is never set there.
\<close>

record timer_state =
  is_started :: bool
  timer :: "nat option"
  armed :: "nat list"
  cycles :: nat
  halted :: bool
  nextTimer :: nat

definition initialTimers :: timer_state where
  "initialTimers = \<lparr>is_started = False, timer = None, armed = [], cycles = 0, halted = False, nextTimer = 0\<rparr>"

definition scheduleNextCycle :: "timer_state \<Rightarrow> timer_state" where
  "scheduleNextCycle s =
     (if \<not> is_started s \<or> halted s then s
      else s\<lparr>timer := Some (nextTimer s), armed := armed s @ [nextTimer s], nextTimer := nextTimer s + 1\<rparr>)"

definition start :: "timer_state \<Rightarrow> timer_state" where
  "start s = (if is_started s then s else scheduleNextCycle (s\<lparr>is_started := True\<rparr>))"

definition stop :: "timer_state \<Rightarrow> timer_state" where
  "stop s =
     (let s1 = s\<lparr>is_started := False\<rparr>
      in case timer s1 of
           None \<Rightarrow> s1
         | Some t \<Rightarrow> s1\<lparr>timer := None, armed := filter (\<lambda>u. u \<noteq> t) (armed s1)\<rparr>)"

definition onTimer :: "nat \<Rightarrow> timer_state \<Rightarrow> timer_state" where
  "onTimer t s = s\<lparr>timer := None, armed := filter (\<lambda>u. u \<noteq> t) (armed s), cycles := cycles s + 1\<rparr>"

text \<open>The end of a cycle; \<open>failed\<close> says that it, or something else meanwhile, latched fail-stop.\<close>

definition endCycle :: "bool \<Rightarrow> timer_state \<Rightarrow> timer_state" where
  "endCycle failed s = scheduleNextCycle (s\<lparr>cycles := cycles s - 1, halted := halted s \<or> failed\<rparr>)"

datatype timer_event = Start | Stop | Fire nat | End bool

fun timer_apply :: "timer_event \<Rightarrow> timer_state \<Rightarrow> timer_state" where
  "timer_apply Start s = start s"
| "timer_apply Stop s = stop s"
| "timer_apply (Fire t) s = (if t \<in> set (armed s) then onTimer t s else s)"
| "timer_apply (End failed) s = (if 0 < cycles s then endCycle failed s else s)"

text \<open>A restart is orderly when no cycle is in flight: the caller has waited for \<open>stop\<close>.\<close>

fun orderly :: "timer_state \<Rightarrow> timer_event list \<Rightarrow> bool" where
  "orderly s [] = True"
| "orderly s (e # es) = ((e = Start \<longrightarrow> is_started s \<or> cycles s = 0) \<and> orderly (timer_apply e s) es)"

definition timers_ok :: "timer_state \<Rightarrow> bool" where
  "timers_ok s \<longleftrightarrow> length (armed s) + cycles s \<le> 1 \<and> set (armed s) = set_option (timer s) \<and>
     (armed s \<noteq> [] \<longrightarrow> is_started s) \<and>
     (is_started s \<longrightarrow> \<not> halted s \<longrightarrow> length (armed s) + cycles s = 1)"

lemma timers_ok_initial: "timers_ok initialTimers"
  by (simp add: timers_ok_def initialTimers_def)

lemma timers_ok_step:
  assumes "timers_ok s" "e = Start \<Longrightarrow> is_started s \<or> cycles s = 0"
  shows "timers_ok (timer_apply e s)"
proof (cases e)
  case Start
  then show ?thesis using assms
    by (auto simp: timers_ok_def start_def scheduleNextCycle_def)
next
  case Stop
  then show ?thesis using assms
    by (auto simp: timers_ok_def stop_def Let_def split: option.split)
next
  case (Fire t)
  then show ?thesis using assms
    by (cases "armed s") (auto simp: timers_ok_def onTimer_def)
next
  case (End failed)
  then show ?thesis using assms
    by (cases "armed s") (auto simp: timers_ok_def endCycle_def scheduleNextCycle_def)
qed

lemma timers_ok_run: "timers_ok s \<Longrightarrow> orderly s es \<Longrightarrow> timers_ok (fold timer_apply es s)"
  by (induction es arbitrary: s) (auto intro: timers_ok_step)

end
