(* ===== verification/Share_Properties.thy ===== *)
theory Share_Properties
  imports Block_Examples Rate_Limit Share_Store Task_Queue Timers
begin

text \<open>
  The properties of the share window and its cleanup, of the local store, and of the small
  services the processes share: rate limits, the task queue and the cycle timers.
\<close>

section \<open>The share window\<close>

text \<open>
  C13. The PPLNS calculation returns for every store of decodable and undecodable shares,
  and its weights are right up to a bound on the rounding of the whole scan: either the
  window is not filled, no weight is negative and they add up to the shares counted, or it
  is filled and they add up to the window itself. The bound is \<open>32 M / 2^53\<close> for each of at
  most four additions for a share, where \<open>M\<close> exceeds the window by the largest share.
\<close>

theorem weights_fill_window:
  assumes "fees_ok cfg" "\<And>h. list_all (share_ok B) (shares h)" "0 < w" "0 \<le> B" "w + B \<le> M"
    "4 * share_rows shares (nat h) \<le> 2 ^ 48"
  shows "\<exists>a. collectPplnsSharePayments cfg w shares h = Inr a \<and> distinct (map fst (p_data a)) \<and>
     (let err = of_nat (4 * share_rows shares (nat h)) * unit_err M
      in p_totalPaid a < 1 \<and> p_totalShares a < w \<and> (\<forall>x \<in> set (p_data a). 0 \<le> cr_amount (snd x)) \<and>
           \<bar>weight_sum (p_data a) - p_totalShares a\<bar> \<le> err \<or>
         p_totalPaid a = 1 \<and> \<bar>weight_sum (p_data a) - w\<bar> \<le> err)"
proof -
  have k: "0 + 4 * share_rows shares (nat h) \<le> 2 ^ 48" using assms(6) by simp
  from collectHeights_inv [OF assms(1-3) assms(5,4) initial_inv [OF assms(3)] k] obtain a where
    a: "collectHeights cfg w shares (nat h) (initialAcc cfg) = Inr a" "window_inv cfg w M (4 * share_rows shares (nat h)) a"
    by auto
  from a(2) show ?thesis
    by (intro exI [of _ a]) (auto simp: collectPplnsSharePayments_def a(1) window_inv_def filling_def keys_present_def Let_def)
qed

lemma ex_fees: "fees_ok ex_bm_cfg"
  by (simp add: fees_ok_def ex_bm_cfg_def)

lemma fl_small: "fl 64 = 64"
  by code_simp

theorem weights_fill_window_witness:
  "\<exists>a. collectPplnsSharePayments ex_bm_cfg 128 (shareDB ex_local) 100 = Inr a \<and> distinct (map fst (p_data a))"
proof -
  have s: "list_all (share_ok 64) (shareDB ex_local h)" for h
    by (simp add: ex_local_def share_ok_def ex_share_def fl_small)
  have "share_rows (shareDB ex_local) 100 = 2" by code_simp
  then have r: "4 * share_rows (shareDB ex_local) (nat 100) \<le> 2 ^ 48" by simp
  from weights_fill_window [OF ex_fees s _ _ _ r, of 128 192] show ?thesis by auto
qed

section \<open>Cleaning up shares\<close>

text \<open>
  C14. A cleanup never changes the weights of a block that still needs its shares,
  whether it succeeds or fails half-way: for every block that was waiting when the cleanup
  began, at the height its shares are read from (the block's height, or its anchor height
  rounded down by \<open>payout.anchorRound\<close>), the PPLNS calculation gives the same result on the
  store the cleanup met and on the store it leaves. It is so when anchors are not rounded
  (\<open>anchorRound\<close> 1, the deployed default) or that height is not below the oldest
  height the cleanup looks for, and when the block's window is at most two thirds of the
  count the cleanup keeps. \<open>anchor_rounding_gap\<close> below shows what rounding does otherwise.
\<close>

theorem cleanup_keeps_windows:
  assumes run: "cleanShareDB e st = (r, st')" "\<not> cleanShareInProgress st"
    and read: "h \<in> read_heights (anchorRound cfg) (cl_local st)"
      "anchorRound cfg = 1 \<or> (\<exists>m \<in> waiting_heights (cl_local st). m \<le> h)"
    and header: "requestBlockHeader (cl_header e) 0 CLEAN_SHARE_BLOCK_HEADER_RETRIES = Some d"
      "cleanupThreshold (cl_shareMulti e) (to_number d) = Some D"
    and window: "fees_ok cfg" "\<And>h. list_all (work_ok w) (shareDB (store_met e st) h)" "0 < w" "3 / 2 * w \<le> D"
    and rows: "share_rows (shareDB (store_met e st)) (nat h) \<le> 2 ^ 40" "0 \<le> h"
  shows "collectPplnsSharePayments cfg w (shareDB (cl_local st')) h =
         collectPplnsSharePayments cfg w (shareDB (store_met e st)) h"
proof -
  let ?s = "shareDB (store_met e st)"
  have "\<exists>m \<in> waiting_heights (cl_local st). m \<le> h" using read by (auto simp: read_heights_unrounded)
  with oldest_locked_least [of "cl_local st"]
  obtain m where m: "getOldestLockedBlockHeight (cl_local st) = Some m" "m \<le> h"
    by (fastforce simp: least_of_def split: option.splits)
  from cleanShareDB_leaves [OF run] obtain deleted where
    d: "cl_local st' = (store_met e st)\<lparr>shareDB := deleteShares deleted ?s\<rparr>" "batches_of (stale_met e st) deleted" by blast
  then have deleted: "shareDB (cl_local st') = deleteShares deleted ?s" by simp
  have "set (stale_met e st) \<subseteq> set (staleHeights ?s m (Some D))"
    using m header by (auto simp: stale_met_def window_met_def loadCleanupWindow_def Let_def split: if_splits)
  with batches_of_set [OF d(2)] have "set deleted \<subseteq> set (staleHeights ?s m (Some D))" by blast
  moreover have "m - 1 \<le> int (nat h)" using m(2) rows(2) by simp
  ultimately show ?thesis
    unfolding collectPplnsSharePayments_def deleted using stale_unread [OF window rows(1)] by simp
qed

definition ex_history :: "nat \<Rightarrow> share_msg option list" where
  "ex_history h = (if h \<in> {10, 20, 95, 96, 97, 98, 99} then [Some ex_share] else [])"

definition ex_waiting :: local_db where
  "ex_waiting = ex_local\<lparr>blockDB := [(100, ex_block\<lparr>b_pay_ready := None\<rparr>)], shareDB := ex_history\<rparr>"

definition ex_clean_env :: clean_env where
  "ex_clean_env = \<lparr>cl_shareMulti = 2, cl_blockCleaner = True, cl_header = (\<lambda>n. ex_coin (getBlockHeaderByID 100)),
     cl_lastHeader = ex_coin getLastBlockHeader, cl_rival = (\<lambda>l. l), cl_oldest_throws = None, cl_scan_throws = None,
     cl_write_throws = (\<lambda>n. None), cl_sync_throws = None\<rparr>"

definition ex_clean :: clean_state where
  "ex_clean = \<lparr>cleanShareInProgress = False, cleanShareStuckCount = 0, cl_local = ex_waiting\<rparr>"

lemma ex_cleaned: "fst (cleanShareDB ex_clean_env ex_clean) = Inr ()"
  "map (shareDB (cl_local (snd (cleanShareDB ex_clean_env ex_clean)))) [20, 95] = [[], []]"
  by code_simp+

theorem cleanup_keeps_windows_witness:
  "collectPplnsSharePayments ex_bm_cfg 128 (shareDB (cl_local (snd (cleanShareDB ex_clean_env ex_clean)))) 100 =
   collectPplnsSharePayments ex_bm_cfg 128 ex_history 100"
proof -
  have r: "cleanShareDB ex_clean_env ex_clean = (Inr (), snd (cleanShareDB ex_clean_env ex_clean))"
    using ex_cleaned(1) by (metis prod.collapse)
  have l: "store_met ex_clean_env ex_clean = ex_waiting" "cl_local ex_clean = ex_waiting" "shareDB ex_waiting = ex_history"
    "\<not> cleanShareInProgress ex_clean"
    by (simp_all add: ex_clean_env_def ex_clean_def ex_waiting_def store_met_def)
  have w: "100 \<in> read_heights (anchorRound ex_bm_cfg) (cl_local ex_clean)" "100 \<in> waiting_heights (cl_local ex_clean)"
    unfolding l(2) by (auto simp: read_heights_def waiting_heights_def ex_waiting_def needs_shares_def ex_block_def)
  have h: "requestBlockHeader (cl_header ex_clean_env) 0 CLEAN_SHARE_BLOCK_HEADER_RETRIES = Some (JNum 64)"
    "cleanupThreshold (cl_shareMulti ex_clean_env) (to_number (JNum 64)) = Some 256" by code_simp+
  have s: "list_all (work_ok 128) (shareDB (store_met ex_clean_env ex_clean) h)" for h
    unfolding l by (simp add: ex_history_def work_ok_def ex_share_def share_ok_def fl_small counted_work_def)
  have "share_rows ex_history 100 = 7" by code_simp
  then have k: "share_rows (shareDB (store_met ex_clean_env ex_clean)) (nat 100) \<le> 2 ^ 40"
    unfolding l by simp
  show ?thesis using cleanup_keeps_windows [OF r l(4) w(1) _ h ex_fees s _ _ k] w(2) unfolding l by auto
qed





definition ex_rounded :: local_db where
  "ex_rounded = \<lparr>blockDB = [],
     altblockDB = [(1, \<lparr>b_hash = ''bb'', b_difficulty = 64, b_shares = 1, b_timestamp = 1000, b_poolType = PPLNS,
       b_unlocked = False, b_valid = True, b_value = Some 512, b_pay_ready = None, a_port = 9998, a_height = 7,
       a_anchor_height = 19, a_pay_value = None, a_pay_stage = None, a_pay_status = None\<rparr>)],
     shareDB = (\<lambda>h. if h \<in> {9, 10, 15, 16, 17, 18} then [Some ex_share] else []), cacheDB = (\<lambda>k. None)\<rparr>"

definition weight_at :: "(nat \<Rightarrow> share_msg option list) \<Rightarrow> num option" where
  "weight_at shares =
     (case collectPplnsSharePayments (ex_bm_cfg\<lparr>pplnsFee := 0\<rparr>) 128 shares (anchorOf 10 19) of
        Inr a \<Rightarrow> Some (totalPayments (p_data a)) | Inl e \<Rightarrow> None)"

text \<open>
  The cleanup keeps history below the height of the oldest locked block, but the
  weights of a block of another chain are read from its anchor height rounded down to a
  multiple of \<open>payout.anchorRound\<close>. With rounding to 10, a block anchored at height 19
  and twice its window of shares between, the cleanup deletes every share at or below
  height 10, and the block that could be paid before finds no share at its anchor.
\<close>

theorem anchor_rounding_gap:
  "let st' = cleanShareDB ex_clean_env (ex_clean\<lparr>cl_local := ex_rounded\<rparr>)
   in fst st' = Inr () \<and> weight_at (shareDB ex_rounded) = Some 128 \<and> weight_at (shareDB (cl_local (snd st'))) = Some 0"
proof -
  let ?st = "ex_clean\<lparr>cl_local := ex_rounded\<rparr>"
  have run: "getOldestLockedBlockHeight ex_rounded = Some 19"
    "requestBlockHeader (cl_header ex_clean_env) 0 CLEAN_SHARE_BLOCK_HEADER_RETRIES = Some (JNum 64)"
    "loadCleanupWindow ex_clean_env (Some 19) (JNum 64) = Inr (Some 19, Some 256)"
    "staleHeights (shareDB ex_rounded) 19 (Some 256) = [10, 9]"
    "cl_blockCleaner ex_clean_env" by code_simp+
  have "fst (cleanShareDB ex_clean_env ?st) = Inr ()"
    "shareDB (cl_local (snd (cleanShareDB ex_clean_env ?st))) = deleteShares [9, 10] (shareDB ex_rounded)"
    using run by (simp_all add: cleanShareDB_def Let_def scanAndFinalize_def finalizeCleanup_def deleteStale_def
        ex_clean_def ex_clean_env_def)
  moreover have "weight_at (shareDB ex_rounded) = Some 128" "weight_at (deleteShares [9, 10] (shareDB ex_rounded)) = Some 0"
    by code_simp+
  ultimately show ?thesis by (simp add: Let_def)
qed

section \<open>The local store\<close>

text \<open>
  Paging through the found blocks is slicing: with \<open>first\<close> and \<open>last\<close> given, the
  cursor loops of \<open>getBlockList\<close> and \<open>getAltBlockList\<close> return the rows from \<open>first\<close> up to
  but not including \<open>last\<close> of the list of matching blocks, newest key first.
\<close>

theorem block_lists_are_slices:
  "getBlockList ptype (Some first) (Some lst) d =
     drop (nat first) (take (nat lst) (filter (\<lambda>(k, r). pool_filter ptype r) (rev (blockDB d)))) \<and>
   getAltBlockList ptype port (Some first) (Some lst) d =
     drop (nat first) (take (nat lst) (filter (\<lambda>(k, r). pool_filter ptype r \<and>
       (port = None \<or> port = Some 0 \<or> port = Some (a_port r))) (rev (altblockDB d))))"
  unfolding getBlockList_def getAltBlockList_def
  by (simp add: list_page_slice)

text \<open>
  C16. A batch of shares is stored whole or not at all: when \<open>storeShares\<close> reports success,
  the duplicates under each height are exactly those from before and the encodings of the
  batch's valid shares of that height, every key is an unsigned 32-bit integer, and when it
  throws the store is as it was. The store keeps a set of duplicates under a key.
\<close>

theorem stored_shares_read_back:
  assumes "\<And>x xs. set (dup_put x xs) = insert x (set xs)"
    and "storeShares codec dup_put daemon port shares d = (r, d')"
  shows "(r = Inr True \<longrightarrow> set (shareDB d' h) = set (shareDB d h) \<union>
       {codec (without_null_id s) |s. s \<in> set shares \<and> isStorableShare s \<and> share_height s = h}) \<and>
     (r \<noteq> Inr True \<longrightarrow> d' = d) \<and> (isStorableShare s \<longrightarrow> share_height s < 2 ^ 32)"
proof (intro conjI impI)
  show "set (shareDB d' h) = set (shareDB d h) \<union>
       {codec (without_null_id s) |s. s \<in> set shares \<and> isStorableShare s \<and> share_height s = h}" if "r = Inr True"
    by (rule storeShares_reads) (use assms that in auto)
  show "d' = d" if "r \<noteq> Inr True"
    using assms(2) that by (auto simp: storeShares_def Let_def split: if_splits sum.splits)
  show "share_height s < 2 ^ 32" if "isStorableShare s"
    by (rule storable_height [OF that])
qed

definition ex_json_share :: jsval where
  "ex_json_share = JObj [(''paymentAddress'', JStr ''alice''), (''identifier'', JStr ''x''), (''poolType'', JNum 0),
     (''raw_shares'', JNum 8), (''blockHeight'', JNum 50), (''foundBlock'', JBool False), (''trustedShare'', JBool False),
     (''poolID'', JNum 1), (''blockDiff'', JNum 64), (''timestamp'', JNum 5000), (''paymentID'', JNull), (''shares2'', JNum 64)]"

definition ex_put :: "share_msg option \<Rightarrow> share_msg option list \<Rightarrow> share_msg option list" where
  "ex_put x xs = (if x \<in> set xs then xs else x # xs)"

theorem stored_shares_read_back_witness:
  "Some ex_share \<in> set (shareDB (snd (storeShares (\<lambda>_. Some ex_share) ex_put 18081 18081 [ex_json_share] ex_local)) 50)"
proof -
  let ?r = "storeShares (\<lambda>_. Some ex_share) ex_put 18081 18081 [ex_json_share] ex_local"
  have r: "?r = (Inr True, snd ?r)"
  proof -
    have "fst ?r = Inr True" by code_simp
    then show ?thesis by (metis prod.collapse)
  qed
  have s: "isStorableShare ex_json_share" "share_height ex_json_share = 50" by code_simp+
  have p: "set (ex_put x xs) = insert x (set xs)" for x xs by (auto simp: ex_put_def)
  from stored_shares_read_back [OF p r, of 50] s show ?thesis by auto
qed

text \<open>
  A share of the main chain is added to the total of the whole pool twice, a share of
  another port once: both blocks of \<open>applyShareCacheUpdates\<close> run for it, since the suffix
  they test is set in between.
\<close>

theorem main_share_counted_twice:
  assumes "getMinerId share \<noteq> ''global_stats2''" "getMinerId share @ ''_'' @ str_of (getf share ''identifier'') \<noteq> ''global_stats2''"
  shows "total_of ''global_stats2'' (applyShareCacheUpdates daemon port share u) =
     (let raw = num_of (getf share ''raw_shares''); before = total_of ''global_stats2'' u
      in if portSuffix daemon share = [] then fl (fl (before + raw) + raw) else fl (before + raw))"
  using global_total [OF assms] by (simp add: Let_def)

theorem main_share_counted_twice_witness:
  "total_of ''global_stats2'' (applyShareCacheUpdates 18081 18081 ex_json_share []) = 16"
proof -
  have m: "getMinerId ex_json_share = ''alice''" "str_of (getf ex_json_share ''identifier'') = ''x''"
    "num_of (getf ex_json_share ''raw_shares'') = 8" "portSuffix 18081 ex_json_share = []" by code_simp+
  have f: "fl (fl (0 + 8) + 8) = 16" by code_simp
  from main_share_counted_twice [of ex_json_share 18081 18081 "[]"] m f show ?thesis by (simp add: total_of_def Let_def)
qed

section \<open>Shared services\<close>

text \<open>
  C17. The token buckets limit the rate: from an empty map, whatever logins, submits,
  keepalives and job requests of any addresses mix in it, each with the rate of its method, of the
  requests charged to one key at times between \<open>t0\<close> and \<open>t1\<close> at most the key's burst plus
  its rate times the elapsed time is let through, up to the rounding of the arithmetic,
  which is below \<open>burst / 2^49\<close> for each request with the key. The different keys number at most
  the capacity of the map, so that no bucket is evicted, and the clock does not run back.
\<close>

theorem rate_limit_bound:
  assumes key: "charged cfg q = Some (key, perSecond, burst)" and pos: "fl burst = burst" "0 < perSecond" "0 < burst"
    and room: "of_nat (card {k. \<exists>q' \<in> set (q # reqs). charged_key cfg q' = Some k}) \<le> rpcRateLimitBucketMaxEntries cfg"
    and times: "sorted (t0 # map request_time reqs @ [t1])"
  shows "of_nat (accepted cfg key [] reqs) \<le> burst + perSecond * (t1 - t0) / 1000 +
     of_nat (length (filter (\<lambda>q'. charged_key cfg q' = Some key) reqs)) * (burst / 2 ^ 49)"
proof -
  let ?K = "{k. \<exists>q' \<in> set (q # reqs). charged_key cfg q' = Some k}"
  have "Some ` ?K \<subseteq> charged_key cfg ` set (q # reqs)"
  proof
    fix x assume "x \<in> Some ` ?K"
    then obtain q' where "q' \<in> set (q # reqs)" "charged_key cfg q' = x" by auto
    then show "x \<in> charged_key cfg ` set (q # reqs)" by blast
  qed
  then have "finite (Some ` ?K)" by (rule finite_subset) simp
  then have "finite ?K" by (rule finite_imageD) simp
  then have m: "map_ok cfg burst key ?K t0 []" using room by (simp add: map_ok_def)
  have "\<forall>q' \<in> set reqs. charged_key cfg q' \<in> insert None (Some ` ?K)"
  proof
    fix q' assume "q' \<in> set reqs"
    then show "charged_key cfg q' \<in> insert None (Some ` ?K)" by (cases "charged_key cfg q'") auto
  qed
  from accepted_bound [OF _ pos m this times] key_fixes_rate [OF key] show ?thesis
    by (simp add: credit_at_def slack_def)
qed

definition ex_limits :: security_config where
  "ex_limits = getPoolSecurityConfig (\<lambda>k. if k = ''jobRequestRateLimitBurst'' then JNum 2 else JUndef)"

definition ex_requests :: "limited list" where
  "ex_requests = [Rpc_request ''login'' (JStr ''1.2.3.4'') 0, Pre_share_request ''job-request'' (Some False) (JStr ''1.2.3.4'') 0,
     Pre_share_request ''job-request'' (Some False) (JStr ''1.2.3.4'') 0, Pre_share_request ''job-request'' (Some False) (JStr ''1.2.3.4'') 0]"

theorem rate_limit_bound_witness:
  "of_nat (accepted ex_limits ''job-request:1.2.3.4'' [] ex_requests) \<le> (2 + 3 * (2 / 2 ^ 49) :: num) \<and>
   accepted ex_limits ''job-request:1.2.3.4'' [] ex_requests = 2"
proof -
  have k: "map (charged_key ex_limits) ex_requests = [Some ''login:1.2.3.4'', Some ''job-request:1.2.3.4'',
      Some ''job-request:1.2.3.4'', Some ''job-request:1.2.3.4'']" by code_simp
  have c: "charged ex_limits (ex_requests ! 1) = Some (''job-request:1.2.3.4'', 5, 2)" by code_simp
  have b: "fl 2 = 2" "rpcRateLimitBucketMaxEntries ex_limits = 20000" by code_simp+
  have n: "accepted ex_limits ''job-request:1.2.3.4'' [] ex_requests = 2" by code_simp
  have "{k. \<exists>q' \<in> set (ex_requests ! 1 # ex_requests). charged_key ex_limits q' = Some k} \<subseteq> {''login:1.2.3.4'', ''job-request:1.2.3.4''}"
    using k by (auto simp: ex_requests_def)
  then have "card {k. \<exists>q' \<in> set (ex_requests ! 1 # ex_requests). charged_key ex_limits q' = Some k} \<le>
      card {''login:1.2.3.4'', ''job-request:1.2.3.4''}"
    by (intro card_mono) simp_all
  then have "card {k. \<exists>q' \<in> set (ex_requests ! 1 # ex_requests). charged_key ex_limits q' = Some k} \<le> 2" by simp
  then have "(of_nat (card {k. \<exists>q' \<in> set (ex_requests ! 1 # ex_requests). charged_key ex_limits q' = Some k}) :: num) \<le> of_nat 2"
    by (rule of_nat_mono)
  then have r: "of_nat (card {k. \<exists>q' \<in> set (ex_requests ! 1 # ex_requests). charged_key ex_limits q' = Some k}) \<le> rpcRateLimitBucketMaxEntries ex_limits"
    using b(2) by simp
  have f: "length (filter (\<lambda>q'. charged_key ex_limits q' = Some ''job-request:1.2.3.4'') ex_requests) = 3"
    by code_simp
  have "sorted (0 # map request_time ex_requests @ [0 :: num])" by (simp add: ex_requests_def)
  from rate_limit_bound [OF c b(1) _ _ r this] n f show ?thesis by simp
qed

text \<open>
  The task queue keeps its promises in every reachable state: no more workers run than
  allowed, none is idle while a task waits, no task is started twice, and \<open>oldest\<close> is the
  waiting task that was enqueued first, whichever end it was put at.
\<close>

theorem queue_bounded:
  assumes "queue_reach c q"
  shows "running q \<le> c \<and> (pending q \<noteq> [] \<longrightarrow> running q = c) \<and> distinct (map enqueueOrder (begun q @ pending q)) \<and>
     (case oldest q of None \<Rightarrow> pending q = []
      | Some t \<Rightarrow> t \<in> set (pending q) \<and> (\<forall>u \<in> set (pending q). enqueueOrder t \<le> enqueueOrder u))"
  using queue_reach_ok [OF assms] oldest_of_min [of None "pending q"] oldest_of_None [of None "pending q"]
  by (auto simp: queue_ok_def oldest_def split: option.split)

theorem queue_bounded_witness:
  "running (unshift 1 ''b'' (push 1 ''a'' createTaskQueue)) \<le> 1"
proof -
  have "queue_reach 1 (unshift 1 ''b'' (push 1 ''a'' createTaskQueue))"
    by (rule queue_reach.step [OF queue_reach.step [OF queue_reach.start queue_step.push] queue_step.unshift])
  from queue_bounded [OF this] show ?thesis by simp
qed

text \<open>
  Cycles do not overlap: when a restart waits for the cycle in flight, there is never
  more than one armed timer or running cycle, a runtime that is started and has not failed
  always has one, and a stopped runtime has no armed timer.
\<close>

theorem one_cycle_at_a_time:
  assumes "orderly initialTimers es"
  defines "s \<equiv> fold timer_apply es initialTimers"
  shows "length (armed s) + cycles s \<le> 1 \<and> (is_started s \<longrightarrow> \<not> halted s \<longrightarrow> length (armed s) + cycles s = 1) \<and>
     (\<not> is_started s \<longrightarrow> armed s = [])"
  using timers_ok_run [OF timers_ok_initial assms(1)] by (auto simp: timers_ok_def s_def)

theorem one_cycle_at_a_time_witness:
  "length (armed (fold timer_apply [Start, Fire 0, End False, Stop] initialTimers)) = 0"
  using one_cycle_at_a_time [of "[Start, Fire 0, End False, Stop]"]
  by (simp add: initialTimers_def start_def stop_def scheduleNextCycle_def onTimer_def endCycle_def)

end
