(* ===== verification/Miner_Login.thy ===== *)
theory Miner_Login
  imports Rate_Limit Pplns_Bounds "HOL-Library.Char_ord" "HOL-Library.List_Lexorder"
begin

text \<open>
  The login of a miner, \<open>src/lib/pool/miners.js\<close>: parsing of user name and password, the
  checks on the payout address, the division of the payout over several addresses, the keys
  under which shares and trust are accumulated, and the fixed difficulty. The two address
  validators are calls of a native package and parameters. The negotiation of algorithms,
  which comes after the checks, is left out.
\<close>

subsection \<open>Language\<close>

datatype js_float = FNaN | FInf bool | FNum num

definition exponent_prefix :: "string \<Rightarrow> int" where
  "exponent_prefix s =
     (case s of [] \<Rightarrow> 0
      | c # r \<Rightarrow>
          if c \<noteq> CHR ''e'' \<and> c \<noteq> CHR ''E'' then 0
          else (let neg = (case r of d # _ \<Rightarrow> d = CHR ''-'' | [] \<Rightarrow> False);
                    ds = takeWhile is_digit (case r of d # r' \<Rightarrow> if d = CHR ''-'' \<or> d = CHR ''+'' then r' else r | [] \<Rightarrow> [])
                in if neg then - digits_value ds 0 else digits_value ds 0))"

definition decimal_prefix :: "string \<Rightarrow> num option" where
  "decimal_prefix s =
     (let ip = takeWhile is_digit s; r1 = dropWhile is_digit s;
          dot = (case r1 of c # _ \<Rightarrow> c = CHR ''.'' | [] \<Rightarrow> False);
          fp = (if dot then takeWhile is_digit (tl r1) else []);
          r2 = (if dot then dropWhile is_digit (tl r1) else r1)
      in if ip = [] \<and> fp = [] then None
         else Some (fl (of_int (digits_value (ip @ fp) 0) * 10 powi (exponent_prefix r2 - int (length fp)))))"

text \<open>\<open>parseFloat\<close>: the longest prefix that is a decimal literal, after leading white space.\<close>

definition js_parseFloat :: "string \<Rightarrow> js_float" where
  "js_parseFloat s0 =
     (let s = dropWhile is_space s0;
          neg = (case s of c # _ \<Rightarrow> c = CHR ''-'' | [] \<Rightarrow> False);
          r = (case s of c # r \<Rightarrow> if c = CHR ''-'' \<or> c = CHR ''+'' then r else s | [] \<Rightarrow> [])
      in if is_prefix_of ''Infinity'' r then FInf neg
         else (case decimal_prefix r of None \<Rightarrow> FNaN | Some x \<Rightarrow> FNum (if neg then - x else x)))"

text \<open>\<open>k in o\<close> for an object literal: its own keys and those of \<open>Object.prototype\<close>.\<close>

definition object_prototype :: "string list" where
  "object_prototype = [''__proto__'', ''__defineGetter__'', ''__defineSetter__'', ''__lookupGetter__'', ''__lookupSetter__'',
     ''constructor'', ''hasOwnProperty'', ''isPrototypeOf'', ''propertyIsEnumerable'', ''toLocaleString'', ''toString'', ''valueOf'']"

definition js_in :: "string \<Rightarrow> string list \<Rightarrow> bool" where
  "js_in k own \<longleftrightarrow> k \<in> set own \<or> k \<in> set object_prototype"

definition or_empty :: "string option \<Rightarrow> string" where
  "or_empty s = (case s of Some t \<Rightarrow> t | None \<Rightarrow> [])"

definition nth_part :: "string list \<Rightarrow> nat \<Rightarrow> string option" where
  "nth_part ps i = (if i < length ps then Some (ps ! i) else None)"

subsection \<open>Parsing\<close>

definition maxKeyLength :: nat where
  "maxKeyLength = 255"

definition normalizeInvalidLogValue :: "string \<Rightarrow> string" where
  "normalizeInvalidLogValue value = take maxKeyLength (js_trim value)"

definition normalizeAgent :: "string option \<Rightarrow> string" where
  "normalizeAgent agent = take maxKeyLength (or_empty agent)"

text \<open>The expressions \<open>/^\S+@\S+\.\S+$/\<close> and \<open>/^(?:[0-9a-f][0-9a-f])+$/\<close>.\<close>

definition reEmail :: "string \<Rightarrow> bool" where
  "reEmail s \<longleftrightarrow> list_all (\<lambda>c. \<not> is_space c) s \<and>
     list_ex (\<lambda>i. s ! i = CHR ''@'' \<and> list_ex (\<lambda>j. s ! j = CHR ''.'') [i + 2..<length s - 1]) [1..<length s]"

definition hexMatch :: "string \<Rightarrow> bool" where
  "hexMatch s \<longleftrightarrow> s \<noteq> [] \<and> even (length s) \<and>
     list_all (\<lambda>c. is_digit c \<or> (97 \<le> (of_char c :: nat) \<and> (of_char c :: nat) \<le> 102)) s"

definition parsePassword :: "string \<Rightarrow> string list \<times> string list" where
  "parsePassword pass =
     (let passAlgoSplit = split_on CHR ''~'' pass;
          passSplit = split_on CHR '':'' (or_empty (nth_part passAlgoSplit 0));
          firstPart = or_empty (nth_part passSplit 0)
      in (passAlgoSplit, if length passSplit = 1 \<and> reEmail firstPart then [''email'', firstPart] else passSplit))"

subsection \<open>The miner under construction\<close>

datatype rejection =
  BannedAddress string | InvalidAddress string | TmpBanned string | TooManyWorkers | LegacyPaymentId
| LoginFormat | PasswordFormat | SplitBelow js_float | SplitAbove js_float | SplitTotal | RepeatedSplit string | NoTemplate

record login_miner =
  lm_payout :: string
  lm_address :: string
  lm_identifier :: string
  lm_email :: string
  lm_agent :: string
  lm_payout_div :: "(string \<times> num) list option"
  lm_invalidLogKey :: "string option"
  lm_delay_reply :: "num option"
  lm_workerLimitLogin :: bool
  lm_error :: "rejection option"

record login_env =
  le_bannedAddresses :: "string set"
  le_bannedTmpWallets :: "string list"
  le_bannedBigTmpWallets :: "string list"
  le_validatePlainAddress :: "string \<Rightarrow> bool"
  le_validateAddress :: "string \<Rightarrow> bool"
  le_hasTemplate :: bool

text \<open>A check ends the login with the rejected miner, or lets it go on.\<close>

definition checkThen :: "'e + 'a \<Rightarrow> ('a \<Rightarrow> 'e + 'b) \<Rightarrow> 'e + 'b" where
  "checkThen r f = (case r of Inl e \<Rightarrow> Inl e | Inr x \<Rightarrow> f x)"

lemma checkThen_simps [simp]: "checkThen (Inl e) f = Inl e" "checkThen (Inr x) f = f x"
  by (simp_all add: checkThen_def)

lemma checkThen_Inr: "checkThen r f = Inr y \<longleftrightarrow> (\<exists>x. r = Inr x \<and> f x = Inr y)"
  by (cases r) auto

definition rejectMiner :: "rejection \<Rightarrow> string option \<Rightarrow> num option \<Rightarrow> login_miner \<Rightarrow> login_miner" where
  "rejectMiner e logKey delay m =
     m\<lparr>lm_error := Some e,
       lm_invalidLogKey := (case logKey of Some k \<Rightarrow> if k \<noteq> [] then Some k else lm_invalidLogKey m | None \<Rightarrow> lm_invalidLogKey m),
       lm_delay_reply := (if delay = None then lm_delay_reply m else delay)\<rparr>"

definition validatePayoutAddress :: "login_env \<Rightarrow> string \<Rightarrow> bool \<Rightarrow> login_miner \<Rightarrow> login_miner + login_miner" where
  "validatePayoutAddress env address requirePlainAddress m =
     (let logKey = Some (normalizeInvalidLogValue address);
          isValid = (if requirePlainAddress then le_validatePlainAddress env address else le_validateAddress env address)
      in if address \<in> le_bannedAddresses env then Inl (rejectMiner (BannedAddress address) logKey (Some 30) m)
         else if \<not> isValid then Inl (rejectMiner (InvalidAddress address) logKey None m)
         else if js_in address (le_bannedTmpWallets env) then Inl (rejectMiner (TmpBanned address) logKey None m)
         else if js_in address (le_bannedBigTmpWallets env)
         then Inl (rejectMiner TooManyWorkers logKey (Some 30) (m\<lparr>lm_workerLimitLogin := True\<rparr>))
         else Inr m)"

definition validateLoginAndPayout ::
  "login_env \<Rightarrow> string list \<Rightarrow> string list \<Rightarrow> string \<Rightarrow> string option \<Rightarrow> login_miner \<Rightarrow> login_miner + login_miner" where
  "validateLoginAndPayout env loginDiffSplit loginDivSplit loginBase dottedSuffix m =
     (if lm_payout m \<in> le_bannedAddresses env
      then Inl (rejectMiner (BannedAddress (lm_payout m)) (Some (normalizeInvalidLogValue (lm_payout m))) (Some 30) m)
      else if (case dottedSuffix of None \<Rightarrow> False
               | Some x \<Rightarrow> length x = 64 \<and> hexMatch x \<and> le_validatePlainAddress env (lm_address m))
      then Inl (rejectMiner LegacyPaymentId (Some (normalizeInvalidLogValue loginBase)) None m)
      else
        let m1 = (case dottedSuffix of None \<Rightarrow> m
                  | Some x \<Rightarrow> if lm_identifier m = ''x'' then m\<lparr>lm_identifier := take 64 x\<rparr> else m)
        in if 2 < length loginDiffSplit then Inl (rejectMiner LoginFormat None None m1)
           else if even (length loginDivSplit) \<or> 5 < length loginDivSplit then Inl (rejectMiner LoginFormat None None m1)
           else validatePayoutAddress env (lm_payout m1) False m1)"

subsection \<open>Dividing the payout\<close>

fun legs :: "string list \<Rightarrow> (string \<times> string) list" where
  "legs (percent # address # rest) = (percent, address) # legs rest"
| "legs _ = []"

definition below :: "num \<Rightarrow> js_float \<Rightarrow> bool" where
  "below bound p = (case p of FNaN \<Rightarrow> True | FInf neg \<Rightarrow> neg | FNum x \<Rightarrow> x < bound)"

definition above :: "num \<Rightarrow> js_float \<Rightarrow> bool" where
  "above bound p = (case p of FNaN \<Rightarrow> False | FInf neg \<Rightarrow> \<not> neg | FNum x \<Rightarrow> bound < x)"

definition div_table :: "login_miner \<Rightarrow> (string \<times> num) list" where
  "div_table m = (case lm_payout_div m of Some t \<Rightarrow> t | None \<Rightarrow> [])"

fun addLegs :: "login_env \<Rightarrow> (string \<times> string) list \<Rightarrow> num \<Rightarrow> login_miner \<Rightarrow> login_miner + num \<times> login_miner" where
  "addLegs env [] left m = Inr (left, m)"
| "addLegs env ((p, address) # rest) left m =
     (let percent = js_parseFloat p
      in if below (fl (1 / 10)) percent then Inl (rejectMiner (SplitBelow percent) None None m)
         else if above (fl (999 / 10)) percent then Inl (rejectMiner (SplitAbove percent) None None m)
         else (case percent of
                 FNum x \<Rightarrow>
                   let left' = fl (left - x)
                   in if left' < fl (1 / 10) then Inl (rejectMiner SplitTotal None None m)
                      else checkThen (validatePayoutAddress env address True m) (\<lambda>m1.
                        if js_in address (map fst (div_table m1)) then Inl (rejectMiner (RepeatedSplit address) None None m1)
                        else addLegs env rest left' (m1\<lparr>lm_payout_div := Some (div_table m1 @ [(address, x)])\<rparr>))
               | _ \<Rightarrow> Inr (left, m)))"

definition applyPayoutDivisions :: "login_env \<Rightarrow> string list \<Rightarrow> login_miner \<Rightarrow> login_miner + login_miner" where
  "applyPayoutDivisions env loginDivSplit m =
     checkThen (addLegs env (legs (tl loginDivSplit)) 100 (m\<lparr>lm_payout_div := Some []\<rparr>)) (\<lambda>(left, m1).
       if left = 100 then Inr (m1\<lparr>lm_payout_div := None\<rparr>)
       else if js_in (lm_payout m1) (map fst (div_table m1)) then Inl (rejectMiner (RepeatedSplit (lm_payout m1)) None None m1)
       else Inr (m1\<lparr>lm_payout_div := Some (div_table m1 @ [(lm_payout m1, left)])\<rparr>))"

definition validateNewMiner ::
  "login_env \<Rightarrow> string list \<Rightarrow> string list \<Rightarrow> string list \<Rightarrow> string \<Rightarrow> string option \<Rightarrow> login_miner \<Rightarrow> login_miner + login_miner" where
  "validateNewMiner env passSplit loginDiffSplit loginDivSplit loginBase dottedSuffix m =
     (if 3 < length passSplit then Inl (rejectMiner PasswordFormat None None m)
      else checkThen (validateLoginAndPayout env loginDiffSplit loginDivSplit loginBase dottedSuffix m) (\<lambda>m1.
           checkThen (applyPayoutDivisions env loginDivSplit m1) (\<lambda>m2.
             if \<not> le_hasTemplate env then Inl (rejectMiner NoTemplate None None m2) else Inr m2)))"

text \<open>\<open>createMiner\<close> up to the end of the checks.\<close>

definition createMiner ::
  "login_env \<Rightarrow> string \<Rightarrow> string \<Rightarrow> string option \<Rightarrow> string option \<Rightarrow> login_miner + login_miner" where
  "createMiner env loginName pass rigid agent =
     (let normalizedAgent = normalizeAgent agent;
          loginDiffSplit = split_on CHR ''+'' loginName;
          loginDivSplit = split_on CHR ''%'' (or_empty (nth_part loginDiffSplit 0));
          loginBase = or_empty (nth_part loginDivSplit 0);
          loginDotSplit = split_on CHR ''.'' loginBase;
          dottedSuffix = nth_part loginDotSplit 1;
          passSplit = snd (parsePassword pass);
          loginAddress = or_empty (nth_part loginDotSplit 0);
          passwordAddress = or_empty (nth_part passSplit 2);
          payout = (if length passSplit = 3 \<and> passwordAddress \<noteq> [] then passwordAddress else loginAddress);
          identifier = (if contains ''MinerGate'' normalizedAgent then ''MinerGate''
                        else take 64 (if or_empty rigid \<noteq> [] then or_empty rigid else or_empty (nth_part passSplit 0)));
          email = (if 2 \<le> length passSplit then or_empty (nth_part passSplit 1) else []);
          normalizedPayout = normalizeInvalidLogValue payout
      in validateNewMiner env passSplit loginDiffSplit loginDivSplit loginBase dottedSuffix
           \<lparr>lm_payout = payout, lm_address = payout, lm_identifier = identifier, lm_email = email, lm_agent = normalizedAgent,
            lm_payout_div = None, lm_invalidLogKey = (if normalizedPayout \<noteq> [] then Some normalizedPayout else None),
            lm_delay_reply = None, lm_workerLimitLogin = False, lm_error = None\<rparr>)"

subsection \<open>Keys\<close>

definition div_json :: "(string \<times> num) list \<Rightarrow> string" where
  "div_json t = json_text (JObj (map (\<lambda>k. (k, JNum (case map_of t k of Some x \<Rightarrow> x | None \<Rightarrow> 0))) (own_keys (map fst t))))"

definition poolTypeEnum :: string where
  "poolTypeEnum = ''0''"

definition wallet_key :: "login_miner \<Rightarrow> string" where
  "wallet_key m = lm_payout m @ '' '' @ poolTypeEnum @ '' '' @
     (case lm_payout_div m of None \<Rightarrow> ''null'' | Some t \<Rightarrow> div_json t) @ '' ''"

definition explicitPayoutDiv :: "string \<Rightarrow> (string \<times> num) list \<Rightarrow> (string \<times> num) list" where
  "explicitPayoutDiv payout t =
     List.map_filter (\<lambda>k. if k = payout then None else map_option (\<lambda>x. (k, x)) (map_of t k)) (sort (own_keys (map fst t)))"

definition trust_key :: "login_miner \<Rightarrow> string" where
  "trust_key m =
     (case lm_payout_div m of
        None \<Rightarrow> lm_payout m
      | Some t \<Rightarrow> ''split:'' @ lm_payout m @ '' '' @ poolTypeEnum @ '' '' @ div_json (explicitPayoutDiv (lm_payout m) t))"

subsection \<open>Difficulty\<close>

record diff_config =
  dc_minDifficulty :: num
  dc_maxDifficulty :: "num option"
  dc_targetTime :: "num option"

definition applyFixedDiff :: "diff_config \<Rightarrow> num \<Rightarrow> string list \<Rightarrow> num \<Rightarrow> bool \<times> num" where
  "applyFixedDiff cfg mainCoinPerf loginDiffSplit startingDiff =
     (if length loginDiffSplit \<noteq> 2 then (False, startingDiff)
      else
        let suffix = loginDiffSplit ! 1;
            target = (case dc_targetTime cfg of Some t \<Rightarrow> if t = 0 then 30 else t | None \<Rightarrow> 30);
            perfDiff = (if 2 < mainCoinPerf then js_floor (fl (mainCoinPerf * target)) else 0);
            (fixed, diff) = (if take 4 suffix = ''perf''
               then (\<not> (take 4 (drop 4 suffix) = ''auto'' \<or> perfDiff = 0), Some (if perfDiff \<noteq> 0 then perfDiff else startingDiff))
               else (True, js_Number_string suffix));
            (fixed', diff') = (case diff of Some d \<Rightarrow> if d \<le> 0 then (False, startingDiff) else (fixed, d) | None \<Rightarrow> (False, startingDiff));
            d1 = (if diff' < dc_minDifficulty cfg then dc_minDifficulty cfg else diff')
        in (fixed', case dc_maxDifficulty cfg of Some mx \<Rightarrow> if mx < d1 then mx else d1 | None \<Rightarrow> d1))"

definition applyNiceHashDiff :: "string \<Rightarrow> string option \<Rightarrow> (string \<Rightarrow> num) \<Rightarrow> bool \<times> num \<Rightarrow> bool \<times> num" where
  "applyNiceHashDiff agent curr_coin niceHashMinimum fd =
     (if \<not> contains ''NiceHash'' agent then fd
      else (True, case curr_coin of None \<Rightarrow> snd fd
                  | Some coin \<Rightarrow> if snd fd < niceHashMinimum coin then niceHashMinimum coin else snd fd))"

subsection \<open>Lemmas\<close>

lemma reject_error [simp]: "lm_error (rejectMiner e k d m) = Some e"
  by (simp add: rejectMiner_def)

lemma validatePayoutAddress_Inr:
  "validatePayoutAddress env a plain m = Inr m' \<longleftrightarrow> m' = m \<and> a \<notin> le_bannedAddresses env \<and>
     (if plain then le_validatePlainAddress env a else le_validateAddress env a) \<and>
     a \<notin> set (le_bannedTmpWallets env) \<and> a \<notin> set (le_bannedBigTmpWallets env) \<and> a \<notin> set object_prototype"
  by (auto simp: validatePayoutAddress_def Let_def js_in_def)

definition leg_ok :: "login_env \<Rightarrow> string \<times> num \<Rightarrow> bool" where
  "leg_ok env l \<longleftrightarrow> fl (1 / 10) \<le> snd l \<and> snd l \<le> fl (999 / 10) \<and> le_validatePlainAddress env (fst l) \<and>
     fst l \<notin> le_bannedAddresses env \<and> fst l \<notin> set (le_bannedTmpWallets env) \<and> fst l \<notin> set (le_bannedBigTmpWallets env)"

lemma below_above: "\<not> below a p \<Longrightarrow> \<not> above b p \<Longrightarrow> \<exists>x. p = FNum x \<and> a \<le> x \<and> x \<le> b"
  by (cases p) (auto simp: below_def above_def)

lemma tenth: "0 < fl (1 / 10)" "fl (1 / 10) \<le> 1"
proof -
  show "0 < fl (1 / 10)" by simp
  have "fl (1 / 10) \<le> fl 1" by (rule fl_mono) simp
  then show "fl (1 / 10) \<le> 1" using fl_of_int [of 1] by simp
qed

text \<open>
  The loop over the explicit legs appends them to the table; what is left is what the rounded
  subtractions leave.
\<close>

lemma addLegs_Inr:
  "addLegs env ls left m = Inr (left', m') \<Longrightarrow>
   \<exists>new. m' = m\<lparr>lm_payout_div := (if ls = [] then lm_payout_div m else Some (div_table m @ new))\<rparr> \<and> length new = length ls \<and>
     list_all (leg_ok env) new \<and> left' = foldl (\<lambda>l x. fl (l - x)) left (map snd new) \<and>
     map (\<lambda>(p, a). (a, js_parseFloat p)) ls = map (\<lambda>(a, x). (a, FNum x)) new \<and>
     (ls \<noteq> [] \<longrightarrow> fl (1 / 10) \<le> left') \<and> (distinct (map fst (div_table m)) \<longrightarrow> distinct (map fst (div_table m @ new)))"
proof (induction env ls left m rule: addLegs.induct)
  case (1 env left m)
  then show ?case by simp
next
  case (2 env p a rest left m)
  from 2(2) have nb: "\<not> below (fl (1 / 10)) (js_parseFloat p)" and na: "\<not> above (fl (999 / 10)) (js_parseFloat p)"
    by (auto simp: Let_def split: if_splits)
  from below_above [OF this] obtain x where x: "js_parseFloat p = FNum x" "fl (1 / 10) \<le> x" "x \<le> fl (999 / 10)" by blast
  let ?m1 = "m\<lparr>lm_payout_div := Some (div_table m @ [(a, x)])\<rparr>"
  from 2(2) nb na x(1) have l: "\<not> fl (left - x) < fl (1 / 10)"
    and v: "validatePayoutAddress env a True m = Inr m" and nin: "\<not> js_in a (map fst (div_table m))"
    and rec: "addLegs env rest (fl (left - x)) ?m1 = Inr (left', m')"
    by (auto simp: Let_def checkThen_Inr validatePayoutAddress_Inr split: if_splits)
  from 2(1) [OF refl nb na x(1) refl l nin rec]
  obtain new where new: "m' = ?m1\<lparr>lm_payout_div := (if rest = [] then lm_payout_div ?m1 else Some (div_table ?m1 @ new))\<rparr>"
    "length new = length rest" "list_all (leg_ok env) new" "left' = foldl (\<lambda>l x. fl (l - x)) (fl (left - x)) (map snd new)"
    "map (\<lambda>(p, a). (a, js_parseFloat p)) rest = map (\<lambda>(a, x). (a, FNum x)) new" "rest \<noteq> [] \<longrightarrow> fl (1 / 10) \<le> left'"
    "distinct (map fst (div_table ?m1)) \<longrightarrow> distinct (map fst (div_table ?m1 @ new))" by blast
  have t: "div_table ?m1 = div_table m @ [(a, x)]" by (simp add: div_table_def)
  have ok: "leg_ok env (a, x)" using x v by (simp add: leg_ok_def validatePayoutAddress_Inr)
  show ?case
  proof (intro exI [of _ "(a, x) # new"] conjI)
    show "m' = m\<lparr>lm_payout_div := (if (p, a) # rest = [] then lm_payout_div m else Some (div_table m @ (a, x) # new))\<rparr>"
      using new(1,2) by (cases "rest = []") (simp_all add: t)
    show "(p, a) # rest \<noteq> [] \<longrightarrow> fl (1 / 10) \<le> left'" using new(2,4,6) l by (cases "rest = []") auto
    show "distinct (map fst (div_table m)) \<longrightarrow> distinct (map fst (div_table m @ (a, x) # new))"
      using new(7) nin by (auto simp: t js_in_def)
  qed (use new x(1) ok in simp_all)
qed

lemma left_error:
  "\<forall>x \<in> set xs. 0 \<le> x \<Longrightarrow> l \<le> 100 \<Longrightarrow> fl l = l \<Longrightarrow> 0 \<le> foldl (\<lambda>l x. fl (l - x)) l xs \<Longrightarrow>
   foldl (\<lambda>l x. fl (l - x)) l xs \<le> l \<and>
   \<bar>foldl (\<lambda>l x. fl (l - x)) l xs - (l - sum_list xs)\<bar> \<le> of_nat (length xs) * (100 / 2 ^ 53)"
proof (induction xs arbitrary: l)
  case (Cons x xs)
  have le: "fl (l - x) \<le> l" using fl_mono [of "l - x" l] Cons.prems by simp
  have IH: "foldl (\<lambda>l x. fl (l - x)) (fl (l - x)) xs \<le> fl (l - x) \<and>
      \<bar>foldl (\<lambda>l x. fl (l - x)) (fl (l - x)) xs - (fl (l - x) - sum_list xs)\<bar> \<le> of_nat (length xs) * (100 / 2 ^ 53)"
    using Cons.prems le by (intro Cons.IH) auto
  moreover have "0 \<le> foldl (\<lambda>l x. fl (l - x)) (fl (l - x)) xs" using Cons.prems(4) by simp
  ultimately have "0 \<le> fl (l - x)" by linarith
  then have "0 \<le> l - x" by (simp only: fl_nonneg_iff)
  then have "\<bar>l - x\<bar> \<le> 100" using Cons.prems(1,2) by simp
  then have e: "\<bar>fl (l - x) - (l - x)\<bar> \<le> 100 / 2 ^ 53" by (rule fl_err)
  have n: "of_nat (length (x # xs)) * (100 / 2 ^ 53 :: num) = 100 / 2 ^ 53 + of_nat (length xs) * (100 / 2 ^ 53)"
    by (simp add: algebra_simps)
  show ?case unfolding n foldl_Cons sum_list.Cons using IH le e by linarith
qed simp

lemma percent_bounds: "1 / 10 \<le> fl (1 / 10)" "fl (999 / 10) < 100"
  by code_simp+

lemma split_result:
  assumes "applyPayoutDivisions env (b # ds) m = Inr m'"
  shows "if legs ds = [] then m' = m\<lparr>lm_payout_div := None\<rparr>
    else \<exists>new left. m' = m\<lparr>lm_payout_div := Some (new @ [(lm_payout m, left)])\<rparr> \<and> length new = length (legs ds) \<and>
      list_all (leg_ok env) new \<and> distinct (map fst (new @ [(lm_payout m, left)])) \<and>
      fl (1 / 10) \<le> left \<and> left \<le> fl (999 / 10) \<and>
      \<bar>sum_list (map snd new) + left - 100\<bar> \<le> of_nat (length new) * (100 / 2 ^ 53) \<and>
      map (\<lambda>(p, a). (a, js_parseFloat p)) (legs ds) = map (\<lambda>(a, x). (a, FNum x)) new"
proof -
  let ?m0 = "m\<lparr>lm_payout_div := Some []\<rparr>"
  from assms obtain left m1 where add: "addLegs env (legs ds) 100 ?m0 = Inr (left, m1)"
    and fin: "(if left = 100 then Inr (m1\<lparr>lm_payout_div := None\<rparr>)
       else if js_in (lm_payout m1) (map fst (div_table m1)) then Inl (rejectMiner (RepeatedSplit (lm_payout m1)) None None m1)
       else Inr (m1\<lparr>lm_payout_div := Some (div_table m1 @ [(lm_payout m1, left)])\<rparr>)) = Inr m'"
    by (auto simp: applyPayoutDivisions_def checkThen_Inr)
  from addLegs_Inr [OF add] obtain new where
    new: "m1 = ?m0\<lparr>lm_payout_div := (if legs ds = [] then lm_payout_div ?m0 else Some (div_table ?m0 @ new))\<rparr>"
    "length new = length (legs ds)" "list_all (leg_ok env) new" "left = foldl (\<lambda>l x. fl (l - x)) 100 (map snd new)"
    "map (\<lambda>(p, a). (a, js_parseFloat p)) (legs ds) = map (\<lambda>(a, x). (a, FNum x)) new"
    "legs ds \<noteq> [] \<longrightarrow> fl (1 / 10) \<le> left" "distinct (map fst (div_table ?m0)) \<longrightarrow> distinct (map fst (div_table ?m0 @ new))" by blast
  have d0: "div_table ?m0 = []" by (simp add: div_table_def)
  show ?thesis
  proof (cases "legs ds = []")
    case True
    then show ?thesis using new fin by simp
  next
    case False
    then obtain l rest where n: "new = l # rest" using new(2) by (cases new) auto
    have pos: "\<forall>x \<in> set (map snd new). 0 \<le> x"
    proof
      fix x assume "x \<in> set (map snd new)"
      then have "fl (1 / 10) \<le> x" using new(3) by (auto simp: list_all_iff leg_ok_def)
      with tenth(1) show "0 \<le> x" by linarith
    qed
    have lo: "fl (1 / 10) \<le> left" using False new(6) by blast
    then have left0: "0 \<le> left" using tenth(1) by linarith
    have f100: "fl 100 = 100" using fl_of_int [of 100] by simp
    have err: "\<bar>left - (100 - sum_list (map snd new))\<bar> \<le> of_nat (length (map snd new)) * (100 / 2 ^ 53)"
      using left_error [OF pos _ f100] left0 unfolding new(4) by simp
    have "fl (1 / 10) \<le> snd l" using new(3) by (simp add: n leg_ok_def)
    then have "100 - snd l \<le> 999 / 10" using percent_bounds(1) by linarith
    then have hi1: "fl (100 - snd l) \<le> fl (999 / 10)" by (rule fl_mono)
    have "left = foldl (\<lambda>l x. fl (l - x)) (fl (100 - snd l)) (map snd rest)" by (simp add: new(4) n)
    also have "\<dots> \<le> fl (100 - snd l)"
      using left_error [of "map snd rest" "fl (100 - snd l)"] pos left0 hi1 percent_bounds(2) calculation
      by (auto simp: n)
    finally have hi: "left \<le> fl (999 / 10)" using hi1 by linarith
    have m1: "m1 = m\<lparr>lm_payout_div := Some new\<rparr>" using False by (simp add: new(1) d0)
    have m': "m' = m\<lparr>lm_payout_div := Some (new @ [(lm_payout m, left)])\<rparr>" "\<not> js_in (lm_payout m) (map fst new)"
      using fin hi percent_bounds(2) by (auto simp: m1 div_table_def split: if_splits)
    have "\<bar>sum_list (map snd new) + left - 100\<bar> = \<bar>left - (100 - sum_list (map snd new))\<bar>" by (simp add: algebra_simps)
    then have "\<bar>sum_list (map snd new) + left - 100\<bar> \<le> of_nat (length new) * (100 / 2 ^ 53)" using err by simp
    moreover have "distinct (map fst (new @ [(lm_payout m, left)]))" using new(7) m'(2) by (auto simp: d0 js_in_def)
    ultimately show ?thesis unfolding if_not_P [OF False] using m'(1) new(2,3,5) lo hi by blast
  qed
qed

lemma legs_length: "length (legs ds) = length ds div 2"
  by (induction ds rule: legs.induct) auto

lemma explicit_legs_set:
  assumes "distinct (map fst (new @ [(p, x)]))" "distinct (map fst (new' @ [(p, x')]))" "mset new = mset new'"
  shows "explicitPayoutDiv p (new @ [(p, x)]) = explicitPayoutDiv p (new' @ [(p, x')])"
proof -
  have "mset (own_keys (map fst (new @ [(p, x)]))) = mset (own_keys (map fst (new' @ [(p, x')])))"
    using assms(3) by (simp add: mset_own_keys)
  then have ks: "sort (own_keys (map fst (new @ [(p, x)]))) = sort (own_keys (map fst (new' @ [(p, x')])))"
    by (intro properties_for_sort) simp_all
  have "set new = set new'" using assms(3) by (rule mset_eq_setD)
  moreover have "distinct (map fst new)" "distinct (map fst new')" using assms(1,2) by simp_all
  ultimately have "map_of new = map_of new'" by (simp only: map_of_inject_set)
  then have "map_of (new @ [(p, x)]) k = map_of (new' @ [(p, x')]) k" if "k \<noteq> p" for k
    using that by (simp add: map_add_def split: option.split)
  then have e: "(\<lambda>k. if k = p then None else map_option (Pair k) (map_of (new @ [(p, x)]) k)) =
      (\<lambda>k. if k = p then None else map_option (Pair k) (map_of (new' @ [(p, x')]) k))" by auto
  show ?thesis unfolding explicitPayoutDiv_def ks e ..
qed

lemma trust_key_order:
  assumes "applyPayoutDivisions env (b # ds) m = Inr r" "applyPayoutDivisions env (b # ds') m = Inr r'"
    and "mset (legs ds) = mset (legs ds')"
  shows "trust_key r = trust_key r'"
proof (cases "legs ds = []")
  case True
  then have "legs ds' = []" using assms(3) by simp
  with True show ?thesis using split_result [OF assms(1)] split_result [OF assms(2)] by simp
next
  case False
  then have "legs ds' \<noteq> []" using assms(3) by auto
  with False obtain new left new' left' where
    r: "r = m\<lparr>lm_payout_div := Some (new @ [(lm_payout m, left)])\<rparr>" "distinct (map fst (new @ [(lm_payout m, left)]))"
      "map (\<lambda>(p, a). (a, js_parseFloat p)) (legs ds) = map (\<lambda>(a, x). (a, FNum x)) new"
    and r': "r' = m\<lparr>lm_payout_div := Some (new' @ [(lm_payout m, left')])\<rparr>" "distinct (map fst (new' @ [(lm_payout m, left')]))"
      "map (\<lambda>(p, a). (a, js_parseFloat p)) (legs ds') = map (\<lambda>(a, x). (a, FNum x)) new'"
    using split_result [OF assms(1)] split_result [OF assms(2)] by auto
  have "image_mset (\<lambda>(a, x). (a, FNum x)) (mset new) = image_mset (\<lambda>(a, x). (a, FNum x)) (mset new')"
    using assms(3) arg_cong [OF r(3), of mset] arg_cong [OF r'(3), of mset] by simp
  moreover have "inj (\<lambda>(a, x). (a, FNum x))" by (auto simp: inj_def)
  ultimately have "mset new = mset new'" by (metis multiset.inj_map injD)
  then show ?thesis using explicit_legs_set [OF r(2) r'(2)] by (simp add: trust_key_def r(1) r'(1))
qed

lemma fixed_diff_bounds:
  assumes "0 < startingDiff" "0 < dc_minDifficulty cfg" "case dc_maxDifficulty cfg of Some mx \<Rightarrow> dc_minDifficulty cfg \<le> mx | None \<Rightarrow> True"
  shows "case applyFixedDiff cfg perf ds startingDiff of (fixed, d) \<Rightarrow> 0 < d \<and>
    (length ds = 2 \<longrightarrow> dc_minDifficulty cfg \<le> d \<and> (case dc_maxDifficulty cfg of Some mx \<Rightarrow> d \<le> mx | None \<Rightarrow> True))"
  using assms by (auto simp: applyFixedDiff_def Let_def split: option.splits prod.splits if_splits)

end
