(* ===== verification/Share_Accumulator.thy ===== *)
theory Share_Accumulator
  imports Miner_Login
begin

text \<open>
  Accounting of accepted shares in a pool node, \<open>src/lib/pool/shares.js\<close>: shares of one
  wallet key and worker are summed up and written as one share, by the next share after the
  accumulation time or by a timer of the wallet. Hash counters of miners, proxies and wallets,
  statistics messages and the debug log are left out; \<open>stored\<close> is what was passed to
  \<open>database.storeShare\<close>.
\<close>

subsection \<open>Writing a share\<close>

record share_row =
  sr_height :: num
  sr_address :: string
  sr_paymentID :: "string option"
  sr_raw_shares :: num
  sr_shares2 :: num
  sr_share_num :: nat
  sr_identifier :: string
  sr_port :: int
  sr_blockDiff :: num
  sr_foundBlock :: bool
  sr_trusted :: bool
  sr_timestamp :: num

record worker_acc =
  wa_height :: "num option"
  wa_difficulty :: num
  wa_time :: num
  wa_acc :: num
  wa_raw_acc :: num
  wa_acc2 :: num
  wa_share_num :: nat
  wa_trusted :: bool

definition splitLeg :: "num \<Rightarrow> num \<Rightarrow> num" where
  "splitLeg amount percent = fl (fl (amount * percent) / 100)"

definition storeShareDiv :: "login_miner \<Rightarrow> string \<Rightarrow> int \<Rightarrow> bool \<Rightarrow> bool \<Rightarrow> num \<Rightarrow> worker_acc \<Rightarrow> share_row list" where
  "storeShareDiv m workerName btPort isBlockCandidate isTrustedShare timeNow w =
     (let row = (\<lambda>address paymentID raw s2.
            \<lparr>sr_height = (case wa_height w of Some h \<Rightarrow> h | None \<Rightarrow> 0), sr_address = address, sr_paymentID = paymentID,
             sr_raw_shares = raw, sr_shares2 = s2, sr_share_num = wa_share_num w, sr_identifier = workerName, sr_port = btPort,
             sr_blockDiff = wa_difficulty w, sr_foundBlock = isBlockCandidate, sr_trusted = isTrustedShare, sr_timestamp = timeNow\<rparr>)
      in case lm_payout_div m of
           None \<Rightarrow> [row (lm_address m) None (wa_raw_acc w) (wa_acc2 w)]
         | Some t \<Rightarrow>
             concat (map (\<lambda>payout. case map_of t payout of
                 None \<Rightarrow> []
               | Some percent \<Rightarrow>
                   let payoutSplit = split_on CHR ''.'' payout;
                       paymentID = (if length payoutSplit = 2 \<and> payoutSplit ! 1 \<noteq> [] then Some (payoutSplit ! 1) else None)
                   in [row (or_empty (nth_part payoutSplit 0)) paymentID (splitLeg (wa_raw_acc w) percent)
                         (js_floor (splitLeg (wa_acc2 w) percent))])
               (own_keys (map fst t))))"

subsection \<open>Accumulators\<close>

record share_job =
  sj_rewarded :: num
  sj_rewarded2 :: num
  sj_hashesPerDifficulty :: "num option"

record share_template =
  bt_port :: int
  bt_height :: num
  bt_difficulty :: num

record acc_config =
  ac_shareAccTime :: "num option"
  ac_daemonPort :: int

record acc_state =
  walletAcc :: "string \<Rightarrow> (string \<times> worker_acc) list option"
  walletWorkerCount :: "string \<Rightarrow> int"
  isWalletAccFinalizer :: "string \<Rightarrow> bool"
  finalizers :: "(string \<times> login_miner \<times> int) list"
  stored :: "share_row list"

definition getRawShareReward :: "share_job \<Rightarrow> num" where
  "getRawShareReward job =
     (let h = (case sj_hashesPerDifficulty job of Some h \<Rightarrow> if h = 0 then 1 else h | None \<Rightarrow> 1)
      in fl (sj_rewarded job * (if 0 < h then h else 1)))"

definition getShareAccTimeMs :: "acc_config \<Rightarrow> num" where
  "getShareAccTimeMs cfg = (case ac_shareAccTime cfg of Some c \<Rightarrow> if c < 0 then 60000 else fl (c * 1000) | None \<Rightarrow> 60000)"

definition all_other_workers :: string where
  "all_other_workers = ''all_other_workers''"

definition maxWorkers :: int where
  "maxWorkers = 50"

text \<open>The wallet's timer: overdue workers are written and dropped, it runs again while some are left.\<close>

fun finalizeWorkers ::
  "acc_config \<Rightarrow> string \<Rightarrow> login_miner \<Rightarrow> int \<Rightarrow> num \<Rightarrow> string list \<Rightarrow> (string \<times> worker_acc) list \<Rightarrow> acc_state
     \<Rightarrow> (string \<times> worker_acc) list \<times> acc_state" where
  "finalizeWorkers cfg key m btPort timeNow [] wallet s = (wallet, s)"
| "finalizeWorkers cfg key m btPort timeNow (name # names) wallet s =
     (case map_of wallet name of
        None \<Rightarrow> finalizeWorkers cfg key m btPort timeNow names wallet s
      | Some w \<Rightarrow>
          if getShareAccTimeMs cfg < fl (timeNow - wa_time w)
          then finalizeWorkers cfg key m btPort timeNow names (AList.delete name wallet)
                 (s\<lparr>stored := stored s @ (if wa_acc w \<noteq> 0 then storeShareDiv m name btPort False (wa_trusted w) timeNow w else []),
                    walletWorkerCount := (if name \<noteq> all_other_workers
                       then (walletWorkerCount s)(key := max 0 (walletWorkerCount s key - 1)) else walletWorkerCount s)\<rparr>)
          else finalizeWorkers cfg key m btPort timeNow names wallet s)"

definition walletAccFinalizer :: "acc_config \<Rightarrow> string \<Rightarrow> login_miner \<Rightarrow> int \<Rightarrow> num \<Rightarrow> acc_state \<Rightarrow> acc_state" where
  "walletAccFinalizer cfg key m btPort timeNow s =
     (case walletAcc s key of
        None \<Rightarrow> s\<lparr>isWalletAccFinalizer := (isWalletAccFinalizer s)(key := False)\<rparr>
      | Some wallet \<Rightarrow>
          let (wallet', s') = finalizeWorkers cfg key m btPort timeNow (own_keys (map fst wallet)) wallet s;
              s'' = s'\<lparr>walletAcc := (walletAcc s')(key \<mapsto> wallet')\<rparr>
          in if wallet' \<noteq> []
             then s''\<lparr>finalizers := finalizers s'' @ [(key, m, btPort)]\<rparr>
             else s''\<lparr>isWalletAccFinalizer := (isWalletAccFinalizer s'')(key := False)\<rparr>)"

definition addShareWorker ::
  "string \<Rightarrow> string \<Rightarrow> num option \<Rightarrow> share_template \<Rightarrow> num \<Rightarrow> bool \<Rightarrow> (string \<times> worker_acc) list \<Rightarrow> acc_state
     \<Rightarrow> (string \<times> worker_acc) list \<times> acc_state" where
  "addShareWorker key workerName dbJobHeight bt timeNow isTrustedShare wallet s =
     (wallet @ [(workerName, \<lparr>wa_height = dbJobHeight, wa_difficulty = bt_difficulty bt, wa_time = timeNow, wa_acc = 0, wa_raw_acc = 0,
                              wa_acc2 = 0, wa_share_num = 0, wa_trusted = isTrustedShare\<rparr>)],
      s\<lparr>walletWorkerCount := (if workerName \<noteq> all_other_workers
           then (walletWorkerCount s)(key := walletWorkerCount s key + 1) else walletWorkerCount s)\<rparr>)"

definition updateShareWorker ::
  "acc_config \<Rightarrow> login_miner \<Rightarrow> share_job \<Rightarrow> string \<Rightarrow> share_template \<Rightarrow> num option \<Rightarrow> num \<Rightarrow> bool \<Rightarrow> worker_acc
     \<Rightarrow> worker_acc \<times> share_row list" where
  "updateShareWorker cfg m job workerName bt dbJobHeight timeNow isTrustedShare w =
     (let raw = getRawShareReward job
      in if fl (timeNow - wa_time w) \<le> getShareAccTimeMs cfg \<and> wa_acc w < 100000000
         then (w\<lparr>wa_acc := fl (wa_acc w + sj_rewarded job), wa_raw_acc := fl (wa_raw_acc w + raw),
                 wa_acc2 := fl (wa_acc2 w + sj_rewarded2 job), wa_share_num := wa_share_num w + 1,
                 wa_trusted := wa_trusted w \<and> isTrustedShare\<rparr>, [])
         else (\<lparr>wa_height = dbJobHeight, wa_difficulty = bt_difficulty bt, wa_time = timeNow, wa_acc = sj_rewarded job,
                wa_raw_acc = raw, wa_acc2 = sj_rewarded2 job, wa_share_num = 1, wa_trusted = isTrustedShare\<rparr>,
               if wa_acc w \<noteq> 0 then storeShareDiv m workerName (bt_port bt) False isTrustedShare timeNow w else []))"

definition walletKey :: "login_miner \<Rightarrow> share_template \<Rightarrow> string" where
  "walletKey m bt = wallet_key m @ js_num_to_string (of_int (bt_port bt))"

definition shareWorkerName :: "acc_state \<Rightarrow> string \<Rightarrow> (string \<times> worker_acc) list \<Rightarrow> string \<Rightarrow> string" where
  "shareWorkerName s key wallet identifier =
     (if map_of wallet identifier \<noteq> None \<or> walletWorkerCount s key < maxWorkers then identifier else all_other_workers)"

definition openWallet :: "string \<Rightarrow> acc_state \<Rightarrow> acc_state" where
  "openWallet key s =
     (if walletAcc s key = None
      then s\<lparr>walletAcc := (walletAcc s)(key \<mapsto> []), walletWorkerCount := (walletWorkerCount s)(key := 0),
             isWalletAccFinalizer := (isWalletAccFinalizer s)(key := False)\<rparr>
      else s)"

definition ensureWorker ::
  "string \<Rightarrow> string \<Rightarrow> num option \<Rightarrow> share_template \<Rightarrow> num \<Rightarrow> bool \<Rightarrow> (string \<times> worker_acc) list \<Rightarrow> acc_state
     \<Rightarrow> (string \<times> worker_acc) list \<times> acc_state" where
  "ensureWorker key name dbJobHeight bt timeNow isTrustedShare wallet s =
     (if map_of wallet name \<noteq> None then (wallet, s)
      else addShareWorker key name dbJobHeight bt timeNow isTrustedShare wallet s)"

definition armFinalizer :: "string \<Rightarrow> login_miner \<Rightarrow> int \<Rightarrow> acc_state \<Rightarrow> acc_state" where
  "armFinalizer key m btPort s =
     (if isWalletAccFinalizer s key then s
      else s\<lparr>isWalletAccFinalizer := (isWalletAccFinalizer s)(key := True), finalizers := finalizers s @ [(key, m, btPort)]\<rparr>)"

definition recordShareData ::
  "acc_config \<Rightarrow> num option \<Rightarrow> login_miner \<Rightarrow> share_job \<Rightarrow> bool \<Rightarrow> share_template \<Rightarrow> num \<Rightarrow> acc_state \<Rightarrow> acc_state" where
  "recordShareData cfg anchor m job isTrustedShare bt timeNow s =
     (let key = walletKey m bt;
          s1 = openWallet key s;
          dbJobHeight = (if ac_daemonPort cfg = bt_port bt then Some (bt_height bt) else anchor)
      in case walletAcc s1 key of
           None \<Rightarrow> s1
         | Some wallet \<Rightarrow>
             let name = shareWorkerName s1 key wallet (lm_identifier m);
                 (wallet2, s2) = ensureWorker key name dbJobHeight bt timeNow isTrustedShare wallet s1
             in case map_of wallet2 name of
                  None \<Rightarrow> s2
                | Some w \<Rightarrow>
                    let (w', rows) = updateShareWorker cfg m job name bt dbJobHeight timeNow isTrustedShare w
                    in armFinalizer key m (bt_port bt)
                         (s2\<lparr>walletAcc := (walletAcc s2)(key \<mapsto> AList.update name w' wallet2), stored := stored s2 @ rows\<rparr>))"

definition emptyAcc :: acc_state where
  "emptyAcc = \<lparr>walletAcc = (\<lambda>k. None), walletWorkerCount = (\<lambda>k. 0), isWalletAccFinalizer = (\<lambda>k. False), finalizers = [], stored = []\<rparr>"

text \<open>The events of a node: a share is accepted, the timer of a wallet fires.\<close>

record share_event =
  ev_miner :: login_miner
  ev_job :: share_job
  ev_template :: share_template
  ev_anchor :: "num option"
  ev_time :: num
  ev_trusted :: bool

definition accept :: "acc_config \<Rightarrow> share_event \<Rightarrow> acc_state \<Rightarrow> acc_state" where
  "accept cfg e = recordShareData cfg (ev_anchor e) (ev_miner e) (ev_job e) (ev_trusted e) (ev_template e) (ev_time e)"

text \<open>Rewards are positive doubles.\<close>

definition event_ok :: "share_event \<Rightarrow> bool" where
  "event_ok e \<longleftrightarrow> 0 < sj_rewarded (ev_job e) \<and> fl (sj_rewarded (ev_job e)) = sj_rewarded (ev_job e) \<and>
     fl (sj_rewarded2 (ev_job e)) = sj_rewarded2 (ev_job e)"

inductive acc_reach :: "acc_config \<Rightarrow> share_event list \<Rightarrow> acc_state \<Rightarrow> bool" for cfg where
  boot: "acc_reach cfg [] emptyAcc"
| share: "acc_reach cfg hist s \<Longrightarrow> event_ok e \<Longrightarrow> acc_reach cfg (hist @ [e]) (accept cfg e s)"
| fire: "acc_reach cfg hist s \<Longrightarrow> finalizers s = fs @ (key, m, btPort) # fs' \<Longrightarrow>
    acc_reach cfg hist (walletAccFinalizer cfg key m btPort now (s\<lparr>finalizers := fs @ fs'\<rparr>))"

subsection \<open>Reference: batches of shares\<close>

text \<open>
  The accumulator of a worker is the running sum over a list of accepted shares; what is
  stored comes from batches, each with the shares it stands for.
\<close>

definition ev_key :: "share_event \<Rightarrow> string" where
  "ev_key e = walletKey (ev_miner e) (ev_template e)"

definition firstWorker :: "acc_config \<Rightarrow> share_event \<Rightarrow> worker_acc" where
  "firstWorker cfg e =
     \<lparr>wa_height = (if ac_daemonPort cfg = bt_port (ev_template e) then Some (bt_height (ev_template e)) else ev_anchor e),
      wa_difficulty = bt_difficulty (ev_template e), wa_time = ev_time e, wa_acc = sj_rewarded (ev_job e),
      wa_raw_acc = getRawShareReward (ev_job e), wa_acc2 = sj_rewarded2 (ev_job e), wa_share_num = 1, wa_trusted = ev_trusted e\<rparr>"

definition addWorker :: "worker_acc \<Rightarrow> share_event \<Rightarrow> worker_acc" where
  "addWorker w e =
     w\<lparr>wa_acc := fl (wa_acc w + sj_rewarded (ev_job e)), wa_raw_acc := fl (wa_raw_acc w + getRawShareReward (ev_job e)),
       wa_acc2 := fl (wa_acc2 w + sj_rewarded2 (ev_job e)), wa_share_num := wa_share_num w + 1,
       wa_trusted := wa_trusted w \<and> ev_trusted e\<rparr>"

definition worker_of :: "acc_config \<Rightarrow> share_event list \<Rightarrow> worker_acc" where
  "worker_of cfg es = foldl addWorker (firstWorker cfg (hd es)) (tl es)"

record batch =
  g_miner :: login_miner
  g_name :: string
  g_port :: int
  g_trusted :: bool
  g_time :: num
  g_events :: "share_event list"

definition g_key :: "batch \<Rightarrow> string" where
  "g_key g = wallet_key (g_miner g) @ js_num_to_string (of_int (g_port g))"

definition rows_of :: "acc_config \<Rightarrow> batch \<Rightarrow> share_row list" where
  "rows_of cfg g = storeShareDiv (g_miner g) (g_name g) (g_port g) False (g_trusted g) (g_time g) (worker_of cfg (g_events g))"

definition pending :: "acc_state \<Rightarrow> string \<Rightarrow> (string \<times> worker_acc) list" where
  "pending s k = (case walletAcc s k of Some wallet \<Rightarrow> wallet | None \<Rightarrow> [])"

definition batches_ok :: "batch list \<Rightarrow> bool" where
  "batches_ok gs \<longleftrightarrow> (\<forall>g \<in> set gs. g_events g \<noteq> [] \<and> (\<forall>e \<in> set (g_events g). ev_key e = g_key g))"

definition acc_written :: "batch list \<Rightarrow> string \<Rightarrow> share_event multiset" where
  "acc_written gs k = mset (concat (map g_events (filter (\<lambda>g. g_key g = k) gs)))"

definition share_batch :: "string \<Rightarrow> share_event list \<Rightarrow> bool" where
  "share_batch k es \<longleftrightarrow> es \<noteq> [] \<and> list_all event_ok es \<and> (\<forall>e \<in> set es. ev_key e = k)"

definition covers ::
  "acc_config \<Rightarrow> share_event list \<Rightarrow> batch list \<Rightarrow> string \<Rightarrow> (string \<times> worker_acc) list \<Rightarrow> (string \<times> share_event list) list \<Rightarrow> bool" where
  "covers cfg hist gs k wallet P \<longleftrightarrow> wallet = map (map_prod id (worker_of cfg)) P \<and> distinct (map fst P) \<and>
     (\<forall>x \<in> set P. share_batch k (snd x)) \<and>
     mset (filter (\<lambda>e. ev_key e = k) hist) = mset (concat (map snd P)) + acc_written gs k"

definition acc_inv :: "acc_config \<Rightarrow> share_event list \<Rightarrow> batch list \<Rightarrow> acc_state \<Rightarrow> bool" where
  "acc_inv cfg hist gs s \<longleftrightarrow> stored s = concat (map (rows_of cfg) gs) \<and> batches_ok gs \<and>
     (\<forall>k. \<exists>P. covers cfg hist gs k (pending s k) P)"

lemma worker_of_single [simp]: "worker_of cfg [e] = firstWorker cfg e"
  by (simp add: worker_of_def)

lemma worker_of_snoc: "es \<noteq> [] \<Longrightarrow> worker_of cfg (es @ [e]) = addWorker (worker_of cfg es) e"
  by (cases es) (simp_all add: worker_of_def)

lemma worker_of_pos: "es \<noteq> [] \<Longrightarrow> list_all event_ok es \<Longrightarrow> 0 < wa_acc (worker_of cfg es)"
proof (induction es rule: rev_induct)
  case (snoc e es)
  then show ?case by (cases "es = []") (auto simp: worker_of_snoc firstWorker_def addWorker_def event_ok_def)
qed simp

lemma map_update: "map (map_prod id f) (AList.update n v P) = AList.update n (f v) (map (map_prod id f) P)"
  by (induction P) (auto simp: map_prod_def)

lemma map_delete: "map (map_prod id f) (AList.delete n P) = AList.delete n (map (map_prod id f) P)"
  by (induction P) (auto simp: AList.delete_eq)

lemma map_of_prod: "map_of (map (map_prod id f) P) n = map_option f (map_of P n)"
  by (induction P) auto

definition part_of :: "string \<Rightarrow> (string \<times> 'e list) list \<Rightarrow> 'e list" where
  "part_of n P = (case map_of P n of Some es \<Rightarrow> es | None \<Rightarrow> [])"

lemma mset_update: "distinct (map fst P) \<Longrightarrow>
    mset (concat (map snd (AList.update n es P))) + mset (part_of n P) = mset (concat (map snd P)) + mset es"
proof (induction P)
  case (Cons x P)
  then show ?case by (cases x) (auto simp: part_of_def)
qed (simp add: part_of_def)

lemma mset_delete: "distinct (map fst P) \<Longrightarrow>
    mset (concat (map snd (AList.delete n P))) + mset (part_of n P) = mset (concat (map snd P))"
proof (induction P)
  case (Cons x P)
  obtain a es where x: "x = (a, es)" by force
  show ?case
  proof (cases "a = n")
    case True
    then have "n \<notin> fst ` set P" using Cons.prems by (simp add: x)
    then have "AList.delete n P = P" by (rule delete_id)
    with True show ?thesis by (simp add: x part_of_def)
  next
    case False
    with Cons show ?thesis by (auto simp: x part_of_def)
  qed
qed (simp add: part_of_def)

lemma acc_written_snoc: "acc_written (gs @ [g]) k = acc_written gs k + (if g_key g = k then mset (g_events g) else {#})"
  by (simp add: acc_written_def)

lemma covers_find:
  assumes "covers cfg hist gs k wallet P" "map_of wallet n = Some w"
  shows "w = worker_of cfg (part_of n P)" "share_batch k (part_of n P)" "wa_acc w \<noteq> 0"
proof -
  obtain es where es: "map_of P n = Some es" "w = worker_of cfg es"
    using assms by (auto simp: covers_def map_of_prod)
  have "share_batch k es" using assms(1) map_of_SomeD [OF es(1)] by (force simp: covers_def)
  then show "w = worker_of cfg (part_of n P)" "share_batch k (part_of n P)" "wa_acc w \<noteq> 0"
    using es worker_of_pos [of es cfg] by (simp_all add: part_of_def share_batch_def)
qed

lemma set_update_sub: "set (AList.update n v P) \<subseteq> insert (n, v) (set P)"
  by (induction P) auto

lemma covers_flush:
  assumes "covers cfg hist gs k wallet P" "g_key g = k" "g_events g = part_of n P"
  shows "covers cfg hist (gs @ [g]) k (AList.delete n wallet) (AList.delete n P)"
proof -
  have "set (AList.delete n P) \<subseteq> set P" by (auto simp: AList.delete_eq)
  moreover have "distinct (map fst (AList.delete n P))" using assms(1) by (simp add: covers_def distinct_delete)
  ultimately show ?thesis using assms mset_delete [of P n]
    by (auto simp: covers_def map_delete acc_written_snoc)
qed

lemma covers_put:
  assumes "covers cfg hist gs k wallet P" "ev_key e = k" "event_ok e"
  shows "covers cfg (hist @ [e]) gs k (AList.update n (worker_of cfg (part_of n P @ [e])) wallet) (AList.update n (part_of n P @ [e]) P)"
proof -
  have "part_of n P = [] \<or> share_batch k (part_of n P)"
    using assms(1) by (force simp: covers_def part_of_def split: option.split dest!: map_of_SomeD)
  then have "share_batch k (part_of n P @ [e])" using assms(2,3) by (auto simp: share_batch_def)
  then have "\<forall>x \<in> set (AList.update n (part_of n P @ [e]) P). share_batch k (snd x)"
    using assms(1) set_update_sub [of n "part_of n P @ [e]" P] by (auto simp: covers_def)
  moreover have "distinct (map fst (AList.update n (part_of n P @ [e]) P))" using assms(1) by (simp add: covers_def distinct_update)
  ultimately show ?thesis using assms(1,2) mset_update [of P n "part_of n P @ [e]"]
    by (auto simp: covers_def map_update)
qed

lemma covers_replace:
  assumes "covers cfg hist gs k wallet P" "ev_key e = k" "event_ok e" "g_key g = k" "g_events g = part_of n P"
  shows "covers cfg (hist @ [e]) (gs @ [g]) k (AList.update n (firstWorker cfg e) wallet) (AList.update n [e] P)"
proof -
  have "share_batch k [e]" using assms(2,3) by (simp add: share_batch_def)
  then have "\<forall>x \<in> set (AList.update n [e] P). share_batch k (snd x)"
    using assms(1) set_update_sub [of n "[e]" P] by (auto simp: covers_def)
  moreover have "distinct (map fst (AList.update n [e] P))" using assms(1) by (simp add: covers_def distinct_update)
  ultimately show ?thesis using assms mset_update [of P n "[e]"]
    by (auto simp: covers_def map_update acc_written_snoc)
qed

lemma covers_other: "covers cfg hist gs k wallet P \<Longrightarrow> g_key g \<noteq> k \<Longrightarrow> covers cfg hist (gs @ [g]) k wallet P"
  by (simp add: covers_def acc_written_snoc)

lemma covers_event: "covers cfg hist gs k wallet P \<Longrightarrow> ev_key e \<noteq> k \<Longrightarrow> covers cfg (hist @ [e]) gs k wallet P"
  by (simp add: covers_def)

lemma covers_others: "covers cfg hist gs k wallet P \<Longrightarrow> \<forall>g \<in> set gs'. g_key g \<noteq> k \<Longrightarrow> covers cfg hist (gs @ gs') k wallet P"
proof (induction gs' rule: rev_induct)
  case (snoc g gs')
  then show ?case using covers_other [of cfg hist "gs @ gs'" k wallet P g] by simp
qed simp

subsection \<open>The timer\<close>

definition named :: "(string \<times> worker_acc) list \<Rightarrow> int" where
  "named wallet = int (length (filter (\<lambda>x. fst x \<noteq> all_other_workers) wallet))"

lemma named_delete:
  assumes "distinct (map fst wallet)" "map_of wallet n \<noteq> None"
  shows "named wallet = named (AList.delete n wallet) + (if n \<noteq> all_other_workers then 1 else 0)"
  using assms
proof (induction wallet)
  case (Cons x wallet)
  show ?case
  proof (cases "fst x = n")
    case True
    then have "n \<notin> fst ` set wallet" using Cons.prems(1) by auto
    then have "AList.delete n wallet = wallet" by (rule delete_id)
    with True show ?thesis by (cases x) (simp add: named_def)
  next
    case False
    with Cons show ?thesis by (cases x) (auto simp: named_def)
  qed
qed simp

lemma finalize_frame:
  "finalizeWorkers cfg key m port now names wallet s = (wallet', s') \<Longrightarrow>
     walletAcc s' = walletAcc s \<and> finalizers s' = finalizers s \<and> isWalletAccFinalizer s' = isWalletAccFinalizer s \<and>
     (\<forall>k. k \<noteq> key \<longrightarrow> walletWorkerCount s' k = walletWorkerCount s k)"
  by (induction cfg key m port now names wallet s rule: finalizeWorkers.induct) (auto split: option.splits if_splits)

lemma finalize_count:
  "finalizeWorkers cfg key m port now names wallet s = (wallet', s') \<Longrightarrow> distinct (map fst wallet) \<Longrightarrow>
     walletWorkerCount s key = named wallet \<Longrightarrow>
     walletWorkerCount s' key = named wallet' \<and> distinct (map fst wallet') \<and> named wallet' \<le> named wallet"
proof (induction cfg key m port now names wallet s rule: finalizeWorkers.induct)
  case (2 cfg key m port now name names wallet s)
  show ?case
  proof (cases "map_of wallet name")
    case None
    with 2 show ?thesis by simp
  next
    case (Some w)
    have n: "named wallet = named (AList.delete name wallet) + (if name \<noteq> all_other_workers then 1 else 0)"
      using 2(5) Some by (intro named_delete) simp_all
    have nn: "0 \<le> named (AList.delete name wallet)" by (simp add: named_def)
    show ?thesis
    proof (cases "getShareAccTimeMs cfg < fl (now - wa_time w)")
      case True
      let ?s = "s\<lparr>stored := stored s @ (if wa_acc w \<noteq> 0 then storeShareDiv m name port False (wa_trusted w) now w else []),
          walletWorkerCount := (if name \<noteq> all_other_workers
             then (walletWorkerCount s)(key := max 0 (walletWorkerCount s key - 1)) else walletWorkerCount s)\<rparr>"
      have run: "finalizeWorkers cfg key m port now names (AList.delete name wallet) ?s = (wallet', s')"
        using 2(4) Some True by simp
      have c: "walletWorkerCount ?s key = named (AList.delete name wallet)" using n nn 2(6) by auto
      have d: "distinct (map fst (AList.delete name wallet))" using 2(5) by (rule distinct_delete)
      show ?thesis using 2(2) [OF Some True run d c] n by auto
    next
      case False
      with 2(3) [OF Some False _ 2(5,6)] 2(4) Some show ?thesis by simp
    qed
  qed
qed simp

lemma finalize_batches:
  "finalizeWorkers cfg key m port now names wallet s = (wallet', s') \<Longrightarrow> key = wallet_key m @ js_num_to_string (of_int port) \<Longrightarrow>
     covers cfg hist gs key wallet P \<Longrightarrow> stored s = concat (map (rows_of cfg) gs) \<Longrightarrow> batches_ok gs \<Longrightarrow>
     \<exists>gs' P'. covers cfg hist (gs @ gs') key wallet' P' \<and> stored s' = concat (map (rows_of cfg) (gs @ gs')) \<and>
       batches_ok (gs @ gs') \<and> (\<forall>g \<in> set gs'. g_key g = key)"
proof (induction cfg key m port now names wallet s arbitrary: gs P rule: finalizeWorkers.induct)
  case (1 cfg key m port now wallet s)
  then show ?case by (intro exI [of _ "[]"] exI [of _ P]) simp
next
  case (2 cfg key m port now name names wallet s)
  show ?case
  proof (cases "map_of wallet name")
    case None
    with 2 show ?thesis by simp
  next
    case (Some w)
    show ?thesis
    proof (cases "getShareAccTimeMs cfg < fl (now - wa_time w)")
      case True
      let ?s = "s\<lparr>stored := stored s @ (if wa_acc w \<noteq> 0 then storeShareDiv m name port False (wa_trusted w) now w else []),
          walletWorkerCount := (if name \<noteq> all_other_workers
             then (walletWorkerCount s)(key := max 0 (walletWorkerCount s key - 1)) else walletWorkerCount s)\<rparr>"
      define g where "g = \<lparr>g_miner = m, g_name = name, g_port = port, g_trusted = wa_trusted w, g_time = now,
        g_events = part_of name P\<rparr>"
      note w = covers_find [OF 2(6) Some]
      have run: "finalizeWorkers cfg key m port now names (AList.delete name wallet) ?s = (wallet', s')"
        using 2(4) Some True by simp
      have k: "g_key g = key" using 2(5) by (simp add: g_key_def g_def)
      have c: "covers cfg hist (gs @ [g]) key (AList.delete name wallet) (AList.delete name P)"
        using 2(6) k by (rule covers_flush) (simp add: g_def)
      have r: "rows_of cfg g = storeShareDiv m name port False (wa_trusted w) now w"
        using w(1) by (simp add: rows_of_def g_def)
      have st: "stored ?s = concat (map (rows_of cfg) (gs @ [g]))"
        using 2(7) w(3) r by simp
      have b: "batches_ok (gs @ [g])" using 2(8) w(2) k by (auto simp: batches_ok_def share_batch_def g_def)
      from 2(2) [OF Some True run 2(5) c st b]
      obtain gs' P' where "covers cfg hist ((gs @ [g]) @ gs') key wallet' P'" "stored s' = concat (map (rows_of cfg) ((gs @ [g]) @ gs'))"
        "batches_ok ((gs @ [g]) @ gs')" "\<forall>g \<in> set gs'. g_key g = key" by blast
      then show ?thesis using k by (intro exI [of _ "g # gs'"] exI [of _ P']) simp
    next
      case False
      with 2(3) [OF Some False _ 2(5-8)] 2(4) Some show ?thesis by simp
    qed
  qed
qed

subsection \<open>Invariants\<close>

definition finalizers_ok :: "acc_state \<Rightarrow> bool" where
  "finalizers_ok s \<longleftrightarrow> (\<forall>(k, m, p) \<in> set (finalizers s). k = wallet_key m @ js_num_to_string (of_int p)) \<and>
     distinct (map fst (finalizers s)) \<and> (\<forall>k. isWalletAccFinalizer s k \<longleftrightarrow> k \<in> fst ` set (finalizers s)) \<and>
     (\<forall>k. pending s k \<noteq> [] \<longrightarrow> isWalletAccFinalizer s k) \<and> (\<forall>k. isWalletAccFinalizer s k \<longrightarrow> walletAcc s k \<noteq> None)"

definition workers_ok :: "acc_state \<Rightarrow> bool" where
  "workers_ok s \<longleftrightarrow> (\<forall>k. walletAcc s k \<noteq> None \<longrightarrow> walletWorkerCount s k = named (pending s k) \<and>
     distinct (map fst (pending s k)) \<and> named (pending s k) \<le> maxWorkers)"

lemma pending_upd [simp]:
  "pending (s\<lparr>walletAcc := (walletAcc s')(key \<mapsto> w)\<rparr>) k = (if k = key then w else pending (s\<lparr>walletAcc := walletAcc s'\<rparr>) k)"
  by (simp add: pending_def)

lemma fire_ok:
  fixes now :: num
  assumes inv: "acc_inv cfg hist gs s" and tm: "finalizers_ok s" and wk: "workers_ok s"
    and f: "finalizers s = fs @ (key, m, port) # fs'"
  defines "s' \<equiv> walletAccFinalizer cfg key m port now (s\<lparr>finalizers := fs @ fs'\<rparr>)"
  shows "\<exists>gs'. acc_inv cfg hist gs' s'" "finalizers_ok s'" "workers_ok s'"
proof -
  let ?s0 = "s\<lparr>finalizers := fs @ fs'\<rparr>"
  have key: "key = wallet_key m @ js_num_to_string (of_int port)" using tm f by (simp add: finalizers_ok_def)
  have fs: "key \<notin> fst ` set (fs @ fs')" "distinct (map fst (fs @ fs'))" using tm f by (auto simp: finalizers_ok_def)
  have keys: "\<forall>(k, m, p) \<in> set (fs @ fs'). k = wallet_key m @ js_num_to_string (of_int p)" using tm f by (auto simp: finalizers_ok_def)
  have fin: "isWalletAccFinalizer s k \<longleftrightarrow> k = key \<or> k \<in> fst ` set (fs @ fs')" for k using tm f by (auto simp: finalizers_ok_def)
  have none: "pending s k = []" if "\<not> isWalletAccFinalizer s k" for k using tm that by (auto simp: finalizers_ok_def)
  have some: "walletAcc s k \<noteq> None" if "isWalletAccFinalizer s k" for k using tm that by (auto simp: finalizers_ok_def)
  show "\<exists>gs'. acc_inv cfg hist gs' s'" "finalizers_ok s'" "workers_ok s'"
  proof -
    consider "walletAcc s key = None" | wallet where "walletAcc s key = Some wallet" by (cases "walletAcc s key")
    then have "(\<exists>gs'. acc_inv cfg hist gs' s') \<and> finalizers_ok s' \<and> workers_ok s'"
    proof cases
      case 1
      then have s': "s' = ?s0\<lparr>isWalletAccFinalizer := (isWalletAccFinalizer s)(key := False)\<rparr>"
        by (simp add: s'_def walletAccFinalizer_def)
      have p: "pending s' k = pending s k" for k by (simp add: s' pending_def)
      have "acc_inv cfg hist gs s'" using inv by (simp add: acc_inv_def p) (simp add: s')
      moreover have "finalizers_ok s'"
        using keys fs fin none some 1 unfolding finalizers_ok_def p by (auto simp: s' pending_def)
      moreover have "workers_ok s'" using wk unfolding workers_ok_def p by (simp add: s')
      ultimately show ?thesis by blast
    next
      case 2
      obtain wallet' s1 where run: "finalizeWorkers cfg key m port now (own_keys (map fst wallet)) wallet ?s0 = (wallet', s1)"
        by force
      have pk: "pending s key = wallet" using 2 by (simp add: pending_def)
      note fr = finalize_frame [OF run]
      obtain P where P: "covers cfg hist gs key wallet P" using inv pk by (auto simp: acc_inv_def)
      have st: "stored ?s0 = concat (map (rows_of cfg) gs)" "batches_ok gs" using inv by (simp_all add: acc_inv_def)
      from finalize_batches [OF run key P st] obtain gs' P' where
        new: "covers cfg hist (gs @ gs') key wallet' P'" "stored s1 = concat (map (rows_of cfg) (gs @ gs'))"
          "batches_ok (gs @ gs')" "\<forall>g \<in> set gs'. g_key g = key" by blast
      have wkey: "walletWorkerCount s key = named wallet \<and> distinct (map fst wallet) \<and> named wallet \<le> maxWorkers"
        using wk 2 pk by (auto simp: workers_ok_def)
      have cnt: "walletWorkerCount s1 key = named wallet' \<and> distinct (map fst wallet') \<and> named wallet' \<le> named wallet"
        using finalize_count [OF run] wkey by simp
      have s': "s' = (if wallet' \<noteq> [] then s1\<lparr>walletAcc := (walletAcc s)(key \<mapsto> wallet'), finalizers := fs @ fs' @ [(key, m, port)]\<rparr>
          else s1\<lparr>walletAcc := (walletAcc s)(key \<mapsto> wallet'), isWalletAccFinalizer := (isWalletAccFinalizer s)(key := False)\<rparr>)"
        using fr by (simp add: s'_def walletAccFinalizer_def 2 run)
      have p: "pending s' k = (if k = key then wallet' else pending s k)" for k by (simp add: s' pending_def)
      have "acc_inv cfg hist (gs @ gs') s'"
      proof -
        have "\<exists>Q. covers cfg hist (gs @ gs') k (pending s' k) Q" for k
        proof (cases "k = key")
          case True
          then show ?thesis using new(1) by (auto simp: p)
        next
          case False
          obtain Q where "covers cfg hist gs k (pending s k) Q" using inv by (auto simp: acc_inv_def)
          then have "covers cfg hist (gs @ gs') k (pending s k) Q" using new(4) False by (intro covers_others) auto
          then show ?thesis using False by (auto simp: p)
        qed
        moreover have "stored s' = stored s1" by (simp add: s')
        ultimately show ?thesis using new(2,3) by (simp add: acc_inv_def)
      qed
      moreover have "finalizers_ok s'"
        using keys fs fin none some fr key unfolding finalizers_ok_def p by (auto simp: s')
      moreover have "workers_ok s'"
        using wk cnt fr wkey unfolding workers_ok_def p by (auto simp: s')
      ultimately show ?thesis by blast
    qed
    then show "\<exists>gs'. acc_inv cfg hist gs' s'" "finalizers_ok s'" "workers_ok s'" by blast+
  qed
qed

subsection \<open>An accepted share\<close>

lemma openWallet_ok:
  assumes "acc_inv cfg hist gs s" "finalizers_ok s" "workers_ok s"
  shows "acc_inv cfg hist gs (openWallet key s) \<and> finalizers_ok (openWallet key s) \<and> workers_ok (openWallet key s) \<and>
    walletAcc (openWallet key s) key = Some (pending (openWallet key s) key)"
proof (cases "walletAcc s key = None")
  case True
  let ?s = "openWallet key s"
  have p: "pending ?s k = pending s k" for k by (simp add: openWallet_def pending_def True)
  have "\<not> isWalletAccFinalizer s key" using assms(2) True unfolding finalizers_ok_def by metis
  then have f: "isWalletAccFinalizer ?s = isWalletAccFinalizer s" by (simp add: openWallet_def fun_upd_idem_iff)
  have "pending s key = []" using True by (simp add: pending_def)
  then have "workers_ok ?s" using assms(3) unfolding workers_ok_def p by (auto simp: openWallet_def True named_def maxWorkers_def)
  moreover have "finalizers_ok ?s"
    using assms(2) unfolding finalizers_ok_def p f by (auto simp: openWallet_def True)
  moreover have "acc_inv cfg hist gs ?s" using assms(1) unfolding acc_inv_def p by (simp add: openWallet_def True)
  ultimately show ?thesis using p [of key] by (simp add: openWallet_def True pending_def)
next
  case False
  then show ?thesis using assms by (auto simp: openWallet_def pending_def)
qed

lemma accTime_nonneg: "0 \<le> getShareAccTimeMs cfg"
  by (simp add: getShareAccTimeMs_def split: option.split)

definition event_port :: "share_event \<Rightarrow> int" where
  "event_port e = bt_port (ev_template e)"

definition event_height :: "acc_config \<Rightarrow> share_event \<Rightarrow> num option" where
  "event_height cfg e = (if ac_daemonPort cfg = bt_port (ev_template e) then Some (bt_height (ev_template e)) else ev_anchor e)"

definition put_share :: "acc_config \<Rightarrow> share_event \<Rightarrow> string \<Rightarrow> worker_acc \<Rightarrow> worker_acc \<times> share_row list" where
  "put_share cfg e name w =
     updateShareWorker cfg (ev_miner e) (ev_job e) name (ev_template e) (event_height cfg e) (ev_time e) (ev_trusted e) w"

lemma put_known:
  assumes "wa_acc w \<noteq> 0"
  shows "put_share cfg e name w = (addWorker w e, []) \<or>
    put_share cfg e name w = (firstWorker cfg e, storeShareDiv (ev_miner e) name (event_port e) False (ev_trusted e) (ev_time e) w)"
  using assms by (simp add: put_share_def updateShareWorker_def addWorker_def firstWorker_def Let_def event_port_def event_height_def)

lemma put_new:
  assumes "event_ok e"
  shows "put_share cfg e name \<lparr>wa_height = event_height cfg e, wa_difficulty = bt_difficulty (ev_template e), wa_time = ev_time e,
     wa_acc = 0, wa_raw_acc = 0, wa_acc2 = 0, wa_share_num = 0, wa_trusted = ev_trusted e\<rparr> = (firstWorker cfg e, [])"
  using assms accTime_nonneg [of cfg]
  by (simp add: put_share_def updateShareWorker_def firstWorker_def Let_def event_ok_def event_height_def getRawShareReward_def)

lemma update_new: "map_of wallet n = None \<Longrightarrow> AList.update n v (wallet @ [(n, u)]) = AList.update n v wallet"
  by (induction wallet) (auto split: if_splits)

lemma named_update:
  "named (AList.update n v wallet) = named wallet + (if map_of wallet n = None \<and> n \<noteq> all_other_workers then 1 else 0)"
  by (induction wallet) (auto simp: named_def)

lemma accept_unfold:
  fixes s :: acc_state
  assumes "event_ok e"
  defines "key \<equiv> ev_key e"
  defines "s1 \<equiv> openWallet key s"
  defines "wallet \<equiv> pending s1 key"
  defines "name \<equiv> shareWorkerName s1 key wallet (lm_identifier (ev_miner e))"
  assumes some: "walletAcc s1 key = Some wallet"
  shows "\<exists>w' rows. accept cfg e s = armFinalizer key (ev_miner e) (event_port e)
       (s1\<lparr>walletWorkerCount := (if map_of wallet name = None \<and> name \<noteq> all_other_workers
              then (walletWorkerCount s1)(key := walletWorkerCount s1 key + 1) else walletWorkerCount s1),
           walletAcc := (walletAcc s1)(key \<mapsto> AList.update name w' wallet), stored := stored s1 @ rows\<rparr>) \<and>
     (case map_of wallet name of None \<Rightarrow> w' = firstWorker cfg e \<and> rows = [] | Some w \<Rightarrow> (w', rows) = put_share cfg e name w)"
proof (cases "map_of wallet name")
  case None
  note new = put_new [OF assms(1), of cfg name, unfolded put_share_def]
  have look: "map_of (wallet @ [(name, z)]) name = Some z" for z using None by (simp add: map_add_Some_iff)
  have "accept cfg e s = armFinalizer key (ev_miner e) (event_port e)
       (s1\<lparr>walletWorkerCount := (if map_of wallet name = None \<and> name \<noteq> all_other_workers
              then (walletWorkerCount s1)(key := walletWorkerCount s1 key + 1) else walletWorkerCount s1),
           walletAcc := (walletAcc s1)(key \<mapsto> AList.update name (firstWorker cfg e) wallet)\<rparr>)"
    using some None
    by (simp add: accept_def recordShareData_def key_def [symmetric] ev_key_def [symmetric] s1_def [symmetric] name_def [symmetric]
        ensureWorker_def addShareWorker_def Let_def event_height_def [symmetric] new event_port_def update_new look del: map_of_append)
  then show ?thesis using None by (intro exI [of _ "firstWorker cfg e"] exI [of _ "[]"]) simp
next
  case (Some w)
  obtain w' rows where r: "put_share cfg e name w = (w', rows)" by force
  have "accept cfg e s = armFinalizer key (ev_miner e) (event_port e)
       (s1\<lparr>walletAcc := (walletAcc s1)(key \<mapsto> AList.update name w' wallet), stored := stored s1 @ rows\<rparr>)"
    using some Some r
    by (simp add: accept_def recordShareData_def key_def [symmetric] ev_key_def [symmetric] s1_def [symmetric] name_def [symmetric]
        ensureWorker_def Let_def put_share_def event_height_def event_port_def)
  then show ?thesis using r Some by auto
qed

lemma arm_sel [simp]:
  "walletAcc (armFinalizer key m port s) = walletAcc s" "stored (armFinalizer key m port s) = stored s"
  "walletWorkerCount (armFinalizer key m port s) = walletWorkerCount s" "pending (armFinalizer key m port s) k = pending s k"
  by (simp_all add: armFinalizer_def pending_def)

lemma arm_timers:
  assumes "finalizers_ok s" "key = wallet_key m @ js_num_to_string (of_int port)" "isWalletAccFinalizer s' = isWalletAccFinalizer s"
    "finalizers s' = finalizers s" "\<forall>k. pending s' k \<noteq> [] \<longrightarrow> k = key \<or> pending s k \<noteq> []"
    "walletAcc s' key \<noteq> None" "\<forall>k. walletAcc s k \<noteq> None \<longrightarrow> walletAcc s' k \<noteq> None"
  shows "finalizers_ok (armFinalizer key m port s')"
  using assms unfolding finalizers_ok_def arm_sel by (auto simp: armFinalizer_def)

lemma accept_ok:
  assumes inv: "acc_inv cfg hist gs s" and tm: "finalizers_ok s" and wk: "workers_ok s" and e: "event_ok e"
  shows "\<exists>gs'. acc_inv cfg (hist @ [e]) gs' (accept cfg e s)" "finalizers_ok (accept cfg e s)" "workers_ok (accept cfg e s)"
proof -
  define key where "key = ev_key e"
  define s1 where "s1 = openWallet key s"
  define wallet where "wallet = pending s1 key"
  define name where "name = shareWorkerName s1 key wallet (lm_identifier (ev_miner e))"
  have o: "acc_inv cfg hist gs s1" "finalizers_ok s1" "workers_ok s1" "walletAcc s1 key = Some wallet"
    using openWallet_ok [OF inv tm wk, of key] by (simp_all add: s1_def wallet_def)
  let ?isnew = "map_of wallet name = None \<and> name \<noteq> all_other_workers"
  let ?s2 = "\<lambda>w' rows. s1\<lparr>walletWorkerCount := (if ?isnew then (walletWorkerCount s1)(key := walletWorkerCount s1 key + 1) else walletWorkerCount s1),
      walletAcc := (walletAcc s1)(key \<mapsto> AList.update name w' wallet), stored := stored s1 @ rows\<rparr>"
  from accept_unfold [OF e, folded key_def, of s cfg, folded s1_def, folded wallet_def, folded name_def, OF o(4)]
  obtain w' rows where acc: "accept cfg e s = armFinalizer key (ev_miner e) (event_port e) (?s2 w' rows)"
    and w': "case map_of wallet name of None \<Rightarrow> w' = firstWorker cfg e \<and> rows = [] | Some w \<Rightarrow> (w', rows) = put_share cfg e name w"
    by blast
  have p: "pending (accept cfg e s) k = (if k = key then AList.update name w' wallet else pending s1 k)" for k
    by (simp add: acc pending_def)
  obtain P where P: "covers cfg hist gs key wallet P" using o(1) by (auto simp: acc_inv_def wallet_def)
  have kg: "key = wallet_key (ev_miner e) @ js_num_to_string (of_int (event_port e))"
    by (simp add: key_def ev_key_def walletKey_def event_port_def)
  have "\<exists>gs' P'. covers cfg (hist @ [e]) gs' key (AList.update name w' wallet) P' \<and>
      stored s1 @ rows = concat (map (rows_of cfg) gs') \<and> batches_ok gs' \<and>
      (\<exists>new. gs' = gs @ new \<and> (\<forall>g \<in> set new. g_key g = key))"
  proof (cases "map_of wallet name")
    case None
    then have "map_of P name = None" using P by (simp add: covers_def map_of_prod)
    then have at: "part_of name P = []" by (simp add: part_of_def)
    have "covers cfg (hist @ [e]) gs key (AList.update name w' wallet) (AList.update name [e] P)"
      using covers_put [OF P _ e, of name] w' None by (simp add: at key_def)
    then show ?thesis using w' None o(1) by (auto simp: acc_inv_def)
  next
    case (Some w)
    note w = covers_find [OF P Some]
    have ne: "part_of name P \<noteq> []" using w(2) by (simp add: share_batch_def)
    from put_known [OF w(3), of cfg e name] w' Some
    consider "w' = addWorker w e" "rows = []"
      | "w' = firstWorker cfg e" "rows = storeShareDiv (ev_miner e) name (event_port e) False (ev_trusted e) (ev_time e) w"
      by auto
    then show ?thesis
    proof cases
      case 1
      have "covers cfg (hist @ [e]) gs key (AList.update name w' wallet) (AList.update name (part_of name P @ [e]) P)"
        using covers_put [OF P _ e, of name] by (simp add: worker_of_snoc [OF ne] w(1) [symmetric] 1 key_def)
      then show ?thesis using 1 o(1) by (auto simp: acc_inv_def)
    next
      case 2
      define g where "g = \<lparr>g_miner = ev_miner e, g_name = name, g_port = event_port e, g_trusted = ev_trusted e, g_time = ev_time e,
        g_events = part_of name P\<rparr>"
      have k: "g_key g = key" by (simp add: g_key_def g_def kg)
      have r: "rows_of cfg g = rows" using w(1) by (simp add: rows_of_def g_def 2)
      have "covers cfg (hist @ [e]) (gs @ [g]) key (AList.update name w' wallet) (AList.update name [e] P)"
        unfolding 2 using P _ e k by (rule covers_replace) (simp_all add: key_def g_def)
      moreover have "batches_ok (gs @ [g])" using o(1) w(2) k by (auto simp: acc_inv_def batches_ok_def share_batch_def g_def)
      moreover have "stored s1 @ rows = concat (map (rows_of cfg) (gs @ [g]))" using o(1) r by (simp add: acc_inv_def)
      ultimately show ?thesis using k by (intro exI [of _ "gs @ [g]"] exI [of _ "AList.update name [e] P"]) auto
    qed
  qed
  then obtain gs' P' new where new: "covers cfg (hist @ [e]) gs' key (AList.update name w' wallet) P'"
    "stored s1 @ rows = concat (map (rows_of cfg) gs')" "batches_ok gs'" "gs' = gs @ new" "\<forall>g \<in> set new. g_key g = key" by blast
  have "\<exists>Q. covers cfg (hist @ [e]) gs' k (pending (accept cfg e s) k) Q" for k
  proof (cases "k = key")
    case True
    then show ?thesis using new(1) by (auto simp: p)
  next
    case False
    obtain Q where "covers cfg hist gs k (pending s1 k) Q" using o(1) by (auto simp: acc_inv_def)
    then have "covers cfg hist gs' k (pending s1 k) Q" unfolding new(4) using new(5) False by (intro covers_others) auto
    then have "covers cfg (hist @ [e]) gs' k (pending s1 k) Q" using False by (intro covers_event) (simp_all add: key_def)
    then show ?thesis using False by (auto simp: p)
  qed
  then show "\<exists>gs'. acc_inv cfg (hist @ [e]) gs' (accept cfg e s)"
    using new(2,3) by (intro exI [of _ gs']) (simp add: acc_inv_def acc)
  show "finalizers_ok (accept cfg e s)" unfolding acc using kg o(2,4)
    by (intro arm_timers [of s1]) (auto simp: pending_def wallet_def)
  have lim: "named wallet < maxWorkers" if "?isnew"
  proof -
    have "walletWorkerCount s1 key < maxWorkers" using that by (auto simp: name_def shareWorkerName_def split: if_splits)
    then show ?thesis using o(3,4) by (auto simp: workers_ok_def wallet_def)
  qed
  have "walletWorkerCount s1 key = named wallet \<and> distinct (map fst wallet) \<and> named wallet \<le> maxWorkers"
    using o(3,4) by (auto simp: workers_ok_def wallet_def)
  then show "workers_ok (accept cfg e s)"
    using o(3) lim unfolding workers_ok_def p by (auto simp: acc named_update distinct_update)
qed

lemma acc_reach_ok:
  "acc_reach cfg hist s \<Longrightarrow> (\<exists>gs. acc_inv cfg hist gs s) \<and> finalizers_ok s \<and> workers_ok s"
proof (induction rule: acc_reach.induct)
  case boot
  have "covers cfg [] [] k (pending emptyAcc k) []" for k by (simp add: covers_def acc_written_def pending_def emptyAcc_def)
  then have "acc_inv cfg [] [] emptyAcc" by (auto simp: acc_inv_def batches_ok_def emptyAcc_def)
  then show ?case by (auto simp: finalizers_ok_def workers_ok_def pending_def emptyAcc_def)
next
  case (share hist s e)
  then show ?case using accept_ok by blast
next
  case (fire hist s fs key m port fs' now)
  then obtain gs where "acc_inv cfg hist gs s" "finalizers_ok s" "workers_ok s" by blast
  from fire_ok [OF this fire.hyps(2)] show ?case by blast
qed

subsection \<open>Draining\<close>

definition overdue :: "acc_config \<Rightarrow> num \<Rightarrow> worker_acc \<Rightarrow> bool" where
  "overdue cfg now w \<longleftrightarrow> getShareAccTimeMs cfg < fl (now - wa_time w)"

lemma finalize_result:
  "finalizeWorkers cfg key m port now names wallet s = (wallet', s') \<Longrightarrow> distinct (map fst wallet) \<Longrightarrow>
     wallet' = filter (\<lambda>(n, w). n \<in> set names \<longrightarrow> \<not> overdue cfg now w) wallet"
proof (induction cfg key m port now names wallet s rule: finalizeWorkers.induct)
  case (1 cfg key m port now wallet s)
  then show ?case by (simp add: case_prod_unfold)
next
  case (2 cfg key m port now name names wallet s)
  have one: "n = name \<Longrightarrow> (n, w) \<in> set wallet \<Longrightarrow> map_of wallet name = Some w" for n w
    using 2(5) by (auto intro: map_of_is_SomeI)
  show ?case
  proof (cases "map_of wallet name")
    case None
    then have "n \<noteq> name" if "(n, w) \<in> set wallet" for n w using one that by auto
    with 2(1) [OF None _ 2(5)] 2(4) None show ?thesis by (auto intro!: filter_cong)
  next
    case (Some w)
    show ?thesis
    proof (cases "getShareAccTimeMs cfg < fl (now - wa_time w)")
      case True
      have "wallet' = filter (\<lambda>(n, w). n \<in> set names \<longrightarrow> \<not> overdue cfg now w) (AList.delete name wallet)"
        using 2(4) Some True by (intro 2(2) [OF Some True _ distinct_delete [OF 2(5)]]) simp
      also have "\<dots> = filter (\<lambda>(n, w). n \<in> set (name # names) \<longrightarrow> \<not> overdue cfg now w) wallet"
        unfolding AList.delete_eq filter_filter using one Some True
        by (intro filter_cong) (auto simp: overdue_def)
      finally show ?thesis .
    next
      case False
      have "wallet' = filter (\<lambda>(n, w). n \<in> set names \<longrightarrow> \<not> overdue cfg now w) wallet"
        using 2(4) Some False by (intro 2(3) [OF Some False _ 2(5)]) simp
      also have "\<dots> = filter (\<lambda>(n, w). n \<in> set (name # names) \<longrightarrow> \<not> overdue cfg now w) wallet"
        using one Some False by (intro filter_cong) (auto simp: overdue_def)
      finally show ?thesis .
    qed
  qed
qed

lemma fire_drains:
  assumes "workers_ok s" "walletAcc s key = Some wallet"
  shows "pending (walletAccFinalizer cfg key m port now (s\<lparr>finalizers := fs\<rparr>)) key = filter (\<lambda>(n, w). \<not> overdue cfg now w) wallet"
proof -
  obtain wallet' s' where run: "finalizeWorkers cfg key m port now (own_keys (map fst wallet)) wallet (s\<lparr>finalizers := fs\<rparr>) = (wallet', s')"
    by force
  have d: "distinct (map fst wallet)" using assms by (auto simp: workers_ok_def pending_def)
  have "set (own_keys (map fst wallet)) = fst ` set wallet" using mset_own_keys [of "map fst wallet"] by (metis list.set_map mset_eq_setD)
  then have "wallet' = filter (\<lambda>(n, w). \<not> overdue cfg now w) wallet"
    unfolding finalize_result [OF run d] by (intro filter_cong) force+
  then show ?thesis using finalize_frame [OF run] by (auto simp: walletAccFinalizer_def assms(2) run pending_def Let_def)
qed

subsection \<open>Splitting a batch over payout addresses\<close>

lemma splitLeg_error:
  assumes "0 \<le> x" "0 \<le> p" "p \<le> 100"
  shows "\<bar>splitLeg x p - x * p / 100\<bar> \<le> 3 * x / 2 ^ 53" "0 \<le> splitLeg x p"
proof -
  have xp: "0 \<le> x * p" "x * p \<le> x * 100" using assms by (simp_all add: mult_left_mono)
  then have a: "\<bar>fl (x * p) - x * p\<bar> \<le> x * 100 / 2 ^ 53" by (intro fl_err) simp
  have n: "0 \<le> fl (x * p)" using xp by simp
  have "fl (x * p) \<le> x * 100 + x * 100 / 2 ^ 53" using a xp by linarith
  also have "\<dots> \<le> x * 200" using assms(1) by simp
  finally have "\<bar>fl (x * p) / 100\<bar> \<le> 2 * x" using n by simp
  then have b: "\<bar>fl (fl (x * p) / 100) - fl (x * p) / 100\<bar> \<le> 2 * x / 2 ^ 53" by (rule fl_err)
  have c: "\<bar>fl (x * p) / 100 - x * p / 100\<bar> \<le> x / 2 ^ 53" using a by (simp add: abs_if field_simps split: if_splits)
  have "3 * x / 2 ^ 53 = 2 * x / 2 ^ 53 + x / 2 ^ 53" by simp
  then show "\<bar>splitLeg x p - x * p / 100\<bar> \<le> 3 * x / 2 ^ 53" unfolding splitLeg_def using b c by linarith
  show "0 \<le> splitLeg x p" using n by (simp add: splitLeg_def)
qed

lemma floor_bounds: "x - 1 < js_floor x" "js_floor x \<le> x"
  unfolding js_floor_def by linarith+

text \<open>What the legs of a division receive together.\<close>

lemma split_sum:
  assumes "0 \<le> x"
  shows "list_all (\<lambda>p. 0 \<le> p \<and> p \<le> 100) ps \<Longrightarrow>
    x * sum_list ps / 100 - of_nat (length ps) * (3 * x / 2 ^ 53 + 1) \<le> sum_list (map (\<lambda>p. js_floor (splitLeg x p)) ps) \<and>
    sum_list (map (\<lambda>p. js_floor (splitLeg x p)) ps) \<le> x * sum_list ps / 100 + of_nat (length ps) * (3 * x / 2 ^ 53)"
proof (induction ps)
  case (Cons p ps)
  have e: "\<bar>splitLeg x p - x * p / 100\<bar> \<le> 3 * x / 2 ^ 53" using Cons.prems by (intro splitLeg_error assms(1)) simp_all
  have d: "x * (p + sum_list ps) / 100 = x * p / 100 + x * sum_list ps / 100" by (simp add: algebra_simps add_divide_distrib)
  have l: "of_nat (length (p # ps)) * (3 * x / 2 ^ 53) = 3 * x / 2 ^ 53 + of_nat (length ps) * (3 * x / 2 ^ 53)"
    "of_nat (length (p # ps)) * (3 * x / 2 ^ 53 + 1) = (3 * x / 2 ^ 53 + 1) + of_nat (length ps) * (3 * x / 2 ^ 53 + 1)"
    by (simp_all add: algebra_simps)
  have "x * sum_list ps / 100 - of_nat (length ps) * (3 * x / 2 ^ 53 + 1) \<le> sum_list (map (\<lambda>p. js_floor (splitLeg x p)) ps) \<and>
    sum_list (map (\<lambda>p. js_floor (splitLeg x p)) ps) \<le> x * sum_list ps / 100 + of_nat (length ps) * (3 * x / 2 ^ 53)"
    using Cons by simp
  then show ?case unfolding sum_list.Cons d l list.map
    using e floor_bounds [of "splitLeg x p"] by (intro conjI; linarith)
qed simp

lemma sum_concat_map: "sum_list (map g (concat (map F ks))) = sum_list (map (\<lambda>k. sum_list (map g (F k))) ks)"
  by (induction ks) simp_all

text \<open>The rows of a divided batch carry the floored parts of its amount.\<close>

lemma split_rows:
  assumes "lm_payout_div m = Some t" "distinct (map fst t)"
  shows "sum_list (map sr_shares2 (storeShareDiv m name port f tr now w)) =
      sum_list (map (\<lambda>p. js_floor (splitLeg (wa_acc2 w) p)) (map snd t))"
proof -
  have ks: "mset (own_keys (map fst t)) = mset (map fst t)" by (rule mset_own_keys)
  define part where "part k = (case map_of t k of None \<Rightarrow> 0 | Some p \<Rightarrow> js_floor (splitLeg (wa_acc2 w) p))" for k
  have "sum_list (map sr_shares2 (storeShareDiv m name port f tr now w)) = sum_list (map part (own_keys (map fst t)))"
    unfolding storeShareDiv_def assms(1) option.case Let_def sum_concat_map
    by (intro arg_cong [where f = sum_list] map_cong) (auto simp: part_def split: option.split)
  also have "\<dots> = sum_list (map part (map fst t))" using ks by (rule sum_list_mset_eq)
  also have "\<dots> = sum_list (map (\<lambda>p. js_floor (splitLeg (wa_acc2 w) p)) (map snd t))"
  proof -
    have "part (fst x) = js_floor (splitLeg (wa_acc2 w) (snd x))" if "x \<in> set t" for x
      using map_of_is_SomeI [OF assms(2), of "fst x" "snd x"] that by (simp add: part_def)
    then show ?thesis by (simp add: o_def cong: map_cong)
  qed
  finally show ?thesis .
qed

end
