(* ===== verification/Miner_Registry.thy ===== *)
theory Miner_Registry
  imports Rate_Limit
begin

text \<open>
  The registry of connected miners, \<open>src/lib/pool/miner_registry.js\<close>, and the login steps of
  \<open>src/lib/pool/protocol.js\<close> that feed it. A miner is an object that the maps share, so it lives
  in a store of objects and the maps hold its address; sockets likewise. A \<open>Map\<close> keeps the
  order of insertion and is a list of pairs, a \<open>Set\<close> a list without repetition. Logging and
  cluster messages are left out; the audit of cached bans is its visit of one miner, without
  the batching over the event loop.
\<close>

subsection \<open>Objects\<close>

record reg_miner =
  rm_id :: string
  rm_payout :: string
  rm_payout_div :: "string list option"
  rm_proxy :: bool
  rm_connectTime :: num
  rm_hasSubmittedValidShare :: bool
  rm_removed :: bool
  rm_proxyMinerName :: "string option"
  rm_trust_key :: "string option"
  rm_trust :: "num option"
  rm_activity :: "num option \<times> num option \<times> num option"

record reg_socket =
  so_miner_id :: "string option"
  so_firstShareTimer :: bool
  so_authTimer :: bool
  so_destroyReason :: "string option"
  so_closed :: bool
  so_finalizing :: bool
  so_writable :: bool
  so_destroyed :: bool

record registry =
  miners :: "nat \<Rightarrow> reg_miner"
  sockets :: "nat \<Rightarrow> reg_socket"
  activeMiners :: "(string \<times> nat) list"
  activeMinersByPayout :: "(string \<times> string list) list"
  activeMinerSockets :: "(string \<times> nat) list"
  proxyMiners :: "string \<Rightarrow> int option"
  minerWallets :: "string \<Rightarrow> int option"
  bannedBigTmpWallets :: "string set"
  bannedAddresses :: "string set"

record reg_config =
  workerMax :: int
  proxyWorkerMax :: int
  minerTimeout :: num

definition on_miner :: "nat \<Rightarrow> (reg_miner \<Rightarrow> reg_miner) \<Rightarrow> registry \<Rightarrow> registry" where
  "on_miner m f s = s\<lparr>miners := (miners s)(m := f (miners s m))\<rparr>"

subsection \<open>Adding and removing\<close>

definition addActiveMiner :: "nat \<Rightarrow> nat \<Rightarrow> registry \<Rightarrow> registry" where
  "addActiveMiner m socket s =
     (let miner = miners s m;
          payoutMiners = (case map_of (activeMinersByPayout s) (rm_payout miner) of Some ids \<Rightarrow> ids | None \<Rightarrow> [])
      in s\<lparr>activeMiners := AList.update (rm_id miner) m (activeMiners s),
           activeMinerSockets := AList.update (rm_id miner) socket (activeMinerSockets s),
           activeMinersByPayout := AList.update (rm_payout miner) (if rm_id miner \<in> set payoutMiners then payoutMiners else payoutMiners @ [rm_id miner])
             (activeMinersByPayout s)\<rparr>)"

definition destroyMinerSocket :: "nat \<Rightarrow> string option \<Rightarrow> bool \<Rightarrow> registry \<Rightarrow> registry" where
  "destroyMinerSocket m reason forceDestroy s =
     (case (if rm_id (miners s m) = [] then None else map_of (activeMinerSockets s) (rm_id (miners s m))) of
        None \<Rightarrow> s
      | Some k \<Rightarrow>
          let so = sockets s k;
              so1 = so\<lparr>so_miner_id := (if so_miner_id so = Some (rm_id (miners s m)) then None else so_miner_id so),
                       so_firstShareTimer := False, so_authTimer := False,
                       so_destroyReason := (if reason = None then so_destroyReason so else reason)\<rparr>;
              so2 = (if forceDestroy \<and> \<not> so_destroyed so1 then so1\<lparr>so_closed := True, so_destroyed := True\<rparr>
                     else if \<not> so_closed so1 \<and> so_writable so1 then so1\<lparr>so_closed := True, so_finalizing := True\<rparr>
                     else if \<not> so_destroyed so1 \<and> \<not> so_closed so1 then so1\<lparr>so_closed := True, so_destroyed := True\<rparr>
                     else so1)
          in s\<lparr>activeMinerSockets := AList.delete (rm_id (miners s m)) (activeMinerSockets s),
               sockets := (sockets s)(k := so2)\<rparr>)"

definition countDown :: "string \<Rightarrow> (string \<Rightarrow> int option) \<Rightarrow> (string \<Rightarrow> int option)" where
  "countDown k counts =
     (case counts k of None \<Rightarrow> counts | Some n \<Rightarrow> if n - 1 \<le> 0 then counts(k := None) else counts(k \<mapsto> n - 1))"

definition forgetPayout :: "string \<Rightarrow> string \<Rightarrow> (string \<times> string list) list \<Rightarrow> (string \<times> string list) list" where
  "forgetPayout payout i byPayout =
     (case map_of byPayout payout of
        None \<Rightarrow> byPayout
      | Some ids \<Rightarrow> if removeAll i ids = [] then AList.delete payout byPayout
                    else AList.update payout (removeAll i ids) byPayout)"

text \<open>\<open>None\<close> is \<open>destroySocket: false\<close>; otherwise the reason and whether to force.\<close>

definition removeMiner :: "(string option \<times> bool) option \<Rightarrow> nat \<Rightarrow> registry \<Rightarrow> registry" where
  "removeMiner opts m s =
     (let miner = miners s m
      in if rm_removed miner then s
         else
           let s1 = s\<lparr>proxyMiners := (case rm_proxyMinerName miner of None \<Rightarrow> proxyMiners s
                                       | Some p \<Rightarrow> if p = [] then proxyMiners s else countDown p (proxyMiners s)),
                      minerWallets := countDown (rm_payout miner) (minerWallets s),
                      activeMinersByPayout := forgetPayout (rm_payout miner) (rm_id miner) (activeMinersByPayout s),
                      activeMiners := AList.delete (rm_id miner) (activeMiners s)\<rparr>;
               s2 = on_miner m (\<lambda>r. r\<lparr>rm_removed := True\<rparr>) s1
           in case opts of
                Some (reason, force) \<Rightarrow> destroyMinerSocket m reason force s2
              | None \<Rightarrow> s2\<lparr>activeMinerSockets := AList.delete (rm_id miner) (activeMinerSockets s2)\<rparr>)"

subsection \<open>Limits on the workers of a wallet\<close>

definition removeById :: "string \<Rightarrow> registry \<Rightarrow> registry" where
  "removeById i s = (case map_of (activeMiners s) i of None \<Rightarrow> s | Some m \<Rightarrow> removeMiner (Some (None, False)) m s)"

definition addProxyMiner :: "reg_config \<Rightarrow> nat \<Rightarrow> registry \<Rightarrow> bool \<times> registry" where
  "addProxyMiner cfg m s =
     (let miner = miners s m; wallet = rm_payout miner
      in if (case rm_proxyMinerName miner of Some p \<Rightarrow> p \<noteq> [] \<and> proxyMiners s p \<noteq> None | None \<Rightarrow> False) then (True, s)
         else
           let limit = (if proxyWorkerMax cfg \<noteq> 0 then proxyWorkerMax cfg else workerMax cfg);
               s1 = on_miner m (\<lambda>r. r\<lparr>rm_proxyMinerName := Some wallet\<rparr>) s
           in case proxyMiners s1 wallet of
                None \<Rightarrow> (True, s1\<lparr>proxyMiners := (proxyMiners s1)(wallet \<mapsto> 1)\<rparr>)
              | Some n \<Rightarrow>
                  if limit \<le> n
                  then (False, fold removeById
                          (case map_of (activeMinersByPayout s1) wallet of Some ids \<Rightarrow> ids | None \<Rightarrow> [])
                          (s1\<lparr>bannedBigTmpWallets := insert wallet (bannedBigTmpWallets s1)\<rparr>))
                  else (True, s1\<lparr>proxyMiners := (proxyMiners s1)(wallet \<mapsto> n + 1)\<rparr>))"

text \<open>\<open>agentProxy\<close>: the agent string of the login contains \<^verbatim>\<open>proxy\<close>.\<close>

definition registerMinerWallet :: "reg_config \<Rightarrow> bool \<Rightarrow> nat \<Rightarrow> registry \<Rightarrow> bool \<times> registry" where
  "registerMinerWallet cfg agentProxy m s =
     (let miner = miners s m; wallet = rm_payout miner
      in if rm_proxy miner then (True, s)
         else if agentProxy \<or> proxyMiners s wallet \<noteq> None then addProxyMiner cfg m s
         else (case minerWallets s wallet of
                 None \<Rightarrow> (True, s\<lparr>minerWallets := (minerWallets s)(wallet \<mapsto> 1)\<rparr>)
               | Some n \<Rightarrow>
                   if n < workerMax cfg then (True, s\<lparr>minerWallets := (minerWallets s)(wallet \<mapsto> n + 1)\<rparr>)
                   else (False, s\<lparr>bannedBigTmpWallets := insert wallet (bannedBigTmpWallets s)\<rparr>)))"

text \<open>The part of the login that changes the registry: the limits, then \<open>finishLogin\<close>.\<close>

definition finishLogin :: "security_config \<Rightarrow> nat \<Rightarrow> nat \<Rightarrow> registry \<Rightarrow> registry" where
  "finishLogin sec m socket s =
     (let miner = miners s m;
          s1 = addActiveMiner m socket s;
          timer = (\<not> rm_hasSubmittedValidShare miner \<and> 0 < minerFirstShareTimeoutMs sec)
      in s1\<lparr>sockets := (sockets s1)(socket := (sockets s1 socket)\<lparr>so_miner_id := Some (rm_id miner),
              so_authTimer := False, so_firstShareTimer := timer\<rparr>)\<rparr>)"

definition login :: "reg_config \<Rightarrow> security_config \<Rightarrow> bool \<Rightarrow> nat \<Rightarrow> nat \<Rightarrow> registry \<Rightarrow> registry" where
  "login cfg sec agentProxy m socket s =
     (case registerMinerWallet cfg agentProxy m s of
        (False, s') \<Rightarrow> s'
      | (True, s') \<Rightarrow> finishLogin sec m socket s')"

subsection \<open>Periodic scans\<close>

definition getMinerTrustKey :: "reg_miner \<Rightarrow> string" where
  "getMinerTrustKey miner = (case rm_trust_key miner of Some k \<Rightarrow> if k \<noteq> [] then k else rm_payout miner | None \<Rightarrow> rm_payout miner)"

definition clearsTrust :: "string \<Rightarrow> reg_miner \<Rightarrow> bool" where
  "clearsTrust key miner \<longleftrightarrow> getMinerTrustKey miner = key \<and> (case rm_trust miner of Some t \<Rightarrow> t \<noteq> 0 | None \<Rightarrow> False)"

fun clearTrusts :: "string \<Rightarrow> string list \<Rightarrow> nat \<Rightarrow> registry \<Rightarrow> nat \<times> registry" where
  "clearTrusts key [] cleared s = (cleared, s)"
| "clearTrusts key (i # ids) cleared s =
     (case map_of (activeMiners s) i of
        Some m \<Rightarrow>
          if clearsTrust key (miners s m)
          then clearTrusts key ids (cleared + 1) (on_miner m (\<lambda>r. r\<lparr>rm_trust := Some 0\<rparr>) s)
          else clearTrusts key ids cleared s
      | None \<Rightarrow> clearTrusts key ids cleared s)"

definition clearWalletSessionTrust :: "string \<Rightarrow> string option \<Rightarrow> registry \<Rightarrow> nat \<times> registry" where
  "clearWalletSessionTrust payout trustKey s =
     (case map_of (activeMinersByPayout s) payout of
        None \<Rightarrow> (0, s)
      | Some ids \<Rightarrow>
          clearTrusts (case trustKey of Some k \<Rightarrow> if k \<noteq> [] then k else payout | None \<Rightarrow> payout) ids 0 s)"

definition hasCachedBan :: "registry \<Rightarrow> string \<Rightarrow> bool" where
  "hasCachedBan s address \<longleftrightarrow> address \<in> bannedAddresses s"

definition minerHasCachedBan :: "registry \<Rightarrow> reg_miner \<Rightarrow> bool" where
  "minerHasCachedBan s miner \<longleftrightarrow> hasCachedBan s (rm_payout miner) \<or>
     (case rm_payout_div miner of None \<Rightarrow> False | Some addresses \<Rightarrow> list_ex (hasCachedBan s) addresses)"

definition auditMiner :: "nat \<Rightarrow> registry \<Rightarrow> registry" where
  "auditMiner m s =
     (if rm_removed (miners s m) \<or> \<not> minerHasCachedBan s (miners s m) then s
      else removeMiner (Some (Some ''cached-ban'', True)) m s)"

definition checkMiner :: "security_config \<Rightarrow> num \<Rightarrow> num \<Rightarrow> nat \<Rightarrow> registry \<Rightarrow> registry" where
  "checkMiner sec timeNow deadline m s =
     (let miner = miners s m
      in if \<not> rm_hasSubmittedValidShare miner \<and> fl (rm_connectTime miner + minerFirstShareTimeoutMs sec) \<le> timeNow
         then removeMiner (Some (Some ''first-share-timeout'', False)) m s
         else if getMinerSessionActivity (Some (rm_activity miner)) < deadline
         then removeMiner (Some (Some ''miner-timeout'', False)) m s
         else s)"

definition checkAliveMiners :: "reg_config \<Rightarrow> security_config \<Rightarrow> num \<Rightarrow> registry \<Rightarrow> registry" where
  "checkAliveMiners cfg sec timeNow s =
     fold (checkMiner sec timeNow (fl (timeNow - fl (minerTimeout cfg * 1000)))) (map snd (activeMiners s)) s"

subsection \<open>Invariant\<close>

definition live :: "registry \<Rightarrow> string \<Rightarrow> nat \<Rightarrow> bool" where
  "live s i m \<longleftrightarrow> map_of (activeMiners s) i = Some m"

definition payout_ids :: "registry \<Rightarrow> string \<Rightarrow> string set" where
  "payout_ids s p = {i. \<exists>m. live s i m \<and> rm_payout (miners s m) = p}"

definition proxied :: "registry \<Rightarrow> string \<Rightarrow> string set" where
  "proxied s p = {i. \<exists>m. live s i m \<and> rm_proxyMinerName (miners s m) = Some p}"

definition indexed :: "registry \<Rightarrow> string \<Rightarrow> string set" where
  "indexed s p = (case map_of (activeMinersByPayout s) p of Some ids \<Rightarrow> set ids | None \<Rightarrow> {})"

definition miner_ok :: "string \<Rightarrow> reg_miner \<Rightarrow> bool" where
  "miner_ok i r \<longleftrightarrow> rm_id r = i \<and> i \<noteq> [] \<and> \<not> rm_removed r \<and> rm_payout r \<noteq> [] \<and>
     (\<forall>p. rm_proxyMinerName r = Some p \<longrightarrow> p = rm_payout r)"

definition keyed :: "registry \<Rightarrow> bool" where
  "keyed s \<longleftrightarrow> distinct (map fst (activeMiners s))"

definition index_ok :: "registry \<Rightarrow> bool" where
  "index_ok s \<longleftrightarrow> (\<forall>i m. live s i m \<longrightarrow> miner_ok i (miners s m)) \<and>
     (\<forall>p. indexed s p = payout_ids s p \<and> map_of (activeMinersByPayout s) p \<noteq> Some []) \<and>
     dom (map_of (activeMinerSockets s)) = dom (map_of (activeMiners s)) \<and> keyed s"

definition counts :: "int option \<Rightarrow> string set \<Rightarrow> bool" where
  "counts c ids \<longleftrightarrow> (case c of None \<Rightarrow> ids = {} | Some n \<Rightarrow> 0 < n \<and> n = int (card ids))"

definition proxy_ok :: "registry \<Rightarrow> string \<Rightarrow> bool" where
  "proxy_ok s p \<longleftrightarrow> counts (proxyMiners s p) (proxied s p)"

definition registry_ok :: "registry \<Rightarrow> bool" where
  "registry_ok s \<longleftrightarrow> index_ok s \<and> (\<forall>p. proxy_ok s p)"

lemma proxied_finite [simp]: "finite (proxied s p)"
proof -
  have "proxied s p \<subseteq> fst ` set (activeMiners s)" by (auto simp: proxied_def live_def dest: map_of_SomeD intro: rev_image_eqI)
  then show ?thesis by (rule finite_subset) simp
qed

lemma live_unique: "index_ok s \<Longrightarrow> live s i m \<Longrightarrow> live s j m \<Longrightarrow> i = j"
  unfolding index_ok_def miner_ok_def by metis

subsection \<open>Removal\<close>

lemma destroy_sel:
  "activeMiners (destroyMinerSocket m r f s) = activeMiners s" "miners (destroyMinerSocket m r f s) = miners s"
  "activeMinersByPayout (destroyMinerSocket m r f s) = activeMinersByPayout s"
  "proxyMiners (destroyMinerSocket m r f s) = proxyMiners s"
  "rm_id (miners s m) \<noteq> [] \<Longrightarrow> map_of (activeMinerSockets (destroyMinerSocket m r f s)) =
     (map_of (activeMinerSockets s))(rm_id (miners s m) := None)"
  by (auto simp: destroyMinerSocket_def Let_def AList.delete_conv' split: option.split)

lemma removeMiner_sel:
  fixes opts :: "(string option \<times> bool) option"
  assumes "\<not> rm_removed (miners s m)" "rm_id (miners s m) = i" "i \<noteq> []"
  defines "s' \<equiv> removeMiner opts m s"
  shows "map_of (activeMiners s') = (map_of (activeMiners s))(i := None)"
    and "miners s' = (miners s)(m := (miners s m)\<lparr>rm_removed := True\<rparr>)"
    and "activeMinersByPayout s' = forgetPayout (rm_payout (miners s m)) i (activeMinersByPayout s)"
    and "proxyMiners s' = (case rm_proxyMinerName (miners s m) of None \<Rightarrow> proxyMiners s
           | Some p \<Rightarrow> if p = [] then proxyMiners s else countDown p (proxyMiners s))"
    and "map_of (activeMinerSockets s') = (map_of (activeMinerSockets s))(i := None)"
    and "activeMiners s' = AList.delete i (activeMiners s)"
  using assms
  by (auto simp: removeMiner_def Let_def on_miner_def destroy_sel AList.delete_conv' split: option.split prod.split)

lemma removeAll_Nil: "removeAll i xs = [] \<longleftrightarrow> set xs \<subseteq> {i}"
  by (induction xs) auto

lemma indexed_forget:
  "map_of (forgetPayout p i t) q = (if q = p then (case map_of t p of None \<Rightarrow> None
      | Some ids \<Rightarrow> if removeAll i ids = [] then None else Some (removeAll i ids)) else map_of t q)"
  by (auto simp: forgetPayout_def AList.delete_conv' AList.update_conv' split: option.split)

lemma remove_live:
  assumes "index_ok s" "live s i m"
  shows "live (removeMiner opts m s) j k \<longleftrightarrow> live s j k \<and> j \<noteq> i"
    and "live s j k \<Longrightarrow> j \<noteq> i \<Longrightarrow> miners (removeMiner opts m s) k = miners s k"
proof -
  have m: "\<not> rm_removed (miners s m)" "rm_id (miners s m) = i" "i \<noteq> []" using assms by (auto simp: index_ok_def miner_ok_def)
  note sel = removeMiner_sel [OF m]
  show "live (removeMiner opts m s) j k \<longleftrightarrow> live s j k \<and> j \<noteq> i" by (auto simp: live_def sel(1))
  show "miners (removeMiner opts m s) k = miners s k" if "live s j k" "j \<noteq> i"
    using that live_unique [OF assms(1) _ that(1), of i] assms(2) by (auto simp: sel(2))
qed

lemma remove_index_ok:
  assumes "index_ok s" "live s i m"
  shows "index_ok (removeMiner opts m s)"
proof -
  let ?s = "removeMiner opts m s"
  have m: "\<not> rm_removed (miners s m)" "rm_id (miners s m) = i" "i \<noteq> []" using assms by (auto simp: index_ok_def miner_ok_def)
  note sel = removeMiner_sel [OF m]
  note lv = remove_live [OF assms]
  have ids: "payout_ids ?s p = payout_ids s p - {i}" for p
    using lv by (auto simp: payout_ids_def)
  have own: "i \<in> payout_ids s (rm_payout (miners s m))" using assms(2) by (auto simp: payout_ids_def)
  have other: "i \<notin> payout_ids s p" if "p \<noteq> rm_payout (miners s m)" for p
    using that assms(2) by (auto simp: payout_ids_def live_def)
  have "indexed ?s p = payout_ids ?s p \<and> map_of (activeMinersByPayout ?s) p \<noteq> Some []" for p
  proof (cases "p = rm_payout (miners s m)")
    case True
    have "indexed s p = payout_ids s p" using assms(1) by (auto simp: index_ok_def)
    then show ?thesis unfolding ids using True own
      by (auto simp: indexed_def sel(3) indexed_forget removeAll_Nil split: option.splits if_splits)
  next
    case False
    have "indexed s p = payout_ids s p \<and> map_of (activeMinersByPayout s) p \<noteq> Some []" using assms(1) by (auto simp: index_ok_def)
    then show ?thesis unfolding ids using False other [OF False] by (auto simp: indexed_def sel(3) indexed_forget)
  qed
  moreover have "miner_ok j (miners ?s k)" if "live ?s j k" for j k
    using that lv assms(1) by (auto simp: index_ok_def)
  moreover have "dom (map_of (activeMinerSockets ?s)) = dom (map_of (activeMiners ?s))"
    using assms(1) by (simp add: sel(1,5) index_ok_def)
  moreover have "keyed ?s"
    using assms(1) by (simp add: sel(6) index_ok_def keyed_def distinct_delete)
  ultimately show ?thesis unfolding index_ok_def by blast
qed

lemma remove_proxied:
  assumes "index_ok s" "live s i m"
  shows "proxied (removeMiner opts m s) p = proxied s p - {i}"
  using remove_live [OF assms] by (auto simp: proxied_def)

lemma countDown_other: "q \<noteq> p \<Longrightarrow> countDown p c q = c q"
  by (auto simp: countDown_def split: option.split)

text \<open>The number of workers a proxy entry counts never exceeds the workers that carry its name.\<close>

definition counts_le :: "int option \<Rightarrow> string set \<Rightarrow> bool" where
  "counts_le c ids \<longleftrightarrow> (case c of None \<Rightarrow> True | Some n \<Rightarrow> 0 < n \<and> n \<le> int (card ids))"

definition proxy_le :: "registry \<Rightarrow> string \<Rightarrow> bool" where
  "proxy_le s p \<longleftrightarrow> counts_le (proxyMiners s p) (proxied s p)"

lemma remove_proxy:
  assumes "index_ok s" "live s i m"
  shows "proxy_le s p \<Longrightarrow> proxy_le (removeMiner opts m s) p"
    and "proxy_ok s p \<Longrightarrow> proxy_ok (removeMiner opts m s) p"
proof -
  have m: "\<not> rm_removed (miners s m)" "rm_id (miners s m) = i" "i \<noteq> []" "rm_payout (miners s m) \<noteq> []"
    using assms by (auto simp: index_ok_def miner_ok_def)
  note sel = removeMiner_sel(4) [OF m(1-3)]
  note pr = remove_proxied [OF assms, of opts p]
  have "(proxy_le s p \<longrightarrow> proxy_le (removeMiner opts m s) p) \<and> (proxy_ok s p \<longrightarrow> proxy_ok (removeMiner opts m s) p)"
  proof (cases "rm_proxyMinerName (miners s m) = Some p")
    case True
    then have "p = rm_payout (miners s m)" using assms by (auto simp: index_ok_def miner_ok_def)
    then have p: "p \<noteq> []" using m(4) by simp
    have i: "i \<in> proxied s p" using True assms(2) by (auto simp: proxied_def)
    have c: "int (card (proxied s p - {i})) = int (card (proxied s p)) - 1"
      using card_Suc_Diff1 [OF proxied_finite i] by linarith
    have single: "proxied s p - {i} = {}" if "card (proxied s p) = 1"
      using i that by (metis Diff_cancel card_1_singletonE singletonD)
    have e: "proxyMiners (removeMiner opts m s) = countDown p (proxyMiners s)" using sel True p by simp
    show ?thesis
    proof (cases "proxyMiners s p")
      case None
      then show ?thesis using i by (auto simp: proxy_ok_def proxy_le_def counts_def counts_le_def e countDown_def)
    next
      case (Some n)
      then show ?thesis unfolding proxy_ok_def proxy_le_def counts_def counts_le_def pr e c using single
        by (cases "n = 1") (auto simp: countDown_def)
    qed
  next
    case False
    then have "i \<notin> proxied s p" using assms(2) by (auto simp: proxied_def live_def)
    then have "proxied (removeMiner opts m s) p = proxied s p" using pr by simp
    moreover have "proxyMiners (removeMiner opts m s) p = proxyMiners s p"
      using False sel by (auto simp: countDown_other split: option.split)
    ultimately show ?thesis by (simp add: proxy_le_def proxy_ok_def)
  qed
  then show "proxy_le s p \<Longrightarrow> proxy_le (removeMiner opts m s) p" "proxy_ok s p \<Longrightarrow> proxy_ok (removeMiner opts m s) p" by blast+
qed

lemma remove_ok: "registry_ok s \<Longrightarrow> live s i m \<Longrightarrow> registry_ok (removeMiner opts m s)"
  by (simp add: registry_ok_def remove_index_ok remove_proxy)

subsection \<open>Evicting a wallet\<close>

text \<open>Removing the miners with the given ids, all of one wallet.\<close>

lemma evict:
  assumes "index_ok s" "proxy_le s w" "\<forall>p. p \<noteq> w \<longrightarrow> proxy_ok s p"
    and "\<forall>i \<in> set ids. \<forall>m. live s i m \<longrightarrow> rm_payout (miners s m) = w"
  shows "index_ok (fold removeById ids s) \<and> proxy_le (fold removeById ids s) w \<and>
     (\<forall>p. p \<noteq> w \<longrightarrow> proxy_ok (fold removeById ids s) p) \<and>
     (\<forall>j k. live (fold removeById ids s) j k \<longleftrightarrow> live s j k \<and> j \<notin> set ids) \<and>
     (\<forall>j k. live s j k \<longrightarrow> j \<notin> set ids \<longrightarrow> miners (fold removeById ids s) k = miners s k)"
  using assms
proof (induction ids arbitrary: s)
  case (Cons i ids)
  show ?case
  proof (cases "map_of (activeMiners s) i")
    case None
    have "index_ok (fold removeById ids s) \<and> proxy_le (fold removeById ids s) w \<and>
       (\<forall>p. p \<noteq> w \<longrightarrow> proxy_ok (fold removeById ids s) p) \<and>
       (\<forall>j k. live (fold removeById ids s) j k \<longleftrightarrow> live s j k \<and> j \<notin> set ids) \<and>
       (\<forall>j k. live s j k \<longrightarrow> j \<notin> set ids \<longrightarrow> miners (fold removeById ids s) k = miners s k)"
      by (rule Cons.IH) (use Cons.prems in auto)
    moreover have "\<not> live s i k" for k using None by (simp add: live_def)
    moreover have "removeById i s = s" using None by (simp add: removeById_def)
    ultimately show ?thesis by auto
  next
    case (Some m)
    let ?s = "removeMiner (Some (None, False)) m s"
    have lm: "live s i m" using Some by (simp add: live_def)
    note lv = remove_live [OF Cons.prems(1) lm, where opts = "Some (None, False)"]
    have "index_ok (fold removeById ids ?s) \<and> proxy_le (fold removeById ids ?s) w \<and>
       (\<forall>p. p \<noteq> w \<longrightarrow> proxy_ok (fold removeById ids ?s) p) \<and>
       (\<forall>j k. live (fold removeById ids ?s) j k \<longleftrightarrow> live ?s j k \<and> j \<notin> set ids) \<and>
       (\<forall>j k. live ?s j k \<longrightarrow> j \<notin> set ids \<longrightarrow> miners (fold removeById ids ?s) k = miners ?s k)"
    proof (rule Cons.IH)
      show "index_ok ?s" "proxy_le ?s w" "\<forall>p. p \<noteq> w \<longrightarrow> proxy_ok ?s p"
        using remove_index_ok [OF Cons.prems(1) lm] remove_proxy [OF Cons.prems(1) lm] Cons.prems(2,3) by blast+
      show "\<forall>j \<in> set ids. \<forall>k. live ?s j k \<longrightarrow> rm_payout (miners ?s k) = w"
        using lv Cons.prems(4) by auto
    qed
    moreover have "removeById i s = ?s" using Some by (simp add: removeById_def)
    ultimately show ?thesis using lv by auto
  qed
qed (auto simp: registry_ok_def)

lemma evict_wallet:
  assumes "index_ok s" "proxy_le s w" "\<forall>p. p \<noteq> w \<longrightarrow> proxy_ok s p"
  shows "registry_ok (fold removeById (case map_of (activeMinersByPayout s) w of Some ids \<Rightarrow> ids | None \<Rightarrow> []) s)"
proof -
  let ?ids = "case map_of (activeMinersByPayout s) w of Some ids \<Rightarrow> ids | None \<Rightarrow> []"
  let ?s = "fold removeById ?ids s"
  have "indexed s w = payout_ids s w" using assms(1) by (simp add: index_ok_def)
  then have ids: "set ?ids = payout_ids s w" by (simp add: indexed_def split: option.splits)
  have own: "\<forall>i \<in> set ?ids. \<forall>m. live s i m \<longrightarrow> rm_payout (miners s m) = w"
    unfolding ids by (auto simp: payout_ids_def live_def)
  from evict [OF assms own] have e: "index_ok ?s" "proxy_le ?s w" "\<forall>p. p \<noteq> w \<longrightarrow> proxy_ok ?s p"
    "\<And>j k. live ?s j k \<longleftrightarrow> live s j k \<and> j \<notin> payout_ids s w" "\<And>j k. live s j k \<Longrightarrow> j \<notin> payout_ids s w \<Longrightarrow> miners ?s k = miners s k"
    unfolding ids by blast+
  have "\<not> (live ?s j k \<and> rm_proxyMinerName (miners ?s k) = Some w)" for j k
  proof
    assume j: "live ?s j k \<and> rm_proxyMinerName (miners ?s k) = Some w"
    then have l: "live s j k" "j \<notin> payout_ids s w" using e(4) by blast+
    then have "rm_proxyMinerName (miners s k) = Some w" using j e(5) by metis
    then have "rm_payout (miners s k) = w" using l(1) assms(1) unfolding index_ok_def miner_ok_def by metis
    with l show False by (auto simp: payout_ids_def)
  qed
  then have "proxied ?s w = {}" by (auto simp: proxied_def)
  then have "proxy_ok ?s w" using e(2) by (auto simp: proxy_ok_def proxy_le_def counts_def counts_le_def split: option.splits)
  with e(1,3) show ?thesis unfolding registry_ok_def by metis
qed

subsection \<open>The other operations\<close>

text \<open>Writing to a miner object that keeps what the maps rely on.\<close>

lemma live_cong: "activeMiners s' = activeMiners s \<Longrightarrow> live s' = live s"
  by (intro ext) (simp add: live_def)

lemma on_miner_sel [simp]:
  "activeMiners (on_miner m f s) = activeMiners s" "activeMinersByPayout (on_miner m f s) = activeMinersByPayout s"
  "activeMinerSockets (on_miner m f s) = activeMinerSockets s" "proxyMiners (on_miner m f s) = proxyMiners s"
  "miners (on_miner m f s) k = (if k = m then f (miners s m) else miners s k)"
  "live (on_miner m f s) = live s" "keyed (on_miner m f s) = keyed s"
  by (simp_all add: on_miner_def live_def keyed_def fun_eq_iff)

lemma index_ok_on_miner:
  assumes "index_ok s" "\<And>i. live s i m \<Longrightarrow> miner_ok i (f (miners s m)) \<and> rm_payout (f (miners s m)) = rm_payout (miners s m)"
  shows "index_ok (on_miner m f s)"
proof -
  have "rm_payout (miners (on_miner m f s) k) = rm_payout (miners s k)" if "live s i k" for i k
    using assms(2) that by auto
  then have "payout_ids (on_miner m f s) p = payout_ids s p" for p
    by (auto simp: payout_ids_def simp del: on_miner_sel(5))
  then show ?thesis using assms by (auto simp: index_ok_def indexed_def)
qed

lemma registry_ok_on_miner:
  assumes "registry_ok s" "\<And>i. live s i m \<Longrightarrow> miner_ok i (f (miners s m)) \<and> rm_payout (f (miners s m)) = rm_payout (miners s m) \<and>
     rm_proxyMinerName (f (miners s m)) = rm_proxyMinerName (miners s m)"
  shows "registry_ok (on_miner m f s)"
proof -
  have "index_ok (on_miner m f s)" using assms by (intro index_ok_on_miner) (auto simp: registry_ok_def)
  moreover have "rm_proxyMinerName (miners (on_miner m f s) k) = rm_proxyMinerName (miners s k)" if "live s i k" for i k
    using assms(2) that by auto
  then have "proxied (on_miner m f s) p = proxied s p" for p
    by (auto simp: proxied_def simp del: on_miner_sel(5))
  ultimately show ?thesis using assms(1) by (simp add: registry_ok_def proxy_ok_def)
qed

lemma mem_proxied: "live s i k \<Longrightarrow> i \<in> proxied s p \<longleftrightarrow> rm_proxyMinerName (miners s k) = Some p"
  by (auto simp: proxied_def live_def)

lemma proxied_name:
  assumes "index_ok s"
  shows "proxied (on_miner m (\<lambda>r. r\<lparr>rm_proxyMinerName := Some w\<rparr>) s) p =
     (if p = w then proxied s p \<union> {i. live s i m} else proxied s p - {i. live s i m})"
proof -
  let ?s = "on_miner m (\<lambda>r. r\<lparr>rm_proxyMinerName := Some w\<rparr>) s"
  have "i \<in> proxied ?s p \<longleftrightarrow> (if p = w then i \<in> proxied s p \<or> live s i m else i \<in> proxied s p \<and> \<not> live s i m)" for i
  proof (cases "\<exists>k. live s i k")
    case True
    then obtain k where k: "live s i k" by blast
    then have "live s i m \<longleftrightarrow> k = m" by (auto simp: live_def)
    then show ?thesis using k by (simp add: mem_proxied [OF k] mem_proxied [of ?s i k])
  qed (auto simp: proxied_def)
  then show ?thesis by (simp add: set_eq_iff)
qed

text \<open>Giving a miner its wallet's name; the miner is live or about to be.\<close>

lemma name_miner:
  assumes "registry_ok s" "rm_payout (miners s m) = w" "w \<noteq> []"
  defines "s1 \<equiv> on_miner m (\<lambda>r. r\<lparr>rm_proxyMinerName := Some w\<rparr>) s"
  shows "index_ok s1" and "p \<noteq> w \<Longrightarrow> proxied s1 p = proxied s p"
    and "proxied s1 w = proxied s w \<union> {i. live s i m}"
proof -
  have ix: "index_ok s" using assms(1) by (simp add: registry_ok_def)
  have "miner_ok i (miners s m)" if "live s i m" for i using that ix by (auto simp: index_ok_def)
  then show "index_ok s1" unfolding s1_def
    by (intro index_ok_on_miner [OF ix]) (use assms(2) in \<open>auto simp: miner_ok_def\<close>)
  show "proxied s1 p = proxied s p" if "p \<noteq> w"
  proof -
    have "i \<notin> proxied s p" if "live s i m" for i
      using that \<open>p \<noteq> w\<close> ix assms(2) by (auto simp: proxied_def live_def index_ok_def miner_ok_def)
    then show ?thesis using that unfolding s1_def proxied_name [OF ix] by auto
  qed
  show "proxied s1 w = proxied s w \<union> {i. live s i m}" unfolding s1_def proxied_name [OF ix] by simp
qed

lemma live_update [simp]:
  "live (s\<lparr>proxyMiners := c\<rparr>) = live s" "live (s\<lparr>minerWallets := c\<rparr>) = live s"
  "live (s\<lparr>bannedBigTmpWallets := b\<rparr>) = live s" "live (s\<lparr>sockets := k\<rparr>) = live s"
  by (simp_all add: live_def fun_eq_iff)

lemma proxied_update [simp]:
  "proxied (s\<lparr>proxyMiners := c\<rparr>) = proxied s" "proxied (s\<lparr>minerWallets := c\<rparr>) = proxied s"
  "proxied (s\<lparr>bannedBigTmpWallets := b\<rparr>) = proxied s" "proxied (s\<lparr>sockets := k\<rparr>) = proxied s"
  by (simp_all add: proxied_def fun_eq_iff)

lemma index_update [simp]:
  "index_ok (s\<lparr>proxyMiners := c\<rparr>) = index_ok s" "index_ok (s\<lparr>minerWallets := c\<rparr>) = index_ok s"
  "index_ok (s\<lparr>bannedBigTmpWallets := b\<rparr>) = index_ok s" "index_ok (s\<lparr>sockets := k\<rparr>) = index_ok s"
  by (simp_all add: index_ok_def indexed_def payout_ids_def keyed_def)

text \<open>The result of \<open>addProxyMiner\<close> for a miner that is not counted yet, where \<open>ids\<close> holds its id if it is live.\<close>

lemma addProxyMiner_new:
  assumes ok: "registry_ok s" and w: "rm_payout (miners s m) = w" "w \<noteq> []"
    and name: "case rm_proxyMinerName (miners s m) of Some p \<Rightarrow> p = [] \<or> proxyMiners s p = None | None \<Rightarrow> True"
  defines "s1 \<equiv> on_miner m (\<lambda>r. r\<lparr>rm_proxyMinerName := Some w\<rparr>) s"
  shows "fst (addProxyMiner cfg m s) \<Longrightarrow> \<exists>n. snd (addProxyMiner cfg m s) = s1\<lparr>proxyMiners := (proxyMiners s)(w \<mapsto> n)\<rparr> \<and>
      0 < n \<and> n = int (card (proxied s w)) + 1"
    and "\<not> fst (addProxyMiner cfg m s) \<Longrightarrow> registry_ok (snd (addProxyMiner cfg m s))"
proof -
  have px: "proxy_ok s p" for p using ok by (simp add: registry_ok_def)
  note nm = name_miner [OF ok w, folded s1_def]
  have no: "\<not> (case rm_proxyMinerName (miners s m) of Some p \<Rightarrow> p \<noteq> [] \<and> proxyMiners s p \<noteq> None | None \<Rightarrow> False)"
    using name by (auto split: option.splits)
  note unf = addProxyMiner_def Let_def w(1) s1_def [symmetric] no
  show "\<exists>n. snd (addProxyMiner cfg m s) = s1\<lparr>proxyMiners := (proxyMiners s)(w \<mapsto> n)\<rparr> \<and> 0 < n \<and> n = int (card (proxied s w)) + 1"
    if "fst (addProxyMiner cfg m s)"
    using that px [of w] no
    by (auto simp: addProxyMiner_def Let_def w(1) s1_def proxy_ok_def counts_def split: option.splits if_splits)
  show "registry_ok (snd (addProxyMiner cfg m s))" if f: "\<not> fst (addProxyMiner cfg m s)"
  proof -
    let ?b = "s1\<lparr>bannedBigTmpWallets := insert w (bannedBigTmpWallets s1)\<rparr>"
    have e: "snd (addProxyMiner cfg m s) =
        fold removeById (case map_of (activeMinersByPayout ?b) w of Some ids \<Rightarrow> ids | None \<Rightarrow> []) ?b"
      using f no by (auto simp: addProxyMiner_def Let_def w(1) s1_def split: option.splits if_splits)
    have "proxied s w \<subseteq> proxied s1 w" using nm(3) by blast
    then have "card (proxied s w) \<le> card (proxied s1 w)" by (rule card_mono [OF proxied_finite])
    then have "counts_le (proxyMiners s w) (proxied s1 w)"
      using px [of w] by (auto simp: proxy_ok_def counts_def counts_le_def split: option.splits)
    then have "proxy_le ?b w" by (simp add: proxy_le_def s1_def)
    moreover have "\<forall>p. p \<noteq> w \<longrightarrow> proxy_ok ?b p" using px nm(2) by (simp add: proxy_ok_def s1_def)
    ultimately show ?thesis unfolding e by (intro evict_wallet) (simp_all add: nm(1))
  qed
qed

lemma addProxyMiner_live:
  assumes ok: "registry_ok s" and l: "live s i m"
  shows "registry_ok (snd (addProxyMiner cfg m s))"
proof (cases "case rm_proxyMinerName (miners s m) of Some p \<Rightarrow> p = [] \<or> proxyMiners s p = None | None \<Rightarrow> True")
  case False
  then have "snd (addProxyMiner cfg m s) = s" by (auto simp: addProxyMiner_def Let_def split: option.splits)
  with ok show ?thesis by simp
next
  case True
  have ix: "index_ok s" using ok by (simp add: registry_ok_def)
  have mo: "miner_ok i (miners s m)" using ix l by (auto simp: index_ok_def)
  define w where "w = rm_payout (miners s m)"
  have w: "rm_payout (miners s m) = w" "w \<noteq> []" using mo by (auto simp: w_def miner_ok_def)
  have px: "proxy_ok s p" for p using ok by (simp add: registry_ok_def)
  have new: "j \<notin> proxied s w" if "live s j m" for j
  proof
    assume "j \<in> proxied s w"
    then have "rm_proxyMinerName (miners s m) = Some w" "proxied s w \<noteq> {}" using that by (auto simp: proxied_def live_def)
    then show False using True px [of w] w(2) by (auto simp: proxy_ok_def counts_def)
  qed
  note add = addProxyMiner_new [OF ok w True, where cfg = cfg]
  note nm = name_miner [OF ok w]
  have single: "{j. live s j m} = {i}" using l live_unique [OF ix] by auto
  show ?thesis
  proof (cases "fst (addProxyMiner cfg m s)")
    case t: True
    let ?s = "on_miner m (\<lambda>r. r\<lparr>rm_proxyMinerName := Some w\<rparr>) s"
    from add(1) [OF t] obtain n where n: "snd (addProxyMiner cfg m s) = ?s\<lparr>proxyMiners := (proxyMiners s)(w \<mapsto> n)\<rparr>"
      "0 < n" "n = int (card (proxied s w)) + 1" by blast
    have "counts (Some n) (proxied ?s w)" using n(2,3) new [OF l] single nm(3) by (simp add: counts_def)
    then have "proxy_ok (snd (addProxyMiner cfg m s)) p" for p
      using px [of p] nm(2) [of p] by (cases "p = w") (simp_all add: n(1) proxy_ok_def)
    then show ?thesis using nm(1) by (simp add: registry_ok_def n(1))
  qed (rule add(2))
qed

subsection \<open>Logging in\<close>

lemma finishLogin_sel:
  fixes sec :: security_config and socket :: nat
  assumes "rm_id (miners s m) = i"
  defines "s' \<equiv> finishLogin sec m socket s"
  shows "live s' j k \<longleftrightarrow> (if j = i then k = m else live s j k)" "miners s' = miners s" "proxyMiners s' = proxyMiners s"
    "indexed s' p = (if p = rm_payout (miners s m) then insert i (indexed s p) else indexed s p)"
    "map_of (activeMinersByPayout s') p = Some [] \<Longrightarrow> map_of (activeMinersByPayout s) p = Some []"
    "dom (map_of (activeMinerSockets s')) = insert i (dom (map_of (activeMinerSockets s)))"
    "dom (map_of (activeMiners s')) = insert i (dom (map_of (activeMiners s)))"
    "keyed s \<Longrightarrow> keyed s'"
  using assms(1)
  by (auto simp: s'_def finishLogin_def addActiveMiner_def Let_def live_def indexed_def AList.update_conv' distinct_update keyed_def
      split: option.splits if_splits)

lemma finishLogin_ok:
  fixes sec :: security_config and socket :: nat
  assumes "index_ok s" "map_of (activeMiners s) i = None" "miner_ok i (miners s m)"
  defines "s' \<equiv> finishLogin sec m socket s"
  shows "index_ok s'" "proxied s' p = (if rm_proxyMinerName (miners s m) = Some p then insert i (proxied s p) else proxied s p)"
proof -
  have i: "rm_id (miners s m) = i" using assms(3) by (simp add: miner_ok_def)
  note sel = finishLogin_sel [OF i, of sec socket, folded s'_def]
  have no: "\<not> live s i k" for k using assms(2) by (simp add: live_def)
  have ids: "payout_ids s' p = (if p = rm_payout (miners s m) then insert i (payout_ids s p) else payout_ids s p)" for p
    using no by (auto simp: payout_ids_def sel split: if_splits)
  have ix: "indexed s p = payout_ids s p" "map_of (activeMinersByPayout s) p \<noteq> Some []" for p
    using assms(1) by (simp_all add: index_ok_def)
  have "miner_ok j (miners s' k)" if "live s' j k" for j k
    using that assms(1,3) by (auto simp: sel index_ok_def split: if_splits)
  moreover have "indexed s' p = payout_ids s' p" for p unfolding sel ids ix ..
  moreover have "map_of (activeMinersByPayout s') p \<noteq> Some []" for p using sel(5) ix(2) by blast
  moreover have "dom (map_of (activeMinerSockets s')) = dom (map_of (activeMiners s'))"
    using assms(1) by (simp add: sel(6,7) index_ok_def)
  moreover have "keyed s'" using assms(1) sel(8) by (simp add: index_ok_def)
  ultimately show "index_ok s'" by (simp add: index_ok_def)
  show "proxied s' p = (if rm_proxyMinerName (miners s m) = Some p then insert i (proxied s p) else proxied s p)"
    using no by (auto simp: proxied_def sel split: if_splits)
qed

lemma login_ok:
  assumes ok: "registry_ok s" and i: "map_of (activeMiners s) i = None" and m: "miner_ok i (miners s m)"
    and name: "rm_proxyMinerName (miners s m) = None"
  shows "registry_ok (login cfg sec agentProxy m socket s)"
proof -
  define w where "w = rm_payout (miners s m)"
  have w: "rm_payout (miners s m) = w" "w \<noteq> []" using m by (auto simp: w_def miner_ok_def)
  have ix: "index_ok s" and px: "proxy_ok s p" for p using ok by (simp_all add: registry_ok_def)
  have plain: "registry_ok (finishLogin sec m socket s')"
    if "activeMiners s' = activeMiners s" "miners s' = miners s" "proxyMiners s' = proxyMiners s" "index_ok s'" "proxied s' = proxied s" for s'
    using finishLogin_ok [of s' i m sec socket] that i m name px finishLogin_sel(3) [of s' m i sec socket]
    by (simp add: registry_ok_def proxy_ok_def miner_ok_def)
  show ?thesis
  proof (cases "rm_proxy (miners s m) \<or> \<not> (agentProxy \<or> proxyMiners s w \<noteq> None)")
    case True
    then have "registerMinerWallet cfg agentProxy m s = (True, s) \<or>
        (\<exists>n. registerMinerWallet cfg agentProxy m s = (True, s\<lparr>minerWallets := (minerWallets s)(w \<mapsto> n)\<rparr>)) \<or>
        (\<exists>b. registerMinerWallet cfg agentProxy m s = (False, s\<lparr>bannedBigTmpWallets := b\<rparr>))"
      by (cases "rm_proxy (miners s m)"; cases "minerWallets s w") (auto simp: registerMinerWallet_def Let_def w(1))
    then consider "login cfg sec agentProxy m socket s = finishLogin sec m socket s"
      | n where "login cfg sec agentProxy m socket s = finishLogin sec m socket (s\<lparr>minerWallets := (minerWallets s)(w \<mapsto> n)\<rparr>)"
      | b where "login cfg sec agentProxy m socket s = s\<lparr>bannedBigTmpWallets := b\<rparr>"
      by (auto simp: login_def)
    then show ?thesis
    proof cases
      case 1
      then show ?thesis using plain [of s] ix by simp
    next
      case 2
      then show ?thesis using plain [of "s\<lparr>minerWallets := (minerWallets s)(w \<mapsto> n)\<rparr>"] ix by simp
    next
      case 3
      then show ?thesis using ok by (simp add: registry_ok_def proxy_ok_def)
    qed
  next
    case False
    then have e: "registerMinerWallet cfg agentProxy m s = addProxyMiner cfg m s" by (simp add: registerMinerWallet_def Let_def w(1))
    have nn: "case rm_proxyMinerName (miners s m) of Some p \<Rightarrow> p = [] \<or> proxyMiners s p = None | None \<Rightarrow> True" by (simp add: name)
    note add = addProxyMiner_new [OF ok w nn, where cfg = cfg]
    note nm = name_miner [OF ok w]
    show ?thesis
    proof (cases "fst (addProxyMiner cfg m s)")
      case t: True
      let ?s1 = "on_miner m (\<lambda>r. r\<lparr>rm_proxyMinerName := Some w\<rparr>) s"
      from add(1) [OF t] obtain n where n: "snd (addProxyMiner cfg m s) = ?s1\<lparr>proxyMiners := (proxyMiners s)(w \<mapsto> n)\<rparr>"
        "0 < n" "n = int (card (proxied s w)) + 1" by blast
      let ?s2 = "?s1\<lparr>proxyMiners := (proxyMiners s)(w \<mapsto> n)\<rparr>"
      have l: "login cfg sec agentProxy m socket s = finishLogin sec m socket ?s2"
        using t n(1) by (simp add: login_def e prod.case_eq_if)
      have not_live: "\<not> live s j m" for j
        using m ix i by (auto simp: index_ok_def live_def miner_ok_def)
      then have p1: "proxied ?s1 p = proxied s p" for p using nm(2,3) by (cases "p = w") auto
      have out: "i \<notin> proxied s p" for p using i by (auto simp: proxied_def live_def)
      have f: "index_ok (finishLogin sec m socket ?s2)"
        "proxied (finishLogin sec m socket ?s2) p = (if p = w then insert i (proxied s p) else proxied s p)" for p
        using finishLogin_ok [of ?s2 i m sec socket] nm(1) i m w p1 by (auto simp: miner_ok_def)
      have g: "proxyMiners (finishLogin sec m socket ?s2) = (proxyMiners s)(w \<mapsto> n)"
        using finishLogin_sel(3) [of ?s2 m i sec socket] m by (simp add: miner_ok_def)
      have "counts (Some n) (insert i (proxied s w))" using n(2,3) out [of w] by (simp add: counts_def)
      then have "proxy_ok (finishLogin sec m socket ?s2) p" for p
        using px [of p] unfolding proxy_ok_def f(2) g by (cases "p = w") simp_all
      then show ?thesis using f(1) by (simp add: l registry_ok_def)
    next
      case False
      then show ?thesis using add(2) by (simp add: login_def e prod.case_eq_if)
    qed
  qed
qed

subsection \<open>Every run\<close>

text \<open>
  The events: a login with a new object, a share that is throttled, a removal for whatever
  reason, the periodic scan, the audit of one miner, and changes to a miner that concern only
  its trust and activity.
\<close>

inductive reg_step :: "reg_config \<Rightarrow> security_config \<Rightarrow> registry \<Rightarrow> registry \<Rightarrow> bool" for cfg sec where
  login: "map_of (activeMiners s) (rm_id r) = None \<Longrightarrow> m \<notin> ran (map_of (activeMiners s)) \<Longrightarrow> miner_ok (rm_id r) r \<Longrightarrow>
     rm_proxyMinerName r = None \<Longrightarrow>
     reg_step cfg sec s (login cfg sec agentProxy m socket (s\<lparr>miners := (miners s)(m := r)\<rparr>))"
| throttle: "live s i m \<Longrightarrow> reg_step cfg sec s (snd (addProxyMiner cfg m s))"
| remove: "live s i m \<Longrightarrow> reg_step cfg sec s (removeMiner opts m s)"
| alive: "reg_step cfg sec s (checkAliveMiners cfg sec now s)"
| audit: "live s i m \<Longrightarrow> reg_step cfg sec s (auditMiner m s)"
| touch: "live s i m \<Longrightarrow> reg_step cfg sec s (on_miner m (\<lambda>r. r\<lparr>rm_hasSubmittedValidShare := b, rm_activity := a, rm_trust := t\<rparr>) s)"
| trust: "reg_step cfg sec s (snd (clearWalletSessionTrust payout key s))"

lemma checkMiner_ok: "registry_ok s \<Longrightarrow> registry_ok (checkMiner sec now dl m s) \<or> (\<nexists>i. live s i m)"
  by (auto simp: checkMiner_def Let_def intro: remove_ok)

lemma scan_ok:
  assumes "registry_ok s" "\<forall>m \<in> set ms. \<exists>i. live s i m" "distinct ms"
  shows "registry_ok (fold (checkMiner sec now dl) ms s)"
  using assms
proof (induction ms arbitrary: s)
  case (Cons m ms)
  then obtain i where i: "live s i m" by auto
  have ok: "registry_ok (checkMiner sec now dl m s)" using checkMiner_ok [OF Cons.prems(1)] i by blast
  have "\<forall>k \<in> set ms. \<exists>j. live (checkMiner sec now dl m s) j k"
  proof
    fix k assume k: "k \<in> set ms"
    with Cons.prems(2) obtain j where j: "live s j k" by auto
    have "k \<noteq> m" using Cons.prems(3) k by auto
    then have "j \<noteq> i" using j i by (auto simp: live_def)
    then show "\<exists>j. live (checkMiner sec now dl m s) j k"
      using j i Cons.prems(1) remove_live(1) by (auto simp: checkMiner_def Let_def registry_ok_def)
  qed
  with Cons.IH [OF ok] Cons.prems(3) show ?case by simp
qed simp

lemma checkAlive_ok: "registry_ok s \<Longrightarrow> registry_ok (checkAliveMiners cfg sec now s)"
proof -
  assume ok: "registry_ok s"
  then have ix: "index_ok s" by (simp add: registry_ok_def)
  then have d: "distinct (map fst (activeMiners s))" by (simp add: index_ok_def keyed_def)
  have l: "live s i m" if "(i, m) \<in> set (activeMiners s)" for i m
    unfolding live_def using d that by (rule map_of_is_SomeI)
  have "inj_on snd (set (activeMiners s))"
  proof (rule inj_onI)
    fix x y assume x: "x \<in> set (activeMiners s)" "y \<in> set (activeMiners s)" "snd x = snd y"
    have "live s (fst x) (snd x)" "live s (fst y) (snd x)" using l [of "fst x" "snd x"] l [of "fst y" "snd y"] x by (metis prod.collapse)+
    then have "fst x = fst y" by (rule live_unique [OF ix])
    with x(3) show "x = y" by (simp add: prod_eq_iff)
  qed
  moreover have "distinct (activeMiners s)" using d by (simp add: distinct_map)
  ultimately have "distinct (map snd (activeMiners s))" by (simp add: distinct_map)
  moreover have "\<forall>m \<in> set (map snd (activeMiners s)). \<exists>i. live s i m" using l by force
  ultimately show ?thesis unfolding checkAliveMiners_def by (intro scan_ok [OF ok])
qed

lemma clearTrusts_ok: "registry_ok s \<Longrightarrow> registry_ok (snd (clearTrusts key ids n s))"
proof (induction key ids n s rule: clearTrusts.induct)
  case (2 key i ids n s)
  have "registry_ok (on_miner m (\<lambda>r. r\<lparr>rm_trust := Some 0\<rparr>) s)" for m
  proof (rule registry_ok_on_miner [OF 2(4)])
    show "miner_ok j (miners s m\<lparr>rm_trust := Some 0\<rparr>) \<and> rm_payout (miners s m\<lparr>rm_trust := Some 0\<rparr>) = rm_payout (miners s m) \<and>
        rm_proxyMinerName (miners s m\<lparr>rm_trust := Some 0\<rparr>) = rm_proxyMinerName (miners s m)" if "live s j m" for j
      using that 2(4) by (simp add: registry_ok_def index_ok_def miner_ok_def)
  qed
  then show ?case using 2 by (auto split: option.split)
qed simp

lemma fresh_object:
  assumes "registry_ok s" "m \<notin> ran (map_of (activeMiners s))"
  shows "registry_ok (s\<lparr>miners := (miners s)(m := r)\<rparr>)"
proof -
  have e: "s\<lparr>miners := (miners s)(m := r)\<rparr> = on_miner m (\<lambda>_. r) s" by (simp add: on_miner_def)
  have "\<not> live s i m" for i using assms(2) by (auto simp: live_def ran_def)
  then show ?thesis unfolding e using assms(1) by (intro registry_ok_on_miner) auto
qed

lemma reg_step_ok: "reg_step cfg sec s s' \<Longrightarrow> registry_ok s \<Longrightarrow> registry_ok s'"
proof (induction rule: reg_step.induct)
  case (login s r m agentProxy socket)
  show ?case by (rule login_ok [OF fresh_object [OF login(5,2)], where i = "rm_id r"]) (use login in auto)
next
  case (touch s i m b a t)
  have "miner_ok j (miners s m)" if "live s j m" for j using that touch(2) by (simp add: registry_ok_def index_ok_def)
  then show ?case using touch(2) by (intro registry_ok_on_miner) (simp_all add: miner_ok_def)
next
  case (trust s payout key)
  then show ?case by (auto simp: clearWalletSessionTrust_def clearTrusts_ok split: option.split)
qed (auto intro: addProxyMiner_live remove_ok checkAlive_ok simp: auditMiner_def)

definition emptyRegistry :: registry where
  "emptyRegistry = \<lparr>miners = (\<lambda>m. undefined), sockets = (\<lambda>k. undefined), activeMiners = [], activeMinersByPayout = [],
     activeMinerSockets = [], proxyMiners = (\<lambda>p. None), minerWallets = (\<lambda>p. None), bannedBigTmpWallets = {}, bannedAddresses = {}\<rparr>"

inductive reg_reach :: "reg_config \<Rightarrow> security_config \<Rightarrow> registry \<Rightarrow> bool" for cfg sec where
  boot: "reg_reach cfg sec emptyRegistry"
| step: "reg_reach cfg sec s \<Longrightarrow> reg_step cfg sec s s' \<Longrightarrow> reg_reach cfg sec s'"

lemma reg_reach_ok: "reg_reach cfg sec s \<Longrightarrow> registry_ok s"
proof (induction rule: reg_reach.induct)
  case boot
  show ?case by (simp add: registry_ok_def index_ok_def indexed_def payout_ids_def live_def proxy_ok_def counts_def proxied_def keyed_def emptyRegistry_def)
qed (rule reg_step_ok)

end
