(* ===== verification/Pool_Properties.thy ===== *)
theory Pool_Properties
  imports Share_Accumulator Miner_Registry
begin

text \<open>Properties of the pool node: the registry of miners, logins and the accounting of shares.\<close>

subsection \<open>Logins\<close>

lemma createMiner_Inr:
  assumes "createMiner env loginName pass rigid agent = Inr m"
  shows "\<exists>b ds m1. applyPayoutDivisions env (b # ds) m1 = Inr m \<and> length (legs ds) \<le> 2 \<and> lm_error m1 = None \<and>
    lm_address m1 = lm_payout m1 \<and> le_validateAddress env (lm_payout m1) \<and> lm_payout m1 \<notin> le_bannedAddresses env \<and>
    lm_payout m1 \<notin> set (le_bannedTmpWallets env) \<and> lm_payout m1 \<notin> set (le_bannedBigTmpWallets env)"
proof -
  obtain passSplit diffs divs base dotted m0 where
    v: "validateNewMiner env passSplit diffs divs base dotted m0 = Inr m" and m0: "lm_error m0 = None" "lm_address m0 = lm_payout m0"
    using assms by (auto simp: createMiner_def Let_def)
  from v obtain m1 where m1: "validateLoginAndPayout env diffs divs base dotted m0 = Inr m1" "applyPayoutDivisions env divs m1 = Inr m"
    by (auto simp: validateNewMiner_def checkThen_Inr split: if_splits)
  from m1(1) have len: "odd (length divs)" "length divs \<le> 5"
    and ok: "lm_error m1 = None" "lm_address m1 = lm_payout m1" "validatePayoutAddress env (lm_payout m1) False m1 = Inr m1"
    using m0 by (auto simp: validateLoginAndPayout_def Let_def validatePayoutAddress_Inr split: if_splits option.splits)
  from len(1) obtain b ds where d: "divs = b # ds" by (cases divs) auto
  with len have "length (legs ds) \<le> 2" by (simp add: legs_length)
  with m1(2) ok show ?thesis unfolding d validatePayoutAddress_Inr by auto
qed

definition split_table :: "login_env \<Rightarrow> login_miner \<Rightarrow> (string \<times> num) list \<Rightarrow> bool" where
  "split_table env m t \<longleftrightarrow> distinct (map fst t) \<and> 2 \<le> length t \<and> length t \<le> 3 \<and>
     list_all (\<lambda>(a, p). fl (1 / 10) \<le> p \<and> p \<le> fl (999 / 10) \<and>
        (a = lm_payout m \<or> le_validatePlainAddress env a \<and> a \<notin> le_bannedAddresses env)) t \<and>
     lm_payout m \<in> fst ` set t \<and> \<bar>sum_list (map snd t) - 100\<bar> \<le> 200 / 2 ^ 53"

lemma login_split:
  assumes "createMiner env loginName pass rigid agent = Inr m"
  shows "lm_error m = None \<and> le_validateAddress env (lm_payout m) \<and> lm_payout m \<notin> le_bannedAddresses env \<and>
    lm_address m = lm_payout m \<and> (case lm_payout_div m of None \<Rightarrow> True | Some t \<Rightarrow> split_table env m t)"
proof -
  from createMiner_Inr [OF assms] obtain b ds m1 where
    a: "applyPayoutDivisions env (b # ds) m1 = Inr m" "length (legs ds) \<le> 2" "lm_error m1 = None" "lm_address m1 = lm_payout m1"
      "le_validateAddress env (lm_payout m1)" "lm_payout m1 \<notin> le_bannedAddresses env" by blast
  show ?thesis
  proof (cases "legs ds = []")
    case True
    then show ?thesis using split_result [OF a(1)] a by simp
  next
    case False
    then obtain new left where n: "m = m1\<lparr>lm_payout_div := Some (new @ [(lm_payout m1, left)])\<rparr>" "length new = length (legs ds)"
      "list_all (leg_ok env) new" "distinct (map fst (new @ [(lm_payout m1, left)]))" "fl (1 / 10) \<le> left" "left \<le> fl (999 / 10)"
      "\<bar>sum_list (map snd new) + left - 100\<bar> \<le> of_nat (length new) * (100 / 2 ^ 53)"
      using split_result [OF a(1), unfolded if_not_P [OF False]] by blast
    have len: "1 \<le> length new" "length new \<le> 2" using n(2) a(2) False by (auto simp: Suc_le_eq)
    then have "of_nat (length new) * (100 / 2 ^ 53 :: num) \<le> 200 / 2 ^ 53" by (cases "length new = 2") auto
    with n(7) have "\<bar>sum_list (map snd (new @ [(lm_payout m1, left)])) - 100\<bar> \<le> 200 / 2 ^ 53" by simp
    with n len have "split_table env m (new @ [(lm_payout m1, left)])"
      by (auto simp: split_table_def list_all_iff leg_ok_def)
    then show ?thesis using a n(1) by simp
  qed
qed

text \<open>
  C18. A login that passes the checks has a sound payout: the address it pays to is valid and not
  banned, and either there is no division, or the table of at most two further addresses and
  the login's own one has no address twice, gives each between 0.1 and 99.9 percent, contains
  only valid and unbanned addresses, and its percentages, computed with rounded subtractions,
  add up to 100 within 200 / 2^53.
\<close>

theorem payout_split_sound:
  assumes "createMiner env loginName pass rigid agent = Inr m"
  shows "lm_error m = None \<and> le_validateAddress env (lm_payout m) \<and> lm_payout m \<notin> le_bannedAddresses env \<and>
    (case lm_payout_div m of
       None \<Rightarrow> True
     | Some t \<Rightarrow> distinct (map fst t) \<and> 2 \<le> length t \<and> length t \<le> 3 \<and> lm_payout m \<in> fst ` set t \<and>
         list_all (\<lambda>(a, p). fl (1 / 10) \<le> p \<and> p \<le> fl (999 / 10) \<and>
           (a = lm_payout m \<or> le_validatePlainAddress env a \<and> a \<notin> le_bannedAddresses env)) t \<and>
         \<bar>sum_list (map snd t) - 100\<bar> \<le> 200 / 2 ^ 53)"
  using login_split [OF assms] by (auto simp: split_table_def split: option.splits)

text \<open>
  Dividing loses nothing but the fractions of the legs: for a miner that passed the login, the
  rows into which a batch is divided carry together its whole amount up to the rounding of
  doubles and less than one unit per leg.
\<close>

theorem split_pays_all:
  assumes "createMiner env loginName pass rigid agent = Inr m" and "0 \<le> wa_acc2 w"
  shows "wa_acc2 w * (1 - 11 / 2 ^ 53) - 3 \<le> sum_list (map sr_shares2 (storeShareDiv m name port f trusted now w)) \<and>
    sum_list (map sr_shares2 (storeShareDiv m name port f trusted now w)) \<le> wa_acc2 w * (1 + 11 / 2 ^ 53)"
proof (cases "lm_payout_div m")
  case None
  then show ?thesis using assms(2) by (simp add: storeShareDiv_def Let_def algebra_simps)
next
  case (Some t)
  let ?x = "wa_acc2 w" and ?ps = "map snd t"
  let ?got = "sum_list (map sr_shares2 (storeShareDiv m name port f trusted now w))"
  let ?sum = "sum_list (map (\<lambda>p. js_floor (splitLeg ?x p)) ?ps)"
  have t: "split_table env m t" using login_split [OF assms(1)] Some by simp
  have "list_all (\<lambda>p. 0 \<le> p \<and> p \<le> 100) ?ps"
    unfolding list_all_iff
  proof
    fix p assume "p \<in> set ?ps"
    then obtain a where "(a, p) \<in> set t" by auto
    then have "fl (1 / 10) \<le> p" "p \<le> fl (999 / 10)" using t by (auto simp: split_table_def list_all_iff)
    then show "0 \<le> p \<and> p \<le> 100" using tenth(1) percent_bounds(2) by linarith
  qed
  note s = split_sum [OF assms(2) this]
  have "length ?ps \<le> 3" using t by (simp add: split_table_def)
  then have n: "of_nat (length ?ps) \<le> (3 :: num)" by linarith
  have c: "of_nat (length ?ps) * (3 * ?x / 2 ^ 53) \<le> 3 * (3 * ?x / 2 ^ 53)"
    "of_nat (length ?ps) * (3 * ?x / 2 ^ 53 + 1) \<le> 3 * (3 * ?x / 2 ^ 53 + 1)"
    using assms(2) by (intro mult_right_mono n; simp)+
  have "\<bar>sum_list ?ps - 100\<bar> \<le> 200 / 2 ^ 53" using t by (simp add: split_table_def)
  then have b: "100 - 200 / 2 ^ 53 \<le> sum_list ?ps" "sum_list ?ps \<le> 100 + 200 / 2 ^ 53" by linarith+
  have d: "?x * (100 - 200 / 2 ^ 53) \<le> ?x * sum_list ?ps" "?x * sum_list ?ps \<le> ?x * (100 + 200 / 2 ^ 53)"
    using b assms(2) by (intro mult_left_mono; simp)+
  have e: "?x * (1 - 11 / 2 ^ 53) - 3 = ?x * (100 - 200 / 2 ^ 53) / 100 - 3 * (3 * ?x / 2 ^ 53 + 1)"
    "?x * (1 + 11 / 2 ^ 53) = ?x * (100 + 200 / 2 ^ 53) / 100 + 3 * (3 * ?x / 2 ^ 53)" by (simp_all add: field_simps)
  have "sum_list (map sr_shares2 (storeShareDiv m name port f trusted now w)) = ?sum"
    using Some t by (intro split_rows) (simp_all add: split_table_def)
  then have q: "?x * sum_list ?ps / 100 - of_nat (length ?ps) * (3 * ?x / 2 ^ 53 + 1) \<le> ?got"
    "?got \<le> ?x * sum_list ?ps / 100 + of_nat (length ?ps) * (3 * ?x / 2 ^ 53)" using s by (simp_all only:)
  have d': "?x * (100 - 200 / 2 ^ 53) / 100 \<le> ?x * sum_list ?ps / 100" "?x * sum_list ?ps / 100 \<le> ?x * (100 + 200 / 2 ^ 53) / 100"
    using d by (intro divide_right_mono; simp)+
  show ?thesis unfolding e using diff_mono [OF d'(1) c(2)] add_mono [OF d'(2) c(1)] q
    by (intro conjI) (rule order_trans; assumption)+
qed

text \<open>
  Trust does not depend on the order in which a login lists the legs of its division: two
  logins of one miner with the same legs in any order, if both are accepted, share one trust
  key, although their tables and wallet keys differ.
\<close>

theorem trust_key_order_independent:
  assumes "applyPayoutDivisions env (b # ds) m = Inr r" and "applyPayoutDivisions env (b # ds') m = Inr r'"
    and "mset (legs ds) = mset (legs ds')"
  shows "trust_key r = trust_key r'"
  using assms by (rule trust_key_order)

subsection \<open>Accounting of shares\<close>

text \<open>
  C19. Every accepted share is paid exactly once: whatever shares are accepted and whenever the
  timers fire, what was stored are the rows of batches of shares, what is pending are running
  sums of batches, and for each wallet key the accepted shares are, as a multiset, exactly
  those of the stored and of the pending batches of that key.
\<close>

theorem shares_counted_once:
  assumes "acc_reach cfg hist s"
  shows "\<exists>gs P. stored s = concat (map (rows_of cfg) gs) \<and>
    (\<forall>k. pending s k = map (map_prod id (worker_of cfg)) (P k) \<and> distinct (map fst (P k)) \<and>
       mset (filter (\<lambda>e. ev_key e = k) hist) =
         mset (concat (map snd (P k))) + mset (concat (map g_events (filter (\<lambda>g. g_key g = k) gs))))"
proof -
  from acc_reach_ok [OF assms] obtain gs where "acc_inv cfg hist gs s" by blast
  then have st: "stored s = concat (map (rows_of cfg) gs)" and "\<forall>k. \<exists>P. covers cfg hist gs k (pending s k) P"
    by (simp_all add: acc_inv_def)
  then obtain P where "covers cfg hist gs k (pending s k) (P k)" for k by metis
  with st show ?thesis by (intro exI [of _ gs] exI [of _ P]) (simp add: covers_def acc_written_def)
qed

text \<open>
  Nothing pending is forgotten: a wallet key with pending workers has exactly one armed timer,
  holds at most 51 workers, and whenever the timer fires, every worker older than the
  accumulation time is written and dropped, and only those.
\<close>

theorem accumulator_drains:
  assumes "acc_reach cfg hist s" and "walletAcc s k = Some wallet" and "wallet \<noteq> []"
  shows "\<exists>fs m port fs'. finalizers s = fs @ (k, m, port) # fs' \<and> k \<notin> fst ` set (fs @ fs') \<and> length wallet \<le> 51 \<and>
    pending (walletAccFinalizer cfg k m port now (s\<lparr>finalizers := fs @ fs'\<rparr>)) k =
      filter (\<lambda>(n, w). fl (now - wa_time w) \<le> getShareAccTimeMs cfg) wallet"
proof -
  from acc_reach_ok [OF assms(1)] have tm: "finalizers_ok s" and wk: "workers_ok s" by simp_all
  have p: "pending s k = wallet" using assms(2) by (simp add: pending_def)
  then have "k \<in> fst ` set (finalizers s)" using tm assms(3) by (auto simp: finalizers_ok_def)
  then obtain m port where "(k, m, port) \<in> set (finalizers s)" by auto
  then obtain fs fs' where f: "finalizers s = fs @ (k, m, port) # fs'" by (meson split_list)
  have "k \<notin> fst ` set (fs @ fs')" using tm by (auto simp: finalizers_ok_def f)
  moreover have "length wallet \<le> 51"
  proof -
    have d: "distinct (map fst wallet)" "named wallet \<le> maxWorkers" using wk assms(2) p by (auto simp: workers_ok_def)
    have "length (filter (\<lambda>x. fst x = all_other_workers) wallet) \<le> 1"
    proof (cases "all_other_workers \<in> fst ` set wallet")
      case True
      then show ?thesis using filter_key_once [OF d(1)] by simp
    next
      case False
      then have "filter (\<lambda>x. fst x = all_other_workers) wallet = []" by (force simp: filter_empty_conv)
      then show ?thesis by simp
    qed
    moreover have "length wallet = length (filter (\<lambda>x. fst x = all_other_workers) wallet) +
        length (filter (\<lambda>x. fst x \<noteq> all_other_workers) wallet)" by (simp add: sum_length_filter_compl)
    ultimately show ?thesis using d(2) by (simp add: named_def maxWorkers_def)
  qed
  moreover have "pending (walletAccFinalizer cfg k m port now (s\<lparr>finalizers := fs @ fs'\<rparr>)) k =
      filter (\<lambda>(n, w). fl (now - wa_time w) \<le> getShareAccTimeMs cfg) wallet"
    unfolding fire_drains [OF wk assms(2)] by (intro filter_cong) (auto simp: overdue_def)
  ultimately show ?thesis using f by blast
qed

subsection \<open>Miners\<close>

text \<open>
  C20. The registry of miners is consistent in every reachable state: the index by payout address
  lists exactly the connected miners of the address, sockets and miners have the same ids, no
  connected miner is marked as removed, and the counter of a proxy is the number of connected
  miners that were registered under it, and is absent when there is none.
\<close>

theorem registry_consistent:
  assumes "reg_reach cfg sec s"
  shows "(\<forall>p. indexed s p = {i. \<exists>m. map_of (activeMiners s) i = Some m \<and> rm_payout (miners s m) = p}) \<and>
    dom (map_of (activeMinerSockets s)) = dom (map_of (activeMiners s)) \<and>
    (\<forall>i m. map_of (activeMiners s) i = Some m \<longrightarrow> rm_id (miners s m) = i \<and> \<not> rm_removed (miners s m)) \<and>
    (\<forall>p. case proxyMiners s p of
       None \<Rightarrow> proxied s p = {}
     | Some n \<Rightarrow> 0 < n \<and> n = int (card (proxied s p)))"
  using reg_reach_ok [OF assms]
  by (simp add: registry_ok_def index_ok_def proxy_ok_def counts_def payout_ids_def live_def miner_ok_def)

subsection \<open>Examples\<close>

definition px_env :: login_env where
  "px_env = \<lparr>le_bannedAddresses = {}, le_bannedTmpWallets = [], le_bannedBigTmpWallets = [], le_validatePlainAddress = (\<lambda>a. a \<noteq> []),
     le_validateAddress = (\<lambda>a. a \<noteq> []), le_hasTemplate = True\<rparr>"

lemma px_accepted: "createMiner px_env ''alice%12.5%bob'' ''rig'' None None =
   Inr \<lparr>lm_payout = ''alice'', lm_address = ''alice'', lm_identifier = ''rig'', lm_email = [], lm_agent = [],
     lm_payout_div = Some [(''bob'', 25 / 2), (''alice'', 175 / 2)], lm_invalidLogKey = Some ''alice'', lm_delay_reply = None,
     lm_workerLimitLogin = False, lm_error = None\<rparr>"
  by code_simp

definition px_login :: login_miner where
  "px_login = \<lparr>lm_payout = ''alice'', lm_address = ''alice'', lm_identifier = ''rig'', lm_email = [], lm_agent = [],
     lm_payout_div = None, lm_invalidLogKey = Some ''alice'', lm_delay_reply = None,
     lm_workerLimitLogin = False, lm_error = None\<rparr>"

definition px_share :: "num \<Rightarrow> bool \<Rightarrow> share_event" where
  "px_share now trusted = \<lparr>ev_miner = px_login,
     ev_job = \<lparr>sj_rewarded = 1000, sj_rewarded2 = 1000, sj_hashesPerDifficulty = None\<rparr>,
     ev_template = \<lparr>bt_port = 18081, bt_height = 7, bt_difficulty = 5000\<rparr>, ev_anchor = None, ev_time = now, ev_trusted = trusted\<rparr>"

definition px_acc :: acc_config where
  "px_acc = \<lparr>ac_shareAccTime = Some 60, ac_daemonPort = 18081\<rparr>"

definition px_divided :: login_miner where
  "px_divided = px_login\<lparr>lm_payout_div := Some [(''bob'', 25 / 2), (''alice'', 175 / 2)]\<rparr>"

lemma first_share:
  assumes "event_ok e"
  shows "pending (accept cfg e emptyAcc) (ev_key e) = [(lm_identifier (ev_miner e), firstWorker cfg e)] \<and>
    stored (accept cfg e emptyAcc) = []"
proof -
  let ?s1 = "openWallet (ev_key e) emptyAcc"
  have p: "pending ?s1 (ev_key e) = []" and s: "walletAcc ?s1 (ev_key e) = Some (pending ?s1 (ev_key e))"
    by (simp_all add: openWallet_def emptyAcc_def pending_def)
  from accept_unfold [OF assms s, of cfg] show ?thesis
    by (auto simp: p pending_def shareWorkerName_def openWallet_def emptyAcc_def maxWorkers_def)
qed

theorem payout_split_sound_witness:
  "\<bar>sum_list (map snd [(''bob'', 25 / 2), (''alice'', 175 / 2)]) - 100 :: num\<bar> \<le> 200 / 2 ^ 53 \<and>
   fl (1 / 10) \<le> (25 / 2 :: num)"
  using payout_split_sound [OF px_accepted] by simp

theorem split_pays_all_witness:
  "sum_list (map sr_shares2 (storeShareDiv px_divided ''rig'' 1 False True 0 (firstWorker px_acc (px_share 0 False)))) \<le> 1000 * (1 + 11 / 2 ^ 53)"
proof -
  have "createMiner px_env ''alice%12.5%bob'' ''rig'' None None = Inr px_divided" using px_accepted by (simp add: px_divided_def px_login_def)
  from split_pays_all [OF this, of "firstWorker px_acc (px_share 0 False)"] show ?thesis by (simp add: firstWorker_def px_share_def)
qed

theorem trust_key_order_independent_witness:
  "trust_key (projr (applyPayoutDivisions px_env [''alice'', ''10'', ''bob'', ''20'', ''carol''] px_login)) =
   trust_key (projr (applyPayoutDivisions px_env [''alice'', ''20'', ''carol'', ''10'', ''bob''] px_login)) \<and>
   lm_payout_div (projr (applyPayoutDivisions px_env [''alice'', ''10'', ''bob'', ''20'', ''carol''] px_login)) =
     Some [(''bob'', 10), (''carol'', 20), (''alice'', 70)]"
proof -
  have a: "applyPayoutDivisions px_env [''alice'', ''10'', ''bob'', ''20'', ''carol''] px_login =
      Inr (px_login\<lparr>lm_payout_div := Some [(''bob'', 10), (''carol'', 20), (''alice'', 70)]\<rparr>)" by code_simp
  have b: "applyPayoutDivisions px_env [''alice'', ''20'', ''carol'', ''10'', ''bob''] px_login =
      Inr (px_login\<lparr>lm_payout_div := Some [(''carol'', 20), (''bob'', 10), (''alice'', 70)]\<rparr>)" by code_simp
  show ?thesis using trust_key_order_independent [OF a b] by (simp add: a b)
qed

lemma px_one_share: "acc_reach px_acc [px_share 0 False] (accept px_acc (px_share 0 False) emptyAcc)"
proof -
  have "event_ok (px_share 0 False)" using fl_of_int [of 1000] by (simp add: event_ok_def px_share_def)
  from acc_reach.share [OF acc_reach.boot this] show ?thesis by simp
qed

theorem shares_counted_once_witness:
  "\<exists>gs (P :: string \<Rightarrow> (string \<times> share_event list) list). stored (accept px_acc (px_share 0 False) emptyAcc) = concat (map (rows_of px_acc) gs) \<and>
     mset [px_share 0 False] = mset (concat (map snd (P (ev_key (px_share 0 False))))) +
       mset (concat (map g_events (filter (\<lambda>g. g_key g = ev_key (px_share 0 False)) gs)))"
proof -
  from shares_counted_once [OF px_one_share] obtain gs P where
    s: "stored (accept px_acc (px_share 0 False) emptyAcc) = concat (map (rows_of px_acc) gs)"
    and p: "\<forall>k. pending (accept px_acc (px_share 0 False) emptyAcc) k = map (map_prod id (worker_of px_acc)) (P k) \<and>
      distinct (map fst (P k)) \<and> mset (filter (\<lambda>e. ev_key e = k) [px_share 0 False]) =
      mset (concat (map snd (P k))) + mset (concat (map g_events (filter (\<lambda>g. g_key g = k) gs)))" by (elim exE conjE)
  from p [THEN spec, of "ev_key (px_share 0 False)"] s show ?thesis by (intro exI [of _ gs] exI [of _ P] conjI) simp_all
qed

theorem accumulator_drains_witness:
  "\<exists>fs m port fs'. finalizers (accept px_acc (px_share 0 False) emptyAcc) = fs @ (ev_key (px_share 0 False), m, port) # fs'"
proof -
  have "event_ok (px_share 0 False)" using fl_of_int [of 1000] by (simp add: event_ok_def px_share_def)
  from first_share [OF this, of px_acc]
  have p: "pending (accept px_acc (px_share 0 False) emptyAcc) (ev_key (px_share 0 False)) = [(''rig'', firstWorker px_acc (px_share 0 False))]"
    by (simp add: px_share_def px_login_def)
  then obtain wallet where "walletAcc (accept px_acc (px_share 0 False) emptyAcc) (ev_key (px_share 0 False)) = Some wallet" "wallet \<noteq> []"
    by (auto simp: pending_def split: option.splits)
  from accumulator_drains [OF px_one_share this] show ?thesis by blast
qed

text \<open>
  A batch that is written because the next share of the worker comes after the accumulation
  time carries the trust flag of that next share, not that of its own shares (the timer uses
  the batch's own flag).
\<close>

theorem flush_takes_new_flag:
  assumes "acc_reach cfg hist s" and "event_ok e"
    and "map_of (pending s (ev_key e)) (lm_identifier (ev_miner e)) = Some w"
    and "getShareAccTimeMs cfg < fl (ev_time e - wa_time w)"
  shows "stored (accept cfg e s) = stored s @
    storeShareDiv (ev_miner e) (lm_identifier (ev_miner e)) (bt_port (ev_template e)) False (ev_trusted e) (ev_time e) w"
proof -
  let ?k = "ev_key e" and ?n = "lm_identifier (ev_miner e)"
  have opn: "openWallet ?k s = s" "walletAcc s ?k = Some (pending s ?k)"
    using assms(3) by (auto simp: openWallet_def pending_def split: option.splits)
  from acc_reach_ok [OF assms(1)] obtain gs where "acc_inv cfg hist gs s" by blast
  then obtain P where "covers cfg hist gs ?k (pending s ?k) P" by (auto simp: acc_inv_def)
  then have "wa_acc w \<noteq> 0" using assms(3) by (rule covers_find)
  then have put: "put_share cfg e ?n w =
      (firstWorker cfg e, storeShareDiv (ev_miner e) ?n (bt_port (ev_template e)) False (ev_trusted e) (ev_time e) w)"
    using assms(4) by (simp add: put_share_def updateShareWorker_def firstWorker_def Let_def event_height_def)
  have name: "shareWorkerName s ?k (pending s ?k) ?n = ?n" using assms(3) by (simp add: shareWorkerName_def)
  from accept_unfold [OF assms(2), of s cfg] opn(2) assms(3) put show ?thesis by (auto simp: opn(1) name)
qed

theorem flush_takes_new_flag_witness:
  "map (\<lambda>r. (sr_shares2 r, sr_trusted r)) (stored (accept px_acc (px_share 61000 True) (accept px_acc (px_share 0 False) emptyAcc))) = [(1000, True)] \<and>
   wa_trusted (firstWorker px_acc (px_share 0 False)) = False"
proof -
  let ?e = "px_share 0 False" and ?f = "px_share 61000 True"
  have ok: "event_ok ?e" "event_ok ?f" using fl_of_int [of 1000] by (simp_all add: event_ok_def px_share_def)
  have key: "ev_key ?f = ev_key ?e" "lm_identifier (ev_miner ?f) = lm_identifier (ev_miner ?e)" by (simp_all add: ev_key_def px_share_def)
  have r: "acc_reach px_acc ([] @ [?e]) (accept px_acc ?e emptyAcc)" using ok(1) by (intro acc_reach.share acc_reach.boot)
  have "fl (61000 - 0) = 61000" "fl (60 * 1000) = 60000" using fl_of_int [of 61000] fl_of_int [of 60000] by simp_all
  then have late: "getShareAccTimeMs px_acc < fl (ev_time ?f - wa_time (firstWorker px_acc ?e))"
    by (simp add: getShareAccTimeMs_def px_acc_def px_share_def firstWorker_def)
  have w: "map_of (pending (accept px_acc ?e emptyAcc) (ev_key ?f)) (lm_identifier (ev_miner ?f)) = Some (firstWorker px_acc ?e)"
    using first_share [OF ok(1), of px_acc] by (simp add: key)
  have "stored (accept px_acc ?e emptyAcc) = []" using first_share [OF ok(1), of px_acc] by simp
  with flush_takes_new_flag [OF r ok(2) w late] show ?thesis
    by (simp add: storeShareDiv_def px_share_def px_login_def firstWorker_def Let_def)
qed


definition px_reg :: reg_config where
  "px_reg = \<lparr>workerMax = 2, proxyWorkerMax = 10, minerTimeout = 900\<rparr>"

definition px_miner :: "string \<Rightarrow> reg_miner" where
  "px_miner i = \<lparr>rm_id = i, rm_payout = ''wallet'', rm_payout_div = None, rm_proxy = False, rm_connectTime = 0,
     rm_hasSubmittedValidShare = False, rm_removed = False, rm_proxyMinerName = None, rm_trust_key = None, rm_trust = None,
     rm_activity = (None, None, None)\<rparr>"

definition px_enter :: "security_config \<Rightarrow> bool \<Rightarrow> nat \<Rightarrow> string \<Rightarrow> registry \<Rightarrow> registry" where
  "px_enter sec proxy m i s = login px_reg sec proxy m m (s\<lparr>miners := (miners s)(m := px_miner i)\<rparr>)"

lemma px_enter_reach:
  assumes "reg_reach px_reg sec s" "map_of (activeMiners s) i = None" "m \<notin> ran (map_of (activeMiners s))" "i \<noteq> []"
  shows "reg_reach px_reg sec (px_enter sec proxy m i s)"
proof -
  have "reg_step px_reg sec s (login px_reg sec proxy m m (s\<lparr>miners := (miners s)(m := px_miner i)\<rparr>))"
    using assms by (intro reg_step.login) (simp_all add: px_miner_def miner_ok_def)
  then show ?thesis unfolding px_enter_def using assms(1) by (rule reg_reach.step [rotated])
qed

lemmas enter_defs = px_enter_def login_def registerMinerWallet_def addProxyMiner_def finishLogin_def addActiveMiner_def on_miner_def
  px_reg_def px_miner_def emptyRegistry_def Let_def

definition px_two :: "security_config \<Rightarrow> registry" where
  "px_two sec = px_enter sec False 3 ''b'' (px_enter sec False 2 ''a'' emptyRegistry)"

text \<open>Two workers, a proxy that comes and goes, a third worker.\<close>

definition px_three :: "security_config \<Rightarrow> registry" where
  "px_three sec = removeMiner None 4 (px_enter sec True 4 ''c'' (px_two sec))"

lemma px_two_sel:
  "activeMiners (px_two sec) = [(''a'', 2), (''b'', 3)]" "minerWallets (px_two sec) ''wallet'' = Some 2"
  "proxyMiners (px_two sec) p = None" "rm_proxyMinerName (miners (px_two sec) 2) = None" "rm_proxyMinerName (miners (px_two sec) 3) = None"
  "rm_payout (miners (px_two sec) 2) = ''wallet''" "rm_payout (miners (px_two sec) 3) = ''wallet''"
  by (simp_all add: px_two_def enter_defs)

lemma px_three_sel:
  "activeMiners (px_enter sec True 4 ''c'' (px_two sec)) = [(''a'', 2), (''b'', 3), (''c'', 4)]"
  "activeMiners (px_three sec) = [(''a'', 2), (''b'', 3)]" "minerWallets (px_three sec) ''wallet'' = Some 1"
  "proxyMiners (px_three sec) ''wallet'' = None" "miners (px_three sec) 2 = miners (px_two sec) 2" "miners (px_three sec) 3 = miners (px_two sec) 3"
  by (simp_all add: px_three_def enter_defs px_two_sel removeMiner_def countDown_def)

lemma enter_counted:
  "proxyMiners s ''wallet'' = None \<Longrightarrow> minerWallets s ''wallet'' = Some 1 \<Longrightarrow>
     activeMiners (px_enter sec False m i s) = AList.update i m (activeMiners s) \<and>
     miners (px_enter sec False m i s) = (miners s)(m := px_miner i)"
  by (simp add: enter_defs)

definition px_crowd :: "security_config \<Rightarrow> registry" where
  "px_crowd sec = px_enter sec False 5 ''d'' (px_three sec)"

lemma px_crowd_sel:
  "activeMiners (px_crowd sec) = [(''a'', 2), (''b'', 3), (''d'', 5)]"
  "rm_payout (miners (px_crowd sec) 5) = ''wallet''" "rm_proxyMinerName (miners (px_crowd sec) 5) = None"
  "miners (px_crowd sec) 2 = miners (px_two sec) 2" "miners (px_crowd sec) 3 = miners (px_two sec) 3"
  using enter_counted [of "px_three sec" sec 5 "''d''"]
  by (simp_all add: px_crowd_def px_three_sel px_miner_def)

text \<open>
  The limit on the workers of a wallet can be passed: removing a miner that came in as a proxy
  decrements the counter of plain workers, which its login had not incremented.
\<close>

theorem worker_limit_bypassed:
  "\<exists>s. reg_reach px_reg sec s \<and> workerMax px_reg = 2 \<and>
     length (filter (\<lambda>(i, m). rm_payout (miners s m) = ''wallet'' \<and> rm_proxyMinerName (miners s m) = None) (activeMiners s)) = 3"
proof (intro exI conjI)
  have two: "reg_reach px_reg sec (px_two sec)"
    unfolding px_two_def by (intro px_enter_reach reg_reach.boot) (simp_all add: enter_defs)
  have three: "reg_reach px_reg sec (px_enter sec True 4 ''c'' (px_two sec))"
    using two by (intro px_enter_reach) (simp_all add: px_two_sel)
  have "reg_reach px_reg sec (px_three sec)"
    unfolding px_three_def using three reg_step.remove [of "px_enter sec True 4 ''c'' (px_two sec)" "''c''" 4 px_reg sec None]
    by (intro reg_reach.step [OF three]) (simp add: live_def px_three_sel(1))
  then show "reg_reach px_reg sec (px_crowd sec)"
    unfolding px_crowd_def by (intro px_enter_reach) (simp_all add: px_three_sel)
  show "length (filter (\<lambda>(i, m). rm_payout (miners (px_crowd sec) m) = ''wallet'' \<and>
      rm_proxyMinerName (miners (px_crowd sec) m) = None) (activeMiners (px_crowd sec))) = 3"
    by (simp add: px_crowd_sel px_two_sel)
qed (simp add: px_reg_def)

definition px_sec :: security_config where
  "px_sec = getPoolSecurityConfig (\<lambda>_. JUndef)"

theorem registry_consistent_witness:
  "dom (map_of (activeMinerSockets (px_two px_sec))) = {''a'', ''b''} \<and> indexed (px_two px_sec) ''wallet'' = {''a'', ''b''}"
proof -
  have "reg_reach px_reg px_sec (px_two px_sec)"
    unfolding px_two_def by (intro px_enter_reach reg_reach.boot) (simp_all add: enter_defs)
  note reg = registry_consistent [OF this, unfolded px_two_sel(1)]
  have ids: "{i. \<exists>m. map_of [(''a'', 2), (''b'', 3)] i = Some m \<and> rm_payout (miners (px_two px_sec) m) = ''wallet''} = {''a'', ''b''}"
    by (auto simp: px_two_sel split: if_splits)
  from reg have "indexed (px_two px_sec) ''wallet'' = {''a'', ''b''}" unfolding ids [symmetric] by blast
  moreover from reg have "dom (map_of (activeMinerSockets (px_two px_sec))) = {''a'', ''b''}" by auto
  ultimately show ?thesis by blast
qed


end
