(* ===== verification/Pending_Jobs.thy ===== *)
theory Pending_Jobs
  imports Local_Db "HOL-Library.Char_ord" "HOL-Library.List_Lexorder"
begin

text \<open>
  Blocks on their way into the store, \<open>src/lib/remote_share/pending_jobs.js\<close>: a found block
  is first a persistent job; it becomes a row of the block tables once a daemon reports its
  reward, or as an orphan. Jobs are rows of a table of JSON texts in the order of their keys.

  What daemons answer, the protobuf decoders and the confirmation depths of the chains are
  parameters. The key of a block is a number that the binding converts to an unsigned
  integer; the jobs the module writes carry natural numbers. Log lines and the mail about
  stale jobs are left out. The table is read and written without errors; a write error would
  leave the process, and what is persistent is kept.
\<close>

subsection \<open>Replies\<close>

definition isPendingHeader :: "jsval \<Rightarrow> bool" where
  "isPendingHeader v = (case v of JObj _ \<Rightarrow> True | JArr _ \<Rightarrow> True | JErr _ \<Rightarrow> True | _ \<Rightarrow> False)"

definition orphan_messages :: "string list" where
  "orphan_messages = [''can'' @ [CHR 0x27] @ ''t get block by hash'', ''hash wasn'' @ [CHR 0x27] @ ''t found'', ''Transaction not found'',
     ''Requested hash wasn'' @ [CHR 0x27] @ ''t found in main blockchain'']"

definition isOrphanHeader :: "jsval \<Rightarrow> bool" where
  "isOrphanHeader header \<longleftrightarrow> isPendingHeader header \<and>
     (getf header ''orphan_status'' = JBool True \<or> getf header ''topoheight'' = JNum (- 1) \<or>
      getf header ''errorSource'' \<noteq> JStr ''wallet_reward_lookup'' \<and>
      truthy (getf header ''error'') \<and> as_string (getf header ''error'') = None \<and>
      (case getf (getf header ''error'') ''message'' of
         JStr msg \<Rightarrow> list_ex (\<lambda>p. contains p msg) orphan_messages
       | _ \<Rightarrow> False))"

definition getHeaderReward :: "jsval \<Rightarrow> num option" where
  "getHeaderReward header =
     (if \<not> isPendingHeader header then None
      else (case getf header ''reward'' of JNum x \<Rightarrow> if x = 0 then None else Some x | _ \<Rightarrow> None))"

definition getRoundHashes :: "jsval \<Rightarrow> num" where
  "getRoundHashes cache = (case getf cache ''roundHashes'' of JNum x \<Rightarrow> x | _ \<Rightarrow> 0)"

subsection \<open>Jobs\<close>

record stored_job =
  pj_key :: string
  pj_alt :: bool
  pj_blockId :: num
  pj_payload :: string
  pj_createdAt :: num
  pj_nextAttemptAt :: num
  pj_attempts :: num
  pj_lastError :: "string option"

datatype pending_job = Invalid string | Job stored_job

definition job_key :: "pending_job \<Rightarrow> string" where
  "job_key j = (case j of Invalid k \<Rightarrow> k | Job r \<Rightarrow> pj_key r)"

definition job_json :: "stored_job \<Rightarrow> jsval" where
  "job_json j = JObj [(''key'', JStr (pj_key j)), (''type'', JStr (if pj_alt j then ''altblock'' else ''block'')),
     (''blockId'', JNum (pj_blockId j)), (''payload'', JStr (pj_payload j)), (''createdAt'', JNum (pj_createdAt j)),
     (''nextAttemptAt'', JNum (pj_nextAttemptAt j)), (''attempts'', JNum (pj_attempts j)),
     (''lastError'', case pj_lastError j of Some e \<Rightarrow> JStr e | None \<Rightarrow> JNull)]"

definition normalizePendingJob :: "jsval \<Rightarrow> string \<Rightarrow> pending_job" where
  "normalizePendingJob value key =
     (case (getf value ''type'', getf value ''blockId'', getf value ''payload'', getf value ''createdAt'',
            getf value ''nextAttemptAt'', getf value ''attempts'', getf value ''lastError'') of
        (JStr type, JNum blockId, JStr payload, JNum createdAt, JNum nextAttemptAt, JNum attempts, lastError) \<Rightarrow>
          if type \<notin> {''block'', ''altblock''} \<or> attempts < 0 \<or> (as_string lastError = None \<and> lastError \<noteq> JNull) then Invalid key
          else Job \<lparr>pj_key = key, pj_alt = (type = ''altblock''), pj_blockId = blockId, pj_payload = payload, pj_createdAt = createdAt,
                    pj_nextAttemptAt = nextAttemptAt, pj_attempts = attempts, pj_lastError = as_string lastError\<rparr>
      | _ \<Rightarrow> Invalid key)"

text \<open>A stored text: its parsed value, or \<open>None\<close> when \<open>JSON.parse\<close> throws.\<close>

type_synonym job_rows = "(string \<times> jsval option) list"

definition read_job :: "string \<times> jsval option \<Rightarrow> pending_job" where
  "read_job r = (case snd r of None \<Rightarrow> Invalid (fst r) | Some v \<Rightarrow> normalizePendingJob v (fst r))"

definition save :: "stored_job \<Rightarrow> job_rows \<Rightarrow> job_rows" where
  "save j rows =
     (if map_of rows (pj_key j) \<noteq> None then AList.update (pj_key j) (Some (job_json j)) rows
      else insort_key fst (pj_key j, Some (job_json j)) rows)"

definition remove_job :: "string \<Rightarrow> job_rows \<Rightarrow> job_rows" where
  "remove_job key rows = AList.delete key rows"

fun collectJobs :: "nat \<Rightarrow> num \<Rightarrow> job_rows \<Rightarrow> pending_job list \<Rightarrow> num option \<Rightarrow> pending_job list \<times> num option" where
  "collectJobs limit timeNow [] jobs nextDueAt = (jobs, nextDueAt)"
| "collectJobs limit timeNow (r # rows) jobs nextDueAt =
     (if limit \<le> length jobs then (jobs, nextDueAt)
      else (case read_job r of
              Invalid k \<Rightarrow> collectJobs limit timeNow rows (jobs @ [Invalid k]) nextDueAt
            | Job j \<Rightarrow>
                if pj_nextAttemptAt j \<le> timeNow then collectJobs limit timeNow rows (jobs @ [Job j]) nextDueAt
                else collectJobs limit timeNow rows jobs
                  (case nextDueAt of None \<Rightarrow> Some (pj_nextAttemptAt j)
                   | Some d \<Rightarrow> if pj_nextAttemptAt j < d then Some (pj_nextAttemptAt j) else Some d)))"

definition MAX_SAFE_INTEGER :: num where
  "MAX_SAFE_INTEGER = 9007199254740991"

definition attemptOf :: "pending_job \<Rightarrow> num" where
  "attemptOf j = (case j of Invalid _ \<Rightarrow> MAX_SAFE_INTEGER | Job r \<Rightarrow> pj_nextAttemptAt r)"

definition createdOf :: "pending_job \<Rightarrow> num" where
  "createdOf j = (case j of Invalid _ \<Rightarrow> MAX_SAFE_INTEGER | Job r \<Rightarrow> pj_createdAt r)"

text \<open>The sort is stable and compares the next attempt first.\<close>

definition loadDueJobs :: "num \<Rightarrow> nat \<Rightarrow> job_rows \<Rightarrow> pending_job list \<times> num option" where
  "loadDueJobs timeNow limit rows =
     (let (jobs, nextDueAt) = collectJobs limit timeNow rows [] None
      in (sort_key attemptOf (sort_key createdOf jobs), nextDueAt))"

subsection \<open>State\<close>

record pj_config =
  pc_retryDelayMs :: num
  pc_maxRetryDelayMs :: num
  pc_orphanGraceMs :: num
  pc_staleAgeMs :: num
  pc_staleProcessLimit :: int
  pc_staleRetryDelayMs :: num
  pc_decodeBlock :: "string \<Rightarrow> block_msg option"
  pc_decodeAlt :: "string \<Rightarrow> alt_msg option"
  pc_unlockDepth :: "int \<Rightarrow> num"

datatype pending_block = MainBlock block_msg | AltBlock alt_msg

record pj_state =
  pj_rows :: job_rows
  pj_db :: local_db
  pj_closed :: bool
  pj_closeComplete :: bool
  pj_processing :: bool
  badAltBlocks :: "(string \<times> num) list"
  potentiallyBadAltBlocks :: "(int \<times> (string \<times> num) list) list"
  orphanSince :: "(string \<times> num) list"
  nextDueJobCheckAt :: num
  jobsToProcess :: "pending_job list"
  awaiting :: "(stored_job \<times> pending_block) option"

definition ALT_BAD_BLOCK_TTL_MS :: num where "ALT_BAD_BLOCK_TTL_MS = 21600000"
definition ALT_POTENTIALLY_BAD_TTL_MS :: num where "ALT_POTENTIALLY_BAD_TTL_MS = 3600000"
definition ORPHAN_TRACK_TTL_MS :: num where "ORPHAN_TRACK_TTL_MS = 43200000"

definition fresh_entries :: "num \<Rightarrow> num \<Rightarrow> ('k \<times> num) list \<Rightarrow> ('k \<times> num) list" where
  "fresh_entries timeNow ttl = filter (\<lambda>(_, seenAt). \<not> ttl < fl (timeNow - seenAt))"

definition pruneState :: "num \<Rightarrow> pj_state \<Rightarrow> pj_state" where
  "pruneState timeNow s =
     s\<lparr>badAltBlocks := fresh_entries timeNow ALT_BAD_BLOCK_TTL_MS (badAltBlocks s),
       potentiallyBadAltBlocks := filter (\<lambda>(_, m). m \<noteq> [])
         (map (\<lambda>(port, m). (port, fresh_entries timeNow ALT_POTENTIALLY_BAD_TTL_MS m)) (potentiallyBadAltBlocks s)),
       orphanSince := fresh_entries timeNow ORPHAN_TRACK_TTL_MS (orphanSince s)\<rparr>"

definition finishCloseIfIdle :: "pj_state \<Rightarrow> pj_state" where
  "finishCloseIfIdle s =
     (if \<not> pj_closed s \<or> pj_processing s \<or> pj_closeComplete s then s
      else s\<lparr>pj_closeComplete := True, badAltBlocks := [], potentiallyBadAltBlocks := [], orphanSince := []\<rparr>)"

subsection \<open>Retry and drop\<close>

definition retryDelay :: "pj_config \<Rightarrow> bool \<Rightarrow> bool \<Rightarrow> num \<Rightarrow> num" where
  "retryDelay cfg backoff stale attempts =
     (let base = (if backoff
                  then min (fl (pc_retryDelayMs cfg * 2 ^ nat \<lfloor>max 0 (fl (attempts - 1))\<rfloor>)) (pc_maxRetryDelayMs cfg)
                  else pc_retryDelayMs cfg)
      in if stale then max base (pc_staleRetryDelayMs cfg) else base)"

definition saveRetry :: "pj_config \<Rightarrow> stored_job \<Rightarrow> string \<Rightarrow> bool \<Rightarrow> bool \<Rightarrow> num \<Rightarrow> pj_state \<Rightarrow> pj_state" where
  "saveRetry cfg job stateName backoff stale timeNow s =
     (let attempts = fl (pj_attempts job + 1)
      in s\<lparr>pj_rows := save (job\<lparr>pj_attempts := attempts,
             pj_nextAttemptAt := js_round (fl (timeNow + retryDelay cfg backoff stale attempts)),
             pj_lastError := Some stateName\<rparr>) (pj_rows s)\<rparr>)"

definition clearState :: "string \<Rightarrow> pj_state \<Rightarrow> pj_state" where
  "clearState key s = s\<lparr>orphanSince := AList.delete key (orphanSince s)\<rparr>"

definition saveDrop :: "string \<Rightarrow> pj_state \<Rightarrow> pj_state" where
  "saveDrop key s = clearState key (s\<lparr>pj_rows := remove_job key (pj_rows s)\<rparr>)"

definition isStalePendingBlock :: "pj_config \<Rightarrow> pending_job \<Rightarrow> num \<Rightarrow> bool" where
  "isStalePendingBlock cfg job timeNow = (case job of Invalid _ \<Rightarrow> False | Job j \<Rightarrow> pc_staleAgeMs cfg \<le> fl (timeNow - pj_createdAt j))"

definition saveStaleThrottle :: "pj_config \<Rightarrow> stored_job \<Rightarrow> num \<Rightarrow> pj_state \<Rightarrow> pj_state" where
  "saveStaleThrottle cfg job timeNow s =
     s\<lparr>pj_rows := save (job\<lparr>pj_nextAttemptAt := js_round (fl (timeNow + pc_staleRetryDelayMs cfg)),
         pj_lastError := Some ''stale_pending_throttled''\<rparr>) (pj_rows s)\<rparr>"

fun selectJobsForProcessing :: "pj_config \<Rightarrow> num \<Rightarrow> int \<Rightarrow> pending_job list \<Rightarrow> pj_state \<Rightarrow> pending_job list \<times> pj_state" where
  "selectJobsForProcessing cfg timeNow staleSelected [] s = ([], s)"
| "selectJobsForProcessing cfg timeNow staleSelected (job # jobs) s =
     (if isStalePendingBlock cfg job timeNow
      then (if max 0 (pc_staleProcessLimit cfg) \<le> staleSelected
            then selectJobsForProcessing cfg timeNow staleSelected jobs
                   (case job of Job j \<Rightarrow> saveStaleThrottle cfg j timeNow s | Invalid _ \<Rightarrow> s)
            else (case selectJobsForProcessing cfg timeNow (staleSelected + 1) jobs s of (sel, s') \<Rightarrow> (job # sel, s')))
      else (case selectJobsForProcessing cfg timeNow staleSelected jobs s of (sel, s') \<Rightarrow> (job # sel, s')))"

subsection \<open>Storing a resolved block\<close>

definition put_block :: "nat \<Rightarrow> 'r \<Rightarrow> 'r table \<Rightarrow> 'r table" where
  "put_block k r t = (if map_of t k \<noteq> None then update_where (\<lambda>i _. i = k) (\<lambda>_ _. r) t else insort_key fst (k, r) t)"

definition slot :: "num \<Rightarrow> nat" where
  "slot blockId = nat \<lfloor>blockId\<rfloor>"

definition resetRound :: "string \<Rightarrow> local_db \<Rightarrow> local_db" where
  "resetRound key d = incrementCacheData key [(''roundHashes'', None)] d"

definition saveResolvedBlock :: "num \<Rightarrow> block_msg \<Rightarrow> local_db \<Rightarrow> bool \<times> local_db" where
  "saveResolvedBlock blockId block d =
     (let stats = poolTypeStr (b_poolType block) @ ''_stats2'';
          block1 = block\<lparr>b_shares := getRoundHashes (getCache stats d)\<rparr>;
          stored = resetRound stats (resetRound ''global_stats2'' (d\<lparr>blockDB := put_block (slot blockId) block1 (blockDB d)\<rparr>))
      in case map_of (blockDB d) (slot blockId) of
           Some existing \<Rightarrow> if b_hash existing = b_hash block1 \<or> b_valid existing then (False, d) else (True, stored)
         | None \<Rightarrow> (True, stored))"

text \<open>The first free key from the given one on, unless a row on the way has the hash.\<close>

function probe :: "string \<Rightarrow> 'a block table \<Rightarrow> nat \<Rightarrow> nat option" where
  "probe hash t k =
     (case map_of t k of
        None \<Rightarrow> Some k
      | Some existing \<Rightarrow> if b_hash existing = hash then None else probe hash t (k + 1))"
  by pat_completeness auto
termination
proof (relation "measure (\<lambda>(_, t, k). card {i \<in> fst ` set t. k \<le> i})")
  show "((hash, t, k + 1), hash, t, k) \<in> measure (\<lambda>(_, t, k). card {i \<in> fst ` set t. k \<le> i})"
    if "map_of t k = Some existing" for hash t and k :: nat and existing :: "'a block"
  proof -
    have "k \<in> fst ` set t" using map_of_SomeD [OF that] by force
    then have "k \<in> {i \<in> fst ` set t. k \<le> i}" and "k \<notin> {i \<in> fst ` set t. k + 1 \<le> i}" by auto
    moreover have "{i \<in> fst ` set t. k + 1 \<le> i} \<subseteq> {i \<in> fst ` set t. k \<le> i}" by auto
    ultimately have "{i \<in> fst ` set t. k + 1 \<le> i} \<subset> {i \<in> fst ` set t. k \<le> i}" by blast
    then show ?thesis by (simp add: psubset_card_mono)
  qed
qed simp

declare probe.simps [simp del]

definition saveResolvedAltBlock :: "num \<Rightarrow> alt_msg \<Rightarrow> local_db \<Rightarrow> bool \<times> local_db" where
  "saveResolvedAltBlock blockId block d =
     (let suffix = ''_'' @ js_num_to_string (of_int (a_port block));
          stats = poolTypeStr (b_poolType block) @ ''_stats2'' @ suffix;
          block1 = block\<lparr>b_shares := getRoundHashes (getCache stats d), a_pay_value := Some 0\<rparr>
      in case probe (b_hash block1) (altblockDB d) (slot blockId) of
           None \<Rightarrow> (False, d)
         | Some k \<Rightarrow>
             (True, resetRound stats (resetRound (''global_stats2'' @ suffix)
                      (d\<lparr>altblockDB := put_block k block1 (altblockDB d)\<rparr>))))"

definition saveResolved :: "num \<Rightarrow> pending_block \<Rightarrow> local_db \<Rightarrow> bool \<times> local_db" where
  "saveResolved blockId b d = (case b of MainBlock m \<Rightarrow> saveResolvedBlock blockId m d | AltBlock a \<Rightarrow> saveResolvedAltBlock blockId a d)"

definition resolveAs :: "(block_msg \<Rightarrow> block_msg) \<Rightarrow> (alt_msg \<Rightarrow> alt_msg) \<Rightarrow> pending_block \<Rightarrow> pending_block" where
  "resolveAs f g b = (case b of MainBlock m \<Rightarrow> MainBlock (f m) | AltBlock a \<Rightarrow> AltBlock (g a))"

definition resolve :: "stored_job \<Rightarrow> pending_block \<Rightarrow> pj_state \<Rightarrow> pj_state" where
  "resolve job b s = saveDrop (pj_key job) (s\<lparr>pj_db := snd (saveResolved (pj_blockId job) b (pj_db s))\<rparr>)"

definition asOrphan :: "pending_block \<Rightarrow> pending_block" where
  "asOrphan = resolveAs (\<lambda>m. m\<lparr>b_value := Some 0, b_valid := False, b_unlocked := True\<rparr>)
     (\<lambda>a. a\<lparr>b_value := Some 0, b_valid := False, b_unlocked := True\<rparr>)"

definition withReward :: "num \<Rightarrow> pending_block \<Rightarrow> pending_block" where
  "withReward reward = resolveAs (\<lambda>m. m\<lparr>b_value := Some reward\<rparr>) (\<lambda>a. a\<lparr>b_value := Some reward\<rparr>)"

definition handleOrphanHeader :: "pj_config \<Rightarrow> stored_job \<Rightarrow> pending_block \<Rightarrow> string \<Rightarrow> num \<Rightarrow> pj_state \<Rightarrow> pj_state" where
  "handleOrphanHeader cfg job b retryState timeNow s =
     (let firstSeen = (case map_of (orphanSince s) (pj_key job) of Some t \<Rightarrow> if t = 0 then timeNow else t | None \<Rightarrow> timeNow);
          s1 = s\<lparr>orphanSince := AList.update (pj_key job) firstSeen (orphanSince s)\<rparr>
      in if pc_orphanGraceMs cfg \<le> fl (timeNow - firstSeen) then resolve job (asOrphan b) s1
         else saveRetry cfg job retryState False False timeNow s1)"

subsection \<open>Replies of the daemons\<close>

definition onBlockHeader :: "pj_config \<Rightarrow> stored_job \<Rightarrow> block_msg \<Rightarrow> bool \<Rightarrow> jsval \<Rightarrow> num \<Rightarrow> pj_state \<Rightarrow> pj_state" where
  "onBlockHeader cfg job block err header timeNow s =
     (if err \<and> isOrphanHeader header then handleOrphanHeader cfg job (MainBlock block) ''waiting_orphan'' timeNow s
      else (case (err, getHeaderReward header) of
              (False, Some reward) \<Rightarrow> resolve job (withReward reward (MainBlock block)) s
            | _ \<Rightarrow> saveRetry cfg job ''waiting_block_header'' True (isStalePendingBlock cfg (Job job) timeNow) timeNow s))"

definition markBadAltBlocks :: "int \<Rightarrow> num \<Rightarrow> pj_state \<Rightarrow> pj_state" where
  "markBadAltBlocks port timeNow s =
     (case map_of (potentiallyBadAltBlocks s) port of
        None \<Rightarrow> s
      | Some m \<Rightarrow> s\<lparr>badAltBlocks := fold (\<lambda>(hash, _). AList.update hash timeNow) m (badAltBlocks s),
                    potentiallyBadAltBlocks := AList.delete port (potentiallyBadAltBlocks s)\<rparr>)"

definition isWaitingForAltDepth :: "pj_config \<Rightarrow> int \<Rightarrow> jsval \<Rightarrow> bool" where
  "isWaitingForAltDepth cfg port header \<longleftrightarrow> 0 < pc_unlockDepth cfg port \<and> isPendingHeader header \<and>
     (case getf header ''depth'' of JNum x \<Rightarrow> x < pc_unlockDepth cfg port | _ \<Rightarrow> False)"

definition onAltHeader :: "pj_config \<Rightarrow> stored_job \<Rightarrow> alt_msg \<Rightarrow> bool \<Rightarrow> jsval \<Rightarrow> num \<Rightarrow> pj_state \<Rightarrow> pj_state" where
  "onAltHeader cfg job block err header timeNow s =
     (let port = a_port block; stale = isStalePendingBlock cfg (Job job) timeNow
      in if err \<and> isOrphanHeader header then handleOrphanHeader cfg job (AltBlock block) ''waiting_alt_orphan'' timeNow s
         else if isWaitingForAltDepth cfg port header then saveRetry cfg job ''waiting_for_depth'' False stale timeNow s
         else (case (err, getHeaderReward header) of
                 (False, Some reward) \<Rightarrow> resolve job (withReward reward (AltBlock block)) (markBadAltBlocks port timeNow s)
               | _ \<Rightarrow>
                   if map_of (badAltBlocks s) (b_hash block) \<noteq> None then saveDrop (pj_key job) s
                   else
                     let m = (case map_of (potentiallyBadAltBlocks s) port of Some m \<Rightarrow> m | None \<Rightarrow> [])
                     in saveRetry cfg job ''waiting_altblock_header'' True stale timeNow
                          (s\<lparr>potentiallyBadAltBlocks :=
                               AList.update port (AList.update (b_hash block) timeNow m) (potentiallyBadAltBlocks s)\<rparr>)))"

definition onHeader :: "pj_config \<Rightarrow> stored_job \<Rightarrow> pending_block \<Rightarrow> bool \<Rightarrow> jsval \<Rightarrow> num \<Rightarrow> pj_state \<Rightarrow> pj_state" where
  "onHeader cfg job b err header timeNow s =
     (case b of MainBlock m \<Rightarrow> onBlockHeader cfg job m err header timeNow s | AltBlock a \<Rightarrow> onAltHeader cfg job a err header timeNow s)"

subsection \<open>Processing\<close>

definition decodeJob :: "pj_config \<Rightarrow> stored_job \<Rightarrow> pending_block option" where
  "decodeJob cfg j =
     (if pj_alt j then map_option AltBlock (pc_decodeAlt cfg (pj_payload j)) else map_option MainBlock (pc_decodeBlock cfg (pj_payload j)))"

text \<open>The closure \<open>next\<close>: jobs in turn until one has to wait for a daemon, or none is left.\<close>

fun runJobs :: "pj_config \<Rightarrow> pending_job list \<Rightarrow> pj_state \<Rightarrow> pj_state" where
  "runJobs cfg [] s = finishCloseIfIdle (s\<lparr>pj_processing := False, jobsToProcess := [], awaiting := None\<rparr>)"
| "runJobs cfg (job # jobs) s =
     (if job_key job = [] then runJobs cfg jobs s
      else (case job of
              Invalid k \<Rightarrow> runJobs cfg jobs (saveDrop k s)
            | Job j \<Rightarrow>
                (case decodeJob cfg j of
                   None \<Rightarrow> runJobs cfg jobs (saveDrop (pj_key j) s)
                 | Some b \<Rightarrow> s\<lparr>jobsToProcess := jobs, awaiting := Some (j, b)\<rparr>)))"

definition processDueJobs :: "pj_config \<Rightarrow> num \<Rightarrow> pj_state \<Rightarrow> pj_state" where
  "processDueJobs cfg timeNow s =
     (if pj_processing s \<or> pj_closed s then s
      else if nextDueJobCheckAt s \<noteq> 0 \<and> timeNow < nextDueJobCheckAt s then s
      else
        let s1 = pruneState timeNow (s\<lparr>pj_processing := True\<rparr>);
            (jobs, nextDueAt) = loadDueJobs timeNow 100 (pj_rows s1);
            s2 = s1\<lparr>nextDueJobCheckAt := (case nextDueAt of Some d \<Rightarrow> if jobs = [] then d else 0 | None \<Rightarrow> 0)\<rparr>;
            (selected, s3) = selectJobsForProcessing cfg timeNow 0 jobs s2
        in runJobs cfg selected s3)"

definition onReply :: "pj_config \<Rightarrow> bool \<Rightarrow> jsval \<Rightarrow> num \<Rightarrow> pj_state \<Rightarrow> pj_state" where
  "onReply cfg err header timeNow s =
     (case awaiting s of None \<Rightarrow> s
      | Some (job, b) \<Rightarrow> runJobs cfg (jobsToProcess s) (onHeader cfg job b err header timeNow s))"

definition new_job :: "string \<Rightarrow> bool \<Rightarrow> num \<Rightarrow> string \<Rightarrow> num \<Rightarrow> stored_job" where
  "new_job key alt blockId payload timeNow =
     \<lparr>pj_key = key, pj_alt = alt, pj_blockId = blockId, pj_payload = payload, pj_createdAt = timeNow, pj_nextAttemptAt = timeNow,
      pj_attempts = 0, pj_lastError = None\<rparr>"

definition enqueueBlock :: "num \<Rightarrow> string \<Rightarrow> string \<Rightarrow> num \<Rightarrow> pj_state \<Rightarrow> pj_state" where
  "enqueueBlock blockId payload hash timeNow s =
     s\<lparr>nextDueJobCheckAt := 0,
       pj_rows := save (new_job (''block:'' @ js_num_to_string blockId @ '':'' @ hash) False blockId payload timeNow) (pj_rows s)\<rparr>"

definition enqueueAltBlock :: "num \<Rightarrow> string \<Rightarrow> int \<Rightarrow> int \<Rightarrow> string \<Rightarrow> num \<Rightarrow> pj_state \<Rightarrow> pj_state" where
  "enqueueAltBlock blockId payload port height hash timeNow s =
     s\<lparr>nextDueJobCheckAt := 0,
       pj_rows := save (new_job (''alt:'' @ js_num_to_string (of_int port) @ '':'' @ js_num_to_string (of_int height) @ '':'' @ hash)
                          True blockId payload timeNow) (pj_rows s)\<rparr>"

definition closePending :: "pj_state \<Rightarrow> pj_state" where
  "closePending s = (if pj_closeComplete s \<or> pj_closed s then s else finishCloseIfIdle (s\<lparr>pj_closed := True\<rparr>))"

text \<open>
  What happens to the module: calls, replies, the end of the process (what is not persistent
  is lost), and changes of the store by other processes.
\<close>

definition boot :: "job_rows \<Rightarrow> local_db \<Rightarrow> pj_state" where
  "boot rows d = \<lparr>pj_rows = rows, pj_db = d, pj_closed = False, pj_closeComplete = False, pj_processing = False, badAltBlocks = [],
     potentiallyBadAltBlocks = [], orphanSince = [], nextDueJobCheckAt = 0, jobsToProcess = [], awaiting = None\<rparr>"

inductive pj_step :: "pj_config \<Rightarrow> pj_state \<Rightarrow> pj_state \<Rightarrow> bool" for cfg where
  tick: "pj_step cfg s (processDueJobs cfg now s)"
| reply: "pj_step cfg s (onReply cfg err header now s)"
| found: "pj_step cfg s (enqueueBlock blockId payload hash now s)"
| found_alt: "pj_step cfg s (enqueueAltBlock blockId payload port height hash now s)"
| close: "pj_step cfg s (closePending s)"
| restart: "pj_step cfg s (boot (pj_rows s) (pj_db s))"
| other: "pj_step cfg s (s\<lparr>pj_db := d\<rparr>)"

inductive pj_reach :: "pj_config \<Rightarrow> pj_state \<Rightarrow> bool" for cfg where
  init: "sorted (map fst rows) \<Longrightarrow> distinct (map fst rows) \<Longrightarrow> pj_reach cfg (boot rows d)"
| step: "pj_reach cfg s \<Longrightarrow> pj_step cfg s s' \<Longrightarrow> pj_reach cfg s'"

end
