(* ===== verification/Pending_Safety.thy ===== *)
theory Pending_Safety
  imports Pending_Jobs
begin

text \<open>
  What the pending jobs promise: a job leaves its table only when its block is in the store or
  it can never be read; blocks in the store are never written over; a block is stored once,
  however often its job is replayed; and the module never sleeps past a job that is due.
\<close>

subsection \<open>Sorted tables\<close>

lemma ordered_save: "ordered t \<Longrightarrow> ordered (save j t)"
proof (cases "map_of t (pj_key j)")
  case None
  moreover assume "ordered t"
  ultimately show ?thesis using ordered_insort [of t "(pj_key j, Some (job_json j))"] by (simp add: save_def)
next
  case (Some v)
  then have "pj_key j \<in> fst ` set t" by (force dest: map_of_SomeD)
  moreover assume "ordered t"
  ultimately show ?thesis using Some by (simp add: save_def map_fst_update_in ordered_def)
qed

lemma ordered_remove: "ordered t \<Longrightarrow> ordered (remove_job k t)"
proof -
  have "map fst (remove_job k t) = filter (\<lambda>i. i \<noteq> k) (map fst t)"
    by (induction t) (auto simp: remove_job_def)
  then show "ordered t \<Longrightarrow> ordered (remove_job k t)"
    by (simp add: ordered_def sorted_wrt_filter)
qed

lemma dom_save: "fst ` set (save j t) = insert (pj_key j) (fst ` set t)"
proof (cases "map_of t (pj_key j)")
  case None
  then show ?thesis by (auto simp: save_def set_insort_key)
next
  case (Some v)
  then have k: "pj_key j \<in> fst ` set t" by (force dest: map_of_SomeD)
  then have "set (map fst (AList.update (pj_key j) (Some (job_json j)) t)) = set (map fst t)"
    by (simp only: map_fst_update_in)
  with k Some show ?thesis by (auto simp: save_def)
qed

lemma map_of_save: "map_of (save j t) k = (if k = pj_key j then Some (Some (job_json j)) else map_of t k)"
proof (cases "map_of t (pj_key j)")
  case None
  then have "pj_key j \<notin> fst ` set t" by (simp add: map_of_eq_None_iff)
  with None show ?thesis by (simp add: save_def map_of_insort)
qed (simp add: save_def update_conv)

lemma put_block_lookup: "map_of (put_block k r t) i = (if i = k then Some r else map_of t i)"
proof (cases "map_of t k")
  case None
  then have "k \<notin> fst ` set t" by (simp add: map_of_eq_None_iff)
  with None show ?thesis by (simp add: put_block_def map_of_insort)
qed (auto simp: put_block_def map_of_update_where split: option.split)

lemma ordered_put_block: "ordered t \<Longrightarrow> ordered (put_block k r t)"
  by (auto simp: put_block_def ordered_insort) (simp add: ordered_def)

subsection \<open>A stored job is read back\<close>

lemma job_roundtrip: "0 \<le> pj_attempts j \<Longrightarrow> read_job (pj_key j, Some (job_json j)) = Job j"
  by (cases j) (simp add: read_job_def normalizePendingJob_def job_json_def split: option.split)

subsection \<open>The store\<close>

lemma probe_Some:
  "probe h t k = Some j \<Longrightarrow> map_of t j = None \<and> k \<le> j \<and> (\<forall>i. k \<le> i \<longrightarrow> i < j \<longrightarrow> (\<exists>e. map_of t i = Some e \<and> b_hash e \<noteq> h))"
proof (induction h t k rule: probe.induct)
  case (1 h t k)
  show ?case
  proof (cases "map_of t k")
    case None
    with "1.prems" show ?thesis by (subst (asm) probe.simps) auto
  next
    case (Some e)
    with "1.prems" have "b_hash e \<noteq> h" and "probe h t (k + 1) = Some j"
      by (auto simp: probe.simps [of h t k] split: if_splits)
    with "1.IH" [OF Some] have ih: "map_of t j = None" "k + 1 \<le> j"
      "\<And>i. k + 1 \<le> i \<Longrightarrow> i < j \<Longrightarrow> \<exists>e. map_of t i = Some e \<and> b_hash e \<noteq> h" by auto
    have "\<exists>e. map_of t i = Some e \<and> b_hash e \<noteq> h" if "k \<le> i" "i < j" for i
      using that ih(3) [of i] Some \<open>b_hash e \<noteq> h\<close> by (cases "i = k") auto
    with ih show ?thesis by auto
  qed
qed

lemma probe_None: "probe h t k = None \<Longrightarrow> \<exists>j e. k \<le> j \<and> map_of t j = Some e \<and> b_hash e = h"
proof (induction h t k rule: probe.induct)
  case (1 h t k)
  from "1.prems" obtain e where Some: "map_of t k = Some e"
    by (subst (asm) probe.simps) (auto split: option.splits)
  show ?case
  proof (cases "b_hash e = h")
    case True
    with Some show ?thesis by auto
  next
    case False
    with Some "1.prems" have "probe h t (k + 1) = None" by (simp add: probe.simps [of h t k])
    from "1.IH" [OF Some False this] obtain j e' where "k + 1 \<le> j" "map_of t j = Some e'" "b_hash e' = h" by blast
    then show ?thesis by (intro exI [of _ j] exI [of _ e']) simp
  qed
qed

lemma probe_hit:
  "k \<le> j \<Longrightarrow> map_of t j = Some e \<Longrightarrow> b_hash e = h \<Longrightarrow> \<forall>i. k \<le> i \<longrightarrow> i < j \<longrightarrow> map_of t i \<noteq> None \<Longrightarrow> probe h t k = None"
proof (induction h t k rule: probe.induct)
  case (1 h t k)
  show ?case
  proof (cases "k = j")
    case True
    with "1.prems" show ?thesis by (simp add: probe.simps [of h t j])
  next
    case False
    with "1.prems" obtain e' where "map_of t k = Some e'" by force
    with 1 False show ?thesis by (simp add: probe.simps [of h t k])
  qed
qed

lemma resetRound_tables [simp]:
  "blockDB (resetRound k d) = blockDB d" "altblockDB (resetRound k d) = altblockDB d" "shareDB (resetRound k d) = shareDB d"
  by (auto simp: resetRound_def incrementCacheData_def setCache_def split: option.splits jsval.splits)

text \<open>The block is where a reader finds it: an alt block under its hash, a main block in its slot, unless a valid block holds the slot.\<close>

definition in_store :: "num \<Rightarrow> pending_block \<Rightarrow> local_db \<Rightarrow> bool" where
  "in_store blockId b d =
     (case b of
        MainBlock m \<Rightarrow> (case map_of (blockDB d) (slot blockId) of Some r \<Rightarrow> b_hash r = b_hash m \<or> b_valid r | None \<Rightarrow> False)
      | AltBlock a \<Rightarrow> probe (b_hash a) (altblockDB d) (slot blockId) = None)"

lemma saveResolved_stores: "in_store blockId b (snd (saveResolved blockId b d))"
proof (cases b)
  case (MainBlock m)
  then show ?thesis
    by (auto simp: in_store_def saveResolved_def saveResolvedBlock_def Let_def put_block_lookup split: option.split)
next
  case (AltBlock a)
  show ?thesis
  proof (cases "probe (b_hash a) (altblockDB d) (slot blockId)")
    case None
    with AltBlock show ?thesis by (simp add: in_store_def saveResolved_def saveResolvedAltBlock_def Let_def)
  next
    case (Some k)
    from probe_Some [OF this] have k: "slot blockId \<le> k" and
      b: "\<forall>i. slot blockId \<le> i \<longrightarrow> i < k \<longrightarrow> map_of (altblockDB d) i \<noteq> None" by auto
    let ?r = "a\<lparr>b_shares := getRoundHashes (getCache (poolTypeStr (b_poolType a) @ ''_stats2'' @ ''_'' @
      js_num_to_string (of_int (a_port a))) d), a_pay_value := Some 0\<rparr>"
    have "probe (b_hash a) (put_block k ?r (altblockDB d)) (slot blockId) = None"
      using k b by (intro probe_hit [of _ k _ ?r]) (auto simp: put_block_lookup)
    with AltBlock Some show ?thesis by (simp add: in_store_def saveResolved_def saveResolvedAltBlock_def Let_def)
  qed
qed

lemma saveResolved_again:
  assumes "in_store blockId b d"
  shows "saveResolved blockId b d = (False, d)"
  using assms
  by (auto simp: in_store_def saveResolved_def saveResolvedBlock_def saveResolvedAltBlock_def Let_def
      split: pending_block.splits option.splits)

definition block_hash :: "pending_block \<Rightarrow> string" where
  "block_hash b = (case b of MainBlock m \<Rightarrow> b_hash m | AltBlock a \<Rightarrow> b_hash a)"

definition same_kind :: "pending_block \<Rightarrow> pending_block \<Rightarrow> bool" where
  "same_kind b c = (case (b, c) of (MainBlock _, MainBlock _) \<Rightarrow> True | (AltBlock _, AltBlock _) \<Rightarrow> True | _ \<Rightarrow> False)"

lemma in_store_same: "same_kind b c \<Longrightarrow> block_hash b = block_hash c \<Longrightarrow> in_store i b d = in_store i c d"
  by (cases b; cases c) (simp_all add: same_kind_def block_hash_def in_store_def split: option.split)

lemma same_kind_resolve [simp]:
  "same_kind (withReward x b) b" "same_kind (asOrphan b) b" "block_hash (withReward x b) = block_hash b" "block_hash (asOrphan b) = block_hash b"
  by (auto simp: same_kind_def block_hash_def withReward_def asOrphan_def resolveAs_def split: pending_block.splits)

lemma in_store_resolve [simp]:
  "in_store i (withReward x b) = in_store i b" "in_store i (asOrphan b) = in_store i b"
  by (rule ext, rule in_store_same; simp)+

text \<open>Rows that are never replaced: those of other chains, and valid blocks.\<close>

definition rows_kept :: "local_db \<Rightarrow> local_db \<Rightarrow> bool" where
  "rows_kept d d' \<longleftrightarrow>
     (\<forall>k r. map_of (altblockDB d) k = Some r \<longrightarrow> map_of (altblockDB d') k = Some r) \<and>
     (\<forall>k r. map_of (blockDB d) k = Some r \<longrightarrow> b_valid r \<longrightarrow> map_of (blockDB d') k = Some r) \<and>
     shareDB d' = shareDB d \<and>
     (ordered (blockDB d) \<longrightarrow> ordered (blockDB d')) \<and> (ordered (altblockDB d) \<longrightarrow> ordered (altblockDB d'))"

lemma rows_kept_refl [simp]: "rows_kept d d"
  by (simp add: rows_kept_def)

lemma saveResolved_keeps: "rows_kept d (snd (saveResolved blockId b d))"
proof (cases b)
  case (MainBlock m)
  then show ?thesis
    by (auto simp: rows_kept_def saveResolved_def saveResolvedBlock_def Let_def put_block_lookup ordered_put_block split: option.split)
next
  case (AltBlock a)
  then show ?thesis
    by (auto simp: rows_kept_def saveResolved_def saveResolvedAltBlock_def Let_def put_block_lookup ordered_put_block
        split: option.split dest!: probe_Some)
qed

subsection \<open>What a step removes from the table of jobs\<close>

definition job_keys :: "pj_state \<Rightarrow> string set" where
  "job_keys s = fst ` set (pj_rows s)"

text \<open>A job that can never be resolved: its text or its block cannot be decoded.\<close>

definition unusable :: "pj_config \<Rightarrow> pending_job \<Rightarrow> bool" where
  "unusable cfg job = (case job of Invalid _ \<Rightarrow> True | Job j \<Rightarrow> decodeJob cfg j = None)"

lemma saveDrop_sel [simp]:
  "pj_db (saveDrop k s) = pj_db s" "pj_rows (saveDrop k s) = remove_job k (pj_rows s)"
  "pj_processing (saveDrop k s) = pj_processing s" "awaiting (saveDrop k s) = awaiting s" "jobsToProcess (saveDrop k s) = jobsToProcess s"
  "pj_closed (saveDrop k s) = pj_closed s" "pj_closeComplete (saveDrop k s) = pj_closeComplete s"
  "nextDueJobCheckAt (saveDrop k s) = nextDueJobCheckAt s" "badAltBlocks (saveDrop k s) = badAltBlocks s"
  by (simp_all add: saveDrop_def clearState_def)

lemma saveRetry_sel [simp]:
  "pj_db (saveRetry cfg j n b st t s) = pj_db s"
  "pj_processing (saveRetry cfg j n b st t s) = pj_processing s" "awaiting (saveRetry cfg j n b st t s) = awaiting s"
  "jobsToProcess (saveRetry cfg j n b st t s) = jobsToProcess s" "pj_closed (saveRetry cfg j n b st t s) = pj_closed s"
  "pj_closeComplete (saveRetry cfg j n b st t s) = pj_closeComplete s"
  "nextDueJobCheckAt (saveRetry cfg j n b st t s) = nextDueJobCheckAt s"
  "job_keys (saveRetry cfg j n b st t s) = insert (pj_key j) (job_keys s)"
  "ordered (pj_rows s) \<Longrightarrow> ordered (pj_rows (saveRetry cfg j n b st t s))"
  by (simp_all add: saveRetry_def Let_def job_keys_def dom_save ordered_save)

lemma job_keys_simps [simp]:
  "job_keys (saveDrop k s) = job_keys s - {k}"
  "job_keys (s\<lparr>pj_db := z\<rparr>) = job_keys s" "job_keys (s\<lparr>pj_processing := b\<rparr>) = job_keys s"
  "job_keys (s\<lparr>nextDueJobCheckAt := w\<rparr>) = job_keys s" "job_keys (pruneState t s) = job_keys s"
  "job_keys (s\<lparr>jobsToProcess := u, awaiting := v\<rparr>) = job_keys s" "job_keys (finishCloseIfIdle s) = job_keys s"
  "job_keys (s\<lparr>orphanSince := x\<rparr>) = job_keys s" "job_keys (s\<lparr>potentiallyBadAltBlocks := y\<rparr>) = job_keys s"
  by (auto simp: job_keys_def remove_job_def AList.delete_eq pruneState_def finishCloseIfIdle_def)

lemma finishClose_sel [simp]:
  "pj_db (finishCloseIfIdle s) = pj_db s" "pj_rows (finishCloseIfIdle s) = pj_rows s" "pj_closed (finishCloseIfIdle s) = pj_closed s"
  "pj_processing (finishCloseIfIdle s) = pj_processing s" "awaiting (finishCloseIfIdle s) = awaiting s"
  "jobsToProcess (finishCloseIfIdle s) = jobsToProcess s" "nextDueJobCheckAt (finishCloseIfIdle s) = nextDueJobCheckAt s"
  "pj_closeComplete (finishCloseIfIdle s) \<longleftrightarrow> pj_closeComplete s \<or> pj_closed s \<and> \<not> pj_processing s"
  by (auto simp: finishCloseIfIdle_def)

lemma markBad_sel [simp]:
  "pj_db (markBadAltBlocks p t s) = pj_db s" "pj_rows (markBadAltBlocks p t s) = pj_rows s"
  "pj_processing (markBadAltBlocks p t s) = pj_processing s" "awaiting (markBadAltBlocks p t s) = awaiting s"
  "jobsToProcess (markBadAltBlocks p t s) = jobsToProcess s" "pj_closed (markBadAltBlocks p t s) = pj_closed s"
  "pj_closeComplete (markBadAltBlocks p t s) = pj_closeComplete s" "nextDueJobCheckAt (markBadAltBlocks p t s) = nextDueJobCheckAt s"
  "job_keys (markBadAltBlocks p t s) = job_keys s"
  by (auto simp: markBadAltBlocks_def job_keys_def split: option.split)

lemma runJobs_db [simp]: "pj_db (runJobs cfg jobs s) = pj_db s"
  by (induction cfg jobs s rule: runJobs.induct) (auto split: pending_job.splits option.splits)

lemma runJobs_due [simp]: "nextDueJobCheckAt (runJobs cfg jobs s) = nextDueJobCheckAt s"
  by (induction cfg jobs s rule: runJobs.induct) (auto split: pending_job.splits option.splits)

lemma runJobs_ordered: "ordered (pj_rows s) \<Longrightarrow> ordered (pj_rows (runJobs cfg jobs s))"
  by (induction cfg jobs s rule: runJobs.induct) (auto simp: ordered_remove split: pending_job.splits option.splits)

lemma runJobs_idle:
  "pj_processing s \<Longrightarrow> pj_processing (runJobs cfg jobs s) \<longleftrightarrow> awaiting (runJobs cfg jobs s) \<noteq> None"
  by (induction cfg jobs s rule: runJobs.induct) (auto split: pending_job.splits option.splits)

lemma runJobs_closed [simp]: "pj_closed (runJobs cfg jobs s) = pj_closed s"
  by (induction cfg jobs s rule: runJobs.induct) (auto split: pending_job.splits option.splits)

lemma runJobs_complete:
  "pj_processing s \<Longrightarrow> pj_closeComplete s = (pj_closed s \<and> \<not> pj_processing s) \<Longrightarrow>
     pj_closeComplete (runJobs cfg jobs s) = (pj_closed s \<and> \<not> pj_processing (runJobs cfg jobs s))"
  by (induction cfg jobs s rule: runJobs.induct) (auto split: pending_job.splits option.splits)

lemma runJobs_removes:
  "k \<in> job_keys s \<Longrightarrow> k \<notin> job_keys (runJobs cfg jobs s) \<Longrightarrow> \<exists>job \<in> set jobs. job_key job = k \<and> unusable cfg job"
proof (induction cfg jobs s rule: runJobs.induct)
  case (1 cfg s)
  then show ?case by (simp add: job_keys_def)
next
  case (2 cfg job jobs s)
  show ?case
  proof (cases "job_key job = k \<and> unusable cfg job")
    case False
    then have "\<exists>job \<in> set jobs. job_key job = k \<and> unusable cfg job"
    proof (cases job)
      case (Invalid i)
      with 2 False show ?thesis by (cases "i = []") (auto simp: unusable_def job_key_def)
    next
      case (Job j)
      with 2 False show ?thesis
        by (cases "pj_key j = []"; cases "decodeJob cfg j") (auto simp: unusable_def job_key_def)
    qed
    then show ?thesis by simp
  qed simp
qed

lemma collectJobs_sub: "set (fst (collectJobs n t rows jobs d)) \<subseteq> set jobs \<union> read_job ` set rows"
  by (induction n t rows jobs d rule: collectJobs.induct) (auto split: pending_job.splits if_splits option.splits)

lemma loadDueJobs_sub: "set (fst (loadDueJobs t n rows)) \<subseteq> read_job ` set rows"
  using collectJobs_sub [of n t rows "[]" None] by (simp add: loadDueJobs_def case_prod_beta)

lemma select_sub: "set (fst (selectJobsForProcessing cfg t n jobs s)) \<subseteq> set jobs"
  by (induction cfg t n jobs s rule: selectJobsForProcessing.induct) (auto split: prod.splits)

lemma throttle_sel [simp]:
  "pj_db (saveStaleThrottle cfg j t s) = pj_db s" "pj_processing (saveStaleThrottle cfg j t s) = pj_processing s"
  "pj_closed (saveStaleThrottle cfg j t s) = pj_closed s" "pj_closeComplete (saveStaleThrottle cfg j t s) = pj_closeComplete s"
  "nextDueJobCheckAt (saveStaleThrottle cfg j t s) = nextDueJobCheckAt s"
  "job_keys (saveStaleThrottle cfg j t s) = insert (pj_key j) (job_keys s)"
  "ordered (pj_rows s) \<Longrightarrow> ordered (pj_rows (saveStaleThrottle cfg j t s))"
  by (simp_all add: saveStaleThrottle_def job_keys_def dom_save ordered_save)

lemma select_frame:
  "pj_db (snd (selectJobsForProcessing cfg t n jobs s)) = pj_db s \<and>
   pj_processing (snd (selectJobsForProcessing cfg t n jobs s)) = pj_processing s \<and>
   pj_closed (snd (selectJobsForProcessing cfg t n jobs s)) = pj_closed s \<and>
   pj_closeComplete (snd (selectJobsForProcessing cfg t n jobs s)) = pj_closeComplete s \<and>
   nextDueJobCheckAt (snd (selectJobsForProcessing cfg t n jobs s)) = nextDueJobCheckAt s \<and>
   job_keys s \<subseteq> job_keys (snd (selectJobsForProcessing cfg t n jobs s)) \<and>
   (ordered (pj_rows s) \<longrightarrow> ordered (pj_rows (snd (selectJobsForProcessing cfg t n jobs s))))"
  by (induction cfg t n jobs s rule: selectJobsForProcessing.induct) (auto split: pending_job.splits prod.splits)

lemma pruneState_sel [simp]:
  "pj_db (pruneState t s) = pj_db s" "pj_rows (pruneState t s) = pj_rows s" "pj_processing (pruneState t s) = pj_processing s"
  "pj_closed (pruneState t s) = pj_closed s" "pj_closeComplete (pruneState t s) = pj_closeComplete s"
  by (simp_all add: pruneState_def)

text \<open>What the callback of a daemon does to the job it was asked about.\<close>

definition pj_settled :: "stored_job \<Rightarrow> pending_block \<Rightarrow> pj_state \<Rightarrow> local_db \<Rightarrow> bool" where
  "pj_settled job b s d \<longleftrightarrow> in_store (pj_blockId job) b d \<or> (case b of AltBlock a \<Rightarrow> map_of (badAltBlocks s) (b_hash a) \<noteq> None | _ \<Rightarrow> False)"

definition reply_ok :: "stored_job \<Rightarrow> pending_block \<Rightarrow> pj_state \<Rightarrow> pj_state \<Rightarrow> bool" where
  "reply_ok job b s s' \<longleftrightarrow>
     job_keys s - {pj_key job} \<subseteq> job_keys s' \<and>
     (pj_key job \<in> job_keys s' \<or> pj_settled job b s (pj_db s')) \<and> rows_kept (pj_db s) (pj_db s') \<and>
     (ordered (pj_rows s) \<longrightarrow> ordered (pj_rows s')) \<and>
     pj_processing s' = pj_processing s \<and> pj_closed s' = pj_closed s \<and> pj_closeComplete s' = pj_closeComplete s \<and>
     nextDueJobCheckAt s' = nextDueJobCheckAt s"

lemma resolve_ok:
  assumes "in_store (pj_blockId job) b' = in_store (pj_blockId job) b"
  shows "reply_ok job b s (resolve job b' s)"
  using saveResolved_stores [of "pj_blockId job" b' "pj_db s"] saveResolved_keeps [of "pj_db s" "pj_blockId job" b'] assms
  by (auto simp: reply_ok_def resolve_def pj_settled_def ordered_remove)

lemma retry_ok: "reply_ok job b s (saveRetry cfg job n bo st t s)"
  by (auto simp: reply_ok_def)

lemma pj_settled_cong: "badAltBlocks s1 = badAltBlocks s \<Longrightarrow> pj_settled job b s1 d = pj_settled job b s d"
  by (cases b) (simp_all add: pj_settled_def)

lemma reply_ok_frame:
  assumes "reply_ok job b s1 s2" and "pj_db s1 = pj_db s" and "pj_rows s1 = pj_rows s"
    and "badAltBlocks s1 = badAltBlocks s \<or> in_store (pj_blockId job) b (pj_db s2)"
    and "pj_processing s1 = pj_processing s" "pj_closed s1 = pj_closed s" "pj_closeComplete s1 = pj_closeComplete s"
    and "nextDueJobCheckAt s1 = nextDueJobCheckAt s"
  shows "reply_ok job b s s2"
proof -
  have "pj_settled job b s1 (pj_db s2) \<Longrightarrow> pj_settled job b s (pj_db s2)"
    using assms(4) pj_settled_cong [of s1 s job b] by (auto simp: pj_settled_def)
  with assms show ?thesis by (auto simp: reply_ok_def job_keys_def)
qed

lemma orphan_ok: "reply_ok job b s (handleOrphanHeader cfg job b n t s)"
proof -
  define f where "f = (case map_of (orphanSince s) (pj_key job) of Some u \<Rightarrow> if u = 0 then t else u | None \<Rightarrow> t)"
  define s1 where "s1 = s\<lparr>orphanSince := AList.update (pj_key job) f (orphanSince s)\<rparr>"
  have "handleOrphanHeader cfg job b n t s =
      (if pc_orphanGraceMs cfg \<le> fl (t - f) then resolve job (asOrphan b) s1 else saveRetry cfg job n False False t s1)"
    by (simp add: handleOrphanHeader_def f_def s1_def Let_def)
  moreover have "reply_ok job b s1 (if pc_orphanGraceMs cfg \<le> fl (t - f) then resolve job (asOrphan b) s1 else saveRetry cfg job n False False t s1)"
    by (simp add: resolve_ok retry_ok)
  ultimately have "reply_ok job b s1 (handleOrphanHeader cfg job b n t s)" by simp
  then show ?thesis by (rule reply_ok_frame) (simp_all add: s1_def)
qed

lemma blockHeader_ok: "reply_ok job (MainBlock m) s (onBlockHeader cfg job m err h t s)"
  by (simp add: onBlockHeader_def orphan_ok retry_ok resolve_ok split: option.split bool.split)

lemma altHeader_ok: "reply_ok job (AltBlock a) s (onAltHeader cfg job a err h t s)"
proof -
  have resolved: "reply_ok job (AltBlock a) s (resolve job (withReward x (AltBlock a)) (markBadAltBlocks p t s))" for x p
  proof -
    have "in_store (pj_blockId job) (AltBlock a) (pj_db (resolve job (withReward x (AltBlock a)) (markBadAltBlocks p t s)))"
      using saveResolved_stores [of "pj_blockId job" "withReward x (AltBlock a)" "pj_db s"] by (simp add: resolve_def)
    note stored = this
    have "reply_ok job (AltBlock a) (markBadAltBlocks p t s) (resolve job (withReward x (AltBlock a)) (markBadAltBlocks p t s))"
      by (rule resolve_ok) simp
    then show ?thesis by (rule reply_ok_frame) (simp_all add: stored)
  qed
  have dropped: "reply_ok job (AltBlock a) s (saveDrop (pj_key job) s)" if "map_of (badAltBlocks s) (b_hash a) \<noteq> None"
    using that by (auto simp: reply_ok_def pj_settled_def ordered_remove)
  have waiting: "reply_ok job (AltBlock a) s (saveRetry cfg job n bo st t (s\<lparr>potentiallyBadAltBlocks := y\<rparr>))" for n bo st y
    by (rule reply_ok_frame [OF retry_ok]) simp_all
  show ?thesis
    unfolding onAltHeader_def Let_def
    by (simp add: resolved dropped waiting retry_ok orphan_ok split: option.split bool.split)
qed

lemma onHeader_ok: "reply_ok job b s (onHeader cfg job b err h t s)"
  by (cases b) (simp_all add: onHeader_def blockHeader_ok altHeader_ok)

subsection \<open>The invariant of the module\<close>

definition later :: "num \<Rightarrow> string \<times> jsval option \<Rightarrow> bool" where
  "later y r = (case read_job r of Job j \<Rightarrow> y \<le> pj_nextAttemptAt j | Invalid _ \<Rightarrow> False)"

definition asleep :: "pj_state \<Rightarrow> bool" where
  "asleep s \<longleftrightarrow> awaiting s = None \<and>
     list_all (later (nextDueJobCheckAt s)) (pj_rows s)"

definition pj_inv :: "pj_state \<Rightarrow> bool" where
  "pj_inv s \<longleftrightarrow>
     pj_processing s = (awaiting s \<noteq> None) \<and> pj_closeComplete s = (pj_closed s \<and> \<not> pj_processing s) \<and>
     ordered (pj_rows s) \<and> (nextDueJobCheckAt s \<noteq> 0 \<longrightarrow> asleep s)"

lemma collectJobs_asleep:
  "0 < n \<Longrightarrow> collectJobs n t rows jobs d = ([], d') \<Longrightarrow>
     jobs = [] \<and> (\<forall>x. d = Some x \<longrightarrow> (\<exists>y. d' = Some y \<and> y \<le> x)) \<and>
     (\<forall>y. d' = Some y \<longrightarrow> list_all (later y) rows)"
proof (induction n t rows jobs d rule: collectJobs.induct)
  case (2 n t r rows jobs d)
  show ?case
  proof (cases "read_job r")
    case (Invalid k)
    with 2 show ?thesis by (auto split: if_splits)
  next
    case (Job j)
    let ?d = "case d of None \<Rightarrow> Some (pj_nextAttemptAt j) | Some x \<Rightarrow> if pj_nextAttemptAt j < x then Some (pj_nextAttemptAt j) else Some x"
    have late: "\<not> n \<le> length jobs" "\<not> pj_nextAttemptAt j \<le> t" "collectJobs n t rows jobs ?d = ([], d')"
      using 2 Job by (auto split: if_splits)
    from "2.IH" (3) [OF late(1) Job late(2) "2.prems"(1) late(3)]
    show ?thesis using Job by (force simp: later_def split: option.splits if_splits)
  qed
qed simp

lemma sort_key_Nil_iff [simp]: "sort_key f xs = [] \<longleftrightarrow> xs = []"
  by (metis length_0_conv length_sort)

lemma loadDueJobs_asleep:
  "loadDueJobs t n rows = ([], Some y) \<Longrightarrow> 0 < n \<Longrightarrow>
     list_all (later y) rows"
  using collectJobs_asleep [of n t rows "[]" None "Some y"]
  by (auto simp: loadDueJobs_def split: prod.splits)

lemma tick_inv: "pj_inv s \<Longrightarrow> pj_inv (processDueJobs cfg t s)"
proof -
  assume inv: "pj_inv s"
  show ?thesis
  proof (cases "pj_processing s \<or> pj_closed s \<or> nextDueJobCheckAt s \<noteq> 0 \<and> t < nextDueJobCheckAt s")
    case True
    with inv show ?thesis by (auto simp: processDueJobs_def)
  next
    case False
    define s1 where "s1 = pruneState t (s\<lparr>pj_processing := True\<rparr>)"
    obtain jobs nd where l: "loadDueJobs t 100 (pj_rows s1) = (jobs, nd)" by force
    define w where "w = (case nd of Some d \<Rightarrow> if jobs = [] then d else 0 | None \<Rightarrow> 0)"
    obtain sel s3 where sel: "selectJobsForProcessing cfg t 0 jobs (s1\<lparr>nextDueJobCheckAt := w\<rparr>) = (sel, s3)" by force
    have eq: "processDueJobs cfg t s = runJobs cfg sel s3"
      using False l sel by (auto simp: processDueJobs_def s1_def w_def Let_def)
    have s3: "pj_processing s3" "\<not> pj_closed s3" "\<not> pj_closeComplete s3" "ordered (pj_rows s3)" "nextDueJobCheckAt s3 = w"
      using select_frame [of cfg t 0 jobs "s1\<lparr>nextDueJobCheckAt := w\<rparr>"] sel inv False by (auto simp: s1_def pj_inv_def)
    have "asleep (runJobs cfg sel s3)" if "w \<noteq> 0"
    proof -
      from that obtain d where d: "nd = Some d" "jobs = []" "w = d"
        by (auto simp: w_def split: option.splits if_splits)
      with sel have "sel = []" "s3 = s1\<lparr>nextDueJobCheckAt := w\<rparr>" by auto
      with loadDueJobs_asleep [of t 100 "pj_rows s1" d] l d show ?thesis by (simp add: asleep_def)
    qed
    then show ?thesis
      using s3 runJobs_idle [of s3 cfg sel] runJobs_ordered [of s3 cfg sel] runJobs_complete [of s3 cfg sel]
      by (auto simp: eq pj_inv_def)
  qed
qed

lemma reply_inv: "pj_inv s \<Longrightarrow> pj_inv (onReply cfg err h t s)"
proof (cases "awaiting s")
  case (Some jb)
  assume inv: "pj_inv s"
  obtain job b where jb: "jb = (job, b)" by force
  let ?s = "onHeader cfg job b err h t s"
  have "reply_ok job b s ?s" by (rule onHeader_ok)
  with inv Some have "pj_processing ?s" "pj_closeComplete ?s = (pj_closed ?s \<and> \<not> pj_processing ?s)" "ordered (pj_rows ?s)"
      "nextDueJobCheckAt ?s = 0"
    by (auto simp: pj_inv_def reply_ok_def asleep_def)
  with Some jb show ?thesis
    using runJobs_idle [of ?s cfg "jobsToProcess s"] runJobs_ordered [of ?s cfg "jobsToProcess s"]
      runJobs_complete [of ?s cfg "jobsToProcess s"]
    by (auto simp: onReply_def pj_inv_def)
qed (simp add: onReply_def)

lemma enqueue_inv:
  "pj_inv s \<Longrightarrow> pj_inv (enqueueBlock i p h t s)" "pj_inv s \<Longrightarrow> pj_inv (enqueueAltBlock i p q g h t s)"
  by (auto simp: pj_inv_def enqueueBlock_def enqueueAltBlock_def ordered_save)

lemma close_inv: "pj_inv s \<Longrightarrow> pj_inv (closePending s)"
  by (auto simp: pj_inv_def closePending_def asleep_def)

lemma boot_inv: "pj_inv s \<Longrightarrow> pj_inv (boot (pj_rows s) d')" "ordered rows \<Longrightarrow> pj_inv (boot rows d)"
  by (simp_all add: pj_inv_def boot_def)

lemma step_inv: "pj_step cfg s s' \<Longrightarrow> pj_inv s \<Longrightarrow> pj_inv s'"
proof (induction rule: pj_step.cases)
  case (other s d)
  then show ?case by (simp add: pj_inv_def asleep_def)
next
  case (restart s)
  then show ?case by (simp add: boot_inv(1))
qed (simp_all add: tick_inv reply_inv enqueue_inv close_inv)

lemma reach_inv: "pj_reach cfg s \<Longrightarrow> pj_inv s"
proof (induction rule: pj_reach.induct)
  case (init rows d)
  then show ?case by (simp add: boot_inv ordered_def)
next
  case (step s s')
  then show ?case by (blast intro: step_inv)
qed

end
