(* ===== verification/Pending_Properties.thy ===== *)
theory Pending_Properties
  imports Pending_Safety
begin

text \<open>
  The promises of the pending jobs: found blocks are not lost, not stored twice and not
  written over, and due jobs are taken up.
\<close>

subsection \<open>Due jobs are selected\<close>

lemma collectJobs_all:
  "length jobs + length rows \<le> n \<Longrightarrow>
     Job j \<in> set jobs \<or> Job j \<in> read_job ` set rows \<and> pj_nextAttemptAt j \<le> t \<Longrightarrow>
     Job j \<in> set (fst (collectJobs n t rows jobs d))"
proof (induction n t rows jobs d rule: collectJobs.induct)
  case (2 n t r rows jobs d)
  show ?case
  proof (cases "read_job r")
    case (Invalid k)
    with 2 show ?thesis by auto
  next
    case (Job i)
    with 2 show ?thesis by (cases "pj_nextAttemptAt i \<le> t") (auto split: option.splits if_splits)
  qed
qed auto

lemma loadDueJobs_all:
  "length rows \<le> n \<Longrightarrow> Job j \<in> read_job ` set rows \<Longrightarrow> pj_nextAttemptAt j \<le> t \<Longrightarrow> Job j \<in> set (fst (loadDueJobs t n rows))"
  using collectJobs_all [of "[]" rows n j t None] by (simp add: loadDueJobs_def case_prod_beta)

lemma select_fresh:
  "Job j \<in> set jobs \<Longrightarrow> \<not> isStalePendingBlock cfg (Job j) t \<Longrightarrow> Job j \<in> set (fst (selectJobsForProcessing cfg t n jobs s))"
  by (induction cfg t n jobs s rule: selectJobsForProcessing.induct) (auto split: prod.splits)

lemma runJobs_takes:
  "Job j \<in> set jobs \<Longrightarrow> pj_key j \<noteq> [] \<Longrightarrow> decodeJob cfg j = Some b \<Longrightarrow>
     awaiting (runJobs cfg jobs s) = Some (j, b) \<or> Job j \<in> set (jobsToProcess (runJobs cfg jobs s))"
  by (induction cfg jobs s rule: runJobs.induct) (auto simp: job_key_def split: pending_job.splits option.splits)

subsection \<open>Properties\<close>

text \<open>
  C21. Found blocks are not lost: in any step of the module, crashes included, a job leaves the
  table only when it is the awaited one and its block is in the store (a main block in its
  slot, or a valid block holds the slot; an alt block under its hash) or has been reported bad,
  or when the job's text or payload cannot be decoded.
\<close>

theorem only_settled_jobs_leave:
  assumes "pj_step cfg s s'" and "k \<in> job_keys s" and "k \<notin> job_keys s'"
  shows "(\<exists>job. (job \<in> read_job ` set (pj_rows s) \<or> job \<in> set (jobsToProcess s)) \<and> job_key job = k \<and> unusable cfg job) \<or>
         (\<exists>job b. awaiting s = Some (job, b) \<and> pj_key job = k \<and> pj_settled job b s (pj_db s'))"
  using assms
proof (cases rule: pj_step.cases)
  case (tick t)
  have False if "s' = s" using that assms by simp
  with tick have run: "\<not> (pj_processing s \<or> pj_closed s)" "\<not> (nextDueJobCheckAt s \<noteq> 0 \<and> t < nextDueJobCheckAt s)"
    by (auto simp: processDueJobs_def)
  define s1 where "s1 = pruneState t (s\<lparr>pj_processing := True\<rparr>)"
  obtain jobs nd where l: "loadDueJobs t 100 (pj_rows s1) = (jobs, nd)" by force
  define s2 where "s2 = s1\<lparr>nextDueJobCheckAt := (case nd of Some d \<Rightarrow> if jobs = [] then d else 0 | None \<Rightarrow> 0)\<rparr>"
  obtain sel s3 where sel: "selectJobsForProcessing cfg t 0 jobs s2 = (sel, s3)" by force
  have eq: "s' = runJobs cfg sel s3"
    using run l sel tick by (auto simp: processDueJobs_def s1_def s2_def Let_def)
  have "k \<in> job_keys s3"
    using select_frame [of cfg t 0 jobs s2] sel assms(2) by (auto simp: s1_def s2_def)
  then obtain job where "job \<in> set sel" "job_key job = k" "unusable cfg job"
    using runJobs_removes [of k s3 cfg sel] assms(3) by (auto simp: eq)
  moreover have "set sel \<subseteq> read_job ` set (pj_rows s)"
    using select_sub [of cfg t 0 jobs s2] loadDueJobs_sub [of t 100 "pj_rows s1"] sel l by (auto simp: s1_def)
  ultimately show ?thesis by blast
next
  case (reply err h t)
  show ?thesis
  proof (cases "awaiting s")
    case None
    with reply assms show ?thesis by (simp add: onReply_def)
  next
    case (Some jb)
    obtain job b where jb: "jb = (job, b)" by force
    let ?s = "onHeader cfg job b err h t s"
    have eq: "s' = runJobs cfg (jobsToProcess s) ?s" using reply Some jb by (simp add: onReply_def)
    have ok: "reply_ok job b s ?s" by (rule onHeader_ok)
    show ?thesis
    proof (cases "k \<in> job_keys ?s")
      case True
      then show ?thesis using runJobs_removes [of k ?s cfg "jobsToProcess s"] assms(3) by (auto simp: eq)
    next
      case False
      with ok assms(2) have "pj_key job = k" "pj_settled job b s (pj_db s')" by (auto simp: reply_ok_def eq)
      with Some jb show ?thesis by blast
    qed
  qed
qed (auto simp: job_keys_def enqueueBlock_def enqueueAltBlock_def dom_save closePending_def boot_def finishCloseIfIdle_def split: if_splits)

text \<open>
  C22. A block is stored once: when the process dies after the block was written and before its
  job was removed, the job is replayed, and the second write of the block (whatever the daemon
  reports then) finds it and leaves the store as it is.
\<close>

theorem replay_stores_once:
  assumes "same_kind b c" and "block_hash b = block_hash c"
  shows "saveResolved blockId c (snd (saveResolved blockId b d)) = (False, snd (saveResolved blockId b d))"
  using saveResolved_stores [of blockId b d] in_store_same [OF assms] by (intro saveResolved_again) simp

text \<open>
  No row is written over: whatever a daemon replies, every stored alt block and every valid
  main block is still there and unchanged, shares are not touched, and the tables stay in the
  order of their keys.
\<close>

theorem replies_keep_stored_rows:
  "rows_kept (pj_db s) (pj_db (onReply cfg err header now s))"
proof (cases "awaiting s")
  case (Some jb)
  obtain job b where "jb = (job, b)" by force
  with Some onHeader_ok [of job b s cfg err header now] show ?thesis by (simp add: onReply_def reply_ok_def)
qed (simp add: onReply_def)

text \<open>
  The module never sleeps past a due job: in every reachable state that is neither busy nor
  closed, the next tick takes up every job that is due, unless it is stale and throttled: the
  job is asked about or waits in the queue (when there are at most 100 rows).
\<close>

theorem due_job_taken_up:
  assumes "pj_reach cfg s" and "\<not> pj_processing s" and "\<not> pj_closed s"
    and "Job j \<in> read_job ` set (pj_rows s)" and "pj_nextAttemptAt j \<le> now" and "length (pj_rows s) \<le> 100"
    and "\<not> isStalePendingBlock cfg (Job j) now" and "pj_key j \<noteq> []" and "decodeJob cfg j = Some b"
  shows "awaiting (processDueJobs cfg now s) = Some (j, b) \<or> Job j \<in> set (jobsToProcess (processDueJobs cfg now s))"
proof -
  have "nextDueJobCheckAt s \<le> pj_nextAttemptAt j" if "nextDueJobCheckAt s \<noteq> 0"
    using that reach_inv [OF assms(1)] assms(4) by (auto simp: pj_inv_def asleep_def list_all_iff later_def split: pending_job.splits)
  with assms(5) have awake: "\<not> (nextDueJobCheckAt s \<noteq> 0 \<and> now < nextDueJobCheckAt s)" by auto
  define s1 where "s1 = pruneState now (s\<lparr>pj_processing := True\<rparr>)"
  obtain jobs nd where l: "loadDueJobs now 100 (pj_rows s1) = (jobs, nd)" by force
  define s2 where "s2 = s1\<lparr>nextDueJobCheckAt := (case nd of Some d \<Rightarrow> if jobs = [] then d else 0 | None \<Rightarrow> 0)\<rparr>"
  obtain sel s3 where sel: "selectJobsForProcessing cfg now 0 jobs s2 = (sel, s3)" by force
  have eq: "processDueJobs cfg now s = runJobs cfg sel s3"
    using awake assms(2,3) l sel by (auto simp: processDueJobs_def s1_def s2_def Let_def)
  have "Job j \<in> set jobs" using loadDueJobs_all [of "pj_rows s1" 100 j now] assms(4-6) l by (simp add: s1_def)
  then have "Job j \<in> set sel" using select_fresh [of j jobs cfg now 0 s2] assms(7) sel by simp
  then show ?thesis unfolding eq by (rule runJobs_takes [OF _ assms(8,9)])
qed

text \<open>
  Shutdown waits for the answer in flight and for nothing else: in every reachable state the
  module is busy exactly when it awaits a daemon, its close is complete exactly when it is
  closed and not busy, and the table of jobs has no key twice.
\<close>

theorem close_waits_for_reply:
  assumes "pj_reach cfg s"
  shows "pj_processing s = (awaiting s \<noteq> None) \<and> pj_closeComplete s = (pj_closed s \<and> awaiting s = None) \<and>
    distinct (map fst (pj_rows s))"
  using reach_inv [OF assms] by (auto simp: pj_inv_def ordered_def)

text \<open>A job that is written to the table is read back as it was.\<close>

theorem saved_job_read_back:
  assumes "0 \<le> pj_attempts j"
  shows "(case map_of (save j rows) (pj_key j) of Some v \<Rightarrow> read_job (pj_key j, v) = Job j | None \<Rightarrow> False)"
  using job_roundtrip [OF assms] by (simp add: map_of_save)

subsection \<open>Concrete runs\<close>

definition pj_msg :: block_msg where
  "pj_msg = \<lparr>b_hash = ''aa'', b_difficulty = 10, b_shares = 0, b_timestamp = 5, b_poolType = 0, b_unlocked = False, b_valid = True,
     b_value = None, b_pay_ready = None\<rparr>"

definition pj_cfg :: pj_config where
  "pj_cfg = \<lparr>pc_retryDelayMs = 30000, pc_maxRetryDelayMs = 1800000, pc_orphanGraceMs = 600000, pc_staleAgeMs = 2592000000,
     pc_staleProcessLimit = 5, pc_staleRetryDelayMs = 21600000, pc_decodeBlock = (\<lambda>_. Some pj_msg), pc_decodeAlt = (\<lambda>_. None),
     pc_unlockDepth = (\<lambda>_. 0)\<rparr>"

definition pj_job :: stored_job where
  "pj_job = new_job ''block:7:aa'' False 7 ''CgJhYQ=='' 1000"

definition pj_empty :: local_db where
  "pj_empty = \<lparr>blockDB = [], altblockDB = [], shareDB = (\<lambda>_. []), cacheDB = (\<lambda>_. None)\<rparr>"

definition pj_start :: pj_state where
  "pj_start = boot [(''block:7:aa'', Some (job_json pj_job))] pj_empty"

lemma pj_job_key: "pj_key pj_job = ''block:7:aa''"
  by (simp add: pj_job_def new_job_def)

lemma pj_job_read: "read_job (''block:7:aa'', Some (job_json pj_job)) = Job pj_job"
  using job_roundtrip [of pj_job] by (simp add: pj_job_def new_job_def)

lemma pj_start_reach: "pj_reach pj_cfg pj_start"
  unfolding pj_start_def by (rule pj_reach.init) auto

theorem only_settled_jobs_leave_witness:
  "in_store 7 (MainBlock pj_msg)
     (pj_db (onReply pj_cfg False (JObj [(''reward'', JNum 600)]) 2000 (pj_start\<lparr>awaiting := Some (pj_job, MainBlock pj_msg)\<rparr>)))"
proof -
  let ?s = "pj_start\<lparr>awaiting := Some (pj_job, MainBlock pj_msg)\<rparr>"
  let ?s' = "onReply pj_cfg False (JObj [(''reward'', JNum 600)]) 2000 ?s"
  have gone: "''block:7:aa'' \<in> job_keys ?s" "''block:7:aa'' \<notin> job_keys ?s'"
    by (simp_all add: job_keys_def pj_start_def boot_def onReply_def onHeader_def onBlockHeader_def getHeaderReward_def isPendingHeader_def
        resolve_def pj_job_key remove_job_def)
  from only_settled_jobs_leave [OF pj_step.reply gone]
  have "pj_settled pj_job (MainBlock pj_msg) ?s (pj_db ?s')"
    by (auto simp: pj_start_def boot_def pj_job_read unusable_def decodeJob_def pj_cfg_def) (auto simp: pj_job_def new_job_def)
  then show ?thesis by (simp add: pj_settled_def pj_job_def new_job_def)
qed

theorem replay_stores_once_witness:
  "saveResolved 7 (withReward 601 (MainBlock pj_msg)) (snd (saveResolved 7 (withReward 600 (MainBlock pj_msg)) pj_empty)) =
     (False, snd (saveResolved 7 (withReward 600 (MainBlock pj_msg)) pj_empty))"
  by (rule replay_stores_once) (simp_all add: withReward_def resolveAs_def same_kind_def block_hash_def)

theorem due_job_taken_up_witness:
  "awaiting (processDueJobs pj_cfg 1000 pj_start) = Some (pj_job, MainBlock pj_msg) \<or>
     Job pj_job \<in> set (jobsToProcess (processDueJobs pj_cfg 1000 pj_start))"
proof (rule due_job_taken_up [OF pj_start_reach])
  show "Job pj_job \<in> read_job ` set (pj_rows pj_start)" by (simp add: pj_start_def boot_def pj_job_read)
qed (simp_all add: pj_start_def boot_def pj_job_def new_job_def isStalePendingBlock_def pj_cfg_def decodeJob_def)

theorem close_waits_for_reply_witness:
  "pj_processing pj_start = (awaiting pj_start \<noteq> None) \<and> pj_closeComplete pj_start = (pj_closed pj_start \<and> awaiting pj_start = None) \<and>
    distinct (map fst (pj_rows pj_start))"
  by (rule close_waits_for_reply [OF pj_start_reach])

theorem saved_job_read_back_witness:
  "(case map_of (save pj_job []) (pj_key pj_job) of Some v \<Rightarrow> read_job (pj_key pj_job, v) = Job pj_job | None \<Rightarrow> False)"
  by (rule saved_job_read_back) (simp add: pj_job_def new_job_def)

end
