(* ===== verification/Trust_Gate.thy ===== *)
theory Trust_Gate
  imports Js_Number Js_Value
begin

text \<open>
  The gate of trusted shares, \<open>src/lib/pool/shares.js\<close>. A share of a trusted wallet is accepted
  without a hash check unless a check of the same trust key is in flight; then it waits in the
  queue of the key's gate, and queued shares are resumed one after the other.

  A share is one call of \<open>processShare\<close>: the variables its closures share are a row of the list
  of shares, and its number is its index. Gates are objects, numbered as they are created;
  \<open>trustVerificationGates\<close> maps a trust key to its gate. What the verifiers compute, which
  shares they would trust and which wallets are banned are events and parameters. Byte counts
  are safe integers.
\<close>

subsection \<open>State\<close>

record trust_gate =
  tg_payout :: string
  tg_inFlight :: nat
  tg_queue :: "nat list"
  tg_draining :: bool
  tg_forceVerify :: bool
  tg_queuedBytes :: nat

record tv_share =
  ts_key :: string
  ts_payout :: string
  ts_started :: bool
  ts_completed :: bool
  ts_force :: bool
  ts_isQueued :: bool
  ts_completion :: "nat option"
  ts_retained :: nat

text \<open>\<open>tv_immediates\<close> are the scheduled runs with their arguments, \<open>tv_calls\<close> the calls of the protocol's callbacks.\<close>

record tv_state =
  tv_gates :: "string \<Rightarrow> nat option"
  tv_heap :: "nat \<Rightarrow> trust_gate"
  tv_fresh :: nat
  trustedQueuedBytes :: nat
  tv_shares :: "tv_share list"
  tv_immediates :: "(nat \<times> bool \<times> nat) list"
  tv_calls :: "(nat \<times> bool option) list"
  tv_walletTrust :: "string \<Rightarrow> num option"
  tv_cleared :: "(string \<times> string) list"

definition upd_share :: "nat \<Rightarrow> (tv_share \<Rightarrow> tv_share) \<Rightarrow> tv_state \<Rightarrow> tv_state" where
  "upd_share e f s = s\<lparr>tv_shares := (tv_shares s)[e := f (tv_shares s ! e)]\<rparr>"

definition upd_gate :: "nat \<Rightarrow> (trust_gate \<Rightarrow> trust_gate) \<Rightarrow> tv_state \<Rightarrow> tv_state" where
  "upd_gate g f s = s\<lparr>tv_heap := (tv_heap s)(g := f (tv_heap s g))\<rparr>"

abbreviation share_of :: "tv_state \<Rightarrow> nat \<Rightarrow> tv_share" where
  "share_of s e \<equiv> tv_shares s ! e"

subsection \<open>Gates and queues\<close>

definition getTrustVerificationGate :: "string \<Rightarrow> string \<Rightarrow> tv_state \<Rightarrow> nat \<times> tv_state" where
  "getTrustVerificationGate trustKey payout s =
     (case tv_gates s trustKey of
        Some g \<Rightarrow> (g, s)
      | None \<Rightarrow> (tv_fresh s,
          s\<lparr>tv_gates := (tv_gates s)(trustKey \<mapsto> tv_fresh s),
            tv_heap := (tv_heap s)(tv_fresh s := \<lparr>tg_payout = payout, tg_inFlight = 0, tg_queue = [], tg_draining = False,
              tg_forceVerify = False, tg_queuedBytes = 0\<rparr>),
            tv_fresh := Suc (tv_fresh s)\<rparr>))"

definition TRUSTED_QUEUE_KEY_MAX_RETAINED_BYTES :: nat where
  "TRUSTED_QUEUE_KEY_MAX_RETAINED_BYTES = 16777216"

definition TRUSTED_QUEUE_MAX_RETAINED_BYTES :: nat where
  "TRUSTED_QUEUE_MAX_RETAINED_BYTES = 33554432"

text \<open>A setting that is not a finite number is \<open>None\<close>.\<close>

definition getTrustedQueueLimit :: "num option \<Rightarrow> num option \<Rightarrow> bool \<Rightarrow> int" where
  "getTrustedQueueLimit perSec window submissionBudget =
     (case (perSec, window) of (Some a, Some b) \<Rightarrow> max 0 \<lfloor>fl (a * b)\<rfloor> | _ \<Rightarrow> 25) * (if submissionBudget then 10 else 1)"

definition releaseTrustedQueueEntry :: "nat \<Rightarrow> nat \<Rightarrow> tv_state \<Rightarrow> tv_state" where
  "releaseTrustedQueueEntry g e s =
     upd_share e (\<lambda>x. x\<lparr>ts_retained := 0\<rparr>)
       ((upd_gate g (\<lambda>r. r\<lparr>tg_queuedBytes := tg_queuedBytes r - ts_retained (share_of s e)\<rparr>) s)
          \<lparr>trustedQueuedBytes := trustedQueuedBytes s - ts_retained (share_of s e)\<rparr>)"

text \<open>\<open>entry.cancel()\<close>: a share that still waits has started no check and nothing waits for it (\<open>cancel_is_finish\<close>).\<close>

definition cancelShare :: "nat \<Rightarrow> tv_state \<Rightarrow> tv_state" where
  "cancelShare e s =
     (if ts_completed (share_of s e) then s
      else (upd_share e (\<lambda>x. x\<lparr>ts_completed := True\<rparr>) s)\<lparr>tv_calls := tv_calls s @ [(e, None)]\<rparr>)"

fun cancelEntries :: "nat \<Rightarrow> nat list \<Rightarrow> tv_state \<Rightarrow> tv_state" where
  "cancelEntries g [] s = s"
| "cancelEntries g (e # es) s = cancelEntries g es (cancelShare e (releaseTrustedQueueEntry g e s))"

definition dropTrustedQueue :: "string \<Rightarrow> nat \<Rightarrow> tv_state \<Rightarrow> tv_state" where
  "dropTrustedQueue trustKey g s =
     cancelEntries g (tg_queue (tv_heap s g))
       (upd_gate g (\<lambda>r. r\<lparr>tg_queue := []\<rparr>) (s\<lparr>tv_gates := (tv_gates s)(trustKey := None)\<rparr>))"

definition drainTrustedQueue :: "(string \<Rightarrow> bool) \<Rightarrow> string \<Rightarrow> tv_state \<Rightarrow> tv_state" where
  "drainTrustedQueue banned trustKey s =
     (case tv_gates s trustKey of
        None \<Rightarrow> s
      | Some g \<Rightarrow>
          let gate = tv_heap s g
          in if tg_inFlight gate \<noteq> 0 \<or> tg_draining gate then s
             else if banned (tg_payout gate) then dropTrustedQueue trustKey g s
             else (case tg_queue gate of
                     [] \<Rightarrow> s\<lparr>tv_gates := (tv_gates s)(trustKey := None)\<rparr>
                   | e # q \<Rightarrow>
                       (upd_gate g (\<lambda>r. r\<lparr>tg_queue := q, tg_draining := True\<rparr>) s)
                         \<lparr>tv_immediates := tv_immediates s @ [(e, tg_forceVerify gate, g)]\<rparr>))"

definition onQueuedShareProcessed :: "(string \<Rightarrow> bool) \<Rightarrow> string \<Rightarrow> nat \<Rightarrow> nat \<Rightarrow> tv_state \<Rightarrow> tv_state" where
  "onQueuedShareProcessed banned trustKey g e s =
     (let s1 = releaseTrustedQueueEntry g e s
      in if tv_gates s1 trustKey \<noteq> Some g then s1
         else drainTrustedQueue banned trustKey
                (upd_gate g (\<lambda>r. r\<lparr>tg_draining := False, tg_forceVerify := tg_forceVerify r \<and> tg_queue r \<noteq> []\<rparr>) s1))"

definition finishTrustVerification :: "(string \<Rightarrow> bool) \<Rightarrow> string \<Rightarrow> tv_state \<Rightarrow> tv_state" where
  "finishTrustVerification banned trustKey s =
     drainTrustedQueue banned trustKey
       (case tv_gates s trustKey of
          Some g \<Rightarrow> upd_gate g (\<lambda>r. r\<lparr>tg_inFlight := tg_inFlight r - 1\<rparr>) s
        | None \<Rightarrow> s)"

definition hasQueuedGeneration :: "string \<Rightarrow> tv_state \<Rightarrow> bool" where
  "hasQueuedGeneration trustKey s =
     (case tv_gates s trustKey of Some g \<Rightarrow> tg_queue (tv_heap s g) \<noteq> [] \<or> tg_draining (tv_heap s g) | None \<Rightarrow> False)"

definition markTrustVerificationFailed :: "string \<Rightarrow> string \<Rightarrow> tv_state \<Rightarrow> tv_state" where
  "markTrustVerificationFailed payout trustKey s =
     (let s1 = (case tv_gates s trustKey of
                  Some g \<Rightarrow> if hasQueuedGeneration trustKey s then upd_gate g (\<lambda>r. r\<lparr>tg_forceVerify := True\<rparr>) s else s
                | None \<Rightarrow> s)
      in s1\<lparr>tv_walletTrust := (if tv_walletTrust s trustKey = None then tv_walletTrust s else (tv_walletTrust s)(trustKey \<mapsto> 0)),
            tv_cleared := tv_cleared s @ [(payout, trustKey)]\<rparr>)"

subsection \<open>A share\<close>

definition finishShareProcessing :: "(string \<Rightarrow> bool) \<Rightarrow> nat \<Rightarrow> bool option \<Rightarrow> tv_state \<Rightarrow> tv_state" where
  "finishShareProcessing banned e accepted s =
     (let x = share_of s e; trustKey = ts_key x
      in if ts_completed x then s
         else
           let s1 = upd_share e (\<lambda>x. x\<lparr>ts_completed := True\<rparr>) s;
               s2 = (if ts_started x \<and> accepted = None \<or> accepted = Some False \<and> hasQueuedGeneration trustKey s1
                     then markTrustVerificationFailed (ts_payout x) trustKey s1 else s1);
               s3 = (if ts_started x then finishTrustVerification banned trustKey s2 else s2);
               s4 = s3\<lparr>tv_calls := tv_calls s3 @ [(e, accepted)]\<rparr>
           in case ts_completion x of Some g \<Rightarrow> onQueuedShareProcessed banned trustKey g e s4 | None \<Rightarrow> s4)"

definition startAsyncVerification :: "nat \<Rightarrow> tv_state \<Rightarrow> tv_state" where
  "startAsyncVerification e s =
     (if ts_started (share_of s e) then s
      else
        let (g, s1) = getTrustVerificationGate (ts_key (share_of s e)) (ts_payout (share_of s e)) (upd_share e (\<lambda>x. x\<lparr>ts_started := True\<rparr>) s)
        in upd_gate g (\<lambda>r. r\<lparr>tg_inFlight := tg_inFlight r + 1\<rparr>) s1)"

definition enqueueTrustedShare :: "(string \<Rightarrow> bool) \<Rightarrow> int \<Rightarrow> nat \<Rightarrow> nat \<Rightarrow> tv_state \<Rightarrow> tv_state" where
  "enqueueTrustedShare banned queueLimit retainedBytes e s =
     (let (g, s1) = getTrustVerificationGate (ts_key (share_of s e)) (ts_payout (share_of s e)) s; gate = tv_heap s1 g
      in if queueLimit \<le> int (length (tg_queue gate)) \<or>
            TRUSTED_QUEUE_KEY_MAX_RETAINED_BYTES < tg_queuedBytes gate + retainedBytes \<or>
            TRUSTED_QUEUE_MAX_RETAINED_BYTES < trustedQueuedBytes s1 + retainedBytes
         then finishShareProcessing banned e None s1
         else upd_share e (\<lambda>x. x\<lparr>ts_retained := retainedBytes\<rparr>)
                ((upd_gate g (\<lambda>r. r\<lparr>tg_queuedBytes := tg_queuedBytes r + retainedBytes, tg_queue := tg_queue r @ [e]\<rparr>) s1)
                   \<lparr>trustedQueuedBytes := trustedQueuedBytes s1 + retainedBytes\<rparr>))"

text \<open>\<open>trusted\<close>: trust is enabled, the lottery trusts the share and the height need not be checked. \<open>Some True\<close>: accept now.\<close>

definition tryTrustedShare :: "(string \<Rightarrow> bool) \<Rightarrow> int \<Rightarrow> bool \<Rightarrow> nat \<Rightarrow> nat \<Rightarrow> tv_state \<Rightarrow> bool option \<times> tv_state" where
  "tryTrustedShare banned queueLimit trusted retainedBytes e s =
     (if ts_force (share_of s e) \<or> \<not> trusted then (Some False, s)
      else if \<not> ts_isQueued (share_of s e) \<and>
              (case tv_gates s (ts_key (share_of s e)) of
                 Some g \<Rightarrow> tg_inFlight (tv_heap s g) \<noteq> 0 \<or> tg_draining (tv_heap s g) \<or> tg_queue (tv_heap s g) \<noteq> []
               | None \<Rightarrow> False)
           then (None, enqueueTrustedShare banned queueLimit retainedBytes e s)
      else (Some True, s))"

definition runEntry :: "nat \<Rightarrow> bool \<Rightarrow> nat \<Rightarrow> tv_state \<Rightarrow> tv_state" where
  "runEntry e forceVerify g s = upd_share e (\<lambda>x. x\<lparr>ts_force := forceVerify, ts_isQueued := True, ts_completion := Some g\<rparr>) s"

definition new_share :: "string \<Rightarrow> string \<Rightarrow> tv_share" where
  "new_share trustKey payout =
     \<lparr>ts_key = trustKey, ts_payout = payout, ts_started = False, ts_completed = False, ts_force = False, ts_isQueued = False,
      ts_completion = None, ts_retained = 0\<rparr>"

subsection \<open>Runs\<close>

text \<open>
  A share runs from its arrival, or from the call of its queue entry, until its callback; while
  it runs it may ask for trust as long as it has started no check, start a check, or complete.
  The wrapped callback of a completed share may be called again, by a verifier that reports
  twice or after the share was cancelled, with any result.
\<close>

definition waiting :: "tv_state \<Rightarrow> nat \<Rightarrow> bool" where
  "waiting s e \<longleftrightarrow> (\<exists>k g. tv_gates s k = Some g \<and> e \<in> set (tg_queue (tv_heap s g)))"

definition running :: "tv_state \<Rightarrow> nat \<Rightarrow> bool" where
  "running s e \<longleftrightarrow> e < length (tv_shares s) \<and> \<not> ts_completed (share_of s e) \<and> e \<notin> fst ` set (tv_immediates s) \<and> \<not> waiting s e"

definition tv_init :: tv_state where
  "tv_init = \<lparr>tv_gates = (\<lambda>_. None), tv_heap = (\<lambda>_. \<lparr>tg_payout = [], tg_inFlight = 0, tg_queue = [], tg_draining = False,
     tg_forceVerify = False, tg_queuedBytes = 0\<rparr>), tv_fresh = 0, trustedQueuedBytes = 0, tv_shares = [], tv_immediates = [],
     tv_calls = [], tv_walletTrust = (\<lambda>_. None), tv_cleared = []\<rparr>"

inductive tv_step :: "tv_state \<Rightarrow> tv_state \<Rightarrow> bool" where
  arrive: "tv_step s (s\<lparr>tv_shares := tv_shares s @ [new_share trustKey payout]\<rparr>)"
| ask: "running s e \<Longrightarrow> \<not> ts_started (share_of s e) \<Longrightarrow> tv_step s (snd (tryTrustedShare banned limit trusted bytes e s))"
| start: "running s e \<Longrightarrow> tv_step s (startAsyncVerification e s)"
| complete: "running s e \<Longrightarrow> tv_step s (finishShareProcessing banned e accepted s)"
| call_again: "e < length (tv_shares s) \<Longrightarrow> ts_completed (share_of s e) \<Longrightarrow> tv_step s (finishShareProcessing banned e accepted s)"
| immediate: "tv_immediates s = (e, f, g) # rest \<Longrightarrow> tv_step s (runEntry e f g (s\<lparr>tv_immediates := rest\<rparr>))"
| trust: "tv_step s (s\<lparr>tv_walletTrust := w\<rparr>)"

inductive tv_reach :: "tv_state \<Rightarrow> bool" where
  init: "tv_reach tv_init"
| step: "tv_reach s \<Longrightarrow> tv_step s s' \<Longrightarrow> tv_reach s'"

subsection \<open>The trust lottery\<close>

text \<open>
  \<open>isSafeToTrust\<close> of \<open>share_blocks.js\<close>; \<open>None\<close> is \<open>Number.POSITIVE_INFINITY\<close>, below which nothing is
  compared as smaller. Rewards are not negative, and the lottery draws one random byte.
\<close>

definition finiteNumberOr :: "jsval \<Rightarrow> num option \<Rightarrow> num option" where
  "finiteNumberOr value fallback =
     (case value of
        JNum x \<Rightarrow> Some x
      | JStr s \<Rightarrow> (if js_trim s = [] then fallback else (case js_Number_string s of Some x \<Rightarrow> Some x | None \<Rightarrow> fallback))
      | _ \<Rightarrow> fallback)"

record trust_cfg =
  tc_threshold :: jsval
  tc_min :: jsval
  tc_change :: jsval

definition trustMin :: "trust_cfg \<Rightarrow> num" where
  "trustMin cfg = (case finiteNumberOr (tc_min cfg) (Some 256) of Some m \<Rightarrow> if 0 \<le> m \<and> m \<le> 256 then m else 256 | None \<Rightarrow> 256)"

definition trustChange :: "trust_cfg \<Rightarrow> num" where
  "trustChange cfg = (case finiteNumberOr (tc_change cfg) (Some 1) of Some m \<Rightarrow> if 0 < m then m else 1 | None \<Rightarrow> 1)"

definition trustThreshold :: "trust_cfg \<Rightarrow> num option" where
  "trustThreshold cfg = (case finiteNumberOr (tc_threshold cfg) None of Some t \<Rightarrow> if 0 < t then Some t else None | None \<Rightarrow> None)"

definition isSafeToTrust :: "trust_cfg \<Rightarrow> num \<Rightarrow> num option \<Rightarrow> num \<Rightarrow> nat \<Rightarrow> bool" where
  "isSafeToTrust cfg rewardDiff walletTrustValue minerTrust byte =
     (if \<not> (rewardDiff < 400000 \<and> minerTrust \<noteq> 0) then False
      else (case trustThreshold cfg of
              None \<Rightarrow> False
            | Some t \<Rightarrow>
                let rewardDiff2 = fl (rewardDiff * t);
                    walletOk = (case walletTrustValue of Some w \<Rightarrow> fl (rewardDiff2 * t) < w | None \<Rightarrow> False);
                    sessionOk = rewardDiff2 < minerTrust;
                    gate = (if walletOk \<or> rewardDiff = 0 then trustMin cfg
                            else max (fl (256 - fl (fl (minerTrust / rewardDiff) / fl (2 * trustChange cfg)))) (trustMin cfg))
                in if \<not> (walletOk \<or> sessionOk) then False else gate < of_nat byte))"

end
