(* ===== verification/Trust_Safety.thy ===== *)
theory Trust_Safety
  imports Trust_Gate
begin

text \<open>
  The invariant of the gates of trusted shares: a gate counts the checks in flight of its key,
  runs at most one queued share at a time, is never left with neither, and the bytes it retains
  are those of the shares that still wait or run.
\<close>

subsection \<open>Counting over the shares\<close>

lemma sum_list_upd:
  fixes f :: "'a \<Rightarrow> nat"
  shows "e < length xs \<Longrightarrow> sum_list (map f (xs[e := y])) + f (xs ! e) = sum_list (map f xs) + f y"
proof (induction xs arbitrary: e)
  case (Cons x xs)
  then show ?case by (cases e) auto
qed simp

definition share_in_flight :: "string \<Rightarrow> tv_share \<Rightarrow> nat" where
  "share_in_flight k x = (if ts_key x = k \<and> ts_started x \<and> \<not> ts_completed x then 1 else 0)"

definition active :: "tv_state \<Rightarrow> string \<Rightarrow> nat" where
  "active s k = sum_list (map (share_in_flight k) (tv_shares s))"

lemma active_share: "e < length (tv_shares s) \<Longrightarrow> share_in_flight k (share_of s e) \<le> active s k"
  unfolding active_def using elem_le_sum_list [of e "map (share_in_flight k) (tv_shares s)"] by simp

lemma sum_list_posD:
  fixes f :: "'a \<Rightarrow> nat"
  shows "0 < sum_list (map f xs) \<Longrightarrow> \<exists>x \<in> set xs. 0 < f x"
  by (induction xs) auto

lemma active_pos: "0 < active s k \<Longrightarrow> \<exists>e < length (tv_shares s). ts_key (share_of s e) = k \<and> ts_started (share_of s e) \<and> \<not> ts_completed (share_of s e)"
proof -
  assume "0 < active s k"
  then obtain x where "x \<in> set (tv_shares s)" "0 < share_in_flight k x"
    unfolding active_def by (blast dest: sum_list_posD)
  then show ?thesis by (fastforce simp: share_in_flight_def in_set_conv_nth split: if_splits)
qed

subsection \<open>The invariant\<close>

definition drained :: "tv_state \<Rightarrow> nat \<Rightarrow> nat \<Rightarrow> bool" where
  "drained s g e \<longleftrightarrow> (\<exists>f. (e, f, g) \<in> set (tv_immediates s)) \<or>
     (e < length (tv_shares s) \<and> ts_completion (share_of s e) = Some g \<and> \<not> ts_completed (share_of s e))"

definition fresh_waiter :: "tv_share \<Rightarrow> bool" where
  "fresh_waiter x \<longleftrightarrow> \<not> ts_started x \<and> \<not> ts_completed x \<and> ts_completion x = None \<and> \<not> ts_isQueued x"

definition gate_queue_ok :: "tv_state \<Rightarrow> string \<Rightarrow> nat \<Rightarrow> bool" where
  "gate_queue_ok s k g \<longleftrightarrow> g < tv_fresh s \<and> distinct (tg_queue (tv_heap s g)) \<and>
     (\<forall>e \<in> set (tg_queue (tv_heap s g)). e < length (tv_shares s) \<and> ts_key (share_of s e) = k \<and> fresh_waiter (share_of s e) \<and>
        e \<notin> fst ` set (tv_immediates s))"

definition drain_ok :: "tv_state \<Rightarrow> nat \<Rightarrow> bool" where
  "drain_ok s g \<longleftrightarrow> tg_draining (tv_heap s g) = (\<exists>e. drained s g e) \<and> (\<forall>e e'. drained s g e \<longrightarrow> drained s g e' \<longrightarrow> e = e')"

definition flight_ok :: "tv_state \<Rightarrow> string \<Rightarrow> bool" where
  "flight_ok s k \<longleftrightarrow> active s k = (case tv_gates s k of Some g \<Rightarrow> tg_inFlight (tv_heap s g) | None \<Rightarrow> 0)"

definition gates_inj :: "tv_state \<Rightarrow> bool" where
  "gates_inj s \<longleftrightarrow> (\<forall>k k' g. tv_gates s k = Some g \<longrightarrow> tv_gates s k' = Some g \<longrightarrow> k = k')"

definition imm_ok :: "tv_state \<Rightarrow> bool" where
  "imm_ok s \<longleftrightarrow> distinct (map fst (tv_immediates s)) \<and>
     (\<forall>(e, f, g) \<in> set (tv_immediates s). e < length (tv_shares s) \<and> fresh_waiter (share_of s e) \<and> tv_gates s (ts_key (share_of s e)) = Some g)"

definition comp_ok :: "tv_state \<Rightarrow> bool" where
  "comp_ok s \<longleftrightarrow> (\<forall>e g. e < length (tv_shares s) \<longrightarrow> ts_completion (share_of s e) = Some g \<longrightarrow> \<not> ts_completed (share_of s e) \<longrightarrow>
     tv_gates s (ts_key (share_of s e)) = Some g) \<and>
     (\<forall>e < length (tv_shares s). ts_completion (share_of s e) \<noteq> None \<longrightarrow> ts_isQueued (share_of s e))"

definition bytes_ok :: "tv_state \<Rightarrow> bool" where
  "bytes_ok s \<longleftrightarrow> trustedQueuedBytes s = sum_list (map ts_retained (tv_shares s)) \<and>
     trustedQueuedBytes s \<le> TRUSTED_QUEUE_MAX_RETAINED_BYTES \<and> (\<forall>g. tg_queuedBytes (tv_heap s g) \<le> TRUSTED_QUEUE_KEY_MAX_RETAINED_BYTES)"

definition held :: "tv_state \<Rightarrow> nat \<Rightarrow> bool" where
  "held s e \<longleftrightarrow> waiting s e \<or> e \<in> fst ` set (tv_immediates s) \<or> (ts_completion (share_of s e) \<noteq> None \<and> \<not> ts_completed (share_of s e))"

definition retained_ok :: "nat set \<Rightarrow> tv_state \<Rightarrow> bool" where
  "retained_ok E s \<longleftrightarrow> (\<forall>e < length (tv_shares s). ts_retained (share_of s e) \<noteq> 0 \<longrightarrow> held s e \<or> e \<in> E)"

definition gate_live :: "tv_state \<Rightarrow> string \<Rightarrow> bool" where
  "gate_live s k \<longleftrightarrow> (\<forall>g. tv_gates s k = Some g \<longrightarrow> tg_inFlight (tv_heap s g) \<noteq> 0 \<or> tg_draining (tv_heap s g))"

text \<open>The invariant while the entries \<open>E\<close> of a dropped queue are being cancelled.\<close>

definition tv_winvE :: "nat set \<Rightarrow> tv_state \<Rightarrow> bool" where
  "tv_winvE E s \<longleftrightarrow> (\<forall>k g. tv_gates s k = Some g \<longrightarrow> gate_queue_ok s k g \<and> drain_ok s g) \<and> (\<forall>k. flight_ok s k) \<and>
     gates_inj s \<and> imm_ok s \<and> comp_ok s \<and> bytes_ok s \<and> retained_ok E s"

abbreviation tv_winv :: "tv_state \<Rightarrow> bool" where
  "tv_winv \<equiv> tv_winvE {}"

lemmas tv_defs = gate_queue_ok_def drain_ok_def flight_ok_def gates_inj_def imm_ok_def comp_ok_def bytes_ok_def retained_ok_def

definition tv_inv :: "tv_state \<Rightarrow> bool" where
  "tv_inv s \<longleftrightarrow> tv_winv s \<and> (\<forall>k. gate_live s k)"

lemma upd_share_sel [simp]:
  "tv_gates (upd_share e f s) = tv_gates s" "tv_heap (upd_share e f s) = tv_heap s" "tv_fresh (upd_share e f s) = tv_fresh s"
  "trustedQueuedBytes (upd_share e f s) = trustedQueuedBytes s" "tv_immediates (upd_share e f s) = tv_immediates s"
  "tv_calls (upd_share e f s) = tv_calls s" "tv_shares (upd_share e f s) = (tv_shares s)[e := f (share_of s e)]"
  by (simp_all add: upd_share_def)

lemma upd_gate_sel [simp]:
  "tv_gates (upd_gate g f s) = tv_gates s" "tv_heap (upd_gate g f s) = (tv_heap s)(g := f (tv_heap s g))" "tv_fresh (upd_gate g f s) = tv_fresh s"
  "trustedQueuedBytes (upd_gate g f s) = trustedQueuedBytes s" "tv_immediates (upd_gate g f s) = tv_immediates s"
  "tv_calls (upd_gate g f s) = tv_calls s" "tv_shares (upd_gate g f s) = tv_shares s"
  by (simp_all add: upd_gate_def)

subsection \<open>Changes that the invariant does not see\<close>

lemma tv_winv_cong:
  assumes "tv_gates s' = tv_gates s" "tv_heap s' = tv_heap s" "tv_fresh s' = tv_fresh s" "trustedQueuedBytes s' = trustedQueuedBytes s"
    "tv_shares s' = tv_shares s" "tv_immediates s' = tv_immediates s"
  shows "tv_winv s' = tv_winv s" and "gate_live s' k = gate_live s k" and "tv_inv s' = tv_inv s"
  using assms by (simp_all add: tv_inv_def tv_winvE_def tv_defs gate_live_def held_def waiting_def drained_def active_def cong: option.case_cong)

text \<open>Only the flag that forces verification changes.\<close>

lemma tv_winv_force:
  assumes "s' = upd_gate g (\<lambda>r. r\<lparr>tg_forceVerify := b r\<rparr>) s"
  shows "tv_winv s' = tv_winv s" and "gate_live s' k = gate_live s k"
proof -
  have "tg_queue (tv_heap s' h) = tg_queue (tv_heap s h)" "tg_draining (tv_heap s' h) = tg_draining (tv_heap s h)"
    "tg_inFlight (tv_heap s' h) = tg_inFlight (tv_heap s h)" "tg_queuedBytes (tv_heap s' h) = tg_queuedBytes (tv_heap s h)" for h
    by (auto simp: assms)
  moreover have "tv_gates s' = tv_gates s" "tv_fresh s' = tv_fresh s" "trustedQueuedBytes s' = trustedQueuedBytes s"
    "tv_shares s' = tv_shares s" "tv_immediates s' = tv_immediates s" by (simp_all add: assms)
  ultimately show "tv_winv s' = tv_winv s" and "gate_live s' k = gate_live s k"
    by (simp_all add: tv_winvE_def tv_defs gate_live_def held_def waiting_def drained_def active_def cong: option.case_cong)
qed

subsection \<open>Cancelled entries\<close>

text \<open>Entries of a gate that is no longer registered: they are in no queue, and their gate is out of use.\<close>

definition orphan :: "tv_state \<Rightarrow> nat \<Rightarrow> nat \<Rightarrow> bool" where
  "orphan s g e \<longleftrightarrow> (\<forall>k. tv_gates s k \<noteq> Some g) \<and> e < length (tv_shares s) \<and> fresh_waiter (share_of s e) \<and>
     e \<notin> fst ` set (tv_immediates s) \<and> \<not> waiting s e"

lemma active_fresh_upd:
  assumes "e < length (tv_shares s)" "\<not> ts_started (share_of s e)" "\<not> ts_started (f (share_of s e))"
  shows "active (upd_share e f s) k = active s k"
  using sum_list_upd [OF assms(1), of "share_in_flight k" "f (share_of s e)"] assms(2,3)
  by (simp add: active_def share_in_flight_def)

definition cancel1 :: "nat \<Rightarrow> nat \<Rightarrow> tv_state \<Rightarrow> tv_state" where
  "cancel1 g e s = cancelShare e (releaseTrustedQueueEntry g e s)"

lemma cancel1_sel:
  assumes "e < length (tv_shares s)" "\<not> ts_completed (share_of s e)"
  shows "tv_gates (cancel1 g e s) = tv_gates s" "tv_fresh (cancel1 g e s) = tv_fresh s"
    "tv_immediates (cancel1 g e s) = tv_immediates s"
    "tv_heap (cancel1 g e s) = (tv_heap s)(g := (tv_heap s g)\<lparr>tg_queuedBytes := tg_queuedBytes (tv_heap s g) - ts_retained (share_of s e)\<rparr>)"
    "trustedQueuedBytes (cancel1 g e s) = trustedQueuedBytes s - ts_retained (share_of s e)"
    "tv_shares (cancel1 g e s) = (tv_shares s)[e := (share_of s e)\<lparr>ts_retained := 0, ts_completed := True\<rparr>]"
    "tv_calls (cancel1 g e s) = tv_calls s @ [(e, None)]"
  using assms by (simp_all add: cancel1_def cancelShare_def releaseTrustedQueueEntry_def)

lemma cancel1_inv:
  assumes inv: "tv_winvE E s" and "orphan s g e"
  shows "tv_winvE (E - {e}) (cancel1 g e s)" and "\<And>k. gate_live s k \<Longrightarrow> gate_live (cancel1 g e s) k"
    and "\<And>e'. e' \<noteq> e \<Longrightarrow> orphan s g e' \<Longrightarrow> orphan (cancel1 g e s) g e'"
    and "tv_gates (cancel1 g e s) = tv_gates s"
proof -
  let ?s = "cancel1 g e s"
  have e: "e < length (tv_shares s)" "fresh_waiter (share_of s e)" "e \<notin> fst ` set (tv_immediates s)" "\<not> waiting s e"
    and g: "\<And>k. tv_gates s k \<noteq> Some g" using assms(2) by (auto simp: orphan_def)
  then have nc: "\<not> ts_completed (share_of s e)" "\<not> ts_started (share_of s e)" "ts_completion (share_of s e) = None"
    by (auto simp: fresh_waiter_def)
  note sel = cancel1_sel [OF e(1) nc(1), of g]
  have sh: "share_of ?s i = (if i = e then (share_of s e)\<lparr>ts_retained := 0, ts_completed := True\<rparr> else share_of s i)" for i
    using e(1) by (simp add: sel)
  have len: "length (tv_shares ?s) = length (tv_shares s)" by (simp add: sel)
  have heap: "tg_queue (tv_heap ?s h) = tg_queue (tv_heap s h)" "tg_draining (tv_heap ?s h) = tg_draining (tv_heap s h)"
    "tg_inFlight (tv_heap ?s h) = tg_inFlight (tv_heap s h)" "tg_queuedBytes (tv_heap ?s h) \<le> tg_queuedBytes (tv_heap s h)" for h
    by (auto simp: sel)
  have wait: "waiting ?s i = waiting s i" for i by (simp add: waiting_def sel(1) heap)
  have drained: "drained ?s h i = drained s h i" for h i
    using nc by (auto simp: drained_def sel(3) sh len)
  have act: "active ?s k = active s k" for k
    using sum_list_upd [OF e(1), of "share_in_flight k" "(share_of s e)\<lparr>ts_retained := 0, ts_completed := True\<rparr>"] nc
    by (simp add: active_def sel share_in_flight_def)
  have queued: "i \<noteq> e" if "tv_gates s k = Some h" "i \<in> set (tg_queue (tv_heap s h))" for i k h
    using that e(4) by (auto simp: waiting_def)
  show "tv_gates ?s = tv_gates s" by (rule sel(1))
  show live: "gate_live ?s k" if "gate_live s k" for k using that by (simp add: gate_live_def sel(1) heap)
  show "orphan ?s g e'" if "e' \<noteq> e" "orphan s g e'" for e'
    using that by (simp add: orphan_def sel(1) sel(3) wait len sh)
  have "gate_queue_ok ?s k h" "drain_ok ?s h" if k: "tv_gates s k = Some h" for k h
    using inv k queued [OF k] by (auto simp: tv_winvE_def gate_queue_ok_def drain_ok_def sel(2,3) heap len sh drained)
  moreover have "flight_ok ?s k" for k
    using inv by (simp add: tv_winvE_def flight_ok_def act sel(1) heap cong: option.case_cong)
  moreover have "gates_inj ?s" using inv by (simp add: tv_winvE_def gates_inj_def sel(1))
  moreover have "imm_ok ?s" using inv e(3) by (force simp: tv_winvE_def imm_ok_def sel(1,3) len sh)
  moreover have "comp_ok ?s" using inv by (auto simp: tv_winvE_def comp_ok_def sel(1) len sh)
  moreover have "bytes_ok ?s"
  proof -
    have "sum_list (map ts_retained (tv_shares ?s)) + ts_retained (share_of s e) = sum_list (map ts_retained (tv_shares s))"
      using sum_list_upd [OF e(1), of ts_retained "(share_of s e)\<lparr>ts_retained := 0, ts_completed := True\<rparr>"] by (simp add: sel)
    moreover have "tg_queuedBytes (tv_heap ?s h) \<le> TRUSTED_QUEUE_KEY_MAX_RETAINED_BYTES" for h
      using inv heap(4) [of h] by (simp add: tv_winvE_def bytes_ok_def) (meson order_trans)
    ultimately show ?thesis using inv by (auto simp: tv_winvE_def bytes_ok_def sel(5))
  qed
  moreover have "retained_ok (E - {e}) ?s" using inv by (auto simp: tv_winvE_def retained_ok_def held_def len sh wait sel(3))
  ultimately show "tv_winvE (E - {e}) ?s" by (simp add: tv_winvE_def sel(1))
qed

lemma cancelEntries_inv:
  "tv_winvE (set es) s \<Longrightarrow> distinct es \<Longrightarrow> (\<And>e. e \<in> set es \<Longrightarrow> orphan s g e) \<Longrightarrow>
     tv_winv (cancelEntries g es s) \<and> (\<forall>k. gate_live s k \<longrightarrow> gate_live (cancelEntries g es s) k) \<and> tv_gates (cancelEntries g es s) = tv_gates s"
proof (induction g es s rule: cancelEntries.induct)
  case (2 g e es s)
  have o: "orphan s g e" using "2.prems" by simp
  note c = cancel1_inv [OF "2.prems"(1) o]
  have "orphan (cancel1 g e s) g e'" if "e' \<in> set es" for e'
    using that "2.prems" by (intro c(3)) auto
  moreover have "set (e # es) - {e} = set es" using "2.prems"(2) by auto
  ultimately have "tv_winv (cancelEntries g es (cancel1 g e s)) \<and> (\<forall>k. gate_live (cancel1 g e s) k \<longrightarrow> gate_live (cancelEntries g es (cancel1 g e s)) k) \<and>
      tv_gates (cancelEntries g es (cancel1 g e s)) = tv_gates (cancel1 g e s)"
    using "2.IH" c(1) "2.prems"(2) by (simp add: cancel1_def)
  with c(2,4) show ?case by (simp add: cancel1_def)
qed simp

subsection \<open>Draining\<close>

lemma queued_share:
  "tv_winvE E s \<Longrightarrow> tv_gates s k = Some g \<Longrightarrow> e \<in> set (tg_queue (tv_heap s g)) \<Longrightarrow>
     e < length (tv_shares s) \<and> ts_key (share_of s e) = k \<and> fresh_waiter (share_of s e) \<and> e \<notin> fst ` set (tv_immediates s)"
  "tv_winvE E s \<Longrightarrow> tv_gates s k = Some g \<Longrightarrow> distinct (tg_queue (tv_heap s g))"
  by (simp_all add: tv_winvE_def gate_queue_ok_def)

lemma drop_inv:
  assumes inv: "tv_winv s" and g: "tv_gates s k = Some g" and idle: "tg_inFlight (tv_heap s g) = 0" "\<not> tg_draining (tv_heap s g)"
    and live: "\<And>k'. k' \<noteq> k \<Longrightarrow> gate_live s k'"
  shows "tv_inv (dropTrustedQueue k g s)"
proof -
  let ?q = "tg_queue (tv_heap s g)"
  define s1 where "s1 = upd_gate g (\<lambda>r. r\<lparr>tg_queue := []\<rparr>) (s\<lparr>tv_gates := (tv_gates s)(k := None)\<rparr>)"
  have q: "distinct ?q" "\<And>e. e \<in> set ?q \<Longrightarrow> e < length (tv_shares s) \<and> ts_key (share_of s e) = k \<and> fresh_waiter (share_of s e) \<and> e \<notin> fst ` set (tv_immediates s)"
    using queued_share [OF inv g] by blast+
  have inj: "k' = k" if "tv_gates s k' = Some g" for k' using inv g that by (simp add: tv_winvE_def gates_inj_def)
  have other: "h \<noteq> g" if "tv_gates s k' = Some h" "k' \<noteq> k" for k' h using inj that by auto
  have none: "\<not> drained s g e" for e using inv g idle by (auto simp: tv_winvE_def drain_ok_def)
  have act: "active s1 k' = active s k'" and dr: "drained s1 h e = drained s h e" for k' h e
    by (simp_all add: active_def drained_def s1_def)
  have wait: "waiting s e = (waiting s1 e \<or> e \<in> set ?q)" for e
  proof
    assume "waiting s e"
    then obtain k' h where w: "tv_gates s k' = Some h" "e \<in> set (tg_queue (tv_heap s h))" by (auto simp: waiting_def)
    then show "waiting s1 e \<or> e \<in> set ?q"
    proof (cases "k' = k")
      case False
      with w other have "tv_gates s1 k' = Some h \<and> e \<in> set (tg_queue (tv_heap s1 h))" by (auto simp: s1_def)
      then show ?thesis by (auto simp: waiting_def)
    qed (use w g in auto)
  qed (use g other in \<open>auto simp: waiting_def s1_def split: if_splits\<close>)
  have wait1: "\<not> waiting s1 e" if "e \<in> set ?q" for e
    using that q(2) [OF that] other queued_share(1) [OF inv] by (fastforce simp: waiting_def s1_def split: if_splits)
  have "gate_queue_ok s1 k' h \<and> drain_ok s1 h" if "tv_gates s1 k' = Some h" for k' h
    using inv other that by (auto simp: s1_def tv_winvE_def gate_queue_ok_def drain_ok_def drained_def split: if_splits)
  moreover have "flight_ok s1 k'" for k'
  proof (cases "k' = k")
    case True
    then show ?thesis using inv g idle act by (auto simp: tv_winvE_def flight_ok_def s1_def dest!: spec [of _ k])
  next
    case False
    then show ?thesis using inv act other by (auto simp: tv_winvE_def flight_ok_def s1_def split: option.split dest!: spec [of _ k'])
  qed
  moreover have "gates_inj s1" using inv by (auto simp: tv_winvE_def gates_inj_def s1_def)
  moreover have "imm_ok s1"
    using inv none g by (fastforce simp: tv_winvE_def imm_ok_def s1_def drained_def)
  moreover have "comp_ok s1"
    using inv none g by (fastforce simp: tv_winvE_def comp_ok_def s1_def drained_def)
  moreover have "bytes_ok s1" using inv by (auto simp: tv_winvE_def bytes_ok_def s1_def)
  moreover have "retained_ok (set ?q) s1"
    using inv wait by (auto simp: tv_winvE_def retained_ok_def held_def s1_def)
  ultimately have inv1: "tv_winvE (set ?q) s1" by (simp add: tv_winvE_def)
  have "orphan s1 g e" if "e \<in> set ?q" for e
    using that q(2) wait1 inj by (auto simp: orphan_def s1_def)
  from cancelEntries_inv [OF inv1 q(1) this]
  have c: "tv_winv (dropTrustedQueue k g s)" "\<And>k'. gate_live s1 k' \<Longrightarrow> gate_live (dropTrustedQueue k g s) k'"
    by (auto simp: dropTrustedQueue_def s1_def)
  have "gate_live s1 k'" for k'
    using live [of k'] other by (auto simp: gate_live_def s1_def)
  with c show ?thesis by (simp add: tv_inv_def)
qed

lemma drain_inv:
  assumes inv: "tv_winv s" and live: "\<And>k'. k' \<noteq> k \<Longrightarrow> gate_live s k'"
  shows "tv_inv (drainTrustedQueue banned k s)"
proof (cases "tv_gates s k")
  case None
  then have "gate_live s k'" for k' using live [of k'] by (cases "k' = k") (auto simp: gate_live_def)
  with inv None show ?thesis by (simp add: drainTrustedQueue_def tv_inv_def)
next
  case g: (Some g)
  show ?thesis
  proof (cases "tg_inFlight (tv_heap s g) \<noteq> 0 \<or> tg_draining (tv_heap s g)")
    case True
    then have "gate_live s k'" for k' using live [of k'] g by (cases "k' = k") (auto simp: gate_live_def)
    with inv True g show ?thesis by (simp add: drainTrustedQueue_def tv_inv_def)
  next
    case idle: False
    have inj: "k' = k" if "tv_gates s k' = Some g" for k' using inv g that by (simp add: tv_winvE_def gates_inj_def)
    have other: "h \<noteq> g" if "tv_gates s k' = Some h" "k' \<noteq> k" for k' h using inj that by auto
    have none: "\<not> drained s g e" for e using inv g idle by (auto simp: tv_winvE_def drain_ok_def)
    show ?thesis
    proof (cases "banned (tg_payout (tv_heap s g))")
      case True
      with idle g have "drainTrustedQueue banned k s = dropTrustedQueue k g s" by (simp add: drainTrustedQueue_def)
      with drop_inv [OF inv g _ _ live] idle show ?thesis by simp
    next
      case nb: False
      show ?thesis
      proof (cases "tg_queue (tv_heap s g)")
        case Nil
        define s1 where "s1 = s\<lparr>tv_gates := (tv_gates s)(k := None)\<rparr>"
        have eq: "drainTrustedQueue banned k s = s1" using idle g nb Nil by (simp add: drainTrustedQueue_def s1_def)
        have wait: "waiting s1 e = waiting s e" for e using g Nil by (auto simp: waiting_def s1_def) (metis empty_iff empty_set option.inject)
        have "gate_queue_ok s1 k' h \<and> drain_ok s1 h" if "tv_gates s1 k' = Some h" for k' h
          using inv that by (auto simp: s1_def tv_winvE_def gate_queue_ok_def drain_ok_def drained_def split: if_splits)
        moreover have "flight_ok s1 k'" for k'
          using inv g idle by (auto simp: tv_winvE_def flight_ok_def s1_def active_def split: option.split dest!: spec [of _ k'])
        moreover have "gates_inj s1" using inv by (auto simp: tv_winvE_def gates_inj_def s1_def)
        moreover have "imm_ok s1" using inv none g by (fastforce simp: tv_winvE_def imm_ok_def s1_def drained_def)
        moreover have "comp_ok s1" using inv none g by (fastforce simp: tv_winvE_def comp_ok_def s1_def drained_def)
        moreover have "bytes_ok s1" using inv by (auto simp: tv_winvE_def bytes_ok_def s1_def)
        moreover have "retained_ok {} s1" using inv wait by (auto simp: tv_winvE_def retained_ok_def held_def s1_def)
        moreover have "gate_live s1 k'" for k' using live [of k'] by (auto simp: gate_live_def s1_def)
        ultimately show ?thesis unfolding eq by (simp add: tv_inv_def tv_winvE_def)
      next
        case (Cons e q)
        define s1 where "s1 = (upd_gate g (\<lambda>r. r\<lparr>tg_queue := q, tg_draining := True\<rparr>) s)
          \<lparr>tv_immediates := tv_immediates s @ [(e, tg_forceVerify (tv_heap s g), g)]\<rparr>"
        have eq: "drainTrustedQueue banned k s = s1" using idle g nb Cons by (simp add: drainTrustedQueue_def s1_def)
        have qs: "distinct (e # q)" "\<And>i. i = e \<or> i \<in> set q \<Longrightarrow> i < length (tv_shares s) \<and> ts_key (share_of s i) = k \<and> fresh_waiter (share_of s i) \<and> i \<notin> fst ` set (tv_immediates s)"
          using queued_share [OF inv g] Cons by auto
        have dr: "drained s1 h i = (drained s h i \<or> h = g \<and> i = e)" for h i by (auto simp: drained_def s1_def)
        have wait: "waiting s i \<Longrightarrow> i \<noteq> e \<Longrightarrow> waiting s1 i" for i
          using g Cons by (fastforce simp: waiting_def s1_def)
        have "gate_queue_ok s1 k' h \<and> drain_ok s1 h" if k': "tv_gates s k' = Some h" for k' h
        proof (cases "h = g")
          case True
          then have "k' = k" using inj k' by simp
          have "i \<notin> fst ` set (tv_immediates s1)" if "i \<in> set q" for i using qs that by (auto simp: s1_def)
          with qs have "gate_queue_ok s1 k g" using inv g by (auto simp: gate_queue_ok_def s1_def tv_winvE_def)
          moreover have "drain_ok s1 g" using none by (auto simp: drain_ok_def dr) (simp add: s1_def)
          ultimately show ?thesis using True \<open>k' = k\<close> by simp
        next
          case False
          then have "k' \<noteq> k" using g k' by auto
          have i: "i \<notin> fst ` set (tv_immediates s1)" if "i \<in> set (tg_queue (tv_heap s h))" for i
            using queued_share(1) [OF inv k' that] qs(2) [of e] \<open>k' \<noteq> k\<close> by (auto simp: s1_def)
          have "gate_queue_ok s k' h" "drain_ok s h" using inv k' by (auto simp: tv_winvE_def)
          moreover have "tv_heap s1 h = tv_heap s h" "tv_shares s1 = tv_shares s" "tv_fresh s1 = tv_fresh s" using False by (simp_all add: s1_def)
          ultimately show ?thesis using False i by (simp add: gate_queue_ok_def drain_ok_def dr)
        qed
        moreover have "flight_ok s1 k'" for k'
          using inv other g by (auto simp: tv_winvE_def flight_ok_def s1_def active_def split: option.split dest!: spec [of _ k'])
        moreover have "gates_inj s1" using inv by (auto simp: tv_winvE_def gates_inj_def s1_def)
        moreover have "imm_ok s1" using inv qs(2) [of e] g by (auto simp: tv_winvE_def imm_ok_def s1_def)
        moreover have "comp_ok s1" using inv by (auto simp: tv_winvE_def comp_ok_def s1_def)
        moreover have "bytes_ok s1" using inv by (auto simp: tv_winvE_def bytes_ok_def s1_def)
        moreover have "retained_ok {} s1" using inv wait by (auto simp: tv_winvE_def retained_ok_def held_def) (auto simp: s1_def)
        moreover have "gate_live s1 k'" for k'
          using live [of k'] g by (cases "k' = k") (auto simp: gate_live_def s1_def)
        ultimately show ?thesis unfolding eq by (simp add: tv_inv_def tv_winvE_def s1_def)
      qed
    qed
  qed
qed

subsection \<open>Completion\<close>

text \<open>A running share completes: what it held is released, before its gate is drained.\<close>

lemma complete_winv:
  assumes inv: "tv_inv s" and run: "running s e"
    and t: "tv_gates t = tv_gates s" "tv_fresh t = tv_fresh s" "tv_immediates t = tv_immediates s"
      "trustedQueuedBytes t = trustedQueuedBytes s - ts_retained (share_of s e)"
      "tv_shares t = (tv_shares s)[e := (share_of s e)\<lparr>ts_completed := True, ts_retained := 0\<rparr>]"
      "\<And>h. tg_queue (tv_heap t h) = tg_queue (tv_heap s h)"
      "\<And>h. tg_draining (tv_heap t h) = (tg_draining (tv_heap s h) \<and> ts_completion (share_of s e) \<noteq> Some h)"
      "\<And>h. tg_inFlight (tv_heap t h) = tg_inFlight (tv_heap s h) - (if ts_started (share_of s e) \<and> tv_gates s (ts_key (share_of s e)) = Some h then 1 else 0)"
      "\<And>h. tg_queuedBytes (tv_heap t h) \<le> tg_queuedBytes (tv_heap s h)"
  shows "tv_winv t" and "\<And>k. k \<noteq> ts_key (share_of s e) \<or> \<not> ts_started (share_of s e) \<and> ts_completion (share_of s e) = None \<Longrightarrow> gate_live t k"
proof -
  let ?x = "share_of s e" let ?k = "ts_key ?x"
  have w: "tv_winv s" and live: "gate_live s k" for k using inv by (auto simp: tv_inv_def)
  have e: "e < length (tv_shares s)" "\<not> ts_completed ?x" "e \<notin> fst ` set (tv_immediates s)" "\<not> waiting s e"
    using run by (auto simp: running_def)
  have sh: "share_of t i = (if i = e then ?x\<lparr>ts_completed := True, ts_retained := 0\<rparr> else share_of s i)" for i
    using e(1) by (simp add: t)
  have len: "length (tv_shares t) = length (tv_shares s)" by (simp add: t)
  have inj: "k = k'" if "tv_gates s k = Some g" "tv_gates s k' = Some g" for k k' g
    using w that by (auto simp: tv_winvE_def gates_inj_def)
  have wait: "waiting t i = waiting s i" for i by (simp add: waiting_def t)
  have dr: "drained t h i = (drained s h i \<and> i \<noteq> e)" for h i
    using e by (force simp: drained_def t(3) sh len)
  have dre: "drained s h e = (ts_completion ?x = Some h)" for h using e by (force simp: drained_def)
  have compk: "tv_gates s ?k = Some g" if "ts_completion ?x = Some g" for g
    using w e that by (simp add: tv_winvE_def comp_ok_def)
  have act: "active t k + share_in_flight k ?x = active s k" for k
    using sum_list_upd [OF e(1), of "share_in_flight k" "?x\<lparr>ts_completed := True, ts_retained := 0\<rparr>"]
    by (simp add: active_def t(5)) (simp add: share_in_flight_def)
  have "gate_queue_ok t k g \<and> drain_ok t g" if k: "tv_gates s k = Some g" for k g
  proof
    have "i \<noteq> e" if "i \<in> set (tg_queue (tv_heap s g))" for i using that k e(4) by (auto simp: waiting_def)
    with w k show "gate_queue_ok t k g" by (simp add: tv_winvE_def gate_queue_ok_def t(2,3,6) len sh)
    have d: "drain_ok s g" using w k by (simp add: tv_winvE_def)
    show "drain_ok t g"
      using d dre [of g] unfolding drain_ok_def t(7) dr by metis
  qed
  moreover have "flight_ok t k" for k
  proof (cases "tv_gates s k")
    case None
    with w act [of k] show ?thesis by (auto simp: tv_winvE_def flight_ok_def t(1) dest!: spec [of _ k])
  next
    case (Some g)
    have "(ts_started ?x \<and> tv_gates s ?k = Some g) = (share_in_flight k ?x = 1)"
      using inj Some e(2) by (auto simp: share_in_flight_def)
    moreover have "share_in_flight k ?x \<le> 1" by (simp add: share_in_flight_def)
    moreover have "active s k = tg_inFlight (tv_heap s g)" using w Some by (auto simp: tv_winvE_def flight_ok_def dest!: spec [of _ k])
    ultimately show ?thesis using act [of k] Some by (auto simp: flight_ok_def t(1,8))
  qed
  moreover have "gates_inj t" using w by (simp add: tv_winvE_def gates_inj_def t(1))
  moreover have "imm_ok t" using w e(3) by (force simp: tv_winvE_def imm_ok_def t(1,3) len sh)
  moreover have "comp_ok t" using w by (auto simp: tv_winvE_def comp_ok_def t(1) len sh)
  moreover have "bytes_ok t"
  proof -
    have "sum_list (map ts_retained (tv_shares t)) + ts_retained ?x = sum_list (map ts_retained (tv_shares s))"
      using sum_list_upd [OF e(1), of ts_retained "?x\<lparr>ts_completed := True, ts_retained := 0\<rparr>"] by (simp add: t(5))
    moreover have "tg_queuedBytes (tv_heap t h) \<le> TRUSTED_QUEUE_KEY_MAX_RETAINED_BYTES" for h
      using w t(9) [of h] by (simp add: tv_winvE_def bytes_ok_def) (meson order_trans)
    ultimately show ?thesis using w by (auto simp: tv_winvE_def bytes_ok_def t(4))
  qed
  moreover have "retained_ok {} t" using w by (auto simp: tv_winvE_def retained_ok_def held_def len sh wait t(3))
  ultimately show "tv_winv t" by (simp add: tv_winvE_def t(1))
  fix k assume k: "k \<noteq> ?k \<or> \<not> ts_started ?x \<and> ts_completion ?x = None"
  show "gate_live t k"
    unfolding gate_live_def
  proof (intro allI impI)
    fix g assume g: "tv_gates t k = Some g"
    have "ts_completion ?x \<noteq> Some g" and "\<not> (ts_started ?x \<and> tv_gates s ?k = Some g)"
      using k inj [of k g ?k] compk [of g] g unfolding t(1) by auto
    with live [of k] g show "tg_inFlight (tv_heap t g) \<noteq> 0 \<or> tg_draining (tv_heap t g)" by (auto simp: gate_live_def t(1,7,8))
  qed
qed

lemma running_retained: "tv_inv s \<Longrightarrow> running s e \<Longrightarrow> ts_completion (share_of s e) = None \<Longrightarrow> ts_retained (share_of s e) = 0"
  by (auto simp: tv_inv_def tv_winvE_def retained_ok_def running_def held_def)

lemma mark_sel [simp]:
  "tv_gates (markTrustVerificationFailed p k s) = tv_gates s" "tv_fresh (markTrustVerificationFailed p k s) = tv_fresh s"
  "trustedQueuedBytes (markTrustVerificationFailed p k s) = trustedQueuedBytes s" "tv_shares (markTrustVerificationFailed p k s) = tv_shares s"
  "tv_immediates (markTrustVerificationFailed p k s) = tv_immediates s" "tv_calls (markTrustVerificationFailed p k s) = tv_calls s"
  "tg_queue (tv_heap (markTrustVerificationFailed p k s) h) = tg_queue (tv_heap s h)"
  "tg_draining (tv_heap (markTrustVerificationFailed p k s) h) = tg_draining (tv_heap s h)"
  "tg_inFlight (tv_heap (markTrustVerificationFailed p k s) h) = tg_inFlight (tv_heap s h)"
  "tg_queuedBytes (tv_heap (markTrustVerificationFailed p k s) h) = tg_queuedBytes (tv_heap s h)"
  by (auto simp: markTrustVerificationFailed_def Let_def split: option.split)

lemma share_same: "ts_retained x = 0 \<Longrightarrow> x\<lparr>ts_completed := True, ts_retained := 0\<rparr> = x\<lparr>ts_completed := True\<rparr>"
  by (cases x) simp

lemma finish_inv:
  assumes inv: "tv_inv s" and run: "running s e"
  shows "tv_inv (finishShareProcessing banned e a s)"
proof -
  let ?x = "share_of s e" let ?k = "ts_key ?x"
  define s1 where "s1 = upd_share e (\<lambda>x. x\<lparr>ts_completed := True\<rparr>) s"
  define s2 where "s2 = (if ts_started ?x \<and> a = None \<or> a = Some False \<and> hasQueuedGeneration ?k s1
    then markTrustVerificationFailed (ts_payout ?x) ?k s1 else s1)"
  have e: "e < length (tv_shares s)" "\<not> ts_completed ?x" using run by (auto simp: running_def)
  have w: "tv_winv s" using inv by (simp add: tv_inv_def)
  have s2: "tv_gates s2 = tv_gates s" "tv_fresh s2 = tv_fresh s" "tv_immediates s2 = tv_immediates s"
    "trustedQueuedBytes s2 = trustedQueuedBytes s" "tv_shares s2 = (tv_shares s)[e := ?x\<lparr>ts_completed := True\<rparr>]"
    "tg_queue (tv_heap s2 h) = tg_queue (tv_heap s h)" "tg_draining (tv_heap s2 h) = tg_draining (tv_heap s h)"
    "tg_inFlight (tv_heap s2 h) = tg_inFlight (tv_heap s h)" "tg_queuedBytes (tv_heap s2 h) = tg_queuedBytes (tv_heap s h)" for h
    by (simp_all add: s2_def s1_def)
  have gate: "\<exists>g. tv_gates s ?k = Some g" if "ts_started ?x"
  proof -
    have "0 < active s ?k" using active_share [OF e(1), of ?k] that e(2) by (simp add: share_in_flight_def)
    moreover have "flight_ok s ?k" using w by (simp add: tv_winvE_def)
    ultimately show ?thesis by (auto simp: flight_ok_def split: option.splits)
  qed
  define s3 where "s3 = (if ts_started ?x then finishTrustVerification banned ?k s2 else s2)"
  define s4 where "s4 = s3\<lparr>tv_calls := tv_calls s3 @ [(e, a)]\<rparr>"
  have fin: "finishShareProcessing banned e a s =
      (case ts_completion ?x of Some g \<Rightarrow> onQueuedShareProcessed banned ?k g e s4 | None \<Rightarrow> s4)"
    unfolding finishShareProcessing_def Let_def s1_def [symmetric] s2_def [symmetric] s3_def [symmetric] s4_def [symmetric]
    using e(2) by simp
  show ?thesis
  proof (cases "ts_completion ?x")
    case None
    have r: "?x\<lparr>ts_completed := True, ts_retained := 0\<rparr> = ?x\<lparr>ts_completed := True\<rparr>" "ts_retained ?x = 0"
      using running_retained [OF inv run None] share_same by auto
    show ?thesis
    proof (cases "ts_started ?x")
      case False
      have "tv_winv s4" "\<And>k. gate_live s4 k"
        by (rule complete_winv [OF inv run]; simp add: s4_def s3_def False s2 None r)+
      with None show ?thesis by (simp add: fin tv_inv_def)
    next
      case True
      then obtain g where g: "tv_gates s ?k = Some g" using gate by blast
      define t where "t = upd_gate g (\<lambda>r. r\<lparr>tg_inFlight := tg_inFlight r - 1\<rparr>) s2"
      have t: "s3 = drainTrustedQueue banned ?k t" using True g by (simp add: s3_def finishTrustVerification_def s2 t_def)
      have "tv_winv t" by (rule complete_winv [OF inv run]) (auto simp: t_def True s2 None r g)
      moreover have "gate_live t k" if "k \<noteq> ?k" for k
        by (rule complete_winv(2) [OF inv run]) (auto simp: t_def True s2 None r g that)
      ultimately have "tv_inv s3" unfolding t by (rule drain_inv)
      then have "tv_inv s4" by (subst tv_winv_cong(3) [of _ s3]) (simp_all add: s4_def)
      with None show ?thesis by (simp add: fin)
    qed
  next
    case c: (Some g)
    have g: "tv_gates s ?k = Some g" using w e c by (simp add: tv_winvE_def comp_ok_def)
    have "drained s g e" using e c by (simp add: drained_def)
    then have d: "tg_draining (tv_heap s g)" using w g by (auto simp: tv_winvE_def drain_ok_def)
    have s3: "s3 = (if ts_started ?x then upd_gate g (\<lambda>r. r\<lparr>tg_inFlight := tg_inFlight r - 1\<rparr>) s2 else s2)"
      using g d by (simp add: s3_def finishTrustVerification_def s2 drainTrustedQueue_def)
    define t where "t = upd_gate g (\<lambda>r. r\<lparr>tg_draining := False, tg_forceVerify := tg_forceVerify r \<and> tg_queue r \<noteq> []\<rparr>)
      (releaseTrustedQueueEntry g e s4)"
    have sx: "share_of s4 e = ?x\<lparr>ts_completed := True\<rparr>" using e by (simp add: s4_def s3 s2)
    have fin': "finishShareProcessing banned e a s = drainTrustedQueue banned ?k t"
      using c g by (simp add: fin onQueuedShareProcessed_def Let_def t_def releaseTrustedQueueEntry_def) (simp add: s4_def s3 s2)
    have tt: "tv_gates t = tv_gates s" "tv_fresh t = tv_fresh s" "tv_immediates t = tv_immediates s"
      "trustedQueuedBytes t = trustedQueuedBytes s - ts_retained ?x"
      "tv_shares t = (tv_shares s)[e := ?x\<lparr>ts_completed := True, ts_retained := 0\<rparr>]"
      "tg_queue (tv_heap t h) = tg_queue (tv_heap s h)" "tg_draining (tv_heap t h) = (tg_draining (tv_heap s h) \<and> ts_completion ?x \<noteq> Some h)"
      "tg_inFlight (tv_heap t h) = tg_inFlight (tv_heap s h) - (if ts_started ?x \<and> tv_gates s ?k = Some h then 1 else 0)"
      "tg_queuedBytes (tv_heap t h) \<le> tg_queuedBytes (tv_heap s h)" for h
      using e c g by (auto simp: t_def releaseTrustedQueueEntry_def sx) (auto simp: s4_def s3 s2 split: if_splits)
    have "tv_winv t" by (rule complete_winv(1) [OF inv run tt])
    moreover have "gate_live t k" if "k \<noteq> ?k" for k by (rule complete_winv(2) [OF inv run tt]) (simp add: that)
    ultimately show ?thesis unfolding fin' by (rule drain_inv)
  qed
qed

subsection \<open>The other steps\<close>

lemma arrive_inv: "tv_inv s \<Longrightarrow> tv_inv (s\<lparr>tv_shares := tv_shares s @ [new_share k p]\<rparr>)"
proof -
  assume inv: "tv_inv s"
  let ?s = "s\<lparr>tv_shares := tv_shares s @ [new_share k p]\<rparr>"
  have sh: "share_of ?s i = (if i < length (tv_shares s) then share_of s i else new_share k p)" if "i < length (tv_shares ?s)" for i
    using that by (auto simp: nth_append less_Suc_eq)
  have w: "tv_winv s" using inv by (simp add: tv_inv_def)
  have act: "active ?s k' = active s k'" for k' by (simp add: active_def share_in_flight_def new_share_def)
  have dr: "drained ?s g e = drained s g e" for g e
    by (cases "e < length (tv_shares s)") (auto simp: drained_def nth_append new_share_def less_Suc_eq)
  have wait: "waiting (s\<lparr>tv_shares := xs\<rparr>) e = waiting s e" for xs e by (simp add: waiting_def)
  have "gate_queue_ok ?s k' g \<and> drain_ok ?s g" if "tv_gates s k' = Some g" for k' g
    using w that by (auto simp: tv_winvE_def gate_queue_ok_def drain_ok_def dr nth_append intro: less_SucI)
  moreover have "flight_ok ?s k'" for k' using w act by (simp add: tv_winvE_def flight_ok_def cong: option.case_cong)
  moreover have "gates_inj ?s" using w by (simp add: tv_winvE_def gates_inj_def)
  moreover have "imm_ok ?s" using w by (force simp: tv_winvE_def imm_ok_def nth_append)
  moreover have "comp_ok ?s" using w by (auto simp: tv_winvE_def comp_ok_def nth_append new_share_def)
  moreover have "bytes_ok ?s" using w by (simp add: tv_winvE_def bytes_ok_def new_share_def)
  moreover have "retained_ok {} ?s"
    using w by (auto simp: tv_winvE_def retained_ok_def held_def wait nth_append new_share_def)
  ultimately show ?thesis using inv by (simp add: tv_inv_def tv_winvE_def gate_live_def)
qed

lemma start_inv:
  assumes inv: "tv_inv s" and run: "running s e"
  shows "tv_inv (startAsyncVerification e s)"
proof (cases "ts_started (share_of s e)")
  case True
  with inv show ?thesis by (simp add: startAsyncVerification_def)
next
  case ns: False
  let ?x = "share_of s e" let ?k = "ts_key ?x"
  have e: "e < length (tv_shares s)" "\<not> ts_completed ?x" "e \<notin> fst ` set (tv_immediates s)" "\<not> waiting s e"
    using run by (auto simp: running_def)
  have w: "tv_winv s" using inv by (simp add: tv_inv_def)
  define s1 where "s1 = upd_share e (\<lambda>x. x\<lparr>ts_started := True\<rparr>) s"
  define g where "g = fst (getTrustVerificationGate ?k (ts_payout ?x) s1)"
  define t where "t = startAsyncVerification e s"
  have eq: "t = upd_gate g (\<lambda>r. r\<lparr>tg_inFlight := tg_inFlight r + 1\<rparr>) (snd (getTrustVerificationGate ?k (ts_payout ?x) s1))"
    using ns by (simp add: t_def startAsyncVerification_def s1_def g_def case_prod_beta)
  have gt: "h < tv_fresh s" if "tv_gates s k = Some h" for k h using w that by (auto simp: tv_winvE_def gate_queue_ok_def)
  have inj: "k = k'" if "tv_gates s k = Some h" "tv_gates s k' = Some h" for k k' h
    using w that by (auto simp: tv_winvE_def gates_inj_def)
  have t: "tv_gates t = (tv_gates s)(?k \<mapsto> g)" "tv_immediates t = tv_immediates s" "trustedQueuedBytes t = trustedQueuedBytes s"
    "tv_shares t = (tv_shares s)[e := ?x\<lparr>ts_started := True\<rparr>]" "tv_fresh s \<le> tv_fresh t" "g < tv_fresh t"
    "tv_gates s ?k = None \<Longrightarrow> tv_heap t = (tv_heap s)(g := \<lparr>tg_payout = ts_payout ?x, tg_inFlight = 1, tg_queue = [], tg_draining = False,
       tg_forceVerify = False, tg_queuedBytes = 0\<rparr>) \<and> g = tv_fresh s"
    "tv_gates s ?k = Some h \<Longrightarrow> tv_heap t = (tv_heap s)(h := (tv_heap s h)\<lparr>tg_inFlight := tg_inFlight (tv_heap s h) + 1\<rparr>) \<and> g = h" for h
    using gt by (auto simp: eq g_def getTrustVerificationGate_def s1_def split: option.split)
  have sh: "share_of t i = (if i = e then ?x\<lparr>ts_started := True\<rparr> else share_of s i)" for i using e(1) by (simp add: t(4))
  have len: "length (tv_shares t) = length (tv_shares s)" by (simp add: t(4))
  have act: "active t k = active s k + (if k = ?k then 1 else 0)" for k
    using sum_list_upd [OF e(1), of "share_in_flight k" "?x\<lparr>ts_started := True\<rparr>"] ns e(2) by (auto simp: active_def t(4) share_in_flight_def)
  have dr: "drained t h i = drained s h i" for h i by (auto simp: drained_def t(2) sh len)
  have wait: "waiting t i = waiting s i" for i
  proof (cases "tv_gates s ?k")
    case None
    have "waiting t i \<longleftrightarrow> (\<exists>k h. k \<noteq> ?k \<and> tv_gates s k = Some h \<and> i \<in> set (tg_queue (tv_heap t h)))"
      using t(7) [OF None] None by (auto simp: waiting_def t(1) split: if_splits)
    also have "\<dots> \<longleftrightarrow> (\<exists>k h. k \<noteq> ?k \<and> tv_gates s k = Some h \<and> i \<in> set (tg_queue (tv_heap s h)))"
      using t(7) [OF None] gt by (intro ex_cong1 conj_cong refl) auto
    also have "\<dots> \<longleftrightarrow> waiting s i" using None by (auto simp: waiting_def) (metis option.distinct(1))
    finally show ?thesis .
  next
    case (Some h)
    have "tv_gates t = tv_gates s" using t(8) [OF Some] Some by (auto simp: t(1))
    moreover have "tg_queue (tv_heap t k) = tg_queue (tv_heap s k)" for k using t(8) [OF Some] by simp
    ultimately show ?thesis by (simp add: waiting_def)
  qed
  have none: "\<not> drained s h i" if "\<forall>k. tv_gates s k \<noteq> Some h" for h i
    using w that by (fastforce simp: tv_winvE_def drained_def imm_ok_def comp_ok_def)
  have "gate_queue_ok t k h \<and> drain_ok t h" if k: "tv_gates t k = Some h" for k h
  proof (cases "tv_gates s k = Some h")
    case True
    have "i \<noteq> e" if "i \<in> set (tg_queue (tv_heap s h))" for i using that True e(4) by (auto simp: waiting_def)
    moreover have "tg_queue (tv_heap t h) = tg_queue (tv_heap s h)" "tg_draining (tv_heap t h) = tg_draining (tv_heap s h)"
      using gt [OF True] t(7) t(8) by (cases "tv_gates s ?k"; auto)+
    moreover have "h < tv_fresh t" using gt [OF True] t(5) by simp
    ultimately show ?thesis using w True by (auto simp: tv_winvE_def gate_queue_ok_def drain_ok_def dr sh len t(2))
  next
    case False
    then have new: "tv_gates s ?k = None" "k = ?k" "h = g" using k t(8) by (auto simp: t(1) split: if_splits) (cases "tv_gates s ?k"; auto)
    have "\<not> drained s g i" for i using none gt t(7) [OF new(1)] by blast
    with new t(7) [OF new(1)] t(6) show ?thesis by (auto simp: gate_queue_ok_def drain_ok_def dr)
  qed
  moreover have "flight_ok t k" for k
  proof -
    have f: "flight_ok s k'" for k' using w by (simp add: tv_winvE_def)
    show ?thesis
    proof (cases "k = ?k")
      case True
      with f [of ?k] t(7,8) show ?thesis by (cases "tv_gates s ?k") (auto simp: flight_ok_def act t(1))
    next
      case False
      have "tg_inFlight (tv_heap t h) = tg_inFlight (tv_heap s h)" if "tv_gates s k = Some h" for h
      proof (cases "tv_gates s ?k")
        case None
        with t(7) gt [OF that] show ?thesis by auto
      next
        case (Some h')
        then have "h' \<noteq> h" using inj [of k h ?k] that False by auto
        with t(8) [OF Some] show ?thesis by simp
      qed
      with f [of k] False show ?thesis by (auto simp: flight_ok_def act t(1) split: option.splits)
    qed
  qed
  moreover have "gates_inj t"
  proof (cases "tv_gates s ?k")
    case None
    with t(7) gt w show ?thesis by (fastforce simp: gates_inj_def t(1) tv_winvE_def split: if_splits)
  next
    case (Some h)
    then have "tv_gates t = tv_gates s" using t(8) [OF Some] by (auto simp: t(1))
    with w show ?thesis by (simp add: gates_inj_def tv_winvE_def)
  qed
  moreover have same: "tv_gates t k = Some h" if "tv_gates s k = Some h" for k h using that t(8) by (auto simp: t(1))
  then have "imm_ok t" using w e(3) by (force simp: tv_winvE_def imm_ok_def t(2) len sh)
  moreover have "comp_ok t" using w same by (auto simp: tv_winvE_def comp_ok_def len sh)
  moreover have "bytes_ok t"
  proof -
    have "sum_list (map ts_retained (tv_shares t)) = sum_list (map ts_retained (tv_shares s))"
      using sum_list_upd [OF e(1), of ts_retained "?x\<lparr>ts_started := True\<rparr>"] by (simp add: t(4))
    moreover have "tg_queuedBytes (tv_heap t h) \<le> tg_queuedBytes (tv_heap s h)" for h
      using t(7,8) by (cases "tv_gates s ?k") auto
    then have "tg_queuedBytes (tv_heap t h) \<le> TRUSTED_QUEUE_KEY_MAX_RETAINED_BYTES" for h
      using w by (simp add: tv_winvE_def bytes_ok_def) (meson order_trans)
    ultimately show ?thesis using w by (simp add: tv_winvE_def bytes_ok_def t(3))
  qed
  moreover have "retained_ok {} t" using w by (auto simp: tv_winvE_def retained_ok_def held_def len sh wait t(2))
  ultimately have "tv_winv t" by (simp add: tv_winvE_def)
  moreover have "gate_live t k" for k
  proof -
    have "gate_live s k" using inv by (simp add: tv_inv_def)
    then show ?thesis using t(7,8) by (cases "tv_gates s ?k") (auto simp: gate_live_def t(1))
  qed
  ultimately show ?thesis by (simp add: tv_inv_def t_def)
qed

lemma push_inv:
  assumes inv: "tv_inv s" and run: "running s e" and idle: "\<not> ts_started (share_of s e)" "\<not> ts_isQueued (share_of s e)"
    and g: "tv_gates s (ts_key (share_of s e)) = Some g"
    and fit: "tg_queuedBytes (tv_heap s g) + b \<le> TRUSTED_QUEUE_KEY_MAX_RETAINED_BYTES" "trustedQueuedBytes s + b \<le> TRUSTED_QUEUE_MAX_RETAINED_BYTES"
  shows "tv_inv (upd_share e (\<lambda>x. x\<lparr>ts_retained := b\<rparr>)
     ((upd_gate g (\<lambda>r. r\<lparr>tg_queuedBytes := tg_queuedBytes r + b, tg_queue := tg_queue r @ [e]\<rparr>) s)
        \<lparr>trustedQueuedBytes := trustedQueuedBytes s + b\<rparr>))" (is "tv_inv ?t")
proof -
  let ?x = "share_of s e" let ?k = "ts_key ?x"
  have e: "e < length (tv_shares s)" "\<not> ts_completed ?x" "e \<notin> fst ` set (tv_immediates s)" "\<not> waiting s e"
    using run by (auto simp: running_def)
  have w: "tv_winv s" using inv by (simp add: tv_inv_def)
  have c: "ts_completion ?x = None" using w e(1) idle(2) by (auto simp: tv_winvE_def comp_ok_def)
  have r0: "ts_retained ?x = 0" using running_retained [OF inv run c] .
  obtain t where t: "t = ?t" by simp
  have tt: "tv_gates t = tv_gates s" "tv_fresh t = tv_fresh s" "tv_immediates t = tv_immediates s"
    "trustedQueuedBytes t = trustedQueuedBytes s + b" "tv_shares t = (tv_shares s)[e := ?x\<lparr>ts_retained := b\<rparr>]"
    "tg_queue (tv_heap t h) = tg_queue (tv_heap s h) @ (if h = g then [e] else [])"
    "tg_draining (tv_heap t h) = tg_draining (tv_heap s h)" "tg_inFlight (tv_heap t h) = tg_inFlight (tv_heap s h)"
    "tg_queuedBytes (tv_heap t h) = tg_queuedBytes (tv_heap s h) + (if h = g then b else 0)" for h
    by (simp_all add: t)
  have sh: "share_of t i = (if i = e then ?x\<lparr>ts_retained := b\<rparr> else share_of s i)" for i using e(1) by (simp add: tt(5))
  have len: "length (tv_shares t) = length (tv_shares s)" by (simp add: tt(5))
  have act: "active t k = active s k" for k
    using sum_list_upd [OF e(1), of "share_in_flight k" "?x\<lparr>ts_retained := b\<rparr>"] by (simp add: active_def tt(5) share_in_flight_def)
  have dr: "drained t h i = drained s h i" for h i by (auto simp: drained_def tt(3) sh len)
  have wait: "waiting s i \<or> i = e \<Longrightarrow> waiting t i" for i
    using g by (auto simp: waiting_def tt(1,6))
  have inj: "k = ?k" if "tv_gates s k = Some g" for k using w that g by (auto simp: tv_winvE_def gates_inj_def)
  have fw: "fresh_waiter (?x\<lparr>ts_retained := b\<rparr>)" using idle e c by (simp add: fresh_waiter_def)
  have "gate_queue_ok t k h \<and> drain_ok t h" if k: "tv_gates s k = Some h" for k h
  proof
    note q = queued_share [OF w k]
    have ne: "i \<noteq> e" if "i \<in> set (tg_queue (tv_heap s h))" for i using that k e(4) by (auto simp: waiting_def)
    have "i < length (tv_shares t) \<and> ts_key (share_of t i) = k \<and> fresh_waiter (share_of t i) \<and> i \<notin> fst ` set (tv_immediates t)"
      if "i \<in> set (tg_queue (tv_heap t h))" for i
    proof (cases "i = e")
      case True
      with ne that k inj have "k = ?k" by (auto simp: tt(6) split: if_splits)
      with True e fw show ?thesis by (simp add: len sh tt(3))
    next
      case False
      with that have "i \<in> set (tg_queue (tv_heap s h))" by (auto simp: tt(6) split: if_splits)
      with q(1) [OF this] False show ?thesis by (simp add: len sh tt(3))
    qed
    moreover have "distinct (tg_queue (tv_heap t h))" using q(2) ne by (auto simp: tt(6))
    moreover have "h < tv_fresh t" using w k by (simp add: tv_winvE_def gate_queue_ok_def tt(2))
    ultimately show "gate_queue_ok t k h" by (simp add: gate_queue_ok_def)
    show "drain_ok t h" using w k by (simp add: tv_winvE_def drain_ok_def dr tt(7))
  qed
  moreover have "flight_ok t k" for k using w by (simp add: tv_winvE_def flight_ok_def act tt(1,8) cong: option.case_cong)
  moreover have "gates_inj t" using w by (simp add: tv_winvE_def gates_inj_def tt(1))
  moreover have "imm_ok t" using w e(3) by (force simp: tv_winvE_def imm_ok_def tt(1,3) len sh)
  moreover have "comp_ok t" using w by (auto simp: tv_winvE_def comp_ok_def tt(1) len sh)
  moreover have "bytes_ok t"
  proof -
    have "sum_list (map ts_retained (tv_shares t)) = sum_list (map ts_retained (tv_shares s)) + b"
      using sum_list_upd [OF e(1), of ts_retained "?x\<lparr>ts_retained := b\<rparr>"] r0 by (simp add: tt(5))
    with w fit show ?thesis by (auto simp: tv_winvE_def bytes_ok_def tt(4,9))
  qed
  moreover have "retained_ok {} t" using w wait by (auto simp: tv_winvE_def retained_ok_def held_def len sh tt(3) split: if_splits)
  ultimately have "tv_winv t" by (simp add: tv_winvE_def tt(1))
  moreover have "gate_live t k" for k using inv by (simp add: tv_inv_def gate_live_def tt(1,7,8))
  ultimately show ?thesis by (simp add: tv_inv_def t)
qed

lemma ask_inv:
  assumes inv: "tv_inv s" and run: "running s e" and ns: "\<not> ts_started (share_of s e)"
  shows "tv_inv (snd (tryTrustedShare banned limit trusted b e s))"
proof (cases "ts_force (share_of s e) \<or> \<not> trusted \<or> ts_isQueued (share_of s e) \<or> tv_gates s (ts_key (share_of s e)) = None")
  case True
  with inv show ?thesis by (auto simp: tryTrustedShare_def split: option.split)
next
  case False
  then obtain g where g: "tv_gates s (ts_key (share_of s e)) = Some g" by auto
  have "tv_inv (enqueueTrustedShare banned limit b e s)"
    using g finish_inv [OF inv run] push_inv [OF inv run ns _ g, of b] False
    by (simp add: enqueueTrustedShare_def getTrustVerificationGate_def Let_def)
  with inv False show ?thesis by (auto simp: tryTrustedShare_def)
qed

lemma immediate_inv:
  assumes inv: "tv_inv s" and im: "tv_immediates s = (e, f, g) # rest"
  shows "tv_inv (runEntry e f g (s\<lparr>tv_immediates := rest\<rparr>))"
proof -
  let ?x = "share_of s e"
  have w: "tv_winv s" using inv by (simp add: tv_inv_def)
  then have e: "e < length (tv_shares s)" "fresh_waiter ?x" "tv_gates s (ts_key ?x) = Some g" "e \<notin> fst ` set rest"
    using im by (auto simp: tv_winvE_def imm_ok_def)
  define x' where "x' = ?x\<lparr>ts_force := f, ts_isQueued := True, ts_completion := Some g\<rparr>"
  define t where "t = runEntry e f g (s\<lparr>tv_immediates := rest\<rparr>)"
  have tt: "tv_gates t = tv_gates s" "tv_fresh t = tv_fresh s" "tv_immediates t = rest" "trustedQueuedBytes t = trustedQueuedBytes s"
    "tv_shares t = (tv_shares s)[e := x']" "tv_heap t = tv_heap s"
    by (simp_all add: t_def runEntry_def x'_def)
  have x': "ts_key x' = ts_key ?x" "ts_started x' = ts_started ?x" "ts_completed x' = ts_completed ?x" "ts_retained x' = ts_retained ?x"
    "ts_completion x' = Some g" "ts_isQueued x'" by (simp_all add: x'_def)
  have sh: "share_of t i = (if i = e then x' else share_of s i)" for i using e(1) by (simp add: tt(5))
  have len: "length (tv_shares t) = length (tv_shares s)" by (simp add: tt(5))
  have act: "active t k = active s k" for k
    using sum_list_upd [OF e(1), of "share_in_flight k" x'] by (simp add: active_def tt(5) share_in_flight_def x')
  have dr: "drained t h i = drained s h i" for h i
    using e by (auto simp: drained_def tt(3) sh len im x' fresh_waiter_def)
  have wait: "waiting t i = waiting s i" for i by (simp add: waiting_def tt)
  have "gate_queue_ok t k h \<and> drain_ok t h" if k: "tv_gates s k = Some h" for k h
  proof
    note q = queued_share [OF w k]
    have "i < length (tv_shares t) \<and> ts_key (share_of t i) = k \<and> fresh_waiter (share_of t i) \<and> i \<notin> fst ` set (tv_immediates t)"
      if "i \<in> set (tg_queue (tv_heap s h))" for i
      using q(1) [OF that] im by (auto simp: sh len tt(3))
    with q(2) w k show "gate_queue_ok t k h" by (simp add: gate_queue_ok_def tt tv_winvE_def)
    show "drain_ok t h" using w k by (simp add: tv_winvE_def drain_ok_def dr tt)
  qed
  moreover have "flight_ok t k" for k using w by (simp add: tv_winvE_def flight_ok_def act tt cong: option.case_cong)
  moreover have "gates_inj t" using w by (simp add: tv_winvE_def gates_inj_def tt)
  moreover have "imm_ok t"
    unfolding imm_ok_def
  proof (intro conjI ballI; clarify?)
    show "distinct (map fst (tv_immediates t))" using w im by (simp add: tv_winvE_def imm_ok_def tt)
    fix i f' h assume i: "(i, f', h) \<in> set (tv_immediates t)"
    then have "i \<noteq> e" using e(4) by (force simp: tt)
    moreover have "(i, f', h) \<in> set (tv_immediates s)" using i im by (simp add: tt)
    ultimately show "i < length (tv_shares t) \<and> fresh_waiter (share_of t i) \<and> tv_gates t (ts_key (share_of t i)) = Some h"
      using w by (auto simp: tv_winvE_def imm_ok_def sh len tt(1))
  qed
  moreover have "comp_ok t" using w e(3) by (auto simp: tv_winvE_def comp_ok_def tt(1) len sh x')
  moreover have "bytes_ok t"
    using w sum_list_upd [OF e(1), of ts_retained x'] by (simp add: tv_winvE_def bytes_ok_def tt x')
  moreover have "retained_ok {} t"
    using w e(2) im by (auto simp: tv_winvE_def retained_ok_def held_def len sh wait tt(3) x' fresh_waiter_def)
  ultimately have "tv_winv t" by (simp add: tv_winvE_def tt)
  then show ?thesis using inv by (simp add: tv_inv_def gate_live_def tt t_def [symmetric])
qed

lemma init_inv: "tv_inv tv_init"
  by (simp add: tv_inv_def tv_winvE_def tv_defs gate_live_def tv_init_def active_def)

lemma finish_again: "ts_completed (share_of s e) \<Longrightarrow> finishShareProcessing banned e a s = s"
  by (simp add: finishShareProcessing_def Let_def)

lemma tv_step_inv: "tv_step s s' \<Longrightarrow> tv_inv s \<Longrightarrow> tv_inv s'"
proof (induction rule: tv_step.induct)
  case (trust s w)
  then show ?case by (subst tv_winv_cong(3) [of _ s]) simp_all
qed (simp_all add: arrive_inv start_inv ask_inv finish_inv finish_again immediate_inv)

lemma tv_reach_inv: "tv_reach s \<Longrightarrow> tv_inv s"
  by (induction rule: tv_reach.induct) (auto simp: init_inv intro: tv_step_inv)

end
