(* ===== verification/Trust_Properties.thy ===== *)
theory Trust_Properties
  imports Trust_Safety
begin

text \<open>
  What the gates of trusted shares promise: every share gets exactly one answer, no share waits
  without a check or a resumed share ahead of it, the memory they hold is bounded, and after a
  failed check nothing that waited is accepted without a check of its own.
\<close>

subsection \<open>One answer for every share\<close>

definition calls_ok :: "nat set \<Rightarrow> tv_state \<Rightarrow> bool" where
  "calls_ok X s \<longleftrightarrow>
     (\<forall>g. \<forall>e \<in> set (tg_queue (tv_heap s g)). e < length (tv_shares s)) \<and>
     (\<forall>e. count_list (map fst (tv_calls s)) e = (if e < length (tv_shares s) \<and> ts_completed (share_of s e) \<and> e \<notin> X then 1 else 0))"

lemma calls_cancelEntries:
  "calls_ok X s \<Longrightarrow> (\<And>e. e \<in> set es \<Longrightarrow> e < length (tv_shares s)) \<Longrightarrow> (\<And>e. e \<in> X \<Longrightarrow> e < length (tv_shares s) \<and> ts_completed (share_of s e)) \<Longrightarrow>
     calls_ok X (cancelEntries g es s)"
proof (induction g es s rule: cancelEntries.induct)
  case (2 g e es s)
  let ?t = "cancelShare e (releaseTrustedQueueEntry g e s)"
  have e: "e < length (tv_shares s)" using "2.prems"(2) by simp
  have len: "length (tv_shares ?t) = length (tv_shares s)" by (simp add: cancelShare_def releaseTrustedQueueEntry_def)
  have sh: "ts_completed (share_of ?t i) = (ts_completed (share_of s i) \<or> i = e)" for i
    using e by (cases "i = e") (simp_all add: cancelShare_def releaseTrustedQueueEntry_def)
  have calls: "tv_calls ?t = (if ts_completed (share_of s e) then tv_calls s else tv_calls s @ [(e, None)])"
    using e by (simp add: cancelShare_def releaseTrustedQueueEntry_def)
  have heap: "tg_queue (tv_heap ?t h) = tg_queue (tv_heap s h)" for h by (simp add: cancelShare_def releaseTrustedQueueEntry_def)
  have "calls_ok X ?t"
    using "2.prems"(1) "2.prems"(3) e by (auto simp: calls_ok_def len sh calls heap)
  then have "calls_ok X (cancelEntries g es ?t)"
    using "2.IH" "2.prems"(2,3) by (simp add: len sh)
  then show ?case by simp
qed simp

lemma calls_drain:
  assumes "calls_ok X s" and "\<And>e. e \<in> X \<Longrightarrow> e < length (tv_shares s) \<and> ts_completed (share_of s e)"
  shows "calls_ok X (drainTrustedQueue banned k s)"
proof (cases "tv_gates s k")
  case (Some g)
  have "calls_ok X (dropTrustedQueue k g s)"
    unfolding dropTrustedQueue_def
    using assms by (intro calls_cancelEntries) (auto simp: calls_ok_def)
  moreover have "calls_ok X (s\<lparr>tv_gates := (tv_gates s)(k := None)\<rparr>)" using assms(1) by (simp add: calls_ok_def)
  moreover have "calls_ok X ((upd_gate g (\<lambda>r. r\<lparr>tg_queue := q, tg_draining := True\<rparr>) s)\<lparr>tv_immediates := i\<rparr>)"
    if "tg_queue (tv_heap s g) = e # q" for e q i
  proof -
    have "e \<in> set q \<Longrightarrow> e < length (tv_shares s)" for e using assms(1) that by (auto simp: calls_ok_def dest!: spec [of _ g])
    with assms(1) show ?thesis by (auto simp: calls_ok_def)
  qed
  ultimately show ?thesis using assms(1) Some by (auto simp: drainTrustedQueue_def Let_def split: list.split)
qed (use assms in \<open>simp add: drainTrustedQueue_def\<close>)

text \<open>The shares change only in their flags, and completed shares stay completed.\<close>

lemma cancelEntries_mono:
  "length (tv_shares (cancelEntries g es s)) = length (tv_shares s) \<and>
     (\<forall>e. ts_completed (share_of s e) \<longrightarrow> ts_completed (share_of (cancelEntries g es s) e))"
proof (induction g es s rule: cancelEntries.induct)
  case (2 g e es s)
  have "length (tv_shares (cancelShare e (releaseTrustedQueueEntry g e s))) = length (tv_shares s)"
    by (simp add: cancelShare_def releaseTrustedQueueEntry_def)
  moreover have "ts_completed (share_of (cancelShare e (releaseTrustedQueueEntry g e s)) i)" if "ts_completed (share_of s i)" for i
    using that by (cases "i = e"; cases "e < length (tv_shares s)") (auto simp: cancelShare_def releaseTrustedQueueEntry_def list_update_beyond)
  ultimately show ?case using 2 by simp
qed simp

lemma drain_mono:
  "length (tv_shares (drainTrustedQueue banned k s)) = length (tv_shares s)"
  "ts_completed (share_of s e) \<Longrightarrow> ts_completed (share_of (drainTrustedQueue banned k s) e)"
  using cancelEntries_mono by (auto simp: drainTrustedQueue_def dropTrustedQueue_def Let_def split: option.split list.split)

lemma calls_finish:
  assumes ok: "calls_ok {} s" and run: "running s e"
  shows "calls_ok {} (finishShareProcessing banned e a s)"
proof -
  let ?x = "share_of s e" let ?k = "ts_key ?x"
  have e: "e < length (tv_shares s)" "\<not> ts_completed ?x" using run by (auto simp: running_def)
  define s1 where "s1 = upd_share e (\<lambda>x. x\<lparr>ts_completed := True\<rparr>) s"
  define s2 where "s2 = (if ts_started ?x \<and> a = None \<or> a = Some False \<and> hasQueuedGeneration ?k s1
    then markTrustVerificationFailed (ts_payout ?x) ?k s1 else s1)"
  define s3 where "s3 = (if ts_started ?x then finishTrustVerification banned ?k s2 else s2)"
  define s4 where "s4 = s3\<lparr>tv_calls := tv_calls s3 @ [(e, a)]\<rparr>"
  have fin: "finishShareProcessing banned e a s =
      (case ts_completion ?x of Some g \<Rightarrow> onQueuedShareProcessed banned ?k g e s4 | None \<Rightarrow> s4)"
    unfolding finishShareProcessing_def Let_def s1_def [symmetric] s2_def [symmetric] s3_def [symmetric] s4_def [symmetric]
    using e(2) by simp
  have "calls_ok {e} s1" using ok e by (auto simp: calls_ok_def s1_def nth_list_update)
  then have c2: "calls_ok {e} s2" by (simp add: calls_ok_def s2_def)
  have x2: "e < length (tv_shares s2) \<and> ts_completed (share_of s2 e)" using e by (simp add: s2_def s1_def)
  define s2' where "s2' = (case tv_gates s2 ?k of Some g \<Rightarrow> upd_gate g (\<lambda>r. r\<lparr>tg_inFlight := tg_inFlight r - 1\<rparr>) s2 | None \<Rightarrow> s2)"
  have c2': "calls_ok {e} s2'" and x2': "e < length (tv_shares s2') \<and> ts_completed (share_of s2' e)"
    using c2 x2 by (auto simp: s2'_def calls_ok_def split: option.split)
  have "calls_ok {e} s3 \<and> e < length (tv_shares s3) \<and> ts_completed (share_of s3 e)"
    using c2 x2 calls_drain [OF c2', of banned ?k] x2' drain_mono(1) [of banned ?k s2'] drain_mono(2) [of s2' e banned ?k]
    by (simp add: s3_def finishTrustVerification_def s2'_def [symmetric])
  then have c4: "calls_ok {} s4" by (auto simp: s4_def calls_ok_def)
  have "calls_ok {} (onQueuedShareProcessed banned ?k g e s4)" for g
  proof -
    have rel: "calls_ok {} (releaseTrustedQueueEntry g e s4)"
      using c4 by (cases "e < length (tv_shares s4)") (auto simp: calls_ok_def releaseTrustedQueueEntry_def nth_list_update)
    then have "calls_ok {} (upd_gate g (\<lambda>r. r\<lparr>tg_draining := False, tg_forceVerify := tg_forceVerify r \<and> tg_queue r \<noteq> []\<rparr>) (releaseTrustedQueueEntry g e s4))"
      by (auto simp: calls_ok_def)
    from calls_drain [OF this] rel show ?thesis by (simp add: onQueuedShareProcessed_def Let_def)
  qed
  with c4 show ?thesis by (simp add: fin split: option.split)
qed

lemma calls_step: "tv_step s s' \<Longrightarrow> calls_ok {} s \<Longrightarrow> calls_ok {} s'"
proof (induction rule: tv_step.induct)
  case (arrive s k p)
  then show ?case by (auto simp: calls_ok_def nth_append new_share_def less_Suc_eq intro: less_SucI)
next
  case (ask s e banned limit trusted b)
  have e: "e < length (tv_shares s)" using ask by (simp add: running_def)
  have "calls_ok {} (enqueueTrustedShare banned limit b e s)" if g: "tv_gates s (ts_key (share_of s e)) = Some g" for g
    using g ask e calls_finish [of s e banned None]
    by (auto simp: enqueueTrustedShare_def getTrustVerificationGate_def Let_def calls_ok_def nth_list_update)
  with ask show ?case by (auto simp: tryTrustedShare_def split: option.split)
next
  case (start s e)
  then show ?case
    by (auto simp: startAsyncVerification_def getTrustVerificationGate_def Let_def calls_ok_def nth_list_update running_def split: option.split)
next
  case (complete s e banned a)
  then show ?case by (simp add: calls_finish)
next
  case (call_again e s banned a)
  then show ?case by (simp add: finish_again)
next
  case (immediate s e f g rest)
  then show ?case by (cases "e < length (tv_shares s)") (auto simp: calls_ok_def runEntry_def nth_list_update)
next
  case (trust s w)
  then show ?case by (simp add: calls_ok_def)
qed

text \<open>
  C23. Every share is answered at most once, and exactly once when it has completed: the calls of
  the protocol's callback of a share that has been resumed, cancelled, refused or verified, in any
  order of arrivals, checks, runs of the queue and bans, number one if the share has completed and
  none otherwise, however often and with whatever results the wrapped callback is called again.
\<close>

theorem every_share_answered_once:
  assumes "tv_reach s" and "e < length (tv_shares s)"
  shows "count_list (map fst (tv_calls s)) e = (if ts_completed (share_of s e) then 1 else 0)"
proof -
  have "calls_ok {} s" using assms(1)
  proof (induction rule: tv_reach.induct)
    case init
    then show ?case by (simp add: calls_ok_def tv_init_def)
  next
    case (step s s')
    then show ?case by (blast intro: calls_step)
  qed
  with assms(2) show ?thesis by (simp add: calls_ok_def)
qed

text \<open>
  C24. No share waits for ever: in every reachable state in which no share is being processed and
  no run is scheduled, every share that has arrived has been answered, no gate is left and no
  byte is retained.
\<close>

theorem no_share_waits_forever:
  assumes "tv_reach s" and "tv_immediates s = []" and "\<And>e. \<not> running s e"
  shows "(\<forall>x \<in> set (tv_shares s). ts_completed x) \<and> trustedQueuedBytes s = 0 \<and> tv_gates s = (\<lambda>_. None)"
proof -
  have inv: "tv_inv s" using assms(1) by (rule tv_reach_inv)
  then have w: "tv_winv s" and live: "gate_live s k" for k by (auto simp: tv_inv_def)
  have wait: "waiting s e" if "e < length (tv_shares s)" "\<not> ts_completed (share_of s e)" for e
    using assms(2) assms(3) [of e] that by (auto simp: running_def)
  have fw: "fresh_waiter (share_of s e)" if "waiting s e" for e
    using that queued_share(1) [OF w] by (auto simp: waiting_def)
  have none: "tv_gates s k = None" for k
  proof (rule ccontr)
    assume "tv_gates s k \<noteq> None"
    then obtain g where g: "tv_gates s k = Some g" by auto
    with live [of k] consider "tg_inFlight (tv_heap s g) \<noteq> 0" | "tg_draining (tv_heap s g)" by (auto simp: gate_live_def)
    then show False
    proof cases
      case 1
      have "flight_ok s k" using w by (simp add: tv_winvE_def)
      with 1 g have "0 < active s k" by (simp add: flight_ok_def)
      then obtain e where "e < length (tv_shares s)" "ts_started (share_of s e)" "\<not> ts_completed (share_of s e)" by (auto dest: active_pos)
      with wait fw show False by (auto simp: fresh_waiter_def)
    next
      case 2
      with w g obtain e where "drained s g e" by (auto simp: tv_winvE_def drain_ok_def)
      with assms(2) have "e < length (tv_shares s)" "ts_completion (share_of s e) = Some g" "\<not> ts_completed (share_of s e)" by (auto simp: drained_def)
      with wait fw show False by (force simp: fresh_waiter_def)
    qed
  qed
  then have nw: "\<not> waiting s e" for e by (simp add: waiting_def)
  then have all: "ts_completed (share_of s e)" if "e < length (tv_shares s)" for e using wait that by blast
  have "ts_retained (share_of s e) = 0" if "e < length (tv_shares s)" for e
    using w that nw all [OF that] assms(2) by (auto simp: tv_winvE_def retained_ok_def held_def)
  then have "sum_list (map ts_retained (tv_shares s)) = 0" by (auto simp: sum_list_eq_0_iff in_set_conv_nth)
  with w have "trustedQueuedBytes s = 0" by (simp add: tv_winvE_def bytes_ok_def)
  with all none show ?thesis by (auto simp: in_set_conv_nth)
qed

text \<open>
  The memory held by waiting proofs is bounded and accounted for: in every reachable state the
  counter is the sum of what the shares retain, shares that have been answered retain nothing, no
  gate is charged more than 16 MiB and all of them at most 32 MiB.
\<close>

theorem retained_bytes_bounded:
  assumes "tv_reach s"
  shows "trustedQueuedBytes s = sum_list (map ts_retained (tv_shares s)) \<and> trustedQueuedBytes s \<le> 32 * 2 ^ 20 \<and>
    tg_queuedBytes (tv_heap s g) \<le> 16 * 2 ^ 20 \<and>
    list_all (\<lambda>x. \<not> ts_completed x \<or> ts_retained x = 0) (tv_shares s)"
proof -
  have inv: "tv_inv s" using assms by (rule tv_reach_inv)
  then have w: "tv_winv s" by (simp add: tv_inv_def)
  have "ts_retained (share_of s e) = 0" if e: "e < length (tv_shares s)" "ts_completed (share_of s e)" for e
  proof -
    have "\<not> waiting s e" using e queued_share(1) [OF w] by (auto simp: waiting_def fresh_waiter_def)
    moreover have "e \<notin> fst ` set (tv_immediates s)" using w e by (force simp: tv_winvE_def imm_ok_def fresh_waiter_def)
    ultimately show ?thesis using w e by (auto simp: tv_winvE_def retained_ok_def held_def)
  qed
  then have "list_all (\<lambda>x. \<not> ts_completed x \<or> ts_retained x = 0) (tv_shares s)" by (auto simp: list_all_length)
  with w show ?thesis
    by (simp add: tv_winvE_def bytes_ok_def TRUSTED_QUEUE_MAX_RETAINED_BYTES_def TRUSTED_QUEUE_KEY_MAX_RETAINED_BYTES_def)
qed

subsection \<open>A failed check\<close>

text \<open>From here on the share \<open>e\<close> is only run with the order to verify it.\<close>

definition condemned :: "nat \<Rightarrow> tv_state \<Rightarrow> bool" where
  "condemned e s \<longleftrightarrow> e < length (tv_shares s) \<and>
     (\<forall>k g. tv_gates s k = Some g \<longrightarrow> e \<in> set (tg_queue (tv_heap s g)) \<longrightarrow> tg_forceVerify (tv_heap s g)) \<and>
     (\<forall>f g. (e, f, g) \<in> set (tv_immediates s) \<longrightarrow> f) \<and> (running s e \<longrightarrow> ts_force (share_of s e))"

lemma condemned_shrink:
  assumes "condemned e s" and "tv_immediates t = tv_immediates s" and "tv_gates t = tv_gates s" and "length (tv_shares t) = length (tv_shares s)"
    and "\<And>k g. tv_gates s k = Some g \<Longrightarrow> e \<in> set (tg_queue (tv_heap t g)) \<longleftrightarrow> e \<in> set (tg_queue (tv_heap s g))"
    and "\<And>k g. tv_gates s k = Some g \<Longrightarrow> e \<in> set (tg_queue (tv_heap s g)) \<Longrightarrow> tg_forceVerify (tv_heap s g) \<Longrightarrow> tg_forceVerify (tv_heap t g)"
    and "ts_completed (share_of s e) \<Longrightarrow> ts_completed (share_of t e)" and "ts_force (share_of t e) = ts_force (share_of s e)"
  shows "condemned e t"
  using assms unfolding condemned_def running_def waiting_def by metis

lemma condemned_share:
  "condemned e s \<Longrightarrow> (ts_completed (share_of s i) \<longrightarrow> ts_completed (f (share_of s i))) \<Longrightarrow> ts_force (f (share_of s i)) = ts_force (share_of s i) \<Longrightarrow>
     condemned e (upd_share i f s)"
proof -
  assume c: "condemned e s" and f: "ts_completed (share_of s i) \<longrightarrow> ts_completed (f (share_of s i))" "ts_force (f (share_of s i)) = ts_force (share_of s i)"
  have len: "length (tv_shares (upd_share i f s)) = length (tv_shares s)" by simp
  have sh: "share_of (upd_share i f s) e = (if i = e \<and> i < length (tv_shares s) then f (share_of s i) else share_of s e)"
    by (cases "i < length (tv_shares s)") (auto simp: list_update_beyond)
  show "condemned e (upd_share i f s)"
    by (rule condemned_shrink [OF c]) (use f in \<open>auto simp: sh len simp del: upd_share_sel(7)\<close>)
qed

lemma condemned_release: "condemned e s \<Longrightarrow> condemned e (releaseTrustedQueueEntry g i s)"
proof -
  assume c: "condemned e s"
  let ?t = "(upd_gate g (\<lambda>r. r\<lparr>tg_queuedBytes := tg_queuedBytes r - ts_retained (share_of s i)\<rparr>) s)
      \<lparr>trustedQueuedBytes := trustedQueuedBytes s - ts_retained (share_of s i)\<rparr>"
  have "condemned e ?t" by (rule condemned_shrink [OF c]) (auto split: if_splits)
  then show ?thesis unfolding releaseTrustedQueueEntry_def by (rule condemned_share) simp_all
qed

lemma condemned_cancelEntries:
  "(\<And>k h. tv_gates s k = Some h \<Longrightarrow> e \<in> set (tg_queue (tv_heap s h)) \<Longrightarrow> tg_forceVerify (tv_heap s h)) \<Longrightarrow>
     (\<And>f h. (e, f, h) \<in> set (tv_immediates s) \<Longrightarrow> f) \<Longrightarrow> e < length (tv_shares s) \<Longrightarrow>
     (running s e \<Longrightarrow> e \<notin> set es \<Longrightarrow> ts_force (share_of s e)) \<Longrightarrow> condemned e (cancelEntries g es s)"
proof (induction g es s rule: cancelEntries.induct)
  case (1 g s)
  then show ?case unfolding condemned_def by (metis cancelEntries.simps(1) empty_iff empty_set)
next
  case (2 g i es s)
  let ?t = "cancelShare i (releaseTrustedQueueEntry g i s)"
  have t: "tv_gates ?t = tv_gates s" "tv_immediates ?t = tv_immediates s" "length (tv_shares ?t) = length (tv_shares s)"
    "tg_queue (tv_heap ?t h) = tg_queue (tv_heap s h)" "tg_forceVerify (tv_heap ?t h) = tg_forceVerify (tv_heap s h)" for h
    by (simp_all add: cancelShare_def releaseTrustedQueueEntry_def)
  have sh: "ts_force (share_of ?t e) = ts_force (share_of s e)" "ts_completed (share_of ?t e) = (ts_completed (share_of s e) \<or> i = e)"
    using "2.prems"(3) by (cases "i = e"; simp add: cancelShare_def releaseTrustedQueueEntry_def)+
  have w: "waiting ?t x = waiting s x" for x by (simp add: waiting_def t)
  have "condemned e (cancelEntries g es ?t)"
    by (rule "2.IH") (use "2.prems" in \<open>auto simp: t sh running_def w\<close>)
  then show ?case by simp
qed

lemma condemned_drain:
  assumes c: "condemned e s"
  shows "condemned e (drainTrustedQueue banned k s)"
proof (cases "tv_gates s k")
  case (Some g)
  have "condemned e (dropTrustedQueue k g s)"
    unfolding dropTrustedQueue_def
  proof (rule condemned_cancelEntries)
    let ?t = "upd_gate g (\<lambda>r. r\<lparr>tg_queue := []\<rparr>) (s\<lparr>tv_gates := (tv_gates s)(k := None)\<rparr>)"
    assume r: "running ?t e" "e \<notin> set (tg_queue (tv_heap s g))"
    then have "\<not> waiting s e \<or> (\<exists>k' . k' \<noteq> k \<and> tv_gates s k' = Some g)" 
      using Some by (auto simp: running_def waiting_def split: if_splits) (metis option.inject)
    with r Some have "running s e" by (auto simp: running_def waiting_def split: if_splits) (metis option.inject)
    with c show "ts_force (share_of ?t e)" by (simp add: condemned_def)
  qed (use c in \<open>auto simp: condemned_def split: if_splits\<close>)
  moreover have "condemned e (s\<lparr>tv_gates := (tv_gates s)(k := None)\<rparr>)" if "tg_queue (tv_heap s g) = []"
  proof -
    have "waiting (s\<lparr>tv_gates := (tv_gates s)(k := None)\<rparr>) e = waiting s e"
      using that Some by (auto simp: waiting_def) (metis empty_iff empty_set option.inject)
    with c show ?thesis by (auto simp: condemned_def running_def)
  qed
  moreover have "condemned e ((upd_gate g (\<lambda>r. r\<lparr>tg_queue := q, tg_draining := True\<rparr>) s)
      \<lparr>tv_immediates := tv_immediates s @ [(i, tg_forceVerify (tv_heap s g), g)]\<rparr>)" (is "condemned e ?t") if q: "tg_queue (tv_heap s g) = i # q" for i q
  proof -
    have "waiting s e \<Longrightarrow> e \<noteq> i \<Longrightarrow> waiting ?t e" using q by (fastforce simp: waiting_def)
    then have "running ?t e \<Longrightarrow> running s e" by (auto simp: running_def)
    moreover have "tg_forceVerify (tv_heap s g)" if "i = e" using c q that Some by (auto simp: condemned_def)
    ultimately show ?thesis using c q by (auto simp: condemned_def split: if_splits)
  qed
  ultimately show ?thesis using c Some by (auto simp: drainTrustedQueue_def Let_def split: list.split)
qed (use c in \<open>simp add: drainTrustedQueue_def\<close>)

lemma condemned_mark: "condemned e s \<Longrightarrow> condemned e (markTrustVerificationFailed p k s)"
  by (rule condemned_shrink [of e s]) (auto simp: markTrustVerificationFailed_def Let_def split: option.split)

lemma condemned_cong:
  "tv_gates t = tv_gates s \<Longrightarrow> tv_heap t = tv_heap s \<Longrightarrow> tv_immediates t = tv_immediates s \<Longrightarrow> tv_shares t = tv_shares s \<Longrightarrow>
     condemned e t = condemned e s"
  by (simp add: condemned_def running_def waiting_def)

lemma condemned_flight: "condemned e s \<Longrightarrow> condemned e (finishTrustVerification banned k s)"
  unfolding finishTrustVerification_def
  by (rule condemned_drain) (auto intro!: condemned_shrink [of e s] split: option.split if_splits)

lemma condemned_processed: "condemned e s \<Longrightarrow> condemned e (onQueuedShareProcessed banned k g i s)"
proof -
  assume c: "condemned e s"
  let ?r = "releaseTrustedQueueEntry g i s"
  have r: "condemned e ?r" using c by (rule condemned_release)
  have "condemned e (upd_gate g (\<lambda>r. r\<lparr>tg_draining := False, tg_forceVerify := tg_forceVerify r \<and> tg_queue r \<noteq> []\<rparr>) ?r)"
    by (rule condemned_shrink [OF r]) auto
  from condemned_drain [OF this] r show ?thesis by (simp add: onQueuedShareProcessed_def Let_def)
qed

text \<open>What follows the marking in \<open>finishShareProcessing\<close>.\<close>

lemma condemned_finish_rest:
  assumes "condemned e s2"
    and "s3 = (if st then finishTrustVerification banned k s2 else s2)" and "s4 = s3\<lparr>tv_calls := l\<rparr>"
  shows "condemned e (case co of Some g \<Rightarrow> onQueuedShareProcessed banned k g i s4 | None \<Rightarrow> s4)"
proof -
  have "condemned e s3" using assms(1,2) by (simp add: condemned_flight)
  then have "condemned e s4" using condemned_cong [of s4 s3 e] assms(3) by simp
  then show ?thesis by (simp add: condemned_processed split: option.split)
qed

lemma condemned_finish:
  assumes c: "condemned e s"
  shows "condemned e (finishShareProcessing banned i a s)"
proof (cases "ts_completed (share_of s i)")
  case True
  then show ?thesis using c by (simp add: finishShareProcessing_def Let_def)
next
  case False
  let ?s1 = "upd_share i (\<lambda>x. x\<lparr>ts_completed := True\<rparr>) s"
  have "condemned e ?s1" by (rule condemned_share [OF c]) simp_all
  then have c2: "condemned e (if b then markTrustVerificationFailed p k ?s1 else ?s1)" for b p k by (simp add: condemned_mark)
  show ?thesis
    unfolding finishShareProcessing_def Let_def if_not_P [OF False] by (rule condemned_finish_rest [OF c2 refl refl])
qed

lemma condemned_step:
  assumes "tv_step s s'" and "tv_inv s" and "condemned e s"
  shows "condemned e s'"
  using assms
proof (induction rule: tv_step.induct)
  case (arrive s k p)
  then show ?case by (auto simp: condemned_def running_def waiting_def nth_append)
next
  case (ask s i banned limit trusted b)
  have "condemned e (enqueueTrustedShare banned limit b i s)" if g: "tv_gates s (ts_key (share_of s i)) = Some g"
      and q: "\<not> ts_force (share_of s i)" for g
  proof -
    have "i \<noteq> e" using ask q by (auto simp: condemned_def)
    let ?t = "(upd_gate g (\<lambda>r. r\<lparr>tg_queuedBytes := tg_queuedBytes r + b, tg_queue := tg_queue r @ [i]\<rparr>) s)
       \<lparr>trustedQueuedBytes := trustedQueuedBytes s + b\<rparr>"
    have "condemned e ?t" by (rule condemned_shrink [OF ask.prems(2)]) (use \<open>i \<noteq> e\<close> in auto)
    then have "condemned e (upd_share i (\<lambda>x. x\<lparr>ts_retained := b\<rparr>) ?t)" by (rule condemned_share) simp_all
    then show ?thesis
      using g condemned_finish [OF ask.prems(2)] by (simp add: enqueueTrustedShare_def getTrustVerificationGate_def Let_def)
  qed
  with ask.prems show ?case by (auto simp: tryTrustedShare_def split: option.split)
next
  case (start s i)
  have c: "condemned e (upd_share i (\<lambda>x. x\<lparr>ts_started := True\<rparr>) s)" by (rule condemned_share [OF start.prems(2)]) simp_all
  let ?s = "upd_share i (\<lambda>x. x\<lparr>ts_started := True\<rparr>) s"
  have gt: "h < tv_fresh s" if "tv_gates s k = Some h" for k h using start.prems(1) that by (auto simp: tv_inv_def tv_winvE_def gate_queue_ok_def)
  show ?case
  proof (cases "tv_gates s (ts_key (share_of s i))")
    case None
    let ?t = "startAsyncVerification i s"
    show ?thesis
    proof (cases "ts_started (share_of s i)")
      case True
      with start show ?thesis by (simp add: startAsyncVerification_def)
    next
      case False
      have t: "tv_gates ?t = (tv_gates s)(ts_key (share_of s i) \<mapsto> tv_fresh s)" "tv_shares ?t = tv_shares ?s" "tv_immediates ?t = tv_immediates s"
        "tg_queue (tv_heap ?t (tv_fresh s)) = []" "h \<noteq> tv_fresh s \<Longrightarrow> tv_heap ?t h = tv_heap s h" for h
        using None False by (simp_all add: startAsyncVerification_def getTrustVerificationGate_def)
      have "waiting s e \<Longrightarrow> waiting ?t e"
      proof -
        assume "waiting s e"
        then obtain k g where w: "tv_gates s k = Some g" "e \<in> set (tg_queue (tv_heap s g))" by (auto simp: waiting_def)
        with None gt [OF w(1)] t(5) [of g] have "tv_gates ?t k = Some g" "e \<in> set (tg_queue (tv_heap ?t g))" by (auto simp: t(1))
        then show ?thesis by (auto simp: waiting_def)
      qed
      then have "running ?t e \<Longrightarrow> running ?s e" by (auto simp: running_def t(2,3) waiting_def)
      moreover have "tv_heap ?t h = tv_heap s h" if "tv_gates s k = Some h" for k h using gt [OF that] t(5) [of h] by simp
      ultimately show ?thesis using c t(4) by (auto simp: condemned_def t(1-3) split: if_splits)
    qed
  next
    case (Some g)
    then have "condemned e (upd_gate g (\<lambda>r. r\<lparr>tg_inFlight := tg_inFlight r + 1\<rparr>) ?s)"
      by (intro condemned_shrink [OF c]) auto
    with start Some show ?thesis by (simp add: startAsyncVerification_def getTrustVerificationGate_def)
  qed
next
  case (complete s i banned a)
  then show ?case by (simp add: condemned_finish)
next
  case (call_again i s banned a)
  then show ?case by (simp add: finish_again)
next
  case (immediate s i f g rest)
  have im: "distinct (map fst (tv_immediates s))" using immediate by (simp add: tv_inv_def tv_winvE_def imm_ok_def)
  have wait: "waiting (runEntry i f g (s\<lparr>tv_immediates := rest\<rparr>)) e = waiting s e" by (simp add: waiting_def runEntry_def)
  show ?case
  proof (cases "i = e")
    case True
    then have f using immediate by (auto simp: condemned_def)
    with True immediate show ?thesis by (auto simp: condemned_def runEntry_def)
  next
    case False
    with immediate wait show ?thesis by (auto simp: condemned_def running_def runEntry_def)
  qed
next
  case (trust s w)
  then show ?case using condemned_cong [of "s\<lparr>tv_walletTrust := w\<rparr>" s e] by simp
qed

lemma condemned_after_failure:
  assumes inv: "tv_inv s" and run: "running s i" and fail: "ts_started (share_of s i) \<and> a = None \<or> a = Some False"
    and g: "tv_gates s (ts_key (share_of s i)) = Some g" and e: "e \<in> set (tg_queue (tv_heap s g))"
  shows "condemned e (finishShareProcessing banned i a s)"
proof -
  have w: "tv_winv s" using inv by (simp add: tv_inv_def)
  have i: "i < length (tv_shares s)" "\<not> ts_completed (share_of s i)" using run by (auto simp: running_def)
  define s1 where "s1 = upd_share i (\<lambda>x. x\<lparr>ts_completed := True\<rparr>) s"
  have hq: "hasQueuedGeneration (ts_key (share_of s i)) s1" using g e by (auto simp: hasQueuedGeneration_def s1_def)
  let ?m = "markTrustVerificationFailed (ts_payout (share_of s i)) (ts_key (share_of s i)) s1"
  have q: "e < length (tv_shares s)" "ts_key (share_of s e) = ts_key (share_of s i)" "e \<notin> fst ` set (tv_immediates s)"
    using queued_share(1) [OF w g e] by auto
  have only: "h = g" if "tv_gates s k = Some h" "e \<in> set (tg_queue (tv_heap s h))" for k h
    using queued_share(1) [OF w that] q(2) that(1) g by auto
  have "waiting ?m e" using g e by (auto simp: waiting_def s1_def)
  moreover have "tg_forceVerify (tv_heap ?m g)" using hq g by (simp add: markTrustVerificationFailed_def s1_def)
  ultimately have "condemned e ?m"
    using q only by (auto simp: condemned_def running_def s1_def image_iff)
  then show ?thesis
    unfolding finishShareProcessing_def Let_def s1_def [symmetric]
    using fail hq i(2) by (auto intro!: condemned_finish_rest)
qed

text \<open>
  C25. A failed check condemns the queued generation: when a check fails (or cannot be made) while
  a share waits in the gate of its key, then whatever happens later, that share is never
  accepted on trust and never queued again: once it is run it has to be verified.
\<close>

theorem failed_check_condemns_queue:
  assumes "tv_reach s" and "running s i" and "ts_started (share_of s i) \<and> a = None \<or> a = Some False"
    and "tv_gates s (ts_key (share_of s i)) = Some g" and "e \<in> set (tg_queue (tv_heap s g))"
    and "tv_step\<^sup>*\<^sup>* (finishShareProcessing banned i a s) t" and "running t e"
  shows "tryTrustedShare banned' limit trusted b e t = (Some False, t)"
proof -
  have inv: "tv_inv s" using assms(1) by (rule tv_reach_inv)
  have "condemned e (finishShareProcessing banned i a s)" using condemned_after_failure [OF inv assms(2-5)] .
  moreover have "tv_inv (finishShareProcessing banned i a s)" using finish_inv [OF inv assms(2)] .
  ultimately have "condemned e t \<and> tv_inv t" using assms(6)
    by (induction rule: rtranclp_induct [consumes 1, case_names base step, OF assms(6)]) (auto intro: condemned_step tv_step_inv)
  with assms(7) show ?thesis by (auto simp: condemned_def tryTrustedShare_def)
qed

text \<open>
  Why the cancellation of a queued share is written as it is: once the gate has been taken out of
  the map, finishing a share that still waits is marking it and calling its callback.
\<close>

lemma cancel_is_finish:
  assumes "fresh_waiter (share_of s e)" and "tv_gates s (ts_key (share_of s e)) = None"
  shows "finishShareProcessing banned e None s = cancelShare e s"
  using assms by (simp add: finishShareProcessing_def cancelShare_def fresh_waiter_def hasQueuedGeneration_def)

subsection \<open>The lottery\<close>

lemma card_above: "card {b::nat. b < 256 \<and> m < rat_of_nat b} \<le> 255 - nat \<lfloor>m\<rfloor>" if "0 \<le> m" for m :: num
proof -
  have "nat \<lfloor>m\<rfloor> < b" if "m < rat_of_nat b" for b
  proof -
    have "\<lfloor>m\<rfloor> < int b" using that by (simp add: floor_less_iff)
    then show ?thesis using \<open>0 \<le> m\<close> by linarith
  qed
  then have "{b. b < 256 \<and> m < rat_of_nat b} \<subseteq> {nat \<lfloor>m\<rfloor> <..< 256}" by auto
  then have "card {b. b < 256 \<and> m < rat_of_nat b} \<le> card {nat \<lfloor>m\<rfloor> <..< (256::nat)}" by (rule card_mono [rotated]) simp
  then show ?thesis by simp
qed

text \<open>
  The lottery verifies its share: whatever trust a wallet or a session has gathered, at most
  \<open>255 - trustMin\<close> of the 256 values of the random byte accept a share without a check, and none
  does when the controls are unusable, the session has no trust or the share is worth 400000 or
  more. So the share of checked shares is at least \<open>(trustMin + 1) / 256\<close>.
\<close>

theorem trusted_fraction_bounded:
  "card {byte. byte < 256 \<and> isSafeToTrust cfg reward walletTrust session byte} \<le> 255 - nat \<lfloor>trustMin cfg\<rfloor> \<and>
   (trustThreshold cfg = None \<or> session = 0 \<or> 400000 \<le> reward \<or> trustMin cfg = 256 \<longrightarrow>
     {byte. byte < 256 \<and> isSafeToTrust cfg reward walletTrust session byte} = {})"
proof -
  have m: "0 \<le> trustMin cfg" by (auto simp: trustMin_def split: option.split)
  have safe: "trustMin cfg < rat_of_nat byte" if "isSafeToTrust cfg reward walletTrust session byte" for byte
    using that by (auto simp: isSafeToTrust_def Let_def split: if_splits option.splits)
  then have "{byte. byte < 256 \<and> isSafeToTrust cfg reward walletTrust session byte} \<subseteq> {b. b < 256 \<and> trustMin cfg < rat_of_nat b}" by auto
  then have "card {byte. byte < 256 \<and> isSafeToTrust cfg reward walletTrust session byte} \<le> card {b. b < 256 \<and> trustMin cfg < rat_of_nat b}"
    by (rule card_mono [rotated]) simp
  then have "card {byte. byte < 256 \<and> isSafeToTrust cfg reward walletTrust session byte} \<le> 255 - nat \<lfloor>trustMin cfg\<rfloor>"
    using card_above [OF m] by (rule order_trans)
  moreover have "{byte. byte < 256 \<and> isSafeToTrust cfg reward walletTrust session byte} = {}" if "trustMin cfg = 256"
    using safe that by force
  moreover have "{byte. byte < 256 \<and> isSafeToTrust cfg reward walletTrust session byte} = {}"
    if "trustThreshold cfg = None \<or> session = 0 \<or> 400000 \<le> reward"
    using that by (auto simp: isSafeToTrust_def)
  ultimately show ?thesis by blast
qed

theorem trusted_fraction_bounded_witness:
  "card {byte. byte < 256 \<and> isSafeToTrust \<lparr>tc_threshold = JNum 30, tc_min = JNum 20, tc_change = JNum 1\<rparr> 1000 None 200000 byte} \<le> 235"
  using trusted_fraction_bounded [of "\<lparr>tc_threshold = JNum 30, tc_min = JNum 20, tc_change = JNum 1\<rparr>" 1000 None 200000]
  by (simp add: trustMin_def finiteNumberOr_def)

subsection \<open>A run\<close>

text \<open>A share is being checked, a second one waits; the check fails and the second one is run, then verified.\<close>

definition tx_none :: "string \<Rightarrow> bool" where
  "tx_none w = False"

definition tx_waiting :: tv_state where
  "tx_waiting = snd (tryTrustedShare tx_none 10 True 100 1
     ((startAsyncVerification 0 (tv_init\<lparr>tv_shares := tv_shares tv_init @ [new_share ''k'' ''w'']\<rparr>))
        \<lparr>tv_shares := tv_shares (startAsyncVerification 0 (tv_init\<lparr>tv_shares := tv_shares tv_init @ [new_share ''k'' ''w'']\<rparr>)) @ [new_share ''k'' ''w'']\<rparr>))"

definition tx_failed :: tv_state where
  "tx_failed = finishShareProcessing tx_none 0 (Some False) tx_waiting"

definition tx_resumed :: tv_state where
  "tx_resumed = runEntry 1 True 0 (tx_failed\<lparr>tv_immediates := []\<rparr>)"

definition tx_started :: tv_state where
  "tx_started = startAsyncVerification 1 tx_resumed"

definition tx_done :: tv_state where
  "tx_done = finishShareProcessing tx_none 1 (Some True) tx_started"

lemmas tx_defs = tx_waiting_def tryTrustedShare_def enqueueTrustedShare_def getTrustVerificationGate_def startAsyncVerification_def tv_init_def
  new_share_def Let_def TRUSTED_QUEUE_KEY_MAX_RETAINED_BYTES_def TRUSTED_QUEUE_MAX_RETAINED_BYTES_def

lemma tx_waiting_sel:
  "tv_gates tx_waiting = [''k'' \<mapsto> 0]" "tv_immediates tx_waiting = []" "tv_calls tx_waiting = []" "trustedQueuedBytes tx_waiting = 100"
  "tv_shares tx_waiting = [(new_share ''k'' ''w'')\<lparr>ts_started := True\<rparr>, (new_share ''k'' ''w'')\<lparr>ts_retained := 100\<rparr>]"
  "tv_heap tx_waiting 0 = \<lparr>tg_payout = ''w'', tg_inFlight = 1, tg_queue = [1], tg_draining = False, tg_forceVerify = False, tg_queuedBytes = 100\<rparr>"
  by (simp_all add: tx_defs)

lemma tx_waiting_running: "running tx_waiting e = (e = 0)"
  by (auto simp: running_def waiting_def tx_waiting_sel new_share_def less_Suc_eq split: if_splits)

lemma tx_waiting_reach: "tv_reach tx_waiting"
proof -
  let ?a = "tv_init\<lparr>tv_shares := tv_shares tv_init @ [new_share ''k'' ''w'']\<rparr>"
  have a: "tv_reach ?a" by (rule tv_reach.step [OF tv_reach.init tv_step.arrive])
  have "running ?a 0" by (simp add: running_def waiting_def tv_init_def new_share_def)
  from tv_reach.step [OF a tv_step.start [OF this]]
  have b: "tv_reach (startAsyncVerification 0 ?a)" .
  let ?c = "(startAsyncVerification 0 ?a)\<lparr>tv_shares := tv_shares (startAsyncVerification 0 ?a) @ [new_share ''k'' ''w'']\<rparr>"
  have c: "tv_reach ?c" by (rule tv_reach.step [OF b tv_step.arrive])
  have "running ?c 1" "\<not> ts_started (share_of ?c 1)"
    by (auto simp: running_def waiting_def startAsyncVerification_def getTrustVerificationGate_def tv_init_def new_share_def split: if_splits)
  from tv_reach.step [OF c tv_step.ask [OF this]] show ?thesis unfolding tx_waiting_def .
qed

lemma tx_failed_sel:
  "tv_gates tx_failed = [''k'' \<mapsto> 0]" "tv_immediates tx_failed = [(1, True, 0)]" "tv_calls tx_failed = [(0, Some False)]"
  "tv_shares tx_failed = [(new_share ''k'' ''w'')\<lparr>ts_started := True, ts_completed := True\<rparr>, (new_share ''k'' ''w'')\<lparr>ts_retained := 100\<rparr>]"
  "tv_heap tx_failed 0 = \<lparr>tg_payout = ''w'', tg_inFlight = 0, tg_queue = [], tg_draining = True, tg_forceVerify = True, tg_queuedBytes = 100\<rparr>"
  "trustedQueuedBytes tx_failed = 100"
  by (simp_all add: tx_failed_def finishShareProcessing_def tx_waiting_sel new_share_def hasQueuedGeneration_def markTrustVerificationFailed_def
      finishTrustVerification_def drainTrustedQueue_def tx_none_def Let_def)

lemma tx_resumed_step: "tv_step tx_failed tx_resumed"
  unfolding tx_resumed_def by (rule tv_step.immediate) (simp add: tx_failed_sel)

lemma tx_resumed_running: "running tx_resumed 1"
  by (auto simp: running_def waiting_def tx_resumed_def runEntry_def tx_failed_sel new_share_def split: if_splits)

theorem failed_check_condemns_queue_witness:
  "tryTrustedShare tx_none 10 True 100 1 tx_resumed = (Some False, tx_resumed)"
proof (rule failed_check_condemns_queue [OF tx_waiting_reach])
  show "running tx_waiting 0" by (simp add: tx_waiting_running)
  show "ts_started (share_of tx_waiting 0) \<and> Some False = None \<or> Some False = Some False" by simp
  show "tv_gates tx_waiting (ts_key (share_of tx_waiting 0)) = Some 0" by (simp add: tx_waiting_sel new_share_def)
  show "1 \<in> set (tg_queue (tv_heap tx_waiting 0))" by (simp add: tx_waiting_sel)
  show "tv_step\<^sup>*\<^sup>* (finishShareProcessing tx_none 0 (Some False) tx_waiting) tx_resumed"
    using tx_resumed_step by (simp add: tx_failed_def)
qed (rule tx_resumed_running)

lemma tx_resumed_reach: "tv_reach tx_resumed"
proof -
  have "running tx_waiting 0" by (simp add: tx_waiting_running)
  from tv_reach.step [OF tx_waiting_reach tv_step.complete [OF this]] have "tv_reach tx_failed" by (simp add: tx_failed_def)
  then show ?thesis by (rule tv_reach.step [OF _ tx_resumed_step])
qed

lemma tx_started_sel:
  "tv_gates tx_started = [''k'' \<mapsto> 0]" "tv_immediates tx_started = []"
  "tv_calls tx_started = [(0, Some False)]" "trustedQueuedBytes tx_started = 100"
  "tv_shares tx_started = [(new_share ''k'' ''w'')\<lparr>ts_started := True, ts_completed := True\<rparr>,
     (new_share ''k'' ''w'')\<lparr>ts_started := True, ts_force := True, ts_isQueued := True, ts_completion := Some 0, ts_retained := 100\<rparr>]"
  "tv_heap tx_started 0 =
     \<lparr>tg_payout = ''w'', tg_inFlight = 1, tg_queue = [], tg_draining = True, tg_forceVerify = True, tg_queuedBytes = 100\<rparr>"
  by (simp_all add: tx_started_def startAsyncVerification_def getTrustVerificationGate_def tx_resumed_def runEntry_def tx_failed_sel new_share_def Let_def)

lemma tx_done_reach: "tv_reach tx_done"
proof -
  have a: "tv_reach tx_started"
    unfolding tx_started_def by (rule tv_reach.step [OF tx_resumed_reach tv_step.start [OF tx_resumed_running]])
  have "running tx_started 1"
    by (auto simp: running_def waiting_def tx_started_sel new_share_def split: if_splits)
  from tv_reach.step [OF a tv_step.complete [OF this]] show ?thesis unfolding tx_done_def .
qed

lemma tx_done_sel:
  "tv_immediates tx_done = []" "tv_calls tx_done = [(0, Some False), (1, Some True)]" "map ts_completed (tv_shares tx_done) = [True, True]"
  by (simp_all add: tx_done_def finishShareProcessing_def tx_started_sel new_share_def finishTrustVerification_def drainTrustedQueue_def
      onQueuedShareProcessed_def releaseTrustedQueueEntry_def tx_none_def Let_def)

theorem every_share_answered_once_witness:
  "count_list (map fst (tv_calls tx_done)) 1 = 1"
proof -
  have l: "length (tv_shares tx_done) = 2" using tx_done_sel(3) by (metis length_map length_Cons list.size(3) numeral_2_eq_2)
  have "ts_completed (share_of tx_done 1)" using tx_done_sel(3) l by (metis nth_Cons_0 nth_Cons_Suc One_nat_def nth_map one_less_numeral_iff semiring_norm(76))
  with every_share_answered_once [OF tx_done_reach, of 1] l show ?thesis by simp
qed

theorem no_share_waits_forever_witness:
  "trustedQueuedBytes tx_done = 0 \<and> tv_gates tx_done = (\<lambda>_. None)"
proof -
  have l: "length (tv_shares tx_done) = 2" using tx_done_sel(3) by (metis length_map length_Cons list.size(3) numeral_2_eq_2)
  have "ts_completed (share_of tx_done e)" if "e < 2" for e
  proof -
    have "map ts_completed (tv_shares tx_done) ! e" using that by (auto simp: tx_done_sel less_Suc_eq numeral_2_eq_2)
    with that l show ?thesis by simp
  qed
  then have "\<not> running tx_done e" for e using l by (auto simp: running_def)
  with no_share_waits_forever [OF tx_done_reach] show ?thesis by (simp add: tx_done_sel)
qed

theorem retained_bytes_bounded_witness:
  "trustedQueuedBytes tx_waiting = 100 \<and> trustedQueuedBytes tx_waiting \<le> 32 * 2 ^ 20"
  using retained_bytes_bounded [OF tx_waiting_reach, of 0] by (simp add: tx_waiting_sel)

end
