(* ===== verification/Circular_Buffer.thy ===== *)
theory Circular_Buffer
  imports Prelude
begin

text \<open>
  \<open>circularBuffer\<close> of \<open>src/lib/common/support.js\<close>: an array of fixed size with a head and a
  length. The pool keeps the last ten jobs of a miner and the last templates of a coin in one.
  The contract of a bounded history is a locale; the buffer is shown to satisfy it.
\<close>

subsection \<open>The buffer\<close>

text \<open>An unset cell is \<open>None\<close>; the values that are put in are objects, never \<open>undefined\<close>.\<close>

record 'a circular_buffer =
  cb_data :: "'a option list"
  cb_head :: nat
  cb_length :: nat

definition circularBuffer :: "nat \<Rightarrow> 'a circular_buffer" where
  "circularBuffer n = \<lparr>cb_data = replicate n None, cb_head = 0, cb_length = 0\<rparr>"

definition cb_enq :: "'a \<Rightarrow> 'a circular_buffer \<Rightarrow> 'a circular_buffer" where
  "cb_enq value b =
     (let n = length (cb_data b);
          b1 = b\<lparr>cb_data := (cb_data b)[(cb_head b + cb_length b) mod n := Some value]\<rparr>
      in if cb_length b < n then b1\<lparr>cb_length := cb_length b + 1\<rparr> else b1\<lparr>cb_head := (cb_head b + 1) mod n\<rparr>)"

definition cb_deq :: "'a circular_buffer \<Rightarrow> 'a option \<times> 'a circular_buffer" where
  "cb_deq b =
     (if cb_length b = 0 then (None, b)
      else (cb_data b ! cb_head b,
            b\<lparr>cb_data := (cb_data b)[cb_head b := None], cb_head := (cb_head b + 1) mod length (cb_data b), cb_length := cb_length b - 1\<rparr>))"

definition cb_cell :: "'a circular_buffer \<Rightarrow> nat \<Rightarrow> 'a option" where
  "cb_cell b i = cb_data b ! ((cb_head b + i) mod length (cb_data b))"

definition cb_toarray :: "'a circular_buffer \<Rightarrow> 'a list" where
  "cb_toarray b = concat (map (\<lambda>i. case cb_cell b i of Some v \<Rightarrow> [v] | None \<Rightarrow> []) [0..<cb_length b])"

definition cb_get :: "int \<Rightarrow> 'a circular_buffer \<Rightarrow> 'a option" where
  "cb_get index b = (if index < 0 \<or> int (cb_length b) \<le> index then None else cb_cell b (nat index))"

definition cb_ok :: "nat \<Rightarrow> 'a circular_buffer \<Rightarrow> bool" where
  "cb_ok n b \<longleftrightarrow> 0 < n \<and> length (cb_data b) = n \<and> cb_head b < n \<and> cb_length b \<le> n \<and> (\<forall>i < cb_length b. cb_cell b i \<noteq> None)"

subsection \<open>Bounded histories\<close>

text \<open>What the clients rely on: the last \<open>cap\<close> values that were put in, oldest first.\<close>

definition last_n :: "nat \<Rightarrow> 'a list \<Rightarrow> 'a list" where
  "last_n n xs = drop (length xs - n) xs"

lemma last_n_last_n: "last_n n (last_n n xs @ [x]) = last_n n (xs @ [x])"
proof (cases "length xs \<le> n")
  case False
  then have "length (last_n n xs) = n" "length xs + 1 - n = Suc (length xs - n)" by (simp_all add: last_n_def)
  moreover have "drop 1 (last_n n xs) = drop (Suc (length xs - n)) xs" by (simp add: last_n_def)
  ultimately show ?thesis by (cases n) (simp_all add: last_n_def)
qed (simp add: last_n_def)

locale bounded_history =
  fixes ok :: "'b \<Rightarrow> bool" and content :: "'b \<Rightarrow> 'a list" and put :: "'a \<Rightarrow> 'b \<Rightarrow> 'b" and cap :: nat
  assumes put_ok: "ok b \<Longrightarrow> ok (put x b)"
    and put_content: "ok b \<Longrightarrow> content (put x b) = last_n cap (content b @ [x])"
    and content_bounded: "ok b \<Longrightarrow> length (content b) \<le> cap"
begin

lemma fold_put: "ok b \<Longrightarrow> ok (fold put xs b) \<and> content (fold put xs b) = last_n cap (content b @ xs)"
proof (induction xs rule: rev_induct)
  case Nil
  then show ?case using content_bounded by (simp add: last_n_def)
next
  case (snoc x xs)
  then have "content (fold put (xs @ [x]) b) = last_n cap (last_n cap (content b @ xs) @ [x])"
    by (simp add: put_content)
  with snoc show ?case by (simp add: put_ok last_n_last_n)
qed

lemma recent_kept: "ok b \<Longrightarrow> length xs \<le> cap \<Longrightarrow> x \<in> set xs \<Longrightarrow> x \<in> set (content (fold put xs b))"
  using fold_put [of b xs] by (auto simp: last_n_def)

lemma old_forgotten: "ok b \<Longrightarrow> length xs = cap \<Longrightarrow> content (fold put xs b) = xs"
  using fold_put [of b xs] by (simp add: last_n_def)

end

subsection \<open>The buffer is a bounded history\<close>

lemma cb_toarray_map: "cb_ok n b \<Longrightarrow> map Some (cb_toarray b) = map (cb_cell b) [0..<cb_length b]"
proof -
  assume ok: "cb_ok n b"
  have "map Some (concat (map (\<lambda>i. case cb_cell b i of Some v \<Rightarrow> [v] | None \<Rightarrow> []) [0..<m])) = map (cb_cell b) [0..<m]"
    if "m \<le> cb_length b" for m
    using that ok by (induction m) (auto simp: cb_ok_def split: option.splits)
  then show ?thesis by (simp add: cb_toarray_def)
qed

lemma cb_toarray_eqI: "cb_ok n b \<Longrightarrow> map (cb_cell b) [0..<cb_length b] = map Some xs \<Longrightarrow> cb_toarray b = xs"
  using cb_toarray_map [of n b] by (metis list.inj_map_strong option.inject)

lemma wrap_index: "h < n \<Longrightarrow> i < n \<Longrightarrow> (h + i) mod n = (if h + i < n then h + i else h + i - n)" for n :: nat
  by (simp add: mod_if)

lemma wrap_neq: "h < n \<Longrightarrow> i < n \<Longrightarrow> j < n \<Longrightarrow> i \<noteq> j \<Longrightarrow> (h + i) mod n \<noteq> (h + j) mod n" for n :: nat
  by (auto simp: wrap_index)

lemma enq_room:
  assumes ok: "cb_ok n b" and room: "cb_length b < n" and i: "i \<le> cb_length b"
  shows "cb_cell (cb_enq x b) i = (if i = cb_length b then Some x else cb_cell b i)"
proof -
  have n: "length (cb_data b) = n" "cb_head b < n" using ok by (auto simp: cb_ok_def)
  have "(cb_head b + i) mod n \<noteq> (cb_head b + cb_length b) mod n" if "i \<noteq> cb_length b"
    using wrap_neq [OF n(2) _ room that] i room by simp
  moreover have "(cb_head b + cb_length b) mod n < n" using n by (simp add: mod_less_divisor)
  ultimately show ?thesis using n room by (auto simp: cb_enq_def cb_cell_def Let_def)
qed

lemma enq_full:
  assumes ok: "cb_ok n b" and full: "cb_length b = n" and i: "i < n"
  shows "cb_cell (cb_enq x b) i = (if i = n - 1 then Some x else cb_cell b (i + 1))"
proof -
  have n: "length (cb_data b) = n" "cb_head b < n" using ok by (auto simp: cb_ok_def)
  let ?h = "cb_head b"
  have cell: "cb_cell (cb_enq x b) i = (cb_data b)[?h := Some x] ! ((?h + (i + 1)) mod n)"
    using n full by (simp add: cb_enq_def cb_cell_def Let_def mod_add_left_eq)
  show ?thesis
  proof (cases "i = n - 1")
    case True
    then have "?h + (i + 1) = ?h + n" using i by simp
    then have "(?h + (i + 1)) mod n = ?h" using n(2) by simp
    then show ?thesis unfolding cell using True n by simp
  next
    case False
    then have "i + 1 < n" using i by simp
    then have "(?h + (i + 1)) mod n \<noteq> ?h" using wrap_neq [OF n(2), of "i + 1" 0] n(2) by simp
    then show ?thesis unfolding cell using False n by (simp add: cb_cell_def)
  qed
qed

lemma enq_ok: "cb_ok n b \<Longrightarrow> cb_ok n (cb_enq x b)"
proof -
  assume ok: "cb_ok n b"
  then have n: "length (cb_data b) = n" "cb_head b < n" "cb_length b \<le> n" by (auto simp: cb_ok_def)
  show ?thesis
  proof (cases "cb_length b < n")
    case True
    with ok enq_room [OF ok True] have "cb_cell (cb_enq x b) i \<noteq> None" if "i < cb_length b + 1" for i
      using that by (auto simp: cb_ok_def)
    with True n ok show ?thesis by (auto simp: cb_ok_def) (auto simp: cb_enq_def Let_def)
  next
    case False
    then have full: "cb_length b = n" using n by simp
    have "cb_cell (cb_enq x b) i \<noteq> None" if "i < n" for i
      using enq_full [OF ok full that] ok full that by (auto simp: cb_ok_def)
    with full n ok show ?thesis by (auto simp: cb_ok_def) (auto simp: cb_enq_def Let_def)
  qed
qed

lemma enq_content: "cb_ok n b \<Longrightarrow> cb_toarray (cb_enq x b) = last_n n (cb_toarray b @ [x])"
proof -
  assume ok: "cb_ok n b"
  then have n: "length (cb_data b) = n" "cb_length b \<le> n" "0 < n" by (auto simp: cb_ok_def)
  have len: "length (cb_toarray b) = cb_length b" using cb_toarray_map [OF ok] by (metis length_map diff_zero length_upt)
  show ?thesis
  proof (rule cb_toarray_eqI [OF enq_ok [OF ok]])
    show "map (cb_cell (cb_enq x b)) [0..<cb_length (cb_enq x b)] = map Some (last_n n (cb_toarray b @ [x]))"
    proof (cases "cb_length b < n")
      case True
      then have "cb_length (cb_enq x b) = cb_length b + 1" using n by (simp add: cb_enq_def Let_def)
      moreover have "map (cb_cell (cb_enq x b)) [0..<cb_length b] = map (cb_cell b) [0..<cb_length b]"
        using enq_room [OF ok True] by simp
      ultimately show ?thesis
        using True len enq_room [OF ok True, of "cb_length b"] cb_toarray_map [OF ok] by (simp add: last_n_def)
    next
      case False
      then have full: "cb_length b = n" using n by simp
      then have l: "cb_length (cb_enq x b) = n" using n by (simp add: cb_enq_def Let_def)
      have "map (cb_cell (cb_enq x b)) [0..<n] = tl (map (cb_cell b) [0..<n]) @ [Some x]"
      proof (rule nth_equalityI)
        fix i assume "i < length (map (cb_cell (cb_enq x b)) [0..<n])"
        then have "i < n" by simp
        with enq_full [OF ok full this] show "map (cb_cell (cb_enq x b)) [0..<n] ! i = (tl (map (cb_cell b) [0..<n]) @ [Some x]) ! i"
          by (auto simp: nth_append nth_tl)
      qed (use n in simp)
      also have "\<dots> = map Some (tl (cb_toarray b) @ [x])" using cb_toarray_map [OF ok] full by (simp add: map_tl)
      also have "tl (cb_toarray b) @ [x] = last_n n (cb_toarray b @ [x])"
        using len full n(3) by (simp add: last_n_def drop_Suc)
      finally show ?thesis by (simp add: l)
    qed
  qed
qed

lemma toarray_bounded: "cb_ok n b \<Longrightarrow> length (cb_toarray b) \<le> n"
proof -
  assume ok: "cb_ok n b"
  have "length (cb_toarray b) = cb_length b" using cb_toarray_map [OF ok] by (metis length_map diff_zero length_upt)
  with ok show ?thesis by (simp add: cb_ok_def)
qed

interpretation cb: bounded_history "cb_ok n" cb_toarray cb_enq n for n
  by unfold_locales (auto simp: enq_ok enq_content toarray_bounded)

lemma circularBuffer_ok: "0 < n \<Longrightarrow> cb_ok n (circularBuffer n)" "cb_toarray (circularBuffer n) = []"
  by (simp_all add: cb_ok_def circularBuffer_def cb_toarray_def)

lemma get_toarray:
  assumes ok: "cb_ok n b"
  shows "cb_get index b = (if 0 \<le> index \<and> index < int (length (cb_toarray b)) then Some (cb_toarray b ! nat index) else None)"
proof -
  have m: "map Some (cb_toarray b) = map (cb_cell b) [0..<cb_length b]" using cb_toarray_map [OF ok] .
  then have len: "length (cb_toarray b) = cb_length b" by (metis length_map diff_zero length_upt)
  have "Some (cb_toarray b ! i) = cb_cell b i" if "i < cb_length b" for i
    using m that len by (metis (no_types, lifting) add_0 diff_zero length_upt nth_map nth_upt)
  then show ?thesis using len by (auto simp: cb_get_def)
qed

lemma deq_content:
  assumes ok: "cb_ok n b"
  shows "(case cb_toarray b of
            [] \<Rightarrow> cb_deq b = (None, b)
          | x # xs \<Rightarrow> fst (cb_deq b) = Some x \<and> cb_ok n (snd (cb_deq b)) \<and> cb_toarray (snd (cb_deq b)) = xs)"
proof -
  have n: "length (cb_data b) = n" "cb_head b < n" "cb_length b \<le> n" "0 < n" using ok by (auto simp: cb_ok_def)
  have m: "map Some (cb_toarray b) = map (cb_cell b) [0..<cb_length b]" using cb_toarray_map [OF ok] .
  show ?thesis
  proof (cases "cb_length b")
    case 0
    with m show ?thesis by (simp add: cb_deq_def)
  next
    case (Suc l)
    with m obtain x xs where xs: "cb_toarray b = x # xs" by (cases "cb_toarray b") auto
    have x: "cb_cell b 0 = Some x" using m xs Suc by (simp add: upt_conv_Cons del: upt_Suc)
    let ?b = "snd (cb_deq b)"
    have cell: "cb_cell ?b i = cb_cell b (i + 1)" if "i < l" for i
    proof -
      have "i + 1 < n" using that Suc n by simp
      then have "(cb_head b + (i + 1)) mod n \<noteq> cb_head b" using wrap_neq [OF n(2), of "i + 1" 0] n(2) by simp
      then show ?thesis using n Suc by (simp add: cb_deq_def cb_cell_def mod_add_left_eq)
    qed
    have l: "cb_length ?b = l" using Suc by (simp add: cb_deq_def)
    have "map (cb_cell ?b) [0..<l] = map (\<lambda>i. cb_cell b (i + 1)) [0..<l]" using cell by simp
    also have "\<dots> = map Some xs" using m xs Suc by (simp add: upt_conv_Cons map_Suc_upt [symmetric] o_def del: upt_Suc)
    finally have c: "map (cb_cell ?b) [0..<cb_length ?b] = map Some xs" by (simp add: l)
    have "cb_cell ?b i \<noteq> None" if "i < l" for i using cell [OF that] ok that Suc by (simp add: cb_ok_def)
    moreover have "length (cb_data ?b) = n" "cb_head ?b < n" using n Suc by (simp_all add: cb_deq_def)
    ultimately have ok': "cb_ok n ?b" using n(3,4) Suc by (simp add: cb_ok_def l)
    moreover have "fst (cb_deq b) = Some x" using x Suc n by (simp add: cb_deq_def cb_cell_def)
    ultimately show ?thesis using cb_toarray_eqI [OF ok' c] xs by simp
  qed
qed

end
