(* ===== verification/Share_Submit.thy ===== *)
theory Share_Submit
  imports Circular_Buffer Js_Number Js_Value
begin

text \<open>
  Submitted shares, \<open>handleSubmitRequest\<close> of \<open>src/lib/pool/protocol.js\<close> with the ban counters of
  \<open>src/lib/pool/miners.js\<close>: the job and the template of a share are looked up, duplicates and
  floods are refused, and the share processor is asked; its callback, which comes once
  (\<open>Trust_Properties\<close>), settles the reservations and the counters.

  Jobs, templates and miners are objects with an address. What a coin profile accepts as
  parameters, and the key it gives a submission, are the profile's functions. Replies and
  messages are a list of effects; log lines are left out. Configured numbers are finite.
\<close>

subsection \<open>Objects\<close>

datatype sub_effect =
  Reply string | ReplyFinal string | ReplyAccepted | CloseSocket | RemoveMiner nat | BanIP string string
| StoreInvalidShare nat | SendSameCoinJob | SyncUserRecord | ClearFirstShareTimer

record sub_job =
  sj_id :: string
  sj_coin :: string
  sj_blockHash :: string
  sj_difficulty :: num
  sj_hashesPerDifficulty :: "num option"
  sj_coinHashFactor :: num
  sj_usesProxyNonce :: bool
  sj_submissions :: "string list"

record sub_template =
  st_idHash :: string
  st_timeoutTime :: "num option"
  st_timeCreated :: "num option"
  st_submissions :: "string list"

record sub_miner =
  sm_payout :: string
  sm_ip :: string
  sm_proxyMinerName :: "string option"
  sm_hasSubmittedValidShare :: bool
  sm_acceptedShareCount :: nat
  sm_invalidJobIdCount :: nat
  sm_validShares :: nat
  sm_invalidShares :: nat
  sm_whiteList :: bool
  sm_removed :: bool
  sm_trust :: "(num \<times> num) option"
  sm_invalidShareCount :: nat
  sm_lastInvalidShareTime :: "num option"
  sm_lastValidShareTimeMs :: num
  sm_lastContact :: num
  sm_lastProtocolActivity :: num
  sm_lastShareTime :: num
  sm_validJobs :: "nat circular_buffer"

record sub_cfg =
  sc_banEnabled :: bool
  sc_banThreshold :: num
  sc_banPercent :: num
  sc_trustedMiners :: bool
  sc_throttleWindow :: num
  sc_throttlePerSec :: num
  sc_targetTime :: num
  sc_invalidJobIdLimit :: num
  sc_whitelisted :: "string \<Rightarrow> bool"
  sc_budget :: "string \<Rightarrow> bool"

text \<open>The functions of a coin profile; parsing and validation normalise the parameters.\<close>

record 'p sub_pool =
  sp_parse :: "'p \<Rightarrow> 'p option"
  sp_validate :: "sub_job \<Rightarrow> 'p \<Rightarrow> 'p option"
  sp_proxyNonces :: "'p \<Rightarrow> bool"
  sp_key :: "sub_job \<Rightarrow> 'p \<Rightarrow> string"
  sp_sharedTemplateNonces :: bool
  sp_sharedTemplateSubmissions :: bool

text \<open>A call of the share processor that has not been answered: the variables of its callback.\<close>

record pending_share =
  pd_miner :: nat
  pd_job :: nat
  pd_template :: nat
  pd_key :: string
  pd_shared :: bool
  pd_reward2 :: num

text \<open>\<open>ss_accepted\<close> records the shares that were accepted: job, template, key and whether the template is shared.\<close>

record sub_state =
  ss_miners :: "nat \<Rightarrow> sub_miner"
  ss_jobs :: "nat \<Rightarrow> sub_job"
  ss_templates :: "nat \<Rightarrow> sub_template"
  ss_active :: "string \<Rightarrow> nat option"
  ss_past :: "string \<Rightarrow> nat circular_buffer option"
  ss_factor :: "string \<Rightarrow> num option"
  ss_inflight :: "pending_share list"
  ss_accepted :: "(nat \<times> nat \<times> string \<times> bool) list"
  ss_out :: "sub_effect list"

definition upd_miner :: "nat \<Rightarrow> (sub_miner \<Rightarrow> sub_miner) \<Rightarrow> sub_state \<Rightarrow> sub_state" where
  "upd_miner m f s = s\<lparr>ss_miners := (ss_miners s)(m := f (ss_miners s m))\<rparr>"

definition emit :: "sub_effect \<Rightarrow> sub_state \<Rightarrow> sub_state" where
  "emit x s = s\<lparr>ss_out := ss_out s @ [x]\<rparr>"

subsection \<open>Tracked submissions\<close>

definition SHARED_TEMPLATE_SUBMISSION_LIMIT :: nat where
  "SHARED_TEMPLATE_SUBMISSION_LIMIT = 65536"

datatype submission_mode = NonceMode | SubmissionMode

definition sharedTemplateSubmissionMode :: "'p sub_pool \<Rightarrow> submission_mode option" where
  "sharedTemplateSubmissionMode p =
     (if sp_sharedTemplateNonces p then Some NonceMode else if sp_sharedTemplateSubmissions p then Some SubmissionMode else None)"

definition hasTrackedSharedTemplateSubmission :: "nat \<Rightarrow> string \<Rightarrow> sub_state \<Rightarrow> bool" where
  "hasTrackedSharedTemplateSubmission t key s \<longleftrightarrow> key \<in> set (st_submissions (ss_templates s t))"

definition trackSharedTemplateSubmission :: "nat \<Rightarrow> string \<Rightarrow> sub_state \<Rightarrow> bool \<times> sub_state" where
  "trackSharedTemplateSubmission t key s =
     (let r = ss_templates s t
      in if SHARED_TEMPLATE_SUBMISSION_LIMIT \<le> length (st_submissions r) then (False, s)
         else (True, s\<lparr>ss_templates := (ss_templates s)(t := r\<lparr>st_submissions := List.insert key (st_submissions r)\<rparr>)\<rparr>))"

definition untrackSharedTemplateSubmission :: "nat \<Rightarrow> string \<Rightarrow> sub_state \<Rightarrow> sub_state" where
  "untrackSharedTemplateSubmission t key s =
     s\<lparr>ss_templates := (ss_templates s)(t := (ss_templates s t)\<lparr>st_submissions := removeAll key (st_submissions (ss_templates s t))\<rparr>)\<rparr>"

definition hasProxySubmissionBudget :: "sub_cfg \<Rightarrow> sub_miner \<Rightarrow> bool" where
  "hasProxySubmissionBudget cfg m =
     (let name = (case sm_proxyMinerName m of Some n \<Rightarrow> if n = [] then sm_payout m else n | None \<Rightarrow> sm_payout m)
      in name \<noteq> [] \<and> sc_budget cfg name)"

definition getTrackedSubmissionLimit :: "sub_cfg \<Rightarrow> sub_miner \<Rightarrow> num" where
  "getTrackedSubmissionLimit cfg m = fl (fl (sc_throttleWindow cfg * sc_throttlePerSec cfg) * (if hasProxySubmissionBudget cfg m then 1000 else 100))"

definition trackJobSubmission :: "nat \<Rightarrow> string \<Rightarrow> sub_state \<Rightarrow> sub_state" where
  "trackJobSubmission j key s =
     s\<lparr>ss_jobs := (ss_jobs s)(j := (ss_jobs s j)\<lparr>sj_submissions := List.insert key (sj_submissions (ss_jobs s j))\<rparr>)\<rparr>"

definition untrackJobSubmission :: "nat \<Rightarrow> string \<Rightarrow> sub_state \<Rightarrow> sub_state" where
  "untrackJobSubmission j key s =
     s\<lparr>ss_jobs := (ss_jobs s)(j := (ss_jobs s j)\<lparr>sj_submissions := removeAll key (sj_submissions (ss_jobs s j))\<rparr>)\<rparr>"

definition hasReachedSubmissionLimit :: "sub_cfg \<Rightarrow> nat \<Rightarrow> nat \<Rightarrow> sub_state \<Rightarrow> bool" where
  "hasReachedSubmissionLimit cfg j m s =
     (let limit = getTrackedSubmissionLimit cfg (ss_miners s m)
      in 0 < limit \<and> limit \<le> of_nat (length (sj_submissions (ss_jobs s j))))"

subsection \<open>Counters of a miner\<close>

definition suspend :: "nat \<Rightarrow> sub_state \<Rightarrow> sub_state" where
  "suspend m s = emit (BanIP (sm_ip (ss_miners s m)) (sm_payout (ss_miners s m))) (emit (RemoveMiner m) (upd_miner m (\<lambda>r. r\<lparr>sm_removed := True\<rparr>) s))"

definition checkBan :: "sub_cfg \<Rightarrow> nat \<Rightarrow> bool \<Rightarrow> sub_state \<Rightarrow> bool \<times> sub_state" where
  "checkBan cfg m validShare s0 =
     (let s = upd_miner m (\<lambda>r. r\<lparr>sm_whiteList := sc_whitelisted cfg (sm_ip r)\<rparr>) s0
      in if \<not> sc_banEnabled cfg \<or> sm_whiteList (ss_miners s m) then (False, s)
         else
           let s1 = (if validShare then upd_miner m (\<lambda>r. r\<lparr>sm_validShares := sm_validShares r + 1\<rparr>) s
                     else upd_miner m (\<lambda>r. r\<lparr>sm_invalidShares := sm_invalidShares r + 1\<rparr>) s);
               r = ss_miners s1 m;
               shareCount = sm_validShares r + sm_invalidShares r
           in if \<not> validShare \<and> \<not> sm_hasSubmittedValidShare r then (True, suspend m s1)
              else if sc_banThreshold cfg \<le> of_nat shareCount
              then (if sc_banPercent cfg \<le> fl (of_nat (100 * sm_invalidShares r) / of_nat shareCount) then (True, suspend m s1)
                    else (False, upd_miner m (\<lambda>r. r\<lparr>sm_invalidShares := 0, sm_validShares := 0\<rparr>) s1))
              else (False, s1))"

definition storeMinerInvalidShare :: "nat \<Rightarrow> num \<Rightarrow> sub_state \<Rightarrow> sub_state" where
  "storeMinerInvalidShare m timeNow s0 =
     (let s = upd_miner m (\<lambda>r. r\<lparr>sm_invalidShareCount := sm_invalidShareCount r + 1\<rparr>) s0; r = ss_miners s m
      in if (case sm_lastInvalidShareTime r of None \<Rightarrow> True | Some t \<Rightarrow> t = 0 \<or> 600000 < fl (timeNow - t))
         then upd_miner m (\<lambda>r. r\<lparr>sm_lastInvalidShareTime := Some timeNow, sm_invalidShareCount := 0\<rparr>)
                (emit (StoreInvalidShare (sm_invalidShareCount r)) s)
         else s)"

definition touchValidShare :: "nat \<Rightarrow> num \<Rightarrow> sub_state \<Rightarrow> sub_state" where
  "touchValidShare m timeNow s =
     (let s1 = upd_miner m (\<lambda>r. r\<lparr>sm_hasSubmittedValidShare := True, sm_acceptedShareCount := sm_acceptedShareCount r + 1,
                 sm_lastValidShareTimeMs := timeNow, sm_lastContact := timeNow\<rparr>) s
      in if sm_acceptedShareCount (ss_miners s1 m) = 1 then emit SyncUserRecord s1 else s1)"

definition touchProtocolActivity :: "nat \<Rightarrow> num \<Rightarrow> sub_state \<Rightarrow> sub_state" where
  "touchProtocolActivity m timeNow s = upd_miner m (\<lambda>r. r\<lparr>sm_lastProtocolActivity := timeNow, sm_lastContact := timeNow\<rparr>) s"

definition rejectBadShare :: "sub_cfg \<Rightarrow> nat \<Rightarrow> string \<Rightarrow> num \<Rightarrow> sub_state \<Rightarrow> sub_state" where
  "rejectBadShare cfg m replyText timeNow s =
     (let (banned, s1) = checkBan cfg m False s; s2 = emit (Reply replyText) s1; s3 = (if banned then emit CloseSocket s2 else s2)
      in storeMinerInvalidShare m timeNow s3)"

subsection \<open>Job and template of a share\<close>

definition rejectInvalidSubmitJob :: "sub_cfg \<Rightarrow> nat \<Rightarrow> sub_state \<Rightarrow> sub_state" where
  "rejectInvalidSubmitJob cfg m s =
     (if sm_hasSubmittedValidShare (ss_miners s m) then emit (Reply ''Invalid job id'') s
      else
        let s1 = upd_miner m (\<lambda>r. r\<lparr>sm_invalidJobIdCount := sm_invalidJobIdCount r + 1\<rparr>) s
        in if sc_invalidJobIdLimit cfg \<le> of_nat (sm_invalidJobIdCount (ss_miners s1 m))
           then emit CloseSocket (emit (Reply ''Invalid job id'') (emit (RemoveMiner m) (upd_miner m (\<lambda>r. r\<lparr>sm_removed := True\<rparr>) s1)))
           else emit (Reply ''Invalid job id'') s1)"

definition getSubmitJob :: "sub_cfg \<Rightarrow> nat \<Rightarrow> string \<Rightarrow> sub_state \<Rightarrow> nat option \<times> sub_state" where
  "getSubmitJob cfg m jobId s =
     (case filter (\<lambda>j. sj_id (ss_jobs s j) = jobId) (cb_toarray (sm_validJobs (ss_miners s m))) of
        j # _ \<Rightarrow>
          (Some j, if \<not> sm_hasSubmittedValidShare (ss_miners s m) \<and> 0 < sm_invalidJobIdCount (ss_miners s m)
                   then upd_miner m (\<lambda>r. r\<lparr>sm_invalidJobIdCount := 0\<rparr>) s else s)
      | [] \<Rightarrow> (None, rejectInvalidSubmitJob cfg m s))"

definition validateSubmitNonce :: "sub_cfg \<Rightarrow> 'p sub_pool \<Rightarrow> bool \<Rightarrow> nat \<Rightarrow> nat \<Rightarrow> 'p \<Rightarrow> num \<Rightarrow> sub_state \<Rightarrow> 'p option \<times> sub_state" where
  "validateSubmitNonce cfg p miningSubmit m j params timeNow s =
     (case (if miningSubmit then sp_parse p params else Some params) of
        None \<Rightarrow> (None, emit (Reply ''Invalid job params'') s)
      | Some params1 \<Rightarrow>
          (case sp_validate p (ss_jobs s j) params1 of
             None \<Rightarrow> (None, rejectBadShare cfg m ''Duplicate share'' timeNow s)
           | Some params2 \<Rightarrow>
               if sj_usesProxyNonce (ss_jobs s j) \<and> \<not> sp_proxyNonces p params2
               then (None, rejectBadShare cfg m ''Duplicate share'' timeNow s) else (Some params2, s)))"

text \<open>
  Whether a late share is out of date, and what a share in time is worth. \<open>Math.pow\<close> of a factor
  in (0, 1] is taken to be correctly rounded.
\<close>

definition updateLateShareDifficulty :: "sub_cfg \<Rightarrow> num \<Rightarrow> num \<Rightarrow> num option \<Rightarrow> bool \<times> num" where
  "updateLateShareDifficulty cfg timeNow difficulty timeoutTime =
     (case timeoutTime of
        None \<Rightarrow> (False, difficulty)
      | Some t \<Rightarrow>
          if t = 0 then (False, difficulty)
          else
            let lateTime = fl (timeNow - t); maxLateTime = fl (sc_targetTime cfg * 1000)
            in if lateTime \<le> 0 then (False, difficulty)
               else if maxLateTime \<le> lateTime then (True, difficulty)
               else (False, fl (difficulty * fl (fl (fl (maxLateTime - lateTime) / maxLateTime) ^ 6))))"

definition getSubmitBlockTemplate :: "sub_cfg \<Rightarrow> nat \<Rightarrow> sub_job \<Rightarrow> num \<Rightarrow> sub_state \<Rightarrow> (nat \<times> num) option \<times> sub_state" where
  "getSubmitBlockTemplate cfg m job timeNow s =
     (let matches = (\<lambda>t. st_idHash (ss_templates s t) = sj_blockHash job);
          past = (case ss_past s (sj_coin job) of Some b \<Rightarrow> filter matches (cb_toarray b) | None \<Rightarrow> []);
          expired = (\<lambda>text. (None, rejectBadShare cfg m text timeNow (emit SendSameCoinJob s)))
      in case ss_active s (sj_coin job) of
           Some t \<Rightarrow>
             if matches t then (Some (t, sj_difficulty job), s)
             else (case past of
                     [] \<Rightarrow> expired ''Block expired''
                   | u # _ \<Rightarrow>
                       (case updateLateShareDifficulty cfg timeNow (sj_difficulty job) (st_timeoutTime (ss_templates s u)) of
                          (True, _) \<Rightarrow> expired ''Block outdated'' | (False, d) \<Rightarrow> (Some (u, d), s)))
         | None \<Rightarrow>
             (case past of
                [] \<Rightarrow> expired ''Block expired''
              | u # _ \<Rightarrow>
                  (case updateLateShareDifficulty cfg timeNow (sj_difficulty job) (st_timeoutTime (ss_templates s u)) of
                     (True, _) \<Rightarrow> expired ''Block outdated'' | (False, d) \<Rightarrow> (Some (u, d), s))))"

definition rejectDuplicateTemplateSubmission :: "sub_cfg \<Rightarrow> nat \<Rightarrow> nat \<Rightarrow> string \<Rightarrow> submission_mode option \<Rightarrow> num \<Rightarrow> sub_state \<Rightarrow> bool \<times> sub_state" where
  "rejectDuplicateTemplateSubmission cfg m t key mode timeNow s =
     (if mode = None \<or> \<not> hasTrackedSharedTemplateSubmission t key s then (False, s)
      else (True, rejectBadShare cfg m ''Duplicate share'' timeNow s))"

definition too_many :: string where
  "too_many = ''Too many share submissions for the current job. Wait for a new job.''"

definition algo_disabled :: string where
  "algo_disabled = ''This algo was temporary disabled due to coin daemon issues. Consider using '' @
     ''https://github.com/MoneroOcean/meta-miner to allow your miner auto algo switch in this case.''"

definition rejectDuplicateJobSubmission :: "sub_cfg \<Rightarrow> nat \<Rightarrow> nat \<Rightarrow> string \<Rightarrow> num \<Rightarrow> sub_state \<Rightarrow> bool \<times> sub_state" where
  "rejectDuplicateJobSubmission cfg m j key timeNow s =
     (if key \<in> set (sj_submissions (ss_jobs s j)) then (True, rejectBadShare cfg m ''Duplicate share'' timeNow s)
      else if \<not> hasReachedSubmissionLimit cfg j m s then (False, s)
      else (True, emit (Reply too_many) s))"

subsection \<open>The request and its answer\<close>

definition handleShareProcessed :: "sub_cfg \<Rightarrow> nat \<Rightarrow> num \<Rightarrow> bool option \<Rightarrow> num \<Rightarrow> sub_state \<Rightarrow> sub_state" where
  "handleShareProcessed cfg m reward2 shareAccepted timeNow s =
     (let wasRemoved = sm_removed (ss_miners s m);
          (banned, s1) = (case shareAccepted of Some v \<Rightarrow> checkBan cfg m v s | None \<Rightarrow> (False, s))
      in if wasRemoved then s1
         else (case shareAccepted of
                 None \<Rightarrow> emit (Reply ''Throttled down share submission (please increase difficulty)'') s1
               | Some accepted \<Rightarrow>
                   let s2 = (case sm_trust (ss_miners s1 m) of
                               Some (trust, height) \<Rightarrow>
                                 if \<not> sc_trustedMiners cfg then s1
                                 else if accepted then upd_miner m (\<lambda>r. r\<lparr>sm_trust := Some (fl (trust + reward2), 0)\<rparr>) s1
                                 else upd_miner m (\<lambda>r. r\<lparr>sm_trust := Some (0, height)\<rparr>) (storeMinerInvalidShare m timeNow s1)
                             | None \<Rightarrow> s1)
                   in if \<not> accepted
                      then (let s3 = emit (Reply ''Low difficulty share'') s2 in if banned then emit CloseSocket s3 else s3)
                      else
                        let s3 = emit ReplyAccepted (emit ClearFirstShareTimer
                                   (upd_miner m (\<lambda>r. r\<lparr>sm_lastShareTime := fl (timeNow / 1000)\<rparr>) (touchValidShare m timeNow s2)))
                        in if banned then emit CloseSocket s3 else s3))"

definition onShareProcessed :: "sub_cfg \<Rightarrow> pending_share \<Rightarrow> bool option \<Rightarrow> num \<Rightarrow> sub_state \<Rightarrow> sub_state" where
  "onShareProcessed cfg p shareAccepted timeNow s =
     (let s1 = (if shareAccepted = None then untrackJobSubmission (pd_job p) (pd_key p) s else s);
          s2 = (if pd_shared p \<and> shareAccepted \<noteq> Some True then untrackSharedTemplateSubmission (pd_template p) (pd_key p) s1 else s1);
          s3 = (if shareAccepted = Some True then s2\<lparr>ss_accepted := ss_accepted s2 @ [(pd_job p, pd_template p, pd_key p, pd_shared p)]\<rparr> else s2)
      in handleShareProcessed cfg (pd_miner p) (pd_reward2 p) shareAccepted timeNow s3)"

text \<open>\<open>throws\<close>: the share processor throws before it has called back, and the handler passes the error on.\<close>

definition handleSubmitRequest ::
  "sub_cfg \<Rightarrow> (string \<Rightarrow> 'p sub_pool) \<Rightarrow> bool \<Rightarrow> nat option \<Rightarrow> (string \<times> 'p) option \<Rightarrow> num \<Rightarrow> bool \<Rightarrow> sub_state \<Rightarrow> sub_state" where
  "handleSubmitRequest cfg profiles miningSubmit socketMiner input timeNow throws s =
     (case (input, socketMiner) of
        (None, _) \<Rightarrow> emit (ReplyFinal ''No params specified'') s
      | (Some _, None) \<Rightarrow> emit (ReplyFinal ''Unauthenticated'') s
      | (Some (jobId, params), Some m) \<Rightarrow>
      (case getSubmitJob cfg m jobId s of
         (None, s1) \<Rightarrow> s1
       | (Some j, s1) \<Rightarrow>
       let trackedJob = ss_jobs s1 j; p = profiles (sj_coin trackedJob)
       in if (case ss_factor s1 (sj_coin trackedJob) of Some x \<Rightarrow> x \<le> 0 | None \<Rightarrow> True)
          then (case ss_active s1 (sj_coin trackedJob) of
                  Some t \<Rightarrow>
                    if ss_factor s1 (sj_coin trackedJob) = Some 0 \<and>
                       (case st_timeCreated (ss_templates s1 t) of Some c \<Rightarrow> 600000 < fl (timeNow - c) | None \<Rightarrow> False)
                    then emit (ReplyFinal algo_disabled) s1 else emit (Reply ''Block expired'') s1
                | None \<Rightarrow> emit (Reply ''Block expired'') s1)
          else
       (case validateSubmitNonce cfg p miningSubmit m j params timeNow (touchProtocolActivity m timeNow s1) of
          (None, s2) \<Rightarrow> s2
        | (Some params1, s2) \<Rightarrow>
       let key = sp_key p trackedJob params1
       in (case getSubmitBlockTemplate cfg m trackedJob timeNow s2 of
             (None, s3) \<Rightarrow> s3
           | (Some (t, rewarded), s3) \<Rightarrow>
       let mode = sharedTemplateSubmissionMode p
       in (case rejectDuplicateTemplateSubmission cfg m t key mode timeNow s3 of
             (True, s4) \<Rightarrow> s4
           | (False, s4) \<Rightarrow>
       (case rejectDuplicateJobSubmission cfg m j key timeNow s4 of
          (True, s5) \<Rightarrow> s5
        | (False, s5) \<Rightarrow>
       (case (if mode = None then (True, s5) else trackSharedTemplateSubmission t key s5) of
          (False, s6) \<Rightarrow> emit (Reply ''Too many share submissions for the current template. Wait for a new template.'') s6
        | (True, s6) \<Rightarrow>
       let s7 = trackJobSubmission j key s6;
           hashes = (case sj_hashesPerDifficulty trackedJob of Some h \<Rightarrow> if h = 0 then 1 else h | None \<Rightarrow> 1)
       in if throws
          then (let s8 = untrackJobSubmission j key s7 in if mode = None then s8 else untrackSharedTemplateSubmission t key s8)
          else s7\<lparr>ss_inflight := ss_inflight s7 @
                 [\<lparr>pd_miner = m, pd_job = j, pd_template = t, pd_key = key, pd_shared = (mode \<noteq> None),
                   pd_reward2 = fl (fl (rewarded * hashes) * sj_coinHashFactor trackedJob)\<rparr>]\<rparr>)))))))"

subsection \<open>Runs\<close>

text \<open>
  Requests and callbacks in any order; new jobs and templates, which nothing refers to yet; and
  whatever the rest of the node does to miners and to the choice of templates.
\<close>

inductive sub_step :: "sub_cfg \<Rightarrow> (string \<Rightarrow> 'p sub_pool) \<Rightarrow> sub_state \<Rightarrow> sub_state \<Rightarrow> bool" for cfg profiles where
  submit: "sub_step cfg profiles s (handleSubmitRequest cfg profiles ms sm input now throws s)"
| answer: "ss_inflight s = ps @ p # qs \<Longrightarrow> sub_step cfg profiles s (onShareProcessed cfg p v now (s\<lparr>ss_inflight := ps @ qs\<rparr>))"
| new_job: "j \<notin> pd_job ` set (ss_inflight s) \<Longrightarrow> j \<notin> fst ` set (ss_accepted s) \<Longrightarrow> sj_submissions job = [] \<Longrightarrow>
    sub_step cfg profiles s (s\<lparr>ss_jobs := (ss_jobs s)(j := job)\<rparr>)"
| new_template: "t \<notin> pd_template ` set (ss_inflight s) \<Longrightarrow> t \<notin> (fst \<circ> snd) ` set (ss_accepted s) \<Longrightarrow> st_submissions r = [] \<Longrightarrow>
    sub_step cfg profiles s (s\<lparr>ss_templates := (ss_templates s)(t := r)\<rparr>)"
| env: "sub_step cfg profiles s (s\<lparr>ss_miners := ms', ss_active := a, ss_past := q, ss_factor := f, ss_out := l\<rparr>)"

inductive sub_reach :: "sub_cfg \<Rightarrow> (string \<Rightarrow> 'p sub_pool) \<Rightarrow> sub_state \<Rightarrow> bool" for cfg profiles where
  init: "ss_inflight s = [] \<Longrightarrow> ss_accepted s = [] \<Longrightarrow> (\<And>t. st_submissions (ss_templates s t) = []) \<Longrightarrow> sub_reach cfg profiles s"
| step: "sub_reach cfg profiles s \<Longrightarrow> sub_step cfg profiles s s' \<Longrightarrow> sub_reach cfg profiles s'"

end
