(* ===== verification/Submit_Properties.thy ===== *)
theory Submit_Properties
  imports Share_Submit
begin

text \<open>
  What the handling of submitted shares promises: no solution is accepted twice, neither for a
  job nor for a template that several miners share; bans follow the share of bad shares in each
  window; late shares lose value and never gain any.
\<close>

subsection \<open>What a request changes\<close>

definition sub_core :: "sub_state \<Rightarrow> (nat \<Rightarrow> sub_job) \<times> (nat \<Rightarrow> sub_template) \<times> pending_share list \<times> (nat \<times> nat \<times> string \<times> bool) list" where
  "sub_core s = (ss_jobs s, ss_templates s, ss_inflight s, ss_accepted s)"

lemma core_upd [simp]: "sub_core (upd_miner m f s) = sub_core s" "sub_core (emit x s) = sub_core s"
  by (simp_all add: sub_core_def upd_miner_def emit_def)

lemma core_checkBan [simp]: "sub_core (snd (checkBan cfg m v s)) = sub_core s"
  by (simp add: checkBan_def Let_def suspend_def)

lemma core_storeInvalid [simp]: "sub_core (storeMinerInvalidShare m t s) = sub_core s"
  by (simp add: storeMinerInvalidShare_def Let_def)

lemma core_touch [simp]: "sub_core (touchValidShare m t s) = sub_core s" "sub_core (touchProtocolActivity m t s) = sub_core s"
  by (simp_all add: touchValidShare_def touchProtocolActivity_def Let_def)

lemma core_reject [simp]: "sub_core (rejectBadShare cfg m text t s) = sub_core s"
  by (simp add: rejectBadShare_def Let_def case_prod_beta)

lemma core_getSubmitJob [simp]: "sub_core (snd (getSubmitJob cfg m i s)) = sub_core s"
  by (simp add: getSubmitJob_def rejectInvalidSubmitJob_def Let_def split: list.split)

lemma core_validate [simp]: "sub_core (snd (validateSubmitNonce cfg p ms m j ps t s)) = sub_core s"
  by (auto simp: validateSubmitNonce_def split: option.split)

lemma core_template [simp]: "sub_core (snd (getSubmitBlockTemplate cfg m job t s)) = sub_core s"
  by (auto simp: getSubmitBlockTemplate_def Let_def split: option.split list.split prod.split bool.split)

lemma core_duplicates [simp]:
  "sub_core (snd (rejectDuplicateTemplateSubmission cfg m tm key mode t s)) = sub_core s"
  "sub_core (snd (rejectDuplicateJobSubmission cfg m j key t s)) = sub_core s"
  by (simp_all add: rejectDuplicateTemplateSubmission_def rejectDuplicateJobSubmission_def)

lemma core_handleShareProcessed [simp]: "sub_core (handleShareProcessed cfg m r v t s) = sub_core s"
  by (simp add: handleShareProcessed_def Let_def case_prod_beta split: option.split prod.split)

lemma duplicate_passed:
  "rejectDuplicateTemplateSubmission cfg m t key mode now s = (False, s') \<Longrightarrow> mode = None \<or> key \<notin> set (st_submissions (ss_templates s t))"
  "rejectDuplicateJobSubmission cfg m j key now s = (False, s') \<Longrightarrow> key \<notin> set (sj_submissions (ss_jobs s j))"
  by (auto simp: rejectDuplicateTemplateSubmission_def rejectDuplicateJobSubmission_def hasTrackedSharedTemplateSubmission_def split: if_splits)

definition reserve :: "nat \<Rightarrow> nat \<Rightarrow> string \<Rightarrow> bool \<Rightarrow> sub_state \<Rightarrow> sub_state" where
  "reserve j t key shared s =
     trackJobSubmission j key
       (if shared then s\<lparr>ss_templates := (ss_templates s)(t := (ss_templates s t)\<lparr>st_submissions := List.insert key (st_submissions (ss_templates s t))\<rparr>)\<rparr>
        else s)"

text \<open>A request changes nothing that is tracked, or it reserves one new key and hands one share over.\<close>

definition handed_over :: "sub_state \<Rightarrow> sub_state \<Rightarrow> bool" where
  "handed_over s s' \<longleftrightarrow>
     (\<exists>p. pd_key p \<notin> set (sj_submissions (ss_jobs s (pd_job p))) \<and>
       (pd_shared p \<longrightarrow> pd_key p \<notin> set (st_submissions (ss_templates s (pd_template p))) \<and>
          length (st_submissions (ss_templates s (pd_template p))) < SHARED_TEMPLATE_SUBMISSION_LIMIT) \<and>
       sub_core s' = sub_core ((reserve (pd_job p) (pd_template p) (pd_key p) (pd_shared p) s)\<lparr>ss_inflight := ss_inflight s @ [p]\<rparr>))"

lemma core_eqD: "sub_core s' = sub_core s \<Longrightarrow> ss_jobs s' = ss_jobs s \<and> ss_templates s' = ss_templates s \<and> ss_inflight s' = ss_inflight s \<and> ss_accepted s' = ss_accepted s"
  by (simp add: sub_core_def)

lemma core_reserve: "sub_core s' = sub_core s \<Longrightarrow> sub_core (reserve j t key sh s') = sub_core (reserve j t key sh s)"
  by (auto simp: sub_core_def reserve_def trackJobSubmission_def)

lemma untrack_reserve:
  assumes "key \<notin> set (sj_submissions (ss_jobs s j))" and "sh \<longrightarrow> key \<notin> set (st_submissions (ss_templates s t))"
  shows "sub_core (if sh then untrackSharedTemplateSubmission t key (untrackJobSubmission j key (reserve j t key sh s)) else untrackJobSubmission j key (reserve j t key sh s)) = sub_core s"
proof -
  have "removeAll key (sj_submissions (ss_jobs s j)) = sj_submissions (ss_jobs s j)" using assms(1) by simp
  moreover have "sh \<Longrightarrow> removeAll key (st_submissions (ss_templates s t)) = st_submissions (ss_templates s t)" using assms(2) by simp
  ultimately show ?thesis
    using assms by (auto simp: sub_core_def reserve_def trackJobSubmission_def untrackJobSubmission_def untrackSharedTemplateSubmission_def)
qed

text \<open>The last part of a request: reservation and hand-over, or both released again.\<close>

lemma reserve_step:
  assumes "mode = None \<or> key \<notin> set (st_submissions (ss_templates s t))" and "key \<notin> set (sj_submissions (ss_jobs s j))"
    and "(if mode = None then (True, s) else trackSharedTemplateSubmission t key s) = (True, s6)"
    and "pd_job p = j" "pd_template p = t" "pd_key p = key" "pd_shared p = (mode \<noteq> None)"
  shows "sub_core (let s8 = untrackJobSubmission j key (trackJobSubmission j key s6) in if mode = None then s8 else untrackSharedTemplateSubmission t key s8) = sub_core s"
    and "handed_over s ((trackJobSubmission j key s6)\<lparr>ss_inflight := ss_inflight (trackJobSubmission j key s6) @ [p]\<rparr>)"
proof -
  have r: "trackJobSubmission j key s6 = reserve j t key (mode \<noteq> None) s"
    and len: "mode \<noteq> None \<Longrightarrow> length (st_submissions (ss_templates s t)) < SHARED_TEMPLATE_SUBMISSION_LIMIT"
    using assms(3) by (auto simp: reserve_def trackSharedTemplateSubmission_def Let_def split: if_splits)
  show "sub_core (let s8 = untrackJobSubmission j key (trackJobSubmission j key s6) in if mode = None then s8 else untrackSharedTemplateSubmission t key s8) = sub_core s"
    using untrack_reserve [of key s j "mode \<noteq> None" t] assms(1,2) by (auto simp: r Let_def)
  have "ss_inflight (reserve j t key (mode \<noteq> None) s) = ss_inflight s" by (simp add: reserve_def trackJobSubmission_def)
  then show "handed_over s ((trackJobSubmission j key s6)\<lparr>ss_inflight := ss_inflight (trackJobSubmission j key s6) @ [p]\<rparr>)"
    using assms len by (auto simp: handed_over_def r intro!: exI [of _ p])
qed

lemma handed_over_cong: "sub_core s1 = sub_core s \<Longrightarrow> handed_over s1 s' \<Longrightarrow> handed_over s s'"
proof -
  assume c: "sub_core s1 = sub_core s" and h: "handed_over s1 s'"
  have "sub_core ((reserve j t k sh s1)\<lparr>ss_inflight := ss_inflight s1 @ [p]\<rparr>) = sub_core ((reserve j t k sh s)\<lparr>ss_inflight := ss_inflight s @ [p]\<rparr>)" for j t k sh p
    using core_reserve [OF c, of j t k sh] core_eqD [OF c] by (simp add: sub_core_def)
  with h core_eqD [OF c] show ?thesis unfolding handed_over_def by metis
qed

lemma submit_core:
  "sub_core (handleSubmitRequest cfg profiles ms sm input now throws s) = sub_core s \<or>
   handed_over s (handleSubmitRequest cfg profiles ms sm input now throws s)"
proof (cases input; cases sm)
  fix ip m assume inp: "input = Some ip" "sm = Some m"
  obtain i ps where ip: "ip = (i, ps)" by force
  obtain oj s1 where g1: "getSubmitJob cfg m i s = (oj, s1)" by force
  have c1: "sub_core s1 = sub_core s" using core_getSubmitJob [of cfg m i s] g1 by simp
  show ?thesis
  proof (cases oj)
    case None
    with inp ip g1 c1 show ?thesis by (simp add: handleSubmitRequest_def)
  next
    case (Some j)
    let ?job = "ss_jobs s1 j" let ?p = "profiles (sj_coin (ss_jobs s1 j))"
    show ?thesis
    proof (cases "case ss_factor s1 (sj_coin ?job) of Some x \<Rightarrow> x \<le> 0 | None \<Rightarrow> True")
      case True
      with Some inp ip g1 c1 show ?thesis by (simp add: handleSubmitRequest_def Let_def split: option.split)
    next
      case nf: False
      obtain op s2 where g2: "validateSubmitNonce cfg ?p ms m j ps now (touchProtocolActivity m now s1) = (op, s2)" by force
      have c2: "sub_core s2 = sub_core s" using core_validate [of cfg ?p ms m j ps now "touchProtocolActivity m now s1"] g2 c1 by simp
      show ?thesis
      proof (cases op)
        case None
        with Some inp ip g1 nf g2 c2 show ?thesis by (simp add: handleSubmitRequest_def Let_def)
      next
        case (Some ps1)
        note op = this
        let ?key = "sp_key ?p ?job ps1"
        obtain ot s3 where g3: "getSubmitBlockTemplate cfg m ?job now s2 = (ot, s3)" by force
        have c3: "sub_core s3 = sub_core s" using core_template [of cfg m ?job now s2] g3 c2 by simp
        show ?thesis
        proof (cases ot)
          case None
          with \<open>oj = Some j\<close> op inp ip g1 nf g2 g3 c3 show ?thesis by (simp add: handleSubmitRequest_def Let_def)
        next
          case (Some tr)
          obtain t rew where tr: "tr = (t, rew)" by force
          let ?mode = "sharedTemplateSubmissionMode ?p"
          obtain d4 s4 where g4: "rejectDuplicateTemplateSubmission cfg m t ?key ?mode now s3 = (d4, s4)" by force
          have c4: "sub_core s4 = sub_core s3" using core_duplicates(1) [of cfg m t ?key ?mode now s3] g4 by simp
          obtain d5 s5 where g5: "rejectDuplicateJobSubmission cfg m j ?key now s4 = (d5, s5)" by force
          have c5: "sub_core s5 = sub_core s4" using core_duplicates(2) [of cfg m j ?key now s4] g5 by simp
          obtain d6 s6 where g6: "(if ?mode = None then (True, s5) else trackSharedTemplateSubmission t ?key s5) = (d6, s6)" by force
          note eqs = \<open>oj = Some j\<close> op \<open>ot = Some tr\<close> tr inp ip g1 nf g2 g3 g4
          show ?thesis
          proof (cases "d4 \<or> d5 \<or> \<not> d6")
            case True
            have s6: "\<not> d6 \<Longrightarrow> s6 = s5 \<and> ?mode \<noteq> None" using g6 by (auto simp: trackSharedTemplateSubmission_def Let_def split: if_splits)
            from True consider d4 | "\<not> d4" d5 | "\<not> d4" "\<not> d5" "\<not> d6" by blast
            then have "sub_core (handleSubmitRequest cfg profiles ms sm input now throws s) = sub_core s"
            proof cases
              case 3
              then obtain md where md: "?mode = Some md" using s6 by auto
              have "trackSharedTemplateSubmission t ?key s5 = (False, s5)" using 3 g6 s6 md by simp
              with 3 eqs g5 nf md c3 c4 c5 show ?thesis by (simp add: handleSubmitRequest_def Let_def)
            qed (use eqs g5 nf c3 c4 c5 in \<open>simp_all add: handleSubmitRequest_def Let_def\<close>)
            then show ?thesis ..
          next
            case False
            with duplicate_passed(1) [of cfg m t ?key ?mode now s3 s4] duplicate_passed(2) [of cfg m j ?key now s4 s5] g4 g5
            have fresh: "?mode = None \<or> ?key \<notin> set (st_submissions (ss_templates s5 t))" "?key \<notin> set (sj_submissions (ss_jobs s5 j))"
              using core_eqD [OF c4] core_eqD [OF c5] by auto
            let ?hashes = "case sj_hashesPerDifficulty ?job of Some h \<Rightarrow> if h = 0 then 1 else h | None \<Rightarrow> 1"
            let ?pd = "\<lparr>pd_miner = m, pd_job = j, pd_template = t, pd_key = ?key, pd_shared = (?mode \<noteq> None),
                pd_reward2 = fl (fl (rew * ?hashes) * sj_coinHashFactor ?job)\<rparr>"
            have g6': "(if ?mode = None then (True, s5) else trackSharedTemplateSubmission t ?key s5) = (True, s6)" using g6 False by simp
            have c5': "sub_core s5 = sub_core s" using c3 c4 c5 by simp
            have r: "handleSubmitRequest cfg profiles ms sm input now throws s =
                (if throws then (let s8 = untrackJobSubmission j ?key (trackJobSubmission j ?key s6) in if ?mode = None then s8 else untrackSharedTemplateSubmission t ?key s8)
                 else (trackJobSubmission j ?key s6)\<lparr>ss_inflight := ss_inflight (trackJobSubmission j ?key s6) @ [?pd]\<rparr>)"
            proof (cases ?mode)
              case None
              with g6' have "s6 = s5" by simp
              with eqs g5 False nf None show ?thesis by (simp add: handleSubmitRequest_def Let_def)
            next
              case (Some md)
              with g6' have "trackSharedTemplateSubmission t ?key s5 = (True, s6)" by simp
              with eqs g5 False nf Some show ?thesis by (simp add: handleSubmitRequest_def Let_def)
            qed
            show ?thesis
              unfolding r using reserve_step [OF fresh g6', of ?pd] handed_over_cong [OF c5'] c5' by (cases throws) auto
          qed
        qed
      qed
    qed
  qed
qed (simp_all add: handleSubmitRequest_def)

subsection \<open>The invariant\<close>

definition sub_job_keys :: "sub_state \<Rightarrow> (nat \<times> string) list" where
  "sub_job_keys s = map (\<lambda>p. (pd_job p, pd_key p)) (ss_inflight s) @ map (\<lambda>(j, t, k, sh). (j, k)) (ss_accepted s)"

definition template_keys :: "sub_state \<Rightarrow> (nat \<times> string) list" where
  "template_keys s = map (\<lambda>p. (pd_template p, pd_key p)) (filter pd_shared (ss_inflight s)) @
     map (\<lambda>(j, t, k, sh). (t, k)) (filter (\<lambda>(j, t, k, sh). sh) (ss_accepted s))"

definition sub_inv :: "sub_state \<Rightarrow> bool" where
  "sub_inv s \<longleftrightarrow> distinct (sub_job_keys s) \<and> (\<forall>(j, k) \<in> set (sub_job_keys s). k \<in> set (sj_submissions (ss_jobs s j))) \<and>
     distinct (template_keys s) \<and> (\<forall>(t, k) \<in> set (template_keys s). k \<in> set (st_submissions (ss_templates s t))) \<and>
     (\<forall>t. length (st_submissions (ss_templates s t)) \<le> SHARED_TEMPLATE_SUBMISSION_LIMIT)"

lemma sub_inv_core: "sub_core s' = sub_core s \<Longrightarrow> sub_inv s' = sub_inv s"
  by (drule core_eqD) (simp add: sub_inv_def sub_job_keys_def template_keys_def)

lemma handed_over_inv: "handed_over s s' \<Longrightarrow> sub_inv s \<Longrightarrow> sub_inv s'"
proof -
  assume h: "handed_over s s'" and inv: "sub_inv s"
  then obtain p where k: "pd_key p \<notin> set (sj_submissions (ss_jobs s (pd_job p)))"
      "pd_shared p \<longrightarrow> pd_key p \<notin> set (st_submissions (ss_templates s (pd_template p))) \<and>
         length (st_submissions (ss_templates s (pd_template p))) < SHARED_TEMPLATE_SUBMISSION_LIMIT"
      and c: "sub_core s' = sub_core ((reserve (pd_job p) (pd_template p) (pd_key p) (pd_shared p) s)\<lparr>ss_inflight := ss_inflight s @ [p]\<rparr>)"
    by (auto simp: handed_over_def)
  let ?s = "(reserve (pd_job p) (pd_template p) (pd_key p) (pd_shared p) s)\<lparr>ss_inflight := ss_inflight s @ [p]\<rparr>"
  have new: "(pd_job p, pd_key p) \<notin> set (sub_job_keys s)" "pd_shared p \<Longrightarrow> (pd_template p, pd_key p) \<notin> set (template_keys s)"
    using inv k by (auto simp: sub_inv_def)
  have acc: "ss_accepted ?s = ss_accepted s" by (simp add: reserve_def trackJobSubmission_def)
  have jk: "mset (sub_job_keys ?s) = add_mset (pd_job p, pd_key p) (mset (sub_job_keys s))" by (simp add: sub_job_keys_def acc)
  have tk: "mset (template_keys ?s) = (if pd_shared p then add_mset (pd_template p, pd_key p) (mset (template_keys s)) else mset (template_keys s))"
    by (simp add: template_keys_def acc)
  have "set (sub_job_keys ?s) = insert (pd_job p, pd_key p) (set (sub_job_keys s))" using arg_cong [OF jk, of set_mset] by simp
  moreover have "set (template_keys ?s) = (if pd_shared p then insert (pd_template p, pd_key p) (set (template_keys s)) else set (template_keys s))"
    using arg_cong [OF tk, of set_mset] by (simp split: if_splits)
  moreover have "distinct (sub_job_keys ?s)"
    using mset_eq_imp_distinct_iff [of "sub_job_keys ?s" "(pd_job p, pd_key p) # sub_job_keys s"] jk new inv by (simp add: sub_inv_def)
  moreover have "distinct (template_keys ?s)"
    using mset_eq_imp_distinct_iff [of "template_keys ?s" "(if pd_shared p then [(pd_template p, pd_key p)] else []) @ template_keys s"] tk new inv
    by (simp add: sub_inv_def split: if_splits)
  moreover have "k \<in> set (sj_submissions (ss_jobs ?s j))" if "k \<in> set (sj_submissions (ss_jobs s j)) \<or> (j, k) = (pd_job p, pd_key p)" for j k
    using that by (auto simp: reserve_def trackJobSubmission_def)
  moreover have "k \<in> set (st_submissions (ss_templates ?s t))"
    if "k \<in> set (st_submissions (ss_templates s t)) \<or> pd_shared p \<and> (t, k) = (pd_template p, pd_key p)" for t k
    using that by (auto simp: reserve_def trackJobSubmission_def)
  moreover have "length (st_submissions (ss_templates ?s t)) \<le> SHARED_TEMPLATE_SUBMISSION_LIMIT" for t
    using inv k by (auto simp: reserve_def trackJobSubmission_def sub_inv_def List.insert_def Suc_le_eq)
  ultimately have "sub_inv ?s" using inv unfolding sub_inv_def by (auto split: if_splits)
  with sub_inv_core [OF c] show ?thesis by simp
qed

lemma answer_inv:
  assumes inv: "sub_inv s" and q: "ss_inflight s = ps @ p # qs"
  shows "sub_inv (onShareProcessed cfg p v now (s\<lparr>ss_inflight := ps @ qs\<rparr>))"
proof -
  let ?jk = "(pd_job p, pd_key p)" let ?tk = "(pd_template p, pd_key p)"
  let ?s0 = "s\<lparr>ss_inflight := ps @ qs\<rparr>"
  define s1 where "s1 = (if v = None then untrackJobSubmission (pd_job p) (pd_key p) ?s0 else ?s0)"
  define s2 where "s2 = (if pd_shared p \<and> v \<noteq> Some True then untrackSharedTemplateSubmission (pd_template p) (pd_key p) s1 else s1)"
  define s3 where "s3 = (if v = Some True then s2\<lparr>ss_accepted := ss_accepted s2 @ [(pd_job p, pd_template p, pd_key p, pd_shared p)]\<rparr> else s2)"
  have s3: "ss_inflight s3 = ps @ qs" "ss_accepted s3 = ss_accepted s @ (if v = Some True then [(pd_job p, pd_template p, pd_key p, pd_shared p)] else [])"
    "sj_submissions (ss_jobs s3 j) = (if v = None \<and> j = pd_job p then removeAll (pd_key p) (sj_submissions (ss_jobs s j)) else sj_submissions (ss_jobs s j))"
    "st_submissions (ss_templates s3 t) = (if pd_shared p \<and> v \<noteq> Some True \<and> t = pd_template p then removeAll (pd_key p) (st_submissions (ss_templates s t)) else st_submissions (ss_templates s t))" for j t
    by (auto simp: s3_def s2_def s1_def untrackJobSubmission_def untrackSharedTemplateSubmission_def)
  have mj: "mset (sub_job_keys s) = mset (?jk # sub_job_keys ?s0)" by (simp add: sub_job_keys_def q)
  then have "distinct (sub_job_keys s) = distinct (?jk # sub_job_keys ?s0)" by (rule mset_eq_imp_distinct_iff)
  with inv have jd: "distinct (sub_job_keys ?s0)" "?jk \<notin> set (sub_job_keys ?s0)" by (auto simp: sub_inv_def)
  have "mset (sub_job_keys s3) = (if v = Some True then add_mset ?jk (mset (sub_job_keys ?s0)) else mset (sub_job_keys ?s0))"
    by (simp add: sub_job_keys_def s3)
  then have j3: "mset (sub_job_keys s3) = mset ((if v = Some True then [?jk] else []) @ sub_job_keys ?s0)" by simp
  then have jd3: "distinct (sub_job_keys s3)" "set (sub_job_keys s3) = (if v = Some True then {?jk} else {}) \<union> set (sub_job_keys ?s0)"
    using mset_eq_imp_distinct_iff [OF j3] mset_eq_setD [OF j3] jd by auto
  have "mset (template_keys s) = (if pd_shared p then add_mset ?tk (mset (template_keys ?s0)) else mset (template_keys ?s0))"
    by (simp add: template_keys_def q)
  then have mt: "mset (template_keys s) = mset ((if pd_shared p then [?tk] else []) @ template_keys ?s0)" by simp
  then have "distinct (template_keys s) = distinct ((if pd_shared p then [?tk] else []) @ template_keys ?s0)" by (rule mset_eq_imp_distinct_iff)
  with inv have td: "distinct (template_keys ?s0)" "pd_shared p \<Longrightarrow> ?tk \<notin> set (template_keys ?s0)" by (auto simp: sub_inv_def)
  have "mset (template_keys s3) = (if pd_shared p \<and> v = Some True then add_mset ?tk (mset (template_keys ?s0)) else mset (template_keys ?s0))"
    by (auto simp: template_keys_def s3)
  then have t3: "mset (template_keys s3) = mset ((if pd_shared p \<and> v = Some True then [?tk] else []) @ template_keys ?s0)" by simp
  then have td3: "distinct (template_keys s3)" "set (template_keys s3) = (if pd_shared p \<and> v = Some True then {?tk} else {}) \<union> set (template_keys ?s0)"
    using mset_eq_imp_distinct_iff [OF t3] mset_eq_setD [OF t3] td by auto
  have sub: "set (sub_job_keys ?s0) \<subseteq> set (sub_job_keys s)" "set (template_keys ?s0) \<subseteq> set (template_keys s)"
    "?jk \<in> set (sub_job_keys s)" "pd_shared p \<Longrightarrow> ?tk \<in> set (template_keys s)"
    using mset_eq_setD [OF mj] mset_eq_setD [OF mt] by auto
  have "\<forall>(j, k) \<in> set (sub_job_keys s3). k \<in> set (sj_submissions (ss_jobs s3 j))"
  proof (clarify)
    fix j k assume "(j, k) \<in> set (sub_job_keys s3)"
    with jd3(2) sub jd(2) have "(j, k) \<in> set (sub_job_keys s)" "v = None \<Longrightarrow> (j, k) \<noteq> ?jk" by (auto split: if_splits)
    with inv show "k \<in> set (sj_submissions (ss_jobs s3 j))" by (auto simp: s3 sub_inv_def)
  qed
  moreover have "\<forall>(t, k) \<in> set (template_keys s3). k \<in> set (st_submissions (ss_templates s3 t))"
  proof (clarify)
    fix t k assume "(t, k) \<in> set (template_keys s3)"
    with td3(2) sub td(2) have "(t, k) \<in> set (template_keys s)" "pd_shared p \<Longrightarrow> v \<noteq> Some True \<Longrightarrow> (t, k) \<noteq> ?tk" by (auto split: if_splits)
    with inv show "k \<in> set (st_submissions (ss_templates s3 t))" by (auto simp: s3 sub_inv_def)
  qed
  moreover have "length (st_submissions (ss_templates s3 t)) \<le> SHARED_TEMPLATE_SUBMISSION_LIMIT" for t
  proof -
    have "length (st_submissions (ss_templates s t)) \<le> SHARED_TEMPLATE_SUBMISSION_LIMIT" using inv by (simp add: sub_inv_def)
    moreover from this have "length (removeAll (pd_key p) (st_submissions (ss_templates s t))) \<le> SHARED_TEMPLATE_SUBMISSION_LIMIT"
      by (rule order_trans [OF length_removeAll_less_eq])
    ultimately show ?thesis unfolding s3 by (split if_split) (intro conjI impI; assumption)
  qed
  ultimately have "sub_inv s3" using jd3(1) td3(1) by (simp add: sub_inv_def)
  moreover have "sub_core (onShareProcessed cfg p v now ?s0) = sub_core s3"
    unfolding onShareProcessed_def Let_def s1_def [symmetric] s2_def [symmetric] s3_def [symmetric] by simp
  ultimately show ?thesis using sub_inv_core by blast
qed

lemma sub_step_inv: "sub_step cfg profiles s s' \<Longrightarrow> sub_inv s \<Longrightarrow> sub_inv s'"
proof (induction rule: sub_step.induct)
  case (submit s ms sm input now throws)
  then show ?case using submit_core [of cfg profiles ms sm input now throws s] sub_inv_core handed_over_inv by blast
next
  case (answer s ps p qs v now)
  then show ?case by (simp add: answer_inv)
next
  case (new_job j s job)
  then have "j \<notin> fst ` set (sub_job_keys s)" by (auto simp: sub_job_keys_def image_iff)
  then have "(j, k) \<notin> set (sub_job_keys s)" for k by force
  moreover have "sub_job_keys (s\<lparr>ss_jobs := x\<rparr>) = sub_job_keys s" "template_keys (s\<lparr>ss_jobs := x\<rparr>) = template_keys s" for x
    by (simp_all add: sub_job_keys_def template_keys_def)
  ultimately show ?case using new_job.prems by (auto simp: sub_inv_def)
next
  case (new_template t s r)
  then have "t \<notin> fst ` set (template_keys s)" by (fastforce simp: template_keys_def image_iff)
  then have "(t, k) \<notin> set (template_keys s)" for k by force
  moreover have "sub_job_keys (s\<lparr>ss_templates := x\<rparr>) = sub_job_keys s" "template_keys (s\<lparr>ss_templates := x\<rparr>) = template_keys s" for x
    by (simp_all add: sub_job_keys_def template_keys_def)
  ultimately show ?case using new_template.prems new_template.hyps(3) by (auto simp: sub_inv_def)
next
  case (env s ms a q f l)
  then show ?case by (simp add: sub_inv_def sub_job_keys_def template_keys_def)
qed

lemma sub_reach_inv: "sub_reach cfg profiles s \<Longrightarrow> sub_inv s"
proof (induction rule: sub_reach.induct)
  case (init s)
  then show ?case by (simp add: sub_inv_def sub_job_keys_def template_keys_def)
next
  case (step s s')
  then show ?case by (blast intro: sub_step_inv)
qed

subsection \<open>Properties\<close>

text \<open>
  C26. No solution is accepted twice: in every reachable state, in any order of requests and of
  answers, no key has been accepted twice for a job, and no key twice for a template that miners
  share; a template tracks at most 65536 keys.
\<close>

theorem no_solution_accepted_twice:
  assumes "sub_reach cfg profiles s"
  shows "distinct (map (\<lambda>(j, t, k, sh). (j, k)) (ss_accepted s)) \<and>
    distinct (map (\<lambda>(j, t, k, sh). (t, k)) (filter (\<lambda>(j, t, k, sh). sh) (ss_accepted s))) \<and>
    length (st_submissions (ss_templates s tm)) \<le> 65536"
  using sub_reach_inv [OF assms] by (auto simp: sub_inv_def sub_job_keys_def template_keys_def SHARED_TEMPLATE_SUBMISSION_LIMIT_def)

subsection \<open>Bans\<close>

fun checkBans :: "sub_cfg \<Rightarrow> nat \<Rightarrow> bool list \<Rightarrow> sub_state \<Rightarrow> bool \<times> sub_state" where
  "checkBans cfg m [] s = (False, s)"
| "checkBans cfg m (v # vs) s = (case checkBan cfg m v s of (True, s') \<Rightarrow> (True, s') | (False, s') \<Rightarrow> checkBans cfg m vs s')"

definition bad :: "bool list \<Rightarrow> nat" where
  "bad vs = length (filter Not vs)"

lemma checkBan_miner:
  assumes "sc_banEnabled cfg" and "\<not> sc_whitelisted cfg (sm_ip (ss_miners s m))" and "v \<or> sm_hasSubmittedValidShare (ss_miners s m)"
  shows "checkBan cfg m v s =
    (let r = ss_miners s m; a = sm_validShares r + (if v then 1 else 0); b = sm_invalidShares r + (if v then 0 else 1);
         s1 = upd_miner m (\<lambda>r. r\<lparr>sm_validShares := a, sm_invalidShares := b, sm_whiteList := False\<rparr>) s
     in if sc_banThreshold cfg \<le> of_nat (a + b)
        then (if sc_banPercent cfg \<le> fl (of_nat (100 * b) / of_nat (a + b)) then (True, suspend m s1)
              else (False, upd_miner m (\<lambda>r. r\<lparr>sm_validShares := 0, sm_invalidShares := 0\<rparr>) s1))
        else (False, s1))"
  using assms by (cases "ss_miners s m"; cases v) (simp_all add: checkBan_def upd_miner_def Let_def del: of_nat_add of_nat_mult of_nat_Suc)

lemma checkBans_window:
  assumes "sc_banEnabled cfg" and "\<not> sc_whitelisted cfg (sm_ip (ss_miners s m))" and "sm_hasSubmittedValidShare (ss_miners s m)"
    and "sc_banThreshold cfg = of_nat T" and "vs \<noteq> []" and "sm_validShares (ss_miners s m) + sm_invalidShares (ss_miners s m) + length vs = T"
  shows "(case checkBans cfg m vs s of (banned, s') \<Rightarrow>
     banned = (sc_banPercent cfg \<le> fl (of_nat (100 * (sm_invalidShares (ss_miners s m) + bad vs)) / of_nat T)) \<and>
     (\<not> banned \<longrightarrow> sm_validShares (ss_miners s' m) = 0 \<and> sm_invalidShares (ss_miners s' m) = 0))"
  using assms
proof (induction vs arbitrary: s)
  case (Cons v vs)
  let ?r = "ss_miners s m"
  let ?a = "sm_validShares ?r + (if v then 1 else 0)" let ?b = "sm_invalidShares ?r + (if v then 0 else 1)"
  let ?s1 = "upd_miner m (\<lambda>r. r\<lparr>sm_validShares := ?a, sm_invalidShares := ?b, sm_whiteList := False\<rparr>) s"
  have cb: "checkBan cfg m v s = (if sc_banThreshold cfg \<le> of_nat (?a + ?b)
        then (if sc_banPercent cfg \<le> fl (of_nat (100 * ?b) / of_nat (?a + ?b)) then (True, suspend m ?s1)
              else (False, upd_miner m (\<lambda>r. r\<lparr>sm_validShares := 0, sm_invalidShares := 0\<rparr>) ?s1))
        else (False, ?s1))"
    using checkBan_miner [OF Cons.prems(1,2), of v] Cons.prems(3) by (simp add: Let_def)
  have sum: "?a + ?b + length vs = T" using Cons.prems(6) by auto
  have b: "?b + bad vs = sm_invalidShares ?r + bad (v # vs)" by (simp add: bad_def)
  show ?case
  proof (cases vs)
    case Nil
    then have "sc_banThreshold cfg \<le> of_nat (?a + ?b)" and T: "?a + ?b = T" and ib: "?b = sm_invalidShares ?r + bad (v # vs)"
      using sum Cons.prems(4) b by (simp_all add: bad_def)
    then show ?thesis using cb Nil by (auto simp: upd_miner_def)
  next
    case (Cons w ws)
    then have "\<not> sc_banThreshold cfg \<le> of_nat (?a + ?b)" using sum Cons.prems(4) by (simp only: of_nat_le_iff) simp
    then have "checkBans cfg m (v # vs) s = checkBans cfg m vs ?s1" using cb by simp
    note step = this
    have rr: "sm_validShares (ss_miners ?s1 m) = ?a" "sm_invalidShares (ss_miners ?s1 m) = ?b" "sm_ip (ss_miners ?s1 m) = sm_ip ?r"
      "sm_hasSubmittedValidShare (ss_miners ?s1 m) = sm_hasSubmittedValidShare ?r" by (simp_all add: upd_miner_def)
    have "vs \<noteq> []" using Cons by simp
    from Cons.IH [of ?s1, unfolded rr, OF Cons.prems(1-4) this sum]
    show ?thesis unfolding step b .
  qed
qed simp

text \<open>
  Bans follow the rate of bad shares in windows of \<open>banThreshold\<close> results: for a miner that has
  proved itself, starting from empty counters, the window bans exactly when the rounded
  percentage of bad results reaches \<open>banPercent\<close>, never before its last result, and otherwise the
  next window starts empty.
\<close>

theorem ban_window:
  assumes "sc_banEnabled cfg" and "\<not> sc_whitelisted cfg (sm_ip (ss_miners s m))" and "sm_hasSubmittedValidShare (ss_miners s m)"
    and "sc_banThreshold cfg = of_nat (length vs)" and "vs \<noteq> []" and "sm_validShares (ss_miners s m) = 0" and "sm_invalidShares (ss_miners s m) = 0"
  shows "fst (checkBans cfg m vs s) = (sc_banPercent cfg \<le> fl (of_nat (100 * bad vs) / of_nat (length vs))) \<and>
    (fst (checkBans cfg m vs s) \<or> sm_validShares (ss_miners (snd (checkBans cfg m vs s)) m) = 0 \<and>
      sm_invalidShares (ss_miners (snd (checkBans cfg m vs s)) m) = 0)"
  using checkBans_window [OF assms(1-5)] assms(6,7) by (auto simp: case_prod_beta)

subsection \<open>Late shares\<close>

text \<open>
  A share that comes after its template has timed out loses value and never gains any: it is
  refused exactly from \<open>targetTime\<close> seconds on, what it is worth lies between nothing and the
  difficulty of its job, and the later of two shares is worth no more than the earlier.
\<close>

theorem late_share_value:
  assumes "0 \<le> diff" and "fl diff = diff" and "0 < fl (sc_targetTime cfg * 1000)" and "t \<noteq> 0" and "now \<le> later"
  shows "(case (updateLateShareDifficulty cfg now diff (Some t), updateLateShareDifficulty cfg later diff (Some t)) of
     ((old1, v1), (old2, v2)) \<Rightarrow>
       old1 = (fl (sc_targetTime cfg * 1000) \<le> fl (now - t)) \<and> (old1 \<longrightarrow> old2) \<and> 0 \<le> v1 \<and> v1 \<le> diff \<and> (old2 \<or> v2 \<le> v1))"
proof -
  define M where "M = fl (sc_targetTime cfg * 1000)"
  define val where "val = (\<lambda>l. fl (diff * fl (fl (fl (M - l) / M) ^ 6)))"
  have M: "0 < M" "fl M = M" using assms(3) by (simp_all add: M_def)
  have late: "fl (now - t) \<le> fl (later - t)" using assms(5) by (intro fl_mono) simp
  have fac: "0 \<le> fl (fl (M - l) / M)" "fl (fl (M - l) / M) \<le> 1" if "0 < l" "l < M" for l
  proof -
    have "0 \<le> fl (M - l)" using that by simp
    then show "0 \<le> fl (fl (M - l) / M)" using M by simp
    have "fl (M - l) \<le> fl M" using that by (intro fl_mono) simp
    then have "fl (M - l) / M \<le> 1" using M by simp
    then have "fl (fl (M - l) / M) \<le> fl 1" by (rule fl_mono)
    then show "fl (fl (M - l) / M) \<le> 1" using fl_of_int [of 1] by simp
  qed
  have bounds: "0 \<le> val l" "val l \<le> diff" if "0 < l" "l < M" for l
  proof -
    have "fl (fl (M - l) / M) ^ 6 \<le> 1" using fac [OF that] by (rule power_le_one)
    then have "fl (fl (fl (M - l) / M) ^ 6) \<le> fl 1" by (rule fl_mono)
    then have "fl (fl (fl (M - l) / M) ^ 6) \<le> 1" using fl_of_int [of 1] by simp
    then have "diff * fl (fl (fl (M - l) / M) ^ 6) \<le> diff" using assms(1) by (simp add: mult_left_le)
    then have "val l \<le> fl diff" unfolding val_def by (rule fl_mono)
    then show "val l \<le> diff" using assms(2) by simp
    have "0 \<le> fl (fl (fl (M - l) / M) ^ 6)" using fac [OF that] by simp
    then show "0 \<le> val l" using assms(1) by (simp add: val_def)
  qed
  have mono: "val b \<le> val a" if "0 < a" "a \<le> b" "b < M" for a b
  proof -
    have "fl (M - b) \<le> fl (M - a)" using that by (intro fl_mono) simp
    then have "fl (M - b) / M \<le> fl (M - a) / M" using M by (intro divide_right_mono) simp_all
    then have "fl (fl (M - b) / M) \<le> fl (fl (M - a) / M)" by (rule fl_mono)
    then have "fl (fl (M - b) / M) ^ 6 \<le> fl (fl (M - a) / M) ^ 6" using fac(1) [of b] that by (intro power_mono) auto
    then have "fl (fl (fl (M - b) / M) ^ 6) \<le> fl (fl (fl (M - a) / M) ^ 6)" by (rule fl_mono)
    then have "diff * fl (fl (fl (M - b) / M) ^ 6) \<le> diff * fl (fl (fl (M - a) / M) ^ 6)" using assms(1) by (rule mult_left_mono)
    then show ?thesis unfolding val_def by (rule fl_mono)
  qed
  have upd: "updateLateShareDifficulty cfg x diff (Some t) =
      (if fl (x - t) \<le> 0 then (False, diff) else if M \<le> fl (x - t) then (True, diff) else (False, val (fl (x - t))))" for x
    using assms(4) by (simp add: updateLateShareDifficulty_def Let_def M_def val_def)
  show ?thesis
    unfolding upd M_def [symmetric]
    using late bounds [of "fl (now - t)"] bounds(2) [of "fl (later - t)"] mono [of "fl (now - t)" "fl (later - t)"] M(1) assms(1)
    by (auto simp: not_le simp del: fl_pos_iff fl_neg_iff fl_eq_0_iff fl_nonneg_iff)
qed

subsection \<open>The jobs of a miner\<close>

text \<open>
  A miner can submit for its last ten jobs: after the jobs \<open>js\<close> have been put into an empty
  circular buffer, in this order and however often it has wrapped around, \<open>toarray\<close> gives the last
  ten of them, oldest first, and \<open>get\<close> its entries.
\<close>

theorem valid_jobs_last_ten:
  "cb_toarray (fold cb_enq js (circularBuffer 10)) = last_n 10 js \<and>
   cb_get index (fold cb_enq js (circularBuffer 10)) =
     (if 0 \<le> index \<and> index < int (length (last_n 10 js)) then Some (last_n 10 js ! nat index) else None)"
proof -
  have "cb_ok 10 (circularBuffer 10)" by (simp add: circularBuffer_ok)
  from cb.fold_put [OF this, of js] have "cb_ok 10 (fold cb_enq js (circularBuffer 10))"
    and "cb_toarray (fold cb_enq js (circularBuffer 10)) = last_n 10 js" by (simp_all add: circularBuffer_ok)
  then show ?thesis using get_toarray [of 10 "fold cb_enq js (circularBuffer 10)" index] by simp
qed

subsection \<open>Concrete runs\<close>

definition sx_cfg :: sub_cfg where
  "sx_cfg = \<lparr>sc_banEnabled = True, sc_banThreshold = 4, sc_banPercent = 50, sc_trustedMiners = False, sc_throttleWindow = 10,
     sc_throttlePerSec = 5, sc_targetTime = 30, sc_invalidJobIdLimit = 4, sc_whitelisted = (\<lambda>_. False), sc_budget = (\<lambda>_. False)\<rparr>"

definition sx_profile :: "string \<Rightarrow> string sub_pool" where
  "sx_profile coin = \<lparr>sp_parse = Some, sp_validate = (\<lambda>_. Some), sp_proxyNonces = (\<lambda>_. True), sp_key = (\<lambda>_ p. p),
     sp_sharedTemplateNonces = False, sp_sharedTemplateSubmissions = False\<rparr>"

definition sx_miner :: sub_miner where
  "sx_miner = \<lparr>sm_payout = ''w'', sm_ip = ''1.2.3.4'', sm_proxyMinerName = None, sm_hasSubmittedValidShare = True, sm_acceptedShareCount = 3,
     sm_invalidJobIdCount = 0, sm_validShares = 0, sm_invalidShares = 0, sm_whiteList = False, sm_removed = False, sm_trust = None,
     sm_invalidShareCount = 0, sm_lastInvalidShareTime = None, sm_lastValidShareTimeMs = 0, sm_lastContact = 0, sm_lastProtocolActivity = 0,
     sm_lastShareTime = 0, sm_validJobs = cb_enq 0 (circularBuffer 10)\<rparr>"

definition sx_job :: sub_job where
  "sx_job = \<lparr>sj_id = ''j1'', sj_coin = ''XMR'', sj_blockHash = ''h'', sj_difficulty = 1000, sj_hashesPerDifficulty = None, sj_coinHashFactor = 1,
     sj_usesProxyNonce = False, sj_submissions = []\<rparr>"

definition sx_start :: sub_state where
  "sx_start = \<lparr>ss_miners = (\<lambda>_. sx_miner), ss_jobs = (\<lambda>_. sx_job),
     ss_templates = (\<lambda>_. \<lparr>st_idHash = ''h'', st_timeoutTime = None, st_timeCreated = None, st_submissions = []\<rparr>), ss_active = (\<lambda>_. Some 0), ss_past = (\<lambda>_. None),
     ss_factor = (\<lambda>_. Some 1), ss_inflight = [], ss_accepted = [], ss_out = []\<rparr>"

definition sx_submit :: "string \<Rightarrow> sub_state \<Rightarrow> sub_state" where
  "sx_submit nonce s = handleSubmitRequest sx_cfg sx_profile False (Some 0) (Some (''j1'', nonce)) 5000 False s"

definition sx_pending :: pending_share where
  "sx_pending = \<lparr>pd_miner = 0, pd_job = 0, pd_template = 0, pd_key = ''0a'', pd_shared = False, pd_reward2 = fl (fl (1000 * 1) * 1)\<rparr>"

definition sx_accepted :: sub_state where
  "sx_accepted = onShareProcessed sx_cfg sx_pending (Some True) 6000 ((sx_submit ''0a'' sx_start)\<lparr>ss_inflight := []\<rparr>)"

lemma sx_jobs: "cb_toarray (sm_validJobs sx_miner) = [0]"
  using enq_content [of 10 "circularBuffer 10" 0] by (simp add: sx_miner_def circularBuffer_ok last_n_def)

lemma sx_submit_inflight: "ss_inflight (sx_submit ''0a'' sx_start) = [sx_pending]"
proof -
  have "sj_id (ss_jobs sx_start 0) = ''j1''" by (simp add: sx_start_def sx_job_def)
  then have g: "getSubmitJob sx_cfg 0 ''j1'' sx_start = (Some 0, sx_start)"
    by (simp add: getSubmitJob_def sx_start_def sx_jobs) (simp add: sx_miner_def)
  have lim: "\<not> getTrackedSubmissionLimit sx_cfg m \<le> 0" for m
    using fl_of_int [of 50] fl_of_int [of 5000] by (simp add: getTrackedSubmissionLimit_def sx_cfg_def hasProxySubmissionBudget_def Let_def)
  define t where "t = touchProtocolActivity 0 5000 sx_start"
  have t: "ss_jobs t = (\<lambda>_. sx_job)" "ss_active t = (\<lambda>_. Some 0)" "ss_inflight t = []"
    "st_idHash (ss_templates t 0) = ''h''" by (simp_all add: t_def touchProtocolActivity_def upd_miner_def sx_start_def)
  have v: "validateSubmitNonce sx_cfg (sx_profile c) False 0 0 ''0a'' 5000 t = (Some ''0a'', t)" for c
    by (simp add: validateSubmitNonce_def sx_profile_def t sx_job_def)
  have b: "getSubmitBlockTemplate sx_cfg 0 sx_job 5000 t = (Some (0, 1000), t)"
    by (simp add: getSubmitBlockTemplate_def t sx_job_def)
  have d1: "rejectDuplicateTemplateSubmission sx_cfg 0 0 ''0a'' None 5000 t = (False, t)"
    by (simp add: rejectDuplicateTemplateSubmission_def)
  have d2: "rejectDuplicateJobSubmission sx_cfg 0 0 ''0a'' 5000 t = (False, t)"
    by (simp add: rejectDuplicateJobSubmission_def hasReachedSubmissionLimit_def t sx_job_def lim Let_def)
  have m: "sharedTemplateSubmissionMode (sx_profile c) = None" for c by (simp add: sharedTemplateSubmissionMode_def sx_profile_def)
  have k: "sp_key (sx_profile c) j p = p" for c j p by (simp add: sx_profile_def)
  have f: "ss_factor sx_start = (\<lambda>_. Some 1)" "ss_jobs sx_start = (\<lambda>_. sx_job)" by (simp_all add: sx_start_def)
  have "sx_submit ''0a'' sx_start = (trackJobSubmission 0 ''0a'' t)\<lparr>ss_inflight := ss_inflight (trackJobSubmission 0 ''0a'' t) @ [sx_pending]\<rparr>"
    unfolding sx_submit_def handleSubmitRequest_def
    by (simp add: g f t_def [symmetric] v b m d1 d2 k Let_def) (simp add: sx_pending_def sx_job_def)
  then show ?thesis by (simp add: trackJobSubmission_def t)
qed

lemma sx_accepted_reach: "sub_reach sx_cfg sx_profile sx_accepted"
proof -
  have "sub_reach sx_cfg sx_profile sx_start" by (rule sub_reach.init) (simp_all add: sx_start_def)
  from sub_reach.step [OF this sub_step.submit [of sx_cfg sx_profile _ False "Some 0" "Some (''j1'', ''0a'')" 5000 False]]
  have "sub_reach sx_cfg sx_profile (sx_submit ''0a'' sx_start)" by (simp add: sx_submit_def)
  from sub_reach.step [OF this sub_step.answer [of _ "[]" sx_pending "[]" sx_cfg sx_profile "Some True" 6000]] sx_submit_inflight
  show ?thesis by (simp add: sx_accepted_def)
qed

lemma sx_accepted_keys: "map (\<lambda>(j, t, k, sh). (j, k)) (ss_accepted sx_accepted) = [(0, ''0a'')]"
proof -
  have "ss_accepted (sx_submit ''0a'' sx_start) = ss_accepted sx_start"
    using submit_core [of sx_cfg sx_profile False "Some 0" "Some (''j1'', ''0a'')" 5000 False sx_start]
    by (auto simp: sx_submit_def sub_core_def handed_over_def reserve_def trackJobSubmission_def split: if_splits)
  moreover have "sub_core sx_accepted = sub_core ((sx_submit ''0a'' sx_start)\<lparr>ss_inflight := [],
      ss_accepted := ss_accepted (sx_submit ''0a'' sx_start) @ [(0, 0, ''0a'', False)]\<rparr>)"
    by (simp add: sx_accepted_def onShareProcessed_def sx_pending_def)
  ultimately show ?thesis by (simp add: sub_core_def sx_start_def)
qed

theorem no_solution_accepted_twice_witness:
  "distinct (map (\<lambda>(j, t, k, sh). (j, k)) (ss_accepted sx_accepted)) \<and> length (ss_accepted sx_accepted) = 1"
proof -
  have "length (map (\<lambda>(j, t, k, sh). (j, k)) (ss_accepted sx_accepted)) = 1" by (simp only: sx_accepted_keys) simp
  then show ?thesis using no_solution_accepted_twice [OF sx_accepted_reach, of 0] by simp
qed

theorem ban_window_witness:
  "fst (checkBans sx_cfg 0 [True, False, True, False] sx_start) = (50 \<le> fl (of_nat (100 * 2) / of_nat 4))"
  using ban_window [of sx_cfg sx_start 0 "[True, False, True, False]"] by (simp add: sx_cfg_def sx_start_def sx_miner_def bad_def)

theorem late_share_value_witness:
  "(case (updateLateShareDifficulty sx_cfg 20000 1000 (Some 10000), updateLateShareDifficulty sx_cfg 25000 1000 (Some 10000)) of
     ((old1, v1), (old2, v2)) \<Rightarrow> 0 \<le> v1 \<and> v1 \<le> 1000 \<and> (old2 \<or> v2 \<le> v1))"
proof -
  have "fl (sc_targetTime sx_cfg * 1000) = 30000" "fl 1000 = 1000"
    using fl_of_int [of 30000] fl_of_int [of 1000] by (simp_all add: sx_cfg_def)
  then show ?thesis using late_share_value [of 1000 sx_cfg 10000 20000 25000] by (auto split: prod.splits)
qed

end
