(* ===== verification/Db_Scan.thy ===== *)
theory Db_Scan
  imports Local_Db
begin

text \<open>
  \<open>scanDb\<close> of \<open>src/lib/long_runner.js\<close>: a walk over a table in chunks, each in its own read
  transaction, that seeks past the last key it has read. The visitor of a row may write to the
  table, and other processes write to it between two chunks. The interface \<open>scan_client\<close> says
  what a visitor must keep for the walk to be a plain fold over the rows.
\<close>

subsection \<open>Cursors\<close>

text \<open>A table is a list of rows in the order of the keys; a cursor is the position of a row.\<close>

type_synonym ('k, 'v) rows = "('k \<times> 'v) list"

definition goToFirst :: "('k, 'v) rows \<Rightarrow> nat option" where
  "goToFirst t = (if t = [] then None else Some 0)"

definition goToLast :: "('k, 'v) rows \<Rightarrow> nat option" where
  "goToLast t = (if t = [] then None else Some (length t - 1))"

definition goToNext :: "('k, 'v) rows \<Rightarrow> nat \<Rightarrow> nat option" where
  "goToNext t i = (if i + 1 < length t then Some (i + 1) else None)"

definition goToPrev :: "nat \<Rightarrow> nat option" where
  "goToPrev i = (if i = 0 then None else Some (i - 1))"

definition goToRange :: "'k::linorder \<Rightarrow> ('k, 'v) rows \<Rightarrow> nat option" where
  "goToRange key t =
     (let i = length (takeWhile (\<lambda>r. fst r < key) t) in if i < length t then Some i else None)"

subsection \<open>The walk\<close>

definition SCAN_CHUNK_SIZE :: nat where
  "SCAN_CHUNK_SIZE = 2000"

text \<open>Where a chunk starts: past the key that was read last, if there is one.\<close>

definition chunkStart :: "bool \<Rightarrow> 'k::linorder option \<Rightarrow> ('k, 'v) rows \<Rightarrow> nat option" where
  "chunkStart reverse resumeKey t =
     (case resumeKey of
        None \<Rightarrow> if reverse then goToLast t else goToFirst t
      | Some key \<Rightarrow>
          if reverse then (case goToRange key t of Some i \<Rightarrow> goToPrev i | None \<Rightarrow> goToLast t)
          else (case goToRange key t of
                  Some i \<Rightarrow> if fst (t ! i) = key then goToNext t i else Some i
                | None \<Rightarrow> None))"

fun readChunk :: "bool \<Rightarrow> ('k, 'v) rows \<Rightarrow> nat \<Rightarrow> nat option \<Rightarrow> ('k, 'v) rows" where
  "readChunk reverse t 0 found = []"
| "readChunk reverse t (Suc n) None = []"
| "readChunk reverse t (Suc n) (Some i) =
     t ! i # readChunk reverse t n (if reverse then goToPrev i else goToNext t i)"

text \<open>\<open>others n\<close>: what other processes do to the state before chunk \<open>n\<close> is read.\<close>

partial_function (option) scanFrom ::
  "('s \<Rightarrow> ('k::linorder, 'v) rows) \<Rightarrow> bool \<Rightarrow> nat \<Rightarrow> ('k \<Rightarrow> 'v \<Rightarrow> 's \<Rightarrow> 's) \<Rightarrow> (nat \<Rightarrow> 's \<Rightarrow> 's) \<Rightarrow> nat \<Rightarrow> 'k option \<Rightarrow> 's \<Rightarrow> 's option" where
  "scanFrom db reverse chunkSize visit others n resumeKey s =
     (let s1 = others n s;
          chunk = readChunk reverse (db s1) chunkSize (chunkStart reverse resumeKey (db s1));
          s2 = fold (\<lambda>(key, data). visit key data) chunk s1
      in if length chunk < chunkSize then Some s2
         else scanFrom db reverse chunkSize visit others (Suc n) (Some (fst (last chunk))) s2)"

definition scanDb ::
  "('s \<Rightarrow> ('k::linorder, 'v) rows) \<Rightarrow> bool \<Rightarrow> int option \<Rightarrow> ('k \<Rightarrow> 'v \<Rightarrow> 's \<Rightarrow> 's) \<Rightarrow> (nat \<Rightarrow> 's \<Rightarrow> 's) \<Rightarrow> 's \<Rightarrow> 's option" where
  "scanDb db reverse configuredChunkSize visit others s =
     scanFrom db reverse
       (case configuredChunkSize of Some c \<Rightarrow> if 0 < c \<and> c \<le> 9007199254740991 then nat c else SCAN_CHUNK_SIZE | None \<Rightarrow> SCAN_CHUNK_SIZE)
       visit others 0 None s"

subsection \<open>What a chunk holds\<close>

definition past :: "bool \<Rightarrow> 'k::linorder option \<Rightarrow> 'k \<Rightarrow> bool" where
  "past reverse resumeKey k \<longleftrightarrow>
     (case resumeKey of None \<Rightarrow> True | Some key \<Rightarrow> if reverse then k < key else key < k)"

definition walk :: "bool \<Rightarrow> ('k, 'v) rows \<Rightarrow> ('k, 'v) rows" where
  "walk reverse t = (if reverse then rev t else t)"

text \<open>The rows that are still to be visited, in the order of the walk.\<close>

definition ahead :: "bool \<Rightarrow> 'k::linorder option \<Rightarrow> ('k, 'v) rows \<Rightarrow> ('k, 'v) rows" where
  "ahead reverse resumeKey t = filter (\<lambda>r. past reverse resumeKey (fst r)) (walk reverse t)"

lemma readChunk_forward: "i \<le> length t \<Longrightarrow> readChunk False t n (if i < length t then Some i else None) = take n (drop i t)"
proof (induction n arbitrary: i)
  case (Suc n)
  show ?case
  proof (cases "i < length t")
    case True
    have "(if i + 1 < length t then Some (i + 1) else None) = goToNext t i" by (simp add: goToNext_def)
    with Suc.IH [of "i + 1"] True show ?thesis by (simp add: Cons_nth_drop_Suc [symmetric] del: drop_Suc)
  qed simp
qed simp

lemma readChunk_reverse: "i \<le> length t \<Longrightarrow> readChunk True t n (if i = 0 then None else Some (i - 1)) = take n (rev (take i t))"
proof (induction n arbitrary: i)
  case (Suc n)
  show ?case
  proof (cases i)
    case (Suc j)
    then have "rev (take i t) = t ! j # rev (take j t)" using Suc.prems by (simp add: take_Suc_conv_app_nth)
    moreover have "goToPrev j = (if j = 0 then None else Some (j - 1))" by (simp add: goToPrev_def)
    ultimately show ?thesis using Suc.IH [of j] Suc.prems Suc by simp
  qed simp
qed simp

lemma takeWhile_less: "sorted (map fst t) \<Longrightarrow> takeWhile (\<lambda>r. fst r < key) t = filter (\<lambda>r. fst r < key) t"
  by (induction t) (auto simp: filter_empty_conv [THEN iffD2, symmetric] intro!: filter_False [symmetric])

lemma dropWhile_less: "sorted (map fst t) \<Longrightarrow> dropWhile (\<lambda>r. fst r < key) t = filter (\<lambda>r. key \<le> fst r) t"
proof (induction t)
  case (Cons r t)
  then show ?case by (cases "fst r < key") (auto simp: not_less intro!: filter_True [symmetric])
qed simp

lemma drop_range: "drop (length (takeWhile P t)) t = dropWhile P t"
  by (induction t) auto

lemma take_range: "take (length (takeWhile P t)) t = takeWhile P t"
  by (induction t) auto

lemma readChunk_ahead:
  assumes "ordered t"
  shows "readChunk reverse t n (chunkStart reverse resumeKey t) = take n (ahead reverse resumeKey t)"
proof (cases resumeKey)
  case None
  then show ?thesis
    using readChunk_forward [of 0 t n] readChunk_reverse [of "length t" t n]
    by (cases reverse) (auto simp: chunkStart_def goToFirst_def goToLast_def ahead_def past_def walk_def)
next
  case (Some key)
  define i where "i = length (takeWhile (\<lambda>r. fst r < key) t)"
  have s: "sorted (map fst t)" "distinct (map fst t)" using assms by (auto simp: ordered_def)
  have i: "i \<le> length t" by (simp add: i_def length_takeWhile_le)
  have range: "goToRange key t = (if i < length t then Some i else None)" by (simp add: goToRange_def i_def Let_def)
  show ?thesis
  proof (cases reverse)
    case True
    have start: "chunkStart reverse resumeKey t = (if i = 0 then None else Some (i - 1))"
    proof (cases "i < length t")
      case False
      then have "i = length t" using i by simp
      then show ?thesis using True Some by (auto simp: chunkStart_def range goToLast_def)
    qed (use True Some in \<open>simp add: chunkStart_def range goToPrev_def\<close>)
    have "take i t = filter (\<lambda>r. fst r < key) t" unfolding i_def take_range by (rule takeWhile_less [OF s(1)])
    with True Some show ?thesis
      unfolding start using readChunk_reverse [OF i, of n] by (simp add: ahead_def past_def walk_def rev_filter)
  next
    case False
    have rest: "drop i t = filter (\<lambda>r. key \<le> fst r) t" by (simp add: i_def drop_range dropWhile_less s)
    have tail: "readChunk False t n (chunkStart False (Some key) t) = take n (filter (\<lambda>r. key < fst r) t)"
    proof (cases "i < length t \<and> fst (t ! i) = key")
      case True
      then have next': "chunkStart False (Some key) t = (if i + 1 < length t then Some (i + 1) else None)"
        by (simp add: chunkStart_def range goToNext_def)
      have cons: "drop i t = t ! i # drop (i + 1) t" using True by (simp add: Cons_nth_drop_Suc)
      have "filter (\<lambda>r. key < fst r) t = filter (\<lambda>r. fst r \<noteq> key) (drop i t)"
        unfolding rest by (auto intro: filter_cong)
      also have "\<dots> = filter (\<lambda>r. fst r \<noteq> key) (drop (i + 1) t)" using True by (simp add: cons)
      also have "\<dots> = drop (i + 1) t"
      proof (rule filter_True, intro ballI notI)
        fix r assume "r \<in> set (drop (i + 1) t)" "fst r = key"
        then have "key \<in> set (map fst (drop (i + 1) t))" by force
        moreover have "distinct (map fst (drop i t))" using s(2) by (simp add: drop_map [symmetric] distinct_drop)
        ultimately show False using True by (simp add: cons)
      qed
      finally have "filter (\<lambda>r. key < fst r) t = drop (i + 1) t" .
      then show ?thesis unfolding next' using readChunk_forward [of "i + 1" t n] True by simp
    next
      case False
      then have start: "chunkStart False (Some key) t = (if i < length t then Some i else None)"
        by (auto simp: chunkStart_def range)
      have "key < fst r" if "r \<in> set (drop i t)" for r
      proof (cases "i < length t")
        case True
        with False have "fst (t ! i) \<noteq> key" by simp
        moreover have "t ! i \<in> set (drop i t)" using True by (simp add: Cons_nth_drop_Suc [symmetric])
        then have "key \<le> fst (t ! i)" unfolding rest by simp
        moreover have "fst (t ! i) \<le> fst r"
        proof -
          have "sorted (map fst (drop i t))" using s(1) by (simp add: drop_map [symmetric] sorted_wrt_drop)
          then show ?thesis using that True by (auto simp: Cons_nth_drop_Suc [symmetric])
        qed
        ultimately show ?thesis by simp
      next
        case False
        with that i show ?thesis by simp
      qed
      then have "filter (\<lambda>r. key < fst r) t = drop i t"
        unfolding rest by (auto intro!: filter_cong simp: rest order.strict_iff_order)
      then show ?thesis unfolding start using readChunk_forward [OF i, of n] by simp
    qed
    with False Some show ?thesis by (simp add: ahead_def past_def walk_def)
  qed
qed


subsection \<open>An undisturbed walk\<close>

lemma sorted_ahead:
  assumes "ordered t"
  shows "sorted_wrt (\<lambda>a b. past reverse (Some (fst a)) (fst b)) (ahead reverse r t)"
proof -
  have "sorted_wrt (<) (map fst t)" using assms by (simp add: ordered_def strict_sorted_iff)
  then have "sorted_wrt (\<lambda>a b. fst a < fst b) t" by (simp add: sorted_wrt_map)
  then have "sorted_wrt (\<lambda>a b. past reverse (Some (fst a)) (fst b)) (walk reverse t)"
    by (cases reverse) (simp_all add: walk_def past_def sorted_wrt_rev)
  then show ?thesis unfolding ahead_def by (rule sorted_wrt_filter)
qed

lemma ahead_Cons:
  assumes "ordered t" "ahead reverse r t = (k, v) # rest"
  shows "ahead reverse (Some k) t = rest" "past reverse r k"
proof -
  have k: "(k, v) \<in> set (ahead reverse r t)" using assms(2) by simp
  then show p: "past reverse r k" by (simp add: ahead_def)
  have "sorted_wrt (\<lambda>a b. past reverse (Some (fst a)) (fst b)) ((k, v) # rest)"
    unfolding assms(2) [symmetric] by (rule sorted_ahead [OF assms(1)])
  then have later: "filter (\<lambda>x. past reverse (Some k) (fst x)) rest = rest" by (auto intro: filter_True)
  have "ahead reverse (Some k) t = filter (\<lambda>x. past reverse (Some k) (fst x)) (ahead reverse r t)"
    using p by (auto simp: ahead_def past_def intro!: filter_cong split: option.splits if_splits)
  also have "\<dots> = rest" unfolding assms(2) using later by (simp add: past_def)
  finally show "ahead reverse (Some k) t = rest" .
qed

lemma chunk_pos: "0 < (case c of Some c \<Rightarrow> if 0 < c \<and> c \<le> 9007199254740991 then nat c else SCAN_CHUNK_SIZE | None \<Rightarrow> SCAN_CHUNK_SIZE)"
  by (auto simp: SCAN_CHUNK_SIZE_def split: option.split)

text \<open>\<open>good r\<close> holds of the state when \<open>r\<close> is the key that was visited last.\<close>

locale scan_client =
  fixes db :: "'s \<Rightarrow> ('k::linorder, 'v) rows" and reverse :: bool and visit :: "'k \<Rightarrow> 'v \<Rightarrow> 's \<Rightarrow> 's"
    and good :: "'k option \<Rightarrow> 's \<Rightarrow> bool"
  assumes good_ordered: "good r s \<Longrightarrow> ordered (db s)"
    and visit_good: "good r s \<Longrightarrow> past reverse r k \<Longrightarrow> good (Some k) (visit k v s)"
    and visit_ahead: "good r s \<Longrightarrow> past reverse r k \<Longrightarrow>
      ahead reverse (Some k) (db (visit k v s)) = ahead reverse (Some k) (db s)"
begin

lemma fold_ahead:
  "good r s \<Longrightarrow> ahead reverse r (db s) = xs @ ys \<Longrightarrow> xs \<noteq> [] \<Longrightarrow>
   good (Some (fst (last xs))) (fold (\<lambda>(k, v). visit k v) xs s) \<and>
   ahead reverse (Some (fst (last xs))) (db (fold (\<lambda>(k, v). visit k v) xs s)) = ys"
proof (induction xs arbitrary: r s)
  case (Cons x xs)
  obtain k v where x: "x = (k, v)" by force
  have o: "ordered (db s)" using Cons.prems(1) by (rule good_ordered)
  from ahead_Cons [OF o, of reverse r k v "xs @ ys"] Cons.prems(2) x
  have a: "ahead reverse (Some k) (db s) = xs @ ys" and p: "past reverse r k" by simp_all
  have g: "good (Some k) (visit k v s)" using visit_good [OF Cons.prems(1) p] .
  have "ahead reverse (Some k) (db (visit k v s)) = xs @ ys" using visit_ahead [OF Cons.prems(1) p] a by simp
  with Cons.IH [OF g] g x show ?case by (cases xs) auto
qed simp

lemma scan_fold:
  assumes quiet: "\<And>r s n. good r s \<Longrightarrow> others n s = s" and "0 < n"
  shows "good r s \<Longrightarrow> scanFrom db reverse n visit others m r s = Some (fold (\<lambda>(k, v). visit k v) (ahead reverse r (db s)) s)"
proof (induction "length (ahead reverse r (db s))" arbitrary: r s m rule: less_induct)
  case less
  let ?a = "ahead reverse r (db s)"
  have chunk: "readChunk reverse (db s) n (chunkStart reverse r (db s)) = take n ?a"
    using readChunk_ahead [OF good_ordered [OF less.prems]] .
  show ?case
  proof (cases "length ?a < n")
    case True
    then show ?thesis by (subst scanFrom.simps) (simp add: chunk Let_def quiet [OF less.prems])
  next
    case False
    let ?s = "fold (\<lambda>(k, v). visit k v) (take n ?a) s" and ?r = "Some (fst (last (take n ?a)))"
    have ne: "take n ?a \<noteq> []" using False assms(2) by auto
    from fold_ahead [OF less.prems, of "take n ?a" "drop n ?a"] ne
    have g: "good ?r ?s" and a: "ahead reverse ?r (db ?s) = drop n ?a" by simp_all
    have "scanFrom db reverse n visit others (Suc m) ?r ?s = Some (fold (\<lambda>(k, v). visit k v) (drop n ?a) ?s)"
      using less.hyps [OF _ g, of "Suc m"] False assms(2) a by (simp add: a)
    also have "fold (\<lambda>(k, v). visit k v) (drop n ?a) ?s = fold (\<lambda>(k, v). visit k v) ?a s"
      by (metis append_take_drop_id comp_apply fold_append)
    finally show ?thesis using False by (subst scanFrom.simps) (simp add: chunk Let_def quiet [OF less.prems])
  qed
qed

lemma scanDb_fold:
  assumes "\<And>r s n. good r s \<Longrightarrow> others n s = s" "good None s"
  shows "scanDb db reverse c visit others s = Some (fold (\<lambda>(k, v). visit k v) (walk reverse (db s)) s)"
  using scan_fold [OF assms(1) chunk_pos assms(2)] by (simp add: scanDb_def ahead_def past_def)

end

subsection \<open>A walk beside other processes\<close>

lemma past_shrinks:
  assumes "x \<in> K" "past reverse r x"
  shows "{k \<in> K. past reverse (Some x) k} \<subset> {k \<in> K. past reverse r k}"
proof -
  have "past reverse r k" if "past reverse (Some x) k" for k
    using that assms(2) by (auto simp: past_def split: option.splits if_splits)
  moreover have "\<not> past reverse (Some x) x" by (simp add: past_def)
  ultimately show ?thesis using assms by blast
qed

text \<open>A visitor may see a row that another process has changed since the chunk was read.\<close>

locale scan_guard =
  fixes db :: "'s \<Rightarrow> ('k::linorder, 'v) rows" and reverse :: bool and visit :: "'k \<Rightarrow> 'v \<Rightarrow> 's \<Rightarrow> 's"
    and others :: "nat \<Rightarrow> 's \<Rightarrow> 's" and inv :: "'s \<Rightarrow> bool"
  assumes inv_ordered: "inv s \<Longrightarrow> ordered (db s)"
    and others_inv: "inv s \<Longrightarrow> inv (others n s)"
    and visit_inv: "inv s1 \<Longrightarrow> (k, v) \<in> set (db s1) \<Longrightarrow> inv s \<Longrightarrow> inv (visit k v s)"
begin

lemma fold_inv: "inv s1 \<Longrightarrow> set xs \<subseteq> set (db s1) \<Longrightarrow> inv s \<Longrightarrow> inv (fold (\<lambda>(k, v). visit k v) xs s)"
  by (induction xs arbitrary: s) (auto intro: visit_inv)

lemma chunk_rows: "inv s \<Longrightarrow> set (readChunk reverse (db s) n (chunkStart reverse r (db s))) \<subseteq> set (db s)"
proof -
  assume "inv s"
  then have "readChunk reverse (db s) n (chunkStart reverse r (db s)) = take n (ahead reverse r (db s))"
    by (intro readChunk_ahead inv_ordered)
  then show ?thesis by (auto simp: ahead_def walk_def split: if_splits dest!: in_set_takeD)
qed

lemma scan_inv:
  assumes "scanFrom db reverse n visit others m r s = Some t" and "inv s"
  shows "inv t"
proof -
  have "db = db \<and> visit = visit \<and> others = others \<and> reverse = reverse \<longrightarrow> inv s \<longrightarrow> inv t"
  proof (rule scanFrom.raw_induct [OF _ assms(1), of "\<lambda>db' reverse' n visit' others' m r s t.
      db' = db \<and> visit' = visit \<and> others' = others \<and> reverse' = reverse \<longrightarrow> inv s \<longrightarrow> inv t"])
    fix f db' reverse' n visit' others' m r s t
    assume IH: "\<And>db' reverse' n visit' others' m r s t. f db' reverse' n visit' others' m r s = Some t \<Longrightarrow>
        db' = db \<and> visit' = visit \<and> others' = others \<and> reverse' = reverse \<longrightarrow> inv s \<longrightarrow> inv t"
      and run: "(let s1 = others' m s; chunk = readChunk reverse' (db' s1) n (chunkStart reverse' r (db' s1));
          s2 = fold (\<lambda>(key, data). visit' key data) chunk s1
          in if length chunk < n then Some s2
             else f db' reverse' n visit' others' (Suc m) (Some (fst (last chunk))) s2) = Some t"
    show "db' = db \<and> visit' = visit \<and> others' = others \<and> reverse' = reverse \<longrightarrow> inv s \<longrightarrow> inv t"
    proof (intro impI, elim conjE)
      assume eqs: "db' = db" "visit' = visit" "others' = others" "reverse' = reverse" and "inv s"
      then have i1: "inv (others m s)" by (simp add: others_inv)
      from fold_inv [OF i1 chunk_rows [OF i1] i1, of n r]
      show "inv t" using run IH [of db reverse n visit others "Suc m"] by (auto simp: eqs Let_def split: if_splits)
    qed
  qed
  then show ?thesis using assms(2) by simp
qed

lemma scan_returns:
  assumes "finite K" "0 < n" and keys: "\<And>s. inv s \<Longrightarrow> fst ` set (db s) \<subseteq> K"
  shows "inv s \<Longrightarrow> \<exists>t. scanFrom db reverse n visit others m r s = Some t"
proof (induction "card {k \<in> K. past reverse r k}" arbitrary: r s m rule: less_induct)
  case less
  define s1 where "s1 = others m s"
  let ?chunk = "readChunk reverse (db s1) n (chunkStart reverse r (db s1))"
  let ?s = "fold (\<lambda>(k, v). visit k v) ?chunk s1" and ?r = "Some (fst (last ?chunk))"
  have i1: "inv s1" using less.prems by (simp add: s1_def others_inv)
  have eq: "scanFrom db reverse n visit others m r s =
      (if length ?chunk < n then Some ?s else scanFrom db reverse n visit others (Suc m) ?r ?s)"
    by (subst scanFrom.simps) (simp add: Let_def s1_def)
  show ?case
  proof (cases "length ?chunk < n")
    case False
    have i: "inv ?s" using fold_inv [OF i1 chunk_rows [OF i1] i1] .
    have c: "?chunk = take n (ahead reverse r (db s1))" using readChunk_ahead [OF inv_ordered [OF i1]] .
    have "?chunk \<noteq> []" using False assms(2) by auto
    then have l: "last ?chunk \<in> set ?chunk" by simp
    have "fst (last ?chunk) \<in> K" using l keys [OF i1] chunk_rows [OF i1, of n r] by blast
    moreover have "last ?chunk \<in> set (ahead reverse r (db s1))"
      using l unfolding c by (rule in_set_takeD)
    then have "past reverse r (fst (last ?chunk))" by (simp add: ahead_def)
    ultimately have "fst (last ?chunk) \<in> K" "past reverse r (fst (last ?chunk))" by blast+
    then have "{k \<in> K. past reverse ?r k} \<subset> {k \<in> K. past reverse r k}" by (rule past_shrinks)
    then have "card {k \<in> K. past reverse ?r k} < card {k \<in> K. past reverse r k}"
      using assms(1) by (intro psubset_card_mono) auto
    from less.hyps [OF this i] False show ?thesis unfolding eq by simp
  qed (simp add: eq)
qed

lemma scanDb_inv: "scanDb db reverse c visit others s = Some t \<Longrightarrow> inv s \<Longrightarrow> inv t"
  unfolding scanDb_def by (rule scan_inv)

lemma scanDb_returns:
  assumes "finite K" "\<And>s. inv s \<Longrightarrow> fst ` set (db s) \<subseteq> K" "inv s"
  shows "\<exists>t. scanDb db reverse c visit others s = Some t"
  unfolding scanDb_def by (rule scan_returns [OF assms(1) chunk_pos assms(2,3)])

end


subsection \<open>A walk over rows that the visitor deletes\<close>

text \<open>
  When a visit may delete rows that are still ahead, the walk passes over their keys. \<open>gap k\<close>
  says what is known of a key without a row, \<open>seen k v\<close> of a row that was read; \<open>inv r\<close> holds of
  the state when every key up to \<open>r\<close> was visited or passed over.
\<close>

locale scan_cover =
  fixes db :: "'s \<Rightarrow> ('k::linorder, 'v) rows" and reverse :: bool and visit :: "'k \<Rightarrow> 'v \<Rightarrow> 's \<Rightarrow> 's"
    and others :: "nat \<Rightarrow> 's \<Rightarrow> 's" and inv :: "'k option \<Rightarrow> 's \<Rightarrow> bool" and gap :: "'k \<Rightarrow> 's \<Rightarrow> bool" and seen :: "'k \<Rightarrow> 'v \<Rightarrow> bool"
  assumes cover_ordered: "inv r s \<Longrightarrow> ordered (db s)"
    and cover_others: "inv r s \<Longrightarrow> inv r (others n s)"
    and row_seen: "inv r s \<Longrightarrow> past reverse r k \<Longrightarrow> (k, v) \<in> set (db s) \<Longrightarrow> seen k v"
    and row_gap: "inv r s \<Longrightarrow> k \<notin> fst ` set (db s) \<Longrightarrow> gap k s"
    and gap_visit: "inv r s \<Longrightarrow> seen k' v \<Longrightarrow> gap k s \<Longrightarrow> gap k (visit k' v s)"
    and cover_visit: "inv r s \<Longrightarrow> seen k v \<Longrightarrow> past reverse r k \<Longrightarrow>
      (\<And>k'. past reverse r k' \<Longrightarrow> \<not> past reverse (Some k) k' \<Longrightarrow> k' \<noteq> k \<Longrightarrow> gap k' s) \<Longrightarrow> inv (Some k) (visit k v s)"
begin

lemma fold_cover:
  "inv r s \<Longrightarrow> (\<And>k v. (k, v) \<in> set xs \<Longrightarrow> seen k v) \<Longrightarrow>
   sorted_wrt (\<lambda>a b. past reverse (Some (fst a)) (fst b)) xs \<Longrightarrow> (\<And>x. x \<in> set xs \<Longrightarrow> past reverse r (fst x)) \<Longrightarrow>
   (\<And>k. k \<in> G \<Longrightarrow> gap k s) \<Longrightarrow>
   (\<And>k. xs \<noteq> [] \<Longrightarrow> past reverse r k \<Longrightarrow> k \<notin> fst ` set xs \<Longrightarrow> \<not> past reverse (Some (fst (last xs))) k \<Longrightarrow> k \<in> G) \<Longrightarrow>
   inv (if xs = [] then r else Some (fst (last xs))) (fold (\<lambda>(k, v). visit k v) xs s) \<and>
   (\<forall>k \<in> G. gap k (fold (\<lambda>(k, v). visit k v) xs s))"
proof (induction xs arbitrary: r s)
  case (Cons x xs)
  obtain k v where x: "x = (k, v)" by force
  have later: "past reverse (Some k) (fst y)" if "y \<in> set xs" for y using Cons.prems(3) that by (auto simp: x)
  have p: "past reverse r k" using Cons.prems(4) [of x] by (simp add: x)
  have sn: "seen k v" using Cons.prems(2) by (simp add: x)
  have trans: "past reverse q k'" if "past reverse (Some z) k'" "past reverse q z" for q z k'
    using that by (auto simp: past_def split: option.splits if_splits)
  have irrefl: "\<not> past reverse (Some z) z" for z by (simp add: past_def)
  have inv': "inv (Some k) (visit k v s)"
  proof (rule cover_visit [OF Cons.prems(1) sn p])
    fix k' assume k': "past reverse r k'" "\<not> past reverse (Some k) k'" "k' \<noteq> k"
    have "\<not> past reverse (Some (fst (last (x # xs)))) k'"
      using k'(2) trans [of "fst (last xs)" k' "Some k"] later [of "last xs"] by (cases "xs = []") (auto simp: x)
    moreover have "k' \<notin> fst ` set (x # xs)" using later k' by (auto simp: x)
    ultimately show "gap k' s" using Cons.prems(5,6) k'(1) by blast
  qed
  have "inv (if xs = [] then Some k else Some (fst (last xs))) (fold (\<lambda>(k, v). visit k v) xs (visit k v s)) \<and>
      (\<forall>k' \<in> G. gap k' (fold (\<lambda>(k, v). visit k v) xs (visit k v s)))"
  proof (rule Cons.IH [OF inv'])
    show "sorted_wrt (\<lambda>a b. past reverse (Some (fst a)) (fst b)) xs" using Cons.prems(3) by simp
    show "gap k' (visit k v s)" if "k' \<in> G" for k' using gap_visit [OF Cons.prems(1) sn Cons.prems(5) [OF that]] .
    show "k' \<in> G" if "xs \<noteq> []" "past reverse (Some k) k'" "k' \<notin> fst ` set xs" "\<not> past reverse (Some (fst (last xs))) k'" for k'
    proof (rule Cons.prems(6))
      show "past reverse r k'" using trans [OF that(2) p] .
      show "k' \<notin> fst ` set (x # xs)" using that irrefl by (auto simp: x)
    qed (use that in simp_all)
  qed (use Cons.prems(2) later in auto)
  then show ?case by (cases "xs = []") (simp_all add: x)
qed simp

lemma scan_covers:
  assumes "finite K" "0 < n" and keys: "\<And>r s. inv r s \<Longrightarrow> fst ` set (db s) \<subseteq> K"
  shows "inv r s \<Longrightarrow> \<exists>t r'. scanFrom db reverse n visit others m r s = Some t \<and> inv r' t \<and> (\<forall>k. past reverse r' k \<longrightarrow> gap k t)"
proof (induction "card {k \<in> K. past reverse r k}" arbitrary: r s m rule: less_induct)
  case less
  define s1 where "s1 = others m s"
  let ?chunk = "readChunk reverse (db s1) n (chunkStart reverse r (db s1))"
  let ?s = "fold (\<lambda>(k, v). visit k v) ?chunk s1" and ?r = "if ?chunk = [] then r else Some (fst (last ?chunk))"
  have i1: "inv r s1" using less.prems by (simp add: s1_def cover_others)
  have o: "ordered (db s1)" using i1 by (rule cover_ordered)
  have eq: "scanFrom db reverse n visit others m r s =
      (if length ?chunk < n then Some ?s else scanFrom db reverse n visit others (Suc m) (Some (fst (last ?chunk))) ?s)"
    by (subst scanFrom.simps) (simp add: Let_def s1_def)
  define a where "a = ahead reverse r (db s1)"
  have c: "?chunk = take n a" unfolding a_def using readChunk_ahead [OF o] .
  have rows: "x \<in> set (db s1)" "past reverse r (fst x)" if "x \<in> set a" for x
    using that by (auto simp: a_def ahead_def walk_def split: if_splits)
  have all: "k \<in> fst ` set a" if "k \<in> fst ` set (db s1)" "past reverse r k" for k
    using that by (force simp: a_def ahead_def walk_def)
  have sorted: "sorted_wrt (\<lambda>a b. past reverse (Some (fst a)) (fst b)) a" unfolding a_def by (rule sorted_ahead [OF o])
  have taken: "set (take n a) \<subseteq> set a" by (rule set_take_subset)
  have cov: "inv ?r ?s \<and> (\<forall>k \<in> - fst ` set (db s1). gap k ?s)"
    unfolding c
  proof (rule fold_cover [OF i1])
    show "seen k v" if "(k, v) \<in> set (take n a)" for k v using that taken rows [of "(k, v)"] row_seen [OF i1] by auto
    show "sorted_wrt (\<lambda>a b. past reverse (Some (fst a)) (fst b)) (take n a)" using sorted by (rule sorted_wrt_take)
    show "past reverse r (fst x)" if "x \<in> set (take n a)" for x using that taken rows(2) by blast
    show "gap k s1" if "k \<in> - fst ` set (db s1)" for k using that row_gap [OF i1] by simp
    show "k \<in> - fst ` set (db s1)" if "take n a \<noteq> []" "past reverse r k" "k \<notin> fst ` set (take n a)"
      "\<not> past reverse (Some (fst (last (take n a)))) k" for k
    proof
      note hyps = that
      assume "k \<in> fst ` set (db s1)"
      then have "k \<in> fst ` (set (take n a) \<union> set (drop n a))" using all hyps(2)
        by (metis append_take_drop_id set_append)
      then obtain y where y: "y \<in> set (drop n a)" "k = fst y" using hyps(3) by blast
      have "sorted_wrt (\<lambda>a b. past reverse (Some (fst a)) (fst b)) (take n a @ drop n a)" using sorted by simp
      then have "past reverse (Some (fst (last (take n a)))) (fst y)"
        unfolding sorted_wrt_append using that(1) y(1) by (metis last_in_set)
      then show False using that(4) y(2) by simp
    qed
  qed
  show ?case
  proof (cases "length ?chunk < n")
    case True
    then have ca: "?chunk = a" unfolding c by simp
    have "gap k ?s" if "past reverse ?r k" for k
    proof -
      have "k \<notin> fst ` set (db s1)"
      proof
        assume k: "k \<in> fst ` set (db s1)"
        show False
        proof (cases "a = []")
          case True
          then show ?thesis using all [OF k] that by (simp add: ca)
        next
          case False
          have l: "last a \<in> set a" using False by simp
          have "past reverse r k" using that False rows(2) [OF l] by (auto simp: ca past_def split: option.splits if_splits)
          then obtain y where y: "y \<in> set a" "k = fst y" using all [OF k] by blast
          have "a = butlast a @ [last a]" using False by simp
          then have "sorted_wrt (\<lambda>a b. past reverse (Some (fst a)) (fst b)) (butlast a @ [last a])" "y \<in> set (butlast a) \<or> y = last a"
            using sorted y(1) by (metis, metis Un_iff set_append set_ConsD empty_iff empty_set)
          then have "y = last a \<or> past reverse (Some (fst y)) (fst (last a))" by (auto simp: sorted_wrt_append)
          then show ?thesis using that False y(2) by (auto simp: ca past_def split: if_splits)
        qed
      qed
      then show ?thesis using cov by simp
    qed
    with cov True show ?thesis unfolding eq by auto
  next
    case False
    then have ne: "?chunk \<noteq> []" using assms(2) by auto
    then have l: "last ?chunk \<in> set a" using taken c by (metis last_in_set subsetD)
    have "fst (last ?chunk) \<in> K" using rows(1) [OF l] keys [OF i1] by blast
    from past_shrinks [OF this rows(2) [OF l]]
    have "card {k \<in> K. past reverse (Some (fst (last ?chunk))) k} < card {k \<in> K. past reverse r k}"
      using assms(1) by (intro psubset_card_mono) auto
    from less.hyps [OF this, of ?s "Suc m"] cov ne False show ?thesis unfolding eq by simp
  qed
qed

lemma scanDb_covers:
  assumes "finite K" "\<And>r s. inv r s \<Longrightarrow> fst ` set (db s) \<subseteq> K" "inv None s"
  shows "\<exists>t r. scanDb db reverse c visit others s = Some t \<and> inv r t \<and> (\<forall>k. past reverse r k \<longrightarrow> gap k t)"
  unfolding scanDb_def by (rule scan_covers [OF assms(1) chunk_pos assms(2,3)])

end

end
