(* ===== verification/Long_Runner.thy ===== *)
theory Long_Runner
  imports Db_Scan Block_Store
begin

text \<open>
  The cleanup of old block rows, \<open>src/lib/long_runner.js\<close>: altblocks that were paid long ago, the
  weights of blocks that were paid some days ago, and the timer that never runs a task twice at
  the same time. The writes of other processes come between any two transactions; they are a list
  of functions on the store, taken one at a time. A write error ends a task and leaves what was
  committed. Log lines and their counters are left out.
\<close>

definition DAY_MS :: int where "DAY_MS = 86400000"
definition WEEK_MS :: int where "WEEK_MS = 7 * DAY_MS"
definition MONTH_MS :: int where "MONTH_MS = 30 * DAY_MS"
definition YEAR_MS :: int where "YEAR_MS = 365 * DAY_MS"
definition LMDB_BATCH_SIZE :: nat where "LMDB_BATCH_SIZE = 500"
definition SQL_DELETE_BATCH_SIZE :: nat where "SQL_DELETE_BATCH_SIZE = 250"

text \<open>A key that is not in the table any more is passed over.\<close>

definition flushDeletes :: "'k list \<Rightarrow> ('k, 'v) rows \<Rightarrow> ('k, 'v) rows" where
  "flushDeletes keys t = filter (\<lambda>r. fst r \<notin> set keys) t"

subsection \<open>Altblocks\<close>

record alt_cleaner =
  al_db :: local_db
  al_perPort :: "int \<Rightarrow> nat"
  al_deletes :: "nat list"
  al_others :: "(local_db \<Rightarrow> local_db) list"

definition al_interfere :: "alt_cleaner \<Rightarrow> alt_cleaner" where
  "al_interfere s = (case al_others s of [] \<Rightarrow> s | f # fs \<Rightarrow> s\<lparr>al_db := f (al_db s), al_others := fs\<rparr>)"

definition al_flush :: "alt_cleaner \<Rightarrow> alt_cleaner" where
  "al_flush s0 =
     (if al_deletes s0 = [] then s0
      else let s = al_interfere s0
           in s\<lparr>al_db := (al_db s)\<lparr>altblockDB := flushDeletes (al_deletes s) (altblockDB (al_db s))\<rparr>, al_deletes := []\<rparr>)"

definition visitAltBlock :: "int \<Rightarrow> nat \<Rightarrow> alt_msg \<Rightarrow> alt_cleaner \<Rightarrow> alt_cleaner" where
  "visitAltBlock now key block s0 =
     (let portCount = al_perPort s0 (a_port block) + 1;
          s = s0\<lparr>al_perPort := (al_perPort s0)(a_port block := portCount)\<rparr>
      in if \<not> b_unlocked block then s
         else if portCount \<le> 10000 \<and> now - b_timestamp block \<le> YEAR_MS then s
         else
           let s1 = s\<lparr>al_deletes := al_deletes s @ [key]\<rparr>
           in if LMDB_BATCH_SIZE \<le> length (al_deletes s1) then al_flush s1 else s1)"

definition cleanAltBlockDB :: "int \<Rightarrow> int option \<Rightarrow> (local_db \<Rightarrow> local_db) list \<Rightarrow> local_db \<Rightarrow> local_db option" where
  "cleanAltBlockDB now chunkSize others d =
     map_option (\<lambda>s. al_db (al_flush s))
       (scanDb (\<lambda>s. altblockDB (al_db s)) True chunkSize (visitAltBlock now) (\<lambda>_. al_interfere)
          \<lparr>al_db = d, al_perPort = (\<lambda>_. 0), al_deletes = [], al_others = others\<rparr>)"

text \<open>
  What is kept, as a condition on the table: locked blocks, and the ten thousand newest blocks
  of a port if they are not older than a year.
\<close>

definition newer_of_port :: "(nat \<times> alt_msg) list \<Rightarrow> nat \<Rightarrow> alt_msg \<Rightarrow> nat" where
  "newer_of_port t k r = length (filter (\<lambda>x. k < fst x \<and> a_port (snd x) = a_port r) t)"

definition alt_kept :: "int \<Rightarrow> (nat \<times> alt_msg) list \<Rightarrow> nat \<times> alt_msg \<Rightarrow> bool" where
  "alt_kept now t x \<longleftrightarrow>
     \<not> b_unlocked (snd x) \<or> newer_of_port t (fst x) (snd x) < 10000 \<and> now - b_timestamp (snd x) \<le> YEAR_MS"

subsection \<open>Weights of paid blocks\<close>

definition collectLockedBlockHashes :: "local_db \<Rightarrow> string set" where
  "collectLockedBlockHashes d =
     b_hash ` snd ` set (getValidLockedBlocks d) \<union> b_hash ` snd ` set (getValidLockedAltBlocks d)"

definition deleteBlockBalanceBatch :: "string list \<Rightarrow> bm_db \<Rightarrow> bm_db" where
  "deleteBlockBalanceBatch hexes d = d\<lparr>block_balance := filter (\<lambda>r. bb_hex r \<notin> set hexes) (block_balance d)\<rparr>"

text \<open>\<open>executed n\<close>: whether statement \<open>n\<close> takes effect; an error is logged and the loop goes on.\<close>

fun deleteBatches :: "(nat \<Rightarrow> bm_db \<Rightarrow> bm_db) \<Rightarrow> (nat \<Rightarrow> bool) \<Rightarrow> nat \<Rightarrow> string list list \<Rightarrow> bm_db \<Rightarrow> bm_db" where
  "deleteBatches others executed n [] d = d"
| "deleteBatches others executed n (hexes # rest) d =
     (let d1 = others n d
      in deleteBatches others executed (n + 1) rest (if executed n then deleteBlockBalanceBatch hexes d1 else d1))"

text \<open>
  \<open>recent\<close> is the condition of the query on \<open>paid_time\<close>. A select that fails ends the task.
\<close>

definition cleanBlockBalanceTable ::
  "(paid_block \<Rightarrow> bool) \<Rightarrow> (nat \<Rightarrow> bm_db \<Rightarrow> bm_db) \<Rightarrow> (nat \<Rightarrow> bool) \<Rightarrow> bm_db \<Rightarrow> bm_db" where
  "cleanBlockBalanceTable recent others executed d =
     (let locked = collectLockedBlockHashes (bm_local d); d0 = others 0 d
      in if \<not> executed 0 then d0
         else
           let keepHexes = locked \<union> pb_hex ` set (filter recent (paid_blocks d0)); d1 = others 1 d0
           in if \<not> executed 1 then d1
              else deleteBatches others executed 2
                     (chunks SQL_DELETE_BATCH_SIZE (filter (\<lambda>h. h \<notin> keepHexes) (remdups (map bb_hex (block_balance d1))))) d1)"

subsection \<open>Timers\<close>

record task_state =
  lr_running :: bool
  lr_active :: nat

text \<open>A task is run by its timer unless it runs already; \<open>runTask\<close> catches its errors.\<close>

definition taskTimer :: "task_state \<Rightarrow> task_state" where
  "taskTimer s = (if lr_running s then s else s\<lparr>lr_running := True, lr_active := lr_active s + 1\<rparr>)"

definition taskDone :: "task_state \<Rightarrow> task_state" where
  "taskDone s = s\<lparr>lr_running := False, lr_active := lr_active s - 1\<rparr>"

inductive task_reach :: "task_state \<Rightarrow> bool" where
  installed: "task_reach \<lparr>lr_running = False, lr_active = 0\<rparr>"
| timer: "task_reach s \<Longrightarrow> task_reach (taskTimer s)"
| ended: "task_reach s \<Longrightarrow> 0 < lr_active s \<Longrightarrow> task_reach (taskDone s)"

lemma task_once: "task_reach s \<Longrightarrow> lr_active s = (if lr_running s then 1 else 0)"
  by (induction rule: task_reach.induct) (auto simp: taskTimer_def taskDone_def split: if_splits)

subsection \<open>An undisturbed cleanup of the altblocks\<close>

definition al_good :: "nat option \<Rightarrow> alt_cleaner \<Rightarrow> bool" where
  "al_good r s \<longleftrightarrow> ordered (altblockDB (al_db s)) \<and> al_others s = [] \<and>
     (\<forall>k \<in> set (al_deletes s). r \<noteq> None \<and> \<not> past True r k)"

lemma ahead_flush:
  assumes "\<And>k. k \<in> set keys \<Longrightarrow> \<not> past reverse r k"
  shows "ahead reverse r (flushDeletes keys t) = ahead reverse r t"
proof -
  have "walk reverse (flushDeletes keys t) = filter (\<lambda>r. fst r \<notin> set keys) (walk reverse t)"
    by (simp add: flushDeletes_def walk_def rev_filter)
  then show ?thesis using assms by (auto simp: ahead_def intro!: filter_cong)
qed

lemma past_back: "past True r k \<Longrightarrow> r \<noteq> None \<Longrightarrow> \<not> past True r k' \<Longrightarrow> \<not> past True (Some k) k'" for k :: nat
  by (auto simp: past_def)

lemma al_flush_quiet:
  "al_others s = [] \<Longrightarrow>
   al_flush s = s\<lparr>al_db := (al_db s)\<lparr>altblockDB := flushDeletes (al_deletes s) (altblockDB (al_db s))\<rparr>, al_deletes := []\<rparr>"
  by (cases s, cases "al_db s") (simp add: al_flush_def al_interfere_def flushDeletes_def)

interpretation alt: scan_client "\<lambda>s. altblockDB (al_db s)" True "visitAltBlock now" al_good for now
proof
  fix r s and k :: nat and v
  show "ordered (altblockDB (al_db s))" if "al_good r s" using that by (simp add: al_good_def)
  assume g: "al_good r s" and p: "past True r k"
  then have older: "\<not> past True (Some k) k'" if "k' \<in> set (al_deletes s) \<or> k' = k" for k'
    using that past_back [of r k k'] by (auto simp: al_good_def past_def)
  show "al_good (Some k) (visitAltBlock now k v s)"
    using g older by (auto simp: visitAltBlock_def Let_def al_good_def al_flush_quiet flushDeletes_def ordered_filter)
  show "ahead True (Some k) (altblockDB (al_db (visitAltBlock now k v s))) = ahead True (Some k) (altblockDB (al_db s))"
  proof -
    have "ahead True (Some k) (flushDeletes (al_deletes s @ [k]) (altblockDB (al_db s))) = ahead True (Some k) (altblockDB (al_db s))"
      by (rule ahead_flush) (use older in auto)
    then show ?thesis using g by (simp add: visitAltBlock_def Let_def al_good_def al_flush_quiet)
  qed
qed

text \<open>The table once the deletes in the queue are written.\<close>

definition al_rest :: "alt_cleaner \<Rightarrow> (nat \<times> alt_msg) list" where
  "al_rest s = flushDeletes (al_deletes s) (altblockDB (al_db s))"

lemma visit_rest:
  assumes "al_others s = []"
  shows "al_rest (visitAltBlock now k r s) =
      (if \<not> b_unlocked r \<or> al_perPort s (a_port r) < 10000 \<and> now - b_timestamp r \<le> YEAR_MS
       then al_rest s else filter (\<lambda>x. fst x \<noteq> k) (al_rest s)) \<and>
    al_perPort (visitAltBlock now k r s) = (al_perPort s)(a_port r := al_perPort s (a_port r) + 1) \<and>
    al_others (visitAltBlock now k r s) = [] \<and>
    (al_db (visitAltBlock now k r s))\<lparr>altblockDB := t\<rparr> = (al_db s)\<lparr>altblockDB := t\<rparr>"
  using assms
  by (auto simp: visitAltBlock_def Let_def al_flush_quiet al_rest_def flushDeletes_def Suc_le_eq intro!: filter_cong)

fun doomed :: "int \<Rightarrow> (int \<Rightarrow> nat) \<Rightarrow> (nat \<times> alt_msg) list \<Rightarrow> nat set" where
  "doomed now c [] = {}"
| "doomed now c ((k, r) # xs) =
     (if \<not> b_unlocked r \<or> c (a_port r) < 10000 \<and> now - b_timestamp r \<le> YEAR_MS then {} else {k}) \<union>
     doomed now (c(a_port r := c (a_port r) + 1)) xs"

lemma fold_visits:
  "al_others s = [] \<Longrightarrow>
   al_rest (fold (\<lambda>(k, r). visitAltBlock now k r) xs s) = filter (\<lambda>x. fst x \<notin> doomed now (al_perPort s) xs) (al_rest s) \<and>
   al_others (fold (\<lambda>(k, r). visitAltBlock now k r) xs s) = [] \<and>
   (al_db (fold (\<lambda>(k, r). visitAltBlock now k r) xs s))\<lparr>altblockDB := t\<rparr> = (al_db s)\<lparr>altblockDB := t\<rparr>"
proof (induction xs arbitrary: s)
  case (Cons x xs)
  obtain k r where x: "x = (k, r)" by force
  note v = visit_rest [OF Cons.prems, of now k r]
  then have "al_others (visitAltBlock now k r s) = []" by blast
  note IH = Cons.IH [OF this]
  let ?keep = "\<not> b_unlocked r \<or> al_perPort s (a_port r) < 10000 \<and> now - b_timestamp r \<le> YEAR_MS"
  have "al_rest (fold (\<lambda>(k, r). visitAltBlock now k r) (x # xs) s) =
      filter (\<lambda>y. fst y \<notin> doomed now ((al_perPort s)(a_port r := al_perPort s (a_port r) + 1)) xs)
        (if ?keep then al_rest s else filter (\<lambda>y. fst y \<noteq> k) (al_rest s))"
    using IH v by (simp only: x fold_simps case_prod_conv)
  also have "\<dots> = filter (\<lambda>y. fst y \<notin> doomed now (al_perPort s) (x # xs)) (al_rest s)"
    by (cases ?keep) (auto simp: x intro!: filter_cong)
  finally show ?case using IH v by (simp add: x)
qed simp

lemma doomed_kept:
  assumes "ordered t"
  shows "rev t = ys @ xs \<Longrightarrow> (\<And>p. c p = length (filter (\<lambda>y. a_port (snd y) = p) ys)) \<Longrightarrow>
    doomed now c xs = fst ` {x \<in> set xs. \<not> alt_kept now t x}"
proof (induction xs arbitrary: ys c)
  case (Cons x xs)
  obtain k r where x: "x = (k, r)" by force
  have split: "rev t = ys @ (k, r) # xs" using Cons.prems(1) by (simp add: x)
  have "sorted_wrt (<) (map fst t)" using assms by (simp add: ordered_def strict_sorted_iff)
  then have "sorted_wrt (\<lambda>a b. fst b < fst a) (rev t)" by (simp add: sorted_wrt_map sorted_wrt_rev)
  then have keys: "\<forall>y \<in> set ys. k < fst y" "\<forall>y \<in> set xs. fst y < k"
    unfolding split by (auto simp: sorted_wrt_append)
  have "newer_of_port t k r = length (filter (\<lambda>x. k < fst x \<and> a_port (snd x) = a_port r) (rev t))"
    by (simp add: newer_of_port_def flip: rev_filter)
  also have "\<dots> = length (filter (\<lambda>y. a_port (snd y) = a_port r) ys)"
  proof -
    have "filter (\<lambda>x. k < fst x \<and> a_port (snd x) = a_port r) ys = filter (\<lambda>y. a_port (snd y) = a_port r) ys"
      using keys(1) by (auto intro: filter_cong)
    moreover have "filter (\<lambda>x. k < fst x \<and> a_port (snd x) = a_port r) xs = []"
      using keys(2) by (auto simp: filter_empty_conv)
    ultimately show ?thesis by (simp add: split)
  qed
  finally have n: "newer_of_port t k r = c (a_port r)" using Cons.prems(2) by simp
  have "doomed now (c(a_port r := c (a_port r) + 1)) xs = fst ` {x \<in> set xs. \<not> alt_kept now t x}"
    by (rule Cons.IH [of "ys @ [(k, r)]"]) (use split Cons.prems(2) in auto)
  moreover have "{y \<in> set (x # xs). \<not> alt_kept now t y} =
      (if alt_kept now t (k, r) then {} else {(k, r)}) \<union> {y \<in> set xs. \<not> alt_kept now t y}" by (auto simp: x)
  moreover have "alt_kept now t (k, r) \<longleftrightarrow> \<not> b_unlocked r \<or> c (a_port r) < 10000 \<and> now - b_timestamp r \<le> YEAR_MS"
    using n by (simp add: alt_kept_def)
  ultimately show ?case by (simp add: x image_Un)
qed simp

lemma cleanAltBlockDB_spec:
  assumes "ordered (altblockDB d)"
  shows "cleanAltBlockDB now chunkSize [] d = Some (d\<lparr>altblockDB := filter (alt_kept now (altblockDB d)) (altblockDB d)\<rparr>)"
proof -
  let ?s = "\<lparr>al_db = d, al_perPort = (\<lambda>_. 0), al_deletes = [], al_others = []\<rparr>"
  let ?t = "fold (\<lambda>(k, r). visitAltBlock now k r) (rev (altblockDB d)) ?s"
  have "al_good None ?s" using assms by (simp add: al_good_def)
  from alt.scanDb_fold [OF _ this, of "\<lambda>_. al_interfere" chunkSize now]
  have scan: "scanDb (\<lambda>s. altblockDB (al_db s)) True chunkSize (visitAltBlock now) (\<lambda>_. al_interfere) ?s = Some ?t"
    by (simp add: al_good_def al_interfere_def walk_def)
  note f = fold_visits [of ?s now "rev (altblockDB d)"]
  have "doomed now (\<lambda>_. 0) (rev (altblockDB d)) = fst ` {x \<in> set (rev (altblockDB d)). \<not> alt_kept now (altblockDB d) x}"
    by (rule doomed_kept [OF assms, of "[]"]) simp_all
  then have "fst x \<notin> doomed now (\<lambda>_. 0) (rev (altblockDB d)) \<longleftrightarrow> alt_kept now (altblockDB d) x"
    if "x \<in> set (altblockDB d)" for x
    using that assms by (auto simp: ordered_def distinct_map inj_on_def)
  then have rest: "al_rest ?t = filter (alt_kept now (altblockDB d)) (altblockDB d)"
    using f by (simp add: al_rest_def flushDeletes_def cong: filter_cong)
  have "al_db (al_flush ?t) = (al_db ?t)\<lparr>altblockDB := al_rest ?t\<rparr>"
    using f by (simp add: al_flush_quiet al_rest_def)
  also have "\<dots> = d\<lparr>altblockDB := al_rest ?t\<rparr>" using f by simp
  finally show ?thesis by (simp add: cleanAltBlockDB_def scan rest)
qed

subsection \<open>A locked altblock survives whatever happens beside the cleanup\<close>

definition row_locked :: "nat \<Rightarrow> local_db \<Rightarrow> bool" where
  "row_locked k d \<longleftrightarrow> ordered (altblockDB d) \<and> (\<exists>r. map_of (altblockDB d) k = Some r \<and> \<not> b_unlocked r)"

definition al_locked :: "nat \<Rightarrow> alt_cleaner \<Rightarrow> bool" where
  "al_locked k s \<longleftrightarrow> row_locked k (al_db s) \<and> k \<notin> set (al_deletes s) \<and> (\<forall>f \<in> set (al_others s). \<forall>d. row_locked k d \<longrightarrow> row_locked k (f d))"

lemma al_locked_interfere: "al_locked k s \<Longrightarrow> al_locked k (al_interfere s)"
  by (auto simp: al_locked_def al_interfere_def split: list.split)

lemma map_of_flushDeletes: "map_of (flushDeletes keys t) k = (if k \<in> set keys then None else map_of t k)"
  by (induction t) (auto simp: flushDeletes_def)

lemma row_locked_flush: "row_locked k d \<Longrightarrow> k \<notin> set keys \<Longrightarrow> row_locked k (d\<lparr>altblockDB := flushDeletes keys (altblockDB d)\<rparr>)"
  by (simp add: row_locked_def map_of_flushDeletes) (simp add: flushDeletes_def ordered_filter)

lemma al_interfere_deletes [simp]: "al_deletes (al_interfere s) = al_deletes s"
  by (simp add: al_interfere_def split: list.split)

lemma al_locked_flush: "al_locked k s \<Longrightarrow> al_locked k (al_flush s)"
proof -
  assume "al_locked k s"
  then have "al_locked k (al_interfere s)" by (rule al_locked_interfere)
  with \<open>al_locked k s\<close> show ?thesis
    unfolding al_flush_def Let_def by (simp add: al_locked_def row_locked_flush del: al_interfere_deletes)
qed

lemma visit_locked:
  assumes "al_locked k s1" "(key, r) \<in> set (altblockDB (al_db s1))" "al_locked k s"
  shows "al_locked k (visitAltBlock now key r s)"
proof -
  have "b_unlocked r \<Longrightarrow> key \<noteq> k"
    using assms(1,2) by (auto simp: al_locked_def row_locked_def ordered_def)
  then show ?thesis
    using assms(3) by (auto simp: visitAltBlock_def Let_def intro!: al_locked_flush) (auto simp: al_locked_def)
qed

interpretation alt_beside: scan_guard "\<lambda>s. altblockDB (al_db s)" True "visitAltBlock now" "\<lambda>_. al_interfere" "al_locked k" for now k
proof
  show "ordered (altblockDB (al_db s))" if "al_locked k s" for s using that by (simp add: al_locked_def row_locked_def)
qed (rule al_locked_interfere visit_locked; assumption)+

end
