(* ===== verification/Cache_Cleanup.thy ===== *)
theory Cache_Cleanup
  imports Long_Runner Payments_Common "HOL-Library.Char_ord" "HOL-Library.List_Lexorder"
begin

text \<open>
  \<open>cleanCacheDB\<close> of \<open>src/lib/long_runner.js\<close>. The cache holds JSON texts: of every worker
  (\<open>address_worker\<close>) a row of its own, one of statistics and one of its history, of every account
  statistics, a history and the list of its workers. Rows of workers that were not seen for a week
  or that lack one of the three are deleted together, and accounts are reset after a day.

  A text is its parsed value, \<open>None\<close> when \<open>JSON.parse\<close> throws. Other processes write between any
  two transactions of the task, each read included.
\<close>

type_synonym text_rows = "(string, jsval option) rows"

definition identifiers_key :: "string \<Rightarrow> string" where "identifiers_key b = ''identifiers:'' @ b"
definition history_key :: "string \<Rightarrow> string" where "history_key b = ''history:'' @ b"
definition stats_key :: "string \<Rightarrow> string" where "stats_key b = ''stats:'' @ b"

record cache_cleaner =
  cc_rows :: text_rows
  cc_deletes :: "string list"
  scheduledDeletes :: "string list"
  deletedWorkerFamilies :: "string list"
  deletedAccountHistories :: "string list"
  cc_updates :: "(string \<times> jsval) list"
  cc_others :: "(text_rows \<Rightarrow> text_rows) list"

definition cc_interfere :: "cache_cleaner \<Rightarrow> cache_cleaner" where
  "cc_interfere s = (case cc_others s of [] \<Rightarrow> s | f # fs \<Rightarrow> s\<lparr>cc_rows := f (cc_rows s), cc_others := fs\<rparr>)"

subsection \<open>Reading and writing\<close>

definition cacheValue :: "string \<Rightarrow> text_rows \<Rightarrow> jsval" where
  "cacheValue key t = (case map_of t key of Some (Some v) \<Rightarrow> v | _ \<Rightarrow> JBool False)"

definition readCache :: "string \<Rightarrow> cache_cleaner \<Rightarrow> jsval \<times> cache_cleaner" where
  "readCache key s0 = (let s = cc_interfere s0 in (cacheValue key (cc_rows s), s))"

definition putText :: "string \<times> jsval \<Rightarrow> text_rows \<Rightarrow> text_rows" where
  "putText e t =
     (if map_of t (fst e) \<noteq> None then AList.update (fst e) (Some (snd e)) t else insort_key fst (fst e, Some (snd e)) t)"

definition cc_flush :: "cache_cleaner \<Rightarrow> cache_cleaner" where
  "cc_flush s0 =
     (let s1 = cc_interfere s0;
          s2 = cc_interfere (s1\<lparr>cc_rows := flushDeletes (cc_deletes s1) (cc_rows s1), cc_deletes := []\<rparr>)
      in s2\<lparr>cc_rows := fold putText (cc_updates s2) (cc_rows s2), cc_updates := [],
            scheduledDeletes := [], deletedWorkerFamilies := [], deletedAccountHistories := []\<rparr>)"

definition flushIfFull :: "cache_cleaner \<Rightarrow> cache_cleaner" where
  "flushIfFull s = (if LMDB_BATCH_SIZE \<le> length (cc_deletes s) + length (cc_updates s) then cc_flush s else s)"

definition queueDelete :: "string \<Rightarrow> cache_cleaner \<Rightarrow> cache_cleaner" where
  "queueDelete key s =
     (if key \<in> set (scheduledDeletes s) then s
      else flushIfFull (s\<lparr>scheduledDeletes := key # scheduledDeletes s, cc_deletes := cc_deletes s @ [key]\<rparr>))"

definition queueUpdate :: "string \<Rightarrow> jsval \<Rightarrow> cache_cleaner \<Rightarrow> cache_cleaner" where
  "queueUpdate key v s = flushIfFull (s\<lparr>cc_updates := cc_updates s @ [(key, v)]\<rparr>)"

definition queueWorkerFamilyDelete :: "string \<Rightarrow> cache_cleaner \<Rightarrow> cache_cleaner" where
  "queueWorkerFamilyDelete baseKey s =
     (if baseKey = [] \<or> baseKey \<in> set (deletedWorkerFamilies s) then s
      else queueDelete (stats_key baseKey) (queueDelete (history_key baseKey) (queueDelete baseKey
             (s\<lparr>deletedWorkerFamilies := baseKey # deletedWorkerFamilies s\<rparr>))))"

definition queueAccountHistoryDelete :: "string \<Rightarrow> cache_cleaner \<Rightarrow> cache_cleaner" where
  "queueAccountHistoryDelete baseKey s =
     (if baseKey = [] \<or> baseKey \<in> set (deletedAccountHistories s) then s
      else queueDelete (history_key baseKey) (s\<lparr>deletedAccountHistories := baseKey # deletedAccountHistories s\<rparr>))"

subsection \<open>The rows\<close>

definition getLastHashMs :: "jsval \<Rightarrow> num" where
  "getLastHashMs stats =
     (case js_Number (getf stats ''lastHash'') of Some x \<Rightarrow> if 0 < x then x else 0 | None \<Rightarrow> 0)"

definition age :: "num \<Rightarrow> jsval \<Rightarrow> num" where
  "age now stats = fl (now - getLastHashMs stats)"

fun liveIdentifiers :: "num \<Rightarrow> string \<Rightarrow> jsval list \<Rightarrow> cache_cleaner \<Rightarrow> string list \<times> cache_cleaner" where
  "liveIdentifiers now baseKey [] s = ([], s)"
| "liveIdentifiers now baseKey (v # vs) s =
     (case v of
        JStr identifier \<Rightarrow>
          if identifier = [] then liveIdentifiers now baseKey vs s
          else
            let (stats, s1) = readCache (stats_key (baseKey @ ''_'' @ identifier)) s;
                (live, s2) = liveIdentifiers now baseKey vs s1
            in (if truthy stats \<and> age now stats \<le> of_int DAY_MS then identifier # live else live, s2)
      | _ \<Rightarrow> liveIdentifiers now baseKey vs s)"

definition processIdentifierKey :: "num \<Rightarrow> string \<Rightarrow> jsval option \<Rightarrow> cache_cleaner \<Rightarrow> cache_cleaner" where
  "processIdentifierKey now key data s0 =
     (case data of
        Some (JArr identifiers) \<Rightarrow>
          let (unsorted, s) = liveIdentifiers now (drop (length ''identifiers:'') key) identifiers s0; live = sort unsorted
          in if map JStr live = identifiers then s
             else if live = [] then queueDelete key s
             else queueUpdate key (JArr (map JStr live)) s
      | _ \<Rightarrow> s0)"

definition processHistoryKey :: "num \<Rightarrow> nat \<Rightarrow> string \<Rightarrow> cache_cleaner \<Rightarrow> cache_cleaner" where
  "processHistoryKey now minKeyLength key s0 =
     (let baseKey = drop (length ''history:'') key
      in if baseKey = [] \<or> length baseKey < minKeyLength then s0
         else
           let (stats, s) = readCache (stats_key baseKey) s0
           in if CHR ''_'' \<notin> set baseKey
              then (if \<not> truthy stats \<or> of_int MONTH_MS < age now stats then queueAccountHistoryDelete baseKey s else s)
              else
                let (own, s1) = readCache baseKey s
                in if \<not> truthy own \<or> \<not> truthy stats \<or> of_int WEEK_MS < age now stats
                   then queueWorkerFamilyDelete baseKey s1 else s1)"

fun assign :: "string \<Rightarrow> jsval \<Rightarrow> jsval \<Rightarrow> jsval" where
  "assign k v (JObj fs) = JObj (AList.update k v fs)"
| "assign k v w = w"

text \<open>Only objects pass the test on \<open>statsData\<close>; what is \<open>in\<close> an object of a JSON text is its own.\<close>

definition resetStats :: "jsval \<Rightarrow> jsval" where
  "resetStats stats = assign ''hash2'' (JNum 0) (assign ''hash'' (JNum 0) stats)"

definition processStatsKey :: "num \<Rightarrow> nat \<Rightarrow> string \<Rightarrow> jsval option \<Rightarrow> cache_cleaner \<Rightarrow> cache_cleaner" where
  "processStatsKey now minKeyLength key data s0 =
     (let baseKey = drop (length ''stats:'') key
      in if CHR ''_'' \<notin> set baseKey
         then (case data of
                 Some (JObj fs) \<Rightarrow>
                   if (truthy (getf (JObj fs) ''hash'') \<or> truthy (getf (JObj fs) ''hash2'')) \<and> of_int DAY_MS < age now (JObj fs)
                   then queueUpdate key (resetStats (JObj fs)) s0 else s0
               | _ \<Rightarrow> s0)
         else if baseKey = [] \<or> length baseKey < minKeyLength then s0
         else
           let (stats, s1) = readCache key s0; (own, s2) = readCache baseKey s1; (history, s3) = readCache (history_key baseKey) s2
           in if \<not> truthy own \<or> \<not> truthy history \<or> \<not> truthy stats \<or> of_int WEEK_MS < age now stats
              then queueWorkerFamilyDelete baseKey s3 else s3)"

definition processWorkerKey :: "num \<Rightarrow> string \<Rightarrow> cache_cleaner \<Rightarrow> cache_cleaner" where
  "processWorkerKey now key s0 =
     (let (stats, s1) = readCache (stats_key key) s0; (history, s2) = readCache (history_key key) s1
      in if \<not> truthy stats \<or> \<not> truthy history \<or> of_int WEEK_MS < age now stats then queueWorkerFamilyDelete key s2 else s2)"

definition visitCacheKey :: "num \<Rightarrow> nat \<Rightarrow> string \<Rightarrow> jsval option \<Rightarrow> cache_cleaner \<Rightarrow> cache_cleaner" where
  "visitCacheKey now minKeyLength key data s =
     (if key = [] \<or> length key < minKeyLength then s
      else if is_prefix_of ''identifiers:'' key then processIdentifierKey now key data s
      else if is_prefix_of ''history:'' key then processHistoryKey now minKeyLength key s
      else if is_prefix_of ''stats:'' key then processStatsKey now minKeyLength key data s
      else if CHR ''_'' \<notin> set key then s
      else processWorkerKey now key s)"

definition cleanCacheDB :: "num \<Rightarrow> nat \<Rightarrow> int option \<Rightarrow> (text_rows \<Rightarrow> text_rows) list \<Rightarrow> text_rows \<Rightarrow> text_rows option" where
  "cleanCacheDB now minKeyLength chunkSize others t =
     map_option (\<lambda>s. cc_rows (cc_flush s))
       (scanDb cc_rows False chunkSize (visitCacheKey now minKeyLength) (\<lambda>_. cc_interfere)
          \<lparr>cc_rows = t, cc_deletes = [], scheduledDeletes = [], deletedWorkerFamilies = [], deletedAccountHistories = [],
            cc_updates = [], cc_others = others\<rparr>)"

end
