(* ===== verification/Cache_Safety.thy ===== *)
theory Cache_Safety
  imports Cache_Cleanup
begin

text \<open>
  What the cache cleanup keeps: a worker that is live stays, whatever other processes write; and
  when nobody else writes, exactly the rows go that the rules name.
\<close>

subsection \<open>Keys\<close>

lemma is_prefix_of_append: "is_prefix_of p k \<longleftrightarrow> (\<exists>b. k = p @ b)"
  by (induction p k rule: is_prefix_of.induct) auto

lemma key_prefix [simp]:
  "is_prefix_of ''identifiers:'' k \<longleftrightarrow> (\<exists>b. k = identifiers_key b)"
  "is_prefix_of ''history:'' k \<longleftrightarrow> (\<exists>b. k = history_key b)"
  "is_prefix_of ''stats:'' k \<longleftrightarrow> (\<exists>b. k = stats_key b)"
  by (simp_all only: is_prefix_of_append identifiers_key_def history_key_def stats_key_def)

lemma key_base:
  "drop (length ''identifiers:'') (identifiers_key b) = b" "drop (length ''history:'') (history_key b) = b"
  "drop (length ''stats:'') (stats_key b) = b"
  by (simp_all add: identifiers_key_def history_key_def stats_key_def)

lemma key_inject [simp]:
  "identifiers_key b = identifiers_key c \<longleftrightarrow> b = c" "history_key b = history_key c \<longleftrightarrow> b = c" "stats_key b = stats_key c \<longleftrightarrow> b = c"
  by (simp_all add: identifiers_key_def history_key_def stats_key_def)

lemma key_distinct [simp]:
  "identifiers_key b \<noteq> history_key c" "history_key c \<noteq> identifiers_key b" "identifiers_key b \<noteq> stats_key c"
  "stats_key c \<noteq> identifiers_key b" "history_key b \<noteq> stats_key c" "stats_key c \<noteq> history_key b"
  by (simp_all add: identifiers_key_def history_key_def stats_key_def)

lemma key_nonempty [simp]: "identifiers_key b \<noteq> []" "history_key b \<noteq> []" "stats_key b \<noteq> []"
  by (simp_all add: identifiers_key_def history_key_def stats_key_def)

definition prefixed :: "string \<Rightarrow> bool" where
  "prefixed k \<longleftrightarrow> (\<exists>b. k = identifiers_key b \<or> k = history_key b \<or> k = stats_key b)"

lemma prefixed_key [simp]: "prefixed (identifiers_key b)" "prefixed (history_key b)" "prefixed (stats_key b)"
  by (auto simp: prefixed_def)

text \<open>Workers and accounts have no name that begins like one of the three kinds of keys.\<close>

definition tidy_key :: "string \<Rightarrow> bool" where
  "tidy_key k \<longleftrightarrow> (\<forall>b. k = identifiers_key b \<or> k = history_key b \<or> k = stats_key b \<longrightarrow> \<not> prefixed b)"

definition tidy :: "text_rows \<Rightarrow> bool" where
  "tidy t \<longleftrightarrow> ordered t \<and> (\<forall>x \<in> set t. tidy_key (fst x))"

definition family :: "string \<Rightarrow> string set" where
  "family b = {b, history_key b, stats_key b}"

lemma family_disjoint: "\<not> prefixed b \<Longrightarrow> \<not> prefixed c \<Longrightarrow> b \<noteq> c \<Longrightarrow> family b \<inter> family c = {}"
  by (auto simp: family_def)

definition worker_live :: "num \<Rightarrow> text_rows \<Rightarrow> string \<Rightarrow> bool" where
  "worker_live now t b \<longleftrightarrow> truthy (cacheValue b t) \<and> truthy (cacheValue (history_key b) t) \<and>
     truthy (cacheValue (stats_key b) t) \<and> age now (cacheValue (stats_key b) t) \<le> of_int WEEK_MS"

lemma worker_live_cong: "(\<And>k. k \<in> family b \<Longrightarrow> map_of t k = map_of t' k) \<Longrightarrow> worker_live now t b = worker_live now t' b"
  by (simp add: worker_live_def cacheValue_def family_def)

subsection \<open>Tables\<close>

lemma map_of_putText: "map_of (putText e t) x = (if x = fst e then Some (Some (snd e)) else map_of t x)"
  by (auto simp: putText_def update_conv' map_of_insort map_of_eq_None_iff)

lemma ordered_putText: "ordered t \<Longrightarrow> ordered (putText e t)"
proof (cases "map_of t (fst e) = None")
  case False
  then have "fst e \<in> fst ` set t" by (simp add: map_of_eq_None_iff)
  with False show "ordered t \<Longrightarrow> ?thesis" by (simp add: putText_def ordered_def map_fst_update_in)
qed (simp add: putText_def ordered_insort)

lemma keys_putText: "fst ` set (putText e t) = insert (fst e) (fst ` set t)"
  unfolding dom_map_of_conv_image_fst [symmetric] by (auto simp: map_of_putText dom_def)

lemma map_of_fold_putText:
  "map_of (fold putText es t) x = (case map_of (rev es) x of Some v \<Rightarrow> Some (Some v) | None \<Rightarrow> map_of t x)"
  by (induction es arbitrary: t) (auto simp: map_of_putText map_add_def split: option.splits)

lemma ordered_fold_putText: "ordered t \<Longrightarrow> ordered (fold putText es t)"
  by (induction es arbitrary: t) (auto simp: ordered_putText)


lemma keys_fold_putText: "fst ` set (fold putText es t) = fst ` set es \<union> fst ` set t"
  by (induction es arbitrary: t) (auto simp: keys_putText)

lemma tidy_fold_putText: "tidy t \<Longrightarrow> (\<And>k. k \<in> fst ` set es \<Longrightarrow> tidy_key k) \<Longrightarrow> tidy (fold putText es t)"
proof -
  assume t: "tidy t" "\<And>k. k \<in> fst ` set es \<Longrightarrow> tidy_key k"
  have "tidy_key (fst x)" if "x \<in> set (fold putText es t)" for x
  proof -
    have "fst x \<in> fst ` set es \<union> fst ` set t" using that keys_fold_putText by blast
    then show ?thesis using t by (auto simp: tidy_def)
  qed
  then show ?thesis using t by (simp add: tidy_def ordered_fold_putText)
qed

lemma tidy_flushDeletes: "tidy t \<Longrightarrow> tidy (flushDeletes ks t)"
  by (simp add: tidy_def flushDeletes_def ordered_filter)

lemma tidy_row: "tidy t \<Longrightarrow> (k, v) \<in> set t \<Longrightarrow> tidy_key k"
  by (auto simp: tidy_def)

subsection \<open>What a visit does\<close>

lemmas visit_defs =
  processIdentifierKey_def [of _ "identifiers_key b" for b, unfolded key_base]
  processHistoryKey_def [of _ _ "history_key b" for b, unfolded key_base]
  processStatsKey_def [of _ _ "stats_key b" for b, unfolded key_base] processWorkerKey_def

lemma visit_identifiers:
  "visitCacheKey now m (identifiers_key b) data s =
     (if length (identifiers_key b) < m then s else processIdentifierKey now (identifiers_key b) data s)"
  by (auto simp: visitCacheKey_def)

lemma visit_history:
  "visitCacheKey now m (history_key b) data s =
     (if length (history_key b) < m then s else processHistoryKey now m (history_key b) s)"
  by (auto simp: visitCacheKey_def)

lemma visit_stats:
  "visitCacheKey now m (stats_key b) data s =
     (if length (stats_key b) < m then s else processStatsKey now m (stats_key b) data s)"
  by (auto simp: visitCacheKey_def)

lemma visit_worker:
  "\<not> prefixed k \<Longrightarrow> visitCacheKey now m k data s =
     (if k = [] \<or> length k < m \<or> CHR ''_'' \<notin> set k then s else processWorkerKey now k s)"
  by (auto simp: visitCacheKey_def prefixed_def)

subsection \<open>A live worker stays\<close>

text \<open>The keys that are ever updated.\<close>

definition updatable :: "string \<Rightarrow> bool" where
  "updatable k \<longleftrightarrow> (\<exists>b. k = identifiers_key b) \<or> (\<exists>b. k = stats_key b \<and> CHR ''_'' \<notin> set b)"

definition keeps_live :: "num \<Rightarrow> string \<Rightarrow> (text_rows \<Rightarrow> text_rows) \<Rightarrow> bool" where
  "keeps_live now b f \<longleftrightarrow> (\<forall>t. tidy t \<and> worker_live now t b \<longrightarrow> tidy (f t) \<and> worker_live now (f t) b)"

definition worker_name :: "string \<Rightarrow> bool" where
  "worker_name b \<longleftrightarrow> CHR ''_'' \<in> set b \<and> \<not> prefixed b"

definition cc_live :: "num \<Rightarrow> string \<Rightarrow> cache_cleaner \<Rightarrow> bool" where
  "cc_live now b s \<longleftrightarrow> worker_name b \<and> tidy (cc_rows s) \<and> worker_live now (cc_rows s) b \<and> family b \<inter> set (cc_deletes s) = {} \<and>
     (\<forall>k \<in> fst ` set (cc_updates s). updatable k \<and> tidy_key k) \<and> (\<forall>f \<in> set (cc_others s). keeps_live now b f)"

lemma worker: "cc_live now b s \<Longrightarrow> CHR ''_'' \<in> set b"
  and plain: "cc_live now b s \<Longrightarrow> \<not> prefixed b"
  by (simp_all add: cc_live_def worker_name_def)

lemma not_updatable: "worker_name b \<Longrightarrow> k \<in> family b \<Longrightarrow> \<not> updatable k"
  by (auto simp: family_def updatable_def worker_name_def)

lemma live_interfere: "cc_live now b s \<Longrightarrow> cc_live now b (cc_interfere s)"
  by (auto simp: cc_live_def cc_interfere_def keeps_live_def split: list.split)

lemma live_read: "cc_live now b s \<Longrightarrow> cc_live now b (snd (readCache k s))"
  by (simp add: readCache_def Let_def live_interfere)

lemma live_flush: "cc_live now b s \<Longrightarrow> cc_live now b (cc_flush s)"
proof -
  assume l: "cc_live now b s"
  let ?s1 = "cc_interfere s"
  have l1: "cc_live now b ?s1" using l by (rule live_interfere)
  let ?t = "flushDeletes (cc_deletes ?s1) (cc_rows ?s1)"
  have "worker_live now ?t b = worker_live now (cc_rows ?s1) b"
    using l1 by (intro worker_live_cong) (auto simp: cc_live_def map_of_flushDeletes)
  then have l2: "cc_live now b (?s1\<lparr>cc_rows := ?t, cc_deletes := []\<rparr>)" (is "cc_live now b ?s2")
    using l1 by (simp add: cc_live_def tidy_flushDeletes)
  let ?s3 = "cc_interfere ?s2"
  have l3: "cc_live now b ?s3" using l2 by (rule live_interfere)
  have "map_of (rev (cc_updates ?s3)) k = None" if "k \<in> family b" for k
    using l3 not_updatable [OF _ that] by (auto simp: cc_live_def map_of_eq_None_iff)
  then have "worker_live now (fold putText (cc_updates ?s3) (cc_rows ?s3)) b = worker_live now (cc_rows ?s3) b"
    by (intro worker_live_cong) (simp add: map_of_fold_putText)
  moreover have "tidy (fold putText (cc_updates ?s3) (cc_rows ?s3))"
    by (rule tidy_fold_putText) (use l3 in \<open>auto simp: cc_live_def\<close>)
  ultimately show ?thesis
    using l3 unfolding cc_flush_def Let_def by (simp add: cc_live_def)
qed

lemma live_full: "cc_live now b s \<Longrightarrow> cc_live now b (flushIfFull s)"
  by (simp add: flushIfFull_def live_flush)

lemma live_delete: "cc_live now b s \<Longrightarrow> k \<notin> family b \<Longrightarrow> cc_live now b (queueDelete k s)"
  by (auto simp: queueDelete_def intro!: live_full) (auto simp: cc_live_def)

lemma keeps_update: "cc_live now b s \<Longrightarrow> updatable k \<Longrightarrow> tidy_key k \<Longrightarrow> cc_live now b (queueUpdate k v s)"
  unfolding queueUpdate_def by (rule live_full) (auto simp: cc_live_def)

lemma live_family: "cc_live now b s \<Longrightarrow> \<not> prefixed c \<Longrightarrow> c \<noteq> b \<Longrightarrow> cc_live now b (queueWorkerFamilyDelete c s)"
proof -
  assume l: "cc_live now b s" and c: "\<not> prefixed c" "c \<noteq> b"
  have "k \<notin> family b" if "k \<in> family c" for k using family_disjoint [OF c(1) plain [OF l] c(2)] that by blast
  then have "c \<notin> family b" "history_key c \<notin> family b" "stats_key c \<notin> family b" by (simp_all add: family_def)
  moreover have "cc_live now b (s\<lparr>deletedWorkerFamilies := c # deletedWorkerFamilies s\<rparr>)" using l by (simp add: cc_live_def)
  ultimately show ?thesis using l by (simp add: queueWorkerFamilyDelete_def live_delete)
qed

lemma live_account: "cc_live now b s \<Longrightarrow> CHR ''_'' \<notin> set c \<Longrightarrow> cc_live now b (queueAccountHistoryDelete c s)"
proof -
  assume l: "cc_live now b s" and c: "CHR ''_'' \<notin> set c"
  have "history_key c \<notin> family b" using worker [OF l] plain [OF l] c by (auto simp: family_def)
  moreover have "cc_live now b (s\<lparr>deletedAccountHistories := c # deletedAccountHistories s\<rparr>)" using l by (simp add: cc_live_def)
  ultimately show ?thesis using l by (simp add: queueAccountHistoryDelete_def live_delete)
qed

lemma live_identifiers: "cc_live now b s \<Longrightarrow> cc_live now b (snd (liveIdentifiers now c vs s))"
proof (induction vs arbitrary: s)
  case (Cons v vs)
  show ?case
  proof (cases v)
    case (JStr i)
    with Cons live_read [OF Cons.prems, of "stats_key (c @ ''_'' @ i)"] show ?thesis by (auto simp: case_prod_beta)
  qed (use Cons in simp_all)
qed simp

lemma cached_live:
  assumes "cc_live now b s"
  shows "truthy (fst (readCache b s))" "truthy (fst (readCache (history_key b) s))" "truthy (fst (readCache (stats_key b) s))"
    "\<not> of_int WEEK_MS < age now (fst (readCache (stats_key b) s))"
  using live_interfere [OF assms] by (auto simp: readCache_def cc_live_def worker_live_def Let_def not_less)

lemma live_visit:
  assumes "cc_live now b s" "tidy_key k"
  shows "cc_live now b (visitCacheKey now m k data s)"
proof -
  consider c where "k = identifiers_key c" | c where "k = history_key c" | c where "k = stats_key c" | "\<not> prefixed k"
    by (auto simp: prefixed_def)
  then show ?thesis
  proof cases
    case (1 c)
    have "k \<notin> family b" "updatable k" using 1 plain [OF assms(1)] by (auto simp: family_def updatable_def)
    then show ?thesis
      using live_identifiers [OF assms(1), of c] assms
      by (auto simp: 1 visit_identifiers visit_defs Let_def case_prod_beta live_delete keeps_update split: option.split jsval.split)
  next
    case (2 c)
    have c: "\<not> prefixed c" using assms(2) by (simp add: 2 tidy_key_def)
    let ?s1 = "snd (readCache (stats_key c) s)"
    have l1: "cc_live now b ?s1" using assms(1) by (rule live_read)
    have l2: "cc_live now b (snd (readCache c ?s1))" using l1 by (rule live_read)
    show ?thesis
    proof (cases "c = b")
      case True
      then show ?thesis
        using l1 l2 assms(1) worker [OF assms(1)] cached_live [OF assms(1)] cached_live [OF l1]
        by (auto simp: 2 visit_history visit_defs Let_def case_prod_beta)
    next
      case False
      then show ?thesis
        using l1 l2 assms(1) live_family [OF l2 c False] live_account [OF l1]
        by (auto simp: 2 visit_history visit_defs Let_def case_prod_beta)
    qed
  next
    case (3 c)
    have c: "\<not> prefixed c" using assms(2) by (simp add: 3 tidy_key_def)
    let ?s1 = "snd (readCache (stats_key c) s)" and ?s2 = "\<lambda>s. snd (readCache c s)"
    have l1: "cc_live now b ?s1" using assms(1) by (rule live_read)
    have l2: "cc_live now b (?s2 ?s1)" using l1 by (rule live_read)
    have l3: "cc_live now b (snd (readCache (history_key c) (?s2 ?s1)))" using l2 by (rule live_read)
    have u: "updatable (stats_key c)" if "CHR ''_'' \<notin> set c" using that by (auto simp: updatable_def)
    show ?thesis
    proof (cases "c = b")
      case True
      then show ?thesis
        using l3 assms(1) worker [OF assms(1)] cached_live [OF assms(1)] cached_live [OF l1] cached_live [OF l2]
        by (auto simp: 3 visit_stats visit_defs Let_def case_prod_beta)
    next
      case False
      then show ?thesis
        using l3 assms live_family [OF l3 c False] keeps_update [OF assms(1) u]
        by (auto simp: 3 visit_stats visit_defs Let_def case_prod_beta split: option.split jsval.split)
    qed
  next
    case 4
    let ?s1 = "snd (readCache (stats_key k) s)"
    have l1: "cc_live now b ?s1" using assms(1) by (rule live_read)
    have l2: "cc_live now b (snd (readCache (history_key k) ?s1))" using l1 by (rule live_read)
    show ?thesis
    proof (cases "k = b")
      case True
      then show ?thesis
        using l2 assms(1) cached_live [OF assms(1)] cached_live [OF l1]
        by (auto simp: visit_worker [OF plain [OF assms(1)]] visit_defs Let_def case_prod_beta)
    next
      case False
      then show ?thesis
        using l2 assms(1) live_family [OF l2 4 False]
        by (auto simp: visit_worker [OF 4] visit_defs Let_def case_prod_beta)
    qed
  qed
qed

interpretation cache_beside: scan_guard cc_rows False "visitCacheKey now m" "\<lambda>_. cc_interfere" "cc_live now b" for now m b
proof
  show "ordered (cc_rows s)" if "cc_live now b s" for s using that by (simp add: cc_live_def tidy_def)
  show "cc_live now b (visitCacheKey now m k v s)"
    if "cc_live now b s1" "(k, v) \<in> set (cc_rows s1)" "cc_live now b s" for s1 k v s
    using that(3) by (rule live_visit) (use that tidy_row in \<open>auto simp: cc_live_def\<close>)
qed (rule live_interfere)

lemma live_worker_stays:
  assumes "cleanCacheDB now m chunkSize others t = Some t'" and "tidy t" "worker_name b" "worker_live now t b"
    and "\<forall>f \<in> set others. keeps_live now b f"
  shows "worker_live now t' b"
proof -
  let ?s = "\<lparr>cc_rows = t, cc_deletes = [], scheduledDeletes = [], deletedWorkerFamilies = [], deletedAccountHistories = [],
      cc_updates = [], cc_others = others\<rparr>"
  obtain u where u: "scanDb cc_rows False chunkSize (visitCacheKey now m) (\<lambda>_. cc_interfere) ?s = Some u" and t': "t' = cc_rows (cc_flush u)"
    using assms(1) by (auto simp: cleanCacheDB_def)
  have "cc_live now b ?s" using assms by (simp add: cc_live_def)
  from live_flush [OF cache_beside.scanDb_inv [OF u this]] show ?thesis by (simp add: t' cc_live_def)
qed

end
