(* ===== verification/Cache_Rules.thy ===== *)
theory Cache_Rules
  imports Cache_Safety
begin

text \<open>
  Which rows an undisturbed cache cleanup deletes, as a condition on the table it starts from:
  neither the size of a chunk nor the moments at which the queues are flushed matter.
\<close>

subsection \<open>The rules\<close>

definition history_gone :: "num \<Rightarrow> nat \<Rightarrow> text_rows \<Rightarrow> string \<Rightarrow> bool" where
  "history_gone now m t a \<longleftrightarrow> a \<noteq> [] \<and> m \<le> length a \<and> CHR ''_'' \<notin> set a \<and>
     (\<not> truthy (cacheValue (stats_key a) t) \<or> of_int MONTH_MS < age now (cacheValue (stats_key a) t))"

definition family_gone :: "num \<Rightarrow> nat \<Rightarrow> text_rows \<Rightarrow> string \<Rightarrow> bool" where
  "family_gone now m t b \<longleftrightarrow> b \<noteq> [] \<and> m \<le> length b \<and> worker_name b \<and> \<not> worker_live now t b"

definition row_gone :: "num \<Rightarrow> nat \<Rightarrow> text_rows \<Rightarrow> string \<Rightarrow> bool" where
  "row_gone now m t k \<longleftrightarrow>
     (\<exists>b. family_gone now m t b \<and> k \<in> family b) \<or> (\<exists>a. k = history_key a \<and> history_gone now m t a)"

definition is_account :: "nat \<Rightarrow> string \<Rightarrow> bool" where
  "is_account m k \<longleftrightarrow> (\<exists>b. k = stats_key b \<and> CHR ''_'' \<notin> set b) \<and> m \<le> length k"

definition reset_row :: "num \<Rightarrow> nat \<Rightarrow> string \<Rightarrow> jsval option \<Rightarrow> jsval option" where
  "reset_row now m k data =
     (if \<not> is_account m k then data
      else (case data of
              Some (JObj fs) \<Rightarrow>
                if (truthy (getf (JObj fs) ''hash'') \<or> truthy (getf (JObj fs) ''hash2'')) \<and> of_int DAY_MS < age now (JObj fs)
                then Some (resetStats (JObj fs)) else data
            | _ \<Rightarrow> data))"

definition ident :: "string \<Rightarrow> bool" where
  "ident k \<longleftrightarrow> (\<exists>b. k = identifiers_key b)"

lemma resetStats_obj: "resetStats (JObj fs) = JObj (AList.update ''hash2'' (JNum 0) (AList.update ''hash'' (JNum 0) fs))"
  by (simp add: resetStats_def)

lemma age_reset: "age now (resetStats (JObj fs)) = age now (JObj fs)"
  by (simp add: age_def getLastHashMs_def resetStats_obj update_conv')

lemma reset_reset: "reset_row now m k (reset_row now m k d) = reset_row now m k d"
  by (auto simp: reset_row_def age_reset resetStats_obj update_conv' split: option.split jsval.split)

lemma not_gone_account: "is_account m k \<Longrightarrow> \<not> row_gone now m' t k"
  by (auto simp: is_account_def row_gone_def family_gone_def worker_name_def family_def)

lemma gone_not_updatable: "row_gone now m t k \<Longrightarrow> \<not> updatable k"
  by (auto simp: row_gone_def updatable_def family_gone_def worker_name_def family_def history_gone_def)

subsection \<open>The table once the queues are written\<close>

definition eff :: "cache_cleaner \<Rightarrow> string \<Rightarrow> jsval option option" where
  "eff s k = (case map_of (rev (cc_updates s)) k of
                Some v \<Rightarrow> Some (Some v)
              | None \<Rightarrow> if k \<in> set (cc_deletes s) then None else map_of (cc_rows s) k)"

definition cc_core :: "num \<Rightarrow> nat \<Rightarrow> text_rows \<Rightarrow> cache_cleaner \<Rightarrow> bool" where
  "cc_core now m t s \<longleftrightarrow> cc_others s = [] \<and> ordered (cc_rows s) \<and> set (scheduledDeletes s) \<subseteq> set (cc_deletes s) \<and>
     (\<forall>k \<in> set (cc_deletes s). ident k \<or> row_gone now m t k) \<and>
     (\<forall>e \<in> set (cc_updates s). map_of t (fst e) \<noteq> None \<and>
        (ident (fst e) \<or> is_account m (fst e) \<and> Some (Some (snd e)) = map_option (reset_row now m (fst e)) (map_of t (fst e)))) \<and>
     fst ` set (cc_rows s) \<subseteq> fst ` set t \<and>
     (\<forall>k. \<not> ident k \<longrightarrow> map_of (cc_rows s) k = map_of t k \<or> map_of (cc_rows s) k = map_option (reset_row now m k) (map_of t k) \<or>
        row_gone now m t k \<and> map_of (cc_rows s) k = None)"

lemma quiet_flush:
  "cc_others s = [] \<Longrightarrow> cc_flush s = s\<lparr>cc_rows := fold putText (cc_updates s) (flushDeletes (cc_deletes s) (cc_rows s)),
     cc_deletes := [], cc_updates := [], scheduledDeletes := [], deletedWorkerFamilies := [], deletedAccountHistories := []\<rparr>"
  by (cases s) (simp add: cc_flush_def cc_interfere_def)

lemma quiet_read: "cc_others s = [] \<Longrightarrow> readCache k s = (cacheValue k (cc_rows s), s)"
  by (simp add: readCache_def cc_interfere_def)

lemma map_of_flush: "cc_others s = [] \<Longrightarrow> map_of (cc_rows (cc_flush s)) k = eff s k"
  by (simp add: quiet_flush eff_def map_of_fold_putText map_of_flushDeletes split: option.split)

lemma eff_flush: "cc_others s = [] \<Longrightarrow> eff (cc_flush s) k = eff s k"
  by (simp add: quiet_flush eff_def map_of_fold_putText map_of_flushDeletes split: option.split)

lemma eff_cases:
  assumes "cc_core now m t s" "\<not> ident k"
  shows "eff s k = map_of t k \<or> eff s k = map_option (reset_row now m k) (map_of t k) \<or> row_gone now m t k \<and> eff s k = None"
proof (cases "map_of (rev (cc_updates s)) k")
  case None
  then show ?thesis using assms unfolding cc_core_def eff_def by auto
next
  case (Some v)
  then have "(k, v) \<in> set (cc_updates s)" using map_of_SomeD by fastforce
  then have "Some (Some v) = map_option (reset_row now m k) (map_of t k)" using assms unfolding cc_core_def by fastforce
  then show ?thesis using Some by (simp add: eff_def)
qed

lemma core_flush: "cc_core now m t s \<Longrightarrow> cc_core now m t (cc_flush s)"
proof -
  assume c: "cc_core now m t s"
  then have q: "cc_others s = []" by (simp add: cc_core_def)
  have "fst ` set (cc_rows (cc_flush s)) \<subseteq> fst ` set t"
  proof -
    have "fst ` set (flushDeletes (cc_deletes s) (cc_rows s)) \<subseteq> fst ` set t"
      using c by (auto simp: flushDeletes_def cc_core_def)
    moreover have "fst ` set (cc_updates s) \<subseteq> fst ` set t"
    proof
      fix k assume "k \<in> fst ` set (cc_updates s)"
      then obtain e where "e \<in> set (cc_updates s)" "k = fst e" by blast
      then have "map_of t k \<noteq> None" using c by (simp add: cc_core_def)
      then show "k \<in> fst ` set t" by (simp add: map_of_eq_None_iff)
    qed
    ultimately show ?thesis by (simp add: quiet_flush [OF q] keys_fold_putText)
  qed
  moreover have "ordered (cc_rows (cc_flush s))"
    using c by (simp add: quiet_flush [OF q] cc_core_def ordered_fold_putText flushDeletes_def ordered_filter)
  moreover have "cc_others (cc_flush s) = []" "scheduledDeletes (cc_flush s) = []" "cc_deletes (cc_flush s) = []" "cc_updates (cc_flush s) = []"
    using q by (simp_all add: quiet_flush)
  moreover have "map_of (cc_rows (cc_flush s)) k = map_of t k \<or>
      map_of (cc_rows (cc_flush s)) k = map_option (reset_row now m k) (map_of t k) \<or>
      row_gone now m t k \<and> map_of (cc_rows (cc_flush s)) k = None" if "\<not> ident k" for k
    unfolding map_of_flush [OF q] by (rule eff_cases [OF c that])
  ultimately show ?thesis unfolding cc_core_def by simp
qed

lemma core_full: "cc_core now m t s \<Longrightarrow> cc_core now m t (flushIfFull s)"
  by (simp add: flushIfFull_def core_flush)

lemma eff_full: "cc_others s = [] \<Longrightarrow> eff (flushIfFull s) k = eff s k"
  by (simp add: flushIfFull_def eff_flush)

lemma lists_full: "cc_others s = [] \<Longrightarrow> set (deletedWorkerFamilies (flushIfFull s)) \<subseteq> set (deletedWorkerFamilies s) \<and>
    set (deletedAccountHistories (flushIfFull s)) \<subseteq> set (deletedAccountHistories s)"
  by (simp add: flushIfFull_def quiet_flush)

lemma core_quiet: "cc_core now m t s \<Longrightarrow> cc_others s = []"
  by (simp add: cc_core_def)

subsection \<open>The queues\<close>

definition lists_within :: "cache_cleaner \<Rightarrow> cache_cleaner \<Rightarrow> bool" where
  "lists_within s' s \<longleftrightarrow> set (deletedWorkerFamilies s') \<subseteq> set (deletedWorkerFamilies s) \<and>
     set (deletedAccountHistories s') \<subseteq> set (deletedAccountHistories s)"

lemma lists_within_trans: "lists_within a b \<Longrightarrow> lists_within b c \<Longrightarrow> lists_within a c"
  by (auto simp: lists_within_def)

lemma core_delete:
  assumes c: "cc_core now m t s" and k: "ident k \<or> row_gone now m t k"
  shows "cc_core now m t (queueDelete k s) \<and> lists_within (queueDelete k s) s \<and>
    (\<forall>x. \<not> ident x \<longrightarrow> eff (queueDelete k s) x = (if x = k then None else eff s x))"
proof -
  have none: "map_of (rev (cc_updates s)) k = None" if "\<not> ident k"
  proof -
    have "row_gone now m t k" using k that by simp
    then have "\<not> is_account m k" using not_gone_account by blast
    then show ?thesis using c that by (auto simp: cc_core_def map_of_eq_None_iff)
  qed
  show ?thesis
  proof (cases "k \<in> set (scheduledDeletes s)")
    case True
    then have "k \<in> set (cc_deletes s)" using c by (auto simp: cc_core_def)
    with True c none show ?thesis by (auto simp: queueDelete_def lists_within_def eff_def)
  next
    case False
    let ?s = "s\<lparr>scheduledDeletes := k # scheduledDeletes s, cc_deletes := cc_deletes s @ [k]\<rparr>"
    have c': "cc_core now m t ?s" using c k by (auto simp: cc_core_def)
    have "eff ?s x = (if x = k then None else eff s x)" if "\<not> ident x" for x
      using none that by (auto simp: eff_def split: option.split)
    then show ?thesis
      using False core_full [OF c'] eff_full [OF core_quiet [OF c']] lists_full [OF core_quiet [OF c']]
      by (simp add: queueDelete_def lists_within_def)
  qed
qed

lemma core_update:
  assumes c: "cc_core now m t s" and k: "map_of t k = Some d" "ident k \<or> is_account m k \<and> Some v = reset_row now m k d"
  shows "cc_core now m t (queueUpdate k v s) \<and> lists_within (queueUpdate k v s) s \<and>
    (\<forall>x. eff (queueUpdate k v s) x = (if x = k then Some (Some v) else eff s x))"
proof -
  let ?s = "s\<lparr>cc_updates := cc_updates s @ [(k, v)]\<rparr>"
  have c': "cc_core now m t ?s" using c k by (auto simp: cc_core_def)
  have "eff ?s x = (if x = k then Some (Some v) else eff s x)" for x
    by (simp add: eff_def split: option.split)
  then show ?thesis
    using core_full [OF c'] eff_full [OF core_quiet [OF c']] lists_full [OF core_quiet [OF c']]
    by (simp add: queueUpdate_def lists_within_def)
qed

text \<open>What the lists of deleted families and histories stand for.\<close>

definition lists_ok :: "cache_cleaner \<Rightarrow> bool" where
  "lists_ok s \<longleftrightarrow> (\<forall>b \<in> set (deletedWorkerFamilies s). \<forall>k \<in> family b. \<not> ident k \<longrightarrow> eff s k = None) \<and>
     (\<forall>a \<in> set (deletedAccountHistories s). eff s (history_key a) = None)"

lemma history_not_ident [simp]: "\<not> ident (history_key a)" "\<not> ident (stats_key a)" "ident (identifiers_key a)"
  by (simp_all add: ident_def)

lemma family_not_ident: "worker_name b \<Longrightarrow> k \<in> family b \<Longrightarrow> \<not> ident k"
  by (auto simp: worker_name_def family_def ident_def)

lemma core_family:
  assumes c: "cc_core now m t s" "lists_ok s" and b: "family_gone now m t b"
  shows "cc_core now m t (queueWorkerFamilyDelete b s) \<and> lists_ok (queueWorkerFamilyDelete b s) \<and>
    (\<forall>x. \<not> ident x \<longrightarrow> eff (queueWorkerFamilyDelete b s) x = (if x \<in> family b then None else eff s x))"
proof (cases "b \<in> set (deletedWorkerFamilies s)")
  case True
  then show ?thesis using c by (auto simp: queueWorkerFamilyDelete_def lists_ok_def)
next
  case False
  let ?s0 = "s\<lparr>deletedWorkerFamilies := b # deletedWorkerFamilies s\<rparr>"
  define s1 where "s1 = queueDelete b ?s0"
  define s2 where "s2 = queueDelete (history_key b) s1"
  define s3 where "s3 = queueDelete (stats_key b) s2"
  have w: "worker_name b" using b by (simp add: family_gone_def)
  have gone: "row_gone now m t b" "row_gone now m t (history_key b)" "row_gone now m t (stats_key b)"
    using b by (auto simp: row_gone_def family_def)
  have c0: "cc_core now m t ?s0" using c(1) by (simp add: cc_core_def)
  note d1 = core_delete [OF c0 disjI2 [OF gone(1)], folded s1_def]
  note d2 = core_delete [OF conjunct1 [OF d1] disjI2 [OF gone(2)], folded s2_def]
  note d3 = core_delete [OF conjunct1 [OF d2] disjI2 [OF gone(3)], folded s3_def]
  have e: "eff s3 x = (if x \<in> family b then None else eff s x)" if "\<not> ident x" for x
  proof -
    have "eff ?s0 x = eff s x" by (simp add: eff_def split: option.split)
    moreover have "eff s1 x = (if x = b then None else eff ?s0 x)" "eff s2 x = (if x = history_key b then None else eff s1 x)"
      "eff s3 x = (if x = stats_key b then None else eff s2 x)" using d1 d2 d3 that by blast+
    ultimately show ?thesis unfolding family_def by (metis insertE insertI1 insertI2 singletonD)
  qed
  have "lists_within s3 ?s0" using d1 d2 d3 lists_within_trans by blast
  then have "lists_ok s3"
    using c(2) e family_not_ident [OF w] by (auto simp: lists_ok_def lists_within_def)
  with d3 e False b show ?thesis by (simp add: queueWorkerFamilyDelete_def family_gone_def s1_def s2_def s3_def)
qed

lemma core_account:
  assumes c: "cc_core now m t s" "lists_ok s" and a: "history_gone now m t a"
  shows "cc_core now m t (queueAccountHistoryDelete a s) \<and> lists_ok (queueAccountHistoryDelete a s) \<and>
    (\<forall>x. \<not> ident x \<longrightarrow> eff (queueAccountHistoryDelete a s) x = (if x = history_key a then None else eff s x))"
proof (cases "a \<in> set (deletedAccountHistories s)")
  case True
  then show ?thesis using c by (auto simp: queueAccountHistoryDelete_def lists_ok_def)
next
  case False
  let ?s0 = "s\<lparr>deletedAccountHistories := a # deletedAccountHistories s\<rparr>"
  have c0: "cc_core now m t ?s0" using c(1) by (simp add: cc_core_def)
  have gone: "row_gone now m t (history_key a)" using a by (auto simp: row_gone_def)
  note d = core_delete [OF c0, of "history_key a"]
  have e: "eff (queueDelete (history_key a) ?s0) x = (if x = history_key a then None else eff s x)" if "\<not> ident x" for x
  proof -
    have "eff ?s0 x = eff s x" by (simp add: eff_def split: option.split)
    then show ?thesis using d gone that by auto
  qed
  have "lists_within (queueDelete (history_key a) ?s0) ?s0" using d gone by blast
  then have "lists_ok (queueDelete (history_key a) ?s0)" using c(2) e by (auto simp: lists_ok_def lists_within_def)
  with d gone e False a show ?thesis by (simp add: queueAccountHistoryDelete_def history_gone_def)
qed


subsection \<open>One visit\<close>

text \<open>Whether the visit of row \<open>k\<close> deletes the rows of worker \<open>b\<close>, on the table the cleanup starts from.\<close>

definition triggers :: "num \<Rightarrow> text_rows \<Rightarrow> string \<Rightarrow> string \<Rightarrow> bool" where
  "triggers now t k b \<longleftrightarrow>
     (let old = of_int WEEK_MS < age now (cacheValue (stats_key b) t); own = truthy (cacheValue b t);
          history = truthy (cacheValue (history_key b) t); stats = truthy (cacheValue (stats_key b) t)
      in k = b \<and> (\<not> stats \<or> \<not> history \<or> old) \<or> k = history_key b \<and> (\<not> own \<or> \<not> stats \<or> old) \<or>
         k = stats_key b \<and> (\<not> own \<or> \<not> history \<or> \<not> stats \<or> old))"

lemma cached_rows:
  assumes c: "cc_core now m t s" and k: "\<not> ident k" and v: "truthy (cacheValue k (cc_rows s))"
  shows "truthy (cacheValue k t) \<and> age n (cacheValue k (cc_rows s)) = age n (cacheValue k t)"
proof -
  consider "map_of (cc_rows s) k = map_of t k" | "map_of (cc_rows s) k = map_option (reset_row now m k) (map_of t k)" | "map_of (cc_rows s) k = None"
    using c k by (auto simp: cc_core_def)
  then show ?thesis
  proof cases
    case 1
    with v show ?thesis by (simp add: cacheValue_def)
  next
    case 2
    show ?thesis
    proof (cases "map_of t k")
      case (Some d)
      with 2 v show ?thesis
        by (auto simp: cacheValue_def reset_row_def age_reset split: option.splits jsval.splits if_splits)
    qed (use 2 v in \<open>simp add: cacheValue_def\<close>)
  next
    case 3
    with v show ?thesis by (simp add: cacheValue_def)
  qed
qed

lemma rows_live:
  assumes c: "cc_core now m t s" and b: "worker_name b" "b \<noteq> []" "m \<le> length b" "\<not> family_gone now m t b"
  shows "worker_live now (cc_rows s) b"
proof -
  have "map_of (cc_rows s) k = map_of t k" if k: "k \<in> family b" for k
  proof -
    have "\<not> row_gone now m t k"
    proof
      assume "row_gone now m t k"
      then consider c where "family_gone now m t c" "k \<in> family c" | a where "k = history_key a" "history_gone now m t a"
        by (auto simp: row_gone_def)
      then show False
      proof cases
        case (1 c)
        then have "worker_name c" by (simp add: family_gone_def)
        then have "c = b" using family_disjoint [of b c] b(1) k 1(2) by (auto simp: worker_name_def)
        with 1 b show False by simp
      qed (use k b in \<open>auto simp: family_def history_gone_def worker_name_def\<close>)
    qed
    moreover have "\<not> is_account m k" using k b by (auto simp: is_account_def family_def worker_name_def)
    then have "reset_row now m k = id" by (auto simp: reset_row_def)
    ultimately show ?thesis using c family_not_ident [OF b(1) k] by (auto simp: cc_core_def option.map_id)
  qed
  then have "worker_live now (cc_rows s) b = worker_live now t b" by (rule worker_live_cong)
  then show ?thesis using b by (simp add: family_gone_def)
qed

lemma decide:
  assumes c: "cc_core now m t s" and b: "worker_name b" "b \<noteq> []" "m \<le> length b"
  shows "triggers now t k b \<Longrightarrow> triggers now (cc_rows s) k b"
    and "triggers now (cc_rows s) k b \<Longrightarrow> family_gone now m t b"
proof -
  have i: "\<not> ident b" "\<not> ident (history_key b)" "\<not> ident (stats_key b)"
    using family_not_ident [OF b(1)] by (simp_all add: family_def)
  show "triggers now (cc_rows s) k b" if "triggers now t k b"
    using that cached_rows [OF c i(1)] cached_rows [OF c i(2)] cached_rows [OF c i(3), of now] unfolding triggers_def Let_def by metis
  show "family_gone now m t b" if "triggers now (cc_rows s) k b"
  proof (rule ccontr)
    assume "\<not> family_gone now m t b"
    from rows_live [OF c b this] that show False by (auto simp: triggers_def worker_live_def Let_def)
  qed
qed

text \<open>What a visit changes, and what it has done when it changes nothing.\<close>

definition seen_row :: "text_rows \<Rightarrow> string \<Rightarrow> jsval option \<Rightarrow> bool" where
  "seen_row t k v \<longleftrightarrow> (\<exists>d. map_of t k = Some d \<and> (ident k \<or> v = d))"

definition visited :: "num \<Rightarrow> nat \<Rightarrow> text_rows \<Rightarrow> string \<Rightarrow> cache_cleaner \<Rightarrow> cache_cleaner \<Rightarrow> bool" where
  "visited now m t k s s' \<longleftrightarrow> cc_core now m t s' \<and> lists_ok s' \<and>
     ((\<forall>x. \<not> ident x \<longrightarrow> eff s' x = eff s x) \<and> (\<forall>b. family_gone now m t b \<longrightarrow> \<not> triggers now t k b) \<and>
        (\<forall>a. k = history_key a \<longrightarrow> \<not> history_gone now m t a) \<and>
        (\<forall>d. is_account m k \<longrightarrow> map_of t k = Some d \<longrightarrow> reset_row now m k d = d) \<or>
      (\<exists>b. family_gone now m t b \<and> k \<in> family b \<and> (\<forall>x. \<not> ident x \<longrightarrow> eff s' x = (if x \<in> family b then None else eff s x))) \<or>
      (\<exists>a. k = history_key a \<and> history_gone now m t a \<and> (\<forall>x. \<not> ident x \<longrightarrow> eff s' x = (if x = k then None else eff s x))) \<or>
      is_account m k \<and> (\<forall>x. eff s' x = (if x = k then map_option (reset_row now m k) (map_of t k) else eff s x)))"

lemma visited_same:
  assumes "cc_core now m t s" "lists_ok s" "\<And>b. family_gone now m t b \<Longrightarrow> \<not> triggers now t k b"
    and "\<And>a. k = history_key a \<Longrightarrow> \<not> history_gone now m t a"
    and "\<And>d. is_account m k \<Longrightarrow> map_of t k = Some d \<Longrightarrow> reset_row now m k d = d"
  shows "visited now m t k s s"
  using assms by (simp add: visited_def)

lemma visited_family:
  assumes "cc_core now m t s" "lists_ok s" "family_gone now m t b" "k \<in> family b"
  shows "visited now m t k s (queueWorkerFamilyDelete b s)"
  using assms core_family [OF assms(1-3)] unfolding visited_def by blast

lemma triggers_family: "triggers now t k b \<Longrightarrow> k \<in> family b"
  by (auto simp: triggers_def family_def Let_def)

lemma triggers_base:
  "triggers now t (history_key c) b \<Longrightarrow> worker_name b \<Longrightarrow> b = c"
  "triggers now t (stats_key c) b \<Longrightarrow> worker_name b \<Longrightarrow> b = c"
  "triggers now t k b \<Longrightarrow> \<not> prefixed k \<Longrightarrow> b = k"
  by (auto simp: triggers_def worker_name_def Let_def)

lemma lists_ok_mono:
  assumes "lists_ok s" "lists_within s' s" "\<And>x. \<not> ident x \<Longrightarrow> eff s x = None \<Longrightarrow> eff s' x = None"
  shows "lists_ok s'"
  using assms by (auto simp: lists_ok_def lists_within_def)

lemma visited_ident:
  assumes "lists_ok s" and "cc_core now m t s' \<and> lists_within s' s \<and> (\<forall>x. \<not> ident x \<longrightarrow> eff s' x = eff s x)"
  shows "visited now m t (identifiers_key b) s s'"
proof -
  have "lists_ok s'" using assms lists_ok_mono by auto
  moreover have "\<not> triggers now t (identifiers_key b) c" if "family_gone now m t c" for c
    using that by (auto simp: triggers_def family_gone_def worker_name_def Let_def)
  ultimately show ?thesis using assms by (simp add: visited_def is_account_def)
qed

lemma live_quiet: "cc_others s = [] \<Longrightarrow> snd (liveIdentifiers now b vs s) = s"
  by (induction vs) (auto simp: quiet_read case_prod_beta split: jsval.split)

lemma reset_cases: "reset_row now m k d = d \<or> (\<exists>fs. d = Some (JObj fs) \<and> reset_row now m k d = Some (resetStats (JObj fs)))"
  by (auto simp: reset_row_def split: option.split jsval.split)

lemma account_rows:
  assumes c: "cc_core now m t s" and b: "CHR ''_'' \<notin> set b"
  shows "truthy (cacheValue (stats_key b) (cc_rows s)) = truthy (cacheValue (stats_key b) t)"
    and "age n (cacheValue (stats_key b) (cc_rows s)) = age n (cacheValue (stats_key b) t)"
proof -
  have "\<not> row_gone now m t (stats_key b)"
    using b by (auto simp: row_gone_def family_gone_def worker_name_def family_def)
  moreover have "\<forall>k. \<not> ident k \<longrightarrow> map_of (cc_rows s) k = map_of t k \<or>
      map_of (cc_rows s) k = map_option (reset_row now m k) (map_of t k) \<or> row_gone now m t k \<and> map_of (cc_rows s) k = None"
    using c unfolding cc_core_def by blast
  ultimately have "map_of (cc_rows s) (stats_key b) = map_of t (stats_key b) \<or>
      map_of (cc_rows s) (stats_key b) = map_option (reset_row now m (stats_key b)) (map_of t (stats_key b))"
    using history_not_ident(2) by blast
  moreover have "truthy (cacheValue (stats_key b) (cc_rows s)) = truthy (cacheValue (stats_key b) t) \<and>
      age n (cacheValue (stats_key b) (cc_rows s)) = age n (cacheValue (stats_key b) t)"
    if "map_of (cc_rows s) (stats_key b) = map_option (reset_row now m (stats_key b)) (map_of t (stats_key b))"
  proof (cases "map_of t (stats_key b)")
    case (Some d)
    then show ?thesis using that reset_cases [of now m "stats_key b" d] by (auto simp: cacheValue_def age_reset) (simp_all add: resetStats_obj)
  qed (use that in \<open>simp add: cacheValue_def\<close>)
  ultimately have "truthy (cacheValue (stats_key b) (cc_rows s)) = truthy (cacheValue (stats_key b) t) \<and>
      age n (cacheValue (stats_key b) (cc_rows s)) = age n (cacheValue (stats_key b) t)"
    by (auto simp: cacheValue_def)
  then show "truthy (cacheValue (stats_key b) (cc_rows s)) = truthy (cacheValue (stats_key b) t)"
    and "age n (cacheValue (stats_key b) (cc_rows s)) = age n (cacheValue (stats_key b) t)" by simp_all
qed

lemma visit_worker_row:
  assumes c: "cc_core now m t s" "lists_ok s" and k: "triggers now (cc_rows s) k b \<longleftrightarrow> P" "k \<in> family b"
    and only: "\<And>b'. family_gone now m t b' \<Longrightarrow> triggers now t k b' \<Longrightarrow> b' = b"
    and other: "\<And>a. k = history_key a \<Longrightarrow> CHR ''_'' \<in> set a" "\<not> is_account m k"
    and b: "worker_name b" "b \<noteq> []" "m \<le> length b"
  shows "visited now m t k s (if P then queueWorkerFamilyDelete b s else s)"
proof (cases P)
  case True
  then have "family_gone now m t b" using decide(2) [OF c(1) b] k by blast
  with True visited_family [OF c this k(2)] show ?thesis by simp
next
  case False
  have "visited now m t k s s"
  proof (rule visited_same [OF c])
    show "\<not> triggers now t k b'" if "family_gone now m t b'" for b'
      using only [OF that] decide(1) [OF c(1) b] False k(1) by blast
    show "\<not> history_gone now m t a" if "k = history_key a" for a using other(1) [OF that] by (simp add: history_gone_def)
  qed (use other(2) in simp)
  with False show ?thesis by simp
qed

lemma visit_effect:
  assumes c: "cc_core now m t s" "lists_ok s" and k: "tidy_key k" "seen_row t k v"
  shows "visited now m t k s (visitCacheKey now m k v s)"
proof -
  note q = core_quiet [OF c(1)]
  have small: "visited now m t k s s" if "length k < m" "\<not> prefixed k \<or> (\<exists>b. k = history_key b \<or> k = stats_key b)"
  proof (rule visited_same [OF c])
    show "\<not> triggers now t k b" if "family_gone now m t b" for b
      using that \<open>length k < m\<close> by (auto simp: triggers_def family_gone_def Let_def history_key_def stats_key_def)
    show "\<not> history_gone now m t a" if "k = history_key a" for a
      using that \<open>length k < m\<close> by (auto simp: history_gone_def history_key_def)
    show "reset_row now m k d = d" if "is_account m k" for d using that \<open>length k < m\<close> by (simp add: is_account_def)
  qed
  consider c where "k = identifiers_key c" | c where "k = history_key c" | c where "k = stats_key c" | "\<not> prefixed k"
    by (auto simp: prefixed_def)
  then show ?thesis
  proof cases
    case (1 b)
    have "\<not> ident x \<Longrightarrow> x \<noteq> k" for x by (auto simp: 1)
    note id = visited_ident [OF c(2), of now m t _ b, folded 1]
    have same: "visited now m t k s s" using c(1) by (intro id) (simp add: lists_within_def)
    have del: "visited now m t k s (queueDelete k s)" using core_delete [OF c(1), of k] by (intro id) (auto simp: 1)
    have upd: "visited now m t k s (queueUpdate k w s)" for w
      using core_update [OF c(1), of k] k(2) by (intro id) (auto simp: 1 seen_row_def)
    then show ?thesis
      using same del upd
      by (auto simp: 1 visit_identifiers visit_defs Let_def case_prod_beta live_quiet [OF q] split: option.split jsval.split)
  next
    case (2 b)
    show ?thesis
    proof (cases "length k < m")
      case False
      have b: "\<not> prefixed b" using k(1) by (simp add: 2 tidy_key_def)
      show ?thesis
      proof (cases "b = [] \<or> length b < m")
        case True
        have "visited now m t k s s"
        proof (rule visited_same [OF c])
          show "\<not> triggers now t k b'" if "family_gone now m t b'" for b'
            using that True triggers_base(1) [of now t b b'] by (auto simp: 2 family_gone_def)
        qed (use True in \<open>auto simp: 2 history_gone_def is_account_def\<close>)
        with True False show ?thesis by (auto simp: 2 visit_history visit_defs Let_def)
      next
        case long: False
        show ?thesis
        proof (cases "CHR ''_'' \<in> set b")
          case True
          have "visited now m t k s (if triggers now (cc_rows s) k b then queueWorkerFamilyDelete b s else s)"
          proof (rule visit_worker_row [OF c refl])
            show "b' = b" if "family_gone now m t b'" "triggers now t k b'" for b'
              using that triggers_base(1) [of now t b b'] by (simp add: 2 family_gone_def)
          qed (use 2 True b long in \<open>auto simp: family_def is_account_def worker_name_def\<close>)
          moreover have "triggers now (cc_rows s) k b \<longleftrightarrow> \<not> truthy (cacheValue b (cc_rows s)) \<or>
              \<not> truthy (cacheValue (stats_key b) (cc_rows s)) \<or> of_int WEEK_MS < age now (cacheValue (stats_key b) (cc_rows s))"
            using b by (auto simp: triggers_def Let_def 2)
          ultimately show ?thesis
            using True False long by (simp add: 2 visit_history visit_defs Let_def quiet_read [OF q])
        next
          case plain: False
          let ?st = "cacheValue (stats_key b) (cc_rows s)"
          have gone: "history_gone now m t b \<longleftrightarrow> \<not> truthy ?st \<or> of_int MONTH_MS < age now ?st"
            using account_rows [OF c(1) plain] plain long by (simp add: history_gone_def)
          have none: "\<not> triggers now t k b'" if "family_gone now m t b'" for b'
            using that plain triggers_base(1) [of now t b b'] by (auto simp: 2 family_gone_def worker_name_def)
          have "visited now m t k s (if history_gone now m t b then queueAccountHistoryDelete b s else s)"
          proof (cases "history_gone now m t b")
            case True
            with core_account [OF c True] show ?thesis by (auto simp: visited_def 2)
          next
            case False
            have "visited now m t k s s" by (rule visited_same [OF c none]) (use False in \<open>auto simp: 2 is_account_def\<close>)
            with False show ?thesis by simp
          qed
          then show ?thesis
            using plain False long gone by (simp add: 2 visit_history visit_defs Let_def quiet_read [OF q])
        qed
      qed
    qed (use small 2 in \<open>simp add: visit_history\<close>)
  next
    case (3 b)
    have b: "\<not> prefixed b" using k(1) by (simp add: 3 tidy_key_def)
    show ?thesis
    proof (cases "length k < m")
      case False
      show ?thesis
      proof (cases "CHR ''_'' \<in> set b")
        case True
        then have ne: "b \<noteq> []" by auto
        show ?thesis
        proof (cases "length b < m")
          case short: True
          have "visited now m t k s s"
          proof (rule visited_same [OF c])
            show "\<not> triggers now t k b'" if "family_gone now m t b'" for b'
              using that short triggers_base(2) [of now t b b'] by (auto simp: 3 family_gone_def)
          qed (use True in \<open>auto simp: 3 is_account_def\<close>)
          with short True False show ?thesis by (simp add: 3 visit_stats visit_defs Let_def)
        next
          case long: False
          have "visited now m t k s (if triggers now (cc_rows s) k b then queueWorkerFamilyDelete b s else s)"
          proof (rule visit_worker_row [OF c refl])
            show "b' = b" if "family_gone now m t b'" "triggers now t k b'" for b'
              using that triggers_base(2) [of now t b b'] by (simp add: 3 family_gone_def)
          qed (use 3 True b long ne in \<open>auto simp: family_def is_account_def worker_name_def\<close>)
          moreover have "triggers now (cc_rows s) k b \<longleftrightarrow> \<not> truthy (cacheValue b (cc_rows s)) \<or>
              \<not> truthy (cacheValue (history_key b) (cc_rows s)) \<or> \<not> truthy (cacheValue (stats_key b) (cc_rows s)) \<or>
              of_int WEEK_MS < age now (cacheValue (stats_key b) (cc_rows s))"
            using b by (auto simp: triggers_def Let_def 3)
          ultimately show ?thesis
            using True False long ne by (simp add: 3 visit_stats visit_defs Let_def quiet_read [OF q])
        qed
      next
        case plain: False
        have acc: "is_account m k" using 3 plain False by (auto simp: is_account_def)
        obtain d where d: "map_of t k = Some d" "v = d" using k(2) by (auto simp: seen_row_def 3)
        have none: "\<not> triggers now t k b'" if "family_gone now m t b'" for b'
          using that plain triggers_base(2) [of now t b b'] by (auto simp: 3 family_gone_def worker_name_def)
        have same: "visited now m t k s s" if "reset_row now m k d = d"
          by (rule visited_same [OF c none]) (use that d in \<open>auto simp: 3\<close>)
        have upd: "visited now m t k s (queueUpdate k w s)" if "reset_row now m k d = Some w" for w
        proof -
          note u = core_update [OF c(1) d(1), of w]
          have ne: "eff s k \<noteq> None" using eff_cases [OF c(1), of k] not_gone_account [OF acc] d by (auto simp: 3)
          have e: "\<forall>x. eff (queueUpdate k w s) x = (if x = k then Some (Some w) else eff s x)"
            and w: "lists_within (queueUpdate k w s) s" and co: "cc_core now m t (queueUpdate k w s)"
            using u acc that by auto
          have "lists_ok (queueUpdate k w s)"
            by (rule lists_ok_mono [OF c(2) w]) (use e ne in \<open>metis option.distinct(1)\<close>)
          with co e acc d that show ?thesis unfolding visited_def by auto
        qed
        show ?thesis
        proof (cases "\<exists>fs. d = Some (JObj fs) \<and> (truthy (getf (JObj fs) ''hash'') \<or> truthy (getf (JObj fs) ''hash2'')) \<and> of_int DAY_MS < age now (JObj fs)")
          case True
          then obtain fs where fs: "d = Some (JObj fs)" "truthy (getf (JObj fs) ''hash'') \<or> truthy (getf (JObj fs) ''hash2'')"
            "of_int DAY_MS < age now (JObj fs)" by blast
          have "reset_row now m k d = Some (resetStats (JObj fs))" using fs acc by (simp add: reset_row_def del: getf.simps)
          with upd fs d plain False show ?thesis by (simp add: 3 visit_stats visit_defs Let_def del: getf.simps)
        next
          case no: False
          then have "reset_row now m k d = d" using acc by (auto simp: reset_row_def simp del: getf.simps split: option.split jsval.split)
          with same no d plain False show ?thesis
            by (auto simp: 3 visit_stats visit_defs Let_def simp del: getf.simps split: option.split jsval.split)
        qed
      qed
    qed (use small 3 in \<open>simp add: visit_stats\<close>)
  next
    case 4
    show ?thesis
    proof (cases "k = [] \<or> length k < m \<or> CHR ''_'' \<notin> set k")
      case True
      have "visited now m t k s s"
      proof (rule visited_same [OF c])
        show "\<not> triggers now t k b'" if "family_gone now m t b'" for b'
          using that True triggers_base(3) [of now t k b'] 4 by (auto simp: family_gone_def worker_name_def)
      qed (use 4 in \<open>auto simp: is_account_def\<close>)
      with True 4 show ?thesis by (simp add: visit_worker)
    next
      case False
      have "visited now m t k s (if triggers now (cc_rows s) k k then queueWorkerFamilyDelete k s else s)"
      proof (rule visit_worker_row [OF c refl])
        show "b' = k" if "family_gone now m t b'" "triggers now t k b'" for b'
          using that triggers_base(3) [of now t k b'] 4 by simp
      qed (use 4 False in \<open>auto simp: family_def is_account_def worker_name_def\<close>)
      moreover have "triggers now (cc_rows s) k k \<longleftrightarrow> \<not> truthy (cacheValue (stats_key k) (cc_rows s)) \<or>
          \<not> truthy (cacheValue (history_key k) (cc_rows s)) \<or> of_int WEEK_MS < age now (cacheValue (stats_key k) (cc_rows s))"
        using 4 by (auto simp: triggers_def Let_def)
      ultimately show ?thesis using False 4 by (simp add: visit_worker visit_defs Let_def quiet_read [OF q])
    qed
  qed
qed


subsection \<open>The whole walk\<close>

definition row_done :: "num \<Rightarrow> nat \<Rightarrow> text_rows \<Rightarrow> string \<Rightarrow> cache_cleaner \<Rightarrow> bool" where
  "row_done now m t k s \<longleftrightarrow> eff s k = None \<or>
     (\<forall>b. family_gone now m t b \<longrightarrow> \<not> triggers now t k b) \<and> (\<forall>a. k = history_key a \<longrightarrow> \<not> history_gone now m t a) \<and>
     (is_account m k \<longrightarrow> eff s k = map_option (reset_row now m k) (map_of t k))"

definition cache_cover :: "num \<Rightarrow> nat \<Rightarrow> text_rows \<Rightarrow> string option \<Rightarrow> cache_cleaner \<Rightarrow> bool" where
  "cache_cover now m t r s \<longleftrightarrow> tidy t \<and> cc_core now m t s \<and> lists_ok s \<and>
     (\<forall>b k k'. family_gone now m t b \<longrightarrow> k \<in> family b \<longrightarrow> map_of t k \<noteq> None \<longrightarrow> eff s k = None \<longrightarrow> k' \<in> family b \<longrightarrow> eff s k' = None) \<and>
     (\<forall>k. \<not> past False r k \<longrightarrow> map_of t k \<noteq> None \<longrightarrow> \<not> ident k \<longrightarrow> row_done now m t k s) \<and>
     (\<forall>k. past False r k \<longrightarrow> is_account m k \<longrightarrow> eff s k = map_of t k)"

definition cache_gap :: "text_rows \<Rightarrow> string \<Rightarrow> cache_cleaner \<Rightarrow> bool" where
  "cache_gap t k s \<longleftrightarrow> map_of t k = None \<or> ident k \<or> eff s k = None"

lemma account_plain: "is_account m k \<Longrightarrow> \<not> ident k"
  by (auto simp: is_account_def)

lemma account_eff: "cc_core now m t s \<Longrightarrow> is_account m k \<Longrightarrow> map_of t k \<noteq> None \<Longrightarrow> eff s k \<noteq> None"
  using eff_cases [of now m t s k] not_gone_account [of m k now m t] account_plain by fastforce

lemma account_family: "is_account m k \<Longrightarrow> family_gone now m t b \<Longrightarrow> k \<notin> family b"
  using not_gone_account [of m k now m t] by (auto simp: row_gone_def)

lemma updates_account:
  assumes c: "cc_core now m t s" and u: "map_of (rev (cc_updates s)) k = Some v" and k: "\<not> ident k"
  shows "is_account m k \<and> Some (Some v) = map_option (reset_row now m k) (map_of t k)"
proof -
  have "(k, v) \<in> set (cc_updates s)" using map_of_SomeD [OF u] by simp
  moreover have "\<forall>e \<in> set (cc_updates s). ident (fst e) \<or> is_account m (fst e) \<and>
      Some (Some (snd e)) = map_option (reset_row now m (fst e)) (map_of t (fst e))" using c by (simp add: cc_core_def)
  ultimately show ?thesis using k by fastforce
qed

lemma rows_account:
  assumes c: "cc_core now m t s" and k: "is_account m k"
  shows "map_of (cc_rows s) k = map_of t k \<or> map_of (cc_rows s) k = map_option (reset_row now m k) (map_of t k)"
proof -
  have "\<forall>k. \<not> ident k \<longrightarrow> map_of (cc_rows s) k = map_of t k \<or>
      map_of (cc_rows s) k = map_option (reset_row now m k) (map_of t k) \<or> row_gone now m t k \<and> map_of (cc_rows s) k = None"
    using c unfolding cc_core_def by blast
  then show ?thesis using account_plain [OF k] not_gone_account [OF k, of now m t] by blast
qed

lemma account_not_deleted:
  assumes "cc_core now m t s" "is_account m k"
  shows "k \<notin> set (cc_deletes s)"
proof -
  have "\<forall>k \<in> set (cc_deletes s). ident k \<or> row_gone now m t k" using assms(1) by (simp add: cc_core_def)
  then show ?thesis using account_plain [OF assms(2)] not_gone_account [OF assms(2), of now m t] by blast
qed

lemma cover_gap:
  assumes c: "cc_core now m t s" and k: "k \<notin> fst ` set (cc_rows s)"
  shows "cache_gap t k s"
proof (cases "map_of t k = None \<or> ident k")
  case False
  have r: "map_of (cc_rows s) k = None" using k by (simp add: map_of_eq_None_iff)
  have "map_of (rev (cc_updates s)) k = None"
  proof (rule ccontr)
    assume "map_of (rev (cc_updates s)) k \<noteq> None"
    then obtain v where "map_of (rev (cc_updates s)) k = Some v" by blast
    from updates_account [OF c this] False have "is_account m k" by simp
    from rows_account [OF c this] False r show False by auto
  qed
  with r show ?thesis by (simp add: cache_gap_def eff_def)
qed (auto simp: cache_gap_def)

lemma cover_seen:
  assumes c: "cc_core now m t s" and a: "is_account m k \<longrightarrow> eff s k = map_of t k" and v: "(k, v) \<in> set (cc_rows s)"
  shows "seen_row t k v"
proof -
  have "ordered (cc_rows s)" "fst ` set (cc_rows s) \<subseteq> fst ` set t" using c by (simp_all add: cc_core_def)
  then have r: "map_of (cc_rows s) k = Some v" and "k \<in> fst ` set t" using v by (force simp: ordered_def)+
  then obtain d where d: "map_of t k = Some d" by (metis map_of_eq_None_iff not_Some_eq)
  show ?thesis
  proof (cases "ident k \<or> \<not> is_account m k")
    case True
    moreover have "v = d" if "\<not> ident k" "\<not> is_account m k"
    proof -
      have "\<forall>k. \<not> ident k \<longrightarrow> map_of (cc_rows s) k = map_of t k \<or>
          map_of (cc_rows s) k = map_option (reset_row now m k) (map_of t k) \<or> row_gone now m t k \<and> map_of (cc_rows s) k = None"
        using c unfolding cc_core_def by blast
      with that r d show ?thesis by (auto simp: reset_row_def)
    qed
    ultimately show ?thesis using d by (auto simp: seen_row_def)
  next
    case False
    then have acc: "is_account m k" by simp
    have "v = d"
    proof (cases "map_of (rev (cc_updates s)) k")
      case None
      then have "eff s k = Some v" using account_not_deleted [OF c acc] r by (simp add: eff_def)
      then show ?thesis using a acc d by simp
    next
      case (Some u)
      then have "eff s k = Some (Some u)" by (simp add: eff_def)
      then have "d = Some u" using a acc d by simp
      moreover have "Some u = reset_row now m k d" using updates_account [OF c Some] False d by simp
      ultimately show ?thesis using rows_account [OF c acc] r d by auto
    qed
    then show ?thesis using d by (simp add: seen_row_def)
  qed
qed

lemma family_unique: "family_gone now m t b \<Longrightarrow> family_gone now m t c \<Longrightarrow> k \<in> family b \<Longrightarrow> k \<in> family c \<Longrightarrow> b = c"
  using family_disjoint [of b c] by (auto simp: family_gone_def worker_name_def)

lemma account_history_family: "history_gone now m t a \<Longrightarrow> family_gone now m t b \<Longrightarrow> history_key a \<notin> family b"
  by (auto simp: history_gone_def family_gone_def worker_name_def family_def)

lemma visited_mono:
  assumes v: "visited now m t k s s'" and c: "cc_core now m t s" and t: "map_of t k \<noteq> None"
    and x: "\<not> ident x" "eff s x = None"
  shows "eff s' x = None"
  using v x account_eff [OF c, of k] t by (auto simp: visited_def)

lemma visited_account:
  assumes v: "visited now m t k s s'" and x: "is_account m x" "x \<noteq> k"
  shows "eff s' x = eff s x"
  using v x account_plain [OF x(1)] account_family [OF x(1)] by (auto simp: visited_def)

lemma cover_step:
  assumes cov: "cache_cover now m t r s" and v: "visited now m t k s s'" and t: "map_of t k \<noteq> None" and p: "past False r k"
    and gaps: "\<And>k'. past False r k' \<Longrightarrow> \<not> past False (Some k) k' \<Longrightarrow> k' \<noteq> k \<Longrightarrow> cache_gap t k' s"
  shows "cache_cover now m t (Some k) s'"
proof -
  have c: "cc_core now m t s" and whole: "\<And>b k k'. family_gone now m t b \<Longrightarrow> k \<in> family b \<Longrightarrow> map_of t k \<noteq> None \<Longrightarrow>
        eff s k = None \<Longrightarrow> k' \<in> family b \<Longrightarrow> eff s k' = None"
    and passed: "\<And>k. \<not> past False r k \<Longrightarrow> map_of t k \<noteq> None \<Longrightarrow> \<not> ident k \<Longrightarrow> row_done now m t k s"
    and unseen: "\<And>k. past False r k \<Longrightarrow> is_account m k \<Longrightarrow> eff s k = map_of t k" and ti: "tidy t"
    using cov unfolding cache_cover_def by blast+
  have mono: "eff s' x = None" if "eff s x = None" "\<not> ident x" for x using visited_mono [OF v c t that(2,1)] .
  have fam: "\<not> ident y" if "family_gone now m t b" "y \<in> family b" for b y
    using that family_not_ident [of b y] by (simp add: family_gone_def)
  have whole': "eff s' y = None"
    if b: "family_gone now m t b" and x: "x \<in> family b" "map_of t x \<noteq> None" "eff s' x = None" and y: "y \<in> family b" for b x y
  proof (cases "eff s x = None")
    case True
    then show ?thesis using whole [OF b x(1,2) True y] mono fam [OF b y] by blast
  next
    case False
    from v False x fam [OF b x(1)] account_family [OF _ b, of x] x(1) consider
      c where "family_gone now m t c" "x \<in> family c" "\<forall>z. \<not> ident z \<longrightarrow> eff s' z = (if z \<in> family c then None else eff s z)"
    | a where "x = history_key a" "history_gone now m t a"
      unfolding visited_def by (smt (verit) map_option_is_None)
    then show ?thesis
    proof cases
      case (1 c)
      then have "c = b" using family_unique b x(1) by blast
      then show ?thesis using 1(3) y fam [OF b y] by simp
    qed (use account_history_family [OF _ b] x(1) in blast)
  qed
  have passed': "row_done now m t x s'" if x: "\<not> past False (Some k) x" "map_of t x \<noteq> None" "\<not> ident x" for x
  proof (cases "x = k")
    case True
    have "row_done now m t k s'"
    proof (cases "eff s' k = None")
      case False
      have ik: "\<not> ident k" using x(3) True by simp
      from v False ik consider
        "\<forall>y. \<not> ident y \<longrightarrow> eff s' y = eff s y" "\<forall>b. family_gone now m t b \<longrightarrow> \<not> triggers now t k b"
          "\<forall>a. k = history_key a \<longrightarrow> \<not> history_gone now m t a" "\<forall>d. is_account m k \<longrightarrow> map_of t k = Some d \<longrightarrow> reset_row now m k d = d"
      | "is_account m k" "eff s' k = map_option (reset_row now m k) (map_of t k)"
        unfolding visited_def by (metis (full_types))
      then show ?thesis
      proof cases
        case 1
        then show ?thesis using unseen [OF p] ik t by (auto simp: row_done_def)
      next
        case 2
        have "\<not> triggers now t k b" if "family_gone now m t b" for b
          using account_family [OF 2(1) that] triggers_family by blast
        with 2 show ?thesis by (auto simp: row_done_def is_account_def)
      qed
    qed (simp add: row_done_def)
    then show ?thesis using True by simp
  next
    case False
    have "row_done now m t x s"
    proof (cases "past False r x")
      case True
      then have "cache_gap t x s" using gaps x(1) False by blast
      then show ?thesis using x by (simp add: cache_gap_def row_done_def)
    qed (use passed x in blast)
    then show ?thesis using mono [OF _ x(3)] visited_account [OF v _ False] by (auto simp: row_done_def)
  qed
  have unseen': "eff s' x = map_of t x" if "past False (Some k) x" "is_account m x" for x
  proof -
    have "past False r x" "x \<noteq> k" using that(1) p by (auto simp: past_def split: option.splits)
    then show ?thesis using visited_account [OF v that(2)] unseen that(2) by simp
  qed
  show ?thesis unfolding cache_cover_def using ti v whole' passed' unseen' by (simp add: visited_def)
qed

lemma cover_core: "cache_cover now m t r s \<Longrightarrow> cc_core now m t s"
  by (simp add: cache_cover_def)

interpretation cache_walk: scan_cover cc_rows False "visitCacheKey now m" "\<lambda>_. cc_interfere"
  "cache_cover now m t" "cache_gap t" "seen_row t" for now m t
proof
  fix r s
  assume cov: "cache_cover now m t r s"
  note c = cover_core [OF cov]
  show "ordered (cc_rows s)" using c by (simp add: cc_core_def)
  show "cache_cover now m t r (cc_interfere s)" using cov core_quiet [OF c] by (simp add: cc_interfere_def)
  show "seen_row t k v" if "past False r k" "(k, v) \<in> set (cc_rows s)" for k v
    by (rule cover_seen [OF c _ that(2)]) (use cov that(1) in \<open>simp add: cache_cover_def\<close>)
  show "cache_gap t k s" if "k \<notin> fst ` set (cc_rows s)" for k by (rule cover_gap [OF c that])
  have tk: "tidy_key k" "map_of t k \<noteq> None" if "seen_row t k v" for k v
  proof -
    note seen = that
    obtain d where d: "map_of t k = Some d" using seen by (auto simp: seen_row_def)
    then show "tidy_key k" "map_of t k \<noteq> None" using cov tidy_row [OF _ map_of_SomeD [OF d]] by (auto simp: cache_cover_def)
  qed
  have step: "visited now m t k s (visitCacheKey now m k v s)" if "seen_row t k v" for k v
    by (rule visit_effect [OF c _ tk(1) that]) (use cov that in \<open>auto simp: cache_cover_def\<close>)
  show "cache_gap t k (visitCacheKey now m k' v s)" if "seen_row t k' v" "cache_gap t k s" for k k' v
  proof (cases "ident k \<or> map_of t k = None")
    case False
    then have "eff s k = None" using that(2) by (metis cache_gap_def)
    then show ?thesis using visited_mono [OF step [OF that(1)] c tk(2) [OF that(1)], of k] False by (simp add: cache_gap_def)
  qed (auto simp: cache_gap_def)
  show "cache_cover now m t (Some k) (visitCacheKey now m k v s)"
    if "seen_row t k v" "past False r k"
      "\<And>k'. past False r k' \<Longrightarrow> \<not> past False (Some k) k' \<Longrightarrow> k' \<noteq> k \<Longrightarrow> cache_gap t k' s" for k v
    by (rule cover_step [OF cov step [OF that(1)] tk(2) [OF that(1)] that(2,3)])
qed

text \<open>Of a family that is to go, some row shows it.\<close>

lemma trig_exists:
  assumes b: "family_gone now m t b" and x: "x \<in> family b" "map_of t x \<noteq> None"
  shows "\<exists>k. map_of t k \<noteq> None \<and> k \<in> family b \<and> triggers now t k b"
proof -
  let ?own = "truthy (cacheValue b t)" and ?history = "truthy (cacheValue (history_key b) t)" and ?stats = "truthy (cacheValue (stats_key b) t)"
  have p: "map_of t k \<noteq> None" if "truthy (cacheValue k t)" for k using that by (auto simp: cacheValue_def split: option.splits)
  have d: "b \<noteq> history_key b" "b \<noteq> stats_key b"
    by (simp_all add: history_key_def stats_key_def)
  have gone: "\<not> ?own \<or> \<not> ?history \<or> \<not> ?stats \<or> of_int WEEK_MS < age now (cacheValue (stats_key b) t)"
    using b by (auto simp: family_gone_def worker_live_def)
  have f: "b \<in> family b" "history_key b \<in> family b" "stats_key b \<in> family b" by (simp_all add: family_def)
  have found: ?thesis if "truthy (cacheValue k t)" "k \<in> family b" "triggers now t k b" for k using p [OF that(1)] that by blast
  show ?thesis
  proof (cases "?own \<and> ?history \<and> ?stats")
    case True
    then have "triggers now t b b" using gone by (auto simp: triggers_def Let_def)
    with True found [OF _ f(1)] show ?thesis by simp
  next
    case False
    consider "?own" | "\<not> ?own" "?history" | "\<not> ?own" "\<not> ?history" "?stats" | "\<not> ?own" "\<not> ?history" "\<not> ?stats" by blast
    then show ?thesis
    proof cases
      case 1
      then have "triggers now t b b" using False by (auto simp: triggers_def Let_def)
      with 1 found [OF _ f(1)] show ?thesis by simp
    next
      case 2
      then have "triggers now t (history_key b) b" by (auto simp: triggers_def Let_def)
      with 2 found [OF _ f(2)] show ?thesis by simp
    next
      case 3
      then have "triggers now t (stats_key b) b" by (auto simp: triggers_def Let_def)
      with 3 found [OF _ f(3)] show ?thesis by simp
    next
      case 4
      then have "triggers now t x b" using x(1) by (auto simp: triggers_def Let_def family_def)
      with x show ?thesis by blast
    qed
  qed
qed

lemma covered_eff:
  assumes cov: "cache_cover now m t r s" and rest: "\<forall>k. past False r k \<longrightarrow> cache_gap t k s" and k: "\<not> ident k"
  shows "eff s k = (if row_gone now m t k then None else map_option (reset_row now m k) (map_of t k))"
proof -
  note c = cover_core [OF cov]
  have whole: "eff s k' = None" if "family_gone now m t b" "k \<in> family b" "map_of t k \<noteq> None" "eff s k = None" "k' \<in> family b" for b k k'
    using cov that unfolding cache_cover_def by blast
  have rd: "row_done now m t k s" if "map_of t k \<noteq> None" "\<not> ident k" for k
  proof (cases "past False r k")
    case True
    then show ?thesis using rest that by (auto simp: cache_gap_def row_done_def)
  qed (use cov that in \<open>simp add: cache_cover_def\<close>)
  have none: "eff s k = None" if "map_of t k = None"
    using eff_cases [OF c k] that by auto
  show ?thesis
  proof (cases "row_gone now m t k")
    case True
    have "eff s k = None" if t: "map_of t k \<noteq> None"
    proof -
      from True consider b where "family_gone now m t b" "k \<in> family b" | a where "k = history_key a" "history_gone now m t a"
        by (auto simp: row_gone_def)
      then show ?thesis
      proof cases
        case (1 b)
        obtain k' where k': "map_of t k' \<noteq> None" "k' \<in> family b" "triggers now t k' b" using trig_exists [OF 1 t] by blast
        have "\<not> ident k'" using 1(1) k'(2) family_not_ident by (auto simp: family_gone_def)
        from rd [OF k'(1) this] have "eff s k' = None" using 1(1) k'(3) by (auto simp: row_done_def)
        from whole [OF 1(1) k'(2,1) this 1(2)] show ?thesis .
      qed (use rd [OF t k] in \<open>auto simp: row_done_def\<close>)
    qed
    with none True show ?thesis by auto
  next
    case False
    have "eff s k = map_option (reset_row now m k) (map_of t k)" if t: "map_of t k \<noteq> None"
    proof (cases "is_account m k")
      case True
      then show ?thesis using rd [OF t k] account_eff [OF c True t] by (auto simp: row_done_def)
    next
      case no: False
      then have "reset_row now m k = id" by (auto simp: reset_row_def)
      then show ?thesis using eff_cases [OF c k] False by (auto simp: option.map_id)
    qed
    with none False show ?thesis by (cases "map_of t k = None") simp_all
  qed
qed

lemma cleanCacheDB_rules:
  assumes "tidy t"
  shows "\<exists>t'. cleanCacheDB now m chunkSize [] t = Some t' \<and>
    (\<forall>k. \<not> ident k \<longrightarrow> map_of t' k = (if row_gone now m t k then None else map_option (reset_row now m k) (map_of t k)))"
proof -
  let ?s = "\<lparr>cc_rows = t, cc_deletes = [], scheduledDeletes = [], deletedWorkerFamilies = [], deletedAccountHistories = [],
      cc_updates = [], cc_others = []\<rparr>"
  have e: "eff ?s k = map_of t k" for k by (simp add: eff_def)
  have "cc_core now m t ?s" using assms by (simp add: cc_core_def tidy_def)
  moreover have "lists_ok ?s" by (simp add: lists_ok_def)
  ultimately have "cache_cover now m t None ?s"
    using assms unfolding cache_cover_def by (auto simp: e past_def)
  moreover have "fst ` set (cc_rows s) \<subseteq> fst ` set t" if "cache_cover now m t r s" for r s
    using cover_core [OF that] by (simp add: cc_core_def)
  moreover have "finite (fst ` set t)" by simp
  ultimately obtain u r where
    u: "scanDb cc_rows False chunkSize (visitCacheKey now m) (\<lambda>_. cc_interfere) ?s = Some u"
      "cache_cover now m t r u" "\<forall>k. past False r k \<longrightarrow> cache_gap t k u"
    using cache_walk.scanDb_covers [of "fst ` set t" now m t ?s chunkSize] by blast
  have "map_of (cc_rows (cc_flush u)) k = (if row_gone now m t k then None else map_option (reset_row now m k) (map_of t k))"
    if "\<not> ident k" for k
    using map_of_flush [OF core_quiet [OF cover_core [OF u(2)]]] covered_eff [OF u(2,3) that] by simp
  then show ?thesis using u(1) by (simp add: cleanCacheDB_def)
qed

end
