(* ===== verification/Cleanup_Properties.thy ===== *)
theory Cleanup_Properties
  imports Cache_Rules Block_Properties
begin

text \<open>The properties of the long runner's cleanups.\<close>

subsection \<open>Weights\<close>

definition weights_of :: "string \<Rightarrow> bm_db \<Rightarrow> block_balance_row list" where
  "weights_of h d = filter (\<lambda>r. bb_hex r = h) (block_balance d)"

definition leaves_weights :: "string \<Rightarrow> (nat \<Rightarrow> bm_db \<Rightarrow> bm_db) \<Rightarrow> bool" where
  "leaves_weights h others \<longleftrightarrow> (\<forall>n d. weights_of h (others n d) = weights_of h d)"

lemma weights_deleted: "weights_of h (deleteBlockBalanceBatch hs d) = (if h \<in> set hs then [] else weights_of h d)"
  by (auto simp: weights_of_def deleteBlockBalanceBatch_def filter_empty_conv intro: filter_cong)

lemma batches_keep:
  "leaves_weights h others \<Longrightarrow> h \<notin> set (concat bs) \<Longrightarrow> weights_of h (deleteBatches others executed n bs d) = weights_of h d"
  by (induction bs arbitrary: n d) (simp_all add: Let_def weights_deleted leaves_weights_def)

lemma batches_delete:
  "(\<And>n. n0 \<le> n \<Longrightarrow> executed n) \<Longrightarrow> (\<And>n d. others n d = d) \<Longrightarrow> n0 \<le> n \<Longrightarrow>
   deleteBatches others executed n bs d = d\<lparr>block_balance := filter (\<lambda>r. bb_hex r \<notin> set (concat bs)) (block_balance d)\<rparr>"
  by (induction bs arbitrary: n d) (auto simp: Let_def deleteBlockBalanceBatch_def intro!: arg_cong [of _ _ "\<lambda>x. _\<lparr>block_balance := x\<rparr>"] filter_cong)

lemma batch_hexes: "set (concat (chunks SQL_DELETE_BATCH_SIZE xs)) = set xs"
  by (subst concat_chunks) (simp_all add: SQL_DELETE_BATCH_SIZE_def)

text \<open>The hashes whose weights are kept, as the task sees them.\<close>

definition kept_hexes :: "(paid_block \<Rightarrow> bool) \<Rightarrow> bm_db \<Rightarrow> bm_db \<Rightarrow> string set" where
  "kept_hexes recent d d0 = collectLockedBlockHashes (bm_local d) \<union> pb_hex ` set (filter recent (paid_blocks d0))"

lemma clean_weights:
  "cleanBlockBalanceTable recent others executed d =
     (if \<not> executed 0 then others 0 d else if \<not> executed 1 then others 1 (others 0 d)
      else deleteBatches others executed 2 (chunks SQL_DELETE_BATCH_SIZE
        (filter (\<lambda>h. h \<notin> kept_hexes recent d (others 0 d)) (remdups (map bb_hex (block_balance (others 1 (others 0 d)))))))
        (others 1 (others 0 d)))"
  by (simp only: cleanBlockBalanceTable_def kept_hexes_def Let_def)

text \<open>
  C27. The cleanup of block weights deletes no weight that a payout may still need: the weights of
  a block that is locked when the task starts, or that was paid within the last days when the task
  asks for it, are unchanged at the end, whichever of its statements fail and whatever other
  processes write in between to other tables and other blocks.
\<close>

theorem needed_weights_stay:
  assumes "h \<in> kept_hexes recent d (others 0 d)" and "leaves_weights h others"
  shows "weights_of h (cleanBlockBalanceTable recent others executed d) = weights_of h d"
proof -
  have o: "weights_of h (others n d') = weights_of h d'" for n d' using assms(2) by (simp add: leaves_weights_def)
  have "weights_of h (deleteBatches others executed 2 (chunks SQL_DELETE_BATCH_SIZE
      (filter (\<lambda>h. h \<notin> kept_hexes recent d (others 0 d)) xs)) d') = weights_of h d'" for xs d'
    using assms by (intro batches_keep) (simp_all only: batch_hexes, simp)
  then show ?thesis by (simp add: clean_weights o)
qed

lemma ex_weights_locked: "''aa'' \<in> kept_hexes recent ex_bm_db d0"
  by (auto simp: kept_hexes_def collectLockedBlockHashes_def getValidLockedBlocks_def valid_locked_def ex_bm_db_def ex_local_def ex_block_def)

theorem needed_weights_stay_witness:
  "weights_of ''aa'' (cleanBlockBalanceTable (\<lambda>_. False) (\<lambda>n d. d\<lparr>paid_blocks := []\<rparr>) (\<lambda>n. n \<noteq> 3) ex_bm_db) = block_balance ex_bm_db"
  using needed_weights_stay [OF ex_weights_locked, of "\<lambda>n d. d\<lparr>paid_blocks := []\<rparr>" "\<lambda>_. False" "\<lambda>n. n \<noteq> 3"]
  by (simp add: leaves_weights_def weights_of_def ex_bm_db_def)


text \<open>Beside nobody, exactly the weights of these blocks are left.\<close>

lemma quiet_weights:
  "cleanBlockBalanceTable recent (\<lambda>_ d. d) (\<lambda>_. True) d =
     d\<lparr>block_balance := filter (\<lambda>r. bb_hex r \<in> kept_hexes recent d d) (block_balance d)\<rparr>"
proof -
  have "cleanBlockBalanceTable recent (\<lambda>_ d. d) (\<lambda>_. True) d = d\<lparr>block_balance := filter (\<lambda>r. bb_hex r \<notin> set (concat
      (chunks SQL_DELETE_BATCH_SIZE (filter (\<lambda>h. h \<notin> kept_hexes recent d d) (remdups (map bb_hex (block_balance d)))))))
      (block_balance d)\<rparr>"
    unfolding clean_weights by (simp del: set_concat) (rule batches_delete [of 0], simp_all)
  then show ?thesis unfolding batch_hexes by (simp cong: filter_cong)
qed

text \<open>
  A block that is found after the locked blocks were collected is not among them; when its weights
  are stored before the task lists the hashes, they are deleted although the block is locked.
\<close>

lemma late_weights_lost:
  assumes "h \<notin> collectLockedBlockHashes (bm_local d)" and "h \<notin> pb_hex ` set (paid_blocks d0)"
    and "others = (\<lambda>n d'. if n = 0 then d0 else d')"
  shows "weights_of h (cleanBlockBalanceTable recent others (\<lambda>_. True) d) = [] \<and>
    bm_local (cleanBlockBalanceTable recent others (\<lambda>_. True) d) = bm_local d0"
proof -
  define hs where "hs = filter (\<lambda>h. h \<notin> kept_hexes recent d d0) (remdups (map bb_hex (block_balance d0)))"
  have "n \<noteq> 0 \<Longrightarrow> deleteBatches others (\<lambda>_. True) n bs d' = deleteBatches (\<lambda>_ d. d) (\<lambda>_. True) n bs d'" for n bs d'
    by (induction bs arbitrary: n d') (simp_all add: assms(3) Let_def)
  then have "cleanBlockBalanceTable recent others (\<lambda>_. True) d =
      d0\<lparr>block_balance := filter (\<lambda>r. bb_hex r \<notin> set (concat (chunks SQL_DELETE_BATCH_SIZE hs))) (block_balance d0)\<rparr>"
    using batches_delete [of 0 "\<lambda>_. True" "\<lambda>_ d. d" 2] by (simp add: clean_weights assms(3) hs_def)
  moreover have "h \<in> set (concat (chunks SQL_DELETE_BATCH_SIZE hs))" if "r \<in> set (block_balance d0)" "bb_hex r = h" for r
    using that assms(1,2) by (auto simp only: batch_hexes) (auto simp: hs_def kept_hexes_def)
  ultimately show ?thesis by (auto simp: weights_of_def filter_empty_conv)
qed

subsection \<open>The walks end\<close>

text \<open>Keys of the altblock table are 32-bit; LMDB accepts keys of at most 511 bytes.\<close>

definition alt_keys :: "local_db \<Rightarrow> bool" where
  "alt_keys d \<longleftrightarrow> ordered (altblockDB d) \<and> fst ` set (altblockDB d) \<subseteq> {0..<2 ^ 32}"

definition al_bounded :: "alt_cleaner \<Rightarrow> bool" where
  "al_bounded s \<longleftrightarrow> alt_keys (al_db s) \<and> (\<forall>f \<in> set (al_others s). \<forall>d. alt_keys d \<longrightarrow> alt_keys (f d))"

lemma bounded_flush: "al_bounded s \<Longrightarrow> al_bounded (al_flush s)"
proof -
  assume "al_bounded s"
  then have "al_bounded (al_interfere s)" by (auto simp: al_bounded_def al_interfere_def split: list.split)
  then have "al_bounded ((al_interfere s)\<lparr>al_db := (al_db (al_interfere s))\<lparr>altblockDB :=
      flushDeletes (al_deletes (al_interfere s)) (altblockDB (al_db (al_interfere s)))\<rparr>, al_deletes := []\<rparr>)"
    by (auto simp: al_bounded_def alt_keys_def flushDeletes_def ordered_filter)
  with \<open>al_bounded s\<close> show ?thesis by (simp add: al_flush_def Let_def)
qed

interpretation alt_ends: scan_guard "\<lambda>s. altblockDB (al_db s)" True "visitAltBlock now" "\<lambda>_. al_interfere" al_bounded for now
proof
  show "ordered (altblockDB (al_db s))" if "al_bounded s" for s using that by (simp add: al_bounded_def alt_keys_def)
  show "al_bounded (al_interfere s)" if "al_bounded s" for s
    using that by (auto simp: al_bounded_def al_interfere_def split: list.split)
  show "al_bounded (visitAltBlock now k v s)" if "al_bounded s" for k v s
    using that by (auto simp: visitAltBlock_def Let_def intro!: bounded_flush) (auto simp: al_bounded_def)
qed

definition cache_keys :: "text_rows \<Rightarrow> bool" where
  "cache_keys t \<longleftrightarrow> ordered t \<and> (\<forall>k \<in> fst ` set t. length k \<le> 511)"

definition cc_bounded :: "cache_cleaner \<Rightarrow> bool" where
  "cc_bounded s \<longleftrightarrow> cache_keys (cc_rows s) \<and> (\<forall>k \<in> fst ` set (cc_updates s). length k \<le> 511) \<and>
     (\<forall>f \<in> set (cc_others s). \<forall>t. cache_keys t \<longrightarrow> cache_keys (f t))"

lemma cc_bounded_interfere: "cc_bounded s \<Longrightarrow> cc_bounded (cc_interfere s)"
  by (auto simp: cc_bounded_def cc_interfere_def split: list.split)

lemma cc_bounded_read: "cc_bounded s \<Longrightarrow> cc_bounded (snd (readCache k s))"
  by (simp add: readCache_def Let_def cc_bounded_interfere)

lemma cache_keys_puts: "cache_keys t \<Longrightarrow> (\<forall>k \<in> fst ` set es. length k \<le> 511) \<Longrightarrow> cache_keys (fold putText es t)"
  unfolding cache_keys_def keys_fold_putText by (auto simp: ordered_fold_putText)

lemma cc_bounded_flush: "cc_bounded s \<Longrightarrow> cc_bounded (cc_flush s)"
proof -
  assume "cc_bounded s"
  then have b1: "cc_bounded (cc_interfere s)" by (rule cc_bounded_interfere)
  let ?s2 = "(cc_interfere s)\<lparr>cc_rows := flushDeletes (cc_deletes (cc_interfere s)) (cc_rows (cc_interfere s)), cc_deletes := []\<rparr>"
  have "cc_bounded ?s2" using b1 by (auto simp: cc_bounded_def cache_keys_def flushDeletes_def ordered_filter)
  then have "cc_bounded (cc_interfere ?s2)" by (rule cc_bounded_interfere)
  then show ?thesis unfolding cc_flush_def Let_def by (simp add: cc_bounded_def cache_keys_puts)
qed

lemma cc_bounded_full: "cc_bounded s \<Longrightarrow> cc_bounded (flushIfFull s)"
  by (simp add: flushIfFull_def cc_bounded_flush)

lemma cc_bounded_delete: "cc_bounded s \<Longrightarrow> cc_bounded (queueDelete k s)"
  by (auto simp: queueDelete_def intro!: cc_bounded_full) (simp add: cc_bounded_def)

lemma cc_bounded_update: "cc_bounded s \<Longrightarrow> length k \<le> 511 \<Longrightarrow> cc_bounded (queueUpdate k v s)"
  unfolding queueUpdate_def by (rule cc_bounded_full) (auto simp: cc_bounded_def)

lemma cc_bounded_family: "cc_bounded s \<Longrightarrow> cc_bounded (queueWorkerFamilyDelete b s)"
  by (auto simp: queueWorkerFamilyDelete_def intro!: cc_bounded_delete) (simp add: cc_bounded_def)

lemma cc_bounded_account: "cc_bounded s \<Longrightarrow> cc_bounded (queueAccountHistoryDelete b s)"
  by (auto simp: queueAccountHistoryDelete_def intro!: cc_bounded_delete) (simp add: cc_bounded_def)

lemma cc_bounded_identifiers: "cc_bounded s \<Longrightarrow> cc_bounded (snd (liveIdentifiers now c vs s))"
proof (induction vs arbitrary: s)
  case (Cons v vs)
  show ?case
  proof (cases v)
    case (JStr i)
    with Cons cc_bounded_read [OF Cons.prems, of "stats_key (c @ ''_'' @ i)"] show ?thesis by (auto simp: case_prod_beta)
  qed (use Cons in simp_all)
qed simp

lemmas bounded_ops =
  cc_bounded_read cc_bounded_delete cc_bounded_update cc_bounded_family cc_bounded_account cc_bounded_identifiers

lemma cc_bounded_visit:
  assumes "cc_bounded s" "length k \<le> 511"
  shows "cc_bounded (visitCacheKey now m k data s)"
proof -
  have "cc_bounded (processIdentifierKey now k data s)"
    using assms by (auto simp: processIdentifierKey_def Let_def case_prod_beta bounded_ops split: option.split jsval.split)
  moreover have "cc_bounded (processHistoryKey now m k s)"
    using assms by (auto simp: processHistoryKey_def Let_def case_prod_beta bounded_ops)
  moreover have "cc_bounded (processStatsKey now m k data s)"
    using assms by (auto simp: processStatsKey_def Let_def case_prod_beta bounded_ops split: option.split jsval.split)
  moreover have "cc_bounded (processWorkerKey now k s)"
    using assms by (auto simp: processWorkerKey_def Let_def case_prod_beta bounded_ops)
  ultimately show ?thesis using assms(1) by (simp add: visitCacheKey_def)
qed

interpretation cache_ends: scan_guard cc_rows False "visitCacheKey now m" "\<lambda>_. cc_interfere" cc_bounded for now m
proof
  show "ordered (cc_rows s)" if "cc_bounded s" for s using that by (simp add: cc_bounded_def cache_keys_def)
  show "cc_bounded (visitCacheKey now m k v s)" if "cc_bounded s1" "(k, v) \<in> set (cc_rows s1)" "cc_bounded s" for s1 k v s
    using that(3) by (rule cc_bounded_visit) (use that in \<open>force simp: cc_bounded_def cache_keys_def\<close>)
qed (rule cc_bounded_interfere)

lemma finite_keys: "finite {k :: string. length k \<le> 511}"
  using finite_lists_length_le [of "UNIV :: char set" 511] by simp

lemma cleanCacheDB_ends:
  assumes "cache_keys t" "\<forall>f \<in> set others. \<forall>t. cache_keys t \<longrightarrow> cache_keys (f t)"
  shows "\<exists>t'. cleanCacheDB now m chunkSize others t = Some t'"
proof -
  let ?s = "\<lparr>cc_rows = t, cc_deletes = [], scheduledDeletes = [], deletedWorkerFamilies = [], deletedAccountHistories = [],
      cc_updates = [], cc_others = others\<rparr>"
  have "cc_bounded ?s" using assms by (simp add: cc_bounded_def)
  moreover have "fst ` set (cc_rows s) \<subseteq> {k. length k \<le> 511}" if "cc_bounded s" for s
    using that by (auto simp: cc_bounded_def cache_keys_def)
  ultimately obtain u where "scanDb cc_rows False chunkSize (visitCacheKey now m) (\<lambda>_. cc_interfere) ?s = Some u"
    using cache_ends.scanDb_returns [OF finite_keys, of ?s chunkSize now m] by blast
  then show ?thesis by (simp add: cleanCacheDB_def)
qed

subsection \<open>Altblocks\<close>

text \<open>
  The cleanup of the altblock table, with nobody writing beside it, is the filter that keeps a
  row when it is locked, or when fewer than ten thousand newer rows have its port and it is at
  most a year old: neither the chunks of the walk nor the batches of deletes can be seen, and no
  other table changes.
\<close>

theorem altblock_cleanup_exact:
  assumes "ordered (altblockDB d)"
  shows "cleanAltBlockDB now chunkSize [] d =
    Some (d\<lparr>altblockDB := filter (alt_kept now (altblockDB d)) (altblockDB d)\<rparr>)"
  using assms by (rule cleanAltBlockDB_spec)

definition ex_altblock :: "bool \<Rightarrow> alt_msg" where
  "ex_altblock unlocked = \<lparr>b_hash = ''bb'', b_difficulty = 64, b_shares = 1, b_timestamp = 1000, b_poolType = PPLNS,
     b_unlocked = unlocked, b_valid = True, b_value = Some 512, b_pay_ready = Some True, a_port = 18091, a_height = 100,
     a_anchor_height = 90, a_pay_value = None, a_pay_stage = None, a_pay_status = None\<rparr>"

definition ex_alts :: local_db where
  "ex_alts = ex_local\<lparr>altblockDB := [(1, ex_altblock False), (2, ex_altblock True), (3, (ex_altblock True)\<lparr>b_timestamp := 40000000000\<rparr>)]\<rparr>"

lemma ex_alts_ordered: "ordered (altblockDB ex_alts)"
  by (simp add: ex_alts_def ordered_def)

theorem altblock_cleanup_exact_witness:
  "cleanAltBlockDB 40000000000 (Some 1) [] ex_alts =
     Some (ex_alts\<lparr>altblockDB := [(1, ex_altblock False), (3, (ex_altblock True)\<lparr>b_timestamp := 40000000000\<rparr>)]\<rparr>)"
  using altblock_cleanup_exact [OF ex_alts_ordered, of 40000000000 "Some 1"]
  by (simp add: ex_alts_def ex_altblock_def alt_kept_def newer_of_port_def YEAR_MS_def DAY_MS_def)


text \<open>
  C28. Whatever other processes write between the transactions of the altblock cleanup, as long as
  keys stay 32-bit and they leave altblock \<open>k\<close> locked, the cleanup comes to its end and altblock
  \<open>k\<close> is in the table, still locked.
\<close>

theorem locked_altblock_survives:
  assumes "alt_keys d" "row_locked k d"
    and "\<forall>f \<in> set others. \<forall>d. (alt_keys d \<longrightarrow> alt_keys (f d)) \<and> (row_locked k d \<longrightarrow> row_locked k (f d))"
  shows "\<exists>d'. cleanAltBlockDB now chunkSize others d = Some d' \<and> row_locked k d'"
proof -
  let ?s = "\<lparr>al_db = d, al_perPort = (\<lambda>_. 0), al_deletes = [], al_others = others\<rparr>"
  let ?scan = "scanDb (\<lambda>s. altblockDB (al_db s)) True chunkSize (visitAltBlock now) (\<lambda>_. al_interfere) ?s"
  have "al_bounded ?s" "al_locked k ?s" using assms by (simp_all add: al_bounded_def al_locked_def)
  moreover have "fst ` set (altblockDB (al_db s)) \<subseteq> {0..<2 ^ 32}" if "al_bounded s" for s
    using that by (simp add: al_bounded_def alt_keys_def)
  ultimately obtain u where u: "?scan = Some u"
    using alt_ends.scanDb_returns [of "{0..<2 ^ 32}" ?s chunkSize now] by auto
  from alt_beside.scanDb_inv [OF u \<open>al_locked k ?s\<close>] have "al_locked k (al_flush u)" by (rule al_locked_flush)
  then show ?thesis using u by (simp add: cleanAltBlockDB_def al_locked_def)
qed

theorem locked_altblock_survives_witness:
  "\<exists>d'. cleanAltBlockDB 40000000000 (Some 1) [\<lambda>d. d\<lparr>altblockDB := filter (\<lambda>x. fst x \<noteq> 3) (altblockDB d)\<rparr>] ex_alts = Some d' \<and> row_locked 1 d'"
proof -
  let ?f = "\<lambda>d :: local_db. d\<lparr>altblockDB := filter (\<lambda>x. fst x \<noteq> 3) (altblockDB d)\<rparr>"
  have "map_of (filter (\<lambda>x. fst x \<noteq> 3) t) 1 = map_of t (1 :: nat)" for t :: "(nat \<times> alt_msg) list" by (induction t) auto
  then have "\<forall>f \<in> set [?f]. \<forall>d. (alt_keys d \<longrightarrow> alt_keys (f d)) \<and> (row_locked 1 d \<longrightarrow> row_locked 1 (f d))"
    by (auto simp: alt_keys_def row_locked_def ordered_filter)
  moreover have "alt_keys ex_alts" "row_locked 1 ex_alts"
    using ex_alts_ordered by (simp_all add: alt_keys_def row_locked_def) (simp_all add: ex_alts_def ex_altblock_def)
  ultimately show ?thesis by (intro locked_altblock_survives)
qed


subsection \<open>The cache\<close>

text \<open>
  The cleanup of the cache, with nobody writing beside it, comes to its end and leaves exactly
  what the rules name: the three rows of a worker go together, when one of them is missing or
  worthless or the worker was not seen for a week; the history of an account goes after a month;
  the rates of an account are set to zero after a day; every other row but the lists of workers
  is untouched. The size of a chunk and the moments of the flushes do not matter.
\<close>

theorem cache_cleanup_exact:
  assumes "tidy t"
  shows "\<exists>t'. cleanCacheDB now m chunkSize [] t = Some t' \<and>
    (\<forall>k. \<not> ident k \<longrightarrow> map_of t' k = (if row_gone now m t k then None else map_option (reset_row now m k) (map_of t k)))"
  using assms by (rule cleanCacheDB_rules)

text \<open>An account with a worker that is live, a worker that was not seen for eight days and its list.\<close>

definition ex_row :: "int \<Rightarrow> jsval option" where
  "ex_row lastHash = Some (JObj [(''hash'', JNum 5), (''lastHash'', JNum (of_int lastHash))])"

definition ex_cache :: text_rows where
  "ex_cache = [(''ab_x'', ex_row 0), (''ab_y'', ex_row 0), (''history:ab_x'', ex_row 0), (''history:ab_y'', ex_row 0),
     (''stats:ab'', ex_row 700000000), (''stats:ab_x'', ex_row 800000000), (''stats:ab_y'', ex_row 100000000)]"

lemma ex_cache_tidy: "tidy ex_cache"
  by (auto simp: tidy_def ex_cache_def ordered_def tidy_key_def prefixed_def identifiers_key_def history_key_def stats_key_def)

lemma ex_name: "worker_name ''ab_x''" "worker_name ''ab_y''"
  by (auto simp: worker_name_def prefixed_def identifiers_key_def history_key_def stats_key_def)

lemma ex_cached:
  "cacheValue ''ab_x'' ex_cache = the (ex_row 0)" "cacheValue (history_key ''ab_x'') ex_cache = the (ex_row 0)"
  "cacheValue (stats_key ''ab_x'') ex_cache = the (ex_row 800000000)" "cacheValue (stats_key ''ab_y'') ex_cache = the (ex_row 100000000)"
  by (simp_all add: cacheValue_def ex_cache_def ex_row_def history_key_def stats_key_def)

lemma ex_age: "0 < n \<Longrightarrow> age now (the (ex_row n)) = fl (now - of_int n)"
  by (simp add: age_def getLastHashMs_def ex_row_def)

lemma ex_live: "worker_live 800000000 ex_cache ''ab_x''"
  using ex_age [of 800000000] by (simp add: worker_live_def ex_cached) (simp add: ex_row_def WEEK_MS_def DAY_MS_def)

lemma ex_dead: "\<not> worker_live 800000000 ex_cache ''ab_y''"
  using ex_age [of 100000000] fl_of_int [of 700000000] by (simp add: worker_live_def ex_cached WEEK_MS_def DAY_MS_def)

theorem cache_cleanup_exact_witness:
  "\<exists>t'. cleanCacheDB 800000000 1 (Some 2) [] ex_cache = Some t' \<and>
     map_of t' ''ab_x'' = map_of ex_cache ''ab_x'' \<and> map_of t' ''ab_y'' = None \<and> map_of t' ''history:ab_y'' = None \<and>
     map_of t' ''stats:ab'' = map_option (reset_row 800000000 1 ''stats:ab'') (map_of ex_cache ''stats:ab'')"
proof -
  obtain t' where t': "cleanCacheDB 800000000 1 (Some 2) [] ex_cache = Some t'"
    "\<And>k. \<not> ident k \<Longrightarrow> map_of t' k = (if row_gone 800000000 1 ex_cache k then None else map_option (reset_row 800000000 1 k) (map_of ex_cache k))"
    using cache_cleanup_exact [OF ex_cache_tidy, of 800000000 1 "Some 2"] by blast
  have live: "worker_live 800000000 ex_cache ''ab_x''" by (rule ex_live)
  have "family_gone 800000000 1 ex_cache ''ab_y''" by (simp add: family_gone_def ex_name ex_dead)
  then have y: "row_gone 800000000 1 ex_cache ''ab_y''" "row_gone 800000000 1 ex_cache ''history:ab_y''"
    by (auto simp: row_gone_def family_def history_key_def)
  have "b = ''ab_x''" if "family_gone 800000000 1 ex_cache b" "''ab_x'' \<in> family b" for b
    using that family_disjoint [of b "''ab_x''"] ex_name(1) by (auto simp: family_gone_def worker_name_def family_def)
  then have x: "\<not> row_gone 800000000 1 ex_cache ''ab_x''"
    using live by (auto simp: row_gone_def family_gone_def history_key_def)
  have acc: "is_account 1 ''stats:ab''" by (simp add: is_account_def stats_key_def)
  have "\<not> ident ''ab_x''" "\<not> ident ''ab_y''" "\<not> ident ''history:ab_y''" "\<not> ident ''stats:ab''" "\<not> is_account 1 ''ab_x''"
    by (simp_all add: ident_def identifiers_key_def is_account_def stats_key_def)
  moreover from this(5) have "reset_row 800000000 1 ''ab_x'' = id" by (auto simp: reset_row_def)
  ultimately show ?thesis using t' x y not_gone_account [OF acc] by (simp add: option.map_id)
qed


text \<open>
  C29. Whatever other processes write to the cache while it is cleaned, the cleanup comes to its end,
  and a worker that is live when it starts, and that they keep live, is live at the end: none of
  its three rows is deleted because of a delete that was queued earlier.
\<close>

theorem live_worker_survives:
  assumes "cache_keys t" "tidy t" "worker_name b" "worker_live now t b"
    and "\<forall>f \<in> set others. keeps_live now b f \<and> (\<forall>t. cache_keys t \<longrightarrow> cache_keys (f t))"
  shows "\<exists>t'. cleanCacheDB now m chunkSize others t = Some t' \<and> worker_live now t' b"
  using cleanCacheDB_ends [of t others now m chunkSize] live_worker_stays [of now m chunkSize others t _ b] assms by blast

theorem live_worker_survives_witness:
  "\<exists>t'. cleanCacheDB 800000000 1 (Some 2) [filter (\<lambda>x. fst x \<noteq> ''stats:ab'')] ex_cache = Some t' \<and> worker_live 800000000 t' ''ab_x''"
proof (rule live_worker_survives [OF _ ex_cache_tidy])
  show "cache_keys ex_cache" using ex_cache_tidy by (simp add: cache_keys_def tidy_def) (simp add: ex_cache_def)
  show "worker_name ''ab_x''" "worker_live 800000000 ex_cache ''ab_x''" by (rule ex_name ex_live)+
  have m: "map_of (filter (\<lambda>x. fst x \<noteq> ''stats:ab'') t) k = map_of t k" if "k \<in> family ''ab_x''" for t :: text_rows and k
  proof -
    have "k \<noteq> ''stats:ab''" using that by (auto simp: family_def history_key_def stats_key_def)
    then show ?thesis by (induction t) auto
  qed
  have "keeps_live 800000000 ''ab_x'' (filter (\<lambda>x. fst x \<noteq> ''stats:ab''))"
    using worker_live_cong [of "''ab_x''", OF m] by (auto simp: keeps_live_def tidy_def ordered_filter)
  then show "\<forall>f \<in> set [filter (\<lambda>x. fst x \<noteq> ''stats:ab'')]. keeps_live 800000000 ''ab_x'' f \<and> (\<forall>t. cache_keys t \<longrightarrow> cache_keys (f t))"
    by (auto simp: cache_keys_def ordered_filter)
qed


end

