(* ===== verification/Js_Buffer.thy ===== *)
theory Js_Buffer
  imports Js_Value "HOL-Library.Word"
begin

text \<open>
  What the program uses of \<open>Buffer\<close>: bytes at an offset, unsigned 32-bit integers and binary32
  numbers in little-endian order, and base64 texts. Accesses are in range wherever the program
  makes them; there \<open>readAt\<close> and \<open>writeAt\<close> are the methods of the class.
\<close>

type_synonym byte = "8 word"
type_synonym f32 = "32 word"

subsection \<open>Integers\<close>

fun le_value :: "byte list \<Rightarrow> nat" where
  "le_value [] = 0"
| "le_value (b # bs) = unat b + 256 * le_value bs"

fun le_bytes :: "nat \<Rightarrow> nat \<Rightarrow> byte list" where
  "le_bytes 0 n = []"
| "le_bytes (Suc k) n = word_of_nat n # le_bytes k (n div 256)"

definition readAt :: "byte list \<Rightarrow> nat \<Rightarrow> nat \<Rightarrow> byte list" where
  "readAt buf off n = take n (drop off buf)"

definition writeAt :: "byte list \<Rightarrow> nat \<Rightarrow> byte list \<Rightarrow> byte list" where
  "writeAt buf off bs = take off buf @ bs @ drop (off + length bs) buf"

definition readUInt32LE :: "byte list \<Rightarrow> nat \<Rightarrow> nat" where
  "readUInt32LE buf off = le_value (readAt buf off 4)"

definition writeUInt32LE :: "nat \<Rightarrow> nat \<Rightarrow> byte list \<Rightarrow> byte list" where
  "writeUInt32LE n off buf = writeAt buf off (le_bytes 4 n)"

lemma length_le_bytes [simp]: "length (le_bytes k n) = k"
  by (induction k n rule: le_bytes.induct) auto

lemma le_value_bytes: "le_value (le_bytes k n) = n mod 256 ^ k"
proof (induction k n rule: le_bytes.induct)
  case (2 k n)
  then show ?case by (simp add: unat_of_nat mod_mult2_eq [of n 256 "256 ^ k"])
qed simp

lemma length_writeAt [simp]: "off + length bs \<le> length buf \<Longrightarrow> length (writeAt buf off bs) = length buf"
  by (simp add: writeAt_def)

lemma read_written: "off + length bs \<le> length buf \<Longrightarrow> readAt (writeAt buf off bs) off (length bs) = bs"
  by (simp add: readAt_def writeAt_def)

lemma read_beside:
  assumes "off + length bs \<le> length buf" "i + n \<le> off \<or> off + length bs \<le> i"
  shows "readAt (writeAt buf off bs) i n = readAt buf i n"
  using assms(2)
proof
  assume "i + n \<le> off"
  then show ?thesis using assms(1) by (simp add: readAt_def writeAt_def drop_take [symmetric] take_drop)
next
  assume i: "off + length bs \<le> i"
  then obtain d where d: "i = off + length bs + d" by (metis le_Suc_ex)
  show ?thesis using assms(1) by (simp add: d readAt_def writeAt_def ac_simps)
qed

lemma u32_written:
  "off + 4 \<le> length buf \<Longrightarrow> n < 2 ^ 32 \<Longrightarrow> readUInt32LE (writeUInt32LE n off buf) off = n"
  using read_written [of off "le_bytes 4 n" buf] by (simp add: readUInt32LE_def writeUInt32LE_def le_value_bytes)

subsection \<open>Binary32\<close>

text \<open>
  \<open>f32_bits x\<close> is the bit pattern of \<open>Math.fround(x)\<close>, subnormal numbers and the infinities
  included; \<open>f32_value\<close> is the number of a pattern, \<open>None\<close> for NaN and the infinities.
\<close>

definition f32_pos :: "num \<Rightarrow> nat" where
  "f32_pos x =
     (let e = max (expo x) (-126)
      in min (nat ((e + 126) * 2 ^ 23 + rhe (x / 2 powi (e - 23)))) (255 * 2 ^ 23))"

definition f32_bits :: "num \<Rightarrow> f32" where
  "f32_bits x = word_of_nat (if x = 0 then 0 else if 0 < x then f32_pos x else 2 ^ 31 + f32_pos (- x))"

definition f32_value :: "f32 \<Rightarrow> num option" where
  "f32_value w =
     (let b = unat w; e = b div 2 ^ 23 mod 256; m = b mod 2 ^ 23
      in if e = 255 then None
         else Some ((if b < 2 ^ 31 then 1 else -1) *
                    (if e = 0 then of_nat m * 2 powi -149 else of_nat (2 ^ 23 + m) * 2 powi (int e - 150))))"

text \<open>A float survives its rounding: \<open>Math.fround\<close> of the number of a pattern is the pattern.\<close>

lemma f32_pos_value:
  assumes "b div 2 ^ 23 < 255" "0 < b"
  defines "v \<equiv> (if b div 2 ^ 23 = 0 then of_nat (b mod 2 ^ 23) * 2 powi -149
      else of_nat (2 ^ 23 + b mod 2 ^ 23) * 2 powi (int (b div 2 ^ 23) - 150) :: num)"
  shows "0 < v \<and> f32_pos v = b"
proof -
  define e m where "e = b div 2 ^ 23" and "m = b mod 2 ^ 23"
  have b: "b = e * 2 ^ 23 + m" "m < 2 ^ 23" "e < 255" using assms(1) by (simp_all add: e_def m_def)
  then have le: "b \<le> 255 * 2 ^ 23" by simp
  show ?thesis
  proof (cases "e = 0")
    case True
    then have v: "v = of_int (int m) * 2 powi -149" by (simp add: v_def e_def m_def)
    have pos: "0 < v" using assms(2) b True by (simp add: v)
    have "v < 2 ^ 23 * 2 powi -149" unfolding v using b(2) by (intro mult_strict_right_mono) auto
    also have "\<dots> = 2 powi -126" using power_int_add [of "2::rat" 23 "-149"] by simp
    finally have "\<not> -126 < expo v"
      using expo_bounds(1) [OF pos] powi_mono [of "-126" "expo v"] by linarith
    then have "max (expo v) (-126) = -126" by simp
    moreover have "v / 2 powi (-126 - 23) = of_int (int m)" by (simp add: v)
    ultimately have "f32_pos v = min (nat ((-126 + 126) * 2 ^ 23 + int m)) (255 * 2 ^ 23)"
      unfolding f32_pos_def Let_def by (simp only: rhe_of_int)
    with pos b True le show ?thesis by simp
  next
    case False
    then have v: "v = of_int (2 ^ 23 + int m) * 2 powi (int e - 150)" by (simp add: v_def e_def m_def)
    have pos: "0 < v" by (simp add: v)
    have "2 powi (int e - 127) = 2 ^ 23 * (2::rat) powi (int e - 150)" by (simp add: power_int_diff)
    moreover have "2 powi (int e - 127 + 1) = 2 ^ 24 * (2::rat) powi (int e - 150)" by (simp add: power_int_diff power_int_add)
    moreover have "2 ^ 23 * (2::rat) powi (int e - 150) \<le> v" unfolding v by (intro mult_right_mono) auto
    moreover have "v < 2 ^ 24 * (2::rat) powi (int e - 150)" unfolding v using b(2) by (intro mult_strict_right_mono) auto
    ultimately have x: "expo v = int e - 127" by (intro expo_unique pos) simp_all
    have r: "v / 2 powi (int e - 127 - 23) = of_int (2 ^ 23 + int m)" by (simp add: v)
    have "max (int e - 127) (-126) = int e - 127" using False by simp
    then have "f32_pos v = min (nat ((int e - 127 + 126) * 2 ^ 23 + (2 ^ 23 + int m))) (255 * 2 ^ 23)"
      unfolding f32_pos_def Let_def x by (simp only: r rhe_of_int)
    also have "(int e - 127 + 126) * 2 ^ 23 + (2 ^ 23 + int m) = int b" by (simp add: b(1) algebra_simps)
    finally show ?thesis using pos le by simp
  qed
qed

lemma f32_round_trip: "f32_value w = Some v \<Longrightarrow> v \<noteq> 0 \<Longrightarrow> f32_bits v = w"
proof -
  define b where "b = unat w mod 2 ^ 31"
  assume v: "f32_value w = Some v" "v \<noteq> 0"
  have w: "unat w < 2 ^ 32" using unsigned_less [where 'a = nat, of w] by simp
  have "b = 2 ^ 23 * (unat w div 2 ^ 23 mod 256) + unat w mod 2 ^ 23"
    using mod_mult2_eq [of "unat w" "2 ^ 23" 256] by (simp add: b_def)
  then have d: "unat w div 2 ^ 23 mod 256 = b div 2 ^ 23" "unat w mod 2 ^ 23 = b mod 2 ^ 23" by simp_all
  let ?v = "if b div 2 ^ 23 = 0 then of_nat (b mod 2 ^ 23) * 2 powi -149
      else of_nat (2 ^ 23 + b mod 2 ^ 23) * 2 powi (int (b div 2 ^ 23) - 150) :: num"
  have "b < 2 ^ 23 * 256" by (simp add: b_def)
  then have "b div 2 ^ 23 < 256" by (rule less_mult_imp_div_less [OF less_le_trans]) simp
  then have e: "b div 2 ^ 23 < 255" "v = (if unat w < 2 ^ 31 then ?v else - ?v)"
    using v(1) d(1) [symmetric] unfolding f32_value_def Let_def d by (auto split: if_splits)
  then have "0 < b" using v(2) by (auto split: if_splits)
  note p = f32_pos_value [OF e(1) this]
  show ?thesis
  proof (cases "unat w < 2 ^ 31")
    case True
    then have "b = unat w" by (simp add: b_def)
    with True e(2) p show ?thesis unfolding f32_bits_def by simp
  next
    case False
    then have u: "unat w = 2 ^ 31 + b" using w by (simp add: b_def le_mod_geq)
    have "f32_bits v = word_of_nat (2 ^ 31 + b)" using False e(2) p unfolding f32_bits_def by (simp del: of_nat_add)
    also have "\<dots> = w" unfolding u [symmetric] by simp
    finally show ?thesis .
  qed
qed

definition readFloatLE :: "byte list \<Rightarrow> nat \<Rightarrow> f32" where
  "readFloatLE buf off = word_of_nat (le_value (readAt buf off 4))"

definition writeFloatLE :: "f32 \<Rightarrow> nat \<Rightarrow> byte list \<Rightarrow> byte list" where
  "writeFloatLE w off buf = writeAt buf off (le_bytes 4 (unat w))"

lemma float_written: "off + 4 \<le> length buf \<Longrightarrow> readFloatLE (writeFloatLE w off buf) off = w"
  using read_written [of off "le_bytes 4 (unat w)" buf] unsigned_less [where 'a = nat, of w]
  by (simp add: readFloatLE_def writeFloatLE_def le_value_bytes)

subsection \<open>Base64\<close>

definition BASE64 :: string where
  "BASE64 = ''ABCDEFGHIJKLMNOPQRSTUVWXYZabcdefghijklmnopqrstuvwxyz0123456789+/''"

definition sextet_char :: "nat \<Rightarrow> char" where
  "sextet_char n = BASE64 ! (n mod 64)"

definition char_sextet :: "char \<Rightarrow> nat option" where
  "char_sextet c = map_of (zip BASE64 [0..<64] @ [(CHR ''-'', 62), (CHR ''_'', 63)]) c"

fun base64_encode :: "byte list \<Rightarrow> string" where
  "base64_encode [] = []"
| "base64_encode [a] = (let n = unat a * 16 in [sextet_char (n div 64), sextet_char n, CHR ''='', CHR ''=''])"
| "base64_encode [a, b] =
     (let n = (unat a * 256 + unat b) * 4 in [sextet_char (n div 4096), sextet_char (n div 64), sextet_char n, CHR ''=''])"
| "base64_encode (a # b # c # bs) =
     (let n = (unat a * 256 + unat b) * 256 + unat c
      in [sextet_char (n div 262144), sextet_char (n div 4096), sextet_char (n div 64), sextet_char n] @ base64_encode bs)"

fun sextet_bytes :: "nat list \<Rightarrow> byte list" where
  "sextet_bytes (p # q # r # s # rest) =
     (let n = ((p * 64 + q) * 64 + r) * 64 + s
      in [word_of_nat (n div 65536), word_of_nat (n div 256), word_of_nat n] @ sextet_bytes rest)"
| "sextet_bytes [p, q, r] = (let n = ((p * 64 + q) * 64 + r) div 4 in [word_of_nat (n div 256), word_of_nat n])"
| "sextet_bytes [p, q] = [word_of_nat ((p * 64 + q) div 16)]"
| "sextet_bytes _ = []"

text \<open>\<open>Buffer.from(s, "base64")\<close> ends at the padding and passes over what is not in the alphabet.\<close>

definition base64_decode :: "string \<Rightarrow> byte list" where
  "base64_decode s = sextet_bytes (List.map_filter char_sextet (takeWhile (\<lambda>c. c \<noteq> CHR ''='') s))"

lemma sextets: "list_all (\<lambda>n. char_sextet (sextet_char n) = Some n \<and> sextet_char n \<noteq> CHR ''='') [0..<64]"
  by code_simp

lemma sextet_char_mod: "sextet_char n = sextet_char (n mod 64)"
  by (simp add: sextet_char_def)

lemma char_sextet_char [simp]: "char_sextet (sextet_char n) = Some (n mod 64)" "sextet_char n \<noteq> CHR ''=''"
proof -
  have "n mod 64 \<in> set [0..<64]" by simp
  then show "char_sextet (sextet_char n) = Some (n mod 64)" "sextet_char n \<noteq> CHR ''=''"
    using sextets unfolding list_all_iff by (metis sextet_char_mod)+
qed

lemma sextet_split:
  "n < 16777216 \<Longrightarrow> ((n div 262144 mod 64 * 64 + n div 4096 mod 64) * 64 + n div 64 mod 64) * 64 + n mod 64 = n" for n :: nat
proof -
  assume n: "n < 16777216"
  have d: "n div 4096 = n div 64 div 64" "n div 262144 = n div 64 div 64 div 64" by (simp_all flip: div_mult2_eq)
  have "n div 262144 mod 64 = n div 262144" using n by (simp add: less_mult_imp_div_less)
  then show ?thesis by (simp add: d)
qed

lemma byte_range: "unat b < 256" for b :: byte
  using unsigned_less [where 'a = nat, of b] by simp

lemma byte_of: "word_of_nat (k * 256 + unat b) = b" for b :: byte
  using byte_range [of b] by (simp add: word_unat_eq_iff unat_of_nat del: of_nat_add of_nat_mult)

lemma base64_round_trip: "base64_decode (base64_encode bs) = bs"
proof (induction bs rule: base64_encode.induct)
  case (2 a)
  define n where "n = unat a * 16"
  have "n < 4096" using byte_range [of a] by (simp add: n_def)
  then have "n div 64 mod 64 * 64 + n mod 64 = n" by (simp add: less_mult_imp_div_less)
  then show ?case by (simp add: base64_decode_def List.map_filter_simps flip: n_def) (simp add: n_def)
next
  case (3 a b)
  define n where "n = (unat a * 256 + unat b) * 4"
  have "n < 262144" using byte_range [of a] byte_range [of b] by (simp add: n_def)
  then have "n div 4096 mod 64 = n div 4096" by (simp add: less_mult_imp_div_less)
  moreover from \<open>n < 262144\<close> have "(n div 4096 mod 64 * 64 + n div 64 mod 64) * 64 + n mod 64 = n" using sextet_split [of n] by simp
  ultimately have s: "sextet_bytes [n div 4096 mod 64, n div 64 mod 64, n mod 64] = [word_of_nat (n div 4 div 256), word_of_nat (n div 4)]"
    by (simp only: sextet_bytes.simps Let_def)
  have "n div 4 div 256 = unat a" "n div 4 = unat a * 256 + unat b" using byte_range [of b] by (simp_all add: n_def)
  then have "[word_of_nat (n div 4 div 256), word_of_nat (n div 4)] = [a, b]"
    using byte_of [of 0 a] byte_of [of "unat a" b] by simp
  moreover have "base64_encode [a, b] = [sextet_char (n div 4096), sextet_char (n div 64), sextet_char n, CHR ''='']"
    by (simp only: base64_encode.simps Let_def n_def)
  ultimately show ?case using s
    by (simp add: base64_decode_def List.map_filter_simps Let_def del: sextet_bytes.simps base64_encode.simps)
next
  case (4 a b c bs)
  define n where "n = (unat a * 256 + unat b) * 256 + unat c"
  have r: "unat a < 256" "unat b < 256" "unat c < 256" by (rule byte_range)+
  then have "n < 16777216" by (simp add: n_def)
  note s = sextet_split [OF this]
  have "n div 65536 = unat a" "n div 256 = unat a * 256 + unat b" using r by (simp_all add: n_def)
  then have "[word_of_nat (n div 65536), word_of_nat (n div 256), word_of_nat n] = [a, b, c]"
    using byte_of [of 0 a] byte_of [of "unat a" b] byte_of [of "unat a * 256 + unat b" c] by (simp add: n_def)
  moreover have "sextet_bytes (n div 262144 mod 64 # n div 4096 mod 64 # n div 64 mod 64 # n mod 64 # xs) =
      [word_of_nat (n div 65536), word_of_nat (n div 256), word_of_nat n] @ sextet_bytes xs" for xs
    by (simp only: sextet_bytes.simps Let_def s)
  moreover have "base64_encode (a # b # c # bs) =
      [sextet_char (n div 262144), sextet_char (n div 4096), sextet_char (n div 64), sextet_char n] @ base64_encode bs"
    by (simp only: base64_encode.simps Let_def n_def)
  ultimately show ?case
    using 4 by (simp add: base64_decode_def List.map_filter_simps del: sextet_bytes.simps base64_encode.simps)
qed (simp add: base64_decode_def List.map_filter_simps)

end
