(* ===== verification/Worker_History.thy ===== *)
theory Worker_History
  imports Js_Buffer Payments_Common
begin

text \<open>
  \<open>src/lib/common/worker_history.js\<close>: the hash rate history of a worker or an account. Samples
  go to a ring buffer; when it is full, its oldest samples are averaged into one sample of the
  next, coarser ring, and the last ring forgets its oldest one. A ring is a buffer of records of
  twelve bytes; the cache keeps it as a base64 text.

  The result of \<open>Number(v)\<close> is an option, \<open>None\<close> for NaN and the infinities, which the code never
  tells apart. Counts stay far below 2^53, so the floor of a quotient of counts is \<open>div\<close>.
\<close>

definition HISTORY_VERSION :: num where "HISTORY_VERSION = 2"
definition HISTORY_KIND :: string where "HISTORY_KIND = ''worker-history-tiered''"
definition HISTORY_ENCODING :: string where "HISTORY_ENCODING = ''base64-u32-f32-f32-le''"
definition DEFAULT_BASE_INTERVAL_SEC :: nat where "DEFAULT_BASE_INTERVAL_SEC = 120"
definition DEFAULT_TIER_RATIO :: nat where "DEFAULT_TIER_RATIO = 3"
definition POINT_BYTES :: nat where "POINT_BYTES = 12"
definition UINT32_MAX :: num where "UINT32_MAX = 4294967295"

subsection \<open>Normalization\<close>

definition normalizePositiveInteger :: "jsval \<Rightarrow> nat \<Rightarrow> nat" where
  "normalizePositiveInteger value fallback =
     (case js_Number value of Some x \<Rightarrow> if 0 < \<lfloor>x\<rfloor> then nat \<lfloor>x\<rfloor> else fallback | None \<Rightarrow> fallback)"

definition normalizeNonNegativeInteger :: "jsval \<Rightarrow> nat \<Rightarrow> nat" where
  "normalizeNonNegativeInteger value fallback =
     (case js_Number value of Some x \<Rightarrow> if 0 \<le> \<lfloor>x\<rfloor> then nat \<lfloor>x\<rfloor> else fallback | None \<Rightarrow> fallback)"

definition normalizeFiniteNumber :: "num option \<Rightarrow> num \<Rightarrow> num" where
  "normalizeFiniteNumber parsed fallback = (case parsed of Some x \<Rightarrow> x | None \<Rightarrow> fallback)"

definition normalizeTimestampMs :: "num option \<Rightarrow> num" where
  "normalizeTimestampMs value =
     (let timestampMs = js_round (normalizeFiniteNumber value 0); timestampSec = js_round (fl (timestampMs / 1000))
      in max 0 (min UINT32_MAX timestampSec) * 1000)"

definition normalizeHashrate :: "num option \<Rightarrow> f32" where
  "normalizeHashrate value = f32_bits (normalizeFiniteNumber value 0)"

text \<open>The same on a float, which \<open>Math.fround\<close> leaves alone.\<close>

definition normalizeFloat :: "f32 \<Rightarrow> f32" where
  "normalizeFloat w = (if f32_value w = None then 0 else w)"

record history_point =
  hp_ts :: num
  hp_hs :: f32
  hp_hs2 :: f32

definition normalizePoint :: "jsval \<Rightarrow> history_point option" where
  "normalizePoint point =
     (if \<not> isRecord point then None
      else case js_Number (getf point ''hs'') of
             None \<Rightarrow> None
           | Some hs \<Rightarrow>
               Some \<lparr>hp_ts = normalizeTimestampMs (js_Number (getf point ''ts'')), hp_hs = normalizeHashrate (Some hs),
                     hp_hs2 = normalizeHashrate (js_Number (getf point ''hs2''))\<rparr>)"

subsection \<open>The layout\<close>

definition distributeCapacity :: "nat \<Rightarrow> nat \<Rightarrow> nat list" where
  "distributeCapacity totalPoints tierCount =
     map (\<lambda>index. totalPoints div tierCount + (if index < totalPoints mod tierCount then 1 else 0)) [0..<tierCount]"

definition calculateCoverage :: "nat list \<Rightarrow> nat \<Rightarrow> nat \<Rightarrow> num" where
  "calculateCoverage capacities baseIntervalSec tierRatio =
     fold (\<lambda>index coverage.
         fl (coverage + fl (fl (of_nat (capacities ! index) * of_nat baseIntervalSec) * fl (of_nat tierRatio ^ index))))
       [0..<length capacities] 0"

record history_layout =
  hl_maxPoints :: nat
  hl_targetSpanSec :: num
  hl_base :: nat
  hl_ratio :: nat
  hl_capacities :: "nat list"
  hl_intervalsSec :: "num list"

text \<open>The loop over the number of tiers, until they cover the span.\<close>

fun pickCapacities :: "nat \<Rightarrow> nat \<Rightarrow> nat \<Rightarrow> num \<Rightarrow> nat list \<Rightarrow> nat list \<Rightarrow> nat list" where
  "pickCapacities maxPoints base ratio target capacities [] = capacities"
| "pickCapacities maxPoints base ratio target capacities (tierCount # counts) =
     (let candidate = distributeCapacity maxPoints tierCount
      in if target \<le> calculateCoverage candidate base ratio then candidate
         else pickCapacities maxPoints base ratio target candidate counts)"

definition buildTierLayout :: "jsval \<Rightarrow> jsval \<Rightarrow> jsval \<Rightarrow> history_layout" where
  "buildTierLayout statsBufferLength statsBufferHours opts =
     (let maxPoints = normalizePositiveInteger statsBufferLength 1;
          base = normalizePositiveInteger (getf opts ''baseIntervalSec'') DEFAULT_BASE_INTERVAL_SEC;
          ratio = normalizePositiveInteger (getf opts ''tierRatio'') DEFAULT_TIER_RATIO;
          target = max (of_nat base) (js_floor (fl (fl (normalizeFiniteNumber (js_Number statsBufferHours) 1 * 60) * 60)));
          capacities = pickCapacities maxPoints base ratio target [maxPoints] [1..<Suc (max 1 (maxPoints div ratio))]
      in \<lparr>hl_maxPoints = maxPoints, hl_targetSpanSec = target, hl_base = base, hl_ratio = ratio, hl_capacities = capacities,
          hl_intervalsSec = map (\<lambda>index. fl (of_nat base * fl (of_nat ratio ^ index))) [0..<length capacities]\<rparr>)"

subsection \<open>Rings\<close>

record history_tier =
  ht_head :: nat
  ht_size :: nat
  ht_buffer :: "byte list"

record history =
  hi_base :: nat
  hi_ratio :: nat
  hi_capacities :: "nat list"
  hi_tiers :: "history_tier list"

definition createEmptyTier :: "nat \<Rightarrow> history_tier" where
  "createEmptyTier capacity = \<lparr>ht_head = 0, ht_size = 0, ht_buffer = replicate (capacity * POINT_BYTES) 0\<rparr>"

definition createEmptyHistory :: "history_layout \<Rightarrow> history" where
  "createEmptyHistory layout =
     \<lparr>hi_base = hl_base layout, hi_ratio = hl_ratio layout, hi_capacities = hl_capacities layout,
      hi_tiers = map createEmptyTier (hl_capacities layout)\<rparr>"

definition pointOffset :: "nat \<Rightarrow> nat" where
  "pointOffset slotIndex = slotIndex * POINT_BYTES"

definition getPoint :: "history_tier \<Rightarrow> nat \<Rightarrow> nat \<Rightarrow> history_point" where
  "getPoint tier capacity logicalIndex =
     (let offset = pointOffset ((ht_head tier + logicalIndex) mod capacity)
      in \<lparr>hp_ts = of_nat (readUInt32LE (ht_buffer tier) offset) * 1000, hp_hs = readFloatLE (ht_buffer tier) (offset + 4),
          hp_hs2 = readFloatLE (ht_buffer tier) (offset + 8)\<rparr>)"

definition setPoint :: "nat \<Rightarrow> nat \<Rightarrow> history_point \<Rightarrow> history_tier \<Rightarrow> history_tier" where
  "setPoint capacity logicalIndex point tier =
     (let offset = pointOffset ((ht_head tier + logicalIndex) mod capacity);
          sec = nat \<lfloor>js_round (fl (normalizeTimestampMs (Some (hp_ts point)) / 1000))\<rfloor>
      in tier\<lparr>ht_buffer := writeFloatLE (normalizeFloat (hp_hs2 point)) (offset + 8)
           (writeFloatLE (normalizeFloat (hp_hs point)) (offset + 4) (writeUInt32LE sec offset (ht_buffer tier)))\<rparr>)"

definition dropOldestPoints :: "nat \<Rightarrow> nat \<Rightarrow> history_tier \<Rightarrow> history_tier" where
  "dropOldestPoints capacity n tier =
     (if n = 0 \<or> ht_size tier = 0 then tier
      else let removeCount = min n (ht_size tier)
           in tier\<lparr>ht_head := (ht_head tier + removeCount) mod capacity, ht_size := ht_size tier - removeCount\<rparr>)"

text \<open>A sum with a number that is not finite is not finite.\<close>

definition addRate :: "f32 \<Rightarrow> num option \<Rightarrow> num option" where
  "addRate w acc = (case (acc, f32_value w) of (Some a, Some x) \<Rightarrow> Some (fl (a + x)) | _ \<Rightarrow> None)"

definition bucketPoint :: "nat \<Rightarrow> history_point list \<Rightarrow> history_point" where
  "bucketPoint bucketSize points =
     \<lparr>hp_ts = (if points = [] then 0 else hp_ts (last points)),
      hp_hs = normalizeHashrate (map_option (\<lambda>s. fl (s / of_nat bucketSize)) (fold (\<lambda>p. addRate (hp_hs p)) points (Some 0))),
      hp_hs2 = normalizeHashrate (map_option (\<lambda>s. fl (s / of_nat bucketSize)) (fold (\<lambda>p. addRate (hp_hs2 p)) points (Some 0)))\<rparr>"

definition compactOldestBucket :: "nat \<Rightarrow> nat \<Rightarrow> history_tier \<Rightarrow> history_point \<times> history_tier" where
  "compactOldestBucket capacity bucketSize tier =
     (bucketPoint bucketSize (map (getPoint tier capacity) [0..<bucketSize]), dropOldestPoints capacity bucketSize tier)"

definition setTier :: "nat \<Rightarrow> history_tier \<Rightarrow> history \<Rightarrow> history" where
  "setTier i tier h = h\<lparr>hi_tiers := (hi_tiers h)[i := tier]\<rparr>"

text \<open>The point is written once the coarser tiers have taken what falls out of this one.\<close>

function appendToTier :: "nat \<Rightarrow> history_point \<Rightarrow> history \<Rightarrow> history" where
  "appendToTier i point h =
     (if length (hi_capacities h) \<le> i \<or> length (hi_tiers h) \<le> i then h
      else
        let capacity = hi_capacities h ! i; tier = hi_tiers h ! i; lastTier = (i = length (hi_tiers h) - 1);
            h1 = (if ht_size tier \<noteq> capacity then h
                  else if lastTier then setTier i (dropOldestPoints capacity 1 tier) h
                  else let (p, tier') = compactOldestBucket capacity (hi_ratio h) tier
                       in appendToTier (i + 1) p (setTier i tier' h));
            tier1 = setPoint capacity (ht_size (hi_tiers h1 ! i)) point (hi_tiers h1 ! i)
        in setTier i (tier1\<lparr>ht_size := ht_size tier1 + 1\<rparr>) h1)"
  by pat_completeness auto
termination
  by (relation "measure (\<lambda>(i, p, h). length (hi_tiers h) - i)") (auto simp: setTier_def)

declare appendToTier.simps [simp del]

subsection \<open>The cache entry\<close>

definition normalizeTierMetadata :: "jsval \<Rightarrow> nat \<Rightarrow> nat \<times> nat" where
  "normalizeTierMetadata tier capacity =
     (let size = min (normalizeNonNegativeInteger (if isRecord tier then getf tier ''size'' else JNull) 0) capacity
      in (if size = 0 then 0 else normalizeNonNegativeInteger (if isRecord tier then getf tier ''head'' else JNull) 0 mod capacity, size))"

definition normalizeBinaryTier :: "jsval \<Rightarrow> nat \<Rightarrow> history_tier option" where
  "normalizeBinaryTier tier capacity =
     (case (isRecord tier, getf tier ''data'') of
        (True, JStr text) \<Rightarrow>
          let (head, size) = normalizeTierMetadata tier capacity; decoded = base64_decode text
          in if length decoded \<noteq> capacity * POINT_BYTES then None
             else Some \<lparr>ht_head = head, ht_size = size, ht_buffer = decoded\<rparr>
      | _ \<Rightarrow> None)"

fun normalizeTiers :: "nat list \<Rightarrow> jsval list \<Rightarrow> history_tier list option" where
  "normalizeTiers (capacity # capacities) (raw # raws) =
     (case normalizeBinaryTier raw capacity of
        None \<Rightarrow> None
      | Some tier \<Rightarrow> map_option ((#) tier) (normalizeTiers capacities raws))"
| "normalizeTiers _ _ = Some []"

definition normalizeTieredHistoryPayload :: "jsval \<Rightarrow> history option" where
  "normalizeTieredHistoryPayload payload =
     (if \<not> isRecord payload \<or> getf payload ''v'' \<noteq> JNum HISTORY_VERSION \<or> getf payload ''kind'' \<noteq> JStr HISTORY_KIND \<or>
         getf payload ''encoding'' \<noteq> JStr HISTORY_ENCODING then None
      else case (getf payload ''capacities'', getf payload ''tiers'') of
             (JArr cs, JArr raws) \<Rightarrow>
               let capacities = filter (\<lambda>c. 0 < c) (map (\<lambda>c. normalizePositiveInteger c 0) cs)
               in if capacities = [] \<or> length capacities \<noteq> length raws then None
                  else map_option (\<lambda>tiers.
                         \<lparr>hi_base = normalizePositiveInteger (getf payload ''baseIntervalSec'') DEFAULT_BASE_INTERVAL_SEC,
                          hi_ratio = normalizePositiveInteger (getf payload ''tierRatio'') DEFAULT_TIER_RATIO,
                          hi_capacities = capacities, hi_tiers = tiers\<rparr>) (normalizeTiers capacities raws)
           | _ \<Rightarrow> None)"

definition layoutsMatch :: "history \<Rightarrow> history_layout \<Rightarrow> bool" where
  "layoutsMatch h layout \<longleftrightarrow>
     hi_base h = hl_base layout \<and> hi_ratio h = hl_ratio layout \<and> hi_capacities h = hl_capacities layout"

text \<open>The newest points first, at most \<open>maxPoints\<close> of them if it is given; one is returned even if it is zero.\<close>

definition tierPoints :: "history_tier \<Rightarrow> nat \<Rightarrow> history_point list" where
  "tierPoints tier capacity = map (getPoint tier capacity) (rev [0..<ht_size tier])"

definition historyPoints :: "history \<Rightarrow> nat option \<Rightarrow> history_point list" where
  "historyPoints h maxPoints =
     (let points = concat (map (\<lambda>(tier, capacity). tierPoints tier capacity) (zip (hi_tiers h) (hi_capacities h)))
      in case maxPoints of None \<Rightarrow> points | Some n \<Rightarrow> take (max 1 n) points)"

definition toHashHistory :: "jsval \<Rightarrow> nat option \<Rightarrow> history_point list" where
  "toHashHistory payload maxPoints =
     (if \<not> truthy payload then []
      else case normalizeTieredHistoryPayload payload of Some h \<Rightarrow> historyPoints h maxPoints | None \<Rightarrow> [])"

text \<open>Points are replayed from the oldest one; those of a history are normalized already.\<close>

definition replayPoints :: "history_point list \<Rightarrow> history_layout \<Rightarrow> history" where
  "replayPoints points layout = fold (appendToTier 0) (rev points) (createEmptyHistory layout)"

definition importHistoryPoints :: "jsval list \<Rightarrow> history_layout \<Rightarrow> history" where
  "importHistoryPoints points layout = replayPoints (List.map_filter normalizePoint points) layout"

definition refinite :: "history_point \<Rightarrow> history_point option" where
  "refinite p =
     (if f32_value (hp_hs p) = None then None
      else Some \<lparr>hp_ts = normalizeTimestampMs (Some (hp_ts p)), hp_hs = hp_hs p, hp_hs2 = normalizeFloat (hp_hs2 p)\<rparr>)"

definition getWorkerHistoryState :: "jsval \<Rightarrow> history_layout \<Rightarrow> history" where
  "getWorkerHistoryState payload layout =
     (case normalizeTieredHistoryPayload payload of
        Some h \<Rightarrow> if layoutsMatch h layout then h
                  else replayPoints (List.map_filter refinite (historyPoints h None)) layout
      | None \<Rightarrow> createEmptyHistory layout)"

definition serializeTier :: "history_tier \<Rightarrow> jsval" where
  "serializeTier tier =
     JObj [(''head'', JNum (of_nat (ht_head tier))), (''size'', JNum (of_nat (ht_size tier))),
           (''data'', JStr (base64_encode (ht_buffer tier)))]"

definition serializeHistory :: "history \<Rightarrow> jsval" where
  "serializeHistory h =
     JObj [(''v'', JNum HISTORY_VERSION), (''kind'', JStr HISTORY_KIND), (''encoding'', JStr HISTORY_ENCODING),
           (''baseIntervalSec'', JNum (of_nat (hi_base h))), (''tierRatio'', JNum (of_nat (hi_ratio h))),
           (''capacities'', JArr (map (\<lambda>c. JNum (of_nat c)) (hi_capacities h))), (''tiers'', JArr (map serializeTier (hi_tiers h)))]"

definition importHistoryPayload :: "jsval list \<Rightarrow> history_layout \<Rightarrow> jsval" where
  "importHistoryPayload points layout = serializeHistory (importHistoryPoints points layout)"

definition appendHistorySample :: "jsval \<Rightarrow> history_layout \<Rightarrow> jsval \<Rightarrow> jsval" where
  "appendHistorySample payload layout point =
     (case normalizePoint point of
        None \<Rightarrow> serializeHistory (getWorkerHistoryState payload layout)
      | Some p \<Rightarrow> serializeHistory (appendToTier 0 p (getWorkerHistoryState payload layout)))"

end
