(* ===== verification/Worker_History_Safety.thy ===== *)
theory Worker_History_Safety
  imports Worker_History
begin

text \<open>
  What the rings of a history stand for: lists of points, oldest first. Appending a sample to the
  rings is appending it to the lists, and the lists stay in the order of time.
\<close>

subsection \<open>Points in a ring\<close>

definition stored :: "history_point \<Rightarrow> history_point" where
  "stored p = \<lparr>hp_ts = normalizeTimestampMs (Some (hp_ts p)), hp_hs = normalizeFloat (hp_hs p), hp_hs2 = normalizeFloat (hp_hs2 p)\<rparr>"

definition tier_ok :: "nat \<Rightarrow> history_tier \<Rightarrow> bool" where
  "tier_ok c t \<longleftrightarrow> 0 < c \<and> length (ht_buffer t) = c * POINT_BYTES \<and> ht_head t < c \<and> ht_size t \<le> c"

definition abs_tier :: "nat \<Rightarrow> history_tier \<Rightarrow> history_point list" where
  "abs_tier c t = map (getPoint t c) [0..<ht_size t]"

lemma length_abs_tier [simp]: "length (abs_tier c t) = ht_size t"
  by (simp add: abs_tier_def)

lemma js_round_nat [simp]: "js_round (of_nat n) = of_nat n"
proof -
  have "\<lfloor>(of_nat n :: num) + 1 / 2\<rfloor> = int n" by (rule floor_unique) simp_all
  then show ?thesis by (simp add: js_round_def)
qed

lemma timestamp_sec:
  obtains s where "normalizeTimestampMs v = of_nat s * 1000" "s < 2 ^ 32"
    "nat \<lfloor>js_round (fl (normalizeTimestampMs v / 1000))\<rfloor> = s"
proof -
  define x where "x = max 0 (min UINT32_MAX (js_round (fl (js_round (normalizeFiniteNumber v 0) / 1000))))"
  obtain n where "js_round (fl (js_round (normalizeFiniteNumber v 0) / 1000)) = of_int n" by (auto simp: js_round_def)
  then have "x = of_int (max 0 (min 4294967295 n))" by (simp add: x_def UINT32_MAX_def of_int_max of_int_min)
  moreover define s where "s = nat (max 0 (min 4294967295 n))"
  ultimately have s: "x = of_nat s" "s < 2 ^ 32" by auto
  have v: "normalizeTimestampMs v = x * 1000" by (simp add: normalizeTimestampMs_def x_def)
  have "fl (of_nat s) = of_nat s" using fl_of_int [of "int s"] s(2) by simp
  then have "js_round (fl (normalizeTimestampMs v / 1000)) = of_nat s" by (simp add: v s(1))
  then show ?thesis using that [of s] s v by simp
qed

lemma normalizeTimestamp_idem: "normalizeTimestampMs (Some (normalizeTimestampMs v)) = normalizeTimestampMs v"
proof -
  obtain s where s: "normalizeTimestampMs v = of_nat s * 1000" "s < 2 ^ 32" by (rule timestamp_sec)
  have "js_round (of_nat s * 1000) = of_nat s * 1000" "js_round (of_nat s) = of_nat s"
    using js_round_nat [of "s * 1000"] by simp_all
  moreover have "fl (of_nat s) = of_nat s" using fl_of_int [of "int s"] s(2) by simp
  moreover have "max 0 (min UINT32_MAX (of_nat s)) = of_nat s" using s(2) by (simp add: UINT32_MAX_def min_def)
  ultimately show ?thesis by (simp add: s(1)) (simp add: normalizeTimestampMs_def normalizeFiniteNumber_def)
qed

lemma normalizeTimestamp_mono: "a \<le> b \<Longrightarrow> normalizeTimestampMs (Some a) \<le> normalizeTimestampMs (Some b)"
proof -
  assume "a \<le> b"
  then have "js_round a \<le> js_round b" by (simp add: js_round_def floor_mono)
  then have "js_round (fl (js_round a / 1000)) \<le> js_round (fl (js_round b / 1000))"
    using fl_mono [of "js_round a / 1000" "js_round b / 1000"] by (simp add: js_round_def floor_mono divide_right_mono)
  then show ?thesis by (simp add: normalizeTimestampMs_def normalizeFiniteNumber_def Let_def)
qed

lemma normalizeFloat_idem [simp]: "normalizeFloat (normalizeFloat w) = normalizeFloat w"
  by (auto simp: normalizeFloat_def)

lemma stored_stored [simp]: "stored (stored p) = stored p"
  by (simp add: stored_def normalizeTimestamp_idem)

lemma slots_differ:
  assumes "h < c" "i < c" "j < c" "i \<noteq> (j :: nat)"
  shows "(h + i) mod c \<noteq> (h + j) mod c"
proof
  assume "(h + i) mod c = (h + j) mod c"
  moreover have "(h + k) mod c = (if h + k < c then h + k else h + k - c)" if "k < c" for k
    using assms(1) that by (simp add: mod_if)
  ultimately show False using assms by (auto split: if_splits)
qed

lemma get_set:
  assumes t: "tier_ok c t" and i: "i < c" "j < c"
  shows "getPoint (setPoint c i p t) c j = (if j = i then stored p else getPoint t c j)"
proof -
  define a b where "a = pointOffset ((ht_head t + i) mod c)" and "b = pointOffset ((ht_head t + j) mod c)"
  have slot: "(ht_head t + k) mod c < c" for k using i by simp
  have len: "length (ht_buffer t) = c * 12" using t by (simp add: tier_ok_def POINT_BYTES_def)
  have r: "a + 12 \<le> c * 12" using slot [of i] by (simp add: a_def pointOffset_def POINT_BYTES_def)
  obtain s where s: "normalizeTimestampMs (Some (hp_ts p)) = of_nat s * 1000" "s < 2 ^ 32"
    "nat \<lfloor>js_round (fl (normalizeTimestampMs (Some (hp_ts p)) / 1000))\<rfloor> = s" by (rule timestamp_sec)
  define b1 where "b1 = writeUInt32LE s a (ht_buffer t)"
  define b2 where "b2 = writeFloatLE (normalizeFloat (hp_hs p)) (a + 4) b1"
  define b3 where "b3 = writeFloatLE (normalizeFloat (hp_hs2 p)) (a + 8) b2"
  have set: "setPoint c i p t = t\<lparr>ht_buffer := b3\<rparr>"
    by (simp add: setPoint_def Let_def a_def b1_def b2_def b3_def s(3))
  have l: "length b1 = c * 12" "length b2 = c * 12" "length b3 = c * 12"
    using r len by (simp_all add: b1_def b2_def b3_def writeUInt32LE_def writeFloatLE_def)
  have get: "getPoint (t\<lparr>ht_buffer := buf\<rparr>) c j =
      \<lparr>hp_ts = of_nat (readUInt32LE buf b) * 1000, hp_hs = readFloatLE buf (b + 4), hp_hs2 = readFloatLE buf (b + 8)\<rparr>" for buf
    by (simp add: getPoint_def Let_def b_def)
  have beside: "readAt b3 k 4 = readAt (ht_buffer t) k 4" if "k + 4 \<le> a \<or> a + 12 \<le> k" for k
    using that r l len by (auto simp: b1_def b2_def b3_def writeUInt32LE_def writeFloatLE_def read_beside)
  have same: "readUInt32LE b3 a = s" "readFloatLE b3 (a + 4) = normalizeFloat (hp_hs p)" "readFloatLE b3 (a + 8) = normalizeFloat (hp_hs2 p)"
  proof -
    show "readFloatLE b3 (a + 8) = normalizeFloat (hp_hs2 p)" using r l by (simp add: b3_def float_written)
    have "readAt b3 (a + 4) 4 = readAt b2 (a + 4) 4" "readAt b3 a 4 = readAt b1 a 4"
      using r l by (simp_all add: b3_def b2_def writeFloatLE_def read_beside)
    moreover have "readFloatLE b2 (a + 4) = normalizeFloat (hp_hs p)" "readUInt32LE b1 a = s"
      using r l len s(2) by (simp_all add: b2_def b1_def float_written u32_written)
    ultimately show "readUInt32LE b3 a = s" "readFloatLE b3 (a + 4) = normalizeFloat (hp_hs p)"
      by (simp_all add: readUInt32LE_def readFloatLE_def)
  qed
  show ?thesis
  proof (cases "j = i")
    case True
    then have "b = a" by (simp add: a_def b_def)
    with True same s show ?thesis unfolding set get by (simp add: stored_def)
  next
    case False
    then have "(ht_head t + j) mod c \<noteq> (ht_head t + i) mod c" using slots_differ t i by (simp add: tier_ok_def)
    then have "b + 12 \<le> a \<or> a + 12 \<le> b" by (auto simp: a_def b_def pointOffset_def POINT_BYTES_def)
    then have "readAt b3 b 4 = readAt (ht_buffer t) b 4" "readAt b3 (b + 4) 4 = readAt (ht_buffer t) (b + 4) 4"
      "readAt b3 (b + 8) 4 = readAt (ht_buffer t) (b + 8) 4" by (auto intro: beside)
    with False show ?thesis unfolding set get by (simp add: readUInt32LE_def readFloatLE_def getPoint_def Let_def b_def)
  qed
qed

lemma set_ok: "tier_ok c t \<Longrightarrow> tier_ok c (setPoint c i p t)"
proof -
  assume t: "tier_ok c t"
  then have "(ht_head t + i) mod c < c" by (simp add: tier_ok_def)
  then have "pointOffset ((ht_head t + i) mod c) + 12 \<le> c * 12" by (simp add: pointOffset_def POINT_BYTES_def)
  with t show ?thesis
    by (simp add: tier_ok_def setPoint_def Let_def writeFloatLE_def writeUInt32LE_def POINT_BYTES_def)
qed

definition push_point :: "nat \<Rightarrow> history_point \<Rightarrow> history_tier \<Rightarrow> history_tier" where
  "push_point c p t = (let t1 = setPoint c (ht_size t) p t in t1\<lparr>ht_size := ht_size t1 + 1\<rparr>)"

lemma setPoint_size [simp]: "ht_size (setPoint c i p t) = ht_size t"
  by (simp add: setPoint_def Let_def)

lemma getPoint_size [simp]: "getPoint (t\<lparr>ht_size := n\<rparr>) = getPoint t"
  by (simp add: getPoint_def fun_eq_iff)

lemma push_point_abs:
  assumes "tier_ok c t" "ht_size t < c"
  shows "tier_ok c (push_point c p t) \<and> abs_tier c (push_point c p t) = abs_tier c t @ [stored p]"
proof -
  have "tier_ok c (push_point c p t)" using set_ok [OF assms(1)] assms(2) by (simp add: push_point_def Let_def tier_ok_def)
  then show ?thesis using assms by (auto simp: push_point_def Let_def abs_tier_def get_set)
qed

lemma drop_abs:
  assumes "tier_ok c t"
  shows "tier_ok c (dropOldestPoints c n t) \<and> abs_tier c (dropOldestPoints c n t) = drop n (abs_tier c t)"
proof (cases "n = 0 \<or> ht_size t = 0")
  case True
  with assms show ?thesis by (auto simp: dropOldestPoints_def abs_tier_def)
next
  case False
  let ?r = "min n (ht_size t)"
  have d: "dropOldestPoints c n t = t\<lparr>ht_head := (ht_head t + ?r) mod c, ht_size := ht_size t - ?r\<rparr>"
    using False by (simp add: dropOldestPoints_def Let_def)
  have "abs_tier c (dropOldestPoints c n t) = map (\<lambda>j. getPoint t c (?r + j)) [0..<ht_size t - ?r]"
  proof -
    have "ht_size (dropOldestPoints c n t) = ht_size t - ?r" by (simp add: d)
    moreover have "getPoint (dropOldestPoints c n t) c = (\<lambda>j. getPoint t c (?r + j))"
      by (rule ext) (simp add: d getPoint_def mod_add_left_eq add.assoc)
    ultimately show ?thesis by (simp only: abs_tier_def)
  qed
  also have "\<dots> = map (getPoint t c) [?r..<ht_size t]"
    by (rule nth_equalityI) simp_all
  also have "\<dots> = drop n (abs_tier c t)" by (simp add: abs_tier_def drop_map min_def)
  finally show ?thesis using assms by (simp add: d tier_ok_def) arith
qed


subsection \<open>The lists\<close>

text \<open>What appending a sample does to the lists of the rings, finest first.\<close>

fun append_spec :: "nat \<Rightarrow> nat list \<Rightarrow> history_point list list \<Rightarrow> history_point \<Rightarrow> history_point list list" where
  "append_spec ratio (c # cs) (xs # xss) p =
     (if length xs < c then (xs @ [stored p]) # xss
      else if xss = [] then [tl xs @ [stored p]]
      else (drop ratio xs @ [stored p]) # append_spec ratio cs xss (bucketPoint ratio (take ratio xs)))"
| "append_spec ratio _ _ p = []"

definition hist_ok :: "history \<Rightarrow> bool" where
  "hist_ok h \<longleftrightarrow> 0 < hi_ratio h \<and> list_all2 tier_ok (hi_capacities h) (hi_tiers h) \<and>
     (\<forall>i. Suc i < length (hi_capacities h) \<longrightarrow> hi_ratio h \<le> hi_capacities h ! i)"

definition abs_hist :: "history \<Rightarrow> history_point list list" where
  "abs_hist h = map2 abs_tier (hi_capacities h) (hi_tiers h)"

lemma setTier_sel [simp]:
  "hi_base (setTier i t h) = hi_base h" "hi_ratio (setTier i t h) = hi_ratio h" "hi_capacities (setTier i t h) = hi_capacities h"
  "hi_tiers (setTier i t h) = (hi_tiers h)[i := t]"
  by (simp_all add: setTier_def)

lemma hist_lengths: "hist_ok h \<Longrightarrow> length (hi_tiers h) = length (hi_capacities h)"
  by (auto simp: hist_ok_def dest: list_all2_lengthD)

lemma hist_tier: "hist_ok h \<Longrightarrow> i < length (hi_capacities h) \<Longrightarrow> tier_ok (hi_capacities h ! i) (hi_tiers h ! i)"
  by (simp add: hist_ok_def list_all2_nthD)

lemma setTier_ok: "hist_ok h \<Longrightarrow> i < length (hi_capacities h) \<Longrightarrow> tier_ok (hi_capacities h ! i) t \<Longrightarrow> hist_ok (setTier i t h)"
  by (auto simp: hist_ok_def list_all2_conv_all_nth nth_list_update)

lemma abs_nth: "hist_ok h \<Longrightarrow> i < length (hi_capacities h) \<Longrightarrow> abs_hist h ! i = abs_tier (hi_capacities h ! i) (hi_tiers h ! i)"
  by (simp add: abs_hist_def hist_lengths)

lemma abs_length: "hist_ok h \<Longrightarrow> length (abs_hist h) = length (hi_capacities h)"
  by (simp add: abs_hist_def hist_lengths)

lemma abs_setTier:
  "hist_ok h \<Longrightarrow> i < length (hi_capacities h) \<Longrightarrow> abs_hist (setTier i t h) = (abs_hist h)[i := abs_tier (hi_capacities h ! i) t]"
  by (auto simp: abs_hist_def hist_lengths nth_list_update intro!: nth_equalityI)

lemma bucket_taken:
  assumes "tier_ok c t" "n \<le> ht_size t"
  shows "compactOldestBucket c n t = (bucketPoint n (take n (abs_tier c t)), dropOldestPoints c n t)"
  using assms by (simp add: compactOldestBucket_def abs_tier_def take_map)

lemma append_refines:
  "hist_ok h \<Longrightarrow> i < length (hi_capacities h) \<Longrightarrow> h' = appendToTier i p h \<Longrightarrow>
   hist_ok h' \<and> hi_base h' = hi_base h \<and> hi_ratio h' = hi_ratio h \<and> hi_capacities h' = hi_capacities h \<and>
   take i (hi_tiers h') = take i (hi_tiers h) \<and>
   drop i (abs_hist h') = append_spec (hi_ratio h) (drop i (hi_capacities h)) (drop i (abs_hist h)) p"
proof (induction "length (hi_tiers h) - i" arbitrary: i p h h' rule: less_induct)
  case less
  define c t where "c = hi_capacities h ! i" and "t = hi_tiers h ! i"
  note ok = less.prems(1) and i = less.prems(2)
  have l: "length (hi_tiers h) = length (hi_capacities h)" using ok by (rule hist_lengths)
  have t: "tier_ok c t" using hist_tier [OF ok i] by (simp add: c_def t_def)
  define lastTier where "lastTier \<longleftrightarrow> i = length (hi_tiers h) - 1"
  define h1 where "h1 = (if ht_size t \<noteq> c then h else if lastTier then setTier i (dropOldestPoints c 1 t) h
      else let (q, t') = compactOldestBucket c (hi_ratio h) t in appendToTier (i + 1) q (setTier i t' h))"
  have h': "h' = setTier i (push_point c p (hi_tiers h1 ! i)) h1"
    using i unfolding less.prems(3) by (subst appendToTier.simps) (simp add: l push_point_def Let_def h1_def c_def t_def lastTier_def)
  have dc: "drop i (hi_capacities h) = c # drop (Suc i) (hi_capacities h)" using i by (simp add: c_def Cons_nth_drop_Suc)
  have da: "drop i (abs_hist h) = abs_tier c t # drop (Suc i) (abs_hist h)"
    using i ok by (simp add: c_def t_def Cons_nth_drop_Suc abs_length flip: abs_nth)
  have step: "hist_ok h1 \<and> hi_base h1 = hi_base h \<and> hi_ratio h1 = hi_ratio h \<and> hi_capacities h1 = hi_capacities h \<and>
      take i (hi_tiers h1) = take i (hi_tiers h) \<and> ht_size (hi_tiers h1 ! i) < c \<and>
      (abs_tier c (hi_tiers h1 ! i) @ [stored p]) # drop (Suc i) (abs_hist h1) =
        append_spec (hi_ratio h) (drop i (hi_capacities h)) (drop i (abs_hist h)) p"
  proof (cases "ht_size t = c")
    case False
    then show ?thesis using t ok by (simp add: h1_def dc da tier_ok_def flip: t_def)
  next
    case full: True
    show ?thesis
    proof (cases lastTier)
      case True
      have h1: "h1 = setTier i (dropOldestPoints c 1 t) h" using full True by (simp add: h1_def)
      note d = drop_abs [OF t, of 1]
      have "drop (Suc i) (abs_hist h) = []" using True i ok by (simp add: lastTier_def l abs_length)
      moreover have "ht_size (dropOldestPoints c 1 t) < c"
        using d t full by (metis diff_less length_abs_tier length_drop tier_ok_def zero_less_one)
      ultimately show ?thesis
        using d full i ok t by (simp add: h1 dc da l abs_setTier setTier_ok drop_Suc flip: c_def)
    next
      case False
      define t' where "t' = dropOldestPoints c (hi_ratio h) t"
      define q where "q = bucketPoint (hi_ratio h) (take (hi_ratio h) (abs_tier c t))"
      have j: "Suc i < length (hi_capacities h)" using False i by (simp add: lastTier_def l)
      then have r: "hi_ratio h \<le> c" "0 < hi_ratio h" using ok by (simp_all add: hist_ok_def c_def)
      have h1: "h1 = appendToTier (Suc i) q (setTier i t' h)"
        using full False r bucket_taken [OF t, of "hi_ratio h"] by (simp add: h1_def q_def t'_def)
      note d = drop_abs [OF t, of "hi_ratio h", folded t'_def]
      have smaller: "ht_size t' < c" using d full r by (metis diff_less length_abs_tier length_drop less_le_trans)
      have ok0: "hist_ok (setTier i t' h)" using setTier_ok [OF ok i, of t'] d by (simp add: c_def)
      have IH: "hist_ok h1 \<and> hi_base h1 = hi_base h \<and> hi_ratio h1 = hi_ratio h \<and> hi_capacities h1 = hi_capacities h \<and>
          take (Suc i) (hi_tiers h1) = take (Suc i) ((hi_tiers h)[i := t']) \<and>
          drop (Suc i) (abs_hist h1) = append_spec (hi_ratio h) (drop (Suc i) (hi_capacities h)) (drop (Suc i) (abs_hist h)) q"
        using less.hyps [of "setTier i t' h" "Suc i" h1 q] ok0 j h1 ok i by (simp add: l abs_setTier)
      have "hi_tiers h1 ! i = take (Suc i) (hi_tiers h1) ! i" by simp
      also have "\<dots> = t'" using IH i l by simp
      finally have ti: "hi_tiers h1 ! i = t'" .
      have "take i (take (Suc i) (hi_tiers h1)) = take i (take (Suc i) ((hi_tiers h)[i := t']))" using IH by simp
      then have "take i (hi_tiers h1) = take i (hi_tiers h)" by (simp add: min_def)
      moreover have "drop (Suc i) (abs_hist h) \<noteq> []" using j ok by (simp add: abs_length)
      ultimately show ?thesis using IH smaller d full by (simp add: dc da ti q_def)
    qed
  qed
  have i1: "i < length (hi_capacities h1)" "hi_capacities h1 ! i = c" using step i by (simp_all add: c_def)
  have ok1: "hist_ok h1" using step by blast
  have t1: "tier_ok c (hi_tiers h1 ! i)" using hist_tier [OF ok1 i1(1)] i1(2) by simp
  have size1: "ht_size (hi_tiers h1 ! i) < c" using step by blast
  note pushed = push_point_abs [OF t1 size1, of p]
  have abs: "abs_hist h' = (abs_hist h1)[i := abs_tier c (hi_tiers h1 ! i) @ [stored p]]"
    using pushed by (simp add: h' abs_setTier [OF ok1 i1(1)] i1(2))
  then have "drop i (abs_hist h') = (abs_tier c (hi_tiers h1 ! i) @ [stored p]) # drop (Suc i) (abs_hist h1)"
    using i1 ok1 by (simp add: abs_length flip: Cons_nth_drop_Suc)
  moreover have "hist_ok h'" unfolding h' by (rule setTier_ok [OF ok1 i1(1)]) (simp add: i1 pushed)
  ultimately show ?case using step by (simp add: h')
qed

end
