(* ===== verification/History_Properties.thy ===== *)
theory History_Properties
  imports Worker_History_Safety
begin

text \<open>The properties of the hash rate histories.\<close>

subsection \<open>The order of time\<close>

definition chron :: "history_point list list \<Rightarrow> history_point list" where
  "chron xss = concat (rev xss)"

definition on_clock :: "history_point \<Rightarrow> bool" where
  "on_clock p \<longleftrightarrow> normalizeTimestampMs (Some (hp_ts p)) = hp_ts p"

definition in_order :: "history_point list \<Rightarrow> bool" where
  "in_order xs \<longleftrightarrow> sorted (map hp_ts xs) \<and> (\<forall>x \<in> set xs. on_clock x)"

lemma chron_Cons: "chron (xs # xss) = chron xss @ xs"
  by (simp add: chron_def)

lemma in_order_append:
  "in_order (xs @ ys) \<longleftrightarrow> in_order xs \<and> in_order ys \<and> (\<forall>x \<in> set xs. \<forall>y \<in> set ys. hp_ts x \<le> hp_ts y)"
  by (auto simp: in_order_def sorted_append)

lemma in_order_one: "in_order [x] \<longleftrightarrow> on_clock x"
  by (simp add: in_order_def)

lemma stored_ts: "on_clock p \<Longrightarrow> hp_ts (stored p) = hp_ts p"
  by (simp add: stored_def on_clock_def)

lemma stored_clock: "on_clock (stored p)"
  by (simp add: stored_def on_clock_def normalizeTimestamp_idem)

lemma bucket_ts: "xs \<noteq> [] \<Longrightarrow> hp_ts (bucketPoint n xs) = hp_ts (last xs)"
  by (simp add: bucketPoint_def)

lemma append_in_order:
  "in_order (chron xss) \<Longrightarrow> on_clock p \<Longrightarrow> (\<forall>x \<in> set (chron xss). hp_ts x \<le> hp_ts p) \<Longrightarrow> 0 < ratio \<Longrightarrow> \<forall>c \<in> set cs. 0 < c \<Longrightarrow>
   in_order (chron (append_spec ratio cs xss p)) \<and> (\<forall>x \<in> set (chron (append_spec ratio cs xss p)). hp_ts x \<le> hp_ts p)"
proof (induction ratio cs xss p rule: append_spec.induct)
  case (1 ratio c cs xs xss p)
  have new: "hp_ts (stored p) = hp_ts p" "in_order [stored p]" using "1.prems"(2) by (simp_all add: stored_ts stored_clock in_order_one)
  have old: "in_order (chron xss)" "in_order xs" "\<forall>x \<in> set (chron xss). \<forall>y \<in> set xs. hp_ts x \<le> hp_ts y"
    using "1.prems"(1) by (simp_all add: chron_Cons in_order_append)
  have le: "\<forall>x \<in> set (chron xss). hp_ts x \<le> hp_ts p" "\<forall>x \<in> set xs. hp_ts x \<le> hp_ts p"
    using "1.prems"(3) by (auto simp: chron_Cons)
  consider "length xs < c" | "\<not> length xs < c" "xss = []" | "\<not> length xs < c" "xss \<noteq> []" by blast
  then show ?case
  proof cases
    case 1
    then show ?thesis using new old le by (simp add: chron_Cons in_order_append) blast
  next
    case 2
    have "in_order (tl xs)" "set (tl xs) \<subseteq> set xs" using old(2) by (cases xs; auto simp: in_order_def)+
    then show ?thesis using 2 new le by (auto simp: chron_def in_order_append)
  next
    case 3
    let ?q = "bucketPoint ratio (take ratio xs)" and ?yss = "append_spec ratio cs xss (bucketPoint ratio (take ratio xs))"
    have ne: "take ratio xs \<noteq> []" using 3 "1.prems"(4,5) by auto
    then have l: "last (take ratio xs) \<in> set (take ratio xs)" by simp
    have q: "hp_ts ?q = hp_ts (last (take ratio xs))" using ne by (rule bucket_ts)
    have split: "in_order (take ratio xs @ drop ratio xs)" using old(2) by simp
    have "on_clock (last (take ratio xs))" using in_set_takeD [OF l] old(2) by (simp add: in_order_def)
    then have "on_clock ?q" using q by (simp add: on_clock_def)
    moreover have "\<forall>x \<in> set (chron xss). hp_ts x \<le> hp_ts ?q" using old(3) l q in_set_takeD by metis
    ultimately have IH: "in_order (chron ?yss)" "\<forall>x \<in> set (chron ?yss). hp_ts x \<le> hp_ts ?q"
      using "1.IH" [OF 3 old(1)] "1.prems"(4,5) by simp_all
    have later: "\<forall>y \<in> set (drop ratio xs). hp_ts ?q \<le> hp_ts y" "in_order (drop ratio xs)"
      using split l q unfolding in_order_append by auto
    have "hp_ts ?q \<le> hp_ts p" using le(2) l q in_set_takeD by metis
    moreover have "\<forall>y \<in> set (drop ratio xs). hp_ts y \<le> hp_ts p" using le(2) in_set_dropD by fast
    ultimately show ?thesis
      using 3 new IH later by (simp add: chron_Cons in_order_append) (meson UnE order_trans)
  qed
qed (simp_all add: chron_def in_order_def)

lemma append_lengths: "length xss = length cs \<Longrightarrow> length (append_spec ratio cs xss p) = length cs"
  by (induction ratio cs xss p rule: append_spec.induct) auto

lemma append_sizes: "list_all2 (\<lambda>c xs. length xs \<le> c) cs xss \<Longrightarrow> \<forall>c \<in> set cs. 0 < c \<Longrightarrow>
    0 < ratio \<Longrightarrow> list_all2 (\<lambda>c xs. length xs \<le> c) cs (append_spec ratio cs xss p)"
  by (induction ratio cs xss p rule: append_spec.induct) (auto simp: list_all2_Cons1)

lemma sizes_sum: "list_all2 (\<lambda>c xs. length xs \<le> c) cs xss \<Longrightarrow> length (chron xss) \<le> sum_list cs"
  by (induction cs xss rule: list_all2_induct) (auto simp: chron_def)

lemma append_newest: "cs \<noteq> [] \<Longrightarrow> length xss = length cs \<Longrightarrow> chron (append_spec ratio cs xss p) \<noteq> [] \<and> last (chron (append_spec ratio cs xss p)) = stored p"
  by (cases cs; cases xss) (auto simp: chron_def)

subsection \<open>The cache entry\<close>

text \<open>The head of an empty ring is not kept.\<close>

definition canonical :: "history_tier \<Rightarrow> history_tier" where
  "canonical t = t\<lparr>ht_head := if ht_size t = 0 then 0 else ht_head t\<rparr>"

lemma normalize_nat [simp]:
  "0 < n \<Longrightarrow> normalizePositiveInteger (JNum (of_nat n)) d = n" "normalizeNonNegativeInteger (JNum (of_nat n)) d = n"
  by (simp_all add: normalizePositiveInteger_def normalizeNonNegativeInteger_def)

lemma tier_read_back: "tier_ok c t \<Longrightarrow> normalizeBinaryTier (serializeTier t) c = Some (canonical t)"
  by (auto simp: normalizeBinaryTier_def serializeTier_def normalizeTierMetadata_def base64_round_trip canonical_def tier_ok_def min_def Let_def)

lemma tiers_read_back: "list_all2 tier_ok cs ts \<Longrightarrow> normalizeTiers cs (map serializeTier ts) = Some (map canonical ts)"
  by (induction cs ts rule: list_all2_induct) (simp_all add: tier_read_back)

definition layout_ok :: "history_layout \<Rightarrow> bool" where
  "layout_ok l \<longleftrightarrow> 0 < hl_base l \<and> 0 < hl_ratio l \<and> hl_capacities l \<noteq> [] \<and> (\<forall>c \<in> set (hl_capacities l). 0 < c) \<and>
     (\<forall>i. Suc i < length (hl_capacities l) \<longrightarrow> hl_ratio l \<le> hl_capacities l ! i)"

text \<open>
  C31. What is written to the cache is read back: the history in a cache entry is the one that was
  serialized, ring by ring and byte by byte, but for the head of a ring that is empty.
\<close>

theorem history_read_back:
  assumes "hist_ok h" "hi_capacities h \<noteq> []" "0 < hi_base h"
  shows "normalizeTieredHistoryPayload (serializeHistory h) = Some (h\<lparr>hi_tiers := map canonical (hi_tiers h)\<rparr>)"
proof -
  have "\<forall>c \<in> set (hi_capacities h). 0 < c"
    using assms(1) by (auto simp: hist_ok_def list_all2_conv_all_nth in_set_conv_nth tier_ok_def)
  then have "filter (\<lambda>c. 0 < c) (map (\<lambda>c. normalizePositiveInteger c 0) (map (\<lambda>c. JNum (of_nat c)) (hi_capacities h))) = hi_capacities h"
    by (simp add: map_idI filter_id_conv cong: map_cong)
  moreover have "list_all2 tier_ok (hi_capacities h) (hi_tiers h)" "0 < hi_ratio h" using assms(1) by (simp_all add: hist_ok_def)
  ultimately show ?thesis
    using assms(2,3) hist_lengths [OF assms(1)]
    by (simp add: normalizeTieredHistoryPayload_def serializeHistory_def tiers_read_back Let_def del: map_map)
qed

lemma canonical_abs: "abs_tier c (canonical t) = abs_tier c t"
  by (simp add: abs_tier_def canonical_def)

lemma canonical_ok: "tier_ok c t \<Longrightarrow> tier_ok c (canonical t)"
  by (simp add: tier_ok_def canonical_def)

lemma canonical_hist:
  assumes "hist_ok h"
  shows "hist_ok (h\<lparr>hi_tiers := map canonical (hi_tiers h)\<rparr>) \<and> abs_hist (h\<lparr>hi_tiers := map canonical (hi_tiers h)\<rparr>) = abs_hist h"
proof -
  have "list_all2 tier_ok cs (map canonical ts)" if "list_all2 tier_ok cs ts" for cs ts
    using that by (simp add: list_all2_map2 list_all2_mono canonical_ok)
  moreover have "map2 abs_tier cs (map canonical ts) = map2 abs_tier cs ts" for cs ts
    by (simp add: zip_map2 canonical_abs case_prod_beta)
  ultimately show ?thesis using assms by (simp add: hist_ok_def abs_hist_def)
qed

subsection \<open>Samples\<close>

text \<open>What a series of samples does to a cache entry, and to the lists of points.\<close>

definition feed :: "history_layout \<Rightarrow> jsval list \<Rightarrow> jsval \<Rightarrow> jsval" where
  "feed layout samples payload = fold (\<lambda>s entry. appendHistorySample entry layout s) samples payload"

definition spec_points :: "history_layout \<Rightarrow> history_point list \<Rightarrow> history_point list list" where
  "spec_points layout ps =
     fold (\<lambda>p xss. append_spec (hl_ratio layout) (hl_capacities layout) xss p) ps (map (\<lambda>_. []) (hl_capacities layout))"

definition entry_of :: "history_layout \<Rightarrow> history_point list list \<Rightarrow> jsval \<Rightarrow> bool" where
  "entry_of layout xss v \<longleftrightarrow> (\<exists>h. hist_ok h \<and> layoutsMatch h layout \<and> getWorkerHistoryState v layout = h \<and> abs_hist h = xss \<and>
     (normalizeTieredHistoryPayload v = None \<and> concat xss = [] \<or> truthy v \<and> normalizeTieredHistoryPayload v = Some h))"

lemma empty_ok:
  assumes "layout_ok l"
  shows "hist_ok (createEmptyHistory l) \<and> layoutsMatch (createEmptyHistory l) l \<and> abs_hist (createEmptyHistory l) = map (\<lambda>_. []) (hl_capacities l)"
proof -
  have "tier_ok c (createEmptyTier c)" if "0 < c" for c using that by (simp add: tier_ok_def createEmptyTier_def)
  then have "list_all2 tier_ok (hl_capacities l) (map createEmptyTier (hl_capacities l))"
    using assms by (auto simp: list_all2_conv_all_nth layout_ok_def)
  moreover have "abs_tier c (createEmptyTier c) = []" for c by (simp add: abs_tier_def createEmptyTier_def)
  then have "map2 abs_tier cs (map createEmptyTier cs) = map (\<lambda>_. []) cs" for cs by (induction cs) simp_all
  ultimately show ?thesis using assms by (simp add: hist_ok_def createEmptyHistory_def layout_ok_def layoutsMatch_def abs_hist_def)
qed

lemma entry_none: "layout_ok l \<Longrightarrow> normalizeTieredHistoryPayload v = None \<Longrightarrow> entry_of l (map (\<lambda>_. []) (hl_capacities l)) v"
  using empty_ok [of l] by (auto simp: entry_of_def getWorkerHistoryState_def)

lemma entry_serialized:
  assumes "layout_ok l" "hist_ok h" "layoutsMatch h l"
  shows "entry_of l (abs_hist h) (serializeHistory h)"
proof -
  have "hi_capacities h \<noteq> []" "0 < hi_base h" using assms by (auto simp: layoutsMatch_def layout_ok_def)
  note r = history_read_back [OF assms(2) this]
  have "layoutsMatch (h\<lparr>hi_tiers := map canonical (hi_tiers h)\<rparr>) l" using assms(3) by (simp add: layoutsMatch_def)
  moreover have "truthy (serializeHistory h)" by (simp add: serializeHistory_def)
  ultimately show ?thesis using r canonical_hist [OF assms(2)] by (simp add: entry_of_def getWorkerHistoryState_def)
qed

lemma entry_append:
  assumes "layout_ok l" "entry_of l xss v"
  shows "entry_of l (case normalizePoint s of None \<Rightarrow> xss | Some p \<Rightarrow> append_spec (hl_ratio l) (hl_capacities l) xss p) (appendHistorySample v l s)"
proof -
  obtain h where h: "hist_ok h" "layoutsMatch h l" "getWorkerHistoryState v l = h" "abs_hist h = xss" using assms(2) by (auto simp: entry_of_def)
  show ?thesis
  proof (cases "normalizePoint s")
    case None
    then show ?thesis using entry_serialized [OF assms(1) h(1,2)] h by (simp add: appendHistorySample_def)
  next
    case (Some p)
    have ne: "0 < length (hi_capacities h)" using h(2) assms(1) by (simp add: layoutsMatch_def layout_ok_def)
    note a = append_refines [OF h(1) ne refl, of p]
    then have "layoutsMatch (appendToTier 0 p h) l" using h(2) by (simp add: layoutsMatch_def)
    then show ?thesis
      using entry_serialized [OF assms(1), of "appendToTier 0 p h"] a h Some by (simp add: appendHistorySample_def layoutsMatch_def)
  qed
qed

lemma entry_feed:
  "layout_ok l \<Longrightarrow> entry_of l xss v \<Longrightarrow>
   entry_of l (fold (\<lambda>p xss. append_spec (hl_ratio l) (hl_capacities l) xss p) (List.map_filter normalizePoint samples) xss) (feed l samples v)"
proof (induction samples arbitrary: xss v)
  case (Cons s samples)
  from Cons.IH [OF Cons.prems(1) entry_append [OF Cons.prems, of s]] show ?case
    by (cases "normalizePoint s") (simp_all add: feed_def List.map_filter_simps)
qed (simp add: feed_def List.map_filter_simps)

lemma history_points:
  assumes "hist_ok h"
  shows "historyPoints h None = rev (chron (abs_hist h))"
proof -
  have "tierPoints t c = rev (abs_tier c t)" for t c by (simp add: tierPoints_def abs_tier_def rev_map)
  moreover have "concat (map (\<lambda>(t, c). rev (abs_tier c t)) (zip ts cs)) = rev (concat (rev (map2 abs_tier cs ts)))" for ts cs
    by (induction ts cs rule: list_induct2') simp_all
  ultimately show ?thesis by (simp add: historyPoints_def chron_def abs_hist_def)
qed

lemma entry_points: "entry_of l xss v \<Longrightarrow> toHashHistory v None = rev (chron xss)"
  by (auto simp: entry_of_def toHashHistory_def history_points) (auto simp: chron_def)

text \<open>
  C30. The rings implement lists: after any series of samples, starting without a history, what the
  API shows is the list of points of the specification, newest first. The specification keeps a
  list for each ring; a full list gives its oldest points, averaged, to the next one, and the
  last list forgets its oldest point. Samples without a finite hash rate leave no trace.
\<close>

theorem history_refines_lists:
  assumes "layout_ok layout" "normalizeTieredHistoryPayload payload = None"
  shows "toHashHistory (feed layout samples payload) None =
    rev (chron (spec_points layout (List.map_filter normalizePoint samples)))"
  unfolding spec_points_def by (rule entry_points [OF entry_feed [OF assms(1) entry_none [OF assms]]])


subsection \<open>What is shown\<close>

lemma normalize_clock: "normalizePoint s = Some p \<Longrightarrow> on_clock p"
  by (auto simp: normalizePoint_def on_clock_def normalizeTimestamp_idem split: if_splits option.splits)

lemma spec_in_order:
  assumes "layout_ok l" "sorted (map hp_ts ps)" "\<forall>p \<in> set ps. on_clock p"
  shows "in_order (chron (spec_points l ps)) \<and> length (spec_points l ps) = length (hl_capacities l) \<and>
    (\<forall>x \<in> set (chron (spec_points l ps)). ps \<noteq> [] \<and> hp_ts x \<le> hp_ts (last ps))"
  using assms(2,3)
proof (induction ps rule: rev_induct)
  case Nil
  have "chron (map (\<lambda>_. []) cs) = []" for cs :: "nat list" by (simp add: chron_def)
  then show ?case by (simp add: spec_points_def in_order_def)
next
  case (snoc p ps)
  have le: "\<forall>x \<in> set (chron (spec_points l ps)). hp_ts x \<le> hp_ts p"
    using snoc by (auto simp: sorted_append) (metis in_set_conv_decomp last_in_set order_trans)
  have s: "spec_points l (ps @ [p]) = append_spec (hl_ratio l) (hl_capacities l) (spec_points l ps) p" by (simp add: spec_points_def)
  show ?case
    using append_in_order [of "spec_points l ps" p "hl_ratio l" "hl_capacities l"] snoc le assms(1)
    by (simp add: s append_lengths layout_ok_def sorted_append)
qed

lemma spec_sizes: "layout_ok l \<Longrightarrow> list_all2 (\<lambda>c xs. length xs \<le> c) (hl_capacities l) (spec_points l ps)"
proof (induction ps rule: rev_induct)
  case Nil
  then show ?case by (simp add: spec_points_def list_all2_conv_all_nth)
next
  case (snoc p ps)
  then show ?case using append_sizes [of "hl_capacities l" "spec_points l ps" "hl_ratio l" p] by (simp add: spec_points_def layout_ok_def)
qed

text \<open>
  When the samples come in the order of time, what the API shows is in the order of time too,
  newest first: averaging never moves a point past another one. They are never more points than
  the rings hold, and the first one is the last sample that was valid.
\<close>

theorem history_newest_first:
  assumes "layout_ok layout" "normalizeTieredHistoryPayload payload = None"
    and "sorted (map hp_ts (List.map_filter normalizePoint samples))"
  shows "sorted (rev (map hp_ts (toHashHistory (feed layout samples payload) None))) \<and>
    length (toHashHistory (feed layout samples payload) None) \<le> sum_list (hl_capacities layout) \<and>
    (normalizePoint s = Some p \<longrightarrow> hd (toHashHistory (feed layout (samples @ [s]) payload) None) = stored p)"
proof -
  let ?ps = "List.map_filter normalizePoint samples"
  have points: "toHashHistory (feed layout xs payload) None = rev (chron (spec_points layout (List.map_filter normalizePoint xs)))" for xs
    unfolding spec_points_def by (rule entry_points [OF entry_feed [OF assms(1) entry_none [OF assms(1,2)]]])
  have "\<forall>p \<in> set ?ps. on_clock p" using normalize_clock by (auto simp: List.map_filter_def)
  note o = spec_in_order [OF assms(1,3) this]
  have "spec_points layout (?ps @ [p]) = append_spec (hl_ratio layout) (hl_capacities layout) (spec_points layout ?ps) p"
    by (simp add: spec_points_def)
  then have "last (chron (spec_points layout (?ps @ [p]))) = stored p" "chron (spec_points layout (?ps @ [p])) \<noteq> []"
    using append_newest [of "hl_capacities layout" "spec_points layout ?ps"] assms(1) o by (simp_all add: layout_ok_def)
  then have "normalizePoint s = Some p \<Longrightarrow> hd (toHashHistory (feed layout (samples @ [s]) payload) None) = stored p"
    by (simp add: points List.map_filter_def hd_rev)
  moreover have "sorted (map hp_ts (chron (spec_points layout ?ps)))" using o by (simp add: in_order_def)
  ultimately show ?thesis using sizes_sum [OF spec_sizes [OF assms(1)], of ?ps] by (simp add: points rev_map)
qed

subsection \<open>The layout\<close>

lemma distribute_sum: "0 < k \<Longrightarrow> sum_list (distributeCapacity n k) = n"
proof -
  assume k: "0 < k"
  have "sum_list (map (\<lambda>i. if i < r then 1 else 0) [0..<k]) = r" if "r \<le> k" for r
  proof -
    have "sum_list (map (\<lambda>i. if i < r then 1 else 0) [0..<k]) = length (filter (\<lambda>i. i < r) [0..<k])"
      by (induction k) auto
    also have "filter (\<lambda>i. i < r) [0..<k] = [0..<r]" using that by (induction k) (auto simp: le_Suc_eq)
    finally show ?thesis by simp
  qed
  then have "sum_list (map (\<lambda>i. if i < n mod k then 1 else 0) [0..<k]) = n mod k" using k by simp
  then show ?thesis by (simp add: distributeCapacity_def sum_list_addf sum_list_triv)
qed

lemma distribute_ge: "c \<in> set (distributeCapacity n k) \<Longrightarrow> n div k \<le> c"
  by (auto simp: distributeCapacity_def)

lemma distribute_length [simp]: "length (distributeCapacity n k) = k"
  by (simp add: distributeCapacity_def)

lemma pick_capacities:
  "j \<le> k \<Longrightarrow> (\<forall>i \<in> {1..<j}. calculateCoverage (distributeCapacity n i) b r < target) \<Longrightarrow> 0 < j \<Longrightarrow>
   \<exists>i. 1 \<le> i \<and> i \<le> k \<and> pickCapacities n b r target caps [j..<Suc k] = distributeCapacity n i \<and>
     (target \<le> calculateCoverage (distributeCapacity n i) b r \<or> i = k) \<and>
     (\<forall>i' \<in> {1..<i}. calculateCoverage (distributeCapacity n i') b r < target)"
proof (induction "k - j" arbitrary: j caps)
  case 0
  then have "j = k" by simp
  with 0 show ?case by (auto simp: Let_def intro!: exI [of _ k])
next
  case (Suc d)
  show ?case
  proof (cases "target \<le> calculateCoverage (distributeCapacity n j) b r")
    case True
    with Suc.prems show ?thesis by (auto simp: Let_def upt_conv_Cons simp del: upt_Suc intro!: exI [of _ j])
  next
    case False
    have "j < k" using Suc.hyps(2) by simp
    then have "pickCapacities n b r target caps [j..<Suc k] = pickCapacities n b r target (distributeCapacity n j) [Suc j..<Suc k]"
      using False by (simp add: upt_conv_Cons [of j] Let_def del: upt_Suc)
    moreover have "\<forall>i \<in> {1..<Suc j}. calculateCoverage (distributeCapacity n i) b r < target"
      using False Suc.prems(2) by (auto simp: less_Suc_eq not_le)
    ultimately show ?thesis using Suc.hyps(1) [of "Suc j"] Suc.hyps(2) \<open>j < k\<close> by simp
  qed
qed

text \<open>
  The layout spends exactly the configured number of points, on the fewest rings that cover the
  configured span; a ring that feeds a coarser one is never smaller than the bucket that is
  averaged out of it. More rings than points allow are never tried, so a span can stay uncovered
  only when the rings are as many as the points allow.
\<close>

theorem layout_sound:
  "let l = buildTierLayout len hours opts; cs = hl_capacities l; cover = \<lambda>cs. calculateCoverage cs (hl_base l) (hl_ratio l)
   in layout_ok l \<and> sum_list cs = hl_maxPoints l \<and>
      (cover cs < hl_targetSpanSec l \<longrightarrow> length cs = max 1 (hl_maxPoints l div hl_ratio l)) \<and>
      (\<forall>k \<in> {1..<length cs}. cover (distributeCapacity (hl_maxPoints l) k) < hl_targetSpanSec l)"
proof -
  define l where "l = buildTierLayout len hours opts"
  define n r b where "n = hl_maxPoints l" and "r = hl_ratio l" and "b = hl_base l"
  have pos: "0 < normalizePositiveInteger v d" if "0 < d" for v d
    using that by (auto simp: normalizePositiveInteger_def split: option.split)
  then have p: "0 < n" "0 < r" "0 < b"
    by (simp_all add: n_def r_def b_def l_def buildTierLayout_def Let_def DEFAULT_BASE_INTERVAL_SEC_def DEFAULT_TIER_RATIO_def)
  let ?k = "max 1 (n div r)"
  have caps: "hl_capacities l = pickCapacities n b r (hl_targetSpanSec l) [n] [1..<Suc ?k]"
    by (simp add: n_def r_def b_def l_def buildTierLayout_def Let_def)
  obtain i where i: "1 \<le> i" "i \<le> ?k" "hl_capacities l = distributeCapacity n i"
    "hl_targetSpanSec l \<le> calculateCoverage (distributeCapacity n i) b r \<or> i = ?k"
    "\<forall>i' \<in> {1..<i}. calculateCoverage (distributeCapacity n i') b r < hl_targetSpanSec l"
    using pick_capacities [of 1 ?k n b r "hl_targetSpanSec l" "[n]"] unfolding caps by auto
  have each: "n div i \<le> c" if "c \<in> set (hl_capacities l)" for c using distribute_ge that i(3) by simp
  have "r \<le> n div i" if "1 < i"
  proof -
    have "i \<le> n div r" using that i(2) by simp
    then have "i * r \<le> n" using p(2) by (simp add: less_eq_div_iff_mult_less_eq)
    then show ?thesis using that by (simp add: less_eq_div_iff_mult_less_eq mult.commute)
  qed
  then have fit: "r \<le> hl_capacities l ! j" if "Suc j < length (hl_capacities l)" for j
    using that each [of "hl_capacities l ! j"] i(3) by fastforce
  have "0 < n div i"
  proof (cases "i = 1")
    case False
    then have "r \<le> n div i" using \<open>1 < i \<Longrightarrow> r \<le> n div i\<close> i(1) by simp
    with p(2) show ?thesis by simp
  qed (use p in simp)
  then have "\<forall>c \<in> set (hl_capacities l). 0 < c" using each by fastforce
  moreover have "hl_capacities l \<noteq> []" using i(1,3) by (metis distribute_length list.size(3) not_one_le_zero)
  ultimately have "layout_ok l" using fit p by (simp add: layout_ok_def r_def b_def)
  then show ?thesis
    using i distribute_sum [of i n] unfolding Let_def l_def [symmetric]
    by (auto simp: n_def [symmetric] r_def [symmetric] b_def [symmetric])
qed


lemma ex_built: "hl_capacities (buildTierLayout (JNum 6) (JNum 1) JUndef) = [3, 3]"
proof -
  have f: "fl 720 = 720" "fl 360 = 360" "fl 60 = 60" "fl 3600 = 3600" "fl 3 = 3" "fl 1 = 1" "fl 1080 = 1080" "fl 1440 = 1440"
    using fl_of_int [of 720] fl_of_int [of 360] fl_of_int [of 60] fl_of_int [of 3600] fl_of_int [of 3] fl_of_int [of 1]
      fl_of_int [of 1080] fl_of_int [of 1440] by simp_all
  have d: "distributeCapacity 6 (Suc 0) = [6]" "distributeCapacity 6 (Suc (Suc 0)) = [3, 3]" 
    by (simp_all add: distributeCapacity_def upt_rec numeral_2_eq_2 [symmetric])
  have c: "calculateCoverage [6] 120 3 = 720" "calculateCoverage [3, 3] 120 3 = 1440"
    by (simp_all add: calculateCoverage_def f upt_rec)
  show ?thesis
    by (simp add: buildTierLayout_def Let_def normalizePositiveInteger_def normalizeFiniteNumber_def js_floor_def f d c
        DEFAULT_BASE_INTERVAL_SEC_def DEFAULT_TIER_RATIO_def upt_rec max_def)
qed

theorem layout_sound_witness:
  "let l = buildTierLayout (JNum 6) (JNum 1) JUndef
   in layout_ok l \<and> sum_list (hl_capacities l) = 6 \<and> calculateCoverage (distributeCapacity 6 1) (hl_base l) (hl_ratio l) < hl_targetSpanSec l"
proof -
  have "hl_maxPoints (buildTierLayout (JNum 6) (JNum 1) JUndef) = 6"
    by (simp add: buildTierLayout_def Let_def normalizePositiveInteger_def)
  then show ?thesis using layout_sound [of "JNum 6" "JNum 1" JUndef] ex_built unfolding Let_def by simp
qed

subsection \<open>A small installation\<close>

definition ex_layout :: history_layout where
  "ex_layout = \<lparr>hl_maxPoints = 4, hl_targetSpanSec = 240, hl_base = 60, hl_ratio = 2, hl_capacities = [2, 2], hl_intervalsSec = [60, 120]\<rparr>"

definition ex_sample :: "num \<Rightarrow> jsval" where
  "ex_sample ts = JObj [(''ts'', JNum ts), (''hs'', JNum 16), (''hs2'', JNum 0)]"

lemma ex_layout_ok: "layout_ok ex_layout"
  by (simp add: layout_ok_def ex_layout_def less_Suc_eq)

definition ex_point :: "num \<Rightarrow> history_point" where
  "ex_point ts = \<lparr>hp_ts = normalizeTimestampMs (Some ts), hp_hs = f32_bits 16, hp_hs2 = f32_bits 0\<rparr>"

lemma ex_point_of: "normalizePoint (ex_sample ts) = Some (ex_point ts)" "normalizePoint JNull = None"
  by (simp_all add: normalizePoint_def ex_sample_def ex_point_def normalizeHashrate_def normalizeFiniteNumber_def)

definition ex_entry :: history where
  "ex_entry = appendToTier 0 (ex_point 61000) (createEmptyHistory ex_layout)"

lemma ex_entry_ok: "hist_ok ex_entry" "hi_capacities ex_entry = [2, 2]" "hi_base ex_entry = 60"
proof -
  note e = empty_ok [OF ex_layout_ok]
  have "hi_capacities (createEmptyHistory ex_layout) = [2, 2]" "hi_base (createEmptyHistory ex_layout) = 60"
    by (simp_all add: createEmptyHistory_def ex_layout_def)
  then show "hist_ok ex_entry" "hi_capacities ex_entry = [2, 2]" "hi_base ex_entry = 60"
    using append_refines [OF conjunct1 [OF e] _ refl, of 0 "ex_point 61000"] by (simp_all add: ex_entry_def)
qed

theorem history_read_back_witness:
  "normalizeTieredHistoryPayload (serializeHistory ex_entry) = Some (ex_entry\<lparr>hi_tiers := map canonical (hi_tiers ex_entry)\<rparr>)"
  by (rule history_read_back) (simp_all add: ex_entry_ok)

theorem history_refines_lists_witness:
  "length (toHashHistory (feed ex_layout [ex_sample 1000, JNull, ex_sample 61000, ex_sample 121000] JNull) None) = 2"
proof -
  have "toHashHistory (feed ex_layout [ex_sample 1000, JNull, ex_sample 61000, ex_sample 121000] JNull) None =
      rev (chron (spec_points ex_layout [ex_point 1000, ex_point 61000, ex_point 121000]))"
    using history_refines_lists [OF ex_layout_ok, of JNull "[ex_sample 1000, JNull, ex_sample 61000, ex_sample 121000]"]
    by (simp add: List.map_filter_simps ex_point_of normalizeTieredHistoryPayload_def)
  then show ?thesis by (simp add: spec_points_def ex_layout_def chron_def)
qed

theorem history_newest_first_witness:
  "hd (toHashHistory (feed ex_layout ([ex_sample 1000, ex_sample 61000] @ [ex_sample 121000]) JNull) None) = stored (ex_point 121000)"
proof -
  have "sorted (map hp_ts (List.map_filter normalizePoint [ex_sample 1000, ex_sample 61000]))"
    using normalizeTimestamp_mono [of 1000 61000] by (simp add: List.map_filter_simps ex_point_of ex_point_def)
  from history_newest_first [OF ex_layout_ok _ this, of JNull "ex_sample 121000" "ex_point 121000"]
  show ?thesis by (simp add: ex_point_of normalizeTieredHistoryPayload_def)
qed

end
