(* ===== verification/Worker_Alerts.thy ===== *)
theory Worker_Alerts
  imports Prog Js_Value
begin

text \<open>
  The mails of \<open>src/lib/worker.js\<close> about workers that stop and start hashing: what the statistics
  cycle notes, the timer that waits before a worker is reported as stopped, and the lookup of
  the mail address of an account, whose reply comes later. Times are in milliseconds.
\<close>

definition EMAIL_CACHE_TTL_MS :: int where "EMAIL_CACHE_TTL_MS = 21600000"
definition STOPPED_HASHING_DELAY_MS :: int where "STOPPED_HASHING_DELAY_MS = 600000"
definition STARTED_HASHING_TTL_MS :: int where "STARTED_HASHING_TTL_MS = 2 * STOPPED_HASHING_DELAY_MS"
definition STOPPED_HASHING_TTL_MS :: int where "STOPPED_HASHING_TTL_MS = 2 * STOPPED_HASHING_DELAY_MS"

subsection \<open>Names\<close>

definition getMinerParts :: "string \<Rightarrow> string \<times> string" where
  "getMinerParts miner =
     (if CHR ''_'' \<in> set miner
      then (takeWhile (\<lambda>c. c \<noteq> CHR ''_'') miner, drop 1 (dropWhile (\<lambda>c. c \<noteq> CHR ''_'') miner)) else (miner, []))"

definition isWorkerKey :: "string \<Rightarrow> bool" where
  "isWorkerKey miner \<longleftrightarrow> CHR ''_'' \<in> set miner"

text \<open>The workers that mails are about.\<close>

definition audible :: "string \<Rightarrow> bool" where
  "audible miner \<longleftrightarrow> isWorkerKey miner \<and> snd (getMinerParts miner) \<noteq> [] \<and> \<not> contains ''silent'' (snd (getMinerParts miner))"

subsection \<open>The state\<close>

text \<open>What runs when the mail address of an account is known, and the mails it sends.\<close>

datatype notice = Stopped_hashing string | Started_hashing string

datatype alert_timer = Stop_timer string | Retry_timer string notice

record alert_state =
  workersStartedHashingTime :: "string \<Rightarrow> int option"
  workersStoppedHashingTime :: "string \<Rightarrow> int option"
  workersStoppedHashingEmailTime :: "string \<Rightarrow> int option"
  minerEmail :: "string \<Rightarrow> string option option"
  minerEmailTime :: "string \<Rightarrow> int option"
  alert_timers :: "alert_timer list"
  alert_lookups :: "(string \<times> notice) list"
  alert_mails :: "(notice \<times> string) list"

definition no_alerts :: alert_state where
  "no_alerts = \<lparr>workersStartedHashingTime = (\<lambda>_. None), workersStoppedHashingTime = (\<lambda>_. None),
     workersStoppedHashingEmailTime = (\<lambda>_. None), minerEmail = (\<lambda>_. None), minerEmailTime = (\<lambda>_. None),
     alert_timers = [], alert_lookups = [], alert_mails = []\<rparr>"

definition runNotice :: "int \<Rightarrow> string \<Rightarrow> notice \<Rightarrow> alert_state \<Rightarrow> alert_state" where
  "runNotice now email n s0 =
     (let s = s0\<lparr>alert_mails := alert_mails s0 @ [(n, email)]\<rparr>
      in case n of
           Stopped_hashing miner \<Rightarrow> s\<lparr>workersStoppedHashingEmailTime := (workersStoppedHashingEmailTime s)(miner \<mapsto> now)\<rparr>
         | Started_hashing miner \<Rightarrow> s)"

definition getAddressEmail :: "int \<Rightarrow> string \<Rightarrow> notice \<Rightarrow> alert_state \<Rightarrow> alert_state" where
  "getAddressEmail now address n s =
     (let lastLookupAt = minerEmailTime s address
      in if lastLookupAt = None \<or> now - the lastLookupAt > 10 * 60 * 1000
         then s\<lparr>minerEmailTime := (minerEmailTime s)(address \<mapsto> now), minerEmail := (minerEmail s)(address \<mapsto> None),
                alert_lookups := alert_lookups s @ [(address, n)]\<rparr>
         else case minerEmail s address of
                None \<Rightarrow> s
              | Some None \<Rightarrow>
                  if now - the lastLookupAt < 5 * 1000 then s\<lparr>alert_timers := alert_timers s @ [Retry_timer address n]\<rparr> else s
              | Some (Some cachedEmail) \<Rightarrow> runNotice now cachedEmail n s)"

text \<open>The reply to a lookup: \<open>None\<close> if the query failed, else the address or an empty text.\<close>

definition onEmail :: "int \<Rightarrow> string option \<Rightarrow> string \<Rightarrow> notice \<Rightarrow> alert_state \<Rightarrow> alert_state" where
  "onEmail now reply address n s =
     (case reply of
        None \<Rightarrow> s
      | Some email \<Rightarrow>
          if email = [] then s\<lparr>minerEmail := (minerEmail s)(address := None)\<rparr>
          else runNotice now email n (s\<lparr>minerEmail := (minerEmail s)(address \<mapsto> Some email)\<rparr>))"

definition delayedSendWorkerStoppedHashingEmail :: "int \<Rightarrow> string \<Rightarrow> alert_state \<Rightarrow> alert_state" where
  "delayedSendWorkerStoppedHashingEmail now miner s0 =
     (let s = s0\<lparr>workersStartedHashingTime := (workersStartedHashingTime s0)(miner := None),
                 workersStoppedHashingTime := (workersStoppedHashingTime s0)(miner := None)\<rparr>
      in case workersStartedHashingTime s0 miner of
           Some startedAt \<Rightarrow>
             if now - startedAt \<le> STOPPED_HASHING_DELAY_MS then s
             else getAddressEmail now (fst (getMinerParts miner)) (Stopped_hashing miner) s
         | None \<Rightarrow> getAddressEmail now (fst (getMinerParts miner)) (Stopped_hashing miner) s)"

text \<open>What a cycle notes of a worker that is not active any more, and of one that is again.\<close>

definition noteStopped :: "int \<Rightarrow> string \<Rightarrow> alert_state \<Rightarrow> alert_state" where
  "noteStopped now miner s =
     (if \<not> audible miner \<or> workersStoppedHashingTime s miner \<noteq> None then s
      else s\<lparr>workersStoppedHashingTime := (workersStoppedHashingTime s)(miner \<mapsto> now),
             alert_timers := alert_timers s @ [Stop_timer miner]\<rparr>)"

definition noteStarted :: "int \<Rightarrow> string \<Rightarrow> alert_state \<Rightarrow> alert_state" where
  "noteStarted now miner s0 =
     (if \<not> audible miner then s0
      else
        let s = s0\<lparr>workersStartedHashingTime := (workersStartedHashingTime s0)(miner \<mapsto> now)\<rparr>
        in if workersStoppedHashingEmailTime s miner = None then s
           else getAddressEmail now (fst (getMinerParts miner)) (Started_hashing miner)
                  (s\<lparr>workersStoppedHashingTime := (workersStoppedHashingTime s)(miner := None),
                     workersStoppedHashingEmailTime := (workersStoppedHashingEmailTime s)(miner := None)\<rparr>))"

definition forget :: "int \<Rightarrow> int \<Rightarrow> (string \<Rightarrow> int option) \<Rightarrow> string \<Rightarrow> int option" where
  "forget now ttl noted k = (case noted k of Some t \<Rightarrow> if now - t \<le> ttl then Some t else None | None \<Rightarrow> None)"

definition pruneTransientState :: "int \<Rightarrow> alert_state \<Rightarrow> alert_state" where
  "pruneTransientState now s =
     s\<lparr>minerEmail := (\<lambda>address. if minerEmailTime s address \<noteq> None \<and> forget now EMAIL_CACHE_TTL_MS (minerEmailTime s) address = None
                               then None else minerEmail s address),
       minerEmailTime := forget now EMAIL_CACHE_TTL_MS (minerEmailTime s),
       workersStartedHashingTime := forget now STARTED_HASHING_TTL_MS (workersStartedHashingTime s),
       workersStoppedHashingTime := forget now STOPPED_HASHING_TTL_MS (workersStoppedHashingTime s)\<rparr>"

subsection \<open>Events\<close>

definition fire :: "int \<Rightarrow> alert_timer \<Rightarrow> alert_state \<Rightarrow> alert_state" where
  "fire now t s =
     (case t of Stop_timer miner \<Rightarrow> delayedSendWorkerStoppedHashingEmail now miner s
      | Retry_timer address n \<Rightarrow> getAddressEmail now address n s)"

inductive alert_step :: "alert_state \<Rightarrow> alert_state \<Rightarrow> bool" where
  stopped: "alert_step s (noteStopped now miner s)"
| started: "alert_step s (noteStarted now miner s)"
| timer: "alert_timers s = ts @ t # us \<Longrightarrow> alert_step s (fire now t (s\<lparr>alert_timers := ts @ us\<rparr>))"
| replied: "alert_lookups s = ls @ (address, n) # ms \<Longrightarrow> alert_step s (onEmail now reply address n (s\<lparr>alert_lookups := ls @ ms\<rparr>))"
| pruned: "alert_step s (pruneTransientState now s)"

inductive alert_reach :: "alert_state \<Rightarrow> bool" where
  start: "alert_reach no_alerts"
| step: "alert_reach s \<Longrightarrow> alert_step s s' \<Longrightarrow> alert_reach s'"

inductive_cases alert_stepE: "alert_step s s'"

subsection \<open>Stop and start mails come in pairs\<close>

definition mails_of :: "notice \<Rightarrow> alert_state \<Rightarrow> nat" where
  "mails_of n s = length (filter (\<lambda>m. fst m = n) (alert_mails s))"

definition waiting_of :: "notice \<Rightarrow> alert_state \<Rightarrow> nat" where
  "waiting_of n s = length (filter (\<lambda>l. snd l = n) (alert_lookups s)) +
     length (filter (\<lambda>t. \<exists>a. t = Retry_timer a n) (alert_timers s))"

definition paired :: "string \<Rightarrow> alert_state \<Rightarrow> bool" where
  "paired m s \<longleftrightarrow> mails_of (Started_hashing m) s + waiting_of (Started_hashing m) s +
     (if workersStoppedHashingEmailTime s m = None then 0 else 1) \<le> mails_of (Stopped_hashing m) s"

text \<open>\<open>room\<close>: one more start notice of \<open>m\<close> may be created.\<close>

definition room :: "string \<Rightarrow> notice \<Rightarrow> alert_state \<Rightarrow> bool" where
  "room m n s \<longleftrightarrow> mails_of (Started_hashing m) s + waiting_of (Started_hashing m) s + (if n = Started_hashing m then 1 else 0) +
     (if workersStoppedHashingEmailTime s m = None then 0 else 1) \<le> mails_of (Stopped_hashing m) s"

lemma run_paired: "room m n s \<Longrightarrow> paired m (runNotice now email n s)"
  by (cases n) (auto simp: runNotice_def Let_def paired_def room_def mails_of_def waiting_of_def)

lemma lookup_paired: "room m n s \<Longrightarrow> paired m (getAddressEmail now address n s)"
proof -
  assume r: "room m n s"
  have "paired m (s\<lparr>minerEmailTime := mt, minerEmail := me, alert_lookups := alert_lookups s @ [(address, n)]\<rparr>)" for mt me
    using r by (auto simp: paired_def room_def mails_of_def waiting_of_def)
  moreover have "paired m (s\<lparr>alert_timers := alert_timers s @ [Retry_timer address n]\<rparr>)"
    using r by (auto simp: paired_def room_def mails_of_def waiting_of_def)
  moreover have "paired m s" using r by (simp add: paired_def room_def)
  ultimately show ?thesis using run_paired [OF r] by (auto simp: getAddressEmail_def Let_def split: option.split)
qed

lemma reply_paired: "room m n s \<Longrightarrow> paired m (onEmail now reply address n s)"
proof -
  assume r: "room m n s"
  then have "room m n (s\<lparr>minerEmail := me\<rparr>)" for me by (simp add: room_def mails_of_def waiting_of_def)
  moreover from r have "paired m s" "paired m (s\<lparr>minerEmail := me\<rparr>)" for me
    by (auto simp: room_def paired_def mails_of_def waiting_of_def)
  ultimately show ?thesis by (auto simp: onEmail_def run_paired split: option.split)
qed

lemma step_paired: "alert_step s s' \<Longrightarrow> paired m s \<Longrightarrow> paired m s'"
proof (induction rule: alert_step.induct)
  case (stopped s now miner)
  then show ?case by (auto simp: noteStopped_def paired_def mails_of_def waiting_of_def)
next
  case (started s now miner)
  let ?s = "s\<lparr>workersStartedHashingTime := (workersStartedHashingTime s)(miner \<mapsto> now)\<rparr>"
  have "paired m ?s" using started by (simp add: paired_def mails_of_def waiting_of_def)
  moreover have "room m (Started_hashing miner) (?s\<lparr>workersStoppedHashingTime := f,
      workersStoppedHashingEmailTime := (workersStoppedHashingEmailTime s)(miner := None)\<rparr>)"
    if "workersStoppedHashingEmailTime s miner \<noteq> None" for f
    using started that by (auto simp: paired_def room_def mails_of_def waiting_of_def)
  ultimately show ?case using started lookup_paired by (simp add: noteStarted_def Let_def)
next
  case (timer s ts t us now)
  show ?case
  proof (cases t)
    case (Stop_timer miner)
    have "room m (Stopped_hashing miner) (s\<lparr>alert_timers := ts @ us, workersStartedHashingTime := f, workersStoppedHashingTime := g\<rparr>)"
      "paired m (s\<lparr>alert_timers := ts @ us, workersStartedHashingTime := f, workersStoppedHashingTime := g\<rparr>)" for f g
      using timer Stop_timer by (auto simp: paired_def room_def mails_of_def waiting_of_def)
    then show ?thesis using Stop_timer lookup_paired
      by (auto simp: fire_def delayedSendWorkerStoppedHashingEmail_def Let_def split: option.split)
  next
    case (Retry_timer address n)
    have "room m n (s\<lparr>alert_timers := ts @ us\<rparr>)"
      using timer Retry_timer by (auto simp: paired_def room_def mails_of_def waiting_of_def)
    then show ?thesis using Retry_timer lookup_paired by (simp add: fire_def)
  qed
next
  case (replied s ls address n ms now reply)
  have "room m n (s\<lparr>alert_lookups := ls @ ms\<rparr>)"
    using replied by (auto simp: paired_def room_def mails_of_def waiting_of_def)
  then show ?case by (rule reply_paired)
next
  case (pruned s now)
  then show ?case by (simp add: pruneTransientState_def paired_def mails_of_def waiting_of_def)
qed

lemma reach_paired: "alert_reach s \<Longrightarrow> paired m s"
proof (induction rule: alert_reach.induct)
  case start
  show ?case by (simp add: paired_def no_alerts_def mails_of_def waiting_of_def)
qed (rule step_paired)

subsection \<open>Silent workers are left alone\<close>

fun about_worker :: "notice \<Rightarrow> string" where
  "about_worker (Stopped_hashing m) = m"
| "about_worker (Started_hashing m) = m"

fun timer_worker :: "alert_timer \<Rightarrow> string" where
  "timer_worker (Stop_timer m) = m"
| "timer_worker (Retry_timer a n) = about_worker n"

definition heard :: "alert_state \<Rightarrow> bool" where
  "heard s \<longleftrightarrow> (\<forall>t \<in> set (alert_timers s). audible (timer_worker t)) \<and> (\<forall>l \<in> set (alert_lookups s). audible (about_worker (snd l))) \<and>
     (\<forall>x \<in> set (alert_mails s). audible (about_worker (fst x)))"

lemma run_heard: "heard s \<Longrightarrow> audible (about_worker n) \<Longrightarrow> heard (runNotice now email n s)"
  by (cases n) (auto simp: runNotice_def Let_def heard_def)

lemma lookup_heard: "heard s \<Longrightarrow> audible (about_worker n) \<Longrightarrow> heard (getAddressEmail now address n s)"
  using run_heard [of s n] by (auto simp: getAddressEmail_def Let_def split: option.split) (auto simp: heard_def)

lemma step_heard: "alert_step s s' \<Longrightarrow> heard s \<Longrightarrow> heard s'"
proof (induction rule: alert_step.induct)
  case (stopped s now miner)
  then show ?case by (auto simp: noteStopped_def heard_def)
next
  case (started s now miner)
  have "heard (s\<lparr>workersStartedHashingTime := f\<rparr>)" "heard (s\<lparr>workersStartedHashingTime := f, workersStoppedHashingTime := g,
      workersStoppedHashingEmailTime := h\<rparr>)" for f g h using started by (simp_all add: heard_def)
  then show ?case using started lookup_heard by (simp add: noteStarted_def Let_def)
next
  case (timer s ts t us now)
  have "heard (s\<lparr>alert_timers := ts @ us\<rparr>)" "audible (timer_worker t)"
    "heard (s\<lparr>alert_timers := ts @ us, workersStartedHashingTime := f, workersStoppedHashingTime := g\<rparr>)" for f g
    using timer by (auto simp: heard_def)
  then show ?case
    using lookup_heard by (cases t) (auto simp: fire_def delayedSendWorkerStoppedHashingEmail_def Let_def split: option.split)
next
  case (replied s ls address n ms now reply)
  have "heard (s\<lparr>alert_lookups := ls @ ms\<rparr>)" "audible (about_worker n)" "heard (s\<lparr>alert_lookups := ls @ ms, minerEmail := f\<rparr>)" for f
    using replied by (auto simp: heard_def)
  then show ?case using run_heard by (auto simp: onEmail_def split: option.split)
next
  case (pruned s now)
  then show ?case by (simp add: pruneTransientState_def heard_def)
qed

lemma reach_heard: "alert_reach s \<Longrightarrow> heard s"
proof (induction rule: alert_reach.induct)
  case start
  show ?case by (simp add: heard_def no_alerts_def)
qed (rule step_heard)

end
