(* ===== verification/Worker_Stats.thy ===== *)
theory Worker_Stats
  imports Cache_Cleanup Worker_History Prog Worker_Alerts
begin

text \<open>
  The statistics cycle of \<open>src/lib/worker.js\<close>: the shares of the last heights are summed up by
  miner, port and pool, and the cache rows that the API shows are brought up to date. A text in
  the cache is its parsed value, as in the cache cleanup; two texts are the same when their
  values are. Other processes write to the cache between the transactions of a cycle.
\<close>

definition HASHRATE_AVG_MIN :: num where "HASHRATE_AVG_MIN = 10"
definition HASH_WINDOW_MS :: int where "HASH_WINDOW_MS = 600000"
definition IDENTIFIER_WINDOW_MS :: int where "IDENTIFIER_WINDOW_MS = 1200000"
definition STAT_CHANGE_ALERT :: num where "STAT_CHANGE_ALERT = fl (6 / 10)"
definition HISTORY_INTERVAL_MS :: int where "HISTORY_INTERVAL_MS = 120000"
definition CACHE_WRITE_BATCH_SIZE :: nat where "CACHE_WRITE_BATCH_SIZE = 500"

subsection \<open>Shares\<close>

record stat_share = share_msg +
  sh_identifier :: string
  sh_raw_shares :: "num option"

definition minerIdOf :: "stat_share \<Rightarrow> string" where
  "minerIdOf share =
     (case sh_paymentID share of
        Some p \<Rightarrow> if 10 < length p then sh_address share @ ''.'' @ p else sh_address share
      | None \<Rightarrow> sh_address share)"

record window_bounds =
  wb_currentTime :: int
  wb_hashStart :: int
  wb_identifierStart :: int

record miner_summary =
  su_rawShares :: num
  su_shares2 :: num
  su_lastHash :: num
  su_port :: int
  su_hasPplns :: bool

record pool_totals =
  pt_pplns :: num
  pt_global :: num

record share_snapshot =
  sn_identifiers :: "(string \<times> string list) list"
  sn_minerStats :: "(string \<times> miner_summary) list"
  sn_portHashes :: "(int \<times> num) list"
  sn_localStats :: pool_totals
  sn_localTimes :: pool_totals

definition mergeIdentifier :: "string \<Rightarrow> string \<Rightarrow> (string \<times> string list) list \<Rightarrow> (string \<times> string list) list" where
  "mergeIdentifier address identifier ids =
     (if identifier = [] then ids
      else let set0 = (case map_of ids address of Some xs \<Rightarrow> xs | None \<Rightarrow> [])
           in AList.update address (if identifier \<in> set set0 then set0 else set0 @ [identifier]) ids)"

definition mergeSummary :: "num \<Rightarrow> num \<Rightarrow> num \<Rightarrow> int \<Rightarrow> bool \<Rightarrow> miner_summary option \<Rightarrow> miner_summary" where
  "mergeSummary rawShares shares2 lastHash port hasPplns old =
     (let s = (case old of Some s \<Rightarrow> s
               | None \<Rightarrow> \<lparr>su_rawShares = 0, su_shares2 = 0, su_lastHash = lastHash, su_port = port, su_hasPplns = hasPplns\<rparr>);
          newer = su_lastHash s < lastHash
      in \<lparr>su_rawShares = fl (su_rawShares s + rawShares), su_shares2 = fl (su_shares2 s + shares2),
          su_lastHash = (if newer then lastHash else su_lastHash s), su_port = (if newer then port else su_port s),
          su_hasPplns = su_hasPplns s \<or> hasPplns\<rparr>)"

definition mergeMinerSummary ::
  "string \<Rightarrow> num \<Rightarrow> num \<Rightarrow> num \<Rightarrow> int \<Rightarrow> bool \<Rightarrow> (string \<times> miner_summary) list \<Rightarrow> (string \<times> miner_summary) list" where
  "mergeMinerSummary miner rawShares shares2 lastHash port hasPplns minerStats =
     (if shares2 = 0 then minerStats
      else AList.update miner (mergeSummary rawShares shares2 lastHash port hasPplns (map_of minerStats miner)) minerStats)"

definition addTotals :: "bool \<Rightarrow> num \<Rightarrow> pool_totals \<Rightarrow> pool_totals" where
  "addTotals isPplns x t =
     t\<lparr>pt_global := fl (pt_global t + x), pt_pplns := if isPplns then fl (pt_pplns t + x) else pt_pplns t\<rparr>"

definition laterTimes :: "bool \<Rightarrow> num \<Rightarrow> pool_totals \<Rightarrow> pool_totals" where
  "laterTimes isPplns x t =
     t\<lparr>pt_global := max (pt_global t) x, pt_pplns := if isPplns then max (pt_pplns t) x else pt_pplns t\<rparr>"

definition sharePort :: "int \<Rightarrow> stat_share \<Rightarrow> int" where
  "sharePort mainPort share = (case sh_port share of Some p \<Rightarrow> if p = 0 then mainPort else p | None \<Rightarrow> mainPort)"

definition applyShareToSnapshot :: "int \<Rightarrow> window_bounds \<Rightarrow> stat_share \<Rightarrow> share_snapshot \<Rightarrow> share_snapshot" where
  "applyShareToSnapshot mainPort bounds share sn0 =
     (if sh_timestamp share < of_int (wb_identifierStart bounds) \<or> of_int (wb_currentTime bounds) \<le> sh_timestamp share then sn0
      else
        let minerID = minerIdOf share; sn1 = sn0\<lparr>sn_identifiers := mergeIdentifier minerID (sh_identifier share) (sn_identifiers sn0)\<rparr>
        in if sh_timestamp share < of_int (wb_hashStart bounds) then sn1
           else
             let shares2 = normalizeFiniteNumber (sh_shares2 share) 0; rawShares = normalizeFiniteNumber (sh_raw_shares share) 0;
                 isPplns = (sh_poolType share = PPLNS); port = sharePort mainPort share;
                 merge = (\<lambda>miner. mergeMinerSummary miner rawShares shares2 (sh_timestamp share) port isPplns);
                 sn2 = sn1\<lparr>sn_localStats := addTotals isPplns shares2 (sn_localStats sn1),
                           sn_localTimes := laterTimes isPplns (sh_timestamp share) (sn_localTimes sn1),
                           sn_portHashes := AList.update port
                             (fl ((case map_of (sn_portHashes sn1) port of Some x \<Rightarrow> x | None \<Rightarrow> 0) + rawShares)) (sn_portHashes sn1)\<rparr>
             in if shares2 = 0 then sn2
                else
                  let minerStats = merge minerID (sn_minerStats sn2)
                  in sn2\<lparr>sn_minerStats := if sh_identifier share = [] then minerStats
                                          else merge (minerID @ ''_'' @ sh_identifier share) minerStats\<rparr>)"

text \<open>
  The walk down the heights, at most sixty-one of them, until a share is older than the window. A
  share that cannot be decoded is logged and passed over.
\<close>

fun scanHeights ::
  "int \<Rightarrow> window_bounds \<Rightarrow> (nat \<Rightarrow> stat_share option list) \<Rightarrow> nat \<Rightarrow> nat \<Rightarrow> num \<Rightarrow> share_snapshot \<Rightarrow> share_snapshot" where
  "scanHeights mainPort bounds rows 0 height oldestTime sn = sn"
| "scanHeights mainPort bounds rows (Suc n) height oldestTime sn =
     (let shares = List.map_filter id (rows height);
          oldest = fold (\<lambda>s t. if sh_timestamp s < t then sh_timestamp s else t) shares oldestTime;
          sn' = fold (applyShareToSnapshot mainPort bounds) shares sn
      in if height = 0 \<or> oldest \<le> of_int (wb_identifierStart bounds) then sn'
         else scanHeights mainPort bounds rows n (height - 1) oldest sn')"

definition scanShareSnapshot :: "int \<Rightarrow> window_bounds \<Rightarrow> (nat \<Rightarrow> stat_share option list) \<Rightarrow> nat \<Rightarrow> share_snapshot \<Rightarrow> share_snapshot" where
  "scanShareSnapshot mainPort bounds rows height sn =
     scanHeights mainPort bounds rows 61 height (of_int (wb_currentTime bounds)) sn"

definition countIdentifiers :: "(string \<times> string list) list \<Rightarrow> nat" where
  "countIdentifiers ids = sum_list (map (length \<circ> snd) ids)"

definition activeMinerKeys :: "(string \<times> miner_summary) list \<Rightarrow> string list" where
  "activeMinerKeys minerStats = map fst (filter (\<lambda>x. su_shares2 (snd x) \<noteq> 0) minerStats)"

definition activeAccounts :: "(string \<times> miner_summary) list \<Rightarrow> (string \<times> miner_summary) list" where
  "activeAccounts minerStats = filter (\<lambda>x. su_shares2 (snd x) \<noteq> 0 \<and> \<not> isWorkerKey (fst x)) minerStats"

subsection \<open>History ticks\<close>

text \<open>\<open>0\<close> stands for a cycle that was never run.\<close>

function catchUp :: "int \<Rightarrow> int \<Rightarrow> int" where
  "catchUp now next = (let next' = next + HISTORY_INTERVAL_MS in if next' \<le> now then catchUp now next' else next')"
  by pat_completeness auto
termination
  by (relation "measure (\<lambda>(t, n). nat (t - n))") (auto simp: HISTORY_INTERVAL_MS_def)

declare catchUp.simps [simp del]

definition shouldRunHistoryTick :: "int \<Rightarrow> int \<Rightarrow> bool \<times> int" where
  "shouldRunHistoryTick now nextHistoryAt =
     (if nextHistoryAt = 0 then (True, now + HISTORY_INTERVAL_MS)
      else if now < nextHistoryAt then (False, nextHistoryAt)
      else (True, catchUp now nextHistoryAt))"

subsection \<open>The cache\<close>

type_synonym text_cache = "string \<Rightarrow> jsval option option"

text \<open>\<open>commits n\<close>: the error of write transaction \<open>n\<close>, if it fails; nothing of it is written then.\<close>

record stat_world =
  sw_cache :: text_cache
  sw_entries :: "(string \<times> jsval) list"
  sw_flushes :: nat
  sw_others :: "(text_cache \<Rightarrow> text_cache) list"
  sw_commits :: "nat \<Rightarrow> string option"
  sw_alerts :: alert_state
  sw_nextHistoryAt :: int
  sw_lastShareStatsHeight :: int
  sw_lmdbFailStop :: bool
  sw_started :: bool
  sw_prevPoolStateTime :: int
  sw_prevPoolHashrate :: num
  sw_prevPoolWorkers :: num
  sw_adminMails :: "string list"

type_synonym 'a stat_prog = "(stat_world, 'a) prog"

definition sw_interfere :: "stat_world \<Rightarrow> stat_world" where
  "sw_interfere s = (case sw_others s of [] \<Rightarrow> s | f # fs \<Rightarrow> s\<lparr>sw_cache := f (sw_cache s), sw_others := fs\<rparr>)"

definition parseCacheEntry :: "jsval option option \<Rightarrow> jsval" where
  "parseCacheEntry raw = (case raw of Some (Some v) \<Rightarrow> v | _ \<Rightarrow> JBool False)"

definition readCacheSnapshot :: "text_cache stat_prog" where
  "readCacheSnapshot = (\<lambda>s. let s1 = sw_interfere s in (Inr (sw_cache s1), s1))"

definition putAll :: "(string \<times> jsval) list \<Rightarrow> text_cache \<Rightarrow> text_cache" where
  "putAll es c = fold (\<lambda>(k, v) c. c(k \<mapsto> Some v)) es c"

definition writeCacheBatch :: "(string \<times> jsval) list \<Rightarrow> unit stat_prog" where
  "writeCacheBatch es =
     (\<lambda>s. let s1 = sw_interfere s; s2 = s1\<lparr>sw_flushes := sw_flushes s1 + 1\<rparr>
          in case sw_commits s1 (sw_flushes s1) of
               Some e \<Rightarrow> (Inl e, s2)
             | None \<Rightarrow> (Inr (), s2\<lparr>sw_cache := putAll es (sw_cache s2)\<rparr>))"

definition flushEntries :: "unit stat_prog" where
  "flushEntries =
     (\<lambda>s. if sw_entries s = [] then (Inr (), s) else writeCacheBatch (sw_entries s) (s\<lparr>sw_entries := []\<rparr>))"

definition setSerialized :: "string \<Rightarrow> jsval \<Rightarrow> unit stat_prog" where
  "setSerialized key value =
     (\<lambda>s. let s1 = s\<lparr>sw_entries := sw_entries s @ [(key, value)]\<rparr>
          in if CACHE_WRITE_BATCH_SIZE \<le> length (sw_entries s1) then flushEntries s1 else (Inr (), s1))"

definition queueCacheWriteIfChanged :: "string \<Rightarrow> jsval \<Rightarrow> jsval option option \<Rightarrow> bool stat_prog" where
  "queueCacheWriteIfChanged key value currentRaw =
     (if currentRaw = Some (Some value) then ret False else andThen (setSerialized key value) (\<lambda>_. ret True))"

fun eachOf :: "('a \<Rightarrow> ('s, 'b) prog) \<Rightarrow> 'a list \<Rightarrow> ('s, unit) prog" where
  "eachOf f [] = ret ()"
| "eachOf f (x # xs) = andThen (f x) (\<lambda>_. eachOf f xs)"


subsection \<open>Rows\<close>

record stat_env =
  se_mainPort :: int
  se_statsBufferLength :: jsval
  se_statsBufferHours :: jsval
  se_algo :: "int \<Rightarrow> jsval"
  se_mapFull :: "string \<Rightarrow> bool"

definition rate :: "num \<Rightarrow> num" where
  "rate x = fl (x / (HASHRATE_AVG_MIN * 60))"

definition minerRow :: "stat_env \<Rightarrow> miner_summary \<Rightarrow> jsval" where
  "minerRow params summary =
     JObj [(''hash'', JNum (rate (su_rawShares summary))), (''hash2'', JNum (rate (su_shares2 summary))),
           (''lastHash'', JNum (su_lastHash summary)), (''lastShareAlgo'', se_algo params (su_port summary))]"

definition appendPoolHashHistorySample :: "jsval \<Rightarrow> history_layout \<Rightarrow> jsval \<Rightarrow> jsval" where
  "appendPoolHashHistorySample payload layout point =
     appendHistorySample (case payload of JArr points \<Rightarrow> importHistoryPayload points layout | _ \<Rightarrow> payload) layout point"

definition poolRow :: "history_layout \<Rightarrow> nat \<Rightarrow> int \<Rightarrow> bool \<Rightarrow> num \<Rightarrow> num \<Rightarrow> num \<Rightarrow> jsval \<Rightarrow> jsval" where
  "poolRow layout statsBufferLength now historyTick hash lastHash minerCount cachedData =
     (let sample = JObj [(''ts'', JNum (of_int now)), (''hs'', JNum hash)]; tally = JObj [(''ts'', JNum (of_int now)), (''cn'', JNum minerCount)]
      in if \<not> isRecord cachedData
         then JObj [(''hash'', JNum hash), (''totalHashes'', JNum 0), (''lastHash'', JNum lastHash), (''minerCount'', JNum minerCount),
                    (''hashHistory'', appendPoolHashHistorySample JNull layout sample), (''minerHistory'', JArr [tally])]
         else
           let d = assign ''minerCount'' (JNum minerCount) (assign ''lastHash'' (JNum lastHash) (assign ''hash'' (JNum hash) cachedData));
               minerHistory = (case getf d ''minerHistory'' of JArr vs \<Rightarrow> vs | _ \<Rightarrow> [])
           in if \<not> historyTick then assign ''minerHistory'' (JArr minerHistory) d
              else assign ''hashHistory'' (appendPoolHashHistorySample (getf d ''hashHistory'') layout sample)
                     (assign ''minerHistory'' (JArr (take statsBufferLength (tally # minerHistory))) d))"

definition queuePoolStats ::
  "text_cache \<Rightarrow> pool_totals \<Rightarrow> pool_totals \<Rightarrow> pool_totals \<Rightarrow> int \<Rightarrow> bool \<Rightarrow> nat \<Rightarrow> history_layout \<Rightarrow> unit stat_prog" where
  "queuePoolStats baseSnapshot localStats localTimes localMinerCount now historyTick statsBufferLength layout =
     eachOf (\<lambda>(key, total). queueCacheWriteIfChanged key
         (poolRow layout statsBufferLength now historyTick (rate (total localStats)) (total localTimes) (total localMinerCount)
            (parseCacheEntry (baseSnapshot key))) (baseSnapshot key))
       [(''pplns_stats'', pt_pplns), (''global_stats'', pt_global)]"

definition queueMinerStats ::
  "stat_env \<Rightarrow> (string \<times> miner_summary) list \<Rightarrow> text_cache \<Rightarrow> history_layout \<Rightarrow> int \<Rightarrow> bool \<Rightarrow> unit stat_prog" where
  "queueMinerStats params minerStats extraSnapshot layout now historyTick =
     eachOf (\<lambda>(miner, summary).
         andThen (queueCacheWriteIfChanged (stats_key miner) (minerRow params summary) (extraSnapshot (stats_key miner))) (\<lambda>_.
         if \<not> historyTick then ret False
         else queueCacheWriteIfChanged (history_key miner)
                (appendHistorySample (parseCacheEntry (extraSnapshot (history_key miner))) layout
                   (JObj [(''ts'', JNum (of_int now)), (''hs'', JNum (rate (su_rawShares summary))), (''hs2'', JNum (rate (su_shares2 summary)))]))
                (extraSnapshot (history_key miner))))
       minerStats"

definition noteAlerts :: "(alert_state \<Rightarrow> alert_state) \<Rightarrow> unit stat_prog" where
  "noteAlerts f = modify (\<lambda>s. s\<lparr>sw_alerts := f (sw_alerts s)\<rparr>)"

definition zeroRow :: "jsval \<Rightarrow> jsval" where
  "zeroRow statsData = assign ''hash2'' (JNum 0) (assign ''hash'' (JNum 0) statsData)"

definition clearStale :: "int \<Rightarrow> text_cache \<Rightarrow> string \<Rightarrow> unit stat_prog" where
  "clearStale now extraSnapshot miner =
     (let statsData = parseCacheEntry (extraSnapshot (stats_key miner)); minerData = parseCacheEntry (extraSnapshot miner)
      in andThen (if isRecord statsData then queueCacheWriteIfChanged (stats_key miner) (zeroRow statsData) (extraSnapshot (stats_key miner)) else ret False)
           (\<lambda>_. if \<not> isRecord minerData then ret ()
                else andThen (queueCacheWriteIfChanged miner (assign ''hash'' (JNum 0) minerData) (extraSnapshot miner))
                       (\<lambda>_. noteAlerts (noteStopped now miner))))"

definition updateWorkerTransitions :: "string list \<Rightarrow> string list \<Rightarrow> int \<Rightarrow> text_cache \<Rightarrow> unit stat_prog" where
  "updateWorkerTransitions active previous now extraSnapshot =
     andThen (eachOf (clearStale now extraSnapshot) (filter (\<lambda>m. m \<notin> set active) previous))
       (\<lambda>_. eachOf (\<lambda>m. noteAlerts (noteStarted now m)) (filter (\<lambda>m. m \<notin> set previous) active))"

definition mergedIdentifiers :: "string list \<Rightarrow> jsval option option \<Rightarrow> jsval" where
  "mergedIdentifiers identifierSet cachedRaw =
     (let previous = (case parseCacheEntry cachedRaw of JArr vs \<Rightarrow> List.map_filter as_string vs | _ \<Rightarrow> [])
      in JArr (map JStr (sort (remdups (identifierSet @ filter (\<lambda>i. i \<noteq> []) previous)))))"

definition portText :: "int \<Rightarrow> string" where
  "portText p = (if p < 0 then ''-'' @ int_digits (- p) else int_digits p)"

text \<open>Keys that are array indices come first, in their order.\<close>

definition portObject :: "(int \<times> num) list \<Rightarrow> jsval" where
  "portObject ports =
     JObj (map (\<lambda>(p, x). (portText p, JNum x)) (sort_key fst (filter (\<lambda>x. 0 \<le> fst x) ports) @ filter (\<lambda>x. fst x < 0) ports))"

definition portMinerCount :: "(string \<times> miner_summary) list \<Rightarrow> (int \<times> num) list" where
  "portMinerCount accounts =
     fold (\<lambda>x c. AList.update (su_port (snd x)) ((case map_of c (su_port (snd x)) of Some n \<Rightarrow> n | None \<Rightarrow> 0) + 1) c) accounts []"

definition setToCacheObject :: "string list \<Rightarrow> jsval" where
  "setToCacheObject values = JObj (map (\<lambda>v. (v, JNum 1)) values)"

definition cacheObjectToSet :: "jsval \<Rightarrow> string list" where
  "cacheObjectToSet v =
     (case v of JObj fs \<Rightarrow> map fst fs | JArr vs \<Rightarrow> map (\<lambda>i. int_digits (int i)) [0..<length vs] | _ \<Rightarrow> [])"

subsection \<open>The cycle\<close>

definition failWorkerCacheWrite :: "stat_env \<Rightarrow> string \<Rightarrow> unit stat_prog" where
  "failWorkerCacheWrite params e =
     modify (\<lambda>s. if se_mapFull params e
       then s\<lparr>sw_entries := [], sw_lmdbFailStop := True, sw_started := False,
              sw_adminMails := (if sw_lmdbFailStop s then sw_adminMails s else sw_adminMails s @ [''workerLmdbFull''])\<rparr>
       else s\<lparr>sw_entries := [], sw_adminMails := sw_adminMails s @ [''workerDbWrite'']\<rparr>)"

definition alertPoolStateChange :: "int \<Rightarrow> num \<Rightarrow> num \<Rightarrow> stat_world \<Rightarrow> stat_world" where
  "alertPoolStateChange now poolHashrate poolWorkers s =
     (if sw_prevPoolStateTime s \<noteq> 0 \<and> now - sw_prevPoolStateTime s \<le> HASH_WINDOW_MS then s
      else
        let ratio = (\<lambda>new old. if old \<noteq> 0 then fl (new / old) else 1);
            far = (\<lambda>x. x < fl (1 - STAT_CHANGE_ALERT) \<or> fl (1 + STAT_CHANGE_ALERT) < x)
        in s\<lparr>sw_adminMails := (if far (ratio poolHashrate (sw_prevPoolHashrate s)) \<or> far (ratio poolWorkers (sw_prevPoolWorkers s))
                                then sw_adminMails s @ [''workerPoolChange''] else sw_adminMails s),
             sw_prevPoolHashrate := poolHashrate, sw_prevPoolWorkers := poolWorkers, sw_prevPoolStateTime := now\<rparr>)"

definition windowBounds :: "int \<Rightarrow> window_bounds" where
  "windowBounds now =
     \<lparr>wb_currentTime = now, wb_hashStart = max 0 (now - HASH_WINDOW_MS), wb_identifierStart = max 0 (now - IDENTIFIER_WINDOW_MS)\<rparr>"

definition emptySnapshot :: "int \<Rightarrow> share_snapshot" where
  "emptySnapshot now =
     (let locTime = of_int (wb_hashStart (windowBounds now))
      in \<lparr>sn_identifiers = [], sn_minerStats = [], sn_portHashes = [], sn_localStats = \<lparr>pt_pplns = 0, pt_global = 0\<rparr>,
          sn_localTimes = \<lparr>pt_pplns = locTime, pt_global = locTime\<rparr>\<rparr>)"

definition writeCaches ::
  "stat_env \<Rightarrow> int \<Rightarrow> bool \<Rightarrow> share_snapshot \<Rightarrow> text_cache \<Rightarrow> string list \<Rightarrow> text_cache \<Rightarrow> unit stat_prog" where
  "writeCaches params now historyTick sn baseSnapshot previous extraSnapshot =
     (let layout = buildTierLayout (JNum (of_nat (normalizePositiveInteger (se_statsBufferLength params) 1)))
            (JNum (max 1 (normalizeFiniteNumber (js_Number (se_statsBufferHours params)) 1))) JUndef;
          statsBufferLength = normalizePositiveInteger (se_statsBufferLength params) 1;
          miners = sn_minerStats sn; active = activeMinerKeys miners; accounts = activeAccounts miners;
          localMinerCount = \<lparr>pt_pplns = of_nat (length (filter (\<lambda>x. su_hasPplns (snd x)) accounts)), pt_global = of_nat (length accounts)\<rparr>
      in andThen (queuePoolStats baseSnapshot (sn_localStats sn) (sn_localTimes sn) localMinerCount now historyTick statsBufferLength layout) (\<lambda>_.
         andThen (queueCacheWriteIfChanged ''port_hash'' (portObject (map (\<lambda>(p, x). (p, rate x)) (sn_portHashes sn))) (baseSnapshot ''port_hash'')) (\<lambda>_.
         andThen (queueMinerStats params miners extraSnapshot layout now historyTick) (\<lambda>_.
         andThen (updateWorkerTransitions active previous now extraSnapshot) (\<lambda>_.
         andThen (eachOf (\<lambda>(address, ids). queueCacheWriteIfChanged (identifiers_key address)
                    (mergedIdentifiers ids (extraSnapshot (identifiers_key address))) (extraSnapshot (identifiers_key address)))
                  (sn_identifiers sn)) (\<lambda>_.
         andThen (queueCacheWriteIfChanged ''portMinerCount'' (portObject (portMinerCount accounts)) (baseSnapshot ''portMinerCount'')) (\<lambda>_.
         andThen (queueCacheWriteIfChanged ''minerSet'' (setToCacheObject active) (baseSnapshot ''minerSet'')) (\<lambda>_.
         flushEntries))))))))"

text \<open>
  What a cycle does with its scan. An empty scan far below the last height is passed over.
  \<open>True\<close>: the cycle wrote its rows.
\<close>

definition writeStats :: "stat_env \<Rightarrow> int \<Rightarrow> nat \<Rightarrow> bool \<Rightarrow> share_snapshot \<Rightarrow> text_cache \<Rightarrow> string list \<Rightarrow> bool stat_prog" where
  "writeStats params now height historyTick sn baseSnapshot previous =
     (let minerCount = countIdentifiers (sn_identifiers sn)
      in andThen (gets sw_lastShareStatsHeight) (\<lambda>lastHeight.
         if activeMinerKeys (sn_minerStats sn) = [] \<and> minerCount = 0 \<and> previous \<noteq> [] \<and> lastHeight \<noteq> 0 \<and> int height + 100 < lastHeight
         then andThen (modify (\<lambda>s. s\<lparr>sw_adminMails := sw_adminMails s @ [''ignored stale empty share scan'']\<rparr>)) (\<lambda>_. ret False)
         else
           andThen readCacheSnapshot (\<lambda>extraSnapshot.
           try_catch
             (andThen (writeCaches params now historyTick sn baseSnapshot previous extraSnapshot) (\<lambda>_.
              andThen (modify (\<lambda>s. alertPoolStateChange now (rate (pt_global (sn_localStats sn))) (of_nat minerCount)
                         (if sw_lastShareStatsHeight s < int height then s\<lparr>sw_lastShareStatsHeight := int height\<rparr> else s))) (\<lambda>_.
              ret True)))
             (\<lambda>e. andThen (failWorkerCacheWrite params e) (\<lambda>_. ret False)))))"

definition updateShareStats2 :: "stat_env \<Rightarrow> (nat \<Rightarrow> stat_share option list) \<Rightarrow> int \<Rightarrow> nat \<Rightarrow> bool stat_prog" where
  "updateShareStats2 params rows now height =
     andThen (\<lambda>s. let (tick, next) = shouldRunHistoryTick now (sw_nextHistoryAt s)
                  in (Inr tick, s\<lparr>sw_nextHistoryAt := next, sw_entries := []\<rparr>)) (\<lambda>historyTick.
     let sn = scanShareSnapshot (se_mainPort params) (windowBounds now) rows height (emptySnapshot now)
     in andThen readCacheSnapshot (\<lambda>baseSnapshot.
        let previous = cacheObjectToSet (parseCacheEntry (baseSnapshot ''minerSet''))
        in writeStats params now height historyTick sn baseSnapshot (if previous = [] then activeMinerKeys (sn_minerStats sn) else previous)))"

text \<open>The height of a header, if there is one.\<close>

definition headerHeight :: "jsval \<Rightarrow> jsval \<Rightarrow> nat option" where
  "headerHeight err body =
     (let rawHeight = (if truthy body then getf body ''height'' else body);
          parsed = (case rawHeight of JNum x \<Rightarrow> Some x | JStr t \<Rightarrow> if js_trim t = [] then None else js_Number rawHeight | _ \<Rightarrow> None)
      in case parsed of
           None \<Rightarrow> None
         | Some x \<Rightarrow> if err \<noteq> JNull \<or> js_floor x \<noteq> x \<or> 9007199254740991 < x \<or> x < 0 then None else Some (nat \<lfloor>x\<rfloor>))"

text \<open>\<open>True\<close>: the next cycle is scheduled.\<close>

definition updateShareStats :: "stat_env \<Rightarrow> (nat \<Rightarrow> stat_share option list) \<Rightarrow> int \<Rightarrow> jsval \<Rightarrow> jsval \<Rightarrow> bool stat_prog" where
  "updateShareStats params rows now err body =
     andThen (gets (\<lambda>s. sw_started s \<and> \<not> sw_lmdbFailStop s)) (\<lambda>running.
     if \<not> running then ret False
     else case headerHeight err body of
            None \<Rightarrow> ret True
          | Some height \<Rightarrow>
              andThen (updateShareStats2 params rows now (height + 1)) (\<lambda>_. gets (\<lambda>s. sw_started s \<and> \<not> sw_lmdbFailStop s)))"

definition startWorker :: "stat_world \<Rightarrow> stat_world" where
  "startWorker s =
     (if sw_started s \<or> sw_lmdbFailStop s then s else s\<lparr>sw_started := True, sw_adminMails := sw_adminMails s @ [''workerRestart'']\<rparr>)"

end
