(* ===== verification/Worker_Stats_Safety.thy ===== *)
theory Worker_Stats_Safety
  imports Worker_Stats Cache_Safety
begin

text \<open>
  What the statistics cycle computes: the summary of a miner is that of its shares in the window,
  a cycle beside which nobody writes leaves exactly the rows it queued, and the mails of its
  workers follow the steps of \<open>Worker_Alerts\<close>.
\<close>

subsection \<open>Summaries\<close>

definition shares2Of :: "stat_share \<Rightarrow> num" where "shares2Of s = normalizeFiniteNumber (sh_shares2 s) 0"
definition rawOf :: "stat_share \<Rightarrow> num" where "rawOf s = normalizeFiniteNumber (sh_raw_shares s) 0"

definition minerKeys :: "stat_share \<Rightarrow> string set" where
  "minerKeys s = {m. m = minerIdOf s \<or> sh_identifier s \<noteq> [] \<and> m = minerIdOf s @ ''_'' @ sh_identifier s}"

text \<open>The shares that count for a miner, and what their summary is.\<close>

definition counts_for :: "window_bounds \<Rightarrow> string \<Rightarrow> stat_share \<Rightarrow> bool" where
  "counts_for b m s \<longleftrightarrow> of_int (wb_identifierStart b) \<le> sh_timestamp s \<and> of_int (wb_hashStart b) \<le> sh_timestamp s \<and>
     sh_timestamp s < of_int (wb_currentTime b) \<and> shares2Of s \<noteq> 0 \<and> m \<in> minerKeys s"

definition latest :: "stat_share list \<Rightarrow> num" where
  "latest xs = Max (sh_timestamp ` set xs)"

definition summary_of :: "int \<Rightarrow> stat_share list \<Rightarrow> miner_summary" where
  "summary_of mainPort xs =
     \<lparr>su_rawShares = foldl (\<lambda>a s. fl (a + rawOf s)) 0 xs, su_shares2 = foldl (\<lambda>a s. fl (a + shares2Of s)) 0 xs,
      su_lastHash = latest xs, su_port = sharePort mainPort (hd (filter (\<lambda>s. sh_timestamp s = latest xs) xs)),
      su_hasPplns = (\<exists>s \<in> set xs. sh_poolType s = PPLNS)\<rparr>"

definition optional_summary :: "int \<Rightarrow> stat_share list \<Rightarrow> miner_summary option" where
  "optional_summary mainPort xs = (if xs = [] then None else Some (summary_of mainPort xs))"

definition mergeShare :: "int \<Rightarrow> stat_share \<Rightarrow> miner_summary option \<Rightarrow> miner_summary" where
  "mergeShare mainPort s old = mergeSummary (rawOf s) (shares2Of s) (sh_timestamp s) (sharePort mainPort s) (sh_poolType s = PPLNS) old"

lemma apply_share:
  "map_of (sn_minerStats (applyShareToSnapshot mainPort b s sn)) m =
     (if counts_for b m s then Some (mergeShare mainPort s (map_of (sn_minerStats sn) m)) else map_of (sn_minerStats sn) m)"
  by (auto simp: applyShareToSnapshot_def Let_def counts_for_def minerKeys_def mergeMinerSummary_def update_conv' mergeShare_def
      rawOf_def shares2Of_def not_less not_le)

lemma summary_merge:
  "mergeShare mainPort s (optional_summary mainPort xs) = summary_of mainPort (xs @ [s])"
proof (cases "xs = []")
  case True
  then show ?thesis by (simp add: mergeShare_def mergeSummary_def optional_summary_def summary_of_def latest_def)
next
  case False
  have m: "latest (xs @ [s]) = max (latest xs) (sh_timestamp s)"
    using False by (simp add: latest_def max.commute)
  have ex: "\<exists>x \<in> set xs. sh_timestamp x = latest xs"
  proof -
    have "latest xs \<in> sh_timestamp ` set xs" unfolding latest_def using False by (intro Max_in) auto
    then show ?thesis by auto
  qed
  have le: "sh_timestamp x \<le> latest xs" if "x \<in> set xs" for x using that by (simp add: latest_def)
  have "filter (\<lambda>x. sh_timestamp x = latest xs) xs \<noteq> []" using ex by (simp add: filter_empty_conv)
  moreover have "filter (\<lambda>x. sh_timestamp x = sh_timestamp s) xs = []" if "latest xs < sh_timestamp s"
    using le that by (fastforce simp: filter_empty_conv)
  ultimately have "hd (filter (\<lambda>x. sh_timestamp x = latest (xs @ [s])) (xs @ [s])) =
      (if latest xs < sh_timestamp s then s else hd (filter (\<lambda>x. sh_timestamp x = latest xs) xs))"
    unfolding m by (auto simp: max_def not_less hd_append)
  then show ?thesis using False
    by (auto simp: mergeShare_def mergeSummary_def optional_summary_def summary_of_def m)
qed

lemma fold_summary:
  "map_of (sn_minerStats (fold (applyShareToSnapshot mainPort b) xs (sn\<lparr>sn_minerStats := []\<rparr>))) m =
     optional_summary mainPort (filter (counts_for b m) xs)"
proof (induction xs rule: rev_induct)
  case (snoc s xs)
  then show ?case
    using summary_merge [of mainPort s "filter (counts_for b m) xs"] by (simp add: apply_share) (auto simp: optional_summary_def)
qed (simp add: optional_summary_def)

subsection \<open>The heights\<close>

fun scanned :: "window_bounds \<Rightarrow> (nat \<Rightarrow> stat_share option list) \<Rightarrow> nat \<Rightarrow> nat \<Rightarrow> num \<Rightarrow> stat_share list" where
  "scanned bounds rows 0 height oldestTime = []"
| "scanned bounds rows (Suc n) height oldestTime =
     (let shares = List.map_filter id (rows height);
          oldest = fold (\<lambda>s t. if sh_timestamp s < t then sh_timestamp s else t) shares oldestTime
      in shares @ (if height = 0 \<or> oldest \<le> of_int (wb_identifierStart bounds) then []
                   else scanned bounds rows n (height - 1) oldest))"

lemma scan_scanned: "scanHeights mainPort b rows n h t sn = fold (applyShareToSnapshot mainPort b) (scanned b rows n h t) sn"
  by (induction mainPort b rows n h t sn rule: scanHeights.induct) (simp_all add: Let_def)

text \<open>All shares of the sixty-one heights from \<open>h\<close> downwards, in the order of the walk.\<close>

fun shares_below :: "(nat \<Rightarrow> stat_share option list) \<Rightarrow> nat \<Rightarrow> nat \<Rightarrow> stat_share list" where
  "shares_below rows 0 h = []"
| "shares_below rows (Suc n) h = List.map_filter id (rows h) @ (if h = 0 then [] else shares_below rows n (h - 1))"

lemma shares_below_height: "s \<in> set (shares_below rows n h) \<Longrightarrow> \<exists>h' \<le> h. Some s \<in> set (rows h')"
proof (induction rows n h rule: shares_below.induct)
  case (2 rows n h)
  then show ?case by (auto simp: List.map_filter_def split: if_splits) (meson diff_le_self le_trans)
qed simp

definition time_ordered :: "(nat \<Rightarrow> stat_share option list) \<Rightarrow> bool" where
  "time_ordered rows \<longleftrightarrow> (\<forall>h h' s s'. h' < h \<longrightarrow> Some s \<in> set (rows h) \<longrightarrow> Some s' \<in> set (rows h') \<longrightarrow> sh_timestamp s' \<le> sh_timestamp s)"

lemma oldest_le: "fold (\<lambda>s t. if sh_timestamp s < t then sh_timestamp s else t) xs t0 \<le> x \<Longrightarrow> t0 \<le> x \<or> (\<exists>s \<in> set xs. sh_timestamp s \<le> x)"
  by (induction xs arbitrary: t0) (auto split: if_splits)

lemma scanned_all:
  assumes o: "time_ordered rows" and w: "wb_identifierStart b < wb_hashStart b"
  shows "(\<forall>h' < h + 1. \<forall>s. Some s \<in> set (rows h') \<longrightarrow> sh_timestamp s \<le> t \<or> of_int (wb_identifierStart b) < t) \<Longrightarrow>
    filter (counts_for b m) (scanned b rows n h t) = filter (counts_for b m) (shares_below rows n h)"
proof (induction n arbitrary: h t)
  case (Suc n)
  let ?shares = "List.map_filter id (rows h)"
  let ?old = "fold (\<lambda>s t. if sh_timestamp s < t then sh_timestamp s else t) ?shares t"
  have below: "sh_timestamp s \<le> ?old \<or> of_int (wb_identifierStart b) < ?old" if "h' < h" "Some s \<in> set (rows h')" for h' s
  proof (rule ccontr)
    assume not: "\<not> (sh_timestamp s \<le> ?old \<or> of_int (wb_identifierStart b) < ?old)"
    from oldest_le [of ?shares t ?old] consider "t \<le> ?old" | x where "x \<in> set ?shares" "sh_timestamp x \<le> ?old" by auto
    then show False
    proof cases
      case 1
      have "h' < h + 1" using that(1) by simp
      then have "sh_timestamp s \<le> t \<or> of_int (wb_identifierStart b) < t" using Suc.prems that(2) by blast
      with 1 not show False by linarith
    next
      case 2
      then have "Some x \<in> set (rows h)" by (auto simp: List.map_filter_def)
      then have "sh_timestamp s \<le> sh_timestamp x" using o that by (auto simp: time_ordered_def)
      with 2 not show False by simp
    qed
  qed
  show ?case
  proof (cases "h = 0")
    case False
    show ?thesis
    proof (cases "?old \<le> of_int (wb_identifierStart b)")
      case True
      have "\<not> counts_for b m s" if "s \<in> set (shares_below rows n (h - 1))" for s
      proof -
        from shares_below_height [OF that] obtain h' where "h' \<le> h - 1" "Some s \<in> set (rows h')" by blast
        then have "sh_timestamp s \<le> ?old" using below [of h' s] True False by auto
        moreover have "of_int (wb_identifierStart b) < (of_int (wb_hashStart b) :: num)" using w by simp
        ultimately show ?thesis using True by (auto simp: counts_for_def)
      qed
      then show ?thesis using True False by (simp add: Let_def filter_empty_conv)
    next
      case False2: False
      have "filter (counts_for b m) (scanned b rows n (h - 1) ?old) = filter (counts_for b m) (shares_below rows n (h - 1))"
        by (rule Suc.IH) (use below False in auto)
      then show ?thesis using False False2 by (simp add: Let_def)
    qed
  qed (simp add: Let_def)
qed simp

lemma scan_summaries:
  assumes "time_ordered rows" "HASH_WINDOW_MS < now"
  shows "map_of (sn_minerStats (scanShareSnapshot mainPort (windowBounds now) rows height (emptySnapshot now))) m =
    optional_summary mainPort (filter (counts_for (windowBounds now) m) (shares_below rows 61 height))"
proof -
  let ?b = "windowBounds now"
  have w: "wb_identifierStart ?b < wb_hashStart ?b" "of_int (wb_identifierStart ?b) < (of_int (wb_currentTime ?b) :: num)"
    using assms(2) by (simp_all add: windowBounds_def HASH_WINDOW_MS_def IDENTIFIER_WINDOW_MS_def)
  have "emptySnapshot now = (emptySnapshot now)\<lparr>sn_minerStats := []\<rparr>" by (simp add: emptySnapshot_def Let_def)
  then have "map_of (sn_minerStats (fold (applyShareToSnapshot mainPort ?b) xs (emptySnapshot now))) m =
      optional_summary mainPort (filter (counts_for ?b m) xs)" for xs using fold_summary by metis
  moreover have "filter (counts_for ?b m) (scanned ?b rows 61 height (of_int (wb_currentTime ?b))) =
      filter (counts_for ?b m) (shares_below rows 61 height)"
    by (rule scanned_all [OF assms(1) w(1)]) (use w(2) in blast)
  ultimately show ?thesis by (simp add: scanShareSnapshot_def scan_scanned)
qed


subsection \<open>A cycle beside which nobody else writes\<close>

text \<open>No other process writes to the cache; write transactions of the cycle itself may fail.\<close>

definition quiet :: "stat_world \<Rightarrow> bool" where
  "quiet s \<longleftrightarrow> sw_others s = []"

text \<open>The cache once the batch that is being collected is written.\<close>

definition pend :: "stat_world \<Rightarrow> text_cache" where
  "pend s = putAll (sw_entries s) (sw_cache s)"

definition put_changed :: "text_cache \<Rightarrow> (string \<times> jsval) list \<Rightarrow> text_cache \<Rightarrow> text_cache" where
  "put_changed snap ws c = fold (\<lambda>(k, v) c. if snap k = Some (Some v) then c else c(k \<mapsto> Some v)) ws c"

text \<open>\<open>m\<close> queues the rows \<open>ws\<close>, against the texts of \<open>snap\<close>, unless a write transaction fails.\<close>

definition queues :: "text_cache \<Rightarrow> (string \<times> jsval) list \<Rightarrow> 'a stat_prog \<Rightarrow> bool" where
  "queues snap ws m \<longleftrightarrow> (\<forall>s r s'. quiet s \<longrightarrow> m s = (r, s') \<longrightarrow> quiet s' \<and> sw_commits s' = sw_commits s \<and>
     (case r of Inr x \<Rightarrow> pend s' = put_changed snap ws (pend s) | Inl e \<Rightarrow> \<exists>n. sw_commits s n = Some e))"

lemma queuesI:
  "(\<And>s r s'. quiet s \<Longrightarrow> m s = (r, s') \<Longrightarrow> quiet s' \<and> sw_commits s' = sw_commits s \<and>
     (case r of Inr x \<Rightarrow> pend s' = put_changed snap ws (pend s) | Inl e \<Rightarrow> \<exists>n. sw_commits s n = Some e)) \<Longrightarrow> queues snap ws m"
  unfolding queues_def by blast

lemma putAll_append: "putAll (es @ fs) c = putAll fs (putAll es c)"
  by (simp add: putAll_def)

lemma quiet_flush_entries:
  assumes "quiet s" "flushEntries s = (r, s')"
  shows "quiet s' \<and> sw_commits s' = sw_commits s \<and>
    (case r of Inr x \<Rightarrow> pend s' = pend s \<and> sw_cache s' = pend s | Inl e \<Rightarrow> \<exists>n. sw_commits s n = Some e)"
proof (cases "sw_entries s = []")
  case True
  then have "r = Inr ()" "s' = s" using assms(2) by (simp_all add: flushEntries_def)
  with True assms(1) show ?thesis by (simp add: pend_def putAll_def)
next
  case False
  let ?s = "s\<lparr>sw_entries := []\<rparr>"
  have i: "sw_interfere ?s = ?s" using assms(1) by (simp add: sw_interfere_def quiet_def)
  have run: "writeCacheBatch (sw_entries s) ?s = (r, s')" using assms(2) False by (simp add: flushEntries_def)
  show ?thesis
  proof (cases "sw_commits s (sw_flushes s)")
    case None
    then have "r = Inr ()" "s' = ?s\<lparr>sw_flushes := sw_flushes s + 1, sw_cache := putAll (sw_entries s) (sw_cache s)\<rparr>"
      using run by (simp_all add: writeCacheBatch_def i Let_def)
    with assms(1) show ?thesis by (simp add: quiet_def pend_def putAll_def)
  next
    case (Some e)
    then have "r = Inl e" "s' = ?s\<lparr>sw_flushes := sw_flushes s + 1\<rparr>"
      using run by (simp_all add: writeCacheBatch_def i Let_def)
    with assms(1) Some show ?thesis by (auto simp: quiet_def)
  qed
qed

lemma quiet_set:
  assumes "quiet s" "setSerialized k v s = (r, s')"
  shows "quiet s' \<and> sw_commits s' = sw_commits s \<and>
    (case r of Inr x \<Rightarrow> pend s' = (pend s)(k \<mapsto> Some v) | Inl e \<Rightarrow> \<exists>n. sw_commits s n = Some e)"
proof -
  let ?s = "s\<lparr>sw_entries := sw_entries s @ [(k, v)]\<rparr>"
  have q: "quiet ?s" "pend ?s = (pend s)(k \<mapsto> Some v)" using assms(1) by (simp_all add: quiet_def pend_def putAll_def)
  show ?thesis
  proof (cases "CACHE_WRITE_BATCH_SIZE \<le> length (sw_entries ?s)")
    case True
    then have "flushEntries ?s = (r, s')" using assms(2) by (simp add: setSerialized_def Let_def)
    with quiet_flush_entries [OF q(1) this] q(2) show ?thesis by (auto split: sum.splits)
  next
    case False
    then show ?thesis using assms(2) q by (auto simp: setSerialized_def Let_def)
  qed
qed

lemma queues_ret: "queues snap [] (ret x)"
  by (simp add: queues_def ret_def put_changed_def)

lemma queues_note: "queues snap [] (noteAlerts f)"
  by (simp add: queues_def noteAlerts_def modify_def put_changed_def quiet_def pend_def)

lemma put_changed_append: "put_changed snap (ws @ vs) c = put_changed snap vs (put_changed snap ws c)"
  by (simp add: put_changed_def)

lemma queues_then: "queues snap ws m \<Longrightarrow> (\<And>x. queues snap vs (f x)) \<Longrightarrow> queues snap (ws @ vs) (andThen m f)"
proof (rule queuesI)
  fix s r s' assume m: "queues snap ws m" and f: "\<And>x. queues snap vs (f x)" and q: "quiet s" and run: "andThen m f s = (r, s')"
  obtain r1 s1 where m1: "m s = (r1, s1)" by force
  note h = m [unfolded queues_def, rule_format, OF q m1]
  show "quiet s' \<and> sw_commits s' = sw_commits s \<and>
     (case r of Inr x \<Rightarrow> pend s' = put_changed snap (ws @ vs) (pend s) | Inl e \<Rightarrow> \<exists>n. sw_commits s n = Some e)"
  proof (cases r1)
    case (Inl e)
    with run m1 h show ?thesis by (auto simp: andThen_def)
  next
    case (Inr x)
    then have "f x s1 = (r, s')" using run m1 by (simp add: andThen_def)
    with f [of x, unfolded queues_def, rule_format, OF _ this] h Inr show ?thesis
      by (simp add: put_changed_append split: sum.splits)
  qed
qed

lemma queues_set: "queues snap [(k, v)] (setSerialized k v)" if "snap k \<noteq> Some (Some v)"
proof (rule queuesI)
  fix s r s' assume "quiet s" "setSerialized k v s = (r, s')"
  from quiet_set [OF this] show "quiet s' \<and> sw_commits s' = sw_commits s \<and>
     (case r of Inr x \<Rightarrow> pend s' = put_changed snap [(k, v)] (pend s) | Inl e \<Rightarrow> \<exists>n. sw_commits s n = Some e)"
    using that by (cases r) (simp_all add: put_changed_def)
qed

lemma queues_write: "queues snap [(k, v)] (queueCacheWriteIfChanged k v (snap k))"
proof (cases "snap k = Some (Some v)")
  case True
  then have "put_changed snap [(k, v)] c = put_changed snap [] c" for c by (simp add: put_changed_def)
  then have "queues snap [(k, v)] m = queues snap [] m" for m :: "bool stat_prog" unfolding queues_def by (simp only:)
  moreover have "queueCacheWriteIfChanged k v (snap k) = ret False" using True by (simp add: queueCacheWriteIfChanged_def)
  ultimately show ?thesis using queues_ret [of snap False] by (simp only:)
next
  case False
  then have "queues snap [(k, v)] (setSerialized k v)" by (rule queues_set)
  from queues_then [OF this queues_ret [of snap True]] False show ?thesis by (simp add: queueCacheWriteIfChanged_def)
qed

lemma queues_each: "(\<And>x. x \<in> set xs \<Longrightarrow> queues snap (w x) (f x)) \<Longrightarrow> queues snap (concat (map w xs)) (eachOf f xs)"
  by (induction xs) (auto intro: queues_ret queues_then)

lemma put_changed_none: "k \<notin> fst ` set ws \<Longrightarrow> put_changed snap ws c k = c k"
  by (induction ws arbitrary: c) (auto simp: put_changed_def)

lemma put_changed_all:
  "k \<in> fst ` set ws \<Longrightarrow> (\<And>v'. (k, v') \<in> set ws \<Longrightarrow> v' = v) \<Longrightarrow> put_changed snap ws snap k = Some (Some v)"
proof -
  have "k \<in> fst ` set ws \<or> c k = Some (Some v) \<Longrightarrow> (\<forall>v'. (k, v') \<in> set ws \<longrightarrow> v' = v) \<Longrightarrow>
      c k = snap k \<or> c k = Some (Some v) \<Longrightarrow> put_changed snap ws c k = Some (Some v)" for c
  proof (induction ws arbitrary: c)
    case (Cons w ws)
    obtain k' v' where w: "w = (k', v')" by force
    show ?case
    proof (cases "k' = k")
      case True
      then have "v' = v" using Cons.prems(2) w by simp
      then have "put_changed snap (w # ws) c = put_changed snap ws (if snap k = Some (Some v) then c else c(k \<mapsto> Some v))"
        by (simp add: put_changed_def w True)
      moreover have "put_changed snap ws (if snap k = Some (Some v) then c else c(k \<mapsto> Some v)) k = Some (Some v)"
        by (rule Cons.IH) (use Cons.prems in \<open>auto split: if_splits\<close>)
      ultimately show ?thesis by simp
    next
      case False
      then have "put_changed snap (w # ws) c = put_changed snap ws (if snap k' = Some (Some v') then c else c(k' \<mapsto> Some v'))"
        by (simp add: put_changed_def w)
      moreover have "put_changed snap ws (if snap k' = Some (Some v') then c else c(k' \<mapsto> Some v')) k = Some (Some v)"
        by (rule Cons.IH) (use Cons.prems False w in \<open>auto split: if_splits\<close>)
      ultimately show ?thesis by simp
    qed
  qed (simp add: put_changed_def)
  then show "k \<in> fst ` set ws \<Longrightarrow> (\<And>v'. (k, v') \<in> set ws \<Longrightarrow> v' = v) \<Longrightarrow> put_changed snap ws snap k = Some (Some v)" by blast
qed


subsection \<open>The rows of a cycle\<close>

definition tick_sample :: "int \<Rightarrow> miner_summary \<Rightarrow> jsval" where
  "tick_sample now su = JObj [(''ts'', JNum (of_int now)), (''hs'', JNum (rate (su_rawShares su))), (''hs2'', JNum (rate (su_shares2 su)))]"

definition env_layout :: "stat_env \<Rightarrow> history_layout" where
  "env_layout params = buildTierLayout (JNum (of_nat (normalizePositiveInteger (se_statsBufferLength params) 1)))
     (JNum (max 1 (normalizeFiniteNumber (js_Number (se_statsBufferHours params)) 1))) JUndef"

definition miner_writes :: "stat_env \<Rightarrow> int \<Rightarrow> bool \<Rightarrow> text_cache \<Rightarrow> string \<times> miner_summary \<Rightarrow> (string \<times> jsval) list" where
  "miner_writes params now tick c x =
     (stats_key (fst x), minerRow params (snd x)) #
     (if tick then [(history_key (fst x), appendHistorySample (parseCacheEntry (c (history_key (fst x)))) (env_layout params) (tick_sample now (snd x)))] else [])"

definition stale_writes :: "text_cache \<Rightarrow> string \<Rightarrow> (string \<times> jsval) list" where
  "stale_writes c m =
     (let st = parseCacheEntry (c (stats_key m)); d = parseCacheEntry (c m)
      in (if isRecord st then [(stats_key m, zeroRow st)] else []) @ (if isRecord d then [(m, assign ''hash'' (JNum 0) d)] else []))"

lemma queues_stale: "queues c (stale_writes c m) (clearStale now c m)"
proof -
  let ?st = "parseCacheEntry (c (stats_key m))" and ?d = "parseCacheEntry (c m)"
  have a: "queues c (if isRecord ?st then [(stats_key m, zeroRow ?st)] else [])
      (if isRecord ?st then queueCacheWriteIfChanged (stats_key m) (zeroRow ?st) (c (stats_key m)) else ret False)"
    by (simp add: queues_write queues_ret)
  have "queues c ([(m, assign ''hash'' (JNum 0) ?d)] @ [])
      (andThen (queueCacheWriteIfChanged m (assign ''hash'' (JNum 0) ?d) (c m)) (\<lambda>_. noteAlerts (noteStopped now m)))"
    by (rule queues_then [OF queues_write queues_note])
  then have "queues c (if isRecord ?d then [(m, assign ''hash'' (JNum 0) ?d)] else [])
      (if \<not> isRecord ?d then ret () else andThen (queueCacheWriteIfChanged m (assign ''hash'' (JNum 0) ?d) (c m)) (\<lambda>_. noteAlerts (noteStopped now m)))"
    by (simp add: queues_ret)
  from queues_then [OF a this] show ?thesis unfolding clearStale_def stale_writes_def Let_def .
qed

lemma queues_miner:
  "queues c (miner_writes params now tick c x) (case x of (miner, summary) \<Rightarrow>
     andThen (queueCacheWriteIfChanged (stats_key miner) (minerRow params summary) (c (stats_key miner))) (\<lambda>_.
     if \<not> tick then ret False
     else queueCacheWriteIfChanged (history_key miner)
            (appendHistorySample (parseCacheEntry (c (history_key miner))) (env_layout params)
               (JObj [(''ts'', JNum (of_int now)), (''hs'', JNum (rate (su_rawShares summary))), (''hs2'', JNum (rate (su_shares2 summary)))]))
            (c (history_key miner))))"
proof -
  have "queues c ([(k, v)] @ []) (andThen (queueCacheWriteIfChanged k v (c k)) (\<lambda>_. ret False))" for k v
    by (rule queues_then [OF queues_write queues_ret])
  moreover have "queues c ([(k, v)] @ [(k', v')]) (andThen (queueCacheWriteIfChanged k v (c k)) (\<lambda>_. queueCacheWriteIfChanged k' v' (c k')))" for k v k' v'
    by (rule queues_then [OF queues_write queues_write])
  ultimately show ?thesis by (cases x; cases tick) (simp_all add: miner_writes_def tick_sample_def)
qed

definition pool_keys :: "string set" where
  "pool_keys = {''pplns_stats'', ''global_stats'', ''port_hash'', ''portMinerCount'', ''minerSet''}"

text \<open>What a cycle queues, in order.\<close>

lemma cycle_queues:
  fixes c :: text_cache
  defines "stale \<equiv> \<lambda>sn previous. filter (\<lambda>m. m \<notin> set (activeMinerKeys (sn_minerStats sn))) previous"
  shows "\<exists>ps v1 v2. fst ` set ps \<subseteq> {''pplns_stats'', ''global_stats''} \<and> (\<forall>s r s'. quiet s \<longrightarrow>
    writeCaches params now tick sn c previous c s = (r, s') \<longrightarrow>
    (case r of Inl e \<Rightarrow> \<exists>n. sw_commits s n = Some e | Inr x \<Rightarrow> sw_cache s' = put_changed c
      (ps @ [(''port_hash'', v1)] @ concat (map (miner_writes params now tick c) (sn_minerStats sn)) @
       concat (map (stale_writes c) (stale sn previous)) @
       map (\<lambda>(a, ids). (identifiers_key a, mergedIdentifiers ids (c (identifiers_key a)))) (sn_identifiers sn) @
       [(''portMinerCount'', v2)] @ [(''minerSet'', setToCacheObject (activeMinerKeys (sn_minerStats sn)))]) (pend s)))"
proof -
  let ?miners = "sn_minerStats sn"
  let ?active = "activeMinerKeys ?miners" and ?accounts = "activeAccounts ?miners"
  define count where "count = \<lparr>pt_pplns = of_nat (length (filter (\<lambda>x. su_hasPplns (snd x)) ?accounts)), pt_global = of_nat (length ?accounts)\<rparr>"
  define n where "n = normalizePositiveInteger (se_statsBufferLength params) 1"
  define row where "row = (\<lambda>(key, total). poolRow (env_layout params) n now tick (rate (total (sn_localStats sn)))
      (total (sn_localTimes sn)) (total count) (parseCacheEntry (c key)))"
  define pools :: "(string \<times> (pool_totals \<Rightarrow> num)) list" where "pools = [(''pplns_stats'', pt_pplns), (''global_stats'', pt_global)]"
  define ps where "ps = concat (map (\<lambda>x. [(fst x, row x)]) pools)"
  have p: "queues c ps (queuePoolStats c (sn_localStats sn) (sn_localTimes sn) count now tick n (env_layout params))"
    unfolding queuePoolStats_def ps_def pools_def
    by (rule queues_each) (auto simp: row_def intro: queues_write)
  have m: "queues c (concat (map (miner_writes params now tick c) ?miners)) (queueMinerStats params ?miners c (env_layout params) now tick)"
    unfolding queueMinerStats_def by (rule queues_each) (rule queues_miner)
  have w: "queues c (concat (map (stale_writes c) (stale sn previous))) (updateWorkerTransitions ?active previous now c)"
  proof -
    have "queues c (concat (map (\<lambda>_. []) xs)) (eachOf (\<lambda>m. noteAlerts (noteStarted now m)) xs)" for xs
      by (rule queues_each) (rule queues_note)
    moreover have "concat (map (\<lambda>_. []) xs) = []" for xs :: "string list" by (induction xs) simp_all
    ultimately have "queues c [] (eachOf (\<lambda>m. noteAlerts (noteStarted now m)) xs)" for xs by metis
    from queues_then [OF queues_each [OF queues_stale] this] show ?thesis
      unfolding updateWorkerTransitions_def stale_def by simp
  qed
  define ident where "ident = (\<lambda>(a, ids). (identifiers_key a, mergedIdentifiers ids (c (identifiers_key a))))"
  have i: "queues c (map ident (sn_identifiers sn))
      (eachOf (\<lambda>(address, ids). queueCacheWriteIfChanged (identifiers_key address)
         (mergedIdentifiers ids (c (identifiers_key address))) (c (identifiers_key address))) (sn_identifiers sn))"
  proof -
    have "queues c (concat (map (\<lambda>x. [ident x]) (sn_identifiers sn)))
      (eachOf (\<lambda>(address, ids). queueCacheWriteIfChanged (identifiers_key address)
         (mergedIdentifiers ids (c (identifiers_key address))) (c (identifiers_key address))) (sn_identifiers sn))"
      by (rule queues_each) (auto simp: ident_def intro: queues_write)
    then show ?thesis by (simp only: concat_map_singleton)
  qed
  define v1 where "v1 = portObject (map (\<lambda>(p, x). (p, rate x)) (sn_portHashes sn))"
  define v2 where "v2 = portObject (portMinerCount ?accounts)"
  define body where "body = (\<lambda>k. andThen (queuePoolStats c (sn_localStats sn) (sn_localTimes sn) count now tick n (env_layout params)) (\<lambda>_.
         andThen (queueCacheWriteIfChanged ''port_hash'' v1 (c ''port_hash'')) (\<lambda>_.
         andThen (queueMinerStats params ?miners c (env_layout params) now tick) (\<lambda>_.
         andThen (updateWorkerTransitions ?active previous now c) (\<lambda>_.
         andThen (eachOf (\<lambda>(address, ids). queueCacheWriteIfChanged (identifiers_key address)
                    (mergedIdentifiers ids (c (identifiers_key address))) (c (identifiers_key address)))
                  (sn_identifiers sn)) (\<lambda>_.
         andThen (queueCacheWriteIfChanged ''portMinerCount'' v2 (c ''portMinerCount'')) (\<lambda>_.
         andThen (queueCacheWriteIfChanged ''minerSet'' (setToCacheObject ?active) (c ''minerSet'')) (\<lambda>_. (k :: unit stat_prog)))))))))"
  let ?ws = "ps @ [(''port_hash'', v1)] @ concat (map (miner_writes params now tick c) ?miners) @ concat (map (stale_writes c) (stale sn previous)) @
       map ident (sn_identifiers sn) @
       [(''portMinerCount'', v2)] @ [(''minerSet'', setToCacheObject ?active)]"
  have b: "queues c (?ws @ []) (body k)" if "queues c [] k" for k
    unfolding body_def append_assoc by (intro queues_then p m w i queues_write that)
  have assoc: "body flushEntries s = andThen (body (ret ())) (\<lambda>_. flushEntries) s" for s
    unfolding body_def andThen_def ret_def by (simp split: prod.split sum.split)
  have body: "writeCaches params now tick sn c previous c = body flushEntries"
    unfolding writeCaches_def Let_def body_def v1_def v2_def count_def n_def env_layout_def by simp
  have "case r of Inl e \<Rightarrow> \<exists>n. sw_commits s n = Some e | Inr x \<Rightarrow> sw_cache s' = put_changed c ?ws (pend s)"
    if q: "quiet s" and run: "body flushEntries s = (r, s')" for s r s'
  proof -
    obtain r1 s1 where s1: "body (ret ()) s = (r1, s1)" by force
    note h = b [OF queues_ret [of c "()"], unfolded queues_def, rule_format, OF q s1]
    show ?thesis
    proof (cases r1)
      case (Inl e)
      with run s1 h show ?thesis by (auto simp: assoc andThen_def)
    next
      case (Inr x)
      then have "flushEntries s1 = (r, s')" using run s1 by (simp add: assoc andThen_def)
      with quiet_flush_entries [OF _ this] h Inr show ?thesis by (auto split: sum.splits)
    qed
  qed
  moreover have "fst ` set ps \<subseteq> {''pplns_stats'', ''global_stats''}" by (auto simp: ps_def pools_def)
  ultimately show ?thesis
    unfolding body ident_def by blast
qed

end
