(* ===== verification/Worker_Properties.thy ===== *)
theory Worker_Properties
  imports Worker_Stats_Safety
begin

text \<open>The properties of the statistics worker.\<close>

subsection \<open>The rows a cycle leaves\<close>

definition cycle_scan :: "stat_env \<Rightarrow> (nat \<Rightarrow> stat_share option list) \<Rightarrow> int \<Rightarrow> nat \<Rightarrow> share_snapshot" where
  "cycle_scan params rows now height = scanShareSnapshot (se_mainPort params) (windowBounds now) rows height (emptySnapshot now)"

definition workers_known :: "text_cache \<Rightarrow> string list" where
  "workers_known c = cacheObjectToSet (parseCacheEntry (c ''minerSet''))"

definition stale_workers :: "share_snapshot \<Rightarrow> text_cache \<Rightarrow> string list" where
  "stale_workers sn c = filter (\<lambda>m. m \<notin> set (activeMinerKeys (sn_minerStats sn))) (workers_known c)"

definition cycle_rows ::
  "stat_env \<Rightarrow> int \<Rightarrow> bool \<Rightarrow> share_snapshot \<Rightarrow> text_cache \<Rightarrow> (string \<times> jsval) list \<Rightarrow> jsval \<Rightarrow> jsval \<Rightarrow> (string \<times> jsval) list" where
  "cycle_rows params now tick sn c ps v1 v2 =
     ps @ [(''port_hash'', v1)] @ concat (map (miner_writes params now tick c) (sn_minerStats sn)) @
       concat (map (stale_writes c) (stale_workers sn c)) @
       map (\<lambda>(a, ids). (identifiers_key a, mergedIdentifiers ids (c (identifiers_key a)))) (sn_identifiers sn) @
       [(''portMinerCount'', v2)] @ [(''minerSet'', setToCacheObject (activeMinerKeys (sn_minerStats sn)))]"

text \<open>
  What a cycle answers to a write transaction that failed: the rest of the batch is given up,
  and the worker pauses if the store is full and mails the operator otherwise.
\<close>

definition write_failed :: "stat_env \<Rightarrow> stat_world \<Rightarrow> stat_world \<Rightarrow> bool" where
  "write_failed params s s' \<longleftrightarrow> (\<exists>n e. sw_commits s n = Some e \<and> sw_entries s' = [] \<and>
     (if se_mapFull params e then sw_lmdbFailStop s' \<and> \<not> sw_started s' else ''workerDbWrite'' \<in> set (sw_adminMails s')))"

text \<open>A cycle that writes at all leaves the rows of \<open>cycle_rows\<close> or reports a failed write; one that is skipped writes nothing.\<close>

lemma quiet_cycle:
  fixes s :: stat_world
  defines "c \<equiv> sw_cache s"
  assumes "quiet s"
  shows "(\<exists>s'. activeMinerKeys (sn_minerStats (cycle_scan params rows now height)) = [] \<and>
        updateShareStats2 params rows now height s = (Inr False, s') \<and> sw_cache s' = c) \<or>
    (\<exists>tick ps v1 v2 s'. fst ` set ps \<subseteq> {''pplns_stats'', ''global_stats''} \<and>
        updateShareStats2 params rows now height s = (Inr True, s') \<and>
        sw_cache s' = put_changed c (cycle_rows params now tick (cycle_scan params rows now height) c ps v1 v2) c) \<or>
    (\<exists>s'. updateShareStats2 params rows now height s = (Inr False, s') \<and> write_failed params s s')"
proof -
  let ?sn = "cycle_scan params rows now height"
  let ?active = "activeMinerKeys (sn_minerStats ?sn)"
  obtain tick nxt where t: "shouldRunHistoryTick now (sw_nextHistoryAt s) = (tick, nxt)" by force
  let ?s = "s\<lparr>sw_nextHistoryAt := nxt, sw_entries := []\<rparr>"
  let ?previous = "if workers_known c = [] then ?active else workers_known c"
  have q: "quiet ?s" and i: "sw_interfere ?s = ?s" and p: "pend ?s = c" and u: "sw_cache ?s = c"
    using assms by (simp_all add: quiet_def sw_interfere_def pend_def putAll_def)
  have stale: "filter (\<lambda>m. m \<notin> set ?active) ?previous = stale_workers ?sn c"
    by (auto simp: stale_workers_def filter_empty_conv)
  obtain r s1 where run: "writeCaches params now tick ?sn c ?previous c ?s = (r, s1)" by force
  obtain ps v1 v2 where ps: "fst ` set ps \<subseteq> {''pplns_stats'', ''global_stats''}"
    and w: "case r of Inl e \<Rightarrow> \<exists>n. sw_commits ?s n = Some e
      | Inr x \<Rightarrow> sw_cache s1 = put_changed c (cycle_rows params now tick ?sn c ps v1 v2) (pend ?s)"
    using cycle_queues [of params now tick ?sn c ?previous] q run unfolding stale cycle_rows_def by blast
  define skip where "skip \<longleftrightarrow> ?active = [] \<and> countIdentifiers (sn_identifiers ?sn) = 0 \<and> ?previous \<noteq> [] \<and>
    sw_lastShareStatsHeight s \<noteq> 0 \<and> int height + 100 < sw_lastShareStatsHeight s"
  have alert: "sw_cache (alertPoolStateChange a b d x) = sw_cache x" for a b d x
    by (simp add: alertPoolStateChange_def Let_def)
  have e: "updateShareStats2 params rows now height s =
      (if skip then (Inr False, ?s\<lparr>sw_adminMails := sw_adminMails s @ [''ignored stale empty share scan'']\<rparr>)
       else case r of
         Inl e \<Rightarrow> (Inr False, snd (failWorkerCacheWrite params e s1))
       | Inr x \<Rightarrow> (Inr True, alertPoolStateChange now (rate (pt_global (sn_localStats ?sn))) (of_nat (countIdentifiers (sn_identifiers ?sn)))
              (if sw_lastShareStatsHeight s1 < int height then s1\<lparr>sw_lastShareStatsHeight := int height\<rparr> else s1)))"
  proof -
    have rd: "readCacheSnapshot ?s = (Inr c, ?s)" by (simp add: readCacheSnapshot_def i u)
    have "writeStats params now height tick sn c previous ?s =
        (if activeMinerKeys (sn_minerStats sn) = [] \<and> countIdentifiers (sn_identifiers sn) = 0 \<and> previous \<noteq> [] \<and>
            sw_lastShareStatsHeight s \<noteq> 0 \<and> int height + 100 < sw_lastShareStatsHeight s
         then (Inr False, ?s\<lparr>sw_adminMails := sw_adminMails s @ [''ignored stale empty share scan'']\<rparr>)
         else case r of
           Inl e \<Rightarrow> (Inr False, snd (failWorkerCacheWrite params e s1))
         | Inr x \<Rightarrow> (Inr True, alertPoolStateChange now (rate (pt_global (sn_localStats sn))) (of_nat (countIdentifiers (sn_identifiers sn)))
              (if sw_lastShareStatsHeight s1 < int height then s1\<lparr>sw_lastShareStatsHeight := int height\<rparr> else s1)))"
      if "writeCaches params now tick sn c previous c ?s = (r, s1)" for sn previous
      using that by (cases r) (simp_all add: writeStats_def failWorkerCacheWrite_def prog_defs rd Let_def)
    note written = this [OF run]
    have "updateShareStats2 params rows now height s = writeStats params now height tick ?sn c ?previous ?s"
      by (simp add: updateShareStats2_def andThen_def t rd Let_def workers_known_def cycle_scan_def)
    with written show ?thesis unfolding skip_def by (rule trans [rotated])
  qed
  show ?thesis
  proof (cases skip)
    case True
    then show ?thesis using e u by (intro disjI1) (simp add: skip_def)
  next
    case False
    show ?thesis
    proof (cases r)
      case (Inr x)
      then have "updateShareStats2 params rows now height s = (Inr True, snd (updateShareStats2 params rows now height s))"
        "sw_cache (snd (updateShareStats2 params rows now height s)) = put_changed c (cycle_rows params now tick ?sn c ps v1 v2) c"
        using e False w p by (simp_all add: alert)
      with ps show ?thesis by blast
    next
      case (Inl err)
      with w obtain n where "sw_commits s n = Some err" by auto
      then have "write_failed params s (snd (failWorkerCacheWrite params err s1))"
        by (auto simp: write_failed_def failWorkerCacheWrite_def modify_def intro!: exI [of _ n])
      with e False Inl show ?thesis by auto
    qed
  qed
qed

subsection \<open>Who has a row, and what it says\<close>

lemma cycle_summary:
  "\<exists>shares. map_of (sn_minerStats (cycle_scan params rows now height)) m =
      optional_summary (se_mainPort params) (filter (counts_for (windowBounds now) m) shares) \<and> (\<forall>x \<in> set shares. \<exists>h. Some x \<in> set (rows h))"
proof -
  let ?b = "windowBounds now"
  let ?xs = "scanned ?b rows 61 height (of_int (wb_currentTime ?b))"
  have sub: "x \<in> set (scanned b rows n h t) \<Longrightarrow> \<exists>h. Some x \<in> set (rows h)" for b n h t and x :: stat_share
    by (induction b rows n h t rule: scanned.induct) (auto simp: Let_def List.map_filter_def split: if_splits)
  have "emptySnapshot now = (emptySnapshot now)\<lparr>sn_minerStats := []\<rparr>" by (simp add: emptySnapshot_def Let_def)
  then have "map_of (sn_minerStats (cycle_scan params rows now height)) m = optional_summary (se_mainPort params) (filter (counts_for ?b m) ?xs)"
    unfolding cycle_scan_def scanShareSnapshot_def scan_scanned using fold_summary by metis
  then show ?thesis using sub by blast
qed

lemma distinct_miners: "distinct (map fst (sn_minerStats (cycle_scan params rows now height)))"
proof -
  have one: "distinct (map fst (sn_minerStats (applyShareToSnapshot p b x sn)))" if "distinct (map fst (sn_minerStats sn))" for p b x sn
    using that by (simp add: applyShareToSnapshot_def Let_def mergeMinerSummary_def distinct_update)
  have "distinct (map fst (sn_minerStats (fold (applyShareToSnapshot p b) xs sn)))" if "distinct (map fst (sn_minerStats sn))" for p b xs sn
    using that by (induction xs arbitrary: sn) (simp_all add: one)
  then show ?thesis unfolding cycle_scan_def scanShareSnapshot_def scan_scanned by (simp add: emptySnapshot_def Let_def)
qed

lemma active_iff: "m \<in> set (activeMinerKeys xs) \<longleftrightarrow> (\<exists>su. (m, su) \<in> set xs \<and> su_shares2 su \<noteq> 0)"
  by (force simp: activeMinerKeys_def)

lemma stats_rows:
  assumes "fst ` set ps \<subseteq> {''pplns_stats'', ''global_stats''}" "stats_key m \<notin> set (workers_known c)"
  shows "(stats_key m, v) \<in> set (cycle_rows params now tick sn c ps v1 v2) \<longleftrightarrow>
    (\<exists>su. (m, su) \<in> set (sn_minerStats sn) \<and> v = minerRow params su) \<or>
    m \<in> set (stale_workers sn c) \<and> isRecord (parseCacheEntry (c (stats_key m))) \<and> v = zeroRow (parseCacheEntry (c (stats_key m)))"
proof -
  have "(stats_key m, v) \<notin> set ps" using assms(1) by (force simp: stats_key_def)
  moreover have "stats_key m \<notin> set (stale_workers sn c)" using assms(2) by (simp add: stale_workers_def)
  ultimately show ?thesis
    unfolding cycle_rows_def
    by (force simp: miner_writes_def stale_writes_def Let_def stats_key_def history_key_def identifiers_key_def split: if_splits)
qed

lemma written_row:
  assumes "fst ` set ps \<subseteq> {''pplns_stats'', ''global_stats''}" "stats_key m \<notin> set (workers_known c)"
    "map_of (sn_minerStats (cycle_scan params rows now height)) m = Some su" "su_shares2 su \<noteq> 0"
  shows "put_changed c (cycle_rows params now tick (cycle_scan params rows now height) c ps v1 v2) c (stats_key m) = Some (Some (minerRow params su))"
proof -
  let ?sn = "cycle_scan params rows now height"
  have su: "(m, su') \<in> set (sn_minerStats ?sn) \<longleftrightarrow> su' = su" for su'
    using map_of_SomeD [OF assms(3)] by (auto dest: eq_key_imp_eq_value [OF distinct_miners])
  then have "m \<in> set (activeMinerKeys (sn_minerStats ?sn))" using assms(4) by (simp add: active_iff)
  then have "(stats_key m, v) \<in> set (cycle_rows params now tick ?sn c ps v1 v2) \<longleftrightarrow> v = minerRow params su" for v
    unfolding stats_rows [OF assms(1,2)] by (auto simp: su stale_workers_def)
  then show ?thesis by (intro put_changed_all) (force simp: image_iff)+
qed

text \<open>C32. A cycle beside which nobody else writes to the cache shows every miner its rate, or
  reports that it could not write. If the shares of the last ten minutes of a miner or worker, over
  the sixty-one heights that are scanned, do not sum up to nothing, then either its row afterwards
  has the sums of their raw and weighted shares by the second, the time of the last of them, and
  the algorithm of the port it came from; or one of the cycle's own write transactions failed,
  the cycle returns without success, and the worker has paused or mailed the operator. The rows
  are ordered in time by height, and no worker in \<open>minerSet\<close> is named like the row.\<close>

theorem miner_rates:
  assumes "quiet s" and "time_ordered rows" and "HASH_WINDOW_MS < now" and "stats_key m \<notin> set (workers_known (sw_cache s))"
    and xs: "filter (counts_for (windowBounds now) m) (shares_below rows 61 height) = xs"
    and some: "xs \<noteq> []" "su_shares2 (summary_of (se_mainPort params) xs) \<noteq> 0"
  shows "\<exists>s'. updateShareStats2 params rows now height s = (Inr True, s') \<and>
      sw_cache s' (stats_key m) = Some (Some (minerRow params (summary_of (se_mainPort params) xs))) \<or>
    updateShareStats2 params rows now height s = (Inr False, s') \<and> write_failed params s s'"
proof -
  let ?sn = "cycle_scan params rows now height" and ?su = "summary_of (se_mainPort params) xs"
  have su: "map_of (sn_minerStats ?sn) m = Some ?su"
    using scan_summaries [OF assms(2,3)] some(1) unfolding cycle_scan_def by (simp add: xs optional_summary_def)
  then have "m \<in> set (activeMinerKeys (sn_minerStats ?sn))" using some(2) map_of_SomeD active_iff by fast
  then have "activeMinerKeys (sn_minerStats ?sn) \<noteq> []" by auto
  with quiet_cycle [OF assms(1), of params rows now height] written_row [OF _ assms(4) su some(2)] show ?thesis by metis
qed

subsection \<open>A rate has an owner\<close>

definition shows_rate :: "jsval \<Rightarrow> bool" where
  "shows_rate v \<longleftrightarrow> truthy (getf v ''hash'') \<or> truthy (getf v ''hash2'')"

text \<open>Whose row shows a rate is in \<open>minerSet\<close>; nobody in it is named like a row.\<close>

definition reserved :: "string \<Rightarrow> bool" where
  "reserved n \<longleftrightarrow> n = ''minerSet'' \<or> (\<exists>m. n = stats_key m)"

definition rates_owned :: "text_cache \<Rightarrow> bool" where
  "rates_owned c \<longleftrightarrow> (\<forall>n \<in> set (workers_known c). \<not> reserved n) \<and>
     (\<forall>m v. c (stats_key m) = Some (Some v) \<longrightarrow> shows_rate v \<longrightarrow> m \<in> set (workers_known c))"

definition good_rows :: "(nat \<Rightarrow> stat_share option list) \<Rightarrow> bool" where
  "good_rows rows \<longleftrightarrow> (\<forall>h x. Some x \<in> set (rows h) \<longrightarrow> 0 \<le> shares2Of x \<and> (\<forall>m \<in> minerKeys x. \<not> reserved m))"

lemma sum_positive:
  "(\<forall>x \<in> set xs. 0 < f x) \<Longrightarrow> 0 \<le> a \<Longrightarrow> 0 < a \<or> xs \<noteq> [] \<Longrightarrow> 0 < foldl (\<lambda>a x. fl (a + f x)) a xs"
proof (induction xs arbitrary: a)
  case (Cons x xs)
  then have "0 < fl (a + f x)" by (simp add: add_nonneg_pos)
  then have "0 < foldl (\<lambda>a x. fl (a + f x)) (fl (a + f x)) xs" using Cons by (intro Cons.IH) auto
  then show ?case by simp
qed simp

lemma cycle_entry:
  assumes "good_rows rows" "(m, su) \<in> set (sn_minerStats (cycle_scan params rows now height))"
  shows "0 < su_shares2 su" "\<not> reserved m"
proof -
  obtain shares where sh: "map_of (sn_minerStats (cycle_scan params rows now height)) m =
      optional_summary (se_mainPort params) (filter (counts_for (windowBounds now) m) shares)" "\<forall>x \<in> set shares. \<exists>h. Some x \<in> set (rows h)"
    using cycle_summary by blast
  let ?xs = "filter (counts_for (windowBounds now) m) shares"
  have "map_of (sn_minerStats (cycle_scan params rows now height)) m = Some su"
    using assms(2) distinct_miners by (simp add: map_of_eq_Some_iff)
  then have su: "?xs \<noteq> []" "su = summary_of (se_mainPort params) ?xs"
    using sh(1) by (auto simp: optional_summary_def split: if_splits)
  have pos: "0 < shares2Of x \<and> \<not> reserved m" if "x \<in> set ?xs" for x
    using that sh(2) assms(1) unfolding good_rows_def by (auto simp: counts_for_def less_le)
  then show "0 < su_shares2 su" using su by (simp add: summary_of_def sum_positive)
  from su(1) obtain x where "x \<in> set ?xs" by (cases ?xs) auto
  with pos show "\<not> reserved m" by blast
qed

lemma zero_row_rate: "\<not> shows_rate (zeroRow v)"
  by (cases v) (simp_all add: shows_rate_def zeroRow_def update_conv')

lemma rate_record: "shows_rate v \<Longrightarrow> isRecord v"
  by (cases v) (auto simp: shows_rate_def split: if_splits)

lemma known_after:
  "fst ` set ps \<subseteq> {''pplns_stats'', ''global_stats''} \<Longrightarrow> ''minerSet'' \<notin> set (workers_known c) \<Longrightarrow>
   set (workers_known (put_changed c (cycle_rows params now tick sn c ps v1 v2) c)) = set (activeMinerKeys (sn_minerStats sn))"
proof -
  assume a: "fst ` set ps \<subseteq> {''pplns_stats'', ''global_stats''}" "''minerSet'' \<notin> set (workers_known c)"
  have "(''minerSet'', v) \<notin> set ps" for v using a(1) by force
  moreover have "''minerSet'' \<notin> set (stale_workers sn c)" using a(2) by (simp add: stale_workers_def)
  ultimately have "(''minerSet'', v) \<in> set (cycle_rows params now tick sn c ps v1 v2) \<longleftrightarrow> v = setToCacheObject (activeMinerKeys (sn_minerStats sn))" for v
    unfolding cycle_rows_def
    by (force simp: miner_writes_def stale_writes_def Let_def stats_key_def history_key_def identifiers_key_def split: if_splits)
  then have "put_changed c (cycle_rows params now tick sn c ps v1 v2) c ''minerSet'' = Some (Some (setToCacheObject (activeMinerKeys (sn_minerStats sn))))"
    by (intro put_changed_all) (force simp: image_iff)+
  then show ?thesis by (simp add: workers_known_def parseCacheEntry_def cacheObjectToSet_def setToCacheObject_def comp_def)
qed

text \<open>C33. Rates do not linger: the row of a miner or worker that shows a hash rate has its owner in
  \<open>minerSet\<close>, so that the cycle after it stops hashing sets it to zero. Every cycle beside which
  nobody else writes to the cache keeps this, also one that passes an empty scan over, unless one
  of its own write transactions fails and it reports so: \<open>minerSet\<close> is written last, and rows of
  an earlier batch may be in the cache by then without their owners.\<close>

theorem rates_have_owners:
  assumes "quiet s" and "good_rows rows" and "rates_owned (sw_cache s)"
  shows "rates_owned (sw_cache (snd (updateShareStats2 params rows now height s))) \<or>
    fst (updateShareStats2 params rows now height s) = Inr False \<and>
    write_failed params s (snd (updateShareStats2 params rows now height s))"
proof -
  let ?c = "sw_cache s" and ?sn = "cycle_scan params rows now height"
  have plain: "\<not> reserved n" if "n \<in> set (workers_known ?c)" for n
    using assms(3) that by (simp add: rates_owned_def)
  have names: "''minerSet'' \<notin> set (workers_known ?c)" "stats_key m \<notin> set (workers_known ?c)" for m
    using plain by (auto simp: reserved_def)
  consider s' where "updateShareStats2 params rows now height s = (Inr False, s')" "sw_cache s' = ?c"
    | tick ps v1 v2 s' where "fst ` set ps \<subseteq> {''pplns_stats'', ''global_stats''}" "updateShareStats2 params rows now height s = (Inr True, s')"
        "sw_cache s' = put_changed ?c (cycle_rows params now tick ?sn ?c ps v1 v2) ?c"
    | s' where "updateShareStats2 params rows now height s = (Inr False, s')" "write_failed params s s'"
    using quiet_cycle [OF assms(1)] by blast
  then show ?thesis
  proof cases
    case 1
    with assms(3) show ?thesis by simp
  next
    case 3
    then show ?thesis by simp
  next
    case 2
    let ?ws = "cycle_rows params now tick ?sn ?c ps v1 v2"
    have known: "set (workers_known (put_changed ?c ?ws ?c)) = set (activeMinerKeys (sn_minerStats ?sn))"
      by (rule known_after [OF 2(1) names(1)])
    have "m \<in> set (activeMinerKeys (sn_minerStats ?sn))"
      if v: "put_changed ?c ?ws ?c (stats_key m) = Some (Some v)" "shows_rate v" for m v
    proof (rule ccontr)
      assume inactive: "m \<notin> set (activeMinerKeys (sn_minerStats ?sn))"
      then have "(m, su) \<notin> set (sn_minerStats ?sn)" for su
        using cycle_entry(1) [OF assms(2)] by (force simp: active_iff)
      then have row: "(stats_key m, w) \<in> set ?ws \<longleftrightarrow> m \<in> set (stale_workers ?sn ?c) \<and>
          isRecord (parseCacheEntry (?c (stats_key m))) \<and> w = zeroRow (parseCacheEntry (?c (stats_key m)))" for w
        unfolding stats_rows [OF 2(1) names(2)] by blast
      show False
      proof (cases "stats_key m \<in> fst ` set ?ws")
        case True
        then have "put_changed ?c ?ws ?c (stats_key m) = Some (Some (zeroRow (parseCacheEntry (?c (stats_key m)))))"
          by (intro put_changed_all) (auto simp: row)
        with v zero_row_rate show False by auto
      next
        case False
        then have c: "?c (stats_key m) = Some (Some v)" using put_changed_none v(1) by metis
        then have "m \<in> set (workers_known ?c)" using assms(3) v(2) by (auto simp: rates_owned_def)
        then have "m \<in> set (stale_workers ?sn ?c)" using inactive by (simp add: stale_workers_def)
        then have "(stats_key m, zeroRow v) \<in> set ?ws" using c rate_record [OF v(2)] by (simp add: row parseCacheEntry_def)
        with False show False by force
      qed
    qed
    moreover have "\<not> reserved n" if "n \<in> set (activeMinerKeys (sn_minerStats ?sn))" for n
      using that cycle_entry(2) [OF assms(2)] unfolding active_iff by blast
    moreover have "sw_cache (snd (updateShareStats2 params rows now height s)) = put_changed ?c ?ws ?c" using 2(2,3) by simp
    ultimately show ?thesis by (simp add: rates_owned_def known)
  qed
qed

subsection \<open>History ticks\<close>

fun ticks :: "int \<Rightarrow> int list \<Rightarrow> nat" where
  "ticks next [] = 0"
| "ticks next (t # ts) = (let (tick, next') = shouldRunHistoryTick t next in (if tick then 1 else 0) + ticks next' ts)"

lemma catch_up: "next \<le> now \<Longrightarrow> now < catchUp now next \<and> catchUp now next \<le> now + HISTORY_INTERVAL_MS \<and>
    next + HISTORY_INTERVAL_MS \<le> catchUp now next"
proof (induction now "next" rule: catchUp.induct)
  case (1 now nx)
  show ?case
  proof (cases "nx + HISTORY_INTERVAL_MS \<le> now")
    case True
    with 1(1) [OF refl True] show ?thesis by (simp add: catchUp.simps [of now nx] HISTORY_INTERVAL_MS_def)
  next
    case False
    with 1(2) show ?thesis by (simp add: catchUp.simps [of now nx] HISTORY_INTERVAL_MS_def)
  qed
qed

lemma ticks_after:
  "0 < next \<Longrightarrow> (\<forall>t \<in> set ts. t \<le> until) \<Longrightarrow>
   int (ticks next ts) * HISTORY_INTERVAL_MS \<le> max 0 (until - next + HISTORY_INTERVAL_MS)"
proof (induction ts arbitrary: "next")
  case (Cons t ts)
  show ?case
  proof (cases "t < next")
    case True
    then show ?thesis using Cons.IH [OF Cons.prems(1)] Cons.prems by (simp add: shouldRunHistoryTick_def)
  next
    case False
    let ?n = "catchUp t next"
    have n: "next + HISTORY_INTERVAL_MS \<le> ?n" using catch_up [of "next" t] False by simp
    have "int (ticks ?n ts) * HISTORY_INTERVAL_MS \<le> max 0 (until - ?n + HISTORY_INTERVAL_MS)"
      using Cons.prems n by (intro Cons.IH) (auto simp: HISTORY_INTERVAL_MS_def)
    moreover have "ticks next (t # ts) = Suc (ticks ?n ts)" using Cons.prems(1) False by (simp add: shouldRunHistoryTick_def)
    ultimately show ?thesis using n False Cons.prems
      by (simp del: ticks.simps add: HISTORY_INTERVAL_MS_def max_def split: if_splits)
  qed
qed (simp add: HISTORY_INTERVAL_MS_def)

text \<open>The histories get at most one sample in two minutes: of any cycles run between \<open>now\<close> and
  \<open>until\<close>, whatever their times, the ticks are at most one more than the intervals between the two;
  and a tick sets the next one to a time that is to come, at most one interval ahead.\<close>

theorem ticks_spaced:
  assumes "0 < now" and "\<forall>t \<in> set ts. t \<le> until" and "now \<le> until"
  shows "int (ticks 0 (now # ts)) \<le> 1 + (until - now) div HISTORY_INTERVAL_MS \<and>
    (0 \<le> nextAt \<and> fst (shouldRunHistoryTick now nextAt) \<longrightarrow>
      now < snd (shouldRunHistoryTick now nextAt) \<and> snd (shouldRunHistoryTick now nextAt) \<le> now + HISTORY_INTERVAL_MS)"
proof -
  have "int (ticks (now + HISTORY_INTERVAL_MS) ts) * HISTORY_INTERVAL_MS \<le> max 0 (until - (now + HISTORY_INTERVAL_MS) + HISTORY_INTERVAL_MS)"
    using assms by (intro ticks_after) (auto simp: HISTORY_INTERVAL_MS_def)
  then have "int (ticks (now + HISTORY_INTERVAL_MS) ts) \<le> (until - now) div HISTORY_INTERVAL_MS"
    using assms(3) unfolding HISTORY_INTERVAL_MS_def by linarith
  moreover have "now < snd (shouldRunHistoryTick now nextAt) \<and> snd (shouldRunHistoryTick now nextAt) \<le> now + HISTORY_INTERVAL_MS"
    if "fst (shouldRunHistoryTick now nextAt)"
    using that catch_up [of nextAt now] by (auto simp: shouldRunHistoryTick_def HISTORY_INTERVAL_MS_def split: if_splits)
  ultimately show ?thesis by (simp add: shouldRunHistoryTick_def)
qed

lemma ticks_spaced_witness:
  "int (ticks 0 (1000 # [21000, 130000, 400000])) \<le> 1 + (400000 - 1000) div HISTORY_INTERVAL_MS \<and>
   (0 \<le> (5::int) \<and> fst (shouldRunHistoryTick 1000 5) \<longrightarrow>
      1000 < snd (shouldRunHistoryTick 1000 5) \<and> snd (shouldRunHistoryTick 1000 5) \<le> 1000 + HISTORY_INTERVAL_MS)"
  by (rule ticks_spaced) simp_all

subsection \<open>Mails about workers\<close>

text \<open>
  Everything the worker module does: a cycle, whatever its header, its rows and its time, the
  start, the timers and replies in any order, the pruning; and other processes write to the cache
  and let transactions fail.
\<close>

inductive stat_step :: "stat_env \<Rightarrow> stat_world \<Rightarrow> stat_world \<Rightarrow> bool" for params where
  cycle: "stat_step params s (snd (updateShareStats params rows now err body s))"
| boot: "stat_step params s (startWorker s)"
| timer: "alert_timers (sw_alerts s) = ts @ t # us \<Longrightarrow>
    stat_step params s (s\<lparr>sw_alerts := fire now t ((sw_alerts s)\<lparr>alert_timers := ts @ us\<rparr>)\<rparr>)"
| replied: "alert_lookups (sw_alerts s) = ls @ (address, n) # ms \<Longrightarrow>
    stat_step params s (s\<lparr>sw_alerts := onEmail now reply address n ((sw_alerts s)\<lparr>alert_lookups := ls @ ms\<rparr>)\<rparr>)"
| pruned: "stat_step params s (s\<lparr>sw_alerts := pruneTransientState now (sw_alerts s)\<rparr>)"
| others: "stat_step params s (s\<lparr>sw_cache := c, sw_others := fs, sw_commits := g\<rparr>)"

inductive stat_reach :: "stat_env \<Rightarrow> stat_world \<Rightarrow> bool" for params where
  start: "sw_alerts s = no_alerts \<Longrightarrow> stat_reach params s"
| step: "stat_reach params s \<Longrightarrow> stat_step params s s' \<Longrightarrow> stat_reach params s'"

abbreviation sound :: "stat_world \<Rightarrow> bool" where
  "sound s \<equiv> alert_reach (sw_alerts s)"

lemma keeps_others: "(\<And>s. sw_alerts (snd (m s)) = sw_alerts s) \<Longrightarrow> keeps sound m"
  by (simp add: triple_def)

lemma flush_alerts: "sw_alerts (snd (flushEntries s)) = sw_alerts s"
proof -
  have "sw_alerts (sw_interfere s) = sw_alerts s" for s by (simp add: sw_interfere_def split: list.split)
  then show ?thesis by (simp add: flushEntries_def writeCacheBatch_def Let_def split: option.split)
qed

lemma each_sound: "(\<And>x. x \<in> set xs \<Longrightarrow> keeps sound (f x)) \<Longrightarrow> keeps sound (eachOf f xs)"
  by (induction xs) (auto intro: triple_ret triple_andThen)

lemma note_sound: "(\<And>a. alert_step a (f a)) \<Longrightarrow> keeps sound (noteAlerts f)"
  by (auto simp: noteAlerts_def modify_def triple_def intro: alert_reach.step)

lemma ret_sound: "keeps sound (ret x)"
  by (rule triple_ret)

lemma then_sound: "keeps sound m \<Longrightarrow> (\<And>x. keeps sound (f x)) \<Longrightarrow> keeps sound (andThen m f)"
  by (rule triple_andThen) auto

lemma write_sound: "keeps sound (queueCacheWriteIfChanged k v raw)"
proof -
  have "keeps sound (setSerialized k v)" by (rule keeps_others) (simp add: setSerialized_def Let_def flush_alerts)
  then show ?thesis unfolding queueCacheWriteIfChanged_def by (auto intro: ret_sound then_sound)
qed

lemmas sound_intros = write_sound each_sound ret_sound then_sound

lemma caches_sound: "keeps sound (writeCaches params now tick sn base previous extra)"
proof -
  have "keeps sound flushEntries" by (rule keeps_others) (rule flush_alerts)
  moreover have "keeps sound (updateWorkerTransitions active previous now extra)" for active
    unfolding updateWorkerTransitions_def clearStale_def Let_def
    by (auto intro!: sound_intros note_sound alert_step.intros)
  moreover have "keeps sound (queuePoolStats base a b d now tick n layout)" for a b d n layout
    unfolding queuePoolStats_def by (auto intro!: sound_intros)
  moreover have "keeps sound (queueMinerStats params miners extra layout now tick)" for miners layout
    unfolding queueMinerStats_def by (auto intro!: sound_intros)
  ultimately show ?thesis unfolding writeCaches_def Let_def by (auto intro!: sound_intros)
qed

lemma cycle_sound: "keeps sound (updateShareStats params rows now err body)"
proof -
  have other: "keeps sound (gets f)" "(\<And>s. sw_alerts (g s) = sw_alerts s) \<Longrightarrow> keeps sound (modify g)" for f g
    by (auto intro!: keeps_others simp: gets_def modify_def)
  have rd: "keeps sound readCacheSnapshot"
    by (rule keeps_others) (simp add: readCacheSnapshot_def sw_interfere_def Let_def split: list.split)
  have fail: "keeps sound (failWorkerCacheWrite params e)" for e
    unfolding failWorkerCacheWrite_def by (rule other(2)) simp
  have state: "keeps sound (modify (\<lambda>s. alertPoolStateChange now a b (if sw_lastShareStatsHeight s < h then s\<lparr>sw_lastShareStatsHeight := h\<rparr> else s)))" for a b h
    by (rule other(2)) (simp add: alertPoolStateChange_def Let_def)
  have stats: "keeps sound (writeStats params now height tick sn base previous)" for height tick sn base previous
    unfolding writeStats_def Let_def
    by (auto intro!: then_sound ret_sound other rd fail state caches_sound triple_try_catch)
  have due: "keeps sound (\<lambda>s. let (tick, nxt) = shouldRunHistoryTick now (sw_nextHistoryAt s)
                         in (Inr tick, s\<lparr>sw_nextHistoryAt := nxt, sw_entries := []\<rparr>))"
    by (rule keeps_others) (simp add: Let_def split: prod.split)
  have "keeps sound (updateShareStats2 params rows now height)" for height
    unfolding updateShareStats2_def Let_def [of "scanShareSnapshot a b c d e" for a b c d e] Let_def [of "cacheObjectToSet a" for a]
    by (intro then_sound due rd stats)
  then show ?thesis unfolding updateShareStats_def
    by (auto intro!: then_sound ret_sound other split: option.split)
qed

text \<open>C34. Mails about workers make sense, in every run of the module with any failing transactions,
  lookups and timers: a worker is never reported as hashing again more often than it was
  reported as stopped, and nobody hears about a worker that has no name or asked to be silent.\<close>

theorem notices_sound:
  assumes "stat_reach params s"
  shows "length (filter (\<lambda>x. fst x = Started_hashing m) (alert_mails (sw_alerts s))) \<le>
      length (filter (\<lambda>x. fst x = Stopped_hashing m) (alert_mails (sw_alerts s))) \<and>
    (\<forall>x \<in> set (alert_mails (sw_alerts s)). audible (about_worker (fst x)))"
proof -
  have "alert_reach (sw_alerts s)" using assms
  proof (induction rule: stat_reach.induct)
    case (step s s')
    from step(2,3) show ?case
    proof cases
      case (cycle rows now err body)
      with step tripleD [OF cycle_sound] show ?thesis by blast
    qed (use step in \<open>auto simp: startWorker_def intro: alert_reach.step alert_step.intros\<close>)
  qed (simp add: alert_reach.start)
  then show ?thesis using reach_paired [of "sw_alerts s" m] reach_heard
    by (fastforce simp: paired_def mails_of_def heard_def)
qed

subsection \<open>The properties at work\<close>

definition ex_stat_env :: stat_env where
  "ex_stat_env = \<lparr>se_mainPort = 18081, se_statsBufferLength = JNum 60, se_statsBufferHours = JNum 72,
     se_algo = (\<lambda>p. if p = 18081 then JStr ''rx'' else JBool False), se_mapFull = (\<lambda>e. e = ''MDB_MAP_FULL'')\<rparr>"

definition ex_stat_share :: stat_share where
  "ex_stat_share = \<lparr>sh_address = ''alice'', sh_paymentID = None, sh_poolType = PPLNS, sh_shares2 = Some 600, sh_timestamp = 900000,
     sh_port = None, sh_identifier = ''rig'', sh_raw_shares = Some 1200\<rparr>"

definition ex_stat_rows :: "nat \<Rightarrow> stat_share option list" where
  "ex_stat_rows h = (if h = 3 then [Some ex_stat_share] else [])"

definition ex_stat_world :: stat_world where
  "ex_stat_world = \<lparr>sw_cache = (\<lambda>_. None), sw_entries = [], sw_flushes = 0, sw_others = [], sw_commits = (\<lambda>_. None),
     sw_alerts = no_alerts, sw_nextHistoryAt = 0, sw_lastShareStatsHeight = 0, sw_lmdbFailStop = False, sw_started = False,
     sw_prevPoolStateTime = 0, sw_prevPoolHashrate = 0, sw_prevPoolWorkers = 0, sw_adminMails = []\<rparr>"

lemma ex_known: "workers_known (sw_cache ex_stat_world) = []" "quiet ex_stat_world"
  by (simp_all add: workers_known_def ex_stat_world_def parseCacheEntry_def cacheObjectToSet_def quiet_def)

lemma ex_no_failure: "\<not> write_failed params ex_stat_world s'"
  by (simp add: write_failed_def ex_stat_world_def)

lemma ex_keys: "minerKeys ex_stat_share = {''alice'', ''alice_rig''}"
  by (auto simp: minerKeys_def minerIdOf_def ex_stat_share_def)

lemma ex_shares: "filter (counts_for (windowBounds 1000000) ''alice_rig'') (shares_below ex_stat_rows 61 3) = [ex_stat_share]"
proof -
  have "shares_below ex_stat_rows 61 3 = [ex_stat_share]"
    by (simp add: eval_nat_numeral ex_stat_rows_def List.map_filter_def)
  moreover have "counts_for (windowBounds 1000000) ''alice_rig'' ex_stat_share"
    unfolding counts_for_def ex_keys
    by (simp add: windowBounds_def IDENTIFIER_WINDOW_MS_def HASH_WINDOW_MS_def ex_stat_share_def shares2Of_def normalizeFiniteNumber_def)
  ultimately show ?thesis by simp
qed

lemma miner_rates_witness:
  "\<exists>s'. updateShareStats2 ex_stat_env ex_stat_rows 1000000 3 ex_stat_world = (Inr True, s') \<and>
     sw_cache s' (stats_key ''alice_rig'') =
       Some (Some (minerRow ex_stat_env (summary_of (se_mainPort ex_stat_env) [ex_stat_share])))"
proof -
  have "time_ordered ex_stat_rows" by (auto simp: time_ordered_def ex_stat_rows_def split: if_splits)
  moreover have "HASH_WINDOW_MS < 1000000" by (simp add: HASH_WINDOW_MS_def)
  moreover have "stats_key ''alice_rig'' \<notin> set (workers_known (sw_cache ex_stat_world))" by (simp add: ex_known)
  moreover have "su_shares2 (summary_of (se_mainPort ex_stat_env) [ex_stat_share]) \<noteq> 0"
    by (simp add: summary_of_def shares2Of_def ex_stat_share_def normalizeFiniteNumber_def)
  ultimately show ?thesis
    using miner_rates [OF ex_known(2) _ _ _ ex_shares, of ex_stat_env] ex_no_failure by auto
qed

lemma rates_have_owners_witness:
  "rates_owned (sw_cache (snd (updateShareStats2 ex_stat_env ex_stat_rows 1000000 3 ex_stat_world)))"
proof -
  have "0 \<le> shares2Of ex_stat_share" by (simp add: shares2Of_def ex_stat_share_def normalizeFiniteNumber_def)
  then have "good_rows ex_stat_rows"
    by (auto simp: good_rows_def ex_stat_rows_def ex_keys reserved_def stats_key_def split: if_splits)
  moreover have "rates_owned (sw_cache ex_stat_world)" by (simp add: rates_owned_def ex_known) (simp add: ex_stat_world_def)
  ultimately show ?thesis using rates_have_owners [OF ex_known(2)] ex_no_failure by blast
qed

definition ex_stat_run :: stat_world where
  "ex_stat_run = snd (updateShareStats ex_stat_env ex_stat_rows 1000000 JNull (JObj [(''height'', JNum 2)]) (startWorker ex_stat_world))"

lemma notices_sound_witness:
  "length (filter (\<lambda>x. fst x = Started_hashing ''alice_rig'') (alert_mails (sw_alerts ex_stat_run))) \<le>
     length (filter (\<lambda>x. fst x = Stopped_hashing ''alice_rig'') (alert_mails (sw_alerts ex_stat_run))) \<and>
   list_all (\<lambda>x. audible (about_worker (fst x))) (alert_mails (sw_alerts ex_stat_run))"
  unfolding list_all_iff
proof (rule notices_sound)
  have "stat_reach ex_stat_env ex_stat_world" by (rule stat_reach.start) (simp add: ex_stat_world_def)
  then have "stat_reach ex_stat_env (startWorker ex_stat_world)" by (rule stat_reach.step) (rule stat_step.boot)
  then show "stat_reach ex_stat_env ex_stat_run" unfolding ex_stat_run_def by (rule stat_reach.step) (rule stat_step.cycle)
qed

end
