(* ===== verification/Coin_Registry.thy ===== *)
theory Coin_Registry
  imports Js_Value
begin

text \<open>
  The registry of coin profiles of \<open>src/lib/coins/core/registry.js\<close> with the tables of
  \<open>constants.js\<close>, and the lookups of \<open>src/lib/coins/index.js\<close> that the pool asks: the profile of
  a port, a coin or a blob type, difficulties, and which coins a miner's algorithms can mine.
  A profile has the fields that these use; its handlers for blobs, hashes and daemons are not
  part of it. An object used as a set is the list of its keys.
\<close>

subsection \<open>Profiles\<close>

text \<open>\<open>cp_minDifficulty\<close> is \<open>None\<close> where the profile leaves it to the configuration.\<close>

record coin_profile =
  cp_port :: int
  cp_coin :: "string option"
  cp_displayCoin :: string
  cp_algo :: string
  cp_blobType :: int
  cp_blobTypeName :: string
  cp_aliases :: "string list"
  cp_listed :: bool
  cp_minerAlgoAliases :: "(string \<times> string list) list"
  cp_mainAlgo :: bool
  cp_prevMainAlgo :: bool
  cp_defaultPerf :: "num option"
  cp_prevDefaultPerf :: "num option"
  cp_extraPrevDefaultPerf :: "(string \<times> num) list"
  cp_perfAliases :: "string list"
  cp_legacyDifficultyAliases :: "string list"
  cp_childPort :: "int option"
  cp_nonceSize :: nat
  cp_proofSize :: nat
  cp_minDifficulty :: "num option"
  cp_hashesPerDifficulty :: "num option"
  cp_niceHashDiffMultiplier :: "num option"

definition addKey :: "'a \<Rightarrow> 'a list \<Rightarrow> 'a list" where
  "addKey k ks = (if k \<in> set ks then ks else ks @ [k])"

record coin_registry =
  rg_profiles :: "coin_profile list"
  rg_profilesByPort :: "int \<Rightarrow> coin_profile option"
  rg_profilesByAlias :: "string \<Rightarrow> coin_profile option"
  rg_profilesByBlobType :: "int \<Rightarrow> coin_profile list"
  rg_blobTraits :: "int \<Rightarrow> (nat \<times> nat) option"
  rg_port2algo :: "int \<Rightarrow> string option"
  rg_port2blob_num :: "int \<Rightarrow> int option"
  rg_port2coin :: "int \<Rightarrow> string option option"
  rg_port2displayCoin :: "int \<Rightarrow> string option"
  rg_listedCoins :: "string list"
  rg_all_algos :: "string list"
  rg_mainAlgoSet :: "string list"
  rg_prevMainAlgoSet :: "string list"
  rg_defaultAlgoPerf :: "(string \<times> num) list"
  rg_prevAlgoPerf :: "(string \<times> num) list"
  rg_minerAlgoAliases :: "string \<Rightarrow> string list option"
  rg_canonicalAlgosByAlias :: "string \<Rightarrow> string list option"
  rg_mm_port_set :: "int \<Rightarrow> int option"
  rg_mm_child_port_set :: "int \<Rightarrow> int list option"

definition noProfiles :: "coin_profile list \<Rightarrow> coin_registry" where
  "noProfiles profiles =
     \<lparr>rg_profiles = profiles, rg_profilesByPort = (\<lambda>_. None), rg_profilesByAlias = (\<lambda>_. None), rg_profilesByBlobType = (\<lambda>_. []),
      rg_blobTraits = (\<lambda>_. None), rg_port2algo = (\<lambda>_. None), rg_port2blob_num = (\<lambda>_. None), rg_port2coin = (\<lambda>_. None),
      rg_port2displayCoin = (\<lambda>_. None), rg_listedCoins = [], rg_all_algos = [], rg_mainAlgoSet = [], rg_prevMainAlgoSet = [],
      rg_defaultAlgoPerf = [], rg_prevAlgoPerf = [], rg_minerAlgoAliases = (\<lambda>_. None), rg_canonicalAlgosByAlias = (\<lambda>_. None),
      rg_mm_port_set = (\<lambda>_. None), rg_mm_child_port_set = (\<lambda>_. None)\<rparr>"

definition pushTo :: "'k \<Rightarrow> 'a \<Rightarrow> ('k \<Rightarrow> 'a list option) \<Rightarrow> 'k \<Rightarrow> 'a list option" where
  "pushTo k x m = m(k \<mapsto> addKey x (case m k of Some xs \<Rightarrow> xs | None \<Rightarrow> []))"

definition registerAlias :: "string \<Rightarrow> string \<Rightarrow> coin_registry \<Rightarrow> coin_registry" where
  "registerAlias algo alias r =
     r\<lparr>rg_minerAlgoAliases := pushTo algo alias (rg_minerAlgoAliases r),
       rg_canonicalAlgosByAlias := pushTo alias algo (rg_canonicalAlgosByAlias r)\<rparr>"

definition registerMinerAlgoAliases :: "coin_profile \<Rightarrow> coin_registry \<Rightarrow> coin_registry" where
  "registerMinerAlgoAliases profile r =
     fold (\<lambda>(algo, aliases) r.
         fold (registerAlias algo) aliases
           (r\<lparr>rg_minerAlgoAliases := (case rg_minerAlgoAliases r algo of None \<Rightarrow> (rg_minerAlgoAliases r)(algo \<mapsto> []) | _ \<Rightarrow> rg_minerAlgoAliases r)\<rparr>))
       (cp_minerAlgoAliases profile) r"

definition registerProfileBasics :: "coin_profile \<Rightarrow> coin_registry \<Rightarrow> coin_registry" where
  "registerProfileBasics profile r =
     (let port = cp_port profile; listed = cp_listed profile; coin = cp_coin profile
      in r\<lparr>rg_profilesByPort := (rg_profilesByPort r)(port \<mapsto> profile),
           rg_profilesByBlobType := (rg_profilesByBlobType r)(cp_blobType profile := rg_profilesByBlobType r (cp_blobType profile) @ [profile]),
           rg_port2algo := (rg_port2algo r)(port \<mapsto> cp_algo profile),
           rg_port2blob_num := (rg_port2blob_num r)(port \<mapsto> cp_blobType profile),
           rg_port2displayCoin := (rg_port2displayCoin r)(port \<mapsto> cp_displayCoin profile),
           rg_port2coin := (if listed \<or> coin = Some [] then (rg_port2coin r)(port \<mapsto> coin) else rg_port2coin r),
           rg_listedCoins := (case coin of Some c \<Rightarrow> if listed \<and> c \<noteq> [] then rg_listedCoins r @ [c] else rg_listedCoins r | None \<Rightarrow> rg_listedCoins r),
           rg_all_algos := (if cp_algo profile \<noteq> [] then addKey (cp_algo profile) (rg_all_algos r) else rg_all_algos r)\<rparr>)"

definition registerProfilePerf :: "coin_profile \<Rightarrow> coin_registry \<Rightarrow> coin_registry" where
  "registerProfilePerf profile r =
     (let algo = cp_algo profile;
          put = (\<lambda>perf m. case perf of Some x \<Rightarrow> if algo \<noteq> [] then AList.update algo x m else m | None \<Rightarrow> m)
      in r\<lparr>rg_mainAlgoSet := (if cp_mainAlgo profile then addKey algo (rg_mainAlgoSet r) else rg_mainAlgoSet r),
           rg_prevMainAlgoSet := (if cp_prevMainAlgo profile then addKey algo (rg_prevMainAlgoSet r) else rg_prevMainAlgoSet r),
           rg_defaultAlgoPerf := put (cp_defaultPerf profile) (rg_defaultAlgoPerf r),
           rg_prevAlgoPerf := fold (\<lambda>(a, x). AList.update a x) (cp_extraPrevDefaultPerf profile) (put (cp_prevDefaultPerf profile) (rg_prevAlgoPerf r))\<rparr>)"

definition aliasList :: "coin_profile \<Rightarrow> string list" where
  "aliasList profile =
     remdups (filter (\<lambda>a. a \<noteq> [])
       (cp_aliases profile @ (case cp_coin profile of Some c \<Rightarrow> [c] | None \<Rightarrow> []) @ [cp_displayCoin profile]))"

definition registerProfile :: "coin_profile \<Rightarrow> coin_registry \<Rightarrow> coin_registry" where
  "registerProfile profile r =
     (let r' = registerMinerAlgoAliases profile (registerProfilePerf profile (registerProfileBasics profile r))
      in r'\<lparr>rg_profilesByAlias := fold (\<lambda>a m. m(a \<mapsto> profile)) (aliasList profile) (rg_profilesByAlias r')\<rparr>)"

definition buildMmPortSet :: "coin_profile list \<Rightarrow> int \<Rightarrow> int option" where
  "buildMmPortSet profiles =
     fold (\<lambda>p m. case cp_childPort p of Some c \<Rightarrow> if c = 0 then m else m(cp_port p \<mapsto> c) | None \<Rightarrow> m) profiles (\<lambda>_. None)"

definition buildMmChildPortSet :: "coin_profile list \<Rightarrow> (int \<Rightarrow> int option) \<Rightarrow> int \<Rightarrow> int list option" where
  "buildMmChildPortSet profiles mmPortSet =
     fold (\<lambda>p m. case mmPortSet (cp_port p) of Some c \<Rightarrow> pushTo c (cp_port p) m | None \<Rightarrow> m) profiles (\<lambda>_. None)"

definition buildBlobTraits :: "coin_profile list \<Rightarrow> int \<Rightarrow> (nat \<times> nat) option" where
  "buildBlobTraits profiles = fold (\<lambda>p m. m(cp_blobType p \<mapsto> (cp_nonceSize p, cp_proofSize p))) profiles (\<lambda>_. None)"

definition loadRegistry :: "coin_profile list \<Rightarrow> coin_registry" where
  "loadRegistry found =
     (let profiles = sort_key cp_port found; mm = buildMmPortSet profiles
      in (fold registerProfile profiles (noProfiles profiles))
           \<lparr>rg_mm_port_set := mm, rg_mm_child_port_set := buildMmChildPortSet profiles mm, rg_blobTraits := buildBlobTraits profiles\<rparr>)"

definition buildCoin2Port :: "coin_profile list \<Rightarrow> string \<Rightarrow> int option" where
  "buildCoin2Port profiles =
     fold (\<lambda>p m.
         let m1 = (case cp_coin p of Some c \<Rightarrow> m(c \<mapsto> cp_port p) | None \<Rightarrow> m);
             m2 = fold (\<lambda>a m. m(a \<mapsto> cp_port p)) (cp_aliases p) m1
         in if cp_displayCoin p \<noteq> [] then m2(cp_displayCoin p \<mapsto> cp_port p) else m2)
       profiles (\<lambda>_. None)"

subsection \<open>Lookups\<close>

definition getProfileByBlobType :: "coin_registry \<Rightarrow> int \<Rightarrow> int option \<Rightarrow> string option \<Rightarrow> coin_profile option" where
  "getProfileByBlobType r blobType portHint coinHint =
     (let profiles = rg_profilesByBlobType r blobType;
          fits = (\<lambda>found. case found of Some p \<Rightarrow> cp_blobType p = blobType | None \<Rightarrow> False);
          byPort = (case portHint of Some p \<Rightarrow> rg_profilesByPort r p | None \<Rightarrow> None);
          byCoin = (case coinHint of Some c \<Rightarrow> rg_profilesByAlias r c | None \<Rightarrow> None)
      in if profiles = [] then None
         else if fits byPort then byPort
         else if fits byCoin then byCoin
         else if length profiles = 1 then Some (hd profiles) else None)"

definition portBlobType :: "coin_registry \<Rightarrow> int \<Rightarrow> int option" where
  "portBlobType r port = rg_port2blob_num r port"

definition resolveProfile :: "coin_registry \<Rightarrow> int \<Rightarrow> coin_profile option" where
  "resolveProfile r port =
     (case rg_profilesByPort r port of
        Some p \<Rightarrow> Some p
      | None \<Rightarrow> (case portBlobType r port of None \<Rightarrow> None | Some blobType \<Rightarrow> getProfileByBlobType r blobType (Some port) None))"

datatype profile_key = Port_key int | Name_key string

text \<open>A name of digits only is a port; the empty name is the main profile.\<close>

definition resolveProfileKey :: "coin_registry \<Rightarrow> coin_profile \<Rightarrow> profile_key \<Rightarrow> coin_profile option" where
  "resolveProfileKey r mainProfile key =
     (case key of
        Port_key port \<Rightarrow> resolveProfile r port
      | Name_key name \<Rightarrow>
          if name \<noteq> [] \<and> list_all is_digit name then resolveProfile r (digits_value name 0)
          else if name = [] then Some mainProfile else rg_profilesByAlias r name)"

definition getJobProfile :: "coin_registry \<Rightarrow> coin_profile \<Rightarrow> string option \<Rightarrow> int option \<Rightarrow> int option \<Rightarrow> coin_profile option" where
  "getJobProfile r mainProfile coin blob_type_num port =
     (case (case coin of Some c \<Rightarrow> resolveProfileKey r mainProfile (Name_key c) | None \<Rightarrow> None) of
        Some p \<Rightarrow> Some p
      | None \<Rightarrow> (case blob_type_num of Some b \<Rightarrow> getProfileByBlobType r b port coin | None \<Rightarrow> None))"

definition getBlobTraits :: "coin_registry \<Rightarrow> int \<Rightarrow> nat \<times> nat" where
  "getBlobTraits r blobType = (case rg_blobTraits r blobType of Some x \<Rightarrow> x | None \<Rightarrow> (4, 32))"

definition PORT2COIN :: "coin_registry \<Rightarrow> int \<Rightarrow> string option" where
  "PORT2COIN r port =
     (case rg_port2coin r port of Some c \<Rightarrow> c | None \<Rightarrow> map_option cp_displayCoin (resolveProfile r port))"

definition PORT2COIN_FULL :: "coin_registry \<Rightarrow> coin_profile \<Rightarrow> int \<Rightarrow> string option" where
  "PORT2COIN_FULL r mainProfile port =
     (case rg_port2displayCoin r port of Some c \<Rightarrow> Some c
      | None \<Rightarrow> if PORT2COIN r port = Some [] then Some (cp_displayCoin mainProfile) else PORT2COIN r port)"

subsection \<open>Difficulties\<close>

definition getCoinMinDifficulty :: "num \<Rightarrow> coin_profile option \<Rightarrow> num" where
  "getCoinMinDifficulty configured profile =
     (case profile of Some p \<Rightarrow> (case cp_minDifficulty p of Some d \<Rightarrow> d | None \<Rightarrow> configured) | None \<Rightarrow> configured)"

definition getNiceHashMinimumDifficulty :: "num \<Rightarrow> coin_profile option \<Rightarrow> num" where
  "getNiceHashMinimumDifficulty niceHashDiff profile =
     (let multiplier = (case profile of Some p \<Rightarrow> (case cp_niceHashDiffMultiplier p of Some x \<Rightarrow> if x = 0 then 1 else x | None \<Rightarrow> 1) | None \<Rightarrow> 1)
      in fl (niceHashDiff * multiplier))"

definition getPoolHashesPerDifficulty :: "coin_profile option \<Rightarrow> num" where
  "getPoolHashesPerDifficulty profile =
     (case profile of Some p \<Rightarrow> (case cp_hashesPerDifficulty p of Some scale \<Rightarrow> if 0 < scale then scale else 1 | None \<Rightarrow> 1) | None \<Rightarrow> 1)"

definition getPoolWorkDifficulty :: "coin_profile option \<Rightarrow> num \<Rightarrow> num" where
  "getPoolWorkDifficulty profile value =
     (let scale = getPoolHashesPerDifficulty profile in if scale = 1 then value else js_round (fl (value * scale)))"

subsection \<open>Algorithms of miners\<close>

type_synonym algos = "(string \<times> num) list"

definition normalizeMinerAlgos :: "coin_registry \<Rightarrow> algos \<Rightarrow> algos" where
  "normalizeMinerAlgos r algos =
     fold (\<lambda>(algo, value) n.
         fold (\<lambda>c n. AList.update c value n) (case rg_canonicalAlgosByAlias r algo of Some cs \<Rightarrow> cs | None \<Rightarrow> []) (AList.update algo value n))
       algos []"

definition has_key :: "string \<Rightarrow> algos \<Rightarrow> bool" where
  "has_key k m \<longleftrightarrow> k \<in> fst ` set m"

definition isMinerSupportAlgo :: "coin_registry \<Rightarrow> string \<Rightarrow> algos \<Rightarrow> bool" where
  "isMinerSupportAlgo r algo algos \<longleftrightarrow>
     has_key algo algos \<or> (case rg_minerAlgoAliases r algo of Some as \<Rightarrow> list_ex (\<lambda>a. has_key a algos) as | None \<Rightarrow> False)"

definition algoMainCheck :: "coin_registry \<Rightarrow> algos \<Rightarrow> bool" where
  "algoMainCheck r algos \<longleftrightarrow> list_ex (\<lambda>a. has_key a algos) (rg_mainAlgoSet r)"

definition algoPrevMainCheck :: "coin_registry \<Rightarrow> algos \<Rightarrow> bool" where
  "algoPrevMainCheck r algos \<longleftrightarrow> list_ex (\<lambda>a. has_key a algos) (rg_prevMainAlgoSet r)"

definition algoCheck :: "coin_registry \<Rightarrow> algos \<Rightarrow> bool" where
  "algoCheck r algos \<longleftrightarrow> algoMainCheck r algos \<or> list_ex (\<lambda>a. has_key a algos) (rg_all_algos r)"

definition algoShortTypeStr :: "coin_registry \<Rightarrow> int \<Rightarrow> string" where
  "algoShortTypeStr r port = (case resolveProfile r port of Some p \<Rightarrow> cp_algo p | None \<Rightarrow> ''rx/0'')"

text \<open>The first alias of a profile with a measured rate gives the rate of its coin.\<close>

fun firstPerf :: "algos \<Rightarrow> string list \<Rightarrow> (string \<times> num) option" where
  "firstPerf perf [] = None"
| "firstPerf perf (a # as) = (case map_of perf a of Some x \<Rightarrow> Some (a, x) | None \<Rightarrow> firstPerf perf as)"

definition coinPerfOf :: "algos \<Rightarrow> coin_profile \<Rightarrow> (string \<times> num) list \<Rightarrow> (string \<times> num) list" where
  "coinPerfOf algos_perf profile coin_perf =
     (let coinKey = (case cp_coin profile of Some c \<Rightarrow> c | None \<Rightarrow> cp_displayCoin profile)
      in case firstPerf algos_perf (cp_perfAliases profile) of
           None \<Rightarrow> coin_perf
         | Some (alias, perf) \<Rightarrow>
             AList.update coinKey
               (if alias \<in> set (cp_legacyDifficultyAliases profile) \<and> (case cp_hashesPerDifficulty profile of Some s \<Rightarrow> 0 < s | None \<Rightarrow> False)
                then fl (perf * the (cp_hashesPerDifficulty profile)) else perf) coin_perf)"

definition convertAlgosToCoinPerf :: "coin_registry \<Rightarrow> algos \<Rightarrow> (string \<times> num) list" where
  "convertAlgosToCoinPerf r algos_perf = fold (coinPerfOf algos_perf) (rg_profiles r) []"

end
