(* ===== verification/Miner_Difficulty.thy ===== *)
theory Miner_Difficulty
  imports Coin_Registry
begin

text \<open>
  How hard a miner's work is and which coin it mines: the difficulty and coin methods that
  \<open>createMiner\<close> of \<open>src/lib/pool/miners.js\<close> puts on a miner (\<open>setAlgos\<close>, \<open>setNewDiff\<close>, \<open>selectBestCoin\<close>,
  \<open>calcNewDiff\<close>), and \<open>adjustMinerDiff\<close> of \<open>miner_registry.js\<close>. A difficulty that is \<open>None\<close> is
  \<open>Infinity\<close>, the quotient of a period of no length. Times are in milliseconds; a time that is
  \<open>0\<close> is not set.
\<close>

subsection \<open>The miner\<close>

text \<open>What a rate is taken from: a miner, a proxy or a wallet.\<close>

record diff_source =
  ds_hashes :: num
  ds_connectTime :: int
  ds_connectTimeShift :: int
  ds_hashesShift :: num

datatype coin_choice = Unset | No_coin | Coin string

record 'p vd_miner =
  vm_payout :: string
  vm_agent :: string
  vm_proxy :: bool
  vm_fixed_diff :: bool
  vm_difficulty :: "num option"
  vm_newDiffRecommendation :: "num option option"
  vm_newDiffToSet :: "num option option"
  vm_source :: diff_source
  vm_algos :: algos
  vm_coin_perf :: "(string \<times> num) list"
  vm_algo_min_time :: num
  vm_curr_coin :: coin_choice
  vm_curr_coin_time :: int
  vm_curr_coin_min_diff :: num
  vm_cachedJob :: "'p option"
  vm_jobLastBlockHash :: "string option"
  vm_check_height :: "int option"

record coin_template =
  ct_port :: int
  ct_difficulty :: num
  ct_height :: int
  ct_idHash :: string

record coin_env =
  ce_registry :: coin_registry
  ce_mainProfile :: coin_profile
  ce_coins :: "string list"
  ce_activeBlockTemplates :: "string \<Rightarrow> coin_template option"
  ce_lastCoinHashFactorMM :: "string \<Rightarrow> num option"
  ce_unsupportedAlgos :: "string \<Rightarrow> string list"
  ce_minDifficulty :: num
  ce_targetTime :: num
  ce_retargetTime :: num
  ce_varDiffVariance :: "num option"
  ce_throttlePerSec :: num
  ce_throttleWindow :: num
  ce_trustedMiners :: bool

subsection \<open>Algorithms\<close>

text \<open>
  The new state with an error text, if the algorithms are refused. Rates that are not finite
  are \<open>None\<close>. \<open>None\<close> for the rates or the time: the miner sent none.
\<close>

definition requestedAlgos :: "coin_env \<Rightarrow> string list \<Rightarrow> string \<Rightarrow> algos" where
  "requestedAlgos params nextAlgos agent =
     filter (\<lambda>x. fst x \<notin> set (ce_unsupportedAlgos params agent))
       (normalizeMinerAlgos (ce_registry params) (fold (\<lambda>a m. AList.update a 1 m) nextAlgos []))"

definition mainPerf :: "coin_env \<Rightarrow> algos \<Rightarrow> (string \<times> num) list \<Rightarrow> (string \<times> num) list" where
  "mainPerf params algos coinPerf =
     (if map_of coinPerf [] \<noteq> None \<and> algoMainCheck (ce_registry params) algos then coinPerf else AList.update [] (- 1) coinPerf)"

definition same_entries :: "(string \<times> num) list \<Rightarrow> (string \<times> num) list \<Rightarrow> bool" where
  "same_entries xs ys \<longleftrightarrow> length xs = length ys \<and> list_all (\<lambda>(k, v). map_of xs k = Some v) ys"

fun joinComma :: "string list \<Rightarrow> string" where
  "joinComma [] = []"
| "joinComma [s] = s"
| "joinComma (s # t # ss) = s @ '', '' @ joinComma (t # ss)"

definition setAlgos ::
  "coin_env \<Rightarrow> string list \<Rightarrow> (string \<times> num option) list option \<Rightarrow> num option option \<Rightarrow> ('p, 'x) vd_miner_scheme \<Rightarrow> string \<times> ('p, 'x) vd_miner_scheme" where
  "setAlgos params nextAlgos nextAlgosPerf nextAlgoMinTime m0 =
     (let r = ce_registry params;
          m = m0\<lparr>vm_algos := requestedAlgos params nextAlgos (vm_agent m0)\<rparr>
      in if \<not> algoCheck r (vm_algos m) then (''algo array must include at least one supported pool algo: ['' @ joinComma (map fst (vm_algos m)) @ '']'', m)
         else
           let perf = (case nextAlgosPerf of Some p \<Rightarrow> p
                       | None \<Rightarrow> map (\<lambda>(a, x). (a, Some x)) (if algoMainCheck r (vm_algos m) then rg_defaultAlgoPerf r else rg_prevAlgoPerf r))
           in if list_ex (\<lambda>(a, x). x = None) perf then (''algo-perf values must be finite numbers'', m)
              else
                let coinPerf = mainPerf params (vm_algos m) (convertAlgosToCoinPerf r (map (\<lambda>(a, x). (a, the x)) perf))
                in case (case nextAlgoMinTime of None \<Rightarrow> Some 60 | Some t \<Rightarrow> t) of
                     None \<Rightarrow> (''algo-min-time must be a finite number'', m)
                   | Some minTime \<Rightarrow>
                       let m1 = m\<lparr>vm_coin_perf := coinPerf, vm_algo_min_time := minTime\<rparr>;
                           changed = (vm_algo_min_time m0 \<noteq> minTime \<or> \<not> same_entries (vm_algos m0) (vm_algos m) \<or> \<not> same_entries (vm_coin_perf m0) coinPerf)
                       in ([], if changed then m1\<lparr>vm_cachedJob := None, vm_jobLastBlockHash := None, vm_curr_coin_time := 0\<rparr> else m1))"

subsection \<open>A new difficulty\<close>

definition deadband :: "num option \<Rightarrow> num" where
  "deadband varDiffVariance = (case varDiffVariance of Some v \<Rightarrow> if 0 < v then fl (v / 100) else fl (2 / 10) | None \<Rightarrow> fl (2 / 10))"

text \<open>\<open>None\<close>: not a finite number, which is below nothing.\<close>

definition diffRatio :: "num option \<Rightarrow> num option \<Rightarrow> num option" where
  "diffRatio new old =
     (case (new, old) of (Some n, Some d) \<Rightarrow> if d = 0 then None else Some (fl (\<bar>fl (n - d)\<bar> / d)) | _ \<Rightarrow> None)"

definition setNewDiff :: "coin_env \<Rightarrow> num option \<Rightarrow> ('p, 'x) vd_miner_scheme \<Rightarrow> bool \<times> ('p, 'x) vd_miner_scheme" where
  "setNewDiff params difficulty m =
     (if vm_fixed_diff m then (False, m)
      else
        let m1 = m\<lparr>vm_newDiffRecommendation := Some difficulty\<rparr>
        in case diffRatio difficulty (vm_difficulty m) of
             Some ratio \<Rightarrow> if ratio < deadband (ce_varDiffVariance params) then (False, m1) else (True, m1\<lparr>vm_newDiffToSet := Some difficulty\<rparr>)
           | None \<Rightarrow> (True, m1\<lparr>vm_newDiffToSet := Some difficulty\<rparr>))"

subsection \<open>The best coin\<close>

definition supports :: "coin_env \<Rightarrow> ('p, 'x) vd_miner_scheme \<Rightarrow> coin_template \<Rightarrow> bool" where
  "supports params m bt \<longleftrightarrow> isMinerSupportAlgo (ce_registry params) (algoShortTypeStr (ce_registry params) (ct_port bt)) (vm_algos m)"

definition currentCoinSupported :: "coin_env \<Rightarrow> ('p, 'x) vd_miner_scheme \<Rightarrow> bool" where
  "currentCoinSupported params m =
     (case vm_curr_coin m of
        Coin c \<Rightarrow> map_of (vm_coin_perf m) c \<noteq> None \<and>
          (case ce_activeBlockTemplates params c of Some bt \<Rightarrow> supports params m bt | None \<Rightarrow> False) \<and>
          (case ce_lastCoinHashFactorMM params c of Some f \<Rightarrow> f \<noteq> 0 | None \<Rightarrow> False)
      | _ \<Rightarrow> False)"

definition tooHard :: "num option \<Rightarrow> num \<Rightarrow> num \<Rightarrow> bool" where
  "tooHard difficulty factor btDifficulty =
     (case difficulty of None \<Rightarrow> 0 < factor | Some d \<Rightarrow> fl (btDifficulty * 3) < fl (d / factor))"

text \<open>The hash factor of a coin, if the miner could be given work of it.\<close>

definition workable :: "coin_env \<Rightarrow> ('p, 'x) vd_miner_scheme \<Rightarrow> string \<Rightarrow> num option" where
  "workable params m coin =
     (case (ce_activeBlockTemplates params coin, ce_lastCoinHashFactorMM params coin) of
        (Some bt, Some coinHashFactor) \<Rightarrow>
          let hashesPerDifficulty = getPoolHashesPerDifficulty (resolveProfileKey (ce_registry params) (ce_mainProfile params) (Port_key (ct_port bt)))
          in if coinHashFactor = 0 \<or> tooHard (vm_difficulty m) (fl (coinHashFactor * hashesPerDifficulty)) (ct_difficulty bt) \<or> \<not> supports params m bt
             then None else Some coinHashFactor
      | _ \<Rightarrow> None)"

text \<open>What a coin is worth to the miner, if its rate for it is measured.\<close>

definition coinWorth :: "coin_env \<Rightarrow> ('p, 'x) vd_miner_scheme \<Rightarrow> string \<Rightarrow> num option" where
  "coinWorth params m coin =
     (case (map_of (vm_coin_perf m) coin, workable params m coin) of
        (Some perf, Some coinHashFactor) \<Rightarrow>
          Some (if vm_curr_coin m = Coin coin then fl (fl (perf * coinHashFactor) * fl (105 / 100)) else fl (perf * coinHashFactor))
      | _ \<Rightarrow> None)"

definition considerCoin :: "coin_env \<Rightarrow> ('p, 'x) vd_miner_scheme \<Rightarrow> string \<Rightarrow> string \<times> num \<Rightarrow> string \<times> num" where
  "considerCoin params m coin best =
     (case coinWorth params m coin of Some w \<Rightarrow> if snd best < w then (coin, w) else best | None \<Rightarrow> best)"

definition mainWorth :: "('p, 'x) vd_miner_scheme \<Rightarrow> num" where
  "mainWorth m = fl ((case map_of (vm_coin_perf m) [] of Some x \<Rightarrow> x | None \<Rightarrow> 0) * fl (11 / 10))"

definition bestCoinOf :: "coin_env \<Rightarrow> ('p, 'x) vd_miner_scheme \<Rightarrow> string option" where
  "bestCoinOf params m =
     (let (bestCoin, bestCoinPerf) = fold (considerCoin params m) (ce_coins params) ([], mainWorth m)
      in if bestCoinPerf < 0 then find (\<lambda>c. workable params m c \<noteq> None) ([] # ce_coins params) else Some bestCoin)"

definition takeCoin :: "coin_env \<Rightarrow> int \<Rightarrow> string \<Rightarrow> ('p, 'x) vd_miner_scheme \<Rightarrow> ('p, 'x) vd_miner_scheme" where
  "takeCoin params now bestCoin m =
     (if vm_curr_coin m = Coin bestCoin then m
      else
        let m1 = (case vm_curr_coin m of Coin _ \<Rightarrow> m\<lparr>vm_cachedJob := None, vm_jobLastBlockHash := None\<rparr> | _ \<Rightarrow> m);
            m2 = m1\<lparr>vm_curr_coin_min_diff :=
                      getCoinMinDifficulty (ce_minDifficulty params) (resolveProfileKey (ce_registry params) (ce_mainProfile params) (Name_key bestCoin)),
                    vm_curr_coin := Coin bestCoin, vm_curr_coin_time := now\<rparr>
        in case (vm_check_height m2, ce_activeBlockTemplates params bestCoin) of
             (Some _, Some bt) \<Rightarrow> if ce_trustedMiners params then m2\<lparr>vm_check_height := Some (ct_height bt)\<rparr> else m2
           | _ \<Rightarrow> m2)"

definition selectBestCoin :: "coin_env \<Rightarrow> int \<Rightarrow> ('p, 'x) vd_miner_scheme \<Rightarrow> string option \<times> ('p, 'x) vd_miner_scheme" where
  "selectBestCoin params now m =
     (case vm_curr_coin m of
        Coin c \<Rightarrow>
          if currentCoinSupported params m \<and> vm_curr_coin_time m \<noteq> 0 \<and> of_int (now - vm_curr_coin_time m) < fl (vm_algo_min_time m * 1000)
          then (Some c, m)
          else (case bestCoinOf params m of None \<Rightarrow> (None, m) | Some b \<Rightarrow> (Some b, takeCoin params now b m))
      | _ \<Rightarrow> (case bestCoinOf params m of None \<Rightarrow> (None, m) | Some b \<Rightarrow> (Some b, takeCoin params now b m)))"

subsection \<open>The next difficulty\<close>

record wallet_source = diff_source +
  ws_last_ver_shares :: num

datatype rate_source = Own | Proxy | Wallet

definition ownRate :: "coin_env \<Rightarrow> ('p, 'x) vd_miner_scheme \<Rightarrow> rate_source \<times> num \<times> num \<times> int" where
  "ownRate params m =
     (Own, if vm_proxy m then 15 else ce_targetTime params, if vm_proxy m then fl (10 * ce_minDifficulty params) else ce_minDifficulty params, 60)"

definition sharedRate :: "rate_source \<Rightarrow> coin_env \<Rightarrow> rate_source \<times> num \<times> num \<times> int" where
  "sharedRate source params = (source, 15, fl (10 * ce_minDifficulty params), 5)"

definition proxyDiff :: "int \<Rightarrow> diff_source \<Rightarrow> num" where
  "proxyDiff now p =
     (let proxyPeriod = fl (of_int (now - ds_connectTime p) / 1000)
      in if 0 < proxyPeriod then fl (fl (ds_hashes p * 15) / proxyPeriod) else 0)"

text \<open>The source of the rate, the seconds between shares, the least difficulty, and the minutes of the window.\<close>

definition chooseSource ::
  "coin_env \<Rightarrow> int \<Rightarrow> ('p, 'x) vd_miner_scheme \<Rightarrow> diff_source option \<Rightarrow> wallet_source option \<Rightarrow> rate_source \<times> num \<times> num \<times> int" where
  "chooseSource params now m proxyMiner minerWallet =
     (let byProxy = (case (proxyMiner, vm_difficulty m) of (Some p, Some d) \<Rightarrow> d < proxyDiff now p | _ \<Rightarrow> False);
          byWallet = (case minerWallet of
             Some w \<Rightarrow> fl (ce_throttlePerSec params * ce_throttleWindow params) \<le> ws_last_ver_shares w | None \<Rightarrow> False)
      in if byProxy \<and> ds_connectTime (the proxyMiner) \<noteq> 0 then sharedRate Proxy params
         else if \<not> byProxy \<and> byWallet \<and> ds_connectTime (the minerWallet) \<noteq> 0 then sharedRate Wallet params
         else ownRate params m)"

text \<open>The window in two halves: the older one is dropped when the newer one is long enough.\<close>

definition shiftWindow :: "int \<Rightarrow> int \<Rightarrow> 'a diff_source_scheme \<Rightarrow> 'a diff_source_scheme" where
  "shiftWindow now historyTime s =
     (if ds_connectTimeShift s = 0 then s\<lparr>ds_connectTimeShift := now, ds_hashesShift := ds_hashes s\<rparr>
      else
        let timeSinceLastShift = now - ds_connectTimeShift s; timeWindow = historyTime * 60 * 1000
        in if timeSinceLastShift \<le> timeWindow then s
           else
             let left = (if 2 * timeWindow < timeSinceLastShift then 0 else fl (ds_hashes s - ds_hashesShift s))
             in s\<lparr>ds_hashes := left, ds_connectTime := ds_connectTimeShift s, ds_connectTimeShift := now, ds_hashesShift := left\<rparr>)"

definition diffOf :: "coin_env \<Rightarrow> int \<Rightarrow> num option \<Rightarrow> num \<Rightarrow> num \<Rightarrow> 'a diff_source_scheme \<Rightarrow> num option" where
  "diffOf params now difficulty target minDiff s =
     (let period = fl (of_int (now - ds_connectTime s) / 1000);
          idle = fl (2 * ce_retargetTime params);
          diff = (if ds_hashes s = 0
                  then case difficulty of Some d \<Rightarrow> Some (fl (fl (d * idle) / max period idle)) | None \<Rightarrow> None
                  else if period = 0 then None else Some (fl (fl (ds_hashes s * target) / period)))
      in case diff of Some d \<Rightarrow> Some (if d < minDiff then minDiff else d) | None \<Rightarrow> None)"

text \<open>A miner with what it shares with others: proxies and wallets by their names.\<close>

record rate_state =
  proxyMiners :: "string \<Rightarrow> diff_source option"
  walletMiners :: "string \<Rightarrow> wallet_source option"

definition calcNewDiff :: "coin_env \<Rightarrow> int \<Rightarrow> ('p, 'x) vd_miner_scheme \<Rightarrow> rate_state \<Rightarrow> num option \<times> ('p, 'x) vd_miner_scheme \<times> rate_state" where
  "calcNewDiff params now m s =
     (let name = vm_payout m
      in case chooseSource params now m (proxyMiners s name) (walletMiners s name) of
           (source, target, minDiff, historyTime) \<Rightarrow>
             (case source of
                Own \<Rightarrow> let d = shiftWindow now historyTime (vm_source m)
                       in (diffOf params now (vm_difficulty m) target minDiff d, m\<lparr>vm_source := d\<rparr>, s)
              | Proxy \<Rightarrow> let d = shiftWindow now historyTime (the (proxyMiners s name))
                         in (diffOf params now (vm_difficulty m) target minDiff d, m, s\<lparr>proxyMiners := (proxyMiners s)(name \<mapsto> d)\<rparr>)
              | Wallet \<Rightarrow> let d = shiftWindow now historyTime (the (walletMiners s name))
                          in (diffOf params now (vm_difficulty m) target minDiff d, m, s\<lparr>walletMiners := (walletMiners s)(name \<mapsto> d)\<rparr>)))"

definition farAbove :: "num option \<Rightarrow> num option \<Rightarrow> bool" where
  "farAbove newDiff difficulty =
     (case (difficulty, newDiff) of (Some d, Some n) \<Rightarrow> fl (d * 10) < n | (Some d, None) \<Rightarrow> True | _ \<Rightarrow> False)"

definition adjustMinerDiff :: "coin_env \<Rightarrow> int \<Rightarrow> ('p, 'x) vd_miner_scheme \<Rightarrow> rate_state \<Rightarrow> bool \<times> ('p, 'x) vd_miner_scheme \<times> rate_state" where
  "adjustMinerDiff params now m s =
     (let (newDiff, m1, s1) = calcNewDiff params now m s
      in if vm_fixed_diff m
         then if farAbove newDiff (vm_difficulty m)
              then let (changed, m2) = setNewDiff params newDiff (m1\<lparr>vm_fixed_diff := False\<rparr>) in (changed, m2, s1)
              else (False, m1, s1)
         else let (changed, m2) = setNewDiff params newDiff m1 in (changed, m2, s1))"

end
