(* ===== verification/Block_Template.thy ===== *)
theory Block_Template
  imports Miner_Difficulty Js_Buffer
begin

text \<open>
  The work of a coin: \<open>BlockTemplate\<close> of \<open>src/lib/coins/index.js\<close>. A template has a buffer with a
  reserved area where the pool writes its own nonces, so that no two jobs are the same work: a
  counter for every blob that is handed out and an id of the process. The conversion of a
  blob for hashing and the MD5 sum that names a template are parameters.
\<close>

subsection \<open>Hexadecimal texts\<close>

definition hex_of_bytes :: "byte list \<Rightarrow> string" where
  "hex_of_bytes bs = concat (map (\<lambda>b. [hex_digit (unat b div 16), hex_digit (unat b mod 16)]) bs)"

text \<open>\<open>Buffer.from(s, hex)\<close> stops at the first pair that is not hexadecimal.\<close>

fun bytes_of_hex :: "string \<Rightarrow> byte list" where
  "bytes_of_hex (a # b # s) =
     (case (hex_value (lower_char a), hex_value (lower_char b)) of
        (Some x, Some y) \<Rightarrow> word_of_nat (16 * x + y) # bytes_of_hex s
      | _ \<Rightarrow> [])"
| "bytes_of_hex s = []"

fun indexOf :: "string \<Rightarrow> string \<Rightarrow> nat option" where
  "indexOf p [] = (if p = [] then Some 0 else None)"
| "indexOf p (c # cs) = (if is_prefix_of p (c # cs) then Some 0 else map_option Suc (indexOf p cs))"

subsection \<open>Nonces\<close>

definition be_bytes :: "nat \<Rightarrow> byte list" where
  "be_bytes n = rev (le_bytes 4 n)"

text \<open>\<open>writeUInt32BE\<close> throws if the number or the place is out of range; \<open>copy\<close> writes what has room.\<close>

definition writeUInt32BE :: "nat \<Rightarrow> nat \<Rightarrow> byte list \<Rightarrow> byte list option" where
  "writeUInt32BE n off buf = (if off + 4 \<le> length buf \<and> n < 2 ^ 32 then Some (writeAt buf off (be_bytes n)) else None)"

definition copyAt :: "byte list \<Rightarrow> nat \<Rightarrow> byte list \<Rightarrow> byte list" where
  "copyAt buf off bs = (let k = min (length bs) (length buf - off) in writeAt buf off (take k bs))"

definition instanceId :: "nat \<Rightarrow> nat \<Rightarrow> byte list" where
  "instanceId pool_id pid = le_bytes 4 (pool_id mod 2 ^ 10 * 2 ^ 22 + pid mod 2 ^ 22)"

subsection \<open>Templates\<close>

text \<open>
  What a daemon sends, as far as the pool looks at it; \<open>tm_blob\<close> is the text of the field that the
  profile names. A difficulty that is \<open>0\<close> is not sent. \<open>tm_is_mm\<close>: the work of a child chain is
  merged into it. Templates of Pearl, whose header a native package derives, are not modelled.
\<close>

record template_msg =
  tm_coin :: string
  tm_port :: int
  tm_height :: int
  tm_difficulty :: num
  tm_mbl_difficulty :: num
  tm_wide_difficulty :: "num option"
  tm_aux_base :: "num option"
  tm_aux :: "(int \<times> num) option"
  tm_has_aux :: bool
  tm_seed_hash :: "string option"
  tm_blob :: string
  tm_is_mm :: bool
  tm_parent_blob :: "string option"
  tm_hash :: "string option"
  tm_reserved_offset :: "nat option"
  tm_reservedOffset :: "nat option"
  tm_bt_nonce_size :: "nat option"
  tm_no_proxy_nonce :: bool

datatype offset_source = From_template | From_blob | From_found | From_default

record template_config =
  tc_hashOnly :: bool
  tc_reserveOffsetSource :: offset_source
  tc_template_hex :: string
  tc_merged_hex :: string
  tc_is_mm_port :: bool
  tc_idHash :: "string \<Rightarrow> string"
  tc_instanceId :: "byte list"

record block_template = coin_template +
  bt_coin :: string
  bt_seed_hash :: "string option"
  bt_xmr_difficulty :: num
  bt_xtm_height :: "int option"
  bt_xtm_difficulty :: "num option"
  bt_hash :: "string option"
  bt_buffer :: "byte list"
  bt_block_version :: nat
  bt_reserved_offset :: nat
  bt_own_nonce :: bool
  bt_extraNonce :: nat
  bt_disableProxyNonce :: bool
  bt_clientNonceLocation :: "nat option"
  bt_clientPoolLocation :: "nat option"

text \<open>An offset that is \<open>0\<close> counts as none where the source falls back with \<open>||\<close>.\<close>

definition orElse :: "nat option \<Rightarrow> nat option \<Rightarrow> nat option" where
  "orElse a b = (case a of Some n \<Rightarrow> if n = 0 then b else a | None \<Rightarrow> b)"

definition orNull :: "nat option \<Rightarrow> nat option \<Rightarrow> nat option" where
  "orNull a b = (case a of Some n \<Rightarrow> a | None \<Rightarrow> b)"

definition getReservedOffset :: "template_msg \<Rightarrow> template_config \<Rightarrow> string \<Rightarrow> nat option" where
  "getReservedOffset t cfg blob =
     (let is_mm = tm_is_mm t
      in if tc_reserveOffsetSource cfg = From_template then orNull (tm_reserved_offset t) (tm_reservedOffset t)
         else
           let template_hex = (if tc_is_mm_port cfg \<and> \<not> is_mm then tc_merged_hex cfg else tc_template_hex cfg)
           in case indexOf template_hex blob of
                None \<Rightarrow> orElse (tm_reserved_offset t) (tm_reservedOffset t)
              | Some found \<Rightarrow>
                  let offset = found div 2 + 2
                  in if is_mm \<or> tc_reserveOffsetSource cfg = From_blob \<or> tc_reserveOffsetSource cfg = From_found then Some offset
                     else if (case tm_reserved_offset t of Some n \<Rightarrow> n \<noteq> 0 | None \<Rightarrow> False) \<and> \<not> tm_has_aux t then tm_reserved_offset t
                     else orElse (tm_reservedOffset t) (Some offset))"

definition blockTemplate_base :: "template_msg \<Rightarrow> block_template" where
  "blockTemplate_base t =
     (let difficulty = (if tm_mbl_difficulty t \<noteq> 0 then tm_mbl_difficulty t else tm_difficulty t);
          auxBaseDifficulty = (case tm_aux_base t of Some d \<Rightarrow> d | None \<Rightarrow> difficulty);
          xmr_difficulty = (case tm_wide_difficulty t of Some d \<Rightarrow> d | None \<Rightarrow> auxBaseDifficulty)
      in \<lparr>ct_port = tm_port t, ct_difficulty = (case tm_aux t of Some (_, d) \<Rightarrow> min xmr_difficulty d | None \<Rightarrow> difficulty),
          ct_height = tm_height t, ct_idHash = [], bt_coin = tm_coin t, bt_seed_hash = tm_seed_hash t, bt_xmr_difficulty = xmr_difficulty,
          bt_xtm_height = map_option fst (tm_aux t), bt_xtm_difficulty = map_option snd (tm_aux t),
          bt_hash = None, bt_buffer = [], bt_block_version = 0, bt_reserved_offset = 0, bt_own_nonce = False, bt_extraNonce = 0,
          bt_disableProxyNonce = tm_no_proxy_nonce t, bt_clientNonceLocation = None, bt_clientPoolLocation = None\<rparr>)"

text \<open>\<open>None\<close>: the constructor throws.\<close>

definition BlockTemplate :: "template_config \<Rightarrow> template_msg \<Rightarrow> block_template option" where
  "BlockTemplate cfg t =
     (let base = blockTemplate_base t
      in if tm_blob t = [] \<and> tc_hashOnly cfg
         then map_option (\<lambda>h. base\<lparr>bt_hash := Some h, ct_idHash := h\<rparr>) (tm_hash t)
         else if tm_is_mm t \<and> tm_parent_blob t = None then None
         else
           let blob = (if tm_is_mm t then the (tm_parent_blob t) else if tm_blob t = [] then tc_merged_hex cfg else tm_blob t);
               buffer = bytes_of_hex blob;
               offset = (case getReservedOffset t cfg blob of Some n \<Rightarrow> n | None \<Rightarrow> 0);
               made = base\<lparr>ct_idHash := tc_idHash cfg blob, bt_buffer := buffer, bt_block_version := (case buffer of [] \<Rightarrow> 0 | b # _ \<Rightarrow> unat b),
                           bt_reserved_offset := offset\<rparr>
           in Some (if (case tm_bt_nonce_size t of None \<Rightarrow> True | Some n \<Rightarrow> 16 \<le> n)
                    then made\<lparr>bt_buffer := copyAt buffer (offset + 4) (tc_instanceId cfg),
                              bt_clientNonceLocation := (if bt_disableProxyNonce base then None else Some (offset + 12)),
                              bt_clientPoolLocation := (if bt_disableProxyNonce base then None else Some (offset + 8))\<rparr>
                    else made\<lparr>bt_own_nonce := True\<rparr>))"

text \<open>The next extra nonce in the buffer; the number is counted even if the write throws.\<close>

definition nextNonce :: "block_template \<Rightarrow> bool \<times> block_template" where
  "nextNonce bt =
     (let n = bt_extraNonce bt + 1; bt1 = bt\<lparr>bt_extraNonce := n\<rparr>
      in case writeUInt32BE n (bt_reserved_offset bt) (bt_buffer bt) of
           None \<Rightarrow> (False, bt1)
         | Some buf \<Rightarrow> (True, bt1\<lparr>bt_buffer := buf\<rparr>))"

type_synonym blob_result = "string + string option"

definition nextBlobHex :: "(byte list \<Rightarrow> int \<Rightarrow> byte list option) \<Rightarrow> block_template \<Rightarrow> blob_result \<times> block_template" where
  "nextBlobHex convertBlob bt =
     (let convert = (\<lambda>bt. map_option hex_of_bytes (convertBlob (bt_buffer bt) (ct_port bt)))
      in case bt_hash bt of
           Some h \<Rightarrow> (Inr (Some h), bt)
         | None \<Rightarrow>
             if bt_own_nonce bt then (Inr (convert bt), bt)
             else let (done, bt1) = nextNonce bt in (if done then Inr (convert bt1) else Inl ''RangeError'', bt1))"

definition nextBlobWithChildNonceHex :: "block_template \<Rightarrow> blob_result \<times> block_template" where
  "nextBlobWithChildNonceHex bt =
     (if bt_own_nonce bt then (Inr None, bt)
      else let (done, bt1) = nextNonce bt in (if done then Inr (Some (hex_of_bytes (bt_buffer bt1))) else Inl ''RangeError'', bt1))"

subsection \<open>No work twice\<close>

lemma length_be [simp]: "length (be_bytes n) = 4"
  by (simp add: be_bytes_def)

lemma be_inj: "be_bytes a = be_bytes b \<Longrightarrow> a < 2 ^ 32 \<Longrightarrow> b < 2 ^ 32 \<Longrightarrow> a = b"
proof -
  assume a: "be_bytes a = be_bytes b" "a < 2 ^ 32" "b < 2 ^ 32"
  then have "le_value (le_bytes 4 a) = le_value (le_bytes 4 b)" by (simp add: be_bytes_def)
  with a show "a = b" by (simp add: le_value_bytes)
qed

lemma hex_of_bytes_append: "hex_of_bytes (xs @ ys) = hex_of_bytes xs @ hex_of_bytes ys"
  by (simp add: hex_of_bytes_def)

lemma hex_digit_value: "n < 16 \<Longrightarrow> hex_value (lower_char (hex_digit n)) = Some n"
proof -
  have "list_all (\<lambda>k. hex_value (lower_char (hex_digit k)) = Some k) [0..<16]"
    by (simp add: upt_rec hex_digit_def hex_value_def lower_char_def Let_def)
  then show "n < 16 \<Longrightarrow> ?thesis" by (simp add: list_all_iff)
qed

lemma bytes_of_hex_of_bytes: "bytes_of_hex (hex_of_bytes bs) = bs"
proof (induction bs)
  case (Cons b bs)
  have "unat b < 256" using unsigned_less [of b] by simp
  then have "hex_value (lower_char (hex_digit (unat b div 16))) = Some (unat b div 16)" by (intro hex_digit_value) auto
  moreover have "hex_value (lower_char (hex_digit (unat b mod 16))) = Some (unat b mod 16)" by (intro hex_digit_value) auto
  moreover have "word_of_nat (16 * (unat b div 16) + unat b mod 16) = b" by simp
  ultimately show ?case using Cons by (simp add: hex_of_bytes_def)
qed (simp add: hex_of_bytes_def)

lemma hex_inj: "hex_of_bytes xs = hex_of_bytes ys \<Longrightarrow> xs = ys"
  by (metis bytes_of_hex_of_bytes)

definition handed :: "nat \<Rightarrow> block_template \<Rightarrow> block_template" where
  "handed k = (snd \<circ> nextNonce) ^^ k"

definition has_room :: "block_template \<Rightarrow> bool" where
  "has_room bt \<longleftrightarrow> bt_hash bt = None \<and> \<not> bt_own_nonce bt \<and> bt_reserved_offset bt + 8 \<le> length (bt_buffer bt)"

lemma next_nonce:
  "has_room bt \<Longrightarrow> bt_extraNonce bt + 1 < 2 ^ 32 \<Longrightarrow>
   nextNonce bt = (True, bt\<lparr>bt_extraNonce := bt_extraNonce bt + 1,
     bt_buffer := writeAt (bt_buffer bt) (bt_reserved_offset bt) (be_bytes (bt_extraNonce bt + 1))\<rparr>)"
  by (simp add: nextNonce_def writeUInt32BE_def has_room_def Let_def)

lemma write_twice: "off + length xs \<le> length buf \<Longrightarrow> length ys = length xs \<Longrightarrow> writeAt (writeAt buf off xs) off ys = writeAt buf off ys"
  by (simp add: writeAt_def)

lemma handed_buffer:
  assumes "has_room bt" "bt_extraNonce bt = 0" "k < 2 ^ 32"
  shows "handed k bt = bt\<lparr>bt_extraNonce := k, bt_buffer := (if k = 0 then bt_buffer bt else writeAt (bt_buffer bt) (bt_reserved_offset bt) (be_bytes k))\<rparr>"
  using assms(3)
proof (induction k)
  case 0
  then show ?case using assms(2) by (simp add: handed_def)
next
  case (Suc k)
  have h: "handed (Suc k) bt = snd (nextNonce (handed k bt))" by (simp add: handed_def)
  have ih: "handed k bt = bt\<lparr>bt_extraNonce := k, bt_buffer := (if k = 0 then bt_buffer bt else writeAt (bt_buffer bt) (bt_reserved_offset bt) (be_bytes k))\<rparr>"
    using Suc by simp
  have "has_room (handed k bt)" using assms(1) by (simp add: ih has_room_def)
  moreover have "bt_extraNonce (handed k bt) + 1 < 2 ^ 32" using Suc.prems by (simp add: ih)
  ultimately show ?case unfolding h using assms(1)
    by (simp add: next_nonce) (simp add: ih write_twice has_room_def)
qed

lemma template_buffer:
  assumes "BlockTemplate cfg t = Some bt" "has_room bt" "length (tc_instanceId cfg) = 4"
  shows "bt_extraNonce bt = 0" "readAt (bt_buffer bt) (bt_reserved_offset bt + 4) 4 = tc_instanceId cfg"
proof -
  show "bt_extraNonce bt = 0"
    using assms(1) by (auto simp: BlockTemplate_def blockTemplate_base_def Let_def split: if_splits)
  obtain buf where b: "bt_buffer bt = copyAt buf (bt_reserved_offset bt + 4) (tc_instanceId cfg)"
    using assms(1,2) by (auto simp: BlockTemplate_def blockTemplate_base_def has_room_def Let_def split: if_splits)
  have room: "bt_reserved_offset bt + 4 + 4 \<le> length buf"
  proof (rule ccontr)
    assume "\<not> ?thesis"
    then have "length (bt_buffer bt) < bt_reserved_offset bt + 8"
      unfolding b by (auto simp: copyAt_def writeAt_def Let_def min_def)
    with assms(2) show False by (simp add: has_room_def)
  qed
  then have "bt_buffer bt = writeAt buf (bt_reserved_offset bt + 4) (tc_instanceId cfg)"
    using assms(3) by (simp add: b copyAt_def Let_def)
  then show "readAt (bt_buffer bt) (bt_reserved_offset bt + 4) 4 = tc_instanceId cfg"
    using read_written [of "bt_reserved_offset bt + 4" "tc_instanceId cfg" buf] room assms(3) by simp
qed

lemma instance_inj:
  assumes "instanceId p q = instanceId p' q'"
  shows "p mod 2 ^ 10 = p' mod 2 ^ 10 \<and> q mod 2 ^ 22 = q' mod 2 ^ 22"
proof -
  have less: "p mod 2 ^ 10 * 2 ^ 22 + q mod 2 ^ 22 < 2 ^ 32" for p q :: nat
  proof -
    have "p mod 2 ^ 10 \<le> 2 ^ 10 - 1" "q mod 2 ^ 22 < 2 ^ 22" by simp_all
    then show ?thesis by simp
  qed
  have "le_value (instanceId p q) = p mod 2 ^ 10 * 2 ^ 22 + q mod 2 ^ 22" for p q
    using less [of p q] by (simp add: instanceId_def le_value_bytes)
  then have e: "p mod 2 ^ 10 * 2 ^ 22 + q mod 2 ^ 22 = p' mod 2 ^ 10 * 2 ^ 22 + q' mod 2 ^ 22" using assms by metis
  have "(p mod 2 ^ 10 * 2 ^ 22 + q mod 2 ^ 22) div 2 ^ 22 = p mod 2 ^ 10" for p q :: nat by simp
  moreover have "(p mod 2 ^ 10 * 2 ^ 22 + q mod 2 ^ 22) mod 2 ^ 22 = q mod 2 ^ 22" for p q :: nat by simp
  ultimately show ?thesis using e by metis
qed

end
