(* ===== verification/Miner_Jobs.thy ===== *)
theory Miner_Jobs
  imports Block_Template Circular_Buffer
begin

text \<open>
  The jobs of miners: \<open>src/lib/pool/jobs.js\<close>, which turns the template of a coin into work of a
  miner's difficulty, with \<open>getCoinJobParams\<close> of \<open>templates.js\<close> and \<open>retargetMiners\<close> of
  \<open>miner_registry.js\<close>. What is sent of a job is formatted by the handlers of the coin's profile; the
  model keeps the job and its blob instead. The id of a job and a miner's own extra nonce come
  from generators of the pool and are parameters.
\<close>

subsection \<open>Jobs\<close>

datatype job_nonce = Own_nonce string | Template_nonce nat

record job =
  jb_id :: string
  jb_coin :: string
  jb_blob_type_num :: int
  jb_blockHash :: string
  jb_height :: int
  jb_difficulty :: num
  jb_norm_diff :: num
  jb_coinHashFactor :: num
  jb_hashesPerDifficulty :: num
  jb_coinDifficultyFactor :: num
  jb_extraNonce :: "job_nonce option"
  jb_seed_hash :: "string option"
  jb_usesProxyNonce :: bool
  jb_clientPoolLocation :: "nat option"
  jb_clientNonceLocation :: "nat option"

text \<open>What the handlers of a profile are asked to format.\<close>

record job_payload =
  jp_blob :: "string option"
  jp_job :: job

record job_miner = "job_payload vd_miner" +
  jm_port :: int
  jm_validJobs :: "job circular_buffer"
  jm_eth_extranonce :: "string option"
  jm_mo_native :: bool
  jm_grin :: bool
  jm_nativeJobAlgo :: "string option"

record pool_settings =
  ps_integerDifficulty :: bool
  ps_sharedTemplateNonces :: bool
  ps_requiresExtranonce :: bool
  ps_disableProxyNonce :: bool
  ps_useEthJobId :: bool

record job_params =
  jp_coinHashFactor :: num
  jp_hashesPerDifficulty :: num
  jp_algo_name :: string

record job_env =
  je_coin :: coin_env
  je_settings :: "coin_profile \<Rightarrow> pool_settings"
  je_newId :: string
  je_newEthJobId :: string
  je_extranonce :: "string option"
  je_convertBlob :: "byte list \<Rightarrow> int \<Rightarrow> byte list option"

definition truthyDiff :: "num option option \<Rightarrow> bool" where
  "truthyDiff d = (case d of Some (Some x) \<Rightarrow> x \<noteq> 0 | Some None \<Rightarrow> True | None \<Rightarrow> False)"

definition takeDifficulty :: "job_miner \<Rightarrow> job_miner" where
  "takeDifficulty m =
     (if truthyDiff (vm_newDiffToSet m)
      then m\<lparr>vm_difficulty := the (vm_newDiffToSet m), vm_newDiffToSet := None, vm_newDiffRecommendation := None\<rparr>
      else if truthyDiff (vm_newDiffRecommendation m)
      then m\<lparr>vm_difficulty := the (vm_newDiffRecommendation m), vm_newDiffRecommendation := None\<rparr> else m)"

text \<open>A quotient by a factor of \<open>0\<close> is \<open>Infinity\<close>.\<close>

definition coinDiff :: "pool_settings \<Rightarrow> job_params \<Rightarrow> block_template \<Rightarrow> job_miner \<Rightarrow> num" where
  "coinDiff settings params bt m =
     (let factor = fl (jp_coinHashFactor params * jp_hashesPerDifficulty params);
          d = (case vm_difficulty m of
                 Some x \<Rightarrow> if factor = 0 then ct_difficulty bt else min (max (fl (x / factor)) (vm_curr_coin_min_diff m)) (ct_difficulty bt)
               | None \<Rightarrow> ct_difficulty bt)
      in if ps_integerDifficulty settings then js_floor d else d)"

definition buildJob ::
  "string \<Rightarrow> string \<Rightarrow> block_template \<Rightarrow> int \<Rightarrow> num \<Rightarrow> job_params \<Rightarrow> job_nonce option \<Rightarrow> bool \<Rightarrow> job" where
  "buildJob jid coin bt blobTypeNum diff params extraNonce usesProxyNonce =
     (let coinDifficultyFactor = fl (jp_coinHashFactor params * jp_hashesPerDifficulty params)
      in \<lparr>jb_id = jid, jb_coin = coin, jb_blob_type_num = blobTypeNum, jb_blockHash = ct_idHash bt, jb_height = ct_height bt,
          jb_difficulty = diff, jb_norm_diff = fl (diff * coinDifficultyFactor), jb_coinHashFactor = jp_coinHashFactor params,
          jb_hashesPerDifficulty = jp_hashesPerDifficulty params, jb_coinDifficultyFactor = coinDifficultyFactor,
          jb_extraNonce = extraNonce, jb_seed_hash = bt_seed_hash bt, jb_usesProxyNonce = usesProxyNonce,
          jb_clientPoolLocation = (if usesProxyNonce then bt_clientPoolLocation bt else None),
          jb_clientNonceLocation = (if usesProxyNonce then bt_clientNonceLocation bt else None)\<rparr>)"

definition templateNonce :: "block_template \<Rightarrow> job_nonce option" where
  "templateNonce bt = (if bt_hash bt \<noteq> None then None else Some (Template_nonce (bt_extraNonce bt)))"

definition keepJob :: "string option \<Rightarrow> job \<Rightarrow> job_miner \<Rightarrow> job_payload \<times> job_miner" where
  "keepJob blobHex newJob m =
     (let payload = \<lparr>jp_blob = blobHex, jp_job = newJob\<rparr>
      in (payload, m\<lparr>jm_validJobs := cb_enq newJob (jm_validJobs m), vm_cachedJob := Some payload\<rparr>))"

definition usesProxyNonce :: "pool_settings \<Rightarrow> block_template \<Rightarrow> job_miner \<Rightarrow> bool" where
  "usesProxyNonce settings bt m \<longleftrightarrow> vm_proxy m \<and> \<not> ps_sharedTemplateNonces settings \<and> \<not> ps_disableProxyNonce settings \<and>
     \<not> bt_disableProxyNonce bt \<and> bt_clientPoolLocation bt \<noteq> None \<and> bt_clientNonceLocation bt \<noteq> None"

text \<open>The part of \<open>getCoinJob\<close> that makes the job, once the difficulty is taken over.\<close>

definition makeJob ::
  "job_env \<Rightarrow> string \<Rightarrow> job_params \<Rightarrow> coin_profile \<Rightarrow> block_template \<Rightarrow> job_miner \<Rightarrow>
   (string + job_payload option) \<times> job_miner \<times> block_template" where
  "makeJob params coin jp profile bt m =
     (let settings = je_settings params profile; diff = coinDiff settings jp bt m; blobTypeNum = cp_blobType profile
      in if \<not> usesProxyNonce settings bt m
         then case nextBlobHex (je_convertBlob params) bt of
                (Inl e, bt1) \<Rightarrow> (Inl e, m, bt1)
              | (Inr None, bt1) \<Rightarrow> (Inr None, m, bt1)
              | (Inr (Some blobHex), bt1) \<Rightarrow>
                  if blobHex = [] then (Inr None, m, bt1)
                  else
                    let extraNonce = (if ps_sharedTemplateNonces settings then map_option Own_nonce (jm_eth_extranonce m) else templateNonce bt1);
                        jid = (if ps_useEthJobId settings then je_newEthJobId params else je_newId params);
                        (payload, m1) = keepJob (Some blobHex) (buildJob jid coin bt1 blobTypeNum diff jp extraNonce False) m
                    in (Inr (Some payload), m1, bt1)
         else case nextBlobWithChildNonceHex bt of
                (Inl e, bt1) \<Rightarrow> (Inl e, m, bt1)
              | (Inr blobHex, bt1) \<Rightarrow>
                  let (payload, m1) = keepJob blobHex (buildJob (je_newId params) coin bt1 blobTypeNum diff jp (templateNonce bt1) True) m
                  in (Inr (Some payload), m1, bt1))"

definition profileOf :: "job_env \<Rightarrow> profile_key \<Rightarrow> coin_profile option" where
  "profileOf params key = resolveProfileKey (ce_registry (je_coin params)) (ce_mainProfile (je_coin params)) key"

definition getCoinJob ::
  "job_env \<Rightarrow> string \<Rightarrow> job_params \<Rightarrow> block_template \<Rightarrow> job_miner \<Rightarrow>
   (string + job_payload option) \<times> job_miner \<times> block_template" where
  "getCoinJob params coin jp bt m =
     (if vm_jobLastBlockHash m = Some (ct_idHash bt) \<and> \<not> truthyDiff (vm_newDiffToSet m) \<and> vm_cachedJob m \<noteq> None then (Inr None, m, bt)
      else
        let m1 = takeDifficulty (m\<lparr>vm_jobLastBlockHash := Some (ct_idHash bt)\<rparr>)
        in case profileOf params (Port_key (ct_port bt)) of
             None \<Rightarrow> (Inl ''Pool profile has no job handlers'', m1, bt)
           | Some profile \<Rightarrow>
               let settings = je_settings params profile;
                   needsNativeExtranonce = (jm_mo_native m1 \<and> (ps_sharedTemplateNonces settings \<or> ps_requiresExtranonce settings))
               in if needsNativeExtranonce \<and> jm_eth_extranonce m1 = None
                  then case je_extranonce params of
                         None \<Rightarrow> (Inr None, m1, bt)
                       | Some n \<Rightarrow> makeJob params coin jp profile bt (m1\<lparr>jm_eth_extranonce := Some n\<rparr>)
                  else makeJob params coin jp profile bt m1)"

subsection \<open>Sending jobs\<close>

datatype job_msg = Set_extranonce string string | Get_job_template job_payload | Push_job job_payload bool

definition sendCoinJob :: "job_env \<Rightarrow> string \<Rightarrow> job_params \<Rightarrow> job_payload option \<Rightarrow> job_miner \<Rightarrow> (string + job_msg list) \<times> job_miner" where
  "sendCoinJob params coin jp job m =
     (case job of
        None \<Rightarrow> (Inr [], m)
      | Some payload \<Rightarrow>
          (case profileOf params (Name_key coin) of
             None \<Rightarrow> (Inl ''Pool profile has no job handlers'', m)
           | Some profile \<Rightarrow>
               if jm_grin m then (Inr [Get_job_template payload], m)
               else
                 let native = jm_mo_native m; changed = (native \<and> jm_nativeJobAlgo m \<noteq> Some (jp_algo_name jp));
                     extra = (case jm_eth_extranonce m of
                                Some n \<Rightarrow> if changed \<and> ps_requiresExtranonce (je_settings params profile) then [Set_extranonce n (jp_algo_name jp)] else []
                              | None \<Rightarrow> []);
                     m1 = (if native then m\<lparr>jm_nativeJobAlgo := Some (jp_algo_name jp)\<rparr> else m)
                 in (Inr (extra @ [Push_job payload native]), m1)))"

type_synonym templates = "string \<Rightarrow> block_template option"

definition coinEnv :: "job_env \<Rightarrow> templates \<Rightarrow> coin_env" where
  "coinEnv params ts = (je_coin params)\<lparr>ce_activeBlockTemplates := (\<lambda>c. map_option coin_template.truncate (ts c))\<rparr>"

text \<open>\<open>None\<close>: it throws, there is no template.\<close>

definition getCoinJobParams :: "job_env \<Rightarrow> templates \<Rightarrow> string \<Rightarrow> (block_template \<times> job_params) option" where
  "getCoinJobParams params ts coin =
     (case ts coin of
        None \<Rightarrow> None
      | Some bt \<Rightarrow> Some (bt,
          \<lparr>jp_coinHashFactor = (case ce_lastCoinHashFactorMM (je_coin params) coin of Some f \<Rightarrow> f | None \<Rightarrow> 0),
           jp_hashesPerDifficulty = getPoolHashesPerDifficulty (profileOf params (Port_key (ct_port bt))),
           jp_algo_name = algoShortTypeStr (ce_registry (je_coin params)) (ct_port bt)\<rparr>))"

definition sendJobOf :: "job_env \<Rightarrow> string option \<Rightarrow> job_miner \<Rightarrow> templates \<Rightarrow> (string + job_msg list) \<times> job_miner \<times> templates" where
  "sendJobOf params chosen m ts =
     (case chosen of
        None \<Rightarrow> (Inr [], m, ts)
      | Some coin \<Rightarrow>
          (case getCoinJobParams params ts coin of
             None \<Rightarrow> (Inl ''No active block template'', m, ts)
           | Some (bt, jp) \<Rightarrow>
               (case getCoinJob params coin jp bt m of
                  (Inl e, m1, bt1) \<Rightarrow> (Inl e, m1, ts(coin \<mapsto> bt1))
                | (Inr job, m1, bt1) \<Rightarrow> let (r, m2) = sendCoinJob params coin jp job m1 in (r, m2, ts(coin \<mapsto> bt1)))))"

definition sendBestCoinJob :: "job_env \<Rightarrow> int \<Rightarrow> job_miner \<Rightarrow> templates \<Rightarrow> (string + job_msg list) \<times> job_miner \<times> templates" where
  "sendBestCoinJob params now m ts = (let (coin, m1) = selectBestCoin (coinEnv params ts) now m in sendJobOf params coin m1 ts)"

definition sendSameCoinJob :: "job_env \<Rightarrow> int \<Rightarrow> job_miner \<Rightarrow> templates \<Rightarrow> (string + job_msg list) \<times> job_miner \<times> templates" where
  "sendSameCoinJob params now m ts =
     (case vm_curr_coin m of
        Unset \<Rightarrow> sendBestCoinJob params now m ts
      | No_coin \<Rightarrow> (Inr [], m, ts)
      | Coin coin \<Rightarrow> sendJobOf params (Some coin) m ts)"

text \<open>\<open>Inr None\<close> in the outer option: there is no coin for the miner.\<close>

definition getBestCoinJob :: "job_env \<Rightarrow> int \<Rightarrow> job_miner \<Rightarrow> templates \<Rightarrow> (string + job_payload option option) \<times> job_miner \<times> templates" where
  "getBestCoinJob params now m ts =
     (case selectBestCoin (coinEnv params ts) now m of
        (None, m1) \<Rightarrow> (Inr None, m1, ts)
      | (Some coin, m1) \<Rightarrow>
          (case getCoinJobParams params ts coin of
             None \<Rightarrow> (Inl ''No active block template'', m1, ts)
           | Some (bt, jp) \<Rightarrow>
               (case getCoinJob params coin jp bt m1 of
                  (Inl e, m2, bt1) \<Rightarrow> (Inl e, m2, ts(coin \<mapsto> bt1))
                | (Inr job, m2, bt1) \<Rightarrow> (Inr (Some job), m2, ts(coin \<mapsto> bt1)))))"

subsection \<open>Retargeting all miners\<close>

text \<open>
  The miners after a pass, what each was sent, and what proxies, wallets, templates and the count of
  miners by port became; a throw ends it. The count is what a worker reports to the master process.
\<close>

type_synonym miner_count = "int \<Rightarrow> nat option"

definition countMiner :: "job_miner \<Rightarrow> miner_count \<Rightarrow> miner_count" where
  "countMiner m minerCount = minerCount(jm_port m \<mapsto> (case minerCount (jm_port m) of Some n \<Rightarrow> n | None \<Rightarrow> 0) + 1)"

fun retargetScan ::
  "job_env \<Rightarrow> int \<Rightarrow> job_miner list \<Rightarrow> rate_state \<Rightarrow> templates \<Rightarrow> miner_count \<Rightarrow>
   string option \<times> (job_miner \<times> job_msg list) list \<times> rate_state \<times> templates \<times> miner_count" where
  "retargetScan params now [] rs ts minerCount = (None, [], rs, ts, minerCount)"
| "retargetScan params now (m # ms) rs ts minerCount =
     (let (changed, m1, rs1) = adjustMinerDiff (coinEnv params ts) now m rs;
          (r, m2, ts1) = (if changed then sendSameCoinJob params now m1 ts else (Inr [], m1, ts))
      in case r of
           Inl e \<Rightarrow> (Some e, (m2, []) # map (\<lambda>m. (m, [])) ms, rs1, ts1, minerCount)
         | Inr sent \<Rightarrow> let (e, out, rest) = retargetScan params now ms rs1 ts1 (countMiner m2 minerCount) in (e, (m2, sent) # out, rest))"

definition retargetMiners ::
  "job_env \<Rightarrow> int \<Rightarrow> int list \<Rightarrow> job_miner list \<Rightarrow> rate_state \<Rightarrow> templates \<Rightarrow>
   string option \<times> (job_miner \<times> job_msg list) list \<times> rate_state \<times> templates \<times> miner_count" where
  "retargetMiners params now ports ms rs ts = retargetScan params now ms rs ts (map_of (map (\<lambda>port. (port, 0)) ports))"

end
