(* ===== verification/Difficulty_Properties.thy ===== *)
theory Difficulty_Properties
  imports Miner_Difficulty
begin

text \<open>The properties of the coin registry and of the miners' difficulties and coins.\<close>

subsection \<open>Algorithms and their aliases\<close>

definition aliased :: "coin_registry \<Rightarrow> string \<Rightarrow> string \<Rightarrow> bool" where
  "aliased r algo alias \<longleftrightarrow> (\<exists>as. rg_minerAlgoAliases r algo = Some as \<and> alias \<in> set as)"

definition canonical_of :: "coin_registry \<Rightarrow> string \<Rightarrow> string \<Rightarrow> bool" where
  "canonical_of r alias algo \<longleftrightarrow> (\<exists>cs. rg_canonicalAlgosByAlias r alias = Some cs \<and> algo \<in> set cs)"

text \<open>The two alias tables are inverse to each other.\<close>

definition inverse_tables :: "coin_registry \<Rightarrow> bool" where
  "inverse_tables r \<longleftrightarrow> (\<forall>algo alias. aliased r algo alias \<longleftrightarrow> canonical_of r alias algo)"

lemma set_addKey [simp]: "set (addKey k ks) = insert k (set ks)"
  by (auto simp: addKey_def)

lemma pushed: "(\<exists>xs. pushTo k x m k' = Some xs \<and> y \<in> set xs) \<longleftrightarrow> k' = k \<and> y = x \<or> (\<exists>xs. m k' = Some xs \<and> y \<in> set xs)"
  by (auto simp: pushTo_def split: option.split)

lemma alias_tables: "inverse_tables r \<Longrightarrow> inverse_tables (registerAlias algo alias r)"
  by (auto simp: inverse_tables_def aliased_def canonical_of_def registerAlias_def pushed)

lemma aliases_tables: "inverse_tables r \<Longrightarrow> inverse_tables (fold (registerAlias algo) as r)"
  by (induction as arbitrary: r) (auto intro: alias_tables)

lemma miner_aliases_tables: "inverse_tables r \<Longrightarrow> inverse_tables (registerMinerAlgoAliases profile r)"
proof -
  have step: "inverse_tables (r\<lparr>rg_minerAlgoAliases := (case rg_minerAlgoAliases r algo of None \<Rightarrow> (rg_minerAlgoAliases r)(algo \<mapsto> []) | _ \<Rightarrow> rg_minerAlgoAliases r)\<rparr>)"
    if "inverse_tables r" for r algo
  proof -
    have "aliased (r\<lparr>rg_minerAlgoAliases := (case rg_minerAlgoAliases r algo of None \<Rightarrow> (rg_minerAlgoAliases r)(algo \<mapsto> []) | _ \<Rightarrow> rg_minerAlgoAliases r)\<rparr>) a b
        \<longleftrightarrow> aliased r a b" for a b
      by (auto simp: aliased_def split: option.split)
    then show ?thesis using that by (simp add: inverse_tables_def canonical_of_def)
  qed
  have "inverse_tables (fold (\<lambda>(algo, aliases) r. fold (registerAlias algo) aliases
      (r\<lparr>rg_minerAlgoAliases := (case rg_minerAlgoAliases r algo of None \<Rightarrow> (rg_minerAlgoAliases r)(algo \<mapsto> []) | _ \<Rightarrow> rg_minerAlgoAliases r)\<rparr>)) xs r)"
    if "inverse_tables r" for xs r
    using that by (induction xs arbitrary: r) (auto intro: aliases_tables step)
  then show "inverse_tables r \<Longrightarrow> inverse_tables (registerMinerAlgoAliases profile r)" by (simp add: registerMinerAlgoAliases_def)
qed

lemma profile_tables: "inverse_tables r \<Longrightarrow> inverse_tables (registerProfile profile r)"
proof -
  assume "inverse_tables r"
  then have "inverse_tables (registerProfilePerf profile (registerProfileBasics profile r))"
    by (simp add: inverse_tables_def aliased_def canonical_of_def registerProfileBasics_def registerProfilePerf_def Let_def)
  from miner_aliases_tables [OF this, of profile] show ?thesis
    by (simp add: registerProfile_def Let_def inverse_tables_def aliased_def canonical_of_def)
qed

lemma registry_tables: "inverse_tables (loadRegistry ps)"
proof -
  have "inverse_tables (fold registerProfile xs r)" if "inverse_tables r" for xs r
    using that by (induction xs arbitrary: r) (auto intro: profile_tables)
  moreover have "inverse_tables (noProfiles xs)" for xs by (simp add: inverse_tables_def aliased_def canonical_of_def noProfiles_def)
  ultimately have "inverse_tables (fold registerProfile xs (noProfiles xs))" for xs by blast
  then show ?thesis by (simp add: loadRegistry_def Let_def inverse_tables_def aliased_def canonical_of_def)
qed

lemma has_key_update: "has_key k (AList.update k' v m) \<longleftrightarrow> k = k' \<or> has_key k m"
  by (auto simp: has_key_def update_conv' simp flip: dom_map_of_conv_image_fst split: if_splits)

lemma has_key_updates: "has_key k (fold (\<lambda>c n. AList.update c v n) cs m) \<longleftrightarrow> k \<in> set cs \<or> has_key k m"
  by (induction cs arbitrary: m) (auto simp: has_key_update)

lemma normalized_keys:
  "has_key k (normalizeMinerAlgos r algos) \<longleftrightarrow> has_key k algos \<or> (\<exists>a. has_key a algos \<and> canonical_of r a k)"
proof -
  let ?step = "\<lambda>(algo, value) n. fold (\<lambda>c n. AList.update c value n) (case rg_canonicalAlgosByAlias r algo of Some cs \<Rightarrow> cs | None \<Rightarrow> []) (AList.update algo value n)"
  have "has_key k (fold ?step xs m) \<longleftrightarrow> has_key k m \<or> (\<exists>x \<in> set xs. k = fst x \<or> canonical_of r (fst x) k)" for xs m
  proof (induction xs arbitrary: m)
    case (Cons x xs)
    have "has_key k (?step x m) \<longleftrightarrow> has_key k m \<or> k = fst x \<or> canonical_of r (fst x) k"
      by (auto simp: has_key_updates has_key_update canonical_of_def split: option.splits prod.splits)
    then show ?case by (auto simp: Cons.IH)
  qed simp
  then show ?thesis by (force simp: normalizeMinerAlgos_def has_key_def)
qed

text \<open>C39. The pool's two views of aliases agree: a miner supports an algorithm of a coin, directly or
  by one of the aliases the profiles declare, exactly if the algorithm is among the miner's
  normalized ones.\<close>

theorem support_is_normalized:
  "isMinerSupportAlgo (loadRegistry ps) algo algos \<longleftrightarrow> has_key algo (normalizeMinerAlgos (loadRegistry ps) algos)"
proof -
  have "(\<exists>a. has_key a algos \<and> canonical_of (loadRegistry ps) a algo) \<longleftrightarrow> (\<exists>a. has_key a algos \<and> aliased (loadRegistry ps) algo a)"
    using registry_tables [of ps] by (auto simp: inverse_tables_def)
  then show ?thesis
    by (auto simp: normalized_keys isMinerSupportAlgo_def aliased_def list_ex_iff split: option.splits)
qed

subsection \<open>The best coin\<close>

definition stays :: "coin_env \<Rightarrow> int \<Rightarrow> ('p, 'x) vd_miner_scheme \<Rightarrow> bool" where
  "stays params now m \<longleftrightarrow> currentCoinSupported params m \<and> vm_curr_coin_time m \<noteq> 0 \<and>
     of_int (now - vm_curr_coin_time m) < fl (vm_algo_min_time m * 1000)"

lemma fold_best:
  "fold (considerCoin params m) cs (b, p) = (b', p') \<Longrightarrow>
   p \<le> p' \<and> (\<forall>c \<in> set cs. \<forall>w. coinWorth params m c = Some w \<longrightarrow> w \<le> p') \<and>
   (b' = b \<and> p' = p \<or> b' \<in> set cs \<and> coinWorth params m b' = Some p' \<and> p < p')"
proof (induction cs arbitrary: b p)
  case (Cons c cs)
  show ?case
  proof (cases "coinWorth params m c")
    case None
    then have "fold (considerCoin params m) cs (b, p) = (b', p')" using Cons.prems by (simp add: considerCoin_def [of params m c])
    from Cons.IH [OF this] None show ?thesis by auto
  next
    case (Some w)
    show ?thesis
    proof (cases "p < w")
      case True
      then have "fold (considerCoin params m) cs (c, w) = (b', p')" using Cons.prems Some by (simp add: considerCoin_def [of params m c])
      from Cons.IH [OF this] True Some show ?thesis by auto
    next
      case False
      then have "fold (considerCoin params m) cs (b, p) = (b', p')" using Cons.prems Some by (simp add: considerCoin_def [of params m c])
      from Cons.IH [OF this] False Some show ?thesis by auto
    qed
  qed
qed simp

definition highest :: "coin_env \<Rightarrow> ('p, 'x) vd_miner_scheme \<Rightarrow> string \<Rightarrow> bool" where
  "highest params m c \<longleftrightarrow>
     (\<exists>w \<ge> 0. (c = [] \<and> w = mainWorth m \<or> c \<in> set (ce_coins params) \<and> coinWorth params m c = Some w) \<and>
        mainWorth m \<le> w \<and> (\<forall>d \<in> set (ce_coins params). \<forall>v. coinWorth params m d = Some v \<longrightarrow> v \<le> w))"

definition unmeasured :: "coin_env \<Rightarrow> ('p, 'x) vd_miner_scheme \<Rightarrow> bool" where
  "unmeasured params m \<longleftrightarrow> mainWorth m < 0 \<and> (\<forall>d \<in> set (ce_coins params). \<forall>v. coinWorth params m d = Some v \<longrightarrow> v < 0)"

lemma best_coin_of:
  "case bestCoinOf params m of
     Some c \<Rightarrow> highest params m c \<or> unmeasured params m \<and> c \<in> set ([] # ce_coins params) \<and> workable params m c \<noteq> None
   | None \<Rightarrow> unmeasured params m \<and> (\<forall>c \<in> set ([] # ce_coins params). workable params m c = None)"
proof -
  obtain b p where f: "fold (considerCoin params m) (ce_coins params) ([], mainWorth m) = (b, p)" by force
  note best = fold_best [OF f]
  show ?thesis
  proof (cases "p < 0")
    case True
    with best have u: "unmeasured params m" unfolding unmeasured_def by (meson le_less_trans)
    have e: "bestCoinOf params m = find (\<lambda>c. workable params m c \<noteq> None) ([] # ce_coins params)"
      using True by (simp add: bestCoinOf_def f)
    show ?thesis
    proof (cases "bestCoinOf params m")
      case None
      then have "\<not> (\<exists>c. c \<in> set ([] # ce_coins params) \<and> workable params m c \<noteq> None)" unfolding e find_None_iff .
      then show ?thesis using u None by auto
    next
      case (Some c)
      then obtain i where "i < length ([] # ce_coins params)" "workable params m c \<noteq> None" "c = ([] # ce_coins params) ! i"
        unfolding e find_Some_iff by metis
      then have "c \<in> set ([] # ce_coins params)" "workable params m c \<noteq> None" by (metis nth_mem)+
      then show ?thesis using u Some by simp
    qed
  next
    case False
    with best have "highest params m b" unfolding highest_def by (intro exI [of _ p]) auto
    then show ?thesis using False by (simp add: bestCoinOf_def f)
  qed
qed

text \<open>C37. A miner is given the coin it earns most with. Unless it may not leave its coin yet, the
  choice is a coin whose worth, the miner's rate by the hash factor with the bonus for the coin it
  is on, nothing that it could be given work of exceeds, nor does the main coin with its own bonus;
  if nothing measured is worth anything it is a coin whose work the miner supports and is fast
  enough for; only where there is none, the miner gets no coin. Work of another coin is forgotten
  on a change.\<close>

theorem best_coin:
  assumes "selectBestCoin params now m = (r, m')"
  shows "case r of
      None \<Rightarrow> m' = m \<and> unmeasured params m \<and> (\<forall>c \<in> set ([] # ce_coins params). workable params m c = None)
    | Some c \<Rightarrow> vm_curr_coin m' = Coin c \<and>
        (\<forall>c0. vm_curr_coin m = Coin c0 \<and> c0 \<noteq> c \<longrightarrow> vm_cachedJob m' = None \<and> vm_jobLastBlockHash m' = None) \<and>
        (if stays params now m then m' = m
         else highest params m c \<or> unmeasured params m \<and> c \<in> set ([] # ce_coins params) \<and> workable params m c \<noteq> None)"
proof -
  have t: "vm_curr_coin (takeCoin params now c m) = Coin c" for c
    by (auto simp: takeCoin_def Let_def split: option.split)
  have j: "vm_cachedJob (takeCoin params now c m) = None \<and> vm_jobLastBlockHash (takeCoin params now c m) = None"
    if "vm_curr_coin m = Coin c0" "c0 \<noteq> c" for c c0
    using that by (auto simp: takeCoin_def Let_def split: option.split)
  show ?thesis
  proof (cases "stays params now m")
    case True
    then obtain c where "vm_curr_coin m = Coin c" by (auto simp: stays_def currentCoinSupported_def split: coin_choice.splits)
    with True assms show ?thesis by (auto simp: selectBestCoin_def stays_def)
  next
    case False
    then have e: "(r, m') = (case bestCoinOf params m of None \<Rightarrow> (None, m) | Some b \<Rightarrow> (Some b, takeCoin params now b m))"
      using assms by (auto simp: selectBestCoin_def stays_def split: coin_choice.splits)
    show ?thesis
    proof (cases "bestCoinOf params m")
      case None
      with e best_coin_of [of params m] show ?thesis by simp
    next
      case (Some c)
      then have "r = Some c" "m' = takeCoin params now c m" using e by simp_all
      with Some best_coin_of [of params m] False t [of c] j show ?thesis by simp
    qed
  qed
qed

subsection \<open>Retargeting\<close>





end
