(* ===== verification/Job_Properties.thy ===== *)
theory Job_Properties
  imports Miner_Jobs Difficulty_Properties
begin

text \<open>The properties of miners' jobs and of the templates they are made from.\<close>

subsection \<open>A job\<close>

lemma next_nonce_same:
  "nextNonce bt = (b, bt') \<Longrightarrow> coin_template.truncate bt' = coin_template.truncate bt \<and> bt_seed_hash bt' = bt_seed_hash bt"
  by (auto simp: nextNonce_def Let_def coin_template.defs split: option.splits)

lemma next_blob_same:
  "nextBlobHex conv bt = (r, bt') \<Longrightarrow> coin_template.truncate bt' = coin_template.truncate bt"
  "nextBlobWithChildNonceHex bt = (r, bt') \<Longrightarrow> coin_template.truncate bt' = coin_template.truncate bt"
  using next_nonce_same [of bt]
  by (auto simp: nextBlobHex_def nextBlobWithChildNonceHex_def Let_def split: option.splits if_splits prod.splits)

lemma truncate_fields:
  "coin_template.truncate bt' = coin_template.truncate bt \<Longrightarrow>
   ct_idHash bt' = ct_idHash bt \<and> ct_height bt' = ct_height bt \<and> ct_difficulty bt' = ct_difficulty bt \<and> ct_port bt' = ct_port bt"
  by (simp add: coin_template.defs)

lemma made_job:
  assumes "makeJob params coin jp profile bt m = (Inr (Some payload), m', bt')"
  shows "\<exists>jid nonce proxy. jp_job payload =
      buildJob jid coin bt' (cp_blobType profile) (coinDiff (je_settings params profile) jp bt m) jp nonce proxy \<and>
    m' = m\<lparr>jm_validJobs := cb_enq (jp_job payload) (jm_validJobs m), vm_cachedJob := Some payload\<rparr> \<and>
    coin_template.truncate bt' = coin_template.truncate bt"
proof (cases "usesProxyNonce (je_settings params profile) bt m")
  case True
  then show ?thesis using assms next_blob_same(2) [of bt]
    by (auto simp: makeJob_def keepJob_def Let_def split: prod.splits sum.splits) blast+
next
  case False
  then show ?thesis using assms next_blob_same(1) [of "je_convertBlob params" bt]
    by (auto simp: makeJob_def keepJob_def Let_def split: prod.splits sum.splits option.splits if_splits) blast+
qed

lemma job_made:
  assumes "getCoinJob params coin jp bt m = (Inr (Some payload), m', bt')"
  shows "\<exists>profile jid nonce proxy n. profileOf params (Port_key (ct_port bt)) = Some profile \<and>
    jp_job payload = buildJob jid coin bt' (cp_blobType profile)
      (coinDiff (je_settings params profile) jp bt (takeDifficulty (m\<lparr>vm_jobLastBlockHash := Some (ct_idHash bt)\<rparr>))) jp nonce proxy \<and>
    m' = (takeDifficulty (m\<lparr>vm_jobLastBlockHash := Some (ct_idHash bt)\<rparr>))
      \<lparr>jm_eth_extranonce := n, jm_validJobs := cb_enq (jp_job payload) (jm_validJobs m), vm_cachedJob := Some payload\<rparr> \<and>
    coin_template.truncate bt' = coin_template.truncate bt"
proof -
  let ?m = "takeDifficulty (m\<lparr>vm_jobLastBlockHash := Some (ct_idHash bt)\<rparr>)"
  have jobs: "jm_validJobs ?m = jm_validJobs m" by (simp add: takeDifficulty_def)
  have diff: "coinDiff settings jp bt (m0\<lparr>jm_eth_extranonce := n\<rparr>) = coinDiff settings jp bt m0" for settings m0 n
    by (simp add: coinDiff_def Let_def split: option.split)
  obtain profile where p: "profileOf params (Port_key (ct_port bt)) = Some profile"
    using assms by (auto simp: getCoinJob_def Let_def split: if_splits option.splits)
  have "\<exists>m1. makeJob params coin jp profile bt m1 = (Inr (Some payload), m', bt') \<and> (m1 = ?m \<or> (\<exists>n. m1 = ?m\<lparr>jm_eth_extranonce := n\<rparr>))"
    using assms p by (auto simp: getCoinJob_def Let_def split: if_splits option.splits)
  then obtain m1 where m1: "makeJob params coin jp profile bt m1 = (Inr (Some payload), m', bt')"
    "m1 = ?m \<or> (\<exists>n. m1 = ?m\<lparr>jm_eth_extranonce := n\<rparr>)" by blast
  have "?m = ?m\<lparr>jm_eth_extranonce := jm_eth_extranonce ?m\<rparr>" by simp
  with m1(2) obtain n where "m1 = ?m\<lparr>jm_eth_extranonce := n\<rparr>" by metis
  with m1(1) have n: "makeJob params coin jp profile bt (?m\<lparr>jm_eth_extranonce := n\<rparr>) = (Inr (Some payload), m', bt')" by simp
  from made_job [OF n] p show ?thesis unfolding diff by (fastforce simp: jobs)
qed

text \<open>C36. The work a miner gets is fair: its difficulty is never above that of the block, and not below the
  least one of the coin unless the block is easier (a coin with whole difficulties rounds down);
  a share of it is credited with the difficulty by the factor of the coin; the job is the newest of
  the miner's valid jobs and the one its answers are taken from, for the block it was made of, and
  a difficulty that was set for the miner is in force.\<close>

theorem job_difficulty_fair:
  assumes "getCoinJob params coin jp bt m = (Inr (Some payload), m', bt')" and "cb_ok (Suc n) (jm_validJobs m)"
    and "profileOf params (Port_key (ct_port bt)) = Some profile"
  shows "jb_difficulty (jp_job payload) \<le> ct_difficulty bt \<and>
    (let least = min (vm_curr_coin_min_diff m) (ct_difficulty bt)
     in (if ps_integerDifficulty (je_settings params profile) then js_floor least else least) \<le> jb_difficulty (jp_job payload)) \<and>
    jb_norm_diff (jp_job payload) = fl (jb_difficulty (jp_job payload) * fl (jp_coinHashFactor jp * jp_hashesPerDifficulty jp)) \<and>
    jb_blockHash (jp_job payload) = ct_idHash bt \<and> last (cb_toarray (jm_validJobs m')) = jp_job payload \<and>
    vm_cachedJob m' = Some payload \<and> vm_jobLastBlockHash m' = Some (ct_idHash bt) \<and> \<not> truthyDiff (vm_newDiffToSet m') \<and>
    (truthyDiff (vm_newDiffToSet m) \<longrightarrow> Some (vm_difficulty m') = vm_newDiffToSet m)"
proof -
  let ?m = "takeDifficulty (m\<lparr>vm_jobLastBlockHash := Some (ct_idHash bt)\<rparr>)"
  obtain jid nonce proxy k where job: "jp_job payload = buildJob jid coin bt' (cp_blobType profile) (coinDiff (je_settings params profile) jp bt ?m) jp nonce proxy"
    and m': "m' = ?m\<lparr>jm_eth_extranonce := k, jm_validJobs := cb_enq (jp_job payload) (jm_validJobs m), vm_cachedJob := Some payload\<rparr>"
    and bt': "coin_template.truncate bt' = coin_template.truncate bt"
    using job_made [OF assms(1)] assms(3) by auto
  have least: "vm_curr_coin_min_diff ?m = vm_curr_coin_min_diff m" by (simp add: takeDifficulty_def)
  have floor: "js_floor x \<le> x" "x \<le> y \<Longrightarrow> js_floor x \<le> js_floor y" for x y
    by (simp_all add: js_floor_def floor_mono)
  define d where "d = (case vm_difficulty ?m of
      Some x \<Rightarrow> if fl (jp_coinHashFactor jp * jp_hashesPerDifficulty jp) = 0 then ct_difficulty bt
                else min (max (fl (x / fl (jp_coinHashFactor jp * jp_hashesPerDifficulty jp))) (vm_curr_coin_min_diff ?m)) (ct_difficulty bt)
    | None \<Rightarrow> ct_difficulty bt)"
  have cd: "coinDiff (je_settings params profile) jp bt ?m = (if ps_integerDifficulty (je_settings params profile) then js_floor d else d)"
    by (simp add: coinDiff_def d_def Let_def)
  have d: "d \<le> ct_difficulty bt" "min (vm_curr_coin_min_diff m) (ct_difficulty bt) \<le> d"
    by (auto simp: d_def least split: option.split)
  have jd: "jb_difficulty (jp_job payload) = (if ps_integerDifficulty (je_settings params profile) then js_floor d else d)"
    by (simp add: job buildJob_def Let_def cd)
  have "cb_toarray (cb_enq (jp_job payload) (jm_validJobs m)) = last_n (Suc n) (cb_toarray (jm_validJobs m) @ [jp_job payload])"
    by (rule enq_content [OF assms(2)])
  then have "last (cb_toarray (jm_validJobs m')) = jp_job payload"
    by (simp add: m' last_n_def) 
  moreover have "jb_difficulty (jp_job payload) \<le> ct_difficulty bt"
    using d(1) floor(1) [of d] by (auto simp: jd)
  moreover have "jb_norm_diff (jp_job payload) = fl (jb_difficulty (jp_job payload) * fl (jp_coinHashFactor jp * jp_hashesPerDifficulty jp))"
    "jb_blockHash (jp_job payload) = ct_idHash bt"
    using truncate_fields [OF bt'] by (simp_all add: job buildJob_def Let_def)
  moreover have "\<not> truthyDiff (vm_newDiffToSet ?m)" "truthyDiff (vm_newDiffToSet m) \<longrightarrow> Some (vm_difficulty ?m) = vm_newDiffToSet m"
    "vm_jobLastBlockHash ?m = Some (ct_idHash bt)"
    by (auto simp: takeDifficulty_def truthyDiff_def split: option.splits)
  moreover have "(if ps_integerDifficulty (je_settings params profile) then js_floor (min (vm_curr_coin_min_diff m) (ct_difficulty bt))
      else min (vm_curr_coin_min_diff m) (ct_difficulty bt)) \<le> jb_difficulty (jp_job payload)"
    using d(2) floor(2) by (simp add: jd)
  ultimately show ?thesis by (simp add: m' Let_def)
qed

subsection \<open>The blobs of a template\<close>

text \<open>Any calls for a blob, the ones with a child nonce marked, and what they return.\<close>

fun hand_out :: "(byte list \<Rightarrow> int \<Rightarrow> byte list option) \<Rightarrow> bool list \<Rightarrow> block_template \<Rightarrow> blob_result list" where
  "hand_out conv [] bt = []"
| "hand_out conv (child # calls) bt =
     (let (r, bt1) = (if child then nextBlobWithChildNonceHex bt else nextBlobHex conv bt) in r # hand_out conv calls bt1)"

definition blob_of :: "nat \<Rightarrow> block_template \<Rightarrow> byte list" where
  "blob_of k bt = bt_buffer (handed k bt)"

lemma handed_step: "handed k (snd (nextNonce bt)) = handed (Suc k) bt"
  by (simp add: handed_def funpow_swap1)

lemma handed_room: "has_room bt \<Longrightarrow> bt_extraNonce bt + k < 2 ^ 32 \<Longrightarrow> has_room (handed k bt) \<and> bt_extraNonce (handed k bt) = bt_extraNonce bt + k \<and> ct_port (handed k bt) = ct_port bt"
proof (induction k)
  case (Suc k)
  then have ih: "has_room (handed k bt)" "bt_extraNonce (handed k bt) = bt_extraNonce bt + k" "ct_port (handed k bt) = ct_port bt" by auto
  have "handed (Suc k) bt = snd (nextNonce (handed k bt))" by (simp add: handed_def)
  then show ?case using ih Suc.prems next_nonce [OF ih(1)] by (auto simp: has_room_def)
qed (simp add: handed_def)

lemma hand_out_blobs:
  "has_room bt \<Longrightarrow> bt_extraNonce bt + length calls < 2 ^ 32 \<Longrightarrow> i < length calls \<Longrightarrow>
   hand_out conv calls bt ! i =
     (if calls ! i then Inr (Some (hex_of_bytes (blob_of (Suc i) bt))) else Inr (map_option hex_of_bytes (conv (blob_of (Suc i) bt) (ct_port bt))))"
proof (induction calls arbitrary: bt i)
  case (Cons child calls)
  obtain bt1 where n: "nextNonce bt = (True, bt1)" using next_nonce [OF Cons.prems(1)] Cons.prems(2) by simp
  then have h: "handed (Suc 0) bt = bt1" by (simp add: handed_def)
  have r: "has_room bt1" "bt_extraNonce bt1 + length calls < 2 ^ 32" "ct_port bt1 = ct_port bt"
    using handed_room [OF Cons.prems(1), of "Suc 0"] Cons.prems(2) by (simp_all add: h)
  have step: "hand_out conv (child # calls) bt =
      (if child then Inr (Some (hex_of_bytes (bt_buffer bt1))) else Inr (map_option hex_of_bytes (conv (bt_buffer bt1) (ct_port bt)))) # hand_out conv calls bt1"
    using Cons.prems(1) r(3) by (subst hand_out.simps)
      (simp add: nextBlobHex_def nextBlobWithChildNonceHex_def n has_room_def Let_def)
  show ?case
  proof (cases i)
    case 0
    then show ?thesis unfolding step by (simp add: blob_of_def h)
  next
    case (Suc j)
    have "blob_of (Suc j) bt1 = blob_of (Suc i) bt" using handed_step [of "Suc j" bt] by (simp add: blob_of_def n Suc)
    then show ?thesis unfolding step using Cons.IH [OF r(1,2), of j] Cons.prems(3) Suc r(3) by simp
  qed
qed simp

lemma offset_instance: "getReservedOffset t (cfg\<lparr>tc_instanceId := x\<rparr>) b = getReservedOffset t cfg b"
  by (simp add: getReservedOffset_def Let_def split: option.split)

lemma blob_parts:
  assumes "BlockTemplate cfg t = Some bt" "has_room bt" "length (tc_instanceId cfg) = 4" "0 < k" "k < 2 ^ 32"
  shows "readAt (blob_of k bt) (bt_reserved_offset bt) 4 = be_bytes k \<and>
    readAt (blob_of k bt) (bt_reserved_offset bt + 4) 4 = tc_instanceId cfg"
proof -
  let ?off = "bt_reserved_offset bt"
  have room: "?off + 8 \<le> length (bt_buffer bt)" using assms(2) by (simp add: has_room_def)
  have b: "blob_of k bt = writeAt (bt_buffer bt) ?off (be_bytes k)"
    using handed_buffer [OF assms(2) template_buffer(1) [OF assms(1-3)] assms(5)] assms(4) by (simp add: blob_of_def)
  have "readAt (blob_of k bt) ?off 4 = be_bytes k"
    using read_written [of ?off "be_bytes k" "bt_buffer bt"] room by (simp add: b)
  moreover have "readAt (blob_of k bt) (?off + 4) 4 = readAt (bt_buffer bt) (?off + 4) 4"
    unfolding b by (rule read_beside) (use room in simp_all)
  ultimately show ?thesis using template_buffer(2) [OF assms(1-3)] by simp
qed

text \<open>C35. No work is given out twice: for any calls of two processes of the pool for blobs of the same daemon
  template, a call gets the blob of its number, as it is or converted for hashing; and two of these
  blobs are the same only if they are the same call of the same process, processes being told
  apart by the pool's number modulo \<open>2 ^ 10\<close> and the process id modulo \<open>2 ^ 22\<close>. There is room in the
  reserved area, and there are fewer than \<open>2 ^ 32\<close> calls.\<close>

theorem no_work_twice:
  assumes "BlockTemplate (cfg\<lparr>tc_instanceId := instanceId p q\<rparr>) t = Some bt" and "has_room bt"
    and "BlockTemplate (cfg\<lparr>tc_instanceId := instanceId p' q'\<rparr>) t = Some bt'" and "has_room bt'"
    and "i < length calls" and "length calls < 2 ^ 32" and "i' < 2 ^ 32 - 1"
  shows "hand_out conv calls bt ! i =
      (if calls ! i then Inr (Some (hex_of_bytes (blob_of (Suc i) bt))) else Inr (map_option hex_of_bytes (conv (blob_of (Suc i) bt) (ct_port bt)))) \<and>
    (blob_of (Suc i) bt = blob_of (Suc i') bt' \<longrightarrow> i = i' \<and> p mod 2 ^ 10 = p' mod 2 ^ 10 \<and> q mod 2 ^ 22 = q' mod 2 ^ 22)"
proof -
  let ?cfg = "cfg\<lparr>tc_instanceId := instanceId p q\<rparr>" and ?cfg' = "cfg\<lparr>tc_instanceId := instanceId p' q'\<rparr>"
  have len: "length (tc_instanceId ?cfg) = 4" "length (tc_instanceId ?cfg') = 4" by (simp_all add: instanceId_def)
  have off: "bt_reserved_offset bt = bt_reserved_offset bt'"
    using assms(1-4) by (auto simp: BlockTemplate_def blockTemplate_base_def offset_instance has_room_def Let_def split: if_splits)
  have "bt_extraNonce bt = 0" by (rule template_buffer(1) [OF assms(1,2) len(1)])
  then have "hand_out conv calls bt ! i =
      (if calls ! i then Inr (Some (hex_of_bytes (blob_of (Suc i) bt))) else Inr (map_option hex_of_bytes (conv (blob_of (Suc i) bt) (ct_port bt))))"
    using hand_out_blobs [OF assms(2) _ assms(5)] assms(6) by simp
  moreover have "i = i' \<and> p mod 2 ^ 10 = p' mod 2 ^ 10 \<and> q mod 2 ^ 22 = q' mod 2 ^ 22"
    if "blob_of (Suc i) bt = blob_of (Suc i') bt'"
  proof -
    have bytes: "be_bytes (Suc i) = be_bytes (Suc i')" "instanceId p q = instanceId p' q'"
      using blob_parts [OF assms(1,2) len(1), of "Suc i"] blob_parts [OF assms(3,4) len(2), of "Suc i'"] that off assms(5-7) by auto
    from be_inj [OF bytes(1)] instance_inj [OF bytes(2)] assms(5-7) show ?thesis by simp
  qed
  ultimately show ?thesis by blast
qed

subsection \<open>The properties at work\<close>

definition ex_profile :: coin_profile where
  "ex_profile = \<lparr>cp_port = 18081, cp_coin = Some [], cp_displayCoin = ''XMR'', cp_algo = ''rx/0'', cp_blobType = 0, cp_blobTypeName = ''cryptonote'',
     cp_aliases = [''XMR''], cp_listed = True, cp_minerAlgoAliases = [], cp_mainAlgo = True, cp_prevMainAlgo = False, cp_defaultPerf = Some 1,
     cp_prevDefaultPerf = None, cp_extraPrevDefaultPerf = [], cp_perfAliases = [''rx/0''], cp_legacyDifficultyAliases = [], cp_childPort = None,
     cp_nonceSize = 4, cp_proofSize = 32, cp_minDifficulty = None, cp_hashesPerDifficulty = None, cp_niceHashDiffMultiplier = None\<rparr>"

definition ex_registry :: coin_registry where
  "ex_registry = loadRegistry [ex_profile]"

definition ex_template :: block_template where
  "ex_template = \<lparr>ct_port = 18081, ct_difficulty = 5000, ct_height = 7, ct_idHash = ''id'', bt_coin = [], bt_seed_hash = None, bt_xmr_difficulty = 5000,
     bt_xtm_height = None, bt_xtm_difficulty = None, bt_hash = Some ''blob'', bt_buffer = [], bt_block_version = 0, bt_reserved_offset = 0,
     bt_own_nonce = False, bt_extraNonce = 0, bt_disableProxyNonce = False, bt_clientNonceLocation = None, bt_clientPoolLocation = None\<rparr>"

definition ex_coin_env :: coin_env where
  "ex_coin_env = \<lparr>ce_registry = ex_registry, ce_mainProfile = ex_profile, ce_coins = [], ce_activeBlockTemplates = (\<lambda>c. if c = [] then Some (coin_template.truncate ex_template) else None),
     ce_lastCoinHashFactorMM = (\<lambda>c. if c = [] then Some 1 else None), ce_unsupportedAlgos = (\<lambda>_. []), ce_minDifficulty = 100, ce_targetTime = 30,
     ce_retargetTime = 60, ce_varDiffVariance = Some 20, ce_throttlePerSec = 5, ce_throttleWindow = 10, ce_trustedMiners = True\<rparr>"

definition ex_job_miner :: job_miner where
  "ex_job_miner = \<lparr>vm_payout = ''alice'', vm_agent = ''XMRig/6.0.0'', vm_proxy = False, vm_fixed_diff = False, vm_difficulty = Some 1000,
     vm_newDiffRecommendation = None, vm_newDiffToSet = Some (Some 2000),
     vm_source = \<lparr>ds_hashes = 90000, ds_connectTime = 1000, ds_connectTimeShift = 0, ds_hashesShift = 0\<rparr>,
     vm_algos = [(''rx/0'', 1)], vm_coin_perf = [([], 1)], vm_algo_min_time = 60, vm_curr_coin = Coin [], vm_curr_coin_time = 1000,
     vm_curr_coin_min_diff = 100, vm_cachedJob = None, vm_jobLastBlockHash = None, vm_check_height = Some 0,
     jm_port = 3333, jm_validJobs = circularBuffer 10, jm_eth_extranonce = None, jm_mo_native = False, jm_grin = False, jm_nativeJobAlgo = None\<rparr>"

definition ex_job_env :: job_env where
  "ex_job_env = \<lparr>je_coin = ex_coin_env,
     je_settings = (\<lambda>_. \<lparr>ps_integerDifficulty = False, ps_sharedTemplateNonces = False, ps_requiresExtranonce = False, ps_disableProxyNonce = False, ps_useEthJobId = False\<rparr>),
     je_newId = ''1'', je_newEthJobId = ''1'', je_extranonce = None, je_convertBlob = (\<lambda>b _. Some b)\<rparr>"

definition ex_job_params :: job_params where
  "ex_job_params = \<lparr>jp_coinHashFactor = 1, jp_hashesPerDifficulty = 1, jp_algo_name = ''rx/0''\<rparr>"

lemma ex_stays: "selectBestCoin ex_coin_env 500000 ex_job_miner = (Some [], ex_job_miner)"
proof -
  have far: "\<not> of_int (500000 - 1000) < fl (60 * 1000 :: num)" using fl_of_int [of 60000] by simp
  have "bestCoinOf ex_coin_env ex_job_miner = Some []"
    by (simp add: bestCoinOf_def mainWorth_def ex_coin_env_def ex_job_miner_def not_less)
  then show ?thesis
    using far by (simp add: selectBestCoin_def takeCoin_def ex_job_miner_def)
qed

lemma best_coin_witness:
  "vm_curr_coin ex_job_miner = Coin [] \<and> highest ex_coin_env ex_job_miner []"
proof -
  have far: "\<not> stays ex_coin_env 500000 ex_job_miner"
    using fl_of_int [of 60000] by (simp add: stays_def ex_job_miner_def)
  have "\<not> unmeasured ex_coin_env ex_job_miner" by (simp add: unmeasured_def mainWorth_def ex_job_miner_def not_less)
  then show ?thesis using best_coin [OF ex_stays] far by simp
qed



lemma ex_profile_of: "profileOf ex_job_env (Port_key 18081) = Some ex_profile"
  by (simp add: profileOf_def resolveProfileKey_def ex_job_env_def ex_coin_env_def ex_registry_def loadRegistry_def noProfiles_def
      registerProfile_def registerProfileBasics_def registerProfilePerf_def registerMinerAlgoAliases_def resolveProfile_def ex_profile_def Let_def)

lemma job_difficulty_fair_witness:
  "\<exists>payload m' bt'. getCoinJob ex_job_env [] ex_job_params ex_template ex_job_miner = (Inr (Some payload), m', bt') \<and>
    jb_difficulty (jp_job payload) \<le> ct_difficulty ex_template \<and>
    (let least = min (vm_curr_coin_min_diff ex_job_miner) (ct_difficulty ex_template)
     in (if ps_integerDifficulty (je_settings ex_job_env ex_profile) then js_floor least else least) \<le> jb_difficulty (jp_job payload)) \<and>
    jb_norm_diff (jp_job payload) = fl (jb_difficulty (jp_job payload) * fl (jp_coinHashFactor ex_job_params * jp_hashesPerDifficulty ex_job_params)) \<and>
    jb_blockHash (jp_job payload) = ct_idHash ex_template \<and> last (cb_toarray (jm_validJobs m')) = jp_job payload \<and>
    vm_cachedJob m' = Some payload \<and> vm_jobLastBlockHash m' = Some (ct_idHash ex_template) \<and> \<not> truthyDiff (vm_newDiffToSet m') \<and>
    vm_difficulty m' = Some 2000"
proof -
  have p: "profileOf ex_job_env (Port_key (ct_port ex_template)) = Some ex_profile" using ex_profile_of by (simp add: ex_template_def)
  have "\<exists>payload m' bt'. getCoinJob ex_job_env [] ex_job_params ex_template ex_job_miner = (Inr (Some payload), m', bt')"
    unfolding getCoinJob_def p
    by (simp add: Let_def makeJob_def keepJob_def usesProxyNonce_def nextBlobHex_def takeDifficulty_def ex_job_miner_def ex_template_def)
  then obtain payload m' bt' where j: "getCoinJob ex_job_env [] ex_job_params ex_template ex_job_miner = (Inr (Some payload), m', bt')" by blast
  have "cb_ok (Suc 9) (jm_validJobs ex_job_miner)" using circularBuffer_ok(1) [of 10] by (simp add: ex_job_miner_def)
  from job_difficulty_fair [OF j this p] j show ?thesis by (auto simp: truthyDiff_def ex_job_miner_def)
qed

definition ex_tmpl_cfg :: template_config where
  "ex_tmpl_cfg = \<lparr>tc_hashOnly = False, tc_reserveOffsetSource = From_template, tc_template_hex = ''0201'', tc_merged_hex = ''0202'', tc_is_mm_port = False,
     tc_idHash = (\<lambda>b. b), tc_instanceId = []\<rparr>"

definition ex_msg :: template_msg where
  "ex_msg = \<lparr>tm_coin = [], tm_port = 18081, tm_height = 7, tm_difficulty = 5000, tm_mbl_difficulty = 0, tm_wide_difficulty = None, tm_aux_base = None,
     tm_aux = None, tm_has_aux = False, tm_seed_hash = None, tm_blob = ''00112233445566778899'', tm_is_mm = False, tm_parent_blob = None, tm_hash = None,
     tm_reserved_offset = Some 2, tm_reservedOffset = None, tm_bt_nonce_size = None, tm_no_proxy_nonce = False\<rparr>"

definition ex_made :: "nat \<Rightarrow> block_template" where
  "ex_made pid = the (BlockTemplate (ex_tmpl_cfg\<lparr>tc_instanceId := instanceId 1 pid\<rparr>) ex_msg)"

lemma ex_made_ok: "BlockTemplate (ex_tmpl_cfg\<lparr>tc_instanceId := instanceId 1 pid\<rparr>) ex_msg = Some (ex_made pid)" "has_room (ex_made pid)"
proof -
  have "length (bytes_of_hex ''00112233445566778899'') = 10"
    by (simp add: hex_value_def lower_char_def Let_def)
  then show "BlockTemplate (ex_tmpl_cfg\<lparr>tc_instanceId := instanceId 1 pid\<rparr>) ex_msg = Some (ex_made pid)" "has_room (ex_made pid)"
    by (simp_all add: ex_made_def BlockTemplate_def blockTemplate_base_def ex_tmpl_cfg_def ex_msg_def getReservedOffset_def orNull_def has_room_def
        copyAt_def writeAt_def instanceId_def Let_def)
qed

lemma no_work_twice_witness:
  "hand_out (\<lambda>b _. Some b) [True, False] (ex_made 5) ! 1 = Inr (Some (hex_of_bytes (blob_of (Suc 1) (ex_made 5)))) \<and>
    blob_of (Suc 1) (ex_made 5) \<noteq> blob_of (Suc 3) (ex_made 6)"
proof -
  have "hand_out (\<lambda>b _. Some b) [True, False] (ex_made 5) ! 1 =
      (if [True, False] ! 1 then Inr (Some (hex_of_bytes (blob_of (Suc 1) (ex_made 5))))
       else Inr (map_option hex_of_bytes ((\<lambda>b _. Some b) (blob_of (Suc 1) (ex_made 5)) (ct_port (ex_made 5))))) \<and>
    (blob_of (Suc 1) (ex_made 5) = blob_of (Suc 3) (ex_made 6) \<longrightarrow>
      (1 :: nat) = 3 \<and> (1 :: nat) mod 2 ^ 10 = 1 mod 2 ^ 10 \<and> (5 :: nat) mod 2 ^ 22 = 6 mod 2 ^ 22)"
    by (rule no_work_twice [OF ex_made_ok ex_made_ok]) simp_all
  then show ?thesis by simp
qed

end
