(* ===== verification/Spec2Isabelle.thy ===== *)
theory Spec2Isabelle
  imports Payments_Properties Block_Properties Share_Properties Pool_Properties
    Pending_Properties Trust_Properties Submit_Properties Cleanup_Properties
    History_Properties Worker_Properties Job_Properties
begin

text \<open>
  Verification of the accounting core of nodejs-pool, a mining pool backend.

  The program is a set of processes over two stores. Pool nodes collect shares;
  \<^verbatim>\<open>remote_share\<close> writes them to an LMDB store; \<^verbatim>\<open>block_manager\<close> turns the shares below a
  found block into weights and, once the block is confirmed, credits miner balances in
  MySQL; \<^verbatim>\<open>payments\<close> pays balances out through a wallet; \<^verbatim>\<open>long_runner\<close> deletes shares that
  no block needs any more. The development follows the money: what is credited, what is
  paid, and what other processes may do in between.

  \<^bold>\<open>Foundations.\<close>
  \<^item> \<open>Prelude\<close>: generic lemmas on lists, tables (association lists with \<open>update_where\<close> and
    \<open>count_where\<close> as SQL updates) and the collection \<open>triple_intros\<close>.
  \<^item> \<open>Js_Number\<close>, \<open>Js_Value\<close>: finite JavaScript numbers as rationals with the rounding \<open>fl\<close> to
    53 bits after each operation (exponents are unbounded, so overflow to infinity is not
    modelled), and dynamically typed values with conversions.
  \<^item> \<open>Prog\<close>: an \<^verbatim>\<open>async\<close> function is a program with state and thrown errors; \<open>triple P m Q\<close>
    is total correctness and \<open>keeps I m\<close> an invariant. \<open>Ledger\<close>: the interface \<open>ledger\<close> of a
    labelled step system with an invariant and a total, and what follows for its runs.

  \<^bold>\<open>Payouts\<close> (\<^verbatim>\<open>src/lib/payments.js\<close>, \<^verbatim>\<open>src/lib/payments/*.js\<close>). \<open>Payments_Common\<close> has the
  helpers, \<open>Payments_Store\<close> the tables and the guarded SQL statements and transactions,
  \<open>Payments_Planner\<close> fees and batch planning, \<open>Payments_Processor\<close> the batch state machine with
  submit, search, reconcile, finalize and release, \<open>Payments_Lock\<close> the advisory lock and
  \<open>Payments_Runtime\<close> the cycle. \<open>Payments_Steps\<close> states the durable transitions as an inductive
  relation with its invariant and interprets \<open>ledger\<close>; \<open>Payments_Safety\<close> and \<open>Payments_Cycle\<close>
  lift it to whole cycles; \<open>Payments_Properties\<close> has the properties. The wallet's replies, the
  outcome of every query (also effects whose acknowledgement is lost), the clock, the lock and
  the steps of other processes between any two awaited calls are parameters of the world.

  \<^bold>\<open>Block manager\<close> (\<^verbatim>\<open>src/lib/block_manager.js\<close>). \<open>Local_Db\<close> is the LMDB store of
  \<^verbatim>\<open>src/lib/common/local_comms.js\<close>; \<open>Pplns\<close> the weights of a block from its shares, with
  rounding; \<open>Block_Store\<close> the SQL statements, among them the transaction that credits a block;
  \<open>Block_Manager\<close> the programs from the balance lookup to the unlocker cycle. \<open>Block_Steps\<close>
  gives the database its step relation and shows that on the shared tables every step is a
  run of the payout subsystem's steps, so the two compose. \<open>Block_Safety\<close> states the interfaces
  \<open>precalc_client\<close> and \<open>store_client\<close>, what an assertion must be closed under, and proves every
  program inside them; they are interpreted on the assertion that a run is safe and on the
  assertion that nothing is paid. \<open>Block_Accounts\<close> is the id cache. \<open>Block_Properties\<close> has
  the properties. Balance ids are looked up one after the other. The retry at the top height in
  \<open>preCalculatePPLNSPayments\<close> has no bound in the source: the environment gives the fuel, and
  running out of it is an error value, so no property depends on enough fuel.

  \<^bold>\<open>Shares and services.\<close> \<open>Pplns_Bounds\<close> bounds the rounding of the PPLNS scan;
  \<open>Share_Cleanup\<close> is \<open>cleanShareDB\<close>, with LMDB calls that throw and deletions committed in batches,
  and the proof that it deletes nothing a waiting block reads;
  \<open>Share_Store\<close> is \<^verbatim>\<open>src/lib/remote_share/share_store.js\<close>; \<open>Rate_Limit\<close> is
  \<^verbatim>\<open>src/lib/pool/security.js\<close> with the limits of \<^verbatim>\<open>protocol.js\<close> that share its buckets; \<open>Task_Queue\<close> is \<^verbatim>\<open>src/lib/common/callbacks.js\<close>; \<open>Timers\<close> the cycle
  timers of both runtimes. \<open>Share_Properties\<close> has their properties.

  \<^bold>\<open>Pool node.\<close> \<open>Miner_Login\<close> is the login line of a miner with its payout split and the
  validation of \<^verbatim>\<open>src/lib/pool/miners.js\<close>; \<open>Miner_Registry\<close> the tables of connected miners and
  proxies of \<^verbatim>\<open>src/lib/pool/miner_registry.js\<close> with the wallet registration of
  \<^verbatim>\<open>src/lib/pool/protocol.js\<close>; \<open>Share_Accumulator\<close> the batches of accepted work of
  \<^verbatim>\<open>src/lib/pool/shares.js\<close> and how a batch is split over payout addresses; \<open>Pool_Properties\<close> has
  their properties. \<open>Circular_Buffer\<close> is the ring buffer of \<^verbatim>\<open>src/lib/common/support.js\<close> against
  the interface \<open>bounded_history\<close>; \<open>Share_Submit\<close> the submit handler of \<^verbatim>\<open>protocol.js\<close> with job and
  template lookup, duplicate tracking, bans and the callback of the share processor;
  \<open>Submit_Properties\<close> has their properties. \<open>Trust_Gate\<close> is the gate that makes shares of a
  trusted wallet wait while one of them is verified, and the trust lottery of
  \<^verbatim>\<open>src/lib/pool/share_blocks.js\<close>; \<open>Trust_Safety\<close> its invariant, \<open>Trust_Properties\<close> its properties.
  Objects that closures share (gates, queue entries, jobs, templates) have addresses in a heap.
  A submission hands a share to the gate and is called back; that the callback comes exactly
  once, which the step relation of \<open>Share_Submit\<close> takes for granted, is a property of the gate.

  \<^bold>\<open>Found blocks.\<close> \<open>Pending_Jobs\<close> is \<^verbatim>\<open>src/lib/remote_share/pending_jobs.js\<close>: a found block
  is a persistent job until a daemon reports its reward. \<open>Pending_Safety\<close> has the invariant of its
  reachable states, crashes included, \<open>Pending_Properties\<close> the properties. It writes the block
  tables of \<open>Local_Db\<close> that the block manager reads.

  \<^bold>\<open>Coins, difficulties and jobs.\<close> \<open>Coin_Registry\<close> is the registry of coin profiles
  (\<^verbatim>\<open>src/lib/coins/core/registry.js\<close>, \<^verbatim>\<open>constants.js\<close>) with the lookups of \<^verbatim>\<open>src/lib/coins/index.js\<close>;
  a profile has the fields that these use. \<open>Block_Template\<close> is the block template with its reserved
  area and the extra nonces that make each blob unique. \<open>Miner_Difficulty\<close> has the methods of a
  miner that choose its coin and follow its rate (\<^verbatim>\<open>src/lib/pool/miners.js\<close>, \<^verbatim>\<open>miner_registry.js\<close>),
  \<open>Miner_Jobs\<close> the jobs of \<^verbatim>\<open>src/lib/pool/jobs.js\<close>. \<open>Difficulty_Properties\<close> and \<open>Job_Properties\<close> show
  that the two alias tables agree, that a miner gets the coin it earns most with, when a difficulty
  moves, that jobs are fair, and that no blob is given out twice.

  \<^bold>\<open>Statistics.\<close> \<open>Worker_Stats\<close> and \<open>Worker_Alerts\<close> are \<^verbatim>\<open>src/lib/worker.js\<close>: the cycle that turns
  the shares of a window into rates in the cache, batched writes and the writes of other processes
  between them included, and the mails about workers that stop and start. \<open>Worker_Stats_Safety\<close> has
  the lemmas on its programs, \<open>Worker_Properties\<close> the properties. \<open>Js_Buffer\<close> (bytes of a buffer,
  floats and base64) and \<open>Worker_History\<close> are the tiered rings of hash rates of
  \<^verbatim>\<open>src/lib/common/worker_history.js\<close>; \<open>Worker_History_Safety\<close> relates the rings to the lists they
  stand for, \<open>History_Properties\<close> has the properties.

  \<^bold>\<open>Cleanup.\<close> \<open>Db_Scan\<close> is the chunked scan of \<^verbatim>\<open>src/lib/long_runner.js\<close> over a table that other
  processes change between two chunks, a partial function whose properties say that it ends.
  \<open>Long_Runner\<close> cleans altblocks and block weights,
  \<open>Cache_Cleanup\<close> the cache; \<open>Cache_Safety\<close> and \<open>Cache_Rules\<close> have their lemmas,
  \<open>Cleanup_Properties\<close> the properties.

  \<^bold>\<open>Composition.\<close> The hypothesis of the payout properties on other processes (each of their
  moves is a run of \<open>db_step\<close>) is what the refinement property of the block manager proves of it,
  and the invariant of the block manager contains that of the payouts. \<open>db_step\<close> also has the writes
  of the API and the user scripts to the \<open>users\<close> table. The operator scripts that edit balances and
  batches by hand (\<^verbatim>\<open>src/manage_scripts\<close>, \<^verbatim>\<open>src/user_scripts/user_balance_move_common.js\<close>) are no
  steps of it: the properties hold while none of them runs.

  \<^bold>\<open>Not modelled.\<close> The Stratum servers and their framing, hash verification, the profiles of the
  single coins under \<^verbatim>\<open>src/lib/coins\<close> (sockets, native hashing packages, daemon calls and per-coin
  data), the HTTP services, market statistics, mail and log texts, the share dump for auditors, and
  the LMDB, MySQL and protobuf packages themselves, whose behaviour enters as tables, outcomes and
  parameters.
\<close>

end
